(* ===== verification/QmkPrelude.thy ===== *)
theory QmkPrelude
  imports Main "HOL-Library.Word"
begin

unbundle bit_operations_syntax

text \<open>
  Shared vocabulary of the development: the machine integers of the firmware, the wrap-around
  timer arithmetic of \<^verbatim>\<open>platforms/timer.h\<close>, the collections of rewrite rules the component
  theories use, and generic facts on bits, words and lists.
\<close>

section \<open>Machine integers\<close>

type_synonym u8 = "8 word"
type_synonym u16 = "16 word"
type_synonym u32 = "32 word"
type_synonym u64 = "64 word"

named_theorems timer_simps "unfolding of the timer macros"
named_theorems layout_simps "sizes and well-formedness of buffers and tables"
named_theorems frame_simps "fields an operation does not write"

section \<open>Single bits\<close>

text \<open>
  Every mask of the firmware is built from \<^verbatim>\<open>1 << n\<close>; \<open>bv n\<close> is that mask.
\<close>

definition bv :: "nat \<Rightarrow> 'a::len word" where
  "bv n = push_bit n 1"

lemma bit_bv_iff [simp]: "bit (bv n :: 'a::len word) m \<longleftrightarrow> m = n \<and> n < LENGTH('a)"
  unfolding bv_def by (auto simp: bit_exp_iff)

lemma bit_times_two_iff [simp]:
  "bit (w * 2 :: 'a::len word) n \<longleftrightarrow> 0 < n \<and> n < LENGTH('a) \<and> bit w (n - 1)"
proof -
  have "w * 2 = push_bit 1 w" by simp
  then show ?thesis by (simp only: bit_push_bit_iff) auto
qed

lemma bit_low_masks [simp]:
  "bit (15 :: 'a::len word) n \<longleftrightarrow> n < 4 \<and> n < LENGTH('a)"
  "bit (31 :: 'a::len word) n \<longleftrightarrow> n < 5 \<and> n < LENGTH('a)"
  "bit (63 :: 'a::len word) n \<longleftrightarrow> n < 6 \<and> n < LENGTH('a)"
  "bit (127 :: 'a::len word) n \<longleftrightarrow> n < 7 \<and> n < LENGTH('a)"
  "bit (255 :: 'a::len word) n \<longleftrightarrow> n < 8 \<and> n < LENGTH('a)"
  "bit (65535 :: 'a::len word) n \<longleftrightarrow> n < 16 \<and> n < LENGTH('a)"
proof -
  have m: "15 = (mask 4 :: 'a word)" "31 = (mask 5 :: 'a word)" "63 = (mask 6 :: 'a word)"
    "127 = (mask 7 :: 'a word)" "255 = (mask 8 :: 'a word)" "65535 = (mask 16 :: 'a word)"
    by (simp_all add: mask_eq_decr_exp)
  show "bit (15 :: 'a word) n \<longleftrightarrow> n < 4 \<and> n < LENGTH('a)"
    "bit (31 :: 'a word) n \<longleftrightarrow> n < 5 \<and> n < LENGTH('a)"
    "bit (63 :: 'a word) n \<longleftrightarrow> n < 6 \<and> n < LENGTH('a)"
    "bit (127 :: 'a word) n \<longleftrightarrow> n < 7 \<and> n < LENGTH('a)"
    "bit (255 :: 'a word) n \<longleftrightarrow> n < 8 \<and> n < LENGTH('a)"
    "bit (65535 :: 'a word) n \<longleftrightarrow> n < 16 \<and> n < LENGTH('a)"
    by (simp_all only: m bit_mask_iff) auto
qed

lemma bit_low_masks_int [simp]:
  "bit (255 :: int) n \<longleftrightarrow> n < 8"
  "bit (65535 :: int) n \<longleftrightarrow> n < 16"
proof -
  have m: "255 = (mask 8 :: int)" "65535 = (mask 16 :: int)"
    by (simp_all add: mask_eq_exp_minus_1)
  show "bit (255 :: int) n \<longleftrightarrow> n < 8" "bit (65535 :: int) n \<longleftrightarrow> n < 16"
    by (simp_all only: m bit_mask_iff) auto
qed

lemma bit_or_bv: "n < LENGTH('a) \<Longrightarrow> bit (w OR bv n :: 'a::len word) m \<longleftrightarrow> m = n \<or> bit w m"
  by (auto simp: bit_or_iff)

lemma bit_and_not_bv: "bit (w AND NOT (bv n) :: 'a::len word) m \<longleftrightarrow> bit w m \<and> m \<noteq> n"
  by (auto simp: bit_and_iff bit_not_iff dest: bit_imp_le_length)

lemma bit_xor_bv: "n < LENGTH('a) \<Longrightarrow> bit (w XOR bv n :: 'a::len word) m \<longleftrightarrow> (if m = n then \<not> bit w n else bit w m)"
  by (auto simp: bit_xor_iff)

lemma and_bv_nonzero: "(w AND bv n :: 'a::len word) \<noteq> 0 \<longleftrightarrow> bit w n"
proof
  assume "w AND bv n \<noteq> 0"
  then obtain m where "bit (w AND bv n) m"
    by (auto simp: bit_eq_iff)
  then show "bit w n"
    by (auto simp: bit_and_iff)
next
  assume "bit w n"
  then have "bit (w AND bv n) n"
    by (auto simp: bit_and_iff dest: bit_imp_le_length)
  then show "w AND bv n \<noteq> 0"
    by auto
qed

lemma word_zero_iff_no_bit: "(w :: 'a::len word) = 0 \<longleftrightarrow> (\<forall>n < LENGTH('a). \<not> bit w n)"
  by (auto simp: bit_eq_iff dest: bit_imp_le_length)

lemma bit_imp_le_unat:
  assumes "bit (w :: 'a::len word) n"
  shows "2 ^ n \<le> unat w"
proof -
  have "bit (unat w) n" using assms by (simp add: bit_unsigned_iff)
  then have "odd (unat w div 2 ^ n)" by (simp add: bit_iff_odd)
  then show ?thesis by (metis div_less even_zero not_le)
qed

lemma unat_two_power: "n < LENGTH('a) \<Longrightarrow> unat (2 ^ n :: 'a::len word) = 2 ^ n"
proof -
  assume "n < LENGTH('a)"
  then have "(2 :: nat) ^ n < 2 ^ LENGTH('a)" by (intro power_strict_increasing) simp_all
  then have "unat (of_nat (2 ^ n) :: 'a word) = 2 ^ n"
    unfolding unat_of_nat by (rule mod_less)
  then show ?thesis by simp
qed

lemma xor_zero_iff_eq: "(a XOR b :: 'a::len word) = 0 \<longleftrightarrow> a = b"
  by (auto simp: bit_eq_iff bit_xor_iff)

section \<open>Timers\<close>

text \<open>
  \<^verbatim>\<open>TIMER_DIFF_16\<close> and \<^verbatim>\<open>TIMER_DIFF_32\<close> are differences at the width of the timer, which wrap;
  \<^verbatim>\<open>timer_expired\<close> reads a difference below half of the range as "the deadline has passed".
\<close>

definition timer_diff :: "'a::len word \<Rightarrow> 'a word \<Rightarrow> 'a word" where
  "timer_diff a b = a - b"

definition timer_expired :: "u16 \<Rightarrow> u16 \<Rightarrow> bool" where
  "timer_expired current future \<longleftrightarrow> current - future < 65535 div 2"

definition timer_expired32 :: "u32 \<Rightarrow> u32 \<Rightarrow> bool" where
  "timer_expired32 current future \<longleftrightarrow> current - future < 4294967295 div 2"

lemma timer_diff_self [simp]: "timer_diff t t = 0"
  by (simp add: timer_diff_def)

lemma timer_diff_add [simp]: "timer_diff (t + d) t = d"
  by (simp add: timer_diff_def)

lemma unat_timer_diff_add:
  "d < 2 ^ LENGTH('a) \<Longrightarrow> unat (timer_diff (t + of_nat d) t :: 'a::len word) = d"
  by (simp add: unat_of_nat take_bit_nat_eq_self)

section \<open>Lists\<close>

lemma nth_list_update_split:
  "i < length xs \<Longrightarrow> (xs[i := x]) ! j = (if j = i then x else xs ! j)"
  by simp

lemma take_drop_append_nth:
  "i < length xs \<Longrightarrow> take i xs @ xs ! i # drop (Suc i) xs = xs"
  by (simp add: id_take_nth_drop [symmetric])

end
