(* ===== verification/Bitwise.thy ===== *)
theory Bitwise
  imports QmkPrelude
begin

text \<open>
  The bit utilities of \<^verbatim>\<open>quantum/bitwise.c\<close> and the checksum of \<^verbatim>\<open>quantum/crc.c\<close>: population
  count, position of the highest set bit, bit reversal, and the two implementations of
  \<^verbatim>\<open>crc8\<close>.
\<close>

section \<open>Population count\<close>

text \<open>The loop \<^verbatim>\<open>for (c = 0; bits; c++) bits &= bits - 1;\<close> at any width.\<close>

function bitpop_loop :: "'a::len word \<Rightarrow> u8 \<Rightarrow> u8" where
  "bitpop_loop bits c = (if bits = 0 then c else bitpop_loop (bits AND (bits - 1)) (c + 1))"
  by pat_completeness auto
termination
proof (relation "measure (\<lambda>(bits, c). unat bits)", goal_cases)
  case 1
  then show ?case by simp
next
  case (2 bits c)
  have "unat (bits AND (bits - 1)) \<le> unat (bits - 1)"
    using word_and_le1 [of bits "bits - 1"] by (simp add: word_le_nat_alt)
  also have "unat (bits - 1) < unat bits"
    using 2 by (rule measure_unat)
  finally show ?case by simp
qed

definition bitpop :: "u8 \<Rightarrow> u8" where
  "bitpop bits = bitpop_loop bits 0"

definition bitpop16 :: "u16 \<Rightarrow> u8" where
  "bitpop16 bits = bitpop_loop bits 0"

definition bitpop32 :: "u32 \<Rightarrow> u8" where
  "bitpop32 bits = bitpop_loop bits 0"

section \<open>Highest set bit\<close>

text \<open>One \<^verbatim>\<open>if (bits >> k) { bits >>= k; n += k; }\<close> of the \<^verbatim>\<open>biton\<close> family.\<close>

definition biton_step :: "nat \<Rightarrow> 'a::len word \<times> u8 \<Rightarrow> 'a word \<times> u8" where
  "biton_step k s = (case s of (bits, n) \<Rightarrow>
     if drop_bit k bits \<noteq> 0 then (drop_bit k bits, n + of_nat k) else (bits, n))"

definition biton :: "u8 \<Rightarrow> u8" where
  "biton bits = snd (biton_step 1 (biton_step 2 (biton_step 4 (bits, 0))))"

definition biton16 :: "u16 \<Rightarrow> u8" where
  "biton16 bits = snd (biton_step 1 (biton_step 2 (biton_step 4 (biton_step 8 (bits, 0)))))"

definition biton32 :: "u32 \<Rightarrow> u8" where
  "biton32 bits = snd (biton_step 1 (biton_step 2 (biton_step 4 (biton_step 8
     (biton_step 16 (bits, 0))))))"

section \<open>Bit reversal\<close>

definition bitrev :: "u8 \<Rightarrow> u8" where
  "bitrev bits =
     (let bits = push_bit 4 (bits AND 0x0f) OR drop_bit 4 (bits AND 0xf0);
          bits = push_bit 2 (bits AND 0x33) OR drop_bit 2 (bits AND 0xcc);
          bits = push_bit 1 (bits AND 0x55) OR drop_bit 1 (bits AND 0xaa)
      in bits)"

definition bitrev16 :: "u16 \<Rightarrow> u16" where
  "bitrev16 bits =
     push_bit 8 (ucast (bitrev (ucast (bits AND 0x00ff))))
       OR ucast (bitrev (ucast (drop_bit 8 (bits AND 0xff00))))"

definition bitrev32 :: "u32 \<Rightarrow> u32" where
  "bitrev32 bits =
     push_bit 16 (ucast (bitrev16 (ucast (bits AND 0x0000ffff))))
       OR ucast (bitrev16 (ucast (drop_bit 16 (bits AND 0xffff0000))))"

section \<open>CRC-8\<close>

text \<open>
  \<^verbatim>\<open>crc_t\<close> is \<^verbatim>\<open>uint_least8_t\<close>, or \<^verbatim>\<open>uint_fast8_t\<close> when optimised for speed, which may be wider
  than a byte: the bitwise algorithm is defined at any width. \<open>crc8_bit\<close> is one round of its
  inner loop.
\<close>

definition crc8_bit :: "'c::len word \<Rightarrow> 'c word" where
  "crc8_bit crc = (if crc AND 0x80 \<noteq> 0 then push_bit 1 crc XOR 0x31 else push_bit 1 crc)"

definition crc8_bitwise :: "'c::len itself \<Rightarrow> u8 list \<Rightarrow> u8" where
  "crc8_bitwise ty d =
     ucast (foldl (\<lambda>crc b. (crc8_bit ^^ 8) (crc XOR ucast b)) (0xff :: 'c word) d)"

definition crc_table :: "u8 list" where
  "crc_table = [
    0x00, 0x07, 0x0e, 0x09, 0x1c, 0x1b, 0x12, 0x15, 0x38, 0x3f, 0x36, 0x31, 0x24, 0x23, 0x2a, 0x2d,
    0x70, 0x77, 0x7e, 0x79, 0x6c, 0x6b, 0x62, 0x65, 0x48, 0x4f, 0x46, 0x41, 0x54, 0x53, 0x5a, 0x5d,
    0xe0, 0xe7, 0xee, 0xe9, 0xfc, 0xfb, 0xf2, 0xf5, 0xd8, 0xdf, 0xd6, 0xd1, 0xc4, 0xc3, 0xca, 0xcd,
    0x90, 0x97, 0x9e, 0x99, 0x8c, 0x8b, 0x82, 0x85, 0xa8, 0xaf, 0xa6, 0xa1, 0xb4, 0xb3, 0xba, 0xbd,
    0xc7, 0xc0, 0xc9, 0xce, 0xdb, 0xdc, 0xd5, 0xd2, 0xff, 0xf8, 0xf1, 0xf6, 0xe3, 0xe4, 0xed, 0xea,
    0xb7, 0xb0, 0xb9, 0xbe, 0xab, 0xac, 0xa5, 0xa2, 0x8f, 0x88, 0x81, 0x86, 0x93, 0x94, 0x9d, 0x9a,
    0x27, 0x20, 0x29, 0x2e, 0x3b, 0x3c, 0x35, 0x32, 0x1f, 0x18, 0x11, 0x16, 0x03, 0x04, 0x0d, 0x0a,
    0x57, 0x50, 0x59, 0x5e, 0x4b, 0x4c, 0x45, 0x42, 0x6f, 0x68, 0x61, 0x66, 0x73, 0x74, 0x7d, 0x7a,
    0x89, 0x8e, 0x87, 0x80, 0x95, 0x92, 0x9b, 0x9c, 0xb1, 0xb6, 0xbf, 0xb8, 0xad, 0xaa, 0xa3, 0xa4,
    0xf9, 0xfe, 0xf7, 0xf0, 0xe5, 0xe2, 0xeb, 0xec, 0xc1, 0xc6, 0xcf, 0xc8, 0xdd, 0xda, 0xd3, 0xd4,
    0x69, 0x6e, 0x67, 0x60, 0x75, 0x72, 0x7b, 0x7c, 0x51, 0x56, 0x5f, 0x58, 0x4d, 0x4a, 0x43, 0x44,
    0x19, 0x1e, 0x17, 0x10, 0x05, 0x02, 0x0b, 0x0c, 0x21, 0x26, 0x2f, 0x28, 0x3d, 0x3a, 0x33, 0x34,
    0x4e, 0x49, 0x40, 0x47, 0x52, 0x55, 0x5c, 0x5b, 0x76, 0x71, 0x78, 0x7f, 0x6a, 0x6d, 0x64, 0x63,
    0x3e, 0x39, 0x30, 0x37, 0x22, 0x25, 0x2c, 0x2b, 0x06, 0x01, 0x08, 0x0f, 0x1a, 0x1d, 0x14, 0x13,
    0xae, 0xa9, 0xa0, 0xa7, 0xb2, 0xb5, 0xbc, 0xbb, 0x96, 0x91, 0x98, 0x9f, 0x8a, 0x8d, 0x84, 0x83,
    0xde, 0xd9, 0xd0, 0xd7, 0xc2, 0xc5, 0xcc, 0xcb, 0xe6, 0xe1, 0xe8, 0xef, 0xfa, 0xfd, 0xf4, 0xf3]"

definition crc8_table :: "u8 list \<Rightarrow> u8" where
  "crc8_table d = foldl (\<lambda>crc b. crc_table ! unat (crc XOR b) AND 0xff) 0xff d"

section \<open>Lemmas\<close>

declare bitpop_loop.simps [simp del]

text \<open>Clearing the lowest set bit: what \<^verbatim>\<open>bits & (bits - 1)\<close> does to the set of set bits.\<close>

lemma and_pred_clears_lowest:
  fixes w :: "'a::len word"
  assumes low: "bit w n" "\<And>m. m < n \<Longrightarrow> \<not> bit w m"
  shows "bit (w AND (w - 1)) m \<longleftrightarrow> bit w m \<and> m \<noteq> n"
proof -
  have n: "n < LENGTH('a)" using low(1) by (rule bit_imp_le_length)
  define h where "h = w AND NOT (bv n)"
  have disj: "h AND bv n = 0"
    by (rule bit_eqI) (auto simp: h_def bit_and_iff bit_not_iff)
  have w: "w = h + bv n"
    unfolding disjunctive_add_eq_or [OF disj] by (rule bit_eqI) (use low(1) in \<open>auto simp: h_def bit_simps\<close>)
  have pre: "bv n - 1 = (mask n :: 'a word)"
    by (simp add: mask_eq_decr_exp bv_def)
  have hm: "h AND mask n = 0"
    by (rule bit_eqI) (use low(2) in \<open>auto simp: h_def bit_simps\<close>)
  have "w - 1 = h + mask n"
    unfolding w by (metis add_diff_eq pre)
  then have w1: "w - 1 = h OR mask n"
    using disjunctive_add_eq_or [OF hm] by simp
  show ?thesis
    unfolding w1 using low n
    by (auto simp: h_def bit_simps not_less le_less dest: bit_imp_le_length)
qed

lemma bitpop_loop_eq:
  "bitpop_loop w c = c + of_nat (card {n. bit (w::'a::len word) n})"
proof (induction w c rule: bitpop_loop.induct)
  case (1 w c)
  have fin: "finite {n. bit w n}"
    by (rule finite_subset [of _ "{..<LENGTH('a)}"]) (auto dest: bit_imp_le_length)
  show ?case
  proof (cases "w = 0")
    case True
    then show ?thesis by (simp add: bitpop_loop.simps)
  next
    case False
    then obtain k where "bit w k"
      by (auto simp: bit_eq_iff)
    then obtain n where n: "bit w n" "\<And>m. m < n \<Longrightarrow> \<not> bit w m"
      by (metis exists_least_iff)
    have "{m. bit (w AND (w - 1)) m} = {m. bit w m} - {n}"
      by (auto simp: and_pred_clears_lowest [OF n])
    then have "card {m. bit w m} = Suc (card {m. bit (w AND (w - 1)) m})"
      using n(1) card_Suc_Diff1 [OF fin, of n] by simp
    then show ?thesis
      using False "1.IH" by (simp add: bitpop_loop.simps [of w c] add.assoc)
  qed
qed

lemma card_bits_le: "card {n. bit (w::'a::len word) n} \<le> LENGTH('a)"
proof -
  have "{n. bit w n} \<subseteq> {..<LENGTH('a)}" by (auto dest: bit_imp_le_length)
  then have "card {n. bit w n} \<le> card {..<LENGTH('a)}" by (rule card_mono [rotated]) simp
  then show ?thesis by simp
qed

lemma unat_of_nat_small: "n < 2 ^ LENGTH('a) \<Longrightarrow> unat (of_nat n :: 'a::len word) = n"
  by (simp add: unat_of_nat take_bit_nat_eq_self)

text \<open>
  The state of the \<^verbatim>\<open>biton\<close> family after the steps down to shift \<open>k\<close>: the remaining bits are the
  value shifted by the position found so far, there are at most \<open>k\<close> of them, and none was
  lost if there were any.
\<close>

definition top_at :: "'a::len word \<Rightarrow> 'a word \<times> u8 \<Rightarrow> nat \<Rightarrow> bool" where
  "top_at w s k \<longleftrightarrow>
     unat (fst s) = unat w div 2 ^ unat (snd s) \<and> (w \<noteq> 0 \<longrightarrow> fst s \<noteq> 0) \<and>
     unat (fst s) < 2 ^ k \<and> unat (snd s) + k \<le> LENGTH('a)"

lemma top_at_init: "top_at w (w, 0) LENGTH('a)" for w :: "'a::len word"
  using unsigned_less [of w] by (simp add: top_at_def)

lemma top_at_step:
  fixes w :: "'a::len word"
  assumes "top_at w s m" and "m = k + k" and len: "LENGTH('a) < 256"
  shows "top_at w (biton_step k s) k"
proof -
  have t: "top_at w s (k + k)" using assms by simp
  obtain bits n where s: "s = (bits, n)" by (cases s)
  have n: "unat (n + of_nat k :: u8) = unat n + k"
    using t len by (simp add: top_at_def s unat_word_ariths unat_of_nat take_bit_nat_def)
  have d: "unat (drop_bit k bits) = unat bits div 2 ^ k"
    by (simp add: unat_drop_bit_eq drop_bit_nat_def)
  have "unat bits < 2 ^ k * 2 ^ k"
    using t by (simp add: top_at_def s power_add)
  then have b: "unat bits div 2 ^ k < 2 ^ k"
    by (simp add: less_mult_imp_div_less)
  show ?thesis
  proof (cases "drop_bit k bits = 0")
    case True
    then have "unat bits div 2 ^ k = 0" using d by simp
    then have "unat bits < 2 ^ k" by (simp add: div_eq_0_iff)
    then show ?thesis using True t by (auto simp: top_at_def biton_step_def s)
  next
    case False
    then show ?thesis using t b
      by (auto simp: top_at_def biton_step_def s d n div_mult2_eq power_add)
  qed
qed

lemma top_at_done:
  assumes "top_at w s 1" and "w \<noteq> 0"
  shows "2 ^ unat (snd s) \<le> unat w \<and> unat w < 2 ^ Suc (unat (snd s))"
proof -
  from assms have "unat (fst s) = 1"
    by (simp add: top_at_def unat_eq_zero) (metis One_nat_def less_2_cases numeral_2_eq_2 unat_eq_zero)
  with assms(1) have q: "unat w div 2 ^ unat (snd s) = 1"
    by (simp add: top_at_def)
  have "unat w div 2 ^ unat (snd s) * 2 ^ unat (snd s) \<le> unat w"
    by simp
  moreover have "unat w < Suc (unat w div 2 ^ unat (snd s)) * 2 ^ unat (snd s)"
    by (simp add: dividend_less_div_times)
  ultimately show ?thesis using q by simp
qed

lemma top_at_biton:
  "top_at (w8 :: u8) (biton_step 1 (biton_step 2 (biton_step 4 (w8, 0)))) 1"
  "top_at (w16 :: u16) (biton_step 1 (biton_step 2 (biton_step 4 (biton_step 8 (w16, 0))))) 1"
  "top_at (w32 :: u32) (biton_step 1 (biton_step 2 (biton_step 4 (biton_step 8
     (biton_step 16 (w32, 0)))))) 1"
  by (rule top_at_step [where m = 2] top_at_step [where m = 4] top_at_step [where m = 8]
      top_at_step [where m = 16] top_at_step [where m = 32]
      top_at_init [where 'a = 8, simplified] top_at_init [where 'a = 16, simplified]
      top_at_init [where 'a = 32, simplified] | simp)+

section \<open>Properties\<close>

text \<open>
  The three population counts return the number of set bits of their argument.
\<close>

theorem bitpop_counts:
  "unat (bitpop w8) = card {n. bit w8 n} \<and> unat (bitpop16 w16) = card {n. bit w16 n} \<and>
   unat (bitpop32 w32) = card {n. bit w32 n}"
  using card_bits_le [of w8] card_bits_le [of w16] card_bits_le [of w32]
  by (simp add: bitpop_def bitpop16_def bitpop32_def bitpop_loop_eq unat_of_nat_small)

text \<open>
  \<^verbatim>\<open>biton\<close>, \<^verbatim>\<open>biton16\<close> and \<^verbatim>\<open>biton32\<close> return the position of the most significant set
  bit, and 0 when no bit is set.
\<close>

theorem biton_highest:
  "(w8 \<noteq> 0 \<longrightarrow> 2 ^ unat (biton w8) \<le> unat w8 \<and> unat w8 < 2 ^ Suc (unat (biton w8))) \<and>
   (w16 \<noteq> 0 \<longrightarrow> 2 ^ unat (biton16 w16) \<le> unat w16 \<and> unat w16 < 2 ^ Suc (unat (biton16 w16))) \<and>
   (w32 \<noteq> 0 \<longrightarrow> 2 ^ unat (biton32 w32) \<le> unat w32 \<and> unat w32 < 2 ^ Suc (unat (biton32 w32))) \<and>
   biton 0 = 0 \<and> biton16 0 = 0 \<and> biton32 0 = 0"
  using top_at_done [OF top_at_biton(1) [of w8]] top_at_done [OF top_at_biton(2) [of w16]]
    top_at_done [OF top_at_biton(3) [of w32]]
  by (simp add: biton_def biton16_def biton32_def) (simp add: biton_step_def)

theorem biton_highest_witness:
  "(0x2c :: u8) \<noteq> 0 \<and> (0x1234 :: u16) \<noteq> 0 \<and> (0x80000 :: u32) \<noteq> 0 \<and>
   2 ^ unat (biton 0x2c) \<le> unat (0x2c :: u8) \<and> unat (0x1234 :: u16) < 2 ^ Suc (unat (biton16 0x1234)) \<and>
   2 ^ unat (biton32 0x80000) \<le> unat (0x80000 :: u32)"
  using biton_highest [of "0x2c" "0x1234" "0x80000"] by simp

text \<open>
  Bit reversal moves bit \<open>n\<close> to bit \<open>width - 1 - n\<close>.
\<close>

lemma less_8_cases: "(n::nat) < 8 \<Longrightarrow> n = 0 \<or> n = 1 \<or> n = 2 \<or> n = 3 \<or> n = 4 \<or> n = 5 \<or> n = 6 \<or> n = 7"
  by auto

lemma bitrev_bit: "n < 8 \<Longrightarrow> bit (bitrev w) n \<longleftrightarrow> bit w (7 - n)"
  by (drule less_8_cases, elim disjE; simp add: bitrev_def Let_def bit_simps)

lemma bitrev16_bit: "n < 16 \<Longrightarrow> bit (bitrev16 w) n \<longleftrightarrow> bit w (15 - n)"
  by (cases "n < 8")
    (auto simp: bitrev16_def bit_or_iff bit_push_bit_iff bit_ucast_iff bitrev_bit bit_drop_bit_eq
      bit_and_iff dest: bit_imp_le_length)

lemma bitrev32_bit: "n < 32 \<Longrightarrow> bit (bitrev32 w) n \<longleftrightarrow> bit w (31 - n)"
  by (cases "n < 16")
    (auto simp: bitrev32_def bit_or_iff bit_push_bit_iff bit_ucast_iff bitrev16_bit bit_drop_bit_eq
      bit_and_iff dest: bit_imp_le_length)

text \<open>
  \<^verbatim>\<open>bitrev\<close>, \<^verbatim>\<open>bitrev16\<close> and \<^verbatim>\<open>bitrev32\<close> reverse the order of the bits, and are their own
  inverses.
\<close>

theorem bitrev_reverses:
  "bitrev (bitrev w8) = w8 \<and> bitrev16 (bitrev16 w16) = w16 \<and> bitrev32 (bitrev32 w32) = w32 \<and>
   (\<forall>n < 32. bit (bitrev32 w32) n = bit w32 (31 - n))"
proof (intro conjI)
  show "bitrev (bitrev w8) = w8"
    by (rule bit_eqI) (simp add: bitrev_bit)
  show "bitrev16 (bitrev16 w16) = w16"
    by (rule bit_eqI) (simp add: bitrev16_bit)
  show "bitrev32 (bitrev32 w32) = w32"
    by (rule bit_eqI) (simp add: bitrev32_bit)
  show "\<forall>n < 32. bit (bitrev32 w32) n = bit w32 (31 - n)"
    by (simp add: bitrev32_bit)
qed

theorem bitrev_reverses_witness:
  "(3::nat) < 32 \<and> bit (bitrev32 0x10000000) 3 = bit (0x10000000 :: u32) 28"
  using bitrev_reverses [where ?w32.0 = "0x10000000"] by simp

text \<open>The low byte of a wide \<^verbatim>\<open>crc_t\<close> evolves as an 8-bit \<^verbatim>\<open>crc_t\<close> does.\<close>

lemma ucast_crc8_bit:
  fixes crc :: "'c::len word"
  assumes "8 \<le> LENGTH('c)"
  shows "(ucast (crc8_bit crc) :: u8) = crc8_bit (ucast crc)"
proof -
  have c: "(0x80 :: 'c word) = bv 7" "(0x80 :: u8) = bv 7"
    using assms by (simp_all add: bv_def)
  have t: "crc AND 0x80 \<noteq> 0 \<longleftrightarrow> (ucast crc :: u8) AND 0x80 \<noteq> 0"
    unfolding c and_bv_nonzero using assms by (simp add: bit_ucast_iff)
  have p: "(ucast (push_bit 1 crc) :: u8) = push_bit 1 (ucast crc)"
    by (rule bit_eqI) (use assms in \<open>auto simp: bit_ucast_iff\<close>)
  have q: "(ucast (0x31 :: 'c word) :: u8) = 0x31"
    using assms by (auto intro!: bit_eqI simp: bit_ucast_iff bit_take_bit_iff)
  have x: "(ucast (v XOR 0x31) :: u8) = ucast v XOR 0x31" for v :: "'c word"
    unfolding unsigned_xor_eq q ..
  show ?thesis
    unfolding crc8_bit_def t using p x by simp
qed

lemma ucast_crc8_byte:
  fixes crc :: "'c::len word"
  assumes "8 \<le> LENGTH('c)"
  shows "(ucast ((crc8_bit ^^ n) crc) :: u8) = (crc8_bit ^^ n) (ucast crc)"
  by (induction n) (simp_all add: ucast_crc8_bit [OF assms])

lemma ucast_crc8_fold:
  fixes crc :: "'c::len word"
  assumes "8 \<le> LENGTH('c)"
  shows "(ucast (foldl (\<lambda>crc b. (crc8_bit ^^ 8) (crc XOR ucast b)) crc d) :: u8) =
         foldl (\<lambda>crc b. (crc8_bit ^^ 8) (crc XOR b)) (ucast crc) d"
proof (induction d arbitrary: crc)
  case (Cons b d)
  have "(ucast (ucast b :: 'c word) :: u8) = b"
    by (rule bit_eqI) (use assms in \<open>auto simp: bit_ucast_iff dest: bit_imp_le_length\<close>)
  then show ?case
    by (simp add: Cons.IH ucast_crc8_byte [OF assms] unsigned_xor_eq)
qed simp

text \<open>
  The bitwise CRC does not depend on the width the compiler picks for \<^verbatim>\<open>crc_t\<close>
  (\<^verbatim>\<open>uint_least8_t\<close> or the possibly wider \<^verbatim>\<open>uint_fast8_t\<close>), although the wide variable keeps the
  bits that the narrow one drops.
\<close>

theorem crc8_width_independent:
  assumes "8 \<le> LENGTH('c::len)"
  shows "crc8_bitwise TYPE('c) d = crc8_bitwise TYPE(8) d"
proof -
  have "(ucast (0xff :: 'c word) :: u8) = 0xff"
    using assms by (auto intro!: bit_eqI simp: bit_ucast_iff bit_take_bit_iff)
  then show ?thesis
    by (simp add: crc8_bitwise_def ucast_crc8_fold [OF assms])
qed

theorem crc8_width_independent_witness:
  "(8::nat) \<le> LENGTH(32) \<and> crc8_bitwise TYPE(32) [1, 2] = crc8_bitwise TYPE(8) [1, 2]"
proof -
  have h: "(8::nat) \<le> LENGTH(32)" by simp
  show ?thesis using h crc8_width_independent [OF h, of "[1, 2]"] by simp
qed

text \<open>
  One byte through the shift register of a CRC-8 with polynomial \<open>poly\<close>: the reference against
  which the table is compared. With \<^verbatim>\<open>0x31\<close> it is the inner loop of the bitwise build.
\<close>

definition crc_round :: "u8 \<Rightarrow> u8 \<Rightarrow> u8" where
  "crc_round poly c = (if c AND 0x80 \<noteq> 0 then push_bit 1 c XOR poly else push_bit 1 c)"

definition crc_byte :: "u8 \<Rightarrow> u8 \<Rightarrow> u8" where
  "crc_byte poly b = (crc_round poly ^^ 8) b"

lemma crc8_bit_round: "(crc8_bit ^^ 8) c = crc_byte 0x31 c"
  by (simp add: crc_byte_def crc8_bit_def [abs_def] crc_round_def [abs_def])

lemma funpow_8: "(f ^^ 8) x = f (f (f (f (f (f (f (f x)))))))"
  by (simp add: eval_nat_numeral)

lemma crc_byte_eval:
  "crc_byte poly b =
     (let b1 = crc_round poly b; b2 = crc_round poly b1; b3 = crc_round poly b2;
          b4 = crc_round poly b3; b5 = crc_round poly b4; b6 = crc_round poly b5;
          b7 = crc_round poly b6 in crc_round poly b7)"
  by (simp add: crc_byte_def funpow_8 Let_def)

lemma crc_round_numeral:
  "crc_round 7 (numeral n) =
     (if (numeral n :: u8) AND 128 \<noteq> 0 then push_bit 1 (numeral n) XOR 7
      else push_bit 1 (numeral n))"
  "crc_round 7 0 = 0" "crc_round 7 1 = 2"
  by (simp_all add: crc_round_def)

lemma upt_256: "[0..<256] = 0 # 1 # [2..<256::nat]"
  by (simp add: upt_conv_Cons numeral_2_eq_2)

lemma crc_table_poly: "map (\<lambda>b. crc_byte 0x07 (of_nat b)) [0..<256] = crc_table"
  unfolding crc_table_def upt_256
  by (simp add: upt_rec_numeral) (simp add: crc_byte_eval crc_round_numeral)

lemma crc8_zero_values: "crc8_table [0] = 0xf3" "crc8_bitwise TYPE(8) [0] = 0xac"
  by (simp_all add: crc8_table_def crc8_bitwise_def crc_table_def funpow_8 crc8_bit_def)

text \<open>
  The table-driven build and the bitwise build of \<^verbatim>\<open>crc8\<close> compute different
  checksums: the table is the one of the polynomial \<^verbatim>\<open>0x07\<close>, the loop uses \<^verbatim>\<open>0x31\<close>, and
  already the one-byte message 0 separates them.
\<close>

theorem crc8_builds_differ:
  "map (\<lambda>b. crc_byte 0x07 (of_nat b)) [0..<256] = crc_table \<and>
   (crc8_bit ^^ 8) c = crc_byte 0x31 c \<and>
   crc8_table [0] = 0xf3 \<and> crc8_bitwise TYPE(8) [0] = 0xac"
  by (intro conjI crc_table_poly crc8_bit_round crc8_zero_values)

end
