(* ===== verification/Fnv.thy ===== *)
theory Fnv
  imports QmkPrelude
begin

text \<open>
  The Fowler/Noll/Vo hashes of \<^verbatim>\<open>lib/fnv\<close>, which guard the consolidated area of the wear-leveling
  store. Every build of a function is modelled: the shift-and-add multiplication and the plain
  one (\<^verbatim>\<open>NO_FNV_GCC_OPTIMIZATION\<close>), the 64-bit build and the build for compilers without a 64-bit
  type, which computes in base \<open>2 ^ 16\<close> on \<^verbatim>\<open>unsigned long\<close> (32 bits there). A C string is
  the list of the bytes at its address; the loops over strings stop at the terminator.
\<close>

section \<open>64-bit build\<close>

definition FNV_64_PRIME :: u64 where
  "FNV_64_PRIME = 0x100000001b3"

definition FNV1A_64_INIT :: u64 where
  "FNV1A_64_INIT = 0xcbf29ce484222325"

definition fnv_64_mul :: "u64 \<Rightarrow> u64" where
  "fnv_64_mul hval = hval + (push_bit 1 hval + push_bit 4 hval + push_bit 5 hval +
     push_bit 7 hval + push_bit 8 hval + push_bit 40 hval)"

fun fnv_64a_buf :: "u8 list \<Rightarrow> u64 \<Rightarrow> u64" where
  "fnv_64a_buf [] hval = hval"
| "fnv_64a_buf (b # bs) hval = fnv_64a_buf bs (fnv_64_mul (hval XOR ucast b))"

fun fnv_64_buf :: "u8 list \<Rightarrow> u64 \<Rightarrow> u64" where
  "fnv_64_buf [] hval = hval"
| "fnv_64_buf (b # bs) hval = fnv_64_buf bs (fnv_64_mul hval XOR ucast b)"

fun fnv_64a_str :: "u8 list \<Rightarrow> u64 \<Rightarrow> u64" where
  "fnv_64a_str [] hval = hval"
| "fnv_64a_str (b # bs) hval =
     (if b = 0 then hval else fnv_64a_str bs (fnv_64_mul (hval XOR ucast b)))"

fun fnv_64_str :: "u8 list \<Rightarrow> u64 \<Rightarrow> u64" where
  "fnv_64_str [] hval = hval"
| "fnv_64_str (b # bs) hval =
     (if b = 0 then hval else fnv_64_str bs (fnv_64_mul hval XOR ucast b))"

section \<open>Build without a 64-bit type\<close>

text \<open>
  \<^verbatim>\<open>Fnv64_t\<close> is then a struct of two 32-bit words, and the loops work on the array \<^verbatim>\<open>val[4]\<close> of
  base \<open>2 ^ 16\<close> digits.
\<close>

record fnv64_t =
  w32_0 :: u32
  w32_1 :: u32

type_synonym fnv_limbs = "u32 \<times> u32 \<times> u32 \<times> u32"

definition fnv_to_limbs :: "fnv64_t \<Rightarrow> fnv_limbs" where
  "fnv_to_limbs hval =
     (w32_0 hval AND 0xffff, drop_bit 16 (w32_0 hval), w32_1 hval AND 0xffff, drop_bit 16 (w32_1 hval))"

definition fnv_of_limbs :: "fnv_limbs \<Rightarrow> fnv64_t" where
  "fnv_of_limbs val = (case val of (v0, v1, v2, v3) \<Rightarrow>
     \<lparr>w32_0 = push_bit 16 v1 OR v0, w32_1 = push_bit 16 v3 OR v2\<rparr>)"

definition fnv_limbs_mul :: "fnv_limbs \<Rightarrow> fnv_limbs" where
  "fnv_limbs_mul val = (case val of (v0, v1, v2, v3) \<Rightarrow>
     let t0 = v0 * 0x1b3; t1 = v1 * 0x1b3; t2 = v2 * 0x1b3; t3 = v3 * 0x1b3;
         t2 = t2 + push_bit 8 v0; t3 = t3 + push_bit 8 v1;
         t1 = t1 + drop_bit 16 t0; v0 = t0 AND 0xffff;
         t2 = t2 + drop_bit 16 t1; v1 = t1 AND 0xffff;
         v3 = t3 + drop_bit 16 t2; v2 = t2 AND 0xffff
     in (v0, v1, v2, v3))"

definition fnv_limbs_xor :: "fnv_limbs \<Rightarrow> u8 \<Rightarrow> fnv_limbs" where
  "fnv_limbs_xor val b = (case val of (v0, v1, v2, v3) \<Rightarrow> (v0 XOR ucast b, v1, v2, v3))"

fun fnv_64a_buf_loop32 :: "u8 list \<Rightarrow> fnv_limbs \<Rightarrow> fnv_limbs" where
  "fnv_64a_buf_loop32 [] val = val"
| "fnv_64a_buf_loop32 (b # bs) val = fnv_64a_buf_loop32 bs (fnv_limbs_mul (fnv_limbs_xor val b))"

definition fnv_64a_buf_32 :: "u8 list \<Rightarrow> fnv64_t \<Rightarrow> fnv64_t" where
  "fnv_64a_buf_32 buf hval = fnv_of_limbs (fnv_64a_buf_loop32 buf (fnv_to_limbs hval))"

text \<open>
  The loop of \<^verbatim>\<open>fnv_64a_str\<close> in this build multiplies first and mixes the octet in at the end of
  the body.
\<close>

fun fnv_64a_str_loop32 :: "u8 list \<Rightarrow> fnv_limbs \<Rightarrow> fnv_limbs" where
  "fnv_64a_str_loop32 [] val = val"
| "fnv_64a_str_loop32 (b # bs) val =
     (if b = 0 then val else fnv_64a_str_loop32 bs (fnv_limbs_xor (fnv_limbs_mul val) b))"

definition fnv_64a_str_32 :: "u8 list \<Rightarrow> fnv64_t \<Rightarrow> fnv64_t" where
  "fnv_64a_str_32 str hval = fnv_of_limbs (fnv_64a_str_loop32 str (fnv_to_limbs hval))"

section \<open>Lemmas\<close>

lemma fnv_64_mul_prime: "fnv_64_mul h = h * FNV_64_PRIME"
proof -
  have "h * FNV_64_PRIME = h * (1 + (2 + 16 + 32 + 128 + 256 + 1099511627776))"
    by (simp add: FNV_64_PRIME_def)
  also have "\<dots> = fnv_64_mul h"
    by (simp add: fnv_64_mul_def push_bit_eq_mult distrib_left algebra_simps)
  finally show ?thesis ..
qed

text \<open>The value a digit array stands for, and the condition the loops maintain.\<close>

definition limbs_value :: "fnv_limbs \<Rightarrow> u64" where
  "limbs_value val = (case val of (v0, v1, v2, v3) \<Rightarrow>
     of_nat (unat v0 + 2 ^ 16 * unat v1 + 2 ^ 32 * unat v2 + 2 ^ 48 * unat v3))"

definition limbs_ok :: "fnv_limbs \<Rightarrow> bool" where
  "limbs_ok val \<longleftrightarrow> (case val of (v0, v1, v2, v3) \<Rightarrow>
     unat v0 < 2 ^ 16 \<and> unat v1 < 2 ^ 16 \<and> unat v2 < 2 ^ 16)"

definition fnv_value :: "fnv64_t \<Rightarrow> u64" where
  "fnv_value h = of_nat (unat (w32_0 h) + 2 ^ 32 * unat (w32_1 h))"

lemma unat_and_ffff: "unat (w AND 0xffff :: u32) = unat w mod 65536"
proof -
  have "(0xffff :: u32) = mask 16" by (simp add: mask_eq_decr_exp)
  then show ?thesis
    by (simp only: take_bit_eq_mask [symmetric] unsigned_take_bit_eq take_bit_nat_def) simp
qed

lemma unat_drop_16: "unat (drop_bit 16 w :: u32) = unat w div 65536"
  by (simp add: unat_drop_bit_eq drop_bit_nat_def)

lemma of_nat_u64_eqI: "m mod 2 ^ 64 = n mod 2 ^ 64 \<Longrightarrow> (of_nat m :: u64) = of_nat n"
  by (simp add: word_of_nat_eq_iff take_bit_nat_def)

lemma high_limb_mod: "(a + 2 ^ 48 * (n mod 2 ^ 32)) mod 2 ^ 64 = (a + 2 ^ 48 * n) mod (2 ^ 64 :: nat)"
proof -
  have "2 ^ 48 * (n mod 2 ^ 32) = (2 ^ 48 * n) mod (2 ^ 48 * 2 ^ 32 :: nat)"
    by (rule mult_mod_right)
  also have "\<dots> mod 2 ^ 64 = (2 ^ 48 * n) mod (2 ^ 64 :: nat)"
    by (rule mod_mod_cancel) simp
  finally show ?thesis by (metis mod_add_right_eq)
qed

lemma carry_split:
  fixes r0 :: nat
  assumes "t0 = r0 + 65536 * q0" "a1 + q0 = r1 + 65536 * q1" "a2 + q1 = r2 + 65536 * q2"
    and "t3 = a3 + q2"
  shows "r0 + 2 ^ 16 * r1 + 2 ^ 32 * r2 + 2 ^ 48 * t3 = t0 + 2 ^ 16 * a1 + 2 ^ 32 * a2 + 2 ^ 48 * a3"
  using assms by simp

text \<open>The carry chain on natural numbers, modulo \<open>2 ^ 64\<close>.\<close>

lemma carry_chain:
  fixes n0 n1 n2 n3 :: nat
  defines "t0 \<equiv> n0 * 435"
  defines "t1 \<equiv> n1 * 435 + t0 div 65536"
  defines "t2 \<equiv> n2 * 435 + n0 * 256 + t1 div 65536"
  defines "t3 \<equiv> n3 * 435 + n1 * 256 + t2 div 65536"
  shows "(t0 mod 65536 + 2 ^ 16 * (t1 mod 65536) + 2 ^ 32 * (t2 mod 65536) + 2 ^ 48 * t3) mod 2 ^ 64
    = ((n0 + 2 ^ 16 * n1 + 2 ^ 32 * n2 + 2 ^ 48 * n3) * 0x100000001b3) mod 2 ^ 64"
proof -
  have "t0 mod 65536 + 2 ^ 16 * (t1 mod 65536) + 2 ^ 32 * (t2 mod 65536) + 2 ^ 48 * t3
    = t0 + 2 ^ 16 * (n1 * 435) + 2 ^ 32 * (n2 * 435 + n0 * 256) + 2 ^ 48 * (n3 * 435 + n1 * 256)"
    by (rule carry_split [of t0 _ "t0 div 65536" _ _ "t1 div 65536" _ _ "t2 div 65536"])
      (simp_all add: t1_def t2_def t3_def)
  moreover have "(n0 + 2 ^ 16 * n1 + 2 ^ 32 * n2 + 2 ^ 48 * n3) * 0x100000001b3
    = t0 + 2 ^ 16 * (n1 * 435) + 2 ^ 32 * (n2 * 435 + n0 * 256) + 2 ^ 48 * (n3 * 435 + n1 * 256)
      + 2 ^ 64 * (n2 * 256 + 65536 * (n3 * 256))"
    by (simp add: t0_def)
  ultimately show ?thesis by (simp only: mod_mult_self2)
qed

lemma limbs_mul_value:
  assumes "limbs_ok val"
  shows "limbs_value (fnv_limbs_mul val) = limbs_value val * FNV_64_PRIME"
    and "limbs_ok (fnv_limbs_mul val)"
proof -
  obtain v0 v1 v2 v3 where v: "val = (v0, v1, v2, v3)" by (cases val)
  have b: "unat v0 < 65536" "unat v1 < 65536" "unat v2 < 65536"
    using assms by (simp_all add: limbs_ok_def v)
  define t0 where "t0 = unat v0 * 435"
  define t1 where "t1 = unat v1 * 435 + t0 div 65536"
  define t2 where "t2 = unat v2 * 435 + unat v0 * 256 + t1 div 65536"
  define t3 where "t3 = unat v3 * 435 + unat v1 * 256 + t2 div 65536"
  define T0 where "T0 = v0 * 0x1b3"
  define T1 where "T1 = v1 * 0x1b3 + drop_bit 16 T0"
  define T2 where "T2 = v2 * 0x1b3 + push_bit 8 v0 + drop_bit 16 T1"
  define T3 where "T3 = v3 * 0x1b3 + push_bit 8 v1 + drop_bit 16 T2"
  have w0: "unat T0 = t0"
    using b by (simp add: unat_word_ariths t0_def T0_def)
  have w1: "unat T1 = t1"
    using b w0 by (simp add: unat_word_ariths unat_drop_16 t1_def t0_def T1_def)
  have w2: "unat T2 = t2"
    using b w1 by (simp add: T2_def push_bit_eq_mult unat_word_ariths unat_drop_16 t2_def t1_def t0_def)
  have w3: "unat T3 = t3 mod 2 ^ 32"
    using b w2 by (simp add: T3_def push_bit_eq_mult unat_word_ariths unat_drop_16 t3_def mod_simps)
  have mul: "fnv_limbs_mul val = (T0 AND 0xffff, T1 AND 0xffff, T2 AND 0xffff, T3)"
    by (simp only: fnv_limbs_mul_def v Let_def prod.case T0_def T1_def T2_def T3_def)
  show "limbs_value (fnv_limbs_mul val) = limbs_value val * FNV_64_PRIME"
  proof -
    have "limbs_value (fnv_limbs_mul val) = of_nat (t0 mod 65536 + 2 ^ 16 * (t1 mod 65536)
        + 2 ^ 32 * (t2 mod 65536) + 2 ^ 48 * (t3 mod 2 ^ 32))"
      by (simp only: limbs_value_def mul prod.case unat_and_ffff w0 w1 w2 w3)
    also have "\<dots> = of_nat ((unat v0 + 2 ^ 16 * unat v1 + 2 ^ 32 * unat v2 + 2 ^ 48 * unat v3)
        * 0x100000001b3)"
      unfolding t0_def t1_def t2_def t3_def
      by (rule of_nat_u64_eqI, subst high_limb_mod) (rule carry_chain)
    also have "\<dots> = limbs_value val * FNV_64_PRIME"
      by (simp only: limbs_value_def v prod.case of_nat_mult FNV_64_PRIME_def of_nat_numeral)
    finally show ?thesis .
  qed
  show "limbs_ok (fnv_limbs_mul val)"
    by (simp add: limbs_ok_def mul unat_and_ffff)
qed

lemma u32_octet: "bit (ucast (b :: u8) :: u32) n \<longleftrightarrow> bit b n"
  by (auto simp: bit_ucast_iff dest: bit_imp_le_length)

lemma u16_limb_bits: "unat (v :: u32) < 2 ^ 16 \<longleftrightarrow> (\<forall>n \<ge> 16. \<not> bit v n)"
proof -
  have "unat v < 2 ^ 16 \<longleftrightarrow> drop_bit 16 v = 0"
    by (simp add: unat_eq_zero [symmetric] unat_drop_16 div_eq_0_iff)
  also have "\<dots> \<longleftrightarrow> (\<forall>n. \<not> bit v (16 + n))"
  proof
    assume "drop_bit 16 v = 0"
    then have "\<not> bit (drop_bit 16 v) n" for n by simp
    then show "\<forall>n. \<not> bit v (16 + n)" by (simp add: bit_drop_bit_eq)
  next
    assume "\<forall>n. \<not> bit v (16 + n)"
    then show "drop_bit 16 v = 0" by (intro bit_eqI) (simp add: bit_drop_bit_eq)
  qed
  also have "\<dots> \<longleftrightarrow> (\<forall>n \<ge> 16. \<not> bit v n)"
    by (metis le_add1 le_iff_add)
  finally show ?thesis .
qed

text \<open>The value of a digit array bit by bit: mixing an octet in is an exclusive or on the value.\<close>

definition limbs_word :: "fnv_limbs \<Rightarrow> u64" where
  "limbs_word val = (case val of (v0, v1, v2, v3) \<Rightarrow>
     ucast v0 + (push_bit 16 (ucast v1) + push_bit 32 (ucast v2) + push_bit 48 (ucast v3)))"

lemma limbs_value_word: "limbs_value val = limbs_word val"
  by (cases val) (simp add: limbs_value_def limbs_word_def push_bit_eq_mult mult.commute)

lemma limbs_xor_value:
  assumes "limbs_ok val"
  shows "limbs_value (fnv_limbs_xor val b) = limbs_value val XOR ucast b"
    and "limbs_ok (fnv_limbs_xor val b)"
proof -
  obtain v0 v1 v2 v3 where v: "val = (v0, v1, v2, v3)" by (cases val)
  have low: "\<forall>n \<ge> 16. \<not> bit v0 n"
    using assms u16_limb_bits [of v0] by (simp add: limbs_ok_def v)
  have x: "\<forall>n \<ge> 16. \<not> bit (v0 XOR ucast b) n"
    using low by (auto simp: bit_xor_iff u32_octet dest: bit_imp_le_length)
  then show "limbs_ok (fnv_limbs_xor val b)"
    using assms u16_limb_bits [of "v0 XOR ucast b"] by (simp add: limbs_ok_def fnv_limbs_xor_def v)
  define H :: u64 where "H = push_bit 16 (ucast v1) + push_bit 32 (ucast v2) + push_bit 48 (ucast v3)"
  have Hl: "H = push_bit 16 (ucast v1 + push_bit 16 (ucast v2) + push_bit 32 (ucast v3))"
    by (simp add: H_def push_bit_eq_mult algebra_simps)
  have h: "\<not> bit H n" if "n < 16" for n
    using that by (simp add: Hl bit_push_bit_iff)
  have d: "(ucast w :: u64) AND H = 0" if "\<forall>n \<ge> 16. \<not> bit w n" for w :: u32
    by (rule bit_eqI) (use that h in \<open>auto simp: bit_and_iff bit_ucast_iff not_le [symmetric]\<close>)
  have "limbs_word (fnv_limbs_xor val b) = ucast (v0 XOR ucast b) + H"
    by (simp add: limbs_word_def fnv_limbs_xor_def v H_def)
  also have "\<dots> = ucast (v0 XOR ucast b) OR H"
    by (rule disjunctive_add_eq_or) (rule d [OF x])
  also have "\<dots> = (ucast v0 OR H) XOR ucast b"
    by (rule bit_eqI) (use h in \<open>auto simp: bit_or_iff bit_xor_iff bit_ucast_iff u32_octet
      dest: bit_imp_le_length\<close>)
  also have "ucast v0 OR H = limbs_word val"
    unfolding limbs_word_def v prod.case H_def [symmetric]
    by (rule disjunctive_add_eq_or [symmetric]) (rule d [OF low])
  finally show "limbs_value (fnv_limbs_xor val b) = limbs_value val XOR ucast b"
    by (simp add: limbs_value_word)
qed

text \<open>Converting to digits and back.\<close>

lemma split_16:
  "a + 2 ^ 32 * b = a mod 65536 + 2 ^ 16 * (a div 65536) + 2 ^ 32 * (b mod 65536)
     + 2 ^ 48 * (b div (65536 :: nat))"
proof -
  have "2 ^ 32 * (b mod 65536) + 2 ^ 48 * (b div 65536)
      = 2 ^ 32 * (b mod 65536 + 65536 * (b div 65536))"
    by (simp only: distrib_left mult.assoc [symmetric]) simp
  also have "\<dots> = 2 ^ 32 * b" by (simp only: mod_mult_div_eq)
  finally have "2 ^ 32 * (b mod 65536) + 2 ^ 48 * (b div 65536) = 2 ^ 32 * b" .
  moreover have "a mod 65536 + 2 ^ 16 * (a div 65536) = a" by simp
  ultimately show ?thesis by (simp only: add.assoc)
qed

lemma fnv_to_limbs_value: "limbs_value (fnv_to_limbs h) = fnv_value h" "limbs_ok (fnv_to_limbs h)"
proof -
  have "unat (w32_0 h) + 2 ^ 32 * unat (w32_1 h) =
     unat (w32_0 h) mod 65536 + 2 ^ 16 * (unat (w32_0 h) div 65536) +
     2 ^ 32 * (unat (w32_1 h) mod 65536) + 2 ^ 48 * (unat (w32_1 h) div 65536)"
    by (rule split_16)
  then show "limbs_value (fnv_to_limbs h) = fnv_value h"
    by (simp only: limbs_value_def fnv_to_limbs_def prod.case unat_and_ffff unat_drop_16 fnv_value_def)
  have "unat (w32_0 h) div 65536 < 65536"
    using unsigned_less [of "w32_0 h", where 'a = nat] by (simp add: less_mult_imp_div_less)
  then show "limbs_ok (fnv_to_limbs h)"
    by (simp add: limbs_ok_def fnv_to_limbs_def unat_and_ffff unat_drop_16)
qed

lemma unat_limb_pair:
  assumes "unat (lo :: u32) < 2 ^ 16"
  shows "unat (push_bit 16 hi OR lo) = (unat lo + 2 ^ 16 * unat hi) mod 2 ^ 32"
proof -
  have "push_bit 16 hi AND lo = 0"
    by (rule bit_eqI) (use assms u16_limb_bits [of lo] in \<open>auto simp: bit_and_iff bit_push_bit_iff\<close>)
  then have "push_bit 16 hi OR lo = push_bit 16 hi + lo"
    by (rule disjunctive_add_eq_or [symmetric])
  then have "unat (push_bit 16 hi OR lo) = (unat (push_bit 16 hi) + unat lo) mod 2 ^ 32"
    by (simp add: unat_word_ariths)
  also have "unat (push_bit 16 hi) = (2 ^ 16 * unat hi) mod 2 ^ 32"
    by (simp add: push_bit_eq_mult unat_word_ariths mult.commute)
  finally show ?thesis
    by (simp only: mod_add_left_eq mod_add_right_eq add.commute)
qed

lemma shift_high_half: "(a + 2 ^ 32 * (m mod 2 ^ 32)) mod 2 ^ 64 = (a + 2 ^ 32 * m) mod (2 ^ 64 :: nat)"
proof -
  have "2 ^ 32 * (m mod 2 ^ 32) = (2 ^ 32 * m) mod (2 ^ 64 :: nat)"
    using mult_mod_right [of "2 ^ 32" m "2 ^ 32"] by simp
  then show ?thesis by (metis mod_add_right_eq)
qed

lemma fnv_of_limbs_value:
  assumes "limbs_ok val"
  shows "fnv_value (fnv_of_limbs val) = limbs_value val"
proof -
  obtain v0 v1 v2 v3 where v: "val = (v0, v1, v2, v3)" by (cases val)
  have b: "unat v0 < 2 ^ 16" "unat v1 < 2 ^ 16" "unat v2 < 2 ^ 16"
    using assms by (simp_all add: limbs_ok_def v)
  have lo: "unat (push_bit 16 v1 OR v0) = unat v0 + 2 ^ 16 * unat v1"
    using b by (simp add: unat_limb_pair)
  have hi: "unat (push_bit 16 v3 OR v2) = (unat v2 + 2 ^ 16 * unat v3) mod 2 ^ 32"
    using b by (simp add: unat_limb_pair)
  have "fnv_value (fnv_of_limbs val) =
      of_nat ((unat v0 + 2 ^ 16 * unat v1) + 2 ^ 32 * ((unat v2 + 2 ^ 16 * unat v3) mod 2 ^ 32))"
    by (simp only: fnv_value_def fnv_of_limbs_def v prod.case fnv64_t.simps lo hi)
  also have "\<dots> = of_nat ((unat v0 + 2 ^ 16 * unat v1) + 2 ^ 32 * (unat v2 + 2 ^ 16 * unat v3))"
    by (rule of_nat_u64_eqI) (rule shift_high_half)
  also have "\<dots> = limbs_value val"
    by (simp add: limbs_value_def v algebra_simps)
  finally show ?thesis .
qed

lemma fnv_64a_loop32_value:
  "limbs_ok val \<Longrightarrow> limbs_value (fnv_64a_buf_loop32 bs val) = fnv_64a_buf bs (limbs_value val) \<and>
     limbs_ok (fnv_64a_buf_loop32 bs val)"
  by (induction bs arbitrary: val)
    (simp_all add: limbs_mul_value limbs_xor_value fnv_64_mul_prime)

lemma fnv_64a_str_loop32_value:
  "limbs_ok val \<Longrightarrow> limbs_value (fnv_64a_str_loop32 bs val) = fnv_64_str bs (limbs_value val) \<and>
     limbs_ok (fnv_64a_str_loop32 bs val)"
  by (induction bs arbitrary: val)
    (simp_all add: limbs_mul_value limbs_xor_value fnv_64_mul_prime)

section \<open>Properties\<close>

text \<open>
  The build of \<^verbatim>\<open>fnv_64a_buf\<close> without a 64-bit type, which multiplies base
  \<open>2 ^ 16\<close> digits and discards the excess of the top digit only at the end, computes the
  same hash as the 64-bit build, whose shifts and adds are the multiplication by the FNV prime
  modulo \<open>2 ^ 64\<close>.
\<close>

theorem fnv_64a_buf_builds_agree:
  "fnv_value (fnv_64a_buf_32 buf h) = fnv_64a_buf buf (fnv_value h) \<and>
   fnv_64_mul x = x * FNV_64_PRIME"
  by (simp add: fnv_64a_buf_32_def fnv_64a_loop32_value fnv_of_limbs_value fnv_to_limbs_value
      fnv_64_mul_prime)

text \<open>
  The build of \<^verbatim>\<open>fnv_64a_str\<close> without a 64-bit type mixes the octet in after the
  multiplication, so on every string it returns the FNV-1 hash (the one of \<^verbatim>\<open>fnv_64_str\<close>) and
  not the FNV-1a hash it is documented to return; the string \<open>a\<close> separates the two.
\<close>

theorem fnv_64a_str_32_is_fnv1:
  "fnv_value (fnv_64a_str_32 str h) = fnv_64_str str (fnv_value h) \<and>
   fnv_64_str [0x61, 0] FNV1A_64_INIT \<noteq> fnv_64a_str [0x61, 0] FNV1A_64_INIT"
  by (simp add: fnv_64a_str_32_def fnv_64a_str_loop32_value fnv_of_limbs_value fnv_to_limbs_value
      fnv_64_mul_prime FNV1A_64_INIT_def FNV_64_PRIME_def)

end
