(* ===== verification/BackingStore.thy ===== *)
theory BackingStore
  imports QmkPrelude
begin

text \<open>
  The backing store API of \<^verbatim>\<open>quantum/wear_leveling/wear_leveling_internal.h\<close>, which a flash driver
  implements and \<^verbatim>\<open>wear_leveling.c\<close> calls, as a record of operations over a driver state; the
  weak bulk operations of \<^verbatim>\<open>wear_leveling.c\<close>; the contract of the API as the locales
  \<open>backing_store\<close> and \<open>reliable_store\<close>; and the mock driver of
  \<^verbatim>\<open>quantum/wear_leveling/tests/backing_mocks.cpp\<close>, which is shown to satisfy both.

  A \<^verbatim>\<open>backing_store_int_t\<close> is the list of its bytes in memory order, of length
  \<^verbatim>\<open>BACKING_STORE_WRITE_SIZE\<close>: \<^verbatim>\<open>write_log_entry_t\<close> only ever reinterprets the same bytes, so the
  model is independent of the byte order of the MCU.
\<close>

section \<open>Configuration\<close>

datatype write_size = WS2 | WS4 | WS8

text \<open>
  \<open>wl_spill\<close> holds the bytes that follow a \<^verbatim>\<open>write_log_entry_t\<close> in memory: the copy out of a
  corrupted log entry can run past its end.
\<close>

record wl_config =
  write_size :: write_size
  logical_size :: nat
  backing_size :: nat
  wl_spill :: "u8 list"

fun ws_bytes :: "write_size \<Rightarrow> nat" where
  "ws_bytes WS2 = 2"
| "ws_bytes WS4 = 4"
| "ws_bytes WS8 = 8"

abbreviation item_size :: "wl_config \<Rightarrow> nat" where
  "item_size c \<equiv> ws_bytes (write_size c)"

text \<open>The \<^verbatim>\<open>_Static_assert\<close>s on the sizes.\<close>

definition wl_static_asserts :: "wl_config \<Rightarrow> bool" where
  "wl_static_asserts c \<longleftrightarrow>
     backing_size c \<ge> logical_size c * 2 \<and>
     logical_size c mod item_size c = 0 \<and>
     backing_size c mod logical_size c = 0"

section \<open>The operations\<close>

text \<open>
  A read returns its success flag and what is in the caller's buffer afterwards, whether or not
  it succeeded.
\<close>

record 'd backing_ops =
  bs_init :: "'d \<Rightarrow> bool \<times> 'd"
  bs_unlock :: "'d \<Rightarrow> bool \<times> 'd"
  bs_erase :: "'d \<Rightarrow> bool \<times> 'd"
  bs_write :: "nat \<Rightarrow> u8 list \<Rightarrow> 'd \<Rightarrow> bool \<times> 'd"
  bs_write_bulk :: "nat \<Rightarrow> u8 list \<Rightarrow> 'd \<Rightarrow> bool \<times> 'd"
  bs_lock :: "'d \<Rightarrow> bool \<times> 'd"
  bs_read :: "nat \<Rightarrow> 'd \<Rightarrow> (bool \<times> u8 list) \<times> 'd"
  bs_read_bulk :: "nat \<Rightarrow> nat \<Rightarrow> 'd \<Rightarrow> (bool \<times> u8 list) \<times> 'd"

text \<open>
  The weak bulk operations: item by item, until one fails. The items of a failed bulk read that
  were not reached keep what the buffer held; the callers discard the buffer in that case, and
  the model leaves those items out.
\<close>

fun default_read_bulk ::
  "nat \<Rightarrow> (nat \<Rightarrow> 'd \<Rightarrow> (bool \<times> u8 list) \<times> 'd) \<Rightarrow> nat \<Rightarrow> nat \<Rightarrow> 'd \<Rightarrow> (bool \<times> u8 list) \<times> 'd" where
  "default_read_bulk ws rd address 0 d = ((True, []), d)"
| "default_read_bulk ws rd address (Suc n) d =
     (case rd address d of ((ok, v), d) \<Rightarrow>
        if \<not> ok then ((False, v), d)
        else (case default_read_bulk ws rd (address + ws) n d of ((ok, vs), d) \<Rightarrow> ((ok, v @ vs), d)))"

fun default_write_bulk_items ::
  "nat \<Rightarrow> (nat \<Rightarrow> u8 list \<Rightarrow> 'd \<Rightarrow> bool \<times> 'd) \<Rightarrow> nat \<Rightarrow> u8 list \<Rightarrow> nat \<Rightarrow> 'd \<Rightarrow> bool \<times> 'd" where
  "default_write_bulk_items ws wr address values 0 d = (True, d)"
| "default_write_bulk_items ws wr address values (Suc n) d =
     (case wr address (take ws values) d of (ok, d) \<Rightarrow>
        if \<not> ok then (False, d)
        else default_write_bulk_items ws wr (address + ws) (drop ws values) n d)"

definition default_write_bulk ::
  "nat \<Rightarrow> (nat \<Rightarrow> u8 list \<Rightarrow> 'd \<Rightarrow> bool \<times> 'd) \<Rightarrow> nat \<Rightarrow> u8 list \<Rightarrow> 'd \<Rightarrow> bool \<times> 'd" where
  "default_write_bulk ws wr address values d =
     default_write_bulk_items ws wr address values (length values div ws) d"

section \<open>Images of bytes\<close>

definition blit :: "u8 list \<Rightarrow> nat \<Rightarrow> u8 list \<Rightarrow> u8 list" where
  "blit xs a ys = take a xs @ ys @ drop (a + length ys) xs"

definition zeros :: "nat \<Rightarrow> u8 list" where
  "zeros n = replicate n 0"

definition bytes_at :: "u8 list \<Rightarrow> nat \<Rightarrow> nat \<Rightarrow> u8 list" where
  "bytes_at xs a n = take n (drop a xs)"

lemma length_zeros [simp]: "length (zeros n) = n"
  by (simp add: zeros_def)

lemma zeros_append: "zeros m @ zeros n = zeros (m + n)"
  by (simp add: zeros_def replicate_add)

lemma take_zeros [simp]: "take m (zeros n) = zeros (min m n)"
  by (simp add: zeros_def min.commute)

lemma drop_zeros [simp]: "drop m (zeros n) = zeros (n - m)"
  by (simp add: zeros_def)

lemma bytes_at_zeros [simp]: "bytes_at (zeros n) a m = zeros (min m (n - a))"
  by (simp add: bytes_at_def)

lemma length_blit [simp]: "a + length ys \<le> length xs \<Longrightarrow> length (blit xs a ys) = length xs"
  by (simp add: blit_def)

lemma length_bytes_at [simp]: "a + n \<le> length xs \<Longrightarrow> length (bytes_at xs a n) = n"
  by (simp add: bytes_at_def)

lemma nth_blit:
  "a + length ys \<le> length xs \<Longrightarrow> i < length xs \<Longrightarrow>
   blit xs a ys ! i = (if a \<le> i \<and> i < a + length ys then ys ! (i - a) else xs ! i)"
  by (auto simp: blit_def nth_append min_def)

lemma nth_bytes_at: "i < n \<Longrightarrow> a + n \<le> length xs \<Longrightarrow> bytes_at xs a n ! i = xs ! (a + i)"
  by (simp add: bytes_at_def)

lemma bytes_at_blit_same: "a + length ys \<le> length xs \<Longrightarrow> bytes_at (blit xs a ys) a (length ys) = ys"
  by (simp add: bytes_at_def blit_def)

lemma bytes_at_blit_disjoint:
  assumes "a + length ys \<le> length xs" "b + n \<le> length xs" "b + n \<le> a \<or> a + length ys \<le> b"
  shows "bytes_at (blit xs a ys) b n = bytes_at xs b n"
  by (rule nth_equalityI) (use assms in \<open>auto simp: nth_bytes_at nth_blit\<close>)

lemma blit_blit_append:
  assumes "a + length ys + length zs \<le> length xs"
  shows "blit (blit xs a ys) (a + length ys) zs = blit xs a (ys @ zs)"
  by (rule nth_equalityI) (use assms in \<open>auto simp: nth_blit nth_append\<close>)

lemma blit_Nil [simp]: "a \<le> length xs \<Longrightarrow> blit xs a [] = xs"
  by (simp add: blit_def)

lemma blit_bytes_at: "a + n \<le> length xs \<Longrightarrow> bytes_at xs a n = ys \<Longrightarrow> blit xs a ys = xs"
  by (metis append_take_drop_id blit_def drop_drop length_bytes_at bytes_at_def add.commute)

lemma bytes_at_append: "bytes_at xs a m @ bytes_at xs (a + m) n = bytes_at xs a (m + n)"
  by (simp add: bytes_at_def take_add add.commute)

lemma bytes_at_bytes_at: "b + n \<le> m \<Longrightarrow> bytes_at (bytes_at xs a m) b n = bytes_at xs (a + b) n"
  by (simp add: bytes_at_def drop_take take_take min_def add.commute)

lemma bytes_at_zeros_sub:
  assumes "bytes_at xs a n = zeros n" "a \<le> b" "b + m \<le> a + n"
  shows "bytes_at xs b m = zeros m"
proof -
  have "bytes_at xs b m = bytes_at (bytes_at xs a n) (b - a) m"
    using assms(2,3) by (simp add: bytes_at_bytes_at)
  also have "\<dots> = zeros m"
    unfolding assms(1) bytes_at_zeros using assms(2,3) by (simp add: min_absorb1)
  finally show ?thesis .
qed

section \<open>The contract of the API\<close>

text \<open>
  \<open>img d\<close> is the logical content of the store: the bytes the API reads back, in which an erased
  byte is 0. An operation that reports success has had its effect; one that reports failure
  keeps only the invariant of the driver. Writes are promised to work on erased items only.
\<close>

locale item_store =
  fixes ops :: "'d backing_ops" and c :: wl_config and img :: "'d \<Rightarrow> u8 list" and inv :: "'d \<Rightarrow> bool"
  assumes img_length: "inv d \<Longrightarrow> length (img d) = backing_size c"
    and init_law: "inv d \<Longrightarrow> bs_init ops d = (ok, d') \<Longrightarrow> inv d' \<and> img d' = img d"
    and unlock_law: "inv d \<Longrightarrow> bs_unlock ops d = (ok, d') \<Longrightarrow> inv d' \<and> img d' = img d"
    and lock_law: "inv d \<Longrightarrow> bs_lock ops d = (ok, d') \<Longrightarrow> inv d' \<and> img d' = img d"
    and erase_law: "inv d \<Longrightarrow> bs_erase ops d = (ok, d') \<Longrightarrow>
      inv d' \<and> (ok \<longrightarrow> img d' = zeros (backing_size c))"
    and write_law: "inv d \<Longrightarrow> bs_write ops a v d = (ok, d') \<Longrightarrow> length v = item_size c \<Longrightarrow>
      a mod item_size c = 0 \<Longrightarrow> a + item_size c \<le> backing_size c \<Longrightarrow>
      bytes_at (img d) a (item_size c) = zeros (item_size c) \<Longrightarrow>
      inv d' \<and> (ok \<longrightarrow> img d' = blit (img d) a v)"
    and read_law: "inv d \<Longrightarrow> bs_read ops a d = ((ok, v), d') \<Longrightarrow>
      a mod item_size c = 0 \<Longrightarrow> a + item_size c \<le> backing_size c \<Longrightarrow>
      inv d' \<and> img d' = img d \<and> (ok \<longrightarrow> v = bytes_at (img d) a (item_size c))"

text \<open>The full API: also the bulk operations.\<close>

locale backing_store = item_store +
  assumes write_bulk_law: "inv d \<Longrightarrow> bs_write_bulk ops a v d = (ok, d') \<Longrightarrow>
      length v mod item_size c = 0 \<Longrightarrow> 0 < length v \<Longrightarrow>
      a mod item_size c = 0 \<Longrightarrow> a + length v \<le> backing_size c \<Longrightarrow>
      bytes_at (img d) a (length v) = zeros (length v) \<Longrightarrow>
      inv d' \<and> (ok \<longrightarrow> img d' = blit (img d) a v)"
    and read_bulk_law: "inv d \<Longrightarrow> bs_read_bulk ops a n d = ((ok, v), d') \<Longrightarrow> 0 < n \<Longrightarrow>
      a mod item_size c = 0 \<Longrightarrow> a + n * item_size c \<le> backing_size c \<Longrightarrow>
      inv d' \<and> img d' = img d \<and> (ok \<longrightarrow> v = bytes_at (img d) a (n * item_size c))"

text \<open>A store whose hardware does not fail.\<close>

locale reliable_items = item_store +
  assumes init_ok: "inv d \<Longrightarrow> fst (bs_init ops d)"
    and unlock_ok: "inv d \<Longrightarrow> fst (bs_unlock ops d)"
    and lock_ok: "inv d \<Longrightarrow> fst (bs_lock ops d)"
    and erase_ok: "inv d \<Longrightarrow> fst (bs_erase ops d)"
    and write_ok: "inv d \<Longrightarrow> length v = item_size c \<Longrightarrow> a mod item_size c = 0 \<Longrightarrow>
      a + item_size c \<le> backing_size c \<Longrightarrow>
      bytes_at (img d) a (item_size c) = zeros (item_size c) \<Longrightarrow> fst (bs_write ops a v d)"
    and read_ok: "inv d \<Longrightarrow> a mod item_size c = 0 \<Longrightarrow> a + item_size c \<le> backing_size c \<Longrightarrow>
      fst (fst (bs_read ops a d))"

locale reliable_store = backing_store + reliable_items +
  assumes write_bulk_ok: "inv d \<Longrightarrow> length v mod item_size c = 0 \<Longrightarrow> 0 < length v \<Longrightarrow>
      a mod item_size c = 0 \<Longrightarrow> a + length v \<le> backing_size c \<Longrightarrow>
      bytes_at (img d) a (length v) = zeros (length v) \<Longrightarrow> fst (bs_write_bulk ops a v d)"
    and read_bulk_ok: "inv d \<Longrightarrow> a mod item_size c = 0 \<Longrightarrow> 0 < n \<Longrightarrow>
      a + n * item_size c \<le> backing_size c \<Longrightarrow> fst (fst (bs_read_bulk ops a n d))"

section \<open>The weak bulk operations meet the contract\<close>

text \<open>The driver as linked when it does not define the bulk operations itself.\<close>

definition with_default_bulk :: "wl_config \<Rightarrow> 'd backing_ops \<Rightarrow> 'd backing_ops" where
  "with_default_bulk c ops =
     ops\<lparr>bs_read_bulk := default_read_bulk (item_size c) (bs_read ops),
         bs_write_bulk := default_write_bulk (item_size c) (bs_write ops)\<rparr>"

lemma with_default_bulk_sel [simp]:
  "bs_init (with_default_bulk c ops) = bs_init ops"
  "bs_unlock (with_default_bulk c ops) = bs_unlock ops"
  "bs_lock (with_default_bulk c ops) = bs_lock ops"
  "bs_erase (with_default_bulk c ops) = bs_erase ops"
  "bs_write (with_default_bulk c ops) = bs_write ops"
  "bs_read (with_default_bulk c ops) = bs_read ops"
  "bs_read_bulk (with_default_bulk c ops) = default_read_bulk (item_size c) (bs_read ops)"
  "bs_write_bulk (with_default_bulk c ops) = default_write_bulk (item_size c) (bs_write ops)"
  by (simp_all add: with_default_bulk_def)

lemma ws_bytes_pos [simp]: "0 < ws_bytes w"
  by (cases w) simp_all

lemma mod_add_item: "a mod k = 0 \<Longrightarrow> (a + k) mod k = (0 :: nat)"
  by simp

context item_store
begin

lemma default_read_bulk_law:
  "inv d \<Longrightarrow> default_read_bulk (item_size c) (bs_read ops) a n d = ((ok, v), d') \<Longrightarrow>
   a mod item_size c = 0 \<Longrightarrow> a + n * item_size c \<le> backing_size c \<Longrightarrow>
   inv d' \<and> img d' = img d \<and> (ok \<longrightarrow> v = bytes_at (img d) a (n * item_size c))"
proof (induction n arbitrary: a d ok v d')
  case 0
  then show ?case by (simp add: bytes_at_def)
next
  case (Suc n)
  obtain ok1 v1 d1 where r: "bs_read ops a d = ((ok1, v1), d1)"
    by (metis prod.exhaust)
  have in1: "a + item_size c \<le> backing_size c"
    using Suc.prems(4) by simp
  note r1 = read_law [OF Suc.prems(1) r Suc.prems(3) in1]
  show ?case
  proof (cases ok1)
    case False
    then show ?thesis using Suc.prems(2) r r1 by simp
  next
    case True
    obtain ok2 v2 d2 where r2: "default_read_bulk (item_size c) (bs_read ops) (a + item_size c) n d1
        = ((ok2, v2), d2)"
      by (metis prod.exhaust)
    have "inv d2 \<and> img d2 = img d1 \<and> (ok2 \<longrightarrow> v2 = bytes_at (img d1) (a + item_size c) (n * item_size c))"
      using Suc.IH [OF _ r2] r1 Suc.prems(3,4) by (simp add: add.assoc)
    then show ?thesis
      using Suc.prems(2) r r1 r2 True by (auto simp: bytes_at_append)
  qed
qed

lemma default_write_items_law:
  "inv d \<Longrightarrow> default_write_bulk_items (item_size c) (bs_write ops) a v n d = (ok, d') \<Longrightarrow>
   length v = n * item_size c \<Longrightarrow> a mod item_size c = 0 \<Longrightarrow> a + length v \<le> backing_size c \<Longrightarrow>
   bytes_at (img d) a (length v) = zeros (length v) \<Longrightarrow>
   inv d' \<and> (ok \<longrightarrow> img d' = blit (img d) a v)"
proof (induction n arbitrary: a v d ok d')
  case 0
  then show ?case by (simp add: img_length)
next
  case (Suc n)
  let ?k = "item_size c"
  obtain ok1 d1 where w: "bs_write ops a (take ?k v) d = (ok1, d1)"
    by (metis prod.exhaust)
  have len: "length (take ?k v) = ?k" "length (drop ?k v) = n * ?k" "a + ?k \<le> backing_size c"
    using Suc.prems(3,5) by simp_all
  have z: "bytes_at (img d) a ?k = zeros ?k" "bytes_at (img d) (a + ?k) (n * ?k) = zeros (n * ?k)"
    using Suc.prems(3,6) by (auto elim!: bytes_at_zeros_sub)
  note w1 = write_law [OF Suc.prems(1) w len(1) Suc.prems(4) len(3) z(1)]
  show ?case
  proof (cases ok1)
    case False
    then show ?thesis using Suc.prems(2) w w1 by simp
  next
    case True
    then have i1: "img d1 = blit (img d) a (take ?k v)" and inv1: "inv d1" using w1 by simp_all
    have lo: "length (img d) = backing_size c" using Suc.prems(1) by (rule img_length)
    have z1: "bytes_at (img d1) (a + ?k) (n * ?k) = zeros (n * ?k)"
      unfolding i1 using z(2) len Suc.prems(3,5) lo by (subst bytes_at_blit_disjoint) simp_all
    have "default_write_bulk_items ?k (bs_write ops) (a + ?k) (drop ?k v) n d1 = (ok, d')"
      using Suc.prems(2) w True by simp
    from Suc.IH [OF inv1 this len(2)] z1 Suc.prems(3,4,5) len(2)
    have "inv d' \<and> (ok \<longrightarrow> img d' = blit (img d1) (a + ?k) (drop ?k v))"
      by simp
    moreover have "blit (img d1) (a + ?k) (drop ?k v) = blit (img d) a v"
      unfolding i1 using blit_blit_append [of a "take ?k v" "drop ?k v" "img d"] len lo Suc.prems(5)
      by simp
    ultimately show ?thesis by simp
  qed
qed

lemma default_bulk: "backing_store (with_default_bulk c ops) c img inv"
proof ((unfold_locales; (simp only: with_default_bulk_sel)?), goal_cases)
  case (8 d a v ok d')
  then show ?case
    using default_write_items_law [of d a v "length v div item_size c" ok d']
    by (simp add: default_write_bulk_def mod_eq_0_iff_dvd)
next
  case (9 d a n ok v d')
  then show ?case
    using default_read_bulk_law [of d a n ok v d'] by simp
qed (fact img_length init_law unlock_law lock_law erase_law write_law read_law)+

end

end
