(* ===== verification/WearLeveling.thy ===== *)
theory WearLeveling
  imports BackingStore Fnv
begin

text \<open>
  The wear-leveling EEPROM emulation of \<^verbatim>\<open>quantum/wear_leveling/wear_leveling.c\<close>: a cache of the
  logical content in RAM, a consolidated copy with its FNV1a-64 checksum at the start of the
  backing store, and a write log behind it. All three item sizes are modelled. Addresses are
  natural numbers: the ones the module itself computes stay below \<open>backing_size + 8\<close>, and the sum
  \<^verbatim>\<open>address + length\<close> of the entry guards is taken modulo \<open>2 ^ 32\<close>. A result \<open>None\<close> of the public
  read and write is an access outside of the cache array.
\<close>

section \<open>Log entries\<close>

definition logbytes :: "u8 list \<Rightarrow> u8 list" where
  "logbytes bs = bs @ zeros (8 - length bs)"

text \<open>\<open>masked n w\<close> is \<^verbatim>\<open>w & BITMASK_FOR_BITCOUNT(n)\<close>.\<close>

definition masked :: "nat \<Rightarrow> 'a::len word \<Rightarrow> 'a word" where
  "masked n w = w AND (push_bit n 1 - 1)"

definition LOG_ENTRY_TYPE_MULTIBYTE :: u8 where
  "LOG_ENTRY_TYPE_MULTIBYTE = 0"

definition LOG_ENTRY_TYPE_OPTIMIZED_64 :: u8 where
  "LOG_ENTRY_TYPE_OPTIMIZED_64 = 1"

definition LOG_ENTRY_TYPE_WORD_01 :: u8 where
  "LOG_ENTRY_TYPE_WORD_01 = 2"

definition LOG_ENTRY_GET_TYPE :: "u8 list \<Rightarrow> u8" where
  "LOG_ENTRY_GET_TYPE e = masked 2 (drop_bit 6 (e ! 0))"

definition MULTIBYTE_GET_ADDRESS :: "u8 list \<Rightarrow> u32" where
  "MULTIBYTE_GET_ADDRESS e =
     push_bit 16 (masked 3 (ucast (e ! 0))) OR push_bit 8 (ucast (e ! 1)) OR ucast (e ! 2)"

definition MULTIBYTE_GET_LENGTH :: "u8 list \<Rightarrow> u8" where
  "MULTIBYTE_GET_LENGTH e = masked 3 (drop_bit 3 (e ! 0))"

definition MAKE_MULTIBYTE :: "u32 \<Rightarrow> u8 \<Rightarrow> u8 list" where
  "MAKE_MULTIBYTE address len =
     [push_bit 6 (masked 2 LOG_ENTRY_TYPE_MULTIBYTE) OR push_bit 3 (masked 3 len)
        OR masked 3 (ucast (drop_bit 16 address)),
      masked 8 (ucast (drop_bit 8 address)), masked 8 (ucast address)]"

definition OPTIMIZED_64_GET_ADDRESS :: "u8 list \<Rightarrow> u32" where
  "OPTIMIZED_64_GET_ADDRESS e = ucast (masked 6 (e ! 0))"

definition OPTIMIZED_64_GET_VALUE :: "u8 list \<Rightarrow> u8" where
  "OPTIMIZED_64_GET_VALUE e = e ! 1"

definition MAKE_OPTIMIZED_64 :: "u32 \<Rightarrow> u8 \<Rightarrow> u8 list" where
  "MAKE_OPTIMIZED_64 address v = [push_bit 6 (masked 2 LOG_ENTRY_TYPE_OPTIMIZED_64) OR masked 6 (ucast address), v]"

definition WORD_01_GET_ADDRESS :: "u8 list \<Rightarrow> u32" where
  "WORD_01_GET_ADDRESS e = push_bit 9 (masked 5 (ucast (e ! 0))) OR push_bit 1 (ucast (e ! 1))"

definition WORD_01_GET_VALUE :: "u8 list \<Rightarrow> u8" where
  "WORD_01_GET_VALUE e = masked 1 (drop_bit 5 (e ! 0))"

definition MAKE_WORD_01 :: "u32 \<Rightarrow> u16 \<Rightarrow> u8 list" where
  "MAKE_WORD_01 address v =
     [push_bit 6 (masked 2 LOG_ENTRY_TYPE_WORD_01) OR push_bit 5 (masked 1 (if v \<noteq> 0 then 1 else 0))
        OR masked 5 (ucast (drop_bit 9 address)),
      ucast (drop_bit 1 address)]"

section \<open>State\<close>

datatype wl_status = WEAR_LEVELING_FAILED | WEAR_LEVELING_SUCCESS | WEAR_LEVELING_CONSOLIDATED

datatype lock_status = STATUS_FAILURE | STATUS_SUCCESS | STATUS_UNCHANGED

record 'd wear_leveling =
  cache :: "u8 list"
  write_address :: nat
  unlocked :: bool
  store :: 'd

text \<open>The value of a \<^verbatim>\<open>uint64_t\<close> as the bytes of \<^verbatim>\<open>raw64\<close>.\<close>

definition raw64_bytes :: "u64 \<Rightarrow> u8 list" where
  "raw64_bytes w = map (\<lambda>i. ucast (drop_bit (8 * i) w)) [0..<8]"

definition fnv_bytes :: "u8 list \<Rightarrow> u8 list" where
  "fnv_bytes buf = raw64_bytes (fnv_64a_buf buf FNV1A_64_INIT)"

definition wl_unlock :: "'d backing_ops \<Rightarrow> 'd wear_leveling \<Rightarrow> lock_status \<times> 'd wear_leveling" where
  "wl_unlock b s =
     (if unlocked s then (STATUS_UNCHANGED, s)
      else case bs_unlock b (store s) of (ok, d) \<Rightarrow>
        if \<not> ok then (STATUS_FAILURE, s\<lparr>store := d\<rparr>)
        else (STATUS_SUCCESS, s\<lparr>store := d, unlocked := True\<rparr>))"

definition wl_lock :: "'d backing_ops \<Rightarrow> 'd wear_leveling \<Rightarrow> lock_status \<times> 'd wear_leveling" where
  "wl_lock b s =
     (if \<not> unlocked s then (STATUS_UNCHANGED, s)
      else case bs_lock b (store s) of (ok, d) \<Rightarrow>
        if \<not> ok then (STATUS_FAILURE, s\<lparr>store := d\<rparr>)
        else (STATUS_SUCCESS, s\<lparr>store := d, unlocked := False\<rparr>))"

definition log_start :: "wl_config \<Rightarrow> nat" where
  "log_start c = logical_size c + 8"

definition wl_clear_cache :: "wl_config \<Rightarrow> 'd wear_leveling \<Rightarrow> 'd wear_leveling" where
  "wl_clear_cache c s = s\<lparr>cache := zeros (logical_size c), write_address := log_start c\<rparr>"

text \<open>
  The checksum is read with the bulk read (4 or 2 items) or a single read (1 item); its result
  is not looked at, so the comparison uses whatever is in the entry.
\<close>

definition wl_read_checksum :: "wl_config \<Rightarrow> 'd backing_ops \<Rightarrow> 'd \<Rightarrow> u8 list \<times> 'd" where
  "wl_read_checksum c b d =
     (case write_size c of
        WS2 \<Rightarrow> (case bs_read_bulk b (logical_size c) 4 d of ((_, v), d) \<Rightarrow> (v, d))
      | WS4 \<Rightarrow> (case bs_read_bulk b (logical_size c) 2 d of ((_, v), d) \<Rightarrow> (v, d))
      | WS8 \<Rightarrow> (case bs_read b (logical_size c) d of ((_, v), d) \<Rightarrow> (v, d)))"

definition wl_read_consolidated ::
  "wl_config \<Rightarrow> 'd backing_ops \<Rightarrow> 'd wear_leveling \<Rightarrow> wl_status \<times> 'd wear_leveling" where
  "wl_read_consolidated c b s =
     (case bs_read_bulk b 0 (logical_size c div item_size c) (store s) of ((ok, v), d) \<Rightarrow>
        if \<not> ok then (WEAR_LEVELING_FAILED, wl_clear_cache c (s\<lparr>store := d\<rparr>))
        else let s = s\<lparr>cache := v, store := d\<rparr>;
                 expected = fnv_bytes (cache s)
             in case wl_read_checksum c b (store s) of (entry, d) \<Rightarrow>
                  let s = s\<lparr>store := d\<rparr> in
                  (WEAR_LEVELING_SUCCESS, if entry = expected then s else wl_clear_cache c s))"

definition wl_write_checksum :: "wl_config \<Rightarrow> 'd backing_ops \<Rightarrow> u8 list \<Rightarrow> 'd \<Rightarrow> bool \<times> 'd" where
  "wl_write_checksum c b e d =
     (case write_size c of
        WS2 \<Rightarrow> bs_write_bulk b (logical_size c) e d
      | WS4 \<Rightarrow> bs_write_bulk b (logical_size c) e d
      | WS8 \<Rightarrow> bs_write b (logical_size c) e d)"

definition wl_write_consolidated ::
  "wl_config \<Rightarrow> 'd backing_ops \<Rightarrow> 'd wear_leveling \<Rightarrow> wl_status \<times> 'd wear_leveling" where
  "wl_write_consolidated c b s =
     (case wl_unlock b s of (lock_status, s) \<Rightarrow>
      case bs_write_bulk b 0 (cache s) (store s) of (ok, d) \<Rightarrow>
      case (if ok then wl_write_checksum c b (fnv_bytes (cache s)) d else (False, d)) of (ok, d) \<Rightarrow>
      let s = s\<lparr>store := d\<rparr>;
          status = (if ok then WEAR_LEVELING_CONSOLIDATED else WEAR_LEVELING_FAILED)
      in (status, if lock_status = STATUS_SUCCESS then snd (wl_lock b s) else s))"

definition wl_consolidate_force ::
  "wl_config \<Rightarrow> 'd backing_ops \<Rightarrow> 'd wear_leveling \<Rightarrow> wl_status \<times> 'd wear_leveling" where
  "wl_consolidate_force c b s =
     (case bs_erase b (store s) of (ok, d) \<Rightarrow>
      let s = s\<lparr>store := d\<rparr> in
      if \<not> ok then (WEAR_LEVELING_FAILED, s)
      else case wl_write_consolidated c b s of (status, s) \<Rightarrow>
             (status, s\<lparr>write_address := log_start c\<rparr>))"

definition wl_consolidate_if_needed ::
  "wl_config \<Rightarrow> 'd backing_ops \<Rightarrow> 'd wear_leveling \<Rightarrow> wl_status \<times> 'd wear_leveling" where
  "wl_consolidate_if_needed c b s =
     (if write_address s \<ge> backing_size c then wl_consolidate_force c b s
      else (WEAR_LEVELING_SUCCESS, s))"

section \<open>Appending to the log\<close>

definition wl_append_raw ::
  "wl_config \<Rightarrow> 'd backing_ops \<Rightarrow> u8 list \<Rightarrow> 'd wear_leveling \<Rightarrow> wl_status \<times> 'd wear_leveling" where
  "wl_append_raw c b v s =
     (case bs_write b (write_address s) v (store s) of (ok, d) \<Rightarrow>
      let s = s\<lparr>store := d\<rparr> in
      if \<not> ok then (WEAR_LEVELING_FAILED, s)
      else wl_consolidate_if_needed c b (s\<lparr>write_address := write_address s + item_size c\<rparr>))"

text \<open>A sequence of appends, each followed by an early return unless it succeeded.\<close>

fun wl_append_items ::
  "wl_config \<Rightarrow> 'd backing_ops \<Rightarrow> u8 list list \<Rightarrow> 'd wear_leveling \<Rightarrow> wl_status \<times> 'd wear_leveling" where
  "wl_append_items c b [] s = (WEAR_LEVELING_SUCCESS, s)"
| "wl_append_items c b (v # vs) s =
     (case wl_append_raw c b v s of (status, s) \<Rightarrow>
        if status \<noteq> WEAR_LEVELING_SUCCESS then (status, s) else wl_append_items c b vs s)"

text \<open>Item \<open>i\<close> of the entry, \<^verbatim>\<open>raw16[i]\<close>, \<^verbatim>\<open>raw32[i]\<close> or \<^verbatim>\<open>raw64\<close>.\<close>

definition raw_item :: "wl_config \<Rightarrow> u8 list \<Rightarrow> nat \<Rightarrow> u8 list" where
  "raw_item c e i = bytes_at e (i * item_size c) (item_size c)"

definition multibyte_items :: "wl_config \<Rightarrow> u8 list \<Rightarrow> nat \<Rightarrow> u8 list list" where
  "multibyte_items c log len =
     (case write_size c of
        WS2 \<Rightarrow> [raw_item c log 0, raw_item c log 1] @ (if len > 1 then [raw_item c log 2] else [])
                @ (if len > 3 then [raw_item c log 3] else [])
      | WS4 \<Rightarrow> [raw_item c log 0] @ (if len > 1 then [raw_item c log 1] else [])
      | WS8 \<Rightarrow> [raw_item c log 0])"

definition wl_write_raw_multibyte ::
  "wl_config \<Rightarrow> 'd backing_ops \<Rightarrow> nat \<Rightarrow> u8 list \<Rightarrow> 'd wear_leveling \<Rightarrow> wl_status \<times> 'd wear_leveling" where
  "wl_write_raw_multibyte c b address p s =
     (let log = logbytes (MAKE_MULTIBYTE (of_nat address) (of_nat (length p)) @ p)
      in wl_append_items c b (multibyte_items c log (length p)) s)"

definition word_01_value :: "u8 list \<Rightarrow> u16" where
  "word_01_value p = push_bit 8 (ucast (p ! 1)) OR ucast (p ! 0)"

text \<open>
  One round of the loop of \<^verbatim>\<open>wear_leveling_write_raw\<close>: which entry is written for the bytes that
  remain, and how many bytes it takes.
\<close>

definition wl_write_chunk ::
  "wl_config \<Rightarrow> 'd backing_ops \<Rightarrow> nat \<Rightarrow> u8 list \<Rightarrow> 'd wear_leveling \<Rightarrow>
     (wl_status \<times> 'd wear_leveling) \<times> nat" where
  "wl_write_chunk c b address p s =
     (if write_size c = WS2 \<and> length p \<ge> 2 \<and> address mod 2 = 0 \<and> address < 16384
         \<and> (word_01_value p = 0 \<or> word_01_value p = 1)
      then (wl_append_raw c b (MAKE_WORD_01 (of_nat address) (word_01_value p)) s, 2)
      else if write_size c = WS2 \<and> address < 64
      then (wl_append_raw c b (MAKE_OPTIMIZED_64 (of_nat address) (p ! 0)) s, 1)
      else let this_length = (if length p \<ge> 5 then 5 else length p)
           in (wl_write_raw_multibyte c b address (take this_length p) s, this_length))"

lemma wl_write_chunk_pos: "p \<noteq> [] \<Longrightarrow> 0 < snd (wl_write_chunk c b address p s)"
  by (cases p) (auto simp: wl_write_chunk_def Let_def)

function wl_write_raw ::
  "wl_config \<Rightarrow> 'd backing_ops \<Rightarrow> nat \<Rightarrow> u8 list \<Rightarrow> 'd wear_leveling \<Rightarrow> wl_status \<times> 'd wear_leveling" where
  "wl_write_raw c b address p s =
     (if p = [] then (WEAR_LEVELING_SUCCESS, s)
      else case wl_write_chunk c b address p s of ((status, s'), n) \<Rightarrow>
        if status \<noteq> WEAR_LEVELING_SUCCESS then (status, s')
        else wl_write_raw c b (address + n) (drop n p) s')"
  by pat_completeness auto
termination
proof (relation "measure (\<lambda>(c, b, address, p, s). length p)", goal_cases)
  case 1
  then show ?case by simp
next
  case (2 c b address p s x n status s')
  then have "0 < n" using wl_write_chunk_pos [of p c b address s] by (metis snd_conv)
  then show ?case using 2 by simp
qed

declare wl_write_raw.simps [simp del]

section \<open>Playback of the log\<close>

text \<open>
  Reading the next item of an entry, when it is needed: the flag tells whether the read failed.
\<close>

definition wl_fetch ::
  "wl_config \<Rightarrow> 'd backing_ops \<Rightarrow> bool \<Rightarrow> nat \<times> u8 list \<times> 'd \<Rightarrow> bool \<times> nat \<times> u8 list \<times> 'd" where
  "wl_fetch c b need x =
     (case x of (address, log, d) \<Rightarrow>
        if \<not> need then (True, address, log, d)
        else case bs_read b address d of ((ok, v), d) \<Rightarrow>
          if \<not> ok then (False, address, log, d)
          else (True, address + item_size c, log @ v, d))"

text \<open>
  The body of the \<^verbatim>\<open>switch\<close>: takes the address after the first item, the bytes read so far, the
  cache and the store; returns false when playback is cancelled with a failure. The bytes of
  \<^verbatim>\<open>raw8\<close> that were not read are not used; a length of 6 or 7 copies bytes from behind the entry.
\<close>

definition wl_play_multibyte ::
  "wl_config \<Rightarrow> 'd backing_ops \<Rightarrow> nat \<Rightarrow> u8 list \<Rightarrow> u8 list \<Rightarrow> 'd \<Rightarrow> bool \<times> nat \<times> u8 list \<times> 'd" where
  "wl_play_multibyte c b address log ca d =
     (case wl_fetch c b (write_size c = WS2) (address, log, d) of (ok, address, log, d) \<Rightarrow>
      if \<not> ok then (False, address, ca, d) else
      let a = unat (MULTIBYTE_GET_ADDRESS log); l = unat (MULTIBYTE_GET_LENGTH log) in
      if a + l > logical_size c then (False, address, ca, d) else
      case wl_fetch c b (write_size c \<noteq> WS8 \<and> l > 1) (address, log, d) of (ok, address, log, d) \<Rightarrow>
      if \<not> ok then (False, address, ca, d) else
      case wl_fetch c b (write_size c = WS2 \<and> l > 3) (address, log, d) of (ok, address, log, d) \<Rightarrow>
      if \<not> ok then (False, address, ca, d) else
      (True, address, blit ca a (bytes_at (log @ wl_spill c) 3 l), d))"

definition wl_play_entry ::
  "wl_config \<Rightarrow> 'd backing_ops \<Rightarrow> nat \<Rightarrow> u8 list \<Rightarrow> u8 list \<Rightarrow> 'd \<Rightarrow> bool \<times> nat \<times> u8 list \<times> 'd" where
  "wl_play_entry c b address log ca d =
     (if LOG_ENTRY_GET_TYPE log = LOG_ENTRY_TYPE_MULTIBYTE then wl_play_multibyte c b address log ca d
      else if write_size c = WS2 \<and> LOG_ENTRY_GET_TYPE log = LOG_ENTRY_TYPE_OPTIMIZED_64 then
        (let a = unat (OPTIMIZED_64_GET_ADDRESS log) in
         if a \<ge> logical_size c then (False, address, ca, d)
         else (True, address, ca[a := OPTIMIZED_64_GET_VALUE log], d))
      else if write_size c = WS2 \<and> LOG_ENTRY_GET_TYPE log = LOG_ENTRY_TYPE_WORD_01 then
        (let a = unat (WORD_01_GET_ADDRESS log) in
         if a + 1 \<ge> logical_size c then (False, address, ca, d)
         else (True, address, ca[a := WORD_01_GET_VALUE log, a + 1 := 0], d))
      else (False, address, ca, d))"

lemma wl_fetch_address: "wl_fetch c b need (a, log, d) = (ok, a', log', d') \<Longrightarrow> a \<le> a'"
  by (auto simp: wl_fetch_def split: if_splits prod.splits)

lemma wl_play_entry_address:
  assumes "wl_play_entry c b address log ca d = (ok, address', ca', d')"
  shows "address \<le> address'"
proof -
  have "wl_play_multibyte c b address log ca d = (ok, address', ca', d') \<Longrightarrow> address \<le> address'"
    unfolding wl_play_multibyte_def
    by (auto simp: Let_def split: prod.splits if_splits dest!: wl_fetch_address)
  with assms show ?thesis
    by (auto simp: wl_play_entry_def Let_def split: if_splits)
qed

function wl_playback_loop ::
  "wl_config \<Rightarrow> 'd backing_ops \<Rightarrow> nat \<Rightarrow> u8 list \<Rightarrow> 'd \<Rightarrow> bool \<times> nat \<times> u8 list \<times> 'd" where
  "wl_playback_loop c b address ca d =
     (if \<not> address < backing_size c then (True, address, ca, d)
      else case bs_read b address d of ((ok, v), d) \<Rightarrow>
        if \<not> ok then (False, address, ca, d)
        else if v = zeros (item_size c) then (True, address, ca, d)
        else case wl_play_entry c b (address + item_size c) v ca d of (ok, address, ca, d) \<Rightarrow>
          if \<not> ok then (False, address, ca, d) else wl_playback_loop c b address ca d)"
  by pat_completeness auto
termination
proof (relation "measure (\<lambda>(c, b, address, ca, d). backing_size c - address)", goal_cases)
  case 1
  then show ?case by simp
next
  case (2 c b address ca d x d1 ok v y ok' address' z ca' d')
  then have "address + item_size c \<le> address'"
    by (auto dest!: sym [of _ "wl_play_entry c b (address + item_size c) v ca d1"] wl_play_entry_address)
  moreover have "0 < item_size c" by simp
  ultimately have "address < address'" by linarith
  then show ?case using 2 by auto
qed

declare wl_playback_loop.simps [simp del]

definition wl_playback_log ::
  "wl_config \<Rightarrow> 'd backing_ops \<Rightarrow> 'd wear_leveling \<Rightarrow> wl_status \<times> 'd wear_leveling" where
  "wl_playback_log c b s =
     (case wl_playback_loop c b (log_start c) (cache s) (store s) of (ok, address, ca, d) \<Rightarrow>
      let s = s\<lparr>cache := ca, store := d, write_address := address\<rparr> in
      if \<not> ok then wl_consolidate_force c b s else wl_consolidate_if_needed c b s)"

section \<open>The public operations\<close>

definition wear_leveling_init ::
  "wl_config \<Rightarrow> 'd backing_ops \<Rightarrow> 'd wear_leveling \<Rightarrow> wl_status \<times> 'd wear_leveling" where
  "wear_leveling_init c b s =
     (let s = wl_clear_cache c s in
      case bs_init b (store s) of (ok, d) \<Rightarrow>
      let s = s\<lparr>store := d\<rparr> in
      if \<not> ok then (WEAR_LEVELING_FAILED, wl_clear_cache c s) else
      case wl_read_consolidated c b s of (status, s) \<Rightarrow>
      if status = WEAR_LEVELING_FAILED then (status, wl_clear_cache c s) else
      case wl_playback_log c b s of (status, s) \<Rightarrow>
      if status = WEAR_LEVELING_FAILED then (status, wl_clear_cache c s) else (status, s))"

definition wear_leveling_erase ::
  "wl_config \<Rightarrow> 'd backing_ops \<Rightarrow> 'd wear_leveling \<Rightarrow> wl_status \<times> 'd wear_leveling" where
  "wear_leveling_erase c b s =
     (case wl_unlock b s of (lock_status, s) \<Rightarrow>
      if lock_status = STATUS_FAILURE then (WEAR_LEVELING_FAILED, snd (wl_lock b s)) else
      case bs_erase b (store s) of (ret, d) \<Rightarrow>
      let s = wl_clear_cache c (s\<lparr>store := d\<rparr>) in
      case (if lock_status = STATUS_SUCCESS
            then (case wl_lock b s of (r, s) \<Rightarrow> (ret \<and> r \<noteq> STATUS_FAILURE, s)) else (ret, s)) of (ret, s) \<Rightarrow>
      (if ret then WEAR_LEVELING_SUCCESS else WEAR_LEVELING_FAILED, s))"

definition wl_guard :: "wl_config \<Rightarrow> nat \<Rightarrow> nat \<Rightarrow> bool" where
  "wl_guard c address len \<longleftrightarrow> (address + len) mod 2 ^ 32 > logical_size c"

definition wear_leveling_write ::
  "wl_config \<Rightarrow> 'd backing_ops \<Rightarrow> nat \<Rightarrow> u8 list \<Rightarrow> 'd wear_leveling \<Rightarrow>
     (wl_status \<times> 'd wear_leveling) option" where
  "wear_leveling_write c b address p s =
     (if wl_guard c address (length p) then Some (WEAR_LEVELING_FAILED, s)
      else if address + length p > length (cache s) then None
      else if bytes_at (cache s) address (length p) = p then Some (WEAR_LEVELING_SUCCESS, s)
      else let s = s\<lparr>cache := blit (cache s) address p\<rparr> in
      case wl_unlock b s of (lock_status, s) \<Rightarrow>
      if lock_status = STATUS_FAILURE then Some (WEAR_LEVELING_FAILED, snd (wl_lock b s)) else
      case wl_write_raw c b address p s of (status, s) \<Rightarrow>
      case (if status = WEAR_LEVELING_SUCCESS then wl_consolidate_if_needed c b s
            else (status, s)) of (status, s) \<Rightarrow>
      Some (if lock_status = STATUS_SUCCESS
            then (case wl_lock b s of (r, s) \<Rightarrow>
                    (if r = STATUS_FAILURE then WEAR_LEVELING_FAILED else status, s))
            else (status, s)))"

definition wear_leveling_read ::
  "wl_config \<Rightarrow> nat \<Rightarrow> nat \<Rightarrow> 'd wear_leveling \<Rightarrow> (wl_status \<times> u8 list option) option" where
  "wear_leveling_read c address len s =
     (if wl_guard c address len then Some (WEAR_LEVELING_FAILED, None)
      else if address + len > length (cache s) then None
      else Some (WEAR_LEVELING_SUCCESS, Some (bytes_at (cache s) address len)))"

end
