(* ===== verification/WearLevelingLog.thy ===== *)
theory WearLevelingLog
  imports WearLeveling
begin

text \<open>
  The codec of the write log: every entry that \<^verbatim>\<open>wear_leveling_write_raw\<close> builds is decoded by
  the playback to the address and bytes it was built from.
\<close>

section \<open>Fields of an entry\<close>

lemma small_no_bit: "unat (w :: 'a::len word) < 2 ^ k \<Longrightarrow> k \<le> n \<Longrightarrow> \<not> bit w n"
proof
  assume w: "unat w < 2 ^ k" and n: "k \<le> n" and b: "bit w n"
  have "w = take_bit k w"
    using w by (simp add: word_unat_eq_iff unsigned_take_bit_eq take_bit_nat_eq_self)
  with b n show False by (metis bit_take_bit_iff not_le)
qed

lemma bit_masked [simp]: "bit (masked k w :: 'a::len word) n \<longleftrightarrow> n < k \<and> bit w n"
proof -
  have "masked k w = take_bit k w"
    by (simp add: masked_def mask_eq_decr_exp [symmetric] take_bit_eq_mask)
  then show ?thesis by (auto simp: bit_take_bit_iff)
qed

lemma bit_type_consts [simp]:
  "\<not> bit LOG_ENTRY_TYPE_MULTIBYTE n"
  "bit LOG_ENTRY_TYPE_OPTIMIZED_64 n \<longleftrightarrow> n = 0"
  "bit LOG_ENTRY_TYPE_WORD_01 n \<longleftrightarrow> n = 1"
  using bit_exp_iff [of 1 n, where 'a = "8 word"]
  by (auto simp: LOG_ENTRY_TYPE_MULTIBYTE_def LOG_ENTRY_TYPE_OPTIMIZED_64_def
      LOG_ENTRY_TYPE_WORD_01_def bit_1_iff)

lemma bit_push [simp]: "bit (push_bit k w :: 'a::len word) n \<longleftrightarrow> k \<le> n \<and> n < LENGTH('a) \<and> bit w (n - k)"
  by (auto simp: bit_push_bit_iff)

lemma bits_eqI: "(\<And>n. bit v n = bit (w :: 'a::len word) n) \<Longrightarrow> v = w"
  by (rule bit_eqI) simp

lemma multibyte_address:
  assumes "unat address < 2 ^ 19"
  shows "MULTIBYTE_GET_ADDRESS (MAKE_MULTIBYTE address len @ rest) = address"
proof (rule bits_eqI)
  fix n
  note s = small_no_bit [OF assms]
  show "bit (MULTIBYTE_GET_ADDRESS (MAKE_MULTIBYTE address len @ rest)) n = bit address n"
    by (cases "n < 19")
      (use s [of n] in \<open>auto simp: MULTIBYTE_GET_ADDRESS_def MAKE_MULTIBYTE_def bit_or_iff bit_and_iff
        bit_ucast_iff bit_drop_bit_eq dest: bit_imp_le_length\<close>)
qed

lemma multibyte_length:
  assumes "unat len < 8"
  shows "MULTIBYTE_GET_LENGTH (MAKE_MULTIBYTE address len @ rest) = len"
proof (rule bits_eqI)
  fix n
  have s: "3 \<le> n \<Longrightarrow> \<not> bit len n" using small_no_bit [of len 3 n] assms by simp
  show "bit (MULTIBYTE_GET_LENGTH (MAKE_MULTIBYTE address len @ rest)) n = bit len n"
    by (cases "n < 3")
      (use s in \<open>auto simp: MULTIBYTE_GET_LENGTH_def MAKE_MULTIBYTE_def bit_or_iff bit_and_iff
        bit_ucast_iff bit_drop_bit_eq dest: bit_imp_le_length\<close>)
qed

lemma multibyte_type: "LOG_ENTRY_GET_TYPE (MAKE_MULTIBYTE address len @ rest) = LOG_ENTRY_TYPE_MULTIBYTE"
  by (rule bit_eqI) (auto simp: LOG_ENTRY_GET_TYPE_def MAKE_MULTIBYTE_def bit_or_iff bit_and_iff
        bit_ucast_iff bit_drop_bit_eq dest: bit_imp_le_length)

lemma optimized_64_fields:
  assumes "unat address < 64"
  shows "LOG_ENTRY_GET_TYPE (MAKE_OPTIMIZED_64 address v) = LOG_ENTRY_TYPE_OPTIMIZED_64"
    and "OPTIMIZED_64_GET_ADDRESS (MAKE_OPTIMIZED_64 address v) = address"
    and "OPTIMIZED_64_GET_VALUE (MAKE_OPTIMIZED_64 address v) = v"
proof -
  have s: "6 \<le> n \<Longrightarrow> \<not> bit address n" for n using small_no_bit [of address 6 n] assms by simp
  show "LOG_ENTRY_GET_TYPE (MAKE_OPTIMIZED_64 address v) = LOG_ENTRY_TYPE_OPTIMIZED_64"
    by (rule bit_eqI) (auto simp: LOG_ENTRY_GET_TYPE_def MAKE_OPTIMIZED_64_def bit_or_iff bit_and_iff
        bit_ucast_iff bit_drop_bit_eq bit_1_iff bit_exp_iff dest: bit_imp_le_length)
  show "OPTIMIZED_64_GET_ADDRESS (MAKE_OPTIMIZED_64 address v) = address"
  proof (rule bits_eqI)
  fix n
    show "bit (OPTIMIZED_64_GET_ADDRESS (MAKE_OPTIMIZED_64 address v)) n = bit address n"
      by (cases "n < 6") (use s [of n] in \<open>auto simp: OPTIMIZED_64_GET_ADDRESS_def
        MAKE_OPTIMIZED_64_def bit_or_iff bit_and_iff
        bit_ucast_iff bit_drop_bit_eq bit_exp_iff dest: bit_imp_le_length\<close>)
  qed
  show "OPTIMIZED_64_GET_VALUE (MAKE_OPTIMIZED_64 address v) = v"
    by (simp add: OPTIMIZED_64_GET_VALUE_def MAKE_OPTIMIZED_64_def)
qed

lemma word_01_fields:
  assumes "unat address < 16384" "unat address mod 2 = 0"
  shows "LOG_ENTRY_GET_TYPE (MAKE_WORD_01 address v) = LOG_ENTRY_TYPE_WORD_01"
    and "WORD_01_GET_ADDRESS (MAKE_WORD_01 address v) = address"
    and "WORD_01_GET_VALUE (MAKE_WORD_01 address v) = (if v \<noteq> 0 then 1 else 0)"
proof -
  have s: "14 \<le> n \<Longrightarrow> \<not> bit address n" for n using small_no_bit [of address 14 n] assms by simp
  have e: "\<not> bit address 0"
    using assms(2) bit_unsigned_iff [of address 0, where 'a = nat] by (simp add: bit_0 even_iff_mod_2_eq_zero)
  show "LOG_ENTRY_GET_TYPE (MAKE_WORD_01 address v) = LOG_ENTRY_TYPE_WORD_01"
    by (rule bit_eqI) (auto simp: LOG_ENTRY_GET_TYPE_def MAKE_WORD_01_def bit_or_iff bit_and_iff
        bit_ucast_iff bit_drop_bit_eq bit_1_iff bit_exp_iff dest: bit_imp_le_length)
  show "WORD_01_GET_ADDRESS (MAKE_WORD_01 address v) = address"
  proof (rule bits_eqI)
  fix n
    show "bit (WORD_01_GET_ADDRESS (MAKE_WORD_01 address v)) n = bit address n"
      by (cases "n = 0"; cases "n < 14") (use s [of n] e in \<open>auto simp: WORD_01_GET_ADDRESS_def
        MAKE_WORD_01_def bit_or_iff bit_and_iff
        bit_ucast_iff bit_drop_bit_eq bit_exp_iff dest: bit_imp_le_length\<close>)
  qed
  show "WORD_01_GET_VALUE (MAKE_WORD_01 address v) = (if v \<noteq> 0 then 1 else 0)"
    by (rule bit_eqI) (auto simp: WORD_01_GET_VALUE_def MAKE_WORD_01_def bit_or_iff bit_and_iff
        bit_ucast_iff bit_drop_bit_eq bit_1_iff bit_exp_iff dest: bit_imp_le_length)
qed

section \<open>Configurations\<close>

text \<open>
  The configurations the module works for: beyond the static assertions there has to be room for
  the checksum and at least one log item, and the logical addresses have to fit the 19 bits that
  an entry has for them. The backing store is addressed with 32 bits.
\<close>

definition wl_config_ok :: "wl_config \<Rightarrow> bool" where
  "wl_config_ok c \<longleftrightarrow> wl_static_asserts c \<and> 0 < logical_size c \<and> log_start c < backing_size c \<and>
     logical_size c \<le> 2 ^ 19 \<and> backing_size c \<le> 2 ^ 32"

lemma config_mods [layout_simps]:
  assumes "wl_config_ok c"
  shows "logical_size c mod item_size c = 0" "backing_size c mod item_size c = 0"
    "log_start c mod item_size c = 0" "8 mod item_size c = 0"
proof -
  show l: "logical_size c mod item_size c = 0"
    using assms by (simp add: wl_config_ok_def wl_static_asserts_def)
  show b: "backing_size c mod item_size c = 0"
    using assms l by (auto simp: wl_config_ok_def wl_static_asserts_def mod_eq_0_iff_dvd intro: dvd_trans)
  show e: "8 mod item_size c = 0"
    by (cases "write_size c") simp_all
  show "log_start c mod item_size c = 0"
    using l e by (simp add: log_start_def mod_eq_0_iff_dvd)
qed

section \<open>Playback on an image\<close>

text \<open>
  The ideal store: its state is its content. Reading from it is how the playback of a log is
  specified; the playback on a driver is proved to agree with it.
\<close>

definition img_ops :: "wl_config \<Rightarrow> u8 list backing_ops" where
  "img_ops c = with_default_bulk c
     \<lparr>bs_init = (\<lambda>m. (True, m)), bs_unlock = (\<lambda>m. (True, m)),
      bs_erase = (\<lambda>m. (True, zeros (length m))), bs_write = (\<lambda>a v m. (True, blit m a v)),
      bs_write_bulk = (\<lambda>a v m. (True, m)), bs_lock = (\<lambda>m. (True, m)),
      bs_read = (\<lambda>a m. ((True, bytes_at m a (item_size c)), m)),
      bs_read_bulk = (\<lambda>a n m. ((True, []), m))\<rparr>"

lemma img_ops_read [simp]: "bs_read (img_ops c) a m = ((True, bytes_at m a (item_size c)), m)"
  by (simp add: img_ops_def)

text \<open>One entry of the log at address \<open>a\<close>.\<close>

definition play_at :: "wl_config \<Rightarrow> u8 list \<Rightarrow> nat \<Rightarrow> u8 list \<Rightarrow> (nat \<times> u8 list) option" where
  "play_at c m a ca =
     (let v = bytes_at m a (item_size c) in
      if v = zeros (item_size c) then None
      else case wl_play_entry c (img_ops c) (a + item_size c) v ca m of (ok, a', ca', _) \<Rightarrow>
        if ok \<and> a' \<le> backing_size c then Some (a', ca') else None)"

inductive replays :: "wl_config \<Rightarrow> u8 list \<Rightarrow> nat \<Rightarrow> u8 list \<Rightarrow> nat \<Rightarrow> u8 list \<Rightarrow> bool" for c m where
  replays_nil: "replays c m a ca a ca"
| replays_step: "play_at c m a ca = Some (a1, ca1) \<Longrightarrow> replays c m a1 ca1 a2 ca2 \<Longrightarrow>
    replays c m a ca a2 ca2"

lemma replays_snoc:
  "replays c m a ca a1 ca1 \<Longrightarrow> play_at c m a1 ca1 = Some (a2, ca2) \<Longrightarrow> replays c m a ca a2 ca2"
  by (induction rule: replays.induct) (auto intro: replays.intros)

lemma img_fetch [simp]:
  "wl_fetch c (img_ops c) need (a, log, m) =
     (True, if need then a + item_size c else a,
      if need then log @ bytes_at m a (item_size c) else log, m)"
  by (simp add: wl_fetch_def)

text \<open>An entry depends only on the bytes of the store from its address to the next one.\<close>

lemma play_entry_img_store:
  "wl_play_entry c (img_ops c) a log ca m = (ok, a', ca', m') \<Longrightarrow> m' = m"
  by (auto simp: wl_play_entry_def wl_play_multibyte_def Let_def split: if_splits)

lemma play_entry_img_cong:
  assumes "wl_play_entry c (img_ops c) a log ca m = (True, a', ca', m0)"
    and "\<And>b. a \<le> b \<Longrightarrow> b + item_size c \<le> a' \<Longrightarrow> bytes_at m2 b (item_size c) = bytes_at m b (item_size c)"
  shows "wl_play_entry c (img_ops c) a log ca m2 = (True, a', ca', m2)"
  using assms(1) assms(2) [of a] assms(2) [of "a + item_size c"] assms(2) [of "a + item_size c + item_size c"]
  by (cases "write_size c")
    (auto simp: wl_play_entry_def wl_play_multibyte_def Let_def split: if_splits)

lemma play_at_cong:
  assumes p: "play_at c m a ca = Some (a', ca')"
    and eq: "\<And>b. a \<le> b \<Longrightarrow> b + item_size c \<le> a' \<Longrightarrow> bytes_at m2 b (item_size c) = bytes_at m b (item_size c)"
  shows "play_at c m2 a ca = Some (a', ca')"
proof -
  let ?v = "bytes_at m a (item_size c)"
  obtain m0 where e: "wl_play_entry c (img_ops c) (a + item_size c) ?v ca m = (True, a', ca', m0)"
    and v: "?v \<noteq> zeros (item_size c)" "a' \<le> backing_size c"
    using p by (auto simp: play_at_def Let_def split: if_splits prod.splits)
  have "a + item_size c \<le> a'" using e by (rule wl_play_entry_address)
  then have v2: "bytes_at m2 a (item_size c) = ?v" by (intro eq) simp_all
  have "wl_play_entry c (img_ops c) (a + item_size c) ?v ca m2 = (True, a', ca', m2)"
    by (rule play_entry_img_cong [OF e]) (simp add: eq)
  then show ?thesis using v by (simp add: play_at_def Let_def v2)
qed

lemma play_at_grows: "play_at c m a ca = Some (a', ca') \<Longrightarrow> a + item_size c \<le> a' \<and> a' \<le> backing_size c"
  by (auto simp: play_at_def Let_def split: if_splits prod.splits dest: wl_play_entry_address)

lemma replays_grows: "replays c m a ca a' ca' \<Longrightarrow> a \<le> a'"
  by (induction rule: replays.induct) (auto dest: play_at_grows)

lemma replays_cong:
  assumes "replays c m a ca a' ca'"
    and "\<And>b. a \<le> b \<Longrightarrow> b + item_size c \<le> a' \<Longrightarrow> bytes_at m2 b (item_size c) = bytes_at m b (item_size c)"
  shows "replays c m2 a ca a' ca'"
  using assms
proof (induction rule: replays.induct)
  case (replays_step a ca a1 ca1 a2 ca2)
  have g: "a + item_size c \<le> a1" "a1 \<le> a2"
    using replays_step.hyps play_at_grows replays_grows by blast+
  have "play_at c m2 a ca = Some (a1, ca1)"
    by (rule play_at_cong [OF replays_step.hyps(1)]) (use replays_step.prems g in auto)
  moreover have "replays c m2 a1 ca1 a2 ca2"
    by (rule replays_step.IH) (use replays_step.prems g in auto)
  ultimately show ?case by (rule replays.intros)
qed (rule replays.intros)

section \<open>Entries written are decoded as written\<close>

text \<open>The number of bytes of a multi-byte entry that are written.\<close>

fun multibyte_size :: "write_size \<Rightarrow> nat \<Rightarrow> nat" where
  "multibyte_size WS2 l = (if l > 3 then 8 else if l > 1 then 6 else 4)"
| "multibyte_size WS4 l = (if l > 1 then 8 else 4)"
| "multibyte_size WS8 l = 8"

lemma logbytes_length [simp]: "length bs \<le> 8 \<Longrightarrow> length (logbytes bs) = 8"
  by (simp add: logbytes_def)

lemma make_multibyte_length [simp]: "length (MAKE_MULTIBYTE address len) = 3"
  by (simp add: MAKE_MULTIBYTE_def)

lemma bytes_at_0: "bytes_at xs 0 n = take n xs"
  by (simp add: bytes_at_def)

lemma take_chunks: "take i xs @ bytes_at xs i k = take (i + k) xs"
  by (simp add: bytes_at_def take_add)

lemma take_chunks_assoc: "take i xs @ bytes_at xs i k @ r = take (i + k) xs @ r"
  by (simp add: take_chunks [symmetric])

lemma bytes_at_take: "i + k \<le> n \<Longrightarrow> bytes_at (take n xs) i k = bytes_at xs i k"
  by (simp add: bytes_at_def drop_take min_absorb1)

lemma concat_multibyte_items:
  assumes "length e = 8"
  shows "concat (multibyte_items c e l) = take (multibyte_size (write_size c) l) e"
proof (cases "write_size c")
  case WS2
  then show ?thesis
    by (simp add: multibyte_items_def raw_item_def bytes_at_0 take_chunks append_assoc [symmetric]
        del: append_assoc)
next
  case WS4
  then show ?thesis
    by (simp add: multibyte_items_def raw_item_def bytes_at_0 take_chunks)
next
  case WS8
  then show ?thesis by (simp add: multibyte_items_def raw_item_def bytes_at_0)
qed

lemma multibyte_fields_take:
  assumes e: "e = logbytes (MAKE_MULTIBYTE address len @ p)" and n: "3 \<le> n"
    and a: "unat address < 2 ^ 19" and l: "unat len < 8"
  shows "LOG_ENTRY_GET_TYPE (take n e) = LOG_ENTRY_TYPE_MULTIBYTE"
    and "MULTIBYTE_GET_ADDRESS (take n e) = address"
    and "MULTIBYTE_GET_LENGTH (take n e) = len"
proof -
  have "take n e = MAKE_MULTIBYTE address len @ take (n - 3) (p @ zeros (8 - length (MAKE_MULTIBYTE address len @ p)))"
    using n by (simp add: e logbytes_def)
  then show "LOG_ENTRY_GET_TYPE (take n e) = LOG_ENTRY_TYPE_MULTIBYTE"
    "MULTIBYTE_GET_ADDRESS (take n e) = address" "MULTIBYTE_GET_LENGTH (take n e) = len"
    by (simp_all only: multibyte_type multibyte_address [OF a] multibyte_length [OF l])
qed

lemma type_head: "xs ! 0 = ys ! 0 \<Longrightarrow> LOG_ENTRY_GET_TYPE xs = LOG_ENTRY_GET_TYPE ys"
  by (simp add: LOG_ENTRY_GET_TYPE_def)

lemma multibyte_length_head: "xs ! 0 = ys ! 0 \<Longrightarrow> MULTIBYTE_GET_LENGTH xs = MULTIBYTE_GET_LENGTH ys"
  by (simp add: MULTIBYTE_GET_LENGTH_def)

lemma zeros_head: "0 < n \<Longrightarrow> zeros n ! 0 = 0"
  by (simp add: zeros_def)

lemma play_multibyte:
  fixes p :: "u8 list" and address :: nat
  defines "e \<equiv> logbytes (MAKE_MULTIBYTE (of_nat address) (of_nat (length p)) @ p)"
  assumes p: "p \<noteq> []" "length p \<le> 5" and range: "address + length p \<le> logical_size c"
    and L: "logical_size c \<le> 2 ^ 19"
    and m: "bytes_at m a (multibyte_size (write_size c) (length p)) =
            take (multibyte_size (write_size c) (length p)) e"
    and fits: "a + multibyte_size (write_size c) (length p) \<le> backing_size c"
  shows "play_at c m a ca = Some (a + multibyte_size (write_size c) (length p), blit ca address p)"
proof -
  let ?n = "multibyte_size (write_size c) (length p)" and ?k = "item_size c"
  have al: "unat (of_nat address :: u32) = address" "unat (of_nat address :: u32) < 2 ^ 19"
    using range L p by (simp_all add: unat_of_nat take_bit_nat_def) (cases p; simp)+
  have ll: "unat (of_nat (length p) :: u8) = length p" "unat (of_nat (length p) :: u8) < 8"
    using p by (simp_all add: unat_of_nat take_bit_nat_def)
  have len_e: "length e = 8" using p by (simp add: e_def)
  note f = multibyte_fields_take [OF e_def [THEN meta_eq_to_obj_eq] _ al(2) ll(2)]
  have seg: "bytes_at m (a + i) k = bytes_at e i k" if "i + k \<le> ?n" for i k
  proof -
    have "bytes_at m (a + i) k = bytes_at (bytes_at m a ?n) i k"
      using that by (simp add: bytes_at_bytes_at)
    also have "\<dots> = bytes_at e i k"
      using that by (simp only: m bytes_at_take)
    finally show ?thesis .
  qed
  have nk: "?k \<le> ?n" "3 \<le> ?n" "3 + length p \<le> ?n"
    using p by (cases "write_size c"; simp; fail)+
  have v: "bytes_at m a ?k = take ?k e"
    using seg [of 0 ?k] nk by (simp add: bytes_at_0)
  have h: "take ?k e ! 0 = e ! 0" by (cases "write_size c") simp_all
  have nz: "take ?k e \<noteq> zeros ?k"
  proof
    assume "take ?k e = zeros ?k"
    then have "e ! 0 = zeros 8 ! 0" using h by (simp add: zeros_head)
    then have "MULTIBYTE_GET_LENGTH e = MULTIBYTE_GET_LENGTH (zeros 8)" by (rule multibyte_length_head)
    moreover have "MULTIBYTE_GET_LENGTH e = of_nat (length p)" using f(3) [of 8] len_e by simp
    ultimately have "unat (of_nat (length p) :: u8) = 0"
      by (simp add: MULTIBYTE_GET_LENGTH_def zeros_head masked_def)
    then show False using ll p by simp
  qed
  have ty: "LOG_ENTRY_GET_TYPE (take ?k e) = LOG_ENTRY_TYPE_MULTIBYTE"
    using f(1) [of 8] len_e type_head [OF h] by simp
  have cp: "bytes_at (take ?n e @ sp) 3 (length p) = p" for sp
    using nk p by (simp add: bytes_at_def e_def logbytes_def)
  have two: "take 2 e @ bytes_at e 2 2 = take 4 e" "take 4 e @ bytes_at e 4 2 = take 6 e"
    "take 6 e @ bytes_at e 6 2 = take 8 e" "take 4 e @ bytes_at e 4 4 = take 8 e"
    by (simp_all add: take_chunks)
  have asc: "take 4 e @ bytes_at e 4 2 @ r = take 6 e @ r" "take 6 e @ bytes_at e 6 2 @ r = take 8 e @ r"
    "take 4 e @ bytes_at e 4 4 @ r = take 8 e @ r" for r
    by (simp_all add: take_chunks_assoc)
  show ?thesis
  proof (cases "write_size c")
    case WS2
    note facts = f [of 4] f [of 6] f [of 8] cp [of "wl_spill c"] v nz ty two range fits al ll WS2
    note defs = play_at_def wl_play_entry_def wl_play_multibyte_def Let_def add.assoc
    have p_pos: "0 < length p" using p by simp
    consider "length p = 1" | "1 < length p" "length p \<le> 3" | "3 < length p"
      using p_pos by linarith
    then show ?thesis
    proof cases
      case 1
      then show ?thesis
        using seg [of 2 2] facts by (simp add: defs asc del: add_2_eq_Suc add_2_eq_Suc')
    next
      case 2
      then show ?thesis
        using seg [of 2 2] seg [of 4 2] facts by (simp add: defs asc del: add_2_eq_Suc add_2_eq_Suc')
    next
      case 3
      then show ?thesis
        using seg [of 2 2] seg [of 4 2] seg [of 6 2] facts
        by (simp add: defs asc del: add_2_eq_Suc add_2_eq_Suc')
    qed
  next
    case WS4
    show ?thesis
      using seg [of 4 4] f [of 4] f [of 8] cp [of "wl_spill c"] v nz ty two range fits al ll WS4
      by (cases "1 < length p")
        (simp_all add: play_at_def wl_play_entry_def wl_play_multibyte_def Let_def add.assoc asc)
  next
    case WS8
    show ?thesis
      using f [of 8] cp [of "wl_spill c"] v nz ty range fits al ll WS8
      by (simp add: play_at_def wl_play_entry_def wl_play_multibyte_def Let_def)
  qed
qed

lemma u8_type_distinct [simp]:
  "LOG_ENTRY_TYPE_OPTIMIZED_64 \<noteq> LOG_ENTRY_TYPE_MULTIBYTE"
  "LOG_ENTRY_TYPE_WORD_01 \<noteq> LOG_ENTRY_TYPE_MULTIBYTE"
  "LOG_ENTRY_TYPE_WORD_01 \<noteq> LOG_ENTRY_TYPE_OPTIMIZED_64"
  by (simp_all add: LOG_ENTRY_TYPE_MULTIBYTE_def LOG_ENTRY_TYPE_OPTIMIZED_64_def LOG_ENTRY_TYPE_WORD_01_def)

lemma make_lengths [simp]:
  "length (MAKE_OPTIMIZED_64 address v) = 2" "length (MAKE_WORD_01 address w) = 2"
  by (simp_all add: MAKE_OPTIMIZED_64_def MAKE_WORD_01_def)

lemma type_zeros: "0 < n \<Longrightarrow> LOG_ENTRY_GET_TYPE (zeros n) = LOG_ENTRY_TYPE_MULTIBYTE"
  by (simp add: LOG_ENTRY_GET_TYPE_def zeros_head masked_def LOG_ENTRY_TYPE_MULTIBYTE_def)

lemma play_optimized_64:
  assumes ws: "write_size c = WS2" and a: "address < 64" "address < logical_size c"
    and m: "bytes_at m w 2 = MAKE_OPTIMIZED_64 (of_nat address) v" and fits: "w + 2 \<le> backing_size c"
  shows "play_at c m w ca = Some (w + 2, ca[address := v])"
proof -
  have u: "unat (of_nat address :: u32) = address" "unat (of_nat address :: u32) < 64"
    using a by (simp_all add: unat_of_nat take_bit_nat_def)
  note f = optimized_64_fields [OF u(2), of v]
  have nz: "MAKE_OPTIMIZED_64 (of_nat address) v \<noteq> zeros 2"
    by (rule notI, use f(1) type_zeros [of 2] in \<open>simp add: not_sym [OF u8_type_distinct(1)]\<close>)
  show ?thesis
    using f m nz u(1) a fits ws by (simp add: play_at_def wl_play_entry_def Let_def)
qed

lemma play_word_01:
  assumes ws: "write_size c = WS2" and a: "address < 16384" "address mod 2 = 0" "address + 1 < logical_size c"
    and m: "bytes_at m w 2 = MAKE_WORD_01 (of_nat address) v" and fits: "w + 2 \<le> backing_size c"
  shows "play_at c m w ca = Some (w + 2, ca[address := if v \<noteq> 0 then 1 else 0, address + 1 := 0])"
proof -
  have u: "unat (of_nat address :: u32) = address"
    using a by (simp add: unat_of_nat take_bit_nat_def)
  note f = word_01_fields [of "of_nat address" v, unfolded u, OF a(1,2)]
  have nz: "MAKE_WORD_01 (of_nat address) v \<noteq> zeros 2"
    by (rule notI, use f(1) type_zeros [of 2] in \<open>simp add: not_sym [OF u8_type_distinct(2)]\<close>)
  show ?thesis
    using f m nz u a fits ws by (simp add: play_at_def wl_play_entry_def Let_def)
qed

text \<open>A 16-bit value of 0 or 1 at \<open>p\<close>, as bytes.\<close>

lemma word_01_bytes:
  assumes "word_01_value p = 0 \<or> word_01_value p = 1"
  shows "p ! 1 = 0" "p ! 0 = (if word_01_value p \<noteq> 0 then 1 else 0)"
proof -
  have b: "bit (word_01_value p) n \<longleftrightarrow> (if n < 8 then bit (p ! 0) n else n < 16 \<and> bit (p ! 1) (n - 8))" for n
    by (auto simp: word_01_value_def bit_or_iff bit_ucast_iff dest: bit_imp_le_length)
  have z: "\<not> bit (word_01_value p) n" if "n \<noteq> 0" for n
    using assms that by (auto simp: bit_1_iff)
  show "p ! 1 = 0"
  proof (rule bits_eqI)
    fix n show "bit (p ! 1) n = bit (0 :: u8) n"
      using b [of "n + 8"] z [of "n + 8"] by (auto dest: bit_imp_le_length)
  qed
  show "p ! 0 = (if word_01_value p \<noteq> 0 then 1 else 0)"
  proof (rule bits_eqI)
    fix n show "bit (p ! 0) n = bit ((if word_01_value p \<noteq> 0 then 1 else 0) :: u8) n"
    proof (cases "n < 8")
      case True
      then have "bit (p ! 0) n = bit (word_01_value p) n" using b by simp
      then show ?thesis using assms by (auto simp: bit_1_iff)
    next
      case False
      then show ?thesis by (auto simp: bit_1_iff dest: bit_imp_le_length)
    qed
  qed
qed

text \<open>The items that one round of \<^verbatim>\<open>wear_leveling_write_raw\<close> appends, and the bytes it takes.\<close>

definition chunk_items :: "wl_config \<Rightarrow> nat \<Rightarrow> u8 list \<Rightarrow> u8 list list \<times> nat" where
  "chunk_items c address p =
     (if write_size c = WS2 \<and> length p \<ge> 2 \<and> address mod 2 = 0 \<and> address < 16384
         \<and> (word_01_value p = 0 \<or> word_01_value p = 1)
      then ([MAKE_WORD_01 (of_nat address) (word_01_value p)], 2)
      else if write_size c = WS2 \<and> address < 64 then ([MAKE_OPTIMIZED_64 (of_nat address) (p ! 0)], 1)
      else let n = min 5 (length p);
               log = logbytes (MAKE_MULTIBYTE (of_nat address) (of_nat n) @ take n p)
           in (multibyte_items c log n, n))"

lemma append_items_single: "wl_append_items c b [v] s = wl_append_raw c b v s"
  by (cases "wl_append_raw c b v s") auto

lemma write_chunk_items:
  "wl_write_chunk c b address p s =
     (wl_append_items c b (fst (chunk_items c address p)) s, snd (chunk_items c address p))"
  by (auto simp: wl_write_chunk_def chunk_items_def append_items_single Let_def min_def
      wl_write_raw_multibyte_def simp del: wl_append_items.simps)

lemma chunk_items_count:
  "p \<noteq> [] \<Longrightarrow> 0 < snd (chunk_items c address p) \<and> snd (chunk_items c address p) \<le> length p"
  by (cases p) (auto simp: chunk_items_def Let_def)

lemma length_multibyte_items:
  "length e = 8 \<Longrightarrow> v \<in> set (multibyte_items c e l) \<Longrightarrow> length v = item_size c"
  by (auto simp: multibyte_items_def raw_item_def split: write_size.splits if_splits)

lemma chunk_items_length:
  "p \<noteq> [] \<Longrightarrow> v \<in> set (fst (chunk_items c address p)) \<Longrightarrow> length v = item_size c"
  by (auto simp: chunk_items_def Let_def
      elim!: length_multibyte_items [rotated] split: if_splits)

lemma blit_1: "a < length ca \<Longrightarrow> ca[a := v] = blit ca a [v]"
  by (simp add: blit_def upd_conv_take_nth_drop)

lemma blit_2: "a + 1 < length ca \<Longrightarrow> ca[a := v, a + 1 := w] = blit ca a [v, w]"
  by (rule nth_equalityI) (auto simp: nth_blit nth_list_update nth_Cons')

text \<open>The items of a chunk play back as the update of the cache with the bytes of the chunk.\<close>

lemma play_chunk:
  assumes p: "p \<noteq> []" and range: "address + length p \<le> logical_size c"
    and L: "logical_size c \<le> 2 ^ 19" and ca: "length ca = logical_size c"
    and items: "chunk_items c address p = (vs, n)"
    and m: "bytes_at m w (length (concat vs)) = concat vs"
    and fits: "w + length (concat vs) \<le> backing_size c"
  shows "play_at c m w ca = Some (w + length (concat vs), blit ca address (take n p))"
proof -
  consider (word) "write_size c = WS2" "length p \<ge> 2" "address mod 2 = 0" "address < 16384"
      "word_01_value p = 0 \<or> word_01_value p = 1"
      "vs = [MAKE_WORD_01 (of_nat address) (word_01_value p)]" "n = 2"
    | (opt) "write_size c = WS2" "address < 64" "vs = [MAKE_OPTIMIZED_64 (of_nat address) (p ! 0)]" "n = 1"
    | (multi) "n = min 5 (length p)" "vs = multibyte_items c (logbytes (MAKE_MULTIBYTE (of_nat address) (of_nat n) @ take n p)) n"
    using items by (auto simp: chunk_items_def Let_def split: if_splits)
  then show ?thesis
  proof cases
    case word
    have t: "take 2 p = [p ! 0, p ! 1]"
      using word(2) by (cases p; cases "tl p") auto
    have "play_at c m w ca = Some (w + 2, ca[address := if word_01_value p \<noteq> 0 then 1 else 0, address + 1 := 0])"
      by (rule play_word_01) (use word range m fits in \<open>auto simp del: add_2_eq_Suc'\<close>)
    then show ?thesis
      using word range word_01_bytes [OF word(5)] ca
      by (simp add: t blit_2 del: One_nat_def)
  next
    case opt
    have "play_at c m w ca = Some (w + 2, ca[address := p ! 0])"
      by (rule play_optimized_64) (use opt range p m fits in \<open>auto simp: neq_Nil_conv simp del: add_2_eq_Suc'\<close>)
    moreover have "take 1 p = [p ! 0]" "address < length ca"
      using p range ca by (auto simp: neq_Nil_conv)
    ultimately show ?thesis
      using opt by (simp add: blit_1)
  next
    case multi
    define q where "q = take n p"
    have q: "q \<noteq> []" "length q \<le> 5" "address + length q \<le> logical_size c" and n: "n = length q"
      using p multi(1) range by (auto simp: q_def min_def)
    have vs: "vs = multibyte_items c
        (logbytes (MAKE_MULTIBYTE (of_nat address) (of_nat (length q)) @ q)) (length q)"
      using multi(2) unfolding q_def [symmetric] by (simp only: n)
    have cc: "concat vs = take (multibyte_size (write_size c) (length q))
        (logbytes (MAKE_MULTIBYTE (of_nat address) (of_nat (length q)) @ q))"
      unfolding vs using q(2) by (intro concat_multibyte_items) simp
    have lcc: "length (concat vs) = multibyte_size (write_size c) (length q)"
      unfolding cc using q(2) by (cases "write_size c") simp_all
    have "play_at c m w ca = Some (w + multibyte_size (write_size c) (length q), blit ca address q)"
      by (rule play_multibyte [OF q L]) (use m fits in \<open>simp_all only: lcc cc [symmetric]\<close>)
    then show ?thesis by (simp only: lcc q_def)
  qed
qed
section \<open>Properties\<close>

lemma chunk_items_size:
  assumes "chunk_items c address p = (vs, n)"
  shows "length (concat vs) \<le> 8"
proof -
  have "length (concat (multibyte_items c (logbytes (MAKE_MULTIBYTE (of_nat address) (of_nat k) @ take k p)) l)) \<le> 8"
    if "k \<le> 5" for k l
  proof -
    have e: "length (logbytes (MAKE_MULTIBYTE (of_nat address) (of_nat k) @ take k p)) = 8" using that by simp
    show ?thesis by (simp only: concat_multibyte_items [OF e] length_take e)
  qed
  from this [of "min 5 (length p)" "min 5 (length p)"] show ?thesis
    using assms by (auto simp: chunk_items_def Let_def split: if_splits)
qed

text \<open>
  C39: whichever kind of entry a round of \<^verbatim>\<open>wear_leveling_write_raw\<close> appends for the bytes that remain, in each of the
  three item sizes: it takes at least one of them, and when its items are at a place of the backing store, playing the
  entry at that place puts exactly the bytes it was made from at the address it was made from, changes no other byte of
  the cache, and goes on behind the entry. This is for bytes inside of the logical size, of at most 2^19.
\<close>

theorem log_entry_roundtrip:
  assumes "p \<noteq> []" and "address + length p \<le> logical_size c" and "logical_size c \<le> 2 ^ 19" and "length ca = logical_size c"
  shows "\<exists>vs n. (\<forall>b s. wl_write_chunk c b address p s = (wl_append_items c b vs s, n)) \<and> 0 < n \<and> n \<le> length p \<and>
    length (concat vs) \<le> 8 \<and>
    (\<forall>m w. bytes_at m w (length (concat vs)) = concat vs \<and> w + length (concat vs) \<le> backing_size c \<longrightarrow>
      play_at c m w ca = Some (w + length (concat vs), blit ca address (take n p)))"
proof -
  obtain vs n where i: "chunk_items c address p = (vs, n)" by force
  show ?thesis
    using write_chunk_items [of c _ address p] chunk_items_count [OF assms(1), of c address] play_chunk [OF assms i] chunk_items_size [OF i] i
    by (intro exI [of _ vs] exI [of _ n]) auto
qed

text \<open>Three bytes in a store of 16-bit items, read back from the start of the store.\<close>

definition demo_log_config :: wl_config where
  "demo_log_config = \<lparr>write_size = WS2, logical_size = 256, backing_size = 1024, wl_spill = []\<rparr>"

lemma log_entry_roundtrip_witness:
  "\<exists>vs n. 0 < n \<and> n \<le> 3 \<and> (\<forall>(b :: nat backing_ops) s. wl_write_chunk demo_log_config b 0x80 [1, 2, 3] s = (wl_append_items demo_log_config b vs s, n)) \<and>
    play_at demo_log_config (concat vs) 0 (replicate 256 0) = Some (length (concat vs), blit (replicate 256 0) 0x80 (take n [1, 2, 3]))"
proof -
  have f: "logical_size demo_log_config = 256" "backing_size demo_log_config = 1024" by (simp_all add: demo_log_config_def)
  obtain vs n where v: "\<forall>(b :: nat backing_ops) s. wl_write_chunk demo_log_config b 0x80 [1, 2, 3] s = (wl_append_items demo_log_config b vs s, n)"
    "0 < n" "n \<le> 3" "length (concat vs) \<le> 8" and
    w: "\<forall>m w. bytes_at m w (length (concat vs)) = concat vs \<and> w + length (concat vs) \<le> 1024 \<longrightarrow>
      play_at demo_log_config m w (replicate 256 0) = Some (w + length (concat vs), blit (replicate 256 0) 0x80 (take n [1, 2, 3]))"
    using log_entry_roundtrip [where p = "[1, 2, 3]" and address = "0x80" and c = demo_log_config and ca = "replicate 256 0"] f
    by (simp only: f) (auto simp: numeral_3_eq_3)
  have "bytes_at (concat vs) 0 (length (concat vs)) = concat vs" by (simp add: bytes_at_def)
  then show ?thesis using v w [rule_format, where m = "concat vs" and w = 0] by (intro exI [of _ vs] exI [of _ n]) simp
qed

end
