(* ===== verification/MockStore.thy ===== *)
theory MockStore
  imports BackingStore
begin

text \<open>
  The mock driver of the unit tests, \<^verbatim>\<open>quantum/wear_leveling/tests/backing_mocks.cpp\<close>: an array of
  flash items that hold the complement of what is written, with a lock, call counters, callbacks
  that decide which calls fail, and expectations (\<^verbatim>\<open>EXPECT_TRUE\<close>) on how it is called. It is a
  provider of the backing store contract; the weak bulk operations are linked with it.
\<close>

record mock_store =
  mock_cells :: "u8 list"
  mock_locked :: bool
  mock_init_count :: nat
  mock_unlock_count :: nat
  mock_erase_count :: nat
  mock_write_count :: nat
  mock_lock_count :: nat
  mock_total_writes :: nat
  mock_erasures :: nat
  mock_expectations_met :: bool

text \<open>The callbacks; each gets the number of calls so far.\<close>

record mock_callbacks =
  init_success :: "nat \<Rightarrow> bool"
  erase_success :: "nat \<Rightarrow> bool"
  unlock_success :: "nat \<Rightarrow> bool"
  write_success :: "nat \<Rightarrow> nat \<Rightarrow> bool"
  lock_success :: "nat \<Rightarrow> bool"

definition mock_reset :: "wl_config \<Rightarrow> mock_store" where
  "mock_reset c = \<lparr>mock_cells = replicate (backing_size c) 0xff, mock_locked = True,
     mock_init_count = 0, mock_unlock_count = 0, mock_erase_count = 0, mock_write_count = 0,
     mock_lock_count = 0, mock_total_writes = 0, mock_erasures = 0, mock_expectations_met = True\<rparr>"

definition mock_expect :: "bool \<Rightarrow> mock_store \<Rightarrow> mock_store" where
  "mock_expect b m = m\<lparr>mock_expectations_met := mock_expectations_met m \<and> b\<rparr>"

definition mock_init :: "mock_callbacks \<Rightarrow> mock_store \<Rightarrow> bool \<times> mock_store" where
  "mock_init cb m = (let n = mock_init_count m + 1 in (init_success cb n, m\<lparr>mock_init_count := n\<rparr>))"

definition mock_unlock :: "mock_callbacks \<Rightarrow> mock_store \<Rightarrow> bool \<times> mock_store" where
  "mock_unlock cb m =
     (let n = mock_unlock_count m + 1;
          m = mock_expect (mock_locked m) (m\<lparr>mock_unlock_count := n\<rparr>)
      in (unlock_success cb n, m\<lparr>mock_locked := False\<rparr>))"

definition mock_lock :: "mock_callbacks \<Rightarrow> mock_store \<Rightarrow> bool \<times> mock_store" where
  "mock_lock cb m =
     (let n = mock_lock_count m + 1;
          m = mock_expect (\<not> mock_locked m) (m\<lparr>mock_lock_count := n\<rparr>)
      in (lock_success cb n, m\<lparr>mock_locked := True\<rparr>))"

text \<open>The callback is asked before every item and always answers the same within one call.\<close>

definition mock_erase :: "mock_callbacks \<Rightarrow> mock_store \<Rightarrow> bool \<times> mock_store" where
  "mock_erase cb m =
     (let n = mock_erase_count m + 1; m = m\<lparr>mock_erase_count := n\<rparr> in
      if mock_cells m \<noteq> [] \<and> \<not> erase_success cb n then (False, m)
      else (True, m\<lparr>mock_cells := replicate (length (mock_cells m)) 0xff,
                    mock_erasures := mock_erasures m + 1\<rparr>))"

definition mock_write ::
  "wl_config \<Rightarrow> mock_callbacks \<Rightarrow> nat \<Rightarrow> u8 list \<Rightarrow> mock_store \<Rightarrow> bool \<times> mock_store" where
  "mock_write c cb address value m =
     (let n = mock_write_count m + 1; m = m\<lparr>mock_write_count := n\<rparr>;
          m = mock_expect (address mod item_size c = 0) m;
          m = mock_expect (address + item_size c \<le> backing_size c) m;
          m = mock_expect (\<not> mock_locked m) m
      in if \<not> write_success cb n address then (False, m)
         else let a = address div item_size c * item_size c;
                  m = mock_expect (bytes_at (mock_cells m) a (item_size c) =
                                   replicate (item_size c) 0xff) m
              in (True, m\<lparr>mock_cells := blit (mock_cells m) a (map NOT value),
                          mock_total_writes := mock_total_writes m + 1\<rparr>))"

text \<open>\<^verbatim>\<open>read\<close> is a \<^verbatim>\<open>const\<close> method, but its expectations are recorded like the others.\<close>

definition mock_read :: "wl_config \<Rightarrow> nat \<Rightarrow> mock_store \<Rightarrow> (bool \<times> u8 list) \<times> mock_store" where
  "mock_read c address m =
     (let a = address div item_size c * item_size c;
          m' = mock_expect (address mod item_size c = 0) m;
          m' = mock_expect (address + item_size c \<le> backing_size c) m'
      in ((True, map NOT (bytes_at (mock_cells m) a (item_size c))), m'))"

text \<open>The mock itself has no bulk operations; the linked driver gets the weak ones.\<close>

definition mock_items :: "wl_config \<Rightarrow> mock_callbacks \<Rightarrow> mock_store backing_ops" where
  "mock_items c cb =
     \<lparr>bs_init = mock_init cb, bs_unlock = mock_unlock cb, bs_erase = mock_erase cb,
      bs_write = mock_write c cb, bs_write_bulk = (\<lambda>a v m. (False, m)), bs_lock = mock_lock cb,
      bs_read = mock_read c, bs_read_bulk = (\<lambda>a n m. ((False, []), m))\<rparr>"

definition mock_ops :: "wl_config \<Rightarrow> mock_callbacks \<Rightarrow> mock_store backing_ops" where
  "mock_ops c cb = with_default_bulk c (mock_items c cb)"

section \<open>The mock meets the contract\<close>

definition mock_img :: "mock_store \<Rightarrow> u8 list" where
  "mock_img m = map NOT (mock_cells m)"

definition mock_inv :: "wl_config \<Rightarrow> mock_store \<Rightarrow> bool" where
  "mock_inv c m \<longleftrightarrow> length (mock_cells m) = backing_size c"

lemma mock_expect_sel [simp]:
  "mock_cells (mock_expect b m) = mock_cells m"
  "mock_locked (mock_expect b m) = mock_locked m"
  "mock_total_writes (mock_expect b m) = mock_total_writes m"
  by (simp_all add: mock_expect_def)

lemma map_NOT_NOT [simp]: "map NOT (map NOT xs) = (xs :: u8 list)"
  by (simp add: o_def)

lemma not_ff: "NOT (0xff :: u8) = 0"
  by simp

lemma map_NOT_erased [simp]: "map NOT (replicate n (0xff :: u8)) = zeros n"
  by (simp add: zeros_def not_ff)

lemma neg_256_u8 [simp]: "(- 256 :: u8) = 0"
  using not_ff by simp

lemma map_NOT_bytes_at: "map NOT (bytes_at xs a n) = bytes_at (map NOT xs) a n"
  by (simp add: bytes_at_def take_map drop_map)

lemma map_NOT_blit: "map NOT (blit xs a ys) = blit (map NOT xs) a (map NOT ys)"
  by (simp add: blit_def take_map drop_map)

text \<open>All callbacks answer true: the state after \<^verbatim>\<open>reset_instance\<close>.\<close>

definition mock_default :: mock_callbacks where
  "mock_default = \<lparr>init_success = (\<lambda>n. True), erase_success = (\<lambda>n. True),
     unlock_success = (\<lambda>n. True), write_success = (\<lambda>n a. True), lock_success = (\<lambda>n. True)\<rparr>"

lemma mod_zero_div_mult: "a mod k = 0 \<Longrightarrow> a div k * k = (a :: nat)"
  by auto

lemma mock_items_contract: "item_store (mock_items c cb) c mock_img (mock_inv c)"
  by unfold_locales
    (auto simp: mock_items_def mock_img_def mock_inv_def mock_init_def mock_unlock_def mock_lock_def
      mock_erase_def mock_write_def mock_read_def Let_def mod_zero_div_mult map_NOT_bytes_at
      map_NOT_blit zeros_def o_def split: if_splits)

lemma mock_backing_store: "backing_store (mock_ops c cb) c mock_img (mock_inv c)"
  unfolding mock_ops_def by (rule item_store.default_bulk [OF mock_items_contract])

lemma default_write_bulk_succeeds:
  "(\<And>a v d. fst (wr a v d)) \<Longrightarrow> fst (default_write_bulk_items ws wr a v n d)"
  by (induction n arbitrary: a v d) (auto split: prod.splits, metis fst_conv)

lemma default_read_bulk_succeeds:
  "(\<And>a d. fst (fst (rd a d))) \<Longrightarrow> fst (fst (default_read_bulk ws rd a n d))"
  by (induction n arbitrary: a d) (auto split: prod.splits, metis fst_conv, metis fst_conv)

lemma mock_never_fails:
  "fst (mock_init mock_default m)" "fst (mock_unlock mock_default m)" "fst (mock_lock mock_default m)"
  "fst (mock_erase mock_default m)" "fst (mock_write c mock_default a v m)"
  "fst (fst (mock_read c a m))"
  by (simp_all add: mock_init_def mock_unlock_def mock_lock_def mock_erase_def mock_write_def
      mock_read_def mock_default_def Let_def)

lemma mock_reliable: "reliable_store (mock_ops c mock_default) c mock_img (mock_inv c)"
proof -
  have sel: "bs_init (mock_ops c mock_default) = mock_init mock_default"
    "bs_unlock (mock_ops c mock_default) = mock_unlock mock_default"
    "bs_lock (mock_ops c mock_default) = mock_lock mock_default"
    "bs_erase (mock_ops c mock_default) = mock_erase mock_default"
    "bs_write (mock_ops c mock_default) = mock_write c mock_default"
    "bs_read (mock_ops c mock_default) = mock_read c"
    "bs_write_bulk (mock_ops c mock_default) = default_write_bulk (item_size c) (mock_write c mock_default)"
    "bs_read_bulk (mock_ops c mock_default) = default_read_bulk (item_size c) (mock_read c)"
    by (simp_all add: mock_ops_def mock_items_def)
  have bs: "backing_store (mock_ops c mock_default) c mock_img (mock_inv c)"
    by (rule mock_backing_store)
  then have items: "item_store (mock_ops c mock_default) c mock_img (mock_inv c)"
    by (rule backing_store.axioms)
  have ri: "reliable_items (mock_ops c mock_default) c mock_img (mock_inv c)"
    by (rule reliable_items.intro [OF items], unfold_locales) (simp_all add: sel mock_never_fails)
  show ?thesis
    by (rule reliable_store.intro [OF bs ri], unfold_locales)
      (simp_all add: sel default_write_bulk_def default_write_bulk_succeeds
        default_read_bulk_succeeds mock_never_fails)
qed

interpretation mock: backing_store "mock_ops c cb" c mock_img "mock_inv c"
  by (rule mock_backing_store)

interpretation mock_default: reliable_store "mock_ops c mock_default" c mock_img "mock_inv c"
  by (rule mock_reliable)

end
