(* ===== verification/WearLevelingStore.thy ===== *)
theory WearLevelingStore
  imports WearLevelingLog MockStore
begin

text \<open>
  The invariant of the wear-leveling module over any driver that meets the backing store
  contract: replaying the log of the store from its consolidated area gives the cache. Writes
  keep it, and initialisation recovers the cache from the store alone.
\<close>

section \<open>What a store image stands for\<close>

definition consolidated_base :: "wl_config \<Rightarrow> u8 list \<Rightarrow> u8 list" where
  "consolidated_base c m =
     (let b = bytes_at m 0 (logical_size c) in
      if bytes_at m (logical_size c) 8 = fnv_bytes b then b else zeros (logical_size c))"

text \<open>
  \<open>holds c m wa ca\<close>: the log of image \<open>m\<close> ends at \<open>wa\<close>, nothing is written behind it, and
  playing it back from the consolidated area gives \<open>ca\<close>.
\<close>

definition holds :: "wl_config \<Rightarrow> u8 list \<Rightarrow> nat \<Rightarrow> u8 list \<Rightarrow> bool" where
  "holds c m wa ca \<longleftrightarrow>
     replays c m (log_start c) (consolidated_base c m) wa ca \<and>
     length ca = logical_size c \<and> log_start c \<le> wa \<and> wa \<le> backing_size c \<and>
     wa mod item_size c = 0 \<and> bytes_at m wa (backing_size c - wa) = zeros (backing_size c - wa)"

definition wl_inv :: "wl_config \<Rightarrow> ('d \<Rightarrow> u8 list) \<Rightarrow> ('d \<Rightarrow> bool) \<Rightarrow> 'd wear_leveling \<Rightarrow> bool" where
  "wl_inv c img dinv s \<longleftrightarrow> dinv (store s) \<and> write_address s < backing_size c \<and>
     holds c (img (store s)) (write_address s) (cache s)"

text \<open>The image after a consolidation.\<close>

definition consolidated_img :: "wl_config \<Rightarrow> u8 list \<Rightarrow> u8 list" where
  "consolidated_img c ca = ca @ fnv_bytes ca @ zeros (backing_size c - log_start c)"

lemma length_fnv_bytes [simp]: "length (fnv_bytes b) = 8"
  by (simp add: fnv_bytes_def raw64_bytes_def)

lemma consolidated_img_base:
  assumes "length ca = logical_size c"
  shows "consolidated_base c (consolidated_img c ca) = ca"
  using assms by (simp add: consolidated_base_def consolidated_img_def bytes_at_def)

lemma holds_consolidated:
  assumes "wl_config_ok c" "length ca = logical_size c"
  shows "holds c (consolidated_img c ca) (log_start c) ca"
proof -
  have "replays c (consolidated_img c ca) (log_start c) (consolidated_base c (consolidated_img c ca))
      (log_start c) ca"
    by (simp add: consolidated_img_base [OF assms(2)] replays_nil)
  moreover have "bytes_at (consolidated_img c ca) (log_start c) (backing_size c - log_start c) =
      zeros (backing_size c - log_start c)"
    using assms(2) by (simp add: consolidated_img_def bytes_at_def log_start_def)
  ultimately show ?thesis
    using assms config_mods [OF assms(1)] by (simp add: holds_def wl_config_ok_def)
qed

lemma holds_erased:
  assumes "wl_config_ok c"
  shows "holds c (zeros (backing_size c)) (log_start c) (zeros (logical_size c))"
proof -
  have "logical_size c \<le> backing_size c"
    using assms by (simp add: wl_config_ok_def log_start_def)
  then have "consolidated_base c (zeros (backing_size c)) = zeros (logical_size c)"
    by (simp add: consolidated_base_def Let_def min_absorb1)
  then show ?thesis
    using assms config_mods [OF assms]
    by (auto simp: holds_def wl_config_ok_def intro: replays_nil)
qed

lemma holds_append:
  assumes h: "holds c m wa ca" and len: "length m = backing_size c"
    and fits: "wa + length e \<le> backing_size c" and al: "length e mod item_size c = 0"
    and play: "play_at c (blit m wa e) wa ca = Some (wa + length e, ca')" "length ca' = logical_size c"
  shows "holds c (blit m wa e) (wa + length e) ca'"
proof -
  let ?m = "blit m wa e"
  have b: "bytes_at ?m i k = bytes_at m i k" if "i + k \<le> wa" for i k
    using that fits len by (intro bytes_at_blit_disjoint) auto
  have wa: "log_start c \<le> wa" using h by (simp add: holds_def)
  have "consolidated_base c ?m = consolidated_base c m"
    using wa by (simp add: consolidated_base_def log_start_def b)
  moreover have "replays c ?m (log_start c) (consolidated_base c m) wa ca"
    by (rule replays_cong [where m = m]) (use h b in \<open>auto simp: holds_def\<close>)
  ultimately have "replays c ?m (log_start c) (consolidated_base c ?m) (wa + length e) ca'"
    using play(1) by (simp add: replays_snoc)
  moreover have "bytes_at ?m (wa + length e) (backing_size c - (wa + length e)) =
      zeros (backing_size c - (wa + length e))"
  proof -
    have "bytes_at ?m (wa + length e) (backing_size c - (wa + length e)) =
        bytes_at m (wa + length e) (backing_size c - (wa + length e))"
      using fits len by (intro bytes_at_blit_disjoint) auto
    also have "\<dots> = zeros (backing_size c - (wa + length e))"
      by (rule bytes_at_zeros_sub [of m wa "backing_size c - wa"])
        (use h fits in \<open>auto simp: holds_def\<close>)
    finally show ?thesis .
  qed
  moreover have "(wa + length e) mod item_size c = 0"
    using h al by (simp add: holds_def mod_eq_0_iff_dvd)
  ultimately show ?thesis
    using wa fits play(2) by (simp add: holds_def)
qed

section \<open>Operations over a store that meets the contract\<close>

lemma play_at_aligned:
  assumes "play_at c m a ca = Some (a', ca')" "a mod item_size c = 0"
  shows "a' mod item_size c = 0"
  using assms by (cases "write_size c")
    (auto simp: play_at_def wl_play_entry_def wl_play_multibyte_def Let_def split: if_splits)

lemma mod_less_fits: "a < b \<Longrightarrow> a mod k = 0 \<Longrightarrow> b mod k = 0 \<Longrightarrow> 0 < k \<Longrightarrow> a + k \<le> (b :: nat)"
  by (auto simp: mod_eq_0_iff_dvd elim!: dvdE)
    (metis Suc_leI mult_Suc_right mult_le_mono2 add.commute nat_mult_less_cancel_disj)

lemma dvd_sum_list: "\<forall>v \<in> set vs. length v = (k :: nat) \<Longrightarrow> k dvd sum_list (map length vs)"
  by (induction vs) auto

lemma wl_clear_cache_sel [simp, frame_simps]:
  "store (wl_clear_cache c s) = store s" "unlocked (wl_clear_cache c s) = unlocked s"
  "cache (wl_clear_cache c s) = zeros (logical_size c)" "write_address (wl_clear_cache c s) = log_start c"
  by (simp_all add: wl_clear_cache_def)

lemma wl_unlock_frame [frame_simps]:
  "cache (snd (wl_unlock b s)) = cache s" "write_address (snd (wl_unlock b s)) = write_address s"
  by (simp_all add: wl_unlock_def split: prod.splits)

lemma wl_lock_frame [frame_simps]:
  "cache (snd (wl_lock b s)) = cache s" "write_address (snd (wl_lock b s)) = write_address s"
  by (simp_all add: wl_lock_def split: prod.splits)

context backing_store
begin

lemma unlock_store: "inv (store s) \<Longrightarrow> wl_unlock ops s = (r, s') \<Longrightarrow>
    inv (store s') \<and> img (store s') = img (store s) \<and> cache s' = cache s \<and> write_address s' = write_address s"
  using unlock_law by (fastforce simp: wl_unlock_def split: if_splits prod.splits)

lemma lock_store: "inv (store s) \<Longrightarrow> wl_lock ops s = (r, s') \<Longrightarrow>
    inv (store s') \<and> img (store s') = img (store s) \<and> cache s' = cache s \<and> write_address s' = write_address s"
  using lock_law by (fastforce simp: wl_lock_def split: if_splits prod.splits)

lemma write_checksum_law:
  assumes ok: "wl_config_ok c" and d: "inv d" "wl_write_checksum c ops e d = (r, d')" and e: "length e = 8"
    and z: "bytes_at (img d) (logical_size c) 8 = zeros 8"
  shows "inv d' \<and> (r \<longrightarrow> img d' = blit (img d) (logical_size c) e)"
proof -
  have fits: "logical_size c + 8 \<le> backing_size c" "logical_size c mod item_size c = 0" "8 mod item_size c = 0"
    using ok config_mods [OF ok] by (simp_all add: wl_config_ok_def log_start_def)
  have bulk: "bs_write_bulk ops (logical_size c) e d = (r, d') \<Longrightarrow> ?thesis"
    by (rule write_bulk_law [OF d(1)]) (use e z fits in simp_all)
  show ?thesis
  proof (cases "write_size c")
    case WS8
    then have "bs_write ops (logical_size c) e d = (r, d')"
      using d(2) by (simp add: wl_write_checksum_def)
    then show ?thesis
      by (rule write_law [OF d(1)]) (use e z fits WS8 in simp_all)
  qed (use d(2) bulk in \<open>simp_all add: wl_write_checksum_def\<close>)
qed

lemma write_consolidated_law:
  assumes ok: "wl_config_ok c" and inv: "inv (store s)" and ca: "length (cache s) = logical_size c"
    and z: "img (store s) = zeros (backing_size c)"
    and r: "wl_write_consolidated c ops s = (st, s')"
  shows "inv (store s') \<and> cache s' = cache s \<and> st \<noteq> WEAR_LEVELING_SUCCESS \<and>
    (st = WEAR_LEVELING_CONSOLIDATED \<longrightarrow> img (store s') = consolidated_img c (cache s))"
proof -
  obtain ls s1 where u: "wl_unlock ops s = (ls, s1)" by (metis prod.exhaust)
  note u1 = unlock_store [OF inv u]
  obtain ok1 d1 where w: "bs_write_bulk ops 0 (cache s1) (store s1) = (ok1, d1)" by (metis prod.exhaust)
  have l: "0 < logical_size c" "logical_size c mod item_size c = 0" "logical_size c + 8 \<le> backing_size c"
    using ok config_mods [OF ok] by (simp_all add: wl_config_ok_def log_start_def)
  have w1: "inv d1 \<and> (ok1 \<longrightarrow> img d1 = blit (img (store s1)) 0 (cache s1))"
    by (rule write_bulk_law [OF _ w]) (use u1 ca l z in \<open>auto simp: min_absorb1\<close>)
  obtain ok2 d2 where k: "(if ok1 then wl_write_checksum c ops (fnv_bytes (cache s1)) d1 else (False, d1)) = (ok2, d2)"
    by (metis prod.exhaust)
  have k1: "inv d2 \<and> (ok2 \<longrightarrow> img d2 = consolidated_img c (cache s))"
  proof (cases ok1)
    case True
    then have i1: "img d1 = cache s @ zeros (backing_size c - logical_size c)"
      using w1 u1 z ca by (simp add: blit_def)
    have cs: "wl_write_checksum c ops (fnv_bytes (cache s1)) d1 = (ok2, d2)" using k True by simp
    have "inv d2 \<and> (ok2 \<longrightarrow> img d2 = blit (img d1) (logical_size c) (fnv_bytes (cache s1)))"
      by (rule write_checksum_law [OF ok _ cs])
        (use w1 i1 ca l in \<open>simp_all add: bytes_at_def min_absorb1\<close>)
    moreover have "blit (img d1) (logical_size c) (fnv_bytes (cache s)) = consolidated_img c (cache s)"
      using ca l by (simp add: i1 blit_def consolidated_img_def log_start_def)
    ultimately show ?thesis using u1 by simp
  next
    case False
    then show ?thesis using w1 k by simp
  qed
  have st: "st = (if ok2 then WEAR_LEVELING_CONSOLIDATED else WEAR_LEVELING_FAILED)"
    and s': "s' = (if ls = STATUS_SUCCESS then snd (wl_lock ops (s1\<lparr>store := d2\<rparr>)) else s1\<lparr>store := d2\<rparr>)"
    using r u w k by (simp_all add: wl_write_consolidated_def Let_def)
  obtain ls2 s2 where lk: "wl_lock ops (s1\<lparr>store := d2\<rparr>) = (ls2, s2)" by (metis prod.exhaust)
  have "inv (store s') \<and> img (store s') = img d2 \<and> cache s' = cache s"
    using lock_store [OF _ lk] k1 u1 s' lk by (cases "ls = STATUS_SUCCESS") simp_all
  then show ?thesis using st k1 by simp
qed

lemma consolidate_force_law:
  assumes ok: "wl_config_ok c" and inv: "inv (store s)" and ca: "length (cache s) = logical_size c"
    and r: "wl_consolidate_force c ops s = (st, s')"
  shows "inv (store s') \<and> cache s' = cache s \<and> st \<noteq> WEAR_LEVELING_SUCCESS \<and>
    (st = WEAR_LEVELING_CONSOLIDATED \<longrightarrow> wl_inv c img inv s')"
proof -
  obtain ok1 d1 where e: "bs_erase ops (store s) = (ok1, d1)" by (metis prod.exhaust)
  note e1 = erase_law [OF inv e]
  show ?thesis
  proof (cases ok1)
    case False
    then show ?thesis using r e e1 by (auto simp: wl_consolidate_force_def)
  next
    case True
    obtain st2 s2 where w: "wl_write_consolidated c ops (s\<lparr>store := d1\<rparr>) = (st2, s2)"
      by (metis prod.exhaust)
    have w1: "inv (store s2) \<and> cache s2 = cache s \<and> st2 \<noteq> WEAR_LEVELING_SUCCESS \<and>
        (st2 = WEAR_LEVELING_CONSOLIDATED \<longrightarrow> img (store s2) = consolidated_img c (cache s))"
      using write_consolidated_law [OF ok _ _ _ w] e1 True ca by simp
    have "st = st2" "s' = s2\<lparr>write_address := log_start c\<rparr>"
      using r e w True by (simp_all add: wl_consolidate_force_def)
    then show ?thesis
      using w1 holds_consolidated [OF ok ca] ok by (auto simp: wl_inv_def wl_config_ok_def)
  qed
qed

text \<open>Room for one more item at the write address.\<close>

definition log_ready :: "'a wear_leveling \<Rightarrow> bool" where
  "log_ready s \<longleftrightarrow> inv (store s) \<and> length (cache s) = logical_size c \<and>
     log_start c \<le> write_address s \<and> write_address s < backing_size c \<and>
     write_address s mod item_size c = 0 \<and>
     bytes_at (img (store s)) (write_address s) (backing_size c - write_address s) =
       zeros (backing_size c - write_address s)"

lemma append_raw_law:
  assumes ok: "wl_config_ok c" and s: "log_ready s" and v: "length v = item_size c"
    and r: "wl_append_raw c ops v s = (st, s')"
  shows "inv (store s') \<and> cache s' = cache s \<and>
    (st = WEAR_LEVELING_CONSOLIDATED \<longrightarrow> wl_inv c img inv s') \<and>
    (st = WEAR_LEVELING_SUCCESS \<longrightarrow> log_ready s' \<and> write_address s' = write_address s + item_size c \<and>
       img (store s') = blit (img (store s)) (write_address s) v)"
proof -
  let ?w = "write_address s" and ?k = "item_size c"
  have fits: "?w + ?k \<le> backing_size c"
    using s config_mods [OF ok] mod_less_fits [of ?w "backing_size c" ?k] by (simp add: log_ready_def)
  obtain ok1 d1 where w: "bs_write ops ?w v (store s) = (ok1, d1)" by (metis prod.exhaust)
  have z: "bytes_at (img (store s)) ?w ?k = zeros ?k"
    by (rule bytes_at_zeros_sub [of _ ?w "backing_size c - ?w"]) (use s fits in \<open>auto simp: log_ready_def\<close>)
  have w1: "inv d1 \<and> (ok1 \<longrightarrow> img d1 = blit (img (store s)) ?w v)"
    by (rule write_law [OF _ w v _ fits z]) (use s in \<open>simp_all add: log_ready_def\<close>)
  show ?thesis
  proof (cases ok1)
    case False
    then show ?thesis using r w w1 by (auto simp: wl_append_raw_def)
  next
    case True
    let ?s = "s\<lparr>store := d1, write_address := ?w + ?k\<rparr>"
    have r1: "wl_consolidate_if_needed c ops ?s = (st, s')"
      using r w True by (simp add: wl_append_raw_def)
    show ?thesis
    proof (cases "?w + ?k \<ge> backing_size c")
      case True
      then have "wl_consolidate_force c ops ?s = (st, s')"
        using r1 by (simp add: wl_consolidate_if_needed_def)
      from consolidate_force_law [OF ok _ _ this] show ?thesis
        using w1 s by (simp add: log_ready_def)
    next
      case False
      then have e: "st = WEAR_LEVELING_SUCCESS" "s' = ?s"
        using r1 by (simp_all add: wl_consolidate_if_needed_def)
      have i: "img d1 = blit (img (store s)) ?w v" using w1 \<open>ok1\<close> by simp
      have lo: "length (img (store s)) = backing_size c" using s by (simp add: log_ready_def img_length)
      have "bytes_at (img d1) (?w + ?k) (backing_size c - (?w + ?k)) =
          bytes_at (img (store s)) (?w + ?k) (backing_size c - (?w + ?k))"
        unfolding i using fits v lo by (intro bytes_at_blit_disjoint) auto
      also have "\<dots> = zeros (backing_size c - (?w + ?k))"
        by (rule bytes_at_zeros_sub [of _ ?w "backing_size c - ?w"])
          (use s fits in \<open>auto simp: log_ready_def\<close>)
      finally have "log_ready s'"
        using s False w1 e by (simp add: log_ready_def)
      then show ?thesis using e i w1 by simp
    qed
  qed
qed

lemma append_items_law:
  assumes ok: "wl_config_ok c"
  shows "log_ready s \<Longrightarrow> \<forall>v \<in> set vs. length v = item_size c \<Longrightarrow> wl_append_items c ops vs s = (st, s') \<Longrightarrow>
    inv (store s') \<and> cache s' = cache s \<and>
    (st = WEAR_LEVELING_CONSOLIDATED \<longrightarrow> wl_inv c img inv s') \<and>
    (st = WEAR_LEVELING_SUCCESS \<longrightarrow> log_ready s' \<and> write_address s' = write_address s + length (concat vs) \<and>
       img (store s') = blit (img (store s)) (write_address s) (concat vs))"
proof (induction vs arbitrary: s)
  case Nil
  then have "write_address s \<le> length (img (store s))"
    using img_length by (simp add: log_ready_def)
  with Nil show ?case by (auto simp: log_ready_def)
next
  case (Cons v vs)
  obtain st1 s1 where a: "wl_append_raw c ops v s = (st1, s1)" by (metis prod.exhaust)
  note a1 = append_raw_law [OF ok Cons.prems(1) _ a]
  show ?case
  proof (cases "st1 = WEAR_LEVELING_SUCCESS")
    case False
    then show ?thesis using Cons.prems a a1 by auto
  next
    case True
    then have r: "wl_append_items c ops vs s1 = (st, s')" using Cons.prems(3) a by simp
    have b: "log_ready s1" "cache s1 = cache s" "write_address s1 = write_address s + item_size c"
      "img (store s1) = blit (img (store s)) (write_address s) v" "length v = item_size c"
      using a1 True Cons.prems(2) by simp_all
    note ih = Cons.IH [OF b(1) _ r]
    show ?thesis
    proof (cases "st = WEAR_LEVELING_SUCCESS")
      case True
      have i: "log_ready s'" "write_address s' = write_address s1 + length (concat vs)"
        "img (store s') = blit (img (store s1)) (write_address s1) (concat vs)" "cache s' = cache s"
        "inv (store s')"
        using ih True Cons.prems(2) b by simp_all
      have "length (img (store s)) = backing_size c"
        using Cons.prems(1) by (simp add: log_ready_def img_length)
      moreover have "write_address s' < backing_size c" using i by (simp add: log_ready_def)
      ultimately have "img (store s') = blit (img (store s)) (write_address s) (v @ concat vs)"
        using i b blit_blit_append [of "write_address s" v "concat vs" "img (store s)"] by simp
      then show ?thesis using i b True by simp
    next
      case False
      then show ?thesis using ih Cons.prems(2) b by auto
    qed
  qed
qed

lemma write_raw_law:
  assumes ok: "wl_config_ok c"
  shows "log_ready s \<Longrightarrow> holds c (img (store s)) (write_address s) ca \<Longrightarrow>
    address + length p \<le> logical_size c \<Longrightarrow> wl_write_raw c ops address p s = (st, s') \<Longrightarrow>
    inv (store s') \<and> cache s' = cache s \<and>
    (st = WEAR_LEVELING_CONSOLIDATED \<longrightarrow> wl_inv c img inv s') \<and>
    (st = WEAR_LEVELING_SUCCESS \<longrightarrow> log_ready s' \<and>
       holds c (img (store s')) (write_address s') (blit ca address p))"
proof (induction "length p" arbitrary: address p s ca rule: less_induct)
  case less
  show ?case
  proof (cases "p = []")
    case True
    then show ?thesis using less.prems by (auto simp: wl_write_raw.simps log_ready_def holds_def)
  next
    case False
    obtain vs n where ch: "chunk_items c address p = (vs, n)" by (metis prod.exhaust)
    have n: "0 < n" "n \<le> length p" using chunk_items_count [OF False, of c address] ch by simp_all
    have vl: "\<forall>v \<in> set vs. length v = item_size c"
      using chunk_items_length [OF False, of _ c address] ch by simp
    obtain st1 s1 where a: "wl_append_items c ops vs s = (st1, s1)" by (metis prod.exhaust)
    note a1 = append_items_law [OF ok less.prems(1) vl a]
    have r: "(if st1 \<noteq> WEAR_LEVELING_SUCCESS then (st1, s1)
        else wl_write_raw c ops (address + n) (drop n p) s1) = (st, s')"
      using less.prems(4) False a by (subst (asm) wl_write_raw.simps) (simp add: write_chunk_items ch)
    show ?thesis
    proof (cases "st1 = WEAR_LEVELING_SUCCESS")
      case False
      then show ?thesis using r a1 by auto
    next
      case True
      have b: "log_ready s1" "cache s1 = cache s" "write_address s1 = write_address s + length (concat vs)"
        "img (store s1) = blit (img (store s)) (write_address s) (concat vs)"
        using a1 True by simp_all
      have lo: "length (img (store s)) = backing_size c"
        using less.prems(1) by (simp add: log_ready_def img_length)
      have fits: "write_address s + length (concat vs) \<le> backing_size c"
        using b by (simp add: log_ready_def)
      have lca: "length ca = logical_size c" using less.prems(2) by (simp add: holds_def)
      have L: "logical_size c \<le> 2 ^ 19" using ok by (simp add: wl_config_ok_def)
      have al: "length (concat vs) mod item_size c = 0"
        using vl by (simp add: length_concat mod_eq_0_iff_dvd dvd_sum_list)
      have play: "play_at c (img (store s1)) (write_address s) ca =
          Some (write_address s + length (concat vs), blit ca address (take n p))"
        by (rule play_chunk [OF False less.prems(3) L lca ch _ fits])
          (use lo fits in \<open>simp add: b bytes_at_blit_same\<close>)
      have "holds c (img (store s1)) (write_address s1) (blit ca address (take n p))"
        unfolding b(3,4)
        by (rule holds_append [OF less.prems(2) lo fits al])
          (use play b lca less.prems(3) n in simp_all)
      moreover have "blit (blit ca address (take n p)) (address + n) (drop n p) = blit ca address p"
        using blit_blit_append [of address "take n p" "drop n p" ca] n lca less.prems(3) by simp
      ultimately show ?thesis
        using less.hyps [of "drop n p" s1 "blit ca address (take n p)" "address + n"] r True n b
          less.prems(3) by simp
    qed
  qed
qed

lemma inv_log_ready: "wl_inv c img inv s \<Longrightarrow> log_ready s"
  by (simp add: wl_inv_def holds_def log_ready_def)

lemma write_law_full:
  assumes ok: "wl_config_ok c" and s: "wl_inv c img inv s"
    and r: "wear_leveling_write c ops address p s = Some (st, s')" and st: "st \<noteq> WEAR_LEVELING_FAILED"
    and range: "address + length p \<le> logical_size c"
  shows "wl_inv c img inv s' \<and> cache s' = blit (cache s) address p"
proof -
  have lc: "length (cache s) = logical_size c" using s by (simp add: wl_inv_def holds_def)
  have g: "\<not> wl_guard c address (length p)"
    using range ok by (simp add: wl_guard_def wl_config_ok_def wl_static_asserts_def)
  show ?thesis
  proof (cases "bytes_at (cache s) address (length p) = p")
    case True
    then show ?thesis
      using r g range lc s by (simp add: wear_leveling_write_def blit_bytes_at)
  next
    case False
    let ?s = "s\<lparr>cache := blit (cache s) address p\<rparr>"
    obtain ls s1 where u: "wl_unlock ops ?s = (ls, s1)" by (metis prod.exhaust)
    have u1: "inv (store s1)" "img (store s1) = img (store s)" "cache s1 = blit (cache s) address p"
      "write_address s1 = write_address s"
      using unlock_store [OF _ u] s by (simp_all add: wl_inv_def)
    have ls: "ls \<noteq> STATUS_FAILURE"
      using r g range lc False u st by (auto simp: wear_leveling_write_def Let_def)
    obtain st2 s2 where w: "wl_write_raw c ops address p s1 = (st2, s2)" by (metis prod.exhaust)
    have lr: "log_ready s1"
      using inv_log_ready [OF s] u1 lc range by (simp add: log_ready_def)
    have h: "holds c (img (store s1)) (write_address s1) (cache s)"
      using s u1 by (simp add: wl_inv_def)
    note w1 = write_raw_law [OF ok lr h range w]
    obtain st3 s3 where k: "(if st2 = WEAR_LEVELING_SUCCESS then wl_consolidate_if_needed c ops s2
        else (st2, s2)) = (st3, s3)" by (metis prod.exhaust)
    have st3: "st3 \<noteq> WEAR_LEVELING_FAILED"
      using r g range lc False u ls w k st
      by (auto simp: wear_leveling_write_def Let_def split: prod.splits if_splits)
    have s3: "wl_inv c img inv s3 \<and> cache s3 = blit (cache s) address p"
    proof (cases "st2 = WEAR_LEVELING_SUCCESS")
      case True
      then have "log_ready s2" "holds c (img (store s2)) (write_address s2) (blit (cache s) address p)"
        "cache s2 = blit (cache s) address p"
        using w1 u1 by simp_all
      moreover from this have "s3 = s2"
        using k True by (simp add: wl_consolidate_if_needed_def log_ready_def)
      ultimately show ?thesis by (simp add: wl_inv_def log_ready_def)
    next
      case False
      then have "st2 = WEAR_LEVELING_CONSOLIDATED" "s3 = s2"
        using k st3 by (cases st2; auto)+
      then show ?thesis using w1 u1 by simp
    qed
    have "s' = (if ls = STATUS_SUCCESS then snd (wl_lock ops s3) else s3)"
      using r g range lc False u ls w k
      by (auto simp: wear_leveling_write_def Let_def split: prod.splits)
    moreover obtain ls4 s4 where "wl_lock ops s3 = (ls4, s4)" by (metis prod.exhaust)
    ultimately show ?thesis
      using s3 lock_store [of s3] by (auto simp: wl_inv_def)
  qed
qed

lemma erase_law_full:
  assumes ok: "wl_config_ok c" and s: "inv (store s)"
    and r: "wear_leveling_erase c ops s = (WEAR_LEVELING_SUCCESS, s')"
  shows "wl_inv c img inv s' \<and> cache s' = zeros (logical_size c)"
proof -
  obtain ls s1 where u: "wl_unlock ops s = (ls, s1)" by (metis prod.exhaust)
  note u1 = unlock_store [OF s u]
  have ls: "ls \<noteq> STATUS_FAILURE" using r u by (auto simp: wear_leveling_erase_def)
  obtain ret d where e: "bs_erase ops (store s1) = (ret, d)" by (metis prod.exhaust)
  let ?s = "wl_clear_cache c (s1\<lparr>store := d\<rparr>)"
  obtain ls2 s2 where k: "wl_lock ops ?s = (ls2, s2)" by (metis prod.exhaust)
  have ret: "ret" and s': "s' = (if ls = STATUS_SUCCESS then s2 else ?s)"
    using r u ls e k by (auto simp: wear_leveling_erase_def Let_def split: if_splits)
  have d: "inv d" "img d = zeros (backing_size c)"
    using erase_law [OF _ e] u1 ret by simp_all
  then have "wl_inv c img inv ?s"
    using holds_erased [OF ok] ok by (simp add: wl_inv_def wl_config_ok_def)
  then show ?thesis
    using s' lock_store [OF _ k] d by (auto simp: wl_inv_def)
qed

end

section \<open>Playback and recovery on a reliable store\<close>

context reliable_store
begin

lemma fetch_agrees:
  assumes "inv d" "a mod item_size c = 0" "need \<Longrightarrow> a + item_size c \<le> backing_size c"
  shows "\<exists>d'. wl_fetch c ops need (a, log, d) =
      (True, if need then a + item_size c else a,
       if need then log @ bytes_at (img d) a (item_size c) else log, d') \<and> inv d' \<and> img d' = img d"
proof (cases need)
  case True
  obtain ok v d' where r: "bs_read ops a d = ((ok, v), d')" by (metis prod.exhaust)
  then have "ok" using read_ok [of d a] assms True by simp
  then show ?thesis
    using read_law [OF assms(1) r assms(2)] assms True r by (simp add: wl_fetch_def)
qed (use assms in \<open>simp add: wl_fetch_def\<close>)

lemma multibyte_agrees:
  assumes d: "inv d" and al: "a mod item_size c = 0"
    and e: "wl_play_multibyte c (img_ops c) a log ca (img d) = (True, a', ca', m')"
    and fits: "a' \<le> backing_size c"
  shows "\<exists>d'. wl_play_multibyte c ops a log ca d = (True, a', ca', d') \<and> inv d' \<and> img d' = img d"
proof -
  let ?k = "item_size c" and ?m = "img d"
  define n1 where "n1 = (write_size c = WS2)"
  define a1 where "a1 = (if n1 then a + ?k else a)"
  define log1 where "log1 = (if n1 then log @ bytes_at ?m a ?k else log)"
  define A where "A = unat (MULTIBYTE_GET_ADDRESS log1)"
  define l where "l = unat (MULTIBYTE_GET_LENGTH log1)"
  define n2 where "n2 = (write_size c \<noteq> WS8 \<and> l > 1)"
  define a2 where "a2 = (if n2 then a1 + ?k else a1)"
  define log2 where "log2 = (if n2 then log1 @ bytes_at ?m a1 ?k else log1)"
  define n3 where "n3 = (n1 \<and> l > 3)"
  define a3 where "a3 = (if n3 then a2 + ?k else a2)"
  define log3 where "log3 = (if n3 then log2 @ bytes_at ?m a2 ?k else log2)"
  have al: "a mod ?k = 0" "a1 mod ?k = 0" "a2 mod ?k = 0"
    using al by (simp_all add: a1_def a2_def)
  have E: "\<not> A + l > logical_size c \<and> a' = a3 \<and> ca' = blit ca A (bytes_at (log3 @ wl_spill c) 3 l)"
    using e unfolding wl_play_multibyte_def img_fetch prod.case Let_def
      n1_def [symmetric] a1_def [symmetric] log1_def [symmetric] A_def [symmetric] l_def [symmetric]
      n2_def [symmetric] a2_def [symmetric] log2_def [symmetric] n3_def [symmetric] a3_def [symmetric]
      log3_def [symmetric]
    by (auto split: if_splits)
  have le: "a1 \<le> a2" "a2 \<le> a3" "n1 \<Longrightarrow> a + ?k = a1" "n2 \<Longrightarrow> a1 + ?k = a2" "n3 \<Longrightarrow> a2 + ?k = a3"
    by (simp_all add: a1_def a2_def a3_def)
  have fit: "n1 \<Longrightarrow> a + ?k \<le> backing_size c" "n2 \<Longrightarrow> a1 + ?k \<le> backing_size c"
    "n3 \<Longrightarrow> a2 + ?k \<le> backing_size c"
    using le fits E by auto
  obtain d1 where f1: "wl_fetch c ops n1 (a, log, d) = (True, a1, log1, d1)" "inv d1" "img d1 = ?m"
    using fetch_agrees [of d a n1 log, OF d al(1) fit(1)] by (auto simp: a1_def log1_def)
  obtain d2 where f2: "wl_fetch c ops n2 (a1, log1, d1) = (True, a2, log2, d2)" "inv d2" "img d2 = ?m"
    using fetch_agrees [of d1 a1 n2 log1, OF f1(2) al(2) fit(2)] f1(3) by (auto simp: a2_def log2_def)
  obtain d3 where f3: "wl_fetch c ops n3 (a2, log2, d2) = (True, a3, log3, d3)" "inv d3" "img d3 = ?m"
    using fetch_agrees [of d2 a2 n3 log2, OF f2(2) al(3) fit(3)] f2(3) by (auto simp: a3_def log3_def)
  have "wl_play_multibyte c ops a log ca d = (True, a', ca', d3)"
    unfolding wl_play_multibyte_def n1_def [symmetric] f1(1) prod.case Let_def
      A_def [symmetric] l_def [symmetric] n2_def [symmetric] f2(1) n3_def [symmetric] f3(1)
    using E by simp
  then show ?thesis using f3 by blast
qed

lemma play_entry_agrees:
  assumes "inv d" "a mod item_size c = 0"
    and "wl_play_entry c (img_ops c) a log ca (img d) = (True, a', ca', m')" "a' \<le> backing_size c"
  shows "\<exists>d'. wl_play_entry c ops a log ca d = (True, a', ca', d') \<and> inv d' \<and> img d' = img d"
proof (cases "LOG_ENTRY_GET_TYPE log = LOG_ENTRY_TYPE_MULTIBYTE")
  case True
  then show ?thesis
    using multibyte_agrees [OF assms(1,2) _ assms(4)] assms(3) by (simp add: wl_play_entry_def)
next
  case False
  then show ?thesis
    using assms(1,3) u8_type_distinct
    by (auto simp: wl_play_entry_def Let_def not_sym [OF u8_type_distinct(3)] split: if_splits)
qed

text \<open>The playback loop on the driver computes the playback of the image.\<close>

lemma loop_agrees:
  assumes ok: "wl_config_ok c"
  shows "replays c m a ca a' ca' \<Longrightarrow> inv d \<Longrightarrow> img d = m \<Longrightarrow> a mod item_size c = 0 \<Longrightarrow>
    a' \<le> backing_size c \<Longrightarrow> bytes_at m a' (backing_size c - a') = zeros (backing_size c - a') \<Longrightarrow>
    \<exists>d'. wl_playback_loop c ops a ca d = (True, a', ca', d') \<and> inv d' \<and> img d' = m"
proof (induction arbitrary: d rule: replays.induct)
  case (replays_nil a ca)
  show ?case
  proof (cases "a < backing_size c")
    case False
    then show ?thesis using replays_nil by (simp add: wl_playback_loop.simps)
  next
    case True
    obtain ok1 v d1 where r: "bs_read ops a d = ((ok1, v), d1)" by (metis prod.exhaust)
    have fits: "a + item_size c \<le> backing_size c"
      using True replays_nil config_mods [OF ok] mod_less_fits [of a "backing_size c" "item_size c"]
      by simp
    have r1: "ok1" "inv d1" "img d1 = m" "v = bytes_at m a (item_size c)"
      using read_ok [of d a] read_law [OF replays_nil(1) r] fits replays_nil r by auto
    have "bytes_at m a (item_size c) = zeros (item_size c)"
      by (rule bytes_at_zeros_sub [of _ a "backing_size c - a"]) (use replays_nil fits in auto)
    then show ?thesis
      using True r r1 by (simp add: wl_playback_loop.simps)
  qed
next
  case (replays_step a ca a1 ca1 a2 ca2)
  let ?k = "item_size c"
  obtain m0 where e: "wl_play_entry c (img_ops c) (a + ?k) (bytes_at m a ?k) ca m = (True, a1, ca1, m0)"
    and v: "bytes_at m a ?k \<noteq> zeros ?k" "a1 \<le> backing_size c"
    using replays_step.hyps(1) by (auto simp: play_at_def Let_def split: if_splits prod.splits)
  have g: "a + ?k \<le> a1" using replays_step.hyps(1) play_at_grows by blast
  have fits: "a + ?k \<le> backing_size c" using g v by simp
  obtain ok1 v1 d1 where r: "bs_read ops a d = ((ok1, v1), d1)" by (metis prod.exhaust)
  have r1: "ok1" "inv d1" "img d1 = m" "v1 = bytes_at m a ?k"
    using read_ok [of d a] read_law [OF replays_step.prems(1) r] fits replays_step.prems r by auto
  have "\<exists>d2. wl_play_entry c ops (a + ?k) (bytes_at m a ?k) ca d1 = (True, a1, ca1, d2) \<and> inv d2 \<and> img d2 = img d1"
    by (rule play_entry_agrees [OF r1(2) _ _ v(2)]) (use e r1 replays_step.prems in auto)
  then obtain d2 where d2: "wl_play_entry c ops (a + ?k) (bytes_at m a ?k) ca d1 = (True, a1, ca1, d2)"
    "inv d2" "img d2 = m" using r1 by auto
  have al1: "a1 mod ?k = 0"
    using play_at_aligned [OF replays_step.hyps(1)] replays_step.prems by simp
  obtain d3 where "wl_playback_loop c ops a1 ca1 d2 = (True, a2, ca2, d3)" "inv d3" "img d3 = m"
    using replays_step.IH [OF d2(2,3) al1] replays_step.prems by auto
  then show ?case
    using fits r r1 v d2 by (subst wl_playback_loop.simps) (simp add: less_le_trans [of a "a + ?k"])
qed

lemma unlock_succeeds: "inv (store s) \<Longrightarrow> fst (wl_unlock ops s) \<noteq> STATUS_FAILURE"
  using unlock_ok by (auto simp: wl_unlock_def split: prod.splits) (metis fst_conv)

lemma lock_succeeds: "inv (store s) \<Longrightarrow> fst (wl_lock ops s) \<noteq> STATUS_FAILURE"
  using lock_ok by (auto simp: wl_lock_def split: prod.splits) (metis fst_conv)

lemma write_checksum_ok:
  assumes ok: "wl_config_ok c" and d: "inv d" and e: "length e = 8"
    and z: "bytes_at (img d) (logical_size c) 8 = zeros 8"
  shows "fst (wl_write_checksum c ops e d)"
proof -
  have fits: "logical_size c + 8 \<le> backing_size c" "logical_size c mod item_size c = 0" "8 mod item_size c = 0"
    using ok config_mods [OF ok] by (simp_all add: wl_config_ok_def log_start_def)
  have bulk: "fst (bs_write_bulk ops (logical_size c) e d)"
    by (rule write_bulk_ok [OF d]) (use e z fits in simp_all)
  show ?thesis
  proof (cases "write_size c")
    case WS8
    have "fst (bs_write ops (logical_size c) e d)"
      by (rule write_ok [OF d]) (use e z fits WS8 in simp_all)
    then show ?thesis using WS8 by (simp add: wl_write_checksum_def)
  qed (use bulk in \<open>simp_all add: wl_write_checksum_def\<close>)
qed

lemma consolidate_force_succeeds:
  assumes ok: "wl_config_ok c" and inv: "inv (store s)" and ca: "length (cache s) = logical_size c"
  shows "fst (wl_consolidate_force c ops s) = WEAR_LEVELING_CONSOLIDATED"
proof -
  have l: "0 < logical_size c" "logical_size c mod item_size c = 0" "logical_size c + 8 \<le> backing_size c"
    using ok config_mods [OF ok] by (simp_all add: wl_config_ok_def log_start_def)
  obtain ok1 d1 where e: "bs_erase ops (store s) = (ok1, d1)" by (metis prod.exhaust)
  have e1: "ok1" "inv d1" "img d1 = zeros (backing_size c)"
    using erase_ok [OF inv] erase_law [OF inv e] e by simp_all
  obtain ls s2 where u: "wl_unlock ops (s\<lparr>store := d1\<rparr>) = (ls, s2)" by (metis prod.exhaust)
  have u1: "inv (store s2)" "img (store s2) = zeros (backing_size c)" "cache s2 = cache s"
    using unlock_store [OF _ u] e1 by simp_all
  obtain ok3 d3 where w: "bs_write_bulk ops 0 (cache s2) (store s2) = (ok3, d3)" by (metis prod.exhaust)
  have "fst (bs_write_bulk ops 0 (cache s2) (store s2))"
    by (rule write_bulk_ok) (use u1 ca l in \<open>auto simp: min_absorb1\<close>)
  moreover have "inv d3 \<and> (ok3 \<longrightarrow> img d3 = blit (img (store s2)) 0 (cache s2))"
    by (rule write_bulk_law [OF _ w]) (use u1 ca l in \<open>auto simp: min_absorb1\<close>)
  ultimately have w1: "ok3" "inv d3" "img d3 = cache s @ zeros (backing_size c - logical_size c)"
    using w u1 ca by (simp_all add: blit_def)
  have "fst (wl_write_checksum c ops (fnv_bytes (cache s2)) d3)"
    by (rule write_checksum_ok [OF ok]) (use w1 ca l in \<open>simp_all add: bytes_at_def min_absorb1\<close>)
  then obtain d4 where k: "wl_write_checksum c ops (fnv_bytes (cache s2)) d3 = (True, d4)"
    by (metis prod.exhaust fst_conv)
  show ?thesis
    using e e1 u w w1 k by (simp add: wl_consolidate_force_def wl_write_consolidated_def Let_def)
qed

lemma append_raw_succeeds:
  assumes ok: "wl_config_ok c" and s: "log_ready s" and v: "length v = item_size c"
  shows "fst (wl_append_raw c ops v s) \<noteq> WEAR_LEVELING_FAILED"
proof -
  let ?w = "write_address s" and ?k = "item_size c"
  have fits: "?w + ?k \<le> backing_size c"
    using s config_mods [OF ok] mod_less_fits [of ?w "backing_size c" ?k] by (simp add: log_ready_def)
  have z: "bytes_at (img (store s)) ?w ?k = zeros ?k"
    by (rule bytes_at_zeros_sub [of _ ?w "backing_size c - ?w"]) (use s fits in \<open>auto simp: log_ready_def\<close>)
  obtain ok1 d1 where w: "bs_write ops ?w v (store s) = (ok1, d1)" by (metis prod.exhaust)
  have "fst (bs_write ops ?w v (store s))"
    by (rule write_ok [OF _ v _ fits z]) (use s in \<open>simp_all add: log_ready_def\<close>)
  moreover have "inv d1"
    using write_law [OF _ w v _ fits z] s by (simp add: log_ready_def)
  ultimately show ?thesis
    using w s consolidate_force_succeeds [OF ok, of "s\<lparr>store := d1, write_address := ?w + ?k\<rparr>"]
    by (auto simp: wl_append_raw_def wl_consolidate_if_needed_def log_ready_def Let_def split: if_splits)
qed

lemma append_items_succeed:
  assumes ok: "wl_config_ok c"
  shows "log_ready s \<Longrightarrow> \<forall>v \<in> set vs. length v = item_size c \<Longrightarrow>
    fst (wl_append_items c ops vs s) \<noteq> WEAR_LEVELING_FAILED"
proof (induction vs arbitrary: s)
  case (Cons v vs)
  obtain st1 s1 where a: "wl_append_raw c ops v s = (st1, s1)" by (metis prod.exhaust)
  then have "st1 \<noteq> WEAR_LEVELING_FAILED"
    using append_raw_succeeds [OF ok Cons.prems(1), of v] Cons.prems(2) by simp
  then show ?case
    using a append_raw_law [OF ok Cons.prems(1) _ a] Cons by simp
qed simp

lemma write_raw_succeeds:
  assumes ok: "wl_config_ok c"
  shows "log_ready s \<Longrightarrow> fst (wl_write_raw c ops address p s) \<noteq> WEAR_LEVELING_FAILED"
proof (induction "length p" arbitrary: address p s rule: less_induct)
  case less
  show ?case
  proof (cases "p = []")
    case True
    then show ?thesis by (simp add: wl_write_raw.simps)
  next
    case False
    obtain vs n where ch: "chunk_items c address p = (vs, n)" by (metis prod.exhaust)
    have vl: "\<forall>v \<in> set vs. length v = item_size c" and n: "0 < n"
      using chunk_items_length [OF False, of _ c address] chunk_items_count [OF False, of c address] ch
      by simp_all
    obtain st1 s1 where a: "wl_append_items c ops vs s = (st1, s1)" by (metis prod.exhaust)
    have "st1 \<noteq> WEAR_LEVELING_FAILED"
      using append_items_succeed [OF ok less.prems vl] a by simp
    then show ?thesis
      using less.hyps [of "drop n p" s1 "address + n"] append_items_law [OF ok less.prems vl a] False n a
      by (subst wl_write_raw.simps) (simp add: write_chunk_items ch)
  qed
qed

lemma write_succeeds:
  assumes ok: "wl_config_ok c" and s: "wl_inv c img inv s"
    and range: "address + length p \<le> logical_size c"
  shows "\<exists>st s'. wear_leveling_write c ops address p s = Some (st, s') \<and> st \<noteq> WEAR_LEVELING_FAILED"
proof -
  have lc: "length (cache s) = logical_size c" using s by (simp add: wl_inv_def holds_def)
  have g: "\<not> wl_guard c address (length p)"
    using range ok by (simp add: wl_guard_def wl_config_ok_def wl_static_asserts_def)
  show ?thesis
  proof (cases "bytes_at (cache s) address (length p) = p")
    case True
    then show ?thesis using g range lc by (simp add: wear_leveling_write_def)
  next
    case False
    let ?s = "s\<lparr>cache := blit (cache s) address p\<rparr>"
    obtain ls s1 where u: "wl_unlock ops ?s = (ls, s1)" by (metis prod.exhaust)
    have u1: "inv (store s1)" "img (store s1) = img (store s)" "cache s1 = blit (cache s) address p"
      "write_address s1 = write_address s" "ls \<noteq> STATUS_FAILURE"
      using unlock_store [OF _ u] unlock_succeeds [of ?s] u s by (simp_all add: wl_inv_def)
    have lr: "log_ready s1"
      using inv_log_ready [OF s] u1 lc range by (simp add: log_ready_def)
    obtain st2 s2 where w: "wl_write_raw c ops address p s1 = (st2, s2)" by (metis prod.exhaust)
    have h: "holds c (img (store s1)) (write_address s1) (cache s)"
      using s u1 by (simp add: wl_inv_def)
    note w1 = write_raw_law [OF ok lr h range w]
    have st2: "st2 \<noteq> WEAR_LEVELING_FAILED" using write_raw_succeeds [OF ok lr, of address p] w by simp
    have k: "(if st2 = WEAR_LEVELING_SUCCESS then wl_consolidate_if_needed c ops s2 else (st2, s2)) = (st2, s2)"
      using w1 by (auto simp: wl_consolidate_if_needed_def log_ready_def)
    have "inv (store s2)" using w1 by simp
    then have "fst (wl_lock ops s2) \<noteq> STATUS_FAILURE" by (rule lock_succeeds)
    then show ?thesis
      using g range lc False u u1 w k st2
      by (auto simp: wear_leveling_write_def Let_def split: prod.splits)
  qed
qed

lemma read_checksum_law:
  assumes ok: "wl_config_ok c" and d: "inv d"
  shows "\<exists>d'. wl_read_checksum c ops d = (bytes_at (img d) (logical_size c) 8, d') \<and> inv d' \<and> img d' = img d"
proof -
  have fits: "logical_size c + 8 \<le> backing_size c" "logical_size c mod item_size c = 0" "8 mod item_size c = 0"
    using ok config_mods [OF ok] by (simp_all add: wl_config_ok_def log_start_def)
  have bulk: "\<exists>d'. bs_read_bulk ops (logical_size c) n d = ((True, bytes_at (img d) (logical_size c) 8), d') \<and>
      inv d' \<and> img d' = img d" if n: "n * item_size c = 8" for n
  proof -
    obtain ok1 v d' where r: "bs_read_bulk ops (logical_size c) n d = ((ok1, v), d')" by (metis prod.exhaust)
    have pos: "0 < n" using n by (cases n) simp_all
    have le: "logical_size c + n * item_size c \<le> backing_size c" using n fits by simp
    have "ok1" using read_bulk_ok [OF d fits(2) pos le] r by simp
    then show ?thesis using read_bulk_law [OF d r pos fits(2) le] r n by simp
  qed
  show ?thesis
  proof (cases "write_size c")
    case WS8
    obtain ok1 v d' where r: "bs_read ops (logical_size c) d = ((ok1, v), d')" by (metis prod.exhaust)
    have le: "logical_size c + item_size c \<le> backing_size c" using WS8 fits by simp
    have "ok1" using read_ok [OF d fits(2) le] r by simp
    then show ?thesis
      using read_law [OF d r fits(2) le] r WS8 by (simp add: wl_read_checksum_def)
  next
    case WS2
    then show ?thesis using bulk [of 4] by (auto simp: wl_read_checksum_def)
  next
    case WS4
    then show ?thesis using bulk [of 2] by (auto simp: wl_read_checksum_def)
  qed
qed

lemma read_consolidated_law:
  assumes ok: "wl_config_ok c" and s: "inv (store s)"
  shows "\<exists>s'. wl_read_consolidated c ops s = (WEAR_LEVELING_SUCCESS, s') \<and> inv (store s') \<and>
    img (store s') = img (store s) \<and> cache s' = consolidated_base c (img (store s))"
proof -
  let ?n = "logical_size c div item_size c"
  have n: "?n * item_size c = logical_size c" "0 < logical_size c" "logical_size c \<le> backing_size c"
    using ok config_mods [OF ok] by (auto simp: wl_config_ok_def log_start_def)
  then have pos: "0 < ?n" by (metis gr0I mult_is_0 less_numeral_extra(3))
  obtain ok1 v d1 where r: "bs_read_bulk ops 0 ?n (store s) = ((ok1, v), d1)" by (metis prod.exhaust)
  have le: "0 + ?n * item_size c \<le> backing_size c" and z: "0 mod item_size c = 0" using n by simp_all
  have "ok1" using read_bulk_ok [OF s z pos le] r by simp
  moreover have "inv d1" "img d1 = img (store s)"
    and "ok1 \<longrightarrow> v = bytes_at (img (store s)) 0 (logical_size c)"
    using read_bulk_law [OF s r pos z le] n by simp_all
  moreover obtain d2 where "wl_read_checksum c ops d1 = (bytes_at (img d1) (logical_size c) 8, d2)"
    "inv d2" "img d2 = img d1"
    using read_checksum_law [OF ok \<open>inv d1\<close>] by blast
  ultimately show ?thesis
    using r by (auto simp: wl_read_consolidated_def Let_def consolidated_base_def)
qed

text \<open>Initialisation recovers what the image stands for, whatever the RAM held.\<close>

lemma init_recovers:
  assumes ok: "wl_config_ok c" and s: "inv (store s)" and h: "holds c (img (store s)) wa ca"
  shows "\<exists>st s'. wear_leveling_init c ops s = (st, s') \<and> st \<noteq> WEAR_LEVELING_FAILED \<and>
    (wa < backing_size c \<longrightarrow> st = WEAR_LEVELING_SUCCESS) \<and> cache s' = ca \<and> wl_inv c img inv s'"
proof -
  let ?s = "wl_clear_cache c s"
  obtain ok1 d1 where i: "bs_init ops (store s) = (ok1, d1)" by (metis prod.exhaust)
  have i1: "ok1" "inv d1" "img d1 = img (store s)"
    using init_ok [OF s] init_law [OF s i] i by simp_all
  obtain s2 where r: "wl_read_consolidated c ops (?s\<lparr>store := d1\<rparr>) = (WEAR_LEVELING_SUCCESS, s2)"
    "inv (store s2)" "img (store s2) = img (store s)" "cache s2 = consolidated_base c (img (store s))"
    using read_consolidated_law [OF ok, of "?s\<lparr>store := d1\<rparr>"] i1 by auto
  obtain d3 where p: "wl_playback_loop c ops (log_start c) (cache s2) (store s2) = (True, wa, ca, d3)"
    "inv d3" "img d3 = img (store s)"
    using loop_agrees [OF ok, of "img (store s)" "log_start c" "cache s2" wa ca "store s2"] r h
      config_mods [OF ok] by (auto simp: holds_def)
  let ?s3 = "s2\<lparr>cache := ca, store := d3, write_address := wa\<rparr>"
  have lca: "length ca = logical_size c" using h by (simp add: holds_def)
  show ?thesis
  proof (cases "wa < backing_size c")
    case True
    have "wear_leveling_init c ops s = (WEAR_LEVELING_SUCCESS, ?s3)"
      using i i1 r p True
      by (simp add: wear_leveling_init_def Let_def wl_playback_log_def wl_consolidate_if_needed_def)
    moreover have "wl_inv c img inv ?s3" using p h True by (simp add: wl_inv_def)
    ultimately show ?thesis by simp
  next
    case False
    obtain st s4 where f: "wl_consolidate_force c ops ?s3 = (st, s4)" by (metis prod.exhaust)
    have "st = WEAR_LEVELING_CONSOLIDATED"
      using consolidate_force_succeeds [OF ok, of ?s3] f p lca by simp
    moreover have "wear_leveling_init c ops s = (st, s4)"
      using i i1 r p False f \<open>st = _\<close>
      by (simp add: wear_leveling_init_def Let_def wl_playback_log_def wl_consolidate_if_needed_def)
    ultimately show ?thesis
      using consolidate_force_law [OF ok _ _ f] p lca False by simp
  qed
qed

end

section \<open>Properties\<close>

text \<open>The configuration and the store of the 2-byte unit tests, before anything was written.\<close>

definition test_config :: wl_config where
  "test_config = \<lparr>write_size = WS2, logical_size = 16, backing_size = 48, wl_spill = [0, 0]\<rparr>"

definition fresh :: "mock_store wear_leveling" where
  "fresh = \<lparr>cache = zeros 16, write_address = 24, unlocked = False, store = mock_reset test_config\<rparr>"

lemma test_config_ok: "wl_config_ok test_config"
  by (simp add: wl_config_ok_def wl_static_asserts_def test_config_def log_start_def)

lemma fresh_inv: "wl_inv test_config mock_img (mock_inv test_config) fresh"
proof -
  have "mock_img (mock_reset test_config) = zeros 48"
    by (simp add: mock_img_def mock_reset_def test_config_def zeros_def)
  then show ?thesis
    using holds_erased [OF test_config_ok]
    by (simp add: wl_inv_def fresh_def mock_inv_def mock_reset_def log_start_def)
      (simp add: test_config_def)
qed

text \<open>
  C6: on every store that meets the backing store contract, a write that does not report
  failure keeps the invariant that replaying the store from its consolidated area gives the
  cache, and updates the cache with exactly the written bytes.
\<close>

theorem wl_write_keeps_invariant:
  assumes "backing_store ops c img dinv" and "wl_config_ok c" and "wl_inv c img dinv s"
    and "address + length p \<le> logical_size c"
    and "wear_leveling_write c ops address p s = Some (st, s')" and "st \<noteq> WEAR_LEVELING_FAILED"
  shows "wl_inv c img dinv s' \<and> cache s' = blit (cache s) address p"
  using backing_store.write_law_full [OF assms(1,2,3,5,6,4)] .

theorem wl_write_keeps_invariant_witness:
  "\<exists>st s'. wear_leveling_write test_config (mock_ops test_config mock_default) 3 [7, 8, 9] fresh = Some (st, s') \<and>
     st \<noteq> WEAR_LEVELING_FAILED \<and> wl_inv test_config mock_img (mock_inv test_config) s' \<and>
     cache s' = blit (zeros 16) 3 [7, 8, 9]"
proof -
  have r: "3 + length [7, 8, 9 :: u8] \<le> logical_size test_config" by (simp add: test_config_def)
  obtain st s' where w: "wear_leveling_write test_config (mock_ops test_config mock_default) 3 [7, 8, 9] fresh
      = Some (st, s')" "st \<noteq> WEAR_LEVELING_FAILED"
    using mock_default.write_succeeds [OF test_config_ok fresh_inv r] by blast
  show ?thesis
    using wl_write_keeps_invariant [OF mock_backing_store test_config_ok fresh_inv r w] w
    by (simp add: fresh_def)
qed

text \<open>
  C5: after a power cycle, initialisation on a store whose hardware works rebuilds
  from the store alone the cache as it was, whatever the RAM holds, and reports success.
\<close>

theorem wl_init_restores_cache:
  assumes "reliable_store ops c img dinv" and "wl_config_ok c" and "wl_inv c img dinv s"
    and "store s0 = store s"
  shows "\<exists>s'. wear_leveling_init c ops s0 = (WEAR_LEVELING_SUCCESS, s') \<and> cache s' = cache s \<and>
    wl_inv c img dinv s'"
  using reliable_store.init_recovers [OF assms(1,2), of s0 "write_address s" "cache s"] assms(3,4)
  by (auto simp: wl_inv_def)

theorem wl_init_restores_cache_witness:
  "\<exists>s'. wear_leveling_init test_config (mock_ops test_config mock_default)
       \<lparr>cache = [1, 2, 3], write_address = 5, unlocked = False, store = mock_reset test_config\<rparr>
     = (WEAR_LEVELING_SUCCESS, s') \<and> cache s' = zeros 16"
  using wl_init_restores_cache [OF mock_reliable test_config_ok fresh_inv, of
      "\<lparr>cache = [1, 2, 3], write_address = 5, unlocked = False, store = mock_reset test_config\<rparr>"]
  by (auto simp: fresh_def)

text \<open>
  C4: on a store whose hardware works, a write inside the logical size always
  succeeds, and reading it back after a power cycle returns the bytes written.
\<close>

theorem wl_write_durable:
  assumes "reliable_store ops c img dinv" and "wl_config_ok c" and "wl_inv c img dinv s"
    and "address + length p \<le> logical_size c"
  shows "\<exists>st s1. wear_leveling_write c ops address p s = Some (st, s1) \<and> st \<noteq> WEAR_LEVELING_FAILED \<and>
    (\<exists>s2. wear_leveling_init c ops \<lparr>cache = ram, write_address = wa, unlocked = False, store = store s1\<rparr>
         = (WEAR_LEVELING_SUCCESS, s2) \<and>
       wear_leveling_read c address (length p) s2 = Some (WEAR_LEVELING_SUCCESS, Some p))"
proof -
  have bs: "backing_store ops c img dinv" using assms(1) by (rule reliable_store.axioms)
  obtain st s1 where w: "wear_leveling_write c ops address p s = Some (st, s1)" "st \<noteq> WEAR_LEVELING_FAILED"
    using reliable_store.write_succeeds [OF assms] by blast
  have i1: "wl_inv c img dinv s1" "cache s1 = blit (cache s) address p"
    using backing_store.write_law_full [OF bs assms(2,3) w assms(4)] by simp_all
  obtain s2 where i2: "wear_leveling_init c ops \<lparr>cache = ram, write_address = wa, unlocked = False,
      store = store s1\<rparr> = (WEAR_LEVELING_SUCCESS, s2)" "cache s2 = cache s1"
    using reliable_store.init_recovers [OF assms(1,2), of "\<lparr>cache = ram, write_address = wa,
      unlocked = False, store = store s1\<rparr>" "write_address s1" "cache s1"] i1(1)
    by (auto simp: wl_inv_def)
  have lc: "length (cache s) = logical_size c" using assms(3) by (simp add: wl_inv_def holds_def)
  have g: "\<not> wl_guard c address (length p)"
    using assms(2,4) by (simp add: wl_guard_def wl_config_ok_def wl_static_asserts_def)
  have "wear_leveling_read c address (length p) s2 = Some (WEAR_LEVELING_SUCCESS, Some p)"
    using i1 i2 lc g assms(4) by (simp add: wear_leveling_read_def bytes_at_blit_same)
  then show ?thesis using w i2 by blast
qed

theorem wl_write_durable_witness:
  "\<exists>st s1. wear_leveling_write test_config (mock_ops test_config mock_default) 4 [1, 0, 255] fresh = Some (st, s1) \<and>
     (\<exists>s2. wear_leveling_init test_config (mock_ops test_config mock_default)
            \<lparr>cache = [], write_address = 0, unlocked = False, store = store s1\<rparr> = (WEAR_LEVELING_SUCCESS, s2) \<and>
        wear_leveling_read test_config 4 3 s2 = Some (WEAR_LEVELING_SUCCESS, Some [1, 0, 255]))"
proof -
  have r: "4 + length [1, 0, 255 :: u8] \<le> logical_size test_config" and l: "length [1, 0, 255 :: u8] = 3"
    by (simp_all add: test_config_def)
  show ?thesis
    using wl_write_durable [OF mock_reliable test_config_ok fresh_inv r, of "[]" 0] unfolding l by blast
qed

text \<open>
  An erase that reports success leaves an all-zero cache and a store that stands for
  it.
\<close>

theorem wl_erase_zeroes:
  assumes "backing_store ops c img dinv" and "wl_config_ok c" and "dinv (store s)"
    and "wear_leveling_erase c ops s = (WEAR_LEVELING_SUCCESS, s')"
  shows "wl_inv c img dinv s' \<and> cache s' = zeros (logical_size c)"
  using backing_store.erase_law_full [OF assms(1,2,3,4)] .

theorem wl_erase_zeroes_witness:
  "\<exists>s'. wear_leveling_erase test_config (mock_ops test_config mock_default) (fresh\<lparr>cache := [1]\<rparr>)
     = (WEAR_LEVELING_SUCCESS, s') \<and> cache s' = zeros 16"
proof -
  obtain s' where e: "wear_leveling_erase test_config (mock_ops test_config mock_default) (fresh\<lparr>cache := [1]\<rparr>)
      = (WEAR_LEVELING_SUCCESS, s')"
    by (auto simp: wear_leveling_erase_def wl_unlock_def wl_lock_def mock_ops_def mock_items_def
        mock_unlock_def mock_lock_def mock_erase_def mock_default_def fresh_def Let_def)
  then show ?thesis
    using wl_erase_zeroes [OF mock_backing_store test_config_ok _ e]
    by (simp add: fresh_def mock_inv_def mock_reset_def) (simp add: test_config_def)
qed

text \<open>
  C40: writes and reads outside of the logical size are refused without touching
  anything, unless \<^verbatim>\<open>address + length\<close> exceeds 32 bits: then the sum wraps, the guard lets the
  call through and the cache is accessed out of bounds.
\<close>

theorem wl_guard_cases:
  assumes "length (cache s) = logical_size c" and "logical_size c < 2 ^ 32"
    and "logical_size c < address + length p"
  shows "(address + length p < 2 ^ 32 \<longrightarrow>
      wear_leveling_write c ops address p s = Some (WEAR_LEVELING_FAILED, s) \<and>
      wear_leveling_read c address (length p) s = Some (WEAR_LEVELING_FAILED, None)) \<and>
    (2 ^ 32 \<le> address + length p \<and> address + length p \<le> 2 ^ 32 + logical_size c \<longrightarrow>
      wear_leveling_write c ops address p s = None \<and> wear_leveling_read c address (length p) s = None)"
proof -
  have "(address + length p) mod 2 ^ 32 = address + length p - 2 ^ 32"
    if "2 ^ 32 \<le> address + length p" "address + length p \<le> 2 ^ 32 + logical_size c"
    using that assms(2) by (simp add: mod_if)
  then show ?thesis
    using assms by (auto simp: wear_leveling_write_def wear_leveling_read_def wl_guard_def)
qed

theorem wl_guard_cases_witness:
  "length (cache fresh) = logical_size test_config \<and>
   wear_leveling_write test_config (mock_ops test_config mock_default) 15 [1, 2] fresh = Some (WEAR_LEVELING_FAILED, fresh) \<and>
   wear_leveling_write test_config (mock_ops test_config mock_default) 4294967295 [1, 2] fresh = None"
  using wl_guard_cases [of fresh test_config 15 "[1, 2]" "mock_ops test_config mock_default"]
    wl_guard_cases [of fresh test_config 4294967295 "[1, 2]" "mock_ops test_config mock_default"]
  by (simp add: fresh_def test_config_def)

text \<open>
  A corrupted log entry with a length field of 6 or 7 passes the checks of the
  playback, and bytes from behind the 8-byte entry are copied into the cache.
\<close>

theorem wl_playback_overread:
  assumes "write_size c = WS8" and "7 \<le> logical_size c" and "wl_spill c = [x, y]"
  shows "wl_play_entry c ops a [0x38, 0, 0, b0, b1, b2, b3, b4] ca d =
    (True, a, blit ca 0 [b0, b1, b2, b3, b4, x, y], d)"
  using assms
  by (simp add: wl_play_entry_def wl_play_multibyte_def wl_fetch_def LOG_ENTRY_GET_TYPE_def masked_def
      LOG_ENTRY_TYPE_MULTIBYTE_def MULTIBYTE_GET_ADDRESS_def MULTIBYTE_GET_LENGTH_def bytes_at_def)

theorem wl_playback_overread_witness:
  "wl_play_entry \<lparr>write_size = WS8, logical_size = 8, backing_size = 32, wl_spill = [0xde, 0xad]\<rparr>
     (mock_ops test_config mock_default) 24 [0x38, 0, 0, 1, 2, 3, 4, 5] (zeros 8) (mock_reset test_config) =
   (True, 24, [1, 2, 3, 4, 5, 0xde, 0xad, 0], mock_reset test_config)"
  using wl_playback_overread [of "\<lparr>write_size = WS8, logical_size = 8, backing_size = 32, wl_spill = [0xde, 0xad]\<rparr>"
      "0xde" "0xad" "mock_ops test_config mock_default" 24 1 2 3 4 5 "zeros 8" "mock_reset test_config"]
  by (simp add: blit_def zeros_def)

text \<open>
  The static assertions accept a backing store without room for a log (8 logical
  bytes in 16): the write address starts at the end of the store, and the first append goes to
  an item outside of it, which the mock driver rejects as an unexpected call.
\<close>

theorem wl_config_without_log:
  "wl_static_asserts \<lparr>write_size = WS8, logical_size = 8, backing_size = 16, wl_spill = sp\<rparr> \<and>
   (let c = \<lparr>write_size = WS8, logical_size = 8, backing_size = 16, wl_spill = sp\<rparr>;
        s = wl_clear_cache c s0
    in write_address s = backing_size c \<and>
       \<not> mock_expectations_met (snd (bs_write (mock_ops c mock_default) (write_address s) v (store s))))"
  by (simp add: wl_static_asserts_def Let_def log_start_def mock_ops_def mock_items_def mock_write_def
      mock_default_def mock_expect_def)

end
