(* ===== verification/Debounce.thy ===== *)
theory Debounce
  imports QmkPrelude
begin

text \<open>
  The debounce algorithms of \<^verbatim>\<open>quantum/debounce\<close>. A matrix is the list of its rows
  (\<^verbatim>\<open>matrix_row_t\<close>, a word of any width), the counters are a list per row (the source walks the
  same counters with one pointer), and the value of \<^verbatim>\<open>timer_read_fast\<close> at a call is the argument
  \<open>now\<close>, of any width (\<^verbatim>\<open>fast_timer_t\<close> is 16 or 32 bits). A call returns \<^verbatim>\<open>cooked_changed\<close>, the
  new cooked matrix and the new state. \<open>D\<close> is the configured \<^verbatim>\<open>DEBOUNCE\<close>.
\<close>

section \<open>Shared parts\<close>

text \<open>A \<^verbatim>\<open>for\<close> loop that walks the counters \<open>ps\<close> from index \<open>n\<close> on and threads the state \<open>s\<close>.\<close>

fun scan :: "(nat \<Rightarrow> 'p \<Rightarrow> 's \<Rightarrow> 'p \<times> 's) \<Rightarrow> nat \<Rightarrow> 'p list \<Rightarrow> 's \<Rightarrow> 'p list \<times> 's" where
  "scan f n [] s = ([], s)"
| "scan f n (p # ps) s =
     (case f n p s of (p', s') \<Rightarrow> case scan f (Suc n) ps s' of (ps', s'') \<Rightarrow> (p' # ps', s''))"

definition debounce_clamp :: "nat \<Rightarrow> nat \<Rightarrow> nat" where
  "debounce_clamp limit D = (if D > limit then limit else D)"

definition clamp_elapsed :: "'t::len word \<Rightarrow> u8" where
  "clamp_elapsed e = (if unat e > 255 then 255 else ucast e)"

text \<open>\<^verbatim>\<open>none.c\<close>.\<close>

definition debounce_none :: "'r::len word list \<Rightarrow> bool \<Rightarrow> 'r word list \<Rightarrow> bool \<times> 'r word list" where
  "debounce_none raw changed cooked =
     (if changed \<and> cooked \<noteq> raw then (True, raw) else (False, cooked))"

section \<open>Symmetric, deferred, global\<close>

record 't defer_g =
  debouncing :: bool
  debouncing_time :: 't

definition debounce_sym_defer_g ::
  "nat \<Rightarrow> 't::len word \<Rightarrow> 'r::len word list \<Rightarrow> bool \<Rightarrow> 'r word list \<Rightarrow> ('t word) defer_g \<Rightarrow>
     bool \<times> 'r word list \<times> ('t word) defer_g" where
  "debounce_sym_defer_g D now raw changed cooked s =
     (let D = debounce_clamp 255 D in
      if D = 0 then (case debounce_none raw changed cooked of (ch, ck) \<Rightarrow> (ch, ck, s))
      else if changed then (False, cooked, s\<lparr>debouncing := True, debouncing_time := now\<rparr>)
      else if debouncing s \<and> unat (timer_diff now (debouncing_time s)) \<ge> D then
        (if cooked \<noteq> raw then (True, raw, s\<lparr>debouncing := False\<rparr>)
         else (False, cooked, s\<lparr>debouncing := False\<rparr>))
      else (False, cooked, s))"

section \<open>Per key\<close>

text \<open>
  State of the per-key and eager per-row algorithms; \<open>'p\<close> is a row of counters.
  \<^verbatim>\<open>sym_defer_pk.c\<close> has no \<^verbatim>\<open>matrix_need_update\<close>: its flag stays false.
\<close>

record ('p, 't) debounce_state =
  counters :: "'p list"
  last_time :: 't
  counters_need_update :: bool
  matrix_need_update :: bool

text \<open>What a loop body threads: the row of \<^verbatim>\<open>cooked\<close>, the two flags and \<^verbatim>\<open>cooked_changed\<close>.\<close>

type_synonym 'w row_state = "'w \<times> bool \<times> bool \<times> bool"

text \<open>The loop over rows: the body works on the row of \<^verbatim>\<open>cooked\<close>, which is written back.\<close>

definition row_body ::
  "(nat \<Rightarrow> 'p \<Rightarrow> ('r word) row_state \<Rightarrow> 'p \<times> ('r word) row_state) \<Rightarrow>
   nat \<Rightarrow> 'p \<Rightarrow> 'r::len word list \<times> bool \<times> bool \<times> bool \<Rightarrow>
   'p \<times> 'r word list \<times> bool \<times> bool \<times> bool" where
  "row_body f row p s =
     (case s of (cooked, cn, mn, ch) \<Rightarrow>
      case f row p (cooked ! row, cn, mn, ch) of (p', w, cn, mn, ch) \<Rightarrow>
        (p', cooked[row := w], cn, mn, ch))"

text \<open>
  The common part of \<^verbatim>\<open>debounce()\<close> in the per-key and eager per-row files: \<open>update\<close> and \<open>transfer\<close>
  are the bodies of the two loops, for one row. \<open>reset_cn\<close> and \<open>reset_mn\<close> tell which flags the
  second loop clears first.
\<close>

definition debounce_call ::
  "(u8 \<Rightarrow> 'r word \<Rightarrow> 'p \<Rightarrow> ('r word) row_state \<Rightarrow> 'p \<times> ('r word) row_state) \<Rightarrow>
   ('r word \<Rightarrow> 'p \<Rightarrow> ('r word) row_state \<Rightarrow> 'p \<times> ('r word) row_state) \<Rightarrow>
   't::len word \<Rightarrow> 'r::len word list \<Rightarrow> bool \<Rightarrow> 'r word list \<Rightarrow> ('p, 't word) debounce_state \<Rightarrow>
     bool \<times> 'r word list \<times> ('p, 't word) debounce_state" where
  "debounce_call update transfer now raw changed cooked s =
     (let need = counters_need_update s;
          elapsed = clamp_elapsed (timer_diff now (last_time s));
          s = (if need then s\<lparr>last_time := now\<rparr> else s);
          (ch, cooked, s) =
            (if need \<and> elapsed > 0 then
               (case scan (row_body (\<lambda>row. update elapsed (raw ! row))) 0 (counters s) (cooked, False, False, False) of
                  (ps, cooked, cn, mn, ch) \<Rightarrow>
                    (ch, cooked, s\<lparr>counters := ps, counters_need_update := cn, matrix_need_update := mn\<rparr>))
             else (False, cooked, s))
      in if changed \<or> matrix_need_update s then
           (let s = (if need then s else s\<lparr>last_time := now\<rparr>)
            in case scan (row_body (\<lambda>row. transfer (raw ! row))) 0 (counters s)
                      (cooked, counters_need_update s, False, ch) of
                 (ps, cooked, cn, mn, ch) \<Rightarrow>
                   (ch, cooked, s\<lparr>counters := ps, counters_need_update := cn, matrix_need_update := mn\<rparr>))
         else (ch, cooked, s))"

subsection \<open>Symmetric, deferred\<close>

definition defer_pk_update :: "u8 \<Rightarrow> 'r::len word \<Rightarrow> u8 list \<Rightarrow> ('r word) row_state \<Rightarrow> u8 list \<times> ('r word) row_state" where
  "defer_pk_update elapsed raw =
     scan (\<lambda>col p (cooked, cn, mn, ch).
       if p \<noteq> 0 then
         if p \<le> elapsed then
           (let next = (cooked AND NOT (push_bit col 1)) OR (raw AND push_bit col 1)
            in (0, next, cn, mn, ch \<or> cooked XOR next \<noteq> 0))
         else (p - elapsed, cooked, True, mn, ch)
       else (p, cooked, cn, mn, ch)) 0"

definition defer_pk_start :: "nat \<Rightarrow> 'r::len word \<Rightarrow> u8 list \<Rightarrow> ('r word) row_state \<Rightarrow> u8 list \<times> ('r word) row_state" where
  "defer_pk_start D raw ps s =
     (let delta = raw XOR fst s in
      scan (\<lambda>col p (cooked, cn, mn, ch).
        if delta AND push_bit col 1 \<noteq> 0 then
          if p = 0 then (of_nat D, cooked, True, mn, ch) else (p, cooked, cn, mn, ch)
        else (0, cooked, cn, mn, ch)) 0 ps s)"

definition debounce_sym_defer_pk ::
  "nat \<Rightarrow> 't::len word \<Rightarrow> 'r::len word list \<Rightarrow> bool \<Rightarrow> 'r word list \<Rightarrow> (u8 list, 't word) debounce_state \<Rightarrow>
     bool \<times> 'r word list \<times> (u8 list, 't word) debounce_state" where
  "debounce_sym_defer_pk D now raw changed cooked s =
     (let D = debounce_clamp 255 D in
      if D = 0 then (case debounce_none raw changed cooked of (ch, ck) \<Rightarrow> (ch, ck, s))
      else debounce_call defer_pk_update (defer_pk_start D) now raw changed cooked s)"

subsection \<open>Symmetric, eager\<close>

definition eager_pk_update :: "u8 \<Rightarrow> 'r::len word \<Rightarrow> u8 list \<Rightarrow> ('r word) row_state \<Rightarrow> u8 list \<times> ('r word) row_state" where
  "eager_pk_update elapsed raw =
     scan (\<lambda>col p (cooked, cn, mn, ch).
       if p \<noteq> 0 then
         if p \<le> elapsed then (0, cooked, cn, True, ch)
         else (p - elapsed, cooked, True, mn, ch)
       else (p, cooked, cn, mn, ch)) 0"

text \<open>The loop works on \<^verbatim>\<open>existing_row\<close>, a copy of the row that is written back after it.\<close>

definition eager_pk_transfer :: "nat \<Rightarrow> 'r::len word \<Rightarrow> u8 list \<Rightarrow> ('r word) row_state \<Rightarrow> u8 list \<times> ('r word) row_state" where
  "eager_pk_transfer D raw ps s =
     (let delta = raw XOR fst s in
      scan (\<lambda>col p (existing, cn, mn, ch).
        if delta AND push_bit col 1 \<noteq> 0 \<and> p = 0
        then (of_nat D, existing XOR push_bit col 1, True, mn, True)
        else (p, existing, cn, mn, ch)) 0 ps s)"

definition debounce_sym_eager_pk ::
  "nat \<Rightarrow> 't::len word \<Rightarrow> 'r::len word list \<Rightarrow> bool \<Rightarrow> 'r word list \<Rightarrow> (u8 list, 't word) debounce_state \<Rightarrow>
     bool \<times> 'r word list \<times> (u8 list, 't word) debounce_state" where
  "debounce_sym_eager_pk D now raw changed cooked s =
     (let D = debounce_clamp 255 D in
      if D = 0 then (case debounce_none raw changed cooked of (ch, ck) \<Rightarrow> (ch, ck, s))
      else debounce_call eager_pk_update (eager_pk_transfer D) now raw changed cooked s)"

subsection \<open>Asymmetric: eager press, deferred release\<close>

record asym_counter =
  pressed :: bool
  time :: "7 word"

definition asym_update :: "u8 \<Rightarrow> 'r::len word \<Rightarrow> asym_counter list \<Rightarrow> ('r word) row_state \<Rightarrow> asym_counter list \<times> ('r word) row_state" where
  "asym_update elapsed raw =
     scan (\<lambda>col p (cooked, cn, mn, ch).
       if time p \<noteq> 0 then
         if unat (time p) \<le> unat elapsed then
           (let p = p\<lparr>time := 0\<rparr> in
            if pressed p then (p, cooked, cn, True, ch)
            else (let next = (cooked AND NOT (push_bit col 1)) OR (raw AND push_bit col 1)
                  in (p, next, cn, mn, ch \<or> next XOR cooked \<noteq> 0)))
         else (p\<lparr>time := time p - ucast elapsed\<rparr>, cooked, True, mn, ch)
       else (p, cooked, cn, mn, ch)) 0"

definition asym_transfer :: "nat \<Rightarrow> 'r::len word \<Rightarrow> asym_counter list \<Rightarrow> ('r word) row_state \<Rightarrow> asym_counter list \<times> ('r word) row_state" where
  "asym_transfer D raw ps s =
     (let delta = raw XOR fst s in
      scan (\<lambda>col p (cooked, cn, mn, ch).
        if delta AND push_bit col 1 \<noteq> 0 then
          if time p = 0 then
            (let p = p\<lparr>pressed := (raw AND push_bit col 1 \<noteq> 0), time := of_nat D\<rparr> in
             if pressed p then (p, cooked XOR push_bit col 1, True, mn, True)
             else (p, cooked, True, mn, ch))
          else (p, cooked, cn, mn, ch)
        else if time p \<noteq> 0 \<and> \<not> pressed p then (p\<lparr>time := 0\<rparr>, cooked, cn, mn, ch)
        else (p, cooked, cn, mn, ch)) 0 ps s)"

definition debounce_asym_eager_defer_pk ::
  "nat \<Rightarrow> 't::len word \<Rightarrow> 'r::len word list \<Rightarrow> bool \<Rightarrow> 'r word list \<Rightarrow> (asym_counter list, 't word) debounce_state \<Rightarrow>
     bool \<times> 'r word list \<times> (asym_counter list, 't word) debounce_state" where
  "debounce_asym_eager_defer_pk D now raw changed cooked s =
     (let D = debounce_clamp 127 D in
      if D = 0 then (case debounce_none raw changed cooked of (ch, ck) \<Rightarrow> (ch, ck, s))
      else debounce_call asym_update (asym_transfer D) now raw changed cooked s)"

section \<open>Per row\<close>

definition eager_pr_update :: "u8 \<Rightarrow> 'r::len word \<Rightarrow> u8 \<Rightarrow> ('r word) row_state \<Rightarrow> u8 \<times> ('r word) row_state" where
  "eager_pr_update elapsed raw p s =
     (case s of (cooked, cn, mn, ch) \<Rightarrow>
       if p \<noteq> 0 then
         if p \<le> elapsed then (0, cooked, cn, True, ch) else (p - elapsed, cooked, True, mn, ch)
       else (p, cooked, cn, mn, ch))"

definition eager_pr_transfer :: "nat \<Rightarrow> 'r::len word \<Rightarrow> u8 \<Rightarrow> ('r word) row_state \<Rightarrow> u8 \<times> ('r word) row_state" where
  "eager_pr_transfer D raw p s =
     (case s of (cooked, cn, mn, ch) \<Rightarrow>
       if cooked \<noteq> raw \<and> p = 0 then (of_nat D, raw, True, mn, ch \<or> cooked XOR raw \<noteq> 0)
       else (p, cooked, cn, mn, ch))"

definition debounce_sym_eager_pr ::
  "nat \<Rightarrow> 't::len word \<Rightarrow> 'r::len word list \<Rightarrow> bool \<Rightarrow> 'r word list \<Rightarrow> (u8, 't word) debounce_state \<Rightarrow>
     bool \<times> 'r word list \<times> (u8, 't word) debounce_state" where
  "debounce_sym_eager_pr D now raw changed cooked s =
     (let D = debounce_clamp 255 D in
      if D = 0 then (case debounce_none raw changed cooked of (ch, ck) \<Rightarrow> (ch, ck, s))
      else debounce_call eager_pr_update (eager_pr_transfer D) now raw changed cooked s)"

text \<open>\<^verbatim>\<open>sym_defer_pr.c\<close> keeps the last raw row and always uses the 16-bit timer.\<close>

record 'w defer_pr =
  pr_last_time :: u16
  countdowns :: "u8 list"
  last_raw :: "'w list"

definition defer_pr_init :: "nat \<Rightarrow> u16 \<Rightarrow> ('r::len word) defer_pr" where
  "defer_pr_init num_rows now =
     \<lparr>pr_last_time = now, countdowns = replicate num_rows 0, last_raw = replicate num_rows 0\<rparr>"

definition defer_pr_row ::
  "nat \<Rightarrow> u8 \<Rightarrow> 'r::len word list \<Rightarrow> nat \<Rightarrow> u8 \<Rightarrow> 'r word list \<times> 'r word list \<times> bool \<Rightarrow>
     u8 \<times> 'r word list \<times> 'r word list \<times> bool" where
  "defer_pr_row D elapsed raw row countdown s =
     (case s of (lr, cooked, ch) \<Rightarrow>
       let raw_row = raw ! row in
       if raw_row \<noteq> lr ! row then (of_nat D, lr[row := raw_row], cooked, ch)
       else if countdown > elapsed then (countdown - elapsed, lr, cooked, ch)
       else if countdown \<noteq> 0 then (0, lr, cooked[row := raw_row], ch \<or> cooked ! row XOR raw_row \<noteq> 0)
       else (countdown, lr, cooked, ch))"

definition debounce_sym_defer_pr ::
  "nat \<Rightarrow> u16 \<Rightarrow> 'r::len word list \<Rightarrow> bool \<Rightarrow> 'r word list \<Rightarrow> ('r word) defer_pr \<Rightarrow>
     bool \<times> 'r word list \<times> ('r word) defer_pr" where
  "debounce_sym_defer_pr D now raw changed cooked s =
     (let elapsed = clamp_elapsed (timer_diff now (pr_last_time s)) in
      case scan (defer_pr_row D elapsed raw) 0 (countdowns s) (last_raw s, cooked, False) of
        (cs, lr, cooked, ch) \<Rightarrow>
          (ch, cooked, s\<lparr>pr_last_time := now, countdowns := cs, last_raw := lr\<rparr>))"

section \<open>Initial states\<close>

definition debounce_pk_init :: "nat \<Rightarrow> nat \<Rightarrow> (u8 list, 't::len word) debounce_state" where
  "debounce_pk_init num_rows cols = \<lparr>counters = replicate num_rows (replicate cols 0), last_time = 0,
     counters_need_update = False, matrix_need_update = False\<rparr>"

definition debounce_pr_init :: "nat \<Rightarrow> (u8, 't::len word) debounce_state" where
  "debounce_pr_init num_rows = \<lparr>counters = replicate num_rows 0, last_time = 0,
     counters_need_update = False, matrix_need_update = False\<rparr>"

text \<open>\<^verbatim>\<open>malloc\<close> leaves \<^verbatim>\<open>pressed\<close> undetermined; it is only read while a time is running.\<close>

definition debounce_asym_init :: "nat \<Rightarrow> nat \<Rightarrow> (nat \<Rightarrow> nat \<Rightarrow> bool) \<Rightarrow> (asym_counter list, 't::len word) debounce_state" where
  "debounce_asym_init num_rows cols junk =
     \<lparr>counters = map (\<lambda>r. map (\<lambda>k. \<lparr>pressed = junk r k, time = 0\<rparr>) [0..<cols]) [0..<num_rows],
      last_time = 0, counters_need_update = False, matrix_need_update = False\<rparr>"

end
