(* ===== verification/DebounceProps.thy ===== *)
theory DebounceProps
  imports Debounce
begin

text \<open>
  What the debounce algorithms promise: the contract every one of them meets (the cooked matrix
  only takes values of the raw one, and the result tells whether it changed), and the timing of
  the per-key algorithms.
\<close>

section \<open>Loops\<close>

text \<open>A row body that only adds to the flags it is given.\<close>

definition row_result :: "('p \<Rightarrow> 'w row_state \<Rightarrow> 'p \<times> 'w row_state) \<Rightarrow> 'p \<Rightarrow> 'w \<Rightarrow> 'p \<times> 'w row_state" where
  "row_result g p w = g p (w, False, False, False)"

definition adds_flags :: "('p \<Rightarrow> 'w row_state \<Rightarrow> 'p \<times> 'w row_state) \<Rightarrow> 'p \<Rightarrow> bool" where
  "adds_flags g p \<longleftrightarrow> (\<forall>w cn mn ch. g p (w, cn, mn, ch) =
     (case row_result g p w of (p', w', c, m, h) \<Rightarrow> (p', w', cn \<or> c, mn \<or> m, ch \<or> h)))"

abbreviation "r_p x \<equiv> fst x"
abbreviation "r_w x \<equiv> fst (snd x)"
abbreviation "r_cn x \<equiv> fst (snd (snd x))"
abbreviation "r_mn x \<equiv> fst (snd (snd (snd x)))"
abbreviation "r_ch x \<equiv> snd (snd (snd (snd x)))"

lemma ex_less_Suc_shift: "(\<exists>j < Suc n. P j) \<longleftrightarrow> P 0 \<or> (\<exists>j < n. P (Suc j))"
  by (metis Ex_less_Suc2 zero_less_Suc)

lemma rows_scan:
  "(\<And>i. i < length ps \<Longrightarrow> adds_flags (g (n + i)) (ps ! i)) \<Longrightarrow> n + length ps \<le> length cooked \<Longrightarrow>
   scan (row_body g) n ps (cooked, cn, mn, ch) = (ps', cooked', cn', mn', ch') \<Longrightarrow>
   length ps' = length ps \<and> length cooked' = length cooked \<and>
   (\<forall>j < length ps. ps' ! j = r_p (row_result (g (n + j)) (ps ! j) (cooked ! (n + j))) \<and>
      cooked' ! (n + j) = r_w (row_result (g (n + j)) (ps ! j) (cooked ! (n + j)))) \<and>
   (\<forall>j. j < n \<or> n + length ps \<le> j \<longrightarrow> cooked' ! j = cooked ! j) \<and>
   (cn' \<longleftrightarrow> cn \<or> (\<exists>j < length ps. r_cn (row_result (g (n + j)) (ps ! j) (cooked ! (n + j))))) \<and>
   (mn' \<longleftrightarrow> mn \<or> (\<exists>j < length ps. r_mn (row_result (g (n + j)) (ps ! j) (cooked ! (n + j))))) \<and>
   (ch' \<longleftrightarrow> ch \<or> (\<exists>j < length ps. r_ch (row_result (g (n + j)) (ps ! j) (cooked ! (n + j)))))"
proof (induction ps arbitrary: n cooked cn mn ch ps' cooked')
  case (Cons p ps)
  obtain p1 w1 c1 m1 h1 where r: "row_result (g n) p (cooked ! n) = (p1, w1, c1, m1, h1)"
    by (metis prod.exhaust)
  have "adds_flags (g n) p" using Cons.prems(1) [of 0] by simp
  then have b: "row_body g n p (cooked, cn, mn, ch) = (p1, cooked[n := w1], cn \<or> c1, mn \<or> m1, ch \<or> h1)"
    by (simp add: row_body_def adds_flags_def r)
  obtain ps2 where s: "scan (row_body g) (Suc n) ps (cooked[n := w1], cn \<or> c1, mn \<or> m1, ch \<or> h1) =
      (ps2, cooked', cn', mn', ch')" and ps': "ps' = p1 # ps2"
    using Cons.prems(3) by (auto simp: b split: prod.splits)
  have af: "adds_flags (g (Suc n + i)) (ps ! i)" if "i < length ps" for i
    using Cons.prems(1) [of "Suc i"] that by simp
  have len: "Suc n + length ps \<le> length (cooked[n := w1])" using Cons.prems(2) by simp
  note ih = Cons.IH [OF af len s]
  have at: "cooked[n := w1] ! (Suc n + j) = cooked ! (Suc n + j)" for j by simp
  show ?case
  proof (intro conjI)
    show "length ps' = length (p # ps)" "length cooked' = length cooked"
      using ih ps' by simp_all
    show "\<forall>j < length (p # ps). ps' ! j = r_p (row_result (g (n + j)) ((p # ps) ! j) (cooked ! (n + j))) \<and>
        cooked' ! (n + j) = r_w (row_result (g (n + j)) ((p # ps) ! j) (cooked ! (n + j)))"
    proof (intro allI impI)
      fix j assume "j < length (p # ps)"
      then show "ps' ! j = r_p (row_result (g (n + j)) ((p # ps) ! j) (cooked ! (n + j))) \<and>
        cooked' ! (n + j) = r_w (row_result (g (n + j)) ((p # ps) ! j) (cooked ! (n + j)))"
        using ih ps' r Cons.prems(2) by (cases j) auto
    qed
    show "\<forall>j. j < n \<or> n + length (p # ps) \<le> j \<longrightarrow> cooked' ! j = cooked ! j"
      using ih by auto
  qed (use ih r in \<open>simp_all add: ex_less_Suc_shift disj_assoc\<close>)
qed simp

text \<open>Two bodies that agree along an invariant of the loop.\<close>

lemma scan_cong:
  assumes "\<And>i p s. n \<le> i \<Longrightarrow> i < n + length ps \<Longrightarrow> I i s \<Longrightarrow> f i p s = g i p s \<and> I (Suc i) (snd (g i p s))"
    and "I n s"
  shows "scan f n ps s = scan g n ps s"
  using assms
proof (induction ps arbitrary: n s)
  case (Cons p ps)
  have e: "f n p s = g n p s" "I (Suc n) (snd (g n p s))"
    using Cons.prems(1) [of n s p] Cons.prems(2) by simp_all
  have "scan f (Suc n) ps (snd (g n p s)) = scan g (Suc n) ps (snd (g n p s))"
    by (rule Cons.IH [OF _ e(2)]) (use Cons.prems(1) in simp)
  then show ?case using e by (cases "g n p s") simp
qed simp

section \<open>Per-key bodies\<close>

text \<open>
  The automaton of one key: from the counter, the raw and the cooked bit to the new counter, the
  new cooked bit and the two flags.
\<close>

type_synonym 'p key_fun = "'p \<Rightarrow> bool \<Rightarrow> bool \<Rightarrow> 'p \<times> bool \<times> bool \<times> bool"

definition put_bit :: "nat \<Rightarrow> bool \<Rightarrow> 'r::len word \<Rightarrow> 'r word" where
  "put_bit n b w = (if b then w OR bv n else w AND NOT (bv n))"

lemma bit_put_bit: "n < LENGTH('r) \<Longrightarrow> bit (put_bit n b w :: 'r::len word) m \<longleftrightarrow> (if m = n then b else bit w m)"
  by (auto simp: put_bit_def bit_or_iff bit_and_iff bit_not_iff dest: bit_imp_le_length)

lemma put_bit_eq_iff: 
  assumes "n < LENGTH('r)"
  shows "put_bit n b w = (w :: 'r::len word) \<longleftrightarrow> b = bit w n"
proof
  assume "put_bit n b w = w"
  then show "b = bit w n" using bit_put_bit [OF assms, of b w n] by simp
next
  assume "b = bit w n"
  then show "put_bit n b w = w" using assms by (intro bit_eqI) (simp add: bit_put_bit)
qed

definition key_body :: "'p key_fun \<Rightarrow> 'r::len word \<Rightarrow> nat \<Rightarrow> 'p \<Rightarrow> ('r word) row_state \<Rightarrow> 'p \<times> ('r word) row_state" where
  "key_body k raw n p s =
     (case s of (w, cn, mn, ch) \<Rightarrow> case k p (bit raw n) (bit w n) of (p', b, c, m) \<Rightarrow>
        (p', put_bit n b w, cn \<or> c, mn \<or> m, ch \<or> b \<noteq> bit w n))"

abbreviation "k_p x \<equiv> fst x"
abbreviation "k_b x \<equiv> fst (snd x)"
abbreviation "k_cn x \<equiv> fst (snd (snd x))"
abbreviation "k_mn x \<equiv> snd (snd (snd x))"

lemma key_scan:
  fixes w :: "'r::len word"
  shows "n + length ps \<le> LENGTH('r) \<Longrightarrow>
   scan (key_body k raw) n ps (w, cn, mn, ch) = (ps', w', cn', mn', ch') \<Longrightarrow>
   length ps' = length ps \<and>
   (\<forall>i < length ps. ps' ! i = k_p (k (ps ! i) (bit raw (n + i)) (bit w (n + i))) \<and>
      bit w' (n + i) = k_b (k (ps ! i) (bit raw (n + i)) (bit w (n + i)))) \<and>
   (\<forall>m. m < n \<or> n + length ps \<le> m \<longrightarrow> bit w' m = bit w m) \<and>
   (cn' \<longleftrightarrow> cn \<or> (\<exists>i < length ps. k_cn (k (ps ! i) (bit raw (n + i)) (bit w (n + i))))) \<and>
   (mn' \<longleftrightarrow> mn \<or> (\<exists>i < length ps. k_mn (k (ps ! i) (bit raw (n + i)) (bit w (n + i))))) \<and>
   (ch' \<longleftrightarrow> ch \<or> (\<exists>i < length ps. bit w' (n + i) \<noteq> bit w (n + i)))"
proof (induction ps arbitrary: n w cn mn ch ps')
  case (Cons p ps)
  obtain p1 b1 c1 m1 where r: "k p (bit raw n) (bit w n) = (p1, b1, c1, m1)" by (metis prod.exhaust)
  let ?w = "put_bit n b1 w"
  have b: "key_body k raw n p (w, cn, mn, ch) = (p1, ?w, cn \<or> c1, mn \<or> m1, ch \<or> b1 \<noteq> bit w n)"
    by (simp add: key_body_def r)
  obtain ps2 where s: "scan (key_body k raw) (Suc n) ps (?w, cn \<or> c1, mn \<or> m1, ch \<or> b1 \<noteq> bit w n) =
      (ps2, w', cn', mn', ch')" and ps': "ps' = p1 # ps2"
    using Cons.prems(2) by (auto simp: b split: prod.splits)
  have len: "Suc n + length ps \<le> LENGTH('r)" "n < LENGTH('r)" using Cons.prems(1) by simp_all
  have at: "bit ?w (Suc n + j) = bit w (Suc n + j)" for j using len by (simp add: bit_put_bit)
  note ih = Cons.IH [OF len(1) s, unfolded at]
  have n: "bit w' n = b1" using ih len by (auto simp: bit_put_bit)
  show ?case
  proof (intro conjI)
    show "length ps' = length (p # ps)" using ih ps' by simp
    show "\<forall>i < length (p # ps). ps' ! i = k_p (k ((p # ps) ! i) (bit raw (n + i)) (bit w (n + i))) \<and>
      bit w' (n + i) = k_b (k ((p # ps) ! i) (bit raw (n + i)) (bit w (n + i)))"
    proof (intro allI impI)
      fix i assume "i < length (p # ps)"
      then show "ps' ! i = k_p (k ((p # ps) ! i) (bit raw (n + i)) (bit w (n + i))) \<and>
        bit w' (n + i) = k_b (k ((p # ps) ! i) (bit raw (n + i)) (bit w (n + i)))"
        using ih ps' r n by (cases i) auto
    qed
    show "\<forall>m. m < n \<or> n + length (p # ps) \<le> m \<longrightarrow> bit w' m = bit w m"
      using ih len by (auto simp: bit_put_bit)
  qed (use ih r n in \<open>simp_all add: ex_less_Suc_shift disj_assoc\<close>)
qed simp

lemma key_scan_flags:
  fixes w :: "'r::len word"
  shows "scan (key_body k raw) n ps (w, cn, mn, ch) =
    (case scan (key_body k raw) n ps (w, False, False, False) of
       (p', w', c, m, h) \<Rightarrow> (p', w', cn \<or> c, mn \<or> m, ch \<or> h))"
proof (induction ps arbitrary: n w cn mn ch)
  case (Cons p ps)
  obtain p1 b1 c1 m1 where r: "k p (bit raw n) (bit w n) = (p1, b1, c1, m1)" by (metis prod.exhaust)
  have b: "key_body k raw n p (w, cn, mn, ch) = (p1, put_bit n b1 w, cn \<or> c1, mn \<or> m1, ch \<or> b1 \<noteq> bit w n)" for cn mn ch
    by (simp add: key_body_def r)
  show ?case
    by (simp only: scan.simps b prod.case)
      (subst (1 2) Cons.IH, auto split: prod.splits)
qed simp

subsection \<open>The three automata\<close>

definition key_defer_update :: "u8 \<Rightarrow> u8 key_fun" where
  "key_defer_update e p r c =
     (if p \<noteq> 0 then if p \<le> e then (0, r, False, False) else (p - e, c, True, False)
      else (p, c, False, False))"

definition key_defer_start :: "nat \<Rightarrow> u8 key_fun" where
  "key_defer_start D p r c =
     (if r \<noteq> c then if p = 0 then (of_nat D, c, True, False) else (p, c, False, False)
      else (0, c, False, False))"

definition key_eager_update :: "u8 \<Rightarrow> u8 key_fun" where
  "key_eager_update e p r c =
     (if p \<noteq> 0 then if p \<le> e then (0, c, False, True) else (p - e, c, True, False)
      else (p, c, False, False))"

definition key_eager_transfer :: "nat \<Rightarrow> u8 key_fun" where
  "key_eager_transfer D p r c =
     (if r \<noteq> c \<and> p = 0 then (of_nat D, \<not> c, True, False) else (p, c, False, False))"

definition key_asym_update :: "u8 \<Rightarrow> asym_counter key_fun" where
  "key_asym_update e p r c =
     (if time p \<noteq> 0 then
        if unat (time p) \<le> unat e then
          if pressed p then (p\<lparr>time := 0\<rparr>, c, False, True) else (p\<lparr>time := 0\<rparr>, r, False, False)
        else (p\<lparr>time := time p - ucast e\<rparr>, c, True, False)
      else (p, c, False, False))"

definition key_asym_transfer :: "nat \<Rightarrow> asym_counter key_fun" where
  "key_asym_transfer D p r c =
     (if r \<noteq> c then
        if time p = 0 then (p\<lparr>pressed := r, time := of_nat D\<rparr>, if r then \<not> c else c, True, False)
        else (p, c, False, False)
      else if time p \<noteq> 0 \<and> \<not> pressed p then (p\<lparr>time := 0\<rparr>, c, False, False)
      else (p, c, False, False))"

lemma merge_put_bit:
  fixes cooked raw :: "'r::len word"
  assumes "i < LENGTH('r)"
  shows "(cooked AND NOT (push_bit i 1)) OR (raw AND push_bit i 1) = put_bit i (bit raw i) cooked"
  unfolding bv_def [symmetric]
  by (rule bit_eqI) (use assms in \<open>auto simp: bit_put_bit bit_or_iff bit_and_iff bit_not_iff\<close>)

lemma flip_put_bit:
  fixes cooked :: "'r::len word"
  assumes "i < LENGTH('r)"
  shows "cooked XOR push_bit i 1 = put_bit i (\<not> bit cooked i) cooked"
  unfolding bv_def [symmetric]
  by (rule bit_eqI) (use assms in \<open>auto simp: bit_put_bit bit_xor_iff\<close>)

lemma and_push_bit_nonzero: "(w AND push_bit n 1 :: 'a::len word) \<noteq> 0 \<longleftrightarrow> bit w n"
  unfolding bv_def [symmetric] by (rule and_bv_nonzero)

lemma and_push_bit_zero: "(w AND push_bit n 1 :: 'a::len word) = 0 \<longleftrightarrow> \<not> bit w n"
  using and_push_bit_nonzero by blast

lemma put_bit_same: "n < LENGTH('r) \<Longrightarrow> put_bit n (bit w n) w = (w :: 'r::len word)"
  by (simp add: put_bit_eq_iff)

lemma put_bit_eq_iff_sym: "n < LENGTH('r) \<Longrightarrow> w = put_bit n b w \<longleftrightarrow> b = bit w n" for w :: "'r::len word"
  using put_bit_eq_iff [of n b w] by metis

lemmas key_word_simps = put_bit_eq_iff_sym merge_put_bit flip_put_bit and_push_bit_zero put_bit_same put_bit_eq_iff
  xor_zero_iff_eq bit_xor_iff

lemma defer_pk_update_keys:
  fixes raw :: "'r::len word"
  assumes "length ps \<le> LENGTH('r)"
  shows "defer_pk_update e raw ps s = scan (key_body (key_defer_update e) raw) 0 ps s"
  unfolding defer_pk_update_def
  by (rule scan_cong [where I = "\<lambda>_ _. True"])
    (use assms in \<open>auto simp: key_body_def key_defer_update_def Let_def key_word_simps
      simp del: push_bit_of_1 split: prod.splits\<close>)

lemma eager_pk_update_keys:
  fixes raw :: "'r::len word"
  assumes "length ps \<le> LENGTH('r)"
  shows "eager_pk_update e raw ps s = scan (key_body (key_eager_update e) raw) 0 ps s"
  unfolding eager_pk_update_def
  by (rule scan_cong [where I = "\<lambda>_ _. True"])
    (use assms in \<open>auto simp: key_body_def key_eager_update_def Let_def key_word_simps
      simp del: push_bit_of_1 split: prod.splits\<close>)

lemma asym_update_keys:
  fixes raw :: "'r::len word"
  assumes "length ps \<le> LENGTH('r)"
  shows "asym_update e raw ps s = scan (key_body (key_asym_update e) raw) 0 ps s"
  unfolding asym_update_def
  by (rule scan_cong [where I = "\<lambda>_ _. True"])
    (use assms in \<open>auto simp: key_body_def key_asym_update_def Let_def key_word_simps
      simp del: push_bit_of_1 split: prod.splits\<close>)

text \<open>The other loops compare with the row as it was before the loop.\<close>

definition rest_of_row :: "'r::len word \<Rightarrow> nat \<Rightarrow> ('r word) row_state \<Rightarrow> bool" where
  "rest_of_row w i s \<longleftrightarrow> (\<forall>m \<ge> i. bit (fst s) m = bit w m)"

lemma rest_of_row_key_body:
  fixes w :: "'r::len word"
  assumes "rest_of_row w i s" "i < LENGTH('r)"
  shows "rest_of_row w (Suc i) (snd (key_body k raw i p s))"
  using assms by (auto simp: rest_of_row_def key_body_def bit_put_bit split: prod.splits)

lemma defer_pk_start_keys:
  fixes raw :: "'r::len word"
  assumes "length ps \<le> LENGTH('r)"
  shows "defer_pk_start D raw ps s = scan (key_body (key_defer_start D) raw) 0 ps s"
  unfolding defer_pk_start_def Let_def
proof (rule scan_cong [where I = "rest_of_row (fst s)"], goal_cases)
  case (1 i p s')
  then have ib: "i < LENGTH('r)" "bit (fst s') i = bit (fst s) i" using assms by (auto simp: rest_of_row_def)
  then have "rest_of_row (fst s) (Suc i) (snd (key_body k raw i p s'))" for k
    using 1(3) by (intro rest_of_row_key_body)
  then show ?case
  proof (rule conjI [rotated], goal_cases)
    case 1
    show ?case using ib
    by (auto simp: key_body_def key_defer_start_def Let_def key_word_simps
      simp del: push_bit_of_1 split: prod.splits)
  qed
qed (simp add: rest_of_row_def)

lemma eager_pk_transfer_keys:
  fixes raw :: "'r::len word"
  assumes "length ps \<le> LENGTH('r)"
  shows "eager_pk_transfer D raw ps s = scan (key_body (key_eager_transfer D) raw) 0 ps s"
  unfolding eager_pk_transfer_def Let_def
proof (rule scan_cong [where I = "rest_of_row (fst s)"], goal_cases)
  case (1 i p s')
  then have ib: "i < LENGTH('r)" "bit (fst s') i = bit (fst s) i" using assms by (auto simp: rest_of_row_def)
  then have "rest_of_row (fst s) (Suc i) (snd (key_body k raw i p s'))" for k
    using 1(3) by (intro rest_of_row_key_body)
  then show ?case
  proof (rule conjI [rotated], goal_cases)
    case 1
    show ?case using ib
    by (auto simp: key_body_def key_eager_transfer_def Let_def key_word_simps
      simp del: push_bit_of_1 split: prod.splits)
  qed
qed (simp add: rest_of_row_def)

lemma asym_transfer_keys:
  fixes raw :: "'r::len word"
  assumes "length ps \<le> LENGTH('r)"
  shows "asym_transfer D raw ps s = scan (key_body (key_asym_transfer D) raw) 0 ps s"
  unfolding asym_transfer_def Let_def
proof (rule scan_cong [where I = "rest_of_row (fst s)"], goal_cases)
  case (1 i p s')
  then have ib: "i < LENGTH('r)" "bit (fst s') i = bit (fst s) i" using assms by (auto simp: rest_of_row_def)
  then have "rest_of_row (fst s) (Suc i) (snd (key_body k raw i p s'))" for k
    using 1(3) by (intro rest_of_row_key_body)
  then show ?case
  proof (rule conjI [rotated], goal_cases)
    case 1
    show ?case using ib
    by (auto simp: key_body_def key_asym_transfer_def Let_def key_word_simps
      simp del: push_bit_of_1 split: prod.splits)
  qed
qed (simp add: rest_of_row_def)

section \<open>The contract of the algorithms\<close>

text \<open>
  What \<^verbatim>\<open>matrix.c\<close> relies on when it calls \<^verbatim>\<open>debounce()\<close>: \<open>wf n s\<close> says that the state is sized for
  \<open>n\<close> rows.
\<close>

locale debouncer =
  fixes step :: "'t \<Rightarrow> 'r::len word list \<Rightarrow> bool \<Rightarrow> 'r word list \<Rightarrow> 's \<Rightarrow> bool \<times> 'r word list \<times> 's"
    and wf :: "nat \<Rightarrow> 's \<Rightarrow> bool"
  assumes step_wf: "wf n s \<Longrightarrow> length raw = n \<Longrightarrow> length cooked = n \<Longrightarrow>
      step now raw changed cooked s = (ch, cooked', s') \<Longrightarrow> wf n s' \<and> length cooked' = n"
    and step_changed: "wf n s \<Longrightarrow> length raw = n \<Longrightarrow> length cooked = n \<Longrightarrow>
      step now raw changed cooked s = (ch, cooked', s') \<Longrightarrow> ch \<longleftrightarrow> cooked' \<noteq> cooked"
    and step_bits: "wf n s \<Longrightarrow> length raw = n \<Longrightarrow> length cooked = n \<Longrightarrow>
      step now raw changed cooked s = (ch, cooked', s') \<Longrightarrow> row < n \<Longrightarrow>
      bit (cooked' ! row) m = bit (cooked ! row) m \<or> bit (cooked' ! row) m = bit (raw ! row) m"

text \<open>A sequence of calls, each with the time, the raw matrix and the flag.\<close>

fun debounce_run ::
  "('t \<Rightarrow> 'm \<Rightarrow> bool \<Rightarrow> 'm \<Rightarrow> 's \<Rightarrow> bool \<times> 'm \<times> 's) \<Rightarrow> ('t \<times> 'm \<times> bool) list \<Rightarrow> 'm \<times> 's \<Rightarrow> 'm \<times> 's" where
  "debounce_run step [] x = x"
| "debounce_run step ((now, raw, changed) # calls) x =
     debounce_run step calls (snd (step now raw changed (fst x) (snd x)))"

context debouncer
begin

lemma run_constant_bit:
  "wf n s \<Longrightarrow> length cooked = n \<Longrightarrow> row < n \<Longrightarrow>
   \<forall>(now, raw, changed) \<in> set calls. length raw = n \<and> bit (raw ! row) m = bit (cooked ! row) m \<Longrightarrow>
   bit (fst (debounce_run step calls (cooked, s)) ! row) m = bit (cooked ! row) m"
proof (induction calls arbitrary: cooked s)
  case (Cons call calls)
  obtain now raw changed where c: "call = (now, raw, changed)" by (metis prod.exhaust)
  obtain ch cooked' s' where e: "step now raw changed cooked s = (ch, cooked', s')" by (metis prod.exhaust)
  have raw: "length raw = n" "bit (raw ! row) m = bit (cooked ! row) m"
    using Cons.prems(4) c by simp_all
  have "bit (cooked' ! row) m = bit (cooked ! row) m"
    using step_bits [OF Cons.prems(1) raw(1) Cons.prems(2) e Cons.prems(3)] raw by auto
  moreover have "wf n s'" "length cooked' = n"
    using step_wf [OF Cons.prems(1) raw(1) Cons.prems(2) e] by simp_all
  ultimately show ?case using Cons.IH [of s' cooked'] Cons.prems(3,4) c e by simp
qed simp

lemma settled:
  assumes "wf n s" "length raw = n"
  shows "\<exists>s'. step now raw changed raw s = (False, raw, s')"
proof -
  obtain ch cooked' s' where e: "step now raw changed raw s = (ch, cooked', s')" by (metis prod.exhaust)
  have "length cooked' = n" using step_wf [OF assms assms(2) e] by simp
  moreover have "cooked' ! i = raw ! i" if "i < n" for i
    by (rule bit_eqI) (use step_bits [OF assms assms(2) e that] in auto)
  ultimately have "cooked' = raw" using assms(2) by (simp add: nth_equalityI)
  then show ?thesis using e step_changed [OF assms assms(2) e] by simp
qed

end

subsection \<open>Row bodies\<close>

definition lawful_row ::
  "('p \<Rightarrow> bool) \<Rightarrow> ('r::len word \<Rightarrow> 'p \<Rightarrow> ('r word) row_state \<Rightarrow> 'p \<times> ('r word) row_state) \<Rightarrow> bool" where
  "lawful_row P R \<longleftrightarrow> (\<forall>raw p w. P p \<longrightarrow> adds_flags (R raw) p \<and>
     (case row_result (R raw) p w of (p', w', c, m, h) \<Rightarrow>
        P p' \<and> (h \<longleftrightarrow> w' \<noteq> w) \<and> (\<forall>m. bit w' m = bit w m \<or> bit w' m = bit raw m)))"

lemma lawful_rowD:
  assumes "lawful_row P R" "P p"
  shows "P (r_p (row_result (R raw) p w)) \<and>
    (r_ch (row_result (R raw) p w) \<longleftrightarrow> r_w (row_result (R raw) p w) \<noteq> w) \<and>
    (\<forall>m. bit (r_w (row_result (R raw) p w)) m = bit w m \<or> bit (r_w (row_result (R raw) p w)) m = bit raw m)"
proof -
  obtain p' w' c m h where x: "row_result (R raw) p w = (p', w', c, m, h)" by (metis prod.exhaust)
  have "case row_result (R raw) p w of (p', w', c, m, h) \<Rightarrow>
        P p' \<and> (h \<longleftrightarrow> w' \<noteq> w) \<and> (\<forall>m. bit w' m = bit w m \<or> bit w' m = bit raw m)"
    by (rule assms(1) [unfolded lawful_row_def, THEN spec, THEN spec, THEN spec, THEN mp, OF assms(2), THEN conjunct2])
  then show ?thesis unfolding x by simp
qed

lemma key_row_lawful:
  fixes R :: "'r::len word \<Rightarrow> 'p list \<Rightarrow> ('r word) row_state \<Rightarrow> 'p list \<times> ('r word) row_state"
  assumes R: "\<And>raw ps s. length ps \<le> LENGTH('r) \<Longrightarrow> R raw ps s = scan (key_body k raw) 0 ps s"
    and k: "\<And>p r c. k_b (k p r c) = r \<or> k_b (k p r c) = c"
  shows "lawful_row (\<lambda>ps. length ps \<le> LENGTH('r)) R"
  unfolding lawful_row_def
proof (intro allI impI conjI)
  fix raw :: "'r word" and ps :: "'p list" and w :: "'r word"
  assume le: "length ps \<le> LENGTH('r)"
  show "adds_flags (R raw) ps"
    unfolding adds_flags_def row_result_def R [OF le] by (intro allI) (rule key_scan_flags)
  obtain ps' w' c m h where s: "scan (key_body k raw) 0 ps (w, False, False, False) = (ps', w', c, m, h)"
    by (metis prod.exhaust)
  have le0: "0 + length ps \<le> LENGTH('r)" using le by simp
  note ks = key_scan [OF le0 s, simplified]
  have bits: "bit w' i = (if i < length ps then k_b (k (ps ! i) (bit raw i) (bit w i)) else bit w i)" for i
    using ks by auto
  have "h \<longleftrightarrow> w' \<noteq> w"
  proof
    assume h then show "w' \<noteq> w" using ks by auto
  next
    assume "w' \<noteq> w"
    then obtain i where "bit w' i \<noteq> bit w i" by (metis bit_eqI)
    then show h using ks bits by (metis (full_types))
  qed
  moreover have "bit w' i = bit w i \<or> bit w' i = bit raw i" for i
    using bits k by (cases "i < length ps") auto
  ultimately show "case row_result (R raw) ps w of (p', w', c, m, h) \<Rightarrow>
      length p' \<le> LENGTH('r) \<and> h = (w' \<noteq> w) \<and> (\<forall>m. bit w' m = bit w m \<or> bit w' m = bit raw m)"
    using ks le by (simp add: row_result_def R [OF le] s)
qed

text \<open>One of the two loops over the rows.\<close>

lemma lawful_rows:
  assumes R: "lawful_row P R" and ps: "\<forall>p \<in> set ps. P p" and len: "length ps = n" "length cooked = n"
    and s: "scan (row_body (\<lambda>row. R (raw ! row))) 0 ps (cooked, cn, mn, ch) = (ps', cooked', cn', mn', ch')"
  shows "length ps' = n \<and> (\<forall>p \<in> set ps'. P p) \<and> length cooked' = n \<and> (ch' \<longleftrightarrow> ch \<or> cooked' \<noteq> cooked) \<and>
    (\<forall>row < n. \<forall>m. bit (cooked' ! row) m = bit (cooked ! row) m \<or> bit (cooked' ! row) m = bit (raw ! row) m)"
proof -
  have Pi: "P (ps ! i)" if "i < n" for i using ps len that by simp
  have af: "adds_flags (R (raw ! (0 + i))) (ps ! i)" if "i < length ps" for i
    using R Pi that len by (simp add: lawful_row_def)
  have le: "0 + length ps \<le> length cooked" using len by simp
  note rs = rows_scan [OF af le s, simplified]
  define X where "X i = row_result (R (raw ! i)) (ps ! i) (cooked ! i)" for i
  have X: "ps' ! i = r_p (X i)" "cooked' ! i = r_w (X i)" if "i < n" for i
    using rs len that by (simp_all add: X_def)
  have chX: "ch' \<longleftrightarrow> ch \<or> (\<exists>i < n. r_ch (X i))"
    using rs len by (simp add: X_def)
  have lr: "P (r_p (X i))" "r_ch (X i) \<longleftrightarrow> r_w (X i) \<noteq> cooked ! i"
      "bit (r_w (X i)) m = bit (cooked ! i) m \<or> bit (r_w (X i)) m = bit (raw ! i) m"
    if "i < n" for i m
    using lawful_rowD [OF R Pi [OF that], of "raw ! i" "cooked ! i"] unfolding X_def by blast+
  have l': "length ps' = n" "length cooked' = n" using rs len by simp_all
  have "cooked' \<noteq> cooked \<longleftrightarrow> (\<exists>i < n. cooked' ! i \<noteq> cooked ! i)"
    using l' len by (auto simp: list_eq_iff_nth_eq)
  also have "\<dots> \<longleftrightarrow> (\<exists>i < n. r_ch (X i))"
    using X(2) lr(2) by metis
  finally have "ch' \<longleftrightarrow> ch \<or> cooked' \<noteq> cooked" using chX by blast
  moreover have "\<forall>p \<in> set ps'. P p" using X(1) lr(1) l' by (auto simp: in_set_conv_nth)
  moreover have "\<forall>row < n. \<forall>m. bit (cooked' ! row) m = bit (cooked ! row) m \<or> bit (cooked' ! row) m = bit (raw ! row) m"
    using X(2) lr(3) by metis
  ultimately show ?thesis using l' by blast
qed

subsection \<open>A call\<close>

lemma lawful_call:
  fixes raw cooked :: "'r::len word list"
  assumes U: "\<And>e. lawful_row P (update e)" and T: "lawful_row P transfer"
    and s: "length (counters s) = n" "\<forall>p \<in> set (counters s). P p"
    and len: "length raw = n" "length cooked = n"
    and c: "debounce_call update transfer now raw changed cooked s = (ch, cooked', s')"
  shows "length (counters s') = n \<and> (\<forall>p \<in> set (counters s'). P p) \<and> length cooked' = n \<and>
    (ch \<longleftrightarrow> cooked' \<noteq> cooked) \<and>
    (\<forall>row < n. \<forall>m. bit (cooked' ! row) m = bit (cooked ! row) m \<or> bit (cooked' ! row) m = bit (raw ! row) m)"
proof -
  let ?e = "clamp_elapsed (timer_diff now (last_time s))" and ?need = "counters_need_update s"
  define s0 where "s0 = (if ?need then s\<lparr>last_time := now\<rparr> else s)"
  obtain ch1 cooked1 s1 where one:
    "(if ?need \<and> ?e > 0 then
        (case scan (row_body (\<lambda>row. update ?e (raw ! row))) 0 (counters s0) (cooked, False, False, False) of
           (ps, cooked, cn, mn, ch) \<Rightarrow>
             (ch, cooked, s0\<lparr>counters := ps, counters_need_update := cn, matrix_need_update := mn\<rparr>))
      else (False, cooked, s0)) = (ch1, cooked1, s1)" by (metis prod.exhaust)
  have s0: "length (counters s0) = n" "\<forall>p \<in> set (counters s0). P p"
    using s by (simp_all add: s0_def)
  have r1: "length (counters s1) = n \<and> (\<forall>p \<in> set (counters s1). P p) \<and> length cooked1 = n \<and>
      (ch1 \<longleftrightarrow> cooked1 \<noteq> cooked) \<and>
      (\<forall>row < n. \<forall>m. bit (cooked1 ! row) m = bit (cooked ! row) m \<or> bit (cooked1 ! row) m = bit (raw ! row) m)"
  proof (cases "?need \<and> ?e > 0")
    case True
    obtain ps ck cn mn h where sc:
      "scan (row_body (\<lambda>row. update ?e (raw ! row))) 0 (counters s0) (cooked, False, False, False) = (ps, ck, cn, mn, h)"
      by (metis prod.exhaust)
    show ?thesis using lawful_rows [OF U s0(2,1) len(2) sc] one True sc by auto
  next
    case False
    then show ?thesis using one s0 len by auto
  qed
  define s2 where "s2 = (if ?need then s1 else s1\<lparr>last_time := now\<rparr>)"
  have s2: "length (counters s2) = n" "\<forall>p \<in> set (counters s2). P p"
    using r1 by (simp_all add: s2_def)
  have c': "(if changed \<or> matrix_need_update s1 then
      (case scan (row_body (\<lambda>row. transfer (raw ! row))) 0 (counters s2)
          (cooked1, counters_need_update s2, False, ch1) of
        (ps, cooked, cn, mn, ch) \<Rightarrow>
          (ch, cooked, s2\<lparr>counters := ps, counters_need_update := cn, matrix_need_update := mn\<rparr>))
      else (ch1, cooked1, s1)) = (ch, cooked', s')"
    using c one unfolding debounce_call_def Let_def s0_def [symmetric] s2_def by simp
  show ?thesis
  proof (cases "changed \<or> matrix_need_update s1")
    case False
    then show ?thesis using c' r1 by auto
  next
    case True
    obtain ps ck cn mn h where sc:
      "scan (row_body (\<lambda>row. transfer (raw ! row))) 0 (counters s2)
          (cooked1, counters_need_update s2, False, ch1) = (ps, ck, cn, mn, h)"
      by (metis prod.exhaust)
    have l1: "length cooked1 = n" using r1 by simp
    note r2 = lawful_rows [OF T s2(2,1) l1 sc]
    have e: "ch = h" "cooked' = ck" "counters s' = ps" using c' True sc by auto
    have bits: "bit (cooked' ! row) m = bit (cooked ! row) m \<or> bit (cooked' ! row) m = bit (raw ! row) m"
      "bit (cooked1 ! row) m \<noteq> bit (cooked ! row) m \<Longrightarrow> bit (cooked' ! row) m \<noteq> bit (cooked ! row) m"
      if "row < n" for row m
      using r1 r2 e that by (metis (full_types))+
    have "cooked1 \<noteq> cooked \<Longrightarrow> cooked' \<noteq> cooked"
    proof -
      assume "cooked1 \<noteq> cooked"
      then obtain row where "row < n" "cooked1 ! row \<noteq> cooked ! row"
        using l1 len(2) by (metis nth_equalityI)
      then obtain m where "bit (cooked1 ! row) m \<noteq> bit (cooked ! row) m" by (metis bit_eqI)
      then show "cooked' \<noteq> cooked" using bits(2) \<open>row < n\<close> by metis
    qed
    then have "ch \<longleftrightarrow> cooked' \<noteq> cooked" using r1 r2 e by auto
    then show ?thesis using r2 e bits(1) by blast
  qed
qed

text \<open>The states sized for a matrix.\<close>

definition sized :: "('p \<Rightarrow> bool) \<Rightarrow> nat \<Rightarrow> ('p, 't) debounce_state \<Rightarrow> bool" where
  "sized P n s \<longleftrightarrow> length (counters s) = n \<and> (\<forall>p \<in> set (counters s). P p)"

lemma none_contract: "debouncer (\<lambda>_ raw changed cooked s. case debounce_none raw changed cooked of (ch, ck) \<Rightarrow> (ch, ck, s)) (\<lambda>_ _. True)"
  by unfold_locales (auto simp: debounce_none_def split: if_splits)

lemma call_contract:
  fixes update :: "u8 \<Rightarrow> 'r::len word \<Rightarrow> 'p \<Rightarrow> ('r word) row_state \<Rightarrow> 'p \<times> ('r word) row_state"
    and step :: "'t::len word \<Rightarrow> 'r word list \<Rightarrow> bool \<Rightarrow> 'r word list \<Rightarrow> ('p, 't word) debounce_state \<Rightarrow>
      bool \<times> 'r word list \<times> ('p, 't word) debounce_state"
  assumes U: "\<And>e. lawful_row P (update e)" and T: "lawful_row P transfer"
    and step: "\<And>now raw changed cooked s. step now raw changed cooked s =
      (if zero then (case debounce_none raw changed cooked of (ch, ck) \<Rightarrow> (ch, ck, s))
       else debounce_call update transfer now raw changed cooked s)"
  shows "debouncer step (sized P)"
proof (cases zero)
  case True
  show ?thesis
    by unfold_locales (auto simp: step True debounce_none_def split: if_splits)
next
  case False
  have l: "sized P n s' \<and> length cooked' = n \<and> (ch \<longleftrightarrow> cooked' \<noteq> cooked) \<and>
      (\<forall>row < n. \<forall>m. bit (cooked' ! row) m = bit (cooked ! row) m \<or> bit (cooked' ! row) m = bit (raw ! row) m)"
    if "sized P n s" "length raw = n" "length cooked = n" "step now raw changed cooked s = (ch, cooked', s')"
    for n s and raw cooked :: "'r word list" and now changed ch cooked' s'
  proof -
    have "debounce_call update transfer now raw changed cooked s = (ch, cooked', s')"
      using that(4) False by (simp add: step)
    from lawful_call [OF U T _ _ that(2,3) this] show ?thesis using that(1) by (simp add: sized_def)
  qed
  show ?thesis
    by unfold_locales (use l in blast)+
qed

lemma key_defer_bits: "k_b (key_defer_update e p r c) = r \<or> k_b (key_defer_update e p r c) = c"
    "k_b (key_defer_start D p r c) = r \<or> k_b (key_defer_start D p r c) = c"
  by (auto simp: key_defer_update_def key_defer_start_def)

lemma key_eager_bits: "k_b (key_eager_update e p r c) = r \<or> k_b (key_eager_update e p r c) = c"
    "k_b (key_eager_transfer D p r c) = r \<or> k_b (key_eager_transfer D p r c) = c"
  by (auto simp: key_eager_update_def key_eager_transfer_def)

lemma key_asym_bits: "k_b (key_asym_update e p r c) = r \<or> k_b (key_asym_update e p r c) = c"
    "k_b (key_asym_transfer D p r c) = r \<or> k_b (key_asym_transfer D p r c) = c"
  by (auto simp: key_asym_update_def key_asym_transfer_def)

text \<open>Every algorithm meets the contract, for any \<^verbatim>\<open>DEBOUNCE\<close> and up to as many columns as a row has bits.\<close>

lemma sym_defer_g_contract: "debouncer (debounce_sym_defer_g D) (\<lambda>_ _. True)"
  by unfold_locales
    (auto simp: debounce_sym_defer_g_def debounce_none_def Let_def split: if_splits)

lemma sym_defer_pk_contract:
  shows "debouncer (debounce_sym_defer_pk D :: 't::len word \<Rightarrow> 'r::len word list \<Rightarrow> _) (sized (\<lambda>ps. length ps \<le> LENGTH('r)))"
  by (rule call_contract [where zero = "debounce_clamp 255 D = 0", OF
      key_row_lawful [OF defer_pk_update_keys key_defer_bits(1)]
      key_row_lawful [OF defer_pk_start_keys key_defer_bits(2)]])
    (simp_all add: debounce_sym_defer_pk_def Let_def)

lemma sym_eager_pk_contract:
  shows "debouncer (debounce_sym_eager_pk D :: 't::len word \<Rightarrow> 'r::len word list \<Rightarrow> _) (sized (\<lambda>ps. length ps \<le> LENGTH('r)))"
  by (rule call_contract [where zero = "debounce_clamp 255 D = 0", OF
      key_row_lawful [OF eager_pk_update_keys key_eager_bits(1)]
      key_row_lawful [OF eager_pk_transfer_keys key_eager_bits(2)]])
    (simp_all add: debounce_sym_eager_pk_def Let_def)

lemma asym_contract:
  shows "debouncer (debounce_asym_eager_defer_pk D :: 't::len word \<Rightarrow> 'r::len word list \<Rightarrow> _) (sized (\<lambda>ps. length ps \<le> LENGTH('r)))"
  by (rule call_contract [where zero = "debounce_clamp 127 D = 0", OF
      key_row_lawful [OF asym_update_keys key_asym_bits(1)]
      key_row_lawful [OF asym_transfer_keys key_asym_bits(2)]])
    (simp_all add: debounce_asym_eager_defer_pk_def Let_def)

lemma sym_eager_pr_contract: "debouncer (debounce_sym_eager_pr D) (sized (\<lambda>_. True))"
proof (rule call_contract [where zero = "debounce_clamp 255 D = 0"])
  show "lawful_row (\<lambda>_. True) (eager_pr_update e)" for e
    by (auto simp: lawful_row_def adds_flags_def row_result_def eager_pr_update_def)
  show "lawful_row (\<lambda>_. True) (eager_pr_transfer (debounce_clamp 255 D))"
    by (auto simp: lawful_row_def adds_flags_def row_result_def eager_pr_transfer_def xor_zero_iff_eq)
qed (simp add: debounce_sym_eager_pr_def Let_def)

lemma defer_pr_scan:
  "n + length ps \<le> length cooked \<Longrightarrow> length lr = length cooked \<Longrightarrow>
   scan (defer_pr_row D e raw) n ps (lr, cooked, ch) = (cs, lr', cooked', ch') \<Longrightarrow>
   length cs = length ps \<and> length lr' = length cooked \<and> length cooked' = length cooked \<and>
   (\<forall>j < length cooked. cooked' ! j = cooked ! j \<or> n \<le> j \<and> cooked' ! j = raw ! j) \<and>
   (ch' \<longleftrightarrow> ch \<or> cooked' \<noteq> cooked)"
proof (induction ps arbitrary: n cooked lr ch cs)
  case (Cons p ps)
  obtain p1 lr1 cooked1 ch1 where b: "defer_pr_row D e raw n p (lr, cooked, ch) = (p1, lr1, cooked1, ch1)"
    by (metis prod.exhaust)
  obtain cs2 where s: "scan (defer_pr_row D e raw) (Suc n) ps (lr1, cooked1, ch1) = (cs2, lr', cooked', ch')"
    and cs: "cs = p1 # cs2"
    using Cons.prems(3) b by (auto split: prod.splits)
  have one: "length lr1 = length cooked" "length cooked1 = length cooked"
    "cooked1 = cooked \<or> cooked1 = cooked[n := raw ! n]" "ch1 \<longleftrightarrow> ch \<or> cooked1 \<noteq> cooked"
    using b Cons.prems(1,2)
    by (auto simp: defer_pr_row_def Let_def xor_zero_iff_eq list_update_same_conv split: if_splits)
  note ih = Cons.IH [OF _ _ s]
  have ih': "length cs2 = length ps" "length lr' = length cooked" "length cooked' = length cooked"
    "\<forall>j < length cooked. cooked' ! j = cooked1 ! j \<or> Suc n \<le> j \<and> cooked' ! j = raw ! j"
    "ch' \<longleftrightarrow> ch1 \<or> cooked' \<noteq> cooked1"
    using ih one Cons.prems(1,2) by simp_all
  have n_less: "n < length cooked" using Cons.prems(1) by simp
  have at_n: "cooked' ! n = cooked1 ! n" using ih'(4) n_less by (metis Suc_n_not_le_n)
  have "cooked' \<noteq> cooked" if "cooked1 \<noteq> cooked"
  proof
    assume "cooked' = cooked"
    then have "cooked ! n = cooked1 ! n" using at_n by simp
    moreover have u: "cooked1 = cooked[n := raw ! n]" using one(3) that by blast
    ultimately have "cooked ! n = raw ! n" using n_less by simp
    then have "cooked1 = cooked" unfolding u by (metis list_update_id)
    then show False using that by blast
  qed
  then have "cooked' \<noteq> cooked \<longleftrightarrow> cooked1 \<noteq> cooked \<or> cooked' \<noteq> cooked1"
    by blast
  moreover have "\<forall>j < length cooked. cooked' ! j = cooked ! j \<or> n \<le> j \<and> cooked' ! j = raw ! j"
  proof (intro allI impI)
    fix j assume j: "j < length cooked"
    from one(3) show "cooked' ! j = cooked ! j \<or> n \<le> j \<and> cooked' ! j = raw ! j"
    proof
      assume "cooked1 = cooked"
      then show ?thesis using ih'(4) j by auto
    next
      assume u: "cooked1 = cooked[n := raw ! n]"
      show ?thesis
      proof (cases "j = n")
        case True
        then show ?thesis using at_n u j by simp
      next
        case False
        then have "cooked1 ! j = cooked ! j" using u by simp
        then show ?thesis using ih'(4) j by auto
      qed
    qed
  qed
  ultimately show ?case using ih' one cs by auto
qed auto

definition defer_pr_sized :: "nat \<Rightarrow> 'w defer_pr \<Rightarrow> bool" where
  "defer_pr_sized n s \<longleftrightarrow> length (countdowns s) = n \<and> length (last_raw s) = n"

lemma sym_defer_pr_contract: "debouncer (debounce_sym_defer_pr D) defer_pr_sized"
proof -
  have l: "defer_pr_sized n s' \<and> length cooked' = n \<and> (ch \<longleftrightarrow> cooked' \<noteq> cooked) \<and>
      (\<forall>row < n. \<forall>m. bit (cooked' ! row) m = bit (cooked ! row) m \<or> bit (cooked' ! row) m = bit (raw ! row) m)"
    if "defer_pr_sized n s" "length raw = n" "length cooked = n"
      "debounce_sym_defer_pr D now raw changed cooked s = (ch, cooked', s')"
    for n s and raw cooked :: "'a word list" and now changed ch cooked' s'
  proof -
    let ?e = "clamp_elapsed (timer_diff now (pr_last_time s))"
    obtain cs lr' ck h where sc: "scan (defer_pr_row D ?e raw) 0 (countdowns s) (last_raw s, cooked, False) = (cs, lr', ck, h)"
      by (metis prod.exhaust)
    have le: "0 + length (countdowns s) \<le> length cooked" "length (last_raw s) = length cooked"
      using that by (simp_all add: defer_pr_sized_def)
    show ?thesis
      using defer_pr_scan [OF le sc] that sc by (auto simp: debounce_sym_defer_pr_def defer_pr_sized_def)
  qed
  show ?thesis by unfold_locales (use l in blast)+
qed

interpretation sym_defer_g: debouncer "debounce_sym_defer_g D" "\<lambda>_ _. True"
  by (rule sym_defer_g_contract)

interpretation sym_defer_pk: debouncer "debounce_sym_defer_pk D :: _ \<Rightarrow> 'r::len word list \<Rightarrow> _"
    "sized (\<lambda>ps. length ps \<le> LENGTH('r))"
  for D by (rule sym_defer_pk_contract)

interpretation sym_eager_pk: debouncer "debounce_sym_eager_pk D :: _ \<Rightarrow> 'r::len word list \<Rightarrow> _"
    "sized (\<lambda>ps. length ps \<le> LENGTH('r))"
  for D by (rule sym_eager_pk_contract)

interpretation asym_eager_defer_pk: debouncer "debounce_asym_eager_defer_pk D :: _ \<Rightarrow> 'r::len word list \<Rightarrow> _"
    "sized (\<lambda>ps. length ps \<le> LENGTH('r))"
  for D by (rule asym_contract)

interpretation sym_eager_pr: debouncer "debounce_sym_eager_pr D" "sized (\<lambda>_. True)"
  by (rule sym_eager_pr_contract)

interpretation sym_defer_pr: debouncer "debounce_sym_defer_pr D" defer_pr_sized
  by (rule sym_defer_pr_contract)

section \<open>One key through a call\<close>

text \<open>
  What a call of a per-key algorithm does to the key in row \<open>r\<close>, column \<open>k\<close>: first the automaton
  \<open>kU\<close> when counters are running and time has passed, then \<open>kT\<close> when the second loop runs.
\<close>

definition key_phase1 :: "(u8 \<Rightarrow> 'p key_fun) \<Rightarrow> bool \<Rightarrow> u8 \<Rightarrow> 'p key_fun" where
  "key_phase1 kU need e p x b = (if need \<and> e > 0 then kU e p x b else (p, b, need, False))"

lemma key_rows:
  fixes raw cooked :: "'r::len word list"
  assumes R: "\<And>w ps s. length ps \<le> LENGTH('r) \<Longrightarrow> R w ps s = scan (key_body k w) 0 ps s"
    and kb: "\<And>p r c. k_b (k p r c) = r \<or> k_b (k p r c) = c"
    and ps: "\<forall>p \<in> set ps. length p \<le> LENGTH('r)" "length ps = length cooked"
    and s: "scan (row_body (\<lambda>row. R (raw ! row))) 0 ps (cooked, cn, mn, ch) = (ps', cooked', cn', mn', ch')"
    and at: "r < length cooked" "i < length (ps ! r)"
  shows "ps' ! r ! i = k_p (k (ps ! r ! i) (bit (raw ! r) i) (bit (cooked ! r) i)) \<and>
    bit (cooked' ! r) i = k_b (k (ps ! r ! i) (bit (raw ! r) i) (bit (cooked ! r) i)) \<and>
    length (ps' ! r) = length (ps ! r) \<and>
    (cn \<or> k_cn (k (ps ! r ! i) (bit (raw ! r) i) (bit (cooked ! r) i)) \<longrightarrow> cn')"
proof -
  have law: "lawful_row (\<lambda>ps. length ps \<le> LENGTH('r)) R" by (rule key_row_lawful [OF R kb])
  have Pi: "length (ps ! j) \<le> LENGTH('r)" if "j < length ps" for j using ps that by simp
  have af: "adds_flags (R (raw ! (0 + j))) (ps ! j)" if "j < length ps" for j
    using law Pi [OF that] by (simp add: lawful_row_def)
  have le: "0 + length ps \<le> length cooked" using ps by simp
  note rs = rows_scan [OF af le s, simplified]
  obtain q w c m h where q: "row_result (R (raw ! r)) (ps ! r) (cooked ! r) = (q, w, c, m, h)"
    by (metis prod.exhaust)
  have rl: "r < length ps" using at ps by simp
  have sc: "scan (key_body k (raw ! r)) 0 (ps ! r) (cooked ! r, False, False, False) = (q, w, c, m, h)"
    using q R [OF Pi [OF rl]] by (simp add: row_result_def)
  have le2: "0 + length (ps ! r) \<le> LENGTH('r)" using Pi [OF rl] by simp
  note ks = key_scan [OF le2 sc, simplified]
  have "ps' ! r = q" "cooked' ! r = w" "cn \<or> c \<longrightarrow> cn'"
    using rs q rl by auto
  then show ?thesis using ks at(2) by auto
qed

lemma call_key:
  fixes raw cooked :: "'r::len word list" and s :: "('p list, 't::len word) debounce_state"
  assumes U: "\<And>e w ps s. length ps \<le> LENGTH('r) \<Longrightarrow> update e w ps s = scan (key_body (kU e) w) 0 ps s"
    and T: "\<And>w ps s. length ps \<le> LENGTH('r) \<Longrightarrow> transfer w ps s = scan (key_body kT w) 0 ps s"
    and kU: "\<And>e p r c. k_b (kU e p r c) = r \<or> k_b (kU e p r c) = c"
    and kT: "\<And>p r c. k_b (kT p r c) = r \<or> k_b (kT p r c) = c"
    and s: "sized (\<lambda>ps. length ps \<le> LENGTH('r)) (length cooked) s" "length raw = length cooked"
    and c: "debounce_call update transfer now raw changed cooked s = (ch, cooked', s')"
    and at: "r < length cooked" "i < length (counters s ! r)"
    and one: "key_phase1 kU (counters_need_update s) (clamp_elapsed (timer_diff now (last_time s)))
      (counters s ! r ! i) (bit (raw ! r) i) (bit (cooked ! r) i) = (p1, b1, c1, m1)"
  shows "\<exists>tr cn1. (changed \<longrightarrow> tr) \<and> (c1 \<longrightarrow> cn1) \<and> length (counters s' ! r) = length (counters s ! r) \<and>
    last_time s' = (if counters_need_update s \<or> tr then now else last_time s) \<and>
    (if tr then counters s' ! r ! i = k_p (kT p1 (bit (raw ! r) i) b1) \<and>
        bit (cooked' ! r) i = k_b (kT p1 (bit (raw ! r) i) b1) \<and>
        (cn1 \<or> k_cn (kT p1 (bit (raw ! r) i) b1) \<longrightarrow> counters_need_update s')
     else counters s' ! r ! i = p1 \<and> bit (cooked' ! r) i = b1 \<and> counters_need_update s' = cn1)"
proof -
  let ?e = "clamp_elapsed (timer_diff now (last_time s))" and ?need = "counters_need_update s"
  define s0 where "s0 = (if ?need then s\<lparr>last_time := now\<rparr> else s)"
  obtain ch1 cooked1 s1 where one1:
    "(if ?need \<and> ?e > 0 then
        (case scan (row_body (\<lambda>row. update ?e (raw ! row))) 0 (counters s0) (cooked, False, False, False) of
           (ps, cooked, cn, mn, ch) \<Rightarrow>
             (ch, cooked, s0\<lparr>counters := ps, counters_need_update := cn, matrix_need_update := mn\<rparr>))
      else (False, cooked, s0)) = (ch1, cooked1, s1)" by (metis prod.exhaust)
  have s0: "length (counters s0) = length cooked" "\<forall>p \<in> set (counters s0). length p \<le> LENGTH('r)"
    "counters s0 = counters s" "counters_need_update s0 = ?need" "last_time s0 = (if ?need then now else last_time s)"
    using s by (simp_all add: s0_def sized_def)
  have lawU: "lawful_row (\<lambda>ps. length ps \<le> LENGTH('r)) (update e)" for e
    by (rule key_row_lawful [OF U kU])
  have r1: "counters s1 ! r ! i = p1 \<and> bit (cooked1 ! r) i = b1 \<and> (c1 \<longrightarrow> counters_need_update s1) \<and>
      length (counters s1 ! r) = length (counters s ! r) \<and> length (counters s1) = length cooked \<and>
      (\<forall>p \<in> set (counters s1). length p \<le> LENGTH('r)) \<and> length cooked1 = length cooked \<and>
      last_time s1 = (if ?need then now else last_time s)"
  proof (cases "?need \<and> ?e > 0")
    case True
    obtain ps ck cn mn h where sc:
      "scan (row_body (\<lambda>row. update ?e (raw ! row))) 0 (counters s0) (cooked, False, False, False) = (ps, ck, cn, mn, h)"
      by (metis prod.exhaust)
    have kr: "ps ! r ! i = p1 \<and> bit (ck ! r) i = b1 \<and> length (ps ! r) = length (counters s ! r) \<and> (c1 \<longrightarrow> cn)"
      using key_rows [OF U kU s0(2,1) sc at(1)] at(2) one True by (simp add: s0(3) key_phase1_def)
    have lr: "length ps = length cooked" "\<forall>p \<in> set ps. length p \<le> LENGTH('r)" "length ck = length cooked"
      using lawful_rows [OF lawU s0(2,1) refl sc] by simp_all
    show ?thesis using kr lr one1 True sc s0(5) by auto
  next
    case False
    then have "cooked1 = cooked" "s1 = s0" "p1 = counters s ! r ! i" "b1 = bit (cooked ! r) i" "c1 = ?need"
      using one1 one by (auto simp: key_phase1_def)
    then show ?thesis using s0 by simp
  qed
  define s2 where "s2 = (if ?need then s1 else s1\<lparr>last_time := now\<rparr>)"
  define tr where "tr = (changed \<or> matrix_need_update s1)"
  have c': "(if tr then
      (case scan (row_body (\<lambda>row. transfer (raw ! row))) 0 (counters s2)
          (cooked1, counters_need_update s2, False, ch1) of
        (ps, cooked, cn, mn, ch) \<Rightarrow>
          (ch, cooked, s2\<lparr>counters := ps, counters_need_update := cn, matrix_need_update := mn\<rparr>))
      else (ch1, cooked1, s1)) = (ch, cooked', s')"
    using c one1 unfolding debounce_call_def Let_def s0_def [symmetric] s2_def tr_def by simp
  show ?thesis
  proof (cases tr)
    case False
    then show ?thesis using c' r1 by (intro exI [of _ False] exI [of _ "counters_need_update s1"]) (auto simp: tr_def)
  next
    case True
    obtain ps ck cn mn h where sc:
      "scan (row_body (\<lambda>row. transfer (raw ! row))) 0 (counters s2)
          (cooked1, counters_need_update s2, False, ch1) = (ps, ck, cn, mn, h)"
      by (metis prod.exhaust)
    have s2: "\<forall>p \<in> set (counters s2). length p \<le> LENGTH('r)" "length (counters s2) = length cooked1"
      "r < length cooked1" "i < length (counters s2 ! r)" "counters s2 = counters s1"
      "counters_need_update s2 = counters_need_update s1" "last_time s2 = now"
      using r1 at by (auto simp: s2_def)
    have kr: "ps ! r ! i = k_p (kT p1 (bit (raw ! r) i) b1) \<and> bit (ck ! r) i = k_b (kT p1 (bit (raw ! r) i) b1) \<and>
        length (ps ! r) = length (counters s ! r) \<and>
        (counters_need_update s1 \<or> k_cn (kT p1 (bit (raw ! r) i) b1) \<longrightarrow> cn)"
      using key_rows [OF T kT s2(1,2) sc s2(3,4)] r1 by (simp add: s2(5,6))
    have "counters s' = ps" "cooked' = ck" "counters_need_update s' = cn" "last_time s' = now"
      using c' True sc s2 by auto
    then show ?thesis using kr r1 True
      by (intro exI [of _ True] exI [of _ "counters_need_update s1"]) auto
  qed
qed

end
