(* ===== verification/DebounceTiming.thy ===== *)
theory DebounceTiming
  imports DebounceProps
begin

text \<open>
  Timing of the per-key debounce algorithms over a whole run: scan \<open>k\<close> of the matrix happens at
  time \<open>T k\<close> (in milliseconds, unbounded; the algorithms see it modulo the width of the timer),
  reads \<open>raw k\<close> and reports \<open>chg k\<close> when it differs from the scan before.
\<close>

section \<open>Runs\<close>

primrec deb_state ::
  "('t::len word \<Rightarrow> 'm \<Rightarrow> bool \<Rightarrow> 'm \<Rightarrow> 's \<Rightarrow> bool \<times> 'm \<times> 's) \<Rightarrow>
   (nat \<Rightarrow> nat) \<Rightarrow> (nat \<Rightarrow> 'm) \<Rightarrow> (nat \<Rightarrow> bool) \<Rightarrow> 'm \<times> 's \<Rightarrow> nat \<Rightarrow> 'm \<times> 's" where
  "deb_state step T raw chg x 0 = x"
| "deb_state step T raw chg x (Suc k) =
     (case deb_state step T raw chg x k of (cooked, s) \<Rightarrow>
        snd (step (of_nat (T k)) (raw k) (chg k) cooked s))"

text \<open>Whether key \<open>(r, i)\<close> changes in the cooked matrix at scan \<open>k\<close>.\<close>

definition flips ::
  "(nat \<Rightarrow> 'r::len word list \<times> 's) \<Rightarrow> nat \<Rightarrow> nat \<Rightarrow> nat \<Rightarrow> bool" where
  "flips st r i k \<longleftrightarrow> bit (fst (st (Suc k)) ! r) i \<noteq> bit (fst (st k) ! r) i"

text \<open>What the matrix scan guarantees.\<close>

definition scans_ok :: "nat \<Rightarrow> (nat \<Rightarrow> nat) \<Rightarrow> (nat \<Rightarrow> 'r::len word list) \<Rightarrow> (nat \<Rightarrow> bool) \<Rightarrow> bool" where
  "scans_ok n T raw chg \<longleftrightarrow> (\<forall>k. T k \<le> T (Suc k) \<and> length (raw k) = n \<and> (raw (Suc k) \<noteq> raw k \<longrightarrow> chg (Suc k)))"

lemma elapsed_le:
  assumes "L \<le> t"
  shows "unat (clamp_elapsed (timer_diff (of_nat t) (of_nat L :: 't::len word))) \<le> t - L"
proof -
  have d: "timer_diff (of_nat t) (of_nat L :: 't word) = of_nat (t - L)"
    using assms by (simp add: timer_diff_def of_nat_diff)
  have le: "unat (of_nat (t - L) :: 't word) \<le> t - L"
    by (simp add: unat_of_nat take_bit_nat_eq_self_iff)
  define w where "w = (of_nat (t - L) :: 't word)"
  have u: "unat (ucast w :: u8) \<le> unat w"
    by (simp add: unsigned_ucast_eq take_bit_nat_def)
  show ?thesis
    using le u unfolding d w_def [symmetric] clamp_elapsed_def by (cases "unat w > 255") simp_all
qed

section \<open>Deferred: a change needs a stable key\<close>

text \<open>
  The counter of the key runs since some scan \<open>j\<close>, in all scans since then the raw key differed
  from the cooked one, and what is left of the counter covers the rest of the debounce time.
\<close>

definition deferring ::
  "nat \<Rightarrow> (nat \<Rightarrow> nat) \<Rightarrow> (nat \<Rightarrow> bool) \<Rightarrow> nat \<Rightarrow> u8 \<Rightarrow> bool \<Rightarrow> bool \<Rightarrow> 't::len word \<Rightarrow> bool" where
  "deferring D T x k p b cn lst \<longleftrightarrow> (p \<noteq> 0 \<longrightarrow> cn \<and> (\<exists>j L. j < k \<and> lst = of_nat L \<and> T j \<le> L \<and>
     L \<le> T (k - 1) \<and> D \<le> (L - T j) + unat p \<and> (\<forall>l. j \<le> l \<and> l < k \<longrightarrow> x l \<noteq> b)))"

lemma unat_minus_le: "\<not> p \<le> (e :: u8) \<Longrightarrow> unat (p - e) = unat p - unat e \<and> p - e \<noteq> 0"
  by (simp add: unat_sub word_le_nat_alt not_le less_imp_le) (metis less_irrefl)

lemma mono_times: "\<forall>k. T k \<le> T (Suc k) \<Longrightarrow> i \<le> j \<Longrightarrow> T i \<le> (T j :: nat)"
  by (rule lift_Suc_mono_le) simp_all

lemma defer_key_step:
  assumes D: "0 < D" "D \<le> 255" and T: "\<forall>k. T k \<le> T (Suc k)"
    and inv: "deferring D T x k p b cn lst"
    and one: "key_phase1 key_defer_update cn (clamp_elapsed (timer_diff (of_nat (T k)) (lst :: 't::len word))) p (x k) b = (p1, b1, c1, m1)"
    and chg: "0 < k \<and> x k \<noteq> x (k - 1) \<longrightarrow> tr"
    and lst1: "lst1 = (if cn \<or> tr then of_nat (T k) else lst)"
    and res: "if tr then p' = k_p (key_defer_start D p1 (x k) b1) \<and> b' = k_b (key_defer_start D p1 (x k) b1) \<and>
        (cn1 \<or> k_cn (key_defer_start D p1 (x k) b1) \<longrightarrow> cn') else p' = p1 \<and> b' = b1 \<and> cn' = cn1"
    and cn1: "c1 \<longrightarrow> cn1"
  shows "deferring D T x (Suc k) p' b' cn' lst1"
    and "b' \<noteq> b \<Longrightarrow> \<exists>j \<le> k. T j + D \<le> T k \<and> (\<forall>l. j \<le> l \<and> l \<le> k \<longrightarrow> x l = b')"
proof -
  let ?e = "clamp_elapsed (timer_diff (of_nat (T k)) lst)"
  have D8: "unat (of_nat D :: u8) = D" using D by (simp add: unat_of_nat take_bit_nat_def)
  have D0: "(of_nat D :: u8) \<noteq> 0" using D8 D(1) by auto
  have both: "deferring D T x (Suc k) p' b' cn' lst1 \<and>
    (b' \<noteq> b \<longrightarrow> (\<exists>j \<le> k. T j + D \<le> T k \<and> (\<forall>l. j \<le> l \<and> l \<le> k \<longrightarrow> x l = b')))"
  proof (cases "p = 0")
    case True
    then have p1: "p1 = 0" "b1 = b" using one by (auto simp: key_phase1_def key_defer_update_def split: if_splits)
    show ?thesis
    proof (cases "tr \<and> x k \<noteq> b")
      case True
      then have "p' = of_nat D" "b' = b" "cn'" "lst1 = of_nat (T k)"
        using res p1 lst1 by (simp_all add: key_defer_start_def)
      moreover have "\<exists>j L. j < Suc k \<and> of_nat (T k) = (of_nat L :: 't word) \<and> T j \<le> L \<and> L \<le> T (Suc k - 1) \<and>
          D \<le> (L - T j) + unat (of_nat D :: u8) \<and> (\<forall>l. j \<le> l \<and> l < Suc k \<longrightarrow> x l \<noteq> b)"
        by (rule exI [of _ k], rule exI [of _ "T k"]) (use True D8 in \<open>auto simp: less_Suc_eq\<close>)
      ultimately show ?thesis by (simp add: deferring_def)
    next
      case False
      then have "p' = 0" "b' = b" using res p1 by (auto simp: key_defer_start_def split: if_splits)
      then show ?thesis by (simp add: deferring_def)
    qed
  next
    case False
    then obtain j L where j: "cn" "j < k" "lst = of_nat L" "T j \<le> L" "L \<le> T (k - 1)"
      "D \<le> (L - T j) + unat p" "\<forall>l. j \<le> l \<and> l < k \<longrightarrow> x l \<noteq> b"
      using inv by (auto simp: deferring_def)
    have LT: "L \<le> T k" using j(5) mono_times [OF T, of "k - 1" k] by simp
    have e: "unat ?e \<le> T k - L" unfolding j(3) by (rule elapsed_le [OF LT])
    have l': "lst1 = of_nat (T k)" using lst1 j(1) by simp
    show ?thesis
    proof (cases "p \<le> ?e")
      case True
      then have "?e > 0" using False by (metis word_gt_0 word_le_0_iff)
      then have p1: "p1 = 0" "b1 = x k"
        using one True False j(1) by (auto simp: key_phase1_def key_defer_update_def)
      then have r: "p' = 0" "b' = x k" using res by (auto simp: key_defer_start_def split: if_splits)
      have "unat p \<le> T k - L" using True e by (simp add: word_le_nat_alt)
      then have "T j + D \<le> T k" using j(4,6) LT by linarith
      moreover have "\<forall>l. j \<le> l \<and> l \<le> k \<longrightarrow> x l = b'" if "b' \<noteq> b"
        using j(7) r(2) that by (auto simp: le_less)
      ultimately show ?thesis using r j(2) by (auto simp: deferring_def intro!: exI [of _ j])
    next
      case nle: False
      have p1: "p1 \<noteq> 0" "b1 = b" "c1" "unat p \<le> unat p1 + (T k - L)"
        using one False nle j(1) e unat_minus_le [OF nle]
        by (auto simp: key_phase1_def key_defer_update_def split: if_splits)
      have pending: "deferring D T x (Suc k) p1 b cn' lst1" if "x k \<noteq> b" "cn'"
      proof -
        have t: "T j \<le> T k" "D \<le> T k - T j + unat p1" using j(4,6) p1(4) LT by linarith+
        have d: "\<forall>l. j \<le> l \<and> l < Suc k \<longrightarrow> x l \<noteq> b" using j(7) that(1) by (auto simp: less_Suc_eq)
        have "\<exists>j L. j < Suc k \<and> lst1 = of_nat L \<and> T j \<le> L \<and> L \<le> T (Suc k - 1) \<and>
            D \<le> (L - T j) + unat p1 \<and> (\<forall>l. j \<le> l \<and> l < Suc k \<longrightarrow> x l \<noteq> b)"
          by (rule exI [of _ j], rule exI [of _ "T k"]) (use t d j(2) l' in auto)
        then show ?thesis using that(2) by (simp add: deferring_def)
      qed
      show ?thesis
      proof (cases tr)
        case True
        then show ?thesis
          using res p1 pending cn1 by (auto simp: key_defer_start_def deferring_def split: if_splits)
      next
        case False
        then have "x k = x (k - 1)" using chg j(2) by auto
        then have "x k \<noteq> b" using j(2,7) by auto
        then show ?thesis using False res p1 pending cn1 by auto
      qed
    qed
  qed
  then show "deferring D T x (Suc k) p' b' cn' lst1"
    and "b' \<noteq> b \<Longrightarrow> \<exists>j \<le> k. T j + D \<le> T k \<and> (\<forall>l. j \<le> l \<and> l \<le> k \<longrightarrow> x l = b')"
    by blast+
qed

section \<open>Eager: changes are spaced\<close>

text \<open>
  Since every earlier change of the key, the debounce time has passed up to what is left of the
  counter.
\<close>

definition holding ::
  "nat \<Rightarrow> (nat \<Rightarrow> nat) \<Rightarrow> (nat \<Rightarrow> bool) \<Rightarrow> nat \<Rightarrow> u8 \<Rightarrow> bool \<Rightarrow> 't::len word \<Rightarrow> bool" where
  "holding D T fl k p cn lst \<longleftrightarrow>
     (if p \<noteq> 0 then cn \<and> (\<exists>L. lst = of_nat L \<and> L \<le> T (k - 1) \<and>
        (\<forall>f < k. fl f \<longrightarrow> T f \<le> L \<and> D \<le> (L - T f) + unat p))
      else \<forall>f < k. fl f \<longrightarrow> T f + D \<le> T (k - 1))"

lemma eager_key_step:
  assumes D: "0 < D" "D \<le> 255" and T: "\<forall>k. T k \<le> T (Suc k)"
    and inv: "holding D T fl k p cn lst"
    and one: "key_phase1 key_eager_update cn (clamp_elapsed (timer_diff (of_nat (T k)) (lst :: 't::len word))) p x b = (p1, b1, c1, m1)"
    and lst': "lst1 = (if cn \<or> tr then of_nat (T k) else lst)"
    and res: "if tr then p' = k_p (key_eager_transfer D p1 x b1) \<and> b' = k_b (key_eager_transfer D p1 x b1) \<and>
        (cn1 \<or> k_cn (key_eager_transfer D p1 x b1) \<longrightarrow> cn') else p' = p1 \<and> b' = b1 \<and> cn' = cn1"
    and cn1: "c1 \<longrightarrow> cn1" and fl: "fl k \<longleftrightarrow> b' \<noteq> b"
  shows "holding D T fl (Suc k) p' cn' lst1"
    and "fl k \<Longrightarrow> f < k \<Longrightarrow> fl f \<Longrightarrow> T f + D \<le> T k"
proof -
  let ?e = "clamp_elapsed (timer_diff (of_nat (T k)) lst)"
  have D8: "unat (of_nat D :: u8) = D" using D by (simp add: unat_of_nat take_bit_nat_def)
  have mono: "T (k - 1) \<le> T k" by (rule mono_times [OF T]) simp
  have free: "holding D T fl (Suc k) p' cn' lst1 \<and> (fl k \<longrightarrow> (\<forall>f < k. fl f \<longrightarrow> T f + D \<le> T k))"
    if p1: "p1 = 0" "b1 = b" and past: "\<forall>f < k. fl f \<longrightarrow> T f + D \<le> T k"
  proof (cases "tr \<and> x \<noteq> b")
    case True
    then have r: "p' = of_nat D" "cn'" "lst1 = of_nat (T k)"
      using res p1 lst' by (simp_all add: key_eager_transfer_def)
    have "\<forall>f < Suc k. fl f \<longrightarrow> T f \<le> T k \<and> D \<le> (T k - T f) + unat p'"
      using past by (auto simp: less_Suc_eq r(1) D8)
    then show ?thesis
      using r past D8 D(1) by (auto simp: holding_def intro!: exI [of _ "T k"])
  next
    case False
    then have r: "p' = 0" "b' = b" using res p1 by (auto simp: key_eager_transfer_def split: if_splits)
    then show ?thesis using past fl by (auto simp: holding_def less_Suc_eq)
  qed
  have both: "holding D T fl (Suc k) p' cn' lst1 \<and> (fl k \<longrightarrow> (\<forall>f < k. fl f \<longrightarrow> T f + D \<le> T k))"
  proof (cases "p = 0")
    case True
    then have "p1 = 0" "b1 = b" using one by (auto simp: key_phase1_def key_eager_update_def split: if_splits)
    moreover have "\<forall>f < k. fl f \<longrightarrow> T f + D \<le> T k"
      using inv True mono by (auto simp: holding_def)
    ultimately show ?thesis by (rule free)
  next
    case False
    then obtain L where L: "cn" "lst = of_nat L" "L \<le> T (k - 1)"
      "\<forall>f < k. fl f \<longrightarrow> T f \<le> L \<and> D \<le> (L - T f) + unat p"
      using inv by (auto simp: holding_def)
    have LT: "L \<le> T k" using L(3) mono by simp
    have e: "unat ?e \<le> T k - L" unfolding L(2) by (rule elapsed_le [OF LT])
    show ?thesis
    proof (cases "p \<le> ?e")
      case True
      then have "?e > 0" using False by (metis word_gt_0 word_le_0_iff)
      then have "p1 = 0" "b1 = b"
        using one True False L(1) by (auto simp: key_phase1_def key_eager_update_def)
      moreover have "unat p \<le> T k - L" using True e by (simp add: word_le_nat_alt)
      then have "\<forall>f < k. fl f \<longrightarrow> T f + D \<le> T k" using L(4) LT by fastforce
      ultimately show ?thesis by (rule free)
    next
      case nle: False
      have p1: "p1 \<noteq> 0" "b1 = b" "c1" "unat p \<le> unat p1 + (T k - L)"
        using one False nle L(1) e unat_minus_le [OF nle]
        by (auto simp: key_phase1_def key_eager_update_def split: if_splits)
      have r: "p' = p1" "b' = b" "cn'" "lst1 = of_nat (T k)"
        using res p1 cn1 lst' L(1) by (auto simp: key_eager_transfer_def split: if_splits)
      have "\<forall>f < Suc k. fl f \<longrightarrow> T f \<le> T k \<and> D \<le> (T k - T f) + unat p'"
        using L(4) LT p1(4) r fl by (fastforce simp: less_Suc_eq)
      then show ?thesis using r p1 fl by (auto simp: holding_def intro!: exI [of _ "T k"])
    qed
  qed
  then show "holding D T fl (Suc k) p' cn' lst1"
    and "fl k \<Longrightarrow> f < k \<Longrightarrow> fl f \<Longrightarrow> T f + D \<le> T k"
    by blast+
qed

section \<open>Whole runs\<close>

text \<open>The shape of the state of the two symmetric per-key algorithms through a run.\<close>

definition pk_shape :: "nat \<Rightarrow> nat \<Rightarrow> nat \<Rightarrow> 'r::len word list \<times> (u8 list, 't) debounce_state \<Rightarrow> bool" where
  "pk_shape n cols r x \<longleftrightarrow> length (fst x) = n \<and> sized (\<lambda>ps. length ps \<le> LENGTH('r)) n (snd x) \<and>
     length (counters (snd x) ! r) = cols"

lemma defer_run:
  fixes raw :: "nat \<Rightarrow> 'r::len word list" and D cols n r i :: nat and T :: "nat \<Rightarrow> nat"
    and chg :: "nat \<Rightarrow> bool" and cooked0 :: "'r word list"
  defines "st \<equiv> deb_state (debounce_sym_defer_pk D :: 't::len word \<Rightarrow> _) T raw chg (cooked0, debounce_pk_init n cols)"
  assumes ok: "scans_ok n T raw chg" and c0: "length cooked0 = n" and cols: "cols \<le> LENGTH('r)"
    and at: "r < n" "i < cols" and D: "0 < D"
  defines "J \<equiv> \<lambda>k :: nat. pk_shape n cols r (st k) \<and>
    deferring (debounce_clamp 255 D) T (\<lambda>l. bit (raw l ! r) i) k (counters (snd (st k)) ! r ! i)
      (bit (fst (st k) ! r) i) (counters_need_update (snd (st k))) (last_time (snd (st k)))"
  shows "J k" and "flips st r i k \<Longrightarrow> \<exists>j \<le> k. T j + debounce_clamp 255 D \<le> T k \<and>
    (\<forall>l. j \<le> l \<and> l \<le> k \<longrightarrow> bit (raw l ! r) i = bit (fst (st (Suc k)) ! r) i)"
proof -
  let ?D = "debounce_clamp 255 D" and ?x = "\<lambda>l. bit (raw l ! r) i"
  have D': "0 < ?D" "?D \<le> 255" using D by (simp_all add: debounce_clamp_def)
  have T: "\<forall>k. T k \<le> T (Suc k)" using ok by (simp add: scans_ok_def)
  have step: "J (Suc k) \<and> (flips st r i k \<longrightarrow> (\<exists>j \<le> k. T j + ?D \<le> T k \<and>
      (\<forall>l. j \<le> l \<and> l \<le> k \<longrightarrow> ?x l = bit (fst (st (Suc k)) ! r) i)))" if I: "J k" for k
  proof -
    obtain cooked s where x: "st k = (cooked, s)" by (metis prod.exhaust)
    obtain ch cooked' s' where e: "debounce_sym_defer_pk D (of_nat (T k)) (raw k) (chg k) cooked s = (ch, cooked', s')"
      by (metis prod.exhaust)
    have x': "st (Suc k) = (cooked', s')" using x e by (simp add: st_def)
    have sh: "length cooked = n" "sized (\<lambda>ps. length ps \<le> LENGTH('r)) n s" "length (counters s ! r) = cols"
      using I x by (simp_all add: J_def pk_shape_def)
    have lr: "length (raw k) = n" using ok by (simp add: scans_ok_def)
    have sh': "length cooked' = n" "sized (\<lambda>ps. length ps \<le> LENGTH('r)) n s'"
      using sym_defer_pk.step_wf [OF sh(2) lr sh(1) e] by simp_all
    have call: "debounce_call defer_pk_update (defer_pk_start ?D) (of_nat (T k)) (raw k) (chg k) cooked s = (ch, cooked', s')"
      using e D'(1) by (simp add: debounce_sym_defer_pk_def Let_def)
    obtain p1 b1 c1 m1 where one: "key_phase1 key_defer_update (counters_need_update s)
        (clamp_elapsed (timer_diff (of_nat (T k)) (last_time s))) (counters s ! r ! i) (?x k) (bit (cooked ! r) i)
        = (p1, b1, c1, m1)" by (metis prod.exhaust)
    have sz: "sized (\<lambda>ps. length ps \<le> LENGTH('r)) (length cooked) s" "length (raw k) = length cooked"
      "r < length cooked" "i < length (counters s ! r)"
      using sh lr at by simp_all
    obtain tr cn1 where c: "chg k \<longrightarrow> tr" "c1 \<longrightarrow> cn1" "length (counters s' ! r) = cols"
      "last_time s' = (if counters_need_update s \<or> tr then of_nat (T k) else last_time s)"
      "if tr then counters s' ! r ! i = k_p (key_defer_start ?D p1 (?x k) b1) \<and>
          bit (cooked' ! r) i = k_b (key_defer_start ?D p1 (?x k) b1) \<and>
          (cn1 \<or> k_cn (key_defer_start ?D p1 (?x k) b1) \<longrightarrow> counters_need_update s')
       else counters s' ! r ! i = p1 \<and> bit (cooked' ! r) i = b1 \<and> counters_need_update s' = cn1"
      using call_key [OF defer_pk_update_keys defer_pk_start_keys key_defer_bits(1) key_defer_bits(2) sz(1,2) call sz(3,4) one]
        sh(3) by auto
    have tr0: "tr" if "0 < k" "?x k \<noteq> ?x (k - 1)"
    proof -
      have "raw (Suc (k - 1)) \<noteq> raw (k - 1)" using that by auto
      then have "chg (Suc (k - 1))" using ok unfolding scans_ok_def by blast
      then show ?thesis using that(1) c(1) by simp
    qed
    have tr: "0 < k \<and> ?x k \<noteq> ?x (k - 1) \<longrightarrow> tr" using tr0 by blast
    have d: "deferring ?D T ?x k (counters s ! r ! i) (bit (cooked ! r) i) (counters_need_update s) (last_time s)"
      using I x by (simp add: J_def)
    note ks = defer_key_step [OF D' T d one tr c(4,5,2)]
    have "J (Suc k)" using ks(1) sh' c(3) by (simp only: J_def pk_shape_def x' fst_conv snd_conv)
    moreover have "\<exists>j \<le> k. T j + ?D \<le> T k \<and> (\<forall>l. j \<le> l \<and> l \<le> k \<longrightarrow> ?x l = bit (fst (st (Suc k)) ! r) i)"
      if "flips st r i k"
      using ks(2) that unfolding flips_def x x' fst_conv by blast
    ultimately show ?thesis by blast
  qed
  show I: "J k" for k
  proof (induction k)
    case 0
    show ?case
      using at c0 cols by (simp add: J_def st_def pk_shape_def deferring_def debounce_pk_init_def sized_def)
  next
    case (Suc k)
    then show ?case using step by blast
  qed
  show "flips st r i k \<Longrightarrow> \<exists>j \<le> k. T j + ?D \<le> T k \<and>
    (\<forall>l. j \<le> l \<and> l \<le> k \<longrightarrow> bit (raw l ! r) i = bit (fst (st (Suc k)) ! r) i)"
    using step [OF I] by blast
qed

lemma eager_run:
  fixes raw :: "nat \<Rightarrow> 'r::len word list" and D cols n r i :: nat and T :: "nat \<Rightarrow> nat"
    and chg :: "nat \<Rightarrow> bool" and cooked0 :: "'r word list"
  defines "st \<equiv> deb_state (debounce_sym_eager_pk D :: 't::len word \<Rightarrow> _) T raw chg (cooked0, debounce_pk_init n cols)"
  assumes ok: "scans_ok n T raw chg" and c0: "length cooked0 = n" and cols: "cols \<le> LENGTH('r)"
    and at: "r < n" "i < cols" and D: "0 < D"
  defines "J \<equiv> \<lambda>k :: nat. pk_shape n cols r (st k) \<and>
    holding (debounce_clamp 255 D) T (flips st r i) k (counters (snd (st k)) ! r ! i)
      (counters_need_update (snd (st k))) (last_time (snd (st k)))"
  shows "J k" and "flips st r i k \<Longrightarrow> f < k \<Longrightarrow> flips st r i f \<Longrightarrow> T f + debounce_clamp 255 D \<le> T k"
proof -
  let ?D = "debounce_clamp 255 D" and ?x = "\<lambda>l. bit (raw l ! r) i"
  have D': "0 < ?D" "?D \<le> 255" using D by (simp_all add: debounce_clamp_def)
  have T: "\<forall>k. T k \<le> T (Suc k)" using ok by (simp add: scans_ok_def)
  have step: "J (Suc k) \<and> (\<forall>f < k. flips st r i k \<longrightarrow> flips st r i f \<longrightarrow> T f + ?D \<le> T k)" if I: "J k" for k
  proof -
    obtain cooked s where x: "st k = (cooked, s)" by (metis prod.exhaust)
    obtain ch cooked' s' where e: "debounce_sym_eager_pk D (of_nat (T k)) (raw k) (chg k) cooked s = (ch, cooked', s')"
      by (metis prod.exhaust)
    have x': "st (Suc k) = (cooked', s')" using x e by (simp add: st_def)
    have sh: "length cooked = n" "sized (\<lambda>ps. length ps \<le> LENGTH('r)) n s" "length (counters s ! r) = cols"
      using I x by (simp_all add: J_def pk_shape_def)
    have lr: "length (raw k) = n" using ok by (simp add: scans_ok_def)
    have sh': "length cooked' = n" "sized (\<lambda>ps. length ps \<le> LENGTH('r)) n s'"
      using sym_eager_pk.step_wf [OF sh(2) lr sh(1) e] by simp_all
    have call: "debounce_call eager_pk_update (eager_pk_transfer ?D) (of_nat (T k)) (raw k) (chg k) cooked s = (ch, cooked', s')"
      using e D'(1) by (simp add: debounce_sym_eager_pk_def Let_def)
    obtain p1 b1 c1 m1 where one: "key_phase1 key_eager_update (counters_need_update s)
        (clamp_elapsed (timer_diff (of_nat (T k)) (last_time s))) (counters s ! r ! i) (?x k) (bit (cooked ! r) i)
        = (p1, b1, c1, m1)" by (metis prod.exhaust)
    have sz: "sized (\<lambda>ps. length ps \<le> LENGTH('r)) (length cooked) s" "length (raw k) = length cooked"
      "r < length cooked" "i < length (counters s ! r)"
      using sh lr at by simp_all
    obtain tr cn1 where c: "chg k \<longrightarrow> tr" "c1 \<longrightarrow> cn1" "length (counters s' ! r) = cols"
      "last_time s' = (if counters_need_update s \<or> tr then of_nat (T k) else last_time s)"
      "if tr then counters s' ! r ! i = k_p (key_eager_transfer ?D p1 (?x k) b1) \<and>
          bit (cooked' ! r) i = k_b (key_eager_transfer ?D p1 (?x k) b1) \<and>
          (cn1 \<or> k_cn (key_eager_transfer ?D p1 (?x k) b1) \<longrightarrow> counters_need_update s')
       else counters s' ! r ! i = p1 \<and> bit (cooked' ! r) i = b1 \<and> counters_need_update s' = cn1"
      using call_key [OF eager_pk_update_keys eager_pk_transfer_keys key_eager_bits(1) key_eager_bits(2) sz(1,2) call sz(3,4) one]
        sh(3) by auto
    have d: "holding ?D T (flips st r i) k (counters s ! r ! i) (counters_need_update s) (last_time s)"
      using I x by (simp add: J_def)
    have fl: "flips st r i k \<longleftrightarrow> bit (cooked' ! r) i \<noteq> bit (cooked ! r) i"
      by (simp add: flips_def x x')
    note ks = eager_key_step [OF D' T d one c(4,5,2) fl]
    have "J (Suc k)" using ks(1) sh' c(3) by (simp only: J_def pk_shape_def x' fst_conv snd_conv)
    then show ?thesis using ks(2) by blast
  qed
  show I: "J k" for k
  proof (induction k)
    case 0
    show ?case
      using at c0 cols by (simp add: J_def st_def pk_shape_def holding_def debounce_pk_init_def sized_def)
  next
    case (Suc k)
    then show ?case using step by blast
  qed
  show "flips st r i k \<Longrightarrow> f < k \<Longrightarrow> flips st r i f \<Longrightarrow> T f + ?D \<le> T k"
    using step [OF I] by blast
qed

section \<open>The algorithms as runs\<close>

definition tracks_raw ::
  "('t \<Rightarrow> 'r::len word list \<Rightarrow> bool \<Rightarrow> 'r word list \<Rightarrow> 's \<Rightarrow> bool \<times> 'r word list \<times> 's) \<Rightarrow> (nat \<Rightarrow> 's \<Rightarrow> bool) \<Rightarrow> bool" where
  "tracks_raw step szd \<longleftrightarrow> (\<forall>now raw changed cooked s. szd (length raw) s \<and> length cooked = length raw \<longrightarrow>
     (case step now raw changed cooked s of (ch, cooked', s') \<Rightarrow>
        szd (length raw) s' \<and> length cooked' = length raw \<and> (ch \<longleftrightarrow> cooked' \<noteq> cooked) \<and>
        (\<forall>row < length raw. \<forall>m. bit (cooked' ! row) m = bit (cooked ! row) m \<or>
           bit (cooked' ! row) m = bit (raw ! row) m)))"

lemma debouncer_tracks_raw:
  fixes step :: "'t \<Rightarrow> 'r::len word list \<Rightarrow> bool \<Rightarrow> 'r word list \<Rightarrow> 's \<Rightarrow> bool \<times> 'r word list \<times> 's"
  assumes "debouncer step szd"
  shows "tracks_raw step szd"
  unfolding tracks_raw_def
proof (intro allI impI)
  fix now :: 't and raw cooked :: "'r word list" and changed and s :: 's
  assume a: "szd (length raw) s \<and> length cooked = length raw"
  obtain ch cooked' s' where e: "step now raw changed cooked s = (ch, cooked', s')"
    by (metis prod.exhaust)
  have b: "szd (length cooked) s" "length raw = length cooked" using a by simp_all
  show "case step now raw changed cooked s of (ch, cooked', s') \<Rightarrow>
        szd (length raw) s' \<and> length cooked' = length raw \<and> (ch \<longleftrightarrow> cooked' \<noteq> cooked) \<and>
        (\<forall>row < length raw. \<forall>m. bit (cooked' ! row) m = bit (cooked ! row) m \<or>
           bit (cooked' ! row) m = bit (raw ! row) m)"
    using debouncer.step_wf [OF assms b(1) b(2) refl e] debouncer.step_changed [OF assms b(1) b(2) refl e]
      debouncer.step_bits [OF assms b(1) b(2) refl e] b e by simp
qed

definition defer_pk_run ::
  "'t itself \<Rightarrow> nat \<Rightarrow> (nat \<Rightarrow> nat) \<Rightarrow> (nat \<Rightarrow> 'r::len word list) \<Rightarrow> (nat \<Rightarrow> bool) \<Rightarrow> 'r word list \<Rightarrow> nat \<Rightarrow> nat \<Rightarrow>
   nat \<Rightarrow> 'r word list \<times> (u8 list, 't::len word) debounce_state" where
  "defer_pk_run _ D T raw chg cooked0 n cols =
     deb_state (debounce_sym_defer_pk D) T raw chg (cooked0, debounce_pk_init n cols)"

definition eager_pk_run ::
  "'t itself \<Rightarrow> nat \<Rightarrow> (nat \<Rightarrow> nat) \<Rightarrow> (nat \<Rightarrow> 'r::len word list) \<Rightarrow> (nat \<Rightarrow> bool) \<Rightarrow> 'r word list \<Rightarrow> nat \<Rightarrow> nat \<Rightarrow>
   nat \<Rightarrow> 'r word list \<times> (u8 list, 't::len word) debounce_state" where
  "eager_pk_run _ D T raw chg cooked0 n cols =
     deb_state (debounce_sym_eager_pk D) T raw chg (cooked0, debounce_pk_init n cols)"

lemmas run_simps = debounce_sym_defer_pk_def debounce_sym_eager_pk_def debounce_pk_init_def debounce_clamp_def
  debounce_call_def row_body_def defer_pk_update_def defer_pk_start_def eager_pk_update_def eager_pk_transfer_def
  clamp_elapsed_def timer_diff_def Let_def

lemma clamp_min: "debounce_clamp b D = min b D"
  by (simp add: debounce_clamp_def min_def)

section \<open>Properties\<close>

text \<open>
  C30: each of the seven algorithms, for every \<^verbatim>\<open>DEBOUNCE\<close> value, keeps its state sized
  for the matrix, reports a change exactly when the cooked matrix changed, and gives every cooked
  bit either its old value or the raw one.
\<close>

theorem debounce_algorithms_track_raw:
  "tracks_raw (\<lambda>_ raw changed cooked s. case debounce_none raw changed cooked of (ch, ck) \<Rightarrow> (ch, ck, s)) (\<lambda>_ _. True) \<and>
   tracks_raw (debounce_sym_defer_g D) (\<lambda>_ _. True) \<and>
   tracks_raw (debounce_sym_defer_pk D :: 't::len word \<Rightarrow> 'r::len word list \<Rightarrow> _) (sized (\<lambda>ps. length ps \<le> LENGTH('r))) \<and>
   tracks_raw (debounce_sym_eager_pk D :: 't word \<Rightarrow> 'r word list \<Rightarrow> _) (sized (\<lambda>ps. length ps \<le> LENGTH('r))) \<and>
   tracks_raw (debounce_asym_eager_defer_pk D :: 't word \<Rightarrow> 'r word list \<Rightarrow> _) (sized (\<lambda>ps. length ps \<le> LENGTH('r))) \<and>
   tracks_raw (debounce_sym_eager_pr D) (sized (\<lambda>_. True)) \<and>
   tracks_raw (debounce_sym_defer_pr D) defer_pr_sized"
  by (intro conjI debouncer_tracks_raw none_contract sym_defer_g_contract sym_defer_pk_contract
      sym_eager_pk_contract asym_contract sym_eager_pr_contract sym_defer_pr_contract)

text \<open>
  With the symmetric deferred per-key algorithm, when a key of the cooked matrix
  changes at scan \<open>k\<close>, the raw key had the new value in every scan of at least the last
  \<^verbatim>\<open>DEBOUNCE\<close> milliseconds, whatever the other keys did and however the timer wraps.
\<close>

theorem sym_defer_pk_stable:
  fixes raw :: "nat \<Rightarrow> 'r::len word list"
  assumes "scans_ok n T raw chg" and "length cooked0 = n" and "cols \<le> LENGTH('r)"
    and "r < n" and "i < cols" and "0 < D"
    and "flips (defer_pk_run TYPE('t::len) D T raw chg cooked0 n cols) r i k"
  shows "\<exists>j \<le> k. T j + min 255 D \<le> T k \<and>
    (\<forall>l. j \<le> l \<and> l \<le> k \<longrightarrow>
       bit (raw l ! r) i = bit (fst (defer_pk_run TYPE('t) D T raw chg cooked0 n cols (Suc k)) ! r) i)"
  using defer_run(2) [OF assms(1-6), where 't = 't, of k] assms(7)
  by (simp add: defer_pk_run_def clamp_min)

lemma sym_defer_pk_stable_witness:
  "flips (defer_pk_run TYPE(16) 5 (\<lambda>k. 5 * k) (\<lambda>_. [1 :: u8]) (\<lambda>k. k = 0) [0] 1 1) 0 0 1 \<and>
   (\<exists>j \<le> 1. 5 * j + min 255 5 \<le> 5 * (1::nat) \<and>
    (\<forall>l. j \<le> l \<and> l \<le> 1 \<longrightarrow>
       bit ([1 :: u8] ! 0) 0 = bit (fst (defer_pk_run TYPE(16) 5 (\<lambda>k. 5 * k) (\<lambda>_. [1 :: u8]) (\<lambda>k. k = 0) [0] 1 1 (Suc 1)) ! 0) 0))"
proof -
  have f: "flips (defer_pk_run TYPE(16) 5 (\<lambda>k. 5 * k) (\<lambda>_. [1 :: u8]) (\<lambda>k. k = 0) [0] 1 1) 0 0 1"
    by (simp add: flips_def defer_pk_run_def run_simps)
  show ?thesis
    using f sym_defer_pk_stable [of 1 "\<lambda>k. 5 * k" "\<lambda>_. [1 :: u8]" "\<lambda>k. k = 0" "[0]" 1 0 0 5 1, where 't = 16, OF _ _ _ _ _ _ f]
    by (simp add: scans_ok_def)
qed

text \<open>
  C29: with the symmetric eager per-key algorithm, two changes of one key of the cooked
  matrix are at least \<^verbatim>\<open>DEBOUNCE\<close> milliseconds apart: bounces are never passed on.
\<close>

theorem sym_eager_pk_spaced:
  fixes raw :: "nat \<Rightarrow> 'r::len word list"
  assumes "scans_ok n T raw chg" and "length cooked0 = n" and "cols \<le> LENGTH('r)"
    and "r < n" and "i < cols" and "0 < D" and "f < k"
    and "flips (eager_pk_run TYPE('t::len) D T raw chg cooked0 n cols) r i f"
    and "flips (eager_pk_run TYPE('t) D T raw chg cooked0 n cols) r i k"
  shows "T f + min 255 D \<le> T k"
  using eager_run(2) [OF assms(1-6), where 't = 't, of k f] assms(7-9)
  by (simp add: eager_pk_run_def clamp_min)

lemma sym_eager_pk_spaced_witness:
  "flips (eager_pk_run TYPE(16) 5 (\<lambda>k. 5 * k) (\<lambda>k. [if k = 0 then 1 else 0 :: u8]) (\<lambda>k. True) [0] 1 1) 0 0 0 \<and>
   flips (eager_pk_run TYPE(16) 5 (\<lambda>k. 5 * k) (\<lambda>k. [if k = 0 then 1 else 0 :: u8]) (\<lambda>k. True) [0] 1 1) 0 0 1 \<and>
   5 * 0 + min 255 5 \<le> 5 * (1::nat)"
proof -
  have f: "flips (eager_pk_run TYPE(16) 5 (\<lambda>k. 5 * k) (\<lambda>k. [if k = 0 then 1 else 0 :: u8]) (\<lambda>k. True) [0] 1 1) 0 0 0"
    by (simp add: flips_def eager_pk_run_def run_simps)
  have g: "flips (eager_pk_run TYPE(16) 5 (\<lambda>k. 5 * k) (\<lambda>k. [if k = 0 then 1 else 0 :: u8]) (\<lambda>k. True) [0] 1 1) 0 0 1"
    by (simp add: flips_def eager_pk_run_def run_simps)
  show ?thesis
    using f g sym_eager_pk_spaced [where 't = 16, OF _ _ _ _ _ _ _ f g]
    by (simp add: scans_ok_def)
qed

text \<open>
  An idle key (its counter is 0) that changes is passed on in the very call that
  sees the change.
\<close>

theorem sym_eager_pk_immediate:
  fixes raw cooked :: "'r::len word list" and s :: "(u8 list, 't::len word) debounce_state"
  assumes "sized (\<lambda>ps. length ps \<le> LENGTH('r)) (length cooked) s" and "length raw = length cooked"
    and "r < length cooked" and "i < length (counters s ! r)" and "counters s ! r ! i = 0" and "0 < D"
    and "debounce_sym_eager_pk D now raw True cooked s = (ch, cooked', s')"
  shows "bit (cooked' ! r) i = bit (raw ! r) i"
proof -
  let ?D = "debounce_clamp 255 D"
  have call: "debounce_call eager_pk_update (eager_pk_transfer ?D) now raw True cooked s = (ch, cooked', s')"
    using assms(6,7) by (simp add: debounce_sym_eager_pk_def debounce_clamp_def Let_def split: if_splits)
  obtain p1 b1 c1 m1 where one: "key_phase1 key_eager_update (counters_need_update s)
      (clamp_elapsed (timer_diff now (last_time s))) (counters s ! r ! i) (bit (raw ! r) i) (bit (cooked ! r) i)
      = (p1, b1, c1, m1)" by (metis prod.exhaust)
  then have "p1 = 0" "b1 = bit (cooked ! r) i"
    using assms(5) by (auto simp: key_phase1_def key_eager_update_def split: if_splits)
  then show ?thesis
    using call_key [OF eager_pk_update_keys eager_pk_transfer_keys key_eager_bits(1) key_eager_bits(2) assms(1,2) call assms(3,4) one]
    by (cases "bit (raw ! r) i"; cases "bit (cooked ! r) i") (auto simp: key_eager_transfer_def)
qed

lemma sym_eager_pk_immediate_witness:
  "\<exists>ch cooked' s'. debounce_sym_eager_pk 5 (7 :: u16) [1 :: u8] True [0] (debounce_pk_init 1 1) = (ch, cooked', s') \<and>
     bit (cooked' ! 0) 0 = bit ([1 :: u8] ! 0) 0"
proof -
  obtain ch cooked' s' where e:
    "debounce_sym_eager_pk 5 (7 :: u16) [1 :: u8] True [0] (debounce_pk_init 1 1) = (ch, cooked', s')"
    by (metis prod.exhaust)
  have "bit (cooked' ! 0) 0 = bit ([1 :: u8] ! 0) 0"
    by (rule sym_eager_pk_immediate [OF _ _ _ _ _ _ e]) (simp_all add: sized_def debounce_pk_init_def)
  then show ?thesis using e by blast
qed

lemma scan_defer_pr_zero:
  assumes "256 dvd D"
  shows "\<exists>lr'. scan (defer_pr_row D e raw) k (replicate n 0) (lr, cooked, ch) = (replicate n 0, lr', cooked, ch)"
proof (induction n arbitrary: k lr)
  case (Suc n)
  have D: "(of_nat D :: u8) = 0"
    using assms by (simp add: word_of_nat_eq_0_iff)
  show ?case
    using Suc.IH [of "Suc k" "lr[k := raw ! k]"] Suc.IH [of "Suc k" lr]
    by (auto simp: defer_pr_row_def Let_def D)
qed simp

text \<open>
  \<^verbatim>\<open>sym_defer_pr\<close> has neither the clamp of the other algorithms nor their
  \<^verbatim>\<open>none.c\<close> branch: with a \<^verbatim>\<open>DEBOUNCE\<close> whose low byte is 0, in particular 0, which the
  documentation gives as the way to disable debouncing, no key change is ever passed on.
\<close>

theorem sym_defer_pr_low_byte_zero:
  assumes "256 dvd D"
  shows "fst (deb_state (debounce_sym_defer_pr D) T raw chg (cooked, defer_pr_init n now) k) = cooked"
proof -
  have "fst (deb_state (debounce_sym_defer_pr D) T raw chg (cooked, defer_pr_init n now) k) = cooked \<and>
    countdowns (snd (deb_state (debounce_sym_defer_pr D) T raw chg (cooked, defer_pr_init n now) k)) = replicate n 0"
  proof (induction k)
    case 0
    then show ?case by (simp add: defer_pr_init_def)
  next
    case (Suc k)
    obtain s where s: "deb_state (debounce_sym_defer_pr D) T raw chg (cooked, defer_pr_init n now) k = (cooked, s)"
      "countdowns s = replicate n 0" using Suc by (metis prod.collapse)
    obtain lr where "scan (defer_pr_row D (clamp_elapsed (timer_diff (of_nat (T k)) (pr_last_time s))) (raw k)) 0
        (replicate n 0) (last_raw s, cooked, False) = (replicate n 0, lr, cooked, False)"
      using scan_defer_pr_zero [OF assms] by blast
    then have "debounce_sym_defer_pr D (of_nat (T k)) (raw k) (chg k) cooked s =
        (False, cooked, s\<lparr>pr_last_time := of_nat (T k), countdowns := replicate n 0, last_raw := lr\<rparr>)"
      by (simp add: debounce_sym_defer_pr_def s(2))
    then show ?case by (simp add: s)
  qed
  then show ?thesis ..
qed

lemma sym_defer_pr_low_byte_zero_witness:
  "fst (deb_state (debounce_sym_defer_pr 0) (\<lambda>k. 1000 * k) (\<lambda>_. [1 :: u8]) (\<lambda>_. True) ([0], defer_pr_init 1 0) 20) = [0]"
  by (rule sym_defer_pr_low_byte_zero) simp

end
