(* ===== verification/Report.thy ===== *)
theory Report
  imports QmkPrelude Bitwise
begin

text \<open>
  The keyboard reports of \<^verbatim>\<open>tmk_core/protocol/report.c\<close>: the six-key boot report (in its plain and
  its ring-buffered build) and the bitmap report of n-key rollover. The build options are a record,
  the static variables and the two report structures a state record that other components extend.
\<close>

section \<open>State\<close>

record report_cfg =
  NKRO_ENABLE :: bool
  RING_BUFFERED :: bool

text \<open>
  \<open>report_keys\<close> and \<open>nkro_bits\<close> are the arrays of the two reports, \<open>cb_head\<close>, \<open>cb_tail\<close> and
  \<open>cb_count\<close> the ring's variables. The indices are only assigned through \<^verbatim>\<open>RO_ADD\<close> and
  \<^verbatim>\<open>RO_SUB\<close>, whose values are below 6; the count is an \<^verbatim>\<open>int8_t\<close> that is only incremented,
  decremented and compared with 0, so a byte that wraps stands for it.
\<close>

record report_state =
  report_mods :: u8
  report_keys :: "u8 list"
  nkro_report_mods :: u8
  nkro_bits :: "u8 list"
  keyboard_protocol :: u8
  config_nkro :: bool
  cb_head :: nat
  cb_tail :: nat
  cb_count :: u8

definition KEYBOARD_REPORT_KEYS :: nat where "KEYBOARD_REPORT_KEYS = 6"
definition NKRO_REPORT_BITS :: nat where "NKRO_REPORT_BITS = 30"

definition use_nkro :: "'c report_cfg_scheme \<Rightarrow> 'a report_state_scheme \<Rightarrow> bool" where
  "use_nkro cfg s \<longleftrightarrow> NKRO_ENABLE cfg \<and> keyboard_protocol s \<noteq> 0 \<and> config_nkro s"

section \<open>Ring indices\<close>

definition RO_ADD :: "nat \<Rightarrow> nat \<Rightarrow> nat" where
  "RO_ADD a b = (a + b) mod KEYBOARD_REPORT_KEYS"

definition RO_SUB :: "nat \<Rightarrow> nat \<Rightarrow> nat" where
  "RO_SUB a b = (a + KEYBOARD_REPORT_KEYS - b) mod KEYBOARD_REPORT_KEYS"

definition RO_INC :: "nat \<Rightarrow> nat" where "RO_INC a = RO_ADD a 1"
definition RO_DEC :: "nat \<Rightarrow> nat" where "RO_DEC a = RO_SUB a 1"

section \<open>Queries\<close>

definition has_anykey :: "'c report_cfg_scheme \<Rightarrow> 'a report_state_scheme \<Rightarrow> u8" where
  "has_anykey cfg s =
     (let p = (if use_nkro cfg s then nkro_bits s else report_keys s)
      in foldl (\<lambda>cnt b. if b \<noteq> 0 then cnt + 1 else cnt) 0 p)"

fun first_nonzero :: "u8 list \<Rightarrow> nat" where
  "first_nonzero [] = 0"
| "first_nonzero (b # bs) = (if b \<noteq> 0 then 0 else Suc (first_nonzero bs))"

text \<open>The loop of the ring-buffered \<^verbatim>\<open>get_first_key\<close>; \<open>n\<close> bounds its iterations.\<close>

fun ring_first :: "nat \<Rightarrow> u8 list \<Rightarrow> nat \<Rightarrow> nat \<Rightarrow> nat" where
  "ring_first 0 ks tail i = i"
| "ring_first (Suc n) ks tail i =
     (if ks ! i \<noteq> 0 then i
      else if RO_INC i = tail then RO_INC i else ring_first n ks tail (RO_INC i))"

text \<open>
  With no key pressed the bitmap variant reads \<^verbatim>\<open>bits[NKRO_REPORT_BITS]\<close>, the byte behind the
  report: \<open>oob\<close>.
\<close>

definition get_first_key :: "'c report_cfg_scheme \<Rightarrow> u8 \<Rightarrow> 'a report_state_scheme \<Rightarrow> u8" where
  "get_first_key cfg oob s =
     (if use_nkro cfg s then
        (let i = first_nonzero (nkro_bits s);
             b = (if i < NKRO_REPORT_BITS then nkro_bits s ! i else oob)
         in push_bit 3 (of_nat i) OR biton b)
      else if RING_BUFFERED cfg then report_keys s ! ring_first 6 (report_keys s) (cb_tail s) (cb_head s)
      else report_keys s ! 0)"

definition is_key_pressed :: "'c report_cfg_scheme \<Rightarrow> u8 \<Rightarrow> 'a report_state_scheme \<Rightarrow> bool" where
  "is_key_pressed cfg key s =
     (if key = 0 then False
      else if use_nkro cfg s then
        (if unat (drop_bit 3 key) < NKRO_REPORT_BITS
         then nkro_bits s ! unat (drop_bit 3 key) AND push_bit (unat (key AND 7)) 1 \<noteq> 0
         else False)
      else key \<in> set (report_keys s))"

section \<open>The six-key report\<close>

text \<open>The search of the plain \<^verbatim>\<open>add_key_byte\<close>: the code's index, or the first free one.\<close>

fun add_scan :: "u8 \<Rightarrow> nat \<Rightarrow> u8 list \<Rightarrow> nat option \<Rightarrow> nat + nat option" where
  "add_scan code i [] free = Inr free"
| "add_scan code i (k # ks) free =
     (if k = code then Inl i
      else add_scan code (Suc i) ks (if free = None \<and> k = 0 then Some i else free))"

definition add_key_byte_plain :: "u8 \<Rightarrow> 'a report_state_scheme \<Rightarrow> 'a report_state_scheme" where
  "add_key_byte_plain code s =
     (case add_scan code 0 (report_keys s) None of
        Inl _ \<Rightarrow> s
      | Inr None \<Rightarrow> s
      | Inr (Some free) \<Rightarrow> s\<lparr>report_keys := (report_keys s)[free := code]\<rparr>)"

definition del_key_byte_plain :: "u8 \<Rightarrow> 'a report_state_scheme \<Rightarrow> 'a report_state_scheme" where
  "del_key_byte_plain code s =
     s\<lparr>report_keys := map (\<lambda>k. if k = code then 0 else k) (report_keys s)\<rparr>"

section \<open>The ring buffer\<close>

text \<open>
  The \<^verbatim>\<open>do ... while (i != cb_tail)\<close> loops go once around the ring at most, so 6 iterations are
  enough (lemmas \<open>ring_search_fuel\<close> and the like below). \<open>None\<close>: the code is in the ring.
\<close>

fun ring_search :: "nat \<Rightarrow> u8 list \<Rightarrow> u8 \<Rightarrow> nat \<Rightarrow> nat \<Rightarrow> nat option \<Rightarrow> nat option option" where
  "ring_search 0 ks code tail i free = Some free"
| "ring_search (Suc n) ks code tail i free =
     (if ks ! i = code then None
      else (let free = (if free = None \<and> ks ! i = 0 then Some i else free);
                i = RO_INC i
            in if i = tail then Some free else ring_search n ks code tail i free))"

fun ring_shift :: "nat \<Rightarrow> u8 list \<Rightarrow> nat \<Rightarrow> nat \<Rightarrow> nat \<Rightarrow> nat \<Rightarrow> u8 list \<times> nat" where
  "ring_shift 0 ks tail free offset i = (ks, offset)"
| "ring_shift (Suc n) ks tail free offset i =
     (let (ks, free, offset) =
            (if ks ! i \<noteq> 0 then (ks[free := ks ! i, i := 0], RO_INC free, offset)
             else (ks, free, Suc offset));
          i = RO_INC i
      in if i = tail then (ks, offset) else ring_shift n ks tail free offset i)"

definition ring_append :: "u8 \<Rightarrow> 'a report_state_scheme \<Rightarrow> 'a report_state_scheme" where
  "ring_append code s =
     s\<lparr>report_keys := (report_keys s)[cb_tail s := code], cb_tail := RO_INC (cb_tail s),
       cb_count := cb_count s + 1\<rparr>"

definition add_key_byte_ring :: "u8 \<Rightarrow> 'a report_state_scheme \<Rightarrow> 'a report_state_scheme" where
  "add_key_byte_ring code s =
     (if cb_count s \<noteq> 0 then
        (case ring_search 6 (report_keys s) code (cb_tail s) (cb_head s) None of
           None \<Rightarrow> s
         | Some free \<Rightarrow>
             ring_append code
               (if cb_tail s = cb_head s then
                  (case free of
                     None \<Rightarrow> s\<lparr>cb_head := RO_INC (cb_head s), cb_count := cb_count s - 1\<rparr>
                   | Some free \<Rightarrow>
                       (case ring_shift 6 (report_keys s) (cb_tail s) free 1 (RO_INC free) of
                          (ks, offset) \<Rightarrow> s\<lparr>report_keys := ks, cb_tail := RO_SUB (cb_tail s) offset\<rparr>))
                else s))
      else ring_append code s)"

fun ring_find :: "nat \<Rightarrow> u8 list \<Rightarrow> u8 \<Rightarrow> nat \<Rightarrow> nat \<Rightarrow> nat option" where
  "ring_find 0 ks code tail i = None"
| "ring_find (Suc n) ks code tail i =
     (if ks ! i = code then Some i
      else if RO_INC i = tail then None else ring_find n ks code tail (RO_INC i))"

fun ring_trim :: "nat \<Rightarrow> u8 list \<Rightarrow> nat \<Rightarrow> nat \<Rightarrow> nat" where
  "ring_trim 0 ks head tail = tail"
| "ring_trim (Suc n) ks head tail =
     (let tail = RO_DEC tail
      in if ks ! RO_DEC tail \<noteq> 0 \<or> tail = head then tail else ring_trim n ks head tail)"

definition del_key_byte_ring :: "u8 \<Rightarrow> 'a report_state_scheme \<Rightarrow> 'a report_state_scheme" where
  "del_key_byte_ring code s =
     (if cb_count s \<noteq> 0 then
        (case ring_find 6 (report_keys s) code (cb_tail s) (cb_head s) of
           None \<Rightarrow> s
         | Some i \<Rightarrow>
             (let s = s\<lparr>report_keys := (report_keys s)[i := 0], cb_count := cb_count s - 1\<rparr>;
                  s = (if cb_count s = 0 then s\<lparr>cb_tail := 0, cb_head := 0\<rparr> else s)
              in if i = RO_DEC (cb_tail s)
                 then s\<lparr>cb_tail := ring_trim 6 (report_keys s) (cb_head s) (cb_tail s)\<rparr>
                 else s))
      else s)"

definition add_key_byte :: "'c report_cfg_scheme \<Rightarrow> u8 \<Rightarrow> 'a report_state_scheme \<Rightarrow> 'a report_state_scheme" where
  "add_key_byte cfg code = (if RING_BUFFERED cfg then add_key_byte_ring code else add_key_byte_plain code)"

definition del_key_byte :: "'c report_cfg_scheme \<Rightarrow> u8 \<Rightarrow> 'a report_state_scheme \<Rightarrow> 'a report_state_scheme" where
  "del_key_byte cfg code = (if RING_BUFFERED cfg then del_key_byte_ring code else del_key_byte_plain code)"

section \<open>The bitmap report\<close>

definition add_key_bit :: "u8 \<Rightarrow> 'a report_state_scheme \<Rightarrow> 'a report_state_scheme" where
  "add_key_bit code s =
     (let i = unat (drop_bit 3 code) in
      if i < NKRO_REPORT_BITS
      then s\<lparr>nkro_bits := (nkro_bits s)[i := nkro_bits s ! i OR push_bit (unat (code AND 7)) 1]\<rparr>
      else s)"

definition del_key_bit :: "u8 \<Rightarrow> 'a report_state_scheme \<Rightarrow> 'a report_state_scheme" where
  "del_key_bit code s =
     (let i = unat (drop_bit 3 code) in
      if i < NKRO_REPORT_BITS
      then s\<lparr>nkro_bits := (nkro_bits s)[i := nkro_bits s ! i AND NOT (push_bit (unat (code AND 7)) 1)]\<rparr>
      else s)"

section \<open>Dispatch\<close>

definition add_key_to_report :: "'c report_cfg_scheme \<Rightarrow> u8 \<Rightarrow> 'a report_state_scheme \<Rightarrow> 'a report_state_scheme" where
  "add_key_to_report cfg key s = (if use_nkro cfg s then add_key_bit key s else add_key_byte cfg key s)"

definition del_key_from_report :: "'c report_cfg_scheme \<Rightarrow> u8 \<Rightarrow> 'a report_state_scheme \<Rightarrow> 'a report_state_scheme" where
  "del_key_from_report cfg key s = (if use_nkro cfg s then del_key_bit key s else del_key_byte cfg key s)"

definition clear_keys_from_report :: "'c report_cfg_scheme \<Rightarrow> 'a report_state_scheme \<Rightarrow> 'a report_state_scheme" where
  "clear_keys_from_report cfg s =
     (if use_nkro cfg s then s\<lparr>nkro_bits := replicate (length (nkro_bits s)) 0\<rparr>
      else s\<lparr>report_keys := replicate (length (report_keys s)) 0\<rparr>)"

section \<open>Mouse report\<close>

record mouse_report =
  m_buttons :: u8
  m_boot_x :: u8
  m_boot_y :: u8
  m_x :: u16
  m_y :: u16
  m_v :: u8
  m_h :: u8

text \<open>
  Fields are only compared, so a word of the field's width stands for each signed field; \<open>m_x\<close>
  and \<open>m_y\<close> hold the wider of the two builds. \<open>extended\<close> is \<^verbatim>\<open>MOUSE_EXTENDED_REPORT\<close>.
\<close>

definition has_mouse_report_changed :: "bool \<Rightarrow> mouse_report \<Rightarrow> mouse_report \<Rightarrow> bool" where
  "has_mouse_report_changed extended new old \<longleftrightarrow>
     m_buttons new \<noteq> m_buttons old \<or>
     extended \<and> (m_boot_x new \<noteq> 0 \<and> m_boot_x new \<noteq> m_boot_x old \<or> m_boot_y new \<noteq> 0 \<and> m_boot_y new \<noteq> m_boot_y old) \<or>
     m_x new \<noteq> 0 \<and> m_x new \<noteq> m_x old \<or> m_y new \<noteq> 0 \<and> m_y new \<noteq> m_y old \<or>
     m_h new \<noteq> 0 \<and> m_h new \<noteq> m_h old \<or> m_v new \<noteq> 0 \<and> m_v new \<noteq> m_v old"

section \<open>Keycodes to usages\<close>

definition KEYCODE2SYSTEM :: "u8 \<Rightarrow> u16" where
  "KEYCODE2SYSTEM key =
     (if key = 0xA5 then 0x81 else if key = 0xA6 then 0x82 else if key = 0xA7 then 0x83 else 0)"

text \<open>The \<^verbatim>\<open>switch\<close> of \<^verbatim>\<open>KEYCODE2CONSUMER\<close>, in the order of its cases.\<close>

definition consumer_usages :: "(u8 \<times> u16) list" where
  "consumer_usages = [
     (0xA8, 0xE2), (0xA9, 0xE9), (0xAA, 0xEA), (0xAB, 0xB5), (0xAC, 0xB6), (0xBB, 0xB3),
     (0xBC, 0xB4), (0xAD, 0xB7), (0xB0, 0xCC), (0xAE, 0xCD), (0xAF, 0x183), (0xB1, 0x18A),
     (0xB2, 0x192), (0xB3, 0x194), (0xBF, 0x19F), (0xC0, 0x1CB), (0xB4, 0x221), (0xB5, 0x223),
     (0xB6, 0x224), (0xB7, 0x225), (0xB8, 0x226), (0xB9, 0x227), (0xBD, 0x6F), (0xBE, 0x70),
     (0xBA, 0x22A), (0xC1, 0x29F), (0xC2, 0x2A0)]"

definition KEYCODE2CONSUMER :: "u8 \<Rightarrow> u16" where
  "KEYCODE2CONSUMER key = (case map_of consumer_usages key of Some u \<Rightarrow> u | None \<Rightarrow> 0)"

end
