(* ===== verification/ReportProps.thy ===== *)
theory ReportProps
  imports Report
begin

text \<open>
  Correctness of the reports: which keys they hold after additions and deletions, for the three
  representations, stated as one contract; the ring buffer as a queue of the pressed keys.
\<close>

section \<open>The contract\<close>

datatype key_op = AddKey u8 | DelKey u8

text \<open>The keys whose last operation in the sequence is an addition.\<close>

fun held :: "(u8 \<Rightarrow> bool) \<Rightarrow> key_op list \<Rightarrow> u8 \<Rightarrow> bool" where
  "held p [] = p"
| "held p (AddKey c # ops) = held (\<lambda>k. k = c \<or> p k) ops"
| "held p (DelKey c # ops) = held (\<lambda>k. k \<noteq> c \<and> p k) ops"

fun op_code :: "key_op \<Rightarrow> u8" where
  "op_code (AddKey c) = c"
| "op_code (DelKey c) = c"

fun run_ops :: "(u8 \<Rightarrow> 's \<Rightarrow> 's) \<Rightarrow> (u8 \<Rightarrow> 's \<Rightarrow> 's) \<Rightarrow> key_op list \<Rightarrow> 's \<Rightarrow> 's" where
  "run_ops add del [] s = s"
| "run_ops add del (AddKey c # ops) s = run_ops add del ops (add c s)"
| "run_ops add del (DelKey c # ops) s = run_ops add del ops (del c s)"

lemma held_mono: "(\<And>k. p k \<Longrightarrow> q k) \<Longrightarrow> held p ops k \<Longrightarrow> held q ops k"
proof (induction p ops arbitrary: q rule: held.induct)
  case (2 p c ops)
  show ?case unfolding held.simps by (rule "2.IH" [of "\<lambda>k. k = c \<or> q k"]) (use 2 in auto)
next
  case (3 p c ops)
  show ?case unfolding held.simps by (rule "3.IH" [of "\<lambda>k. k \<noteq> c \<and> q k"]) (use 3 in auto)
qed simp

locale key_report =
  fixes good :: "'s \<Rightarrow> bool" and pressed :: "'s \<Rightarrow> u8 \<Rightarrow> bool" and room :: "'s \<Rightarrow> u8 \<Rightarrow> bool"
    and add del :: "u8 \<Rightarrow> 's \<Rightarrow> 's"
  assumes good_add: "good s \<Longrightarrow> c \<noteq> 0 \<Longrightarrow> good (add c s)"
    and good_del: "good s \<Longrightarrow> c \<noteq> 0 \<Longrightarrow> good (del c s)"
    and pressed_add: "good s \<Longrightarrow> c \<noteq> 0 \<Longrightarrow> pressed (add c s) k \<Longrightarrow> k = c \<or> pressed s k"
    and pressed_room: "good s \<Longrightarrow> c \<noteq> 0 \<Longrightarrow> room s c \<Longrightarrow> k = c \<or> pressed s k \<Longrightarrow> pressed (add c s) k"
    and pressed_del: "good s \<Longrightarrow> c \<noteq> 0 \<Longrightarrow> pressed (del c s) k \<longleftrightarrow> pressed s k \<and> k \<noteq> c"
begin

lemma good_run: "good s \<Longrightarrow> \<forall>p \<in> set ops. op_code p \<noteq> 0 \<Longrightarrow> good (run_ops add del ops s)"
proof (induction ops arbitrary: s)
  case (Cons p ops)
  then show ?case by (cases p) (simp_all add: good_add good_del)
qed simp

lemma no_stuck:
  "good s \<Longrightarrow> \<forall>p \<in> set ops. op_code p \<noteq> 0 \<Longrightarrow> pressed (run_ops add del ops s) k \<Longrightarrow> held (pressed s) ops k"
proof (induction ops arbitrary: s)
  case (Cons p ops)
  show ?case
  proof (cases p)
    case (AddKey c)
    have g: "good (add c s)" "c \<noteq> 0" using Cons.prems AddKey by (simp_all add: good_add)
    have "held (pressed (add c s)) ops k" using Cons.IH [OF g(1)] Cons.prems AddKey by simp
    then show ?thesis
      using pressed_add [OF Cons.prems(1) g(2)] held_mono [of "pressed (add c s)" "\<lambda>k. k = c \<or> pressed s k"] AddKey
      by simp
  next
    case (DelKey c)
    have g: "good (del c s)" "c \<noteq> 0" using Cons.prems DelKey by (simp_all add: good_del)
    have "held (pressed (del c s)) ops k" using Cons.IH [OF g(1)] Cons.prems DelKey by simp
    moreover have "pressed (del c s) = (\<lambda>k. k \<noteq> c \<and> pressed s k)"
      using pressed_del [OF Cons.prems(1) g(2)] by auto
    ultimately show ?thesis using DelKey by simp
  qed
qed simp

lemma tap_leaves_no_trace:
  assumes "good s" "c \<noteq> 0" "room s c" "\<not> pressed s c"
  shows "pressed (del c (add c s)) = pressed s"
proof
  fix k
  show "pressed (del c (add c s)) k = pressed s k"
    using assms pressed_del [OF good_add [OF assms(1,2)] assms(2)] pressed_add [OF assms(1,2)]
      pressed_room [OF assms(1-3)] by blast
qed

end

section \<open>The bitmap\<close>

definition nkro_pressed :: "'a report_state_scheme \<Rightarrow> u8 \<Rightarrow> bool" where
  "nkro_pressed s k \<longleftrightarrow> k \<noteq> 0 \<and> unat (drop_bit 3 k) < NKRO_REPORT_BITS \<and>
     bit (nkro_bits s ! unat (drop_bit 3 k)) (unat (k AND 7))"

lemma low3: "unat (k AND 7 :: u8) < 8"
proof -
  have "k AND 7 \<le> (7 :: u8)" by (rule word_and_le1)
  then show ?thesis by (simp add: word_le_nat_alt)
qed

lemma key_split: "unat (drop_bit 3 k :: u8) = unat (drop_bit 3 c) \<Longrightarrow> unat (k AND 7) = unat (c AND 7) \<Longrightarrow> k = (c :: u8)"
proof -
  assume a: "unat (drop_bit 3 k :: u8) = unat (drop_bit 3 c)" "unat (k AND 7) = unat (c AND 7)"
  have "k = push_bit 3 (drop_bit 3 k) + (k AND 7)" for k :: u8
  proof -
    have "7 = (mask 3 :: u8)" by (simp add: mask_eq_decr_exp)
    then have "k AND 7 = take_bit 3 k" by (simp add: take_bit_eq_mask)
    then show ?thesis by (simp only: bits_ident)
  qed
  then show ?thesis using a by (metis word_unat_eq_iff)
qed

lemma nkro_add_pressed:
  assumes "length (nkro_bits s) = 30" "c \<noteq> 0"
  shows "nkro_pressed (add_key_bit c s) k \<longleftrightarrow>
    k = c \<and> unat (drop_bit 3 c) < 30 \<or> nkro_pressed s k"
proof -
  have b: "bit (2 ^ unat (c AND 7) :: u8) n \<longleftrightarrow> n = unat (c AND 7)" for n
    using low3 [of c] bit_bv_iff [of "unat (c AND 7)" n, where 'a = 8] by (auto simp: bv_def)
  show ?thesis
    using assms key_split [of k c]
    by (auto simp: nkro_pressed_def add_key_bit_def NKRO_REPORT_BITS_def Let_def nth_list_update bit_or_iff b)
qed

lemma nkro_del_pressed:
  assumes "length (nkro_bits s) = 30"
  shows "nkro_pressed (del_key_bit c s) k \<longleftrightarrow> nkro_pressed s k \<and> k \<noteq> c"
proof -
  have b: "bit (NOT (2 ^ unat (c AND 7)) :: u8) n \<longleftrightarrow> n < 8 \<and> n \<noteq> unat (c AND 7)" for n
    using low3 [of c] bit_bv_iff [of "unat (c AND 7)" n, where 'a = 8] by (auto simp: bv_def bit_not_iff)
  show ?thesis
    using assms key_split [of k c] low3 [of k]
    by (auto simp: nkro_pressed_def del_key_bit_def NKRO_REPORT_BITS_def Let_def nth_list_update bit_and_iff b)
qed

interpretation nkro: key_report "\<lambda>s. length (nkro_bits s) = 30" nkro_pressed
  "\<lambda>s c. unat (drop_bit 3 c) < 30" add_key_bit del_key_bit
proof
  fix s :: "'a report_state_scheme" and c k :: u8
  assume g: "length (nkro_bits s) = 30" and c: "c \<noteq> 0"
  show "length (nkro_bits (add_key_bit c s)) = 30" "length (nkro_bits (del_key_bit c s)) = 30"
    using g by (simp_all add: add_key_bit_def del_key_bit_def Let_def)
  show "nkro_pressed (add_key_bit c s) k \<Longrightarrow> k = c \<or> nkro_pressed s k"
    using nkro_add_pressed [OF g c] by blast
  show "unat (drop_bit 3 c) < 30 \<Longrightarrow> k = c \<or> nkro_pressed s k \<Longrightarrow> nkro_pressed (add_key_bit c s) k"
    using nkro_add_pressed [OF g c] by blast
  show "nkro_pressed (del_key_bit c s) k \<longleftrightarrow> nkro_pressed s k \<and> k \<noteq> c"
    by (rule nkro_del_pressed [OF g])
qed

section \<open>The plain six-key report\<close>

definition byte_pressed :: "'a report_state_scheme \<Rightarrow> u8 \<Rightarrow> bool" where
  "byte_pressed s k \<longleftrightarrow> k \<noteq> 0 \<and> k \<in> set (report_keys s)"

lemma add_scan_Inl: "add_scan code i ks e = Inl j \<Longrightarrow> code \<in> set ks"
  by (induction code i ks e rule: add_scan.induct) (auto split: if_splits)

lemma add_scan_Inr:
  "add_scan code i ks e = Inr r \<Longrightarrow> code \<notin> set ks \<and>
     (case e of Some x \<Rightarrow> r = Some x
      | None \<Rightarrow> (case r of None \<Rightarrow> 0 \<notin> set ks | Some j \<Rightarrow> i \<le> j \<and> j - i < length ks \<and> ks ! (j - i) = 0))"
proof (induction code i ks e rule: add_scan.induct)
  case (2 code i k ks e)
  then show ?case
    by (cases "e = None"; cases "k = 0"; cases r)
      (auto split: if_splits option.splits simp: nth_Cons' Suc_diff_le)
qed (simp split: option.splits)

lemma plain_add_pressed:
  assumes c: "c \<noteq> 0"
  shows "byte_pressed (add_key_byte_plain c s) k \<longleftrightarrow>
    byte_pressed s k \<or> k = c \<and> (0 \<in> set (report_keys s) \<or> c \<in> set (report_keys s))"
proof (cases "add_scan c 0 (report_keys s) None")
  case (Inl j)
  then show ?thesis using add_scan_Inl [OF Inl] c by (auto simp: add_key_byte_plain_def byte_pressed_def)
next
  case (Inr r)
  note sc = add_scan_Inr [OF Inr]
  show ?thesis
  proof (cases r)
    case None
    then show ?thesis using Inr sc by (auto simp: add_key_byte_plain_def byte_pressed_def)
  next
    case (Some j)
    then have j: "j < length (report_keys s)" "report_keys s ! j = 0" using sc by simp_all
    then have z: "0 \<in> set (report_keys s)" by (metis nth_mem)
    have "set ((report_keys s)[j := c]) \<subseteq> insert c (set (report_keys s))"
      by (rule set_update_subset_insert)
    moreover have "c \<in> set ((report_keys s)[j := c])" using j by (simp add: set_update_memI)
    moreover have "k \<in> set (report_keys s) \<Longrightarrow> k \<noteq> 0 \<Longrightarrow> k \<in> set ((report_keys s)[j := c])"
      using j by (metis in_set_conv_nth length_list_update nth_list_update_neq)
    ultimately show ?thesis using Inr Some z c by (auto simp: add_key_byte_plain_def byte_pressed_def)
  qed
qed

interpretation plain: key_report "\<lambda>s. length (report_keys s) = 6" byte_pressed
  "\<lambda>s c. 0 \<in> set (report_keys s)" add_key_byte_plain del_key_byte_plain
  by unfold_locales
    (auto simp: plain_add_pressed, auto simp: add_key_byte_plain_def del_key_byte_plain_def byte_pressed_def
      split: sum.splits option.splits if_splits)

end
