(* ===== verification/ReportRing.thy ===== *)
theory ReportRing
  imports ReportProps
begin

text \<open>
  The ring-buffered six-key report refines a queue: the pressed keys, oldest first. An addition
  appends the key and pops the oldest one when six are pressed; a deletion removes the key.
\<close>

section \<open>The ring\<close>

definition ring_idx :: "nat \<Rightarrow> nat \<Rightarrow> nat list" where
  "ring_idx h t = map (\<lambda>j. (h + j) mod 6) [0..<(if h < t then t - h else t + 6 - h)]"

lemma six: "i < (6::nat) \<Longrightarrow> i = 0 \<or> i = 1 \<or> i = 2 \<or> i = 3 \<or> i = 4 \<or> i = 5"
  by arith

lemmas ro = RO_INC_def RO_DEC_def RO_ADD_def RO_SUB_def KEYBOARD_REPORT_KEYS_def

lemma ro_less [simp]: "RO_INC i < 6" "RO_DEC i < 6" "RO_SUB i j < 6"
  by (simp_all add: ro)

lemma ring_idx_table:
  "list_all (\<lambda>h. list_all (\<lambda>t.
     ring_idx h t = h # (if RO_INC h = t then [] else ring_idx (RO_INC h) t) \<and>
     ring_idx h t = (if RO_INC h = t then [] else ring_idx h (RO_DEC t)) @ [RO_DEC t] \<and>
     ring_idx h (RO_INC t) = (if h = t then [] else ring_idx h t) @ [t] \<and>
     distinct (ring_idx h t) \<and> list_all (\<lambda>j. j < 6) (ring_idx h t) \<and>
     (h \<noteq> t \<longrightarrow> t \<notin> set (ring_idx h t)) \<and> list_all (\<lambda>j. j \<in> set (ring_idx h h)) [0..<6] \<and>
     (RO_INC h = t \<longleftrightarrow> RO_DEC t = h) \<and> RO_DEC (RO_INC t) = t) [0..<6]) [0..<6]"
  by code_simp

lemma ring_idx_facts:
  assumes "h < 6" "t < 6"
  shows "ring_idx h t = h # (if RO_INC h = t then [] else ring_idx (RO_INC h) t)"
    and "ring_idx h t = (if RO_INC h = t then [] else ring_idx h (RO_DEC t)) @ [RO_DEC t]"
    and "ring_idx h (RO_INC t) = (if h = t then [] else ring_idx h t) @ [t]"
    and "distinct (ring_idx h t)" and "set (ring_idx h t) \<subseteq> {..<6}"
    and "h \<noteq> t \<Longrightarrow> t \<notin> set (ring_idx h t)" and "set (ring_idx h h) = {..<6}"
    and "RO_INC h = t \<longleftrightarrow> RO_DEC t = h" and "RO_DEC (RO_INC t) = t"
proof -
  have "h \<in> set [0..<6]" "t \<in> set [0..<6]" using assms by simp_all
  then have *: "ring_idx h t = h # (if RO_INC h = t then [] else ring_idx (RO_INC h) t) \<and>
     ring_idx h t = (if RO_INC h = t then [] else ring_idx h (RO_DEC t)) @ [RO_DEC t] \<and>
     ring_idx h (RO_INC t) = (if h = t then [] else ring_idx h t) @ [t] \<and>
     distinct (ring_idx h t) \<and> list_all (\<lambda>j. j < 6) (ring_idx h t) \<and>
     (h \<noteq> t \<longrightarrow> t \<notin> set (ring_idx h t)) \<and> list_all (\<lambda>j. j \<in> set (ring_idx h h)) [0..<6] \<and>
     (RO_INC h = t \<longleftrightarrow> RO_DEC t = h) \<and> RO_DEC (RO_INC t) = t"
    using ring_idx_table unfolding list_all_iff by blast
  then show "ring_idx h t = h # (if RO_INC h = t then [] else ring_idx (RO_INC h) t)"
    "ring_idx h t = (if RO_INC h = t then [] else ring_idx h (RO_DEC t)) @ [RO_DEC t]"
    "ring_idx h (RO_INC t) = (if h = t then [] else ring_idx h t) @ [t]"
    "distinct (ring_idx h t)" "set (ring_idx h t) \<subseteq> {..<6}"
    "h \<noteq> t \<Longrightarrow> t \<notin> set (ring_idx h t)"
    "RO_INC h = t \<longleftrightarrow> RO_DEC t = h" "RO_DEC (RO_INC t) = t"
    unfolding list_all_iff by blast+
  have "set [0..<6] \<subseteq> set (ring_idx h h)" using * unfolding list_all_iff by blast
  moreover have "set (ring_idx h h) \<subseteq> {..<6}" by (auto simp: ring_idx_def)
  ultimately show "set (ring_idx h h) = {..<6}" by auto
qed

lemma ring_search_list:
  "i < 6 \<Longrightarrow> t < 6 \<Longrightarrow> length (ring_idx i t) \<le> n \<Longrightarrow>
   ring_search n ks c t i e =
     (if c \<in> set (map (nth ks) (ring_idx i t)) then None
      else Some (case e of Some x \<Rightarrow> Some x | None \<Rightarrow> find (\<lambda>j. ks ! j = 0) (ring_idx i t)))"
proof (induction n arbitrary: i e)
  case 0
  then show ?case using ring_idx_facts(1) [of i t] by simp
next
  case (Suc n)
  note st = ring_idx_facts(1) [OF Suc.prems(1,2)]
  show ?case
    using Suc.IH [of "RO_INC i"] Suc.prems st by (auto split: option.splits simp: Let_def)
qed

lemma ring_find_list:
  "i < 6 \<Longrightarrow> t < 6 \<Longrightarrow> length (ring_idx i t) \<le> n \<Longrightarrow>
   ring_find n ks c t i = find (\<lambda>j. ks ! j = c) (ring_idx i t)"
proof (induction n arbitrary: i)
  case 0
  then show ?case using ring_idx_facts(1) [of i t] by simp
next
  case (Suc n)
  show ?case
    using Suc.IH [of "RO_INC i"] Suc.prems ring_idx_facts(1) [OF Suc.prems(1,2)] by auto
qed

lemma ring_len: "h < 6 \<Longrightarrow> t < 6 \<Longrightarrow> length (ring_idx h t) \<le> 6"
  by (auto simp: ring_idx_def)

section \<open>The queue of the pressed keys\<close>

definition ring_window :: "'a report_state_scheme \<Rightarrow> nat list" where
  "ring_window s = (if cb_count s = 0 then [] else ring_idx (cb_head s) (cb_tail s))"

definition ring_keys :: "'a report_state_scheme \<Rightarrow> u8 list" where
  "ring_keys s = filter (\<lambda>k. k \<noteq> 0) (map (nth (report_keys s)) (ring_window s))"

definition ring_ok :: "'a report_state_scheme \<Rightarrow> bool" where
  "ring_ok s \<longleftrightarrow> length (report_keys s) = 6 \<and> cb_head s < 6 \<and> cb_tail s < 6 \<and>
     cb_count s = of_nat (length (ring_keys s)) \<and> distinct (ring_keys s) \<and>
     (\<forall>j < 6. j \<notin> set (ring_window s) \<longrightarrow> report_keys s ! j = 0) \<and>
     (cb_count s = 0 \<longrightarrow> cb_head s = cb_tail s) \<and>
     (cb_count s \<noteq> 0 \<longrightarrow> report_keys s ! RO_DEC (cb_tail s) \<noteq> 0)"

lemma window_len: "cb_head s < 6 \<Longrightarrow> cb_tail s < 6 \<Longrightarrow> length (ring_window s) \<le> 6"
  by (simp add: ring_window_def ring_len)

lemma ring_keys_len: "cb_head s < 6 \<Longrightarrow> cb_tail s < 6 \<Longrightarrow> length (ring_keys s) \<le> 6"
  unfolding ring_keys_def using window_len [of s] length_filter_le [of _ "map (nth (report_keys s)) (ring_window s)"]
  by (metis (lifting) le_trans length_map)

lemma of_nat_u8_eq_0: "n \<le> 6 \<Longrightarrow> (of_nat n :: u8) = 0 \<longleftrightarrow> n = 0"
  by (auto simp: word_of_nat_eq_0_iff dest: nat_dvd_not_less)

text \<open>Writing a new key at the tail; \<open>w\<close> is the window before the write.\<close>

lemma ring_append_ok:
  fixes s :: "'a report_state_scheme"
  defines "h \<equiv> cb_head s" and "t \<equiv> cb_tail s" and "ks \<equiv> report_keys s"
  assumes dims: "length ks = 6" "h < 6" "t < 6"
    and w: "w = (if h = t then [] else ring_idx h t)"
    and r: "r = filter (\<lambda>k. k \<noteq> 0) (map (nth ks) w)"
    and c: "c \<noteq> 0" "c \<notin> set r" "distinct r" and cnt: "cb_count s = of_nat (length r)"
    and out: "\<And>j. j < 6 \<Longrightarrow> j \<notin> set w \<Longrightarrow> j \<noteq> t \<Longrightarrow> ks ! j = 0"
  shows "ring_ok (ring_append c s)" and "ring_keys (ring_append c s) = r @ [c]"
proof -
  let ?s = "ring_append c s"
  have tw: "t \<notin> set w" using w ring_idx_facts(6) [OF dims(2,3)] by auto
  have lw: "length w \<le> 5"
  proof -
    have "distinct w" using w ring_idx_facts(4) [OF dims(2,3)] by simp
    then have d: "distinct (w @ [t])" using tw by simp
    have sub: "set (w @ [t]) \<subseteq> {..<6}" using w dims ring_idx_facts(5) [OF dims(2,3)] by auto
    have "card (set (w @ [t])) \<le> card {..<6::nat}" by (rule card_mono [OF _ sub]) simp
    then have "length (w @ [t]) \<le> 6" using distinct_card [OF d] by simp
    then show ?thesis by simp
  qed
  have lr: "length r \<le> 5"
    using lw r length_filter_le [of "\<lambda>k. k \<noteq> 0" "map (nth ks) w"] by (metis le_trans length_map)
  have f: "report_keys ?s = ks[t := c]" "cb_tail ?s = RO_INC t" "cb_head ?s = h" "cb_count ?s = of_nat (Suc (length r))"
    by (simp_all add: ring_append_def assms(1-3) cnt)
  have nz: "cb_count ?s \<noteq> 0" using lr of_nat_u8_eq_0 [of "Suc (length r)"] f(4) by simp
  have win: "ring_window ?s = w @ [t]"
    using nz f w ring_idx_facts(3) [OF dims(2,3)] by (simp add: ring_window_def)
  have keep: "map (nth (ks[t := c])) w = map (nth ks) w" using tw by (auto intro: nth_list_update_neq)
  show rk: "ring_keys ?s = r @ [c]"
    unfolding ring_keys_def win f map_append filter_append keep using c(1) dims r by simp
  have o: "\<And>j. j < 6 \<Longrightarrow> j \<notin> set (w @ [t]) \<Longrightarrow> ks[t := c] ! j = 0"
    using out by (simp add: nth_list_update)
  show "ring_ok ?s"
    using dims c o nz ring_idx_facts(9) [OF dims(2,3)]
    by (auto simp: ring_ok_def rk win f)
qed

text \<open>
  The shift compacts a full window whose last slot is in use: \<open>w\<close> are the slots in the order of
  the ring, \<open>r\<close> the keys already moved to the front, followed by \<open>off\<close> free slots.
\<close>

lemma map_nth_update:
  assumes "distinct w" "p < length w" "w ! p < length ks"
  shows "map (nth (ks[w ! p := x])) w = (map (nth ks) w)[p := x]"
  using assms by (auto intro!: nth_equalityI simp: nth_list_update nth_eq_iff_index_eq)

lemma ring_shift_list:
  fixes w :: "nat list"
  assumes w: "distinct w" "\<forall>j \<in> set w. j < length ks" "\<forall>p. Suc p < length w \<longrightarrow> RO_INC (w ! p) = w ! Suc p"
      "RO_INC (last w) = w ! 0"
    and m: "map (nth ks) w = r @ replicate off 0 @ rest" and ne: "rest \<noteq> []" "0 < off" and n: "length rest \<le> n"
  shows "ring_shift n ks (w ! 0) (w ! length r) off (w ! (length r + off)) =
      (ks', off') \<Longrightarrow> length ks' = length ks \<and> off' = off + length (filter (\<lambda>k. k = 0) rest) \<and>
        map (nth ks') w = r @ filter (\<lambda>k. k \<noteq> 0) rest @ replicate off' 0"
  using m ne n w(2)
proof (induction n arbitrary: ks r off rest)
  case 0
  then show ?case by simp
next
  case (Suc n)
  obtain x rest' where rest: "rest = x # rest'" using Suc.prems(3) by (cases rest) auto
  have lw: "length w = length r + off + Suc (length rest')"
    using arg_cong [OF Suc.prems(2), of length] rest by simp
  define pe pi' where "pe = length r" and "pi' = length r + off"
  have p: "pe < length w" "pi' < length w" "pe < pi'" using lw Suc.prems(4) by (simp_all add: pe_def pi'_def)
  have b: "w ! pe < length ks" "w ! pi' < length ks" using Suc.prems(6) p by simp_all
  have x: "ks ! (w ! pi') = x"
  proof -
    have "ks ! (w ! pi') = map (nth ks) w ! pi'" using p by simp
    then show ?thesis by (simp add: Suc.prems(2) rest pi'_def nth_append)
  qed
  have nxt: "RO_INC (w ! pi') = (if rest' = [] then w ! 0 else w ! Suc pi')"
  proof (cases "rest' = []")
    case True
    then have "w ! pi' = last w" using lw
      by (metis add_Suc_right add_0_right diff_Suc_1 last_conv_nth list.size(3) nat.simps(3) pi'_def)
    then show ?thesis using w(4) True by simp
  next
    case False
    then show ?thesis using w(3) lw by (simp add: pi'_def)
  qed
  have neq: "rest' \<noteq> [] \<Longrightarrow> w ! Suc pi' \<noteq> w ! 0"
    using w(1) lw by (auto simp: nth_eq_iff_index_eq pi'_def)
  have inc: "RO_INC (w ! pe) = w ! Suc pe" using w(3) p by simp
  show ?case
  proof (cases "x = 0")
    case True
    have m: "map (nth ks) w = r @ replicate (Suc off) 0 @ rest'"
      using Suc.prems(2) rest True by (simp add: replicate_app_Cons_same)
    show ?thesis
    proof (cases "rest' = []")
      case True
      then show ?thesis using Suc.prems(1) x \<open>x = 0\<close> nxt m rest by (auto simp: pi'_def)
    next
      case False
      then have "ring_shift n ks (w ! 0) (w ! length r) (Suc off) (w ! (length r + Suc off)) = (ks', off')"
        using Suc.prems(1) x \<open>x = 0\<close> nxt neq by (simp add: pi'_def)
      from Suc.IH [OF this m False] show ?thesis using Suc.prems(5,6) rest \<open>x = 0\<close> by simp
    qed
  next
    case False
    let ?ks = "ks[w ! pe := x, w ! pi' := 0]"
    have "map (nth ?ks) w = (map (nth ks) w)[pe := x, pi' := 0]"
      using map_nth_update [OF w(1), of pi' "ks[w ! pe := x]" 0] map_nth_update [OF w(1), of pe ks x] p b by simp
    also have "\<dots> = (r @ [x]) @ replicate off 0 @ rest'"
    proof -
      obtain k where k: "off = Suc k" using Suc.prems(4) by (cases off) auto
      show ?thesis
        by (simp add: Suc.prems(2) rest k pe_def pi'_def list_update_append replicate_app_Cons_same)
    qed
    finally have m: "map (nth ?ks) w = (r @ [x]) @ replicate off 0 @ rest'" .
    show ?thesis
    proof (cases "rest' = []")
      case True
      then have "(ks', off') = (?ks, off)"
        using Suc.prems(1) x False nxt by (auto simp: pi'_def pe_def)
      then show ?thesis using m True rest False by simp
    next
      case rest': False
      then have "ring_shift n ?ks (w ! 0) (w ! length (r @ [x])) off (w ! (length (r @ [x]) + off)) = (ks', off')"
        using Suc.prems(1) x False nxt neq inc by (simp add: pi'_def pe_def)
      from Suc.IH [OF this m rest' Suc.prems(4)] show ?thesis using Suc.prems(5,6) rest False by simp
    qed
  qed
qed

lemma ring_idx_full:
  assumes "h < 6"
  shows "length (ring_idx h h) = 6" and "ring_idx h h ! 0 = h" and "RO_INC (last (ring_idx h h)) = h"
    and "\<forall>p. Suc p < 6 \<longrightarrow> RO_INC (ring_idx h h ! p) = ring_idx h h ! Suc p"
    and "0 < off \<Longrightarrow> off < 6 \<Longrightarrow> ring_idx h (RO_SUB h off) = take (6 - off) (ring_idx h h) \<and> RO_SUB h off \<noteq> h"
    and "ring_idx (RO_INC h) h = tl (ring_idx h h)" and "RO_INC h \<noteq> h"
proof -
  have "list_all (\<lambda>h. length (ring_idx h h) = 6 \<and> ring_idx h h ! 0 = h \<and> RO_INC (last (ring_idx h h)) = h \<and>
      list_all (\<lambda>p. RO_INC (ring_idx h h ! p) = ring_idx h h ! Suc p) [0..<5] \<and>
      list_all (\<lambda>off. ring_idx h (RO_SUB h off) = take (6 - off) (ring_idx h h) \<and> RO_SUB h off \<noteq> h) [1..<6] \<and>
      ring_idx (RO_INC h) h = tl (ring_idx h h) \<and> RO_INC h \<noteq> h) [0..<6]"
    by code_simp
  moreover have "h \<in> set [0..<6]" using assms by simp
  ultimately have *: "length (ring_idx h h) = 6 \<and> ring_idx h h ! 0 = h \<and> RO_INC (last (ring_idx h h)) = h \<and>
      list_all (\<lambda>p. RO_INC (ring_idx h h ! p) = ring_idx h h ! Suc p) [0..<5] \<and>
      list_all (\<lambda>off. ring_idx h (RO_SUB h off) = take (6 - off) (ring_idx h h) \<and> RO_SUB h off \<noteq> h) [1..<6] \<and>
      ring_idx (RO_INC h) h = tl (ring_idx h h) \<and> RO_INC h \<noteq> h"
    unfolding list_all_iff by blast
  then show "length (ring_idx h h) = 6" "ring_idx h h ! 0 = h" "RO_INC (last (ring_idx h h)) = h"
    "ring_idx (RO_INC h) h = tl (ring_idx h h)" "RO_INC h \<noteq> h" by blast+
  show "\<forall>p. Suc p < 6 \<longrightarrow> RO_INC (ring_idx h h ! p) = ring_idx h h ! Suc p"
  proof (intro allI impI)
    fix p :: nat
    assume "Suc p < 6"
    then have "p \<in> set [0..<5]" by simp
    then show "RO_INC (ring_idx h h ! p) = ring_idx h h ! Suc p" using * unfolding list_all_iff by blast
  qed
  show "0 < off \<Longrightarrow> off < 6 \<Longrightarrow> ring_idx h (RO_SUB h off) = take (6 - off) (ring_idx h h) \<and> RO_SUB h off \<noteq> h"
    using * unfolding list_all_iff by simp
qed

lemma ring_keys_nz:
  "cb_count s \<noteq> 0 \<Longrightarrow> ring_keys s = filter (\<lambda>k. k \<noteq> 0) (map (nth (report_keys s)) (ring_idx (cb_head s) (cb_tail s)))"
  by (simp add: ring_keys_def ring_window_def)

text \<open>The four cases of an addition; \<open>ring_spec\<close> is what the queue does.\<close>

definition ring_spec :: "u8 \<Rightarrow> u8 list \<Rightarrow> u8 list" where
  "ring_spec c r = (if c \<in> set r then r else (if length r = 6 then tl r else r) @ [c])"

lemma ring_pop_ok:
  assumes ok: "ring_ok s" and n0: "cb_count s \<noteq> 0" and c: "c \<noteq> 0" "c \<notin> set (ring_keys s)"
    and full: "cb_tail s = cb_head s" and none: "find (\<lambda>j. report_keys s ! j = 0) (ring_idx (cb_head s) (cb_head s)) = None"
  defines "s1 \<equiv> s\<lparr>cb_head := RO_INC (cb_head s), cb_count := cb_count s - 1\<rparr>"
  shows "ring_ok (ring_append c s1) \<and> ring_keys (ring_append c s1) = ring_spec c (ring_keys s)"
proof -
  let ?w = "ring_idx (cb_head s) (cb_head s)" and ?r = "ring_keys s"
  have h: "cb_head s < 6" and ks: "length (report_keys s) = 6" and d: "distinct ?r"
    and cnt: "cb_count s = of_nat (length ?r)"
    using ok by (simp_all add: ring_ok_def)
  note W = ring_idx_full [OF h]
  have all: "\<forall>j \<in> set ?w. report_keys s ! j \<noteq> 0" using none by (auto simp: find_None_iff)
  have r: "?r = map (nth (report_keys s)) ?w"
    using all n0 full by (simp add: ring_keys_nz filter_id_conv)
  have l6: "length ?r = 6" using r W(1) by simp
  have tlr: "tl ?r = filter (\<lambda>k. k \<noteq> 0) (map (nth (report_keys s)) (tl ?w))"
    using all unfolding r by (cases ?w) (simp_all add: filter_id_conv)
  have sub: "set (tl ?r) \<subseteq> set ?r" by (cases ?r) auto
  have cnt1: "cb_count s - 1 = of_nat (length (tl ?r))" using cnt l6 by simp
  have full_set: "\<And>j. j < 6 \<Longrightarrow> j \<noteq> cb_head s \<Longrightarrow> j \<in> set (tl ?w)"
    using ring_idx_facts(7) [OF h h] ring_idx_facts(1) [OF h h] by (metis lessThan_iff list.sel(3) set_ConsD)
  have "ring_ok (ring_append c s1)" "ring_keys (ring_append c s1) = tl ?r @ [c]"
  proof -
    have f: "report_keys s1 = report_keys s" "cb_head s1 = RO_INC (cb_head s)" "cb_tail s1 = cb_head s"
      "cb_count s1 = cb_count s - 1" using full by (simp_all add: s1_def)
    have a: "length (report_keys s1) = 6" "cb_head s1 < 6" "cb_tail s1 < 6"
      "tl ?w = (if cb_head s1 = cb_tail s1 then [] else ring_idx (cb_head s1) (cb_tail s1))"
      using ks h W(6,7) by (simp_all add: f)
    have b: "tl ?r = filter (\<lambda>k. k \<noteq> 0) (map (nth (report_keys s1)) (tl ?w))" unfolding f by (rule tlr)
    have c': "c \<notin> set (tl ?r)" "distinct (tl ?r)" "cb_count s1 = of_nat (length (tl ?r))"
      using sub c(2) distinct_tl [OF d] cnt1 unfolding f by blast+
    have o: "\<And>j. j < 6 \<Longrightarrow> j \<notin> set (tl ?w) \<Longrightarrow> j \<noteq> cb_tail s1 \<Longrightarrow> report_keys s1 ! j = 0"
      using full_set unfolding f by blast
    show "ring_ok (ring_append c s1)" "ring_keys (ring_append c s1) = tl ?r @ [c]"
      using ring_append_ok [OF a b c(1) c' o] by blast+
  qed
  then show ?thesis using c(2) l6 by (simp add: ring_spec_def)
qed

lemma find_split:
  "find P xs = Some e \<Longrightarrow> \<exists>p < length xs. xs ! p = e \<and> P e \<and> (\<forall>x \<in> set (take p xs). \<not> P x)"
proof (induction xs)
  case (Cons x xs)
  show ?case
  proof (cases "P x")
    case True
    then show ?thesis using Cons.prems by (auto intro: exI [of _ 0])
  next
    case False
    then obtain p where "p < length xs" "xs ! p = e" "P e" "\<forall>x \<in> set (take p xs). \<not> P x"
      using Cons by auto
    then show ?thesis using False by (auto intro!: exI [of _ "Suc p"])
  qed
qed simp

lemma filter_zeros: "length (filter (\<lambda>k. k \<noteq> 0) xs) + length (filter (\<lambda>k. k = 0) xs) = length xs"
  by (induction xs) auto

lemma ring_shift_ok:
  assumes ok: "ring_ok s" and n0: "cb_count s \<noteq> 0" and c: "c \<noteq> 0" "c \<notin> set (ring_keys s)"
    and full: "cb_tail s = cb_head s" and e: "find (\<lambda>j. report_keys s ! j = 0) (ring_idx (cb_head s) (cb_head s)) = Some e"
    and sh: "ring_shift 6 (report_keys s) (cb_tail s) e 1 (RO_INC e) = (ks', off)"
  defines "s1 \<equiv> s\<lparr>report_keys := ks', cb_tail := RO_SUB (cb_tail s) off\<rparr>"
  shows "ring_ok (ring_append c s1) \<and> ring_keys (ring_append c s1) = ring_spec c (ring_keys s)"
proof -
  let ?w = "ring_idx (cb_head s) (cb_head s)" and ?r = "ring_keys s" and ?ks = "report_keys s"
  let ?m = "map (nth ?ks) ?w"
  have h: "cb_head s < 6" and ks: "length ?ks = 6" and d: "distinct ?r"
    and cnt: "cb_count s = of_nat (length ?r)" and tight: "?ks ! RO_DEC (cb_head s) \<noteq> 0"
    using ok n0 full by (simp_all add: ring_ok_def)
  note W = ring_idx_full [OF h]
  obtain p where p: "p < 6" "?w ! p = e" "?ks ! e = 0" "\<forall>j \<in> set (take p ?w). ?ks ! j \<noteq> 0"
    using find_split [OF e] W(1) by auto
  have lastw: "last ?w = RO_DEC (cb_head s)" using ring_idx_facts(2) [OF h h] by (metis last_snoc)
  have wne: "?w \<noteq> []" using W(1) by (metis list.size(3) zero_neq_numeral)
  have "last ?w = ?w ! 5" using last_conv_nth [OF wne] W(1) by simp
  then have "p \<noteq> 5" using p(2,3) tight lastw by metis
  then have p5: "p < 5" using p(1) by simp
  define rest where "rest = drop (Suc p) ?m"
  have r0: "filter (\<lambda>k. k \<noteq> 0) (take p ?m) = take p ?m"
    using p(4) by (auto simp: filter_id_conv take_map)
  have m: "?m = take p ?m @ replicate 1 0 @ rest"
    using id_take_nth_drop [of p ?m] p W(1) by (simp add: rest_def)
  have rest_ne: "rest \<noteq> []" using p5 W(1) by (simp add: rest_def)
  have last_rest: "last rest \<noteq> 0"
    using rest_ne lastw tight W(1) unfolding rest_def by (simp add: last_map [OF wne])
  have r: "?r = take p ?m @ filter (\<lambda>k. k \<noteq> 0) rest"
    unfolding ring_keys_nz [OF n0] full by (subst m) (simp only: filter_append r0, simp)
  have w: "distinct ?w" "\<forall>j \<in> set ?w. j < length ?ks" "\<forall>p. Suc p < length ?w \<longrightarrow> RO_INC (?w ! p) = ?w ! Suc p"
    using ring_idx_facts(4,5) [OF h h] ks W(1,4) by auto
  have w4: "RO_INC (last ?w) = ?w ! 0" by (simp only: W(2,3))
  have lt: "length (take p ?m) = p" using p W(1) by simp
  have "ring_shift 6 ?ks (?w ! 0) (?w ! length (take p ?m)) 1 (?w ! (length (take p ?m) + 1)) = (ks', off)"
  proof -
    have "RO_INC (?w ! p) = ?w ! Suc p" using w(3) p5 W(1) by simp
    then show ?thesis using sh p(2) W(2) full unfolding lt by simp
  qed
  from ring_shift_list [OF w w4 m rest_ne _ _ this] W(1)
  have S: "length ks' = 6" "off = Suc (length (filter (\<lambda>k. k = 0) rest))"
    "map (nth ks') ?w = ?r @ replicate off 0"
    unfolding r using ks by (simp_all add: rest_def)
  have ne: "?r \<noteq> []" unfolding r using last_rest rest_ne last_in_set [OF rest_ne] by (auto simp: filter_empty_conv)
  have lr: "length ?r + off = 6" using arg_cong [OF S(3), of length] W(1) by simp
  have off: "0 < off" "off < 6" "6 - off = length ?r" using lr ne S(2) by (cases ?r; simp)+
  note T = W(5) [OF off(1,2)]
  let ?w1 = "take (length ?r) ?w"
  have m1: "map (nth ks') ?w1 = ?r" using arg_cong [OF S(3), of "take (length ?r)"] by (simp add: take_map)
  have rr: "filter (\<lambda>k. k \<noteq> 0) ?r = ?r" by (simp add: ring_keys_def)
  have "ring_ok (ring_append c s1)" "ring_keys (ring_append c s1) = ?r @ [c]"
  proof -
    have f: "report_keys s1 = ks'" "cb_head s1 = cb_head s" "cb_tail s1 = RO_SUB (cb_head s) off"
      "cb_count s1 = of_nat (length ?r)" using full cnt by (simp_all add: s1_def)
    have a: "length (report_keys s1) = 6" "cb_head s1 < 6" "cb_tail s1 < 6"
      "?w1 = (if cb_head s1 = cb_tail s1 then [] else ring_idx (cb_head s1) (cb_tail s1))"
      using S(1) h T off(3) by (simp_all add: f)
    have b: "?r = filter (\<lambda>k. k \<noteq> 0) (map (nth (report_keys s1)) ?w1)" unfolding f m1 using rr by simp
    have o: "report_keys s1 ! j = 0" if j: "j < 6" "j \<notin> set ?w1" for j
    proof -
      have "j \<in> set ?w" using ring_idx_facts(7) [OF h h] j by blast
      then have "j \<in> set (drop (length ?r) ?w)" using j(2) by (metis UnE append_take_drop_id set_append)
      then have "ks' ! j \<in> set (drop (length ?r) (map (nth ks') ?w))" by (simp add: drop_map)
      then show ?thesis unfolding S(3) f by simp
    qed
    show "ring_ok (ring_append c s1)" "ring_keys (ring_append c s1) = ?r @ [c]"
      using ring_append_ok [OF a b c(1) c(2) d f(4)] o by blast+
  qed
  then show ?thesis using c(2) off(1) lr by (simp add: ring_spec_def)
qed

lemma ring_add:
  assumes ok: "ring_ok s" and c: "c \<noteq> 0"
  shows "ring_ok (add_key_byte_ring c s) \<and> ring_keys (add_key_byte_ring c s) = ring_spec c (ring_keys s)"
proof (cases "cb_count s = 0")
  case True
  have a: "length (report_keys s) = 6" "cb_head s < 6" "cb_tail s < 6" "cb_head s = cb_tail s"
    "\<And>j. j < 6 \<Longrightarrow> report_keys s ! j = 0" "ring_keys s = []"
    using ok True by (simp_all add: ring_ok_def ring_window_def ring_keys_def)
  have "ring_ok (ring_append c s)" "ring_keys (ring_append c s) = [] @ [c]"
    using ring_append_ok [OF a(1-3), of "[]" "[]" c] a(4,5) c True by simp_all
  then show ?thesis using True a(6) by (simp add: add_key_byte_ring_def ring_spec_def)
next
  case n0: False
  let ?ks = "report_keys s" and ?h = "cb_head s" and ?t = "cb_tail s" and ?r = "ring_keys s"
  have dims: "length ?ks = 6" "?h < 6" "?t < 6" and d: "distinct ?r" and cnt: "cb_count s = of_nat (length ?r)"
    and out: "\<And>j. j < 6 \<Longrightarrow> j \<notin> set (ring_idx ?h ?t) \<Longrightarrow> ?ks ! j = 0"
    using ok n0 by (simp_all add: ring_ok_def ring_window_def)
  note r = ring_keys_nz [OF n0]
  have cin: "c \<in> set (map (nth ?ks) (ring_idx ?h ?t)) \<longleftrightarrow> c \<in> set ?r" unfolding r using c by auto
  note se = ring_search_list [OF dims(2,3) ring_len [OF dims(2,3)], of ?ks c None]
  show ?thesis
  proof (cases "c \<in> set ?r")
    case True
    then have "add_key_byte_ring c s = s" using n0 se cin by (simp add: add_key_byte_ring_def)
    then show ?thesis using ok True by (simp add: ring_spec_def)
  next
    case c': False
    have se': "ring_search 6 ?ks c ?t ?h None = Some (find (\<lambda>j. ?ks ! j = 0) (ring_idx ?h ?t))"
      using se cin c' by simp
    show ?thesis
    proof (cases "?t = ?h")
      case False
      have l: "length ?r \<noteq> 6"
      proof
        assume "length ?r = 6"
        moreover have "length (ring_idx ?h ?t) < 6" using False dims by (auto simp: ring_idx_def)
        ultimately show False unfolding r using length_filter_le [of "\<lambda>k. k \<noteq> 0" "map (nth ?ks) (ring_idx ?h ?t)"] by simp
      qed
      have w: "ring_idx ?h ?t = (if ?h = ?t then [] else ring_idx ?h ?t)" using False by simp
      have "add_key_byte_ring c s = ring_append c s" using n0 se' False by (simp add: add_key_byte_ring_def)
      then show ?thesis
        using ring_append_ok [OF dims w r c c' d cnt] out c' l by (simp add: ring_spec_def)
    next
      case full: True
      show ?thesis
      proof (cases "find (\<lambda>j. ?ks ! j = 0) (ring_idx ?h ?h)")
        case None
        then have "add_key_byte_ring c s = ring_append c (s\<lparr>cb_head := RO_INC ?h, cb_count := cb_count s - 1\<rparr>)"
          using n0 se' full by (simp add: add_key_byte_ring_def)
        then show ?thesis using ring_pop_ok [OF ok n0 c c' full None] by simp
      next
        case (Some e)
        obtain ks' off where sh: "ring_shift 6 ?ks ?t e 1 (RO_INC e) = (ks', off)" by (metis prod.exhaust)
        then have "add_key_byte_ring c s = ring_append c (s\<lparr>report_keys := ks', cb_tail := RO_SUB ?t off\<rparr>)"
          using n0 se' full Some by (simp add: add_key_byte_ring_def)
        then show ?thesis using ring_shift_ok [OF ok n0 c c' full Some sh] by simp
      qed
    qed
  qed
qed

section \<open>Deletion\<close>

lemma ring_trim_list:
  "h < 6 \<Longrightarrow> t < 6 \<Longrightarrow> length (ring_idx h t) \<le> n \<Longrightarrow> ks ! RO_DEC t = 0 \<Longrightarrow>
   \<exists>j \<in> set (ring_idx h t). ks ! j \<noteq> 0 \<Longrightarrow> ring_trim n ks h t = t' \<Longrightarrow>
   t' < 6 \<and> ks ! RO_DEC t' \<noteq> 0 \<and> (\<exists>zs. ring_idx h t = ring_idx h t' @ zs \<and> (\<forall>j \<in> set zs. ks ! j = 0))"
proof (induction n arbitrary: t)
  case 0
  then show ?case using ring_idx_facts(1) [of h t] by simp
next
  case (Suc n)
  let ?t = "RO_DEC t"
  note F = ring_idx_facts(2) [OF Suc.prems(1,2)]
  have ne: "RO_INC h \<noteq> t" using Suc.prems(4,5) F by (auto split: if_splits)
  then have idx: "ring_idx h t = ring_idx h ?t @ [?t]" using F by simp
  have neh: "?t \<noteq> h" using ne ring_idx_facts(8) [OF Suc.prems(1,2)] by simp
  have ex: "\<exists>j \<in> set (ring_idx h ?t). ks ! j \<noteq> 0" using Suc.prems(4,5) idx by auto
  show ?case
  proof (cases "ks ! RO_DEC ?t = 0")
    case True
    then have "ring_trim n ks h ?t = t'" using Suc.prems(6) neh by (simp add: Let_def)
    then obtain zs where "t' < 6" "ks ! RO_DEC t' \<noteq> 0" "ring_idx h ?t = ring_idx h t' @ zs" "\<forall>j \<in> set zs. ks ! j = 0"
      using Suc.IH [OF Suc.prems(1) ro_less(2) _ True ex] Suc.prems(3) idx by auto
    then show ?thesis using idx Suc.prems(4) by (auto intro!: exI [of _ "zs @ [?t]"])
  next
    case False
    then have "t' = ?t" using Suc.prems(6) by (simp add: Let_def)
    then show ?thesis using idx False Suc.prems(4) by auto
  qed
qed

lemma distinct_filter_map_inj:
  "distinct (filter P (map f xs)) \<Longrightarrow> i \<in> set xs \<Longrightarrow> j \<in> set xs \<Longrightarrow> f i = f j \<Longrightarrow> P (f i) \<Longrightarrow> i \<noteq> j \<Longrightarrow> False"
proof (induction xs)
  case (Cons x xs)
  have "f y \<in> set (filter P (map f xs))" if "y \<in> set xs" "P (f y)" for y
    using that by simp
  then show ?case using Cons by (auto split: if_splits) (metis image_eqI)+
qed simp

lemma filter_map_zeroed:
  "\<forall>j \<in> set xs. f' j = (if f j = c then 0 else f j) \<Longrightarrow>
   filter (\<lambda>k :: u8. k \<noteq> 0) (map f' xs) = filter (\<lambda>k. k \<noteq> c) (filter (\<lambda>k. k \<noteq> 0) (map f xs))"
  by (induction xs) auto

lemma ring_del:
  assumes ok: "ring_ok s" and c: "c \<noteq> 0"
  shows "ring_ok (del_key_byte_ring c s) \<and> ring_keys (del_key_byte_ring c s) = filter (\<lambda>k. k \<noteq> c) (ring_keys s)"
proof (cases "cb_count s = 0")
  case True
  then have "ring_keys s = []" by (simp add: ring_keys_def ring_window_def)
  then show ?thesis using True ok by (simp add: del_key_byte_ring_def)
next
  case n0: False
  let ?ks = "report_keys s" and ?h = "cb_head s" and ?t = "cb_tail s" and ?r = "ring_keys s"
  let ?w = "ring_idx ?h ?t"
  have dims: "length ?ks = 6" "?h < 6" "?t < 6" and d: "distinct ?r" and cnt: "cb_count s = of_nat (length ?r)"
    and out: "\<And>j. j < 6 \<Longrightarrow> j \<notin> set ?w \<Longrightarrow> ?ks ! j = 0" and tight: "?ks ! RO_DEC ?t \<noteq> 0"
    using ok n0 by (simp_all add: ring_ok_def ring_window_def)
  note r = ring_keys_nz [OF n0]
  have fi: "ring_find 6 ?ks c ?t ?h = find (\<lambda>j. ?ks ! j = c) ?w"
    by (rule ring_find_list [OF dims(2,3) ring_len [OF dims(2,3)]])
  show ?thesis
  proof (cases "find (\<lambda>j. ?ks ! j = c) ?w")
    case None
    then have "c \<notin> set ?r" unfolding r by (auto simp: find_None_iff)
    then have "filter (\<lambda>k. k \<noteq> c) ?r = ?r" by (auto simp: filter_id_conv)
    then show ?thesis using None fi n0 ok by (simp add: del_key_byte_ring_def)
  next
    case (Some i)
    then have i: "i \<in> set ?w" "?ks ! i = c" using find_split [OF Some] by auto
    then have i6: "i < 6" using ring_idx_facts(5) [OF dims(2,3)] by auto
    define ks1 r1 where "ks1 = ?ks[i := 0]" and "r1 = filter (\<lambda>k. k \<noteq> c) ?r"
    have "\<forall>j \<in> set ?w. ks1 ! j = (if ?ks ! j = c then 0 else ?ks ! j)"
      using distinct_filter_map_inj [OF d [unfolded r], of _ i] i i6 c dims(1)
      by (auto simp: ks1_def nth_list_update)
    then have r1: "filter (\<lambda>k. k \<noteq> 0) (map (nth ks1) ?w) = r1"
      unfolding r1_def r by (rule filter_map_zeroed)
    have cr: "c \<in> set ?r" using i c unfolding r by auto
    have "r1 = remove1 c ?r" using d by (simp add: r1_def distinct_remove1_removeAll removeAll_filter_not_eq) metis
    then have lr: "length ?r = Suc (length r1)" using cr length_pos_if_in_set [OF cr] by (simp add: length_remove1)
    have cnt1: "cb_count s - 1 = of_nat (length r1)" using cnt lr by simp
    have le: "length r1 \<le> 6" using lr ring_keys_len [OF dims(2,3)] by simp
    note z1 = of_nat_u8_eq_0 [OF le]
    have out1: "\<And>j. j < 6 \<Longrightarrow> j \<notin> set ?w \<Longrightarrow> ks1 ! j = 0" using out i i6 dims(1) by (auto simp: ks1_def nth_list_update)
    have l1: "length ks1 = 6" "ks1 ! i = 0" using dims(1) i6 by (simp_all add: ks1_def)
    have d1: "distinct r1" using d by (simp add: r1_def)
    show ?thesis
    proof (cases "r1 = []")
      case True
      have "ks1 ! j = 0" if "j < 6" for j
      proof (cases "j \<in> set ?w")
        case T: True
        then show ?thesis using True r1 by (auto simp: filter_empty_conv)
      qed (use out1 that in blast)
      then have "ks1 = replicate 6 0" using l1 by (auto intro: nth_equalityI)
      moreover have "ring_trim 6 (replicate 6 0) 0 0 = 0" by code_simp
      ultimately have del: "del_key_byte_ring c s =
          s\<lparr>report_keys := ks1, cb_count := 0, cb_tail := 0, cb_head := 0\<rparr>"
        using n0 fi Some cnt1 True
        by (simp add: del_key_byte_ring_def ks1_def [symmetric] Let_def)
      show ?thesis
        using True \<open>ks1 = replicate 6 0\<close> unfolding del r1_def [symmetric]
        by (simp add: ring_ok_def ring_keys_def ring_window_def)
    next
      case False
      then have nz: "cb_count s - 1 \<noteq> 0" using cnt1 z1 by simp
      have ex: "\<exists>j \<in> set ?w. ks1 ! j \<noteq> 0" using False unfolding r1 [symmetric] by (auto simp: filter_empty_conv)
      define t' where "t' = (if i = RO_DEC ?t then ring_trim 6 ks1 ?h ?t else ?t)"
      have del: "del_key_byte_ring c s = s\<lparr>report_keys := ks1, cb_count := cb_count s - 1, cb_tail := t'\<rparr>"
        using n0 fi Some nz by (simp add: del_key_byte_ring_def ks1_def [symmetric] Let_def t'_def)
      have T: "t' < 6 \<and> ks1 ! RO_DEC t' \<noteq> 0 \<and> (\<exists>zs. ?w = ring_idx ?h t' @ zs \<and> (\<forall>j \<in> set zs. ks1 ! j = 0))"
      proof (cases "i = RO_DEC ?t")
        case True
        then show ?thesis
          using ring_trim_list [OF dims(2,3) ring_len [OF dims(2,3)] _ ex, of t'] l1 by (simp add: t'_def)
      next
        case False
        then show ?thesis using tight dims i6 by (simp add: t'_def ks1_def)
      qed
      then obtain zs where zs: "?w = ring_idx ?h t' @ zs" "\<forall>j \<in> set zs. ks1 ! j = 0" by blast
      have rk: "filter (\<lambda>k. k \<noteq> 0) (map (nth ks1) (ring_idx ?h t')) = r1"
        using r1 zs by (simp add: filter_empty_conv)
      have o: "\<And>j. j < 6 \<Longrightarrow> j \<notin> set (ring_idx ?h t') \<Longrightarrow> ks1 ! j = 0"
        using out1 zs by auto
      show ?thesis
        using T l1 dims nz d1 cnt1 rk o unfolding del r1_def [symmetric]
        by (simp add: ring_ok_def ring_keys_def ring_window_def)
    qed
  qed
qed

section \<open>The ring under the contract\<close>

lemma ring_pressed: "ring_ok s \<Longrightarrow> byte_pressed s k \<longleftrightarrow> k \<in> set (ring_keys s)"
proof
  assume ok: "ring_ok s" and "byte_pressed s k"
  then obtain j where j: "j < 6" "report_keys s ! j = k" "k \<noteq> 0"
    by (auto simp: byte_pressed_def ring_ok_def in_set_conv_nth)
  then have "j \<in> set (ring_window s)" using ok by (auto simp: ring_ok_def)
  then show "k \<in> set (ring_keys s)" using j(2,3) by (auto simp: ring_keys_def)
next
  assume ok: "ring_ok s" and "k \<in> set (ring_keys s)"
  then obtain j where j: "j \<in> set (ring_window s)" "report_keys s ! j = k" "k \<noteq> 0"
    by (auto simp: ring_keys_def)
  have "j < 6"
    using j(1) ok ring_idx_facts(5) [of "cb_head s" "cb_tail s"]
    by (auto simp: ring_window_def ring_ok_def split: if_splits)
  then show "byte_pressed s k" using j(2,3) ok nth_mem [of j "report_keys s"] by (simp add: byte_pressed_def ring_ok_def)
qed

lemma ring_spec_set:
  "set (ring_spec c r) \<subseteq> insert c (set r)" "length r < 6 \<Longrightarrow> set (ring_spec c r) = insert c (set r)"
  by (auto simp: ring_spec_def dest: list.set_sel(2) [rotated])

interpretation ring: key_report ring_ok byte_pressed "\<lambda>s c. length (ring_keys s) < 6"
  add_key_byte_ring del_key_byte_ring
proof
  fix s :: "'a report_state_scheme" and c k :: u8
  assume ok: "ring_ok s" and c: "c \<noteq> 0"
  note A = ring_add [OF ok c] and D = ring_del [OF ok c]
  show "ring_ok (add_key_byte_ring c s)" "ring_ok (del_key_byte_ring c s)" using A D by simp_all
  show "byte_pressed (add_key_byte_ring c s) k \<Longrightarrow> k = c \<or> byte_pressed s k"
    using ring_pressed [of "add_key_byte_ring c s"] ring_pressed [OF ok] A ring_spec_set(1) by fastforce
  show "length (ring_keys s) < 6 \<Longrightarrow> k = c \<or> byte_pressed s k \<Longrightarrow> byte_pressed (add_key_byte_ring c s) k"
    using ring_pressed [of "add_key_byte_ring c s"] ring_pressed [OF ok] A ring_spec_set(2) [of "ring_keys s" c] by auto
  show "byte_pressed (del_key_byte_ring c s) k \<longleftrightarrow> byte_pressed s k \<and> k \<noteq> c"
    using ring_pressed [of "del_key_byte_ring c s"] ring_pressed [OF ok] D by auto
qed

section \<open>All builds\<close>

definition report_good :: "'c report_cfg_scheme \<Rightarrow> 'a report_state_scheme \<Rightarrow> bool" where
  "report_good cfg s \<longleftrightarrow> length (nkro_bits s) = 30 \<and>
     (if RING_BUFFERED cfg then ring_ok s else length (report_keys s) = 6)"

definition report_room :: "'c report_cfg_scheme \<Rightarrow> 'a report_state_scheme \<Rightarrow> u8 \<Rightarrow> bool" where
  "report_room cfg s c \<longleftrightarrow>
     (if use_nkro cfg s then unat (drop_bit 3 c) < NKRO_REPORT_BITS
      else if RING_BUFFERED cfg then length (ring_keys s) < 6 else 0 \<in> set (report_keys s))"

lemma use_nkro_ops [frame_simps]:
  "use_nkro cfg (add_key_to_report cfg c s) = use_nkro cfg s"
  "use_nkro cfg (del_key_from_report cfg c s) = use_nkro cfg s"
  by (auto simp: use_nkro_def add_key_to_report_def del_key_from_report_def add_key_bit_def del_key_bit_def
      add_key_byte_def del_key_byte_def add_key_byte_plain_def del_key_byte_plain_def add_key_byte_ring_def
      del_key_byte_ring_def ring_append_def Let_def split: sum.splits option.splits prod.splits)

lemma key_pressed_cases:
  "is_key_pressed cfg k s = (if use_nkro cfg s then nkro_pressed s k else byte_pressed s k)"
  using and_bv_nonzero [of "nkro_bits s ! unat (drop_bit 3 k)" "unat (k AND 7)"]
  by (auto simp: is_key_pressed_def nkro_pressed_def byte_pressed_def bv_def)

lemma byte_ops_bits [frame_simps]:
  "nkro_bits (add_key_byte cfg c s) = nkro_bits s" "nkro_bits (del_key_byte cfg c s) = nkro_bits s"
  by (auto simp: add_key_byte_def del_key_byte_def add_key_byte_plain_def del_key_byte_plain_def add_key_byte_ring_def
      del_key_byte_ring_def ring_append_def Let_def split: sum.splits option.splits prod.splits)

lemma bit_ops_ring [frame_simps]:
  "ring_ok (add_key_bit c s) = ring_ok s" "ring_ok (del_key_bit c s) = ring_ok s"
  "report_keys (add_key_bit c s) = report_keys s" "report_keys (del_key_bit c s) = report_keys s"
  by (simp_all add: add_key_bit_def del_key_bit_def ring_ok_def ring_keys_def ring_window_def Let_def)

interpretation report: key_report "report_good (cfg :: 'c report_cfg_scheme) :: 'a report_state_scheme \<Rightarrow> bool" "\<lambda>s k. is_key_pressed cfg k s" "report_room cfg"
  "add_key_to_report cfg" "del_key_from_report cfg"
proof
  fix s :: "'a report_state_scheme" and c k :: u8
  assume g: "report_good cfg s" and c: "c \<noteq> 0"
  have b: "length (nkro_bits s) = 30" using g by (simp add: report_good_def)
  have r: "RING_BUFFERED cfg \<Longrightarrow> ring_ok s" "\<not> RING_BUFFERED cfg \<Longrightarrow> length (report_keys s) = 6"
    using g by (simp_all add: report_good_def)
  show "report_good cfg (add_key_to_report cfg c s)"
    using nkro.good_add [OF b c] ring.good_add [OF r(1) c] plain.good_add [OF r(2) c] r b
    by (simp add: report_good_def add_key_to_report_def frame_simps) (simp add: add_key_byte_def)
  show "report_good cfg (del_key_from_report cfg c s)"
    using nkro.good_del [OF b c] ring.good_del [OF r(1) c] plain.good_del [OF r(2) c] r b
    by (simp add: report_good_def del_key_from_report_def frame_simps) (simp add: del_key_byte_def)
  show "is_key_pressed cfg k (add_key_to_report cfg c s) \<Longrightarrow> k = c \<or> is_key_pressed cfg k s"
    using nkro.pressed_add [OF b c, of k] ring.pressed_add [OF r(1) c, of k] plain.pressed_add [OF r(2) c, of k]
    unfolding key_pressed_cases use_nkro_ops
    by (cases "use_nkro cfg s"; cases "RING_BUFFERED cfg") (simp_all add: add_key_to_report_def add_key_byte_def)
  show "report_room cfg s c \<Longrightarrow> k = c \<or> is_key_pressed cfg k s \<Longrightarrow> is_key_pressed cfg k (add_key_to_report cfg c s)"
    using nkro.pressed_room [OF b c, of k] ring.pressed_room [OF r(1) c, of k] plain.pressed_room [OF r(2) c, of k]
    unfolding key_pressed_cases report_room_def NKRO_REPORT_BITS_def use_nkro_ops
    by (cases "use_nkro cfg s"; cases "RING_BUFFERED cfg")
      (simp_all add: add_key_to_report_def add_key_byte_def)
  show "is_key_pressed cfg k (del_key_from_report cfg c s) \<longleftrightarrow> is_key_pressed cfg k s \<and> k \<noteq> c"
    using nkro.pressed_del [OF b c, of k] ring.pressed_del [OF r(1) c, of k] plain.pressed_del [OF r(2) c, of k]
    unfolding key_pressed_cases use_nkro_ops
    by (cases "use_nkro cfg s"; cases "RING_BUFFERED cfg")
      (simp_all add: del_key_from_report_def del_key_byte_def)
qed

section \<open>Properties\<close>

text \<open>
  C7: whatever sequence of additions and deletions a report goes through, in any build and
  mode, a key is reported as pressed only if the last operation on it was an addition: no key is
  stuck, not even when the six-key report overflows.
\<close>

theorem report_no_stuck_key:
  assumes "report_good cfg s" and "\<forall>p \<in> set ops. op_code p \<noteq> 0"
    and "is_key_pressed cfg k (run_ops (add_key_to_report cfg) (del_key_from_report cfg) ops s)"
  shows "held (\<lambda>k. is_key_pressed cfg k s) ops k"
  using report.no_stuck [OF assms] .

definition report_init :: report_state where
  "report_init = \<lparr>report_mods = 0, report_keys = replicate 6 0, nkro_report_mods = 0, nkro_bits = replicate 30 0,
     keyboard_protocol = 1, config_nkro = False, cb_head = 0, cb_tail = 0, cb_count = 0\<rparr>"

lemma report_init_good: "report_good cfg report_init"
  by (simp add: report_good_def report_init_def ring_ok_def ring_keys_def ring_window_def)

lemma report_no_stuck_key_witness:
  "\<not> is_key_pressed \<lparr>NKRO_ENABLE = False, RING_BUFFERED = True\<rparr> 5
     (run_ops (add_key_to_report \<lparr>NKRO_ENABLE = False, RING_BUFFERED = True\<rparr>)
       (del_key_from_report \<lparr>NKRO_ENABLE = False, RING_BUFFERED = True\<rparr>) [AddKey 5, AddKey 6, DelKey 5] report_init)"
proof
  assume "is_key_pressed \<lparr>NKRO_ENABLE = False, RING_BUFFERED = True\<rparr> 5
     (run_ops (add_key_to_report \<lparr>NKRO_ENABLE = False, RING_BUFFERED = True\<rparr>)
       (del_key_from_report \<lparr>NKRO_ENABLE = False, RING_BUFFERED = True\<rparr>) [AddKey 5, AddKey 6, DelKey 5] report_init)"
  from report_no_stuck_key [OF report_init_good _ this] show False by simp
qed

text \<open>
  As long as there is room, adding a key that is not pressed makes exactly that key
  pressed as well, and deleting it again restores what was pressed.
\<close>

theorem report_add_del:
  assumes "report_good cfg s" and "c \<noteq> 0" and "report_room cfg s c" and "\<not> is_key_pressed cfg c s"
  shows "(is_key_pressed cfg k (add_key_to_report cfg c s) \<longleftrightarrow> k = c \<or> is_key_pressed cfg k s) \<and>
    (is_key_pressed cfg k (del_key_from_report cfg c (add_key_to_report cfg c s)) \<longleftrightarrow> is_key_pressed cfg k s)"
proof
  show "is_key_pressed cfg k (add_key_to_report cfg c s) \<longleftrightarrow> k = c \<or> is_key_pressed cfg k s"
    using report.pressed_add [OF assms(1,2), of k] report.pressed_room [OF assms(1-3), of k] by blast
  show "is_key_pressed cfg k (del_key_from_report cfg c (add_key_to_report cfg c s)) \<longleftrightarrow> is_key_pressed cfg k s"
    using fun_cong [OF report.tap_leaves_no_trace [OF assms], of k] .
qed

lemma report_add_del_witness:
  "is_key_pressed \<lparr>NKRO_ENABLE = True, RING_BUFFERED = False\<rparr> 5
     (add_key_to_report \<lparr>NKRO_ENABLE = True, RING_BUFFERED = False\<rparr> 5 report_init) \<and>
   \<not> is_key_pressed \<lparr>NKRO_ENABLE = True, RING_BUFFERED = False\<rparr> 5
     (del_key_from_report \<lparr>NKRO_ENABLE = True, RING_BUFFERED = False\<rparr> 5
       (add_key_to_report \<lparr>NKRO_ENABLE = True, RING_BUFFERED = False\<rparr> 5 report_init))"
proof -
  have a: "report_room \<lparr>NKRO_ENABLE = True, RING_BUFFERED = False\<rparr> report_init 5"
    "\<not> is_key_pressed \<lparr>NKRO_ENABLE = True, RING_BUFFERED = False\<rparr> 5 report_init"
    by (simp_all add: report_room_def is_key_pressed_def use_nkro_def report_init_def)
  show ?thesis using report_add_del [OF report_init_good _ a] a(2) by simp
qed

text \<open>
  The ring buffer is a queue of the pressed keys: adding a new key puts it last and,
  with six keys pressed, drops the oldest; deleting removes the key and keeps the order; both
  keep the ring's invariant.
\<close>

theorem ring_is_queue:
  assumes "ring_ok s" and "c \<noteq> 0"
  shows "ring_ok (add_key_byte_ring c s) \<and>
      ring_keys (add_key_byte_ring c s) =
        (if c \<in> set (ring_keys s) then ring_keys s
         else (if length (ring_keys s) = 6 then tl (ring_keys s) else ring_keys s) @ [c]) \<and>
      ring_ok (del_key_byte_ring c s) \<and>
      ring_keys (del_key_byte_ring c s) = filter (\<lambda>k. k \<noteq> c) (ring_keys s)"
  using ring_add [OF assms] ring_del [OF assms] by (simp add: ring_spec_def)

lemma ring_is_queue_witness:
  "ring_keys (add_key_byte_ring 4 report_init) = [4]"
  using ring_is_queue [of report_init 4] report_init_good [of "\<lparr>NKRO_ENABLE = False, RING_BUFFERED = True\<rparr>"]
  by (simp add: report_good_def ring_keys_def ring_window_def report_init_def)

lemma ring_add_cleared:
  assumes "t < 6" "c \<noteq> 0"
  shows "add_key_byte_ring c (s\<lparr>report_keys := replicate 6 0, cb_head := 0, cb_tail := t, cb_count := m\<rparr>) =
    s\<lparr>report_keys := (replicate 6 0)[t := c], cb_head := 0, cb_tail := RO_INC t, cb_count := m + 1\<rparr>"
proof -
  have f: "ring_search 6 (replicate 6 0) c t 0 None = Some (Some 0)"
    using ring_search_list [of 0 t 6 "replicate 6 0" c None] ring_len [of 0 t] assms
      ring_idx_facts(1,5) [of 0 t] by auto
  have "ring_shift 6 (replicate 6 0) 0 0 1 (RO_INC 0) = (replicate 6 0, 6)" by code_simp
  moreover have "RO_SUB 0 6 = 0" by code_simp
  ultimately show ?thesis
    using f by (cases "t = 0") (simp_all add: add_key_byte_ring_def ring_append_def)
qed

text \<open>
  \<^verbatim>\<open>clear_keys_from_report\<close> clears the keys and not the ring's count. After 255 times
  pressing a key whose report is cleared before the key is released, the count of the ring wraps to
  0 at the next press, and the release of that press is ignored: the key is stuck.
\<close>

theorem ring_clear_stuck_key:
  fixes c :: u8
  defines "cfg \<equiv> \<lparr>NKRO_ENABLE = False, RING_BUFFERED = True\<rparr>"
  assumes "c \<noteq> 0"
  shows "is_key_pressed cfg c (del_key_from_report cfg c (add_key_to_report cfg c
     (((\<lambda>s. clear_keys_from_report cfg (add_key_to_report cfg c s)) ^^ 255) report_init)))"
proof -
  have cfg: "\<And>s :: report_state. use_nkro cfg s = False" "RING_BUFFERED cfg" by (simp_all add: cfg_def use_nkro_def)
  have run: "((\<lambda>s. clear_keys_from_report cfg (add_key_to_report cfg c s)) ^^ n) report_init =
    report_init\<lparr>report_keys := replicate 6 0, cb_head := 0, cb_tail := n mod 6, cb_count := of_nat n\<rparr>" for n
  proof (induction n)
    case 0
    then show ?case by (simp add: report_init_def)
  next
    case (Suc n)
    have "RO_INC (n mod 6) = Suc n mod 6" by (simp add: ro mod_Suc_eq)
    then show ?case
      using ring_add_cleared [of "n mod 6" c, where s = report_init and m = "of_nat n"] assms(2) Suc
      by (simp add: add_key_to_report_def add_key_byte_def clear_keys_from_report_def cfg add.commute)
  qed
  have "add_key_to_report cfg c (((\<lambda>s. clear_keys_from_report cfg (add_key_to_report cfg c s)) ^^ 255) report_init)
      = report_init\<lparr>report_keys := (replicate 6 0)[3 := c], cb_head := 0, cb_tail := 4, cb_count := 0\<rparr>"
    unfolding run using ring_add_cleared [of 3 c, where s = report_init and m = 255] assms(2)
    by (simp add: add_key_to_report_def add_key_byte_def cfg ro)
  then show ?thesis
    using assms(2) cfg
    by (simp add: del_key_from_report_def del_key_byte_def del_key_byte_ring_def is_key_pressed_def set_update_memI)
qed

lemma ring_clear_stuck_key_witness:
  "is_key_pressed \<lparr>NKRO_ENABLE = False, RING_BUFFERED = True\<rparr> 4
     (del_key_from_report \<lparr>NKRO_ENABLE = False, RING_BUFFERED = True\<rparr> 4
       (add_key_to_report \<lparr>NKRO_ENABLE = False, RING_BUFFERED = True\<rparr> 4
     (((\<lambda>s. clear_keys_from_report \<lparr>NKRO_ENABLE = False, RING_BUFFERED = True\<rparr>
         (add_key_to_report \<lparr>NKRO_ENABLE = False, RING_BUFFERED = True\<rparr> 4 s)) ^^ 255) report_init)))"
  by (rule ring_clear_stuck_key) simp

end
