(* ===== verification/ActionUtil.thy ===== *)
theory ActionUtil
  imports ReportRing
begin

text \<open>
  The modifier and report state of \<^verbatim>\<open>quantum/action_util.c\<close> with the sending functions of
  \<^verbatim>\<open>tmk_core/protocol/host.c\<close>. One record holds the static variables of \<^verbatim>\<open>action_util.c\<close>,
  \<^verbatim>\<open>action_layer.c\<close> and \<^verbatim>\<open>host.c\<close>; it extends the report state. \<open>out\<close> is the sequence of what
  leaves the firmware's core: reports handed to the host driver and calls of the user's hooks.
\<close>

section \<open>State\<close>

datatype channel = Usb | Bluetooth

datatype host_msg =
    KeyboardReport channel u8 "u8 list"
  | NkroReport u8 "u8 list"
  | SystemReport u16
  | ConsumerReport channel u16
  | OneshotModsChanged u8
  | OneshotLockedModsChanged u8
  | OneshotLayerChanged u8
  | UpdateKeymapConfig bool
  | CommandCall u8
  | MouseCall u8 bool
  | MouseClear
  | ProgrammableButtonClear
  | LedSet "bool \<times> bool \<times> bool"

datatype oneshot_swaphands = SHO_OFF | SHO_ACTIVE | SHO_PRESSED | SHO_USED

text \<open>\<open>now\<close> is what \<^verbatim>\<open>timer_read\<close> returns.\<close>

record 'l action_state = report_state +
  now :: u16
  real_mods :: u8
  weak_mods :: u8
  weak_override_mods :: u8
  suppressed_mods :: u8
  oneshot_mods :: u8
  oneshot_locked_mods :: u8
  oneshot_time :: u16
  oneshot_layer_data :: u8
  oneshot_layer_time :: u16
  oneshot_enabled :: bool
  swap_hands :: bool
  swap_hands_oneshot :: oneshot_swaphands
  oneshot_swaphands_time :: u16
  last_6kro :: "u8 \<times> u8 list"
  last_nkro :: "u8 \<times> u8 list"
  last_system_usage :: u16
  last_consumer_usage :: u16
  layer_state :: 'l
  default_layer_state :: 'l
  out :: "host_msg list"

text \<open>
  Build options; \<open>ONESHOT_TIMEOUT\<close> is 0 when it is not defined. \<open>driver\<close> tells whether a host
  driver is set, \<open>to_bluetooth\<close> whether \<^verbatim>\<open>where_to_send\<close> selects Bluetooth, \<open>leds\<close> is what the
  driver reports for the three lock lights (num, caps, scroll).
\<close>

record 'l action_cfg = report_cfg +
  driver :: bool
  to_bluetooth :: bool
  PROTOCOL_VUSB :: bool
  NO_ACTION_ONESHOT :: bool
  ONESHOT_TIMEOUT :: nat
  SWAP_HANDS_ENABLE :: bool
  KEY_OVERRIDE_ENABLE :: bool
  EXTRAKEY_ENABLE :: bool
  MOUSEKEY_ENABLE :: bool
  PROGRAMMABLE_BUTTON_ENABLE :: bool
  LOCKING_SUPPORT :: bool
  LOCKING_RESYNC :: bool
  leds :: "bool \<times> bool \<times> bool"
  TAP_CODE_DELAY :: u16
  TAP_HOLD_CAPS_DELAY :: u16
  command_proc :: "u8 \<Rightarrow> bool"
  STRICT_LAYER_RELEASE :: bool
  SEMI_STRICT_LAYER_RELEASE :: bool
  layer_state_set_kb :: "'l \<Rightarrow> 'l"
  default_layer_state_set_kb :: "'l \<Rightarrow> 'l"

definition emit :: "host_msg \<Rightarrow> 'l action_state \<Rightarrow> 'l action_state" where
  "emit m s = s\<lparr>out := out s @ [m]\<rparr>"

section \<open>The host driver\<close>

definition host_keyboard_send :: "'l action_cfg \<Rightarrow> 'l action_state \<Rightarrow> 'l action_state" where
  "host_keyboard_send cfg s =
     (if to_bluetooth cfg then emit (KeyboardReport Bluetooth (report_mods s) (report_keys s)) s
      else if \<not> driver cfg then s
      else emit (KeyboardReport Usb (report_mods s) (report_keys s)) s)"

definition host_nkro_send :: "'l action_cfg \<Rightarrow> 'l action_state \<Rightarrow> 'l action_state" where
  "host_nkro_send cfg s =
     (if \<not> driver cfg then s else emit (NkroReport (nkro_report_mods s) (nkro_bits s)) s)"

definition host_system_send :: "'l action_cfg \<Rightarrow> u16 \<Rightarrow> 'l action_state \<Rightarrow> 'l action_state" where
  "host_system_send cfg usage s =
     (if usage = last_system_usage s then s
      else (let s = s\<lparr>last_system_usage := usage\<rparr>
            in if \<not> driver cfg then s else emit (SystemReport usage) s))"

definition host_consumer_send :: "'l action_cfg \<Rightarrow> u16 \<Rightarrow> 'l action_state \<Rightarrow> 'l action_state" where
  "host_consumer_send cfg usage s =
     (if usage = last_consumer_usage s then s
      else (let s = s\<lparr>last_consumer_usage := usage\<rparr>
            in if to_bluetooth cfg then emit (ConsumerReport Bluetooth usage) s
               else if \<not> driver cfg then s else emit (ConsumerReport Usb usage) s))"

section \<open>Locked one-shot modifiers\<close>

definition add_oneshot_locked_mods :: "u8 \<Rightarrow> 'l action_state \<Rightarrow> 'l action_state" where
  "add_oneshot_locked_mods mods s =
     (if oneshot_locked_mods s AND mods \<noteq> mods
      then (let s = s\<lparr>oneshot_locked_mods := oneshot_locked_mods s OR mods\<rparr>
            in emit (OneshotLockedModsChanged (oneshot_locked_mods s)) s)
      else s)"

definition set_oneshot_locked_mods :: "u8 \<Rightarrow> 'l action_state \<Rightarrow> 'l action_state" where
  "set_oneshot_locked_mods mods s =
     (if mods \<noteq> oneshot_locked_mods s
      then (let s = s\<lparr>oneshot_locked_mods := mods\<rparr>
            in emit (OneshotLockedModsChanged (oneshot_locked_mods s)) s)
      else s)"

definition clear_oneshot_locked_mods :: "'l action_state \<Rightarrow> 'l action_state" where
  "clear_oneshot_locked_mods s =
     (if oneshot_locked_mods s \<noteq> 0
      then (let s = s\<lparr>oneshot_locked_mods := 0\<rparr>
            in emit (OneshotLockedModsChanged (oneshot_locked_mods s)) s)
      else s)"

definition del_oneshot_locked_mods :: "u8 \<Rightarrow> 'l action_state \<Rightarrow> 'l action_state" where
  "del_oneshot_locked_mods mods s =
     (if oneshot_locked_mods s AND mods \<noteq> 0
      then (let s = s\<lparr>oneshot_locked_mods := oneshot_locked_mods s AND NOT mods\<rparr>
            in emit (OneshotLockedModsChanged (oneshot_locked_mods s)) s)
      else s)"

section \<open>One-shot modifiers\<close>

text \<open>The stamp is written only in builds with a timeout.\<close>

definition stamp_oneshot :: "'l action_cfg \<Rightarrow> u16 \<Rightarrow> 'l action_state \<Rightarrow> 'l action_state" where
  "stamp_oneshot cfg t s = (if ONESHOT_TIMEOUT cfg > 0 then s\<lparr>oneshot_time := t\<rparr> else s)"

definition has_oneshot_mods_timed_out :: "'l action_cfg \<Rightarrow> 'l action_state \<Rightarrow> bool" where
  "has_oneshot_mods_timed_out cfg s \<longleftrightarrow>
     ONESHOT_TIMEOUT cfg > 0 \<and> unat (timer_diff (now s) (oneshot_time s)) \<ge> ONESHOT_TIMEOUT cfg"

definition add_oneshot_mods :: "'l action_cfg \<Rightarrow> u8 \<Rightarrow> 'l action_state \<Rightarrow> 'l action_state" where
  "add_oneshot_mods cfg mods s =
     (if oneshot_mods s AND mods \<noteq> mods
      then (let s = stamp_oneshot cfg (now s) s;
                s = s\<lparr>oneshot_mods := oneshot_mods s OR mods\<rparr>
            in emit (OneshotModsChanged mods) s)
      else s)"

definition del_oneshot_mods :: "'l action_cfg \<Rightarrow> u8 \<Rightarrow> 'l action_state \<Rightarrow> 'l action_state" where
  "del_oneshot_mods cfg mods s =
     (if oneshot_mods s AND mods \<noteq> 0
      then (let s = s\<lparr>oneshot_mods := oneshot_mods s AND NOT mods\<rparr>;
                s = stamp_oneshot cfg (if oneshot_mods s \<noteq> 0 then now s else 0) s
            in emit (OneshotModsChanged (oneshot_mods s)) s)
      else s)"

definition set_oneshot_mods :: "'l action_cfg \<Rightarrow> u8 \<Rightarrow> 'l action_state \<Rightarrow> 'l action_state" where
  "set_oneshot_mods cfg mods s =
     (if oneshot_enabled s \<and> oneshot_mods s \<noteq> mods
      then emit (OneshotModsChanged mods) ((stamp_oneshot cfg (now s) s)\<lparr>oneshot_mods := mods\<rparr>)
      else s)"

definition clear_oneshot_mods :: "'l action_cfg \<Rightarrow> 'l action_state \<Rightarrow> 'l action_state" where
  "clear_oneshot_mods cfg s =
     (if oneshot_mods s \<noteq> 0
      then emit (OneshotModsChanged 0) (stamp_oneshot cfg 0 (s\<lparr>oneshot_mods := 0\<rparr>))
      else s)"

section \<open>Reports\<close>

definition get_mods_for_report :: "'l action_cfg \<Rightarrow> 'l action_state \<Rightarrow> u8 \<times> 'l action_state" where
  "get_mods_for_report cfg s =
     (let mods = real_mods s OR weak_mods s;
          (mods, s) =
            (if \<not> NO_ACTION_ONESHOT cfg \<and> oneshot_mods s \<noteq> 0 then
               (let s = (if has_oneshot_mods_timed_out cfg s then clear_oneshot_mods cfg s else s);
                    mods = mods OR oneshot_mods s;
                    s = (if has_anykey cfg s \<noteq> 0 then clear_oneshot_mods cfg s else s)
                in (mods, s))
             else (mods, s));
          mods = (if KEY_OVERRIDE_ENABLE cfg
                  then (mods AND NOT (suppressed_mods s)) OR weak_override_mods s else mods)
      in (mods, s))"

definition send_6kro_report :: "'l action_cfg \<Rightarrow> 'l action_state \<Rightarrow> 'l action_state" where
  "send_6kro_report cfg s =
     (case get_mods_for_report cfg s of (mods, s) \<Rightarrow>
       let s = s\<lparr>report_mods := mods\<rparr>
       in if PROTOCOL_VUSB cfg then host_keyboard_send cfg s
          else if (report_mods s, report_keys s) \<noteq> last_6kro s
          then host_keyboard_send cfg (s\<lparr>last_6kro := (report_mods s, report_keys s)\<rparr>)
          else s)"

definition send_nkro_report :: "'l action_cfg \<Rightarrow> 'l action_state \<Rightarrow> 'l action_state" where
  "send_nkro_report cfg s =
     (case get_mods_for_report cfg s of (mods, s) \<Rightarrow>
       let s = s\<lparr>nkro_report_mods := mods\<rparr>
       in if (nkro_report_mods s, nkro_bits s) \<noteq> last_nkro s
          then host_nkro_send cfg (s\<lparr>last_nkro := (nkro_report_mods s, nkro_bits s)\<rparr>)
          else s)"

definition send_keyboard_report :: "'l action_cfg \<Rightarrow> 'l action_state \<Rightarrow> 'l action_state" where
  "send_keyboard_report cfg s = (if use_nkro cfg s then send_nkro_report cfg s else send_6kro_report cfg s)"

section \<open>Modifiers\<close>

definition add_mods :: "u8 \<Rightarrow> 'l action_state \<Rightarrow> 'l action_state" where
  "add_mods mods s = s\<lparr>real_mods := real_mods s OR mods\<rparr>"
definition del_mods :: "u8 \<Rightarrow> 'l action_state \<Rightarrow> 'l action_state" where
  "del_mods mods s = s\<lparr>real_mods := real_mods s AND NOT mods\<rparr>"
definition set_mods :: "u8 \<Rightarrow> 'l action_state \<Rightarrow> 'l action_state" where
  "set_mods mods s = s\<lparr>real_mods := mods\<rparr>"
definition clear_mods :: "'l action_state \<Rightarrow> 'l action_state" where
  "clear_mods s = s\<lparr>real_mods := 0\<rparr>"
definition add_weak_mods :: "u8 \<Rightarrow> 'l action_state \<Rightarrow> 'l action_state" where
  "add_weak_mods mods s = s\<lparr>weak_mods := weak_mods s OR mods\<rparr>"
definition del_weak_mods :: "u8 \<Rightarrow> 'l action_state \<Rightarrow> 'l action_state" where
  "del_weak_mods mods s = s\<lparr>weak_mods := weak_mods s AND NOT mods\<rparr>"
definition set_weak_mods :: "u8 \<Rightarrow> 'l action_state \<Rightarrow> 'l action_state" where
  "set_weak_mods mods s = s\<lparr>weak_mods := mods\<rparr>"
definition clear_weak_mods :: "'l action_state \<Rightarrow> 'l action_state" where
  "clear_weak_mods s = s\<lparr>weak_mods := 0\<rparr>"
definition set_weak_override_mods :: "u8 \<Rightarrow> 'l action_state \<Rightarrow> 'l action_state" where
  "set_weak_override_mods mods s = s\<lparr>weak_override_mods := mods\<rparr>"
definition clear_weak_override_mods :: "'l action_state \<Rightarrow> 'l action_state" where
  "clear_weak_override_mods s = s\<lparr>weak_override_mods := 0\<rparr>"
definition set_suppressed_override_mods :: "u8 \<Rightarrow> 'l action_state \<Rightarrow> 'l action_state" where
  "set_suppressed_override_mods mods s = s\<lparr>suppressed_mods := mods\<rparr>"
definition clear_suppressed_override_mods :: "'l action_state \<Rightarrow> 'l action_state" where
  "clear_suppressed_override_mods s = s\<lparr>suppressed_mods := 0\<rparr>"

definition has_anymod :: "'l action_state \<Rightarrow> u8" where
  "has_anymod s = bitpop (real_mods s)"

section \<open>One-shot swap hands\<close>

definition clear_oneshot_swaphands :: "'l action_cfg \<Rightarrow> 'l action_state \<Rightarrow> 'l action_state" where
  "clear_oneshot_swaphands cfg s =
     (let s = s\<lparr>swap_hands_oneshot := SHO_OFF, swap_hands := False\<rparr>
      in if ONESHOT_TIMEOUT cfg > 0 then s\<lparr>oneshot_swaphands_time := 0\<rparr> else s)"

definition set_oneshot_swaphands :: "'l action_cfg \<Rightarrow> 'l action_state \<Rightarrow> 'l action_state" where
  "set_oneshot_swaphands cfg s =
     (let s = s\<lparr>swap_hands_oneshot := SHO_PRESSED, swap_hands := True\<rparr>
      in if ONESHOT_TIMEOUT cfg > 0 then
           (let s = s\<lparr>oneshot_swaphands_time := now s\<rparr>
            in if oneshot_layer_time s \<noteq> 0 then s\<lparr>oneshot_layer_time := oneshot_swaphands_time s\<rparr> else s)
         else s)"

definition release_oneshot_swaphands :: "'l action_cfg \<Rightarrow> 'l action_state \<Rightarrow> 'l action_state" where
  "release_oneshot_swaphands cfg s =
     (let s = (if swap_hands_oneshot s = SHO_PRESSED then s\<lparr>swap_hands_oneshot := SHO_ACTIVE\<rparr> else s)
      in if swap_hands_oneshot s = SHO_USED then clear_oneshot_swaphands cfg s else s)"

definition use_oneshot_swaphands :: "'l action_cfg \<Rightarrow> 'l action_state \<Rightarrow> 'l action_state" where
  "use_oneshot_swaphands cfg s =
     (let s = (if swap_hands_oneshot s = SHO_PRESSED then s\<lparr>swap_hands_oneshot := SHO_USED\<rparr> else s)
      in if swap_hands_oneshot s = SHO_ACTIVE then clear_oneshot_swaphands cfg s else s)"

definition has_oneshot_swaphands_timed_out :: "'l action_cfg \<Rightarrow> 'l action_state \<Rightarrow> bool" where
  "has_oneshot_swaphands_timed_out cfg s \<longleftrightarrow>
     unat (timer_diff (now s) (oneshot_swaphands_time s)) \<ge> ONESHOT_TIMEOUT cfg \<and> swap_hands_oneshot s = SHO_ACTIVE"

end
