(* ===== verification/Action.thy ===== *)
theory Action
  imports ActionUtil
begin

text \<open>
  Registering and unregistering keycodes and modifiers, and clearing the keyboard
  (\<^verbatim>\<open>quantum/action.c\<close>). Waiting advances the timer; mouse keys and the magic commands are calls
  that leave the core.
\<close>

section \<open>Classes of keycodes\<close>

definition IS_BASIC_KEYCODE :: "u8 \<Rightarrow> bool" where
  "IS_BASIC_KEYCODE code \<longleftrightarrow> code \<ge> 0x04 \<and> code \<le> 0xA4"
definition IS_SYSTEM_KEYCODE :: "u8 \<Rightarrow> bool" where
  "IS_SYSTEM_KEYCODE code \<longleftrightarrow> code \<ge> 0xA5 \<and> code \<le> 0xA7"
definition IS_CONSUMER_KEYCODE :: "u8 \<Rightarrow> bool" where
  "IS_CONSUMER_KEYCODE code \<longleftrightarrow> code \<ge> 0xA8 \<and> code \<le> 0xC2"
definition IS_MOUSE_KEYCODE :: "u8 \<Rightarrow> bool" where
  "IS_MOUSE_KEYCODE code \<longleftrightarrow> code \<ge> 0xCD \<and> code \<le> 0xDF"
definition IS_MODIFIER_KEYCODE :: "u8 \<Rightarrow> bool" where
  "IS_MODIFIER_KEYCODE code \<longleftrightarrow> code \<ge> 0xE0 \<and> code \<le> 0xE7"

definition MOD_BIT :: "u8 \<Rightarrow> u8" where
  "MOD_BIT code = push_bit (unat (code AND 7)) 1"

section \<open>Keys\<close>

definition wait_ms :: "u16 \<Rightarrow> 'l action_state \<Rightarrow> 'l action_state" where
  "wait_ms d s = s\<lparr>now := now s + d\<rparr>"

definition add_key :: "'l action_cfg \<Rightarrow> u8 \<Rightarrow> 'l action_state \<Rightarrow> 'l action_state" where
  "add_key cfg key = add_key_to_report cfg key"
definition del_key :: "'l action_cfg \<Rightarrow> u8 \<Rightarrow> 'l action_state \<Rightarrow> 'l action_state" where
  "del_key cfg key = del_key_from_report cfg key"

text \<open>The press and release of a lock key, with a pause in between on registration.\<close>

definition tap_lock :: "'l action_cfg \<Rightarrow> u8 \<Rightarrow> u16 \<Rightarrow> 'l action_state \<Rightarrow> 'l action_state" where
  "tap_lock cfg key pause s =
     send_keyboard_report cfg (del_key cfg key (wait_ms pause (send_keyboard_report cfg (add_key cfg key s))))"

text \<open>\<open>led\<close> selects the light of a locking keycode, \<open>key\<close> the lock key it stands for.\<close>

definition locking_key :: "'l action_cfg \<Rightarrow> u8 \<Rightarrow> (bool \<times> u8) option" where
  "locking_key cfg code =
     (case leds cfg of (num, caps, scroll) \<Rightarrow>
       if \<not> LOCKING_SUPPORT cfg then None
       else if code = 0x82 then Some (caps, 0x39)
       else if code = 0x83 then Some (num, 0x53)
       else if code = 0x84 then Some (scroll, 0x47)
       else None)"

definition register_code :: "'l action_cfg \<Rightarrow> u8 \<Rightarrow> 'l action_state \<Rightarrow> 'l action_state" where
  "register_code cfg code s =
     (if code = 0 then s
      else case locking_key cfg code of
        Some (led, key) \<Rightarrow>
          if LOCKING_RESYNC cfg \<and> led then s
          else tap_lock cfg key (if code = 0x82 then TAP_HOLD_CAPS_DELAY cfg else 100) s
      | None \<Rightarrow>
          if IS_BASIC_KEYCODE code then
            (if command_proc cfg code then emit (CommandCall code) s
             else
               (let s = emit (CommandCall code) s;
                    s = (if is_key_pressed cfg code s then send_keyboard_report cfg (del_key cfg code s) else s)
                in send_keyboard_report cfg (add_key cfg code s)))
          else if IS_MODIFIER_KEYCODE code then send_keyboard_report cfg (add_mods (MOD_BIT code) s)
          else if EXTRAKEY_ENABLE cfg \<and> IS_SYSTEM_KEYCODE code then
            host_system_send cfg (KEYCODE2SYSTEM code) s
          else if EXTRAKEY_ENABLE cfg \<and> IS_CONSUMER_KEYCODE code then
            host_consumer_send cfg (KEYCODE2CONSUMER code) s
          else if IS_MOUSE_KEYCODE code then emit (MouseCall code True) s
          else s)"

definition unregister_code :: "'l action_cfg \<Rightarrow> u8 \<Rightarrow> 'l action_state \<Rightarrow> 'l action_state" where
  "unregister_code cfg code s =
     (if code = 0 then s
      else case locking_key cfg code of
        Some (led, key) \<Rightarrow>
          if LOCKING_RESYNC cfg \<and> \<not> led then s
          else send_keyboard_report cfg (del_key cfg key (send_keyboard_report cfg (add_key cfg key s)))
      | None \<Rightarrow>
          if IS_BASIC_KEYCODE code then send_keyboard_report cfg (del_key cfg code s)
          else if IS_MODIFIER_KEYCODE code then send_keyboard_report cfg (del_mods (MOD_BIT code) s)
          else if EXTRAKEY_ENABLE cfg \<and> IS_SYSTEM_KEYCODE code then host_system_send cfg 0 s
          else if EXTRAKEY_ENABLE cfg \<and> IS_CONSUMER_KEYCODE code then host_consumer_send cfg 0 s
          else if IS_MOUSE_KEYCODE code then emit (MouseCall code False) s
          else s)"

definition tap_code_delay :: "'l action_cfg \<Rightarrow> u8 \<Rightarrow> u16 \<Rightarrow> 'l action_state \<Rightarrow> 'l action_state" where
  "tap_code_delay cfg code delay s = unregister_code cfg code (wait_ms delay (register_code cfg code s))"

definition tap_code :: "'l action_cfg \<Rightarrow> u8 \<Rightarrow> 'l action_state \<Rightarrow> 'l action_state" where
  "tap_code cfg code = tap_code_delay cfg code (if code = 0x39 then TAP_HOLD_CAPS_DELAY cfg else TAP_CODE_DELAY cfg)"

section \<open>Modifiers\<close>

definition register_mods :: "'l action_cfg \<Rightarrow> u8 \<Rightarrow> 'l action_state \<Rightarrow> 'l action_state" where
  "register_mods cfg mods s = (if mods \<noteq> 0 then send_keyboard_report cfg (add_mods mods s) else s)"
definition unregister_mods :: "'l action_cfg \<Rightarrow> u8 \<Rightarrow> 'l action_state \<Rightarrow> 'l action_state" where
  "unregister_mods cfg mods s = (if mods \<noteq> 0 then send_keyboard_report cfg (del_mods mods s) else s)"
definition register_weak_mods :: "'l action_cfg \<Rightarrow> u8 \<Rightarrow> 'l action_state \<Rightarrow> 'l action_state" where
  "register_weak_mods cfg mods s = (if mods \<noteq> 0 then send_keyboard_report cfg (add_weak_mods mods s) else s)"
definition unregister_weak_mods :: "'l action_cfg \<Rightarrow> u8 \<Rightarrow> 'l action_state \<Rightarrow> 'l action_state" where
  "unregister_weak_mods cfg mods s = (if mods \<noteq> 0 then send_keyboard_report cfg (del_weak_mods mods s) else s)"

section \<open>Clearing\<close>

definition clear_keyboard_but_mods_and_keys :: "'l action_cfg \<Rightarrow> 'l action_state \<Rightarrow> 'l action_state" where
  "clear_keyboard_but_mods_and_keys cfg s =
     (let s = (if EXTRAKEY_ENABLE cfg then host_consumer_send cfg 0 (host_system_send cfg 0 s) else s);
          s = send_keyboard_report cfg (clear_weak_mods s);
          s = (if MOUSEKEY_ENABLE cfg then emit MouseClear s else s)
      in if PROGRAMMABLE_BUTTON_ENABLE cfg then emit ProgrammableButtonClear s else s)"

definition clear_keyboard_but_mods :: "'l action_cfg \<Rightarrow> 'l action_state \<Rightarrow> 'l action_state" where
  "clear_keyboard_but_mods cfg s = clear_keyboard_but_mods_and_keys cfg (clear_keys_from_report cfg s)"

definition clear_keyboard :: "'l action_cfg \<Rightarrow> 'l action_state \<Rightarrow> 'l action_state" where
  "clear_keyboard cfg s = clear_keyboard_but_mods cfg (clear_mods s)"

text \<open>
  \<^verbatim>\<open>neutralize_flashing_modifiers\<close> of \<^verbatim>\<open>action_util.c\<close>: \<open>dummy\<close> and \<open>to_neutralize\<close> are the
  build's \<^verbatim>\<open>DUMMY_MOD_NEUTRALIZER_KEYCODE\<close> and \<^verbatim>\<open>MODS_TO_NEUTRALIZE\<close>.
\<close>

fun neutralize_flashing_modifiers :: "'l action_cfg \<Rightarrow> u8 \<Rightarrow> u8 list \<Rightarrow> u8 \<Rightarrow> 'l action_state \<Rightarrow> 'l action_state" where
  "neutralize_flashing_modifiers cfg dummy [] active_mods s = s"
| "neutralize_flashing_modifiers cfg dummy (m # ms) active_mods s =
     (if active_mods = m then tap_code cfg dummy s
      else neutralize_flashing_modifiers cfg dummy ms active_mods s)"

end
