(* ===== verification/ActionLayer.thy ===== *)
theory ActionLayer
  imports Action
begin

text \<open>
  Layers (\<^verbatim>\<open>quantum/action_layer.c\<close>), one-shot layers (\<^verbatim>\<open>quantum/action_util.c\<close>) and the cache that
  remembers from which layer a key was pressed. \<open>'l word\<close> is \<^verbatim>\<open>layer_state_t\<close> (8, 16 or 32 bits);
  \<^verbatim>\<open>layer_state_set_kb\<close>, which keyboards may override, is a field of the configuration.
\<close>

section \<open>Layer states\<close>

definition layer_mask :: "nat \<Rightarrow> 'l::len word" where
  "layer_mask layer = push_bit layer 1"

definition after_layer_change :: "'l action_cfg \<Rightarrow> 'l action_state \<Rightarrow> 'l action_state" where
  "after_layer_change cfg s =
     (if STRICT_LAYER_RELEASE cfg then clear_keyboard_but_mods cfg s
      else if SEMI_STRICT_LAYER_RELEASE cfg then clear_keyboard_but_mods_and_keys cfg s
      else s)"

definition default_layer_state_set :: "'l action_cfg \<Rightarrow> 'l \<Rightarrow> 'l action_state \<Rightarrow> 'l action_state" where
  "default_layer_state_set cfg st s =
     after_layer_change cfg (s\<lparr>default_layer_state := default_layer_state_set_kb cfg st\<rparr>)"

definition default_layer_set :: "'l action_cfg \<Rightarrow> 'l \<Rightarrow> 'l action_state \<Rightarrow> 'l action_state" where
  "default_layer_set cfg st = default_layer_state_set cfg st"
definition default_layer_or :: "('l::len word) action_cfg \<Rightarrow> 'l word \<Rightarrow> ('l word) action_state \<Rightarrow> ('l word) action_state" where
  "default_layer_or cfg st s = default_layer_state_set cfg (default_layer_state s OR st) s"
definition default_layer_and :: "('l::len word) action_cfg \<Rightarrow> 'l word \<Rightarrow> ('l word) action_state \<Rightarrow> ('l word) action_state" where
  "default_layer_and cfg st s = default_layer_state_set cfg (default_layer_state s AND st) s"
definition default_layer_xor :: "('l::len word) action_cfg \<Rightarrow> 'l word \<Rightarrow> ('l word) action_state \<Rightarrow> ('l word) action_state" where
  "default_layer_xor cfg st s = default_layer_state_set cfg (default_layer_state s XOR st) s"

definition layer_state_set :: "'l action_cfg \<Rightarrow> 'l \<Rightarrow> 'l action_state \<Rightarrow> 'l action_state" where
  "layer_state_set cfg st s = after_layer_change cfg (s\<lparr>layer_state := layer_state_set_kb cfg st\<rparr>)"

definition layer_clear :: "('l::len word) action_cfg \<Rightarrow> ('l word) action_state \<Rightarrow> ('l word) action_state" where
  "layer_clear cfg = layer_state_set cfg 0"

definition layer_state_cmp :: "'l::len word \<Rightarrow> u8 \<Rightarrow> bool" where
  "layer_state_cmp st layer =
     (if st = 0 then layer = 0 else st AND layer_mask (unat layer) \<noteq> 0)"

definition layer_state_is :: "u8 \<Rightarrow> ('l::len word) action_state \<Rightarrow> bool" where
  "layer_state_is layer s = layer_state_cmp (layer_state s) layer"

definition layer_move :: "('l::len word) action_cfg \<Rightarrow> u8 \<Rightarrow> ('l word) action_state \<Rightarrow> ('l word) action_state" where
  "layer_move cfg layer = layer_state_set cfg (layer_mask (unat layer))"
definition layer_on :: "('l::len word) action_cfg \<Rightarrow> u8 \<Rightarrow> ('l word) action_state \<Rightarrow> ('l word) action_state" where
  "layer_on cfg layer s = layer_state_set cfg (layer_state s OR layer_mask (unat layer)) s"
definition layer_off :: "('l::len word) action_cfg \<Rightarrow> u8 \<Rightarrow> ('l word) action_state \<Rightarrow> ('l word) action_state" where
  "layer_off cfg layer s = layer_state_set cfg (layer_state s AND NOT (layer_mask (unat layer))) s"
definition layer_invert :: "('l::len word) action_cfg \<Rightarrow> u8 \<Rightarrow> ('l word) action_state \<Rightarrow> ('l word) action_state" where
  "layer_invert cfg layer s = layer_state_set cfg (layer_state s XOR layer_mask (unat layer)) s"
definition layer_or :: "('l::len word) action_cfg \<Rightarrow> 'l word \<Rightarrow> ('l word) action_state \<Rightarrow> ('l word) action_state" where
  "layer_or cfg st s = layer_state_set cfg (layer_state s OR st) s"
definition layer_and :: "('l::len word) action_cfg \<Rightarrow> 'l word \<Rightarrow> ('l word) action_state \<Rightarrow> ('l word) action_state" where
  "layer_and cfg st s = layer_state_set cfg (layer_state s AND st) s"
definition layer_xor :: "('l::len word) action_cfg \<Rightarrow> 'l word \<Rightarrow> ('l word) action_state \<Rightarrow> ('l word) action_state" where
  "layer_xor cfg st s = layer_state_set cfg (layer_state s XOR st) s"

definition update_tri_layer_state :: "'l::len word \<Rightarrow> u8 \<Rightarrow> u8 \<Rightarrow> u8 \<Rightarrow> 'l word" where
  "update_tri_layer_state st layer1 layer2 layer3 =
     (let mask12 = layer_mask (unat layer1) OR layer_mask (unat layer2);
          mask3 = layer_mask (unat layer3)
      in if st AND mask12 = mask12 then st OR mask3 else st AND NOT mask3)"

definition update_tri_layer :: "('l::len word) action_cfg \<Rightarrow> u8 \<Rightarrow> u8 \<Rightarrow> u8 \<Rightarrow> ('l word) action_state \<Rightarrow> ('l word) action_state" where
  "update_tri_layer cfg layer1 layer2 layer3 s =
     layer_state_set cfg (update_tri_layer_state (layer_state s) layer1 layer2 layer3) s"

section \<open>One-shot layers\<close>

text \<open>\<^verbatim>\<open>oneshot_layer_data\<close> holds the layer in its upper five bits and the state in the lower three.\<close>

definition ONESHOT_PRESSED :: u8 where "ONESHOT_PRESSED = 1"
definition ONESHOT_OTHER_KEY_PRESSED :: u8 where "ONESHOT_OTHER_KEY_PRESSED = 2"
definition ONESHOT_START :: u8 where "ONESHOT_START = 3"
definition ONESHOT_TOGGLED :: u8 where "ONESHOT_TOGGLED = 4"

definition get_oneshot_layer :: "'l action_state \<Rightarrow> u8" where
  "get_oneshot_layer s = drop_bit 3 (oneshot_layer_data s)"
definition get_oneshot_layer_state :: "'l action_state \<Rightarrow> u8" where
  "get_oneshot_layer_state s = oneshot_layer_data s AND 7"
definition is_oneshot_layer_active :: "'l action_state \<Rightarrow> bool" where
  "is_oneshot_layer_active s \<longleftrightarrow> get_oneshot_layer_state s \<noteq> 0"

definition has_oneshot_layer_timed_out :: "'l action_cfg \<Rightarrow> 'l action_state \<Rightarrow> bool" where
  "has_oneshot_layer_timed_out cfg s \<longleftrightarrow>
     unat (timer_diff (now s) (oneshot_layer_time s)) \<ge> ONESHOT_TIMEOUT cfg \<and>
     get_oneshot_layer_state s AND ONESHOT_TOGGLED = 0"

definition set_oneshot_layer ::
  "('l::len word) action_cfg \<Rightarrow> u8 \<Rightarrow> u8 \<Rightarrow> ('l word) action_state \<Rightarrow> ('l word) action_state" where
  "set_oneshot_layer cfg layer st s =
     (if oneshot_enabled s then
        (let s = s\<lparr>oneshot_layer_data := push_bit 3 layer OR st\<rparr>;
             s = layer_on cfg layer s;
             s = (if ONESHOT_TIMEOUT cfg > 0 then s\<lparr>oneshot_layer_time := now s\<rparr> else s)
         in emit (OneshotLayerChanged (get_oneshot_layer s)) s)
      else layer_on cfg layer s)"

definition reset_oneshot_layer :: "'l action_cfg \<Rightarrow> 'l action_state \<Rightarrow> 'l action_state" where
  "reset_oneshot_layer cfg s =
     (let s = s\<lparr>oneshot_layer_data := 0\<rparr>;
          s = (if ONESHOT_TIMEOUT cfg > 0 then s\<lparr>oneshot_layer_time := 0\<rparr> else s)
      in emit (OneshotLayerChanged (get_oneshot_layer s)) s)"

definition clear_oneshot_layer_state ::
  "('l::len word) action_cfg \<Rightarrow> u8 \<Rightarrow> ('l word) action_state \<Rightarrow> ('l word) action_state" where
  "clear_oneshot_layer_state cfg st s =
     (let start_state = oneshot_layer_data s;
          s = s\<lparr>oneshot_layer_data := oneshot_layer_data s AND NOT st\<rparr>
      in if (get_oneshot_layer_state s = 0 \<and> start_state \<noteq> oneshot_layer_data s) \<and> oneshot_enabled s
         then reset_oneshot_layer cfg (layer_off cfg (get_oneshot_layer s) s)
         else s)"

definition oneshot_set :: "('l::len word) action_cfg \<Rightarrow> bool \<Rightarrow> ('l word) action_state \<Rightarrow> ('l word) action_state" where
  "oneshot_set cfg active s =
     (if oneshot_enabled s \<noteq> active then
        clear_oneshot_layer_state cfg ONESHOT_OTHER_KEY_PRESSED
          (emit (UpdateKeymapConfig active) (s\<lparr>oneshot_enabled := active\<rparr>))
      else s)"

definition oneshot_toggle :: "('l::len word) action_cfg \<Rightarrow> ('l word) action_state \<Rightarrow> ('l word) action_state" where
  "oneshot_toggle cfg s = oneshot_set cfg (\<not> oneshot_enabled s) s"
definition oneshot_enable :: "('l::len word) action_cfg \<Rightarrow> ('l word) action_state \<Rightarrow> ('l word) action_state" where
  "oneshot_enable cfg = oneshot_set cfg True"
definition oneshot_disable :: "('l::len word) action_cfg \<Rightarrow> ('l word) action_state \<Rightarrow> ('l word) action_state" where
  "oneshot_disable cfg = oneshot_set cfg False"

section \<open>Source layers\<close>

record keypos =
  col :: u8
  row :: u8

text \<open>
  \<open>key_cache\<close> and \<open>encoder_cache\<close> are the two arrays: one row of \<^verbatim>\<open>MAX_LAYER_BITS\<close> bytes for every
  eight keys (encoders), holding one bit of the layer of each of them.
\<close>

record source_cache =
  key_cache :: "u8 list list"
  encoder_cache :: "u8 list list"

record layer_cfg =
  MATRIX_ROWS :: nat
  MATRIX_COLS :: nat
  ENCODER_MAP_ENABLE :: bool
  MAX_LAYER :: nat
  MAX_LAYER_BITS :: nat
  disable_action_cache :: bool

definition put_bit8 :: "u8 \<Rightarrow> nat \<Rightarrow> bool \<Rightarrow> u8" where
  "put_bit8 w n on = w XOR (((if on then -1 else 0) XOR w) AND push_bit n 1)"

definition update_source_layers_cache_impl :: "nat \<Rightarrow> u8 \<Rightarrow> nat \<Rightarrow> u8 list list \<Rightarrow> u8 list list" where
  "update_source_layers_cache_impl bits layer entry cache =
     (let idx = entry div 8; b = entry mod 8
      in cache[idx := map (\<lambda>n. put_bit8 (cache ! idx ! n) b (layer AND push_bit n 1 \<noteq> 0)) [0..<bits]])"

definition read_source_layers_cache_impl :: "nat \<Rightarrow> nat \<Rightarrow> u8 list list \<Rightarrow> u8" where
  "read_source_layers_cache_impl bits entry cache =
     (let idx = entry div 8; b = entry mod 8
      in foldl (\<lambda>layer n. layer OR push_bit n (if cache ! idx ! n AND push_bit b 1 \<noteq> 0 then 1 else 0))
           0 [0..<bits])"

definition key_entry :: "layer_cfg \<Rightarrow> keypos \<Rightarrow> nat" where
  "key_entry lc key = ((unat (row key) * MATRIX_COLS lc) mod 2 ^ 16 + unat (col key)) mod 2 ^ 16"

definition is_matrix_key :: "layer_cfg \<Rightarrow> keypos \<Rightarrow> bool" where
  "is_matrix_key lc key \<longleftrightarrow> unat (row key) < MATRIX_ROWS lc \<and> unat (col key) < MATRIX_COLS lc"

definition is_encoder_key :: "layer_cfg \<Rightarrow> keypos \<Rightarrow> bool" where
  "is_encoder_key lc key \<longleftrightarrow> ENCODER_MAP_ENABLE lc \<and> (row key = 253 \<or> row key = 252)"

definition update_source_layers_cache :: "layer_cfg \<Rightarrow> keypos \<Rightarrow> u8 \<Rightarrow> source_cache \<Rightarrow> source_cache" where
  "update_source_layers_cache lc key layer c =
     (if is_matrix_key lc key then
        c\<lparr>key_cache := update_source_layers_cache_impl (MAX_LAYER_BITS lc) layer (key_entry lc key) (key_cache c)\<rparr>
      else if is_encoder_key lc key then
        c\<lparr>encoder_cache := update_source_layers_cache_impl (MAX_LAYER_BITS lc) layer (unat (col key)) (encoder_cache c)\<rparr>
      else c)"

definition read_source_layers_cache :: "layer_cfg \<Rightarrow> keypos \<Rightarrow> source_cache \<Rightarrow> u8" where
  "read_source_layers_cache lc key c =
     (if is_matrix_key lc key then
        read_source_layers_cache_impl (MAX_LAYER_BITS lc) (key_entry lc key) (key_cache c)
      else if is_encoder_key lc key then
        read_source_layers_cache_impl (MAX_LAYER_BITS lc) (unat (col key)) (encoder_cache c)
      else 0)"

section \<open>Looking up a key\<close>

text \<open>The loop over the layers from the top; \<open>action_for_key\<close> is the keymap lookup.\<close>

fun top_layer :: "(nat \<Rightarrow> u16) \<Rightarrow> 'l::len word \<Rightarrow> nat \<Rightarrow> nat" where
  "top_layer action layers 0 = 0"
| "top_layer action layers (Suc i) =
     (if layers AND layer_mask i \<noteq> 0 \<and> action i \<noteq> 1 then i else top_layer action layers i)"

definition layer_switch_get_layer ::
  "layer_cfg \<Rightarrow> (nat \<Rightarrow> keypos \<Rightarrow> u16) \<Rightarrow> keypos \<Rightarrow> ('l::len word) action_state \<Rightarrow> nat" where
  "layer_switch_get_layer lc action_for_key key s =
     top_layer (\<lambda>i. action_for_key i key) (layer_state s OR default_layer_state s) (MAX_LAYER lc)"

definition layer_switch_get_action ::
  "layer_cfg \<Rightarrow> (nat \<Rightarrow> keypos \<Rightarrow> u16) \<Rightarrow> keypos \<Rightarrow> ('l::len word) action_state \<Rightarrow> u16" where
  "layer_switch_get_action lc action_for_key key s = action_for_key (layer_switch_get_layer lc action_for_key key s) key"

definition store_or_get_action ::
  "layer_cfg \<Rightarrow> (nat \<Rightarrow> keypos \<Rightarrow> u16) \<Rightarrow> bool \<Rightarrow> keypos \<Rightarrow> ('l::len word) action_state \<Rightarrow> source_cache \<Rightarrow>
     u16 \<times> source_cache" where
  "store_or_get_action lc action_for_key pressed key s c =
     (if disable_action_cache lc then (layer_switch_get_action lc action_for_key key s, c)
      else if pressed then
        (let layer = layer_switch_get_layer lc action_for_key key s
         in (action_for_key layer key, update_source_layers_cache lc key (of_nat layer) c))
      else (action_for_key (unat (read_source_layers_cache lc key c)) key, c))"

end
