(* ===== verification/SourceLayers.thy ===== *)
theory SourceLayers
  imports ActionLayer
begin

text \<open>
  The cache of source layers as a memory: a locale states its laws, the bit-sliced arrays of
  \<^verbatim>\<open>action_layer.c\<close> are shown to meet them, and the action of a release is that of its press.
\<close>

section \<open>The contract\<close>

locale layer_memory =
  fixes ok :: "'m \<Rightarrow> bool" and valid :: "'k \<Rightarrow> bool" and nbits :: nat
    and fetch :: "'k \<Rightarrow> 'm \<Rightarrow> u8" and store :: "'k \<Rightarrow> u8 \<Rightarrow> 'm \<Rightarrow> 'm"
  assumes ok_write: "ok m \<Longrightarrow> ok (store k l m)"
    and read_write: "ok m \<Longrightarrow> valid k \<Longrightarrow> fetch k (store k l m) = take_bit nbits l"
    and read_other: "ok m \<Longrightarrow> valid k \<Longrightarrow> k' \<noteq> k \<Longrightarrow> fetch k (store k' l m) = fetch k m"
begin

definition writes :: "('k \<times> u8) list \<Rightarrow> 'm \<Rightarrow> 'm" where
  "writes ws m = fold (\<lambda>(k, l). store k l) ws m"

lemma ok_writes: "ok m \<Longrightarrow> ok (writes ws m)"
  by (induction ws arbitrary: m) (auto simp: writes_def ok_write)

lemma read_writes: "ok m \<Longrightarrow> valid k \<Longrightarrow> k \<notin> fst ` set ws \<Longrightarrow> fetch k (writes ws m) = fetch k m"
proof (induction ws arbitrary: m)
  case (Cons w ws)
  obtain k' l where w: "w = (k', l)" by (cases w)
  have "fetch k (writes ws (store k' l m)) = fetch k (store k' l m)"
    using Cons w by (simp add: ok_write)
  moreover have "k' \<noteq> k" using Cons.prems(3) w by auto
  ultimately show ?case using read_other [OF Cons.prems(1,2), of k' l] w by (simp add: writes_def)
qed (simp add: writes_def)

lemma remembers:
  assumes "ok m" "valid k" "k \<notin> fst ` set ws" "l < 2 ^ nbits"
  shows "fetch k (writes ws (store k l m)) = l"
proof -
  have "take_bit nbits l = l"
  proof (cases "nbits < 8")
    case True
    have "unat l < unat (2 ^ nbits :: u8)" using assms(4) by (simp only: word_less_nat_alt)
    then have "unat l < 2 ^ nbits" using True by (simp add: unat_two_power)
    then have "take_bit nbits (unat l) = unat l" by (simp add: take_bit_nat_eq_self)
    then show ?thesis by (metis unsigned_take_bit_eq word_unat_eq_iff)
  next
    case False
    then show ?thesis by (simp add: take_bit_word_eq_self)
  qed
  then show ?thesis using read_writes [OF ok_write [OF assms(1)] assms(2,3)] read_write [OF assms(1,2)] by simp
qed

end

section \<open>The bit-sliced array\<close>

lemma bit_put_bit8 [simp]: "n < 8 \<Longrightarrow> bit (put_bit8 w n on) m \<longleftrightarrow> (if m = n then on else bit w m)"
  using bit_bv_iff [of n m, where 'a = 8]
  by (auto simp: put_bit8_def bit_xor_iff bit_and_iff bv_def dest: bit_imp_le_length)

lemma bit_gather:
  "bit (foldl (\<lambda>l n. l OR push_bit n (if P n then 1 else 0)) x [0..<k] :: u8) m \<longleftrightarrow>
     bit x m \<or> m < k \<and> m < 8 \<and> P m"
proof (induction k)
  case (Suc k)
  have "bit (push_bit k (if P k then 1 else 0) :: u8) m \<longleftrightarrow> m = k \<and> m < 8 \<and> P m"
    using bit_bv_iff [of k m, where 'a = 8] by (auto simp: bv_def)
  then show ?case using Suc by (auto simp: bit_or_iff less_Suc_eq)
qed simp

lemma and_bit8: "(w AND push_bit n 1 :: u8) \<noteq> 0 \<longleftrightarrow> bit w n"
  using and_bv_nonzero [of w n] by (simp add: bv_def)

lemma read_impl_bit:
  "bit (read_source_layers_cache_impl bits e cache) m \<longleftrightarrow> m < bits \<and> m < 8 \<and> bit (cache ! (e div 8) ! m) (e mod 8)"
  unfolding read_source_layers_cache_impl_def Let_def bit_gather and_bit8 by simp

lemma update_impl_nth:
  assumes "i < length cache" "m < bits"
  shows "update_source_layers_cache_impl bits layer e cache ! i ! m =
    (if i = e div 8 then put_bit8 (cache ! i ! m) (e mod 8) (bit layer m) else cache ! i ! m)"
  using assms by (auto simp: update_source_layers_cache_impl_def Let_def and_bit8 [simplified])

definition slices_ok :: "nat \<Rightarrow> nat \<Rightarrow> u8 list list \<Rightarrow> bool" where
  "slices_ok bits num cache \<longleftrightarrow> length cache = num \<and> bits \<le> 8"

interpretation slices: layer_memory "slices_ok bits num" "\<lambda>e. e < 8 * num" bits
  "read_source_layers_cache_impl bits" "\<lambda>e l. update_source_layers_cache_impl bits l e"
proof
  fix cache :: "u8 list list" and e e' :: nat and l :: u8
  show "slices_ok bits num cache \<Longrightarrow> slices_ok bits num (update_source_layers_cache_impl bits l e cache)"
    by (simp add: slices_ok_def update_source_layers_cache_impl_def Let_def)
  show "slices_ok bits num cache \<Longrightarrow> e < 8 * num \<Longrightarrow>
      read_source_layers_cache_impl bits e (update_source_layers_cache_impl bits l e cache) = take_bit bits l"
    by (auto intro!: bit_word_eqI simp: read_impl_bit bit_take_bit_iff slices_ok_def update_impl_nth)
  show "slices_ok bits num cache \<Longrightarrow> e < 8 * num \<Longrightarrow> e' \<noteq> e \<Longrightarrow>
      read_source_layers_cache_impl bits e (update_source_layers_cache_impl bits l e' cache) =
      read_source_layers_cache_impl bits e cache"
  proof -
    assume a: "slices_ok bits num cache" "e < 8 * num" "e' \<noteq> e"
    have "e div 8 = e' div 8 \<Longrightarrow> e mod 8 \<noteq> e' mod 8" using a(3) by (metis div_mult_mod_eq)
    then show ?thesis
      using a(1,2)
      by (auto intro!: bit_word_eqI simp: read_impl_bit slices_ok_def update_impl_nth split: if_splits)
  qed
qed

section \<open>The cache of the matrix\<close>

definition cache_ok :: "layer_cfg \<Rightarrow> source_cache \<Rightarrow> bool" where
  "cache_ok lc c \<longleftrightarrow> MATRIX_ROWS lc \<le> 255 \<and> MATRIX_COLS lc \<le> 255 \<and>
     slices_ok (MAX_LAYER_BITS lc) ((MATRIX_ROWS lc * MATRIX_COLS lc + 7) div 8) (key_cache c)"

lemma key_entry_eq:
  assumes "cache_ok lc c" "is_matrix_key lc key"
  shows "key_entry lc key = unat (row key) * MATRIX_COLS lc + unat (col key)"
    and "key_entry lc key < MATRIX_ROWS lc * MATRIX_COLS lc"
proof -
  have b: "unat (row key) < MATRIX_ROWS lc" "unat (col key) < MATRIX_COLS lc" "MATRIX_ROWS lc \<le> 255" "MATRIX_COLS lc \<le> 255"
    using assms by (simp_all add: cache_ok_def is_matrix_key_def)
  have "unat (row key) * MATRIX_COLS lc + unat (col key) < Suc (unat (row key)) * MATRIX_COLS lc" using b(2) by simp
  also have "\<dots> \<le> MATRIX_ROWS lc * MATRIX_COLS lc" by (rule mult_le_mono1) (use b(1) in simp)
  finally have l: "unat (row key) * MATRIX_COLS lc + unat (col key) < MATRIX_ROWS lc * MATRIX_COLS lc" .
  moreover have "MATRIX_ROWS lc * MATRIX_COLS lc \<le> 255 * 255" using b(3,4) by (rule mult_le_mono)
  ultimately show "key_entry lc key = unat (row key) * MATRIX_COLS lc + unat (col key)"
    by (simp add: key_entry_def)
  then show "key_entry lc key < MATRIX_ROWS lc * MATRIX_COLS lc" using l by simp
qed

lemma key_entry_inj:
  assumes "cache_ok lc c" "is_matrix_key lc k" "is_matrix_key lc k'" "key_entry lc k = key_entry lc k'"
  shows "k = k'"
proof -
  have c: "unat (col k) < MATRIX_COLS lc" "unat (col k') < MATRIX_COLS lc"
    using assms by (simp_all add: is_matrix_key_def)
  have e: "unat (row k) * MATRIX_COLS lc + unat (col k) = unat (row k') * MATRIX_COLS lc + unat (col k')"
    using assms(4) key_entry_eq(1) [OF assms(1,2)] key_entry_eq(1) [OF assms(1,3)] by simp
  have "unat (row k) = unat (row k')"
    using arg_cong [OF e, of "\<lambda>x. x div MATRIX_COLS lc"] c by simp
  moreover have "unat (col k) = unat (col k')" using e calculation by simp
  ultimately show ?thesis by (simp add: word_unat_eq_iff)
qed

interpretation keys: layer_memory "cache_ok lc" "is_matrix_key lc" "MAX_LAYER_BITS lc"
  "read_source_layers_cache lc" "update_source_layers_cache lc"
proof
  fix c :: source_cache and k k' :: keypos and l :: u8
  let ?n = "(MATRIX_ROWS lc * MATRIX_COLS lc + 7) div 8"
  assume ok: "cache_ok lc c"
  have s: "slices_ok (MAX_LAYER_BITS lc) ?n (key_cache c)" using ok by (simp add: cache_ok_def)
  have r: "is_matrix_key lc k \<Longrightarrow> key_entry lc k < 8 * ?n" for k
    using key_entry_eq(2) [OF ok, of k] by simp
  show "cache_ok lc (update_source_layers_cache lc k l c)"
    using ok slices.ok_write [OF s] by (simp add: cache_ok_def update_source_layers_cache_def)
  show "is_matrix_key lc k \<Longrightarrow> read_source_layers_cache lc k (update_source_layers_cache lc k l c) =
      take_bit (MAX_LAYER_BITS lc) l"
    using slices.read_write [OF s r] by (simp add: read_source_layers_cache_def update_source_layers_cache_def)
  show "is_matrix_key lc k \<Longrightarrow> k' \<noteq> k \<Longrightarrow>
      read_source_layers_cache lc k (update_source_layers_cache lc k' l c) = read_source_layers_cache lc k c"
  proof -
    assume k: "is_matrix_key lc k" "k' \<noteq> k"
    have "is_matrix_key lc k' \<Longrightarrow> key_entry lc k' \<noteq> key_entry lc k"
      using key_entry_inj [OF ok, of k' k] k by blast
    then show ?thesis
      using slices.read_other [OF s r [OF k(1)], of "key_entry lc k'" l] k(1)
      by (auto simp: read_source_layers_cache_def update_source_layers_cache_def)
  qed
qed

section \<open>Press and release\<close>

text \<open>A sequence of lookups: for each the direction, the key and the layer state at its time.\<close>

fun lookups ::
  "layer_cfg \<Rightarrow> (nat \<Rightarrow> keypos \<Rightarrow> u16) \<Rightarrow> (bool \<times> keypos \<times> ('l::len word) action_state) list \<Rightarrow> source_cache \<Rightarrow> source_cache" where
  "lookups lc act [] c = c"
| "lookups lc act ((pressed, key, s) # es) c = lookups lc act es (snd (store_or_get_action lc act pressed key s c))"

lemma lookups_are_writes:
  assumes "\<not> disable_action_cache lc"
  shows "\<exists>ws. lookups lc act es c = layer_memory.writes (update_source_layers_cache lc) ws c \<and>
    fst ` set ws = {k. \<exists>s. (True, k, s) \<in> set es}"
proof (induction es arbitrary: c)
  case Nil
  show ?case by (rule exI [of _ "[]"]) (simp add: keys.writes_def)
next
  case (Cons e es)
  obtain p k s where e: "e = (p, k, s)" by (cases e)
  define c' where "c' = snd (store_or_get_action lc act p k s c)"
  obtain ws where ws: "lookups lc act es c' = keys.writes lc ws c'" "fst ` set ws = {k. \<exists>s. (True, k, s) \<in> set es}"
    using Cons.IH [of c'] by blast
  let ?w = "(k, of_nat (layer_switch_get_layer lc act k s) :: u8)"
  show ?case
  proof (cases p)
    case True
    then have "c' = update_source_layers_cache lc k (snd ?w) c"
      using assms by (simp add: c'_def store_or_get_action_def Let_def)
    then show ?thesis
      using e ws True by (intro exI [of _ "?w # ws"]) (auto simp: keys.writes_def c'_def)
  next
    case False
    then have "c' = c" using assms by (simp add: c'_def store_or_get_action_def)
    then show ?thesis using e ws False by (intro exI [of _ ws]) (auto simp: c'_def)
  qed
qed

lemma top_layer_bound: "top_layer a w n < n \<or> top_layer a w n = 0"
  by (induction n) auto

text \<open>
  C8: whatever happens to the layers and to other keys between the press and the release
  of a key, the release looks up the same action as the press, as long as layer numbers fit the
  cache.
\<close>

theorem release_uses_layer_of_press:
  assumes "cache_ok lc c" and "is_matrix_key lc key" and "\<not> disable_action_cache lc"
    and "MAX_LAYER lc \<le> 2 ^ MAX_LAYER_BITS lc" and "MAX_LAYER_BITS lc < 8"
    and "store_or_get_action lc act True key s c = (action, c1)"
    and "\<forall>s. (True, key, s) \<notin> set es"
  shows "fst (store_or_get_action lc act False key s' (lookups lc act es c1)) = action"
proof -
  define l where "l = layer_switch_get_layer lc act key s"
  have "l < MAX_LAYER lc \<or> l = 0"
    unfolding l_def layer_switch_get_layer_def by (rule top_layer_bound)
  then have l2: "l < 2 ^ MAX_LAYER_BITS lc" using assms(4) by (metis less_le_trans zero_less_numeral zero_less_power)
  have p: "(2 :: nat) ^ MAX_LAYER_BITS lc < 2 ^ 8" using assms(5) by (intro power_strict_increasing) simp_all
  have u: "unat (of_nat l :: u8) = l" using l2 p by (simp add: unat_of_nat take_bit_nat_eq_self)
  have lt: "(of_nat l :: u8) < 2 ^ MAX_LAYER_BITS lc"
    using l2 assms(5) u by (simp add: word_less_nat_alt unat_two_power)
  have c1: "c1 = update_source_layers_cache lc key (of_nat l) c" "action = act l key"
    using assms(3,6) by (simp_all add: store_or_get_action_def l_def Let_def)
  obtain ws where ws: "lookups lc act es c1 = keys.writes lc ws c1" "fst ` set ws = {k. \<exists>s. (True, k, s) \<in> set es}"
    using lookups_are_writes [OF assms(3)] by blast
  have "read_source_layers_cache lc key (keys.writes lc ws c1) = of_nat l"
    unfolding c1(1) by (rule keys.remembers [OF assms(1,2) _ lt]) (use ws(2) assms(7) in blast)
  then show ?thesis using assms(3) ws(1) c1(2) u by (simp add: store_or_get_action_def)
qed

definition two_keys :: layer_cfg where
  "two_keys = \<lparr>MATRIX_ROWS = 1, MATRIX_COLS = 2, ENCODER_MAP_ENABLE = False, MAX_LAYER = 16, MAX_LAYER_BITS = 4,
     disable_action_cache = False\<rparr>"

definition clear_cache :: source_cache where
  "clear_cache = \<lparr>key_cache = [[0, 0, 0, 0]], encoder_cache = []\<rparr>"

lemma release_uses_layer_of_press_witness:
  "\<forall>act (s :: (16 word) action_state) (s1 :: (16 word) action_state) (s2 :: (16 word) action_state).
     fst (store_or_get_action two_keys act False \<lparr>col = 0, row = 0\<rparr> s2
       (lookups two_keys act [(True, \<lparr>col = 1, row = 0\<rparr>, s1)]
         (snd (store_or_get_action two_keys act True \<lparr>col = 0, row = 0\<rparr> s clear_cache)))) =
     fst (store_or_get_action two_keys act True \<lparr>col = 0, row = 0\<rparr> s clear_cache)"
proof (intro allI)
  fix act :: "nat \<Rightarrow> keypos \<Rightarrow> u16" and s s1 s2 :: "(16 word) action_state"
  have ok: "cache_ok two_keys clear_cache" "is_matrix_key two_keys \<lparr>col = 0, row = 0\<rparr>"
    by (simp_all add: clear_cache_def cache_ok_def slices_ok_def two_keys_def is_matrix_key_def)
  show "fst (store_or_get_action two_keys act False \<lparr>col = 0, row = 0\<rparr> s2
       (lookups two_keys act [(True, \<lparr>col = 1, row = 0\<rparr>, s1)]
         (snd (store_or_get_action two_keys act True \<lparr>col = 0, row = 0\<rparr> s clear_cache)))) =
     fst (store_or_get_action two_keys act True \<lparr>col = 0, row = 0\<rparr> s clear_cache)"
    by (rule release_uses_layer_of_press [OF ok _ _ _ prod.collapse [symmetric]]) (simp_all add: two_keys_def)
qed

end
