(* ===== verification/KeyLock.thy ===== *)
theory KeyLock
  imports QmkPrelude
begin

text \<open>
  Key lock (\<^verbatim>\<open>quantum/process_keycode/process_key_lock.c\<close>): the bit array of the locked keys, the key
  event filter, its refinement to a set of locked keys, and what the host is told along a sequence of
  events.
\<close>

section \<open>The locked keys\<close>

record key_lock =
  key_state :: "u64 list"
  watching :: bool

definition key_lock_init :: key_lock where
  "key_lock_init = \<lparr>key_state = [0, 0, 0, 0], watching = False\<rparr>"

definition BV_64 :: "nat \<Rightarrow> u64" where
  "BV_64 shift = push_bit shift 1"

definition GET_KEY_ARRAY :: "key_lock \<Rightarrow> u16 \<Rightarrow> u64" where
  "GET_KEY_ARRAY s code = (if code < 0x40 then key_state s ! 0 else if code < 0x80 then key_state s ! 1
     else if code < 0xC0 then key_state s ! 2 else key_state s ! 3)"

definition GET_CODE_INDEX :: "u16 \<Rightarrow> nat" where
  "GET_CODE_INDEX code = unat (if code < 0x40 then code else if code < 0x80 then code - 0x40
     else if code < 0xC0 then code - 0x80 else code - 0xC0)"

definition KEY_STATE :: "key_lock \<Rightarrow> u16 \<Rightarrow> bool" where
  "KEY_STATE s code \<longleftrightarrow> GET_KEY_ARRAY s code AND BV_64 (GET_CODE_INDEX code) = BV_64 (GET_CODE_INDEX code)"

definition SET_KEY_ARRAY_STATE :: "u16 \<Rightarrow> u64 \<Rightarrow> key_lock \<Rightarrow> key_lock" where
  "SET_KEY_ARRAY_STATE code val s =
     (if code \<le> 0x3F then s\<lparr>key_state := (key_state s)[0 := val]\<rparr>
      else if 0x40 \<le> code \<and> code \<le> 0x7F then s\<lparr>key_state := (key_state s)[1 := val]\<rparr>
      else if 0x80 \<le> code \<and> code \<le> 0xBF then s\<lparr>key_state := (key_state s)[2 := val]\<rparr>
      else if 0xC0 \<le> code \<and> code \<le> 0xFF then s\<lparr>key_state := (key_state s)[3 := val]\<rparr>
      else s)"

definition SET_KEY_STATE :: "u16 \<Rightarrow> key_lock \<Rightarrow> key_lock" where
  "SET_KEY_STATE code s = SET_KEY_ARRAY_STATE code (GET_KEY_ARRAY s code OR BV_64 (GET_CODE_INDEX code)) s"

definition UNSET_KEY_STATE :: "u16 \<Rightarrow> key_lock \<Rightarrow> key_lock" where
  "UNSET_KEY_STATE code s = SET_KEY_ARRAY_STATE code (GET_KEY_ARRAY s code AND NOT (BV_64 (GET_CODE_INDEX code))) s"

definition IS_STANDARD_KEYCODE :: "u16 \<Rightarrow> bool" where
  "IS_STANDARD_KEYCODE code \<longleftrightarrow> code \<le> 0xFF"

definition QK_ONE_SHOT_MOD :: u16 where "QK_ONE_SHOT_MOD = 0x52A0"

definition QK_ONE_SHOT_MOD_MAX :: u16 where "QK_ONE_SHOT_MOD_MAX = 0x52BF"

definition QK_LOCK :: u16 where "QK_LOCK = 0x7C59"

definition translate_keycode :: "u16 \<Rightarrow> u16" where
  "translate_keycode keycode =
     (if QK_ONE_SHOT_MOD < keycode \<and> keycode \<le> QK_ONE_SHOT_MOD_MAX then keycode XOR QK_ONE_SHOT_MOD else keycode)"

definition cancel_key_lock :: "key_lock \<Rightarrow> key_lock" where
  "cancel_key_lock s = UNSET_KEY_STATE 0 (s\<lparr>watching := False\<rparr>)"

text \<open>
  \<open>process_key_lock\<close> returns whether the event is passed on, the keycode it is passed on with, and
  the new state.
\<close>

definition process_key_lock :: "u16 \<Rightarrow> bool \<Rightarrow> key_lock \<Rightarrow> bool \<times> u16 \<times> key_lock" where
  "process_key_lock keycode pressed s =
    (let translated = translate_keycode keycode in
     if pressed then
       if \<not> (IS_STANDARD_KEYCODE translated \<or> translated = QK_LOCK) then (True, keycode, s\<lparr>watching := False\<rparr>)
       else if translated = QK_LOCK then (False, keycode, s\<lparr>watching := \<not> watching s\<rparr>)
       else if IS_STANDARD_KEYCODE translated then
         if watching s then (True, translated, SET_KEY_STATE translated (s\<lparr>watching := False\<rparr>))
         else if KEY_STATE s translated then (False, keycode, UNSET_KEY_STATE translated s)
         else (True, keycode, s)
       else (True, keycode, s)
     else (\<not> (IS_STANDARD_KEYCODE translated \<and> KEY_STATE s translated), keycode, s))"

section \<open>The array is a set of keys\<close>

definition key_lock_wf :: "key_lock \<Rightarrow> bool" where
  "key_lock_wf s \<longleftrightarrow> length (key_state s) = 4"

lemma key_lock_init_wf [simp]: "key_lock_wf key_lock_init"
  by (simp add: key_lock_wf_def key_lock_init_def)

lemma u16_split:
  assumes "(code :: u16) \<le> 0xFF"
  obtains "code \<le> 0x3F" "unat code div 64 = 0" "GET_CODE_INDEX code = unat code mod 64"
  | "0x40 \<le> code" "code \<le> 0x7F" "unat code div 64 = 1" "GET_CODE_INDEX code = unat code mod 64"
  | "0x80 \<le> code" "code \<le> 0xBF" "unat code div 64 = 2" "GET_CODE_INDEX code = unat code mod 64"
  | "0xC0 \<le> code" "code \<le> 0xFF" "unat code div 64 = 3" "GET_CODE_INDEX code = unat code mod 64"
proof -
  have b: "unat code \<le> 255" using assms by (simp add: word_le_nat_alt)
  have sub: "k \<le> code \<Longrightarrow> unat (code - k) = unat code - unat k" for k :: u16
    by (simp add: unat_sub)
  consider "unat code < 64" | "64 \<le> unat code" "unat code < 128" | "128 \<le> unat code" "unat code < 192"
    | "192 \<le> unat code" by linarith
  then show thesis
  proof cases
    case 1
    then show ?thesis using that(1) by (simp add: word_le_nat_alt word_less_nat_alt GET_CODE_INDEX_def)
  next
    case 2
    then have "unat code div 64 = 1" "unat code mod 64 = unat code - 64" by (simp_all add: mod_if)
    with 2 show ?thesis using that(2) sub [of "0x40"]
      by (simp add: word_le_nat_alt word_less_nat_alt GET_CODE_INDEX_def)
  next
    case 3
    then have "unat code div 64 = 2" "unat code mod 64 = unat code - 128" by (simp_all add: mod_if)
    with 3 show ?thesis using that(3) sub [of "0x80"]
      by (simp add: word_le_nat_alt word_less_nat_alt GET_CODE_INDEX_def)
  next
    case 4
    then have "unat code div 64 = 3" "unat code mod 64 = unat code - 192" using b by (simp_all add: mod_if)
    with 4 b show ?thesis using that(4) sub [of "0xC0"]
      by (simp add: word_le_nat_alt word_less_nat_alt GET_CODE_INDEX_def)
  qed
qed

lemma get_key_array:
  "code \<le> 0xFF \<Longrightarrow> GET_KEY_ARRAY s code = key_state s ! (unat code div 64)"
  by (rule u16_split [of code]) (auto simp: GET_KEY_ARRAY_def word_le_nat_alt word_less_nat_alt)

lemma code_index: "code \<le> 0xFF \<Longrightarrow> GET_CODE_INDEX code = unat code mod 64"
  by (erule u16_split)

lemma set_key_array:
  "code \<le> 0xFF \<Longrightarrow> SET_KEY_ARRAY_STATE code v s = s\<lparr>key_state := (key_state s)[unat code div 64 := v]\<rparr>"
  by (rule u16_split [of code]) (auto simp: SET_KEY_ARRAY_STATE_def word_le_nat_alt)

lemma key_state_bit:
  assumes "code \<le> 0xFF"
  shows "KEY_STATE s code \<longleftrightarrow> bit (key_state s ! (unat code div 64)) (unat code mod 64)"
proof -
  have "w AND BV_64 n = BV_64 n \<longleftrightarrow> bit w n" if "n < 64" for w n
    using that bit_bv_iff [of n, where 'a = 64]
    by (auto simp: BV_64_def bv_def bit_eq_iff [of "w AND _"] bit_and_iff)
  then show ?thesis using assms by (simp add: KEY_STATE_def get_key_array code_index)
qed

lemma same_bit_same_code:
  "c \<le> 0xFF \<Longrightarrow> code \<le> 0xFF \<Longrightarrow> unat c div 64 = unat code div 64 \<and> unat c mod 64 = unat code mod 64 \<longleftrightarrow> c = (code :: u16)"
  by (metis div_mult_mod_eq word_unat_eq_iff)

lemma set_key_state [simp]:
  assumes "key_lock_wf s" "code \<le> 0xFF" "c \<le> 0xFF"
  shows "KEY_STATE (SET_KEY_STATE code s) c \<longleftrightarrow> c = code \<or> KEY_STATE s c"
    "KEY_STATE (UNSET_KEY_STATE code s) c \<longleftrightarrow> c \<noteq> code \<and> KEY_STATE s c"
proof -
  have i: "unat code div 64 < 4" "unat c mod 64 < 64" using assms(2) by (simp_all add: word_le_nat_alt)
  have b: "bit (BV_64 n) m \<longleftrightarrow> m = n \<and> n < 64" for n m
    using bit_bv_iff [of n m, where 'a = 64] by (simp add: BV_64_def bv_def)
  show "KEY_STATE (SET_KEY_STATE code s) c \<longleftrightarrow> c = code \<or> KEY_STATE s c"
    "KEY_STATE (UNSET_KEY_STATE code s) c \<longleftrightarrow> c \<noteq> code \<and> KEY_STATE s c"
    using same_bit_same_code [OF assms(3,2)] i assms
    by (auto simp: key_state_bit SET_KEY_STATE_def UNSET_KEY_STATE_def set_key_array get_key_array code_index
        nth_list_update bit_or_iff bit_and_iff bit_not_iff b key_lock_wf_def)
qed

lemma set_key_fields [simp]:
  "watching (SET_KEY_ARRAY_STATE code v s) = watching s" "watching (SET_KEY_STATE code s) = watching s"
  "watching (UNSET_KEY_STATE code s) = watching s"
  "key_lock_wf (SET_KEY_ARRAY_STATE code v s) = key_lock_wf s" "key_lock_wf (SET_KEY_STATE code s) = key_lock_wf s"
  "key_lock_wf (UNSET_KEY_STATE code s) = key_lock_wf s"
  "key_lock_wf (s\<lparr>watching := b\<rparr>) = key_lock_wf s" "KEY_STATE (s\<lparr>watching := b\<rparr>) c = KEY_STATE s c"
  by (simp_all add: SET_KEY_ARRAY_STATE_def SET_KEY_STATE_def UNSET_KEY_STATE_def key_lock_wf_def KEY_STATE_def
      GET_KEY_ARRAY_def)

section \<open>Refinement to a set of locked keys\<close>

definition key_lock_abs :: "key_lock \<Rightarrow> u16 set \<times> bool" where
  "key_lock_abs s = ({c. c \<le> 0xFF \<and> KEY_STATE s c}, watching s)"

definition key_lock_spec :: "u16 \<Rightarrow> bool \<Rightarrow> u16 set \<times> bool \<Rightarrow> bool \<times> u16 set \<times> bool" where
  "key_lock_spec k pressed = (\<lambda>(locked, w).
     if \<not> pressed then (k \<notin> locked, locked, w)
     else if k = QK_LOCK then (False, locked, \<not> w)
     else if 0xFF < k then (True, locked, False)
     else if w then (True, insert k locked, False)
     else if k \<in> locked then (False, locked - {k}, w)
     else (True, locked, w))"

lemma QK_LOCK_not_standard [simp]: "IS_STANDARD_KEYCODE QK_LOCK = False"
  by (simp add: IS_STANDARD_KEYCODE_def QK_LOCK_def)

lemma key_lock_abs_simps [simp]:
  "key_lock_wf s \<Longrightarrow> k \<le> 0xFF \<Longrightarrow> key_lock_abs (SET_KEY_STATE k s) = (insert k (fst (key_lock_abs s)), watching s)"
  "key_lock_wf s \<Longrightarrow> k \<le> 0xFF \<Longrightarrow> key_lock_abs (UNSET_KEY_STATE k s) = (fst (key_lock_abs s) - {k}, watching s)"
  "key_lock_abs (s\<lparr>watching := b\<rparr>) = (fst (key_lock_abs s), b)"
  by (auto simp: key_lock_abs_def)

lemma key_lock_abs_init [simp]: "key_lock_abs key_lock_init = ({}, False)"
proof -
  have "\<not> KEY_STATE key_lock_init c" if "c \<le> 0xFF" for c
    using that by (rule u16_split) (simp_all add: that key_state_bit, simp_all add: key_lock_init_def)
  then show ?thesis by (auto simp: key_lock_abs_def key_lock_init_def)
qed

lemma key_lock_member: "k \<le> 0xFF \<Longrightarrow> k \<in> fst (key_lock_abs s) \<longleftrightarrow> KEY_STATE s k"
  "\<not> k \<le> 0xFF \<Longrightarrow> k \<notin> fst (key_lock_abs s)" "snd (key_lock_abs s) = watching s"
  by (simp_all add: key_lock_abs_def)

text \<open>
  The 256-bit array of key lock behaves as a set of locked keys with a flag that the next
  key is to be locked: every event is passed or masked, and changes that set, as the specification
  says for the translated keycode.
\<close>

theorem key_lock_refines_set:
  assumes "key_lock_wf s" and "process_key_lock keycode pressed s = (pass, kc, s')"
  shows "key_lock_spec (translate_keycode keycode) pressed (key_lock_abs s) = (pass, key_lock_abs s') \<and> key_lock_wf s'"
proof -
  obtain k where k: "translate_keycode keycode = k" by simp
  obtain L w where a: "key_lock_abs s = (L, w)" by (cases "key_lock_abs s")
  have w: "watching s = w" using key_lock_member(3) [of s] a by simp
  have "case process_key_lock keycode pressed s of (pass, kc, s') \<Rightarrow>
    key_lock_spec k pressed (L, w) = (pass, key_lock_abs s') \<and> key_lock_wf s'"
  proof (cases "k \<le> 0xFF")
    case True
    then have "KEY_STATE s k \<longleftrightarrow> k \<in> L" "k \<noteq> QK_LOCK" "\<not> 0xFF < k" using key_lock_member(1) [of k s] a
      by (auto simp: QK_LOCK_def not_less)
    with True show ?thesis
      by (simp add: process_key_lock_def key_lock_spec_def Let_def IS_STANDARD_KEYCODE_def k a w assms(1))
  next
    case False
    then show ?thesis using key_lock_member(2) [of k s] a
      by (simp add: process_key_lock_def key_lock_spec_def Let_def IS_STANDARD_KEYCODE_def k w assms(1) not_le)
  qed
  then show ?thesis by (simp add: k a assms(2))
qed

lemma key_lock_refines_set_witness:
  "key_lock_spec 9 True (key_lock_abs (key_lock_init\<lparr>watching := True\<rparr>)) = (True, {9}, False)"
proof -
  let ?s = "key_lock_init\<lparr>watching := True\<rparr>"
  obtain pass kc s' where r: "process_key_lock 9 True ?s = (pass, kc, s')" by (metis prod.exhaust)
  have "translate_keycode 9 = 9" by (simp add: translate_keycode_def QK_ONE_SHOT_MOD_def)
  then show ?thesis
    using key_lock_refines_set [OF _ r] by (auto simp: key_lock_spec_def QK_LOCK_def)
qed

section \<open>What the host is told\<close>

text \<open>
  The host holds a basic key from a forwarded press to a forwarded release; \<open>keys_down\<close> are the keys
  that are physically down.
\<close>

definition host_keys :: "bool \<times> u16 \<Rightarrow> bool \<Rightarrow> u16 set \<Rightarrow> u16 set" where
  "host_keys = (\<lambda>(pass, kc) pressed held.
     if pass \<and> IS_STANDARD_KEYCODE kc then if pressed then insert kc held else held - {kc} else held)"

fun key_lock_run :: "(u16 \<times> bool) list \<Rightarrow> key_lock \<times> u16 set \<Rightarrow> key_lock \<times> u16 set" where
  "key_lock_run [] c = c"
| "key_lock_run ((keycode, pressed) # es) (s, held) =
    (let (pass, kc, s') = process_key_lock keycode pressed s in
     key_lock_run es (s', host_keys (pass, kc) pressed held))"

fun keys_down :: "(u16 \<times> bool) list \<Rightarrow> u16 set \<Rightarrow> u16 set" where
  "keys_down [] d = d"
| "keys_down ((keycode, pressed) # es) d = keys_down es (host_keys (True, keycode) pressed d)"

definition is_one_shot_mod :: "u16 \<Rightarrow> bool" where
  "is_one_shot_mod k \<longleftrightarrow> QK_ONE_SHOT_MOD < k \<and> k \<le> QK_ONE_SHOT_MOD_MAX"

lemma key_lock_step_held:
  assumes "key_lock_wf s" "\<not> is_one_shot_mod keycode" "process_key_lock keycode pressed s = (pass, kc, s')"
    and "held = d \<union> fst (key_lock_abs s)"
  shows "host_keys (pass, kc) pressed held = host_keys (True, keycode) pressed d \<union> fst (key_lock_abs s')"
proof -
  have t: "translate_keycode keycode = keycode" using assms(2) by (auto simp: translate_keycode_def is_one_shot_mod_def)
  have k: "kc = keycode" using assms(3) by (auto simp: process_key_lock_def Let_def t split: if_splits)
  have "key_lock_spec keycode pressed (key_lock_abs s) = (pass, key_lock_abs s')"
    using assms(1,3) key_lock_refines_set [of s keycode pressed pass kc s'] t by simp
  moreover have "fst (key_lock_abs s) \<subseteq> {c. c \<le> 0xFF}" by (auto simp: key_lock_abs_def)
  ultimately show ?thesis
    unfolding assms(4) k by (cases "key_lock_abs s"; cases "key_lock_abs s'")
      (auto simp: key_lock_spec_def host_keys_def IS_STANDARD_KEYCODE_def QK_LOCK_def split: if_splits)
qed

text \<open>
  C24: after any sequence of presses and releases of keycodes that are not one-shot modifiers, the host holds exactly the basic keys
  that are down or locked: a locked key is never released under the user, and no key stays pressed once it is neither
  down nor locked. (Lemma \<^verbatim>\<open>one_shot_mod_locks_wrong_key\<close> is what one-shot modifiers do.)
\<close>

theorem key_lock_holds_down_or_locked:
  assumes "list_all (\<lambda>(k, pressed). \<not> is_one_shot_mod k) es" and "key_lock_run es (key_lock_init, {}) = (s, held)"
  shows "held = keys_down es {} \<union> {c. c \<le> 0xFF \<and> KEY_STATE s c}"
proof -
  have "held = keys_down es d \<union> fst (key_lock_abs s)"
    if "key_lock_wf s0" "list_all (\<lambda>(k, pressed). \<not> is_one_shot_mod k) es"
      "held0 = d \<union> fst (key_lock_abs s0)" "key_lock_run es (s0, held0) = (s, held)" for es d s0 held0
    using that
  proof (induction es arbitrary: d s0 held0)
    case (Cons e es)
    obtain k p where e: "e = (k, p)" by (cases e)
    obtain pass kc s1 where r: "process_key_lock k p s0 = (pass, kc, s1)" by (metis prod.exhaust)
    have "key_lock_wf s1" using key_lock_refines_set [OF Cons.prems(1) r] by blast
    then show ?case
      using Cons.IH key_lock_step_held [OF Cons.prems(1) _ r Cons.prems(3)] Cons.prems(2,4) e r by simp
  qed simp
  from this [OF key_lock_init_wf assms(1) _ assms(2), of "{}"] show ?thesis by (simp add: key_lock_abs_def [of s])
qed

lemma key_lock_holds_down_or_locked_witness:
  "4 \<in> snd (key_lock_run [(QK_LOCK, True), (QK_LOCK, False), (4, True), (4, False)] (key_lock_init, {}))"
proof -
  let ?es = "[(QK_LOCK, True), (QK_LOCK, False), (4, True), (4, False)]"
  obtain s held where r: "key_lock_run ?es (key_lock_init, {}) = (s, held)" by (metis prod.exhaust)
  have "list_all (\<lambda>(k, pressed). \<not> is_one_shot_mod k) ?es"
    by (simp add: is_one_shot_mod_def QK_LOCK_def QK_ONE_SHOT_MOD_def QK_ONE_SHOT_MOD_MAX_def)
  from key_lock_holds_down_or_locked [OF this r] have "KEY_STATE s 4 \<Longrightarrow> 4 \<in> held" by simp
  moreover have "KEY_STATE (fst (key_lock_run ?es (key_lock_init, {}))) 4" by code_simp
  ultimately show ?thesis using r by simp
qed

section \<open>Where the code and its documentation part\<close>

text \<open>Cancelling the key lock releases keycode 0 only, and no key is told to the host as released.\<close>

lemma cancel_key_lock_keeps_keys:
  "key_lock_wf s \<Longrightarrow> k \<le> 0xFF \<Longrightarrow> k \<noteq> 0 \<Longrightarrow> KEY_STATE (cancel_key_lock s) k = KEY_STATE s k"
  by (simp add: cancel_key_lock_def)

text \<open>
  Locking \<^verbatim>\<open>OSM(MOD_LSFT)\<close> (0x52A2) presses keycode 2, the bits of the modifier, instead of left shift,
  and the releases that follow reach the host under the keycode 0x52A2, so keycode 2 stays pressed.
\<close>

lemma one_shot_mod_locks_wrong_key:
  "snd (key_lock_run [(QK_LOCK, True), (0x52A2, True), (0x52A2, False), (0x52A2, True), (0x52A2, False)]
     (key_lock_init, {})) = {2}"
  by code_simp

end
