(* ===== verification/Secure.thy ===== *)
theory Secure
  imports QmkPrelude "HOL-Library.Sublist"
begin

text \<open>
  The secure feature (\<^verbatim>\<open>quantum/secure.c\<close>, \<^verbatim>\<open>process_keycode/process_secure.c\<close>): the lock state, the
  unlock sequence and the timeouts, as operations and as a step relation whose reachable states are
  shown to unlock only when the sequence was entered.
\<close>

section \<open>State and configuration\<close>

datatype secure_status = SECURE_LOCKED | SECURE_PENDING | SECURE_UNLOCKED

text \<open>A timeout of 0 leaves its check out of \<^verbatim>\<open>secure_task\<close> at compile time.\<close>

record secure_cfg =
  SECURE_UNLOCK_SEQUENCE :: "(u8 \<times> u8) list"
  SECURE_UNLOCK_TIMEOUT :: u32
  SECURE_IDLE_TIMEOUT :: u32
  SECURE_DISABLE_KEYCODES :: bool

text \<open>\<open>hooks\<close> collects the calls of the hooks, \<open>stime\<close> is what \<^verbatim>\<open>timer_read32\<close> returns.\<close>

record secure_state =
  status :: secure_status
  unlock_time :: u32
  idle_time :: u32
  seq_offset :: u8
  stime :: u32
  hooks :: "secure_status list"

definition secure_init :: secure_state where
  "secure_init = \<lparr>status = SECURE_LOCKED, unlock_time = 0, idle_time = 0, seq_offset = 0, stime = 0, hooks = []\<rparr>"

section \<open>Operations\<close>

definition secure_hook :: "secure_status \<Rightarrow> secure_state \<Rightarrow> secure_state" where
  "secure_hook st s = s\<lparr>hooks := hooks s @ [st]\<rparr>"

definition secure_get_status :: "secure_state \<Rightarrow> secure_status" where
  "secure_get_status s = status s"

definition secure_is_locked :: "secure_state \<Rightarrow> bool" where
  "secure_is_locked s \<longleftrightarrow> secure_get_status s = SECURE_LOCKED"

definition secure_is_unlocking :: "secure_state \<Rightarrow> bool" where
  "secure_is_unlocking s \<longleftrightarrow> secure_get_status s = SECURE_PENDING"

definition secure_is_unlocked :: "secure_state \<Rightarrow> bool" where
  "secure_is_unlocked s \<longleftrightarrow> secure_get_status s = SECURE_UNLOCKED"

definition secure_lock :: "secure_state \<Rightarrow> secure_state" where
  "secure_lock s = secure_hook SECURE_LOCKED (s\<lparr>status := SECURE_LOCKED\<rparr>)"

definition secure_unlock :: "secure_state \<Rightarrow> secure_state" where
  "secure_unlock s = secure_hook SECURE_UNLOCKED (s\<lparr>status := SECURE_UNLOCKED, idle_time := stime s\<rparr>)"

definition secure_request_unlock :: "secure_state \<Rightarrow> secure_state" where
  "secure_request_unlock s =
    (let s = (if status s = SECURE_LOCKED then s\<lparr>status := SECURE_PENDING, unlock_time := stime s\<rparr> else s)
     in secure_hook (status s) s)"

definition secure_activity_event :: "secure_state \<Rightarrow> secure_state" where
  "secure_activity_event s = (if status s = SECURE_UNLOCKED then s\<lparr>idle_time := stime s\<rparr> else s)"

text \<open>The static \<^verbatim>\<open>offset\<close> of \<^verbatim>\<open>secure_keypress_event\<close> is the field \<open>seq_offset\<close>; the length is cut to 8 bits.\<close>

definition sequence_len :: "secure_cfg \<Rightarrow> u8" where
  "sequence_len c = of_nat (length (SECURE_UNLOCK_SEQUENCE c))"

definition secure_keypress_event :: "secure_cfg \<Rightarrow> u8 \<Rightarrow> u8 \<Rightarrow> secure_state \<Rightarrow> secure_state" where
  "secure_keypress_event c row col s =
    (if SECURE_UNLOCK_SEQUENCE c ! unat (seq_offset s) = (row, col)
     then let s = s\<lparr>seq_offset := seq_offset s + 1\<rparr> in
       if seq_offset s = sequence_len c then secure_unlock (s\<lparr>seq_offset := 0\<rparr>) else s
     else secure_lock (s\<lparr>seq_offset := 0\<rparr>))"

definition secure_task :: "secure_cfg \<Rightarrow> secure_state \<Rightarrow> secure_state" where
  "secure_task c s =
    (let s = (if SECURE_UNLOCK_TIMEOUT c \<noteq> 0 \<and> status s = SECURE_PENDING \<and>
                timer_diff (stime s) (unlock_time s) \<ge> SECURE_UNLOCK_TIMEOUT c then secure_lock s else s)
     in if SECURE_IDLE_TIMEOUT c \<noteq> 0 \<and> status s = SECURE_UNLOCKED \<and>
          timer_diff (stime s) (idle_time s) \<ge> SECURE_IDLE_TIMEOUT c then secure_lock s else s)"

section \<open>Key events\<close>

definition QK_SECURE_LOCK :: u16 where "QK_SECURE_LOCK = 0x7C60"
definition QK_SECURE_UNLOCK :: u16 where "QK_SECURE_UNLOCK = 0x7C61"
definition QK_SECURE_TOGGLE :: u16 where "QK_SECURE_TOGGLE = 0x7C62"
definition QK_SECURE_REQUEST :: u16 where "QK_SECURE_REQUEST = 0x7C63"

record secure_record =
  ev_row :: u8
  ev_col :: u8
  ev_pressed :: bool

definition preprocess_secure :: "secure_cfg \<Rightarrow> secure_record \<Rightarrow> secure_state \<Rightarrow> bool \<times> secure_state" where
  "preprocess_secure c r s =
    (if secure_is_unlocking s
     then (False, if ev_pressed r then secure_keypress_event c (ev_row r) (ev_col r) s else s)
     else (True, s))"

definition process_secure :: "secure_cfg \<Rightarrow> u16 \<Rightarrow> secure_record \<Rightarrow> secure_state \<Rightarrow> bool \<times> secure_state" where
  "process_secure c keycode r s =
    (if \<not> SECURE_DISABLE_KEYCODES c \<and> \<not> ev_pressed r then
       if keycode = QK_SECURE_LOCK then (False, secure_lock s)
       else if keycode = QK_SECURE_UNLOCK then (False, secure_unlock s)
       else if keycode = QK_SECURE_TOGGLE then (False, if secure_is_locked s then secure_unlock s else secure_lock s)
       else if keycode = QK_SECURE_REQUEST then (False, secure_request_unlock s)
       else (True, s)
     else (True, s))"

text \<open>The part of \<^verbatim>\<open>process_record_quantum\<close> that concerns the feature: the check comes first.\<close>

definition secure_process_record :: "secure_cfg \<Rightarrow> u16 \<Rightarrow> secure_record \<Rightarrow> secure_state \<Rightarrow> bool \<times> secure_state" where
  "secure_process_record c keycode r s =
    (let (go, s) = preprocess_secure c r s in if \<not> go then (False, s) else process_secure c keycode r s)"

section \<open>The step relation\<close>

datatype secure_event =
    Tick u32
  | Task
  | Record u16 secure_record
  | Activity
  | Request
  | Lock
  | Unlock

inductive secure_step :: "secure_cfg \<Rightarrow> secure_state \<Rightarrow> secure_event \<Rightarrow> secure_state \<Rightarrow> bool" for c where
  tick: "secure_step c s (Tick d) (s\<lparr>stime := stime s + d\<rparr>)"
| task: "secure_step c s Task (secure_task c s)"
| record_event: "secure_process_record c keycode r s = (b, s') \<Longrightarrow> secure_step c s (Record keycode r) s'"
| activity: "secure_step c s Activity (secure_activity_event s)"
| request: "secure_step c s Request (secure_request_unlock s)"
| lock: "secure_step c s Lock (secure_lock s)"
| unlock: "secure_step c s Unlock (secure_unlock s)"

inductive_cases secure_stepE: "secure_step c s e s'"
inductive_simps secure_step_record: "secure_step c s (Record keycode r) s'"

text \<open>The key positions entered so far while the feature was waiting for the sequence.\<close>

definition attempt :: "secure_state \<Rightarrow> secure_event \<Rightarrow> (u8 \<times> u8) list" where
  "attempt s e = (case e of Record keycode r \<Rightarrow> if secure_is_unlocking s \<and> ev_pressed r then [(ev_row r, ev_col r)] else []
     | _ \<Rightarrow> [])"

inductive secure_reach :: "secure_cfg \<Rightarrow> secure_state \<Rightarrow> (u8 \<times> u8) list \<Rightarrow> bool" for c where
  start: "secure_reach c secure_init []"
| step: "secure_reach c s entered \<Longrightarrow> secure_step c s e s' \<Longrightarrow> secure_reach c s' (entered @ attempt s e)"

definition secure_cfg_ok :: "secure_cfg \<Rightarrow> bool" where
  "secure_cfg_ok c \<longleftrightarrow> 0 < length (SECURE_UNLOCK_SEQUENCE c) \<and> length (SECURE_UNLOCK_SEQUENCE c) < 256"

text \<open>
  The invariant: the offset is inside of the sequence and the last keys entered are the first keys of
  the sequence, as many as the offset says.
\<close>

definition secure_inv :: "secure_cfg \<Rightarrow> secure_state \<Rightarrow> (u8 \<times> u8) list \<Rightarrow> bool" where
  "secure_inv c s entered \<longleftrightarrow> unat (seq_offset s) < length (SECURE_UNLOCK_SEQUENCE c) \<and>
     suffix (take (unat (seq_offset s)) (SECURE_UNLOCK_SEQUENCE c)) entered"

named_theorems secure_defs "unfolding of the operations of the secure feature"

lemmas secure_op_defs [secure_defs] = secure_hook_def secure_lock_def secure_unlock_def secure_request_unlock_def
  secure_activity_event_def secure_is_locked_def secure_is_unlocking_def secure_get_status_def

lemma seq_offset_ops [simp]:
  "seq_offset (secure_lock s) = seq_offset s" "seq_offset (secure_unlock s) = seq_offset s"
  "seq_offset (secure_request_unlock s) = seq_offset s" "seq_offset (secure_activity_event s) = seq_offset s"
  "seq_offset (secure_task c s) = seq_offset s" "seq_offset (snd (process_secure c kc r s)) = seq_offset s"
  by (simp_all add: secure_defs secure_task_def process_secure_def Let_def)

lemma status_ops [simp]:
  "status (secure_lock s) = SECURE_LOCKED" "status (secure_unlock s) = SECURE_UNLOCKED"
  "status (secure_request_unlock s) = SECURE_UNLOCKED \<longleftrightarrow> status s = SECURE_UNLOCKED"
  "status (secure_activity_event s) = status s"
  "status (secure_task c s) = SECURE_UNLOCKED \<Longrightarrow> status s = SECURE_UNLOCKED"
  by (simp_all add: secure_defs secure_task_def Let_def split: if_splits)

text \<open>One key of the sequence: the offset follows, and the whole sequence is what unlocks.\<close>

lemma keypress_inv:
  assumes "secure_cfg_ok c" "secure_inv c s entered"
  shows "secure_inv c (secure_keypress_event c row col s) (entered @ [(row, col)])"
    and "status (secure_keypress_event c row col s) = SECURE_UNLOCKED \<Longrightarrow> status s \<noteq> SECURE_UNLOCKED \<Longrightarrow>
      suffix (SECURE_UNLOCK_SEQUENCE c) (entered @ [(row, col)])"
proof -
  let ?q = "SECURE_UNLOCK_SEQUENCE c" and ?o = "unat (seq_offset s)"
  have o: "?o < length ?q" "suffix (take ?o ?q) entered" using assms(2) by (simp_all add: secure_inv_def)
  have l: "0 < length ?q" "length ?q < 256" using assms(1) by (simp_all add: secure_cfg_ok_def)
  have o1: "unat (seq_offset s + 1) = ?o + 1" using o l by (simp add: unat_word_ariths)
  have ul: "unat (sequence_len c) = length ?q" using l by (simp add: sequence_len_def unat_of_nat)
  have fin: "seq_offset s + 1 = sequence_len c \<longleftrightarrow> ?o + 1 = length ?q"
    unfolding word_unat_eq_iff o1 ul ..
  have ext: "suffix (take (?o + 1) ?q) (entered @ [(row, col)])" if "?q ! ?o = (row, col)"
    using o that by (simp add: take_Suc_conv_app_nth suffix_def)
  show "secure_inv c (secure_keypress_event c row col s) (entered @ [(row, col)])"
    using o l ext by (simp add: secure_keypress_event_def Let_def fin secure_inv_def o1)
  show "suffix ?q (entered @ [(row, col)])"
    if "status (secure_keypress_event c row col s) = SECURE_UNLOCKED" "status s \<noteq> SECURE_UNLOCKED"
  proof -
    have "?q ! ?o = (row, col)" using that(1) by (rule contrapos_pp) (simp add: secure_keypress_event_def)
    moreover from this that have "?o + 1 = length ?q"
      by (cases "?o + 1 = length ?q") (simp_all add: secure_keypress_event_def Let_def fin)
    ultimately show ?thesis using ext by (metis order_refl take_all)
  qed
qed

lemma step_inv:
  assumes "secure_cfg_ok c" "secure_inv c s entered" "secure_step c s e s'"
  shows "secure_inv c s' (entered @ attempt s e)"
    and "status s' = SECURE_UNLOCKED \<Longrightarrow> status s \<noteq> SECURE_UNLOCKED \<Longrightarrow> e \<noteq> Unlock \<Longrightarrow> SECURE_DISABLE_KEYCODES c \<Longrightarrow>
      attempt s e \<noteq> [] \<and> suffix (SECURE_UNLOCK_SEQUENCE c) (entered @ attempt s e)"
proof -
  have same: "secure_inv c t entered" if "seq_offset t = seq_offset s" for t
    using that assms(2) by (simp add: secure_inv_def)
  show "secure_inv c s' (entered @ attempt s e)"
    using assms(3)
  proof (cases rule: secure_step.cases)
    case (record_event keycode r b)
    then have "s' = snd (secure_process_record c keycode r s)" by (metis snd_conv)
    then show ?thesis
      using keypress_inv(1) [OF assms(1,2), of "ev_row r" "ev_col r"] assms(2)
        same [of "snd (process_secure c keycode r s)"]
      by (cases "secure_is_unlocking s"; cases "ev_pressed r")
        (simp_all add: record_event(1) attempt_def secure_process_record_def preprocess_secure_def)
  qed (simp_all add: attempt_def same)
  show "attempt s e \<noteq> [] \<and> suffix (SECURE_UNLOCK_SEQUENCE c) (entered @ attempt s e)"
    if u: "status s' = SECURE_UNLOCKED" "status s \<noteq> SECURE_UNLOCKED" "e \<noteq> Unlock" "SECURE_DISABLE_KEYCODES c"
    using assms(3)
  proof (cases rule: secure_step.cases)
    case (record_event keycode r b)
    then have "s' = snd (secure_process_record c keycode r s)" by (metis snd_conv)
    moreover have "snd (process_secure c keycode r s) = s" using u(4) by (simp add: process_secure_def)
    ultimately show ?thesis
      using keypress_inv(2) [OF assms(1,2), of "ev_row r" "ev_col r"] u(1,2)
      by (cases "secure_is_unlocking s"; cases "ev_pressed r")
        (simp_all add: record_event(1) attempt_def secure_process_record_def preprocess_secure_def)
  qed (use u status_ops(5) [of c s] in simp_all)
qed

lemma reach_inv: "secure_reach c s entered \<Longrightarrow> secure_cfg_ok c \<Longrightarrow> secure_inv c s entered"
proof (induction rule: secure_reach.induct)
  case start
  then show ?case by (simp add: secure_inv_def secure_init_def secure_cfg_ok_def)
next
  case (step s entered e s')
  then show ?case by (blast intro: step_inv(1))
qed

section \<open>Properties\<close>

text \<open>
  C25: in a build with all keycodes of the feature disabled (\<^verbatim>\<open>SECURE_DISABLE_KEYCODES\<close>) and an unlock sequence of 1 to 255
  keys, a step other than a direct call of \<^verbatim>\<open>secure_unlock\<close> that leads from a reachable state to the unlocked state is a
  key press that completes the unlock sequence: the keys entered while the feature waited for the sequence end with it.
\<close>

theorem secure_unlock_needs_sequence:
  assumes "secure_cfg_ok c" and "SECURE_DISABLE_KEYCODES c" and "secure_reach c s entered"
    and "secure_step c s e s'" and "e \<noteq> Unlock" and "status s \<noteq> SECURE_UNLOCKED" and "status s' = SECURE_UNLOCKED"
  shows "\<exists>keycode r. e = Record keycode r \<and> ev_pressed r \<and> status s = SECURE_PENDING \<and>
    suffix (SECURE_UNLOCK_SEQUENCE c) (entered @ [(ev_row r, ev_col r)])"
proof -
  have "attempt s e \<noteq> []" "suffix (SECURE_UNLOCK_SEQUENCE c) (entered @ attempt s e)"
    using step_inv(2) [OF assms(1) reach_inv [OF assms(3,1)] assms(4,7,6,5,2)] by simp_all
  then show ?thesis
    by (cases e) (auto simp: attempt_def secure_is_unlocking_def secure_get_status_def split: if_splits)
qed

text \<open>
  In every reachable state the offset into the unlock sequence is inside of it, so the
  table is never read out of bounds.
\<close>

theorem secure_offset_in_bounds:
  assumes "secure_cfg_ok c" and "secure_reach c s entered"
  shows "unat (seq_offset s) < length (SECURE_UNLOCK_SEQUENCE c)"
  using reach_inv [OF assms(2,1)] by (simp add: secure_inv_def)

definition demo_cfg :: secure_cfg where
  "demo_cfg = \<lparr>SECURE_UNLOCK_SEQUENCE = [(0, 0), (1, 1)], SECURE_UNLOCK_TIMEOUT = 5000, SECURE_IDLE_TIMEOUT = 60000,
     SECURE_DISABLE_KEYCODES = True\<rparr>"

definition demo_press :: "u8 \<Rightarrow> secure_record" where
  "demo_press k = \<lparr>ev_row = k, ev_col = k, ev_pressed = True\<rparr>"

lemma demo_pending:
  "secure_reach demo_cfg (snd (secure_process_record demo_cfg 4 (demo_press 0) (secure_request_unlock secure_init))) [(0, 0)]"
proof -
  have a: "secure_reach demo_cfg (secure_request_unlock secure_init) []"
    using secure_reach.step [OF secure_reach.start secure_step.request] by (simp add: attempt_def)
  obtain b s' where r: "secure_process_record demo_cfg 4 (demo_press 0) (secure_request_unlock secure_init) = (b, s')"
    by (metis prod.exhaust)
  have "attempt (secure_request_unlock secure_init) (Record 4 (demo_press 0)) = [(0, 0)]" by code_simp
  then show ?thesis using secure_reach.step [OF a secure_step.record_event [OF r]] r by simp
qed

lemma secure_offset_in_bounds_witness:
  "unat (seq_offset (snd (secure_process_record demo_cfg 4 (demo_press 0) (secure_request_unlock secure_init)))) < 2"
  using secure_offset_in_bounds [OF _ demo_pending] by (simp add: demo_cfg_def secure_cfg_ok_def)

lemma secure_unlock_needs_sequence_witness:
  "suffix (SECURE_UNLOCK_SEQUENCE demo_cfg) [(0, 0), (1, 1)]"
proof -
  let ?s = "snd (secure_process_record demo_cfg 4 (demo_press 0) (secure_request_unlock secure_init))"
  obtain b s' where r: "secure_process_record demo_cfg 5 (demo_press 1) ?s = (b, s')" by (metis prod.exhaust)
  have "status (snd (secure_process_record demo_cfg 5 (demo_press 1) ?s)) = SECURE_UNLOCKED" by code_simp
  then have u: "status s' = SECURE_UNLOCKED" by (simp add: r)
  have p: "status ?s \<noteq> SECURE_UNLOCKED" by code_simp
  have c: "secure_cfg_ok demo_cfg" "SECURE_DISABLE_KEYCODES demo_cfg" by (simp_all add: demo_cfg_def secure_cfg_ok_def)
  show ?thesis
    using secure_unlock_needs_sequence [OF c demo_pending secure_step.record_event [OF r] _ p u]
    by (auto simp: demo_press_def)
qed

text \<open>
  The keys may be entered across two requests: the offset survives a timeout and a lock, so a first key
  pressed before the timeout still counts after the next request.
\<close>

fun secure_run :: "secure_cfg \<Rightarrow> secure_event list \<Rightarrow> secure_state \<Rightarrow> secure_state" where
  "secure_run c [] s = s"
| "secure_run c (Tick d # es) s = secure_run c es (s\<lparr>stime := stime s + d\<rparr>)"
| "secure_run c (Task # es) s = secure_run c es (secure_task c s)"
| "secure_run c (Record keycode r # es) s = secure_run c es (snd (secure_process_record c keycode r s))"
| "secure_run c (Activity # es) s = secure_run c es (secure_activity_event s)"
| "secure_run c (Request # es) s = secure_run c es (secure_request_unlock s)"
| "secure_run c (Lock # es) s = secure_run c es (secure_lock s)"
| "secure_run c (Unlock # es) s = secure_run c es (secure_unlock s)"

lemma secure_sequence_spans_requests:
  "status (secure_run demo_cfg [Request, Record 4 (demo_press 0), Tick 5000, Task] secure_init) = SECURE_LOCKED"
  "status (secure_run demo_cfg [Request, Record 4 (demo_press 0), Tick 5000, Task, Request, Record 5 (demo_press 1)]
     secure_init) = SECURE_UNLOCKED"
  by code_simp+

end
