(* ===== verification/DeferredExec.thy ===== *)
theory DeferredExec
  imports QmkPrelude "HOL-Library.Monad_Syntax"
begin

text \<open>
  Deferred execution (\<^verbatim>\<open>quantum/deferred_exec.c\<close>): a table of callbacks with 8-bit tokens and trigger
  times, the allocation of tokens, the operations on the table and the task that runs what is due.
\<close>

section \<open>State\<close>

type_synonym deferred_token = u8

definition INVALID_DEFERRED_TOKEN :: deferred_token where
  "INVALID_DEFERRED_TOKEN = 0"

text \<open>Callbacks and their arguments are pointers; \<open>None\<close> is \<^verbatim>\<open>NULL\<close>.\<close>

record ('c, 'a) deferred_executor =
  token :: deferred_token
  trigger_time :: u32
  callback :: "'c option"
  cb_arg :: "'a option"

text \<open>
  A table with the variables around it: the static \<^verbatim>\<open>current_token\<close>, the time of the last run, what
  \<^verbatim>\<open>timer_read32\<close> returns, and the rest of the world, which only the callbacks change.
\<close>

record ('c, 'a, 'w) deferred_state =
  table :: "('c, 'a) deferred_executor list"
  current_token :: deferred_token
  last_execution_time :: u32
  dnow :: u32
  world :: 'w

definition free_executor :: "('c, 'a) deferred_executor" where
  "free_executor = \<lparr>token = INVALID_DEFERRED_TOKEN, trigger_time = 0, callback = None, cb_arg = None\<rparr>"

definition deferred_init :: "nat \<Rightarrow> 'w \<Rightarrow> ('c, 'a, 'w) deferred_state" where
  "deferred_init n w = \<lparr>table = replicate n free_executor, current_token = 0, last_execution_time = 0, dnow = 0, world = w\<rparr>"

section \<open>Tokens\<close>

fun token_can_be_used :: "('c, 'a) deferred_executor list \<Rightarrow> deferred_token \<Rightarrow> bool" where
  "token_can_be_used tab t = (if t = INVALID_DEFERRED_TOKEN then False else list_all (\<lambda>e. token e \<noteq> t) tab)"

declare token_can_be_used.simps [simp del]

text \<open>
  The loop of \<^verbatim>\<open>allocate_token\<close> returns the token, or the invalid one after a full turn, and the value
  left in \<^verbatim>\<open>current_token\<close>; not returning is \<open>None\<close>.
\<close>

partial_function (option) allocate_loop ::
    "('c, 'a) deferred_executor list \<Rightarrow> deferred_token \<Rightarrow> deferred_token \<Rightarrow> (deferred_token \<times> deferred_token) option" where
  "allocate_loop tab first cur =
    (if token_can_be_used tab cur then Some (cur, cur)
     else if cur + 1 = first then Some (INVALID_DEFERRED_TOKEN, cur + 1)
     else allocate_loop tab first (cur + 1))"

declare allocate_loop.simps [code]

definition allocate_token ::
    "('c, 'a) deferred_executor list \<Rightarrow> deferred_token \<Rightarrow> (deferred_token \<times> deferred_token) option" where
  "allocate_token tab cur = allocate_loop tab (cur + 1) (cur + 1)"

section \<open>Operations on the table\<close>

fun find_token :: "('c, 'a) deferred_executor list \<Rightarrow> deferred_token \<Rightarrow> nat option" where
  "find_token [] t = None"
| "find_token (e # es) t = (if token e = t then Some 0 else map_option Suc (find_token es t))"

definition defer_exec_advanced ::
    "u32 \<Rightarrow> 'c option \<Rightarrow> 'a option \<Rightarrow> ('c, 'a, 'w) deferred_state \<Rightarrow> (deferred_token \<times> ('c, 'a, 'w) deferred_state) option" where
  "defer_exec_advanced delay_ms cb arg s =
    (if table s = [] \<or> delay_ms = 0 \<or> cb = None then Some (INVALID_DEFERRED_TOKEN, s)
     else case find_token (table s) INVALID_DEFERRED_TOKEN of
       None \<Rightarrow> Some (INVALID_DEFERRED_TOKEN, s)
     | Some i \<Rightarrow> do {
         (t, cur) \<leftarrow> allocate_token (table s) (current_token s);
         let s = s\<lparr>current_token := cur\<rparr>;
         if t = INVALID_DEFERRED_TOKEN then Some (0, s)
         else Some (current_token s, s\<lparr>table := (table s)[i := \<lparr>token = current_token s,
           trigger_time = dnow s + delay_ms, callback = cb, cb_arg = arg\<rparr>]\<rparr>)
       })"

definition extend_deferred_exec_advanced ::
    "deferred_token \<Rightarrow> u32 \<Rightarrow> ('c, 'a, 'w) deferred_state \<Rightarrow> bool \<times> ('c, 'a, 'w) deferred_state" where
  "extend_deferred_exec_advanced t delay_ms s =
    (if table s = [] \<or> delay_ms = 0 \<or> t = INVALID_DEFERRED_TOKEN then (False, s)
     else case find_token (table s) t of
       None \<Rightarrow> (False, s)
     | Some i \<Rightarrow> (True, s\<lparr>table := (table s)[i := (table s ! i)\<lparr>trigger_time := dnow s + delay_ms\<rparr>]\<rparr>))"

definition cancel_deferred_exec_advanced ::
    "deferred_token \<Rightarrow> ('c, 'a, 'w) deferred_state \<Rightarrow> bool \<times> ('c, 'a, 'w) deferred_state" where
  "cancel_deferred_exec_advanced t s =
    (if table s = [] \<or> t = INVALID_DEFERRED_TOKEN then (False, s)
     else case find_token (table s) t of
       None \<Rightarrow> (False, s)
     | Some i \<Rightarrow> (True, s\<lparr>table := (table s)[i := free_executor]\<rparr>))"

section \<open>The task\<close>

text \<open>
  A callback gets its trigger time and argument, may use every operation on the table and change the
  world, and returns the delay after which it wants to run again. Calling \<^verbatim>\<open>NULL\<close> is \<open>None\<close>.
\<close>

definition executor_due :: "u32 \<Rightarrow> ('c, 'a) deferred_executor \<Rightarrow> bool" where
  "executor_due now e \<longleftrightarrow> token e \<noteq> INVALID_DEFERRED_TOKEN \<and> sint (timer_diff (trigger_time e) now) \<le> 0"

type_synonym ('c, 'a, 'w) deferred_callback =
  "'c \<Rightarrow> u32 \<Rightarrow> 'a option \<Rightarrow> ('c, 'a, 'w) deferred_state \<Rightarrow> u32 \<times> ('c, 'a, 'w) deferred_state"

definition run_executor ::
    "('c, 'a, 'w) deferred_callback \<Rightarrow> u32 \<Rightarrow> nat \<Rightarrow> ('c, 'a, 'w) deferred_state \<Rightarrow> ('c, 'a, 'w) deferred_state option" where
  "run_executor call now i s =
    (let entry = table s ! i; curr_token = token entry in
     if executor_due now entry then do {
       cb \<leftarrow> callback entry;
       let (delay_ms, s) = call cb (trigger_time entry) (cb_arg entry) s;
       let entry = table s ! i;
       if token entry \<noteq> curr_token then Some s
       else if 0 < delay_ms then Some (s\<lparr>table := (table s)[i := entry\<lparr>trigger_time := trigger_time entry + delay_ms\<rparr>]\<rparr>)
       else Some (s\<lparr>table := (table s)[i := free_executor]\<rparr>)
     }
     else Some s)"

fun run_executors ::
    "('c, 'a, 'w) deferred_callback \<Rightarrow> u32 \<Rightarrow> nat list \<Rightarrow> ('c, 'a, 'w) deferred_state \<Rightarrow> ('c, 'a, 'w) deferred_state option" where
  "run_executors call now [] s = Some s"
| "run_executors call now (i # is) s = run_executor call now i s \<bind> run_executors call now is"

definition deferred_exec_advanced_task ::
    "('c, 'a, 'w) deferred_callback \<Rightarrow> ('c, 'a, 'w) deferred_state \<Rightarrow> ('c, 'a, 'w) deferred_state option" where
  "deferred_exec_advanced_task call s =
    (let now = dnow s in
     if 0 < sint (timer_diff now (last_execution_time s))
     then run_executors call now [0..<length (table s)] (s\<lparr>last_execution_time := now\<rparr>)
     else Some s)"

text \<open>The basic API works on a table of its own.\<close>

definition MAX_DEFERRED_EXECUTORS :: nat where
  "MAX_DEFERRED_EXECUTORS = 8"

definition basic_executors :: "'w \<Rightarrow> ('c, 'a, 'w) deferred_state" where
  "basic_executors w = deferred_init MAX_DEFERRED_EXECUTORS w"

definition defer_exec ::
    "u32 \<Rightarrow> 'c option \<Rightarrow> 'a option \<Rightarrow> ('c, 'a, 'w) deferred_state \<Rightarrow> (deferred_token \<times> ('c, 'a, 'w) deferred_state) option" where
  "defer_exec = defer_exec_advanced"

definition extend_deferred_exec ::
    "deferred_token \<Rightarrow> u32 \<Rightarrow> ('c, 'a, 'w) deferred_state \<Rightarrow> bool \<times> ('c, 'a, 'w) deferred_state" where
  "extend_deferred_exec = extend_deferred_exec_advanced"

definition cancel_deferred_exec ::
    "deferred_token \<Rightarrow> ('c, 'a, 'w) deferred_state \<Rightarrow> bool \<times> ('c, 'a, 'w) deferred_state" where
  "cancel_deferred_exec = cancel_deferred_exec_advanced"

definition deferred_exec_task ::
    "('c, 'a, 'w) deferred_callback \<Rightarrow> ('c, 'a, 'w) deferred_state \<Rightarrow> ('c, 'a, 'w) deferred_state option" where
  "deferred_exec_task = deferred_exec_advanced_task"

section \<open>Allocating a token\<close>

lemma token_can_be_used_iff: "token_can_be_used tab t \<longleftrightarrow> t \<noteq> 0 \<and> t \<notin> token ` set tab"
  by (auto simp: token_can_be_used.simps list_all_iff INVALID_DEFERRED_TOKEN_def)

lemma allocate_loop_result:
  "\<exists>t cur'. allocate_loop tab first cur = Some (t, cur') \<and>
     (if \<exists>k \<le> unat (first - 1 - cur). token_can_be_used tab (cur + of_nat k)
      then token_can_be_used tab t \<and> cur' = t else t = INVALID_DEFERRED_TOKEN)"
proof (induction "unat (first - 1 - cur)" arbitrary: cur)
  case 0
  then have f: "cur + 1 = first" by (metis diff_add_cancel eq_iff_diff_eq_0 unat_eq_zero)
  show ?case
    unfolding 0 [symmetric] by (subst allocate_loop.simps) (simp add: f)
next
  case (Suc n)
  let ?m = "unat (first - 1 - cur)"
  have ne: "cur + 1 \<noteq> first" using Suc(2) by auto
  have m: "unat (first - 1 - (cur + 1)) = n"
  proof -
    obtain d where d: "first - 1 - cur = d" by simp
    have "first - 1 - (cur + 1) = d - 1" unfolding d [symmetric] by simp
    moreover have "1 \<le> d" using Suc(2) unfolding d by (simp add: word_le_nat_alt)
    ultimately show ?thesis using Suc(2) unfolding d by (simp add: unat_sub)
  qed
  have split: "(\<exists>k \<le> ?m. token_can_be_used tab (cur + of_nat k)) \<longleftrightarrow>
    token_can_be_used tab cur \<or> (\<exists>k \<le> n. token_can_be_used tab (cur + 1 + of_nat k))"
  proof -
    have "(\<exists>k \<le> Suc n. P k) \<longleftrightarrow> P 0 \<or> (\<exists>k \<le> n. P (Suc k))" for P
      by (metis le_SucI nat.exhaust Suc_le_mono zero_le)
    from this [of "\<lambda>k. token_can_be_used tab (cur + of_nat k)"] show ?thesis
      unfolding Suc(2) [symmetric] by (simp add: ac_simps)
  qed
  show ?case
    unfolding split using Suc.hyps(1) [of "cur + 1"] m ne
    by (subst allocate_loop.simps) simp
qed

lemma allocate_token_total:
  "\<exists>t cur. allocate_token tab c = Some (t, cur) \<and>
     (if \<exists>t. token_can_be_used tab t then token_can_be_used tab t \<and> cur = t else t = INVALID_DEFERRED_TOKEN)"
proof -
  have "(\<exists>k \<le> unat (c + 1 - 1 - (c + 1)). token_can_be_used tab (c + 1 + of_nat k)) \<longleftrightarrow> (\<exists>t. token_can_be_used tab t)"
  proof
    assume "\<exists>t. token_can_be_used tab t"
    then obtain t where t: "token_can_be_used tab t" ..
    have "unat (c + 1 - 1 - (c + 1)) = 255" by (simp add: unsigned_minus_1_eq_mask mask_eq_exp_minus_1)
    moreover have "unat (t - (c + 1)) \<le> 255"
      using word_le_nat_alt [of "t - (c + 1)" "- 1"] by (simp add: unsigned_minus_1_eq_mask mask_eq_exp_minus_1)
    moreover have "c + 1 + of_nat (unat (t - (c + 1))) = t" by simp
    ultimately show "\<exists>k \<le> unat (c + 1 - 1 - (c + 1)). token_can_be_used tab (c + 1 + of_nat k)"
      using t by metis
  qed blast
  then show ?thesis using allocate_loop_result [of tab "c + 1" "c + 1"] by (simp only: allocate_token_def)
qed

text \<open>
  C38: allocating a token always returns, after at most one turn through the 256 values; it
  returns a token that no entry uses when there is one, and the invalid token otherwise.
\<close>

theorem allocate_token_returns:
  "\<exists>t cur. allocate_token tab c = Some (t, cur) \<and>
     (if \<exists>t. token_can_be_used tab t then token_can_be_used tab t \<and> cur = t else t = INVALID_DEFERRED_TOKEN)"
  by (rule allocate_token_total)

section \<open>The table\<close>

definition executors_ok :: "('c, 'a) deferred_executor list \<Rightarrow> bool" where
  "executors_ok tab \<longleftrightarrow>
     (\<forall>i < length tab. \<forall>j < length tab. token (tab ! i) \<noteq> 0 \<and> token (tab ! i) = token (tab ! j) \<longrightarrow> i = j) \<and>
     list_all (\<lambda>e. if token e = 0 then e = free_executor else callback e \<noteq> None) tab"

lemma token_free [simp]: "token free_executor = 0"
  by (simp add: free_executor_def INVALID_DEFERRED_TOKEN_def)

lemma executors_ok_init [simp]: "executors_ok (table (deferred_init n w))"
  by (simp add: executors_ok_def deferred_init_def list_all_iff)

lemma executors_ok_entry:
  assumes "executors_ok tab" "i < length tab"
  shows "token (tab ! i) = 0 \<Longrightarrow> tab ! i = free_executor" "token (tab ! i) \<noteq> 0 \<Longrightarrow> callback (tab ! i) \<noteq> None"
  using assms unfolding executors_ok_def list_all_length by metis+

lemma find_token_Some: "find_token tab t = Some i \<Longrightarrow> i < length tab \<and> token (tab ! i) = t"
  by (induction tab arbitrary: i) (auto split: if_splits)

lemma find_token_None: "find_token tab t = None \<longleftrightarrow> t \<notin> token ` set tab"
  by (induction tab) auto

lemma find_token_unique:
  assumes "executors_ok tab" "i < length tab" "token (tab ! i) = t" "t \<noteq> 0"
  shows "find_token tab t = Some i"
proof -
  obtain j where j: "find_token tab t = Some j"
    using assms(2,3) find_token_None [of tab t] by (metis image_eqI nth_mem not_None_eq)
  then show ?thesis using find_token_Some [OF j] assms by (auto simp: executors_ok_def)
qed

lemma executors_ok_update:
  assumes "executors_ok tab" "i < length tab"
    and "if token e = 0 then e = free_executor else callback e \<noteq> None"
    and "token e \<noteq> 0 \<Longrightarrow> token e \<noteq> token (tab ! i) \<Longrightarrow> token e \<notin> token ` set tab"
  shows "executors_ok (tab[i := e])"
proof -
  have "list_all (\<lambda>e. if token e = 0 then e = free_executor else callback e \<noteq> None) (tab[i := e])"
    using assms(1,3) unfolding executors_ok_def list_all_iff by (metis insertE set_update_subset_insert subsetD)
  moreover have "a = b" if "a < length tab" "b < length tab" "token (tab[i := e] ! a) \<noteq> 0"
    "token (tab[i := e] ! a) = token (tab[i := e] ! b)" for a b
  proof -
    have new: "token e \<noteq> token (tab ! b)" if "b < length tab" "b \<noteq> i" "token e \<noteq> 0" for b
    proof (cases "token e = token (tab ! i)")
      case True
      then show ?thesis using assms(1,2) that unfolding executors_ok_def by metis
    next
      case False
      then show ?thesis using assms(4) that by (metis image_eqI nth_mem)
    qed
    have "token (tab ! a) \<noteq> 0 \<Longrightarrow> token (tab ! a) = token (tab ! b) \<Longrightarrow> a = b"
      using assms(1) that(1,2) unfolding executors_ok_def by blast
    then show ?thesis
      using that assms(2) new [of a] new [of b] by (cases "a = i"; cases "b = i") simp_all
  qed
  ultimately show ?thesis unfolding executors_ok_def length_list_update by blast
qed

lemma executors_ok_free: "executors_ok tab \<Longrightarrow> executors_ok (tab[i := free_executor])"
  by (cases "i < length tab") (auto intro: executors_ok_update simp: list_update_beyond)

lemma executors_ok_delay:
  assumes "executors_ok tab" "i < length tab" "token (tab ! i) \<noteq> 0"
  shows "executors_ok (tab[i := (tab ! i)\<lparr>trigger_time := t\<rparr>])"
proof (rule executors_ok_update [OF assms(1,2)])
  have "callback (tab ! i) \<noteq> None" using executors_ok_entry(2) [OF assms] .
  then show "if token ((tab ! i)\<lparr>trigger_time := t\<rparr>) = 0 then (tab ! i)\<lparr>trigger_time := t\<rparr> = free_executor
    else callback ((tab ! i)\<lparr>trigger_time := t\<rparr>) \<noteq> None" using assms(3) by simp
qed simp

lemma defer_exec_cases:
  assumes "defer_exec_advanced d cb arg s = Some (t, s')"
  obtains "t = 0" "table s' = table s"
  | i where "find_token (table s) 0 = Some i" "t \<noteq> 0" "t \<notin> token ` set (table s)" "d \<noteq> 0" "cb \<noteq> None"
      "s' = s\<lparr>current_token := t, table := (table s)[i := \<lparr>token = t, trigger_time = dnow s + d, callback = cb,
        cb_arg = arg\<rparr>]\<rparr>"
proof (cases "table s = [] \<or> d = 0 \<or> cb = None \<or> find_token (table s) 0 = None")
  case True
  then show thesis using assms that(1) by (auto simp: defer_exec_advanced_def INVALID_DEFERRED_TOKEN_def split: if_splits)
next
  case False
  then obtain i where i: "find_token (table s) 0 = Some i" "table s \<noteq> []" "d \<noteq> 0" "cb \<noteq> None"
    by auto
  obtain t1 cur where a: "allocate_token (table s) (current_token s) = Some (t1, cur)"
    and r: "t1 \<noteq> 0 \<Longrightarrow> token_can_be_used (table s) t1 \<and> cur = t1"
    using allocate_token_total [of "table s" "current_token s"] by (auto simp: INVALID_DEFERRED_TOKEN_def split: if_splits)
  show thesis
  proof (cases "t1 = 0")
    case True
    then show thesis using assms i a by (intro that(1)) (auto simp: defer_exec_advanced_def INVALID_DEFERRED_TOKEN_def)
  next
    case False
    then show thesis
      using assms i a r [OF False] by (intro that(2) [of i]) (auto simp: defer_exec_advanced_def INVALID_DEFERRED_TOKEN_def token_can_be_used_iff)
  qed
qed

lemma defer_exec_ok:
  assumes "executors_ok (table s)" "defer_exec_advanced d cb arg s = Some (t, s')"
  shows "executors_ok (table s') \<and> length (table s') = length (table s)"
  using assms(2)
proof (cases rule: defer_exec_cases)
  case (2 i)
  then show ?thesis using find_token_Some [OF 2(1)] assms(1) by (auto intro: executors_ok_update)
qed (use assms in simp_all)

lemma extend_exec_ok:
  assumes "executors_ok (table s)"
  shows "executors_ok (table (snd (extend_deferred_exec_advanced t d s))) \<and>
    length (table (snd (extend_deferred_exec_advanced t d s))) = length (table s)"
  using assms by (auto simp: extend_deferred_exec_advanced_def INVALID_DEFERRED_TOKEN_def dest!: find_token_Some
      intro: executors_ok_delay split: option.splits)

lemma cancel_exec_ok:
  assumes "executors_ok (table s)"
  shows "executors_ok (table (snd (cancel_deferred_exec_advanced t s))) \<and>
    length (table (snd (cancel_deferred_exec_advanced t s))) = length (table s)"
  using assms by (auto simp: cancel_deferred_exec_advanced_def intro: executors_ok_free split: option.splits)

section \<open>Callbacks\<close>

text \<open>What the task relies on: a callback leaves the table well-formed and of its length.\<close>

locale safe_callback =
  fixes call :: "('c, 'a, 'w) deferred_callback"
  assumes keeps_ok: "executors_ok (table s) \<Longrightarrow> executors_ok (table (snd (call cb t arg s)))"
    and keeps_length: "executors_ok (table s) \<Longrightarrow> length (table (snd (call cb t arg s))) = length (table s)"
begin

lemma run_executor_safe:
  assumes "executors_ok (table s)" "i < length (table s)"
  shows "\<exists>s'. run_executor call now i s = Some s' \<and> executors_ok (table s') \<and> length (table s') = length (table s)"
proof (cases "executor_due now (table s ! i)")
  case True
  then have ne: "token (table s ! i) \<noteq> 0" by (simp add: executor_due_def INVALID_DEFERRED_TOKEN_def)
  then obtain cb where cb: "callback (table s ! i) = Some cb"
    using executors_ok_entry(2) [OF assms] by blast
  obtain d s1 where c: "call cb (trigger_time (table s ! i)) (cb_arg (table s ! i)) s = (d, s1)" by (metis prod.exhaust)
  have ok: "executors_ok (table s1)" "length (table s1) = length (table s)"
    using keeps_ok [OF assms(1)] keeps_length [OF assms(1)] c by (metis snd_conv)+
  show ?thesis
    using True cb c ok assms(2) ne by (auto simp: run_executor_def Let_def intro: executors_ok_free executors_ok_delay)
qed (use assms in \<open>simp add: run_executor_def Let_def\<close>)

lemma run_executors_safe:
  assumes "executors_ok (table s)" "\<forall>i \<in> set is. i < length (table s)"
  shows "\<exists>s'. run_executors call now is s = Some s' \<and> executors_ok (table s') \<and> length (table s') = length (table s)"
  using assms
proof (induction "is" arbitrary: s)
  case (Cons i "is")
  then obtain s1 where "run_executor call now i s = Some s1" "executors_ok (table s1)" "length (table s1) = length (table s)"
    using run_executor_safe [of s i now] by auto
  then show ?case using Cons.IH [of s1] Cons.prems(2) by simp
qed simp

lemma task_safe:
  "executors_ok (table s) \<Longrightarrow> \<exists>s'. deferred_exec_advanced_task call s = Some s' \<and> executors_ok (table s') \<and>
     length (table s') = length (table s)"
  using run_executors_safe [of "s\<lparr>last_execution_time := dnow s\<rparr>"] by (simp add: deferred_exec_advanced_task_def Let_def)

end

text \<open>Callbacks that use the interface in any way they like: they compute a list of operations to perform.\<close>

datatype ('c, 'a) deferred_op = Defer u32 "'c option" "'a option" | Extend deferred_token u32 | Cancel deferred_token

fun perform_op :: "('c, 'a) deferred_op \<Rightarrow> ('c, 'a, 'w) deferred_state \<Rightarrow> ('c, 'a, 'w) deferred_state" where
  "perform_op (Defer d cb arg) s = (case defer_exec_advanced d cb arg s of None \<Rightarrow> s | Some (t, s') \<Rightarrow> s')"
| "perform_op (Extend t d) s = snd (extend_deferred_exec_advanced t d s)"
| "perform_op (Cancel t) s = snd (cancel_deferred_exec_advanced t s)"

definition script_callback ::
    "('c \<Rightarrow> u32 \<Rightarrow> 'a option \<Rightarrow> 'w \<Rightarrow> u32 \<times> ('c, 'a) deferred_op list \<times> 'w) \<Rightarrow> ('c, 'a, 'w) deferred_callback" where
  "script_callback script cb t arg s =
    (let (delay_ms, ops, w) = script cb t arg (world s) in (delay_ms, fold perform_op ops (s\<lparr>world := w\<rparr>)))"

lemma perform_op_ok:
  "executors_ok (table s) \<Longrightarrow> executors_ok (table (perform_op p s)) \<and> length (table (perform_op p s)) = length (table s)"
  by (cases p) (auto simp: extend_exec_ok cancel_exec_ok split: option.splits dest: defer_exec_ok)

lemma perform_ops_ok:
  "executors_ok (table s) \<Longrightarrow>
    executors_ok (table (fold perform_op ops s)) \<and> length (table (fold perform_op ops s)) = length (table s)"
  by (induction ops arbitrary: s) (simp_all add: perform_op_ok)

interpretation script: safe_callback "script_callback script" for script
  by unfold_locales (simp_all add: script_callback_def perform_ops_ok split: prod.splits)

section \<open>Properties\<close>

text \<open>
  C28: whatever callbacks do with the interface, a run of the task on a well-formed table returns,
  never calls through a null pointer, and leaves a well-formed table: no two entries share a token, every
  used entry has a callback and every unused one is cleared.
\<close>

theorem deferred_task_safe:
  assumes "executors_ok (table s)"
  shows "\<exists>s'. deferred_exec_task (script_callback script) s = Some s' \<and> executors_ok (table s') \<and>
    length (table s') = length (table s)"
  using script.task_safe [OF assms] by (simp add: deferred_exec_task_def)

lemma deferred_task_safe_witness:
  "\<exists>s' :: (nat, nat, unit) deferred_state.
     deferred_exec_task (script_callback (\<lambda>cb t arg w. (0, [Defer 5 (Some cb) arg], w))) (basic_executors ()) = Some s' \<and>
     executors_ok (table s') \<and> length (table s') = 8"
  using deferred_task_safe [of "basic_executors ()" "\<lambda>cb t arg w. (0, [Defer 5 (Some cb) arg], w)"]
  by (simp add: basic_executors_def) (simp add: deferred_init_def MAX_DEFERRED_EXECUTORS_def)

text \<open>
  Cancelling the token that an accepted request returned gives back the table as it was,
  and the token is then unknown.
\<close>

theorem cancel_undoes_defer:
  assumes "executors_ok (table s)" and "defer_exec delay_ms cb arg s = Some (t, s')" and "t \<noteq> INVALID_DEFERRED_TOKEN"
  shows "\<exists>s''. cancel_deferred_exec t s' = (True, s'') \<and> table s'' = table s \<and> \<not> fst (cancel_deferred_exec t s'')"
  using assms(2) unfolding defer_exec_def
proof (cases rule: defer_exec_cases)
  case 1
  then show ?thesis using assms(3) by (simp add: INVALID_DEFERRED_TOKEN_def)
next
  case (2 i)
  note i = find_token_Some [OF 2(1)]
  let ?tab = "(table s)[i := \<lparr>token = t, trigger_time = dnow s + delay_ms, callback = cb, cb_arg = arg\<rparr>]"
  have ok: "executors_ok ?tab" using defer_exec_ok [OF assms(1) assms(2) [unfolded defer_exec_def]] 2(6) by simp
  have f: "find_token ?tab t = Some i" using ok i 2(2) by (intro find_token_unique) auto
  have "table s ! i = free_executor" using executors_ok_entry(1) [OF assms(1)] i by simp
  then have restored: "?tab[i := free_executor] = table s" using list_update_id [of "table s" i] by simp
  have "find_token (table s) t = None" using 2(3) by (simp add: find_token_None)
  then show ?thesis
    using 2(2,6) f restored i by (auto simp: cancel_deferred_exec_def cancel_deferred_exec_advanced_def INVALID_DEFERRED_TOKEN_def)
qed

lemma cancel_undoes_defer_witness:
  "\<exists>t s' :: (nat, nat, unit) deferred_state. defer_exec 100 (Some 7) None (basic_executors ()) = Some (t, s') \<and>
     (\<exists>s''. cancel_deferred_exec t s' = (True, s'') \<and> table s'' = table (basic_executors () :: (nat, nat, unit) deferred_state))"
proof -
  let ?s = "basic_executors () :: (nat, nat, unit) deferred_state"
  have ok: "executors_ok (table ?s)" by (simp add: basic_executors_def)
  have "fst (the (defer_exec 100 (Some 7) None ?s)) = 1" "defer_exec 100 (Some 7) None ?s \<noteq> None" by code_simp+
  then obtain s' where r: "defer_exec 100 (Some 7) None ?s = Some (1, s')" by (metis fst_conv option.exhaust_sel prod.exhaust)
  then show ?thesis
    using cancel_undoes_defer [OF ok r] by (auto simp: INVALID_DEFERRED_TOKEN_def)
qed

text \<open>
  The difference of a trigger time and the current time, read as a signed number: an entry is due from
  its delay on, for delays and waits below half of the range of the timer.
\<close>

lemma sint_timer_diff:
  assumes "d < 2 ^ 31" "e < 2 ^ 31"
  shows "sint (timer_diff (t + of_nat d) (t + of_nat e) :: u32) = int d - int e"
proof -
  have w: "timer_diff (t + of_nat d) (t + of_nat e) = (word_of_int (int d - int e) :: u32)"
    by (simp add: timer_diff_def)
  moreover have "signed_take_bit 31 (int d - int e) = int d - int e"
    using assms by (intro signed_take_bit_int_eq_self) simp_all
  ultimately show ?thesis unfolding w sint_sbintrunc' by simp
qed

text \<open>
  An entry queued at time \<open>t\<close> with a delay is not due before the delay has passed, and is due
  from then on, whatever the value of the wrapping timer.
\<close>

theorem deferred_due_after_delay:
  assumes "0 < delay" and "delay < 2 ^ 31" and "elapsed < 2 ^ 31"
    and "defer_exec (of_nat delay) cb arg s = Some (t, s')" and "t \<noteq> INVALID_DEFERRED_TOKEN"
  shows "\<exists>i. find_token (table s) INVALID_DEFERRED_TOKEN = Some i \<and> token (table s' ! i) = t \<and>
    executor_due (dnow s + of_nat elapsed) (table s' ! i) = (delay \<le> elapsed)"
  using assms(4) unfolding defer_exec_def
proof (cases rule: defer_exec_cases)
  case 1
  then show ?thesis using assms(5) by (simp add: INVALID_DEFERRED_TOKEN_def)
next
  case (2 i)
  then show ?thesis
    using find_token_Some [OF 2(1)] sint_timer_diff [OF assms(2,3), of "dnow s"]
    by (auto simp: executor_due_def INVALID_DEFERRED_TOKEN_def)
qed

lemma deferred_due_after_delay_witness:
  "\<exists>t s'. defer_exec 100 (Some 7) None (basic_executors () :: (nat, nat, unit) deferred_state) = Some (t, s') \<and>
     \<not> executor_due 99 (table s' ! 0)"
proof -
  let ?s = "basic_executors () :: (nat, nat, unit) deferred_state"
  have "fst (the (defer_exec 100 (Some 7) None ?s)) = 1" "defer_exec 100 (Some 7) None ?s \<noteq> None" by code_simp+
  then obtain s' where r: "defer_exec (of_nat 100) (Some 7) None ?s = Some (1, s')"
    by (simp, metis fst_conv option.exhaust_sel prod.exhaust)
  have "find_token (table ?s) INVALID_DEFERRED_TOKEN = Some 0" "dnow ?s = 0" by code_simp+
  then show ?thesis
    using deferred_due_after_delay [OF _ _ _ r, of 99] r by (auto simp: INVALID_DEFERRED_TOKEN_def)
qed

text \<open>A delay of half of the range or more is due at once.\<close>

lemma long_delay_due_at_once:
  "executor_due now \<lparr>token = 1, trigger_time = now + 0x80000000, callback = cb, cb_arg = arg\<rparr>"
  by (simp add: executor_due_def INVALID_DEFERRED_TOKEN_def)

section \<open>What one run of the task does\<close>

text \<open>
  For callbacks that do not touch the table: \<open>ret\<close> is the delay they return and \<open>act\<close> what they do to
  the world.
\<close>

definition passive_callback ::
    "('c \<Rightarrow> u32 \<Rightarrow> 'a option \<Rightarrow> u32) \<Rightarrow> ('c \<Rightarrow> u32 \<Rightarrow> 'a option \<Rightarrow> 'w \<Rightarrow> 'w) \<Rightarrow> ('c, 'a, 'w) deferred_callback" where
  "passive_callback ret act cb t arg s = (ret cb t arg, s\<lparr>world := act cb t arg (world s)\<rparr>)"

definition executor_after :: "('c \<Rightarrow> u32 \<Rightarrow> 'a option \<Rightarrow> u32) \<Rightarrow> u32 \<Rightarrow> ('c, 'a) deferred_executor \<Rightarrow> ('c, 'a) deferred_executor" where
  "executor_after ret now e =
    (if executor_due now e
     then let d = ret (the (callback e)) (trigger_time e) (cb_arg e) in
       if d = 0 then free_executor else e\<lparr>trigger_time := trigger_time e + d\<rparr>
     else e)"

definition executor_effect :: "('c \<Rightarrow> u32 \<Rightarrow> 'a option \<Rightarrow> 'w \<Rightarrow> 'w) \<Rightarrow> u32 \<Rightarrow> ('c, 'a) deferred_executor \<Rightarrow> 'w \<Rightarrow> 'w" where
  "executor_effect act now e w =
    (if executor_due now e then act (the (callback e)) (trigger_time e) (cb_arg e) w else w)"

lemma run_executors_append:
  "run_executors call now (xs @ ys) s = run_executors call now xs s \<bind> run_executors call now ys"
  by (induction xs arbitrary: s) (simp_all add: bind_assoc split: Option.bind_split)

lemma run_passive:
  assumes "executors_ok T" "k \<le> length T"
  shows "run_executors (passive_callback ret act) now [0..<k] (s\<lparr>table := T\<rparr>) =
    Some (s\<lparr>table := map (executor_after ret now) (take k T) @ drop k T,
            world := fold (executor_effect act now) (take k T) (world s)\<rparr>)"
  using assms(2)
proof (induction k)
  case (Suc k)
  then have k: "k < length T" by simp
  then have d: "drop k T = T ! k # drop (Suc k) T" "take (Suc k) T = take k T @ [T ! k]"
    by (simp_all add: Cons_nth_drop_Suc take_Suc_conv_app_nth)
  have cb: "executor_due now (T ! k) \<Longrightarrow> \<exists>cb. callback (T ! k) = Some cb"
    using executors_ok_entry(2) [OF assms(1) k] by (auto simp: executor_due_def INVALID_DEFERRED_TOKEN_def)
  show ?case
    using Suc k cb
    by (auto simp: run_executors_append run_executor_def d nth_append list_update_append passive_callback_def
        executor_after_def executor_effect_def Let_def word_neq_0_conv)
qed simp

text \<open>
  For callbacks that leave the table alone, one run of the task executes each due entry
  exactly once, in table order, and replaces every due entry by its next occurrence or by a free slot;
  the other entries keep their place and time.
\<close>

theorem deferred_task_runs_due_once:
  assumes "executors_ok (table s)" and "0 < sint (timer_diff (dnow s) (last_execution_time s))"
  shows "deferred_exec_task (passive_callback ret act) s =
    Some (s\<lparr>last_execution_time := dnow s, table := map (executor_after ret (dnow s)) (table s),
      world := fold (executor_effect act (dnow s)) (table s) (world s)\<rparr>)"
  using run_passive [OF assms(1) order_refl, of ret act "dnow s" "s\<lparr>last_execution_time := dnow s\<rparr>"] assms(2)
  by (simp add: deferred_exec_task_def deferred_exec_advanced_task_def Let_def)

lemma deferred_task_runs_due_once_witness:
  "\<exists>s'. deferred_exec_task (passive_callback (\<lambda>cb t arg. 0) (\<lambda>cb t arg w. cb # w))
     (\<lparr>table = [\<lparr>token = 1, trigger_time = 10, callback = Some 7, cb_arg = None\<rparr>], current_token = 1,
       last_execution_time = 0, dnow = 10, world = []\<rparr> :: (nat, nat, nat list) deferred_state) = Some s' \<and>
     world s' = [7] \<and> table s' = [free_executor]"
proof -
  let ?s = "\<lparr>table = [\<lparr>token = 1, trigger_time = 10, callback = Some 7, cb_arg = None\<rparr>], current_token = 1,
       last_execution_time = 0, dnow = 10, world = []\<rparr> :: (nat, nat, nat list) deferred_state"
  have "executors_ok (table ?s)" "0 < sint (timer_diff (dnow ?s) (last_execution_time ?s))"
    by (simp add: executors_ok_def) (simp add: timer_diff_def)
  from deferred_task_runs_due_once [OF this, of "\<lambda>cb t arg. 0" "\<lambda>cb t arg w. cb # w"] show ?thesis
    by (simp add: executor_after_def executor_effect_def executor_due_def INVALID_DEFERRED_TOKEN_def timer_diff_def)
qed

end
