(* ===== verification/Keycodes.thy ===== *)
theory Keycodes
  imports QmkPrelude
begin

text \<open>
  The 16-bit keycodes: the ranges of \<^verbatim>\<open>quantum/keycodes.h\<close> and the macros of
  \<^verbatim>\<open>quantum/quantum_keycodes.h\<close> that build a keycode from its parts and take it apart again.
\<close>

section \<open>Ranges\<close>

definition IS_QK_MODS :: "u16 \<Rightarrow> bool" where
  "IS_QK_MODS code \<longleftrightarrow> code \<ge> 0x0100 \<and> code \<le> 0x1FFF"
definition IS_QK_MOD_TAP :: "u16 \<Rightarrow> bool" where
  "IS_QK_MOD_TAP code \<longleftrightarrow> code \<ge> 0x2000 \<and> code \<le> 0x3FFF"
definition IS_QK_LAYER_TAP :: "u16 \<Rightarrow> bool" where
  "IS_QK_LAYER_TAP code \<longleftrightarrow> code \<ge> 0x4000 \<and> code \<le> 0x4FFF"
definition IS_QK_LAYER_MOD :: "u16 \<Rightarrow> bool" where
  "IS_QK_LAYER_MOD code \<longleftrightarrow> code \<ge> 0x5000 \<and> code \<le> 0x51FF"
definition IS_QK_TO :: "u16 \<Rightarrow> bool" where
  "IS_QK_TO code \<longleftrightarrow> code \<ge> 0x5200 \<and> code \<le> 0x521F"
definition IS_QK_MOMENTARY :: "u16 \<Rightarrow> bool" where
  "IS_QK_MOMENTARY code \<longleftrightarrow> code \<ge> 0x5220 \<and> code \<le> 0x523F"
definition IS_QK_DEF_LAYER :: "u16 \<Rightarrow> bool" where
  "IS_QK_DEF_LAYER code \<longleftrightarrow> code \<ge> 0x5240 \<and> code \<le> 0x525F"
definition IS_QK_TOGGLE_LAYER :: "u16 \<Rightarrow> bool" where
  "IS_QK_TOGGLE_LAYER code \<longleftrightarrow> code \<ge> 0x5260 \<and> code \<le> 0x527F"
definition IS_QK_ONE_SHOT_LAYER :: "u16 \<Rightarrow> bool" where
  "IS_QK_ONE_SHOT_LAYER code \<longleftrightarrow> code \<ge> 0x5280 \<and> code \<le> 0x529F"
definition IS_QK_ONE_SHOT_MOD :: "u16 \<Rightarrow> bool" where
  "IS_QK_ONE_SHOT_MOD code \<longleftrightarrow> code \<ge> 0x52A0 \<and> code \<le> 0x52BF"
definition IS_QK_LAYER_TAP_TOGGLE :: "u16 \<Rightarrow> bool" where
  "IS_QK_LAYER_TAP_TOGGLE code \<longleftrightarrow> code \<ge> 0x52C0 \<and> code \<le> 0x52DF"
definition IS_QK_SWAP_HANDS :: "u16 \<Rightarrow> bool" where
  "IS_QK_SWAP_HANDS code \<longleftrightarrow> code \<ge> 0x5600 \<and> code \<le> 0x56FF"
definition IS_SWAP_HANDS_KEYCODE :: "u16 \<Rightarrow> bool" where
  "IS_SWAP_HANDS_KEYCODE code \<longleftrightarrow> code \<ge> 0x56F0 \<and> code \<le> 0x56F6"
definition IS_QK_TAP_DANCE :: "u16 \<Rightarrow> bool" where
  "IS_QK_TAP_DANCE code \<longleftrightarrow> code \<ge> 0x5700 \<and> code \<le> 0x57FF"

named_theorems keycode_ranges "unfolding of the ranges of keycodes"

lemmas keycode_range_defs [keycode_ranges] = IS_QK_MODS_def IS_QK_MOD_TAP_def IS_QK_LAYER_TAP_def IS_QK_LAYER_MOD_def
  IS_QK_TO_def IS_QK_MOMENTARY_def IS_QK_DEF_LAYER_def IS_QK_TOGGLE_LAYER_def IS_QK_ONE_SHOT_LAYER_def
  IS_QK_ONE_SHOT_MOD_def IS_QK_LAYER_TAP_TOGGLE_def IS_QK_SWAP_HANDS_def IS_QK_TAP_DANCE_def

section \<open>Making keycodes\<close>

definition TO :: "u16 \<Rightarrow> u16" where "TO layer = 0x5200 OR (layer AND 0x1F)"
definition MO :: "u16 \<Rightarrow> u16" where "MO layer = 0x5220 OR (layer AND 0x1F)"
definition DF :: "u16 \<Rightarrow> u16" where "DF layer = 0x5240 OR (layer AND 0x1F)"
definition TG :: "u16 \<Rightarrow> u16" where "TG layer = 0x5260 OR (layer AND 0x1F)"
definition OSL :: "u16 \<Rightarrow> u16" where "OSL layer = 0x5280 OR (layer AND 0x1F)"
definition OSM :: "u16 \<Rightarrow> u16" where "OSM md = 0x52A0 OR (md AND 0x1F)"
definition TT :: "u16 \<Rightarrow> u16" where "TT layer = 0x52C0 OR (layer AND 0x1F)"
definition LM :: "u16 \<Rightarrow> u16 \<Rightarrow> u16" where
  "LM layer md = 0x5000 OR push_bit 5 (layer AND 0xF) OR (md AND 0x1F)"
definition LT :: "u16 \<Rightarrow> u16 \<Rightarrow> u16" where
  "LT layer kc = 0x4000 OR push_bit 8 (layer AND 0xF) OR (kc AND 0xFF)"
definition MT :: "u16 \<Rightarrow> u16 \<Rightarrow> u16" where
  "MT md kc = 0x2000 OR push_bit 8 (md AND 0x1F) OR (kc AND 0xFF)"
definition SH_T :: "u16 \<Rightarrow> u16" where "SH_T kc = 0x5600 OR (kc AND 0xFF)"
definition TD :: "u16 \<Rightarrow> u16" where "TD i = 0x5700 OR (i AND 0xFF)"

section \<open>Taking them apart\<close>

definition QK_MODS_GET_MODS :: "u16 \<Rightarrow> u16" where "QK_MODS_GET_MODS kc = drop_bit 8 kc AND 0x1F"
definition QK_MODS_GET_BASIC_KEYCODE :: "u16 \<Rightarrow> u16" where "QK_MODS_GET_BASIC_KEYCODE kc = kc AND 0xFF"
definition QK_TO_GET_LAYER :: "u16 \<Rightarrow> u16" where "QK_TO_GET_LAYER kc = kc AND 0x1F"
definition QK_MOMENTARY_GET_LAYER :: "u16 \<Rightarrow> u16" where "QK_MOMENTARY_GET_LAYER kc = kc AND 0x1F"
definition QK_DEF_LAYER_GET_LAYER :: "u16 \<Rightarrow> u16" where "QK_DEF_LAYER_GET_LAYER kc = kc AND 0x1F"
definition QK_TOGGLE_LAYER_GET_LAYER :: "u16 \<Rightarrow> u16" where "QK_TOGGLE_LAYER_GET_LAYER kc = kc AND 0x1F"
definition QK_ONE_SHOT_LAYER_GET_LAYER :: "u16 \<Rightarrow> u16" where "QK_ONE_SHOT_LAYER_GET_LAYER kc = kc AND 0x1F"
definition QK_LAYER_MOD_GET_LAYER :: "u16 \<Rightarrow> u16" where "QK_LAYER_MOD_GET_LAYER kc = drop_bit 5 kc AND 0xF"
definition QK_LAYER_MOD_GET_MODS :: "u16 \<Rightarrow> u16" where "QK_LAYER_MOD_GET_MODS kc = kc AND 0x1F"
definition QK_ONE_SHOT_MOD_GET_MODS :: "u16 \<Rightarrow> u16" where "QK_ONE_SHOT_MOD_GET_MODS kc = kc AND 0x1F"
definition QK_LAYER_TAP_TOGGLE_GET_LAYER :: "u16 \<Rightarrow> u16" where "QK_LAYER_TAP_TOGGLE_GET_LAYER kc = kc AND 0x1F"
definition QK_LAYER_TAP_GET_LAYER :: "u16 \<Rightarrow> u16" where "QK_LAYER_TAP_GET_LAYER kc = drop_bit 8 kc AND 0xF"
definition QK_LAYER_TAP_GET_TAP_KEYCODE :: "u16 \<Rightarrow> u16" where "QK_LAYER_TAP_GET_TAP_KEYCODE kc = kc AND 0xFF"
definition QK_MOD_TAP_GET_MODS :: "u16 \<Rightarrow> u16" where "QK_MOD_TAP_GET_MODS kc = drop_bit 8 kc AND 0x1F"
definition QK_MOD_TAP_GET_TAP_KEYCODE :: "u16 \<Rightarrow> u16" where "QK_MOD_TAP_GET_TAP_KEYCODE kc = kc AND 0xFF"
definition QK_SWAP_HANDS_GET_TAP_KEYCODE :: "u16 \<Rightarrow> u16" where "QK_SWAP_HANDS_GET_TAP_KEYCODE kc = kc AND 0xFF"
definition QK_TAP_DANCE_GET_INDEX :: "u16 \<Rightarrow> u16" where "QK_TAP_DANCE_GET_INDEX kc = kc AND 0xFF"

end
