(* ===== verification/KeycodeConfig.thy ===== *)
theory KeycodeConfig
  imports QmkPrelude
begin

text \<open>
  The user configuration of modifier and key swaps of \<^verbatim>\<open>quantum/keycode_config.c\<close>: the record of
  the configuration bits, the rewriting of keycodes and of 5-bit modifier sets, and the relation
  between the two.
\<close>

section \<open>Definitions\<close>

text \<open>
  The fields \<^verbatim>\<open>nkro\<close> and \<^verbatim>\<open>oneshot_enable\<close> of \<^verbatim>\<open>keymap_config_t\<close> are part of the states of the
  components that read them; \<^verbatim>\<open>autocorrect_enable\<close> is not read here.
\<close>

record keymap_config =
  swap_control_capslock :: bool
  capslock_to_control :: bool
  swap_lalt_lgui :: bool
  swap_ralt_rgui :: bool
  no_gui :: bool
  swap_grave_esc :: bool
  swap_backslash_backspace :: bool
  swap_lctl_lgui :: bool
  swap_rctl_rgui :: bool
  swap_escape_capslock :: bool

definition keycode_config :: "keymap_config \<Rightarrow> u16 \<Rightarrow> u16" where
  "keycode_config c keycode =
     (if keycode = 0x39 \<or> keycode = 0x82 then
        (if swap_control_capslock c \<or> capslock_to_control c then 0xE0
         else if swap_escape_capslock c then 0x29
         else keycode)
      else if keycode = 0xE0 then
        (if swap_control_capslock c then 0x39
         else if swap_lctl_lgui c then (if no_gui c then 0 else 0xE3)
         else 0xE0)
      else if keycode = 0xE2 then
        (if swap_lalt_lgui c then (if no_gui c then 0 else 0xE3) else 0xE2)
      else if keycode = 0xE3 then
        (if swap_lalt_lgui c then 0xE2
         else if swap_lctl_lgui c then 0xE0
         else if no_gui c then 0
         else 0xE3)
      else if keycode = 0xE4 then
        (if swap_rctl_rgui c then (if no_gui c then 0 else 0xE7) else 0xE4)
      else if keycode = 0xE6 then
        (if swap_ralt_rgui c then (if no_gui c then 0 else 0xE7) else 0xE6)
      else if keycode = 0xE7 then
        (if swap_ralt_rgui c then 0xE6
         else if swap_rctl_rgui c then 0xE4
         else if no_gui c then 0
         else 0xE7)
      else if keycode = 0x35 then (if swap_grave_esc c then 0x29 else 0x35)
      else if keycode = 0x29 then
        (if swap_grave_esc c then 0x35
         else if swap_escape_capslock c then 0x39
         else 0x29)
      else if keycode = 0x31 then (if swap_backslash_backspace c then 0x2A else 0x31)
      else if keycode = 0x2A then (if swap_backslash_backspace c then 0x31 else 0x2A)
      else keycode)"

text \<open>The 5-bit modifiers of \<^verbatim>\<open>modifiers.h\<close>.\<close>

definition MOD_LCTL :: u8 where "MOD_LCTL = 0x01"
definition MOD_LSFT :: u8 where "MOD_LSFT = 0x02"
definition MOD_LALT :: u8 where "MOD_LALT = 0x04"
definition MOD_LGUI :: u8 where "MOD_LGUI = 0x08"
definition MOD_RCTL :: u8 where "MOD_RCTL = 0x11"
definition MOD_RSFT :: u8 where "MOD_RSFT = 0x12"
definition MOD_RALT :: u8 where "MOD_RALT = 0x14"
definition MOD_RGUI :: u8 where "MOD_RGUI = 0x18"

lemmas mod_codes = MOD_LCTL_def MOD_LSFT_def MOD_LALT_def MOD_LGUI_def MOD_RCTL_def MOD_RSFT_def
  MOD_RALT_def MOD_RGUI_def

definition mod_config :: "keymap_config \<Rightarrow> u8 \<Rightarrow> u8" where
  "mod_config c md =
     (let md = (if swap_lalt_lgui c \<and> ((md AND MOD_RALT = MOD_LALT) \<noteq> (md AND MOD_RGUI = MOD_LGUI))
                then md XOR (MOD_LALT OR MOD_LGUI) else md);
          md = (if swap_ralt_rgui c \<and> ((md AND MOD_RALT = MOD_RALT) \<noteq> (md AND MOD_RGUI = MOD_RGUI))
                then md XOR (MOD_LALT OR MOD_LGUI) else md);
          md = (if swap_lctl_lgui c \<and> ((md AND MOD_RCTL = MOD_LCTL) \<noteq> (md AND MOD_RGUI = MOD_LGUI))
                then md XOR (MOD_LCTL OR MOD_LGUI) else md);
          md = (if swap_rctl_rgui c \<and> ((md AND MOD_RCTL = MOD_RCTL) \<noteq> (md AND MOD_RGUI = MOD_RGUI))
                then md XOR (MOD_LCTL OR MOD_LGUI) else md)
      in if no_gui c then (md AND NOT MOD_LGUI) AND NOT MOD_RGUI else md)"

section \<open>Lemmas\<close>

text \<open>The 5-bit modifier of a modifier keycode; \<^verbatim>\<open>KC_NO\<close> has none.\<close>

definition key_mod :: "u16 \<Rightarrow> u8" where
  "key_mod k =
     (if k = 0xE0 then MOD_LCTL else if k = 0xE1 then MOD_LSFT else if k = 0xE2 then MOD_LALT
      else if k = 0xE3 then MOD_LGUI else if k = 0xE4 then MOD_RCTL else if k = 0xE5 then MOD_RSFT
      else if k = 0xE6 then MOD_RALT else if k = 0xE7 then MOD_RGUI else 0)"

lemma no_gui_bits: "no_gui c \<Longrightarrow> \<not> bit (mod_config c md) 3 \<and> \<not> bit (mod_config c md) 4"
  by (simp add: mod_config_def Let_def bit_and_iff bit_not_iff mod_codes)

lemma left_keys_agree:
  assumes "\<not> (swap_lalt_lgui c \<and> swap_lctl_lgui c)" and "\<not> swap_control_capslock c"
  shows "key_mod (keycode_config c 0xE0) = mod_config c (key_mod 0xE0)"
    and "key_mod (keycode_config c 0xE1) = mod_config c (key_mod 0xE1)"
    and "key_mod (keycode_config c 0xE2) = mod_config c (key_mod 0xE2)"
    and "key_mod (keycode_config c 0xE3) = mod_config c (key_mod 0xE3)"
  using assms
  by (cases "swap_lalt_lgui c"; cases "swap_lctl_lgui c"; cases "no_gui c";
      simp add: keycode_config_def mod_config_def key_mod_def mod_codes Let_def)+

lemma right_keys_agree:
  assumes "\<not> (swap_ralt_rgui c \<and> swap_rctl_rgui c)" and "\<not> no_gui c"
  shows "key_mod (keycode_config c 0xE4) = mod_config c (key_mod 0xE4)"
    and "key_mod (keycode_config c 0xE5) = mod_config c (key_mod 0xE5)"
    and "key_mod (keycode_config c 0xE6) = mod_config c (key_mod 0xE6)"
    and "key_mod (keycode_config c 0xE7) = mod_config c (key_mod 0xE7)"
  using assms
  by (cases "swap_ralt_rgui c"; cases "swap_rctl_rgui c";
      simp add: keycode_config_def mod_config_def key_mod_def mod_codes Let_def)+

section \<open>Properties\<close>

text \<open>
  Unless two swaps of the same side or \<^verbatim>\<open>swap_control_capslock\<close> are combined, the
  modifier of a rewritten modifier key is the rewritten modifier: \<^verbatim>\<open>MT\<close> and the like swap as the
  plain keys do; on the right side this needs GUI to be enabled.
\<close>

theorem mod_config_agrees_with_keycode_config:
  assumes "\<not> (swap_lalt_lgui c \<and> swap_lctl_lgui c)" and "\<not> (swap_ralt_rgui c \<and> swap_rctl_rgui c)"
    and "\<not> swap_control_capslock c"
    and "k \<in> {0xE0, 0xE1, 0xE2, 0xE3} \<or> k \<in> {0xE4, 0xE5, 0xE6, 0xE7} \<and> \<not> no_gui c"
  shows "key_mod (keycode_config c k) = mod_config c (key_mod k)"
  using assms(4)
proof
  assume "k \<in> {0xE0, 0xE1, 0xE2, 0xE3}"
  then show ?thesis using left_keys_agree [OF assms(1,3)] by (elim insertE emptyE) simp_all
next
  assume "k \<in> {0xE4, 0xE5, 0xE6, 0xE7} \<and> \<not> no_gui c"
  then show ?thesis using right_keys_agree [OF assms(2)] by (elim conjE insertE emptyE) simp_all
qed

definition plain_config :: keymap_config where
  "plain_config = \<lparr>swap_control_capslock = False, capslock_to_control = False, swap_lalt_lgui = False,
     swap_ralt_rgui = False, no_gui = False, swap_grave_esc = False, swap_backslash_backspace = False,
     swap_lctl_lgui = False, swap_rctl_rgui = False, swap_escape_capslock = False\<rparr>"

lemma mod_config_agrees_with_keycode_config_witness:
  "key_mod (keycode_config (plain_config\<lparr>swap_lalt_lgui := True\<rparr>) 0xE2) =
     mod_config (plain_config\<lparr>swap_lalt_lgui := True\<rparr>) MOD_LALT \<and>
   keycode_config (plain_config\<lparr>swap_lalt_lgui := True\<rparr>) 0xE2 = 0xE3"
  using mod_config_agrees_with_keycode_config [where c = "plain_config\<lparr>swap_lalt_lgui := True\<rparr>" and k = "0xE2"]
  by (simp add: plain_config_def key_mod_def keycode_config_def)

text \<open>
  With GUI disabled \<^verbatim>\<open>mod_config\<close> clears not only GUI but the flag of the right-hand
  side: every right-hand modifier becomes the left-hand one, AltGr becomes Alt.
\<close>

theorem mod_config_no_gui_loses_right_hand:
  assumes "no_gui c"
  shows "\<not> bit (mod_config c md) 3 \<and> \<not> bit (mod_config c md) 4 \<and>
    mod_config (plain_config\<lparr>no_gui := True\<rparr>) MOD_RALT = MOD_LALT \<and>
    keycode_config (plain_config\<lparr>no_gui := True\<rparr>) 0xE6 = 0xE6"
  using no_gui_bits [OF assms, of md]
  by (simp add: mod_config_def keycode_config_def plain_config_def Let_def mod_codes)

lemma mod_config_no_gui_loses_right_hand_witness:
  "\<not> bit (mod_config (plain_config\<lparr>no_gui := True\<rparr>) MOD_RCTL) 4"
  using mod_config_no_gui_loses_right_hand [of "plain_config\<lparr>no_gui := True\<rparr>" MOD_RCTL] by simp

end
