(* ===== verification/Keymap.thy ===== *)
theory Keymap
  imports Keycodes KeycodeConfig Action ActionLayer
begin

text \<open>
  From a key position to an action: the keymap tables (\<^verbatim>\<open>quantum/keymap_introspection.c\<close>), the lookup
  of a keycode, the 16-bit action codes of \<^verbatim>\<open>quantum/action_code.h\<close> and the translation of
  \<^verbatim>\<open>quantum/keymap_common.c\<close>.
\<close>

section \<open>Action codes\<close>

type_synonym action_t = u16

definition ACTION_NO :: action_t where "ACTION_NO = 0"
definition ACTION_TRANSPARENT :: action_t where "ACTION_TRANSPARENT = 1"

datatype action_kind_id = ACT_LMODS | ACT_RMODS | ACT_LMODS_TAP | ACT_RMODS_TAP | ACT_USAGE | ACT_MOUSEKEY
  | ACT_SWAP_HANDS | ACT_LAYER | ACT_LAYER_MODS | ACT_LAYER_TAP | ACT_LAYER_TAP_EXT | ACT_RESERVED

definition kind_code :: "action_kind_id \<Rightarrow> u16" where
  "kind_code k = (case k of ACT_LMODS \<Rightarrow> 0 | ACT_RMODS \<Rightarrow> 1 | ACT_LMODS_TAP \<Rightarrow> 2 | ACT_RMODS_TAP \<Rightarrow> 3 | ACT_USAGE \<Rightarrow> 4
     | ACT_MOUSEKEY \<Rightarrow> 5 | ACT_SWAP_HANDS \<Rightarrow> 6 | ACT_RESERVED \<Rightarrow> 7 | ACT_LAYER \<Rightarrow> 8 | ACT_LAYER_MODS \<Rightarrow> 9
     | ACT_LAYER_TAP \<Rightarrow> 10 | ACT_LAYER_TAP_EXT \<Rightarrow> 11)"

text \<open>The bit fields of the union, the first one at the low end.\<close>

definition field :: "nat \<Rightarrow> nat \<Rightarrow> action_t \<Rightarrow> u16" where
  "field start len a = take_bit len (drop_bit start a)"

definition kind_id :: "action_t \<Rightarrow> action_kind_id" where
  "kind_id a = (let k = field 12 4 a in
     if k = 0 then ACT_LMODS else if k = 1 then ACT_RMODS else if k = 2 then ACT_LMODS_TAP
     else if k = 3 then ACT_RMODS_TAP else if k = 4 then ACT_USAGE else if k = 5 then ACT_MOUSEKEY
     else if k = 6 then ACT_SWAP_HANDS else if k = 8 then ACT_LAYER else if k = 9 then ACT_LAYER_MODS
     else if k = 10 then ACT_LAYER_TAP else if k = 11 then ACT_LAYER_TAP_EXT else ACT_RESERVED)"

definition key_code :: "action_t \<Rightarrow> u8" where "key_code a = ucast (field 0 8 a)"
definition key_mods :: "action_t \<Rightarrow> u8" where "key_mods a = ucast (field 8 4 a)"
definition bitop_bits :: "action_t \<Rightarrow> u8" where "bitop_bits a = ucast (field 0 4 a)"
definition bitop_xbit :: "action_t \<Rightarrow> bool" where "bitop_xbit a \<longleftrightarrow> field 4 1 a \<noteq> 0"
definition bitop_part :: "action_t \<Rightarrow> u8" where "bitop_part a = ucast (field 5 3 a)"
definition bitop_on :: "action_t \<Rightarrow> u8" where "bitop_on a = ucast (field 8 2 a)"
definition bitop_op :: "action_t \<Rightarrow> u8" where "bitop_op a = ucast (field 10 2 a)"
definition layer_mods_mods :: "action_t \<Rightarrow> u8" where "layer_mods_mods a = ucast (field 0 8 a)"
definition layer_mods_layer :: "action_t \<Rightarrow> u8" where "layer_mods_layer a = ucast (field 8 4 a)"
definition layer_tap_code :: "action_t \<Rightarrow> u8" where "layer_tap_code a = ucast (field 0 8 a)"
definition layer_tap_val :: "action_t \<Rightarrow> u8" where "layer_tap_val a = ucast (field 8 5 a)"
definition usage_code :: "action_t \<Rightarrow> u16" where "usage_code a = field 0 10 a"
definition usage_page :: "action_t \<Rightarrow> u16" where "usage_page a = field 10 2 a"
definition swap_code :: "action_t \<Rightarrow> u8" where "swap_code a = ucast (field 0 8 a)"

text \<open>The macros compute with integers of at least 16 bits, and the assignment keeps the low 16.\<close>

definition ACTION :: "action_kind_id \<Rightarrow> u16 \<Rightarrow> action_t" where
  "ACTION kind param = push_bit 12 (kind_code kind) OR param"
definition ACTION_KEY :: "u16 \<Rightarrow> action_t" where
  "ACTION_KEY key = ACTION ACT_LMODS key"
definition ACTION_MODS :: "u16 \<Rightarrow> action_t" where
  "ACTION_MODS md = ACTION ACT_LMODS (push_bit 8 (md AND 0x1F) OR 0)"
definition ACTION_MODS_KEY :: "u16 \<Rightarrow> u16 \<Rightarrow> action_t" where
  "ACTION_MODS_KEY md key = ACTION ACT_LMODS (push_bit 8 (md AND 0x1F) OR key)"
definition ACTION_MODS_TAP_KEY :: "u16 \<Rightarrow> u16 \<Rightarrow> action_t" where
  "ACTION_MODS_TAP_KEY md key = ACTION ACT_LMODS_TAP (push_bit 8 (md AND 0x1F) OR key)"
definition MODS_ONESHOT :: u16 where "MODS_ONESHOT = 0"
definition MODS_TAP_TOGGLE :: u16 where "MODS_TAP_TOGGLE = 1"
definition ACTION_MODS_ONESHOT :: "u16 \<Rightarrow> action_t" where
  "ACTION_MODS_ONESHOT md = ACTION ACT_LMODS_TAP (push_bit 8 (md AND 0x1F) OR MODS_ONESHOT)"
definition ACTION_USAGE_SYSTEM :: "u16 \<Rightarrow> action_t" where
  "ACTION_USAGE_SYSTEM usage = ACTION ACT_USAGE (push_bit 10 0 OR usage)"
definition ACTION_USAGE_CONSUMER :: "u16 \<Rightarrow> action_t" where
  "ACTION_USAGE_CONSUMER usage = ACTION ACT_USAGE (push_bit 10 1 OR usage)"
definition ACTION_MOUSEKEY :: "u16 \<Rightarrow> action_t" where
  "ACTION_MOUSEKEY key = ACTION ACT_MOUSEKEY key"

definition ON_PRESS :: u16 where "ON_PRESS = 1"
definition ON_RELEASE :: u16 where "ON_RELEASE = 2"
definition ON_BOTH :: u16 where "ON_BOTH = 3"
definition OP_BIT_AND :: u16 where "OP_BIT_AND = 0"
definition OP_BIT_OR :: u16 where "OP_BIT_OR = 1"
definition OP_BIT_XOR :: u16 where "OP_BIT_XOR = 2"
definition OP_BIT_SET :: u16 where "OP_BIT_SET = 3"
definition OP_TAP_TOGGLE :: u16 where "OP_TAP_TOGGLE = 0xF0"
definition OP_ON_OFF :: u16 where "OP_ON_OFF = 0xF1"
definition OP_OFF_ON :: u16 where "OP_OFF_ON = 0xF2"
definition OP_SET_CLEAR :: u16 where "OP_SET_CLEAR = 0xF3"
definition OP_ONESHOT :: u16 where "OP_ONESHOT = 0xF4"

definition ACTION_LAYER_BITOP :: "u16 \<Rightarrow> u16 \<Rightarrow> u16 \<Rightarrow> u16 \<Rightarrow> action_t" where
  "ACTION_LAYER_BITOP op part bits on =
     ACTION ACT_LAYER (push_bit 10 op OR push_bit 8 on OR push_bit 5 part OR (bits AND 0x1F))"
definition ACTION_LAYER_TAP :: "u16 \<Rightarrow> u16 \<Rightarrow> action_t" where
  "ACTION_LAYER_TAP layer key = ACTION ACT_LAYER_TAP (push_bit 8 layer OR key)"
definition layer_bit :: "u16 \<Rightarrow> u16" where
  "layer_bit layer = push_bit (unat (layer mod 4)) 1"
definition ACTION_DEFAULT_LAYER_SET :: "u16 \<Rightarrow> action_t" where
  "ACTION_DEFAULT_LAYER_SET layer = ACTION_LAYER_BITOP OP_BIT_SET (layer div 4) (layer_bit layer) 0"
definition ACTION_LAYER_INVERT :: "u16 \<Rightarrow> u16 \<Rightarrow> action_t" where
  "ACTION_LAYER_INVERT layer on = ACTION_LAYER_BITOP OP_BIT_XOR (layer div 4) (layer_bit layer) on"
definition ACTION_LAYER_SET :: "u16 \<Rightarrow> u16 \<Rightarrow> action_t" where
  "ACTION_LAYER_SET layer on = ACTION_LAYER_BITOP OP_BIT_SET (layer div 4) (layer_bit layer) on"
definition ACTION_LAYER_ON_OFF :: "u16 \<Rightarrow> action_t" where
  "ACTION_LAYER_ON_OFF layer = ACTION_LAYER_TAP layer OP_ON_OFF"
definition ACTION_LAYER_MOMENTARY :: "u16 \<Rightarrow> action_t" where
  "ACTION_LAYER_MOMENTARY layer = ACTION_LAYER_ON_OFF layer"
definition ACTION_LAYER_TOGGLE :: "u16 \<Rightarrow> action_t" where
  "ACTION_LAYER_TOGGLE layer = ACTION_LAYER_INVERT layer ON_RELEASE"
definition ACTION_LAYER_GOTO :: "u16 \<Rightarrow> action_t" where
  "ACTION_LAYER_GOTO layer = ACTION_LAYER_SET layer ON_PRESS"
definition ACTION_LAYER_ONESHOT :: "u16 \<Rightarrow> action_t" where
  "ACTION_LAYER_ONESHOT layer = ACTION_LAYER_TAP layer OP_ONESHOT"
definition ACTION_LAYER_MODS :: "u16 \<Rightarrow> u16 \<Rightarrow> action_t" where
  "ACTION_LAYER_MODS layer md = ACTION ACT_LAYER_MODS (push_bit 8 layer OR md)"
definition ACTION_LAYER_TAP_KEY :: "u16 \<Rightarrow> u16 \<Rightarrow> action_t" where
  "ACTION_LAYER_TAP_KEY layer key = ACTION_LAYER_TAP layer key"
definition ACTION_LAYER_TAP_TOGGLE :: "u16 \<Rightarrow> action_t" where
  "ACTION_LAYER_TAP_TOGGLE layer = ACTION_LAYER_TAP layer OP_TAP_TOGGLE"

section \<open>Keymaps\<close>

text \<open>The tables of a keymap: layers of rows of keycodes, and per layer the two directions of each encoder.\<close>

record keymap_tables =
  keymaps :: "u16 list list list"
  encoder_map :: "(u16 \<times> u16) list list"
  dip_switch_map :: "(u16 \<times> u16) list"
  NUM_ENCODERS :: nat
  DIP_SWITCH_MAP_ENABLE :: bool

definition keycode_at_keymap_location_raw :: "layer_cfg \<Rightarrow> keymap_tables \<Rightarrow> nat \<Rightarrow> nat \<Rightarrow> nat \<Rightarrow> u16" where
  "keycode_at_keymap_location_raw lc t layer_num r c =
     (if layer_num < length (keymaps t) \<and> r < MATRIX_ROWS lc \<and> c < MATRIX_COLS lc then keymaps t ! layer_num ! r ! c else 1)"

definition keycode_at_encodermap_location_raw :: "keymap_tables \<Rightarrow> nat \<Rightarrow> nat \<Rightarrow> bool \<Rightarrow> u16" where
  "keycode_at_encodermap_location_raw t layer_num encoder_idx clockwise =
     (if layer_num < length (encoder_map t) \<and> encoder_idx < NUM_ENCODERS t
      then (if clockwise then fst else snd) (encoder_map t ! layer_num ! encoder_idx) else 1)"

definition keycode_at_dip_switch_map_location_raw :: "keymap_tables \<Rightarrow> nat \<Rightarrow> bool \<Rightarrow> u16" where
  "keycode_at_dip_switch_map_location_raw t switch_idx on =
     (if switch_idx < length (dip_switch_map t) then (if on then snd else fst) (dip_switch_map t ! switch_idx) else 1)"

definition keymap_key_to_keycode :: "layer_cfg \<Rightarrow> keymap_tables \<Rightarrow> nat \<Rightarrow> keypos \<Rightarrow> u16" where
  "keymap_key_to_keycode lc t layer key =
     (if unat (row key) < MATRIX_ROWS lc \<and> unat (col key) < MATRIX_COLS lc then
        keycode_at_keymap_location_raw lc t layer (unat (row key)) (unat (col key))
      else if ENCODER_MAP_ENABLE lc \<and> row key = 253 \<and> unat (col key) < NUM_ENCODERS t then
        keycode_at_encodermap_location_raw t layer (unat (col key)) True
      else if ENCODER_MAP_ENABLE lc \<and> row key = 252 \<and> unat (col key) < NUM_ENCODERS t then
        keycode_at_encodermap_location_raw t layer (unat (col key)) False
      else if DIP_SWITCH_MAP_ENABLE t \<and> row key = 251 \<and> unat (col key) < length (dip_switch_map t) then
        keycode_at_dip_switch_map_location_raw t (unat (col key)) True
      else if DIP_SWITCH_MAP_ENABLE t \<and> row key = 250 \<and> unat (col key) < length (dip_switch_map t) then
        keycode_at_dip_switch_map_location_raw t (unat (col key)) False
      else 0)"

section \<open>From keycodes to actions\<close>

record translate_cfg =
  swaps :: keymap_config
  LEGACY_MAGIC_HANDLING :: bool
  NO_ACTION_LAYER :: bool
  NO_ACTION_TAPPING :: bool
  NO_ACTION_TAPPING_TAP_TOGGLE_MO :: bool
  NO_ACTION_TAPPING_MODTAP_MODS :: bool
  tr_EXTRAKEY :: bool
  tr_NO_ONESHOT :: bool
  tr_SWAP_HANDS :: bool

definition mod_config16 :: "keymap_config \<Rightarrow> u16 \<Rightarrow> u16" where
  "mod_config16 c md = ucast (mod_config c (ucast md))"

text \<open>A basic keycode inside of a composite one is rewritten too, except with the legacy handling.\<close>

definition inner_key :: "translate_cfg \<Rightarrow> u16 \<Rightarrow> u16" where
  "inner_key tc kc = (if LEGACY_MAGIC_HANDLING tc then kc else keycode_config (swaps tc) kc)"

definition action_for_keycode :: "translate_cfg \<Rightarrow> u16 \<Rightarrow> action_t" where
  "action_for_keycode tc kc0 =
    (let kc = keycode_config (swaps tc) kc0 in
     if kc \<le> 0xFF \<and> (IS_BASIC_KEYCODE (ucast kc) \<or> IS_MODIFIER_KEYCODE (ucast kc)) then ACTION_KEY kc
     else if tr_EXTRAKEY tc \<and> kc \<le> 0xFF \<and> IS_SYSTEM_KEYCODE (ucast kc) then
       ACTION_USAGE_SYSTEM (KEYCODE2SYSTEM (ucast kc))
     else if tr_EXTRAKEY tc \<and> kc \<le> 0xFF \<and> IS_CONSUMER_KEYCODE (ucast kc) then
       ACTION_USAGE_CONSUMER (KEYCODE2CONSUMER (ucast kc))
     else if kc \<le> 0xFF \<and> IS_MOUSE_KEYCODE (ucast kc) then ACTION_MOUSEKEY kc
     else if kc = 1 then ACTION_TRANSPARENT
     else if IS_QK_MODS kc then
       (if LEGACY_MAGIC_HANDLING tc then ACTION_MODS_KEY (QK_MODS_GET_MODS kc) (QK_MODS_GET_BASIC_KEYCODE kc)
        else ACTION_MODS_KEY (mod_config16 (swaps tc) (QK_MODS_GET_MODS kc))
          (keycode_config (swaps tc) (QK_MODS_GET_BASIC_KEYCODE kc)))
     else if IS_QK_LAYER_TAP kc then
       (if \<not> NO_ACTION_LAYER tc \<and> \<not> NO_ACTION_TAPPING tc
        then ACTION_LAYER_TAP_KEY (QK_LAYER_TAP_GET_LAYER kc) (inner_key tc (QK_LAYER_TAP_GET_TAP_KEYCODE kc))
        else ACTION_KEY (keycode_config (swaps tc) (QK_LAYER_TAP_GET_TAP_KEYCODE kc)))
     else if \<not> NO_ACTION_LAYER tc \<and> IS_QK_TO kc then ACTION_LAYER_GOTO (QK_TO_GET_LAYER kc)
     else if \<not> NO_ACTION_LAYER tc \<and> IS_QK_MOMENTARY kc then ACTION_LAYER_MOMENTARY (QK_MOMENTARY_GET_LAYER kc)
     else if \<not> NO_ACTION_LAYER tc \<and> IS_QK_DEF_LAYER kc then ACTION_DEFAULT_LAYER_SET (QK_DEF_LAYER_GET_LAYER kc)
     else if \<not> NO_ACTION_LAYER tc \<and> IS_QK_TOGGLE_LAYER kc then ACTION_LAYER_TOGGLE (QK_TOGGLE_LAYER_GET_LAYER kc)
     else if \<not> tr_NO_ONESHOT tc \<and> IS_QK_ONE_SHOT_LAYER kc then
       ACTION_LAYER_ONESHOT (QK_ONE_SHOT_LAYER_GET_LAYER kc)
     else if IS_QK_ONE_SHOT_MOD kc then
       (let md = mod_config16 (swaps tc) (QK_ONE_SHOT_MOD_GET_MODS kc) in
        if NO_ACTION_TAPPING tc \<or> tr_NO_ONESHOT tc then ACTION_MODS md else ACTION_MODS_ONESHOT md)
     else if \<not> NO_ACTION_LAYER tc \<and> IS_QK_LAYER_TAP_TOGGLE kc then
       (if \<not> NO_ACTION_TAPPING tc then ACTION_LAYER_TAP_TOGGLE (QK_LAYER_TAP_TOGGLE_GET_LAYER kc)
        else if NO_ACTION_TAPPING_TAP_TOGGLE_MO tc then ACTION_LAYER_MOMENTARY (QK_LAYER_TAP_TOGGLE_GET_LAYER kc)
        else ACTION_LAYER_TOGGLE (QK_LAYER_TAP_TOGGLE_GET_LAYER kc))
     else if \<not> NO_ACTION_LAYER tc \<and> IS_QK_LAYER_MOD kc then
       (let md = mod_config16 (swaps tc) (QK_LAYER_MOD_GET_MODS kc) in
        ACTION_LAYER_MODS (QK_LAYER_MOD_GET_LAYER kc) (if md AND 0x10 \<noteq> 0 then push_bit 4 md else md))
     else if IS_QK_MOD_TAP kc then
       (if \<not> NO_ACTION_TAPPING tc
        then ACTION_MODS_TAP_KEY (mod_config16 (swaps tc) (QK_MOD_TAP_GET_MODS kc))
          (inner_key tc (QK_MOD_TAP_GET_TAP_KEYCODE kc))
        else if NO_ACTION_TAPPING_MODTAP_MODS tc then ACTION_MODS (mod_config16 (swaps tc) (QK_MOD_TAP_GET_MODS kc))
        else ACTION_KEY (keycode_config (swaps tc) (QK_MOD_TAP_GET_TAP_KEYCODE kc)))
     else if tr_SWAP_HANDS tc \<and> IS_QK_SWAP_HANDS kc then
       ACTION ACT_SWAP_HANDS (inner_key tc (QK_SWAP_HANDS_GET_TAP_KEYCODE kc))
     else ACTION_NO)"

definition action_for_key :: "layer_cfg \<Rightarrow> keymap_tables \<Rightarrow> translate_cfg \<Rightarrow> nat \<Rightarrow> keypos \<Rightarrow> action_t" where
  "action_for_key lc t tc layer key = action_for_keycode tc (keymap_key_to_keycode lc t layer key)"

end
