(* ===== verification/KeyEvent.thy ===== *)
theory KeyEvent
  imports ActionLayer
begin

text \<open>
  Key events and records (\<^verbatim>\<open>quantum/keyboard.h\<close>, \<^verbatim>\<open>quantum/action.h\<close>): what the matrix scan hands to
  the action code, and what the tapping code adds to it.
\<close>

datatype keyevent_type = TICK_EVENT | KEY_EVENT | ENCODER_CW_EVENT | ENCODER_CCW_EVENT | COMBO_EVENT
  | DIP_SWITCH_ON_EVENT | DIP_SWITCH_OFF_EVENT

record keyevent =
  key :: keypos
  event_time :: u16
  event_type :: keyevent_type
  pressed :: bool

definition IS_NOEVENT :: "keyevent \<Rightarrow> bool" where
  "IS_NOEVENT e \<longleftrightarrow> event_type e = TICK_EVENT"
definition IS_EVENT :: "keyevent \<Rightarrow> bool" where
  "IS_EVENT e \<longleftrightarrow> event_type e \<noteq> TICK_EVENT"
definition IS_KEYEVENT :: "keyevent \<Rightarrow> bool" where
  "IS_KEYEVENT e \<longleftrightarrow> event_type e = KEY_EVENT"
definition IS_COMBOEVENT :: "keyevent \<Rightarrow> bool" where
  "IS_COMBOEVENT e \<longleftrightarrow> event_type e = COMBO_EVENT"
definition IS_ENCODEREVENT :: "keyevent \<Rightarrow> bool" where
  "IS_ENCODEREVENT e \<longleftrightarrow> event_type e = ENCODER_CW_EVENT \<or> event_type e = ENCODER_CCW_EVENT"

definition KEYEQ :: "keypos \<Rightarrow> keypos \<Rightarrow> bool" where
  "KEYEQ a b \<longleftrightarrow> row a = row b \<and> col a = col b"

text \<open>A record is an event with the tapping state: four bits of tap count and whether a tap was interrupted.\<close>

record keyrecord =
  event :: keyevent
  interrupted :: bool
  tap_count :: "4 word"
  rec_keycode :: u16

definition no_key :: keypos where
  "no_key = \<lparr>col = 0, row = 0\<rparr>"

text \<open>\<^verbatim>\<open>(keyrecord_t){}\<close> is a tick event.\<close>

definition empty_record :: keyrecord where
  "empty_record = \<lparr>event = \<lparr>key = no_key, event_time = 0, event_type = TICK_EVENT, pressed = False\<rparr>,
     interrupted = False, tap_count = 0, rec_keycode = 0\<rparr>"

lemma KEYEQ_iff [simp]: "KEYEQ a b \<longleftrightarrow> a = b"
  by (auto simp: KEYEQ_def)

end
