(* ===== verification/ActionProcess.thy ===== *)
theory ActionProcess
  imports Keymap KeyEvent
begin

text \<open>
  Executing actions (\<^verbatim>\<open>quantum/action.c\<close>): \<^verbatim>\<open>process_action\<close> branch by branch, the processing of a
  record around it, and hand swapping. The chain of feature handlers of \<^verbatim>\<open>process_record_quantum\<close> and
  the keymap are arguments. Debug output, the pointing device and auto shift are left out.
\<close>

section \<open>State and configuration\<close>

record 'l process_state =
  core :: "'l action_state"
  cache :: source_cache
  swap_held :: bool
  retro_tapping_counter :: int
  matrix_swap_state :: "u8 list"
  encoder_swap_state :: "u8 list"

text \<open>
  \<open>ONESHOT_TAP_TOGGLE\<close> is 0 when it is not defined. The functions that the build makes per-key are
  functions of the record here; \<open>lookup\<close> is the keymap, \<open>keycode_action\<close> the action of a keycode put
  into the record by a combo or by the repeat key.
\<close>

record 'l process_cfg =
  act :: "'l action_cfg"
  lays :: layer_cfg
  no_layer :: bool
  no_tapping :: bool
  TAPPING_TOGGLE :: nat
  ONESHOT_TAP_TOGGLE :: nat
  hold_on_other_key_press :: "keyrecord \<Rightarrow> bool"
  RETRO_TAPPING :: bool
  retro_tapping :: "keyrecord \<Rightarrow> bool"
  neutralizer :: "(u8 \<times> u8 list) option"
  lookup :: "nat \<Rightarrow> keypos \<Rightarrow> action_t"
  keycode_in_record :: bool
  keycode_action :: "u16 \<Rightarrow> action_t"
  hand_swap_config :: "nat \<Rightarrow> nat \<Rightarrow> keypos"
  encoder_hand_swap_config :: "nat \<Rightarrow> u8"
  quantum :: "keyrecord \<Rightarrow> 'l process_state \<Rightarrow> bool \<times> 'l process_state"
  post_quantum :: "keyrecord \<Rightarrow> 'l process_state \<Rightarrow> 'l process_state"

definition on_core :: "('l action_state \<Rightarrow> 'l action_state) \<Rightarrow> 'l process_state \<Rightarrow> 'l process_state" where
  "on_core f p = p\<lparr>core := f (core p)\<rparr>"

section \<open>Hand swapping\<close>

definition should_swap_hands :: "nat \<Rightarrow> u8 list \<Rightarrow> bool \<Rightarrow> bool \<Rightarrow> bool" where
  "should_swap_hands index swap_state pr swapping =
     (if pr then swapping else swap_state ! (index div 8) AND push_bit (index mod 8) 1 \<noteq> 0)"

definition set_swap_hands_state :: "nat \<Rightarrow> u8 list \<Rightarrow> bool \<Rightarrow> u8 list" where
  "set_swap_hands_state index swap_state on =
     (let w = swap_state ! (index div 8); b = push_bit (index mod 8) 1
      in swap_state[index div 8 := (if on then w OR b else w AND NOT b)])"

definition process_hand_swap :: "'l process_cfg \<Rightarrow> keyevent \<Rightarrow> 'l process_state \<Rightarrow> keyevent \<times> 'l process_state" where
  "process_hand_swap pc e p =
    (let pos = key e; r = unat (row pos); c = unat (col pos) in
     if IS_KEYEVENT e \<and> r < MATRIX_ROWS (lays pc) \<and> c < MATRIX_COLS (lays pc) then
       (let index = r * MATRIX_COLS (lays pc) + c;
            do_swap = should_swap_hands index (matrix_swap_state p) (pressed e) (swap_hands (core p));
            p = p\<lparr>matrix_swap_state := set_swap_hands_state index (matrix_swap_state p) do_swap\<rparr>
        in (if do_swap then e\<lparr>key := hand_swap_config pc r c\<rparr> else e, p))
     else if ENCODER_MAP_ENABLE (lays pc) \<and> IS_ENCODEREVENT e \<and> (row pos = 253 \<or> row pos = 252) then
       (let do_swap = should_swap_hands c (encoder_swap_state p) (pressed e) (swap_hands (core p));
            p = p\<lparr>encoder_swap_state := set_swap_hands_state c (encoder_swap_state p) do_swap\<rparr>
        in (if do_swap then e\<lparr>key := \<lparr>col = encoder_hand_swap_config pc c, row = row pos\<rparr>\<rparr> else e, p))
     else (e, p))"

section \<open>Keys and modifiers\<close>

text \<open>Modifiers of a key are weak unless the key is itself a modifier or empty.\<close>

definition strong_mods :: "u8 \<Rightarrow> bool" where
  "strong_mods code \<longleftrightarrow> IS_MODIFIER_KEYCODE code \<or> code = 0"

definition pa_mods_key :: "'l action_cfg \<Rightarrow> bool \<Rightarrow> u8 \<Rightarrow> u8 \<Rightarrow> 'l action_state \<Rightarrow> 'l action_state" where
  "pa_mods_key cfg pr mods code s =
    (if pr then
       (let s = (if mods \<noteq> 0
          then send_keyboard_report cfg (if strong_mods code then add_mods mods s else add_weak_mods mods s) else s)
        in register_code cfg code s)
     else
       (let s = unregister_code cfg code s
        in if mods \<noteq> 0
           then send_keyboard_report cfg (if strong_mods code then del_mods mods s else del_weak_mods mods s) else s))"

definition pa_oneshot_mods :: "'l process_cfg \<Rightarrow> bool \<Rightarrow> nat \<Rightarrow> u8 \<Rightarrow> 'l action_state \<Rightarrow> 'l action_state" where
  "pa_oneshot_mods pc pr taps mods s =
    (let cfg = act pc in
     if pr then
       if taps = 0 then register_mods cfg mods s
       else if taps = 1 then add_oneshot_mods cfg mods s
       else if ONESHOT_TAP_TOGGLE pc > 1 \<and> taps = ONESHOT_TAP_TOGGLE pc then
         add_oneshot_locked_mods mods (del_oneshot_mods cfg mods (register_mods cfg mods s))
       else s
     else
       if taps = 0 \<or> ONESHOT_TAP_TOGGLE pc > 1 \<and> taps = 1 \<and> mods AND real_mods s \<noteq> 0 then
         del_oneshot_locked_mods mods (del_oneshot_mods cfg mods (unregister_mods cfg mods s))
       else s)"

text \<open>A mod-tap key; the tap count of the record is set to 0 when another key cancels the tap.\<close>

definition pa_mod_tap :: "'l process_cfg \<Rightarrow> keyrecord \<Rightarrow> u8 \<Rightarrow> u8 \<Rightarrow> 'l process_state \<Rightarrow> keyrecord \<times> 'l process_state" where
  "pa_mod_tap pc r mods code p =
    (let cfg = act pc in
     if pressed (event r) then
       if tap_count r \<noteq> 0 then
         if hold_on_other_key_press pc r \<and> interrupted r
         then (r\<lparr>tap_count := 0\<rparr>, on_core (register_mods cfg mods) p)
         else (r, on_core (register_code cfg code) p)
       else (r, on_core (register_mods cfg mods) p)
     else
       if tap_count r \<noteq> 0 then
         (r, on_core (\<lambda>s. unregister_code cfg code
            (wait_ms (if code = 0x39 then TAP_HOLD_CAPS_DELAY cfg else TAP_CODE_DELAY cfg) s)) p)
       else
         (r, on_core (\<lambda>s. unregister_mods cfg mods
            (case neutralizer pc of
               Some (dummy, to_neutralize) \<Rightarrow>
                 if RETRO_TAPPING pc \<and> retro_tapping_counter p = 2
                 then neutralize_flashing_modifiers cfg dummy to_neutralize (real_mods s) s else s
             | None \<Rightarrow> s)) p))"

definition pa_mods_tap :: "'l process_cfg \<Rightarrow> keyrecord \<Rightarrow> action_t \<Rightarrow> u8 \<Rightarrow> 'l process_state \<Rightarrow> keyrecord \<times> 'l process_state" where
  "pa_mods_tap pc r a mods p =
    (let pr = pressed (event r); taps = unat (tap_count r); cfg = act pc in
     if no_tapping pc then (r, p)
     else if \<not> NO_ACTION_ONESHOT cfg \<and> layer_tap_code a = 0 then
       (r, on_core (if \<not> oneshot_enabled (core p) then pa_mods_key cfg pr mods (key_code a)
                    else pa_oneshot_mods pc pr taps mods) p)
     else if layer_tap_code a = 1 then
       (r, on_core (if pr then (if taps \<le> TAPPING_TOGGLE pc then register_mods cfg mods else id)
                    else (if taps < TAPPING_TOGGLE pc then unregister_mods cfg mods else id)) p)
     else pa_mod_tap pc r mods (key_code a) p)"

definition pa_usage :: "'l action_cfg \<Rightarrow> bool \<Rightarrow> action_t \<Rightarrow> 'l action_state \<Rightarrow> 'l action_state" where
  "pa_usage cfg pr a s =
    (if usage_page a = 0 then host_system_send cfg (if pr then usage_code a else 0) s
     else if usage_page a = 1 then host_consumer_send cfg (if pr then usage_code a else 0) s
     else s)"

section \<open>Layers\<close>

definition bitop_mask :: "action_t \<Rightarrow> 'l::len word" where
  "bitop_mask a =
    (let shift = unat (bitop_part a * 4)
     in push_bit shift (ucast (bitop_bits a)) OR (if bitop_xbit a then NOT (push_bit shift 0xF) else 0))"

definition pa_layer :: "('l::len word) action_cfg \<Rightarrow> bool \<Rightarrow> action_t \<Rightarrow> ('l word) action_state \<Rightarrow> ('l word) action_state" where
  "pa_layer cfg pr a s =
    (let m = bitop_mask a; op = bitop_op a in
     if bitop_on a = 0 then
       if \<not> pr then
         (if op = 0 then default_layer_and cfg m s else if op = 1 then default_layer_or cfg m s
          else if op = 2 then default_layer_xor cfg m s else default_layer_set cfg m s)
       else s
     else if (if pr then bitop_on a AND 1 \<noteq> 0 else bitop_on a AND 2 \<noteq> 0) then
       (if op = 0 then layer_and cfg m s else if op = 1 then layer_or cfg m s
        else if op = 2 then layer_xor cfg m s else layer_state_set cfg m s)
     else s)"

definition pa_layer_mods :: "('l::len word) action_cfg \<Rightarrow> bool \<Rightarrow> action_t \<Rightarrow> ('l word) action_state \<Rightarrow> ('l word) action_state" where
  "pa_layer_mods cfg pr a s =
    (if pr then register_mods cfg (layer_mods_mods a) (layer_on cfg (layer_mods_layer a) s)
     else layer_off cfg (layer_mods_layer a) (unregister_mods cfg (layer_mods_mods a) s))"

text \<open>A one-shot layer key; the flag is \<^verbatim>\<open>do_release_oneshot\<close>.\<close>

definition pa_oneshot_layer ::
    "('l::len word) process_cfg \<Rightarrow> bool \<Rightarrow> nat \<Rightarrow> u8 \<Rightarrow> bool \<Rightarrow> ('l word) action_state \<Rightarrow> bool \<times> ('l word) action_state" where
  "pa_oneshot_layer pc pr taps layer rel s =
    (let cfg = act pc in
     if NO_ACTION_ONESHOT cfg \<or> no_tapping pc \<or> \<not> oneshot_enabled s then
       (rel, if pr then layer_on cfg layer s else layer_off cfg layer s)
     else if ONESHOT_TAP_TOGGLE pc > 1 then
       (False,
        if pr then
          if get_oneshot_layer_state s = ONESHOT_TOGGLED then layer_off cfg layer (reset_oneshot_layer cfg s)
          else if taps < ONESHOT_TAP_TOGGLE pc then set_oneshot_layer cfg layer ONESHOT_START (layer_on cfg layer s)
          else s
        else
          if taps \<ge> ONESHOT_TAP_TOGGLE pc then set_oneshot_layer cfg layer ONESHOT_TOGGLED (reset_oneshot_layer cfg s)
          else clear_oneshot_layer_state cfg ONESHOT_PRESSED s)
     else
       (rel,
        if pr then set_oneshot_layer cfg layer ONESHOT_START (layer_on cfg layer s)
        else (let s = clear_oneshot_layer_state cfg ONESHOT_PRESSED s
              in if taps > 1 then clear_oneshot_layer_state cfg ONESHOT_OTHER_KEY_PRESSED s else s)))"

definition pa_layer_tap ::
    "('l::len word) process_cfg \<Rightarrow> bool \<Rightarrow> nat \<Rightarrow> action_t \<Rightarrow> bool \<Rightarrow> ('l word) action_state \<Rightarrow> bool \<times> ('l word) action_state" where
  "pa_layer_tap pc pr taps a rel s =
    (let cfg = act pc; code = layer_tap_code a; layer = layer_tap_val a in
     if \<not> no_tapping pc \<and> code = 0xF0 then
       (rel, if (if pr then taps < TAPPING_TOGGLE pc else taps \<le> TAPPING_TOGGLE pc) then layer_invert cfg layer s else s)
     else if code = 0xF1 then (rel, if pr then layer_on cfg layer s else layer_off cfg layer s)
     else if code = 0xF2 then (rel, if pr then layer_off cfg layer s else layer_on cfg layer s)
     else if code = 0xF3 then (rel, if pr then layer_move cfg layer s else layer_clear cfg s)
     else if code = 0xF4 then pa_oneshot_layer pc pr taps layer rel s
     else
       (rel,
        if no_tapping pc \<or> taps > 0 then
          (if pr then register_code cfg code s
           else unregister_code cfg code
             (wait_ms (if code = 0x39 then TAP_HOLD_CAPS_DELAY cfg else TAP_CODE_DELAY cfg) s))
        else (if pr then layer_on cfg layer s else layer_off cfg layer s)))"

section \<open>Swap hands\<close>

definition flip_swap_hands :: "'l process_state \<Rightarrow> 'l process_state" where
  "flip_swap_hands p = on_core (\<lambda>s. s\<lparr>swap_hands := \<not> swap_hands s\<rparr>) p"

definition set_swap_hands :: "bool \<Rightarrow> 'l process_state \<Rightarrow> 'l process_state" where
  "set_swap_hands b p = on_core (\<lambda>s. s\<lparr>swap_hands := b\<rparr>) p"

definition pa_swap_hands :: "'l process_cfg \<Rightarrow> keyrecord \<Rightarrow> action_t \<Rightarrow> 'l process_state \<Rightarrow> keyrecord \<times> 'l process_state" where
  "pa_swap_hands pc r a p =
    (let cfg = act pc; pr = pressed (event r); taps = unat (tap_count r); code = swap_code a in
     if code = 0xF0 then (r, if pr then flip_swap_hands p else p)
     else if code = 0xF2 then (r, set_swap_hands pr p)
     else if code = 0xF3 then (r, set_swap_hands (\<not> pr) p)
     else if code = 0xF5 then (r, if \<not> pr then set_swap_hands True p else p)
     else if code = 0xF4 then (r, if \<not> pr then set_swap_hands False p else p)
     else if \<not> NO_ACTION_ONESHOT cfg \<and> code = 0xF6 then
       (r, on_core (if pr then set_oneshot_swaphands cfg else release_oneshot_swaphands cfg) p)
     else if no_tapping pc then (r, p)
     else if code = 0xF1 then
       (r, if pr then (if swap_held p then p\<lparr>swap_held := False\<rparr> else flip_swap_hands p)
           else (if taps < TAPPING_TOGGLE pc then flip_swap_hands p else p))
     else if taps > 0 then
       (let p = (if swap_held p then (flip_swap_hands p)\<lparr>swap_held := False\<rparr> else p)
        in if pr then (r, on_core (register_code cfg code) p)
           else (empty_record, on_core (\<lambda>s. unregister_code cfg code (wait_ms (TAP_CODE_DELAY cfg) s)) p))
     else (r, if swap_held p \<and> \<not> pr then (flip_swap_hands p)\<lparr>swap_held := False\<rparr> else p))"

section \<open>Processing an action\<close>

text \<open>Whether this press uses up the one-shot layer.\<close>

definition clears_oneshot_layer :: "('l::len word) process_cfg \<Rightarrow> keyrecord \<Rightarrow> action_t \<Rightarrow> ('l word) action_state \<Rightarrow> bool" where
  "clears_oneshot_layer pc r a s \<longleftrightarrow>
     \<not> NO_ACTION_ONESHOT (act pc) \<and> is_oneshot_layer_active s \<and> pressed (event r) \<and>
     (kind_id a = ACT_USAGE \<or> \<not> (IS_MODIFIER_KEYCODE (key_code a) \<or>
      \<not> no_tapping pc \<and> (kind_id a = ACT_LMODS_TAP \<or> kind_id a = ACT_RMODS_TAP) \<and> (layer_tap_code a \<le> 1 \<or> tap_count r = 0))) \<and>
     \<not> (SWAP_HANDS_ENABLE (act pc) \<and> kind_id a = ACT_SWAP_HANDS \<and> swap_code a = 0xF6) \<and> oneshot_enabled s"

definition is_tap_action :: "action_t \<Rightarrow> bool" where
  "is_tap_action a =
    (case kind_id a of
       ACT_LMODS_TAP \<Rightarrow> layer_tap_code a \<le> 0xE7 \<or> layer_tap_code a = 0xF0 \<or> layer_tap_code a = 0xF4
     | ACT_RMODS_TAP \<Rightarrow> layer_tap_code a \<le> 0xE7 \<or> layer_tap_code a = 0xF0 \<or> layer_tap_code a = 0xF4
     | ACT_LAYER_TAP \<Rightarrow> layer_tap_code a \<le> 0xE7 \<or> layer_tap_code a = 0xF0 \<or> layer_tap_code a = 0xF4
     | ACT_LAYER_TAP_EXT \<Rightarrow> layer_tap_code a \<le> 0xE7 \<or> layer_tap_code a = 0xF0 \<or> layer_tap_code a = 0xF4
     | ACT_SWAP_HANDS \<Rightarrow> swap_code a \<le> 0xE7 \<or> swap_code a = 0xF1
     | _ \<Rightarrow> False)"

text \<open>The \<^verbatim>\<open>switch\<close> over the kind of the action, with the record and the release flag.\<close>

definition pa_switch ::
    "('l::len word) process_cfg \<Rightarrow> keyrecord \<Rightarrow> action_t \<Rightarrow> bool \<Rightarrow> ('l word) process_state \<Rightarrow>
       keyrecord \<times> bool \<times> ('l word) process_state" where
  "pa_switch pc r a rel p =
    (let cfg = act pc; pr = pressed (event r); taps = unat (tap_count r); right = push_bit 4 (key_mods a);
         keep = (\<lambda>(r', p'). (r', rel, p')) in
     case kind_id a of
       ACT_LMODS \<Rightarrow> (r, rel, on_core (pa_mods_key cfg pr (key_mods a) (key_code a)) p)
     | ACT_RMODS \<Rightarrow> (r, rel, on_core (pa_mods_key cfg pr right (key_code a)) p)
     | ACT_LMODS_TAP \<Rightarrow> keep (pa_mods_tap pc r a (key_mods a) p)
     | ACT_RMODS_TAP \<Rightarrow> keep (pa_mods_tap pc r a right p)
     | ACT_USAGE \<Rightarrow> (r, rel, if EXTRAKEY_ENABLE cfg then on_core (pa_usage cfg pr a) p else p)
     | ACT_MOUSEKEY \<Rightarrow> (r, rel, on_core (emit (MouseCall (key_code a) pr)) p)
     | ACT_LAYER \<Rightarrow> (r, rel, if no_layer pc then p else on_core (pa_layer cfg pr a) p)
     | ACT_LAYER_MODS \<Rightarrow> (r, rel, if no_layer pc then p else on_core (pa_layer_mods cfg pr a) p)
     | ACT_LAYER_TAP \<Rightarrow> if no_layer pc then (r, rel, p)
         else (let (rel', s) = pa_layer_tap pc pr taps a rel (core p) in (r, rel', p\<lparr>core := s\<rparr>))
     | ACT_LAYER_TAP_EXT \<Rightarrow> if no_layer pc then (r, rel, p)
         else (let (rel', s) = pa_layer_tap pc pr taps a rel (core p) in (r, rel', p\<lparr>core := s\<rparr>))
     | ACT_SWAP_HANDS \<Rightarrow> if SWAP_HANDS_ENABLE cfg then keep (pa_swap_hands pc r a p) else (r, rel, p)
     | ACT_RESERVED \<Rightarrow> (r, rel, p))"

definition pa_leds :: "('l::len word) process_cfg \<Rightarrow> action_t \<Rightarrow> ('l word) process_state \<Rightarrow> ('l word) process_state" where
  "pa_leds pc a p =
    (let k = kind_id a in
     if \<not> no_layer pc \<and> (k = ACT_LAYER \<or> k = ACT_LAYER_MODS \<or> \<not> no_tapping pc \<and> (k = ACT_LAYER_TAP \<or> k = ACT_LAYER_TAP_EXT))
     then on_core (emit (LedSet (leds (act pc)))) p else p)"

text \<open>Retro tapping: a tap key that was held alone and released is tapped after all. \<open>r0\<close> is the record as it came in.\<close>

definition pa_retro :: "('l::len word) process_cfg \<Rightarrow> keyrecord \<Rightarrow> keyrecord \<Rightarrow> action_t \<Rightarrow> ('l word) process_state \<Rightarrow> ('l word) process_state" where
  "pa_retro pc r0 r a p =
    (if no_tapping pc \<or> \<not> RETRO_TAPPING pc then p
     else if \<not> is_tap_action a then p\<lparr>retro_tapping_counter := 0\<rparr>
     else if pressed (event r0) then (if tap_count r0 \<noteq> 0 then p\<lparr>retro_tapping_counter := 0\<rparr> else p)
     else if tap_count r0 \<noteq> 0 then p\<lparr>retro_tapping_counter := 0\<rparr>
     else
       (let p = (if retro_tapping pc r \<and> retro_tapping_counter p = 2
                 then on_core (tap_code (act pc) (layer_tap_code a)) p else p)
        in p\<lparr>retro_tapping_counter := 0\<rparr>))"

text \<open>Everything up to the release of a key that used up a one-shot layer.\<close>

definition process_action_body ::
    "('l::len word) process_cfg \<Rightarrow> keyrecord \<Rightarrow> action_t \<Rightarrow> ('l word) process_state \<Rightarrow>
       keyrecord \<times> bool \<times> ('l word) process_state" where
  "process_action_body pc r a p =
    (let clears = clears_oneshot_layer pc r a (core p);
         p = (if clears then on_core (clear_oneshot_layer_state (act pc) ONESHOT_OTHER_KEY_PRESSED) p else p);
         rel = (clears \<and> \<not> is_oneshot_layer_active (core p));
         (r', rel, p) = pa_switch pc r a rel p;
         p = pa_retro pc r r' a (pa_leds pc a p);
         p = (if SWAP_HANDS_ENABLE (act pc) \<and> \<not> NO_ACTION_ONESHOT (act pc) \<and> pressed (event r) \<and>
                \<not> (kind_id a = ACT_SWAP_HANDS \<and> swap_code a = 0xF6)
              then on_core (use_oneshot_swaphands (act pc)) p else p)
     in (r', rel, p))"

section \<open>Processing a record\<close>

text \<open>
  The record is a pointer in the code, so every function that may write it returns it; the handlers of the
  features only read it.
\<close>

definition record_action ::
    "('l::len word) process_cfg \<Rightarrow> keyrecord \<Rightarrow> ('l word) process_state \<Rightarrow> action_t \<times> ('l word) process_state" where
  "record_action pc r p =
    (if keycode_in_record pc \<and> rec_keycode r \<noteq> 0 then (keycode_action pc (rec_keycode r), p)
     else (let (a, c) = store_or_get_action (lays pc) (lookup pc) (pressed (event r)) (key (event r)) (core p) (cache p)
           in (a, p\<lparr>cache := c\<rparr>)))"

text \<open>
  \<open>run\<close> executes the action: processing a record and an action call each other, but only once in a row,
  since the nested record is a release and a release never releases a one-shot layer.
\<close>

definition process_record_with ::
    "(keyrecord \<Rightarrow> action_t \<Rightarrow> ('l::len word) process_state \<Rightarrow> keyrecord \<times> ('l word) process_state) \<Rightarrow>
       ('l word) process_cfg \<Rightarrow> keyrecord \<Rightarrow> ('l word) process_state \<Rightarrow> keyrecord \<times> ('l word) process_state" where
  "process_record_with run pc r p =
    (if IS_NOEVENT (event r) then (r, p)
     else
       (let (go, p) = quantum pc r p in
        if \<not> go then
          (r, if \<not> NO_ACTION_ONESHOT (act pc) \<and> is_oneshot_layer_active (core p) \<and> pressed (event r) \<and> oneshot_enabled (core p)
              then on_core (clear_oneshot_layer_state (act pc) ONESHOT_OTHER_KEY_PRESSED) p else p)
        else
          (let (a, p) = record_action pc r p; (r, p) = run r a p in (r, post_quantum pc r p))))"

definition process_action_release ::
    "('l::len word) process_cfg \<Rightarrow> keyrecord \<Rightarrow> action_t \<Rightarrow> ('l word) process_state \<Rightarrow> keyrecord \<times> ('l word) process_state" where
  "process_action_release pc r a p = (let (r, rel, p) = process_action_body pc r a p in (r, p))"

definition process_action ::
    "('l::len word) process_cfg \<Rightarrow> keyrecord \<Rightarrow> action_t \<Rightarrow> ('l word) process_state \<Rightarrow> keyrecord \<times> ('l word) process_state" where
  "process_action pc r a p =
    (let (r, rel, p) = process_action_body pc r a p in
     if \<not> NO_ACTION_ONESHOT (act pc) \<and> rel \<and> get_oneshot_layer_state (core p) AND ONESHOT_PRESSED = 0 then
       (let r = r\<lparr>event := (event r)\<lparr>pressed := False\<rparr>\<rparr>;
            p = on_core (\<lambda>s. layer_on (act pc) (get_oneshot_layer s) s) p;
            (r, p) = process_record_with (process_action_release pc) pc r p;
            p = on_core (\<lambda>s. layer_off (act pc) (get_oneshot_layer s) s) p
        in (r, p))
     else (r, p))"

definition process_record :: "('l::len word) process_cfg \<Rightarrow> keyrecord \<Rightarrow> ('l word) process_state \<Rightarrow> keyrecord \<times> ('l word) process_state" where
  "process_record pc r p = process_record_with (process_action pc) pc r p"

text \<open>\<^verbatim>\<open>process_record_nocache\<close> sets the flag of the layer cache around the call.\<close>

definition process_record_nocache :: "('l::len word) process_cfg \<Rightarrow> keyrecord \<Rightarrow> ('l word) process_state \<Rightarrow> keyrecord \<times> ('l word) process_state" where
  "process_record_nocache pc r p = process_record (pc\<lparr>lays := (lays pc)\<lparr>disable_action_cache := True\<rparr>\<rparr>) r p"

definition process_record_tap_hint :: "('l::len word) process_cfg \<Rightarrow> keyrecord \<Rightarrow> ('l word) process_state \<Rightarrow> ('l word) process_state" where
  "process_record_tap_hint pc r p =
    (if \<not> IS_KEYEVENT (event r) then p
     else
       (let a = layer_switch_get_action (lays pc) (lookup pc) (key (event r)) (core p) in
        if SWAP_HANDS_ENABLE (act pc) \<and> kind_id a = ACT_SWAP_HANDS \<and> swap_code a \<noteq> 0xF6
        then (flip_swap_hands p)\<lparr>swap_held := True\<rparr> else p))"

definition is_tap_record :: "('l::len word) process_cfg \<Rightarrow> keyrecord \<Rightarrow> ('l word) process_state \<Rightarrow> bool" where
  "is_tap_record pc r p =
    (if IS_NOEVENT (event r) then False
     else is_tap_action
       (if keycode_in_record pc \<and> rec_keycode r \<noteq> 0 then keycode_action pc (rec_keycode r)
        else layer_switch_get_action (lays pc) (lookup pc) (key (event r)) (core p)))"

text \<open>A release does not take the nested branch, so unrolling the mutual recursion once is exact.\<close>

lemma body_release_flag:
  assumes "\<not> pressed (event r)" "process_action_body pc r a p = (r', rel, p')"
  shows "\<not> rel"
proof -
  have c: "\<not> clears_oneshot_layer pc r a (core p)" using assms(1) by (simp add: clears_oneshot_layer_def)
  have "fst (snd (pa_switch pc r a False q)) = False" for q
    by (cases "kind_id a") (auto simp: pa_switch_def Let_def pa_layer_tap_def pa_oneshot_layer_def split: prod.splits if_splits)
  then show ?thesis
    using assms(2) c by (auto simp: process_action_body_def Let_def split: prod.splits) (metis fst_conv snd_conv)
qed

lemma process_action_of_release:
  "\<not> pressed (event r) \<Longrightarrow> process_action pc r a p = process_action_release pc r a p"
  by (auto simp: process_action_def process_action_release_def split: prod.splits dest: body_release_flag)

end
