(* ===== verification/Tapping.thy ===== *)
theory Tapping
  imports ActionProcess
begin

text \<open>
  Tap or hold (\<^verbatim>\<open>quantum/action_tapping.c\<close>): the tapping key, the buffer of the events that wait for its
  decision, and the state machine. What the machine calls (processing a record, the keymap, the terms)
  is an argument over the rest of the state, the world. Builds with retro shift are left out.
\<close>

section \<open>State\<close>

definition WAITING_BUFFER_SIZE :: nat where
  "WAITING_BUFFER_SIZE = 8"

record 'w tap_cfg =
  run_record :: "keyrecord \<Rightarrow> 'w \<Rightarrow> keyrecord \<times> 'w"
  tap_hint :: "keyrecord \<Rightarrow> 'w \<Rightarrow> 'w"
  is_tap :: "keyrecord \<Rightarrow> 'w \<Rightarrow> bool"
  action_at :: "keypos \<Rightarrow> 'w \<Rightarrow> action_t"
  clear_all :: "'w \<Rightarrow> 'w"
  tapping_term :: "keyrecord \<Rightarrow> 'w \<Rightarrow> nat"
  quick_tap_term :: "keyrecord \<Rightarrow> 'w \<Rightarrow> nat"
  permissive_hold :: "keyrecord \<Rightarrow> 'w \<Rightarrow> bool"
  hold_on_other :: "keyrecord \<Rightarrow> 'w \<Rightarrow> bool"
  COMBO_ENABLE :: bool

record 'w tap_state =
  tapping_key :: keyrecord
  waiting_buffer :: "keyrecord list"
  waiting_buffer_head :: nat
  waiting_buffer_tail :: nat
  world :: 'w

definition tap_init :: "'w \<Rightarrow> 'w tap_state" where
  "tap_init w = \<lparr>tapping_key = empty_record, waiting_buffer = replicate WAITING_BUFFER_SIZE empty_record,
     waiting_buffer_head = 0, waiting_buffer_tail = 0, world = w\<rparr>"

section \<open>The waiting buffer\<close>

definition next_slot :: "nat \<Rightarrow> nat" where
  "next_slot i = (i + 1) mod WAITING_BUFFER_SIZE"

text \<open>How many entries wait, and their places in order: the loops run from the tail to the head.\<close>

definition waiting_count :: "'w tap_state \<Rightarrow> nat" where
  "waiting_count s = (waiting_buffer_head s + WAITING_BUFFER_SIZE - waiting_buffer_tail s) mod WAITING_BUFFER_SIZE"

definition waiting_slots :: "'w tap_state \<Rightarrow> nat list" where
  "waiting_slots s = map (\<lambda>k. (waiting_buffer_tail s + k) mod WAITING_BUFFER_SIZE) [0..<waiting_count s]"

definition waiting_buffer_enq :: "keyrecord \<Rightarrow> 'w tap_state \<Rightarrow> bool \<times> 'w tap_state" where
  "waiting_buffer_enq r s =
    (if IS_NOEVENT (event r) then (True, s)
     else if next_slot (waiting_buffer_head s) = waiting_buffer_tail s then (False, s)
     else (True, s\<lparr>waiting_buffer := (waiting_buffer s)[waiting_buffer_head s := r],
                   waiting_buffer_head := next_slot (waiting_buffer_head s)\<rparr>))"

definition waiting_buffer_clear :: "'w tap_state \<Rightarrow> 'w tap_state" where
  "waiting_buffer_clear s = s\<lparr>waiting_buffer_head := 0, waiting_buffer_tail := 0\<rparr>"

definition waiting_buffer_typed :: "keyevent \<Rightarrow> 'w tap_state \<Rightarrow> bool" where
  "waiting_buffer_typed e s =
    list_ex (\<lambda>i. let b = event (waiting_buffer s ! i) in KEYEQ (key e) (key b) \<and> pressed e \<noteq> pressed b) (waiting_slots s)"

definition waiting_buffer_has_anykey_pressed :: "'w tap_state \<Rightarrow> bool" where
  "waiting_buffer_has_anykey_pressed s = list_ex (\<lambda>i. pressed (event (waiting_buffer s ! i))) (waiting_slots s)"

section \<open>Terms\<close>

definition is_tapping_record :: "'w tap_cfg \<Rightarrow> keyrecord \<Rightarrow> 'w tap_state \<Rightarrow> bool" where
  "is_tapping_record c r s \<longleftrightarrow> KEYEQ (key (event (tapping_key s))) (key (event r)) \<and>
     (COMBO_ENABLE c \<longrightarrow> rec_keycode (tapping_key s) = rec_keycode r)"

definition within_tapping_term :: "'w tap_cfg \<Rightarrow> keyevent \<Rightarrow> 'w tap_state \<Rightarrow> bool" where
  "within_tapping_term c e s \<longleftrightarrow>
     unat (timer_diff (event_time e) (event_time (event (tapping_key s)))) < tapping_term c (tapping_key s) (world s)"

definition within_quick_tap_term :: "'w tap_cfg \<Rightarrow> keyevent \<Rightarrow> 'w tap_state \<Rightarrow> bool" where
  "within_quick_tap_term c e s \<longleftrightarrow>
     unat (timer_diff (event_time e) (event_time (event (tapping_key s)))) < quick_tap_term c (tapping_key s) (world s)"

section \<open>Steps\<close>

definition run_tapping_key :: "'w tap_cfg \<Rightarrow> 'w tap_state \<Rightarrow> 'w tap_state" where
  "run_tapping_key c s = (let (r, w) = run_record c (tapping_key s) (world s) in s\<lparr>tapping_key := r, world := w\<rparr>)"

definition run_key :: "'w tap_cfg \<Rightarrow> keyrecord \<Rightarrow> 'w tap_state \<Rightarrow> keyrecord \<times> 'w tap_state" where
  "run_key c r s = (let (r, w) = run_record c r (world s) in (r, s\<lparr>world := w\<rparr>))"

definition copy_tap :: "keyrecord \<Rightarrow> keyrecord \<Rightarrow> keyrecord" where
  "copy_tap t r = r\<lparr>interrupted := interrupted t, tap_count := tap_count t\<rparr>"

definition next_tap :: "keyrecord \<Rightarrow> keyrecord \<Rightarrow> keyrecord" where
  "next_tap t r =
    (let r = copy_tap t r in if tap_count r < 15 then r\<lparr>tap_count := tap_count r + 1\<rparr> else r)"

text \<open>The first release of the tapping key that waits inside of the term makes it a tap.\<close>

definition waiting_buffer_scan_tap :: "'w tap_cfg \<Rightarrow> 'w tap_state \<Rightarrow> 'w tap_state" where
  "waiting_buffer_scan_tap c s =
    (if tap_count (tapping_key s) > 0 \<or> \<not> pressed (event (tapping_key s)) then s
     else case find (\<lambda>i. let e = event (waiting_buffer s ! i) in
             IS_EVENT e \<and> KEYEQ (key e) (key (event (tapping_key s))) \<and> \<not> pressed e \<and> within_tapping_term c e s)
            (waiting_slots s) of
       None \<Rightarrow> s
     | Some i \<Rightarrow> run_tapping_key c (s\<lparr>tapping_key := (tapping_key s)\<lparr>tap_count := 1\<rparr>,
         waiting_buffer := (waiting_buffer s)[i := (waiting_buffer s ! i)\<lparr>tap_count := 1\<rparr>]\<rparr>))"

text \<open>The release that a new tap of another key makes up for the last one.\<close>

definition made_up_release :: "'w tap_cfg \<Rightarrow> keyevent \<Rightarrow> 'w tap_state \<Rightarrow> keyrecord" where
  "made_up_release c e s =
    (let t = tapping_key s in
     \<lparr>event = \<lparr>key = key (event t), event_time = event_time e, event_type = event_type (event t), pressed = False\<rparr>,
      interrupted = interrupted t, tap_count = tap_count t, rec_keycode = (if COMBO_ENABLE c then rec_keycode t else 0)\<rparr>)"

text \<open>Modifiers and layers are kept until the tapping is decided.\<close>

definition retained :: "keyrecord \<Rightarrow> action_t \<Rightarrow> bool" where
  "retained r a =
    (if kind_id a = ACT_LMODS \<or> kind_id a = ACT_RMODS then
       key_mods a \<noteq> 0 \<and> key_code a = 0 \<or> IS_MODIFIER_KEYCODE (key_code a)
     else if kind_id a = ACT_LMODS_TAP \<or> kind_id a = ACT_RMODS_TAP then
       key_mods a \<noteq> 0 \<and> tap_count r = 0 \<or> IS_MODIFIER_KEYCODE (key_code a)
     else if kind_id a = ACT_LAYER_TAP \<or> kind_id a = ACT_LAYER_TAP_EXT then
       layer_tap_code a < 0xF0 \<or> layer_tap_code a = 0xF1 \<or> layer_tap_code a = 0xF2 \<or> layer_tap_code a = 0xF3
     else False)"

section \<open>The state machine\<close>

type_synonym 'w tap_result = "bool \<times> keyrecord \<times> 'w tap_state"

text \<open>A new tapping key.\<close>

definition start_tap :: "'w tap_cfg \<Rightarrow> keyrecord \<Rightarrow> 'w tap_state \<Rightarrow> 'w tap_result" where
  "start_tap c r s = (True, r, waiting_buffer_scan_tap c (s\<lparr>tapping_key := r\<rparr>))"

definition pass_on :: "'w tap_cfg \<Rightarrow> keyrecord \<Rightarrow> 'w tap_state \<Rightarrow> 'w tap_result" where
  "pass_on c r s = (let (r, s) = run_key c r s in (True, r, s))"

definition settle_hold :: "'w tap_cfg \<Rightarrow> keyrecord \<Rightarrow> 'w tap_state \<Rightarrow> 'w tap_result" where
  "settle_hold c r s = (False, r, (run_tapping_key c s)\<lparr>tapping_key := empty_record\<rparr>)"

definition pt_idle :: "'w tap_cfg \<Rightarrow> keyrecord \<Rightarrow> 'w tap_state \<Rightarrow> 'w tap_result" where
  "pt_idle c r s =
    (if \<not> IS_EVENT (event r) then (True, r, s)
     else if pressed (event r) \<and> is_tap c r (world s) then start_tap c r (s\<lparr>world := tap_hint c r (world s)\<rparr>)
     else pass_on c r s)"

text \<open>Pressed and not yet decided, inside of the term.\<close>

definition pt_undecided :: "'w tap_cfg \<Rightarrow> keyrecord \<Rightarrow> 'w tap_state \<Rightarrow> 'w tap_result" where
  "pt_undecided c r s =
    (let e = event r in
     if is_tapping_record c r s \<and> \<not> pressed e then
       (let s = run_tapping_key c (s\<lparr>tapping_key := (tapping_key s)\<lparr>tap_count := 1\<rparr>\<rparr>)
        in (False, copy_tap (tapping_key s) r, s))
     else if \<not> pressed e \<and> waiting_buffer_typed e s \<and> permissive_hold c (tapping_key s) (world s) then settle_hold c r s
     else if \<not> pressed e \<and> \<not> waiting_buffer_typed e s then
       (if retained r (action_at c (key e) (world s)) then (False, r, s) else pass_on c r s)
     else if pressed e then
       (let s = s\<lparr>tapping_key := (tapping_key s)\<lparr>interrupted := True\<rparr>\<rparr>
        in if hold_on_other c (tapping_key s) (world s) then settle_hold c r s else (False, r, s))
     else (False, r, s))"

text \<open>Pressed and already a tap; \<open>timeout\<close> tells whether the term has passed.\<close>

definition pt_tapped :: "'w tap_cfg \<Rightarrow> bool \<Rightarrow> keyrecord \<Rightarrow> 'w tap_state \<Rightarrow> 'w tap_result" where
  "pt_tapped c timeout r s =
    (let e = event r in
     if is_tapping_record c r s \<and> \<not> pressed e then
       (let (r, s) = run_key c (copy_tap (tapping_key s) r) s
        in (True, r, s\<lparr>tapping_key := (if timeout then empty_record else r)\<rparr>))
     else if is_tap c r (world s) \<and> pressed e then
       (let s = (if tap_count (tapping_key s) > 1 then snd (run_key c (made_up_release c e s) s) else s)
        in start_tap c r s)
     else pass_on c r s)"

definition pt_released :: "'w tap_cfg \<Rightarrow> keyrecord \<Rightarrow> 'w tap_state \<Rightarrow> 'w tap_result" where
  "pt_released c r s =
    (let e = event r in
     if \<not> within_tapping_term c e s then (False, r, s\<lparr>tapping_key := empty_record\<rparr>)
     else if IS_NOEVENT e then (True, r, s)
     else if \<not> pressed e then pass_on c r s
     else if is_tapping_record c r s then
       (if within_quick_tap_term c e s \<and> \<not> interrupted (tapping_key s) \<and> tap_count (tapping_key s) > 0 then
          (let (r, s) = run_key c (next_tap (tapping_key s) r) s in (True, r, s\<lparr>tapping_key := r\<rparr>))
        else (True, r, s\<lparr>tapping_key := r\<rparr>))
     else if is_tap c r (world s) then start_tap c r s
     else pass_on c r (s\<lparr>tapping_key := (tapping_key s)\<lparr>interrupted := True\<rparr>\<rparr>))"

definition process_tapping :: "'w tap_cfg \<Rightarrow> keyrecord \<Rightarrow> 'w tap_state \<Rightarrow> 'w tap_result" where
  "process_tapping c r s =
    (if IS_NOEVENT (event (tapping_key s)) then pt_idle c r s
     else if pressed (event (tapping_key s)) then
       if within_tapping_term c (event r) s then
         if IS_NOEVENT (event r) then (True, r, s)
         else if tap_count (tapping_key s) = 0 then pt_undecided c r s
         else pt_tapped c False r s
       else if tap_count (tapping_key s) = 0 then settle_hold c r s
       else if IS_NOEVENT (event r) then (True, r, s)
       else pt_tapped c True r s
     else pt_released c r s)"

text \<open>
  The loop over the buffer. It advances the tail by one per turn and nothing in it moves the head, so as
  many turns as entries wait are enough.
\<close>

fun process_waiting :: "nat \<Rightarrow> 'w tap_cfg \<Rightarrow> 'w tap_state \<Rightarrow> 'w tap_state" where
  "process_waiting 0 c s = s"
| "process_waiting (Suc n) c s =
    (if waiting_buffer_tail s = waiting_buffer_head s then s
     else
       (let i = waiting_buffer_tail s; (ok, r, s) = process_tapping c (waiting_buffer s ! i) s;
            s = s\<lparr>waiting_buffer := (waiting_buffer s)[i := r]\<rparr>
        in if ok then process_waiting n c (s\<lparr>waiting_buffer_tail := next_slot i\<rparr>) else s))"

definition enqueue_or_clear :: "'w tap_cfg \<Rightarrow> keyrecord \<Rightarrow> 'w tap_state \<Rightarrow> 'w tap_state" where
  "enqueue_or_clear c r s =
    (let (ok, s) = waiting_buffer_enq r s in
     if ok then s
     else (waiting_buffer_clear (s\<lparr>world := clear_all c (world s)\<rparr>))\<lparr>tapping_key := empty_record\<rparr>)"

definition action_tapping_process :: "'w tap_cfg \<Rightarrow> keyrecord \<Rightarrow> 'w tap_state \<Rightarrow> 'w tap_state" where
  "action_tapping_process c r s =
    (let (ok, r, s) = process_tapping c r s;
         s = (if ok then s else enqueue_or_clear c r s)
     in process_waiting (waiting_count s) c s)"

end
