(* ===== verification/KeymapProps.thy ===== *)
theory KeymapProps
  imports Keymap
begin

text \<open>
  Keycodes to actions and back: the bit fields of an action hold what the keycode was built from, for
  every family of composite keycodes, and the one family where they do not.
\<close>

section \<open>Bit fields\<close>

lemma field_bits [simp]: "bit (field s l a) n \<longleftrightarrow> n < l \<and> bit a (s + n)"
  by (simp add: field_def bit_take_bit_iff bit_drop_bit_eq)

lemma bit_ACTION: "bit (ACTION k p) n \<longleftrightarrow> 12 \<le> n \<and> bit (kind_code k) (n - 12) \<and> n < 16 \<or> bit p n"
  by (auto simp: ACTION_def bit_or_iff bit_push_bit_iff)

lemma take_bit_no_bit: "take_bit n w = w \<Longrightarrow> n \<le> m \<Longrightarrow> \<not> bit (w :: u16) m"
  by (metis bit_take_bit_iff leD)

lemma field_ACTION: "s + l \<le> 12 \<Longrightarrow> field s l (ACTION k p) = field s l p"
  by (rule bit_word_eqI) (auto simp: bit_ACTION)

lemma kind_code_lt: "take_bit 4 (kind_code k) = kind_code k"
  by (cases k) (simp_all add: kind_code_def)

lemma kind_ACTION:
  assumes "take_bit 12 p = p"
  shows "field 12 4 (ACTION k p) = kind_code k"
proof (rule bit_word_eqI)
  fix n
  show "bit (field 12 4 (ACTION k p)) n \<longleftrightarrow> bit (kind_code k) n"
    using take_bit_no_bit [OF assms, of "12 + n"] take_bit_no_bit [OF kind_code_lt, of n k]
    by (cases "n < 4") (auto simp: bit_ACTION)
qed

lemma kind_id_ACTION: "take_bit 12 p = p \<Longrightarrow> kind_id (ACTION k p) = k"
  by (cases k) (simp_all add: kind_id_def kind_ACTION, simp_all add: kind_code_def)

lemma field_low: "field 0 n (push_bit n a OR b) = take_bit n b"
  by (rule bit_word_eqI) (auto simp: bit_or_iff bit_push_bit_iff bit_take_bit_iff)

lemma field_high:
  assumes "take_bit n b = b" "n + m \<le> 16"
  shows "field n m (push_bit n a OR b) = take_bit m a"
proof (rule bit_word_eqI)
  fix k
  show "bit (field n m (push_bit n a OR b)) k \<longleftrightarrow> bit (take_bit m a) k"
    using take_bit_no_bit [OF assms(1), of "n + k"] assms(2)
    by (auto simp: bit_or_iff bit_push_bit_iff bit_take_bit_iff)
qed

lemma take_bit_param:
  "take_bit 8 b = b \<Longrightarrow> take_bit m a = a \<Longrightarrow> take_bit (8 + m) (push_bit 8 a OR b) = (push_bit 8 a OR b :: u16)"
proof (rule bit_word_eqI)
  fix n assume "take_bit 8 b = b" "take_bit m a = a"
  then show "bit (take_bit (8 + m) (push_bit 8 a OR b)) n \<longleftrightarrow> bit (push_bit 8 a OR b) n"
    using take_bit_no_bit [of 8 b n] take_bit_no_bit [of m a "n - 8"]
    by (cases "n < 8 + m") (auto simp: bit_or_iff bit_push_bit_iff bit_take_bit_iff)
qed

lemma and_masks: "(w :: u16) AND 0xF = take_bit 4 w" "w AND 0x1F = take_bit 5 w" "w AND 0xFF = take_bit 8 w"
  by (simp_all add: take_bit_eq_mask mask_eq_decr_exp)

section \<open>Rewriting keeps composite keycodes\<close>

lemma keycode_config_big:
  assumes "0xFF < kc"
  shows "keycode_config c kc = kc"
proof -
  have "kc \<noteq> k" if "k \<le> 0xFF" for k using assms that by auto
  then show ?thesis by (simp add: keycode_config_def)
qed

lemma take_bit_8_iff: "take_bit 8 (kc :: u16) = kc \<longleftrightarrow> kc \<le> 0xFF"
proof
  assume "take_bit 8 kc = kc"
  then have "kc = kc AND 0xFF" by (simp add: and_masks)
  then show "kc \<le> 0xFF" using word_and_le1 [of kc "0xFF"] by simp
next
  assume le: "kc \<le> 0xFF"
  have "n < 8" if "bit kc n" for n
  proof (rule ccontr)
    assume "\<not> n < 8"
    then have "(2 :: nat) ^ 8 \<le> 2 ^ n" by (intro power_increasing) simp_all
    then show False using bit_imp_le_unat [OF that] le by (simp add: word_le_nat_alt)
  qed
  then show "take_bit 8 kc = kc" by (intro bit_word_eqI) (auto simp: bit_take_bit_iff)
qed

lemma keycode_config_small: "kc \<le> 0xFF \<Longrightarrow> keycode_config c kc \<le> 0xFF"
  by (simp add: keycode_config_def)

section \<open>Composite keycodes\<close>

text \<open>The builds with layers and tapping, with the current handling of the magic keycodes.\<close>

definition full_build :: "translate_cfg \<Rightarrow> bool" where
  "full_build tc \<longleftrightarrow> \<not> LEGACY_MAGIC_HANDLING tc \<and> \<not> NO_ACTION_LAYER tc \<and> \<not> NO_ACTION_TAPPING tc \<and> \<not> tr_NO_ONESHOT tc"

lemma or_range: "x AND hi = x \<Longrightarrow> base \<le> base OR x \<and> base OR x \<le> (base OR hi :: u16)"
  by (metis bit.disj_conj_distrib word_and_le1 le_word_or2)

lemma LT_range: "IS_QK_LAYER_TAP (LT layer kc)"
proof -
  let ?x = "push_bit 8 (layer AND 0xF) OR (kc AND 0xFF)"
  have "take_bit (8 + 4) ?x = ?x" by (rule take_bit_param) (simp_all add: and_masks)
  then have "?x AND 0xFFF = ?x" by (simp add: take_bit_eq_mask mask_eq_decr_exp)
  from or_range [OF this, of "0x4000"] show ?thesis by (simp add: LT_def IS_QK_LAYER_TAP_def or.assoc)
qed

lemma MT_range: "IS_QK_MOD_TAP (MT md kc)"
proof -
  let ?x = "push_bit 8 (md AND 0x1F) OR (kc AND 0xFF)"
  have "take_bit (8 + 5) ?x = ?x" by (rule take_bit_param) (simp_all add: and_masks)
  then have "?x AND 0x1FFF = ?x" by (simp add: take_bit_eq_mask mask_eq_decr_exp)
  from or_range [OF this, of "0x2000"] show ?thesis by (simp add: MT_def IS_QK_MOD_TAP_def or.assoc)
qed

text \<open>What the parts of the keycodes are.\<close>

lemma composite_parts:
  assumes "8 + m \<le> p" "p < 16"
  shows "take_bit m (drop_bit 8 (bv p OR push_bit 8 (take_bit m a) OR take_bit 8 b)) = (take_bit m a :: u16)"
    "take_bit 8 (bv p OR push_bit 8 (take_bit m a) OR take_bit 8 b) = (take_bit 8 b :: u16)"
  using assms
  by (auto intro!: bit_word_eqI simp: bit_take_bit_iff bit_drop_bit_eq bit_or_iff bit_push_bit_iff
      dest: bit_imp_le_length simp del: take_bit_or drop_bit_or)

lemma LT_parts: "QK_LAYER_TAP_GET_LAYER (LT layer kc) = layer AND 0xF" "QK_LAYER_TAP_GET_TAP_KEYCODE (LT layer kc) = kc AND 0xFF"
  and MT_parts: "QK_MOD_TAP_GET_MODS (MT md kc) = md AND 0x1F" "QK_MOD_TAP_GET_TAP_KEYCODE (MT md kc) = kc AND 0xFF"
proof -
  have b: "(0x4000 :: u16) = bv 14" "(0x2000 :: u16) = bv 13" by (simp_all add: bv_def)
  note d = QK_LAYER_TAP_GET_LAYER_def QK_LAYER_TAP_GET_TAP_KEYCODE_def QK_MOD_TAP_GET_MODS_def
    QK_MOD_TAP_GET_TAP_KEYCODE_def LT_def MT_def and_masks b
  show "QK_LAYER_TAP_GET_LAYER (LT layer kc) = layer AND 0xF" unfolding d by (rule composite_parts; simp)
  show "QK_LAYER_TAP_GET_TAP_KEYCODE (LT layer kc) = kc AND 0xFF" unfolding d by (rule composite_parts; simp)
  show "QK_MOD_TAP_GET_MODS (MT md kc) = md AND 0x1F" unfolding d by (rule composite_parts; simp)
  show "QK_MOD_TAP_GET_TAP_KEYCODE (MT md kc) = kc AND 0xFF" unfolding d by (rule composite_parts; simp)
qed

text \<open>Which branch of the translation a keycode takes.\<close>

lemma range_exclusive:
  assumes "lo \<le> kc" "kc \<le> hi"
  shows "(b < lo \<or> hi < a) \<Longrightarrow> \<not> (a \<le> kc \<and> kc \<le> (b :: u16))" "0xFF < lo \<Longrightarrow> \<not> kc \<le> 0xFF" "1 < lo \<Longrightarrow> kc \<noteq> 1"
  using assms by auto

lemma action_LT:
  assumes "full_build tc"
  shows "action_for_keycode tc (LT layer kc) = ACTION_LAYER_TAP (layer AND 0xF) (keycode_config (swaps tc) (kc AND 0xFF))"
proof -
  have r: "IS_QK_LAYER_TAP (LT layer kc)" by (rule LT_range)
  note x = range_exclusive [OF r [unfolded IS_QK_LAYER_TAP_def, THEN conjunct1] r [unfolded IS_QK_LAYER_TAP_def, THEN conjunct2]]
  have n: "\<not> LT layer kc \<le> 0xFF" "LT layer kc \<noteq> 1" "\<not> IS_QK_MODS (LT layer kc)"
    unfolding IS_QK_MODS_def by (rule x; simp)+
  have "keycode_config (swaps tc) (LT layer kc) = LT layer kc" using n(1) by (intro keycode_config_big) simp
  then show ?thesis
    using assms r n by (simp add: action_for_keycode_def full_build_def inner_key_def LT_parts ACTION_LAYER_TAP_KEY_def)
qed

lemma action_MT:
  assumes "full_build tc"
  shows "action_for_keycode tc (MT md kc) =
    ACTION_MODS_TAP_KEY (mod_config16 (swaps tc) (md AND 0x1F)) (keycode_config (swaps tc) (kc AND 0xFF))"
proof -
  have r: "IS_QK_MOD_TAP (MT md kc)" by (rule MT_range)
  note x = range_exclusive [OF r [unfolded IS_QK_MOD_TAP_def, THEN conjunct1] r [unfolded IS_QK_MOD_TAP_def, THEN conjunct2]]
  have n: "\<not> MT md kc \<le> 0xFF" "MT md kc \<noteq> 1" "\<not> IS_QK_MODS (MT md kc)" "\<not> IS_QK_LAYER_TAP (MT md kc)"
    "\<not> IS_QK_TO (MT md kc)" "\<not> IS_QK_MOMENTARY (MT md kc)" "\<not> IS_QK_DEF_LAYER (MT md kc)"
    "\<not> IS_QK_TOGGLE_LAYER (MT md kc)" "\<not> IS_QK_ONE_SHOT_LAYER (MT md kc)" "\<not> IS_QK_ONE_SHOT_MOD (MT md kc)"
    "\<not> IS_QK_LAYER_TAP_TOGGLE (MT md kc)" "\<not> IS_QK_LAYER_MOD (MT md kc)"
    unfolding keycode_ranges by (rule x; simp)+
  have "keycode_config (swaps tc) (MT md kc) = MT md kc" using n(1) by (intro keycode_config_big) simp
  then show ?thesis
    using assms r n by (simp add: action_for_keycode_def full_build_def inner_key_def MT_parts)
qed

lemma LM_range: "IS_QK_LAYER_MOD (LM layer md)"
proof -
  let ?x = "push_bit 5 (take_bit 4 layer) OR take_bit 5 md"
  have "?x AND mask 9 = ?x"
    by (rule bit_word_eqI) (auto simp: bit_and_iff bit_mask_iff bit_or_iff bit_push_bit_iff bit_take_bit_iff)
  from or_range [OF this, of "0x5000"] show ?thesis
    by (simp add: LM_def IS_QK_LAYER_MOD_def and_masks mask_eq_decr_exp)
qed

lemma LM_parts: "QK_LAYER_MOD_GET_LAYER (LM layer md) = take_bit 4 layer" "QK_LAYER_MOD_GET_MODS (LM layer md) = take_bit 5 md"
proof -
  have "bit (0x5000 :: u16) n \<Longrightarrow> 12 \<le> n" for n
  proof -
    have "(0x5000 :: u16) = push_bit 12 5" by simp
    then show "bit (0x5000 :: u16) n \<Longrightarrow> 12 \<le> n" by (metis bit_push_bit_iff)
  qed
  then obtain base :: u16 where b: "0x5000 = base" and z: "\<And>n. bit base n \<Longrightarrow> 12 \<le> n" by blast
  have [simp]: "n < 4 \<Longrightarrow> \<not> bit base (5 + n)" "n < 5 \<Longrightarrow> \<not> bit base n" for n
    using z [of "5 + n"] z [of n] by auto
  show "QK_LAYER_MOD_GET_LAYER (LM layer md) = take_bit 4 layer"
    "QK_LAYER_MOD_GET_MODS (LM layer md) = take_bit 5 md"
    unfolding QK_LAYER_MOD_GET_LAYER_def QK_LAYER_MOD_GET_MODS_def LM_def and_masks b
    by (auto intro!: bit_word_eqI simp: bit_take_bit_iff bit_drop_bit_eq bit_or_iff bit_push_bit_iff
        simp del: take_bit_or drop_bit_or)
qed

lemma action_LM:
  assumes "full_build tc"
  shows "action_for_keycode tc (LM layer md) =
    (let m = mod_config16 (swaps tc) (take_bit 5 md) in
     ACTION_LAYER_MODS (take_bit 4 layer) (if m AND 0x10 \<noteq> 0 then push_bit 4 m else m))"
proof -
  have r: "IS_QK_LAYER_MOD (LM layer md)" by (rule LM_range)
  note x = range_exclusive [OF r [unfolded IS_QK_LAYER_MOD_def, THEN conjunct1] r [unfolded IS_QK_LAYER_MOD_def, THEN conjunct2]]
  have n: "\<not> LM layer md \<le> 0xFF" "LM layer md \<noteq> 1" "\<not> IS_QK_MODS (LM layer md)" "\<not> IS_QK_LAYER_TAP (LM layer md)"
    "\<not> IS_QK_TO (LM layer md)" "\<not> IS_QK_MOMENTARY (LM layer md)" "\<not> IS_QK_DEF_LAYER (LM layer md)"
    "\<not> IS_QK_TOGGLE_LAYER (LM layer md)" "\<not> IS_QK_ONE_SHOT_LAYER (LM layer md)" "\<not> IS_QK_ONE_SHOT_MOD (LM layer md)"
    "\<not> IS_QK_LAYER_TAP_TOGGLE (LM layer md)"
    unfolding keycode_ranges by (rule x; simp)+
  have "keycode_config (swaps tc) (LM layer md) = LM layer md" using n(1) by (intro keycode_config_big) simp
  then show ?thesis
    using assms r n by (simp add: action_for_keycode_def full_build_def inner_key_def LM_parts Let_def)
qed

section \<open>Properties\<close>

lemma MODS_TAP_split:
  "ACTION_MODS_TAP_KEY md key =
     ACTION (if bit md 4 then ACT_RMODS_TAP else ACT_LMODS_TAP) (push_bit 8 (take_bit 4 md) OR key)"
proof -
  have k: "bit (2 :: u16) n \<longleftrightarrow> n = 1" "bit (3 :: u16) n \<longleftrightarrow> n = 0 \<or> n = 1" for n
    using bit_bv_iff [of 1 n, where 'a = 16] bit_mask_iff [of 2 n, where 'a = "16 word"]
    by (auto simp: bv_def mask_eq_decr_exp)
  show ?thesis
    unfolding ACTION_MODS_TAP_KEY_def and_masks
  proof (rule bit_word_eqI, unfold bit_ACTION bit_or_iff)
    fix n assume "n < LENGTH(16)"
    then consider "n < 12" | "n = 12" | "n = 13" | "14 \<le> n" by linarith
    then show "12 \<le> n \<and> bit (kind_code ACT_LMODS_TAP) (n - 12) \<and> n < 16 \<or> bit (push_bit 8 (take_bit 5 md)) n \<or> bit key n \<longleftrightarrow>
      12 \<le> n \<and> bit (kind_code (if bit md 4 then ACT_RMODS_TAP else ACT_LMODS_TAP)) (n - 12) \<and> n < 16 \<or>
      bit (push_bit 8 (take_bit 4 md)) n \<or> bit key n"
      by cases (auto simp: kind_code_def k bit_push_bit_iff bit_take_bit_iff simp del: bit_numeral_word_iff)
  qed
qed

text \<open>
  The action of a layer-tap and of a mod-tap keycode holds, in its bit fields, the layer, the
  modifiers with their side, and the tapped key that the keycode was made of, with the swaps of the
  configuration applied to the modifiers and to the key.
\<close>

theorem composite_keycodes_decode:
  assumes "full_build tc"
  shows "(let a = action_for_keycode tc (LT layer kc) in
      kind_id a = ACT_LAYER_TAP \<and> layer_tap_val a = ucast (take_bit 4 layer) \<and>
      layer_tap_code a = ucast (keycode_config (swaps tc) (kc AND 0xFF))) \<and>
    (let a = action_for_keycode tc (MT md kc); m = mod_config16 (swaps tc) (md AND 0x1F) in
      kind_id a = (if bit m 4 then ACT_RMODS_TAP else ACT_LMODS_TAP) \<and> key_mods a = ucast (take_bit 4 m) \<and>
      key_code a = ucast (keycode_config (swaps tc) (kc AND 0xFF)))"
proof -
  let ?k = "keycode_config (swaps tc) (kc AND 0xFF)"
  have k: "take_bit 8 ?k = ?k" by (simp add: take_bit_8_iff keycode_config_small word_and_le1)
  have p: "take_bit 12 (push_bit 8 (take_bit 4 a) OR ?k) = push_bit 8 (take_bit 4 a) OR ?k" for a
    using take_bit_param [OF k, of 4 "take_bit 4 a"] by simp
  have f: "field 0 8 (push_bit 8 (take_bit 4 a) OR ?k) = ?k" "field 8 4 (push_bit 8 (take_bit 4 a) OR ?k) = take_bit 4 a" for a
    using k by (simp_all add: field_low field_high)
  have five: "field 8 5 (ACTION ACT_LAYER_TAP q) = field 8 4 q" if "take_bit 12 q = q" for q
  proof (rule bit_word_eqI)
    fix n
    have "\<not> bit (10 :: u16) 0" by simp
    then show "bit (field 8 5 (ACTION ACT_LAYER_TAP q)) n \<longleftrightarrow> bit (field 8 4 q) n"
      using take_bit_no_bit [OF that, of 12] by (cases "n = 4") (auto simp: bit_ACTION kind_code_def)
  qed
  show ?thesis
    unfolding action_LT [OF assms] action_MT [OF assms] MODS_TAP_split Let_def ACTION_LAYER_TAP_def and_masks
    using p f five [OF p] by (simp add: kind_id_ACTION layer_tap_val_def layer_tap_code_def key_mods_def key_code_def field_ACTION and_masks)
qed

definition demo_tc :: translate_cfg where
  "demo_tc = \<lparr>swaps = plain_config, LEGACY_MAGIC_HANDLING = False, NO_ACTION_LAYER = False, NO_ACTION_TAPPING = False,
     NO_ACTION_TAPPING_TAP_TOGGLE_MO = False, NO_ACTION_TAPPING_MODTAP_MODS = False, tr_EXTRAKEY = True,
     tr_NO_ONESHOT = False, tr_SWAP_HANDS = False\<rparr>"

lemma full_build_demo [simp]: "full_build demo_tc"
  by (simp add: full_build_def demo_tc_def)

lemma composite_keycodes_decode_witness:
  "layer_tap_val (action_for_keycode demo_tc (LT 3 4)) = 3 \<and> kind_id (action_for_keycode demo_tc (LT 3 4)) = ACT_LAYER_TAP"
  using composite_keycodes_decode [OF full_build_demo, of 3 4] by (simp add: Let_def)

text \<open>
  The action of a layer-mod keycode holds the layer and the modifiers for left-hand
  modifiers; for right-hand ones the fifth modifier bit is shifted into the layer field, which becomes
  the odd layer.
\<close>

theorem layer_mod_layer_field:
  assumes "full_build tc" and "m = mod_config16 (swaps tc) (take_bit 5 md)" and "take_bit 5 m = m"
  shows "layer_mods_layer (action_for_keycode tc (LM layer md)) =
    (if bit m 4 then ucast (take_bit 4 layer OR 1) else ucast (take_bit 4 layer))"
proof -
  have b: "m AND 0x10 \<noteq> 0 \<longleftrightarrow> bit m 4" using and_bv_nonzero [of m 4] by (simp add: bv_def)
  have "field 8 4 (push_bit 8 (take_bit 4 layer) OR (if bit m 4 then push_bit 4 m else m)) =
    (if bit m 4 then take_bit 4 layer OR 1 else take_bit 4 layer)"
  proof (rule bit_word_eqI)
    fix n
    have "\<not> bit m (8 + n)" "bit m (4 + n) \<Longrightarrow> n = 0"
      using take_bit_no_bit [OF assms(3), of "8 + n"] take_bit_no_bit [OF assms(3), of "4 + n"] by (cases n; simp)+
    then show "bit (field 8 4 (push_bit 8 (take_bit 4 layer) OR (if bit m 4 then push_bit 4 m else m))) n \<longleftrightarrow>
      bit (if bit m 4 then take_bit 4 layer OR 1 else take_bit 4 layer) n"
      by (cases "bit m 4"; cases "n = 0") (auto simp: bit_or_iff bit_push_bit_iff bit_take_bit_iff bit_1_iff)
  qed
  then show ?thesis
    unfolding action_LM [OF assms(1)] assms(2) [symmetric] Let_def b
    by (simp add: layer_mods_layer_def ACTION_LAYER_MODS_def field_ACTION)
qed

lemma layer_mod_layer_field_witness: "layer_mods_layer (action_for_keycode demo_tc (LM 2 0x12)) = 3"
proof -
  have "mod_config16 (swaps demo_tc) (take_bit 5 0x12) = 0x12" by code_simp
  moreover have "bit (0x12 :: u16) 4" by simp
  ultimately show ?thesis
    using layer_mod_layer_field [OF full_build_demo, of "0x12" "0x12" 2] by simp
qed

end
