(* ===== verification/ActionProps.thy ===== *)
theory ActionProps
  imports Action
begin

text \<open>
  What the host sees: every report that is sent equals the firmware's report, registering a key
  makes the host see it, unregistering it makes the host see its release; one-shot modifiers are
  applied to exactly one key.
\<close>

section \<open>The host's view\<close>

fun host_view :: "(u8 \<times> u8 list) \<times> (u8 \<times> u8 list) \<Rightarrow> host_msg list \<Rightarrow> (u8 \<times> u8 list) \<times> (u8 \<times> u8 list)" where
  "host_view v [] = v"
| "host_view v (KeyboardReport ch m ks # ms) = host_view ((m, ks), snd v) ms"
| "host_view v (NkroReport m bs # ms) = host_view (fst v, (m, bs)) ms"
| "host_view v (_ # ms) = host_view v ms"

definition host_sees :: "'l action_state \<Rightarrow> (u8 \<times> u8 list) \<times> (u8 \<times> u8 list)" where
  "host_sees s = host_view ((0, replicate 6 0), (0, replicate 30 0)) (out s)"

lemma host_view_append [simp]: "host_view v (ms @ ms') = host_view (host_view v ms) ms'"
  by (induction v ms rule: host_view.induct) simp_all

definition host_synced :: "'l action_state \<Rightarrow> bool" where
  "host_synced s \<longleftrightarrow> host_sees s = (last_6kro s, last_nkro s)"

definition host_has_key :: "'l action_cfg \<Rightarrow> u8 \<Rightarrow> 'l action_state \<Rightarrow> bool" where
  "host_has_key cfg k s =
     is_key_pressed cfg k (s\<lparr>report_keys := snd (fst (host_sees s)), nkro_bits := snd (snd (host_sees s))\<rparr>)"

section \<open>Sending\<close>

lemma clear_oneshot_frame:
  "\<exists>om ot ms. clear_oneshot_mods cfg s = s\<lparr>oneshot_mods := om, oneshot_time := ot, out := out s @ ms\<rparr> \<and>
     (\<forall>v. host_view v ms = v)"
proof (cases "oneshot_mods s = 0")
  case True
  show ?thesis
    by (rule exI [of _ "oneshot_mods s"], rule exI [of _ "oneshot_time s"], rule exI [of _ "[]"])
      (simp add: clear_oneshot_mods_def True)
next
  case False
  show ?thesis
    by (rule exI [of _ 0], rule exI [of _ "if ONESHOT_TIMEOUT cfg > 0 then 0 else oneshot_time s"],
        rule exI [of _ "[OneshotModsChanged 0]"])
      (simp add: clear_oneshot_mods_def stamp_oneshot_def emit_def False)
qed

lemma get_mods_frame:
  assumes "get_mods_for_report cfg s = (m, s')"
  shows "\<exists>om ot ms. s' = s\<lparr>oneshot_mods := om, oneshot_time := ot, out := out s @ ms\<rparr> \<and> (\<forall>v. host_view v ms = v)"
proof -
  let ?P = "\<lambda>s s'. \<exists>om ot ms. s' = s\<lparr>oneshot_mods := om, oneshot_time := ot, out := out s @ ms\<rparr> \<and> (\<forall>v. host_view v ms = v)"
  have refl: "?P s s" for s :: "'a action_state"
    by (rule exI [of _ "oneshot_mods s"], rule exI [of _ "oneshot_time s"], rule exI [of _ "[]"], simp)
  have trans: "?P a c" if ab: "?P a b" and bc: "?P b c" for a b c :: "'a action_state"
  proof -
    obtain om ot ms om' ot' ms' where
      "b = a\<lparr>oneshot_mods := om, oneshot_time := ot, out := out a @ ms\<rparr>" "\<forall>v. host_view v ms = v"
      "c = b\<lparr>oneshot_mods := om', oneshot_time := ot', out := out b @ ms'\<rparr>" "\<forall>v. host_view v ms' = v"
      using ab bc by blast
    then show ?thesis
      by - (rule exI [of _ om'], rule exI [of _ ot'], rule exI [of _ "ms @ ms'"], simp)
  qed
  have step: "?P s (if b then clear_oneshot_mods cfg s else s)" for b and s :: "'a action_state"
    using clear_oneshot_frame [of cfg s] refl [of s] by simp
  have "snd (get_mods_for_report cfg s) = s \<or>
    (\<exists>b b'. snd (get_mods_for_report cfg s) =
      (let s1 = (if b then clear_oneshot_mods cfg s else s) in if b' then clear_oneshot_mods cfg s1 else s1))"
    by (auto simp: get_mods_for_report_def Let_def)
  then show ?thesis
    using assms refl [of s] trans [OF step step] by (auto simp: Let_def)
qed

text \<open>A report that is sent changes only these fields.\<close>

lemma send_report_frame:
  fixes s :: "'l action_state"
  assumes "driver cfg" and "\<not> PROTOCOL_VUSB cfg" and sync: "host_synced s"
  shows "\<exists>rm nm om ot l6 ln ms. send_keyboard_report cfg s = s\<lparr>report_mods := rm, nkro_report_mods := nm,
      oneshot_mods := om, oneshot_time := ot, last_6kro := l6, last_nkro := ln, out := out s @ ms\<rparr> \<and>
      host_sees (send_keyboard_report cfg s) = (l6, ln) \<and>
      (if use_nkro cfg s then ln = (nm, nkro_bits s) \<and> l6 = last_6kro s
       else l6 = (rm, report_keys s) \<and> ln = last_nkro s)"
proof -
  obtain m s1 where g: "get_mods_for_report cfg s = (m, s1)" by (metis prod.exhaust)
  obtain om ot ms where f: "s1 = s\<lparr>oneshot_mods := om, oneshot_time := ot, out := out s @ ms\<rparr>"
    "\<forall>v. host_view v ms = v" using get_mods_frame [OF g] by blast
  have quiet: "host_view (last_6kro s, last_nkro s) ms = (last_6kro s, last_nkro s)" using f(2) by blast
  have hs: "host_view ((0, replicate 6 0), (0, replicate 30 0)) (out s) = (last_6kro s, last_nkro s)"
    using sync by (simp add: host_synced_def host_sees_def)
  show ?thesis
  proof (cases "use_nkro cfg s")
    case True
    show ?thesis
    proof (cases "(m, nkro_bits s) = last_nkro s")
      case same: True
      then have e: "send_keyboard_report cfg s = s1\<lparr>nkro_report_mods := m\<rparr>"
        using True g f by (simp add: send_keyboard_report_def send_nkro_report_def Let_def)
      show ?thesis unfolding e
        by (rule exI [of _ "report_mods s"], rule exI [of _ m], rule exI [of _ om], rule exI [of _ ot], rule exI [of _ "last_6kro s"], rule exI [of _ "last_nkro s"], rule exI [of _ ms],
          insert f(1) quiet hs True same, simp add: host_sees_def)
    next
      case False
      then have e: "send_keyboard_report cfg s =
          s1\<lparr>nkro_report_mods := m, last_nkro := (m, nkro_bits s), out := out s1 @ [NkroReport m (nkro_bits s)]\<rparr>"
        using True g f assms by (simp add: send_keyboard_report_def send_nkro_report_def Let_def host_nkro_send_def emit_def)
      show ?thesis unfolding e
        by (rule exI [of _ "report_mods s"], rule exI [of _ m], rule exI [of _ om], rule exI [of _ ot], rule exI [of _ "last_6kro s"], rule exI [of _ "(m, nkro_bits s)"], rule exI [of _ "ms @ [NkroReport m (nkro_bits s)]"],
          insert f(1) quiet hs True, simp add: host_sees_def)
    qed
  next
    case six: False
    show ?thesis
    proof (cases "(m, report_keys s) = last_6kro s")
      case same: True
      then have e: "send_keyboard_report cfg s = s1\<lparr>report_mods := m\<rparr>"
        using six g f assms by (simp add: send_keyboard_report_def send_6kro_report_def Let_def)
      show ?thesis unfolding e
        by (rule exI [of _ m], rule exI [of _ "nkro_report_mods s"], rule exI [of _ om], rule exI [of _ ot], rule exI [of _ "last_6kro s"], rule exI [of _ "last_nkro s"], rule exI [of _ ms],
          insert f(1) quiet hs six same, simp add: host_sees_def)
    next
      case False
      define ch where "ch = (if to_bluetooth cfg then Bluetooth else Usb)"
      have e: "send_keyboard_report cfg s =
          s1\<lparr>report_mods := m, last_6kro := (m, report_keys s), out := out s1 @ [KeyboardReport ch m (report_keys s)]\<rparr>"
        using False six g f assms
        by (simp add: send_keyboard_report_def send_6kro_report_def Let_def host_keyboard_send_def emit_def ch_def)
      show ?thesis unfolding e
        by (rule exI [of _ m], rule exI [of _ "nkro_report_mods s"], rule exI [of _ om], rule exI [of _ ot], rule exI [of _ "(m, report_keys s)"], rule exI [of _ "last_nkro s"], rule exI [of _ "ms @ [KeyboardReport ch m (report_keys s)]"],
          insert f(1) quiet hs six, simp add: host_sees_def)
    qed
  qed
qed

section \<open>Keys reach the host\<close>

definition kbd_ok :: "'l action_cfg \<Rightarrow> 'l action_state \<Rightarrow> bool" where
  "kbd_ok cfg s \<longleftrightarrow> driver cfg \<and> \<not> PROTOCOL_VUSB cfg \<and> report_good cfg s \<and> host_synced s"

lemma use_nkro_update [frame_simps]:
  "use_nkro cfg (s\<lparr>report_mods := rm, nkro_report_mods := nm, oneshot_mods := om, oneshot_time := ot,
     last_6kro := l6, last_nkro := ln, out := ms\<rparr> :: 'l action_state) = use_nkro cfg s"
  "use_nkro cfg (s\<lparr>report_keys := ks, nkro_bits := bs\<rparr> :: 'l action_state) = use_nkro cfg s"
  by (simp_all add: use_nkro_def)

lemma report_fields:
  assumes "report_keys s' = report_keys s" "nkro_bits s' = nkro_bits s" "cb_head s' = cb_head s"
    "cb_tail s' = cb_tail s" "cb_count s' = cb_count s"
  shows "ring_keys s' = ring_keys s" "report_good cfg s' = report_good cfg s"
proof -
  have w: "ring_window s' = ring_window s" using assms by (simp add: ring_window_def)
  show k: "ring_keys s' = ring_keys s" using assms w by (simp add: ring_keys_def)
  show "report_good cfg s' = report_good cfg s"
    unfolding report_good_def ring_ok_def k w assms ..
qed

lemma send_ok:
  assumes "kbd_ok cfg s"
  shows "kbd_ok cfg (send_keyboard_report cfg s)"
    and "is_key_pressed cfg k (send_keyboard_report cfg s) = is_key_pressed cfg k s"
    and "host_has_key cfg k (send_keyboard_report cfg s) = is_key_pressed cfg k s"
    and "report_room cfg (send_keyboard_report cfg s) k = report_room cfg s k"
proof -
  have a: "driver cfg" "\<not> PROTOCOL_VUSB cfg" "report_good cfg s" "host_synced s"
    using assms by (simp_all add: kbd_ok_def)
  obtain rm nm om ot l6 ln ms where f: "send_keyboard_report cfg s = s\<lparr>report_mods := rm, nkro_report_mods := nm,
      oneshot_mods := om, oneshot_time := ot, last_6kro := l6, last_nkro := ln, out := out s @ ms\<rparr>"
    and v: "host_sees (send_keyboard_report cfg s) = (l6, ln)"
    and c: "if use_nkro cfg s then ln = (nm, nkro_bits s) \<and> l6 = last_6kro s
       else l6 = (rm, report_keys s) \<and> ln = last_nkro s"
    using send_report_frame [OF a(1,2,4)] by blast
  have u: "use_nkro cfg (send_keyboard_report cfg s) = use_nkro cfg s"
    unfolding f by (simp add: use_nkro_def)
  have keep: "report_keys (send_keyboard_report cfg s) = report_keys s" "nkro_bits (send_keyboard_report cfg s) = nkro_bits s"
    "last_6kro (send_keyboard_report cfg s) = l6" "last_nkro (send_keyboard_report cfg s) = ln"
    "cb_head (send_keyboard_report cfg s) = cb_head s" "cb_tail (send_keyboard_report cfg s) = cb_tail s"
    "cb_count (send_keyboard_report cfg s) = cb_count s"
    unfolding f by simp_all
  note rk = report_fields [OF keep(1,2,5-7)]
  have "report_good cfg (send_keyboard_report cfg s)" unfolding rk(2) by (rule a(3))
  then show "kbd_ok cfg (send_keyboard_report cfg s)"
    using a v by (simp add: kbd_ok_def host_synced_def keep)
  show "is_key_pressed cfg k (send_keyboard_report cfg s) = is_key_pressed cfg k s"
    by (simp add: is_key_pressed_def u keep)
  show "host_has_key cfg k (send_keyboard_report cfg s) = is_key_pressed cfg k s"
    using c by (simp add: host_has_key_def is_key_pressed_def v u frame_simps split: if_splits)
  show "report_room cfg (send_keyboard_report cfg s) k = report_room cfg s k"
    by (simp add: report_room_def u rk(1) keep)
qed

lemma key_ops_frame [frame_simps]:
  fixes s :: "'l action_state"
  shows "out (add_key_to_report cfg c s) = out s" "last_6kro (add_key_to_report cfg c s) = last_6kro s"
    "last_nkro (add_key_to_report cfg c s) = last_nkro s"
    "out (del_key_from_report cfg c s) = out s" "last_6kro (del_key_from_report cfg c s) = last_6kro s"
    "last_nkro (del_key_from_report cfg c s) = last_nkro s"
  by (auto simp: add_key_to_report_def del_key_from_report_def add_key_bit_def del_key_bit_def
      add_key_byte_def del_key_byte_def add_key_byte_plain_def del_key_byte_plain_def add_key_byte_ring_def
      del_key_byte_ring_def ring_append_def Let_def split: sum.splits option.splits prod.splits)

lemma key_ops_ok:
  assumes "kbd_ok cfg s" "c \<noteq> 0"
  shows "kbd_ok cfg (add_key cfg c s)" "kbd_ok cfg (del_key cfg c s)"
    "is_key_pressed cfg k (del_key cfg c s) \<longleftrightarrow> is_key_pressed cfg k s \<and> k \<noteq> c"
proof -
  have g: "report_good cfg s" using assms by (simp add: kbd_ok_def)
  show "kbd_ok cfg (add_key cfg c s)" "kbd_ok cfg (del_key cfg c s)"
    using assms report.good_add [OF g assms(2)] report.good_del [OF g assms(2)]
    by (simp_all add: kbd_ok_def add_key_def del_key_def host_synced_def host_sees_def frame_simps)
  show "is_key_pressed cfg k (del_key cfg c s) \<longleftrightarrow> is_key_pressed cfg k s \<and> k \<noteq> c"
    using report.pressed_del [OF g assms(2), of k] by (simp add: del_key_def)
qed

lemma room_after_del:
  assumes g: "report_good cfg s" and c: "c \<noteq> 0" and p: "is_key_pressed cfg c s"
  shows "report_room cfg (del_key_from_report cfg c s) c"
proof (cases "use_nkro cfg s")
  case True
  then show ?thesis
    using p by (simp add: report_room_def frame_simps key_pressed_cases nkro_pressed_def)
next
  case False
  show ?thesis
  proof (cases "RING_BUFFERED cfg")
    case ring: True
    have ok: "ring_ok s" using g ring by (simp add: report_good_def)
    have "c \<in> set (ring_keys s)"
      using p False ring_pressed [OF ok, of c] by (simp add: key_pressed_cases)
    then have "length (filter (\<lambda>k. k \<noteq> c) (ring_keys s)) < length (ring_keys s)"
      by (simp add: length_filter_less)
    moreover have "length (ring_keys s) \<le> 6" using ok ring_keys_len by (auto simp: ring_ok_def)
    ultimately show ?thesis
      using False ring ring_del [OF ok c]
      by (simp add: report_room_def frame_simps) (simp add: del_key_from_report_def del_key_byte_def)
  next
    case plain: False
    then show ?thesis
      using False p
      by (auto simp: report_room_def frame_simps key_pressed_cases byte_pressed_def)
        (auto simp: del_key_from_report_def del_key_byte_def del_key_byte_plain_def)
  qed
qed

text \<open>
  C10: with a host driver other than V-USB whose last report is the one of the firmware, for a basic keycode that is no locking
  key and no command, and that is in the report already or finds room there: registering it makes the host see it, and
  unregistering it makes the host see its release, while every other key is seen as it was in the firmware's report; both keep
  host and firmware in step. (A seventh key of the six-key report is not sent.)
\<close>

theorem register_code_reaches_host:
  assumes "kbd_ok cfg s" and "IS_BASIC_KEYCODE c" and "locking_key cfg c = None" and "\<not> command_proc cfg c"
    and "is_key_pressed cfg c s \<or> report_room cfg s c"
  shows "kbd_ok cfg (register_code cfg c s) \<and>
    (host_has_key cfg k (register_code cfg c s) \<longleftrightarrow> k = c \<or> is_key_pressed cfg k s) \<and>
    kbd_ok cfg (unregister_code cfg c (register_code cfg c s)) \<and>
    (host_has_key cfg k (unregister_code cfg c (register_code cfg c s)) \<longleftrightarrow> k \<noteq> c \<and> is_key_pressed cfg k s)"
proof -
  have c0: "c \<noteq> 0" using assms(2) by (auto simp: IS_BASIC_KEYCODE_def)
  let ?s1 = "emit (CommandCall c) s"
  have f: "report_keys ?s1 = report_keys s" "nkro_bits ?s1 = nkro_bits s" "cb_head ?s1 = cb_head s"
    "cb_tail ?s1 = cb_tail s" "cb_count ?s1 = cb_count s" "use_nkro cfg ?s1 = use_nkro cfg s"
    by (simp_all add: emit_def use_nkro_def)
  have e: "is_key_pressed cfg k ?s1 = is_key_pressed cfg k s" "report_room cfg ?s1 k = report_room cfg s k" for k
    using f report_fields(1) [OF f(1-5)] by (simp_all add: is_key_pressed_def report_room_def)
  have k1: "kbd_ok cfg ?s1"
    using assms(1) report_fields(2) [OF f(1-5), of cfg]
    by (simp add: kbd_ok_def) (simp add: emit_def host_synced_def host_sees_def)
  define s2 where "s2 = (if is_key_pressed cfg c ?s1 then send_keyboard_report cfg (del_key cfg c ?s1) else ?s1)"
  have s2: "kbd_ok cfg s2" "report_room cfg s2 c"
    "is_key_pressed cfg k s2 \<longleftrightarrow> is_key_pressed cfg k s \<and> (k \<noteq> c \<or> \<not> is_key_pressed cfg c s)" for k
    using key_ops_ok [OF k1 c0] send_ok [OF key_ops_ok(2) [OF k1 c0]] k1 e assms(5) room_after_del [of cfg ?s1 c] c0
    by (auto simp: s2_def kbd_ok_def del_key_def)
  have r: "register_code cfg c s = send_keyboard_report cfg (add_key cfg c s2)"
    using assms(2-4) c0 by (simp add: register_code_def s2_def Let_def)
  have g2: "report_good cfg s2" using s2(1) by (simp add: kbd_ok_def)
  have p3: "is_key_pressed cfg k (add_key cfg c s2) \<longleftrightarrow> k = c \<or> is_key_pressed cfg k s" for k
    using report.pressed_add [OF g2 c0, of k] report.pressed_room [OF g2 c0 s2(2), of k] s2(3) [of k]
    by (auto simp: add_key_def)
  have k3: "kbd_ok cfg (add_key cfg c s2)" by (rule key_ops_ok(1) [OF s2(1) c0])
  have k4: "kbd_ok cfg (register_code cfg c s)" unfolding r by (rule send_ok(1) [OF k3])
  have u: "unregister_code cfg c (register_code cfg c s) = send_keyboard_report cfg (del_key cfg c (register_code cfg c s))"
    using assms(2-4) c0 by (simp add: unregister_code_def)
  have k5: "kbd_ok cfg (del_key cfg c (register_code cfg c s))" by (rule key_ops_ok(2) [OF k4 c0])
  have "host_has_key cfg k (register_code cfg c s) \<longleftrightarrow> k = c \<or> is_key_pressed cfg k s" for k
    unfolding r by (simp add: send_ok(3) [OF k3] p3)
  moreover have "host_has_key cfg k (unregister_code cfg c (register_code cfg c s)) \<longleftrightarrow> k \<noteq> c \<and> is_key_pressed cfg k s" for k
    unfolding u send_ok(3) [OF k5] key_ops_ok(3) [OF k4 c0]
    by (auto simp: r send_ok(2) [OF k3] p3)
  ultimately show ?thesis using k4 send_ok(1) [OF k5] unfolding u by blast
qed

text \<open>A keyboard after power-up on a plain USB build, used for the instances below.\<close>

definition action_init :: "('l::len word) action_state" where
  "action_init = \<lparr>report_mods = 0, report_keys = replicate 6 0, nkro_report_mods = 0, nkro_bits = replicate 30 0,
     keyboard_protocol = 1, config_nkro = False, cb_head = 0, cb_tail = 0, cb_count = 0,
     now = 0, real_mods = 0, weak_mods = 0, weak_override_mods = 0, suppressed_mods = 0, oneshot_mods = 0,
     oneshot_locked_mods = 0, oneshot_time = 0, oneshot_layer_data = 0, oneshot_layer_time = 0,
     oneshot_enabled = True, swap_hands = False, swap_hands_oneshot = SHO_OFF, oneshot_swaphands_time = 0,
     last_6kro = (0, replicate 6 0), last_nkro = (0, replicate 30 0), last_system_usage = 0,
     last_consumer_usage = 0, layer_state = 0, default_layer_state = 1, out = []\<rparr>"

definition usb_cfg :: "'l action_cfg" where
  "usb_cfg = \<lparr>NKRO_ENABLE = False, RING_BUFFERED = False, driver = True, to_bluetooth = False, PROTOCOL_VUSB = False,
     NO_ACTION_ONESHOT = False, ONESHOT_TIMEOUT = 500, SWAP_HANDS_ENABLE = True, KEY_OVERRIDE_ENABLE = False,
     EXTRAKEY_ENABLE = True, MOUSEKEY_ENABLE = False, PROGRAMMABLE_BUTTON_ENABLE = False, LOCKING_SUPPORT = False,
     LOCKING_RESYNC = False, leds = (False, False, False), TAP_CODE_DELAY = 0, TAP_HOLD_CAPS_DELAY = 80,
     command_proc = (\<lambda>_. False), STRICT_LAYER_RELEASE = False, SEMI_STRICT_LAYER_RELEASE = False,
     layer_state_set_kb = (\<lambda>l. l), default_layer_state_set_kb = (\<lambda>l. l)\<rparr>"

lemma action_init_ok: "kbd_ok usb_cfg action_init"
  by (simp add: kbd_ok_def usb_cfg_def action_init_def report_good_def host_synced_def host_sees_def)

lemma register_code_reaches_host_witness:
  "host_has_key usb_cfg 4 (register_code usb_cfg 4 (action_init :: (16 word) action_state)) \<and>
   \<not> host_has_key usb_cfg 4 (unregister_code usb_cfg 4 (register_code usb_cfg 4 (action_init :: (16 word) action_state)))"
  using register_code_reaches_host [where s = "action_init :: (16 word) action_state" and c = 4 and k = 4, OF action_init_ok]
  by (simp add: IS_BASIC_KEYCODE_def locking_key_def usb_cfg_def report_room_def action_init_def use_nkro_def)

section \<open>One-shot modifiers\<close>

definition current_mods :: "'l action_cfg \<Rightarrow> 'l action_state \<Rightarrow> u8" where
  "current_mods cfg s = (if use_nkro cfg s then nkro_report_mods s else report_mods s)"

lemma get_mods_keeps:
  assumes "get_mods_for_report cfg s = (m, s')"
  shows "report_keys s' = report_keys s" "nkro_bits s' = nkro_bits s" "use_nkro cfg s' = use_nkro cfg s"
    "real_mods s' = real_mods s" "weak_mods s' = weak_mods s"
  using get_mods_frame [OF assms] by (auto simp: use_nkro_def)

lemma send_mods:
  fixes cfg :: "'l action_cfg"
  assumes g: "get_mods_for_report cfg s = (m, s1)"
  shows "current_mods cfg (send_keyboard_report cfg s) = m"
    and "oneshot_mods (send_keyboard_report cfg s) = oneshot_mods s1"
    and "real_mods (send_keyboard_report cfg s) = real_mods s" and "weak_mods (send_keyboard_report cfg s) = weak_mods s"
    and "has_anykey cfg (send_keyboard_report cfg s) = has_anykey cfg s"
  using get_mods_keeps [OF g] g
  by (auto simp: send_keyboard_report_def send_nkro_report_def send_6kro_report_def host_keyboard_send_def
      host_nkro_send_def emit_def current_mods_def use_nkro_def has_anykey_def Let_def)

lemma get_mods_oneshot:
  assumes "\<not> NO_ACTION_ONESHOT cfg" and "\<not> KEY_OVERRIDE_ENABLE cfg"
  shows "fst (get_mods_for_report cfg s) = (real_mods s OR weak_mods s) OR
      (if has_oneshot_mods_timed_out cfg s then 0 else oneshot_mods s)"
    and "oneshot_mods (snd (get_mods_for_report cfg s)) =
      (if has_oneshot_mods_timed_out cfg s \<or> has_anykey cfg s \<noteq> 0 then 0 else oneshot_mods s)"
proof -
  have c: "oneshot_mods (clear_oneshot_mods cfg x) = 0" "has_anykey cfg (clear_oneshot_mods cfg x) = has_anykey cfg x"
    for x :: "'a action_state"
    by (simp_all add: clear_oneshot_mods_def emit_def stamp_oneshot_def has_anykey_def use_nkro_def)
  show "fst (get_mods_for_report cfg s) = (real_mods s OR weak_mods s) OR
      (if has_oneshot_mods_timed_out cfg s then 0 else oneshot_mods s)"
    using assms c by (auto simp: get_mods_for_report_def Let_def or.assoc)
  show "oneshot_mods (snd (get_mods_for_report cfg s)) =
      (if has_oneshot_mods_timed_out cfg s \<or> has_anykey cfg s \<noteq> 0 then 0 else oneshot_mods s)"
    using assms c by (auto simp: get_mods_for_report_def Let_def)
qed

text \<open>
  C33: in a build with one-shot keys and without key overrides, one-shot modifiers are part of every report until one with a
  key in it has been sent, that one included, and of no later one; after the timeout they are dropped instead.
\<close>

theorem oneshot_mods_apply_once:
  fixes cfg :: "'l action_cfg" and s :: "'l action_state"
  assumes "\<not> NO_ACTION_ONESHOT cfg" and "\<not> KEY_OVERRIDE_ENABLE cfg"
  defines "s1 \<equiv> send_keyboard_report cfg s" and "plain \<equiv> real_mods s OR weak_mods s"
  shows "if has_oneshot_mods_timed_out cfg s then current_mods cfg s1 = plain \<and> oneshot_mods s1 = 0
    else current_mods cfg s1 = plain OR oneshot_mods s \<and>
      (if has_anykey cfg s = 0 then oneshot_mods s1 = oneshot_mods s
       else oneshot_mods s1 = 0 \<and> current_mods cfg (send_keyboard_report cfg s1) = plain)"
proof -
  obtain m s' where g: "get_mods_for_report cfg s = (m, s')" by (metis prod.exhaust)
  obtain m2 s2 where g2: "get_mods_for_report cfg s1 = (m2, s2)" by (metis prod.exhaust)
  have m: "m = plain OR (if has_oneshot_mods_timed_out cfg s then 0 else oneshot_mods s)"
    "oneshot_mods s' = (if has_oneshot_mods_timed_out cfg s \<or> has_anykey cfg s \<noteq> 0 then 0 else oneshot_mods s)"
    using get_mods_oneshot [OF assms(1,2), of s] g by (simp_all add: plain_def)
  have s1: "current_mods cfg s1 = m" "oneshot_mods s1 = oneshot_mods s'"
    "real_mods s1 OR weak_mods s1 = plain"
    using send_mods [OF g] by (simp_all add: s1_def plain_def)
  have "current_mods cfg (send_keyboard_report cfg s1) = m2" by (rule send_mods(1) [OF g2])
  moreover have "m2 = plain OR (if has_oneshot_mods_timed_out cfg s1 then 0 else oneshot_mods s1)"
    using get_mods_oneshot(1) [OF assms(1,2), of s1] g2 s1(3) by simp
  ultimately show ?thesis using s1 m by simp
qed

lemma oneshot_mods_apply_once_witness:
  "current_mods usb_cfg (send_keyboard_report usb_cfg (action_init\<lparr>oneshot_mods := 2, report_keys := [4, 0, 0, 0, 0, 0]\<rparr> :: (16 word) action_state)) = 2 \<and>
   oneshot_mods (send_keyboard_report usb_cfg (action_init\<lparr>oneshot_mods := 2, report_keys := [4, 0, 0, 0, 0, 0]\<rparr> :: (16 word) action_state)) = 0"
  using oneshot_mods_apply_once [where cfg = usb_cfg and s = "action_init\<lparr>oneshot_mods := 2, report_keys := [4, 0, 0, 0, 0, 0]\<rparr> :: (16 word) action_state"]
  by (simp add: usb_cfg_def action_init_def has_oneshot_mods_timed_out_def has_anykey_def use_nkro_def)

end
