(* ===== verification/ActionLayerProps.thy ===== *)
theory ActionLayerProps
  imports ActionLayer ActionProps
begin

text \<open>
  Layers: what the operations do to the layer state, the life of a one-shot layer, which layer a key
  is looked up in, and that the action of a release is the action of its press.
\<close>

section \<open>Frames\<close>

text \<open>The fields that sending and clearing reports never write.\<close>

definition layer_view :: "'l action_state \<Rightarrow> 'l \<times> 'l \<times> u8 \<times> bool \<times> u16" where
  "layer_view s = (layer_state s, default_layer_state s, oneshot_layer_data s, oneshot_enabled s, now s)"

lemma send_view [frame_simps]: "layer_view (send_keyboard_report cfg s) = layer_view s"
proof -
  obtain m s1 where g: "get_mods_for_report cfg s = (m, s1)" by (metis prod.exhaust)
  have "layer_view s1 = layer_view s" using get_mods_frame [OF g] by (auto simp: layer_view_def)
  then show ?thesis
    using g by (auto simp: send_keyboard_report_def send_nkro_report_def send_6kro_report_def host_keyboard_send_def
        host_nkro_send_def emit_def layer_view_def Let_def)
qed

lemma clear_view [frame_simps]:
  "layer_view (clear_keyboard_but_mods_and_keys cfg s) = layer_view s"
  "layer_view (clear_keyboard_but_mods cfg s) = layer_view s"
proof -
  have e: "layer_view (emit m s) = layer_view s" "layer_view (clear_weak_mods s) = layer_view s"
    "layer_view (host_system_send cfg u s) = layer_view s" "layer_view (host_consumer_send cfg u s) = layer_view s"
    "layer_view (clear_keys_from_report cfg s) = layer_view s" for m u and s :: "'a action_state"
    by (simp_all add: layer_view_def emit_def clear_weak_mods_def host_system_send_def host_consumer_send_def
        clear_keys_from_report_def Let_def)
  show k: "layer_view (clear_keyboard_but_mods_and_keys cfg s) = layer_view s" for s
    by (simp add: clear_keyboard_but_mods_and_keys_def Let_def e send_view)
  show "layer_view (clear_keyboard_but_mods cfg s) = layer_view s"
    by (simp add: clear_keyboard_but_mods_def k e)
qed

lemma after_change_view [frame_simps]: "layer_view (after_layer_change cfg s) = layer_view s"
  by (simp add: after_layer_change_def frame_simps)

lemma after_change_fields [frame_simps]:
  "layer_state (after_layer_change cfg s) = layer_state s"
  "default_layer_state (after_layer_change cfg s) = default_layer_state s"
  "oneshot_layer_data (after_layer_change cfg s) = oneshot_layer_data s"
  "oneshot_enabled (after_layer_change cfg s) = oneshot_enabled s"
  using after_change_view [of cfg s] by (simp_all add: layer_view_def)

lemma set_fields [frame_simps]:
  "layer_state (layer_state_set cfg st s) = layer_state_set_kb cfg st"
  "oneshot_layer_data (layer_state_set cfg st s) = oneshot_layer_data s"
  "oneshot_enabled (layer_state_set cfg st s) = oneshot_enabled s"
  by (simp_all add: layer_state_set_def frame_simps)

lemma emit_fields [frame_simps]:
  "layer_state (emit m s) = layer_state s" "oneshot_layer_data (emit m s) = oneshot_layer_data s"
  "oneshot_enabled (emit m s) = oneshot_enabled s"
  by (simp_all add: emit_def)

lemma bit_layer_mask [simp]: "bit (layer_mask n :: 'l::len word) m \<longleftrightarrow> m = n \<and> n < LENGTH('l)"
  using bit_bv_iff [of n m, where 'a = 'l] by (simp add: layer_mask_def bv_def)

lemma mask_nonzero: "(w AND layer_mask n :: 'l::len word) \<noteq> 0 \<longleftrightarrow> bit w n"
  using and_bv_nonzero [of w n] by (simp add: layer_mask_def bv_def)

section \<open>Looking up a key\<close>

lemma top_layer_spec:
  "top_layer action layers n = l \<Longrightarrow>
    (l < n \<and> bit layers l \<and> action l \<noteq> 1 \<or> l = 0 \<and> (\<forall>i < n. bit layers i \<longrightarrow> action i = 1)) \<and>
    (\<forall>i < n. l < i \<longrightarrow> bit layers i \<longrightarrow> action i = 1)"
proof (induction n)
  case (Suc n)
  then show ?case
    by (cases "bit layers n \<and> action n \<noteq> 1") (auto simp: mask_nonzero less_Suc_eq)
qed simp

text \<open>
  A key is looked up in the highest active layer (of the layer state or the default
  layer state) in which it is not transparent; when it is transparent in all of them, in layer 0.
\<close>

theorem layer_lookup_is_topmost:
  fixes s :: "('l::len word) action_state" and lc :: layer_cfg and key :: keypos
    and action_for_key :: "nat \<Rightarrow> keypos \<Rightarrow> u16"
  defines "active \<equiv> \<lambda>i. bit (layer_state s) i \<or> bit (default_layer_state s) i"
  defines "l \<equiv> layer_switch_get_layer lc action_for_key key s"
  shows "(\<forall>i < MAX_LAYER lc. l < i \<and> active i \<longrightarrow> action_for_key i key = 1) \<and>
    (l < MAX_LAYER lc \<and> active l \<and> action_for_key l key \<noteq> 1 \<or>
     l = 0 \<and> (\<forall>i < MAX_LAYER lc. active i \<longrightarrow> action_for_key i key = 1))"
  using top_layer_spec [of "\<lambda>i. action_for_key i key" "layer_state s OR default_layer_state s" "MAX_LAYER lc" l]
  by (auto simp: layer_switch_get_layer_def l_def active_def bit_or_iff)

lemma layer_lookup_is_topmost_witness:
  "2 \<le> layer_switch_get_layer \<lparr>MATRIX_ROWS = 1, MATRIX_COLS = 1, ENCODER_MAP_ENABLE = False, MAX_LAYER = 16,
      MAX_LAYER_BITS = 4, disable_action_cache = False\<rparr> (\<lambda>i _. if i = 3 then 1 else 4) \<lparr>col = 0, row = 0\<rparr>
     (action_init\<lparr>layer_state := 12\<rparr> :: (16 word) action_state)"
proof (rule ccontr)
  let ?lc = "\<lparr>MATRIX_ROWS = 1, MATRIX_COLS = 1, ENCODER_MAP_ENABLE = False, MAX_LAYER = 16,
      MAX_LAYER_BITS = 4, disable_action_cache = False\<rparr>" and ?a = "\<lambda>i _. if i = 3 then 1 else 4"
  let ?s = "action_init\<lparr>layer_state := 12\<rparr> :: (16 word) action_state"
  assume "\<not> 2 \<le> layer_switch_get_layer ?lc ?a \<lparr>col = 0, row = 0\<rparr> ?s"
  moreover have "bit (12 :: 16 word) 2" by (simp add: bit_numeral_rec numeral_2_eq_2)
  ultimately show False
    using layer_lookup_is_topmost [THEN conjunct1, rule_format, of 2 ?lc ?a "\<lparr>col = 0, row = 0\<rparr>" ?s] by simp
qed

section \<open>Tri layers\<close>

text \<open>
  The third layer is on exactly when the first two are; every other layer keeps its state.
\<close>

theorem tri_layer_state:
  fixes st :: "'l::len word"
  assumes "unat l1 < LENGTH('l)" and "unat l2 < LENGTH('l)" and "unat l3 < LENGTH('l)"
  shows "bit (update_tri_layer_state st l1 l2 l3) n \<longleftrightarrow>
    (if n = unat l3 then bit st (unat l1) \<and> bit st (unat l2) else bit st n)"
proof -
  let ?m = "layer_mask (unat l1) OR layer_mask (unat l2) :: 'l word"
  have m: "bit ?m k \<longleftrightarrow> k = unat l1 \<or> k = unat l2" for k
    using assms by (simp add: bit_or_iff)
  have "st AND ?m = ?m \<longleftrightarrow> bit st (unat l1) \<and> bit st (unat l2)"
  proof
    assume a: "st AND ?m = ?m"
    have "bit (st AND ?m) k" if "k = unat l1 \<or> k = unat l2" for k unfolding a m by (rule that)
    then show "bit st (unat l1) \<and> bit st (unat l2)" unfolding bit_and_iff by blast
  next
    assume "bit st (unat l1) \<and> bit st (unat l2)"
    then show "st AND ?m = ?m" by (intro bit_word_eqI) (unfold bit_and_iff m, blast)
  qed
  then show ?thesis
    using assms(3) by (simp add: update_tri_layer_state_def Let_def bit_and_iff bit_or_iff bit_not_iff)
      (metis bit_imp_le_length)
qed

lemma tri_layer_state_witness: "bit (update_tri_layer_state (6 :: 16 word) 1 2 3) 3"
  using tri_layer_state [of 1 2 3 "6 :: 16 word" 3] by (simp add: bit_numeral_rec)

section \<open>One-shot layers\<close>

lemma oneshot_fields [frame_simps]:
  "layer_state (reset_oneshot_layer cfg s) = layer_state s" "oneshot_layer_data (reset_oneshot_layer cfg s) = 0"
  "oneshot_enabled (reset_oneshot_layer cfg s) = oneshot_enabled s"
  by (simp_all add: reset_oneshot_layer_def Let_def frame_simps)

lemma oneshot_parts:
  assumes "layer < 32" "st AND 7 = st"
  shows "drop_bit 3 (push_bit 3 layer OR st :: u8) = layer" and "(push_bit 3 layer OR st) AND 7 = (st :: u8)"
proof -
  have m: "7 = (mask 3 :: u8)" by (simp add: mask_eq_decr_exp)
  have l: "bit layer n \<Longrightarrow> n < 5" for n
  proof (rule ccontr)
    assume "bit layer n" "\<not> n < 5"
    then have "2 ^ n \<le> unat layer" "(2 :: nat) ^ 5 \<le> 2 ^ n"
      using bit_imp_le_unat by (blast, intro power_increasing) simp_all
    then show False using assms(1) by (simp add: word_less_nat_alt)
  qed
  have s: "bit st n \<Longrightarrow> n < 3" for n
    using assms(2) bit_and_iff [of st 7 n] unfolding m by (simp add: bit_mask_iff)
  show "drop_bit 3 (push_bit 3 layer OR st :: u8) = layer"
    using l s by (auto intro!: bit_word_eqI simp: bit_drop_bit_eq bit_or_iff bit_push_bit_iff) fastforce+
  show "(push_bit 3 layer OR st) AND 7 = (st :: u8)"
    unfolding m using s by (auto intro!: bit_word_eqI simp: bit_and_iff bit_or_iff bit_push_bit_iff bit_mask_iff)
qed

text \<open>The layer state with the given layer switched on or off.\<close>

lemma on_off:
  fixes s :: "('l::len word) action_state"
  assumes "layer_state_set_kb cfg = (\<lambda>l. l)"
  shows "layer_state (layer_on cfg layer s) = layer_state s OR layer_mask (unat layer)"
    and "layer_state (layer_off cfg layer s) = layer_state s AND NOT (layer_mask (unat layer))"
    and "oneshot_layer_data (layer_on cfg layer s) = oneshot_layer_data s"
    and "oneshot_layer_data (layer_off cfg layer s) = oneshot_layer_data s"
    and "oneshot_enabled (layer_on cfg layer s) = oneshot_enabled s"
    and "oneshot_enabled (layer_off cfg layer s) = oneshot_enabled s"
  using assms by (simp_all add: layer_on_def layer_off_def frame_simps)

lemma set_oneshot_fields:
  fixes s :: "('l::len word) action_state"
  assumes "layer_state_set_kb cfg = (\<lambda>l. l)" and "oneshot_enabled s"
  shows "layer_state (set_oneshot_layer cfg layer st s) = layer_state s OR layer_mask (unat layer)"
    and "oneshot_layer_data (set_oneshot_layer cfg layer st s) = push_bit 3 layer OR st"
    and "oneshot_enabled (set_oneshot_layer cfg layer st s)"
  using assms by (simp_all add: set_oneshot_layer_def Let_def frame_simps on_off)

text \<open>Clearing a part \<open>e\<close> of the state \<open>st\<close> of a one-shot layer that is on.\<close>

lemma clear_oneshot_step:
  fixes s :: "('l::len word) action_state"
  assumes "layer_state_set_kb cfg = (\<lambda>l. l)" and "layer < 32" and "st AND 7 = st"
    and d: "oneshot_layer_data s = push_bit 3 layer OR st" and e: "e AND 7 = e"
  defines "st' \<equiv> st AND NOT e" and "s' \<equiv> clear_oneshot_layer_state cfg e s"
  shows "oneshot_enabled s' = oneshot_enabled s"
    and "st' \<noteq> 0 \<or> \<not> oneshot_enabled s \<or> st = 0 \<Longrightarrow>
      layer_state s' = layer_state s \<and> oneshot_layer_data s' = push_bit 3 layer OR st'"
    and "st' = 0 \<Longrightarrow> oneshot_enabled s \<Longrightarrow> st \<noteq> 0 \<Longrightarrow>
      layer_state s' = layer_state s AND NOT (layer_mask (unat layer)) \<and> oneshot_layer_data s' = 0"
proof -
  let ?s = "s\<lparr>oneshot_layer_data := oneshot_layer_data s AND NOT e\<rparr>"
  have m: "7 = (mask 3 :: u8)" by (simp add: mask_eq_decr_exp)
  have e3: "bit e n \<Longrightarrow> n < 3" for n using e bit_and_iff [of e 7 n] unfolding m by (simp add: bit_mask_iff)
  have st': "st' AND 7 = st'" unfolding st'_def using assms(3) by (metis and.assoc and.commute)
  have dat: "oneshot_layer_data ?s = push_bit 3 layer OR st'"
    by (auto intro!: bit_word_eqI simp: d st'_def bit_and_iff bit_or_iff bit_not_iff bit_push_bit_iff) (meson e3 leD)
  note P = oneshot_parts [OF assms(2) st'] and P0 = oneshot_parts [OF assms(2,3)]
  have st: "get_oneshot_layer_state ?s = st'" "get_oneshot_layer ?s = layer"
    using dat P by (simp_all add: get_oneshot_layer_state_def get_oneshot_layer_def)
  have ch: "oneshot_layer_data s \<noteq> oneshot_layer_data ?s \<longleftrightarrow> st \<noteq> st'"
    unfolding dat using P0(2) P(2) d by metis
  have c: "s' = (if st' = 0 \<and> st \<noteq> st' \<and> oneshot_enabled s
      then reset_oneshot_layer cfg (layer_off cfg layer ?s) else ?s)"
    unfolding s'_def clear_oneshot_layer_state_def Let_def st ch by simp
  show "oneshot_enabled s' = oneshot_enabled s" unfolding c by (simp add: frame_simps on_off [OF assms(1)])
  have eq: "st = 0 \<Longrightarrow> st' = 0" by (simp add: st'_def)
  show "st' \<noteq> 0 \<or> \<not> oneshot_enabled s \<or> st = 0 \<Longrightarrow>
      layer_state s' = layer_state s \<and> oneshot_layer_data s' = push_bit 3 layer OR st'"
    unfolding c using dat eq by auto
  show "st' = 0 \<Longrightarrow> oneshot_enabled s \<Longrightarrow> st \<noteq> 0 \<Longrightarrow>
      layer_state s' = layer_state s AND NOT (layer_mask (unat layer)) \<and> oneshot_layer_data s' = 0"
    unfolding c by (simp add: frame_simps on_off [OF assms(1)])
qed

text \<open>
  A one-shot layer is on from its press until both things have happened: the one-shot key
  is released and another key is pressed, in either order; then exactly that layer is off again.
\<close>

theorem oneshot_layer_lifecycle:
  fixes s :: "('l::len word) action_state"
  assumes "layer_state_set_kb cfg = (\<lambda>l. l)" and "oneshot_enabled s" and "layer < 32" and "unat layer < LENGTH('l)"
    and ab: "(a, b) \<in> {(ONESHOT_PRESSED, ONESHOT_OTHER_KEY_PRESSED), (ONESHOT_OTHER_KEY_PRESSED, ONESHOT_PRESSED)}"
  defines "s1 \<equiv> set_oneshot_layer cfg layer ONESHOT_START s"
  defines "s2 \<equiv> clear_oneshot_layer_state cfg a s1"
  defines "s3 \<equiv> clear_oneshot_layer_state cfg b s2"
  shows "layer_state s1 = layer_state s OR layer_mask (unat layer) \<and> get_oneshot_layer s1 = layer \<and>
    is_oneshot_layer_active s1 \<and>
    layer_state s2 = layer_state s1 \<and> is_oneshot_layer_active s2 \<and>
    layer_state s3 = layer_state s AND NOT (layer_mask (unat layer)) \<and> \<not> is_oneshot_layer_active s3"
proof -
  have st: "ONESHOT_START AND 7 = ONESHOT_START" "a AND 7 = a" "b AND 7 = b"
    "ONESHOT_START AND NOT a = b" "a \<noteq> 0" "b \<noteq> 0" "b AND NOT b = 0" "b AND 7 \<noteq> 0"
    using ab by (auto simp: ONESHOT_START_def ONESHOT_PRESSED_def ONESHOT_OTHER_KEY_PRESSED_def)
  note f1 = set_oneshot_fields [OF assms(1,2), of layer ONESHOT_START, folded s1_def]
  note f2 = clear_oneshot_step [OF assms(1,3) st(1) f1(2) st(2), folded s2_def, unfolded st(4)]
  have s2: "layer_state s2 = layer_state s1" "oneshot_layer_data s2 = push_bit 3 layer OR b" "oneshot_enabled s2"
    using f2 st f1(3) by simp_all
  note f3 = clear_oneshot_step [OF assms(1,3) st(3) s2(2) st(3), folded s3_def]
  have s3: "layer_state s3 = layer_state s2 AND NOT (layer_mask (unat layer))" "oneshot_layer_data s3 = 0"
    using f3(3) st(6) s2(3) by simp_all
  have "layer_state s3 = layer_state s AND NOT (layer_mask (unat layer))"
    unfolding s3(1) s2(1) f1(1) by (auto intro!: bit_word_eqI simp: bit_and_iff bit_or_iff bit_not_iff)
  moreover have "is_oneshot_layer_active s1" "get_oneshot_layer s1 = layer" "is_oneshot_layer_active s2"
    using oneshot_parts [OF assms(3) st(1)] oneshot_parts [OF assms(3) st(3)] f1(2) s2(2) st
    by (simp_all add: is_oneshot_layer_active_def get_oneshot_layer_state_def get_oneshot_layer_def ONESHOT_START_def)
  moreover have "\<not> is_oneshot_layer_active s3"
    by (simp add: is_oneshot_layer_active_def get_oneshot_layer_state_def s3(2))
  ultimately show ?thesis using f1(1) s2(1) by blast
qed

lemma oneshot_layer_lifecycle_witness:
  "layer_state (clear_oneshot_layer_state usb_cfg ONESHOT_OTHER_KEY_PRESSED (clear_oneshot_layer_state usb_cfg ONESHOT_PRESSED
     (set_oneshot_layer usb_cfg 3 ONESHOT_START (action_init :: (16 word) action_state)))) = 0"
  using oneshot_layer_lifecycle [where cfg = usb_cfg and s = "action_init :: (16 word) action_state" and layer = 3
      and a = ONESHOT_PRESSED and b = ONESHOT_OTHER_KEY_PRESSED]
  by (simp add: usb_cfg_def action_init_def)

text \<open>
  Disabling one-shot keys while a one-shot layer waits for its key leaves that layer
  on: its state is cleared after the enable flag, so the layer is not switched off, and no later
  event of the one-shot machinery switches it off either.
\<close>

theorem oneshot_disable_leaves_layer_on:
  fixes s :: "('l::len word) action_state"
  assumes "layer_state_set_kb cfg = (\<lambda>l. l)" and "oneshot_enabled s" and "layer < 32" and "unat layer < LENGTH('l)"
  defines "s2 \<equiv> clear_oneshot_layer_state cfg ONESHOT_PRESSED (set_oneshot_layer cfg layer ONESHOT_START s)"
  defines "s3 \<equiv> oneshot_disable cfg s2"
  shows "is_oneshot_layer_active s2 \<and> bit (layer_state s3) (unat layer) \<and> \<not> is_oneshot_layer_active s3 \<and>
    (e AND 7 = e \<longrightarrow> layer_state (clear_oneshot_layer_state cfg e s3) = layer_state s3)"
proof -
  have st: "ONESHOT_START AND 7 = ONESHOT_START" "ONESHOT_PRESSED AND 7 = ONESHOT_PRESSED"
    "ONESHOT_START AND NOT ONESHOT_PRESSED = ONESHOT_OTHER_KEY_PRESSED" "ONESHOT_OTHER_KEY_PRESSED \<noteq> 0"
    "ONESHOT_OTHER_KEY_PRESSED AND 7 = ONESHOT_OTHER_KEY_PRESSED"
    "ONESHOT_OTHER_KEY_PRESSED AND NOT ONESHOT_OTHER_KEY_PRESSED = 0" "(0 :: u8) AND 7 = 0" "(0 :: u8) AND NOT e = 0"
    by (simp_all add: ONESHOT_START_def ONESHOT_PRESSED_def ONESHOT_OTHER_KEY_PRESSED_def)
  note f1 = set_oneshot_fields [OF assms(1,2), of layer ONESHOT_START]
  note f2 = clear_oneshot_step [OF assms(1,3) st(1) f1(2) st(2), folded s2_def, unfolded st(3)]
  have s2: "layer_state s2 = layer_state s OR layer_mask (unat layer)"
    "oneshot_layer_data s2 = push_bit 3 layer OR ONESHOT_OTHER_KEY_PRESSED" "oneshot_enabled s2"
    using f2 st f1 by simp_all
  define sx where "sx = emit (UpdateKeymapConfig False) (s2\<lparr>oneshot_enabled := False\<rparr>)"
  have sx: "oneshot_layer_data sx = push_bit 3 layer OR ONESHOT_OTHER_KEY_PRESSED" "\<not> oneshot_enabled sx"
    "layer_state sx = layer_state s2"
    by (simp_all add: sx_def frame_simps s2)
  have s3: "s3 = clear_oneshot_layer_state cfg ONESHOT_OTHER_KEY_PRESSED sx"
    using s2(3) by (simp add: s3_def oneshot_disable_def oneshot_set_def sx_def)
  note f3 = clear_oneshot_step [OF assms(1,3) st(5) sx(1) st(5), folded s3, unfolded st(6)]
  have r3: "layer_state s3 = layer_state s2" "oneshot_layer_data s3 = push_bit 3 layer OR 0" "\<not> oneshot_enabled s3"
    using f3(1,2) sx(2,3) by simp_all
  have "layer_state (clear_oneshot_layer_state cfg e s3) = layer_state s3" if e: "e AND 7 = e"
    using clear_oneshot_step(2) [OF assms(1,3) st(7) r3(2) e] r3(3) by simp
  moreover have "bit (layer_state s3) (unat layer)"
    unfolding r3(1) s2(1) using assms(4) by (simp add: bit_or_iff)
  moreover have "is_oneshot_layer_active s2" "\<not> is_oneshot_layer_active s3"
    using oneshot_parts(2) [OF assms(3) st(5)] oneshot_parts(2) [OF assms(3) st(7)] st(4) s2(2) r3(2)
    by (simp_all add: is_oneshot_layer_active_def get_oneshot_layer_state_def)
  ultimately show ?thesis by blast
qed

lemma oneshot_disable_leaves_layer_on_witness:
  "bit (layer_state (oneshot_disable usb_cfg (clear_oneshot_layer_state usb_cfg ONESHOT_PRESSED
     (set_oneshot_layer usb_cfg 3 ONESHOT_START (action_init :: (16 word) action_state))))) 3"
  using oneshot_disable_leaves_layer_on [where cfg = usb_cfg and s = "action_init :: (16 word) action_state" and layer = 3 and e = 0]
  by (simp add: usb_cfg_def action_init_def)

end
