(* ===== verification/ActionProcessProps.thy ===== *)
theory ActionProcessProps
  imports ActionProcess KeymapProps ActionLayerProps
begin

text \<open>
  From a layer keycode in the keymap to the layer state: what pressing and releasing the keys MO, TO, TG
  and DF does, and what strict layer release does to a key on a one-shot layer.
\<close>

section \<open>Layer keycodes to actions\<close>

lemma layer_family:
  assumes "base AND 0x1F = (0 :: u16)"
  shows "(base OR (l AND 0x1F)) AND 0x1F = l AND 0x1F" "base \<le> base OR (l AND 0x1F) \<and> base OR (l AND 0x1F) \<le> base OR 0x1F"
proof -
  show "(base OR (l AND 0x1F)) AND 0x1F = l AND 0x1F"
    using assms by (simp add: bit.conj_disj_distrib2 and.assoc)
  show "base \<le> base OR (l AND 0x1F) \<and> base OR (l AND 0x1F) \<le> base OR 0x1F"
    by (rule or_range) (simp add: and.assoc)
qed

lemma layer_key_ranges:
  "IS_QK_MOMENTARY (MO l)" "IS_QK_TO (TO l)" "IS_QK_TOGGLE_LAYER (TG l)" "IS_QK_DEF_LAYER (DF l)"
  using layer_family(2) [of "0x5220" l] layer_family(2) [of "0x5200" l] layer_family(2) [of "0x5260" l]
    layer_family(2) [of "0x5240" l]
  by (simp_all add: keycode_ranges MO_def TO_def TG_def DF_def)

lemma layer_key_parts:
  "QK_MOMENTARY_GET_LAYER (MO l) = l AND 0x1F" "QK_TO_GET_LAYER (TO l) = l AND 0x1F"
  "QK_TOGGLE_LAYER_GET_LAYER (TG l) = l AND 0x1F" "QK_DEF_LAYER_GET_LAYER (DF l) = l AND 0x1F"
  unfolding QK_MOMENTARY_GET_LAYER_def QK_TO_GET_LAYER_def QK_TOGGLE_LAYER_GET_LAYER_def QK_DEF_LAYER_GET_LAYER_def
    MO_def TO_def TG_def DF_def by (rule layer_family; simp)+

text \<open>A keycode in a layer range is translated by the branch of that range.\<close>

lemma layer_range_other:
  assumes "0x5200 \<le> kc" "kc \<le> 0x527F"
  shows "keycode_config c kc = kc" "\<not> kc \<le> 0xFF" "kc \<noteq> 1" "\<not> IS_QK_MODS kc" "\<not> IS_QK_LAYER_TAP kc"
proof -
  note x = range_exclusive [OF assms]
  show n: "\<not> kc \<le> 0xFF" "kc \<noteq> 1" "\<not> IS_QK_MODS kc" "\<not> IS_QK_LAYER_TAP kc"
    unfolding keycode_ranges by (rule x; simp)+
  show "keycode_config c kc = kc" using n(1) by (intro keycode_config_big) simp
qed

lemma layer_ranges_disjoint:
  "IS_QK_MOMENTARY kc \<Longrightarrow> \<not> IS_QK_TO kc" "IS_QK_DEF_LAYER kc \<Longrightarrow> \<not> IS_QK_TO kc \<and> \<not> IS_QK_MOMENTARY kc"
  "IS_QK_TOGGLE_LAYER kc \<Longrightarrow> \<not> IS_QK_TO kc \<and> \<not> IS_QK_MOMENTARY kc \<and> \<not> IS_QK_DEF_LAYER kc"
  by (auto simp: keycode_ranges word_le_nat_alt)

lemma layer_range_bounds:
  "IS_QK_TO kc \<or> IS_QK_MOMENTARY kc \<or> IS_QK_DEF_LAYER kc \<or> IS_QK_TOGGLE_LAYER kc \<Longrightarrow> 0x5200 \<le> kc \<and> kc \<le> 0x527F"
  by (auto simp: keycode_ranges word_le_nat_alt)

lemma layer_key_actions:
  assumes "full_build tc"
  shows "action_for_keycode tc (MO l) = ACTION_LAYER_MOMENTARY (l AND 0x1F)"
    "action_for_keycode tc (TO l) = ACTION_LAYER_GOTO (l AND 0x1F)"
    "action_for_keycode tc (TG l) = ACTION_LAYER_TOGGLE (l AND 0x1F)"
    "action_for_keycode tc (DF l) = ACTION_DEFAULT_LAYER_SET (l AND 0x1F)"
proof -
  have f: "\<not> NO_ACTION_LAYER tc" using assms by (simp add: full_build_def)
  note r = layer_key_ranges [of l]
  note o = layer_range_other [of "MO l"] layer_range_other [of "TO l"] layer_range_other [of "TG l"] layer_range_other [of "DF l"]
  show "action_for_keycode tc (MO l) = ACTION_LAYER_MOMENTARY (l AND 0x1F)"
    using layer_range_bounds [of "MO l"] r layer_range_other [of "MO l"] layer_ranges_disjoint(1) [of "MO l"] f
    by (simp add: action_for_keycode_def Let_def layer_key_parts)
  show "action_for_keycode tc (TO l) = ACTION_LAYER_GOTO (l AND 0x1F)"
    using layer_range_bounds [of "TO l"] r layer_range_other [of "TO l"] f
    by (simp add: action_for_keycode_def Let_def layer_key_parts)
  show "action_for_keycode tc (TG l) = ACTION_LAYER_TOGGLE (l AND 0x1F)"
    using layer_range_bounds [of "TG l"] r layer_range_other [of "TG l"] layer_ranges_disjoint(3) [of "TG l"] f
    by (simp add: action_for_keycode_def Let_def layer_key_parts)
  show "action_for_keycode tc (DF l) = ACTION_DEFAULT_LAYER_SET (l AND 0x1F)"
    using layer_range_bounds [of "DF l"] r layer_range_other [of "DF l"] layer_ranges_disjoint(2) [of "DF l"] f
    by (simp add: action_for_keycode_def Let_def layer_key_parts)
qed

text \<open>The fields of the layer actions, for the 32 layers.\<close>

lemma bitop_fields:
  "list_all (\<lambda>l. let a = ACTION_LAYER_GOTO (of_nat l) in kind_id a = ACT_LAYER \<and> bitop_on a = 1 \<and> bitop_op a = 3 \<and>
     \<not> bitop_xbit a \<and> unat (bitop_part a * 4) = 4 * (l div 4) \<and> bitop_bits a = 2 ^ (l mod 4)) [0..<32]"
  "list_all (\<lambda>l. let a = ACTION_LAYER_TOGGLE (of_nat l) in kind_id a = ACT_LAYER \<and> bitop_on a = 2 \<and> bitop_op a = 2 \<and>
     \<not> bitop_xbit a \<and> unat (bitop_part a * 4) = 4 * (l div 4) \<and> bitop_bits a = 2 ^ (l mod 4)) [0..<32]"
  "list_all (\<lambda>l. let a = ACTION_DEFAULT_LAYER_SET (of_nat l) in kind_id a = ACT_LAYER \<and> bitop_on a = 0 \<and> bitop_op a = 3 \<and>
     \<not> bitop_xbit a \<and> unat (bitop_part a * 4) = 4 * (l div 4) \<and> bitop_bits a = 2 ^ (l mod 4)) [0..<32]"
  by code_simp+

lemma momentary_fields:
  "list_all (\<lambda>l. let a = ACTION_LAYER_MOMENTARY (of_nat l) in (kind_id a = ACT_LAYER_TAP \<or> kind_id a = ACT_LAYER_TAP_EXT) \<and>
     layer_tap_code a = 0xF1 \<and> layer_tap_val a = of_nat l) [0..<32]"
  by code_simp

lemma bitop_mask_layer:
  assumes "\<not> bitop_xbit a" "unat (bitop_part a * 4) = 4 * (l div 4)" "bitop_bits a = 2 ^ (l mod 4)"
  shows "bitop_mask a = (layer_mask l :: 'l::len word)"
proof (rule bit_word_eqI)
  fix n assume n: "n < LENGTH('l)"
  have k: "l mod 4 < 4" by simp
  obtain s k where sk: "4 * (l div 4) = s" "l mod 4 = k" "l = s + k" by (metis mult_div_mod_eq)
  have w: "(2 ^ k :: u8) = bv k" by (simp add: bv_def)
  have "bit (push_bit s (ucast (bv k :: u8)) :: 'l word) n \<longleftrightarrow> n = s + k"
    using n sk(2) k by (auto simp: bit_push_bit_iff bit_ucast_iff)
  then show "bit (bitop_mask a :: 'l word) n \<longleftrightarrow> bit (layer_mask l :: 'l word) n"
  proof -
    have "bitop_mask a = (push_bit s (ucast (bv k :: u8)) :: 'l word)"
      using assms by (simp add: bitop_mask_def sk(1,2) w)
    then show ?thesis using \<open>bit (push_bit s (ucast (bv k :: u8)) :: 'l word) n \<longleftrightarrow> n = s + k\<close> sk(3) n by auto
  qed
qed

lemma layer_action_fields:
  assumes "l < 32"
  shows "kind_id (ACTION_LAYER_GOTO (of_nat l)) = ACT_LAYER" "bitop_on (ACTION_LAYER_GOTO (of_nat l)) = 1"
    "bitop_op (ACTION_LAYER_GOTO (of_nat l)) = 3" "bitop_mask (ACTION_LAYER_GOTO (of_nat l)) = (layer_mask l :: 'l::len word)"
    "kind_id (ACTION_LAYER_TOGGLE (of_nat l)) = ACT_LAYER" "bitop_on (ACTION_LAYER_TOGGLE (of_nat l)) = 2"
    "bitop_op (ACTION_LAYER_TOGGLE (of_nat l)) = 2" "bitop_mask (ACTION_LAYER_TOGGLE (of_nat l)) = (layer_mask l :: 'l word)"
    "kind_id (ACTION_DEFAULT_LAYER_SET (of_nat l)) = ACT_LAYER" "bitop_on (ACTION_DEFAULT_LAYER_SET (of_nat l)) = 0"
    "bitop_op (ACTION_DEFAULT_LAYER_SET (of_nat l)) = 3" "bitop_mask (ACTION_DEFAULT_LAYER_SET (of_nat l)) = (layer_mask l :: 'l word)"
    "kind_id (ACTION_LAYER_MOMENTARY (of_nat l)) = ACT_LAYER_TAP \<or> kind_id (ACTION_LAYER_MOMENTARY (of_nat l)) = ACT_LAYER_TAP_EXT"
    "layer_tap_code (ACTION_LAYER_MOMENTARY (of_nat l)) = 0xF1" "layer_tap_val (ACTION_LAYER_MOMENTARY (of_nat l)) = of_nat l"
proof -
  have "l \<in> set [0..<32]" using assms by simp
  note b = bitop_fields [unfolded list_all_iff, rule_format, OF this, unfolded Let_def]
    and m = momentary_fields [unfolded list_all_iff, rule_format, OF this, unfolded Let_def]
  show "kind_id (ACTION_LAYER_GOTO (of_nat l)) = ACT_LAYER" "bitop_on (ACTION_LAYER_GOTO (of_nat l)) = 1"
    "bitop_op (ACTION_LAYER_GOTO (of_nat l)) = 3" "bitop_mask (ACTION_LAYER_GOTO (of_nat l)) = (layer_mask l :: 'l::len word)"
    using b(1) by (simp_all add: bitop_mask_layer)
  show "kind_id (ACTION_LAYER_TOGGLE (of_nat l)) = ACT_LAYER" "bitop_on (ACTION_LAYER_TOGGLE (of_nat l)) = 2"
    "bitop_op (ACTION_LAYER_TOGGLE (of_nat l)) = 2" "bitop_mask (ACTION_LAYER_TOGGLE (of_nat l)) = (layer_mask l :: 'l word)"
    using b(2) by (simp_all add: bitop_mask_layer)
  show "kind_id (ACTION_DEFAULT_LAYER_SET (of_nat l)) = ACT_LAYER" "bitop_on (ACTION_DEFAULT_LAYER_SET (of_nat l)) = 0"
    "bitop_op (ACTION_DEFAULT_LAYER_SET (of_nat l)) = 3" "bitop_mask (ACTION_DEFAULT_LAYER_SET (of_nat l)) = (layer_mask l :: 'l word)"
    using b(3) by (simp_all add: bitop_mask_layer)
  show "kind_id (ACTION_LAYER_MOMENTARY (of_nat l)) = ACT_LAYER_TAP \<or> kind_id (ACTION_LAYER_MOMENTARY (of_nat l)) = ACT_LAYER_TAP_EXT"
    "layer_tap_code (ACTION_LAYER_MOMENTARY (of_nat l)) = 0xF1" "layer_tap_val (ACTION_LAYER_MOMENTARY (of_nat l)) = of_nat l"
    using m by simp_all
qed

section \<open>Executing a layer action\<close>

definition layers :: "'l process_state \<Rightarrow> 'l \<times> 'l" where
  "layers p = (layer_state (core p), default_layer_state (core p))"

lemma layers_steps [simp]:
  "layers (pa_leds pc a p) = layers p" "layers (p\<lparr>retro_tapping_counter := n\<rparr>) = layers p"
  "layers (on_core (use_oneshot_swaphands cfg) p) = layers p"
  by (simp_all add: layers_def pa_leds_def on_core_def Let_def emit_def use_oneshot_swaphands_def clear_oneshot_swaphands_def)

text \<open>
  For an action that is no tap action, and with no one-shot layer active, the layers after processing are
  those after the \<^verbatim>\<open>switch\<close>.
\<close>

lemma process_action_layers:
  assumes "\<not> is_oneshot_layer_active (core p)" "\<not> is_tap_action a" "pa_switch pc r a False p = (r, False, q)"
  shows "layers (snd (process_action pc r a p)) = layers q"
proof -
  have "\<not> clears_oneshot_layer pc r a (core p)" using assms(1) by (simp add: clears_oneshot_layer_def)
  moreover have "layers (pa_retro pc r r a t) = layers t" for t
    using assms(2) by (simp add: pa_retro_def)
  ultimately show ?thesis
    using assms(3) by (simp add: process_action_def process_action_body_def Let_def)
qed

lemma layer_ops:
  assumes "layer_state_set_kb cfg = id" "default_layer_state_set_kb cfg = id"
  shows "layer_state (layer_state_set cfg m s) = m" "default_layer_state (layer_state_set cfg m s) = default_layer_state s"
    "default_layer_state (default_layer_state_set cfg m s) = m" "layer_state (default_layer_state_set cfg m s) = layer_state s"
  using assms by (simp_all add: layer_state_set_def default_layer_state_set_def frame_simps)

text \<open>
  C11: pressing MO turns exactly its layer on and releasing it turns it off; TO leaves only its
  layer on; TG flips its layer on release and does nothing on press; DF makes its layer the default one
  on release. No other layer changes. This is from the keycode in the keymap to the layer state.
\<close>

theorem layer_keys_change_layers:
  fixes pc :: "('l::len word) process_cfg" and p :: "('l word) process_state" and l :: nat
  assumes "full_build tc" and "\<not> no_layer pc" and "l < 32"
    and "layer_state_set_kb (act pc) = id" and "default_layer_state_set_kb (act pc) = id"
    and "\<not> is_oneshot_layer_active (core p)"
  defines "st \<equiv> layer_state (core p)" and "df \<equiv> default_layer_state (core p)"
    and "after \<equiv> \<lambda>r kc. layers (snd (process_action pc r (action_for_keycode tc kc) p))"
  shows "(if pressed (event r) then
      after r (MO (of_nat l)) = (st OR layer_mask l, df) \<and> after r (TO (of_nat l)) = (layer_mask l, df) \<and>
      after r (TG (of_nat l)) = (st, df) \<and> after r (DF (of_nat l)) = (st, df)
    else
      after r (MO (of_nat l)) = (st AND NOT (layer_mask l), df) \<and> after r (TO (of_nat l)) = (st, df) \<and>
      after r (TG (of_nat l)) = (st XOR layer_mask l, df) \<and> after r (DF (of_nat l)) = (st, layer_mask l))"
proof -
  have a: "(of_nat l :: u16) AND 0x1F = of_nat l"
  proof -
    have "take_bit 5 (of_nat l :: u16) = of_nat l"
      by (rule word_unat_eq_iff [THEN iffD2]) (use assms(3) in \<open>simp add: unsigned_take_bit_eq unat_of_nat take_bit_nat_eq_self\<close>)
    then show ?thesis by (simp only: and_masks)
  qed
  have u: "unat (of_nat l :: u8) = l" using assms(3) by (simp add: unat_of_nat take_bit_nat_eq_self)
  note f = layer_action_fields [OF assms(3)] and k = layer_key_actions [OF assms(1), of "of_nat l", unfolded a]
  have nt: "\<not> is_tap_action (ACTION_LAYER_MOMENTARY (of_nat l))" "\<not> is_tap_action (ACTION_LAYER_GOTO (of_nat l))"
    "\<not> is_tap_action (ACTION_LAYER_TOGGLE (of_nat l))" "\<not> is_tap_action (ACTION_DEFAULT_LAYER_SET (of_nat l))"
    using f by (auto simp: is_tap_action_def)
  have mo: "pa_switch pc r (ACTION_LAYER_MOMENTARY (of_nat l)) False p =
      (r, False, p\<lparr>core := (if pressed (event r) then layer_on else layer_off) (act pc) (of_nat l) (core p)\<rparr>)"
    using f(13-15) assms(2) by (auto simp: pa_switch_def pa_layer_tap_def Let_def)
  have bo: "pa_switch pc r x False p = (r, False, on_core (pa_layer (act pc) (pressed (event r)) x) p)"
    if "kind_id x = ACT_LAYER" for x using that assms(2) by (simp add: pa_switch_def Let_def)
  note P = process_action_layers [OF assms(6)]
  show ?thesis
    unfolding after_def k P [OF nt(1) mo] P [OF nt(2) bo [OF f(1)]] P [OF nt(3) bo [OF f(5)]] P [OF nt(4) bo [OF f(9)]]
    by (simp add: layers_def on_core_def pa_layer_def Let_def f layer_on_def layer_off_def layer_or_def layer_and_def
        layer_xor_def default_layer_set_def layer_ops [OF assms(4,5)] st_def df_def u)
qed

definition demo_lays :: layer_cfg where
  "demo_lays = \<lparr>MATRIX_ROWS = 1, MATRIX_COLS = 2, ENCODER_MAP_ENABLE = False, MAX_LAYER = 16, MAX_LAYER_BITS = 4,
     disable_action_cache = False\<rparr>"

definition demo_tables :: keymap_tables where
  "demo_tables = \<lparr>keymaps = [[[MO 2, 4]], [[1, 1]], [[1, 5]]], encoder_map = [], dip_switch_map = [], NUM_ENCODERS = 0,
     DIP_SWITCH_MAP_ENABLE = False\<rparr>"

definition demo_pc :: "(16 word) process_cfg" where
  "demo_pc = \<lparr>act = usb_cfg, lays = demo_lays, no_layer = False, no_tapping = False, TAPPING_TOGGLE = 5,
     ONESHOT_TAP_TOGGLE = 0, hold_on_other_key_press = (\<lambda>_. False), RETRO_TAPPING = False, retro_tapping = (\<lambda>_. True),
     neutralizer = None, lookup = action_for_key demo_lays demo_tables demo_tc, keycode_in_record = False,
     keycode_action = action_for_keycode demo_tc, hand_swap_config = (\<lambda>r c. no_key), encoder_hand_swap_config = (\<lambda>c. 0),
     quantum = (\<lambda>r p. (True, p)), post_quantum = (\<lambda>r p. p)\<rparr>"

definition demo_process :: "(16 word) process_state" where
  "demo_process = \<lparr>core = action_init, cache = \<lparr>key_cache = [[0, 0, 0, 0]], encoder_cache = []\<rparr>, swap_held = False,
     retro_tapping_counter = 0, matrix_swap_state = [0], encoder_swap_state = []\<rparr>"

definition demo_record :: "u8 \<Rightarrow> bool \<Rightarrow> keyrecord" where
  "demo_record c pr = \<lparr>event = \<lparr>key = \<lparr>col = c, row = 0\<rparr>, event_time = 0, event_type = KEY_EVENT, pressed = pr\<rparr>,
     interrupted = False, tap_count = 0, rec_keycode = 0\<rparr>"

lemma layer_keys_change_layers_witness:
  "layers (snd (process_action demo_pc (demo_record 0 True) (action_for_keycode demo_tc (MO 2)) demo_process)) = (4, 1)"
proof -
  have "\<not> is_oneshot_layer_active (core demo_process)" by code_simp
  moreover have "layer_state_set_kb (act demo_pc) = id" "default_layer_state_set_kb (act demo_pc) = id" "\<not> no_layer demo_pc"
    "layer_state (core demo_process) = 0" "default_layer_state (core demo_process) = 1"
    by (simp_all add: demo_pc_def usb_cfg_def id_def demo_process_def action_init_def)
  ultimately show ?thesis
    using layer_keys_change_layers [OF full_build_demo, of demo_pc 2 demo_process "demo_record 0 True"]
    by (simp add: demo_record_def layer_mask_def)
qed

end
