(* ===== verification/TappingProps.thy ===== *)
theory TappingProps
  imports Tapping ActionProcessProps "HOL-Library.Multiset"
begin

text \<open>
  The tapping machine loses and repeats no key press: a contract for what it calls, the bookkeeping of
  what was executed and what is still pending through every step, and the decision between tap and hold.
\<close>

section \<open>Bookkeeping\<close>

text \<open>A record the machine has nothing more to do for: no event, a release, or a decided tap.\<close>

definition settled :: "keyrecord \<Rightarrow> bool" where
  "settled r \<longleftrightarrow> IS_NOEVENT (event r) \<or> \<not> pressed (event r) \<or> tap_count r \<noteq> 0"

definition pending_key :: "'w tap_state \<Rightarrow> keyevent multiset" where
  "pending_key s = (if settled (tapping_key s) then {#} else {#event (tapping_key s)#})"

definition waiting_events :: "'w tap_state \<Rightarrow> keyevent multiset" where
  "waiting_events s = mset (map (\<lambda>i. event (waiting_buffer s ! i)) (waiting_slots s))"

text \<open>A press comes in without a tap count; the buffer keeps it that way.\<close>

definition fresh :: "keyrecord \<Rightarrow> bool" where
  "fresh r \<longleftrightarrow> (pressed (event r) \<longrightarrow> tap_count r = 0)"

definition tap_wf :: "'w tap_state \<Rightarrow> bool" where
  "tap_wf s \<longleftrightarrow> length (waiting_buffer s) = WAITING_BUFFER_SIZE \<and> waiting_buffer_head s < WAITING_BUFFER_SIZE \<and>
     waiting_buffer_tail s < WAITING_BUFFER_SIZE \<and> (\<forall>i \<in> set (waiting_slots s). fresh (waiting_buffer s ! i) \<and> IS_EVENT (event (waiting_buffer s ! i)))"

text \<open>What a step leaves alone: the places in the buffer, the events in it, and that its entries are fresh.\<close>

definition same_buffer :: "'w tap_state \<Rightarrow> 'w tap_state \<Rightarrow> bool" where
  "same_buffer s s' \<longleftrightarrow> waiting_buffer_head s' = waiting_buffer_head s \<and> waiting_buffer_tail s' = waiting_buffer_tail s \<and>
     length (waiting_buffer s') = length (waiting_buffer s) \<and>
     (\<forall>i < length (waiting_buffer s). event (waiting_buffer s' ! i) = event (waiting_buffer s ! i) \<and>
        (fresh (waiting_buffer s ! i) \<longrightarrow> fresh (waiting_buffer s' ! i)))"

lemma same_buffer_refl [simp]: "same_buffer s s"
  by (simp add: same_buffer_def)

lemma same_buffer_trans: "same_buffer s t \<Longrightarrow> same_buffer t u \<Longrightarrow> same_buffer s u"
  by (simp add: same_buffer_def)

lemma same_buffer_update [simp]:
  "same_buffer s (t\<lparr>tapping_key := r\<rparr>) = same_buffer s t" "same_buffer s (t\<lparr>world := w\<rparr>) = same_buffer s t"
  "same_buffer (s\<lparr>tapping_key := r\<rparr>) t = same_buffer s t" "same_buffer (s\<lparr>world := w\<rparr>) t = same_buffer s t"
  by (simp_all add: same_buffer_def)

lemma slots_update [simp]:
  "waiting_count (s\<lparr>tapping_key := r\<rparr>) = waiting_count s" "waiting_count (s\<lparr>world := w\<rparr>) = waiting_count s"
  "waiting_count (s\<lparr>waiting_buffer := b\<rparr>) = waiting_count s"
  "waiting_slots (s\<lparr>tapping_key := r\<rparr>) = waiting_slots s" "waiting_slots (s\<lparr>world := w\<rparr>) = waiting_slots s"
  "waiting_slots (s\<lparr>waiting_buffer := b\<rparr>) = waiting_slots s"
  by (simp_all add: waiting_count_def waiting_slots_def)

lemma slots_lt: "tap_wf s \<Longrightarrow> i \<in> set (waiting_slots s) \<Longrightarrow> i < length (waiting_buffer s)"
  by (auto simp: waiting_slots_def tap_wf_def WAITING_BUFFER_SIZE_def)

lemma same_buffer_slots: "same_buffer s t \<Longrightarrow> waiting_slots t = waiting_slots s"
  by (simp add: same_buffer_def waiting_slots_def waiting_count_def)

lemma same_buffer_wf: "tap_wf s \<Longrightarrow> same_buffer s t \<Longrightarrow> tap_wf t"
  using slots_lt [of s] same_buffer_slots [of s t] by (auto simp: tap_wf_def same_buffer_def)

lemma same_buffer_events:
  assumes "tap_wf s" "same_buffer s t"
  shows "waiting_events t = waiting_events s"
proof -
  have "map (\<lambda>i. event (waiting_buffer t ! i)) (waiting_slots s) = map (\<lambda>i. event (waiting_buffer s ! i)) (waiting_slots s)"
    using assms slots_lt [OF assms(1)] by (intro map_cong refl) (simp add: same_buffer_def)
  then show ?thesis unfolding waiting_events_def same_buffer_slots [OF assms(2)] by (simp only:)
qed

lemma same_buffer_counted:
  assumes "\<not> pressed (event (waiting_buffer s ! i))"
  shows "same_buffer s (s\<lparr>waiting_buffer := (waiting_buffer s)[i := (waiting_buffer s ! i)\<lparr>tap_count := n\<rparr>]\<rparr>)"
proof -
  have "event (b ! k) = event (waiting_buffer s ! k) \<and> (fresh (waiting_buffer s ! k) \<longrightarrow> fresh (b ! k))"
    if "b = (waiting_buffer s)[i := (waiting_buffer s ! i)\<lparr>tap_count := n\<rparr>]" "k < length (waiting_buffer s)" for b k
    using assms that by (cases "k = i") (simp_all add: fresh_def)
  then show ?thesis by (simp add: same_buffer_def)
qed

lemma copy_tap_simps [simp]: "event (copy_tap t r) = event r" "tap_count (copy_tap t r) = tap_count t"
  by (simp_all add: copy_tap_def)

lemma tap_count_up: "(w :: 4 word) < 15 \<Longrightarrow> w + 1 \<noteq> 0"
proof
  assume "w < 15" "w + 1 = 0"
  then have "w = - 1" by (simp add: eq_neg_iff_add_eq_0)
  moreover have "(15 :: 4 word) = - 1" by simp
  ultimately show False using \<open>w < 15\<close> by simp
qed

section \<open>The contract of what the machine calls\<close>

text \<open>
  \<open>executed\<close> is the sequence of the records that were processed. Processing a record appends it and does
  not make a settled record unsettled.
\<close>

locale tap_client =
  fixes c :: "'w tap_cfg" and executed :: "'w \<Rightarrow> keyrecord list"
  assumes run_executed: "executed (snd (run_record c r w)) = executed w @ [r]"
    and run_settled: "settled r \<Longrightarrow> settled (fst (run_record c r w))"
    and hint_executed: "executed (tap_hint c r w) = executed w"
    and clear_executed: "executed (clear_all c w) = executed w"
begin

definition did :: "'w tap_state \<Rightarrow> keyevent multiset" where
  "did s = mset (map event (executed (world s)))"

definition account :: "'w tap_state \<Rightarrow> keyevent multiset" where
  "account s = did s + pending_key s"

lemma account_updates [simp]:
  "did (s\<lparr>tapping_key := r\<rparr>) = did s" "did (s\<lparr>waiting_buffer := b\<rparr>) = did s"
  "pending_key (s\<lparr>waiting_buffer := b\<rparr>) = pending_key s" "pending_key (s\<lparr>world := w\<rparr>) = pending_key s"
  by (simp_all add: did_def pending_key_def)

lemma run_tapping_key_account:
  assumes "run_tapping_key c s = s'"
  shows "did s' = did s + {#event (tapping_key s)#}" "settled (tapping_key s) \<Longrightarrow> settled (tapping_key s')"
    "same_buffer s s'"
  using assms run_executed [of "tapping_key s" "world s"] run_settled [of "tapping_key s" "world s"]
  by (auto simp: run_tapping_key_def did_def split: prod.splits)

lemma run_key_account:
  assumes "run_key c r s = (r', s')"
  shows "did s' = did s + {#event r#}" "settled r \<Longrightarrow> settled r'" "same_buffer s s'" "tapping_key s' = tapping_key s"
  using assms run_executed [of r "world s"] run_settled [of r "world s"]
  by (auto simp: run_key_def did_def split: prod.splits)

lemma scan_account:
  assumes "length (waiting_buffer s) = WAITING_BUFFER_SIZE" "waiting_buffer_tail s < WAITING_BUFFER_SIZE"
    "waiting_buffer_head s < WAITING_BUFFER_SIZE" "IS_EVENT (event (tapping_key s))"
  shows "account (waiting_buffer_scan_tap c s) = account s" "same_buffer s (waiting_buffer_scan_tap c s)"
proof -
  let ?find = "find (\<lambda>i. let e = event (waiting_buffer s ! i) in
             IS_EVENT e \<and> KEYEQ (key e) (key (event (tapping_key s))) \<and> \<not> pressed e \<and> within_tapping_term c e s)
            (waiting_slots s)"
  have "account (waiting_buffer_scan_tap c s) = account s \<and> same_buffer s (waiting_buffer_scan_tap c s)"
  proof (cases "settled (tapping_key s) \<or> ?find = None")
    case True
    then show ?thesis using assms(4)
      by (auto simp: waiting_buffer_scan_tap_def settled_def IS_EVENT_def IS_NOEVENT_def word_gt_0)
  next
    case False
    then obtain i where i: "?find = Some i" by blast
    then have rel: "\<not> pressed (event (waiting_buffer s ! i))" by (auto simp: find_Some_iff Let_def)
    let ?t = "s\<lparr>tapping_key := (tapping_key s)\<lparr>tap_count := 1\<rparr>,
      waiting_buffer := (waiting_buffer s)[i := (waiting_buffer s ! i)\<lparr>tap_count := 1\<rparr>]\<rparr>"
    have e: "waiting_buffer_scan_tap c s = run_tapping_key c ?t"
      using False i by (auto simp: waiting_buffer_scan_tap_def settled_def word_gt_0)
    have b: "same_buffer s ?t"
      using same_buffer_counted [OF rel, of 1] by (simp add: same_buffer_def)
    note r = run_tapping_key_account [OF refl, of ?t]
    have "settled (tapping_key ?t)" by (simp add: settled_def)
    then have "pending_key (run_tapping_key c ?t) = {#}" using r(2) by (simp add: pending_key_def)
    moreover have "pending_key s = {#event (tapping_key s)#}" using False by (simp add: pending_key_def)
    ultimately show ?thesis
      using r(1,3) b same_buffer_trans by (auto simp: e account_def)
  qed
  then show "account (waiting_buffer_scan_tap c s) = account s" "same_buffer s (waiting_buffer_scan_tap c s)" by auto
qed

text \<open>
  One step: \<open>extra\<close> are the releases the machine makes up; a step that consumes its event accounts for it,
  and one that does not leaves its event alone.
\<close>

definition step_ok :: "keyrecord \<Rightarrow> 'w tap_state \<Rightarrow> 'w tap_result \<Rightarrow> bool" where
  "step_ok r s res = (case res of (ok, r', s') \<Rightarrow>
     same_buffer s s' \<and>
     (\<exists>extra. (\<forall>x \<in># extra. \<not> pressed x) \<and>
        account s' = account s + extra + (if ok \<and> IS_EVENT (event r) then {#event r#} else {#})) \<and>
     (ok \<or> event r' = event r \<and> (fresh r \<longrightarrow> fresh r')))"

lemma step_okI:
  "same_buffer s s' \<Longrightarrow> account s' = account s + (if ok \<and> IS_EVENT (event r) then {#event r#} else {#}) \<Longrightarrow>
    ok \<or> event r' = event r \<and> (fresh r \<longrightarrow> fresh r') \<Longrightarrow> step_ok r s (ok, r', s')"
  unfolding step_ok_def by (auto intro: exI [of _ "{#}"])

lemma pass_on_ok: "IS_EVENT (event r) \<Longrightarrow> step_ok r s (pass_on c r s)"
proof -
  assume e: "IS_EVENT (event r)"
  obtain r' s' where k: "run_key c r s = (r', s')" by (cases "run_key c r s")
  show "step_ok r s (pass_on c r s)"
    using e run_key_account [OF k] by (auto simp: pass_on_def k account_def pending_key_def intro!: step_okI)
qed

lemma settle_hold_ok: "\<not> settled (tapping_key s) \<Longrightarrow> step_ok r s (settle_hold c r s)"
  using run_tapping_key_account [OF refl, of s]
  by (auto simp: settle_hold_def account_def pending_key_def settled_def empty_record_def IS_NOEVENT_def intro!: step_okI)

lemma start_tap_ok:
  assumes "tap_wf s" "IS_EVENT (event r)" "pressed (event r)" "fresh r" "settled (tapping_key s)"
  shows "step_ok r s (start_tap c r s)"
proof -
  have "pending_key (s\<lparr>tapping_key := r\<rparr>) = {#event r#}" "pending_key s = {#}"
    using assms by (auto simp: pending_key_def settled_def fresh_def IS_EVENT_def IS_NOEVENT_def)
  then show ?thesis
    using scan_account [of "s\<lparr>tapping_key := r\<rparr>"] assms
    by (auto simp: start_tap_def account_def tap_wf_def intro!: step_okI)
qed

lemma pt_idle_ok:
  assumes "tap_wf s" "fresh r" "IS_NOEVENT (event (tapping_key s))"
  shows "step_ok r s (pt_idle c r s)"
proof -
  let ?s = "s\<lparr>world := tap_hint c r (world s)\<rparr>"
  have w: "tap_wf ?s" "settled (tapping_key ?s)" "account ?s = account s"
    using assms by (simp_all add: tap_wf_def settled_def account_def did_def pending_key_def hint_executed)
  have "step_ok r s (start_tap c r ?s)" if "IS_EVENT (event r)" "pressed (event r)"
    using start_tap_ok [OF w(1) that assms(2) w(2)] w(3) unfolding step_ok_def by simp
  then show ?thesis
    using pass_on_ok [of r s] by (auto simp: pt_idle_def intro!: step_okI)
qed

lemma pt_undecided_ok:
  assumes "tap_wf s" "IS_EVENT (event r)" "\<not> settled (tapping_key s)"
  shows "step_ok r s (pt_undecided c r s)"
proof -
  let ?t = "s\<lparr>tapping_key := (tapping_key s)\<lparr>tap_count := 1\<rparr>\<rparr>"
    and ?i = "s\<lparr>tapping_key := (tapping_key s)\<lparr>interrupted := True\<rparr>\<rparr>"
  note r = run_tapping_key_account [OF refl, of ?t]
  have q: "settled (tapping_key (run_tapping_key c ?t))" using r(2) by (simp add: settled_def)
  have tap: "step_ok r s (False, copy_tap x r, run_tapping_key c ?t)" if "\<not> pressed (event r)" for x
    using r(1,3) q assms(3) that by (intro step_okI) (auto simp: account_def pending_key_def fresh_def)
  have i: "account ?i = account s" "\<not> settled (tapping_key ?i)"
    using assms(3) by (simp_all add: account_def pending_key_def settled_def)
  have "step_ok r s (settle_hold c r ?i)" "step_ok r s (False, r, ?i)"
    using settle_hold_ok [OF i(2), of r] i(1) by (simp_all add: step_ok_def)
  then show ?thesis
    using tap settle_hold_ok [OF assms(3)] pass_on_ok [OF assms(2)]
    by (auto simp: pt_undecided_def Let_def intro!: step_okI)
qed

lemma pt_tapped_ok:
  assumes "tap_wf s" "IS_EVENT (event r)" "fresh r" "settled (tapping_key s)"
  shows "step_ok r s (pt_tapped c timeout r s)"
proof -
  have rel: "step_ok r s (True, r', s'\<lparr>tapping_key := k\<rparr>)"
    if "run_key c (copy_tap (tapping_key s) r) s = (r', s')" "\<not> pressed (event r)" "k = empty_record \<or> k = r'" for r' s' k
  proof -
    have "settled r'" using run_key_account(2) [OF that(1)] that(2) by (simp add: settled_def)
    then have "settled k" using that(3) by (auto simp: settled_def empty_record_def IS_NOEVENT_def)
    then show ?thesis using run_key_account [OF that(1)] assms(2,4)
      by (intro step_okI) (auto simp: account_def pending_key_def)
  qed
  let ?m = "snd (run_key c (made_up_release c (event r) s) s)"
  obtain r1 s1 where m: "run_key c (made_up_release c (event r) s) s = (r1, s1)" by (metis prod.exhaust)
  note ma = run_key_account [OF m]
  have np: "\<not> pressed (event (made_up_release c (event r) s))" by (simp add: made_up_release_def Let_def)
  have new: "step_ok r s (start_tap c r s1)" if "pressed (event r)"
  proof -
    have "step_ok r s1 (start_tap c r s1)"
      using start_tap_ok [OF same_buffer_wf [OF assms(1) ma(3)] assms(2) that assms(3)] assms(4) ma(4) by simp
    then obtain extra where x: "\<forall>x \<in># extra. \<not> pressed x"
      "account (snd (snd (start_tap c r s1))) = account s1 + extra + {#event r#}"
      "same_buffer s1 (snd (snd (start_tap c r s1)))"
      using assms(2) by (auto simp: step_ok_def start_tap_def)
    have "account s1 = account s + {#event (made_up_release c (event r) s)#}"
      using ma(1,4) by (simp add: account_def pending_key_def)
    then show ?thesis
      using x assms(2) same_buffer_trans [OF ma(3)] np unfolding step_ok_def start_tap_def
      by (auto intro!: exI [of _ "extra + {#event (made_up_release c (event r) s)#}"])
  qed
  show ?thesis
    using rel new start_tap_ok [OF assms(1,2) _ assms(3,4)] pass_on_ok [OF assms(2), of s] m
    by (auto simp: pt_tapped_def Let_def split: prod.splits)
qed

lemma pt_released_ok:
  assumes "tap_wf s" "fresh r" "IS_EVENT (event (tapping_key s))" "\<not> pressed (event (tapping_key s))"
  shows "step_ok r s (pt_released c r s)"
proof -
  have st: "settled (tapping_key s)" using assms(4) by (simp add: settled_def)
  have se: "settled empty_record" by (simp add: settled_def empty_record_def IS_NOEVENT_def)
  let ?i = "s\<lparr>tapping_key := (tapping_key s)\<lparr>interrupted := True\<rparr>\<rparr>"
  have i: "account ?i = account s" using st by (simp add: account_def pending_key_def settled_def)
  have other: "step_ok r s (pass_on c r ?i)" if "IS_EVENT (event r)"
    using pass_on_ok [OF that, of ?i] i by (simp add: step_ok_def)
  have again: "step_ok r s (True, r, s\<lparr>tapping_key := r\<rparr>)" if "IS_EVENT (event r)" "pressed (event r)"
    using that assms(2) st
    by (intro step_okI) (auto simp: account_def pending_key_def settled_def fresh_def IS_EVENT_def IS_NOEVENT_def)
  have seq: "step_ok r s (True, r', s'\<lparr>tapping_key := r'\<rparr>)"
    if "run_key c k s = (r', s')" "event k = event r" "tap_count k \<noteq> 0" "IS_EVENT (event r)" for k r' s'
    using run_key_account [OF that(1)] that(2-) st
    by (intro step_okI) (auto simp: account_def pending_key_def settled_def [of k])
  have out: "step_ok r s (False, r, s\<lparr>tapping_key := empty_record\<rparr>)"
    using st se by (intro step_okI) (auto simp: account_def pending_key_def)
  have tick: "step_ok r s (True, r, s)" if "IS_NOEVENT (event r)"
    using that by (intro step_okI) (auto simp: IS_EVENT_def IS_NOEVENT_def)
  have ev: "IS_EVENT (event r)" if "\<not> IS_NOEVENT (event r)" using that by (simp add: IS_EVENT_def IS_NOEVENT_def)
  show ?thesis
  proof (cases "within_tapping_term c (event r) s \<and> \<not> IS_NOEVENT (event r) \<and> pressed (event r)")
    case False
    then show ?thesis
      using out tick pass_on_ok [OF ev] by (simp add: pt_released_def Let_def) blast
  next
    case True
    note e = ev [OF conjunct1 [OF conjunct2 [OF True]]]
    show ?thesis
    proof (cases "is_tapping_record c r s")
      case tapping: True
      obtain r' s' where run: "run_key c (next_tap (tapping_key s) r) s = (r', s')" by (metis prod.exhaust)
      have "event (next_tap (tapping_key s) r) = event r" by (simp add: next_tap_def Let_def)
      moreover have "tap_count (next_tap (tapping_key s) r) \<noteq> 0" if "tap_count (tapping_key s) > 0"
        using tap_count_up [of "tap_count (tapping_key s)"] that by (auto simp: next_tap_def Let_def word_gt_0)
      ultimately show ?thesis
        using seq [OF run] again True e tapping by (simp add: pt_released_def Let_def run)
    next
      case False
      then show ?thesis
        using True other [OF e] start_tap_ok [OF assms(1) e _ assms(2) st]
        by (simp add: pt_released_def Let_def)
    qed
  qed
qed

lemma process_tapping_ok:
  assumes "tap_wf s" "fresh r"
  shows "step_ok r s (process_tapping c r s)"
proof -
  have tick: "step_ok r s (True, r, s)" if "IS_NOEVENT (event r)"
    using that by (intro step_okI) (auto simp: IS_EVENT_def IS_NOEVENT_def)
  have ev: "IS_EVENT e = (\<not> IS_NOEVENT e)" for e by (simp add: IS_EVENT_def IS_NOEVENT_def)
  show ?thesis
    using tick pt_idle_ok [OF assms] pt_undecided_ok [OF assms(1), of r] pt_tapped_ok [OF assms(1) _ assms(2)]
      settle_hold_ok [of s r] pt_released_ok [OF assms]
    by (simp add: process_tapping_def ev settled_def)
qed

text \<open>Everything that is executed or still waiting to be.\<close>

definition ledger :: "'w tap_state \<Rightarrow> keyevent multiset" where
  "ledger s = account s + waiting_events s"

lemma waiting_slots_Cons:
  assumes "tap_wf s" "waiting_buffer_tail s \<noteq> waiting_buffer_head s"
  shows "waiting_slots s = waiting_buffer_tail s # waiting_slots (s\<lparr>waiting_buffer_tail := next_slot (waiting_buffer_tail s)\<rparr>)"
    "waiting_count s = Suc (waiting_count (s\<lparr>waiting_buffer_tail := next_slot (waiting_buffer_tail s)\<rparr>))"
proof -
  let ?t = "waiting_buffer_tail s" and ?h = "waiting_buffer_head s"
  have b: "?t < 8" "?h < 8" using assms(1) by (simp_all add: tap_wf_def WAITING_BUFFER_SIZE_def)
  have c: "(?h + 8 - ?t) mod 8 = Suc ((?h + 8 - (?t + 1) mod 8) mod 8)"
  proof -
    have "list_all (\<lambda>t. list_all (\<lambda>h. t = h \<or> (h + 8 - t) mod 8 = Suc ((h + 8 - (t + 1) mod 8) mod 8)) [0..<8]) [0..<8::nat]"
      by code_simp
    then show ?thesis using b assms(2) unfolding list_all_iff by (metis atLeastLessThan_iff set_upt zero_le)
  qed
  show n: "waiting_count s = Suc (waiting_count (s\<lparr>waiting_buffer_tail := next_slot ?t\<rparr>))"
    using c by (simp add: waiting_count_def next_slot_def WAITING_BUFFER_SIZE_def)
  have "(?t + Suc k) mod 8 = ((?t + 1) mod 8 + k) mod 8" for k by (simp add: mod_add_left_eq)
  then have "waiting_slots s = ?t mod 8 # waiting_slots (s\<lparr>waiting_buffer_tail := next_slot ?t\<rparr>)"
    unfolding waiting_slots_def n by (simp add: next_slot_def WAITING_BUFFER_SIZE_def upt_conv_Cons map_Suc_upt [symmetric] del: upt_Suc)
  then show "waiting_slots s = ?t # waiting_slots (s\<lparr>waiting_buffer_tail := next_slot ?t\<rparr>)" using b by simp
qed

lemma distinct_slots: "distinct (waiting_slots s)"
proof -
  have "waiting_count s \<le> 8" by (simp add: waiting_count_def WAITING_BUFFER_SIZE_def)
  then have "inj_on (\<lambda>k. (waiting_buffer_tail s + k) mod 8) {0..<waiting_count s}"
  proof (intro inj_onI)
    fix a b assume ab: "a \<in> {0..<waiting_count s}" "b \<in> {0..<waiting_count s}"
      and "(waiting_buffer_tail s + a) mod 8 = (waiting_buffer_tail s + b) mod 8"
    then have "a mod 8 = b mod 8" unfolding nat_mod_eq_iff by (metis add.assoc add_left_cancel)
    then show "a = b" using ab \<open>waiting_count s \<le> 8\<close> by simp
  qed
  then show ?thesis by (simp add: waiting_slots_def WAITING_BUFFER_SIZE_def distinct_map)
qed

lemma process_waiting_ok:
  assumes "tap_wf s" "n = waiting_count s"
  shows "tap_wf (process_waiting n c s) \<and>
    (\<exists>extra. (\<forall>x \<in># extra. \<not> pressed x) \<and> ledger (process_waiting n c s) = ledger s + extra)"
  using assms
proof (induction n arbitrary: s)
  case 0
  then show ?case by (auto intro: exI [of _ "{#}"])
next
  case (Suc n)
  let ?i = "waiting_buffer_tail s"
  have False: "waiting_buffer_tail s \<noteq> waiting_buffer_head s"
    using Suc.prems(2) by (auto simp: waiting_count_def WAITING_BUFFER_SIZE_def)
  note slots = waiting_slots_Cons [OF Suc.prems(1) False]
  let ?r = "waiting_buffer s ! ?i"
  have il: "?i < length (waiting_buffer s)" using Suc.prems(1) by (simp add: tap_wf_def)
  have fr: "fresh ?r" using Suc.prems(1) slots(1) by (simp add: tap_wf_def)
  obtain ok r' s1 where p: "process_tapping c ?r s = (ok, r', s1)" by (metis prod.exhaust)
  then obtain extra where x: "same_buffer s s1" "\<forall>x \<in># extra. \<not> pressed x"
    "account s1 = account s + extra + (if ok \<and> IS_EVENT (event ?r) then {#event ?r#} else {#})"
    "ok \<or> event r' = event ?r \<and> (fresh ?r \<longrightarrow> fresh r')"
    using process_tapping_ok [OF Suc.prems(1) fr] by (auto simp: step_ok_def)
  note w1 = same_buffer_wf [OF Suc.prems(1) x(1)] and e1 = same_buffer_events [OF Suc.prems(1) x(1)]
  have t1: "waiting_buffer_tail s1 = ?i" "waiting_buffer_head s1 = waiting_buffer_head s"
    "length (waiting_buffer s1) = length (waiting_buffer s)" "event (waiting_buffer s1 ! ?i) = event ?r"
    using x(1) il by (simp_all add: same_buffer_def)
  let ?s2 = "s1\<lparr>waiting_buffer := (waiting_buffer s1)[?i := r']\<rparr>"
  show ?case
  proof (cases ok)
    case ok: True
    let ?s3 = "?s2\<lparr>waiting_buffer_tail := next_slot ?i\<rparr>"
    have ne: "waiting_buffer_tail s1 \<noteq> waiting_buffer_head s1" using False t1 by simp
    note sl1 = waiting_slots_Cons [OF w1 ne, unfolded t1]
    have sl3: "waiting_slots ?s3 = waiting_slots (s1\<lparr>waiting_buffer_tail := next_slot ?i\<rparr>)"
      "waiting_count ?s3 = waiting_count (s1\<lparr>waiting_buffer_tail := next_slot ?i\<rparr>)"
      by (simp_all add: waiting_slots_def waiting_count_def)
    have notin: "?i \<notin> set (waiting_slots ?s3)" using distinct_slots [of s1] sl1(1) sl3(1) by simp
    have same: "waiting_buffer ?s3 ! j = waiting_buffer s1 ! j" if "j \<in> set (waiting_slots ?s3)" for j
    proof -
      have "?i \<noteq> j" using notin that by blast
      then show ?thesis by simp
    qed
    have w3: "tap_wf ?s3"
      using w1 sl1(1) sl3(1) same by (auto simp: tap_wf_def next_slot_def WAITING_BUFFER_SIZE_def)
    have ev3: "map (\<lambda>j. event (waiting_buffer ?s3 ! j)) (waiting_slots ?s3) =
        map (\<lambda>j. event (waiting_buffer s1 ! j)) (waiting_slots (s1\<lparr>waiting_buffer_tail := next_slot ?i\<rparr>))"
      unfolding sl3(1) [symmetric] by (intro map_cong refl arg_cong [where f = event] same)
    have "waiting_events s1 = {#event ?r#} + waiting_events ?s3"
      unfolding waiting_events_def ev3 sl1(1) using t1(4) by simp
    moreover have "IS_EVENT (event ?r)" using Suc.prems(1) slots(1) by (simp add: tap_wf_def)
    moreover have "account ?s3 = account s1" by (simp add: account_def did_def pending_key_def)
    ultimately have l3: "ledger ?s3 = ledger s + extra" using x(3) e1 ok by (simp add: ledger_def)
    have n3: "n = waiting_count ?s3"
      using Suc.prems(2) slots(2) t1 by (simp add: waiting_count_def)
    from Suc.IH [OF w3 n3] obtain more where more: "tap_wf (process_waiting n c ?s3)" "\<forall>x \<in># more. \<not> pressed x"
      "ledger (process_waiting n c ?s3) = ledger ?s3 + more" by blast
    have "process_waiting (Suc n) c s = process_waiting n c ?s3" using p ok False by (simp add: Let_def)
    then show ?thesis using more x(2) l3 by (auto intro!: exI [of _ "extra + more"])
  next
    case notok: False
    have st: "waiting_slots ?s2 = waiting_slots s1" by simp
    have ent: "event (waiting_buffer ?s2 ! j) = event (waiting_buffer s1 ! j)"
      "fresh (waiting_buffer s1 ! j) \<Longrightarrow> fresh (waiting_buffer ?s2 ! j)" for j
      using x(4) notok fr t1 il by (cases "j = ?i"; simp)+
    have w2: "tap_wf ?s2" using w1 ent unfolding tap_wf_def st by simp
    have "waiting_events ?s2 = waiting_events s1" unfolding waiting_events_def st ent(1) ..
    moreover have "account ?s2 = account s1" by (simp add: account_def)
    ultimately have "ledger ?s2 = ledger s + extra" using x(3) e1 notok by (simp add: ledger_def)
    moreover have "process_waiting (Suc n) c s = ?s2" using p notok False by (simp add: Let_def)
    ultimately show ?thesis using w2 x(2) by auto
  qed
qed

lemma enqueue_ok:
  assumes "tap_wf s" "fresh r" "next_slot (waiting_buffer_head s) \<noteq> waiting_buffer_tail s"
  shows "tap_wf (enqueue_or_clear c r s) \<and>
    ledger (enqueue_or_clear c r s) = ledger s + (if IS_EVENT (event r) then {#event r#} else {#})"
proof (cases "IS_NOEVENT (event r)")
  case True
  then show ?thesis using assms(1) by (simp add: enqueue_or_clear_def waiting_buffer_enq_def IS_EVENT_def IS_NOEVENT_def)
next
  case False
  let ?h = "waiting_buffer_head s" and ?t = "waiting_buffer_tail s"
  let ?s = "s\<lparr>waiting_buffer := (waiting_buffer s)[?h := r], waiting_buffer_head := next_slot ?h\<rparr>"
  have b: "?h < 8" "?t < 8" "length (waiting_buffer s) = 8" using assms(1) by (simp_all add: tap_wf_def WAITING_BUFFER_SIZE_def)
  have ne: "(?h + 1) mod 8 \<noteq> ?t" using assms(3) by (simp add: next_slot_def WAITING_BUFFER_SIZE_def)
  have c: "waiting_count ?s = Suc (waiting_count s) \<and> (?t + waiting_count s) mod 8 = ?h"
  proof -
    have "list_all (\<lambda>t. list_all (\<lambda>h. (h + 1) mod 8 = t \<or> ((h + 1) mod 8 + 8 - t) mod 8 = Suc ((h + 8 - t) mod 8) \<and>
      (t + (h + 8 - t) mod 8) mod 8 = h) [0..<8]) [0..<8::nat]" by code_simp
    then have "((?h + 1) mod 8 + 8 - ?t) mod 8 = Suc ((?h + 8 - ?t) mod 8) \<and> (?t + (?h + 8 - ?t) mod 8) mod 8 = ?h"
      using b ne unfolding list_all_iff by (metis atLeastLessThan_iff set_upt zero_le)
    then show ?thesis by (simp add: waiting_count_def next_slot_def WAITING_BUFFER_SIZE_def)
  qed
  have sl: "waiting_slots ?s = waiting_slots s @ [?h]"
    using c unfolding waiting_slots_def by (simp add: WAITING_BUFFER_SIZE_def)
  have notin: "?h \<notin> set (waiting_slots s)" using distinct_slots [of ?s] sl by simp
  have same: "waiting_buffer ?s ! j = waiting_buffer s ! j" if "j \<in> set (waiting_slots s)" for j
  proof -
    have "?h \<noteq> j" using notin that by blast
    then show ?thesis by simp
  qed
  have hd: "waiting_buffer ?s ! ?h = r" using b by simp
  have ev: "IS_EVENT (event r)" using False by (simp add: IS_EVENT_def IS_NOEVENT_def)
  have w: "tap_wf ?s"
    using assms(1,2) b ev same hd unfolding tap_wf_def sl by (auto simp: next_slot_def WAITING_BUFFER_SIZE_def)
  have "map (\<lambda>j. event (waiting_buffer ?s ! j)) (waiting_slots s) = map (\<lambda>j. event (waiting_buffer s ! j)) (waiting_slots s)"
    by (intro map_cong refl arg_cong [where f = event] same)
  then have "waiting_events ?s = waiting_events s + {#event r#}"
    unfolding waiting_events_def sl by (simp only: map_append mset_append list.map mset.simps hd)
  moreover have "account ?s = account s" by (simp add: account_def did_def pending_key_def)
  moreover have "enqueue_or_clear c r s = ?s"
    using False assms(3) by (simp add: enqueue_or_clear_def waiting_buffer_enq_def)
  ultimately show ?thesis using w ev by (simp add: ledger_def)
qed

text \<open>One event: what was executed or pending before, the event, and made-up releases.\<close>

lemma action_tapping_process_ledger:
  assumes "tap_wf s" "fresh r" "next_slot (waiting_buffer_head s) \<noteq> waiting_buffer_tail s"
  shows "tap_wf (action_tapping_process c r s) \<and>
    (\<exists>extra. (\<forall>x \<in># extra. \<not> pressed x) \<and>
      ledger (action_tapping_process c r s) = ledger s + (if IS_EVENT (event r) then {#event r#} else {#}) + extra)"
proof -
  obtain ok r' s1 where p: "process_tapping c r s = (ok, r', s1)" by (metis prod.exhaust)
  then obtain extra where x: "same_buffer s s1" "\<forall>x \<in># extra. \<not> pressed x"
    "account s1 = account s + extra + (if ok \<and> IS_EVENT (event r) then {#event r#} else {#})"
    "ok \<or> event r' = event r \<and> (fresh r \<longrightarrow> fresh r')"
    using process_tapping_ok [OF assms(1,2)] by (auto simp: step_ok_def)
  note w1 = same_buffer_wf [OF assms(1) x(1)] and e1 = same_buffer_events [OF assms(1) x(1)]
  let ?s2 = "if ok then s1 else enqueue_or_clear c r' s1"
  have "tap_wf ?s2 \<and> ledger ?s2 = ledger s + (if IS_EVENT (event r) then {#event r#} else {#}) + extra"
  proof (cases ok)
    case True
    then show ?thesis using w1 x(3) e1 by (simp add: ledger_def)
  next
    case False
    have "next_slot (waiting_buffer_head s1) \<noteq> waiting_buffer_tail s1" using assms(3) x(1) by (simp add: same_buffer_def)
    then show ?thesis using enqueue_ok [OF w1, of r'] False x(3,4) e1 assms(2) by (simp add: ledger_def)
  qed
  moreover from this obtain more where "tap_wf (process_waiting (waiting_count ?s2) c ?s2)" "\<forall>x \<in># more. \<not> pressed x"
    "ledger (process_waiting (waiting_count ?s2) c ?s2) = ledger ?s2 + more"
    using process_waiting_ok [OF _ refl, of ?s2] by blast
  moreover have "action_tapping_process c r s = process_waiting (waiting_count ?s2) c ?s2"
    by (simp add: action_tapping_process_def p Let_def)
  ultimately show ?thesis using x(2) by (auto intro!: exI [of _ "extra + more"])
qed

end

section \<open>The machine of the firmware\<close>

text \<open>
  The machine over \<^verbatim>\<open>process_record\<close>, with the sequence of the processed records kept beside its state, for
  the builds without \<^verbatim>\<open>HOLD_ON_OTHER_KEY_PRESS\<close>. The terms and the permissive hold flag may depend on the
  record and the state, as the per-key functions do.
\<close>

definition tap_machine ::
    "('l::len word) process_cfg \<Rightarrow> (keyrecord \<Rightarrow> ('l word) process_state \<Rightarrow> nat) \<Rightarrow> (keyrecord \<Rightarrow> ('l word) process_state \<Rightarrow> nat) \<Rightarrow>
       (keyrecord \<Rightarrow> ('l word) process_state \<Rightarrow> bool) \<Rightarrow> bool \<Rightarrow> (('l word) process_state \<times> keyrecord list) tap_cfg" where
  "tap_machine pc0 tt quick permissive combo =
    (let pc = pc0\<lparr>hold_on_other_key_press := (\<lambda>_. False)\<rparr> in
     \<lparr>run_record = (\<lambda>r (p, d). let (r', p') = process_record pc r p in (r', p', d @ [r])),
      tap_hint = (\<lambda>r (p, d). (process_record_tap_hint pc r p, d)),
      is_tap = (\<lambda>r (p, d). is_tap_record pc r p),
      action_at = (\<lambda>k (p, d). layer_switch_get_action (lays pc) (lookup pc) k (core p)),
      clear_all = (\<lambda>(p, d). (on_core (clear_keyboard (act pc)) p, d)),
      tapping_term = (\<lambda>r (p, d). tt r p),
      quick_tap_term = (\<lambda>r (p, d). quick r p),
      permissive_hold = (\<lambda>r (p, d). permissive r p),
      hold_on_other = (\<lambda>r (p, d). False),
      COMBO_ENABLE = combo\<rparr>)"

lemma settled_released [simp]:
  "settled (r\<lparr>event := (event r)\<lparr>pressed := False\<rparr>\<rparr>)" "settled empty_record"
  by (simp_all add: settled_def empty_record_def IS_NOEVENT_def)

lemma switch_record:
  assumes "hold_on_other_key_press pc = (\<lambda>_. False)" "pa_switch pc r a rel p = (r', rel', p')"
  shows "r' = r \<or> r' = empty_record"
proof -
  have m: "fst (pa_mods_tap pc r a m q) = r" for m q
    using assms(1) by (simp add: pa_mods_tap_def pa_mod_tap_def Let_def)
  have s: "fst (pa_swap_hands pc r a q) = r \<or> fst (pa_swap_hands pc r a q) = empty_record" for q
    by (simp add: pa_swap_hands_def Let_def)
  have "fst (pa_switch pc r a rel p) = r \<or> fst (pa_switch pc r a rel p) = empty_record"
    using m [of "key_mods a" p] m [of "push_bit 4 (key_mods a)" p] s [of p]
    by (cases "kind_id a") (auto simp: pa_switch_def Let_def split: prod.split)
  then show ?thesis using assms(2) by simp
qed

lemma body_record:
  assumes "hold_on_other_key_press pc = (\<lambda>_. False)" "process_action_body pc r a p = (r', rel, p')"
  shows "r' = r \<or> r' = empty_record"
  using assms(2) by (auto simp: process_action_body_def Let_def split: prod.splits dest: switch_record [OF assms(1)])

lemma process_record_settled:
  assumes "hold_on_other_key_press pc = (\<lambda>_. False)" "settled r"
  shows "settled (fst (process_record pc r p))"
proof -
  have rel: "settled (fst (process_action_release pc r a p))" if "settled r" for r a p
    using that by (auto simp: process_action_release_def split: prod.split dest: body_record [OF assms(1)])
  have withr: "settled (fst (process_record_with f pc r p))"
    if "settled r" "\<And>a p. settled (fst (f r a p))" for f r p
    using that by (auto simp: process_record_with_def Let_def split: prod.splits) (metis fst_conv)
  have act: "settled (fst (process_action pc r a p))" for a p
  proof -
    obtain r1 flag p1 where b: "process_action_body pc r a p = (r1, flag, p1)" by (metis prod.exhaust)
    let ?r = "r1\<lparr>event := (event r1)\<lparr>pressed := False\<rparr>\<rparr>" and ?q = "on_core (\<lambda>s. layer_on (act pc) (get_oneshot_layer s) s) p1"
    have s1: "settled r1" using body_record [OF assms(1) b] assms(2) by auto
    have s2: "settled (fst (process_record_with (process_action_release pc) pc ?r ?q))"
      by (rule withr) (simp_all add: rel)
    obtain r2 p2 where n: "process_record_with (process_action_release pc) pc ?r ?q = (r2, p2)"
      by (cases "process_record_with (process_action_release pc) pc ?r ?q")
    have "fst (process_action pc r a p) = r1 \<or> fst (process_action pc r a p) = r2"
      by (simp add: process_action_def b Let_def n)
    then show ?thesis using s1 s2 unfolding n by auto
  qed
  then show ?thesis using withr [OF assms(2)] by (simp add: process_record_def)
qed

interpretation firmware: tap_client "tap_machine pc tt quick permissive combo" snd
  for pc :: "('l::len word) process_cfg" and tt quick permissive combo
proof
  fix r and w :: "('l word) process_state \<times> keyrecord list"
  let ?c = "tap_machine pc tt quick permissive combo"
  obtain p d where w: "w = (p, d)" by (cases w)
  show "snd (snd (run_record ?c r w)) = snd w @ [r]"
    by (simp add: tap_machine_def Let_def w split: prod.split)
  show "settled r \<Longrightarrow> settled (fst (run_record ?c r w))"
    using process_record_settled [of "pc\<lparr>hold_on_other_key_press := (\<lambda>_. False)\<rparr>" r p]
    by (simp add: tap_machine_def Let_def w split: prod.split) (metis fst_conv)
  show "snd (tap_hint ?c r w) = snd w" "snd (clear_all ?c w) = snd w"
    by (simp_all add: tap_machine_def Let_def w)
qed

section \<open>Properties\<close>

text \<open>The presses among the events that were executed or are pending: in the tapping key or in the buffer.\<close>

definition presses :: "keyevent multiset \<Rightarrow> keyevent multiset" where
  "presses M = filter_mset pressed M"

definition handled_presses :: "('p \<times> keyrecord list) tap_state \<Rightarrow> keyevent multiset" where
  "handled_presses s = presses (mset (map event (snd (world s))) + pending_key s + waiting_events s)"

lemma tapping_books:
  assumes "tap_wf s" and "fresh r" and "IS_EVENT (event r)"
    and "next_slot (waiting_buffer_head s) \<noteq> waiting_buffer_tail s"
    and "s' = action_tapping_process (tap_machine pc tt quick permissive combo) r s"
  shows "tap_wf s' \<and>
    handled_presses s' = handled_presses s + (if pressed (event r) then {#event r#} else {#}) \<and>
    mset (map event (snd (world s))) + pending_key s + waiting_events s + {#event r#} \<subseteq>#
      mset (map event (snd (world s'))) + pending_key s' + waiting_events s'"
proof -
  have l: "firmware.ledger t = mset (map event (snd (world t))) + pending_key t + waiting_events t" for t :: "(('a word) process_state \<times> keyrecord list) tap_state"
    by (simp add: firmware.ledger_def firmware.account_def firmware.did_def)
  obtain extra where x: "tap_wf s'" "\<forall>x \<in># extra. \<not> pressed x" "firmware.ledger s' = firmware.ledger s + {#event r#} + extra"
    using firmware.action_tapping_process_ledger [OF assms(1,2,4), of pc tt quick permissive combo] assms(3)
    unfolding assms(5) by auto
  have "filter_mset pressed extra = filter_mset (\<lambda>_. False) extra" using x(2) by (intro filter_mset_cong) auto
  then show ?thesis
    using x unfolding handled_presses_def presses_def l [symmetric] by (auto simp: subset_eq_diff_conv)
qed

text \<open>
  C2: whatever the tapping machine decides and however it reorders, one event adds exactly itself
  to the presses that were executed or still wait for their decision: as long as the buffer is not full,
  no key press is lost and none is executed twice; and no release is lost either.
\<close>

theorem tapping_loses_no_event:
  assumes "tap_wf s" and "fresh r" and "IS_EVENT (event r)"
    and "next_slot (waiting_buffer_head s) \<noteq> waiting_buffer_tail s"
    and "s' = action_tapping_process (tap_machine pc tt quick permissive combo) r s"
  shows "tap_wf s' \<and>
    handled_presses s' = handled_presses s + (if pressed (event r) then {#event r#} else {#}) \<and>
    mset (map event (snd (world s))) + pending_key s + waiting_events s + {#event r#} \<subseteq>#
      mset (map event (snd (world s'))) + pending_key s' + waiting_events s'"
  using tapping_books [OF assms] .

definition demo_machine :: "((16 word) process_state \<times> keyrecord list) tap_cfg" where
  "demo_machine = tap_machine demo_pc (\<lambda>_ _. 200) (\<lambda>_ _. 200) (\<lambda>_ _. False) False"

lemma tap_wf_init: "tap_wf (tap_init w)"
  by (simp add: tap_wf_def tap_init_def waiting_slots_def waiting_count_def WAITING_BUFFER_SIZE_def)

lemma tapping_loses_no_event_witness:
  "handled_presses (action_tapping_process demo_machine (demo_record 0 True) (tap_init (demo_process, []))) =
    {#event (demo_record 0 True)#}"
proof -
  have "handled_presses (tap_init (demo_process, []) :: ((16 word) process_state \<times> keyrecord list) tap_state) = {#}"
    by (simp add: handled_presses_def presses_def tap_init_def pending_key_def waiting_events_def waiting_slots_def
        waiting_count_def)
  then show ?thesis
    using tapping_loses_no_event [OF tap_wf_init _ _ _ refl, of "demo_record 0 True" "(demo_process, [])" demo_pc]
    by (simp add: demo_machine_def fresh_def demo_record_def IS_EVENT_def tap_init_def next_slot_def WAITING_BUFFER_SIZE_def)
qed

section \<open>Tap or hold\<close>

text \<open>An idle machine: no tapping key, and nothing waits.\<close>

definition idle :: "'w tap_state \<Rightarrow> bool" where
  "idle s \<longleftrightarrow> IS_NOEVENT (event (tapping_key s)) \<and> waiting_buffer_head s = waiting_buffer_tail s"

lemma idle_slots [simp]:
  "waiting_buffer_head s = waiting_buffer_tail s \<Longrightarrow> waiting_slots s = []"
  "waiting_buffer_head s = waiting_buffer_tail s \<Longrightarrow> waiting_count s = 0"
  by (simp_all add: waiting_slots_def waiting_count_def WAITING_BUFFER_SIZE_def)

lemma idle_press:
  assumes "idle s" "IS_EVENT (event r)" "pressed (event r)" "is_tap c r (world s)"
  shows "action_tapping_process c r s = s\<lparr>tapping_key := r, world := tap_hint c r (world s)\<rparr>"
  using assms
  by (simp add: action_tapping_process_def process_tapping_def pt_idle_def start_tap_def waiting_buffer_scan_tap_def
      idle_def Let_def)

text \<open>An event that was put into an empty buffer is what the loop processes next.\<close>

lemma enqueue_then_process:
  assumes "tap_wf s" "waiting_buffer_head s = waiting_buffer_tail s" "IS_EVENT (event r)"
    and "process_tapping c r (snd (waiting_buffer_enq r s)) = (True, r', s')"
  shows "\<exists>b t. process_waiting (waiting_count (enqueue_or_clear c r s)) c (enqueue_or_clear c r s) =
    s'\<lparr>waiting_buffer := b, waiting_buffer_tail := t\<rparr>"
proof -
  let ?h = "waiting_buffer_head s"
  let ?s = "s\<lparr>waiting_buffer := (waiting_buffer s)[?h := r], waiting_buffer_head := next_slot ?h\<rparr>"
  have h: "?h < 8" "length (waiting_buffer s) = 8" using assms(1) by (simp_all add: tap_wf_def WAITING_BUFFER_SIZE_def)
  have n: "next_slot ?h \<noteq> ?h" using h(1) by (auto simp: next_slot_def WAITING_BUFFER_SIZE_def mod_Suc)
  have e: "waiting_buffer_enq r s = (True, ?s)"
    using assms(2,3) n by (simp add: waiting_buffer_enq_def IS_EVENT_def IS_NOEVENT_def)
  have c: "waiting_count ?s = Suc 0"
    using h(1) assms(2) by (simp add: waiting_count_def next_slot_def WAITING_BUFFER_SIZE_def mod_Suc split: if_splits)
  have b: "waiting_buffer ?s ! ?h = r" using h by simp
  have "enqueue_or_clear c r s = ?s" by (simp add: enqueue_or_clear_def e)
  moreover have "process_waiting (Suc 0) c ?s = s'\<lparr>waiting_buffer := (waiting_buffer s')[?h := r'],
      waiting_buffer_tail := next_slot ?h\<rparr>"
    using assms(2,4) b n e by (simp add: Let_def)
  ultimately show ?thesis unfolding \<open>enqueue_or_clear c r s = ?s\<close> c by metis
qed

text \<open>The release of a lone tap key, inside of the term and after it.\<close>

lemma release_within_term:
  assumes "tap_wf s" "waiting_buffer_head s = waiting_buffer_tail s" "IS_EVENT (event (tapping_key s))"
    "pressed (event (tapping_key s))" "tap_count (tapping_key s) = 0" "\<And>x w. tapping_term c x w = T"
    and r: "IS_EVENT (event r)" "\<not> pressed (event r)" "key (event r) = key (event (tapping_key s))"
      "rec_keycode r = rec_keycode (tapping_key s)" "interrupted r = interrupted (tapping_key s)"
      "unat (timer_diff (event_time (event r)) (event_time (event (tapping_key s)))) < T"
    and one: "one = (tapping_key s)\<lparr>tap_count := 1\<rparr>" "run_record c one (world s) = (one, w2)"
      "run_record c (r\<lparr>tap_count := 1\<rparr>) w2 = (r3, w3)"
  shows "world (action_tapping_process c r s) = w3"
proof -
  let ?p = "tapping_key s" and ?one' = "r\<lparr>tap_count := 1\<rparr>" and ?s2 = "s\<lparr>tapping_key := one, world := w2\<rparr>"
  have ev: "\<not> IS_NOEVENT (event ?p)" "\<not> IS_NOEVENT (event r)" using assms(3) r(1) by (simp_all add: IS_EVENT_def IS_NOEVENT_def)
  have c1: "copy_tap one r = ?one'" using r(5) by (simp add: copy_tap_def one(1))
  have t: "run_tapping_key c (s\<lparr>tapping_key := one\<rparr>) = ?s2" by (simp add: run_tapping_key_def one(2))
  have p1: "process_tapping c r s = (False, ?one', ?s2)"
    using assms(4,5,6) r ev t c1
    by (simp add: process_tapping_def within_tapping_term_def pt_undecided_def is_tapping_record_def one(1) [symmetric] Let_def)
  let ?s3 = "snd (waiting_buffer_enq ?one' ?s2)"
  have k3: "tapping_key ?s3 = one" "world ?s3 = w2" by (simp_all add: waiting_buffer_enq_def)
  have "\<exists>r' s'. process_tapping c ?one' ?s3 = (True, r', s') \<and> world s' = w3"
  proof -
    have "copy_tap one ?one' = ?one'" using c1 by (simp add: copy_tap_def)
    then show ?thesis
      using assms(4,6) r ev one(3)
      by (simp add: process_tapping_def within_tapping_term_def k3 pt_tapped_def is_tapping_record_def run_key_def Let_def)
        (simp add: one(1))
  qed
  then obtain r' s' where f: "process_tapping c ?one' ?s3 = (True, r', s')" "world s' = w3" by blast
  have "tap_wf ?s2" "IS_EVENT (event ?one')" using assms(1) r(1) by (simp_all add: tap_wf_def)
  from enqueue_then_process [OF this(1) _ this(2) f(1)] assms(2) f(2) show ?thesis
    unfolding action_tapping_process_def p1 by (auto simp: Let_def)
qed

lemma release_after_term:
  assumes "tap_wf s" "waiting_buffer_head s = waiting_buffer_tail s" "IS_EVENT (event (tapping_key s))"
    "pressed (event (tapping_key s))" "tap_count (tapping_key s) = 0" "\<And>x w. tapping_term c x w = T"
    and r: "IS_EVENT (event r)" "\<not> pressed (event r)"
      "\<not> unat (timer_diff (event_time (event r)) (event_time (event (tapping_key s)))) < T"
    and run: "run_record c (tapping_key s) (world s) = (p', w2)" "run_record c r w2 = (r3, w3)"
  shows "world (action_tapping_process c r s) = w3"
proof -
  let ?s2 = "s\<lparr>tapping_key := empty_record, world := w2\<rparr>"
  have ev: "\<not> IS_NOEVENT (event (tapping_key s))" using assms(3) by (simp_all add: IS_EVENT_def IS_NOEVENT_def)
  have p1: "process_tapping c r s = (False, r, ?s2)"
    using assms(4,5,6) r(3) ev
    by (simp add: process_tapping_def within_tapping_term_def settle_hold_def run_tapping_key_def run(1))
  let ?s3 = "snd (waiting_buffer_enq r ?s2)"
  have k3: "tapping_key ?s3 = empty_record" "world ?s3 = w2" by (simp_all add: waiting_buffer_enq_def)
  have "\<exists>r' s'. process_tapping c r ?s3 = (True, r', s') \<and> world s' = w3"
    using r(1,2) by (simp add: process_tapping_def k3 pt_idle_def pass_on_def run_key_def run(2) Let_def)
      (simp add: empty_record_def IS_NOEVENT_def)
  then obtain r' s' where f: "process_tapping c r ?s3 = (True, r', s')" "world s' = w3" by blast
  have "tap_wf ?s2" using assms(1) by (simp add: tap_wf_def)
  from enqueue_then_process [OF this _ r(1) f(1)] assms(2) f(2) show ?thesis
    unfolding action_tapping_process_def p1 by (auto simp: Let_def)
qed

text \<open>
  C9: a tap key pressed on an idle machine and released \<open>d\<close> milliseconds later is executed as a
  tap (press and release with tap count 1) when \<open>d\<close> is below the tapping term, and as a hold (both with
  tap count 0) otherwise; in both cases exactly once, the press before the release.
\<close>

theorem tap_or_hold:
  fixes pc :: "('l::len word) process_cfg" and q :: "('l word) process_state" and T :: nat
    and quick :: "keyrecord \<Rightarrow> ('l word) process_state \<Rightarrow> nat" and permissive :: "keyrecord \<Rightarrow> ('l word) process_state \<Rightarrow> bool"
    and combo :: bool and p :: keyrecord
  defines "c \<equiv> tap_machine pc (\<lambda>_ _. T) quick permissive combo"
    and "one \<equiv> p\<lparr>tap_count := 1\<rparr>" and "P \<equiv> pc\<lparr>hold_on_other_key_press := (\<lambda>_. False)\<rparr>"
  assumes "tap_wf s" and "idle s" and "world s = (q, past)"
    and "IS_EVENT (event p)" and "pressed (event p)" and "is_tap_record P p q" and "tap_count p = 0"
    and "r = p\<lparr>event := (event p)\<lparr>event_time := event_time (event p) + of_nat d, pressed := False\<rparr>\<rparr>" and "d < 65536"
    and "fst (process_record P one (process_record_tap_hint P p q)) = one"
  shows "snd (world (action_tapping_process c r (action_tapping_process c p s))) =
    past @ (if d < T then [one, r\<lparr>tap_count := 1\<rparr>] else [p, r])"
proof -
  let ?q = "process_record_tap_hint P p q"
  let ?s1 = "s\<lparr>tapping_key := p, world := (?q, past)\<rparr>"
  have run: "run_record c x (y, l) = (fst (process_record P x y), snd (process_record P x y), l @ [x])" for x y l
    by (simp add: c_def tap_machine_def P_def Let_def split: prod.split)
  have tterm: "tapping_term c x y = T" for x y by (cases y) (simp add: c_def tap_machine_def Let_def)
  have "is_tap c p (world s)" "tap_hint c p (world s) = (?q, past)"
    using assms(6,9) by (simp_all add: c_def tap_machine_def P_def Let_def)
  then have s1: "action_tapping_process c p s = ?s1" using idle_press [OF assms(5,7,8)] by simp
  have diff: "unat (timer_diff (event_time (event r)) (event_time (event (tapping_key ?s1)))) = d"
    using assms(11,12) unat_timer_diff_add [of d "event_time (event p)"] by simp
  have ev: "IS_EVENT (event r)" "\<not> pressed (event r)" "key (event r) = key (event (tapping_key ?s1))"
    "rec_keycode r = rec_keycode (tapping_key ?s1)" "interrupted r = interrupted (tapping_key ?s1)" "r\<lparr>tap_count := 0\<rparr> = r"
    using assms(7,10,11) by (simp_all add: IS_EVENT_def)
  have st: "tap_wf ?s1" "waiting_buffer_head ?s1 = waiting_buffer_tail ?s1" "IS_EVENT (event (tapping_key ?s1))"
    "pressed (event (tapping_key ?s1))" "tap_count (tapping_key ?s1) = 0"
    using assms(4,5,7,8,10) by (simp_all add: tap_wf_def idle_def)
  have one: "run_record c one (world ?s1) = (one, snd (process_record P one ?q), past @ [one])"
    using run [of one ?q past] assms(13) by simp
  show ?thesis
  proof (cases "d < T")
    case True
    then show ?thesis
      using release_within_term [OF st tterm ev(1-5) _ _ one run, unfolded diff] s1 by (simp add: one_def)
  next
    case False
    then show ?thesis
      using release_after_term [OF st tterm ev(1,2) _ _ run, unfolded diff] s1 run [of p ?q past] by simp
  qed
qed

text \<open>A layer tap on the first key of the demo board: 100 ms is a tap, 300 ms is a hold.\<close>

definition tap_pc :: "(16 word) process_cfg" where
  "tap_pc = demo_pc\<lparr>lookup := action_for_key demo_lays (demo_tables\<lparr>keymaps := [[[LT 1 5, 4]], [[1, 1]], [[1, 5]]]\<rparr>) demo_tc\<rparr>"

definition tap_press :: keyrecord where
  "tap_press = (demo_record 0 True)\<lparr>event := (event (demo_record 0 True))\<lparr>event_time := 10\<rparr>\<rparr>"

lemma tap_press_facts:
  "is_tap_record (tap_pc\<lparr>hold_on_other_key_press := (\<lambda>_. False)\<rparr>) tap_press demo_process"
  by code_simp

lemma layer_tap_keeps_record:
  assumes "kind_id a = ACT_LAYER_TAP" "layer_tap_code a \<noteq> 0xF4" "\<not> is_oneshot_layer_active (core p)"
  shows "fst (process_action pc r a p) = r"
proof -
  have "\<not> clears_oneshot_layer pc r a (core p)" using assms(3) by (simp add: clears_oneshot_layer_def)
  moreover have "fst (pa_layer_tap pc pr n a False s) = False" for pr n s using assms(2) by (simp add: pa_layer_tap_def Let_def)
  then have "fst (pa_switch pc r a False q) = r \<and> \<not> fst (snd (pa_switch pc r a False q))" for q
    using assms(1) by (simp add: pa_switch_def Let_def case_prod_beta)
  ultimately show ?thesis
    by (simp add: process_action_def process_action_body_def Let_def case_prod_beta)
qed

lemma record_action_core: "core (snd (record_action pc r p)) = core p"
  by (simp add: record_action_def split: prod.split)

lemma tap_press_stays:
  "fst (process_record (tap_pc\<lparr>hold_on_other_key_press := (\<lambda>_. False)\<rparr>) (tap_press\<lparr>tap_count := 1\<rparr>)
     (process_record_tap_hint (tap_pc\<lparr>hold_on_other_key_press := (\<lambda>_. False)\<rparr>) tap_press demo_process)) = tap_press\<lparr>tap_count := 1\<rparr>"
proof -
  let ?P = "tap_pc\<lparr>hold_on_other_key_press := (\<lambda>_. False)\<rparr>" and ?r = "tap_press\<lparr>tap_count := 1\<rparr>"
  let ?a = "fst (record_action ?P ?r demo_process)"
  have "kind_id (layer_switch_get_action (lays ?P) (lookup ?P) (key (event tap_press)) (core demo_process)) = ACT_LAYER_TAP"
    by code_simp
  then have h: "process_record_tap_hint ?P tap_press demo_process = demo_process"
    by (simp add: process_record_tap_hint_def Let_def)
  have "?a = layer_switch_get_action (lays ?P) (lookup ?P) (key (event tap_press)) (core demo_process)"
    by (simp add: record_action_def store_or_get_action_def layer_switch_get_action_def tap_pc_def demo_pc_def demo_lays_def
        tap_press_def demo_record_def Let_def case_prod_beta)
  also have "\<dots> = 0xA105" by code_simp
  finally have e: "?a = 0xA105" .
  have "kind_id 0xA105 = ACT_LAYER_TAP" "layer_tap_code 0xA105 \<noteq> 0xF4" by code_simp+
  then have a: "kind_id ?a = ACT_LAYER_TAP" "layer_tap_code ?a \<noteq> 0xF4" unfolding e .
  have "\<not> is_oneshot_layer_active (core demo_process)" by code_simp
  note f = layer_tap_keeps_record [OF a, of "snd (record_action ?P ?r demo_process)" ?P ?r, unfolded record_action_core, OF this]
  have "\<not> IS_NOEVENT (event ?r)" "quantum ?P = (\<lambda>r p. (True, p))"
    by (simp_all add: tap_press_def demo_record_def IS_NOEVENT_def tap_pc_def demo_pc_def)
  then show ?thesis
    using f unfolding h by (simp add: process_record_def process_record_with_def Let_def case_prod_beta)
qed

lemma tap_or_hold_witness:
  "map tap_count (snd (world (let c = tap_machine tap_pc (\<lambda>_ _. 200) (\<lambda>_ _. 200) (\<lambda>_ _. False) False;
      up = tap_press\<lparr>event := (event tap_press)\<lparr>event_time := event_time (event tap_press) + of_nat 100, pressed := False\<rparr>\<rparr>
    in action_tapping_process c up (action_tapping_process c tap_press (tap_init (demo_process, [])))))) = [1, 1]"
proof -
  let ?w = "(demo_process, []) :: (16 word) process_state \<times> keyrecord list"
  have "idle (tap_init ?w)" by (simp add: idle_def tap_init_def empty_record_def IS_NOEVENT_def)
  moreover have "world (tap_init ?w) = (demo_process, [])" by (simp add: tap_init_def)
  moreover have "IS_EVENT (event tap_press)" "pressed (event tap_press)" "tap_count tap_press = 0"
    by (simp_all add: tap_press_def demo_record_def IS_EVENT_def)
  ultimately show ?thesis
    using tap_or_hold [OF tap_wf_init _ _ _ _ tap_press_facts _ refl _ tap_press_stays, of ?w "[]" 100 200 "\<lambda>_ _. 200" "\<lambda>_ _. False" False]
    by (simp add: Let_def)
qed

end
