(* ===== verification/ActionExec.thy ===== *)
theory ActionExec
  imports TappingProps
begin

text \<open>
  The entry of the action layer (\<^verbatim>\<open>action_exec\<close> of \<^verbatim>\<open>quantum/action.c\<close>): every event of the matrix goes
  through hand swapping, the timeouts of the one-shot keys, the pre-processing of the features and the
  tapping machine.
\<close>

section \<open>The entry\<close>

definition has_oneshot_swaphands_timed_out :: "'l action_cfg \<Rightarrow> 'l action_state \<Rightarrow> bool" where
  "has_oneshot_swaphands_timed_out cfg s \<longleftrightarrow>
     unat (timer_diff (now s) (oneshot_swaphands_time s)) \<ge> ONESHOT_TIMEOUT cfg \<and> swap_hands_oneshot s = SHO_ACTIVE"

definition expire_oneshots :: "('l::len word) action_cfg \<Rightarrow> ('l word) action_state \<Rightarrow> ('l word) action_state" where
  "expire_oneshots cfg s =
    (if \<not> NO_ACTION_ONESHOT cfg \<and> oneshot_enabled s \<and> ONESHOT_TIMEOUT cfg > 0 then
       (let s = (if has_oneshot_layer_timed_out cfg s then clear_oneshot_layer_state cfg ONESHOT_OTHER_KEY_PRESSED s else s);
            s = (if has_oneshot_mods_timed_out cfg s then clear_oneshot_mods cfg s else s)
        in if SWAP_HANDS_ENABLE cfg \<and> has_oneshot_swaphands_timed_out cfg s then clear_oneshot_swaphands cfg s else s)
     else s)"

text \<open>\<open>pre\<close> is \<^verbatim>\<open>pre_process_record_quantum\<close>; the world carries a second component the code does not see.\<close>

definition action_exec ::
    "('l::len word) process_cfg \<Rightarrow> (('l word) process_state \<times> 'g) tap_cfg \<Rightarrow>
       (keyrecord \<Rightarrow> ('l word) process_state \<Rightarrow> bool \<times> ('l word) process_state) \<Rightarrow> keyevent \<Rightarrow>
       (('l word) process_state \<times> 'g) tap_state \<Rightarrow> (('l word) process_state \<times> 'g) tap_state" where
  "action_exec pc c pre e0 s =
    (let (p, g) = world s;
         p = (if IS_EVENT e0 \<and> RETRO_TAPPING pc then p\<lparr>retro_tapping_counter := retro_tapping_counter p + 1\<rparr> else p);
         p = (if pressed e0 then on_core clear_weak_mods p else p);
         (e, p) = (if SWAP_HANDS_ENABLE (act pc) \<and> IS_EVENT e0 then process_hand_swap pc e0 p else (e0, p));
         r = \<lparr>event = e, interrupted = False, tap_count = 0, rec_keycode = 0\<rparr>;
         p = on_core (expire_oneshots (act pc)) p;
         (go, p) = (if IS_NOEVENT e then (True, p) else pre r p);
         s = s\<lparr>world := (p, g)\<rparr>
     in if \<not> go then s
        else if no_tapping pc then s\<lparr>world := snd (run_record c r (world s))\<rparr>
        else action_tapping_process c r s)"

section \<open>Hand swapping\<close>

definition swap_bit :: "u8 list \<Rightarrow> nat \<Rightarrow> bool" where
  "swap_bit st i = bit (st ! (i div 8)) (i mod 8)"

lemma should_swap_hands_bit: "should_swap_hands i st pr sw = (if pr then sw else swap_bit st i)"
proof -
  have "i mod 8 < 8" by simp
  then have "(st ! (i div 8) AND push_bit (i mod 8) 1 \<noteq> 0) = bit (st ! (i div 8)) (i mod 8)"
    by (simp add: bit_iff_and_push_bit_not_eq_0)
  then show ?thesis by (simp add: should_swap_hands_def swap_bit_def)
qed

lemma swap_bit_set:
  assumes "i div 8 < length st"
  shows "swap_bit (set_swap_hands_state i st b) j = (if j = i then b else swap_bit st j)"
proof -
  have m: "n mod 8 < 8" for n :: nat by simp
  have "j = i \<longleftrightarrow> j div 8 = i div 8 \<and> j mod 8 = i mod 8" by (metis div_mult_mod_eq)
  then show ?thesis using assms m [of i] m [of j]
    by (auto simp: set_swap_hands_state_def swap_bit_def Let_def nth_list_update bit_simps)
qed

lemma length_set_swap [simp]: "length (set_swap_hands_state i st b) = length st"
  by (simp add: set_swap_hands_state_def Let_def)

text \<open>The number of bytes the code reserves for the matrix.\<close>

definition swap_bytes :: "layer_cfg \<Rightarrow> nat" where
  "swap_bytes lc = (MATRIX_ROWS lc * MATRIX_COLS lc + 7) div 8"

definition on_matrix :: "layer_cfg \<Rightarrow> keyevent \<Rightarrow> bool" where
  "on_matrix lc e \<longleftrightarrow> IS_KEYEVENT e \<and> unat (row (key e)) < MATRIX_ROWS lc \<and> unat (col (key e)) < MATRIX_COLS lc"

definition key_index :: "layer_cfg \<Rightarrow> keypos \<Rightarrow> nat" where
  "key_index lc k = unat (row k) * MATRIX_COLS lc + unat (col k)"

lemma key_index_inj:
  assumes "unat (col k) < MATRIX_COLS lc" "unat (col k') < MATRIX_COLS lc" "key_index lc k = key_index lc k'"
  shows "k = k'"
proof -
  have "unat (row k) = key_index lc k div MATRIX_COLS lc" "unat (col k) = key_index lc k mod MATRIX_COLS lc"
    "unat (row k') = key_index lc k' div MATRIX_COLS lc" "unat (col k') = key_index lc k' mod MATRIX_COLS lc"
    using assms(1,2) by (simp_all add: key_index_def)
  then have "row k = row k'" "col k = col k'" using assms(3) by (simp_all add: word_unat_eq_iff)
  then show ?thesis by simp
qed

lemma key_index_lt:
  assumes "on_matrix lc e" "length st = swap_bytes lc"
  shows "key_index lc (key e) div 8 < length st"
proof -
  have "unat (row (key e)) * MATRIX_COLS lc + unat (col (key e)) < Suc (unat (row (key e))) * MATRIX_COLS lc"
    using assms(1) by (simp add: on_matrix_def)
  also have "\<dots> \<le> MATRIX_ROWS lc * MATRIX_COLS lc" using assms(1) by (intro mult_right_mono) (simp_all add: on_matrix_def Suc_leI)
  finally show ?thesis using assms(2) by (simp add: key_index_def swap_bytes_def)
qed

lemma process_hand_swap_matrix:
  assumes "on_matrix (lays pc) e" "length (matrix_swap_state p) = swap_bytes (lays pc)"
  shows "key (fst (process_hand_swap pc e p)) =
      (if (if pressed e then swap_hands (core p) else swap_bit (matrix_swap_state p) (key_index (lays pc) (key e)))
       then hand_swap_config pc (unat (row (key e))) (unat (col (key e))) else key e)"
    "swap_bit (matrix_swap_state (snd (process_hand_swap pc e p))) i =
      (if i = key_index (lays pc) (key e)
       then (if pressed e then swap_hands (core p) else swap_bit (matrix_swap_state p) (key_index (lays pc) (key e)))
       else swap_bit (matrix_swap_state p) i)"
  using assms(1) swap_bit_set [OF key_index_lt [OF assms], of _ i]
  by (auto simp: process_hand_swap_def on_matrix_def Let_def should_swap_hands_bit key_index_def)

lemma process_hand_swap_other:
  assumes "\<not> on_matrix (lays pc) e"
  shows "matrix_swap_state (snd (process_hand_swap pc e p)) = matrix_swap_state p"
  using assms by (auto simp: process_hand_swap_def on_matrix_def Let_def)

lemma process_hand_swap_length [simp]:
  "length (matrix_swap_state (snd (process_hand_swap pc e p))) = length (matrix_swap_state p)"
  by (simp add: process_hand_swap_def Let_def)

lemma set_swap_hands_matrix [simp]: "matrix_swap_state (set_swap_hands b p) = matrix_swap_state p"
  by (simp add: set_swap_hands_def on_core_def)

text \<open>Further events, and a setting of the hands before each of them.\<close>

definition later_events :: "'l process_cfg \<Rightarrow> (keyevent \<times> bool) list \<Rightarrow> 'l process_state \<Rightarrow> 'l process_state" where
  "later_events pc es p = fold (\<lambda>(e, sw) p. snd (process_hand_swap pc e (set_swap_hands sw p))) es p"

lemma later_events_keep_bit:
  assumes "length (matrix_swap_state p) = swap_bytes (lays pc)" "unat (col k) < MATRIX_COLS (lays pc)"
    "\<forall>(e, sw) \<in> set es. key e \<noteq> k \<or> \<not> IS_KEYEVENT e"
  shows "length (matrix_swap_state (later_events pc es p)) = swap_bytes (lays pc) \<and>
    swap_bit (matrix_swap_state (later_events pc es p)) (key_index (lays pc) k) =
      swap_bit (matrix_swap_state p) (key_index (lays pc) k)"
  using assms
proof (induction es arbitrary: p)
  case Nil
  then show ?case by (simp add: later_events_def)
next
  case (Cons x es)
  obtain e sw where x: "x = (e, sw)" by (cases x)
  let ?p = "set_swap_hands sw p" and ?q = "snd (process_hand_swap pc e (set_swap_hands sw p))"
  have "swap_bit (matrix_swap_state ?q) (key_index (lays pc) k) = swap_bit (matrix_swap_state p) (key_index (lays pc) k)"
  proof (cases "on_matrix (lays pc) e")
    case True
    then have "key_index (lays pc) k \<noteq> key_index (lays pc) (key e)"
      using Cons.prems(2,3) key_index_inj [of k "lays pc" "key e"] by (auto simp: x on_matrix_def)
    then show ?thesis using process_hand_swap_matrix(2) [OF True, of ?p] Cons.prems(1) by simp
  next
    case False
    then show ?thesis by (simp add: process_hand_swap_other)
  qed
  then show ?case using Cons.IH [of ?q] Cons.prems by (simp add: later_events_def x)
qed

text \<open>
  C12: a key that was swapped to the other hand when it was pressed is released at the same place,
  whatever happens to the swap setting and to other keys in between: no swapped key gets stuck.
\<close>

theorem hand_swap_release_follows_press:
  assumes "on_matrix (lays pc) down" and "pressed down" and "length (matrix_swap_state p) = swap_bytes (lays pc)"
    and "\<forall>(e, sw) \<in> set others. key e \<noteq> key down \<or> \<not> IS_KEYEVENT e"
    and "up = down\<lparr>event_time := t, pressed := False\<rparr>"
  shows "key (fst (process_hand_swap pc up (later_events pc others (snd (process_hand_swap pc down p))))) =
    key (fst (process_hand_swap pc down p))"
proof -
  let ?p = "snd (process_hand_swap pc down p)" and ?i = "key_index (lays pc) (key down)"
  have up: "on_matrix (lays pc) up" "\<not> pressed up" "key up = key down"
    using assms(1,5) by (simp_all add: on_matrix_def IS_KEYEVENT_def)
  have l: "length (matrix_swap_state ?p) = swap_bytes (lays pc)" using assms(3) by simp
  have k: "unat (col (key down)) < MATRIX_COLS (lays pc)" using assms(1) by (simp add: on_matrix_def)
  note keep = later_events_keep_bit [OF l k assms(4)]
  show ?thesis
    using process_hand_swap_matrix(1) [OF up(1)] process_hand_swap_matrix [OF assms(1,3)] keep up(2,3) assms(2) by simp
qed

definition mirror_pc :: "(16 word) process_cfg" where
  "mirror_pc = demo_pc\<lparr>hand_swap_config := (\<lambda>r c. \<lparr>col = of_nat (1 - c), row = of_nat r\<rparr>)\<rparr>"

lemma hand_swap_release_follows_press_witness:
  "key (fst (process_hand_swap mirror_pc ((event (demo_record 0 True))\<lparr>event_time := 9, pressed := False\<rparr>)
     (later_events mirror_pc [(event (demo_record 1 True), False)]
       (snd (process_hand_swap mirror_pc (event (demo_record 0 True)) (set_swap_hands True demo_process)))))) =
   \<lparr>col = 1, row = 0\<rparr>"
proof -
  have m: "on_matrix (lays mirror_pc) (event (demo_record 0 True))" "pressed (event (demo_record 0 True))"
    by (simp_all add: on_matrix_def mirror_pc_def demo_pc_def demo_lays_def demo_record_def IS_KEYEVENT_def)
  have l: "length (matrix_swap_state (set_swap_hands True demo_process)) = swap_bytes (lays mirror_pc)"
    by (simp add: demo_process_def swap_bytes_def mirror_pc_def demo_pc_def demo_lays_def)
  have o: "\<forall>(e, sw) \<in> set [(event (demo_record 1 True), False)]. key e \<noteq> key (event (demo_record 0 True)) \<or> \<not> IS_KEYEVENT e"
    by (simp add: demo_record_def)
  have "swap_hands (core (set_swap_hands True demo_process))" by (simp add: set_swap_hands_def on_core_def)
  then have "key (fst (process_hand_swap mirror_pc (event (demo_record 0 True)) (set_swap_hands True demo_process))) =
      \<lparr>col = 1, row = 0\<rparr>"
    using process_hand_swap_matrix(1) [OF m(1) l] m(2) by (simp add: mirror_pc_def demo_record_def)
  then show ?thesis
    using hand_swap_release_follows_press [OF m l o refl, of 9] by simp
qed

section \<open>One event\<close>

lemma tap_wf_world [simp]: "tap_wf (s\<lparr>world := w\<rparr>) = tap_wf s"
  by (simp add: tap_wf_def)

lemma handled_presses_world: "snd w = snd (world s) \<Longrightarrow> handled_presses (s\<lparr>world := w\<rparr>) = handled_presses s"
  by (simp add: handled_presses_def pending_key_def waiting_events_def)

lemma process_hand_swap_event:
  "pressed (fst (process_hand_swap pc e p)) = pressed e" "event_type (fst (process_hand_swap pc e p)) = event_type e"
  by (simp_all add: process_hand_swap_def Let_def)

lemma process_hand_swap_core:
  assumes "matrix_swap_state q = matrix_swap_state p" "encoder_swap_state q = encoder_swap_state p"
    "swap_hands (core q) = swap_hands (core p)"
  shows "fst (process_hand_swap pc e q) = fst (process_hand_swap pc e p)"
  using assms by (auto simp: process_hand_swap_def Let_def)

text \<open>
  C1: in a build with tapping and without \<^verbatim>\<open>HOLD_ON_OTHER_KEY_PRESS\<close>, while the waiting buffer has a free slot, an event
  of the matrix that no feature swallows is executed or kept for later exactly once, at its own key or at the
  mirrored one when hands are swapped; whatever the timeouts, the tapping machine and the layers do, the presses handled so far
  grow by exactly this event. (With no free slot the firmware clears the buffer, and the events in it are lost.)
\<close>

theorem action_exec_adds_its_event:
  assumes "tap_wf s" and "IS_EVENT e" and "next_slot (waiting_buffer_head s) \<noteq> waiting_buffer_tail s"
    and "\<not> no_tapping pc" and "\<And>r p. fst (pre r p)"
    and "s' = action_exec pc (tap_machine pc tt quick permissive combo) pre e s"
    and "e' = (if SWAP_HANDS_ENABLE (act pc) then fst (process_hand_swap pc e (fst (world s))) else e)"
  shows "tap_wf s' \<and> handled_presses s' = handled_presses s + (if pressed e then {#e'#} else {#})"
proof -
  obtain p g where w: "world s = (p, g)" by (cases "world s")
  let ?p1 = "if RETRO_TAPPING pc then p\<lparr>retro_tapping_counter := retro_tapping_counter p + 1\<rparr> else p"
  let ?p2 = "if pressed e then on_core clear_weak_mods ?p1 else ?p1"
  have same: "matrix_swap_state ?p2 = matrix_swap_state p" "encoder_swap_state ?p2 = encoder_swap_state p"
    "swap_hands (core ?p2) = swap_hands (core p)"
    by (simp_all add: on_core_def clear_weak_mods_def)
  let ?r = "\<lparr>event = e', interrupted = False, tap_count = 0, rec_keycode = 0\<rparr>"
  have e': "pressed e' = pressed e" "IS_EVENT e'" "\<not> IS_NOEVENT e'"
    using assms(2) unfolding assms(7) by (simp_all add: process_hand_swap_event IS_EVENT_def IS_NOEVENT_def)
  have "\<exists>q. s' = action_tapping_process (tap_machine pc tt quick permissive combo) ?r (s\<lparr>world := (q, g)\<rparr>)"
  proof -
    let ?hs = "if SWAP_HANDS_ENABLE (act pc) then process_hand_swap pc e ?p2 else (e, ?p2)"
    have f: "fst ?hs = e'" using process_hand_swap_core [OF same, of pc e] w by (simp add: assms(7))
    obtain p3 where h: "?hs = (e', p3)" using f by (cases ?hs) simp
    obtain q where q: "pre ?r (on_core (expire_oneshots (act pc)) p3) = (True, q)"
      using assms(5) [of ?r "on_core (expire_oneshots (act pc)) p3"] by (metis prod.collapse)
    have "s' = action_tapping_process (tap_machine pc tt quick permissive combo) ?r (s\<lparr>world := (q, g)\<rparr>)"
      using h assms(2,4) e'(3) q by (simp add: assms(6) action_exec_def w Let_def)
    then show ?thesis by blast
  qed
  then obtain q where s': "s' = action_tapping_process (tap_machine pc tt quick permissive combo) ?r (s\<lparr>world := (q, g)\<rparr>)" ..
  have wf: "tap_wf (s\<lparr>world := (q, g)\<rparr>)" "fresh ?r" "IS_EVENT (event ?r)"
    "next_slot (waiting_buffer_head (s\<lparr>world := (q, g)\<rparr>)) \<noteq> waiting_buffer_tail (s\<lparr>world := (q, g)\<rparr>)"
    using assms(1,3) e'(2) by (simp_all add: fresh_def)
  show ?thesis
    using tapping_books [OF wf s'] handled_presses_world [of "(q, g)" s] w e'(1) by simp
qed

lemma action_exec_adds_its_event_witness:
  "handled_presses (action_exec mirror_pc (tap_machine mirror_pc (\<lambda>_ _. 200) (\<lambda>_ _. 200) (\<lambda>_ _. False) False) (\<lambda>r p. (True, p))
     (event (demo_record 0 True)) (tap_init (set_swap_hands True demo_process, []))) =
   {#(event (demo_record 0 True))\<lparr>key := \<lparr>col = 1, row = 0\<rparr>\<rparr>#}"
proof -
  let ?e = "event (demo_record 0 True)" and ?w = "(set_swap_hands True demo_process, []) :: (16 word) process_state \<times> keyrecord list"
  have e: "fst (process_hand_swap mirror_pc ?e (set_swap_hands True demo_process)) = ?e\<lparr>key := \<lparr>col = 1, row = 0\<rparr>\<rparr>"
    by (simp add: process_hand_swap_def mirror_pc_def demo_pc_def demo_lays_def demo_record_def IS_KEYEVENT_def
        should_swap_hands_def set_swap_hands_def on_core_def)
  have n: "next_slot (waiting_buffer_head (tap_init ?w)) \<noteq> waiting_buffer_tail (tap_init ?w)"
    by (simp add: tap_init_def next_slot_def WAITING_BUFFER_SIZE_def)
  have p: "IS_EVENT ?e" "\<not> no_tapping mirror_pc" "SWAP_HANDS_ENABLE (act mirror_pc)" "pressed ?e"
    by (simp_all add: demo_record_def IS_EVENT_def mirror_pc_def demo_pc_def usb_cfg_def)
  have h: "handled_presses (tap_init ?w) = {#}" "fst (world (tap_init ?w)) = set_swap_hands True demo_process"
    by (simp_all add: handled_presses_def presses_def tap_init_def pending_key_def waiting_events_def waiting_slots_def
        waiting_count_def)
  show ?thesis
    using action_exec_adds_its_event [OF tap_wf_init p(1) n p(2) _ refl refl, of "\<lambda>r p. (True, p)" "\<lambda>_ _. 200" "\<lambda>_ _. 200" "\<lambda>_ _. False" False]
      p(3,4) h e by simp
qed

end
