(* ===== verification/Eeprom.thy ===== *)
theory Eeprom
  imports WearLevelingStore "HOL-Library.Monad_Syntax"
begin

text \<open>
  The EEPROM interface (\<^verbatim>\<open>drivers/eeprom/eeprom_driver.c\<close>) over the block operations of a driver, two
  drivers (\<^verbatim>\<open>eeprom_transient.c\<close> in RAM and \<^verbatim>\<open>eeprom_wear_leveling.c\<close> on the wear-leveled flash), and
  the contract between them: the locale \<open>eeprom\<close>.
\<close>

section \<open>Byte, word and block access\<close>

text \<open>
  \<open>read_block a n buf\<close> is what the caller's buffer of \<open>n\<close> bytes holds after the read when it held \<open>buf\<close>
  before; None is an access outside of the memory of the driver. The MCUs are little-endian, so a word
  of the C code is the word of its bytes, the lowest first.
\<close>

record 'e eeprom_ops =
  read_block :: "nat \<Rightarrow> nat \<Rightarrow> u8 list \<Rightarrow> 'e \<Rightarrow> u8 list option"
  write_block :: "u8 list \<Rightarrow> nat \<Rightarrow> 'e \<Rightarrow> 'e option"

fun le_value :: "u8 list \<Rightarrow> 'w::len word" where
  "le_value [] = 0"
| "le_value (b # bs) = ucast b OR push_bit 8 (le_value bs)"

fun le_bytes :: "nat \<Rightarrow> 'w::len word \<Rightarrow> u8 list" where
  "le_bytes 0 w = []"
| "le_bytes (Suc n) w = ucast w # le_bytes n (drop_bit 8 w)"

definition eeprom_read_byte :: "'e eeprom_ops \<Rightarrow> nat \<Rightarrow> 'e \<Rightarrow> u8 option" where
  "eeprom_read_byte ops a e = map_option le_value (read_block ops a 1 [0] e)"

definition eeprom_read_word :: "'e eeprom_ops \<Rightarrow> nat \<Rightarrow> 'e \<Rightarrow> u16 option" where
  "eeprom_read_word ops a e = map_option le_value (read_block ops a 2 [0, 0] e)"

definition eeprom_read_dword :: "'e eeprom_ops \<Rightarrow> nat \<Rightarrow> 'e \<Rightarrow> u32 option" where
  "eeprom_read_dword ops a e = map_option le_value (read_block ops a 4 [0, 0, 0, 0] e)"

definition eeprom_write_byte :: "'e eeprom_ops \<Rightarrow> nat \<Rightarrow> u8 \<Rightarrow> 'e \<Rightarrow> 'e option" where
  "eeprom_write_byte ops a v e = write_block ops (le_bytes 1 v) a e"

definition eeprom_write_word :: "'e eeprom_ops \<Rightarrow> nat \<Rightarrow> u16 \<Rightarrow> 'e \<Rightarrow> 'e option" where
  "eeprom_write_word ops a v e = write_block ops (le_bytes 2 v) a e"

definition eeprom_write_dword :: "'e eeprom_ops \<Rightarrow> nat \<Rightarrow> u32 \<Rightarrow> 'e \<Rightarrow> 'e option" where
  "eeprom_write_dword ops a v e = write_block ops (le_bytes 4 v) a e"

text \<open>\<open>junk\<close> is what the uninitialised buffer on the stack holds.\<close>

definition eeprom_update_block :: "'e eeprom_ops \<Rightarrow> u8 list \<Rightarrow> u8 list \<Rightarrow> nat \<Rightarrow> 'e \<Rightarrow> 'e option" where
  "eeprom_update_block ops junk buf a e =
    do { old \<leftarrow> read_block ops a (length buf) junk e; if old \<noteq> buf then write_block ops buf a e else Some e }"

definition eeprom_update_byte :: "'e eeprom_ops \<Rightarrow> nat \<Rightarrow> u8 \<Rightarrow> 'e \<Rightarrow> 'e option" where
  "eeprom_update_byte ops a v e =
    do { orig \<leftarrow> eeprom_read_byte ops a e; if orig \<noteq> v then eeprom_write_byte ops a v e else Some e }"

definition eeprom_update_word :: "'e eeprom_ops \<Rightarrow> nat \<Rightarrow> u16 \<Rightarrow> 'e \<Rightarrow> 'e option" where
  "eeprom_update_word ops a v e =
    do { orig \<leftarrow> eeprom_read_word ops a e; if orig \<noteq> v then eeprom_write_word ops a v e else Some e }"

definition eeprom_update_dword :: "'e eeprom_ops \<Rightarrow> nat \<Rightarrow> u32 \<Rightarrow> 'e \<Rightarrow> 'e option" where
  "eeprom_update_dword ops a v e =
    do { orig \<leftarrow> eeprom_read_dword ops a e; if orig \<noteq> v then eeprom_write_dword ops a v e else Some e }"

section \<open>The transient driver\<close>

text \<open>
  The buffer is \<^verbatim>\<open>TRANSIENT_EEPROM_SIZE\<close> bytes of RAM. Offsets and lengths are machine words of
  \<^verbatim>\<open>size_t\<close>; the subtraction of \<^verbatim>\<open>clamp_length\<close> wraps when the offset is behind the buffer.
\<close>

definition clamp_length :: "nat \<Rightarrow> u32 \<Rightarrow> u32 \<Rightarrow> u32" where
  "clamp_length sz offset len = (if offset + len > of_nat sz then of_nat sz - offset else len)"

definition transient_init :: "nat \<Rightarrow> u8 list" where
  "transient_init sz = zeros sz"

definition transient_read :: "nat \<Rightarrow> nat \<Rightarrow> u8 list \<Rightarrow> u8 list \<Rightarrow> u8 list option" where
  "transient_read a n buf e =
    (let len = unat (clamp_length (length e) (of_nat a) (of_nat n)) in
     if len = 0 then Some (zeros n)
     else if a + len > length e \<or> len > n then None
     else Some (bytes_at e a len @ zeros (n - len)))"

definition transient_write :: "u8 list \<Rightarrow> nat \<Rightarrow> u8 list \<Rightarrow> u8 list option" where
  "transient_write buf a e =
    (let len = unat (clamp_length (length e) (of_nat a) (of_nat (length buf))) in
     if len = 0 then Some e
     else if a + len > length e \<or> len > length buf then None
     else Some (blit e a (take len buf)))"

definition transient_ops :: "(u8 list) eeprom_ops" where
  "transient_ops = \<lparr>read_block = transient_read, write_block = transient_write\<rparr>"

section \<open>The driver on the wear-leveled flash\<close>

text \<open>The results of the wear-leveling calls are ignored; a failed read leaves the buffer as it was.\<close>

definition wl_eeprom_init :: "wl_config \<Rightarrow> 'd backing_ops \<Rightarrow> 'd wear_leveling \<Rightarrow> 'd wear_leveling" where
  "wl_eeprom_init c b s = snd (wear_leveling_init c b s)"

definition wl_eeprom_erase :: "wl_config \<Rightarrow> 'd backing_ops \<Rightarrow> 'd wear_leveling \<Rightarrow> 'd wear_leveling" where
  "wl_eeprom_erase c b s = snd (wear_leveling_erase c b s)"

definition wl_eeprom_read :: "wl_config \<Rightarrow> nat \<Rightarrow> nat \<Rightarrow> u8 list \<Rightarrow> 'd wear_leveling \<Rightarrow> u8 list option" where
  "wl_eeprom_read c a n buf s =
    (case wear_leveling_read c (a mod 2 ^ 32) n s of
       None \<Rightarrow> None | Some (st, None) \<Rightarrow> Some buf | Some (st, Some bs) \<Rightarrow> Some bs)"

definition wl_eeprom_write :: "wl_config \<Rightarrow> 'd backing_ops \<Rightarrow> u8 list \<Rightarrow> nat \<Rightarrow> 'd wear_leveling \<Rightarrow> 'd wear_leveling option" where
  "wl_eeprom_write c b buf a s = map_option snd (wear_leveling_write c b (a mod 2 ^ 32) buf s)"

definition wl_eeprom_ops :: "wl_config \<Rightarrow> 'd backing_ops \<Rightarrow> ('d wear_leveling) eeprom_ops" where
  "wl_eeprom_ops c b = \<lparr>read_block = wl_eeprom_read c, write_block = wl_eeprom_write c b\<rparr>"

section \<open>Words as bytes\<close>

lemma length_le_bytes [simp]: "length (le_bytes n w) = n"
  by (induction n arbitrary: w) simp_all

lemma bit_le_value:
  "bit (le_value bs :: 'w::len word) i \<longleftrightarrow> i < LENGTH('w) \<and> i div 8 < length bs \<and> bit (bs ! (i div 8)) (i mod 8)"
proof (induction bs arbitrary: i)
  case (Cons b bs)
  show ?case
  proof (cases "i < 8")
    case True
    then show ?thesis by (auto simp: bit_simps)
  next
    case False
    then have "i div 8 = Suc ((i - 8) div 8)" "i mod 8 = (i - 8) mod 8" by (simp_all add: div_if mod_if)
    then show ?thesis using False Cons.IH [of "i - 8"] by (auto simp: bit_simps dest: bit_imp_le_length)
  qed
qed simp

lemma le_value_bytes:
  assumes "LENGTH('w) \<le> 8 * n"
  shows "le_value (le_bytes n w) = (w :: 'w::len word)"
proof -
  have nth: "le_bytes n v ! k = ucast (drop_bit (8 * k) v)" if "k < n" for k n and v :: "'w word"
    using that by (induction n arbitrary: k v) (auto simp: nth_Cons drop_bit_drop_bit add.commute split: nat.split)
  show ?thesis
  proof (rule bit_word_eqI)
    fix i assume i: "i < LENGTH('w)"
    then have "i div 8 < n" using assms by linarith
    moreover have "8 * (i div 8) + i mod 8 = i" by simp
    ultimately show "bit (le_value (le_bytes n w) :: 'w word) i = bit w i"
      using i by (simp add: bit_le_value nth bit_simps)
  qed
qed

section \<open>The contract\<close>

text \<open>
  An EEPROM of \<open>cap\<close> bytes: accesses inside of it succeed, a read returns its contents and a write changes
  exactly the bytes it names.
\<close>

locale eeprom =
  fixes ops :: "'e eeprom_ops" and cap :: nat and bytes :: "'e \<Rightarrow> u8 list" and good :: "'e \<Rightarrow> bool"
  assumes bytes_length: "good e \<Longrightarrow> length (bytes e) = cap"
    and read_law: "good e \<Longrightarrow> a + n \<le> cap \<Longrightarrow> length buf = n \<Longrightarrow> read_block ops a n buf e = Some (bytes_at (bytes e) a n)"
    and write_law: "good e \<Longrightarrow> a + length p \<le> cap \<Longrightarrow>
      \<exists>e'. write_block ops p a e = Some e' \<and> good e' \<and> bytes e' = blit (bytes e) a p"

lemma bytes_at_one: "a < length xs \<Longrightarrow> bytes_at xs a 1 = [xs ! a]"
  by (simp add: bytes_at_def take_Suc hd_drop_conv_nth)

lemma blit_one: "a < length xs \<Longrightarrow> blit xs a [v] = xs[a := v]"
  by (simp add: blit_def upd_conv_take_nth_drop)

context eeprom
begin

lemma read_byte_law: "good e \<Longrightarrow> a < cap \<Longrightarrow> eeprom_read_byte ops a e = Some (bytes e ! a)"
  using read_law [of e a 1 "[0]"] bytes_length [of e] by (simp add: eeprom_read_byte_def bytes_at_one del: One_nat_def)

lemma update_byte_law:
  assumes "good e" "a < cap"
  shows "\<exists>e'. eeprom_update_byte ops a v e = Some e' \<and> good e' \<and> bytes e' = (bytes e)[a := v]"
proof (cases "bytes e ! a = v")
  case True
  then show ?thesis using assms read_byte_law by (simp add: eeprom_update_byte_def) (metis list_update_id)
next
  case False
  then show ?thesis
    using assms read_byte_law write_law [of e a "[v]"] bytes_length [of e]
    by (simp add: eeprom_update_byte_def eeprom_write_byte_def blit_one)
qed

lemma block_roundtrip:
  assumes "good e" "a + length p \<le> cap" "write_block ops p a e = Some e'" "length buf = length p"
  shows "read_block ops a (length p) buf e' = Some p"
  using write_law [OF assms(1,2)] read_law [of e' a "length p" buf] assms bytes_length [of e]
  by (auto simp: bytes_at_blit_same)

lemma word_roundtrip:
  assumes "good e" "a + 2 \<le> cap" "eeprom_write_word ops a v e = Some e'"
  shows "eeprom_read_word ops a e' = Some v"
  using block_roundtrip [of e a "le_bytes 2 v" e' "[0, 0]"] assms
  by (simp add: eeprom_write_word_def eeprom_read_word_def le_value_bytes del: le_bytes.simps)

lemma dword_roundtrip:
  assumes "good e" "a + 4 \<le> cap" "eeprom_write_dword ops a v e = Some e'"
  shows "eeprom_read_dword ops a e' = Some v"
  using block_roundtrip [of e a "le_bytes 4 v" e' "[0, 0, 0, 0]"] assms
  by (simp add: eeprom_write_dword_def eeprom_read_dword_def le_value_bytes del: le_bytes.simps)

lemma update_block_law:
  assumes "good e" "a + length p \<le> cap" "length junk = length p"
  shows "\<exists>e'. eeprom_update_block ops junk p a e = Some e' \<and> good e' \<and> bytes e' = blit (bytes e) a p"
  using read_law [OF assms(1,2,3)] write_law [OF assms(1,2)] assms bytes_length [of e]
  by (auto simp: eeprom_update_block_def blit_bytes_at)

end

section \<open>Both drivers meet it\<close>

lemma clamp_inside: "a + n \<le> sz \<Longrightarrow> sz < 2 ^ 32 \<Longrightarrow> unat (clamp_length sz (of_nat a) (of_nat n)) = n"
proof -
  assume s: "a + n \<le> sz" "sz < 2 ^ 32"
  have u: "unat (of_nat k :: u32) = k" if "k \<le> sz" for k using s(2) that by (simp add: unat_of_nat take_bit_nat_eq_self)
  have "(of_nat a + of_nat n :: u32) = of_nat (a + n)" by simp
  moreover have "\<not> (of_nat (a + n) :: u32) > of_nat sz"
    unfolding word_less_nat_alt using u [of "a + n"] u [of sz] s(1) by simp
  ultimately show ?thesis using s(1) u [of n] by (simp add: clamp_length_def)
qed

interpretation transient: eeprom transient_ops sz "\<lambda>e. e" "\<lambda>e. length e = sz \<and> sz < 2 ^ 32"
proof
  fix e :: "u8 list" and a n and p buf :: "u8 list"
  assume g: "length e = sz \<and> sz < 2 ^ 32"
  show "a + n \<le> sz \<Longrightarrow> length buf = n \<Longrightarrow> read_block transient_ops a n buf e = Some (bytes_at e a n)"
    using g clamp_inside [of a n sz]
    by (auto simp: transient_ops_def transient_read_def Let_def bytes_at_def zeros_def)
  show "a + length p \<le> sz \<Longrightarrow> \<exists>e'. write_block transient_ops p a e = Some e' \<and> (length e' = sz \<and> sz < 2 ^ 32) \<and> e' = blit e a p"
    using g clamp_inside [of a "length p" sz]
    by (auto simp: transient_ops_def transient_write_def Let_def)
qed simp

lemma wl_eeprom_contract:
  assumes "reliable_store b c img dinv" "wl_config_ok c"
  shows "eeprom (wl_eeprom_ops c b) (logical_size c) cache (wl_inv c img dinv)"
proof
  have bs: "backing_store b c img dinv" using assms(1) by (rule reliable_store.axioms)
  fix s :: "'a wear_leveling" and a n and p buf :: "u8 list"
  assume s: "wl_inv c img dinv s"
  then show l: "length (cache s) = logical_size c" by (simp add: wl_inv_def holds_def)
  have small: "logical_size c < 2 ^ 32" using assms(2) by (simp add: wl_config_ok_def wl_static_asserts_def)
  show "a + n \<le> logical_size c \<Longrightarrow> length buf = n \<Longrightarrow>
      read_block (wl_eeprom_ops c b) a n buf s = Some (bytes_at (cache s) a n)"
    using l small by (simp add: wl_eeprom_ops_def wl_eeprom_read_def wear_leveling_read_def wl_guard_def)
  assume r: "a + length p \<le> logical_size c"
  obtain st s1 where w: "wear_leveling_write c b a p s = Some (st, s1)" "st \<noteq> WEAR_LEVELING_FAILED"
    using reliable_store.write_succeeds [OF assms s r] by blast
  note i = backing_store.write_law_full [OF bs assms(2) s w r]
  show "\<exists>e'. write_block (wl_eeprom_ops c b) p a s = Some e' \<and> wl_inv c img dinv e' \<and> cache e' = blit (cache s) a p"
    using i w r small by (auto simp: wl_eeprom_ops_def wl_eeprom_write_def)
qed

interpretation emulated: eeprom "wl_eeprom_ops c (mock_ops c mock_default)" "logical_size c" cache
    "\<lambda>s. wl_config_ok c \<and> wl_inv c mock_img (mock_inv c) s"
proof -
  have k: "eeprom (wl_eeprom_ops c (mock_ops c mock_default)) (logical_size c) cache (wl_inv c mock_img (mock_inv c))"
    if "wl_config_ok c" using wl_eeprom_contract [OF mock_reliable that] .
  show "eeprom (wl_eeprom_ops c (mock_ops c mock_default)) (logical_size c) cache
      (\<lambda>s. wl_config_ok c \<and> wl_inv c mock_img (mock_inv c) s)"
    using k by (auto simp: eeprom_def)
qed

text \<open>An offset behind the buffer wraps the length in \<^verbatim>\<open>clamp_length\<close>: the access leaves the buffer.\<close>

lemma unat_sub_wrap:
  fixes x y :: u32
  assumes "x < y"
  shows "unat (x - y) = unat x + 2 ^ 32 - unat y"
  using assms by (simp add: unat_sub_if' word_less_nat_alt)

lemma transient_read_behind_buffer:
  assumes "length e < a" and "a + n < 2 ^ 32"
  shows "transient_read a n buf e = None"
proof -
  have u: "unat (of_nat a :: u32) = a" "unat (of_nat n :: u32) = n" "unat (of_nat (length e) :: u32) = length e"
    using assms by (simp_all add: unat_of_nat take_bit_nat_eq_self)
  have s: "unat (of_nat a + of_nat n :: u32) = a + n" using assms(2) u by (subst unat_add_lem [THEN iffD1]) (simp_all add: take_bit_nat_eq_self)
  have "unat (clamp_length (length e) (of_nat a) (of_nat n)) = length e + 2 ^ 32 - a"
    using assms u s by (simp add: clamp_length_def word_less_nat_alt unat_sub_wrap)
  then show ?thesis using assms by (simp add: transient_read_def Let_def)
qed

end
