(* ===== verification/DynamicKeymap.thy ===== *)
theory DynamicKeymap
  imports Eeprom Keymap
begin

text \<open>
  Keymaps, encoder maps and macros kept in the EEPROM (\<^verbatim>\<open>quantum/dynamic_keymap.c\<close>), over the EEPROM
  interface. The addresses are offsets into the EEPROM; None is an access outside of it.
\<close>

section \<open>Layout\<close>

record dk_cfg =
  LAYER_COUNT :: nat
  DK_ROWS :: nat
  DK_COLS :: nat
  DK_ENCODERS :: nat
  DK_ENCODER_MAP :: bool
  EEPROM_ADDR :: nat
  EEPROM_MAX_ADDR :: nat
  MACRO_COUNT :: nat

definition keymap_bytes :: "dk_cfg \<Rightarrow> nat" where
  "keymap_bytes k = LAYER_COUNT k * DK_ROWS k * DK_COLS k * 2"

definition ENCODER_EEPROM_ADDR :: "dk_cfg \<Rightarrow> nat" where
  "ENCODER_EEPROM_ADDR k = EEPROM_ADDR k + keymap_bytes k"

definition MACRO_EEPROM_ADDR :: "dk_cfg \<Rightarrow> nat" where
  "MACRO_EEPROM_ADDR k = ENCODER_EEPROM_ADDR k + (if DK_ENCODER_MAP k then LAYER_COUNT k * DK_ENCODERS k * 2 * 2 else 0)"

definition MACRO_EEPROM_SIZE :: "dk_cfg \<Rightarrow> nat" where
  "MACRO_EEPROM_SIZE k = EEPROM_MAX_ADDR k - MACRO_EEPROM_ADDR k + 1"

text \<open>The checks of the preprocessor and the \<^verbatim>\<open>_Static_assert\<close>.\<close>

definition dk_static_asserts :: "dk_cfg \<Rightarrow> nat \<Rightarrow> bool" where
  "dk_static_asserts k tot \<longleftrightarrow>
     EEPROM_MAX_ADDR k \<le> tot - 1 \<and> 0 < tot \<and> EEPROM_MAX_ADDR k \<le> 65535 \<and> EEPROM_MAX_ADDR k \<ge> MACRO_EEPROM_ADDR k + 100"

section \<open>Keycodes\<close>

definition key_to_eeprom_address :: "dk_cfg \<Rightarrow> nat \<Rightarrow> nat \<Rightarrow> nat \<Rightarrow> nat" where
  "key_to_eeprom_address k layer rw cl =
     EEPROM_ADDR k + layer * DK_ROWS k * DK_COLS k * 2 + rw * DK_COLS k * 2 + cl * 2"

definition encoder_to_eeprom_address :: "dk_cfg \<Rightarrow> nat \<Rightarrow> nat \<Rightarrow> nat" where
  "encoder_to_eeprom_address k layer encoder_id = ENCODER_EEPROM_ADDR k + layer * DK_ENCODERS k * 2 * 2 + encoder_id * 2 * 2"

text \<open>Keycodes are stored with the high byte first.\<close>

definition read_be16 :: "'e eeprom_ops \<Rightarrow> nat \<Rightarrow> 'e \<Rightarrow> u16 option" where
  "read_be16 ops a e =
    do { hi \<leftarrow> eeprom_read_byte ops a e; lo \<leftarrow> eeprom_read_byte ops (a + 1) e;
         Some (push_bit 8 (ucast hi) OR ucast lo) }"

definition update_be16 :: "'e eeprom_ops \<Rightarrow> nat \<Rightarrow> u16 \<Rightarrow> 'e \<Rightarrow> 'e option" where
  "update_be16 ops a v e =
    do { e \<leftarrow> eeprom_update_byte ops a (ucast (drop_bit 8 v)) e; eeprom_update_byte ops (a + 1) (ucast (v AND 0xFF)) e }"

definition dynamic_keymap_get_keycode :: "dk_cfg \<Rightarrow> 'e eeprom_ops \<Rightarrow> nat \<Rightarrow> nat \<Rightarrow> nat \<Rightarrow> 'e \<Rightarrow> u16 option" where
  "dynamic_keymap_get_keycode k ops layer rw cl e =
    (if layer \<ge> LAYER_COUNT k \<or> rw \<ge> DK_ROWS k \<or> cl \<ge> DK_COLS k then Some 0
     else read_be16 ops (key_to_eeprom_address k layer rw cl) e)"

definition dynamic_keymap_set_keycode :: "dk_cfg \<Rightarrow> 'e eeprom_ops \<Rightarrow> nat \<Rightarrow> nat \<Rightarrow> nat \<Rightarrow> u16 \<Rightarrow> 'e \<Rightarrow> 'e option" where
  "dynamic_keymap_set_keycode k ops layer rw cl keycode e =
    (if layer \<ge> LAYER_COUNT k \<or> rw \<ge> DK_ROWS k \<or> cl \<ge> DK_COLS k then Some e
     else update_be16 ops (key_to_eeprom_address k layer rw cl) keycode e)"

definition dynamic_keymap_get_encoder :: "dk_cfg \<Rightarrow> 'e eeprom_ops \<Rightarrow> nat \<Rightarrow> nat \<Rightarrow> bool \<Rightarrow> 'e \<Rightarrow> u16 option" where
  "dynamic_keymap_get_encoder k ops layer encoder_id clockwise e =
    (if layer \<ge> LAYER_COUNT k \<or> encoder_id \<ge> DK_ENCODERS k then Some 0
     else read_be16 ops (encoder_to_eeprom_address k layer encoder_id + (if clockwise then 0 else 2)) e)"

definition dynamic_keymap_set_encoder :: "dk_cfg \<Rightarrow> 'e eeprom_ops \<Rightarrow> nat \<Rightarrow> nat \<Rightarrow> bool \<Rightarrow> u16 \<Rightarrow> 'e \<Rightarrow> 'e option" where
  "dynamic_keymap_set_encoder k ops layer encoder_id clockwise keycode e =
    (if layer \<ge> LAYER_COUNT k \<or> encoder_id \<ge> DK_ENCODERS k then Some e
     else update_be16 ops (encoder_to_eeprom_address k layer encoder_id + (if clockwise then 0 else 2)) keycode e)"

text \<open>Writes one after the other.\<close>

fun each :: "('a \<Rightarrow> 'e \<Rightarrow> 'e option) \<Rightarrow> 'a list \<Rightarrow> 'e \<Rightarrow> 'e option" where
  "each f [] e = Some e"
| "each f (x # xs) e = do { e \<leftarrow> f x e; each f xs e }"

text \<open>\<open>raw\<close> and \<open>raw_encoder\<close> are the keymap and the encoder map in flash.\<close>

definition reset_layer ::
    "dk_cfg \<Rightarrow> 'e eeprom_ops \<Rightarrow> (nat \<Rightarrow> nat \<Rightarrow> nat \<Rightarrow> u16) \<Rightarrow> (nat \<Rightarrow> nat \<Rightarrow> bool \<Rightarrow> u16) \<Rightarrow> nat \<Rightarrow> 'e \<Rightarrow> 'e option" where
  "reset_layer k ops raw raw_encoder layer e =
    do { e \<leftarrow> each (\<lambda>rw. each (\<lambda>cl. dynamic_keymap_set_keycode k ops layer rw cl (raw layer rw cl))
                 [0..<DK_COLS k]) [0..<DK_ROWS k] e;
         if DK_ENCODER_MAP k then
           each (\<lambda>enc e. do { e \<leftarrow> dynamic_keymap_set_encoder k ops layer enc True (raw_encoder layer enc True) e;
                               dynamic_keymap_set_encoder k ops layer enc False (raw_encoder layer enc False) e })
             [0..<DK_ENCODERS k] e
         else Some e }"

definition dynamic_keymap_reset ::
    "dk_cfg \<Rightarrow> 'e eeprom_ops \<Rightarrow> (nat \<Rightarrow> nat \<Rightarrow> nat \<Rightarrow> u16) \<Rightarrow> (nat \<Rightarrow> nat \<Rightarrow> bool \<Rightarrow> u16) \<Rightarrow> 'e \<Rightarrow> 'e option" where
  "dynamic_keymap_reset k ops raw raw_encoder e = each (reset_layer k ops raw raw_encoder) [0..<LAYER_COUNT k] e"

definition dynamic_keycode_at_keymap_location :: "dk_cfg \<Rightarrow> 'e eeprom_ops \<Rightarrow> nat \<Rightarrow> nat \<Rightarrow> nat \<Rightarrow> 'e \<Rightarrow> u16 option" where
  "dynamic_keycode_at_keymap_location k ops layer_num rw cl e =
    (if layer_num < LAYER_COUNT k \<and> rw < DK_ROWS k \<and> cl < DK_COLS k
     then dynamic_keymap_get_keycode k ops layer_num rw cl e else Some 0)"

definition dynamic_keycode_at_encodermap_location :: "dk_cfg \<Rightarrow> 'e eeprom_ops \<Rightarrow> nat \<Rightarrow> nat \<Rightarrow> bool \<Rightarrow> 'e \<Rightarrow> u16 option" where
  "dynamic_keycode_at_encodermap_location k ops layer_num encoder_idx clockwise e =
    (if layer_num < LAYER_COUNT k \<and> encoder_idx < DK_ENCODERS k
     then dynamic_keymap_get_encoder k ops layer_num encoder_idx clockwise e else Some 0)"

section \<open>Buffers\<close>

text \<open>The loops of the buffer functions: \<open>n\<close> bytes from offset \<open>i\<close> on, of which those below \<open>limit\<close> exist.\<close>

fun read_limited :: "'e eeprom_ops \<Rightarrow> nat \<Rightarrow> nat \<Rightarrow> nat \<Rightarrow> nat \<Rightarrow> 'e \<Rightarrow> u8 list option" where
  "read_limited ops base limit i 0 e = Some []"
| "read_limited ops base limit i (Suc n) e =
    do { b \<leftarrow> (if i < limit then eeprom_read_byte ops (base + i) e else Some 0);
         bs \<leftarrow> read_limited ops base limit (i + 1) n e; Some (b # bs) }"

fun update_limited :: "'e eeprom_ops \<Rightarrow> nat \<Rightarrow> nat \<Rightarrow> nat \<Rightarrow> u8 list \<Rightarrow> 'e \<Rightarrow> 'e option" where
  "update_limited ops base limit i [] e = Some e"
| "update_limited ops base limit i (b # bs) e =
    do { e \<leftarrow> (if i < limit then eeprom_update_byte ops (base + i) b e else Some e);
         update_limited ops base limit (i + 1) bs e }"

text \<open>The size of the keymap is kept in 16 bits here.\<close>

definition dynamic_keymap_get_buffer :: "dk_cfg \<Rightarrow> 'e eeprom_ops \<Rightarrow> u16 \<Rightarrow> u16 \<Rightarrow> 'e \<Rightarrow> u8 list option" where
  "dynamic_keymap_get_buffer k ops offset sz e =
     read_limited ops (EEPROM_ADDR k) (keymap_bytes k mod 2 ^ 16) (unat offset) (unat sz) e"

definition dynamic_keymap_set_buffer :: "dk_cfg \<Rightarrow> 'e eeprom_ops \<Rightarrow> u16 \<Rightarrow> u8 list \<Rightarrow> 'e \<Rightarrow> 'e option" where
  "dynamic_keymap_set_buffer k ops offset data e =
     update_limited ops (EEPROM_ADDR k) (keymap_bytes k mod 2 ^ 16) (unat offset) data e"

definition dynamic_keymap_macro_get_buffer :: "dk_cfg \<Rightarrow> 'e eeprom_ops \<Rightarrow> u16 \<Rightarrow> u16 \<Rightarrow> 'e \<Rightarrow> u8 list option" where
  "dynamic_keymap_macro_get_buffer k ops offset sz e =
     read_limited ops (MACRO_EEPROM_ADDR k) (MACRO_EEPROM_SIZE k) (unat offset) (unat sz) e"

definition dynamic_keymap_macro_set_buffer :: "dk_cfg \<Rightarrow> 'e eeprom_ops \<Rightarrow> u16 \<Rightarrow> u8 list \<Rightarrow> 'e \<Rightarrow> 'e option" where
  "dynamic_keymap_macro_set_buffer k ops offset data e =
     update_limited ops (MACRO_EEPROM_ADDR k) (MACRO_EEPROM_SIZE k) (unat offset) data e"

definition dynamic_keymap_macro_reset :: "dk_cfg \<Rightarrow> 'e eeprom_ops \<Rightarrow> 'e \<Rightarrow> 'e option" where
  "dynamic_keymap_macro_reset k ops e =
     each (\<lambda>p. eeprom_update_byte ops p 0) [MACRO_EEPROM_ADDR k..<MACRO_EEPROM_ADDR k + MACRO_EEPROM_SIZE k] e"

section \<open>Sending macros\<close>

text \<open>Skip \<open>n\<close> terminators from \<open>p\<close> on; Some None is the end of the buffer.\<close>

partial_function (option) skip_macros :: "'e eeprom_ops \<Rightarrow> nat \<Rightarrow> nat \<Rightarrow> nat \<Rightarrow> 'e \<Rightarrow> nat option option" where
  "skip_macros ops n p end_addr e =
    (if n = 0 then Some (Some p)
     else if p = end_addr then Some None
     else do { b \<leftarrow> eeprom_read_byte ops p e; skip_macros ops (if b = 0 then n - 1 else n) (p + 1) end_addr e })"

text \<open>
  The number of a delay, up to its bar: \<open>room\<close> is how many more bytes \<^verbatim>\<open>data\<close> takes. Some None is an abort.
\<close>

fun delay_digits :: "'e eeprom_ops \<Rightarrow> nat \<Rightarrow> nat \<Rightarrow> 'e \<Rightarrow> (u8 list \<times> nat) option option" where
  "delay_digits ops 0 p e = Some None"
| "delay_digits ops (Suc room) p e =
    do { b \<leftarrow> eeprom_read_byte ops p e;
         if b = 0 then Some None
         else if b = 0x7C then Some (Some ([b], p + 1))
         else do { r \<leftarrow> delay_digits ops room (p + 1) e;
                   Some (case r of None \<Rightarrow> None | Some (bs, q) \<Rightarrow> Some (b # bs, q)) } }"

text \<open>
  One string for \<^verbatim>\<open>send_string_with_delay\<close>, and where the next one starts. \<open>rest\<close> is what \<^verbatim>\<open>data\<close> holds
  from its third byte on, left from the strings before: a prefix with an unknown code sends it again.
\<close>

datatype macro_step = Stop | Abort | Send "u8 list" nat "u8 list"

definition up_to_nul :: "u8 list \<Rightarrow> u8 list" where
  "up_to_nul bs = takeWhile (\<lambda>b. b \<noteq> 0) bs"

definition overlay :: "u8 list \<Rightarrow> u8 list \<Rightarrow> u8 list" where
  "overlay new old = new @ drop (length new) old"

definition macro_next :: "'e eeprom_ops \<Rightarrow> nat \<Rightarrow> u8 list \<Rightarrow> 'e \<Rightarrow> macro_step option" where
  "macro_next ops p rest e =
    do { b \<leftarrow> eeprom_read_byte ops p e;
         if b = 0 then Some Stop
         else if b \<noteq> 1 then Some (Send [b] (p + 1) rest)
         else do { code \<leftarrow> eeprom_read_byte ops (p + 1) e;
           if code = 0 then Some Abort
           else if code = 1 \<or> code = 2 \<or> code = 3 then
             do { kc \<leftarrow> eeprom_read_byte ops (p + 2) e;
                  Some (if kc = 0 then Abort else Send [b, code, kc] (p + 3) (overlay [kc, 0] rest)) }
           else if code = 4 then
             do { r \<leftarrow> delay_digits ops 5 (p + 2) e;
                  Some (case r of None \<Rightarrow> Abort
                        | Some (bs, q) \<Rightarrow> Send (b # code # bs) q (overlay (bs @ [0]) rest)) }
           else Some (Send (b # code # up_to_nul rest) (p + 2) rest) } }"

partial_function (option) macro_strings :: "'e eeprom_ops \<Rightarrow> nat \<Rightarrow> u8 list \<Rightarrow> 'e \<Rightarrow> u8 list list option" where
  "macro_strings ops p rest e =
    do { s \<leftarrow> macro_next ops p rest e;
         (case s of Send str q rest' \<Rightarrow> do { ss \<leftarrow> macro_strings ops q rest' e; Some (str # ss) } | _ \<Rightarrow> Some []) }"

definition dynamic_keymap_macro_send :: "dk_cfg \<Rightarrow> 'e eeprom_ops \<Rightarrow> nat \<Rightarrow> 'e \<Rightarrow> u8 list list option" where
  "dynamic_keymap_macro_send k ops n e =
    (if n \<ge> MACRO_COUNT k then Some []
     else do { l \<leftarrow> eeprom_read_byte ops (MACRO_EEPROM_ADDR k + MACRO_EEPROM_SIZE k - 1) e;
       if l \<noteq> 0 then Some []
       else do { r \<leftarrow> skip_macros ops n (MACRO_EEPROM_ADDR k) (MACRO_EEPROM_ADDR k + MACRO_EEPROM_SIZE k) e;
         case r of None \<Rightarrow> Some [] | Some p \<Rightarrow> macro_strings ops p (replicate 6 0) e } })"

declare skip_macros.simps [code] macro_strings.simps [code]

end
