(* ===== verification/DynamicKeymapProps.thy ===== *)
theory DynamicKeymapProps
  imports DynamicKeymap
begin

text \<open>
  The dynamic keymap is a map from key positions and encoder directions to keycodes, on every EEPROM that
  meets the contract, and it survives power cycles on the wear-leveled flash.
\<close>

section \<open>Locations\<close>

text \<open>A place that holds a keycode, and its address.\<close>

datatype location = Key nat nat nat | Turn nat nat bool

fun valid :: "dk_cfg \<Rightarrow> location \<Rightarrow> bool" where
  "valid k (Key l r c) \<longleftrightarrow> l < LAYER_COUNT k \<and> r < DK_ROWS k \<and> c < DK_COLS k"
| "valid k (Turn l i cw) \<longleftrightarrow> DK_ENCODER_MAP k \<and> l < LAYER_COUNT k \<and> i < DK_ENCODERS k"

fun location_index :: "dk_cfg \<Rightarrow> location \<Rightarrow> nat" where
  "location_index k (Key l r c) = (l * DK_ROWS k + r) * DK_COLS k + c"
| "location_index k (Turn l i cw) =
     LAYER_COUNT k * DK_ROWS k * DK_COLS k + (l * DK_ENCODERS k + i) * 2 + (if cw then 0 else 1)"

definition location_address :: "dk_cfg \<Rightarrow> location \<Rightarrow> nat" where
  "location_address k x = EEPROM_ADDR k + 2 * location_index k x"

fun get_at :: "dk_cfg \<Rightarrow> 'e eeprom_ops \<Rightarrow> location \<Rightarrow> 'e \<Rightarrow> u16 option" where
  "get_at k ops (Key l r c) e = dynamic_keymap_get_keycode k ops l r c e"
| "get_at k ops (Turn l i cw) e = dynamic_keymap_get_encoder k ops l i cw e"

fun set_at :: "dk_cfg \<Rightarrow> 'e eeprom_ops \<Rightarrow> location \<Rightarrow> u16 \<Rightarrow> 'e \<Rightarrow> 'e option" where
  "set_at k ops (Key l r c) v e = dynamic_keymap_set_keycode k ops l r c v e"
| "set_at k ops (Turn l i cw) v e = dynamic_keymap_set_encoder k ops l i cw v e"

lemma get_at_address: "valid k x \<Longrightarrow> get_at k ops x e = read_be16 ops (location_address k x) e"
  by (cases x)
    (auto simp: dynamic_keymap_get_keycode_def dynamic_keymap_get_encoder_def location_address_def
      key_to_eeprom_address_def encoder_to_eeprom_address_def ENCODER_EEPROM_ADDR_def keymap_bytes_def algebra_simps)

lemma set_at_address: "valid k x \<Longrightarrow> set_at k ops x v e = update_be16 ops (location_address k x) v e"
  by (cases x)
    (auto simp: dynamic_keymap_set_keycode_def dynamic_keymap_set_encoder_def location_address_def
      key_to_eeprom_address_def encoder_to_eeprom_address_def ENCODER_EEPROM_ADDR_def keymap_bytes_def algebra_simps)

lemma mult_add_less: "a < m \<Longrightarrow> b < n \<Longrightarrow> a * n + b < m * (n :: nat)"
proof -
  assume "a < m" "b < n"
  then have "a * n + b < Suc a * n" by simp
  also have "\<dots> \<le> m * n" using \<open>a < m\<close> by (intro mult_right_mono) simp_all
  finally show ?thesis .
qed

lemma mult_add_inj:
  assumes "b < n" "b' < n" "a * n + b = a' * n + (b' :: nat)"
  shows "a = a' \<and> b = b'"
proof -
  have "a = (a * n + b) div n" "b = (a * n + b) mod n" "a' = (a' * n + b') div n" "b' = (a' * n + b') mod n"
    using assms(1,2) by simp_all
  then show ?thesis using assms(3) by metis
qed

lemma key_index_less: "valid k (Key l r c) \<Longrightarrow> location_index k (Key l r c) < LAYER_COUNT k * DK_ROWS k * DK_COLS k"
  using mult_add_less [of l "LAYER_COUNT k" r "DK_ROWS k"] mult_add_less [of "l * DK_ROWS k + r" "LAYER_COUNT k * DK_ROWS k" c "DK_COLS k"]
  by simp

lemma location_index_inj:
  assumes "valid k x" "valid k y" "location_index k x = location_index k y"
  shows "x = y"
proof (cases x)
  case x: (Key l r c)
  show ?thesis
  proof (cases y)
    case y: (Key l' r' c')
    have "l * DK_ROWS k + r = l' * DK_ROWS k + r' \<and> c = c'" using assms by (intro mult_add_inj [of _ "DK_COLS k"]) (simp_all add: x y)
    moreover from this have "l = l' \<and> r = r'" using assms by (intro mult_add_inj [of _ "DK_ROWS k"]) (simp_all add: x y)
    ultimately show ?thesis by (simp add: x y)
  next
    case (Turn l' i' cw')
    then show ?thesis using assms key_index_less [of k l r c] x by simp
  qed
next
  case x: (Turn l i cw)
  show ?thesis
  proof (cases y)
    case (Key l' r' c')
    then show ?thesis using assms key_index_less [of k l' r' c'] x by simp
  next
    case y: (Turn l' i' cw')
    have "l * DK_ENCODERS k + i = l' * DK_ENCODERS k + i' \<and> (if cw then 0 else 1) = (if cw' then 0 else (1 :: nat))"
      using assms by (intro mult_add_inj [of _ 2]) (simp_all add: x y)
    moreover from this have "l = l' \<and> i = i'" using assms by (intro mult_add_inj [of _ "DK_ENCODERS k"]) (simp_all add: x y)
    ultimately show ?thesis by (auto simp: x y split: if_splits)
  qed
qed

lemma location_before_macros: "valid k x \<Longrightarrow> location_address k x + 2 \<le> MACRO_EEPROM_ADDR k"
proof (cases x)
  case (Key l r c)
  then show "valid k x \<Longrightarrow> ?thesis"
    using key_index_less [of k l r c]
    by (simp add: location_address_def MACRO_EEPROM_ADDR_def ENCODER_EEPROM_ADDR_def keymap_bytes_def)
next
  case (Turn l i cw)
  then show "valid k x \<Longrightarrow> ?thesis"
    using mult_add_less [of l "LAYER_COUNT k" i "DK_ENCODERS k"]
    by (simp add: location_address_def MACRO_EEPROM_ADDR_def ENCODER_EEPROM_ADDR_def keymap_bytes_def)
qed

section \<open>Reading and writing one place\<close>

lemma be16_roundtrip:
  "push_bit 8 (ucast (ucast (drop_bit 8 v) :: u8)) OR ucast (ucast (v AND 0xFF) :: u8) = (v :: u16)"
proof (rule bit_word_eqI)
  fix i assume "i < LENGTH(16)"
  then show "bit (push_bit 8 (ucast (ucast (drop_bit 8 v) :: u8)) OR ucast (ucast (v AND 0xFF) :: u8) :: u16) i = bit v i"
    by (cases "i < 8") (auto simp: bit_simps)
qed

definition hi8 :: "u16 \<Rightarrow> u8" where "hi8 v = ucast (drop_bit 8 v)"
definition lo8 :: "u16 \<Rightarrow> u8" where "lo8 v = ucast (v AND 0xFF)"

lemma read_be16_value: "push_bit 8 (ucast (hi8 v)) OR ucast (lo8 v) = v"
  using be16_roundtrip [of v] by (simp add: hi8_def lo8_def)

context eeprom
begin

lemma read_be16_law:
  "good e \<Longrightarrow> a + 1 < cap \<Longrightarrow> read_be16 ops a e = Some (push_bit 8 (ucast (bytes e ! a)) OR ucast (bytes e ! (a + 1)))"
  using read_byte_law [of e a] read_byte_law [of e "a + 1"] by (simp add: read_be16_def)

lemma update_be16_law:
  assumes "good e" "a + 1 < cap"
  shows "\<exists>e'. update_be16 ops a v e = Some e' \<and> good e' \<and> bytes e' = (bytes e)[a := hi8 v, a + 1 := lo8 v]"
proof -
  obtain e1 where 1: "eeprom_update_byte ops a (hi8 v) e = Some e1" "good e1" "bytes e1 = (bytes e)[a := hi8 v]"
    using update_byte_law [of e a "hi8 v"] assms by auto
  obtain e2 where 2: "eeprom_update_byte ops (a + 1) (lo8 v) e1 = Some e2" "good e2" "bytes e2 = (bytes e1)[a + 1 := lo8 v]"
    using update_byte_law [of e1 "a + 1" "lo8 v"] 1(2) assms by auto
  show ?thesis using 1 2 by (simp add: update_be16_def hi8_def lo8_def)
qed

lemma location_bound: "dk_static_asserts k cap \<Longrightarrow> valid k x \<Longrightarrow> location_address k x + 1 < cap"
  using location_before_macros [of k x] by (auto simp: dk_static_asserts_def)

text \<open>A write changes one place and nothing else: no other place and no byte outside of the two of its own.\<close>

lemma set_at_law:
  assumes "dk_static_asserts k cap" "good e" "valid k x"
  shows "\<exists>e'. set_at k ops x v e = Some e' \<and> good e' \<and>
    (\<forall>y. valid k y \<longrightarrow> get_at k ops y e' = (if y = x then Some v else get_at k ops y e)) \<and>
    (\<forall>i < cap. i \<noteq> location_address k x \<longrightarrow> i \<noteq> location_address k x + 1 \<longrightarrow> bytes e' ! i = bytes e ! i)"
proof -
  let ?a = "location_address k x"
  obtain e' where e': "set_at k ops x v e = Some e'" "good e'" "bytes e' = (bytes e)[?a := hi8 v, ?a + 1 := lo8 v]"
    using update_be16_law [OF assms(2) location_bound [OF assms(1,3)], of v] set_at_address [OF assms(3)] by metis
  have l: "length (bytes e) = cap" using assms(2) by (rule bytes_length)
  have g: "get_at k ops y e' = (if y = x then Some v else get_at k ops y e)" if y: "valid k y" for y
  proof (cases "y = x")
    case True
    have "read_be16 ops ?a e' = Some v"
      using read_be16_law [OF e'(2) location_bound [OF assms(1,3)]] location_bound [OF assms(1,3)] l
      by (simp add: e'(3) read_be16_value)
    then show ?thesis using True get_at_address [OF y, of ops e'] by simp
  next
    case False
    then have "location_index k y \<noteq> location_index k x" using location_index_inj [OF y assms(3)] by blast
    then have "location_address k y \<noteq> ?a" "location_address k y \<noteq> ?a + 1" "location_address k y + 1 \<noteq> ?a"
      by (auto simp: location_address_def)
    then show ?thesis
      using get_at_address [OF y, of ops e] get_at_address [OF y, of ops e'] read_be16_law [OF e'(2) location_bound [OF assms(1) y]]
        read_be16_law [OF assms(2) location_bound [OF assms(1) y]] location_bound [OF assms(1) y] l False
      by (simp add: e'(3))
  qed
  then show ?thesis using e' l by simp
qed

lemma update_range_law:
  assumes "good e" "set xs \<subseteq> {0..<cap}"
  shows "\<exists>e'. each (\<lambda>p. eeprom_update_byte ops p 0) xs e = Some e' \<and> good e' \<and>
    (\<forall>i < cap. bytes e' ! i = (if i \<in> set xs then 0 else bytes e ! i))"
  using assms
proof (induction xs arbitrary: e)
  case (Cons x xs)
  obtain e1 where 1: "eeprom_update_byte ops x 0 e = Some e1" "good e1" "bytes e1 = (bytes e)[x := 0]"
    using update_byte_law [of e x 0] Cons.prems by auto
  obtain e2 where 2: "each (\<lambda>p. eeprom_update_byte ops p 0) xs e1 = Some e2" "good e2"
    "\<forall>i < cap. bytes e2 ! i = (if i \<in> set xs then 0 else bytes e1 ! i)"
    using Cons.IH [OF 1(2)] Cons.prems(2) by auto
  have "length (bytes e) = cap" using Cons.prems(1) by (rule bytes_length)
  then show ?case using 1 2 by (auto simp: nth_list_update)
qed simp

text \<open>The buffer loops.\<close>

lemma read_limited_law:
  assumes "good e" "base + limit \<le> cap"
  shows "read_limited ops base limit i n e = Some (map (\<lambda>j. if j < limit then bytes e ! (base + j) else 0) [i..<i + n])"
  using assms
proof (induction n arbitrary: i)
  case (Suc n)
  have "[i..<i + Suc n] = i # [i + 1..<i + 1 + n]" by (simp add: upt_rec)
  then show ?case using Suc.IH [of "i + 1"] Suc.prems read_byte_law [OF assms(1), of "base + i"] by simp
qed simp

lemma update_limited_law:
  assumes "good e" "base + limit \<le> cap"
  shows "\<exists>e'. update_limited ops base limit i data e = Some e' \<and> good e' \<and>
    (\<forall>j < cap. bytes e' ! j = (if base + i \<le> j \<and> j < base + limit \<and> j < base + i + length data
       then data ! (j - base - i) else bytes e ! j))"
  using assms
proof (induction data arbitrary: i e)
  case (Cons b data)
  have "\<exists>e1. (if i < limit then eeprom_update_byte ops (base + i) b e else Some e) = Some e1 \<and> good e1 \<and>
      bytes e1 = (if i < limit then (bytes e)[base + i := b] else bytes e)"
    using update_byte_law [of e "base + i" b] Cons.prems by auto
  then obtain e1 where 1: "(if i < limit then eeprom_update_byte ops (base + i) b e else Some e) = Some e1" "good e1"
    "bytes e1 = (if i < limit then (bytes e)[base + i := b] else bytes e)" by blast
  obtain e2 where 2: "update_limited ops base limit (i + 1) data e1 = Some e2" "good e2"
    "\<forall>j < cap. bytes e2 ! j = (if base + (i + 1) \<le> j \<and> j < base + limit \<and> j < base + (i + 1) + length data
       then data ! (j - base - (i + 1)) else bytes e1 ! j)"
    using Cons.IH [OF 1(2) Cons.prems(2), of "i + 1"] by auto
  have l: "length (bytes e) = cap" using Cons.prems(1) by (rule bytes_length)
  have "bytes e2 ! j = (if base + i \<le> j \<and> j < base + limit \<and> j < base + i + length (b # data)
       then (b # data) ! (j - base - i) else bytes e ! j)" if j: "j < cap" for j
  proof (cases "j = base + i")
    case True
    then show ?thesis using 2(3) 1(3) l j by auto
  next
    case False
    then have "base + i \<le> j \<longleftrightarrow> base + (i + 1) \<le> j" by linarith
    moreover have "base + (i + 1) \<le> j \<Longrightarrow> j - base - i = Suc (j - base - (i + 1))" by linarith
    ultimately show ?thesis using 2(3) 1(3) l j False by (auto simp: nth_Cons split: nat.splits)
  qed
  then show ?case using 1 2 by auto
qed auto

end

section \<open>Resetting\<close>

fun raw_at :: "(nat \<Rightarrow> nat \<Rightarrow> nat \<Rightarrow> u16) \<Rightarrow> (nat \<Rightarrow> nat \<Rightarrow> bool \<Rightarrow> u16) \<Rightarrow> location \<Rightarrow> u16" where
  "raw_at raw raw_encoder (Key l r c) = raw l r c"
| "raw_at raw raw_encoder (Turn l i cw) = raw_encoder l i cw"

definition right_at ::
    "dk_cfg \<Rightarrow> 'e eeprom_ops \<Rightarrow> (nat \<Rightarrow> nat \<Rightarrow> nat \<Rightarrow> u16) \<Rightarrow> (nat \<Rightarrow> nat \<Rightarrow> bool \<Rightarrow> u16) \<Rightarrow> location \<Rightarrow> 'e \<Rightarrow> bool" where
  "right_at k ops raw renc y e \<longleftrightarrow> valid k y \<and> get_at k ops y e = Some (raw_at raw renc y)"

fun layer_of :: "location \<Rightarrow> nat" where
  "layer_of (Key l r c) = l"
| "layer_of (Turn l i cw) = l"

context eeprom
begin

text \<open>A step that keeps what is right and makes the places of \<open>D\<close> right.\<close>

definition makes :: "dk_cfg \<Rightarrow> (nat \<Rightarrow> nat \<Rightarrow> nat \<Rightarrow> u16) \<Rightarrow> (nat \<Rightarrow> nat \<Rightarrow> bool \<Rightarrow> u16) \<Rightarrow> location set \<Rightarrow> ('e \<Rightarrow> 'e option) \<Rightarrow> bool" where
  "makes k raw renc D f \<longleftrightarrow> (\<forall>e. good e \<longrightarrow> (\<exists>e'. f e = Some e' \<and> good e' \<and>
     (\<forall>y. right_at k ops raw renc y e \<longrightarrow> right_at k ops raw renc y e') \<and> (\<forall>y \<in> D. right_at k ops raw renc y e')))"

lemma makesE:
  assumes "makes k raw renc D f" "good e"
  obtains e' where "f e = Some e'" "good e'" "\<forall>y. right_at k ops raw renc y e \<longrightarrow> right_at k ops raw renc y e'"
    "\<forall>y \<in> D. right_at k ops raw renc y e'"
  using assms unfolding makes_def by blast

lemma makes_mono: "makes k raw renc D f \<Longrightarrow> D' \<subseteq> D \<Longrightarrow> makes k raw renc D' f"
  unfolding makes_def by (meson subsetD)

lemma makes_seq:
  assumes "makes k raw renc D f" "makes k raw renc D' g"
  shows "makes k raw renc (D \<union> D') (\<lambda>e. f e \<bind> g)"
  unfolding makes_def
proof (intro allI impI)
  fix e assume "good e"
  with assms(1) obtain e1 where 1: "f e = Some e1" "good e1" "\<forall>y. right_at k ops raw renc y e \<longrightarrow> right_at k ops raw renc y e1"
    "\<forall>y \<in> D. right_at k ops raw renc y e1" by (rule makesE)
  from assms(2) 1(2) obtain e2 where 2: "g e1 = Some e2" "good e2"
    "\<forall>y. right_at k ops raw renc y e1 \<longrightarrow> right_at k ops raw renc y e2" "\<forall>y \<in> D'. right_at k ops raw renc y e2" by (rule makesE)
  show "\<exists>e'. f e \<bind> g = Some e' \<and> good e' \<and> (\<forall>y. right_at k ops raw renc y e \<longrightarrow> right_at k ops raw renc y e') \<and>
      (\<forall>y \<in> D \<union> D'. right_at k ops raw renc y e')"
    using 1 2 by auto
qed

lemma makes_none: "makes k raw renc {} Some"
  by (simp add: makes_def)

lemma makes_each: "(\<And>x. x \<in> set xs \<Longrightarrow> makes k raw renc (D x) (f x)) \<Longrightarrow> makes k raw renc (\<Union>x \<in> set xs. D x) (each f xs)"
proof (induction xs)
  case Nil
  have "each f [] = Some" by (rule ext) simp
  then show ?case using makes_none by simp
next
  case (Cons x xs)
  have "each f (x # xs) = (\<lambda>e. f x e \<bind> each f xs)" by (rule ext) simp
  then show ?case using makes_seq [OF Cons.prems Cons.IH] Cons.prems by simp
qed

lemma makes_set:
  assumes "dk_static_asserts k cap" "valid k x"
  shows "makes k raw renc {x} (set_at k ops x (raw_at raw renc x))"
  unfolding makes_def
proof (intro allI impI)
  fix e assume "good e"
  from set_at_law [OF assms(1) this assms(2), of "raw_at raw renc x"] assms(2)
  show "\<exists>e'. set_at k ops x (raw_at raw renc x) e = Some e' \<and> good e' \<and>
      (\<forall>y. right_at k ops raw renc y e \<longrightarrow> right_at k ops raw renc y e') \<and> (\<forall>y \<in> {x}. right_at k ops raw renc y e')"
    by (auto simp: right_at_def)
qed

lemma set_at_fun:
  "set_at k ops (Key l r c) v = dynamic_keymap_set_keycode k ops l r c v"
  "set_at k ops (Turn l i cw) v = dynamic_keymap_set_encoder k ops l i cw v"
  by (simp_all add: fun_eq_iff)

lemma makes_layer:
  assumes "dk_static_asserts k cap" "l < LAYER_COUNT k"
  shows "makes k raw renc {y. valid k y \<and> layer_of y = l} (reset_layer k ops raw renc l)"
proof -
  have key: "makes k raw renc {Key l r c} (dynamic_keymap_set_keycode k ops l r c (raw l r c))"
    if "r < DK_ROWS k" "c < DK_COLS k" for r c
    using makes_set [OF assms(1), of "Key l r c" raw renc] that assms(2) by (simp add: set_at_fun)
  have turn: "makes k raw renc {Turn l i cw} (dynamic_keymap_set_encoder k ops l i cw (renc l i cw))"
    if "DK_ENCODER_MAP k" "i < DK_ENCODERS k" for i cw
    using makes_set [OF assms(1), of "Turn l i cw" raw renc] that assms(2) by (simp add: set_at_fun)
  let ?keys = "\<lambda>r. each (\<lambda>c. dynamic_keymap_set_keycode k ops l r c (raw l r c)) [0..<DK_COLS k]"
  let ?turns = "\<lambda>i e. dynamic_keymap_set_encoder k ops l i True (renc l i True) e \<bind>
      dynamic_keymap_set_encoder k ops l i False (renc l i False)"
  have keys: "makes k raw renc (\<Union>r \<in> set [0..<DK_ROWS k]. \<Union>c \<in> set [0..<DK_COLS k]. {Key l r c}) (each ?keys [0..<DK_ROWS k])"
    using key by (intro makes_each) simp
  have turns: "makes k raw renc (if DK_ENCODER_MAP k then \<Union>i \<in> set [0..<DK_ENCODERS k]. {Turn l i True} \<union> {Turn l i False} else {})
      (if DK_ENCODER_MAP k then each ?turns [0..<DK_ENCODERS k] else Some)"
  proof (cases "DK_ENCODER_MAP k")
    case True
    then have "makes k raw renc ({Turn l i True} \<union> {Turn l i False}) (?turns i)" if "i < DK_ENCODERS k" for i
      using makes_seq [OF turn turn, of i i True False] that by simp
    then have "makes k raw renc (\<Union>i \<in> set [0..<DK_ENCODERS k]. {Turn l i True} \<union> {Turn l i False}) (each ?turns [0..<DK_ENCODERS k])"
      by (intro makes_each) simp
    then show ?thesis using True by simp
  qed (simp add: makes_none)
  have "reset_layer k ops raw renc l =
      (\<lambda>e. each ?keys [0..<DK_ROWS k] e \<bind> (if DK_ENCODER_MAP k then each ?turns [0..<DK_ENCODERS k] else Some))"
    by (rule ext) (simp add: reset_layer_def)
  then have all: "makes k raw renc ((\<Union>r \<in> set [0..<DK_ROWS k]. \<Union>c \<in> set [0..<DK_COLS k]. {Key l r c}) \<union>
      (if DK_ENCODER_MAP k then \<Union>i \<in> set [0..<DK_ENCODERS k]. {Turn l i True} \<union> {Turn l i False} else {})) (reset_layer k ops raw renc l)"
    using makes_seq [OF keys turns] by simp
  have "y \<in> (\<Union>r \<in> set [0..<DK_ROWS k]. \<Union>c \<in> set [0..<DK_COLS k]. {Key l r c}) \<union>
      (if DK_ENCODER_MAP k then \<Union>i \<in> set [0..<DK_ENCODERS k]. {Turn l i True} \<union> {Turn l i False} else {})"
    if "valid k y" "layer_of y = l" for y using that by (cases y) auto
  then show ?thesis by (intro makes_mono [OF all]) blast
qed

lemma reset_law:
  assumes "dk_static_asserts k cap" "good e"
  shows "\<exists>e'. dynamic_keymap_reset k ops raw renc e = Some e' \<and> good e' \<and>
    (\<forall>x. valid k x \<longrightarrow> get_at k ops x e' = Some (raw_at raw renc x))"
proof -
  have "makes k raw renc (\<Union>l \<in> set [0..<LAYER_COUNT k]. {y. valid k y \<and> layer_of y = l})
      (each (reset_layer k ops raw renc) [0..<LAYER_COUNT k])"
    using makes_layer [OF assms(1)] by (intro makes_each) simp
  from this assms(2) obtain e' where e': "each (reset_layer k ops raw renc) [0..<LAYER_COUNT k] e = Some e'" "good e'"
    "\<forall>y. right_at k ops raw renc y e \<longrightarrow> right_at k ops raw renc y e'"
    "\<forall>y \<in> (\<Union>l \<in> set [0..<LAYER_COUNT k]. {y. valid k y \<and> layer_of y = l}). right_at k ops raw renc y e'" by (rule makesE)
  have "layer_of x < LAYER_COUNT k" if "valid k x" for x using that by (cases x) simp_all
  then have "right_at k ops raw renc x e'" if "valid k x" for x using that by (intro bspec [OF e'(4)]) simp
  then show ?thesis using e'(1,2) by (simp add: dynamic_keymap_reset_def right_at_def)
qed

end

end
