(* ===== verification/KeymapMacros.thy ===== *)
theory KeymapMacros
  imports DynamicKeymapProps
begin

text \<open>
  Macros in the EEPROM: the buffers the host reads and writes, and which bytes \<^verbatim>\<open>dynamic_keymap_macro_send\<close>
  reads.
\<close>

section \<open>Reading inside of the macro area\<close>

context eeprom
begin

text \<open>Two states with the same bytes from \<open>base\<close> up to \<open>fin\<close>, the last of which is a terminator.\<close>

definition alike :: "nat \<Rightarrow> nat \<Rightarrow> 'e \<Rightarrow> 'e \<Rightarrow> bool" where
  "alike base fin e e' \<longleftrightarrow> good e \<and> good e' \<and> base < fin \<and> fin \<le> cap \<and>
     (\<forall>i. base \<le> i \<and> i < fin \<longrightarrow> bytes e' ! i = bytes e ! i) \<and> bytes e ! (fin - 1) = 0"

lemma alike_read:
  assumes "alike base fin e e'" "base \<le> p" "p < fin"
  shows "eeprom_read_byte ops p e = Some (bytes e ! p)" "eeprom_read_byte ops p e' = Some (bytes e ! p)"
    "bytes e ! p \<noteq> 0 \<Longrightarrow> p + 1 < fin"
proof -
  show "eeprom_read_byte ops p e = Some (bytes e ! p)" "eeprom_read_byte ops p e' = Some (bytes e ! p)"
    using assms read_byte_law [of e p] read_byte_law [of e' p] by (auto simp: alike_def)
  assume "bytes e ! p \<noteq> 0"
  then have "p \<noteq> fin - 1" using assms(1) by (auto simp: alike_def)
  then show "p + 1 < fin" using assms(3) by simp
qed

definition nuls :: "nat \<Rightarrow> nat \<Rightarrow> 'e \<Rightarrow> nat" where
  "nuls p fin e = count_list (bytes_at (bytes e) p (fin - p)) 0"

lemma nuls_step:
  assumes "good e" "p < fin" "fin \<le> cap"
  shows "nuls p fin e = (if bytes e ! p = 0 then Suc (nuls (p + 1) fin e) else nuls (p + 1) fin e)"
proof -
  have "p < length (bytes e)" using assms bytes_length [of e] by simp
  then have "bytes_at (bytes e) p (fin - p) = bytes e ! p # bytes_at (bytes e) (p + 1) (fin - (p + 1))"
    using assms(2) by (simp add: bytes_at_def Cons_nth_drop_Suc [symmetric] take_Suc Suc_diff_Suc [symmetric])
  then show ?thesis by (simp add: nuls_def)
qed

lemma nuls_pos:
  assumes "alike base fin e e'" "p < fin"
  shows "0 < nuls p fin e"
proof -
  have g: "good e" "fin \<le> cap" "bytes e ! (fin - 1) = 0" using assms(1) by (simp_all add: alike_def)
  have "bytes_at (bytes e) p (fin - p) ! (fin - p - 1) = bytes e ! (fin - 1)"
    using g(1,2) assms(2) bytes_length [of e] by (subst nth_bytes_at) simp_all
  moreover have "fin - p - 1 < length (bytes_at (bytes e) p (fin - p))" using g(1,2) assms(2) bytes_length [of e] by simp
  ultimately have "0 \<in> set (bytes_at (bytes e) p (fin - p))" using g(3) nth_mem by metis
  then show ?thesis unfolding nuls_def by (metis count_list_0_iff gr0I)
qed

text \<open>Skipping ends inside of the area when it holds more terminators, and at its end when it holds as many.\<close>

definition skip_ok :: "nat \<Rightarrow> nat \<Rightarrow> nat \<Rightarrow> 'e \<Rightarrow> nat option option \<Rightarrow> bool" where
  "skip_ok n p fin e res = (case res of None \<Rightarrow> False | Some None \<Rightarrow> nuls p fin e < n
     | Some (Some q) \<Rightarrow> p \<le> q \<and> q \<le> fin \<and> n \<le> nuls p fin e \<and> (p < fin \<longrightarrow> (q = fin \<longleftrightarrow> n = nuls p fin e)))"

lemma skip_macros_law:
  assumes "alike base fin e e'" "base \<le> p" "p \<le> fin"
  shows "skip_macros ops n p fin e' = skip_macros ops n p fin e \<and> skip_ok n p fin e (skip_macros ops n p fin e)"
  using assms
proof (induction "fin - p" arbitrary: n p)
  case 0
  then have p: "p = fin" by simp
  have z: "nuls fin fin e = 0" by (simp add: nuls_def bytes_at_def)
  show ?case
  proof (cases "n = 0")
    case True
    then show ?thesis using z p by (simp add: skip_macros.simps skip_ok_def)
  next
    case False
    then show ?thesis using z p skip_macros.simps [of ops n fin fin e] skip_macros.simps [of ops n fin fin e'] by (simp add: skip_ok_def)
  qed
next
  case (Suc m)
  then have p: "p < fin" by simp
  note r = alike_read [OF Suc.prems(1,2) p]
  have g: "good e" "fin \<le> cap" using Suc.prems(1) by (auto simp: alike_def)
  note nz = nuls_pos [OF Suc.prems(1)]
  show ?case
  proof (cases "n = 0")
    case True
    have "0 < nuls p fin e" using nuls_step [OF g(1) p g(2)] nz r(3) by (cases "bytes e ! p = 0") auto
    then show ?thesis using True p by (simp add: skip_macros.simps [of ops 0] skip_ok_def)
  next
    case False
    let ?n = "if bytes e ! p = 0 then n - 1 else n"
    have s: "skip_macros ops n p fin e = skip_macros ops ?n (p + 1) fin e" "skip_macros ops n p fin e' = skip_macros ops ?n (p + 1) fin e'"
      using skip_macros.simps [of ops n p fin e] skip_macros.simps [of ops n p fin e'] False p r by simp_all
    have "m = fin - (p + 1)" using Suc.hyps(2) by simp
    note ih = Suc.hyps(1) [OF this Suc.prems(1), of ?n]
    have z: "\<not> p + 1 < fin \<Longrightarrow> nuls (p + 1) fin e = 0 \<and> bytes e ! p = 0"
      using r(3) by (auto simp: nuls_def bytes_at_def)
    show ?thesis
      using ih Suc.prems(2) p False nuls_step [OF g(1) p g(2)] z nz unfolding s
      by (cases "bytes e ! p = 0"; cases "p + 1 < fin") (auto simp: skip_ok_def split: option.splits)
  qed
qed

text \<open>One string is read inside of the area, and so are all of them.\<close>

lemma delay_digits_law:
  assumes "alike base fin e e'" "base \<le> p" "p < fin"
  shows "delay_digits ops room p e' = delay_digits ops room p e \<and>
    (\<exists>r. delay_digits ops room p e = Some r \<and> (\<forall>bs q. r = Some (bs, q) \<longrightarrow> p < q \<and> q < fin))"
  using assms
proof (induction room arbitrary: p)
  case (Suc room)
  note r = alike_read [OF Suc.prems]
  show ?case
  proof (cases "bytes e ! p = 0 \<or> bytes e ! p = 0x7C")
    case True
    then show ?thesis using r by auto
  next
    case False
    then have "p + 1 < fin" using r(3) by simp
    with Suc.IH [OF Suc.prems(1), of "p + 1"] Suc.prems(2)
    obtain x where x: "delay_digits ops room (p + 1) e' = Some x" "delay_digits ops room (p + 1) e = Some x"
      "\<forall>bs q. x = Some (bs, q) \<longrightarrow> p + 1 < q \<and> q < fin" by auto
    then show ?thesis using r False by (cases x) auto
  qed
qed simp

lemma macro_next_law:
  assumes "alike base fin e e'" "base \<le> p" "p < fin"
  shows "macro_next ops p rest e' = macro_next ops p rest e \<and>
    (\<exists>s. macro_next ops p rest e = Some s \<and> (\<forall>str q rest'. s = Send str q rest' \<longrightarrow> p < q \<and> q < fin))"
proof -
  note r = alike_read [OF assms]
  show ?thesis
  proof (cases "bytes e ! p = 1")
    case False
    then show ?thesis using r by (auto simp: macro_next_def)
  next
    case True
    then have p1: "base \<le> p + 1" "p + 1 < fin" using r(3) assms(2) by simp_all
    note r1 = alike_read [OF assms(1) p1]
    show ?thesis
    proof (cases "bytes e ! (p + 1) = 0")
      case True
      then show ?thesis using r r1 \<open>bytes e ! p = 1\<close> by (simp add: macro_next_def)
    next
      case False
      then have p2: "base \<le> p + 2" "p + 2 < fin" using r1(3) p1 by simp_all
      note r2 = alike_read [OF assms(1) p2]
      obtain d where d: "delay_digits ops 5 (p + 2) e' = Some d" "delay_digits ops 5 (p + 2) e = Some d"
        "\<forall>bs q. d = Some (bs, q) \<longrightarrow> p + 2 < q \<and> q < fin" using delay_digits_law [OF assms(1) p2, of 5] by auto
      show ?thesis
        using True False p2 r(1,2) r1(1,2) r2 d by (cases d) (auto simp: macro_next_def eval_nat_numeral)
    qed
  qed
qed

lemma macro_strings_law:
  assumes "alike base fin e e'" "base \<le> p" "p < fin"
  shows "macro_strings ops p rest e' = macro_strings ops p rest e \<and> macro_strings ops p rest e \<noteq> None"
  using assms
proof (induction "fin - p" arbitrary: p rest rule: less_induct)
  case less
  obtain s where s: "macro_next ops p rest e' = Some s" "macro_next ops p rest e = Some s"
    "\<forall>str q rest'. s = Send str q rest' \<longrightarrow> p < q \<and> q < fin" using macro_next_law [OF less.prems, of rest] by auto
  show ?case
  proof (cases s)
    case (Send str q rest')
    then have q: "p < q" "q < fin" using s(3) by simp_all
    have "macro_strings ops q rest' e' = macro_strings ops q rest' e \<and> macro_strings ops q rest' e \<noteq> None"
      using less.hyps [of q rest'] less.prems q by simp
    then show ?thesis
      using s Send macro_strings.simps [of ops p rest e] macro_strings.simps [of ops p rest e'] by auto
  qed (use s macro_strings.simps [of ops p rest e] macro_strings.simps [of ops p rest e'] in simp_all)
qed

end

section \<open>Properties\<close>

definition macro_area :: "dk_cfg \<Rightarrow> u8 list \<Rightarrow> u8 list" where
  "macro_area k bs = bytes_at bs (MACRO_EEPROM_ADDR k) (MACRO_EEPROM_SIZE k)"

lemma macro_area_bounds:
  assumes "dk_static_asserts k cap"
  shows "MACRO_EEPROM_ADDR k + MACRO_EEPROM_SIZE k \<le> cap" "0 < MACRO_EEPROM_SIZE k"
  using assms by (auto simp: dk_static_asserts_def MACRO_EEPROM_SIZE_def)

definition demo_dk :: dk_cfg where
  "demo_dk = \<lparr>LAYER_COUNT = 1, DK_ROWS = 1, DK_COLS = 2, DK_ENCODERS = 1, DK_ENCODER_MAP = True, EEPROM_ADDR = 2,
     EEPROM_MAX_ADDR = 119, MACRO_COUNT = 4\<rparr>"

lemma demo_dk_asserts: "dk_static_asserts demo_dk 120" "dk_static_asserts demo_dk 128"
  "MACRO_EEPROM_ADDR demo_dk = 10" "MACRO_EEPROM_SIZE demo_dk = 110"
  by (simp_all add: dk_static_asserts_def demo_dk_def MACRO_EEPROM_ADDR_def ENCODER_EEPROM_ADDR_def keymap_bytes_def
      MACRO_EEPROM_SIZE_def)

lemma transient_eeprom: "eeprom transient_ops cap (\<lambda>e. e) (\<lambda>e. length e = cap \<and> cap < 2 ^ 32)"
  by (rule transient.eeprom_axioms)

text \<open>
  C13: the dynamic keymap is a map from key positions and encoder directions to keycodes, on every
  EEPROM that meets the contract: setting one place changes that place alone, whatever the dimensions of
  the keyboard are, and leaves the macros as they are.
\<close>

theorem dynamic_keymap_is_map:
  assumes "eeprom ops cap bytes good" and "dk_static_asserts k cap" and "good e" and "valid k x"
  shows "\<exists>e'. set_at k ops x v e = Some e' \<and> good e' \<and>
    (\<forall>y. valid k y \<longrightarrow> get_at k ops y e' = (if y = x then Some v else get_at k ops y e)) \<and>
    macro_area k (bytes e') = macro_area k (bytes e)"
proof -
  obtain e' where e': "set_at k ops x v e = Some e'" "good e'"
    "\<forall>y. valid k y \<longrightarrow> get_at k ops y e' = (if y = x then Some v else get_at k ops y e)"
    "\<forall>i < cap. i \<noteq> location_address k x \<longrightarrow> i \<noteq> location_address k x + 1 \<longrightarrow> bytes e' ! i = bytes e ! i"
    using eeprom.set_at_law [OF assms] by blast
  have l: "length (bytes e) = cap" "length (bytes e') = cap"
    using eeprom.bytes_length [OF assms(1)] assms(3) e'(2) by simp_all
  have "macro_area k (bytes e') = macro_area k (bytes e)"
    unfolding macro_area_def
    by (rule nth_equalityI)
      (use l e'(4) macro_area_bounds [OF assms(2)] location_before_macros [OF assms(4)] in \<open>auto simp: nth_bytes_at\<close>)
  then show ?thesis using e' by blast
qed

lemma dynamic_keymap_is_map_witness:
  "\<exists>e'. set_at demo_dk transient_ops (Key 0 0 1) 0x5123 (zeros 120) = Some e' \<and>
     get_at demo_dk transient_ops (Key 0 0 1) e' = Some 0x5123 \<and>
     get_at demo_dk transient_ops (Turn 0 0 False) e' = get_at demo_dk transient_ops (Turn 0 0 False) (zeros 120)"
proof -
  have v: "valid demo_dk (Key 0 0 1)" "valid demo_dk (Turn 0 0 False)" by (simp_all add: demo_dk_def)
  have "length (zeros 120) = 120 \<and> (120 :: nat) < 2 ^ 32" by simp
  from dynamic_keymap_is_map [OF transient_eeprom demo_dk_asserts(1) this v(1), of "0x5123"] v
  show ?thesis by (auto simp del: valid.simps get_at.simps set_at.simps)
qed

text \<open>
  After a reset every place of the dynamic keymap and of the encoder map holds the keycode of
  the keymap in flash.
\<close>

theorem dynamic_keymap_reset_restores:
  assumes "eeprom ops cap bytes good" and "dk_static_asserts k cap" and "good e"
  shows "\<exists>e'. dynamic_keymap_reset k ops raw renc e = Some e' \<and>
    (\<forall>l r c. l < LAYER_COUNT k \<and> r < DK_ROWS k \<and> c < DK_COLS k \<longrightarrow>
       dynamic_keycode_at_keymap_location k ops l r c e' = Some (raw l r c)) \<and>
    (\<forall>l i cw. DK_ENCODER_MAP k \<and> l < LAYER_COUNT k \<and> i < DK_ENCODERS k \<longrightarrow>
       dynamic_keycode_at_encodermap_location k ops l i cw e' = Some (renc l i cw))"
proof -
  obtain e' where e': "dynamic_keymap_reset k ops raw renc e = Some e'"
    "\<forall>x. valid k x \<longrightarrow> get_at k ops x e' = Some (raw_at raw renc x)"
    using eeprom.reset_law [OF assms] by blast
  have "dynamic_keycode_at_keymap_location k ops l r c e' = Some (raw l r c)"
    if "l < LAYER_COUNT k \<and> r < DK_ROWS k \<and> c < DK_COLS k" for l r c
    using e'(2) [rule_format, of "Key l r c"] that by (simp add: dynamic_keycode_at_keymap_location_def)
  moreover have "dynamic_keycode_at_encodermap_location k ops l i cw e' = Some (renc l i cw)"
    if "DK_ENCODER_MAP k \<and> l < LAYER_COUNT k \<and> i < DK_ENCODERS k" for l i cw
    using e'(2) [rule_format, of "Turn l i cw"] that by (simp add: dynamic_keycode_at_encodermap_location_def)
  ultimately show ?thesis using e'(1) by blast
qed

lemma dynamic_keymap_reset_restores_witness:
  "\<exists>e'. dynamic_keymap_reset demo_dk transient_ops (\<lambda>l r c. of_nat (4 + c)) (\<lambda>l i cw. 9) (zeros 120) = Some e' \<and>
     dynamic_keycode_at_keymap_location demo_dk transient_ops 0 0 1 e' = Some 5"
proof -
  have "length (zeros 120) = 120 \<and> (120 :: nat) < 2 ^ 32" by simp
  from dynamic_keymap_reset_restores [OF transient_eeprom demo_dk_asserts(1) this, of "\<lambda>l r c. of_nat (4 + c)" "\<lambda>l i cw. 9"]
  show ?thesis by (auto simp: demo_dk_def)
qed

text \<open>
  The host reads back from the macro buffer what it wrote, with zeros for what is outside of
  the buffer, and cannot change any byte outside of the buffer, whatever offset and size it asks for.
\<close>

theorem macro_buffer_roundtrip:
  assumes "eeprom ops cap bytes good" and "dk_static_asserts k cap" and "good e" and "length data = unat sz"
  shows "\<exists>e'. dynamic_keymap_macro_set_buffer k ops offset data e = Some e' \<and> good e' \<and>
    dynamic_keymap_macro_get_buffer k ops offset sz e' =
      Some (map (\<lambda>j. if unat offset + j < MACRO_EEPROM_SIZE k then data ! j else 0) [0..<unat sz]) \<and>
    (\<forall>i < cap. i < MACRO_EEPROM_ADDR k \<or> MACRO_EEPROM_ADDR k + MACRO_EEPROM_SIZE k \<le> i \<longrightarrow> bytes e' ! i = bytes e ! i)"
proof -
  note b = macro_area_bounds [OF assms(2)]
  obtain e' where e': "dynamic_keymap_macro_set_buffer k ops offset data e = Some e'" "good e'"
    "\<forall>j < cap. bytes e' ! j = (if MACRO_EEPROM_ADDR k + unat offset \<le> j \<and> j < MACRO_EEPROM_ADDR k + MACRO_EEPROM_SIZE k \<and>
        j < MACRO_EEPROM_ADDR k + unat offset + length data then data ! (j - MACRO_EEPROM_ADDR k - unat offset) else bytes e ! j)"
    using eeprom.update_limited_law [OF assms(1,3) b(1), of "unat offset" data]
    unfolding dynamic_keymap_macro_set_buffer_def by blast
  have "map (\<lambda>j. if j < MACRO_EEPROM_SIZE k then bytes e' ! (MACRO_EEPROM_ADDR k + j) else 0) [unat offset..<unat offset + unat sz] =
      map (\<lambda>j. if unat offset + j < MACRO_EEPROM_SIZE k then data ! j else 0) [0..<unat sz]"
    by (rule nth_equalityI) (use e'(3) assms(4) b(1) in auto)
  then have "dynamic_keymap_macro_get_buffer k ops offset sz e' =
      Some (map (\<lambda>j. if unat offset + j < MACRO_EEPROM_SIZE k then data ! j else 0) [0..<unat sz])"
    using eeprom.read_limited_law [OF assms(1) e'(2) b(1), of "unat offset" "unat sz"]
    unfolding dynamic_keymap_macro_get_buffer_def by simp
  then show ?thesis using e' by auto
qed

lemma macro_buffer_roundtrip_witness:
  "\<exists>e'. dynamic_keymap_macro_set_buffer demo_dk transient_ops 108 [7, 8, 9] (zeros 120) = Some e' \<and>
     dynamic_keymap_macro_get_buffer demo_dk transient_ops 108 3 e' = Some [7, 8, 0] \<and> e' ! 9 = 0"
proof -
  have "length (zeros 120) = 120 \<and> (120 :: nat) < 2 ^ 32" "length [7, 8, 9 :: u8] = unat (3 :: u16)" by simp_all
  from macro_buffer_roundtrip [OF transient_eeprom demo_dk_asserts(1) this, of 108]
  show ?thesis by (auto simp: demo_dk_asserts upt_rec zeros_def)
qed

section \<open>Power cycles\<close>

lemma get_at_same_bytes:
  assumes "eeprom ops cap bytes good" "dk_static_asserts k cap" "good e" "good e'" "bytes e' = bytes e" "valid k x"
  shows "get_at k ops x e' = get_at k ops x e"
  using eeprom.read_be16_law [OF assms(1,3) eeprom.location_bound [OF assms(1,2,6)]]
    eeprom.read_be16_law [OF assms(1,4) eeprom.location_bound [OF assms(1,2,6)]]
    get_at_address [OF assms(6), of ops e] get_at_address [OF assms(6), of ops e'] assms(5) by simp

text \<open>
  C14: on the wear-leveled flash, on any backing store that meets its contract and whose hardware
  works, a keycode set in the dynamic keymap is there after a power cycle, and so are all the others.
\<close>

theorem dynamic_keymap_survives_power_cycle:
  assumes "reliable_store b c img dinv" and "wl_config_ok c" and "wl_inv c img dinv s"
    and "dk_static_asserts k (logical_size c)" and "valid k x"
  shows "\<exists>s1 s2. set_at k (wl_eeprom_ops c b) x v s = Some s1 \<and>
    s2 = wl_eeprom_init c b \<lparr>cache = ram, write_address = wa, unlocked = False, store = store s1\<rparr> \<and>
    wl_inv c img dinv s2 \<and>
    (\<forall>y. valid k y \<longrightarrow> get_at k (wl_eeprom_ops c b) y s2 = (if y = x then Some v else get_at k (wl_eeprom_ops c b) y s))"
proof -
  note ee = wl_eeprom_contract [OF assms(1,2)]
  obtain s1 where s1: "set_at k (wl_eeprom_ops c b) x v s = Some s1" "wl_inv c img dinv s1"
    "\<forall>y. valid k y \<longrightarrow> get_at k (wl_eeprom_ops c b) y s1 = (if y = x then Some v else get_at k (wl_eeprom_ops c b) y s)"
    using eeprom.set_at_law [OF ee assms(4,3,5)] by blast
  let ?off = "\<lparr>cache = ram, write_address = wa, unlocked = False, store = store s1\<rparr>"
  obtain st s2 where s2: "wear_leveling_init c b ?off = (st, s2)" "cache s2 = cache s1" "wl_inv c img dinv s2"
    using reliable_store.init_recovers [OF assms(1,2), of ?off "write_address s1" "cache s1"] s1(2) by (auto simp: wl_inv_def)
  have "get_at k (wl_eeprom_ops c b) y s2 = get_at k (wl_eeprom_ops c b) y s1" if "valid k y" for y
    using get_at_same_bytes [OF ee assms(4) s1(2) s2(3,2) that] .
  then show ?thesis using s1 s2 by (auto simp: wl_eeprom_init_def simp del: get_at.simps set_at.simps)
qed

definition keymap_config_wl :: wl_config where
  "keymap_config_wl = \<lparr>write_size = WS2, logical_size = 128, backing_size = 256, wl_spill = [0, 0]\<rparr>"

definition keymap_flash :: "mock_store wear_leveling" where
  "keymap_flash = \<lparr>cache = zeros 128, write_address = 136, unlocked = False, store = mock_reset keymap_config_wl\<rparr>"

lemma keymap_config_ok: "wl_config_ok keymap_config_wl"
  by (simp add: wl_config_ok_def wl_static_asserts_def keymap_config_wl_def log_start_def)

lemma keymap_flash_inv: "wl_inv keymap_config_wl mock_img (mock_inv keymap_config_wl) keymap_flash"
proof -
  have "mock_img (mock_reset keymap_config_wl) = zeros 256"
    by (simp add: mock_img_def mock_reset_def keymap_config_wl_def zeros_def)
  then show ?thesis
    using holds_erased [OF keymap_config_ok]
    by (simp add: wl_inv_def keymap_flash_def mock_inv_def mock_reset_def log_start_def)
      (simp add: keymap_config_wl_def)
qed

lemma dynamic_keymap_survives_power_cycle_witness:
  "\<exists>s1 s2. set_at demo_dk (wl_eeprom_ops keymap_config_wl (mock_ops keymap_config_wl mock_default)) (Key 0 0 1) 0x5123 keymap_flash = Some s1 \<and>
     s2 = wl_eeprom_init keymap_config_wl (mock_ops keymap_config_wl mock_default)
       \<lparr>cache = [], write_address = 0, unlocked = False, store = store s1\<rparr> \<and>
     get_at demo_dk (wl_eeprom_ops keymap_config_wl (mock_ops keymap_config_wl mock_default)) (Key 0 0 1) s2 = Some 0x5123"
proof -
  have v: "valid demo_dk (Key 0 0 1)" by (simp add: demo_dk_def)
  have a: "dk_static_asserts demo_dk (logical_size keymap_config_wl)"
    using demo_dk_asserts(2) by (simp add: keymap_config_wl_def)
  show ?thesis
    using dynamic_keymap_survives_power_cycle [OF mock_reliable keymap_config_ok keymap_flash_inv a v, of "0x5123" "[]" 0] v
    by (auto simp del: valid.simps get_at.simps set_at.simps)
qed

section \<open>Sending\<close>

text \<open>
  Sending a macro returns, and what it sends is a function of the bytes of the macro buffer
  alone, unless the number of the macro is the number of terminators in the buffer: then the search for its
  start ends behind the buffer and the bytes found there are sent.
\<close>

theorem macro_send_stays_in_buffer:
  assumes "eeprom ops cap bytes good" and "dk_static_asserts k cap" and "good e" and "good e'"
    and "macro_area k (bytes e') = macro_area k (bytes e)" and "n < MACRO_COUNT k" and "last (macro_area k (bytes e)) = 0"
  shows "if count_list (macro_area k (bytes e)) 0 \<noteq> n
    then dynamic_keymap_macro_send k ops n e \<noteq> None \<and> dynamic_keymap_macro_send k ops n e' = dynamic_keymap_macro_send k ops n e
    else dynamic_keymap_macro_send k ops n e = macro_strings ops (MACRO_EEPROM_ADDR k + MACRO_EEPROM_SIZE k) (replicate 6 0) e"
proof -
  let ?a = "MACRO_EEPROM_ADDR k" and ?fin = "MACRO_EEPROM_ADDR k + MACRO_EEPROM_SIZE k"
  note b = macro_area_bounds [OF assms(2)]
  have l: "length (bytes e) = cap" "length (bytes e') = cap" using eeprom.bytes_length [OF assms(1)] assms(3,4) by simp_all
  have same: "bytes e' ! i = bytes e ! i" if "?a \<le> i \<and> i < ?fin" for i
  proof -
    have "macro_area k (bytes e') ! (i - ?a) = macro_area k (bytes e) ! (i - ?a)" using assms(5) by simp
    moreover have "i - ?a < MACRO_EEPROM_SIZE k" "?a + (i - ?a) = i" using that by linarith+
    ultimately show ?thesis using b l unfolding macro_area_def by (simp add: nth_bytes_at)
  qed
  have la: "length (macro_area k (bytes e)) = MACRO_EEPROM_SIZE k" using b l by (simp add: macro_area_def)
  then have "macro_area k (bytes e) \<noteq> []" using b(2) by auto
  then have "last (macro_area k (bytes e)) = macro_area k (bytes e) ! (MACRO_EEPROM_SIZE k - 1)" by (simp add: last_conv_nth la)
  then have last: "bytes e ! (?fin - 1) = 0" using assms(7) b l by (simp add: macro_area_def nth_bytes_at)
  have al: "eeprom.alike cap bytes good ?a ?fin e e'"
    using assms(3,4) b same last by (simp add: eeprom.alike_def [OF assms(1)])
  have c: "eeprom.nuls bytes ?a ?fin e = count_list (macro_area k (bytes e)) 0"
    by (simp add: eeprom.nuls_def [OF assms(1)] macro_area_def)
  obtain r where r: "skip_macros ops n ?a ?fin e = Some r" "skip_macros ops n ?a ?fin e' = Some r"
    "eeprom.skip_ok bytes n ?a ?fin e (Some r)"
    using eeprom.skip_macros_law [OF assms(1) al, of ?a n] b
    by (cases "skip_macros ops n ?a ?fin e") (auto simp: eeprom.skip_ok_def [OF assms(1)])
  have rd: "eeprom_read_byte ops (?fin - 1) e = Some 0" "eeprom_read_byte ops (?fin - 1) e' = Some 0"
    using eeprom.alike_read(1,2) [OF assms(1) al, of "?fin - 1"] b last by simp_all
  have send: "dynamic_keymap_macro_send k ops n x = (case r of None \<Rightarrow> Some [] | Some p \<Rightarrow> macro_strings ops p (replicate 6 0) x)"
    if "x = e \<or> x = e'" for x
    using assms(6) r(1,2) rd that by (auto simp: dynamic_keymap_macro_send_def split: option.split)
  show ?thesis
  proof (cases r)
    case None
    then show ?thesis using send r(3) c by (auto simp: eeprom.skip_ok_def [OF assms(1)])
  next
    case (Some p)
    then have p: "?a \<le> p" "p \<le> ?fin" "p = ?fin \<longleftrightarrow> n = count_list (macro_area k (bytes e)) 0"
      using r(3) c b by (auto simp: eeprom.skip_ok_def [OF assms(1)])
    show ?thesis
      using send [of e] send [of e'] Some p eeprom.macro_strings_law [OF assms(1) al p(1), of "replicate 6 0"]
      by (cases "p = ?fin") (auto split: if_splits)
  qed
qed

text \<open>The second macro of two that fill the buffer is sent, the third would be read from behind the buffer.\<close>

lemma macro_send_stays_in_buffer_witness:
  "dynamic_keymap_macro_send demo_dk transient_ops 1 (zeros 10 @ replicate 107 4 @ [0, 5, 0]) \<noteq> None"
proof -
  let ?m = "zeros 10 @ replicate 107 4 @ [0, 5, 0]"
  have g: "length ?m = 120 \<and> (120 :: nat) < 2 ^ 32" by simp
  have a: "macro_area demo_dk ?m = replicate 107 4 @ [0, 5, 0]"
    by (simp add: macro_area_def demo_dk_asserts bytes_at_def zeros_def)
  have "last (macro_area demo_dk ?m) = 0" "1 < MACRO_COUNT demo_dk" "count_list (macro_area demo_dk ?m) 0 = 2"
    unfolding a by (simp_all add: demo_dk_def)
  then show ?thesis
    using macro_send_stays_in_buffer [OF transient_eeprom demo_dk_asserts(1) g g refl, of 1] by (simp add: zeros_def)
qed

end
