(* ===== verification/DynamicMacro.thy ===== *)
theory DynamicMacro
  imports ActionProcess "HOL-Library.Monad_Syntax"
begin

text \<open>
  Dynamic macros (\<^verbatim>\<open>quantum/process_keycode/process_dynamic_macro.c\<close>): two macros that grow from the
  two ends of one buffer of key records, the recording of keys into them and their playback.
  Pointers into the buffer are integers, the two directions are 1 and -1. An access outside of the
  buffer, or through the null pointer, is None.
\<close>

section \<open>State and environment\<close>

record dm_state =
  macro_buffer :: "keyrecord list"
  macro_end :: int
  r_macro_end :: int
  macro_pointer :: "int option"
  macro_id :: nat

text \<open>
  What the code calls. \<open>run_record\<close> is \<^verbatim>\<open>process_record\<close>, which is given a pointer into the buffer, may change the record
  there and may come back to this module (a macro that plays the other one), so it acts on both states; None stands
  for a call that does not return. The other calls act on the rest of the keyboard: \<open>playback_delay\<close> is the wait between
  two records of a playback; \<open>reach_handler\<close> is what \<^verbatim>\<open>process_record\<close> does with a record before it reaches the handler of
  this module, with the keycode it reaches it with, None when an earlier handler consumes the record; \<open>handle_record\<close> is
  what it does afterwards, given whether the record was passed on.
\<close>

record ('l, 'w) dm_env =
  run_record :: "int \<Rightarrow> dm_state \<times> 'w \<Rightarrow> (dm_state \<times> 'w) option"
  reach_handler :: "keyrecord \<Rightarrow> 'w \<Rightarrow> u16 option \<times> 'w"
  handle_record :: "bool \<Rightarrow> keyrecord \<Rightarrow> 'w \<Rightarrow> keyrecord \<times> 'w"
  run_clear_keyboard :: "'w \<Rightarrow> 'w"
  run_layer_clear :: "'w \<Rightarrow> 'w"
  read_layer_state :: "'w \<Rightarrow> 'l"
  run_layer_state_set :: "'l \<Rightarrow> 'w \<Rightarrow> 'w"
  playback_delay :: "'w \<Rightarrow> 'w"
  record_start_user :: "int \<Rightarrow> 'w \<Rightarrow> 'w"
  play_user :: "int \<Rightarrow> 'w \<Rightarrow> 'w"
  record_key_user :: "int \<Rightarrow> keyrecord \<Rightarrow> 'w \<Rightarrow> 'w"
  record_end_user :: "int \<Rightarrow> 'w \<Rightarrow> 'w"
  valid_key_user :: "u16 \<Rightarrow> keyrecord \<Rightarrow> 'w \<Rightarrow> bool"
  no_nesting :: bool

definition dm_init :: "nat \<Rightarrow> dm_state" where
  "dm_init n = \<lparr>macro_buffer = replicate n empty_record, macro_end = 0, r_macro_end = int n - 1,
     macro_pointer = None, macro_id = 0\<rparr>"

definition r_macro_buffer :: "dm_state \<Rightarrow> int" where
  "r_macro_buffer d = int (length (macro_buffer d)) - 1"

definition fetch_record :: "dm_state \<Rightarrow> int \<Rightarrow> keyrecord option" where
  "fetch_record d p = (if 0 \<le> p \<and> p < int (length (macro_buffer d)) then Some (macro_buffer d ! nat p) else None)"

definition store_record :: "int \<Rightarrow> keyrecord \<Rightarrow> dm_state \<Rightarrow> dm_state option" where
  "store_record p r d =
    (if 0 \<le> p \<and> p < int (length (macro_buffer d)) then Some (d\<lparr>macro_buffer := (macro_buffer d)[nat p := r]\<rparr>) else None)"

section \<open>Operations\<close>

definition dynamic_macro_record_start :: "('l, 'w) dm_env \<Rightarrow> int \<Rightarrow> int \<Rightarrow> dm_state \<times> 'w \<Rightarrow> dm_state \<times> 'w" where
  "dynamic_macro_record_start env start dir s =
    (let (d, w) = s in
     (d\<lparr>macro_pointer := Some start\<rparr>, run_layer_clear env (run_clear_keyboard env (record_start_user env dir w))))"

partial_function (option) play_records ::
    "('l, 'w) dm_env \<Rightarrow> int \<Rightarrow> int \<Rightarrow> int \<Rightarrow> dm_state \<times> 'w \<Rightarrow> (dm_state \<times> 'w) option" where
  "play_records env p fin dir s =
    (if p = fin then Some s
     else do { (d, w) \<leftarrow> run_record env p s; play_records env (p + dir) fin dir (d, playback_delay env w) })"

definition dynamic_macro_play :: "('l, 'w) dm_env \<Rightarrow> int \<Rightarrow> int \<Rightarrow> int \<Rightarrow> dm_state \<times> 'w \<Rightarrow> (dm_state \<times> 'w) option" where
  "dynamic_macro_play env start fin dir s =
    (let (d, w) = s; saved = read_layer_state env w in
     do { (d, w) \<leftarrow> play_records env start fin dir (d, run_layer_clear env (run_clear_keyboard env w));
          Some (d, play_user env dir (run_layer_state_set env saved (run_clear_keyboard env w))) })"

definition dynamic_macro_record_key ::
    "('l, 'w) dm_env \<Rightarrow> int \<Rightarrow> int \<Rightarrow> int \<Rightarrow> keyrecord \<Rightarrow> dm_state \<times> 'w \<Rightarrow> (dm_state \<times> 'w) option" where
  "dynamic_macro_record_key env start other_end dir r s =
    (let (d, w) = s in
     case macro_pointer d of
       None \<Rightarrow> None
     | Some p \<Rightarrow>
         if \<not> pressed (event r) \<and> p = start then Some (d, w)
         else do { d \<leftarrow> (if p - dir \<noteq> other_end
                        then map_option (\<lambda>d. d\<lparr>macro_pointer := Some (p + dir)\<rparr>) (store_record p r d)
                        else Some d);
                   Some (d, record_key_user env dir r w) })"

partial_function (option) trim_pointer :: "dm_state \<Rightarrow> int \<Rightarrow> int \<Rightarrow> int \<Rightarrow> int option" where
  "trim_pointer d start p dir =
    (if p = start then Some p
     else do { r \<leftarrow> fetch_record d (p - dir);
               if pressed (event r) then trim_pointer d start (p - dir) dir else Some p })"

definition dynamic_macro_record_end ::
    "('l, 'w) dm_env \<Rightarrow> int \<Rightarrow> int \<Rightarrow> (int \<Rightarrow> dm_state \<Rightarrow> dm_state) \<Rightarrow> dm_state \<times> 'w \<Rightarrow> (dm_state \<times> 'w) option" where
  "dynamic_macro_record_end env start dir set_end s =
    (let (d, w) = s; w = record_end_user env dir w in
     do { p \<leftarrow> macro_pointer d; q \<leftarrow> trim_pointer d start p dir; Some (set_end q d, w) })"

definition dynamic_macro_stop_recording :: "('l, 'w) dm_env \<Rightarrow> dm_state \<times> 'w \<Rightarrow> (dm_state \<times> 'w) option" where
  "dynamic_macro_stop_recording env s =
     map_option (map_prod (\<lambda>d. d\<lparr>macro_id := 0\<rparr>) id)
      (if macro_id (fst s) = 1 then dynamic_macro_record_end env 0 1 (\<lambda>p d. d\<lparr>macro_end := p\<rparr>) s
       else if macro_id (fst s) = 2
       then dynamic_macro_record_end env (r_macro_buffer (fst s)) (-1) (\<lambda>p d. d\<lparr>r_macro_end := p\<rparr>) s
       else Some s)"

definition QK_DYNAMIC_MACRO_RECORD_START_1 :: u16 where "QK_DYNAMIC_MACRO_RECORD_START_1 = 0x7C53"
definition QK_DYNAMIC_MACRO_RECORD_START_2 :: u16 where "QK_DYNAMIC_MACRO_RECORD_START_2 = 0x7C54"
definition QK_DYNAMIC_MACRO_RECORD_STOP :: u16 where "QK_DYNAMIC_MACRO_RECORD_STOP = 0x7C55"
definition QK_DYNAMIC_MACRO_PLAY_1 :: u16 where "QK_DYNAMIC_MACRO_PLAY_1 = 0x7C56"
definition QK_DYNAMIC_MACRO_PLAY_2 :: u16 where "QK_DYNAMIC_MACRO_PLAY_2 = 0x7C57"

lemmas dm_keycodes = QK_DYNAMIC_MACRO_RECORD_START_1_def QK_DYNAMIC_MACRO_RECORD_START_2_def
  QK_DYNAMIC_MACRO_RECORD_STOP_def QK_DYNAMIC_MACRO_PLAY_1_def QK_DYNAMIC_MACRO_PLAY_2_def

definition process_dynamic_macro ::
    "('l, 'w) dm_env \<Rightarrow> u16 \<Rightarrow> keyrecord \<Rightarrow> dm_state \<times> 'w \<Rightarrow> (bool \<times> dm_state \<times> 'w) option" where
  "process_dynamic_macro env keycode r s =
    (if macro_id (fst s) = 0 then
       (if pressed (event r) then Some (True, s)
        else if keycode = QK_DYNAMIC_MACRO_RECORD_START_1
        then Some (False, map_prod (\<lambda>d. d\<lparr>macro_id := 1\<rparr>) id (dynamic_macro_record_start env 0 1 s))
        else if keycode = QK_DYNAMIC_MACRO_RECORD_START_2
        then Some (False, map_prod (\<lambda>d. d\<lparr>macro_id := 2\<rparr>) id (dynamic_macro_record_start env (r_macro_buffer (fst s)) (-1) s))
        else if keycode = QK_DYNAMIC_MACRO_PLAY_1
        then map_option (Pair False) (dynamic_macro_play env 0 (macro_end (fst s)) 1 s)
        else if keycode = QK_DYNAMIC_MACRO_PLAY_2
        then map_option (Pair False) (dynamic_macro_play env (r_macro_buffer (fst s)) (r_macro_end (fst s)) (-1) s)
        else Some (True, s))
     else if keycode \<in> {QK_DYNAMIC_MACRO_RECORD_START_1, QK_DYNAMIC_MACRO_RECORD_START_2, QK_DYNAMIC_MACRO_RECORD_STOP} then
       (if pressed (event r) \<noteq> (keycode \<noteq> QK_DYNAMIC_MACRO_RECORD_STOP)
        then map_option (Pair False) (dynamic_macro_stop_recording env s) else Some (False, s))
     else if no_nesting env \<and> keycode \<in> {QK_DYNAMIC_MACRO_PLAY_1, QK_DYNAMIC_MACRO_PLAY_2} then Some (False, s)
     else if valid_key_user env keycode r (snd s) then
       map_option (Pair True)
        (if macro_id (fst s) = 1 then dynamic_macro_record_key env 0 (r_macro_end (fst s)) 1 r s
         else if macro_id (fst s) = 2
         then dynamic_macro_record_key env (r_macro_buffer (fst s)) (macro_end (fst s)) (-1) r s
         else Some s)
     else Some (True, s))"

declare play_records.simps [code] trim_pointer.simps [code]

section \<open>The way back through process_record\<close>

text \<open>
  A record of a playback is processed like any other, and its handler is the one above: a macro may play the other one,
  or itself. The number bounds the depth of the recursion. The record is a pointer into the buffer, so what the rest of
  \<^verbatim>\<open>process_record\<close> sees is what is there when it gets to it.
\<close>

fun process_macro_record :: "nat \<Rightarrow> ('l, 'w) dm_env \<Rightarrow> int \<Rightarrow> dm_state \<times> 'w \<Rightarrow> (dm_state \<times> 'w) option" where
  "process_macro_record 0 env p (d, w) = None"
| "process_macro_record (Suc n) env p (d, w) =
    do { r \<leftarrow> fetch_record d p;
         if IS_NOEVENT (event r) then Some (d, w)
         else
           (let (kc, w) = reach_handler env r w in
            do { (go, d, w) \<leftarrow> (case kc of
                   None \<Rightarrow> Some (False, d, w)
                 | Some kc \<Rightarrow> process_dynamic_macro (env\<lparr>run_record := process_macro_record n env\<rparr>) kc r (d, w));
                 r \<leftarrow> fetch_record d p;
                 let (r, w) = handle_record env go r w;
                 d \<leftarrow> store_record p r d;
                 Some (d, w) }) }"

definition nested :: "nat \<Rightarrow> ('l, 'w) dm_env \<Rightarrow> ('l, 'w) dm_env" where
  "nested n env = env\<lparr>run_record := process_macro_record n env\<rparr>"

text \<open>The keycode of a record on the model of the action layer; \<open>keymap\<close> is \<^verbatim>\<open>keymap_key_to_keycode\<close>.\<close>

definition lookup_event_keycode ::
    "('l::len word) process_cfg \<Rightarrow> (nat \<Rightarrow> keypos \<Rightarrow> u16) \<Rightarrow> keyevent \<Rightarrow> bool \<Rightarrow> ('l word) process_state \<Rightarrow> u16 \<times> ('l word) process_state" where
  "lookup_event_keycode pc keymap e update p =
    (let top = layer_switch_get_layer (lays pc) (lookup pc) (key e) (core p) in
     if \<not> no_layer pc \<and> \<not> STRICT_LAYER_RELEASE (act pc) \<and> \<not> disable_action_cache (lays pc) then
       (if pressed e \<and> update
        then (keymap top (key e), p\<lparr>cache := update_source_layers_cache (lays pc) (key e) (of_nat top) (cache p)\<rparr>)
        else (keymap (unat (read_source_layers_cache (lays pc) (key e) (cache p))) (key e), p))
     else (keymap top (key e), p))"

definition lookup_record_keycode ::
    "('l::len word) process_cfg \<Rightarrow> (nat \<Rightarrow> keypos \<Rightarrow> u16) \<Rightarrow> keyrecord \<Rightarrow> bool \<Rightarrow> ('l word) process_state \<Rightarrow> u16 \<times> ('l word) process_state" where
  "lookup_record_keycode pc keymap r update p =
    (if keycode_in_record pc \<and> rec_keycode r \<noteq> 0 then (rec_keycode r, p) else lookup_event_keycode pc keymap (event r) update p)"

text \<open>
  The handler on the model of the action layer, in a keymap that has no earlier handlers; \<open>quantum pc\<close> is the chain of
  handlers behind it. A record that it consumes is left with \<^verbatim>\<open>process_record_quantum\<close> having returned false.
\<close>

definition keyboard_env :: "('l::len word) process_cfg \<Rightarrow> (nat \<Rightarrow> keypos \<Rightarrow> u16) \<Rightarrow> bool \<Rightarrow> ('l word, ('l word) process_state) dm_env" where
  "keyboard_env pc keymap no_nest =
    \<lparr>run_record = (\<lambda>_ _. None),
     reach_handler = (\<lambda>r p. case lookup_record_keycode pc keymap r True p of (kc, p) \<Rightarrow> (Some kc, p)),
     handle_record = (\<lambda>go. process_record (if go then pc else pc\<lparr>quantum := (\<lambda>_ p. (False, p))\<rparr>)),
     run_clear_keyboard = on_core (clear_keyboard (act pc)), run_layer_clear = on_core (layer_clear (act pc)),
     read_layer_state = (\<lambda>p. layer_state (core p)), run_layer_state_set = (\<lambda>l. on_core (layer_state_set (act pc) l)),
     playback_delay = id, record_start_user = (\<lambda>_. id), play_user = (\<lambda>_. id), record_key_user = (\<lambda>_ _. id),
     record_end_user = (\<lambda>_. id), valid_key_user = (\<lambda>_ _ _. True), no_nesting = no_nest\<rparr>"

end
