(* ===== verification/DynamicMacroProps.thy ===== *)
theory DynamicMacroProps
  imports DynamicMacro
begin

text \<open>
  What dynamic macros promise: two lists of records that share one capacity. The buffer with its
  pointers is shown to implement the lists, operation by operation; what a recording keeps and what a
  playback runs is then read off the lists.
\<close>

section \<open>The specification\<close>

datatype slot = Macro1 | Macro2

fun other :: "slot \<Rightarrow> slot" where
  "other Macro1 = Macro2"
| "other Macro2 = Macro1"

fun direction :: "slot \<Rightarrow> int" where
  "direction Macro1 = 1"
| "direction Macro2 = -1"

fun slot_id :: "slot \<Rightarrow> nat" where
  "slot_id Macro1 = 1"
| "slot_id Macro2 = 2"

record dm_spec =
  content :: "slot \<Rightarrow> keyrecord list"
  recording :: "(slot \<times> keyrecord list) option"

definition trim :: "keyrecord list \<Rightarrow> keyrecord list" where
  "trim rs = rev (dropWhile (\<lambda>r. pressed (event r)) (rev rs))"

text \<open>Records run one after the other; a record may be changed by its processing.\<close>

fun run_list :: "('w \<Rightarrow> 'w) \<Rightarrow> (keyrecord \<Rightarrow> 'w \<Rightarrow> keyrecord \<times> 'w) \<Rightarrow> keyrecord list \<Rightarrow> 'w \<Rightarrow> keyrecord list \<times> 'w" where
  "run_list wait f [] w = ([], w)"
| "run_list wait f (r # rs) w = (case f r w of (r, w) \<Rightarrow> case run_list wait f rs (wait w) of (rs, w) \<Rightarrow> (r # rs, w))"

definition spec_start :: "('l, 'w) dm_env \<Rightarrow> slot \<Rightarrow> dm_spec \<times> 'w \<Rightarrow> dm_spec \<times> 'w" where
  "spec_start env s = (\<lambda>(a, w). (a\<lparr>recording := Some (s, [])\<rparr>,
     run_layer_clear env (run_clear_keyboard env (record_start_user env (direction s) w))))"

text \<open>
  A playback runs the records of a macro from the front; \<open>run\<close> processes the record at a place of a macro, and may come
  back here.
\<close>

fun spec_records :: "('w \<Rightarrow> 'w) \<Rightarrow> (slot \<Rightarrow> nat \<Rightarrow> dm_spec \<times> 'w \<Rightarrow> (dm_spec \<times> 'w) option) \<Rightarrow> slot \<Rightarrow> nat \<Rightarrow> nat \<Rightarrow> dm_spec \<times> 'w \<Rightarrow>
    (dm_spec \<times> 'w) option" where
  "spec_records wait run s k 0 a = Some a"
| "spec_records wait run s k (Suc m) a =
    (if k < length (content (fst a) s)
     then do { (a, w) \<leftarrow> run s k a; spec_records wait run s (Suc k) m (a, wait w) } else None)"

definition spec_play ::
    "('l, 'w) dm_env \<Rightarrow> (slot \<Rightarrow> nat \<Rightarrow> dm_spec \<times> 'w \<Rightarrow> (dm_spec \<times> 'w) option) \<Rightarrow> slot \<Rightarrow> dm_spec \<times> 'w \<Rightarrow> (dm_spec \<times> 'w) option" where
  "spec_play env run s = (\<lambda>(a, w).
    do { (a, w') \<leftarrow> spec_records (playback_delay env) run s 0 (length (content a s)) (a, run_layer_clear env (run_clear_keyboard env w));
         Some (a, play_user env (direction s) (run_layer_state_set env (read_layer_state env w) (run_clear_keyboard env w'))) })"

definition spec_stop :: "('l, 'w) dm_env \<Rightarrow> slot \<Rightarrow> keyrecord list \<Rightarrow> dm_spec \<times> 'w \<Rightarrow> dm_spec \<times> 'w" where
  "spec_stop env s rs = (\<lambda>(a, w). (a\<lparr>content := (content a)(s := trim rs), recording := None\<rparr>, record_end_user env (direction s) w))"

definition spec_key :: "('l, 'w) dm_env \<Rightarrow> nat \<Rightarrow> slot \<Rightarrow> keyrecord list \<Rightarrow> keyrecord \<Rightarrow> dm_spec \<times> 'w \<Rightarrow> dm_spec \<times> 'w" where
  "spec_key env n s rs r = (\<lambda>(a, w).
    if \<not> pressed (event r) \<and> rs = [] then (a, w)
    else (a\<lparr>recording := Some (s, if length rs + length (content a (other s)) < n then rs @ [r] else rs)\<rparr>,
          record_key_user env (direction s) r w))"

definition spec_step ::
    "('l, 'w) dm_env \<Rightarrow> (slot \<Rightarrow> nat \<Rightarrow> dm_spec \<times> 'w \<Rightarrow> (dm_spec \<times> 'w) option) \<Rightarrow> nat \<Rightarrow> u16 \<Rightarrow> keyrecord \<Rightarrow> dm_spec \<times> 'w \<Rightarrow>
      (bool \<times> dm_spec \<times> 'w) option" where
  "spec_step env run n keycode r a =
    (case recording (fst a) of
       None \<Rightarrow>
         if pressed (event r) then Some (True, a)
         else if keycode = QK_DYNAMIC_MACRO_RECORD_START_1 then Some (False, spec_start env Macro1 a)
         else if keycode = QK_DYNAMIC_MACRO_RECORD_START_2 then Some (False, spec_start env Macro2 a)
         else if keycode = QK_DYNAMIC_MACRO_PLAY_1 then map_option (Pair False) (spec_play env run Macro1 a)
         else if keycode = QK_DYNAMIC_MACRO_PLAY_2 then map_option (Pair False) (spec_play env run Macro2 a)
         else Some (True, a)
     | Some (s, rs) \<Rightarrow>
         if keycode = QK_DYNAMIC_MACRO_RECORD_STOP then Some (False, if pressed (event r) then spec_stop env s rs a else a)
         else if keycode = QK_DYNAMIC_MACRO_RECORD_START_1 \<or> keycode = QK_DYNAMIC_MACRO_RECORD_START_2
         then Some (False, if pressed (event r) then a else spec_stop env s rs a)
         else if no_nesting env \<and> (keycode = QK_DYNAMIC_MACRO_PLAY_1 \<or> keycode = QK_DYNAMIC_MACRO_PLAY_2) then Some (False, a)
         else Some (True, if valid_key_user env keycode r (snd a) then spec_key env n s rs r a else a))"

text \<open>
  The record at a place of a macro goes through \<^verbatim>\<open>process_record\<close>, and so through the step above; the number bounds the
  depth of macros that play macros. A record that starts a recording is outside of the specification.
\<close>

definition put_content :: "slot \<Rightarrow> nat \<Rightarrow> keyrecord \<Rightarrow> dm_spec \<Rightarrow> dm_spec" where
  "put_content s k r a = a\<lparr>content := (content a)(s := (content a s)[k := r])\<rparr>"

fun spec_record :: "nat \<Rightarrow> ('l, 'w) dm_env \<Rightarrow> nat \<Rightarrow> slot \<Rightarrow> nat \<Rightarrow> dm_spec \<times> 'w \<Rightarrow> (dm_spec \<times> 'w) option" where
  "spec_record 0 env n s k (a, w) = None"
| "spec_record (Suc m) env n s k (a, w) =
    (let r = content a s ! k in
     if IS_NOEVENT (event r) then Some (a, w)
     else
       (let (kc, w) = reach_handler env r w in
        do { (go, a, w) \<leftarrow> (case kc of
               None \<Rightarrow> Some (False, a, w)
             | Some kc \<Rightarrow> spec_step env (spec_record m env n) n kc r (a, w));
             (if recording a = None \<and> k < length (content a s)
              then (let (r, w) = handle_record env go (content a s ! k) w in Some (put_content s k r a, w))
              else None) }))"

section \<open>The buffer as two lists\<close>

fun slot_pos :: "nat \<Rightarrow> slot \<Rightarrow> nat \<Rightarrow> int" where
  "slot_pos n Macro1 k = int k"
| "slot_pos n Macro2 k = int n - 1 - int k"

fun end_of :: "slot \<Rightarrow> dm_state \<Rightarrow> int" where
  "end_of Macro1 d = macro_end d"
| "end_of Macro2 d = r_macro_end d"

fun set_end_of :: "slot \<Rightarrow> int \<Rightarrow> dm_state \<Rightarrow> dm_state" where
  "set_end_of Macro1 p d = d\<lparr>macro_end := p\<rparr>"
| "set_end_of Macro2 p d = d\<lparr>r_macro_end := p\<rparr>"

definition holds :: "dm_state \<Rightarrow> slot \<Rightarrow> keyrecord list \<Rightarrow> bool" where
  "holds d s xs \<longleftrightarrow> length xs \<le> length (macro_buffer d) \<and>
     (\<forall>k<length xs. macro_buffer d ! nat (slot_pos (length (macro_buffer d)) s k) = xs ! k)"

definition stored :: "dm_state \<Rightarrow> slot \<Rightarrow> keyrecord list \<Rightarrow> bool" where
  "stored d s xs \<longleftrightarrow> holds d s xs \<and> end_of s d = slot_pos (length (macro_buffer d)) s (length xs)"

definition dm_rel :: "dm_state \<Rightarrow> dm_spec \<Rightarrow> bool" where
  "dm_rel d a \<longleftrightarrow>
    (case recording a of
       None \<Rightarrow> macro_id d = 0 \<and> (\<forall>s. stored d s (content a s)) \<and>
         length (content a Macro1) + length (content a Macro2) \<le> length (macro_buffer d)
     | Some (s, rs) \<Rightarrow> macro_id d = slot_id s \<and>
         macro_pointer d = Some (slot_pos (length (macro_buffer d)) s (length rs)) \<and> holds d s rs \<and>
         stored d (other s) (content a (other s)) \<and> length rs + length (content a (other s)) \<le> length (macro_buffer d))"

text \<open>
  The processing of these records leaves the macros alone, as long as none is being recorded: none of them plays or
  records one.
\<close>

definition leaves_macros :: "('l, 'w) dm_env \<Rightarrow> (keyrecord \<Rightarrow> 'w \<Rightarrow> keyrecord \<times> 'w) \<Rightarrow> keyrecord set \<Rightarrow> bool" where
  "leaves_macros env f R \<longleftrightarrow> (\<forall>p d w r. macro_id d = 0 \<and> fetch_record d p = Some r \<and> r \<in> R \<longrightarrow>
     run_record env p (d, w) = (case f r w of (r, w) \<Rightarrow> map_option (\<lambda>d. (d, w)) (store_record p r d)))"

text \<open>Running a record in the buffer does what the specification does at that place of the lists.\<close>

definition simulates :: "('l, 'w) dm_env \<Rightarrow> nat \<Rightarrow> (slot \<Rightarrow> nat \<Rightarrow> dm_spec \<times> 'w \<Rightarrow> (dm_spec \<times> 'w) option) \<Rightarrow> bool" where
  "simulates env n run \<longleftrightarrow>
    (\<forall>s k d a w a' w'. dm_rel d a \<and> recording a = None \<and> length (macro_buffer d) = n \<and> k < length (content a s) \<and>
       run s k (a, w) = Some (a', w') \<longrightarrow> recording a' = None \<and>
       (\<exists>d'. run_record env (slot_pos n s k) (d, w) = Some (d', w') \<and> dm_rel d' a' \<and> length (macro_buffer d') = n))"

definition put :: "slot \<Rightarrow> nat \<Rightarrow> keyrecord \<Rightarrow> dm_state \<Rightarrow> dm_state" where
  "put s k r d = d\<lparr>macro_buffer := (macro_buffer d)[nat (slot_pos (length (macro_buffer d)) s k) := r]\<rparr>"

lemma slot_pos_bounds: "k < n \<Longrightarrow> 0 \<le> slot_pos n s k \<and> slot_pos n s k < int n"
  by (cases s) auto

lemma slot_pos_inj: "slot_pos n s j = slot_pos n s k \<longleftrightarrow> j = k"
  by (cases s) auto

lemma slot_pos_disjoint: "j + k + 1 < n \<Longrightarrow> slot_pos n s j \<noteq> slot_pos n (other s) k"
  by (cases s) auto

lemma slot_pos_Suc: "slot_pos n s k + direction s = slot_pos n s (Suc k)"
  by (cases s) auto

lemma slot_pos_pred: "slot_pos n s (Suc k) - direction s = slot_pos n s k"
  by (cases s) auto

lemma slot_full: "slot_pos n s j - direction s = slot_pos n (other s) k \<longleftrightarrow> j + k = n"
  by (cases s) auto

lemma other_other [simp]: "other (other s) = s"
  by (cases s) auto

lemma other_neq [simp]: "other s \<noteq> s" "s \<noteq> other s"
  by (cases s; simp)+

lemma nat_slot_pos_eq:
  assumes "j < n" and "k < n"
  shows "nat (slot_pos n s j) = nat (slot_pos n t k) \<longleftrightarrow> slot_pos n s j = slot_pos n t k"
  using slot_pos_bounds [OF assms(1), of s] slot_pos_bounds [OF assms(2), of t] by linarith

lemma nat_slot_pos_less: "k < n \<Longrightarrow> nat (slot_pos n s k) < n"
  using slot_pos_bounds [of k n s] by linarith

lemma put_fields [simp]:
  "length (macro_buffer (put s k r d)) = length (macro_buffer d)" "end_of t (put s k r d) = end_of t d"
  "macro_id (put s k r d) = macro_id d" "macro_pointer (put s k r d) = macro_pointer d"
  by (cases t; simp add: put_def)+

lemma fetch_slot: "k < length (macro_buffer d) \<Longrightarrow>
    fetch_record d (slot_pos (length (macro_buffer d)) s k) = Some (macro_buffer d ! nat (slot_pos (length (macro_buffer d)) s k))"
  using slot_pos_bounds [of k "length (macro_buffer d)" s] by (simp add: fetch_record_def)

lemma store_slot: "k < length (macro_buffer d) \<Longrightarrow> store_record (slot_pos (length (macro_buffer d)) s k) r d = Some (put s k r d)"
  using slot_pos_bounds [of k "length (macro_buffer d)" s] by (simp add: store_record_def put_def)

lemma fetch_holds:
  assumes "holds d s xs" and "k < length xs"
  shows "fetch_record d (slot_pos (length (macro_buffer d)) s k) = Some (xs ! k)"
  using assms fetch_slot [of k d s] by (simp add: holds_def)

lemma holds_put:
  assumes "holds d s xs" and "length xs < length (macro_buffer d)"
  shows "holds (put s (length xs) r d) s (xs @ [r])"
  using assms by (auto simp: holds_def put_def nth_append nth_list_update nat_slot_pos_eq slot_pos_inj less_Suc_eq nat_slot_pos_less)

lemma holds_put_change:
  assumes "holds d s xs" and "k < length xs"
  shows "holds (put s k r d) s (xs[k := r])"
  using assms by (auto simp: holds_def put_def nth_list_update nat_slot_pos_eq slot_pos_inj nat_slot_pos_less)

lemma holds_put_other:
  assumes "holds d (other s) ys" and "k + length ys < length (macro_buffer d)"
  shows "holds (put s k r d) (other s) ys"
proof -
  have "nat (slot_pos (length (macro_buffer d)) s k) \<noteq> nat (slot_pos (length (macro_buffer d)) (other s) j)" if "j < length ys" for j
    using that assms(2) slot_pos_disjoint [of k j "length (macro_buffer d)" s] by (simp add: nat_slot_pos_eq)
  then show ?thesis using assms(1) by (auto simp: holds_def put_def)
qed

lemma holds_cong: "macro_buffer d' = macro_buffer d \<Longrightarrow> holds d' s xs = holds d s xs"
  by (simp add: holds_def)

lemma holds_take: "holds d s (xs @ ys) \<Longrightarrow> holds d s xs"
  by (auto simp: holds_def nth_append)

lemma trim_snoc: "trim (rs @ [r]) = (if pressed (event r) then trim rs else rs @ [r])"
  by (simp add: trim_def)

lemma trim_Nil [simp]: "trim [] = []"
  by (simp add: trim_def)

lemma trim_prefix: "\<exists>ys. rs = trim rs @ ys"
proof (induction rs rule: rev_induct)
  case (snoc r rs)
  then obtain ys where "rs = trim rs @ ys" by blast
  then have "rs @ [r] = trim rs @ ys @ [r]" by simp
  then show ?case by (cases "pressed (event r)") (metis trim_snoc, simp add: trim_snoc)
qed simp

text \<open>Stopping a recording moves the pointer back over the presses at its end.\<close>

lemma trim_pointer_list:
  assumes "holds d s rs"
  shows "trim_pointer d (slot_pos (length (macro_buffer d)) s 0) (slot_pos (length (macro_buffer d)) s (length rs)) (direction s)
    = Some (slot_pos (length (macro_buffer d)) s (length (trim rs)))"
  using assms
proof (induction rs rule: rev_induct)
  case Nil
  then show ?case by (subst trim_pointer.simps) simp
next
  case (snoc r rs)
  have "fetch_record d (slot_pos (length (macro_buffer d)) s (length rs)) = Some r"
    using fetch_holds [OF snoc.prems, of "length rs"] by simp
  then show ?case
    using snoc.IH [OF holds_take [OF snoc.prems]]
    by (subst trim_pointer.simps) (simp add: slot_pos_inj slot_pos_pred trim_snoc del: slot_pos.simps)
qed

section \<open>The operations on the lists\<close>

lemma holds_empty [simp]: "holds d s []"
  by (simp add: holds_def)

lemma stored_fields: "macro_buffer d' = macro_buffer d \<Longrightarrow> end_of s d' = end_of s d \<Longrightarrow> stored d' s xs = stored d s xs"
  by (simp add: stored_def holds_def)

lemma end_of_fields [simp]: "end_of s (d\<lparr>macro_id := i\<rparr>) = end_of s d" "end_of s (d\<lparr>macro_pointer := p\<rparr>) = end_of s d"
  by (cases s; simp)+

lemma set_end_of [simp]: "end_of s (set_end_of s p d) = p" "end_of (other s) (set_end_of s p d) = end_of (other s) d"
    "macro_buffer (set_end_of s p d) = macro_buffer d" "macro_id (set_end_of s p d) = macro_id d"
  by (cases s; simp)+

lemma slots: "(\<forall>t. P t) \<longleftrightarrow> P s \<and> P (other s)"
  by (cases s) (auto, (metis slot.exhaust)+)

lemma sum_slots: "g Macro1 + g Macro2 = g s + (g (other s) :: nat)"
  by (cases s) auto

lemma dm_rel_idle: "recording a = None \<Longrightarrow> dm_rel d a \<longleftrightarrow>
    macro_id d = 0 \<and> stored d s (content a s) \<and> stored d (other s) (content a (other s)) \<and>
    length (content a s) + length (content a (other s)) \<le> length (macro_buffer d)"
  using sum_slots [of "\<lambda>s. length (content a s)" s] by (auto simp: dm_rel_def slots [where s = s])

lemma start_rel:
  assumes "dm_rel d a" and "recording a = None"
  shows "dm_rel (d\<lparr>macro_pointer := Some (slot_pos (length (macro_buffer d)) s 0), macro_id := slot_id s\<rparr>) (a\<lparr>recording := Some (s, [])\<rparr>)"
  using assms dm_rel_idle [OF assms(2), of d s] by (simp add: dm_rel_def stored_def holds_def)

text \<open>A place of a macro in the buffer and in the lists.\<close>

lemma place_rel:
  assumes "dm_rel d a" and "recording a = None" and "k < length (content a s)"
  shows "fetch_record d (slot_pos (length (macro_buffer d)) s k) = Some (content a s ! k)"
    and "store_record (slot_pos (length (macro_buffer d)) s k) r d = Some (put s k r d)"
    and "dm_rel (put s k r d) (put_content s k r a)"
proof -
  note rel = dm_rel_idle [OF assms(2), of _ s]
  have st: "stored d s (content a s)" "stored d (other s) (content a (other s))" "macro_id d = 0"
    "length (content a s) + length (content a (other s)) \<le> length (macro_buffer d)"
    using assms(1) rel by simp_all
  then have h: "holds d s (content a s)" "holds d (other s) (content a (other s))" by (simp_all add: stored_def)
  show "fetch_record d (slot_pos (length (macro_buffer d)) s k) = Some (content a s ! k)" by (rule fetch_holds [OF h(1) assms(3)])
  show "store_record (slot_pos (length (macro_buffer d)) s k) r d = Some (put s k r d)"
    by (rule store_slot) (use assms(3) st(4) in simp)
  have "holds (put s k r d) s ((content a s)[k := r])" by (rule holds_put_change [OF h(1) assms(3)])
  moreover have "holds (put s k r d) (other s) (content a (other s))" by (rule holds_put_other [OF h(2)]) (use assms(3) st(4) in simp)
  ultimately show "dm_rel (put s k r d) (put_content s k r a)"
    using st assms(2) dm_rel_idle [of "put_content s k r a" "put s k r d" s] by (simp add: put_content_def stored_def)
qed

text \<open>A playback runs the records of its list.\<close>

lemma play_records_rel:
  assumes "simulates env (length (macro_buffer d)) run" and "dm_rel d a" and "recording a = None"
    and "spec_records (playback_delay env) run s k m (a, w) = Some (a', w')"
  shows "recording a' = None \<and> (\<exists>d'. play_records env (slot_pos (length (macro_buffer d)) s k) (slot_pos (length (macro_buffer d)) s (k + m))
      (direction s) (d, w) = Some (d', w') \<and> dm_rel d' a' \<and> length (macro_buffer d') = length (macro_buffer d))"
  using assms
proof (induction m arbitrary: k d a w)
  case 0
  then show ?case by (subst play_records.simps) simp
next
  case (Suc m)
  let ?n = "length (macro_buffer d)"
  from Suc.prems(4) obtain a1 w1 where g: "k < length (content a s)" "run s k (a, w) = Some (a1, w1)"
    "spec_records (playback_delay env) run s (Suc k) m (a1, playback_delay env w1) = Some (a', w')"
    by (auto split: if_splits bind_splits)
  from Suc.prems(1-3) g(1,2) obtain d1 where d1: "recording a1 = None" "run_record env (slot_pos ?n s k) (d, w) = Some (d1, w1)"
    "dm_rel d1 a1" "length (macro_buffer d1) = ?n"
    unfolding simulates_def by blast
  from Suc.IH [OF _ d1(3,1) g(3)] Suc.prems(1) d1(4) obtain d' where
    "recording a' = None" "play_records env (slot_pos ?n s (Suc k)) (slot_pos ?n s (Suc k + m)) (direction s) (d1, playback_delay env w1) = Some (d', w')"
    "dm_rel d' a'" "length (macro_buffer d') = ?n" by auto
  then show ?case using d1(2) by (subst play_records.simps) (simp add: slot_pos_inj slot_pos_Suc)
qed

lemma play_list:
  assumes "simulates env (length (macro_buffer d)) run" and "dm_rel d a" and "recording a = None"
    and "spec_play env run s (a, w) = Some (a', w')"
  shows "recording a' = None \<and> (\<exists>d'. dynamic_macro_play env (slot_pos (length (macro_buffer d)) s 0) (end_of s d) (direction s) (d, w) = Some (d', w') \<and>
    dm_rel d' a' \<and> length (macro_buffer d') = length (macro_buffer d))"
proof -
  have e: "end_of s d = slot_pos (length (macro_buffer d)) s (0 + length (content a s))"
    using assms(2) dm_rel_idle [OF assms(3), of d s] by (simp add: stored_def)
  from assms(4) obtain v where z: "spec_records (playback_delay env) run s 0 (length (content a s))
      (a, run_layer_clear env (run_clear_keyboard env w)) = Some (a', v)"
    "w' = play_user env (direction s) (run_layer_state_set env (read_layer_state env w) (run_clear_keyboard env v))"
    by (auto simp: spec_play_def split: bind_splits)
  show ?thesis using play_records_rel [OF assms(1-3) z(1)] z(2) unfolding e by (auto simp: dynamic_macro_play_def)
qed

lemma key_list:
  assumes "dm_rel d a" and "recording a = Some (s, rs)" and "spec_key env (length (macro_buffer d)) s rs r (a, w) = (a', w')"
  obtains d' where "dynamic_macro_record_key env (slot_pos (length (macro_buffer d)) s 0) (end_of (other s) d) (direction s) r (d, w) = Some (d', w')"
    and "dm_rel d' a'" and "length (macro_buffer d') = length (macro_buffer d)"
proof -
  let ?n = "length (macro_buffer d)" and ?ys = "content a (other s)"
  have d: "macro_id d = slot_id s" "macro_pointer d = Some (slot_pos ?n s (length rs))" "holds d s rs" "stored d (other s) ?ys"
    "length rs + length ?ys \<le> ?n" using assms(1,2) by (simp_all add: dm_rel_def)
  have e: "end_of (other s) d = slot_pos ?n (other s) (length ?ys)" using d(4) by (simp add: stored_def)
  consider (skip) "\<not> pressed (event r)" "rs = []" | (full) "pressed (event r) \<or> rs \<noteq> []" "length rs + length ?ys = ?n"
    | (room) "pressed (event r) \<or> rs \<noteq> []" "length rs + length ?ys < ?n" using d(5) by linarith
  then show thesis
  proof cases
    case skip
    then show thesis using that [of d] assms(1,3) d(2) by (simp add: dynamic_macro_record_key_def spec_key_def)
  next
    case full
    then have "dynamic_macro_record_key env (slot_pos ?n s 0) (end_of (other s) d) (direction s) r (d, w) = Some (d, w')"
      using assms(3) d(2) e by (auto simp: dynamic_macro_record_key_def spec_key_def slot_pos_inj slot_full simp del: slot_pos.simps)
    moreover have "dm_rel d a'" using full assms d by (auto simp: spec_key_def dm_rel_def)
    ultimately show thesis using that by simp
  next
    case room
    let ?d = "(put s (length rs) r d)\<lparr>macro_pointer := Some (slot_pos ?n s (Suc (length rs)))\<rparr>"
    have "dynamic_macro_record_key env (slot_pos ?n s 0) (end_of (other s) d) (direction s) r (d, w) = Some (?d, w')"
      using room assms(3) d(2) e store_slot [of "length rs" d s r]
      by (auto simp: dynamic_macro_record_key_def spec_key_def slot_pos_inj slot_full slot_pos_Suc simp del: slot_pos.simps)
    moreover have "holds ?d s (rs @ [r])" "holds ?d (other s) ?ys"
      using holds_put [OF d(3), of r] holds_put_other [of d s ?ys "length rs" r] d(4) room(2)
      by (simp_all add: stored_def holds_def)
    then have "dm_rel ?d a'" using room assms(2,3) d e by (auto simp: spec_key_def dm_rel_def stored_def)
    ultimately show thesis using that [of ?d] by simp
  qed
qed

lemma stop_list:
  assumes "dm_rel d a" and "recording a = Some (s, rs)" and "spec_stop env s rs (a, w) = (a', w')"
  obtains d' where "dynamic_macro_stop_recording env (d, w) = Some (d', w')"
    and "dm_rel d' a'" and "length (macro_buffer d') = length (macro_buffer d)"
proof -
  let ?n = "length (macro_buffer d)" and ?p = "slot_pos (length (macro_buffer d)) s (length (trim rs))"
  have d: "macro_id d = slot_id s" "macro_pointer d = Some (slot_pos ?n s (length rs))" "holds d s rs"
    "stored d (other s) (content a (other s))" "length rs + length (content a (other s)) \<le> ?n"
    using assms(1,2) by (simp_all add: dm_rel_def)
  let ?d = "(set_end_of s ?p d)\<lparr>macro_id := 0\<rparr>"
  obtain ys where ys: "rs = trim rs @ ys" using trim_prefix by blast
  have "holds d s (trim rs)" using d(3) ys holds_take by metis
  moreover have "length (trim rs) \<le> length rs" using ys by (metis length_append le_add1)
  ultimately have "dm_rel ?d a'"
    using assms(3) d(4,5) by (auto simp: spec_stop_def dm_rel_idle [where s = s] stored_def holds_def)
  moreover have "dynamic_macro_stop_recording env (d, w) = Some (?d, w')"
    using trim_pointer_list [OF d(3)] d(1,2) assms(3)
    by (cases s) (auto simp: dynamic_macro_stop_recording_def dynamic_macro_record_end_def spec_stop_def r_macro_buffer_def)
  ultimately show thesis using that [of ?d] by simp
qed

section \<open>Key events\<close>

text \<open>Every key event is handled as the lists say.\<close>

lemma dynamic_macro_step:
  assumes "simulates env (length (macro_buffer d)) run" and "dm_rel d a"
    and "spec_step env run (length (macro_buffer d)) keycode r (a, w) = Some (b, a', w')"
  shows "\<exists>d'. process_dynamic_macro env keycode r (d, w) = Some (b, d', w') \<and> dm_rel d' a' \<and>
    length (macro_buffer d') = length (macro_buffer d)"
proof (cases "recording a")
  case None
  then have i: "macro_id d = 0" using assms(2) by (simp add: dm_rel_def)
  have start: "dynamic_macro_record_start env (slot_pos (length (macro_buffer d)) s 0) (direction s) (d, w) =
      (d\<lparr>macro_pointer := Some (slot_pos (length (macro_buffer d)) s 0)\<rparr>, snd (spec_start env s (a, w)))" for s
    by (simp add: dynamic_macro_record_start_def spec_start_def)
  have play: "\<exists>d'. dynamic_macro_play env (slot_pos (length (macro_buffer d)) s 0) (end_of s d) (direction s) (d, w) = Some (d', w') \<and>
      dm_rel d' a' \<and> length (macro_buffer d') = length (macro_buffer d)" if "spec_play env run s (a, w) = Some (a', w')" for s
    using play_list [OF assms(1,2) None that] by blast
  show ?thesis
    using None i assms(2,3) start [of Macro1] start [of Macro2] start_rel [OF assms(2) None, of Macro1] start_rel [OF assms(2) None, of Macro2]
      play [of Macro1] play [of Macro2]
    by (auto simp: process_dynamic_macro_def spec_step_def dm_keycodes r_macro_buffer_def spec_start_def split: if_splits)
next
  case (Some p)
  obtain s rs where p: "p = (s, rs)" by fastforce
  with Some have r: "recording a = Some (s, rs)" by simp
  have i: "macro_id d = slot_id s" using assms(2) r by (simp add: dm_rel_def)
  have stop: "\<exists>d'. dynamic_macro_stop_recording env (d, w) = Some (d', snd x) \<and> dm_rel d' (fst x) \<and>
      length (macro_buffer d') = length (macro_buffer d)" if "x = spec_stop env s rs (a, w)" for x
    using stop_list [OF assms(2) r, of env w "fst x" "snd x"] that by (metis prod.collapse)
  have key: "\<exists>d'. dynamic_macro_record_key env (slot_pos (length (macro_buffer d)) s 0) (end_of (other s) d) (direction s) r (d, w) = Some (d', snd x) \<and>
      dm_rel d' (fst x) \<and> length (macro_buffer d') = length (macro_buffer d)" if "x = spec_key env (length (macro_buffer d)) s rs r (a, w)" for x
    using key_list [OF assms(2) r, of env r w "fst x" "snd x"] that by (metis prod.collapse)
  show ?thesis
    using r i assms(2,3) stop [OF refl] key [OF refl]
    by (cases s) (auto simp: process_dynamic_macro_def spec_step_def dm_keycodes r_macro_buffer_def split: if_splits)
qed

text \<open>The loop through \<^verbatim>\<open>process_record\<close>, to any depth.\<close>

lemma put_content_idle [simp]: "recording (put_content s k r a) = recording a"
  by (simp add: put_content_def)

lemma spec_env: "spec_step (env\<lparr>run_record := x\<rparr>) = spec_step env"
proof -
  have e: "spec_start (env\<lparr>run_record := x\<rparr>) = spec_start env" "spec_play (env\<lparr>run_record := x\<rparr>) = spec_play env"
    "spec_stop (env\<lparr>run_record := x\<rparr>) = spec_stop env" "spec_key (env\<lparr>run_record := x\<rparr>) = spec_key env"
    by (intro ext; simp add: spec_start_def spec_play_def spec_stop_def spec_key_def split_def)+
  have f: "no_nesting (env\<lparr>run_record := x\<rparr>) = no_nesting env" "valid_key_user (env\<lparr>run_record := x\<rparr>) = valid_key_user env"
    by simp_all
  show ?thesis by (intro ext) (unfold spec_step_def e f, rule refl)
qed

lemma nested_simulates: "simulates (nested m env) n (spec_record m env n)"
proof (induction m)
  case 0
  show ?case by (simp add: simulates_def)
next
  case (Suc m)
  show ?case unfolding simulates_def
  proof (intro allI impI, elim conjE)
    fix s k d a w a' w'
    assume d: "dm_rel d a" "recording a = None" "length (macro_buffer d) = n" "k < length (content a s)"
      and g: "spec_record (Suc m) env n s k (a, w) = Some (a', w')"
    let ?r = "content a s ! k"
    note pl = place_rel [OF d(1,2,4), unfolded d(3)]
    show "recording a' = None \<and> (\<exists>d'. run_record (nested (Suc m) env) (slot_pos n s k) (d, w) = Some (d', w') \<and> dm_rel d' a' \<and> length (macro_buffer d') = n)"
    proof (cases "IS_NOEVENT (event ?r)")
      case True
      then show ?thesis using g d pl(1) by (simp add: nested_def)
    next
      case False
      obtain kc v where kc: "reach_handler env ?r w = (kc, v)" by force
      from g False kc obtain go a1 w1 where
        s1: "(case kc of None \<Rightarrow> Some (False, a, v) | Some kc \<Rightarrow> spec_step env (spec_record m env n) n kc ?r (a, v)) = Some (go, a1, w1)"
        and i1: "recording a1 = None" "k < length (content a1 s)"
        and h: "(case handle_record env go (content a1 s ! k) w1 of (r, w) \<Rightarrow> Some (put_content s k r a1, w)) = Some (a', w')"
        by (auto simp: Let_def split: bind_splits if_splits)
      have "\<exists>d1. (case kc of None \<Rightarrow> Some (False, d, v) | Some kc \<Rightarrow> process_dynamic_macro (nested m env) kc ?r (d, v)) = Some (go, d1, w1) \<and>
          dm_rel d1 a1 \<and> length (macro_buffer d1) = n"
      proof (cases kc)
        case None
        then show ?thesis using s1 d by simp
      next
        case (Some c)
        with s1 have "spec_step (nested m env) (spec_record m env n) (length (macro_buffer d)) c ?r (a, v) = Some (go, a1, w1)"
          by (simp add: nested_def spec_env d(3))
        moreover have "simulates (nested m env) (length (macro_buffer d)) (spec_record m env n)" using Suc.IH d(3) by simp
        ultimately have "\<exists>d'. process_dynamic_macro (nested m env) c ?r (d, v) = Some (go, d', w1) \<and> dm_rel d' a1 \<and>
            length (macro_buffer d') = length (macro_buffer d)"
          by (rule dynamic_macro_step [OF _ d(1), rotated])
        then show ?thesis using Some d(3) by auto
      qed
      then obtain d1 where d1: "(case kc of None \<Rightarrow> Some (False, d, v) | Some kc \<Rightarrow> process_dynamic_macro (nested m env) kc ?r (d, v)) = Some (go, d1, w1)"
        "dm_rel d1 a1" "length (macro_buffer d1) = n" by blast
      obtain r2 w2 where h2: "handle_record env go (content a1 s ! k) w1 = (r2, w2)" by force
      note pl1 = place_rel [OF d1(2) i1, unfolded d1(3)]
      have "run_record (nested (Suc m) env) (slot_pos n s k) (d, w) = Some (put s k r2 d1, w2)"
        using False pl(1) kc d1(1) [unfolded nested_def] pl1(1,2) h2 by (simp add: nested_def)
      moreover have "a' = put_content s k r2 a1" "w' = w2" using h h2 by auto
      ultimately show ?thesis using pl1(3) i1(1) d1(3) by auto
    qed
  qed
qed

text \<open>Records that leave the macros alone run one after the other.\<close>

definition run_plain :: "keyrecord set \<Rightarrow> (keyrecord \<Rightarrow> 'w \<Rightarrow> keyrecord \<times> 'w) \<Rightarrow> slot \<Rightarrow> nat \<Rightarrow> dm_spec \<times> 'w \<Rightarrow> (dm_spec \<times> 'w) option" where
  "run_plain R f s k a =
    (if content (fst a) s ! k \<in> R then (case f (content (fst a) s ! k) (snd a) of (r, w) \<Rightarrow> Some (put_content s k r (fst a), w)) else None)"

lemma plain_simulates: "leaves_macros env f R \<Longrightarrow> simulates env n (run_plain R f)"
  unfolding simulates_def
proof (intro allI impI, elim conjE)
  fix s k d a w a' w'
  assume e: "leaves_macros env f R" and d: "dm_rel d a" "recording a = None" "length (macro_buffer d) = n" "k < length (content a s)"
    and g: "run_plain R f s k (a, w) = Some (a', w')"
  obtain r v where f: "f (content a s ! k) w = (r, v)" by force
  have r: "content a s ! k \<in> R" "a' = put_content s k r a" "w' = v" using g f by (auto simp: run_plain_def split: if_splits)
  note pl = place_rel [OF d(1,2,4), unfolded d(3)]
  have "macro_id d = 0" using d(1,2) by (simp add: dm_rel_def)
  then have "run_record env (slot_pos n s k) (d, w) = Some (put s k r d, v)"
    using e pl(1,2) r(1) f unfolding leaves_macros_def by auto
  then show "recording a' = None \<and> (\<exists>d'. run_record env (slot_pos n s k) (d, w) = Some (d', w') \<and> dm_rel d' a' \<and> length (macro_buffer d') = n)"
    using r pl(3) d(2,3) by auto
qed

lemma plain_records:
  assumes "content a s = xs @ ys" and "set ys \<subseteq> R"
  shows "\<exists>a'. spec_records wait (run_plain R f) s (length xs) (length ys) (a, w) = Some (a', snd (run_list wait f ys w))"
  using assms
proof (induction ys arbitrary: xs a w)
  case (Cons y ys)
  obtain y' v where f: "f y w = (y', v)" by force
  have c: "content (put_content s (length xs) y' a) s = (xs @ [y']) @ ys" using Cons.prems(1) by (simp add: put_content_def)
  from Cons.IH [OF c] Cons.prems(2) obtain a' where
    "spec_records wait (run_plain R f) s (length (xs @ [y'])) (length ys) (put_content s (length xs) y' a, wait v) = Some (a', snd (run_list wait f ys (wait v)))"
    by auto
  moreover have "run_plain R f s (length xs) (a, w) = Some (put_content s (length xs) y' a, v)"
    using Cons.prems f by (simp add: run_plain_def)
  ultimately show ?case using Cons.prems f by (auto split: prod.split)
qed simp

text \<open>Runs of key events.\<close>

fun dm_run :: "('l, 'w) dm_env \<Rightarrow> (u16 \<times> keyrecord) list \<Rightarrow> dm_state \<times> 'w \<Rightarrow> (dm_state \<times> 'w) option" where
  "dm_run env [] s = Some s"
| "dm_run env ((keycode, r) # evs) s = do { (b, s) \<leftarrow> process_dynamic_macro env keycode r s; dm_run env evs s }"

fun spec_run ::
    "('l, 'w) dm_env \<Rightarrow> (slot \<Rightarrow> nat \<Rightarrow> dm_spec \<times> 'w \<Rightarrow> (dm_spec \<times> 'w) option) \<Rightarrow> nat \<Rightarrow> (u16 \<times> keyrecord) list \<Rightarrow> dm_spec \<times> 'w \<Rightarrow>
      (dm_spec \<times> 'w) option" where
  "spec_run env run n [] a = Some a"
| "spec_run env run n ((keycode, r) # evs) a = do { (b, a) \<leftarrow> spec_step env run n keycode r a; spec_run env run n evs a }"

lemma dm_run_refines:
  assumes "simulates env (length (macro_buffer d)) run" and "dm_rel d a"
    and "spec_run env run (length (macro_buffer d)) evs (a, w) = Some (a', w')"
  shows "\<exists>d'. dm_run env evs (d, w) = Some (d', w') \<and> dm_rel d' a' \<and> length (macro_buffer d') = length (macro_buffer d)"
  using assms
proof (induction evs arbitrary: d a w)
  case (Cons e evs)
  obtain keycode r where e: "e = (keycode, r)" by fastforce
  from Cons.prems(3) e obtain b a1 w1 where s: "spec_step env run (length (macro_buffer d)) keycode r (a, w) = Some (b, a1, w1)"
    "spec_run env run (length (macro_buffer d)) evs (a1, w1) = Some (a', w')" by (auto split: bind_splits)
  obtain d' where d: "process_dynamic_macro env keycode r (d, w) = Some (b, d', w1)" "dm_rel d' a1"
    "length (macro_buffer d') = length (macro_buffer d)"
    using dynamic_macro_step [OF Cons.prems(1,2) s(1)] by blast
  show ?case using Cons.IH [of d' a1 w1] Cons.prems(1) s(2) e d by simp
qed simp

fun start_key :: "slot \<Rightarrow> u16" where
  "start_key Macro1 = QK_DYNAMIC_MACRO_RECORD_START_1"
| "start_key Macro2 = QK_DYNAMIC_MACRO_RECORD_START_2"

fun play_key :: "slot \<Rightarrow> u16" where
  "play_key Macro1 = QK_DYNAMIC_MACRO_PLAY_1"
| "play_key Macro2 = QK_DYNAMIC_MACRO_PLAY_2"

definition macro_keycodes :: "u16 set" where
  "macro_keycodes = {QK_DYNAMIC_MACRO_RECORD_START_1, QK_DYNAMIC_MACRO_RECORD_START_2, QK_DYNAMIC_MACRO_RECORD_STOP,
     QK_DYNAMIC_MACRO_PLAY_1, QK_DYNAMIC_MACRO_PLAY_2}"

text \<open>What a recording keeps: no leading releases, at most the free capacity, no trailing presses.\<close>

definition kept :: "nat \<Rightarrow> keyrecord list \<Rightarrow> keyrecord list" where
  "kept cap rs = take cap (dropWhile (\<lambda>r. \<not> pressed (event r)) rs)"

lemma kept_snoc:
  "kept cap (rs @ [r]) = (if \<not> pressed (event r) \<and> kept cap rs = [] then []
     else if length (kept cap rs) < cap then kept cap rs @ [r] else kept cap rs)"
proof (cases "dropWhile (\<lambda>r. \<not> pressed (event r)) rs = []")
  case True
  then have "dropWhile (\<lambda>r. \<not> pressed (event r)) (rs @ [r]) = dropWhile (\<lambda>r. \<not> pressed (event r)) [r]"
    by (subst dropWhile_append2) (simp_all add: dropWhile_eq_Nil_conv)
  then have "kept cap (rs @ [r]) = take cap (if pressed (event r) then [r] else [])" by (simp add: kept_def)
  moreover have "kept cap rs = []" by (simp only: kept_def True take_Nil)
  ultimately show ?thesis by (cases cap) simp_all
next
  case False
  then have "\<not> (\<forall>x\<in>set rs. \<not> pressed (event x))" by (simp add: dropWhile_eq_Nil_conv)
  then have "dropWhile (\<lambda>r. \<not> pressed (event r)) (rs @ [r]) = dropWhile (\<lambda>r. \<not> pressed (event r)) rs @ [r]"
    by (auto simp: dropWhile_append)
  then show ?thesis using False by (cases cap) (auto simp: kept_def)
qed

lemma spec_run_append: "spec_run env run n (xs @ ys) a = Option.bind (spec_run env run n xs a) (spec_run env run n ys)"
  by (induction env run n xs a rule: spec_run.induct) (auto split: bind_splits prod.splits)

lemma spec_run_keys:
  assumes "\<And>keycode r w. valid_key_user env keycode r w" and "fst ` set evs \<inter> macro_keycodes = {}"
    and "recording a = Some (s, [])"
  shows "\<exists>v. spec_run env run n evs (a, w) = Some (a\<lparr>recording := Some (s, kept (n - length (content a (other s))) (map snd evs))\<rparr>, v)"
  using assms(2)
proof (induction evs rule: rev_induct)
  case Nil
  then show ?case using assms(3) by (cases a) (simp add: kept_def)
next
  case (snoc e evs)
  obtain keycode r where e: "e = (keycode, r)" by fastforce
  have k: "keycode \<notin> macro_keycodes" "fst ` set evs \<inter> macro_keycodes = {}" using snoc.prems e by auto
  from snoc.IH [OF k(2)] obtain v where
    v: "spec_run env run n evs (a, w) = Some (a\<lparr>recording := Some (s, kept (n - length (content a (other s))) (map snd evs))\<rparr>, v)" by blast
  show ?case
    using k(1) e v assms(1)
    by (auto simp: spec_run_append spec_step_def spec_key_def macro_keycodes_def kept_snoc less_diff_conv)
qed

section \<open>Playbacks that return\<close>

text \<open>
  The keycodes with which a record may reach the handler, and an environment in which the processing of a record does not
  change them.
\<close>

definition answers :: "('l, 'w) dm_env \<Rightarrow> u16 option set \<Rightarrow> keyrecord \<Rightarrow> bool" where
  "answers env K r \<longleftrightarrow> (\<forall>w. fst (reach_handler env r w) \<in> K)"

definition steady :: "('l, 'w) dm_env \<Rightarrow> bool" where
  "steady env \<longleftrightarrow> (\<forall>go r w K. answers env K r \<longrightarrow> answers env K (fst (handle_record env go r w)))"

definition all_answer :: "('l, 'w) dm_env \<Rightarrow> u16 option set \<Rightarrow> keyrecord list \<Rightarrow> bool" where
  "all_answer env K rs \<longleftrightarrow> (\<forall>r \<in> set rs. answers env K r)"

definition no_macro_keys :: "u16 option set" where
  "no_macro_keys = - (Some ` macro_keycodes)"

lemma put_content_answers:
  assumes "steady env" "all_answer env K (content a t)" "k < length (content a s)"
  shows "all_answer env K (content (put_content s k (fst (handle_record env go (content a s ! k) w)) a) t)"
proof (cases "t = s")
  case True
  then have "answers env K (fst (handle_record env go (content a s ! k) w))"
    using assms unfolding steady_def all_answer_def by (metis nth_mem)
  then show ?thesis using True assms(2) set_update_subset_insert [of "content a s" k]
    by (auto simp: put_content_def all_answer_def)
qed (use assms(2) in \<open>simp add: put_content_def\<close>)

text \<open>
  A property of the lists that the processing of each record keeps, and under which it returns, makes a playback return.
\<close>

lemma spec_records_return:
  assumes "\<And>a w k. P a \<Longrightarrow> k < length (content a s) \<Longrightarrow> \<exists>a' w'. run s k (a, w) = Some (a', w') \<and> P a'"
    and "\<And>a. P a \<Longrightarrow> length (content a s) = n" and "P a" and "k + m \<le> n"
  shows "\<exists>a' w'. spec_records wait run s k m (a, w) = Some (a', w') \<and> P a'"
  using assms(3,4)
proof (induction m arbitrary: a k w)
  case (Suc m)
  have k: "k < length (content a s)" using assms(2) [OF Suc.prems(1)] Suc.prems(2) by simp
  from assms(1) [OF Suc.prems(1) this, of w] obtain a1 w1 where r: "run s k (a, w) = Some (a1, w1)" "P a1" by blast
  from Suc.IH [OF r(2), of "Suc k" "wait w1"] Suc.prems(2) show ?case using r k by simp
qed simp

lemma spec_play_returns:
  assumes "\<And>a w k. P a \<Longrightarrow> k < length (content a s) \<Longrightarrow> \<exists>a' w'. run s k (a, w) = Some (a', w') \<and> P a'"
    and "\<And>a. P a \<Longrightarrow> length (content a s) = n" and "P a"
  shows "\<exists>a' w'. spec_play env run s (a, w) = Some (a', w') \<and> P a'"
proof -
  have n: "0 + length (content a s) \<le> n" using assms(2,3) by simp
  obtain a' v where "spec_records (playback_delay env) run s 0 (length (content a s)) (a, run_layer_clear env (run_clear_keyboard env w)) = Some (a', v)" "P a'"
    using spec_records_return [where P = P and run = run and s = s and n = n, OF assms n] by blast
  then show ?thesis by (simp add: spec_play_def)
qed

text \<open>A record that reaches the handler with another keycode returns at once.\<close>

lemma plain_record_returns:
  assumes "answers env no_macro_keys (content a s ! k)" "recording a = None" "k < length (content a s)"
  shows "\<exists>w'. spec_record (Suc m) env n s k (a, w) = Some (a, w') \<or>
    (\<exists>go v. spec_record (Suc m) env n s k (a, w) = Some (put_content s k (fst (handle_record env go (content a s ! k) v)) a, w'))"
proof -
  let ?r = "content a s ! k"
  obtain kc v where kc: "reach_handler env ?r w = (kc, v)" by force
  have n: "kc \<in> no_macro_keys" using assms(1) kc unfolding answers_def by (metis fst_conv)
  have "\<exists>go. (case kc of None \<Rightarrow> Some (False, a, v) | Some kc \<Rightarrow> spec_step env (spec_record m env n) n kc ?r (a, v)) = Some (go, a, v)"
    using n assms(2) by (cases kc) (auto simp: no_macro_keys_def macro_keycodes_def spec_step_def)
  then obtain go where go: "(case kc of None \<Rightarrow> Some (False, a, v) | Some kc \<Rightarrow> spec_step env (spec_record m env n) n kc ?r (a, v)) = Some (go, a, v)" by blast
  obtain r2 w2 where h: "handle_record env go ?r v = (r2, w2)" by force
  show ?thesis
  proof (cases "IS_NOEVENT (event ?r)")
    case False
    then have "spec_record (Suc m) env n s k (a, w) = Some (put_content s k (fst (handle_record env go ?r v)) a, w2)"
      using kc go h assms(2,3) by (simp add: Let_def)
    then show ?thesis by blast
  next
    case True
    then show ?thesis by (intro exI [of _ w]) simp
  qed
qed

definition dm_shape :: "('l, 'w) dm_env \<Rightarrow> slot \<Rightarrow> dm_spec \<Rightarrow> dm_spec \<Rightarrow> bool" where
  "dm_shape env s a0 a \<longleftrightarrow> recording a = None \<and> (\<forall>t. length (content a t) = length (content a0 t)) \<and>
    all_answer env no_macro_keys (content a (other s)) \<and>
    all_answer env (insert (Some (play_key (other s))) no_macro_keys) (content a s)"

lemma put_shape:
  assumes "steady env" "dm_shape env s a0 a" "k < length (content a t)"
  shows "dm_shape env s a0 (put_content t k (fst (handle_record env go (content a t ! k) v)) a)"
proof -
  have "length (content (put_content t k r a) u) = length (content a u)" for u r by (simp add: put_content_def)
  then show ?thesis using assms put_content_answers [OF assms(1) _ assms(3)] by (simp add: dm_shape_def)
qed

text \<open>A macro that plays the other one, which plays none, is played to its end.\<close>

lemma playing_other_returns:
  assumes "steady env" and "dm_shape env s a a"
  shows "\<exists>x. spec_play env (spec_record (Suc (Suc 0)) env n) s (a, w) = Some x"
proof -
  have inner: "\<exists>a' w'. spec_record (Suc 0) env n (other s) k (b, w) = Some (a', w') \<and> dm_shape env s a a'"
    if b: "dm_shape env s a b" and k: "k < length (content b (other s))" for b w k
  proof -
    have "answers env no_macro_keys (content b (other s) ! k)" using b k by (auto simp: dm_shape_def all_answer_def)
    moreover have "recording b = None" using b by (simp add: dm_shape_def)
    ultimately show ?thesis using plain_record_returns [of env b "other s" k 0 n w] put_shape [OF assms(1) b k] b k by auto
  qed
  have play: "\<exists>a' w'. spec_play env (spec_record (Suc 0) env n) (other s) (b, w) = Some (a', w') \<and> dm_shape env s a a'"
    if "dm_shape env s a b" for b w
  proof (rule spec_play_returns [where P = "dm_shape env s a" and n = "length (content a (other s))"])
    show "\<exists>a' w'. spec_record (Suc 0) env n (other s) k (x, v) = Some (a', w') \<and> dm_shape env s a a'"
      if "dm_shape env s a x" "k < length (content x (other s))" for x v k by (rule inner [OF that])
    show "length (content x (other s)) = length (content a (other s))" if "dm_shape env s a x" for x
      using that by (simp add: dm_shape_def)
  qed (rule that)
  have outer: "\<exists>a' w'. spec_record (Suc (Suc 0)) env n s k (b, w) = Some (a', w') \<and> dm_shape env s a a'"
    if b: "dm_shape env s a b" and k: "k < length (content b s)" for b w k
  proof -
    let ?r = "content b s ! k"
    obtain kc v where kc: "reach_handler env ?r w = (kc, v)" by force
    have i: "recording b = None" using b by (simp add: dm_shape_def)
    have "kc \<in> insert (Some (play_key (other s))) no_macro_keys"
      using b k kc unfolding dm_shape_def all_answer_def answers_def by (metis fst_conv nth_mem)
    then have "\<exists>go b' w'. (case kc of None \<Rightarrow> Some (False, b, v) | Some kc \<Rightarrow> spec_step env (spec_record (Suc 0) env n) n kc ?r (b, v)) = Some (go, b', w') \<and>
        dm_shape env s a b'"
      using b i play [OF b, of v]
      by (cases kc; cases s) (auto simp: no_macro_keys_def macro_keycodes_def spec_step_def dm_keycodes)
    then obtain go b' w' where g: "(case kc of None \<Rightarrow> Some (False, b, v) | Some kc \<Rightarrow> spec_step env (spec_record (Suc 0) env n) n kc ?r (b, v)) = Some (go, b', w')"
      "dm_shape env s a b'" by blast
    have k': "k < length (content b' s)" "recording b' = None" using b g(2) k by (simp_all add: dm_shape_def)
    obtain r2 w2 where h: "handle_record env go (content b' s ! k) w' = (r2, w2)" by force
    then have "dm_shape env s a (put_content s k r2 b')" using put_shape [OF assms(1) g(2) k'(1), of go w'] by simp
    then show ?thesis using kc g k' h b by (auto simp: Let_def)
  qed
  have "\<exists>a' w'. spec_play env (spec_record (Suc (Suc 0)) env n) s (a, w) = Some (a', w') \<and> dm_shape env s a a'"
  proof (rule spec_play_returns [where P = "dm_shape env s a" and n = "length (content a s)"])
    show "\<exists>a' w'. spec_record (Suc (Suc 0)) env n s k (x, v) = Some (a', w') \<and> dm_shape env s a a'"
      if "dm_shape env s a x" "k < length (content x s)" for x v k by (rule outer [OF that])
    show "length (content x s) = length (content a s)" if "dm_shape env s a x" for x
      using that by (simp add: dm_shape_def)
  qed (rule assms(2))
  then show ?thesis by blast
qed

text \<open>A macro that plays itself never returns.\<close>

lemma recursive_macro_hangs:
  assumes "macro_id d = 0" "macro_end d = 1" "fetch_record d 0 = Some r" "\<not> pressed (event r)" "\<not> IS_NOEVENT (event r)"
    and "\<And>w. fst (reach_handler env r w) = Some QK_DYNAMIC_MACRO_PLAY_1"
  shows "process_dynamic_macro (nested n env) QK_DYNAMIC_MACRO_PLAY_1 r (d, w) = None"
proof -
  have p: "process_dynamic_macro (nested n env) QK_DYNAMIC_MACRO_PLAY_1 r (d, w) = None"
    if "\<And>w. process_macro_record n env 0 (d, w) = None" for n w
    using assms(1,2,4) that
    by (auto simp: process_dynamic_macro_def dynamic_macro_play_def dm_keycodes nested_def play_records.simps [of _ 0])
  have "process_macro_record n env 0 (d, w) = None" for w
  proof (induction n arbitrary: w)
    case (Suc n)
    show ?case using assms(3,5) assms(6) [of w] p [OF Suc.IH] by (auto simp: nested_def Let_def split: prod.split)
  qed simp
  then show ?thesis by (rule p)
qed

section \<open>Properties\<close>

text \<open>
  C26: the buffer with its pointers implements two lists that share its capacity: every key event is
  passed on or consumed, recorded, or answered by a playback as the lists say, and no access leaves the
  buffer. The records of a playback go through the same handler, so that a macro may play the other one, to any depth;
  the lists say nothing when a record that is played starts a recording, or when the macros play each other without end.
\<close>

theorem dynamic_macro_refines_lists:
  assumes "dm_rel d a"
    and "spec_step env (spec_record m env (length (macro_buffer d))) (length (macro_buffer d)) keycode r (a, w) = Some (b, a', w')"
  shows "\<exists>d'. process_dynamic_macro (nested m env) keycode r (d, w) = Some (b, d', w') \<and> dm_rel d' a' \<and>
    length (macro_buffer d') = length (macro_buffer d)"
proof (rule dynamic_macro_step [OF nested_simulates assms(1)])
  show "spec_step (nested m env) (spec_record m env (length (macro_buffer d))) (length (macro_buffer d)) keycode r (a, w) = Some (b, a', w')"
    using assms(2) by (simp only: nested_def spec_env)
qed

text \<open>On the keyboard's own \<^verbatim>\<open>process_record\<close>, with both macros empty.\<close>

definition dm_spec_init :: dm_spec where
  "dm_spec_init = \<lparr>content = (\<lambda>_. []), recording = None\<rparr>"

lemma dm_rel_init: "dm_rel (dm_init n) dm_spec_init"
  by (simp add: dm_rel_def dm_init_def dm_spec_init_def stored_def slots [where s = Macro1])

definition demo_release :: keyrecord where
  "demo_release = empty_record\<lparr>event := \<lparr>key = \<lparr>col = 1, row = 0\<rparr>, event_time = 5, event_type = KEY_EVENT, pressed = False\<rparr>\<rparr>"

definition demo_press :: keyrecord where
  "demo_press = empty_record\<lparr>event := \<lparr>key = \<lparr>col = 1, row = 0\<rparr>, event_time = 5, event_type = KEY_EVENT, pressed = True\<rparr>\<rparr>"

lemma demo_pressed [simp]: "pressed (event demo_press)" "\<not> pressed (event demo_release)"
  by (simp_all add: demo_press_def demo_release_def)

text \<open>The first macro plays the second one, which is a tap.\<close>

definition demo_nested_env :: "(16 word, keyrecord list) dm_env" where
  "demo_nested_env = \<lparr>run_record = (\<lambda>_ _. None),
     reach_handler = (\<lambda>r w. (Some (if event_time (event r) = 9 then QK_DYNAMIC_MACRO_PLAY_2 else 4), w)),
     handle_record = (\<lambda>go r w. (r, if go then w @ [r] else w)),
     run_clear_keyboard = id, run_layer_clear = id, read_layer_state = (\<lambda>_. 0), run_layer_state_set = (\<lambda>_. id),
     playback_delay = id, record_start_user = (\<lambda>_. id), play_user = (\<lambda>_. id), record_key_user = (\<lambda>_ _. id),
     record_end_user = (\<lambda>_. id), valid_key_user = (\<lambda>_ _ _. True), no_nesting = False\<rparr>"

definition demo_play :: keyrecord where
  "demo_play = empty_record\<lparr>event := \<lparr>key = \<lparr>col = 2, row = 0\<rparr>, event_time = 9, event_type = KEY_EVENT, pressed = False\<rparr>\<rparr>"

definition demo_macros :: dm_state where
  "demo_macros = \<lparr>macro_buffer = [demo_play, empty_record, demo_release, demo_press], macro_end = 1, r_macro_end = 1,
     macro_pointer = None, macro_id = 0\<rparr>"

definition demo_lists :: dm_spec where
  "demo_lists = \<lparr>content = (\<lambda>s. case s of Macro1 \<Rightarrow> [demo_play] | Macro2 \<Rightarrow> [demo_press, demo_release]), recording = None\<rparr>"

lemma demo_macros_rel: "dm_rel demo_macros demo_lists"
  by (simp add: dm_rel_def demo_macros_def demo_lists_def stored_def holds_def slots [where s = Macro1] All_less_Suc)

lemma dynamic_macro_refines_lists_witness:
  "\<exists>d'. process_dynamic_macro (nested 2 demo_nested_env) QK_DYNAMIC_MACRO_PLAY_1 demo_release (demo_macros, [])
    = Some (False, d', [demo_press, demo_release])"
proof -
  have n: "length (macro_buffer demo_macros) = 4" by (simp add: demo_macros_def)
  have two: "spec_record 2 = spec_record (Suc (Suc 0))" by (simp only: numeral_2_eq_2)
  have s: "spec_step demo_nested_env (spec_record 2 demo_nested_env 4) 4 QK_DYNAMIC_MACRO_PLAY_1 demo_release (demo_lists, [])
      = Some (False, demo_lists, [demo_press, demo_release])"
    unfolding two
    by (simp add: spec_step_def spec_play_def demo_lists_def dm_keycodes demo_nested_env_def IS_NOEVENT_def Let_def
        demo_press_def demo_release_def demo_play_def put_content_def empty_record_def)
      (auto simp: fun_eq_iff demo_press_def demo_release_def demo_play_def empty_record_def split: slot.split)
  show ?thesis using dynamic_macro_refines_lists [OF demo_macros_rel, of demo_nested_env 2, unfolded n, OF s] by blast
qed

text \<open>
  C27: recording a macro keeps the keys from the first press on as far as the capacity that the
  other macro leaves allows, without the presses that are held when the recording stops, and leaves the other
  macro alone; a later playback runs exactly these records, on a cleared keyboard, and restores the layers.
\<close>

theorem recorded_macro_is_played:
  assumes "leaves_macros env f (set rs)" and "\<And>keycode r w. valid_key_user env keycode r w" and "dm_rel d a" and "recording a = None"
    and "fst ` set evs \<inter> macro_keycodes = {}" and "\<not> pressed (event r0)" and "pressed (event r1)"
    and "rs = trim (kept (length (macro_buffer d) - length (content a (other s))) (map snd evs))"
  shows "\<exists>d' w'. dm_run env ((start_key s, r0) # evs @ [(QK_DYNAMIC_MACRO_RECORD_STOP, r1)]) (d, w) = Some (d', w') \<and>
    stored d' s rs \<and> stored d' (other s) (content a (other s)) \<and>
    (\<forall>v. \<exists>d''. process_dynamic_macro env (play_key s) r0 (d', v) =
       Some (False, d'', play_user env (direction s) (run_layer_state_set env (read_layer_state env v)
         (run_clear_keyboard env (snd (run_list (playback_delay env) f rs (run_layer_clear env (run_clear_keyboard env v))))))))"
proof -
  let ?n = "length (macro_buffer d)"
  let ?evs = "(start_key s, r0) # evs @ [(QK_DYNAMIC_MACRO_RECORD_STOP, r1)]"
  let ?a = "a\<lparr>content := (content a)(s := rs), recording := None\<rparr>"
  have start: "spec_step env run ?n (start_key s) r0 (a, w) = Some (False, spec_start env s (a, w))" for run
    using assms(4,6) by (cases s) (simp_all add: spec_step_def dm_keycodes)
  let ?run = "run_plain (set rs) f"
  note sim = plain_simulates [OF assms(1)]
  obtain v where keys: "spec_run env ?run ?n evs (spec_start env s (a, w)) =
      Some (a\<lparr>recording := Some (s, kept (?n - length (content a (other s))) (map snd evs))\<rparr>, v)"
    using spec_run_keys [OF assms(2,5), of "a\<lparr>recording := Some (s, [])\<rparr>" s] by (fastforce simp: spec_start_def)
  have run: "spec_run env ?run ?n ?evs (a, w) = Some (?a, record_end_user env (direction s) v)"
    using start keys assms(7,8) by (simp add: spec_run_append spec_step_def spec_stop_def)
  obtain d' where d: "dm_run env ?evs (d, w) = Some (d', record_end_user env (direction s) v)" "dm_rel d' ?a"
    "length (macro_buffer d') = ?n" using dm_run_refines [OF sim assms(3) run] by auto
  have "stored d' s rs" "stored d' (other s) (content a (other s))"
    using d(2) dm_rel_idle [of ?a d' s] by simp_all
  moreover have "\<exists>d''. process_dynamic_macro env (play_key s) r0 (d', u) =
       Some (False, d'', play_user env (direction s) (run_layer_state_set env (read_layer_state env u)
         (run_clear_keyboard env (snd (run_list (playback_delay env) f rs (run_layer_clear env (run_clear_keyboard env u)))))))" for u
  proof -
    obtain a' where "spec_records (playback_delay env) ?run s 0 (length rs) (?a, run_layer_clear env (run_clear_keyboard env u))
        = Some (a', snd (run_list (playback_delay env) f rs (run_layer_clear env (run_clear_keyboard env u))))"
      using plain_records [of ?a s "[]" rs "set rs" "playback_delay env" f] by auto
    then have "spec_step env ?run (length (macro_buffer d')) (play_key s) r0 (?a, u) =
        Some (False, a', play_user env (direction s) (run_layer_state_set env (read_layer_state env u)
         (run_clear_keyboard env (snd (run_list (playback_delay env) f rs (run_layer_clear env (run_clear_keyboard env u)))))))"
      using assms(6) by (cases s) (simp_all add: spec_step_def spec_play_def dm_keycodes)
    from dynamic_macro_step [OF sim d(2) this] show ?thesis by blast
  qed
  ultimately show ?thesis using d(1) by blast
qed

text \<open>
  A release, a tap and the press of the key that stops the recording, into a buffer of three records of
  which the first macro takes none: the tap is kept.
\<close>

lemma plain_keys_leave_macros:
  assumes "\<And>r w. r \<in> R \<Longrightarrow> fst (reach_handler env r w) \<notin> Some ` macro_keycodes" and "\<And>r. r \<in> R \<Longrightarrow> \<not> IS_NOEVENT (event r)"
  shows "leaves_macros (nested (Suc n) env)
    (\<lambda>r w. case reach_handler env r w of (kc, w) \<Rightarrow> handle_record env (kc \<noteq> None) r w) R"
  unfolding leaves_macros_def
proof (intro allI impI, elim conjE)
  fix p d w r assume d: "macro_id d = 0" "fetch_record d p = Some r" "r \<in> R"
  obtain kc v where kc: "reach_handler env r w = (kc, v)" by force
  have "(case kc of None \<Rightarrow> Some (False, d, v) | Some kc \<Rightarrow> process_dynamic_macro (env\<lparr>run_record := process_macro_record n env\<rparr>) kc r (d, v))
      = Some (kc \<noteq> None, d, v)"
    using assms(1) [OF d(3), of w] kc d(1) by (cases kc) (auto simp: process_dynamic_macro_def macro_keycodes_def)
  then show "run_record (nested (Suc n) env) p (d, w) =
      (case (case reach_handler env r w of (kc, w) \<Rightarrow> handle_record env (kc \<noteq> None) r w) of (r, w) \<Rightarrow> map_option (\<lambda>d. (d, w)) (store_record p r d))"
    using d kc assms(2) [OF d(3)] by (auto simp: nested_def Let_def split: prod.split option.split bind_splits)
qed

lemma recorded_macro_is_played_witness:
  "\<forall>(pc :: (16 word) process_cfg) p. \<exists>d' p'. dm_run (nested 1 (keyboard_env pc (\<lambda>_ _. 4) False)) [(QK_DYNAMIC_MACRO_RECORD_START_2, demo_release), (4, demo_release),
      (5, demo_press), (5, demo_release), (6, demo_press), (QK_DYNAMIC_MACRO_RECORD_STOP, demo_press)] (dm_init 3, p) = Some (d', p') \<and>
    stored d' Macro2 [demo_press, demo_release]"
proof (intro allI)
  fix pc :: "(16 word) process_cfg" and p
  let ?env = "nested 1 (keyboard_env pc (\<lambda>_ _. 4) False)"
  let ?evs = "[(4, demo_release), (5, demo_press), (5, demo_release), (6, demo_press)] :: (u16 \<times> keyrecord) list"
  have l: "\<exists>f. leaves_macros ?env f (set [demo_press, demo_release])"
    unfolding One_nat_def
    by (rule exI, rule plain_keys_leave_macros)
      (auto simp: keyboard_env_def lookup_record_keycode_def lookup_event_keycode_def Let_def IS_NOEVENT_def demo_press_def
        demo_release_def empty_record_def macro_keycodes_def dm_keycodes)
  then obtain f where f: "leaves_macros ?env f (set [demo_press, demo_release])" by blast
  have k: "[demo_press, demo_release] = trim (kept (length (macro_buffer (dm_init 3)) - length (content dm_spec_init (other Macro2))) (map snd ?evs))"
    by (simp add: dm_init_def dm_spec_init_def kept_def trim_def)
  have n: "fst ` set ?evs \<inter> macro_keycodes = {}" by (simp add: macro_keycodes_def dm_keycodes)
  have v: "valid_key_user ?env keycode r w" for keycode r w by (simp add: keyboard_env_def nested_def)
  show "\<exists>d' p'. dm_run ?env [(QK_DYNAMIC_MACRO_RECORD_START_2, demo_release), (4, demo_release),
      (5, demo_press), (5, demo_release), (6, demo_press), (QK_DYNAMIC_MACRO_RECORD_STOP, demo_press)] (dm_init 3, p) = Some (d', p') \<and>
    stored d' Macro2 [demo_press, demo_release]"
    using recorded_macro_is_played [OF f v dm_rel_init _ n demo_pressed(2) demo_pressed(1) k, of p]
    by (auto simp: dm_spec_init_def)
qed

end
