(* ===== verification/TapDance.thy ===== *)
theory TapDance
  imports Keycodes KeyEvent "HOL-Library.Monad_Syntax"
begin

text \<open>
  Tap dance (\<^verbatim>\<open>quantum/process_keycode/process_tap_dance.c\<close>): the state of each dance, the
  callbacks of the ready-made dances, the handlers and the task. The array of dances has no bounds check
  in the code; an index behind it is None.
\<close>

section \<open>State, callbacks and environment\<close>

record td_state =
  interrupting_keycode :: u16
  td_count :: u8
  td_weak_mods :: u8
  td_oneshot_mods :: u8
  td_pressed :: bool
  td_finished :: bool
  td_interrupted :: bool

definition td_zero :: td_state where
  "td_zero = \<lparr>interrupting_keycode = 0, td_count = 0, td_weak_mods = 0, td_oneshot_mods = 0,
     td_pressed = False, td_finished = False, td_interrupted = False\<rparr>"

type_synonym 'w td_fn = "td_state \<Rightarrow> 'w \<Rightarrow> td_state \<times> 'w"

record 'w td_fns =
  on_each_tap :: "'w td_fn option"
  on_dance_finished :: "'w td_fn option"
  on_reset :: "'w td_fn option"
  on_each_release :: "'w td_fn option"

text \<open>The calls into the rest of the keyboard; without one-shot keys, \<open>get_oneshot\<close> is 0.\<close>

record 'w td_env =
  get_real_mods :: "'w \<Rightarrow> u8"
  get_weak :: "'w \<Rightarrow> u8"
  get_oneshot :: "'w \<Rightarrow> u8"
  call_add_weak_mods :: "u8 \<Rightarrow> 'w \<Rightarrow> 'w"
  call_del_weak_mods :: "u8 \<Rightarrow> 'w \<Rightarrow> 'w"
  call_add_mods :: "u8 \<Rightarrow> 'w \<Rightarrow> 'w"
  call_del_mods :: "u8 \<Rightarrow> 'w \<Rightarrow> 'w"
  call_clear_weak_mods :: "'w \<Rightarrow> 'w"
  call_send_report :: "'w \<Rightarrow> 'w"
  call_register :: "u16 \<Rightarrow> 'w \<Rightarrow> 'w"
  call_unregister :: "u16 \<Rightarrow> 'w \<Rightarrow> 'w"
  call_layer_move :: "u8 \<Rightarrow> 'w \<Rightarrow> 'w"
  call_tap_delay :: "'w \<Rightarrow> 'w"

record 'w td_cfg =
  env :: "'w td_env"
  dance_fns :: "'w td_fns list"
  td_tapping_term :: "u16 \<Rightarrow> u16"

record tap_dance =
  active_td :: u16
  last_tap_time :: u16
  td_states :: "td_state list"

definition tap_dance_init :: "nat \<Rightarrow> tap_dance" where
  "tap_dance_init n = \<lparr>active_td = 0, last_tap_time = 0, td_states = replicate n td_zero\<rparr>"

section \<open>Ready-made dances\<close>

definition tap_dance_pair_on_each_tap :: "'w td_env \<Rightarrow> u16 \<Rightarrow> u16 \<Rightarrow> 'w td_fn" where
  "tap_dance_pair_on_each_tap e kc1 kc2 s w =
    (if td_count s = 2 then (s\<lparr>td_finished := True\<rparr>, call_register e kc2 w) else (s, w))"

definition tap_dance_pair_finished :: "'w td_env \<Rightarrow> u16 \<Rightarrow> u16 \<Rightarrow> 'w td_fn" where
  "tap_dance_pair_finished e kc1 kc2 s w = (s, call_register e kc1 w)"

definition tap_dance_pair_reset :: "'w td_env \<Rightarrow> u16 \<Rightarrow> u16 \<Rightarrow> 'w td_fn" where
  "tap_dance_pair_reset e kc1 kc2 s w =
    (if td_count s = 1 then (s, call_unregister e kc1 (call_tap_delay e w))
     else if td_count s = 2 then (s, call_unregister e kc2 w) else (s, w))"

definition tap_dance_dual_role_on_each_tap :: "'w td_env \<Rightarrow> u16 \<Rightarrow> u8 \<Rightarrow> 'w td_fn" where
  "tap_dance_dual_role_on_each_tap e kc layer s w =
    (if td_count s = 2 then (s\<lparr>td_finished := True\<rparr>, call_layer_move e layer w) else (s, w))"

definition tap_dance_dual_role_finished :: "'w td_env \<Rightarrow> u16 \<Rightarrow> u8 \<Rightarrow> (u8 \<Rightarrow> 'w \<Rightarrow> 'w) \<Rightarrow> 'w td_fn" where
  "tap_dance_dual_role_finished e kc layer layer_function s w =
    (if td_count s = 1 then (s, call_register e kc w)
     else if td_count s = 2 then (s, layer_function layer w) else (s, w))"

definition tap_dance_dual_role_reset :: "'w td_env \<Rightarrow> u16 \<Rightarrow> u8 \<Rightarrow> 'w td_fn" where
  "tap_dance_dual_role_reset e kc layer s w =
    (if td_count s = 1 then (s, call_unregister e kc (call_tap_delay e w)) else (s, w))"

definition ACTION_TAP_DANCE_DOUBLE :: "'w td_env \<Rightarrow> u16 \<Rightarrow> u16 \<Rightarrow> 'w td_fns" where
  "ACTION_TAP_DANCE_DOUBLE e kc1 kc2 =
    \<lparr>on_each_tap = Some (tap_dance_pair_on_each_tap e kc1 kc2), on_dance_finished = Some (tap_dance_pair_finished e kc1 kc2),
     on_reset = Some (tap_dance_pair_reset e kc1 kc2), on_each_release = None\<rparr>"

definition ACTION_TAP_DANCE_LAYER_MOVE :: "'w td_env \<Rightarrow> u16 \<Rightarrow> u8 \<Rightarrow> 'w td_fns" where
  "ACTION_TAP_DANCE_LAYER_MOVE e kc layer =
    \<lparr>on_each_tap = Some (tap_dance_dual_role_on_each_tap e kc layer),
     on_dance_finished = Some (tap_dance_dual_role_finished e kc layer (call_layer_move e)),
     on_reset = Some (tap_dance_dual_role_reset e kc layer), on_each_release = None\<rparr>"

definition ACTION_TAP_DANCE_LAYER_TOGGLE :: "'w td_env \<Rightarrow> (u8 \<Rightarrow> 'w \<Rightarrow> 'w) \<Rightarrow> u16 \<Rightarrow> u8 \<Rightarrow> 'w td_fns" where
  "ACTION_TAP_DANCE_LAYER_TOGGLE e invert kc layer =
    \<lparr>on_each_tap = None, on_dance_finished = Some (tap_dance_dual_role_finished e kc layer invert),
     on_reset = Some (tap_dance_dual_role_reset e kc layer), on_each_release = None\<rparr>"

section \<open>The dance\<close>

definition process_tap_dance_action_fn :: "'w td_fn option \<Rightarrow> td_state \<times> 'w \<Rightarrow> td_state \<times> 'w" where
  "process_tap_dance_action_fn f sw = (case f of None \<Rightarrow> sw | Some f \<Rightarrow> f (fst sw) (snd sw))"

definition process_tap_dance_action_on_each_tap :: "'w td_env \<Rightarrow> 'w td_fns \<Rightarrow> td_state \<times> 'w \<Rightarrow> td_state \<times> 'w" where
  "process_tap_dance_action_on_each_tap e f sw =
    (let (s, w) = sw in process_tap_dance_action_fn (on_each_tap f)
      (s\<lparr>td_count := td_count s + 1, td_weak_mods := get_real_mods e w OR get_weak e w, td_oneshot_mods := get_oneshot e w\<rparr>, w))"

definition process_tap_dance_action_on_reset :: "'w td_env \<Rightarrow> 'w td_fns \<Rightarrow> td_state \<times> 'w \<Rightarrow> td_state \<times> 'w" where
  "process_tap_dance_action_on_reset e f sw =
    (let (s, w) = process_tap_dance_action_fn (on_reset f) sw in
     (td_zero, call_send_report e (call_del_mods e (td_oneshot_mods s) (call_del_weak_mods e (td_weak_mods s) w))))"

definition process_tap_dance_action_on_dance_finished :: "'w td_env \<Rightarrow> 'w td_fns \<Rightarrow> td_state \<times> 'w \<Rightarrow> td_state \<times> 'w" where
  "process_tap_dance_action_on_dance_finished e f sw =
    (let (s, w) = sw;
         (s, w) = (if td_finished s then (s, w)
           else process_tap_dance_action_fn (on_dance_finished f)
             (s\<lparr>td_finished := True\<rparr>, call_send_report e (call_add_mods e (td_oneshot_mods s) (call_add_weak_mods e (td_weak_mods s) w))))
     in if td_pressed s then (s, w) else process_tap_dance_action_on_reset e f (s, w))"

section \<open>The handlers and the task\<close>

definition with_dance ::
    "'w td_cfg \<Rightarrow> u16 \<Rightarrow> ('w td_fns \<Rightarrow> td_state \<times> 'w \<Rightarrow> td_state \<times> 'w) \<Rightarrow> tap_dance \<times> 'w \<Rightarrow> (td_state \<times> tap_dance \<times> 'w) option" where
  "with_dance c kc f mw =
    (let (m, w) = mw; i = unat (QK_TAP_DANCE_GET_INDEX kc) in
     if i < length (td_states m) \<and> i < length (dance_fns c)
     then (case f (dance_fns c ! i) (td_states m ! i, w) of (s, w) \<Rightarrow> Some (s, m\<lparr>td_states := (td_states m)[i := s]\<rparr>, w))
     else None)"

definition preprocess_tap_dance :: "'w td_cfg \<Rightarrow> u16 \<Rightarrow> bool \<Rightarrow> tap_dance \<times> 'w \<Rightarrow> (bool \<times> tap_dance \<times> 'w) option" where
  "preprocess_tap_dance c keycode press mw =
    (if \<not> press \<or> active_td (fst mw) = 0 \<or> keycode = active_td (fst mw) then Some (False, mw)
     else do { (s, m, w) \<leftarrow> with_dance c (active_td (fst mw)) (\<lambda>f (s, w).
                 process_tap_dance_action_on_dance_finished (env c) f
                  (s\<lparr>td_interrupted := True, interrupting_keycode := keycode\<rparr>, w)) mw;
               Some (True, m\<lparr>active_td := 0\<rparr>, call_clear_weak_mods (env c) w) })"

definition process_tap_dance :: "'w td_cfg \<Rightarrow> u16 \<Rightarrow> bool \<Rightarrow> u16 \<Rightarrow> tap_dance \<times> 'w \<Rightarrow> (tap_dance \<times> 'w) option" where
  "process_tap_dance c keycode press t mw =
    (if \<not> IS_QK_TAP_DANCE keycode then Some mw
     else if press then
       do { (s, m, w) \<leftarrow> with_dance c keycode (\<lambda>f (s, w).
              process_tap_dance_action_on_each_tap (env c) f (s\<lparr>td_pressed := True\<rparr>, w)) mw;
            Some (m\<lparr>last_tap_time := t, active_td := if td_finished s then 0 else keycode\<rparr>, w) }
     else
       do { (s, m, w) \<leftarrow> with_dance c keycode (\<lambda>f (s, w).
              process_tap_dance_action_fn (on_each_release f) (s\<lparr>td_pressed := False\<rparr>, w)) mw;
            if td_finished s then
              do { (s, m, w) \<leftarrow> with_dance c keycode (process_tap_dance_action_on_reset (env c)) (m, w);
                   Some (if active_td m = keycode then m\<lparr>active_td := 0\<rparr> else m, w) }
            else Some (m, w) })"

definition tap_dance_task :: "'w td_cfg \<Rightarrow> u16 \<Rightarrow> tap_dance \<times> 'w \<Rightarrow> (tap_dance \<times> 'w) option" where
  "tap_dance_task c t mw =
    (let m = fst mw; i = unat (QK_TAP_DANCE_GET_INDEX (active_td m)) in
     if active_td m = 0 \<or> t - last_tap_time m \<le> td_tapping_term c (active_td m) then Some mw
     else if i < length (td_states m) \<and> td_interrupted (td_states m ! i) then Some mw
     else do { (s, m, w) \<leftarrow> with_dance c (active_td m) (process_tap_dance_action_on_dance_finished (env c)) mw;
               Some (m\<lparr>active_td := 0\<rparr>, w) })"

definition reset_tap_dance :: "'w td_cfg \<Rightarrow> u16 \<Rightarrow> tap_dance \<times> 'w \<Rightarrow> (tap_dance \<times> 'w) option" where
  "reset_tap_dance c kc mw =
    do { (s, m, w) \<leftarrow> with_dance c kc (process_tap_dance_action_on_reset (env c)) mw; Some (m\<lparr>active_td := 0\<rparr>, w) }"

end
