(* ===== verification/TapDanceProps.thy ===== *)
theory TapDanceProps
  imports TapDance
begin

text \<open>
  Pair dances over runs of key events: what they register and unregister, counted on a trace of those
  calls that is kept beside any keyboard.
\<close>

section \<open>Traced keyboards and runs\<close>

definition traced :: "'w td_env \<Rightarrow> ('w \<times> (bool \<times> u16) list) td_env" where
  "traced e =
    \<lparr>get_real_mods = get_real_mods e \<circ> fst, get_weak = get_weak e \<circ> fst, get_oneshot = get_oneshot e \<circ> fst,
     call_add_weak_mods = (\<lambda>m. apfst (call_add_weak_mods e m)), call_del_weak_mods = (\<lambda>m. apfst (call_del_weak_mods e m)),
     call_add_mods = (\<lambda>m. apfst (call_add_mods e m)), call_del_mods = (\<lambda>m. apfst (call_del_mods e m)),
     call_clear_weak_mods = apfst (call_clear_weak_mods e), call_send_report = apfst (call_send_report e),
     call_register = (\<lambda>kc. map_prod (call_register e kc) (\<lambda>l. l @ [(True, kc)])),
     call_unregister = (\<lambda>kc. map_prod (call_unregister e kc) (\<lambda>l. l @ [(False, kc)])),
     call_layer_move = (\<lambda>n. apfst (call_layer_move e n)), call_tap_delay = apfst (call_tap_delay e)\<rparr>"

definition pair_cfg :: "'w td_env \<Rightarrow> (u16 \<times> u16) list \<Rightarrow> (u16 \<Rightarrow> u16) \<Rightarrow> ('w \<times> (bool \<times> u16) list) td_cfg" where
  "pair_cfg e ps tt = \<lparr>env = traced e, dance_fns = map (\<lambda>(kc1, kc2). ACTION_TAP_DANCE_DOUBLE (traced e) kc1 kc2) ps, td_tapping_term = tt\<rparr>"

text \<open>A key event goes through both handlers, the first of which may end the dance of another key.\<close>

datatype td_event = Press u16 u16 | Release u16 u16 | Tick u16

fun td_step :: "'w td_cfg \<Rightarrow> td_event \<Rightarrow> tap_dance \<times> 'w \<Rightarrow> (tap_dance \<times> 'w) option" where
  "td_step c (Press kc t) mw = do { (b, mw) \<leftarrow> preprocess_tap_dance c kc True mw; process_tap_dance c kc True t mw }"
| "td_step c (Release kc t) mw = do { (b, mw) \<leftarrow> preprocess_tap_dance c kc False mw; process_tap_dance c kc False t mw }"
| "td_step c (Tick t) mw = tap_dance_task c t mw"

fun td_run :: "'w td_cfg \<Rightarrow> td_event list \<Rightarrow> tap_dance \<times> 'w \<Rightarrow> (tap_dance \<times> 'w) option" where
  "td_run c [] mw = Some mw"
| "td_run c (ev # evs) mw = do { mw \<leftarrow> td_step c ev mw; td_run c evs mw }"

text \<open>The keys that are down; a key is pressed only when it is up, and dances have an entry in the table.\<close>

fun proper :: "nat \<Rightarrow> u16 set \<Rightarrow> td_event list \<Rightarrow> bool" where
  "proper n down [] \<longleftrightarrow> True"
| "proper n down (Press kc t # evs) \<longleftrightarrow> kc \<notin> down \<and> (IS_QK_TAP_DANCE kc \<longrightarrow> unat (QK_TAP_DANCE_GET_INDEX kc) < n) \<and> proper n (insert kc down) evs"
| "proper n down (Release kc t # evs) \<longleftrightarrow> kc \<in> down \<and> proper n (down - {kc}) evs"
| "proper n down (Tick t # evs) \<longleftrightarrow> proper n down evs"

fun keys_down :: "u16 set \<Rightarrow> td_event list \<Rightarrow> u16 set" where
  "keys_down down [] = down"
| "keys_down down (Press kc t # evs) = keys_down (insert kc down) evs"
| "keys_down down (Release kc t # evs) = keys_down (down - {kc}) evs"
| "keys_down down (Tick t # evs) = keys_down down evs"

section \<open>What is held\<close>

definition balance :: "(bool \<times> u16) list \<Rightarrow> u16 \<Rightarrow> int" where
  "balance l kc = int (count_list l (True, kc)) - int (count_list l (False, kc))"

definition held :: "u16 \<times> u16 \<Rightarrow> td_state \<Rightarrow> u16 option" where
  "held p s = (if td_finished s then (if td_count s = 1 then Some (fst p) else if td_count s = 2 then Some (snd p) else None) else None)"

definition holds_code :: "u16 \<Rightarrow> u16 \<times> u16 \<Rightarrow> td_state \<Rightarrow> int" where
  "holds_code kc p s = of_bool (held p s = Some kc)"

lemma balance_simps [simp]: "balance [] kc = 0" "balance (l @ l') kc = balance l kc + balance l' kc"
  "balance ((True, k) # l) kc = of_bool (k = kc) + balance l kc" "balance ((False, k) # l) kc = balance l kc - of_bool (k = kc)"
  by (simp_all add: balance_def)

text \<open>The state of one dance, given whether it is the active one.\<close>

definition dance_ok :: "bool \<Rightarrow> td_state \<Rightarrow> bool" where
  "dance_ok active s \<longleftrightarrow>
    (if td_finished s then td_pressed s \<and> (td_count s = 1 \<or> td_count s = 2) \<and> \<not> active
     else \<not> td_interrupted s \<and> td_count s = (if active then 1 else 0))"

text \<open>A step of one dance that keeps the books: what it newly holds is what it registered.\<close>

definition fair :: "u16 \<times> u16 \<Rightarrow> td_state \<times> 'w \<times> (bool \<times> u16) list \<Rightarrow> td_state \<times> 'w \<times> (bool \<times> u16) list \<Rightarrow> bool" where
  "fair p x y \<longleftrightarrow> (\<forall>kc. balance (snd (snd y)) kc - holds_code kc p (fst y) = balance (snd (snd x)) kc - holds_code kc p (fst x))"

abbreviation pair_fns :: "'w td_env \<Rightarrow> u16 \<times> u16 \<Rightarrow> ('w \<times> (bool \<times> u16) list) td_fns" where
  "pair_fns e p \<equiv> ACTION_TAP_DANCE_DOUBLE (traced e) (fst p) (snd p)"

lemma traced_simps [simp]:
  "get_real_mods (traced e) = get_real_mods e \<circ> fst" "get_weak (traced e) = get_weak e \<circ> fst" "get_oneshot (traced e) = get_oneshot e \<circ> fst"
  "call_add_weak_mods (traced e) m (w, l) = (call_add_weak_mods e m w, l)" "call_del_weak_mods (traced e) m (w, l) = (call_del_weak_mods e m w, l)"
  "call_add_mods (traced e) m (w, l) = (call_add_mods e m w, l)" "call_del_mods (traced e) m (w, l) = (call_del_mods e m w, l)"
  "call_clear_weak_mods (traced e) (w, l) = (call_clear_weak_mods e w, l)" "call_send_report (traced e) (w, l) = (call_send_report e w, l)"
  "call_register (traced e) kc (w, l) = (call_register e kc w, l @ [(True, kc)])"
  "call_unregister (traced e) kc (w, l) = (call_unregister e kc w, l @ [(False, kc)])"
  "call_tap_delay (traced e) (w, l) = (call_tap_delay e w, l)"
  by (simp_all add: traced_def)

lemma pair_fns_simps [simp]:
  "process_tap_dance_action_fn (on_each_tap (pair_fns e p)) (s, w, l) =
     (if td_count s = 2 then (s\<lparr>td_finished := True\<rparr>, call_register e (snd p) w, l @ [(True, snd p)]) else (s, w, l))"
  "process_tap_dance_action_fn (on_dance_finished (pair_fns e p)) (s, w, l) = (s, call_register e (fst p) w, l @ [(True, fst p)])"
  "process_tap_dance_action_fn (on_reset (pair_fns e p)) (s, w, l) =
     (if td_count s = 1 then (s, call_unregister e (fst p) (call_tap_delay e w), l @ [(False, fst p)])
      else if td_count s = 2 then (s, call_unregister e (snd p) w, l @ [(False, snd p)]) else (s, w, l))"
  "process_tap_dance_action_fn (on_each_release (pair_fns e p)) (s, w, l) = (s, w, l)"
  by (simp_all add: process_tap_dance_action_fn_def ACTION_TAP_DANCE_DOUBLE_def tap_dance_pair_on_each_tap_def
    tap_dance_pair_finished_def tap_dance_pair_reset_def)

lemmas dance_steps = process_tap_dance_action_on_each_tap_def process_tap_dance_action_on_reset_def
  process_tap_dance_action_on_dance_finished_def

lemma td_zero_fields [simp]: "td_count td_zero = 0" "\<not> td_finished td_zero" "\<not> td_pressed td_zero" "\<not> td_interrupted td_zero"
  by (simp_all add: td_zero_def)

definition good_step :: "bool \<Rightarrow> bool \<Rightarrow> u16 \<times> u16 \<Rightarrow> td_state \<times> 'w \<times> (bool \<times> u16) list \<Rightarrow> td_state \<times> 'w \<times> (bool \<times> u16) list \<Rightarrow> bool" where
  "good_step active press p x y \<longleftrightarrow> dance_ok active (fst y) \<and> td_pressed (fst y) = press \<and> fair p x y"

lemmas good_defs = good_step_def fair_def dance_ok_def holds_code_def held_def

lemma finish_dance:
  assumes "td_count s = 1" and "\<not> td_finished s"
  shows "good_step False (td_pressed s) p (s, w, l) (process_tap_dance_action_on_dance_finished (traced e) (pair_fns e p) (s, w, l))"
  using assms by (auto simp: dance_steps good_defs)

lemma tap_dance_press:
  assumes "dance_ok active s" and "\<not> td_pressed s"
  shows "good_step (\<not> active) True p (s, w, l)
    (process_tap_dance_action_on_each_tap (traced e) (pair_fns e p) (s\<lparr>td_pressed := True\<rparr>, w, l))"
  and "td_finished (fst (process_tap_dance_action_on_each_tap (traced e) (pair_fns e p) (s\<lparr>td_pressed := True\<rparr>, w, l))) = active"
  using assms by (auto simp: dance_steps good_defs split: if_splits)

lemma tap_dance_release:
  assumes "dance_ok active s" and "td_finished s"
  shows "good_step False False p (s, w, l)
    (process_tap_dance_action_on_reset (traced e) (pair_fns e p) (s\<lparr>td_pressed := False\<rparr>, w, l))"
  using assms by (auto simp: dance_steps good_defs split: if_splits)

section \<open>All dances\<close>

definition td_code :: "nat \<Rightarrow> u16" where
  "td_code i = 0x5700 + of_nat i"

lemma unat_td_code: "i < 256 \<Longrightarrow> unat (td_code i) = 0x5700 + i"
  by (simp add: td_code_def unat_word_ariths unat_of_nat take_bit_eq_mod)

lemma td_code_inj: "i < 256 \<Longrightarrow> j < 256 \<Longrightarrow> td_code i = td_code j \<longleftrightarrow> i = j"
  by (metis add_left_cancel unat_td_code)

lemma td_code_nonzero: "i < 256 \<Longrightarrow> td_code i \<noteq> 0"
  using unat_td_code [of i] by (metis add_eq_0_iff_both_eq_0 unat_0 zero_neq_numeral)

lemma td_index:
  assumes "IS_QK_TAP_DANCE kc"
  shows "kc = td_code (unat (QK_TAP_DANCE_GET_INDEX kc))" and "unat (QK_TAP_DANCE_GET_INDEX kc) < 256"
proof -
  have r: "0x5700 \<le> unat kc" "unat kc \<le> 0x57FF"
    using assms by (simp_all add: IS_QK_TAP_DANCE_def word_le_nat_alt)
  have m: "kc AND 0xFF = take_bit 8 kc" by (simp add: take_bit_eq_mask mask_eq_exp_minus_1)
  have "unat (kc AND 0xFF) = take_bit 8 (unat kc)" unfolding m by (rule unsigned_take_bit_eq)
  also have "\<dots> = unat kc mod 256" by (simp add: take_bit_nat_def)
  also have "\<dots> = unat kc - 0x5700"
  proof -
    define q where "q = unat kc - 0x5700"
    have q: "unat kc = q + 87 * 256" "q < 256" using r by (simp_all add: q_def)
    show ?thesis by (simp only: q(1) mod_mult_self1) (use q(2) in simp)
  qed
  finally have i: "unat (kc AND 0xFF) = unat kc - 0x5700" .
  then show b: "unat (QK_TAP_DANCE_GET_INDEX kc) < 256" using r by (simp add: QK_TAP_DANCE_GET_INDEX_def)
  show "kc = td_code (unat (QK_TAP_DANCE_GET_INDEX kc))"
    by (rule word_unat_eq_iff [THEN iffD2]) (use b i r in \<open>simp add: unat_td_code QK_TAP_DANCE_GET_INDEX_def\<close>)
qed

lemma td_code_index: "i < 256 \<Longrightarrow> unat (QK_TAP_DANCE_GET_INDEX (td_code i)) = i \<and> IS_QK_TAP_DANCE (td_code i)"
proof -
  assume i: "i < 256"
  then have d: "IS_QK_TAP_DANCE (td_code i)" by (simp add: IS_QK_TAP_DANCE_def word_le_nat_alt unat_td_code)
  then show ?thesis using td_index [OF d] td_code_inj [OF i] by metis
qed

lemma sum_update:
  assumes "i < n" and "length xs = n"
  shows "(\<Sum>j<n. f j (xs[i := x] ! j)) = (\<Sum>j<n. f j (xs ! j)) + f i x - (f i (xs ! i) :: int)"
  using assms by (simp add: sum.remove [of "{..<n}" i])

definition td_inv :: "(u16 \<times> u16) list \<Rightarrow> u16 set \<Rightarrow> tap_dance \<Rightarrow> (bool \<times> u16) list \<Rightarrow> bool" where
  "td_inv ps down m l \<longleftrightarrow> length (td_states m) = length ps \<and>
    (\<forall>i<length ps. dance_ok (active_td m = td_code i) (td_states m ! i) \<and> (td_pressed (td_states m ! i) \<longleftrightarrow> td_code i \<in> down)) \<and>
    (active_td m \<noteq> 0 \<longrightarrow> (\<exists>i<length ps. active_td m = td_code i)) \<and>
    (\<forall>kc. balance l kc = (\<Sum>i<length ps. holds_code kc (ps ! i) (td_states m ! i)))"

lemma td_inv_init: "length ps \<le> 256 \<Longrightarrow> td_inv ps {} (tap_dance_init (length ps)) []"
  using td_code_nonzero by (fastforce simp: td_inv_def tap_dance_init_def dance_ok_def holds_code_def held_def)

lemma td_inv_step:
  assumes "td_inv ps down m l" and "i < length ps" and "good_step act press (ps ! i) (td_states m ! i, w, l) (s', w', l')"
    and "act \<longleftrightarrow> a = td_code i" and "\<And>j. j < length ps \<Longrightarrow> j \<noteq> i \<Longrightarrow> a = td_code j \<longleftrightarrow> active_td m = td_code j"
    and "a \<noteq> 0 \<Longrightarrow> \<exists>j<length ps. a = td_code j"
    and "\<And>j. j < length ps \<Longrightarrow> td_code j \<in> down' \<longleftrightarrow> (if j = i then press else td_code j \<in> down)"
    and "td_states m' = (td_states m)[i := s']" and "active_td m' = a"
  shows "td_inv ps down' m' l'"
proof -
  have g: "dance_ok act s'" "td_pressed s' = press"
    "\<And>kc. balance l' kc = balance l kc - holds_code kc (ps ! i) (td_states m ! i) + holds_code kc (ps ! i) s'"
    using assms(3) by (simp_all add: good_step_def fair_def algebra_simps)
  have n: "length (td_states m) = length ps" using assms(1) by (simp add: td_inv_def)
  have "balance l' kc = (\<Sum>j<length ps. holds_code kc (ps ! j) (td_states m' ! j))" for kc
    using g(3) [of kc] assms(1,8) sum_update [OF assms(2) n, of "\<lambda>j. holds_code kc (ps ! j)" s'] by (simp add: td_inv_def)
  moreover have "dance_ok (active_td m' = td_code j) (td_states m' ! j) \<and> (td_pressed (td_states m' ! j) \<longleftrightarrow> td_code j \<in> down')"
    if "j < length ps" for j
    using that g(1,2) assms n by (cases "j = i") (auto simp: td_inv_def)
  ultimately show ?thesis using n assms(6,8,9) by (simp add: td_inv_def)
qed

lemma td_codes_inj:
  "length ps \<le> 256 \<Longrightarrow> j < length ps \<Longrightarrow> k < length ps \<Longrightarrow> td_code j = td_code k \<longleftrightarrow> j = k"
  using td_code_inj [of j k] by simp

lemma with_pair:
  assumes "i < length ps" and "i < 256" and "length (td_states m) = length ps"
  shows "with_dance (pair_cfg e ps tt) (td_code i) f (m, x) =
    (case f (pair_fns e (ps ! i)) (td_states m ! i, x) of (s, y) \<Rightarrow> Some (s, m\<lparr>td_states := (td_states m)[i := s]\<rparr>, y))"
  using assms td_code_index [OF assms(2)] by (simp add: with_dance_def pair_cfg_def split: prod.splits)

lemma pair_cfg_env [simp]: "env (pair_cfg e ps tt) = traced e" "td_tapping_term (pair_cfg e ps tt) = tt"
  by (simp_all add: pair_cfg_def)

text \<open>Ending the active dance, by the clock or by another key.\<close>

lemma finish_active:
  assumes "td_inv ps down m l" and "length ps \<le> 256" and "active_td m \<noteq> 0"
  obtains s w' l' m' where
    "with_dance (pair_cfg e ps tt) (active_td m) (\<lambda>f (s, w). process_tap_dance_action_on_dance_finished (traced e) f
       (s\<lparr>td_interrupted := b, interrupting_keycode := k s\<rparr>, w)) (m, w, l) = Some (s, m', w', l')"
    and "td_inv ps down (m'\<lparr>active_td := 0\<rparr>) l'"
proof -
  obtain i where i: "i < length ps" "active_td m = td_code i" using assms(1,3) by (auto simp: td_inv_def)
  let ?s = "td_states m ! i"
  have s: "dance_ok True ?s" "td_pressed ?s \<longleftrightarrow> td_code i \<in> down" using assms(1) i by (auto simp: td_inv_def)
  have s1: "td_count ?s = 1" "\<not> td_finished ?s" using s(1) by (auto simp: dance_ok_def split: if_splits)
  obtain s' w' l' where f: "process_tap_dance_action_on_dance_finished (traced e) (pair_fns e (ps ! i))
      (?s\<lparr>td_interrupted := b, interrupting_keycode := k ?s\<rparr>, w, l) = (s', w', l')" by (metis prod.collapse)
  have "good_step False (td_pressed ?s) (ps ! i) (?s\<lparr>td_interrupted := b, interrupting_keycode := k ?s\<rparr>, w, l) (s', w', l')"
    using finish_dance [of "?s\<lparr>td_interrupted := b, interrupting_keycode := k ?s\<rparr>" "ps ! i" w l e] s1 f by simp
  then have g: "good_step False (td_code i \<in> down) (ps ! i) (?s, w, l) (s', w', l')"
    using s(2) by (simp add: good_step_def fair_def holds_code_def held_def)
  have a: "(0 = td_code j) = (active_td m = td_code j)" if "j < length ps" "j \<noteq> i" for j
    using that i assms(2) td_code_inj [of i j] td_code_nonzero [of j] by auto
  have "td_inv ps down (m\<lparr>td_states := (td_states m)[i := s'], active_td := 0\<rparr>) l'"
    by (rule td_inv_step [OF assms(1) i(1) g, where a = 0]) (use a i assms(2) td_code_nonzero [of i] in auto)
  then show thesis
    using that [of s' "m\<lparr>td_states := (td_states m)[i := s']\<rparr>" w' l'] with_pair [of i ps m e tt] i assms(1,2) f
    by (auto simp: td_inv_def)
qed

text \<open>After the first handler no other dance is active.\<close>

lemma preprocess_pair:
  assumes "td_inv ps down m l" and "length ps \<le> 256"
  obtains b m' w' l' where "preprocess_tap_dance (pair_cfg e ps tt) kc True (m, w, l) = Some (b, m', w', l')"
    and "td_inv ps down m' l'" and "active_td m' = 0 \<or> active_td m' = kc"
proof (cases "active_td m = 0 \<or> kc = active_td m")
  case True
  then show thesis using that [of False m w l] assms(1) by (auto simp: preprocess_tap_dance_def)
next
  case False
  obtain s m' w' l' where f: "with_dance (pair_cfg e ps tt) (active_td m) (\<lambda>f (s, w). process_tap_dance_action_on_dance_finished (traced e) f
       (s\<lparr>td_interrupted := True, interrupting_keycode := kc\<rparr>, w)) (m, w, l) = Some (s, m', w', l')"
    "td_inv ps down (m'\<lparr>active_td := 0\<rparr>) l'"
    by (rule finish_active [OF assms, where b = True and k = "\<lambda>_. kc" and e = e and tt = tt and w = w])
      (use False in simp, rule that)
  then show thesis
    using that [of True "m'\<lparr>active_td := 0\<rparr>" "call_clear_weak_mods e w'" l'] False by (simp add: preprocess_tap_dance_def)
qed

lemma press_pair:
  assumes "td_inv ps down m l" and "length ps \<le> 256" and "active_td m = 0 \<or> active_td m = kc"
    and "IS_QK_TAP_DANCE kc \<Longrightarrow> unat (QK_TAP_DANCE_GET_INDEX kc) < length ps" and "kc \<notin> down"
  obtains m' w' l' where "process_tap_dance (pair_cfg e ps tt) kc True t (m, w, l) = Some (m', w', l')"
    and "td_inv ps (insert kc down) m' l'"
proof (cases "IS_QK_TAP_DANCE kc")
  case False
  have "kc \<noteq> td_code i" if "i < length ps" for i using that False assms(2) td_code_index [of i] by auto
  then have "td_inv ps (insert kc down) m l" using assms(1) by (auto simp: td_inv_def)
  then show thesis using that [of m w l] False by (simp add: process_tap_dance_def)
next
  case True
  define i where "i = unat (QK_TAP_DANCE_GET_INDEX kc)"
  have i: "i < length ps" "kc = td_code i" "i < 256" using td_index [OF True] assms(4) [OF True] by (simp_all add: i_def)
  let ?s = "td_states m ! i"
  have n: "length (td_states m) = length ps" using assms(1) by (simp add: td_inv_def)
  have s: "dance_ok (active_td m = td_code i) ?s" "\<not> td_pressed ?s" using assms(1,5) i by (auto simp: td_inv_def)
  obtain s' w' l' where f: "process_tap_dance_action_on_each_tap (traced e) (pair_fns e (ps ! i)) (?s\<lparr>td_pressed := True\<rparr>, w, l) = (s', w', l')"
    by (metis prod.collapse)
  have g: "good_step (active_td m \<noteq> td_code i) True (ps ! i) (?s, w, l) (s', w', l')" "td_finished s' \<longleftrightarrow> active_td m = td_code i"
    using tap_dance_press [OF s, where p = "ps ! i" and w = w and l = l and e = e] f by simp_all
  let ?a = "if td_finished s' then 0 else kc"
  have a: "(?a = td_code j) = (active_td m = td_code j)" if "j < length ps" "j \<noteq> i" for j
    using that i assms(2,3) td_code_inj [of i j] td_code_nonzero [of j] by auto
  have inv: "td_inv ps (insert kc down) (m\<lparr>td_states := (td_states m)[i := s'], last_tap_time := t, active_td := ?a\<rparr>) l'"
    by (rule td_inv_step [OF assms(1) i(1) g(1), where a = ?a]) (use a i g(2) assms(2) td_code_nonzero [of i] in \<open>auto simp: td_codes_inj\<close>)
  then show thesis
    using that [OF _ inv] with_pair [of i ps m e tt] i n f True by (simp add: process_tap_dance_def)
qed

lemma release_pair:
  assumes "td_inv ps down m l" and "length ps \<le> 256" and "kc \<in> down" and "IS_QK_TAP_DANCE kc \<Longrightarrow> unat (QK_TAP_DANCE_GET_INDEX kc) < length ps"
  obtains m' w' l' where "process_tap_dance (pair_cfg e ps tt) kc False t (m, w, l) = Some (m', w', l')"
    and "td_inv ps (down - {kc}) m' l'"
proof (cases "IS_QK_TAP_DANCE kc")
  case False
  have "kc \<noteq> td_code i" if "i < length ps" for i using that False assms(2) td_code_index [of i] by auto
  then have "td_inv ps (down - {kc}) m l" using assms(1) by (auto simp: td_inv_def)
  then show thesis using that [of m w l] False by (simp add: process_tap_dance_def)
next
  case True
  define i where "i = unat (QK_TAP_DANCE_GET_INDEX kc)"
  have i: "i < length ps" "kc = td_code i" "i < 256" using td_index [OF True] assms(4) [OF True] by (simp_all add: i_def)
  have n: "length (td_states m) = length ps" using assms(1) by (simp add: td_inv_def)
  let ?s = "td_states m ! i"
  have s: "dance_ok (active_td m = td_code i) ?s" using assms(1) i by (auto simp: td_inv_def)
  show thesis
  proof (cases "td_finished ?s")
    case False
    have g: "good_step (active_td m = td_code i) False (ps ! i) (?s, w, l) (?s\<lparr>td_pressed := False\<rparr>, w, l)"
      using s False by (simp add: good_step_def fair_def dance_ok_def holds_code_def held_def)
    have "td_inv ps (down - {kc}) (m\<lparr>td_states := (td_states m)[i := ?s\<lparr>td_pressed := False\<rparr>]\<rparr>) l"
      by (rule td_inv_step [OF assms(1) i(1) g, where a = "active_td m"])
        (use i assms(1,2) in \<open>auto simp: td_inv_def td_codes_inj\<close>)
    then show thesis using that [of _ w l] with_pair [of i ps m e tt] i n True False by (simp add: process_tap_dance_def)
  next
    case fin: True
    then have na: "active_td m \<noteq> td_code i" using s by (simp add: dance_ok_def)
    obtain s' w' l' where f: "process_tap_dance_action_on_reset (traced e) (pair_fns e (ps ! i)) (?s\<lparr>td_pressed := False\<rparr>, w, l) = (s', w', l')"
      by (metis prod.collapse)
    have g: "good_step False False (ps ! i) (?s, w, l) (s', w', l')"
      using tap_dance_release [OF s fin, of "ps ! i" w l e] f by simp
    have "td_inv ps (down - {kc}) (m\<lparr>td_states := (td_states m)[i := s']\<rparr>) l'"
      by (rule td_inv_step [OF assms(1) i(1) g, where a = "active_td m"])
        (use i na assms(1,2) in \<open>auto simp: td_inv_def td_codes_inj\<close>)
    then show thesis
      using that [of _ w' l'] with_pair [of i ps m e tt] with_pair [of i ps "m\<lparr>td_states := (td_states m)[i := ?s\<lparr>td_pressed := False\<rparr>]\<rparr>" e tt]
        i n True fin na f by (simp add: process_tap_dance_def)
  qed
qed

lemma tick_pair:
  assumes "td_inv ps down m l" and "length ps \<le> 256"
  obtains m' w' l' where "tap_dance_task (pair_cfg e ps tt) t (m, w, l) = Some (m', w', l')" and "td_inv ps down m' l'"
proof (cases "active_td m = 0 \<or> t - last_tap_time m \<le> tt (active_td m)")
  case True
  then show thesis using that [of m w l] assms(1) by (auto simp: tap_dance_task_def)
next
  case False
  obtain i where i: "i < length ps" "active_td m = td_code i" using assms(1) False by (auto simp: td_inv_def)
  then have ni: "\<not> td_interrupted (td_states m ! i)" using assms(1) by (auto simp: td_inv_def dance_ok_def split: if_splits)
  obtain s m' w' l' where f: "with_dance (pair_cfg e ps tt) (active_td m) (\<lambda>f (s, w). process_tap_dance_action_on_dance_finished (traced e) f
       (s\<lparr>td_interrupted := False, interrupting_keycode := interrupting_keycode s\<rparr>, w)) (m, w, l) = Some (s, m', w', l')"
    "td_inv ps down (m'\<lparr>active_td := 0\<rparr>) l'"
    by (rule finish_active [OF assms, where b = False and k = interrupting_keycode and e = e and tt = tt and w = w])
      (use False in simp, rule that)
  have n: "length (td_states m) = length ps" "i < 256" using assms i by (simp_all add: td_inv_def)
  have eq: "(td_states m ! i)\<lparr>td_interrupted := False, interrupting_keycode := interrupting_keycode (td_states m ! i)\<rparr> = td_states m ! i"
    using ni by simp
  have fin: "process_tap_dance_action_on_dance_finished (traced e) (pair_fns e (ps ! i)) (td_states m ! i, w, l) = (s, w', l')"
    "m' = m\<lparr>td_states := (td_states m)[i := s]\<rparr>"
    using f(1) unfolding i(2) with_pair [OF i(1) n(2) n(1)] case_prod_conv eq by (simp_all split: prod.splits)
  show thesis
    using that [OF _ f(2)] fin False i ni n td_code_index [OF n(2)] by (simp add: tap_dance_task_def with_pair)
qed

lemma td_run_inv:
  assumes "td_inv ps down m l" and "length ps \<le> 256" and "proper (length ps) down evs"
    and "\<And>kc. kc \<in> down \<Longrightarrow> IS_QK_TAP_DANCE kc \<Longrightarrow> unat (QK_TAP_DANCE_GET_INDEX kc) < length ps"
  shows "\<exists>m' w' l'. td_run (pair_cfg e ps tt) evs (m, w, l) = Some (m', w', l') \<and> td_inv ps (keys_down down evs) m' l'"
  using assms(1,3,4)
proof (induction evs arbitrary: down m w l)
  case Nil
  then show ?case by simp
next
  case (Cons ev evs)
  show ?case
  proof (cases ev)
    case (Press kc t)
    obtain b m1 w1 l1 where p: "preprocess_tap_dance (pair_cfg e ps tt) kc True (m, w, l) = Some (b, m1, w1, l1)"
      "td_inv ps down m1 l1" "active_td m1 = 0 \<or> active_td m1 = kc"
      by (rule preprocess_pair [OF Cons.prems(1) assms(2)]) (rule that)
    have k: "kc \<notin> down" "IS_QK_TAP_DANCE kc \<Longrightarrow> unat (QK_TAP_DANCE_GET_INDEX kc) < length ps" "proper (length ps) (insert kc down) evs"
      using Cons.prems(2) Press by simp_all
    obtain m2 w2 l2 where q: "process_tap_dance (pair_cfg e ps tt) kc True t (m1, w1, l1) = Some (m2, w2, l2)" "td_inv ps (insert kc down) m2 l2"
      by (rule press_pair [OF p(2) assms(2) p(3) k(2) k(1)]) (assumption, rule that)
    show ?thesis using Cons.IH [OF q(2) k(3), of w2] Cons.prems(3) k(2) p(1) q(1) Press by auto
  next
    case (Release kc t)
    have k: "kc \<in> down" "proper (length ps) (down - {kc}) evs" using Cons.prems(2) Release by simp_all
    obtain m2 w2 l2 where q: "process_tap_dance (pair_cfg e ps tt) kc False t (m, w, l) = Some (m2, w2, l2)" "td_inv ps (down - {kc}) m2 l2"
      by (rule release_pair [OF Cons.prems(1) assms(2) k(1) Cons.prems(3) [OF k(1)]]) (assumption, rule that)
    show ?thesis using Cons.IH [OF q(2) k(2), of w2] Cons.prems(3) q(1) Release by (auto simp: preprocess_tap_dance_def)
  next
    case (Tick t)
    obtain m2 w2 l2 where q: "tap_dance_task (pair_cfg e ps tt) t (m, w, l) = Some (m2, w2, l2)" "td_inv ps down m2 l2"
      by (rule tick_pair [OF Cons.prems(1) assms(2)]) (rule that)
    show ?thesis using Cons.IH [OF q(2), of w2] Cons.prems(2,3) q(1) Tick by auto
  qed
qed

text \<open>
  Whatever keys are pressed and released in whatever order and time, the pair dances of a
  keyboard have registered a keycode as often more than they have unregistered it as there are dances that
  hold it, and only a dance whose key is down holds one; so no keycode stays down once the keys are up.
\<close>

theorem pair_dances_leave_nothing_down:
  assumes "length ps \<le> 256" and "proper (length ps) {} evs"
  shows "\<exists>m w l. td_run (pair_cfg e ps tt) evs (tap_dance_init (length ps), w0, []) = Some (m, w, l) \<and>
    (\<forall>kc. balance l kc = (\<Sum>i<length ps. holds_code kc (ps ! i) (td_states m ! i))) \<and>
    (\<forall>i. i < length ps \<and> held (ps ! i) (td_states m ! i) \<noteq> None \<longrightarrow> td_code i \<in> keys_down {} evs)"
proof -
  obtain m w l where r: "td_run (pair_cfg e ps tt) evs (tap_dance_init (length ps), w0, []) = Some (m, w, l)"
    "td_inv ps (keys_down {} evs) m l"
    using td_run_inv [OF td_inv_init [OF assms(1)] assms, of e tt w0] by auto
  moreover have "td_code i \<in> keys_down {} evs" if "i < length ps" "held (ps ! i) (td_states m ! i) \<noteq> None" for i
    using r(2) that by (auto simp: td_inv_def dance_ok_def held_def split: if_splits)
  ultimately show ?thesis by (auto simp: td_inv_def)
qed

text \<open>A keyboard of the right modifiers only, for examples.\<close>

definition silent_env :: "u8 td_env" where
  "silent_env = \<lparr>get_real_mods = id, get_weak = (\<lambda>_. 0), get_oneshot = (\<lambda>_. 0), call_add_weak_mods = (\<lambda>_. id),
     call_del_weak_mods = (\<lambda>_. id), call_add_mods = (OR), call_del_mods = (\<lambda>m w. w AND NOT m), call_clear_weak_mods = id,
     call_send_report = id, call_register = (\<lambda>_. id), call_unregister = (\<lambda>_. id), call_layer_move = (\<lambda>_. id), call_tap_delay = id\<rparr>"

lemma pair_dances_leave_nothing_down_witness:
  "\<exists>m w l. td_run (pair_cfg silent_env [(4, 5), (6, 7)] (\<lambda>_. 200)) [Press 0x5701 10, Tick 250, Press 0x5700 260]
      (tap_dance_init 2, 0, []) = Some (m, w, l) \<and>
    balance l 6 = (\<Sum>i<2. holds_code 6 ([(4, 5), (6, 7)] ! i) (td_states m ! i))"
  using pair_dances_leave_nothing_down [of "[(4, 5), (6, 7)]" "[Press 0x5701 10, Tick 250, Press 0x5700 260]" silent_env "\<lambda>_. 200" 0]
  by (auto simp: QK_TAP_DANCE_GET_INDEX_def numeral_2_eq_2)

text \<open>The table of dances has no bounds check: a keycode behind it reads past its end.\<close>

lemma tap_dance_behind_table:
  assumes "IS_QK_TAP_DANCE kc" and "length (td_states m) \<le> unat (QK_TAP_DANCE_GET_INDEX kc)"
  shows "process_tap_dance c kc press t (m, w) = None"
  using assms by (simp add: process_tap_dance_def with_dance_def)

text \<open>What a run of key events has registered and unregistered.\<close>

definition td_trace :: "'w td_env \<Rightarrow> u16 \<times> u16 \<Rightarrow> (u16 \<Rightarrow> u16) \<Rightarrow> 'w \<Rightarrow> td_event list \<Rightarrow> (bool \<times> u16) list option" where
  "td_trace e p tt w evs = map_option (snd \<circ> snd) (td_run (pair_cfg e [p] tt) evs (tap_dance_init 1, w, []))"

text \<open>
  One tap of a pair dance registers its first keycode when the term has passed or another key
  interrupts it, and unregisters it at once; held longer than the term the first keycode stays down until the
  key is released; the second press in time registers the second keycode until it is released.
\<close>

theorem pair_dance_outcomes:
  assumes "tt 0x5700 < t' - t" and "k \<noteq> 0x5700" and "\<not> IS_QK_TAP_DANCE k"
  shows "td_trace e (kc1, kc2) tt w [Press 0x5700 t, Release 0x5700 u, Tick t'] = Some [(True, kc1), (False, kc1)] \<and>
    td_trace e (kc1, kc2) tt w [Press 0x5700 t, Release 0x5700 u, Press k v] = Some [(True, kc1), (False, kc1)] \<and>
    td_trace e (kc1, kc2) tt w [Press 0x5700 t, Tick t'] = Some [(True, kc1)] \<and>
    td_trace e (kc1, kc2) tt w [Press 0x5700 t, Tick t', Release 0x5700 v] = Some [(True, kc1), (False, kc1)] \<and>
    td_trace e (kc1, kc2) tt w [Press 0x5700 t, Release 0x5700 u, Press 0x5700 v] = Some [(True, kc2)] \<and>
    td_trace e (kc1, kc2) tt w [Press 0x5700 t, Release 0x5700 u, Press 0x5700 v, Release 0x5700 x] = Some [(True, kc2), (False, kc2)]"
proof -
  have i: "unat (QK_TAP_DANCE_GET_INDEX 0x5700) = 0" "IS_QK_TAP_DANCE 0x5700"
    by (simp_all add: QK_TAP_DANCE_GET_INDEX_def IS_QK_TAP_DANCE_def)
  have c: "dance_fns (pair_cfg e [(kc1, kc2)] tt) = [pair_fns e (kc1, kc2)]" by (simp add: pair_cfg_def)
  note defs = td_trace_def tap_dance_init_def preprocess_tap_dance_def process_tap_dance_def tap_dance_task_def with_dance_def
    dance_steps td_zero_def Let_def
  note rule = pair_fns_simps [of e "(kc1, kc2)", simplified]
  show ?thesis using assms i by (auto simp: defs c rule not_le)
qed

lemma pair_dance_outcomes_witness:
  "td_trace silent_env (4, 5) (\<lambda>_. 200) 0 [Press 0x5700 10, Release 0x5700 60, Tick 300] = Some [(True, 4), (False, 4)]"
  using pair_dance_outcomes [of "\<lambda>_. 200" 300 10 7 silent_env 4 5 0 60] by (simp add: IS_QK_TAP_DANCE_def)

end
