(* ===== verification/Leader.thy ===== *)
theory Leader
  imports Keycodes
begin

text \<open>
  The leader key (\<^verbatim>\<open>quantum/leader.c\<close>, \<^verbatim>\<open>quantum/process_keycode/process_leader.c\<close>): the sequence of
  up to five keys after it, its timeout, the handler and the task, and the refinement to a list of keys.
\<close>

section \<open>State and operations\<close>

text \<open>The user hooks are recorded; the one at the end reads the sequence.\<close>

datatype leader_call = LeaderStart | LeaderEnd "u16 list"

record leader =
  leading :: bool
  leader_time :: u16
  leader_sequence :: "u16 list"
  leader_sequence_size :: u8
  leader_calls :: "leader_call list"

record leader_cfg =
  LEADER_TIMEOUT :: nat
  LEADER_NO_TIMEOUT :: bool
  LEADER_PER_KEY_TIMING :: bool
  LEADER_KEY_STRICT_KEY_PROCESSING :: bool

definition leader_init :: leader where
  "leader_init = \<lparr>leading = False, leader_time = 0, leader_sequence = [0, 0, 0, 0, 0], leader_sequence_size = 0, leader_calls = []\<rparr>"

definition leader_start :: "u16 \<Rightarrow> leader \<Rightarrow> leader" where
  "leader_start t s =
    (if leading s then s
     else s\<lparr>leader_calls := leader_calls s @ [LeaderStart], leading := True, leader_time := t,
            leader_sequence_size := 0, leader_sequence := [0, 0, 0, 0, 0]\<rparr>)"

definition leader_end :: "leader \<Rightarrow> leader" where
  "leader_end s = s\<lparr>leading := False, leader_calls := leader_calls s @ [LeaderEnd (leader_sequence s)]\<rparr>"

definition leader_sequence_active :: "leader \<Rightarrow> bool" where
  "leader_sequence_active s = leading s"

definition leader_sequence_timed_out :: "leader_cfg \<Rightarrow> u16 \<Rightarrow> leader \<Rightarrow> bool" where
  "leader_sequence_timed_out c t s \<longleftrightarrow>
    (if LEADER_NO_TIMEOUT c then leader_sequence_size s > 0 \<and> unat (t - leader_time s) > LEADER_TIMEOUT c
     else unat (t - leader_time s) > LEADER_TIMEOUT c)"

definition leader_reset_timer :: "u16 \<Rightarrow> leader \<Rightarrow> leader" where
  "leader_reset_timer t s = s\<lparr>leader_time := t\<rparr>"

definition leader_task :: "leader_cfg \<Rightarrow> u16 \<Rightarrow> leader \<Rightarrow> leader" where
  "leader_task c t s = (if leader_sequence_active s \<and> leader_sequence_timed_out c t s then leader_end s else s)"

definition leader_sequence_add :: "leader_cfg \<Rightarrow> u16 \<Rightarrow> u16 \<Rightarrow> leader \<Rightarrow> bool \<times> leader" where
  "leader_sequence_add c t keycode s =
    (if unat (leader_sequence_size s) \<ge> length (leader_sequence s) then (False, s)
     else (let s = (if LEADER_NO_TIMEOUT c \<and> leader_sequence_size s = 0 then leader_reset_timer t s else s) in
           (True, s\<lparr>leader_sequence := (leader_sequence s)[unat (leader_sequence_size s) := keycode],
                    leader_sequence_size := leader_sequence_size s + 1\<rparr>)))"

definition leader_sequence_is :: "u16 \<Rightarrow> u16 \<Rightarrow> u16 \<Rightarrow> u16 \<Rightarrow> u16 \<Rightarrow> leader \<Rightarrow> bool" where
  "leader_sequence_is kc1 kc2 kc3 kc4 kc5 s \<longleftrightarrow>
     leader_sequence s ! 0 = kc1 \<and> leader_sequence s ! 1 = kc2 \<and> leader_sequence s ! 2 = kc3 \<and>
     leader_sequence s ! 3 = kc4 \<and> leader_sequence s ! 4 = kc5"

definition leader_sequence_one_key :: "u16 \<Rightarrow> leader \<Rightarrow> bool" where
  "leader_sequence_one_key kc = leader_sequence_is kc 0 0 0 0"
definition leader_sequence_two_keys :: "u16 \<Rightarrow> u16 \<Rightarrow> leader \<Rightarrow> bool" where
  "leader_sequence_two_keys kc1 kc2 = leader_sequence_is kc1 kc2 0 0 0"
definition leader_sequence_three_keys :: "u16 \<Rightarrow> u16 \<Rightarrow> u16 \<Rightarrow> leader \<Rightarrow> bool" where
  "leader_sequence_three_keys kc1 kc2 kc3 = leader_sequence_is kc1 kc2 kc3 0 0"
definition leader_sequence_four_keys :: "u16 \<Rightarrow> u16 \<Rightarrow> u16 \<Rightarrow> u16 \<Rightarrow> leader \<Rightarrow> bool" where
  "leader_sequence_four_keys kc1 kc2 kc3 kc4 = leader_sequence_is kc1 kc2 kc3 kc4 0"
definition leader_sequence_five_keys :: "u16 \<Rightarrow> u16 \<Rightarrow> u16 \<Rightarrow> u16 \<Rightarrow> u16 \<Rightarrow> leader \<Rightarrow> bool" where
  "leader_sequence_five_keys kc1 kc2 kc3 kc4 kc5 = leader_sequence_is kc1 kc2 kc3 kc4 kc5"

definition QK_LEADER :: u16 where "QK_LEADER = 0x7C58"

definition leader_keycode :: "leader_cfg \<Rightarrow> u16 \<Rightarrow> u16" where
  "leader_keycode c keycode =
    (if LEADER_KEY_STRICT_KEY_PROCESSING c then keycode
     else if IS_QK_MOD_TAP keycode then QK_MOD_TAP_GET_TAP_KEYCODE keycode
     else if IS_QK_LAYER_TAP keycode then QK_LAYER_TAP_GET_TAP_KEYCODE keycode
     else keycode)"

definition process_leader :: "leader_cfg \<Rightarrow> u16 \<Rightarrow> bool \<Rightarrow> u16 \<Rightarrow> leader \<Rightarrow> bool \<times> leader" where
  "process_leader c keycode press t s =
    (if \<not> press then (True, s)
     else if leader_sequence_active s \<and> \<not> leader_sequence_timed_out c t s then
       (case leader_sequence_add c t (leader_keycode c keycode) s of
          (False, s) \<Rightarrow> (True, leader_end s)
        | (True, s) \<Rightarrow> (False, if LEADER_PER_KEY_TIMING c then leader_reset_timer t s else s))
     else if keycode = QK_LEADER then (True, leader_start t s)
     else (True, s))"

section \<open>The sequence as a list\<close>

datatype leader_event = LeaderKey u16 bool u16 | LeaderTick u16

definition leader_step :: "leader_cfg \<Rightarrow> leader_event \<Rightarrow> leader \<Rightarrow> bool \<times> leader" where
  "leader_step c ev s = (case ev of LeaderKey kc press t \<Rightarrow> process_leader c kc press t s | LeaderTick t \<Rightarrow> (True, leader_task c t s))"

text \<open>The specification: no sequence, or the keys heard and the start of the timeout.\<close>

datatype heard = Quiet | Heard "u16 list" u16

definition padded :: "u16 list \<Rightarrow> u16 list" where
  "padded ks = ks @ replicate (5 - length ks) 0"

definition too_late :: "leader_cfg \<Rightarrow> u16 \<Rightarrow> u16 list \<Rightarrow> u16 \<Rightarrow> bool" where
  "too_late c t ks since \<longleftrightarrow> \<not> (LEADER_NO_TIMEOUT c \<and> ks = []) \<and> LEADER_TIMEOUT c < unat (t - since)"

text \<open>What a step passes on, its next state, and the hooks it calls.\<close>

fun heard_step :: "leader_cfg \<Rightarrow> leader_event \<Rightarrow> heard \<Rightarrow> bool \<times> heard \<times> leader_call list" where
  "heard_step c (LeaderKey kc press t) Quiet =
     (if press \<and> kc = QK_LEADER then (True, Heard [] t, [LeaderStart]) else (True, Quiet, []))"
| "heard_step c (LeaderTick t) Quiet = (True, Quiet, [])"
| "heard_step c (LeaderKey kc press t) (Heard ks since) =
     (if \<not> press \<or> too_late c t ks since then (True, Heard ks since, [])
      else if length ks = 5 then (True, Quiet, [LeaderEnd (padded ks)])
      else (False, Heard (ks @ [leader_keycode c kc])
              (if LEADER_PER_KEY_TIMING c \<or> LEADER_NO_TIMEOUT c \<and> ks = [] then t else since), []))"
| "heard_step c (LeaderTick t) (Heard ks since) =
     (if too_late c t ks since then (True, Quiet, [LeaderEnd (padded ks)]) else (True, Heard ks since, []))"

definition leader_rel :: "leader \<Rightarrow> heard \<Rightarrow> bool" where
  "leader_rel s a \<longleftrightarrow>
    (case a of Quiet \<Rightarrow> \<not> leading s
     | Heard ks since \<Rightarrow> leading s \<and> leader_time s = since \<and> length ks \<le> 5 \<and> leader_sequence s = padded ks \<and>
         leader_sequence_size s = of_nat (length ks))"

lemma padded_lists:
  "padded [] = [0, 0, 0, 0, 0]"
  "padded [a] = [a, 0, 0, 0, 0]" "padded [a, b] = [a, b, 0, 0, 0]" "padded [a, b, c] = [a, b, c, 0, 0]"
  "padded [a, b, c, d] = [a, b, c, d, 0]" "padded [a, b, c, d, e] = [a, b, c, d, e]"
  by (simp_all add: padded_def numeral_eq_Suc)

lemma padded_snoc: "length ks < 5 \<Longrightarrow> (padded ks)[length ks := k] = padded (ks @ [k])"
  by (cases "5 - length ks") (auto simp: padded_def list_update_append Suc_diff_Suc dest: Suc_diff_Suc)

lemma length_padded [simp]: "length ks \<le> 5 \<Longrightarrow> length (padded ks) = 5"
  by (simp add: padded_def)

lemma u8_of_len: "length ks \<le> 5 \<Longrightarrow> unat (of_nat (length ks) :: u8) = length ks"
  by (simp add: unat_of_nat take_bit_nat_eq_self)

lemma leader_rel_init: "leader_rel leader_init Quiet"
  by (simp add: leader_rel_def leader_init_def)

lemma timed_out_rel: "leader_rel s (Heard ks since) \<Longrightarrow> leader_sequence_timed_out c t s = too_late c t ks since"
  using u8_of_len [of ks] by (auto simp: leader_rel_def leader_sequence_timed_out_def too_late_def word_gt_0 unat_gt_0 [symmetric])

lemma leader_step_heard:
  assumes "leader_rel s a" and "heard_step c ev a = (b, a', calls)"
  shows "\<exists>s'. leader_step c ev s = (b, s') \<and> leader_rel s' a' \<and> leader_calls s' = leader_calls s @ calls"
proof (cases a)
  case Quiet
  then show ?thesis
    using assms by (cases ev) (auto simp: leader_step_def process_leader_def leader_task_def leader_sequence_active_def leader_start_def
      leader_rel_def padded_lists split: if_splits)
next
  case (Heard ks since)
  note late = timed_out_rel [OF assms(1) [unfolded Heard], of c]
  have s: "leading s" "leader_time s = since" "length ks \<le> 5" "leader_sequence s = padded ks" "leader_sequence_size s = of_nat (length ks)"
    using assms(1) Heard by (simp_all add: leader_rel_def)
  have empty: "leader_sequence_size s = 0 \<longleftrightarrow> ks = []" 
  proof -
    have "leader_sequence_size s = 0 \<longleftrightarrow> unat (leader_sequence_size s) = 0" by (simp add: unat_eq_0)
    then show ?thesis using s(3,5) u8_of_len [of ks] by simp
  qed
  show ?thesis
  proof (cases ev)
    case (LeaderTick t)
    then show ?thesis
      using assms(2) s Heard by (auto simp: leader_step_def leader_task_def leader_sequence_active_def late leader_end_def leader_rel_def split: if_splits)
  next
    case (LeaderKey kc press t)
    consider "\<not> press \<or> too_late c t ks since" | "press" "\<not> too_late c t ks since" "length ks = 5" | "press" "\<not> too_late c t ks since" "length ks < 5"
      using s(3) by linarith
    then show ?thesis
    proof cases
      case 1
      then show ?thesis
        using assms LeaderKey Heard s by (auto simp: leader_step_def process_leader_def leader_sequence_active_def late leader_start_def)
    next
      case 2
      then show ?thesis
        using assms LeaderKey Heard s u8_of_len [of ks]
        by (auto simp: leader_step_def process_leader_def leader_sequence_active_def late leader_sequence_add_def leader_end_def leader_rel_def)
    next
      case 3
      have "of_nat (length ks) + 1 = (of_nat (length (ks @ [leader_keycode c kc])) :: u8)" by simp
      then show ?thesis
        using 3 assms LeaderKey Heard s u8_of_len [of ks] empty
        by (auto simp: leader_step_def process_leader_def leader_sequence_active_def late leader_sequence_add_def leader_reset_timer_def
          leader_rel_def padded_snoc padded_lists Let_def)
    qed
  qed
qed

fun leader_run :: "leader_cfg \<Rightarrow> leader_event list \<Rightarrow> leader \<Rightarrow> leader" where
  "leader_run c [] s = s"
| "leader_run c (ev # evs) s = leader_run c evs (snd (leader_step c ev s))"

fun heard_run :: "leader_cfg \<Rightarrow> leader_event list \<Rightarrow> heard \<Rightarrow> heard \<times> leader_call list" where
  "heard_run c [] a = (a, [])"
| "heard_run c (ev # evs) a = (case heard_step c ev a of (b, a, calls) \<Rightarrow> case heard_run c evs a of (a, calls') \<Rightarrow> (a, calls @ calls'))"

lemma leader_run_heard:
  assumes "leader_rel s a" and "heard_run c evs a = (a', calls)"
  shows "leader_rel (leader_run c evs s) a' \<and> leader_calls (leader_run c evs s) = leader_calls s @ calls"
  using assms
proof (induction evs arbitrary: s a calls)
  case (Cons ev evs)
  obtain b a1 calls1 where h: "heard_step c ev a = (b, a1, calls1)" by (metis prod.collapse)
  obtain calls2 where r: "heard_run c evs a1 = (a', calls2)" "calls = calls1 @ calls2"
    using Cons.prems(2) h by (auto split: prod.splits)
  obtain s1 where s1: "leader_step c ev s = (b, s1)" "leader_rel s1 a1" "leader_calls s1 = leader_calls s @ calls1"
    using leader_step_heard [OF Cons.prems(1) h] by blast
  show ?case using Cons.IH [OF s1(2) r(1)] s1(1,3) r(2) by simp
qed simp

lemma takeWhile_padding: "0 \<notin> set xs \<Longrightarrow> takeWhile (\<lambda>k. k \<noteq> 0) (xs @ replicate m (0 :: u16)) = xs"
  by (induction xs) (cases m; auto)+

lemma padded_inj: "0 \<notin> set ks \<Longrightarrow> 0 \<notin> set ks' \<Longrightarrow> length ks \<le> 5 \<Longrightarrow> length ks' \<le> 5 \<Longrightarrow> padded ks = padded ks' \<longleftrightarrow> ks = ks'"
proof
  assume "0 \<notin> set ks" "0 \<notin> set ks'" "length ks \<le> 5" "length ks' \<le> 5" and eq: "padded ks = padded ks'"
  have keys: "0 \<notin> set xs \<Longrightarrow> takeWhile (\<lambda>k. k \<noteq> 0) (padded xs) = xs" for xs
    by (simp add: padded_def takeWhile_padding)
  show "ks = ks'" using keys [OF \<open>0 \<notin> set ks\<close>] keys [OF \<open>0 \<notin> set ks'\<close>] eq by metis
qed simp

lemma sequence_is_padded:
  assumes "leader_rel s (Heard ks since)"
  shows "leader_sequence_is k1 k2 k3 k4 k5 s \<longleftrightarrow> padded ks = [k1, k2, k3, k4, k5]"
proof -
  obtain a b c d e where "padded ks = [a, b, c, d, e]"
  proof -
    have "length (padded ks) = 5" using assms by (simp add: leader_rel_def)
    then show ?thesis using that by (auto simp: eval_nat_numeral length_Suc_conv)
  qed
  then show ?thesis using assms by (auto simp: leader_sequence_is_def leader_rel_def)
qed

text \<open>
  Along any run of key events and ticks the leader hears the first five keys pressed in time after
  the leader key, consumes exactly these, calls its hooks as the list of keys says, and its tests for one to
  five keys decide which keys were heard, as long as none of them is the keycode 0.
\<close>

theorem leader_hears_keys:
  assumes "heard_run c evs Quiet = (Heard ks since, calls)" and "0 \<notin> set ks" and "0 \<notin> {k1, k2, k3, k4, k5}"
    and "s = leader_run c evs leader_init"
  shows "leading s \<and> leader_calls s = calls \<and>
    (leader_sequence_one_key k1 s \<longleftrightarrow> ks = [k1]) \<and> (leader_sequence_two_keys k1 k2 s \<longleftrightarrow> ks = [k1, k2]) \<and>
    (leader_sequence_three_keys k1 k2 k3 s \<longleftrightarrow> ks = [k1, k2, k3]) \<and> (leader_sequence_four_keys k1 k2 k3 k4 s \<longleftrightarrow> ks = [k1, k2, k3, k4]) \<and>
    (leader_sequence_five_keys k1 k2 k3 k4 k5 s \<longleftrightarrow> ks = [k1, k2, k3, k4, k5])"
proof -
  have r: "leader_rel s (Heard ks since)" "leader_calls s = calls"
    using leader_run_heard [OF leader_rel_init assms(1)] assms(4) by (simp_all add: leader_init_def)
  have l: "leading s" "length ks \<le> 5" using r(1) by (simp_all add: leader_rel_def)
  note seq = sequence_is_padded [OF r(1)] and inj = padded_inj [OF assms(2) _ l(2)]
  show ?thesis
    using l(1) r(2) assms(3) inj [of "[k1]"] inj [of "[k1, k2]"] inj [of "[k1, k2, k3]"] inj [of "[k1, k2, k3, k4]"] inj [of "[k1, k2, k3, k4, k5]"]
    by (simp add: seq leader_sequence_one_key_def leader_sequence_two_keys_def leader_sequence_three_keys_def leader_sequence_four_keys_def
      leader_sequence_five_keys_def padded_lists)
qed

lemma leader_hears_keys_witness:
  "leader_sequence_two_keys 4 5 (leader_run \<lparr>LEADER_TIMEOUT = 300, LEADER_NO_TIMEOUT = False, LEADER_PER_KEY_TIMING = False,
      LEADER_KEY_STRICT_KEY_PROCESSING = False\<rparr> [LeaderKey QK_LEADER True 100, LeaderKey 4 True 200, LeaderKey 0x2205 True 300] leader_init)"
  using leader_hears_keys [of "\<lparr>LEADER_TIMEOUT = 300, LEADER_NO_TIMEOUT = False, LEADER_PER_KEY_TIMING = False,
      LEADER_KEY_STRICT_KEY_PROCESSING = False\<rparr>" "[LeaderKey QK_LEADER True 100, LeaderKey 4 True 200, LeaderKey 0x2205 True 300]"
      "[4, 5]" 100 "[LeaderStart]" 4 5 6 7 8, OF _ _ _ refl]
  by (simp add: too_late_def leader_keycode_def IS_QK_MOD_TAP_def IS_QK_LAYER_TAP_def QK_MOD_TAP_GET_TAP_KEYCODE_def del: leader_run.simps)

end
