(* ===== verification/Quantum.thy ===== *)
theory Quantum
  imports ActionLayer Keycodes
begin

text \<open>
  Keycodes with modifiers (\<^verbatim>\<open>quantum/quantum.c\<close>): registering, unregistering and tapping 16-bit codes
  on the action layer.
\<close>

definition extract_mod_bits :: "u16 \<Rightarrow> u8" where
  "extract_mod_bits code =
    (if IS_QK_MODS code then
       (if code AND 0x1000 \<noteq> 0 then
          (if code AND 0x0100 \<noteq> 0 then MOD_BIT 0xE4 else 0) OR (if code AND 0x0200 \<noteq> 0 then MOD_BIT 0xE5 else 0) OR
          (if code AND 0x0400 \<noteq> 0 then MOD_BIT 0xE6 else 0) OR (if code AND 0x0800 \<noteq> 0 then MOD_BIT 0xE7 else 0)
        else
          (if code AND 0x0100 \<noteq> 0 then MOD_BIT 0xE0 else 0) OR (if code AND 0x0200 \<noteq> 0 then MOD_BIT 0xE1 else 0) OR
          (if code AND 0x0400 \<noteq> 0 then MOD_BIT 0xE2 else 0) OR (if code AND 0x0800 \<noteq> 0 then MOD_BIT 0xE3 else 0))
     else 0)"

definition do_code16 :: "u16 \<Rightarrow> (u8 \<Rightarrow> 's \<Rightarrow> 's) \<Rightarrow> 's \<Rightarrow> 's" where
  "do_code16 code f = f (extract_mod_bits code)"

text \<open>\<open>register_code\<close> takes the low byte; the comparisons are on the whole code.\<close>

definition strong_code :: "u16 \<Rightarrow> bool" where
  "strong_code code \<longleftrightarrow> 0xE0 \<le> code \<and> code \<le> 0xE7 \<or> code = 0"

definition register_code16 :: "'l action_cfg \<Rightarrow> u16 \<Rightarrow> 'l action_state \<Rightarrow> 'l action_state" where
  "register_code16 cfg code s =
     register_code cfg (ucast code)
      (if strong_code code then do_code16 code (register_mods cfg) s else do_code16 code (register_weak_mods cfg) s)"

definition unregister_code16 :: "'l action_cfg \<Rightarrow> u16 \<Rightarrow> 'l action_state \<Rightarrow> 'l action_state" where
  "unregister_code16 cfg code s =
    (let s = unregister_code cfg (ucast code) s in
     if strong_code code then do_code16 code (unregister_mods cfg) s else do_code16 code (unregister_weak_mods cfg) s)"

definition tap_code16_delay :: "'l action_cfg \<Rightarrow> u16 \<Rightarrow> u16 \<Rightarrow> 'l action_state \<Rightarrow> 'l action_state" where
  "tap_code16_delay cfg code d s = unregister_code16 cfg code (wait_ms d (register_code16 cfg code s))"

definition tap_code16 :: "'l action_cfg \<Rightarrow> u16 \<Rightarrow> 'l action_state \<Rightarrow> 'l action_state" where
  "tap_code16 cfg code = tap_code16_delay cfg code (if code = 0x39 then TAP_HOLD_CAPS_DELAY cfg else TAP_CODE_DELAY cfg)"

end
