(* ===== verification/Unicode.thy ===== *)
theory Unicode
  imports QmkPrelude "HOL-Library.Monad_Syntax"
begin

text \<open>
  Unicode input (\<^verbatim>\<open>quantum/unicode/\<close>): UTF-8 decoding, the input modes, typing of code points, the
  unicode map and UCIS, with their handlers under \<^verbatim>\<open>quantum/process_keycode/\<close>. Characters are unsigned,
  as the builds configure them. A read behind the end of a string or an array is None.
\<close>

section \<open>UTF-8\<close>

text \<open>A string is the memory from its first byte on; the rest is where decoding goes on.\<close>

definition decode_utf8 :: "u8 list \<Rightarrow> (u32 \<times> u8 list) option" where
  "decode_utf8 str =
    (let at = (\<lambda>i. if i < length str then Some (str ! i) else None);
         low = (\<lambda>b. ucast (b AND 0x3F) :: u32) in
     do { b0 \<leftarrow> at 0;
          (cp, n) \<leftarrow>
            (if b0 < 0x80 then Some (ucast b0, 1)
             else if b0 AND 0xE0 = 0xC0 then
               do { b1 \<leftarrow> at 1; Some (push_bit 6 (ucast (b0 AND 0x1F)) OR low b1, 2) }
             else if b0 AND 0xF0 = 0xE0 then
               do { b1 \<leftarrow> at 1; b2 \<leftarrow> at 2;
                    Some (push_bit 12 (ucast (b0 AND 0x0F)) OR push_bit 6 (low b1) OR low b2, 3) }
             else if b0 AND 0xF8 = 0xF0 \<and> b0 \<le> 0xF4 then
               do { b1 \<leftarrow> at 1; b2 \<leftarrow> at 2; b3 \<leftarrow> at 3;
                    Some (push_bit 18 (ucast (b0 AND 0x07)) OR push_bit 12 (low b1) OR push_bit 6 (low b2) OR low b3, 4) }
             else Some (- 1, 1));
          Some (if 0xD800 \<le> cp \<and> cp \<le> 0xDFFF then - 1 else cp, drop n str) })"

section \<open>State and environment\<close>

text \<open>The lock lights are num, caps and scroll lock. An empty list of selected modes is the build without one.\<close>

record unicode =
  input_mode :: u8
  saved_mods :: u8
  saved_leds :: "bool \<times> bool \<times> bool"
  selected_index :: int

record 'w unicode_env =
  UNICODE_KEY_MAC :: u8
  UNICODE_KEY_LNX :: u16
  UNICODE_KEY_WINC :: u8
  selected :: "u8 list"
  UNICODE_CYCLE_PERSIST :: bool
  led_state :: "'w \<Rightarrow> bool \<times> bool \<times> bool"
  current_mods :: "'w \<Rightarrow> u8"
  all_mods :: "'w \<Rightarrow> u8"
  do_set_mods :: "u8 \<Rightarrow> 'w \<Rightarrow> 'w"
  do_clear_mods :: "'w \<Rightarrow> 'w"
  do_clear_weak_mods :: "'w \<Rightarrow> 'w"
  do_register :: "u8 \<Rightarrow> 'w \<Rightarrow> 'w"
  do_unregister :: "u8 \<Rightarrow> 'w \<Rightarrow> 'w"
  do_tap :: "u8 \<Rightarrow> 'w \<Rightarrow> 'w"
  do_tap16 :: "u16 \<Rightarrow> 'w \<Rightarrow> 'w"
  do_send_char :: "u8 \<Rightarrow> 'w \<Rightarrow> 'w"
  do_type_delay :: "'w \<Rightarrow> 'w"
  do_persist :: "u8 \<Rightarrow> 'w \<Rightarrow> 'w"
  do_mode_hook :: "u8 \<Rightarrow> 'w \<Rightarrow> 'w"

definition UNICODE_MODE_MACOS :: u8 where "UNICODE_MODE_MACOS = 0"
definition UNICODE_MODE_LINUX :: u8 where "UNICODE_MODE_LINUX = 1"
definition UNICODE_MODE_WINDOWS :: u8 where "UNICODE_MODE_WINDOWS = 2"
definition UNICODE_MODE_BSD :: u8 where "UNICODE_MODE_BSD = 3"
definition UNICODE_MODE_WINCOMPOSE :: u8 where "UNICODE_MODE_WINCOMPOSE = 4"
definition UNICODE_MODE_EMACS :: u8 where "UNICODE_MODE_EMACS = 5"

lemmas unicode_modes = UNICODE_MODE_MACOS_def UNICODE_MODE_LINUX_def UNICODE_MODE_WINDOWS_def UNICODE_MODE_BSD_def
  UNICODE_MODE_WINCOMPOSE_def UNICODE_MODE_EMACS_def

section \<open>Input modes\<close>

definition first_index :: "u8 list \<Rightarrow> u8 \<Rightarrow> int option" where
  "first_index xs x = (case [i \<leftarrow> [0..<length xs]. xs ! i = x] of [] \<Rightarrow> None | i # _ \<Rightarrow> Some (int i))"

definition unicode_input_mode_init :: "'w unicode_env \<Rightarrow> u8 \<Rightarrow> unicode \<times> 'w \<Rightarrow> unicode \<times> 'w" where
  "unicode_input_mode_init e eeprom uw =
    (let (u, w) = uw; u = u\<lparr>input_mode := eeprom\<rparr>;
         u = (if selected e = [] then u
              else if UNICODE_CYCLE_PERSIST e then
                (case first_index (selected e) (input_mode u) of
                   Some i \<Rightarrow> u\<lparr>selected_index := i\<rparr>
                 | None \<Rightarrow> u\<lparr>selected_index := 0, input_mode := selected e ! 0\<rparr>)
              else u\<lparr>selected_index := 0, input_mode := selected e ! 0\<rparr>)
     in (u, do_mode_hook e (input_mode u) w))"

definition set_unicode_input_mode :: "'w unicode_env \<Rightarrow> u8 \<Rightarrow> unicode \<times> 'w \<Rightarrow> unicode \<times> 'w" where
  "set_unicode_input_mode e mode uw = (let (u, w) = uw in (u\<lparr>input_mode := mode\<rparr>, do_mode_hook e mode (do_persist e mode w)))"

text \<open>The remainder of C, with the sign of the dividend.\<close>

definition c_rem :: "int \<Rightarrow> int \<Rightarrow> int" where
  "c_rem a b = (if a < 0 then - ((- a) mod b) else a mod b)"

definition cycle_unicode_input_mode :: "'w unicode_env \<Rightarrow> int \<Rightarrow> unicode \<times> 'w \<Rightarrow> unicode \<times> 'w" where
  "cycle_unicode_input_mode e offset uw =
    (if selected e = [] then uw
     else (let (u, w) = uw; n = int (length (selected e));
               i = c_rem (selected_index u + offset) n;
               i = (if i < 0 then i + n else i);
               m = selected e ! nat i
           in (u\<lparr>selected_index := i, input_mode := m\<rparr>,
               do_mode_hook e m (if UNICODE_CYCLE_PERSIST e then do_persist e m w else w))))"

definition unicode_input_mode_step :: "'w unicode_env \<Rightarrow> unicode \<times> 'w \<Rightarrow> unicode \<times> 'w" where
  "unicode_input_mode_step e = cycle_unicode_input_mode e 1"

definition unicode_input_mode_step_reverse :: "'w unicode_env \<Rightarrow> unicode \<times> 'w \<Rightarrow> unicode \<times> 'w" where
  "unicode_input_mode_step_reverse e = cycle_unicode_input_mode e (- 1)"

section \<open>Typing code points\<close>

definition num_lock :: "bool \<times> bool \<times> bool \<Rightarrow> bool" where "num_lock l = fst l"
definition caps_lock :: "bool \<times> bool \<times> bool \<Rightarrow> bool" where "caps_lock l = fst (snd l)"

definition unicode_input_start :: "'w unicode_env \<Rightarrow> unicode \<times> 'w \<Rightarrow> unicode \<times> 'w" where
  "unicode_input_start e uw =
    (let (u, w) = uw; u = u\<lparr>saved_leds := led_state e w\<rparr>; m = input_mode u;
         w = (if m = UNICODE_MODE_LINUX \<and> caps_lock (saved_leds u) then do_tap e 0x39 w else w);
         u = u\<lparr>saved_mods := current_mods e w\<rparr>;
         w = do_clear_weak_mods e (do_clear_mods e w);
         w = (if m = UNICODE_MODE_MACOS then do_register e (UNICODE_KEY_MAC e) w
              else if m = UNICODE_MODE_LINUX then do_tap16 e (UNICODE_KEY_LNX e) w
              else if m = UNICODE_MODE_WINDOWS then
                do_tap e 0x57 (do_type_delay e (do_register e 0xE2 (if num_lock (saved_leds u) then w else do_tap e 0x53 w)))
              else if m = UNICODE_MODE_WINCOMPOSE then do_tap e 0x18 (do_tap e (UNICODE_KEY_WINC e) w)
              else if m = UNICODE_MODE_EMACS then do_tap16 e 0x28 (do_tap16 e 0x25 (do_tap16 e 0x011B w))
              else w)
     in (u, do_type_delay e w))"

definition unicode_input_finish :: "'w unicode_env \<Rightarrow> unicode \<times> 'w \<Rightarrow> unicode \<times> 'w" where
  "unicode_input_finish e uw =
    (let (u, w) = uw; m = input_mode u;
         w = (if m = UNICODE_MODE_MACOS then do_unregister e (UNICODE_KEY_MAC e) w
              else if m = UNICODE_MODE_LINUX then
                (let w = do_tap e 0x2C w in if caps_lock (saved_leds u) then do_tap e 0x39 w else w)
              else if m = UNICODE_MODE_WINDOWS then
                (let w = do_unregister e 0xE2 w in if num_lock (saved_leds u) then w else do_tap e 0x53 w)
              else if m = UNICODE_MODE_WINCOMPOSE then do_tap e 0x28 w
              else if m = UNICODE_MODE_EMACS then do_tap16 e 0x28 w
              else w)
     in (u, do_set_mods e (saved_mods u) w))"

definition unicode_input_cancel :: "'w unicode_env \<Rightarrow> unicode \<times> 'w \<Rightarrow> unicode \<times> 'w" where
  "unicode_input_cancel e uw =
    (let (u, w) = uw; m = input_mode u;
         w = (if m = UNICODE_MODE_MACOS then do_unregister e (UNICODE_KEY_MAC e) w
              else if m = UNICODE_MODE_LINUX then
                (let w = do_tap e 0x29 w in if caps_lock (saved_leds u) then do_tap e 0x39 w else w)
              else if m = UNICODE_MODE_WINCOMPOSE then do_tap e 0x29 w
              else if m = UNICODE_MODE_WINDOWS then
                (let w = do_unregister e 0xE2 w in if num_lock (saved_leds u) then w else do_tap e 0x53 w)
              else if m = UNICODE_MODE_EMACS then do_tap16 e 0x010A w
              else w)
     in (u, do_set_mods e (saved_mods u) w))"

definition send_nibble :: "'w unicode_env \<Rightarrow> u8 \<Rightarrow> 'w \<Rightarrow> 'w" where
  "send_nibble e number = do_send_char e (if number AND 0xF < 10 then number + 0x30 else number - 10 + 0x61)"

definition send_nibble_wrapper :: "'w unicode_env \<Rightarrow> u8 \<Rightarrow> u8 \<Rightarrow> 'w \<Rightarrow> 'w" where
  "send_nibble_wrapper e mode digit w =
    (if mode = UNICODE_MODE_WINDOWS
     then do_tap e (if digit < 10 then 0x59 + (10 + digit - 1) mod 10 else 0x04 + (digit - 10)) w
     else send_nibble e digit w)"

text \<open>Digit \<open>i\<close> of a number, from 0.\<close>

definition nibble :: "nat \<Rightarrow> 'a::len word \<Rightarrow> u8" where
  "nibble i hex = ucast (drop_bit (i * 4) hex AND 0xF)"

fun register_hex_loop :: "'w unicode_env \<Rightarrow> u8 \<Rightarrow> u16 \<Rightarrow> nat \<Rightarrow> 'w \<Rightarrow> 'w" where
  "register_hex_loop e mode hex 0 w = w"
| "register_hex_loop e mode hex (Suc i) w = register_hex_loop e mode hex i (send_nibble_wrapper e mode (nibble i hex) w)"

definition register_hex :: "'w unicode_env \<Rightarrow> u8 \<Rightarrow> u16 \<Rightarrow> 'w \<Rightarrow> 'w" where
  "register_hex e mode hex = register_hex_loop e mode hex 4"

fun register_hex32_loop :: "'w unicode_env \<Rightarrow> u8 \<Rightarrow> bool \<Rightarrow> u32 \<Rightarrow> nat \<Rightarrow> bool \<Rightarrow> 'w \<Rightarrow> 'w" where
  "register_hex32_loop e mode needs_leading_zero hex 0 first_digit w = w"
| "register_hex32_loop e mode needs_leading_zero hex (Suc i) first_digit w =
    (let digit = nibble i hex;
         w = (if first_digit \<and> needs_leading_zero \<and> digit > 9 then send_nibble_wrapper e mode 0 w else w)
     in if digit \<noteq> 0 \<or> \<not> first_digit \<or> i < 4
        then register_hex32_loop e mode needs_leading_zero hex i False (send_nibble_wrapper e mode digit w)
        else register_hex32_loop e mode needs_leading_zero hex i first_digit w)"

definition register_hex32 :: "'w unicode_env \<Rightarrow> u8 \<Rightarrow> u32 \<Rightarrow> 'w \<Rightarrow> 'w" where
  "register_hex32 e mode hex = register_hex32_loop e mode (mode = UNICODE_MODE_WINCOMPOSE) hex 8 True"

definition register_unicode :: "'w unicode_env \<Rightarrow> u32 \<Rightarrow> unicode \<times> 'w \<Rightarrow> unicode \<times> 'w" where
  "register_unicode e code_point uw =
    (if code_point > 0x10FFFF \<or> code_point > 0xFFFF \<and> input_mode (fst uw) = UNICODE_MODE_WINDOWS then uw
     else (let (u, w) = unicode_input_start e uw; m = input_mode u;
               w = (if code_point > 0xFFFF \<and> m = UNICODE_MODE_MACOS
                    then (let cp = code_point - 0x10000; lo = cp AND 0x3FF; hi = drop_bit 10 (cp AND 0xFFC00)
                          in register_hex32 e m (lo + 0xDC00) (register_hex32 e m (hi + 0xD800) w))
                    else register_hex32 e m code_point w)
           in unicode_input_finish e (u, w)))"

partial_function (option) send_unicode_string :: "'w unicode_env \<Rightarrow> u8 list \<Rightarrow> unicode \<times> 'w \<Rightarrow> (unicode \<times> 'w) option" where
  "send_unicode_string e str uw =
    (case str of
       [] \<Rightarrow> None
     | b # _ \<Rightarrow>
         if b = 0 then Some uw
         else do { (cp, rest) \<leftarrow> decode_utf8 str;
                   send_unicode_string e rest (if 0 \<le> sint cp then register_unicode e cp uw else uw) })"

declare send_unicode_string.simps [code]

section \<open>The unicode map\<close>

definition unicodemap_index :: "'w unicode_env \<Rightarrow> u16 \<Rightarrow> 'w \<Rightarrow> u8" where
  "unicodemap_index e keycode w =
    (if keycode \<ge> 0xC000
     then (let shift = all_mods e w AND 0x22 \<noteq> 0; caps = caps_lock (led_state e w)
           in ucast (if shift \<noteq> caps then drop_bit 7 keycode AND 0x7F else keycode AND 0x7F))
     else ucast (keycode AND 0x3FFF))"

definition unicodemap_get_code_point :: "u32 list \<Rightarrow> u8 \<Rightarrow> u32 option" where
  "unicodemap_get_code_point unicode_map index = (if unat index < length unicode_map then Some (unicode_map ! unat index) else None)"

definition register_unicodemap :: "'w unicode_env \<Rightarrow> u32 list \<Rightarrow> u8 \<Rightarrow> unicode \<times> 'w \<Rightarrow> (unicode \<times> 'w) option" where
  "register_unicodemap e unicode_map index uw =
     map_option (\<lambda>cp. register_unicode e cp uw) (unicodemap_get_code_point unicode_map index)"

section \<open>UCIS\<close>

record ucis =
  ucis_count :: u8
  ucis_active :: bool
  ucis_input :: "u8 list"

definition ucis_init :: "nat \<Rightarrow> ucis" where
  "ucis_init n = \<lparr>ucis_count = 0, ucis_active = False, ucis_input = replicate n 0\<rparr>"

definition ucis_start :: "'w unicode_env \<Rightarrow> ucis \<times> unicode \<times> 'w \<Rightarrow> ucis \<times> unicode \<times> 'w" where
  "ucis_start e cuw = (let (c, uw) = cuw in (c\<lparr>ucis_count := 0, ucis_active := True\<rparr>, register_unicode e 0x2328 uw))"

definition keycode_to_char :: "u16 \<Rightarrow> u8" where
  "keycode_to_char keycode =
    (if 0x04 \<le> keycode \<and> keycode \<le> 0x1D then 0x61 + ucast (keycode - 0x04)
     else if 0x1E \<le> keycode \<and> keycode \<le> 0x26 then 0x31 + ucast (keycode - 0x1E)
     else if keycode = 0x27 then 0x30 else 0)"

definition ucis_add :: "u16 \<Rightarrow> ucis \<Rightarrow> (bool \<times> ucis) option" where
  "ucis_add keycode c =
    (let ch = keycode_to_char keycode in
     if ch = 0 then Some (False, c)
     else if unat (ucis_count c) < length (ucis_input c)
     then Some (True, c\<lparr>ucis_input := (ucis_input c)[unat (ucis_count c) := ch], ucis_count := ucis_count c + 1\<rparr>)
     else None)"

definition ucis_remove_last :: "ucis \<Rightarrow> bool \<times> ucis" where
  "ucis_remove_last c = (if ucis_count c \<noteq> 0 then (True, c\<lparr>ucis_count := ucis_count c - 1\<rparr>) else (False, c))"

text \<open>The input from index \<open>i\<close> on against the rest of a mnemonic, which ends with a NUL.\<close>

fun match_mnemonic :: "u8 \<Rightarrow> nat \<Rightarrow> u8 list \<Rightarrow> u8 list \<Rightarrow> bool option" where
  "match_mnemonic count i [] mnemonic = None"
| "match_mnemonic count i (c # cs) mnemonic =
    (if c = 0 then Some True
     else if i > unat count then Some False
     else (case mnemonic of [] \<Rightarrow> Some False | m # ms \<Rightarrow> if c \<noteq> m then Some False else match_mnemonic count (Suc i) cs ms))"

fun find_symbol :: "ucis \<Rightarrow> (u8 list \<times> u32 list) list \<Rightarrow> nat \<Rightarrow> nat option option" where
  "find_symbol c [] i = Some None"
| "find_symbol c ((mnemonic, cps) # table) i =
    do { b \<leftarrow> match_mnemonic (ucis_count c) 0 (ucis_input c) mnemonic;
         if b then Some (Some i) else find_symbol c table (Suc i) }"

definition register_ucis :: "'w unicode_env \<Rightarrow> (u8 list \<times> u32 list) list \<Rightarrow> nat \<Rightarrow> unicode \<times> 'w \<Rightarrow> unicode \<times> 'w" where
  "register_ucis e table index = fold (register_unicode e) (takeWhile (\<lambda>cp. cp \<noteq> 0) (snd (table ! index)))"

definition ucis_finish :: "'w unicode_env \<Rightarrow> (u8 list \<times> u32 list) list \<Rightarrow> ucis \<times> unicode \<times> 'w \<Rightarrow> (ucis \<times> unicode \<times> 'w) option" where
  "ucis_finish e table cuw =
    (let (c, u, w) = cuw in
     do { r \<leftarrow> find_symbol c table 0;
          let (u, w) = (case r of None \<Rightarrow> (u, w)
            | Some i \<Rightarrow> register_ucis e table i (u, (do_tap e 0x2A ^^ (unat (ucis_count c) + 1)) w));
          Some (c\<lparr>ucis_active := False\<rparr>, u, w) })"

definition ucis_cancel :: "ucis \<Rightarrow> ucis" where
  "ucis_cancel c = c\<lparr>ucis_count := 0, ucis_active := False\<rparr>"

section \<open>The handlers\<close>

definition process_unicode :: "'w unicode_env \<Rightarrow> u16 \<Rightarrow> bool \<Rightarrow> unicode \<times> 'w \<Rightarrow> bool \<times> unicode \<times> 'w" where
  "process_unicode e keycode press uw =
     (True, if press \<and> keycode \<ge> 0x8000 then register_unicode e (ucast (keycode AND 0x7FFF)) uw else uw)"

definition process_unicodemap :: "'w unicode_env \<Rightarrow> u32 list \<Rightarrow> u16 \<Rightarrow> bool \<Rightarrow> unicode \<times> 'w \<Rightarrow> (bool \<times> unicode \<times> 'w) option" where
  "process_unicodemap e unicode_map keycode press uw =
    (if keycode \<ge> 0x8000 \<and> press
     then map_option (Pair True) (register_unicodemap e unicode_map (unicodemap_index e keycode (snd uw)) uw)
     else Some (True, uw))"

definition process_ucis ::
    "'w unicode_env \<Rightarrow> (u8 list \<times> u32 list) list \<Rightarrow> u16 \<Rightarrow> bool \<Rightarrow> ucis \<times> unicode \<times> 'w \<Rightarrow> (bool \<times> ucis \<times> unicode \<times> 'w) option" where
  "process_ucis e table keycode press cuw =
    (let (c, uw) = cuw in
     if \<not> (ucis_active c \<and> press) then Some (True, cuw)
     else (let special = keycode = 0x2C \<or> keycode = 0x28 \<or> keycode = 0x29 \<or> keycode = 0x2A in
       if unat (ucis_count c) \<ge> length (ucis_input c) \<and> \<not> special then Some (False, cuw)
       else do { (added, c) \<leftarrow> ucis_add keycode c;
                 if added then Some (True, c, uw)
                 else if keycode = 0x2A then (case ucis_remove_last c of (b, c) \<Rightarrow> Some (b, c, uw))
                 else if keycode = 0x29 then Some (False, ucis_cancel c, uw)
                 else if keycode = 0x2C \<or> keycode = 0x28 then map_option (Pair False) (ucis_finish e table (c, uw))
                 else Some (True, c, uw) }))"

definition process_unicode_common :: "'w unicode_env \<Rightarrow> u16 \<Rightarrow> bool \<Rightarrow> unicode \<times> 'w \<Rightarrow> unicode \<times> 'w" where
  "process_unicode_common e keycode press uw =
    (if \<not> press then uw
     else (let shifted = current_mods e (snd uw) AND 0x22 \<noteq> 0 in
       if keycode = 0x7C30 then (if shifted then unicode_input_mode_step_reverse e uw else unicode_input_mode_step e uw)
       else if keycode = 0x7C31 then (if shifted then unicode_input_mode_step e uw else unicode_input_mode_step_reverse e uw)
       else if keycode = 0x7C32 then set_unicode_input_mode e UNICODE_MODE_MACOS uw
       else if keycode = 0x7C33 then set_unicode_input_mode e UNICODE_MODE_LINUX uw
       else if keycode = 0x7C34 then set_unicode_input_mode e UNICODE_MODE_WINDOWS uw
       else if keycode = 0x7C35 then set_unicode_input_mode e UNICODE_MODE_BSD uw
       else if keycode = 0x7C36 then set_unicode_input_mode e UNICODE_MODE_WINCOMPOSE uw
       else if keycode = 0x7C37 then set_unicode_input_mode e UNICODE_MODE_EMACS uw
       else uw))"

end
