(* ===== verification/UnicodeProps.thy ===== *)
theory UnicodeProps
  imports Unicode
begin

text \<open>
  What Unicode input promises: decoding inverts the UTF-8 encoding, so a string types its code points; the
  hexadecimal digits typed for a number denote it; UCIS replaces a typed mnemonic.
\<close>

section \<open>UTF-8\<close>

definition continuation :: "u32 \<Rightarrow> u8" where
  "continuation c = 0x80 OR ucast (c AND 0x3F)"

definition encode_utf8 :: "u32 \<Rightarrow> u8 list" where
  "encode_utf8 c =
    (if c < 0x80 then [ucast c]
     else if c < 0x800 then [0xC0 OR ucast (drop_bit 6 c), continuation c]
     else if c < 0x10000 then [0xE0 OR ucast (drop_bit 12 c), continuation (drop_bit 6 c), continuation c]
     else [0xF0 OR ucast (drop_bit 18 c), continuation (drop_bit 12 c), continuation (drop_bit 6 c), continuation c])"

definition scalar_value :: "u32 \<Rightarrow> bool" where
  "scalar_value c \<longleftrightarrow> c \<le> 0x10FFFF \<and> \<not> (0xD800 \<le> c \<and> c \<le> 0xDFFF)"

lemma no_high_bit: "c < 2 ^ k \<Longrightarrow> bit (c :: u32) n \<Longrightarrow> k < 32 \<Longrightarrow> n < k"
proof (rule ccontr)
  assume c: "c < 2 ^ k" "bit c n" "k < 32" "\<not> n < k"
  have "(2 :: nat) ^ k \<le> 2 ^ n" using c(4) by (intro power_increasing) simp_all
  also have "\<dots> \<le> unat c" using bit_imp_le_unat [OF c(2)] .
  finally show False using c(1,3) by (simp add: word_less_nat_alt unat_two_power)
qed

lemma bit_byte_consts [simp]:
  "bit (0x80 :: u8) n \<longleftrightarrow> n = 7" "bit (0xC0 :: u8) n \<longleftrightarrow> n = 6 \<or> n = 7" "bit (0xE0 :: u8) n \<longleftrightarrow> 5 \<le> n \<and> n \<le> 7"
  "bit (0xF0 :: u8) n \<longleftrightarrow> 4 \<le> n \<and> n \<le> 7" "bit (0xF8 :: u8) n \<longleftrightarrow> 3 \<le> n \<and> n \<le> 7" "bit (7 :: u8) n \<longleftrightarrow> n < 3"
proof -
  have e: "0x80 = (push_bit 7 1 :: u8)" "0xC0 = (push_bit 6 (mask 2) :: u8)" "0xE0 = (push_bit 5 (mask 3) :: u8)"
    "0xF0 = (push_bit 4 (mask 4) :: u8)" "0xF8 = (push_bit 3 (mask 5) :: u8)" "7 = (mask 3 :: u8)"
    by (simp_all add: mask_eq_decr_exp)
  show "bit (0x80 :: u8) n \<longleftrightarrow> n = 7" "bit (0xC0 :: u8) n \<longleftrightarrow> n = 6 \<or> n = 7" "bit (0xE0 :: u8) n \<longleftrightarrow> 5 \<le> n \<and> n \<le> 7"
    "bit (0xF0 :: u8) n \<longleftrightarrow> 4 \<le> n \<and> n \<le> 7" "bit (0xF8 :: u8) n \<longleftrightarrow> 3 \<le> n \<and> n \<le> 7" "bit (7 :: u8) n \<longleftrightarrow> n < 3"
    by (simp_all only: e bit_push_bit_iff bit_mask_iff bit_1_iff) auto
qed

lemmas utf8_bits = bit_and_iff bit_or_iff bit_ucast_iff

lemma continuation_bits: "ucast (continuation c AND 0x3F) = (c AND 0x3F :: u32)"
  by (rule bit_word_eqI) (auto simp: continuation_def utf8_bits simp del: bit_numeral_word_iff)

text \<open>The first byte tells how many follow, and holds the highest bits.\<close>

lemma lead_bytes:
  fixes c :: u32
  assumes "c < 0x800" and "0x80 \<le> c"
  defines "b \<equiv> 0xC0 OR ucast (drop_bit 6 c) :: u8"
  shows "\<not> b < 0x80" and "b AND 0xE0 = 0xC0" and "ucast (b AND 0x1F) = drop_bit 6 c"
proof -
  have h: "n < 5" if "bit (drop_bit 6 c) n" for n
    using no_high_bit [of c 11 "n + 6"] that assms(1) by (simp add: bit_drop_bit_eq add.commute)
  have "bit b 7" by (simp add: b_def bit_or_iff)
  then have "2 ^ 7 \<le> unat b" by (rule bit_imp_le_unat)
  then show "\<not> b < 0x80" by (simp add: word_less_nat_alt)
  show "b AND 0xE0 = 0xC0" by (rule bit_word_eqI) (use h in \<open>fastforce simp: b_def utf8_bits simp del: bit_numeral_word_iff\<close>)
  show "ucast (b AND 0x1F) = drop_bit 6 c" by (rule bit_word_eqI) (use h in \<open>fastforce simp: b_def utf8_bits simp del: bit_numeral_word_iff\<close>)
qed

lemma lead_bytes_3:
  fixes c :: u32
  assumes "c < 0x10000"
  defines "b \<equiv> 0xE0 OR ucast (drop_bit 12 c) :: u8"
  shows "\<not> b < 0x80" and "b AND 0xE0 \<noteq> 0xC0" and "b AND 0xF0 = 0xE0" and "ucast (b AND 0x0F) = drop_bit 12 c"
proof -
  have h: "n < 4" if "bit (drop_bit 12 c) n" for n
    using no_high_bit [of c 16 "n + 12"] that assms(1) by (simp add: bit_drop_bit_eq add.commute)
  have "bit b 7" by (simp add: b_def bit_or_iff)
  then have "2 ^ 7 \<le> unat b" by (rule bit_imp_le_unat)
  then show "\<not> b < 0x80" by (simp add: word_less_nat_alt)
  have "bit (b AND 0xE0) 5" by (simp add: b_def utf8_bits del: bit_numeral_word_iff)
  then show "b AND 0xE0 \<noteq> 0xC0" by (auto simp del: bit_numeral_word_iff)
  show "b AND 0xF0 = 0xE0" by (rule bit_word_eqI) (use h in \<open>fastforce simp: b_def utf8_bits simp del: bit_numeral_word_iff\<close>)
  show "ucast (b AND 0x0F) = drop_bit 12 c" by (rule bit_word_eqI) (use h in \<open>fastforce simp: b_def utf8_bits simp del: bit_numeral_word_iff\<close>)
qed

lemma lead_bytes_4:
  fixes c :: u32
  assumes "c \<le> 0x10FFFF"
  defines "b \<equiv> 0xF0 OR ucast (drop_bit 18 c) :: u8"
  shows "\<not> b < 0x80" and "b AND 0xE0 \<noteq> 0xC0" and "b AND 0xF0 \<noteq> 0xE0" and "b AND 0xF8 = 0xF0" and "b \<le> 0xF4"
    and "ucast (b AND 0x07) = drop_bit 18 c"
proof -
  have "unat (drop_bit 18 c) = unat c div 2 ^ 18" by (simp add: drop_bit_eq_div unat_div)
  then have "unat (drop_bit 18 c) \<le> 4" using assms(1) by (simp add: word_le_nat_alt div_le_mono [of _ "0x10FFFF" "2 ^ 18", simplified])
  then have "drop_bit 18 c \<in> {0, 1, 2, 3, 4}"
    by (simp add: word_unat_eq_iff) linarith
  then show "\<not> b < 0x80" "b AND 0xE0 \<noteq> 0xC0" "b AND 0xF0 \<noteq> 0xE0" "b AND 0xF8 = 0xF0" "b \<le> 0xF4" "ucast (b AND 0x07) = drop_bit 18 c"
    by (auto simp: b_def)
qed

lemma recombine:
  fixes c :: u32
  shows "push_bit 6 (drop_bit 6 c) OR (c AND 0x3F) = c"
    and "push_bit 12 (drop_bit 12 c) OR push_bit 6 (drop_bit 6 c AND 0x3F) OR (c AND 0x3F) = c"
    and "push_bit 18 (drop_bit 18 c) OR push_bit 12 (drop_bit 12 c AND 0x3F) OR push_bit 6 (drop_bit 6 c AND 0x3F) OR (c AND 0x3F) = c"
  subgoal by (rule bit_word_eqI) (auto simp: bit_simps not_less simp del: bit_numeral_word_iff)
  subgoal premises
  proof (rule bit_word_eqI)
    show "bit (push_bit 12 (drop_bit 12 c) OR push_bit 6 (drop_bit 6 c AND 0x3F) OR (c AND 0x3F)) n \<longleftrightarrow> bit c n" if "n < LENGTH(32)" for n
      unfolding bit_or_iff bit_push_bit_iff bit_and_iff bit_drop_bit_eq comp_def bit_low_masks using that by (cases "n < 12") auto
  qed
  subgoal premises
  proof (rule bit_word_eqI)
    show "bit (push_bit 18 (drop_bit 18 c) OR push_bit 12 (drop_bit 12 c AND 0x3F) OR push_bit 6 (drop_bit 6 c AND 0x3F) OR (c AND 0x3F)) n \<longleftrightarrow> bit c n"
      if "n < LENGTH(32)" for n
      unfolding bit_or_iff bit_push_bit_iff bit_and_iff bit_drop_bit_eq comp_def bit_low_masks using that by (cases "n < 12"; cases "n < 18") auto
  qed
  done

definition not_surrogate :: "u32 \<Rightarrow> u32" where
  "not_surrogate cp = (if 0xD800 \<le> cp \<and> cp \<le> 0xDFFF then - 1 else cp)"

lemma decode_lengths:
  "b0 < 0x80 \<Longrightarrow> decode_utf8 (b0 # rest) = Some (not_surrogate (ucast b0), rest)"
  "\<not> b0 < 0x80 \<Longrightarrow> b0 AND 0xE0 = 0xC0 \<Longrightarrow>
     decode_utf8 (b0 # b1 # rest) = Some (not_surrogate (push_bit 6 (ucast (b0 AND 0x1F)) OR ucast (b1 AND 0x3F)), rest)"
  "\<not> b0 < 0x80 \<Longrightarrow> b0 AND 0xE0 \<noteq> 0xC0 \<Longrightarrow> b0 AND 0xF0 = 0xE0 \<Longrightarrow>
     decode_utf8 (b0 # b1 # b2 # rest) =
       Some (not_surrogate (push_bit 12 (ucast (b0 AND 0x0F)) OR push_bit 6 (ucast (b1 AND 0x3F)) OR ucast (b2 AND 0x3F)), rest)"
  "\<not> b0 < 0x80 \<Longrightarrow> b0 AND 0xE0 \<noteq> 0xC0 \<Longrightarrow> b0 AND 0xF0 \<noteq> 0xE0 \<Longrightarrow> b0 AND 0xF8 = 0xF0 \<Longrightarrow> b0 \<le> 0xF4 \<Longrightarrow>
     decode_utf8 (b0 # b1 # b2 # b3 # rest) =
       Some (not_surrogate (push_bit 18 (ucast (b0 AND 0x07)) OR push_bit 12 (ucast (b1 AND 0x3F)) OR push_bit 6 (ucast (b2 AND 0x3F))
         OR ucast (b3 AND 0x3F)), rest)"
  by (simp_all add: decode_utf8_def Let_def not_surrogate_def del: push_bit_and)

lemma decode_encode:
  assumes "scalar_value c"
  shows "decode_utf8 (encode_utf8 c @ rest) = Some (c, rest)"
proof -
  have s: "c \<le> 0x10FFFF" "\<not> (0xD800 \<le> c \<and> c \<le> 0xDFFF)" using assms by (simp_all add: scalar_value_def)
  consider "c < 0x80" | "0x80 \<le> c" "c < 0x800" | "0x800 \<le> c" "c < 0x10000" | "0x10000 \<le> c" by fastforce
  then show ?thesis
  proof cases
    case 1
    have "unat (ucast c :: u8) = unat c" using 1 by (simp add: unsigned_ucast_eq word_less_nat_alt take_bit_nat_eq_self)
    then have "(ucast c :: u8) < 0x80" "ucast (ucast c :: u8) = c"
      using 1 by (simp_all add: word_less_nat_alt word_unat_eq_iff unsigned_ucast_eq unsigned_take_bit_eq take_bit_nat_eq_self)
    then show ?thesis using 1 s(2) by (auto simp: decode_lengths encode_utf8_def not_surrogate_def)
  next
    case 2
    have "encode_utf8 c @ rest = (0xC0 OR ucast (drop_bit 6 c)) # continuation c # rest" using 2 by (simp add: encode_utf8_def word_less_nat_alt word_le_nat_alt)
    then show ?thesis
      using decode_lengths(2) [OF lead_bytes(1,2) [OF 2(2,1)], of "continuation c" rest] lead_bytes(3) [OF 2(2,1)] s(2)
      by (simp only: continuation_bits recombine not_surrogate_def if_False)
  next
    case 3
    have "encode_utf8 c @ rest = (0xE0 OR ucast (drop_bit 12 c)) # continuation (drop_bit 6 c) # continuation c # rest"
      using 3 by (simp add: encode_utf8_def word_less_nat_alt word_le_nat_alt)
    then show ?thesis
      using decode_lengths(3) [OF lead_bytes_3(1,2,3) [OF 3(2)], of "continuation (drop_bit 6 c)" "continuation c" rest] lead_bytes_3(4) [OF 3(2)] s(2)
      by (simp only: continuation_bits recombine not_surrogate_def if_False)
  next
    case 4
    have "encode_utf8 c @ rest = (0xF0 OR ucast (drop_bit 18 c)) # continuation (drop_bit 12 c) # continuation (drop_bit 6 c) # continuation c # rest"
      using 4 by (simp add: encode_utf8_def word_less_nat_alt word_le_nat_alt)
    then show ?thesis
      using decode_lengths(4) [OF lead_bytes_4(1,2,3,4,5) [OF s(1)], of "continuation (drop_bit 12 c)" "continuation (drop_bit 6 c)" "continuation c" rest]
        lead_bytes_4(6) [OF s(1)] s(2)
      by (simp only: continuation_bits recombine not_surrogate_def if_False)
  qed
qed

lemma scalar_nonnegative: "scalar_value c \<Longrightarrow> 0 \<le> sint c"
proof -
  assume "scalar_value c"
  then have "unat c \<le> 0x10FFFF" by (simp add: scalar_value_def word_le_nat_alt)
  then have "\<not> bit c 31" using bit_imp_le_unat [of c 31] by auto
  then show ?thesis by (simp add: sint_uint signed_take_bit_nonnegative_iff bit_uint_iff)
qed

lemma encode_head:
  assumes "scalar_value c" and "c \<noteq> 0"
  obtains b bs where "encode_utf8 c = b # bs" and "b \<noteq> 0"
proof (cases "c < 0x80")
  case True
  then have "unat (ucast c :: u8) = unat c" by (simp add: unsigned_ucast_eq word_less_nat_alt take_bit_nat_eq_self)
  then have "(ucast c :: u8) \<noteq> 0" using assms(2) by (metis unat_eq_zero)
  then show thesis using that True by (simp add: encode_utf8_def)
next
  case False
  obtain b bs where e: "encode_utf8 c = b # bs" "bit b 7"
    using False by (cases "c < 0x800"; cases "c < 0x10000") (auto simp: encode_utf8_def bit_or_iff simp del: bit_numeral_word_iff)
  then have "b \<noteq> 0" by auto
  then show thesis by (rule that [OF e(1)])
qed

text \<open>
  C37: the UTF-8 encoding of a text, ended by a NUL, is typed code point by code point, every one of them
  the one that was encoded, and nothing behind the NUL is read.
\<close>

theorem unicode_string_typed:
  assumes "\<forall>c\<in>set cs. scalar_value c \<and> c \<noteq> 0"
  shows "send_unicode_string e (concat (map encode_utf8 cs) @ 0 # rest) uw = Some (fold (register_unicode e) cs uw)"
  using assms
proof (induction cs arbitrary: uw)
  case Nil
  then show ?case by (subst send_unicode_string.simps) simp
next
  case (Cons c cs)
  then have c: "scalar_value c" "c \<noteq> 0" by simp_all
  obtain b bs where b: "encode_utf8 c = b # bs" "b \<noteq> 0" using encode_head [OF c] .
  have d: "decode_utf8 (b # bs @ concat (map encode_utf8 cs) @ 0 # rest) = Some (c, concat (map encode_utf8 cs) @ 0 # rest)"
    using decode_encode [OF c(1), of "concat (map encode_utf8 cs) @ 0 # rest"] b(1) by simp
  show ?case
    using Cons.IH [of "register_unicode e c uw"] Cons.prems b d scalar_nonnegative [OF c(1)]
    by (subst send_unicode_string.simps) simp
qed

text \<open>A string that ends inside of a sequence hides its NUL: the memory behind it is read.\<close>

lemma truncated_string_overread: "send_unicode_string e [0x61, 0xC3, 0] uw = None"
  by (subst send_unicode_string.simps, simp add: decode_utf8_def, subst send_unicode_string.simps, simp add: decode_utf8_def Let_def,
    subst send_unicode_string.simps, simp)

section \<open>Hexadecimal digits\<close>

fun digits_of :: "bool \<Rightarrow> u32 \<Rightarrow> nat \<Rightarrow> bool \<Rightarrow> u8 list" where
  "digits_of z hex 0 first = []"
| "digits_of z hex (Suc i) first =
    (if nibble i hex \<noteq> 0 \<or> \<not> first \<or> i < 4
     then (if first \<and> z \<and> nibble i hex > 9 then [0] else []) @ nibble i hex # digits_of z hex i False
     else digits_of z hex i first)"

definition number_of_digits :: "u8 list \<Rightarrow> nat" where
  "number_of_digits ds = foldl (\<lambda>n d. n * 16 + unat d) 0 ds"

lemma hex32_loop_digits:
  "register_hex32_loop e mode z hex i first w = fold (send_nibble_wrapper e mode) (digits_of z hex i first) w"
  by (induction i arbitrary: first w) (auto simp: Let_def)

lemma unat_low_nibble: "unat (ucast (x AND 0xF) :: u8) = unat x mod 16" for x :: u32
proof -
  have "x AND 0xF = take_bit 4 x" by (simp add: take_bit_eq_mask mask_eq_exp_minus_1)
  then have "unat (ucast (x AND 0xF) :: u8) = take_bit 8 (take_bit 4 (unat x))" by (simp only: unsigned_ucast_eq unsigned_take_bit_eq) simp
  also have "\<dots> = unat x mod 16" by (simp add: take_bit_nat_def)
  finally show ?thesis .
qed

lemma unat_nibble: "unat (nibble i hex) = unat hex div 16 ^ i mod 16" for hex :: u32
  by (simp only: nibble_def unat_low_nibble unat_drop_bit_eq drop_bit_nat_def power_mult mult.commute [of i 4]) simp

text \<open>Leading zeros of a number above \<open>i\<close> digits do not count.\<close>

lemma digits_value:
  "foldl (\<lambda>n d. n * 16 + unat d) n (digits_of z hex i False) = n * 16 ^ i + unat hex mod 16 ^ i"
  "number_of_digits (digits_of z hex i True) = unat hex mod 16 ^ i"
proof -
  have step: "(unat hex div 16 ^ i mod 16) * 16 ^ i + unat hex mod 16 ^ i = unat hex mod 16 ^ Suc i" for i
    using mod_mult2_eq [of "unat hex" "16 ^ i" 16] by (simp add: mult.commute)
  show a: "foldl (\<lambda>n d. n * 16 + unat d) n (digits_of z hex i False) = n * 16 ^ i + unat hex mod 16 ^ i" for n i
  proof (induction i arbitrary: n)
    case (Suc i)
    have "foldl (\<lambda>n d. n * 16 + unat d) n (digits_of z hex (Suc i) False) = (n * 16 + unat hex div 16 ^ i mod 16) * 16 ^ i + unat hex mod 16 ^ i"
      by (simp add: Suc.IH unat_nibble)
    also have "\<dots> = n * 16 ^ Suc i + ((unat hex div 16 ^ i mod 16) * 16 ^ i + unat hex mod 16 ^ i)" by (simp add: add_mult_distrib)
    finally show ?case by (simp only: step)
  qed simp
  show "number_of_digits (digits_of z hex i True) = unat hex mod 16 ^ i"
  proof (induction i)
    case (Suc i)
    have "nibble i hex = 0 \<Longrightarrow> unat hex div 16 ^ i mod 16 = 0" using unat_nibble [of i hex] by simp
    then show ?case using step [of i] Suc.IH by (auto simp: a number_of_digits_def unat_nibble)
  qed (simp add: number_of_digits_def)
qed

lemma digits_range: "d \<in> set (digits_of z hex i first) \<Longrightarrow> d < 16"
proof (induction i arbitrary: first)
  case (Suc i)
  have "nibble i hex < 16" using unat_nibble [of i hex] by (simp add: word_less_nat_alt)
  then show ?case using Suc by (auto split: if_splits)
qed simp

lemma digits_length: "i \<le> length (digits_of z hex i False)" "min i 4 \<le> length (digits_of z hex i True)"
  by (induction i) auto

lemma digits_first:
  assumes "i \<le> 8" and "4 \<le> i"
  shows "length (digits_of False hex i True) \<le> 4 \<or> hd (digits_of False hex i True) \<noteq> 0"
    and "hd (digits_of True hex i True) \<le> 9"
  using assms(2) by (induction i rule: nat_induct_at_least) (auto simp: numeral_eq_Suc)

text \<open>
  Typing a number sends hexadecimal digits that denote it, at least four, without further
  leading zeros, except that WinCompose is sent a decimal digit first.
\<close>

theorem register_hex32_denotes:
  "\<exists>ds. register_hex32 e mode hex w = fold (send_nibble_wrapper e mode) ds w \<and> number_of_digits ds = unat hex \<and>
     set ds \<subseteq> {..<16} \<and> 4 \<le> length ds \<and>
     (if mode = UNICODE_MODE_WINCOMPOSE then hd ds \<le> 9 else length ds = 4 \<or> 0 < hd ds)"
proof -
  let ?ds = "digits_of (mode = UNICODE_MODE_WINCOMPOSE) hex 8 True"
  have "unat hex < 16 ^ 8" using unsigned_less [of hex] by simp
  then have "number_of_digits ?ds = unat hex" by (simp add: digits_value)
  moreover have "4 \<le> length ?ds" using digits_length(2) [of 8] by simp
  moreover have "if mode = UNICODE_MODE_WINCOMPOSE then hd ?ds \<le> 9 else length ?ds = 4 \<or> 0 < hd ?ds"
    using digits_first [of 8 hex] calculation(2) by (auto simp: word_gt_0)
  ultimately show ?thesis
    using digits_range by (auto simp: register_hex32_def hex32_loop_digits intro!: exI [of _ ?ds])
qed

section \<open>UCIS\<close>

text \<open>The input holds what was typed, and only zeros behind it.\<close>

definition typed :: "ucis \<Rightarrow> u8 list \<Rightarrow> bool" where
  "typed c cs \<longleftrightarrow> ucis_count c = of_nat (length cs) \<and> length cs < length (ucis_input c) \<and> length (ucis_input c) \<le> 255 \<and> 0 \<notin> set cs \<and>
     ucis_input c = cs @ replicate (length (ucis_input c) - length cs) 0"

lemma typed_start: "typed c cs \<Longrightarrow> cs = [] \<Longrightarrow> typed (fst (ucis_start e (c, uw))) []"
  by (simp add: typed_def ucis_start_def)

lemma typed_count: "typed c cs \<Longrightarrow> unat (ucis_count c) = length cs"
  by (simp add: typed_def unat_of_nat take_bit_nat_eq_self)

lemma ucis_add_typed:
  assumes "typed c cs" and "keycode_to_char keycode \<noteq> 0" and "Suc (length cs) < length (ucis_input c)"
  shows "\<exists>c'. ucis_add keycode c = Some (True, c') \<and> typed c' (cs @ [keycode_to_char keycode]) \<and>
    length (ucis_input c') = length (ucis_input c) \<and> ucis_active c' = ucis_active c"
proof -
  let ?n = "length (ucis_input c)"
  have i: "ucis_input c = cs @ replicate (?n - length cs) 0" using assms(1) by (simp add: typed_def)
  have "(ucis_input c)[length cs := k] = cs @ [k] @ replicate (?n - Suc (length cs)) 0" for k
    by (subst i) (use assms(3) in \<open>simp add: list_update_append Suc_diff_Suc flip: replicate_Suc\<close>, cases "?n - length cs"; simp)
  then show ?thesis
    using assms typed_count [OF assms(1)] by (auto simp: ucis_add_def Let_def typed_def)
qed

lemma match_typed:
  assumes "0 \<notin> set cs" and "i + length cs \<le> unat n" and "0 < k"
  shows "match_mnemonic n i (cs @ replicate k 0) mnemonic = Some (take (length cs) mnemonic = cs)"
  using assms(1,2)
proof (induction cs arbitrary: i mnemonic)
  case Nil
  then show ?case using assms(3) by (cases k) simp_all
next
  case (Cons c cs)
  then show ?case by (cases mnemonic) auto
qed

fun first_match :: "u8 list \<Rightarrow> (u8 list \<times> u32 list) list \<Rightarrow> nat \<Rightarrow> nat option" where
  "first_match cs [] i = None"
| "first_match cs ((mnemonic, cps) # table) i = (if take (length cs) mnemonic = cs then Some i else first_match cs table (Suc i))"

lemma find_typed:
  assumes "typed c cs"
  shows "find_symbol c table i = Some (first_match cs table i)"
proof (induction table arbitrary: i)
  case (Cons t table)
  have "match_mnemonic (ucis_count c) 0 (ucis_input c) (fst t) = Some (take (length cs) (fst t) = cs)"
    using match_typed [of cs 0 "ucis_count c" "length (ucis_input c) - length cs" "fst t"] assms typed_count [OF assms]
    by (simp add: typed_def)
  then show ?case using Cons.IH by (cases t) simp
qed simp

fun ucis_type :: "u16 list \<Rightarrow> 'w unicode_env \<Rightarrow> (u8 list \<times> u32 list) list \<Rightarrow> ucis \<times> unicode \<times> 'w \<Rightarrow> (ucis \<times> unicode \<times> 'w) option" where
  "ucis_type [] e table cuw = Some cuw"
| "ucis_type (kc # kcs) e table cuw = do { (b, cuw) \<leftarrow> process_ucis e table kc True cuw; ucis_type kcs e table cuw }"

lemma not_special: "keycode_to_char kc \<noteq> 0 \<Longrightarrow> kc \<notin> {0x28, 0x29, 0x2A, 0x2C}"
  by (auto simp: keycode_to_char_def)

lemma ucis_type_typed:
  assumes "typed c cs" and "ucis_active c" and "\<forall>kc\<in>set kcs. keycode_to_char kc \<noteq> 0" and "length cs + length kcs < length (ucis_input c)"
  shows "\<exists>c'. ucis_type kcs e table (c, uw) = Some (c', uw) \<and> typed c' (cs @ map keycode_to_char kcs) \<and> ucis_active c'"
  using assms
proof (induction kcs arbitrary: c cs)
  case (Cons kc kcs)
  have k: "keycode_to_char kc \<noteq> 0" "Suc (length cs) < length (ucis_input c) \<or> kcs = []" "length cs < length (ucis_input c)"
    using Cons.prems(3,4) by auto
  then have l: "Suc (length cs) < length (ucis_input c)" using Cons.prems(4) by simp
  obtain c' where c': "ucis_add kc c = Some (True, c')" "typed c' (cs @ [keycode_to_char kc])"
    "length (ucis_input c') = length (ucis_input c)" "ucis_active c'"
    using ucis_add_typed [OF Cons.prems(1) k(1) l] Cons.prems(2) by auto
  have "process_ucis e table kc True (c, uw) = Some (True, c', uw)"
    using c'(1) Cons.prems(1,2) k(3) typed_count [OF Cons.prems(1)] by (simp add: process_ucis_def Let_def)
  then show ?case using Cons.IH [OF c'(2,4)] Cons.prems(3,4) c'(3) by auto
qed simp

text \<open>
  From a clean input, typing the letters and digits of a word and then space replaces them, and the
  character typed at the start, by the symbol of the first mnemonic of the table that begins with the word;
  without one nothing is typed; either way the input ends.
\<close>

theorem ucis_replaces_word:
  assumes "typed c []" and "\<forall>kc\<in>set kcs. keycode_to_char kc \<noteq> 0" and "length kcs < length (ucis_input c)"
    and "uw' = snd (ucis_start e (c, uw))"
  shows "\<exists>c'. ucis_type (kcs @ [0x2C]) e table (ucis_start e (c, uw)) =
      Some (c', case first_match (map keycode_to_char kcs) table 0 of None \<Rightarrow> uw'
        | Some i \<Rightarrow> register_ucis e table i (fst uw', (do_tap e 0x2A ^^ (length kcs + 1)) (snd uw'))) \<and> \<not> ucis_active c'"
proof -
  obtain c1 where c1: "ucis_start e (c, uw) = (c1, uw')" using assms(4) by (metis prod.collapse)
  have a: "typed c1 []" "ucis_active c1" "length (ucis_input c1) = length (ucis_input c)"
    using typed_start [OF assms(1) refl, of e uw] c1 by (auto simp: ucis_start_def)
  obtain c2 where c2: "ucis_type kcs e table (c1, uw') = Some (c2, uw')" "typed c2 (map keycode_to_char kcs)" "ucis_active c2"
    using ucis_type_typed [OF a(1,2) assms(2), of e table uw'] assms(3) a(3) by auto
  have app: "ucis_type (kcs @ ks) e table x = Option.bind (ucis_type kcs e table x) (ucis_type ks e table)" for ks and x :: "ucis \<times> unicode \<times> 'a"
    by (induction kcs arbitrary: x) (auto simp: Option.bind_assoc split: prod.splits bind_splits)
  have sp: "ucis_add 0x2C c2 = Some (False, c2)" by (simp add: ucis_add_def keycode_to_char_def)
  show ?thesis
    using c1 c2 sp find_typed [OF c2(2), of table 0] typed_count [OF c2(2)]
    by (cases uw') (auto simp: app process_ucis_def ucis_finish_def Let_def split: option.splits prod.splits)
qed

text \<open>The match only asks for a prefix: with nothing typed the first symbol of the table is inserted.\<close>

lemma ucis_empty_word_matches: "first_match [] ((mnemonic, cps) # table) 0 = Some 0"
  by simp

text \<open>
  The input is never cleared: characters of a longer word, typed before or deleted with backspace, stay
  behind the new word and keep it from matching.
\<close>

lemma ucis_stale_input:
  assumes "ucis_active c" and "ucis_count c = 0" and "ucis_input c = 0x61 # 0x62 # replicate n 0"
  shows "\<exists>c'. ucis_type [0x04, 0x2C] e [([0x61], cps)] (c, uw) = Some (c', uw)"
    and "\<exists>c'. ucis_type [0x04, 0x05, 0x2A, 0x2C] e [([0x61], cps)] (c, uw) = Some (c', uw)"
  using assms by (cases uw; simp add: process_ucis_def ucis_add_def ucis_remove_last_def ucis_finish_def keycode_to_char_def Let_def)+

text \<open>The index of the unicode map is kept in eight bits: the entries from 256 on cannot be reached.\<close>

lemma unicodemap_index_wraps: "unicodemap_index e (0x8000 OR 0x0100) w = 0"
  by (simp add: unicodemap_index_def)

text \<open>A host that records the characters and the tapped keys.\<close>

definition record_env :: "(u8 list) unicode_env" where
  "record_env = \<lparr>UNICODE_KEY_MAC = 0xE2, UNICODE_KEY_LNX = 0x0318, UNICODE_KEY_WINC = 0xE6, selected = [], UNICODE_CYCLE_PERSIST = True,
     led_state = (\<lambda>_. (True, False, False)), current_mods = (\<lambda>_. 0), all_mods = (\<lambda>_. 0), do_set_mods = (\<lambda>_. id), do_clear_mods = id,
     do_clear_weak_mods = id, do_register = (\<lambda>_. id), do_unregister = (\<lambda>_. id), do_tap = (\<lambda>k w. w @ [k]), do_tap16 = (\<lambda>k w. w @ [ucast k]),
     do_send_char = (\<lambda>k w. w @ [k]), do_type_delay = id, do_persist = (\<lambda>_. id), do_mode_hook = (\<lambda>_. id)\<rparr>"

definition linux_mode :: unicode where
  "linux_mode = \<lparr>input_mode = UNICODE_MODE_LINUX, saved_mods = 0, saved_leds = (False, False, False), selected_index = 0\<rparr>"

lemma unicode_string_typed_witness:
  "send_unicode_string record_env [0x41, 0xE2, 0x82, 0xAC, 0xF0, 0x9F, 0x98, 0x80, 0] (linux_mode, []) =
    Some (fold (register_unicode record_env) [0x41, 0x20AC, 0x1F600] (linux_mode, []))"
proof -
  have e: "encode_utf8 0x41 = [0x41]" "encode_utf8 0x20AC = [0xE2, 0x82, 0xAC]" "encode_utf8 0x1F600 = [0xF0, 0x9F, 0x98, 0x80]"
    by (simp_all add: encode_utf8_def continuation_def)
  show ?thesis
    using unicode_string_typed [of "[0x41, 0x20AC, 0x1F600]" record_env "[]" "(linux_mode, [])"] by (simp add: scalar_value_def e del: fold_simps)
qed

lemma demo_digits: "digits_of False 0x2328 8 True = [2, 3, 2, 8]" "digits_of False 0x1F923 8 True = [1, 15, 9, 2, 3]"
  by code_simp+

lemma record_unicode:
  "register_unicode record_env 0x2328 (linux_mode, w) =
    (linux_mode\<lparr>saved_leds := (True, False, False)\<rparr>, w @ [0x18, 0x32, 0x33, 0x32, 0x38, 0x2C])"
  "register_unicode record_env 0x1F923 (linux_mode\<lparr>saved_leds := (True, False, False)\<rparr>, w) =
    (linux_mode\<lparr>saved_leds := (True, False, False)\<rparr>, w @ [0x18, 0x31, 0x66, 0x39, 0x32, 0x33, 0x2C])"
  by (simp_all add: register_unicode_def unicode_input_start_def unicode_input_finish_def register_hex32_def hex32_loop_digits
    demo_digits record_env_def linux_mode_def unicode_modes caps_lock_def send_nibble_wrapper_def send_nibble_def Let_def)

lemma ucis_replaces_word_witness:
  "\<exists>c' u'. ucis_type [0x15, 0x12, 0x2C] record_env [([0x70, 0x6F, 0x6F, 0x70], [0x1F4A9]), ([0x72, 0x6F, 0x66, 0x6C], [0x1F923])]
      (ucis_start record_env (ucis_init 32, linux_mode, [])) =
    Some (c', u', [0x18, 0x32, 0x33, 0x32, 0x38, 0x2C, 0x2A, 0x2A, 0x2A, 0x18, 0x31, 0x66, 0x39, 0x32, 0x33, 0x2C])"
proof -
  have t: "typed (ucis_init 32) []" by (simp add: typed_def ucis_init_def)
  have k: "\<forall>kc\<in>set [0x15, 0x12]. keycode_to_char kc \<noteq> 0" by (simp add: keycode_to_char_def)
  have l: "length [0x15, 0x12 :: u16] < length (ucis_input (ucis_init 32))" by (simp add: ucis_init_def)
  have u: "snd (ucis_start record_env (ucis_init 32, linux_mode, [])) =
      (linux_mode\<lparr>saved_leds := (True, False, False)\<rparr>, [0x18, 0x32, 0x33, 0x32, 0x38, 0x2C])"
    using record_unicode(1) [of "[]"] by (simp add: ucis_start_def)
  have tap: "do_tap record_env 0x2A w = w @ [0x2A]" for w by (simp add: record_env_def)
  show ?thesis
    using ucis_replaces_word [OF t k l refl, where e = record_env and uw = "(linux_mode, [])" and table = "[([0x70, 0x6F, 0x6F, 0x70], [0x1F4A9]), ([0x72, 0x6F, 0x66, 0x6C], [0x1F923])]"]
    by (auto simp: u keycode_to_char_def register_ucis_def record_unicode(2) tap numeral_3_eq_3 simp del: ucis_type.simps)
qed

end
