(* ===== verification/Encoder.thy ===== *)
theory Encoder
  imports QmkPrelude
begin

text \<open>
  Rotary encoders (\<^verbatim>\<open>quantum/encoder.c\<close>, \<^verbatim>\<open>drivers/encoder/encoder_quadrature.c\<close>): the ring of
  queued events, the task that executes them, and the decoding of quadrature signals.
\<close>

section \<open>The queue of events\<close>

record encoder_event =
  enc_index :: u8
  enc_clockwise :: bool

record encoder_events =
  enqueued :: u8
  dequeued :: u8
  head :: u8
  tail :: u8
  queue :: "encoder_event list"

text \<open>
  \<open>MAX_QUEUED_ENCODER_EVENTS\<close> is an \<^verbatim>\<open>int\<close> when the number of encoders is given as a literal, and
  unsigned, of the given width, when it is counted with \<^verbatim>\<open>ARRAY_SIZE\<close>: this decides what
  \<^verbatim>\<open>tail - 1\<close> is modulo it when \<^verbatim>\<open>tail\<close> is 0.
\<close>

record encoder_cfg =
  MAX_QUEUED_ENCODER_EVENTS :: nat
  unsigned_width :: "nat option"

definition encoder_init :: "encoder_cfg \<Rightarrow> encoder_events" where
  "encoder_init c = \<lparr>enqueued = 0, dequeued = 0, head = 0, tail = 0,
     queue = replicate (MAX_QUEUED_ENCODER_EVENTS c) \<lparr>enc_index = 0, enc_clockwise = False\<rparr>\<rparr>"

definition before_tail :: "encoder_cfg \<Rightarrow> u8 \<Rightarrow> int" where
  "before_tail c t =
    (case unsigned_width c of
       Some b \<Rightarrow> (int (unat t) - 1) mod 2 ^ b mod int (MAX_QUEUED_ENCODER_EVENTS c)
     | None \<Rightarrow> if t = 0 then - (1 mod int (MAX_QUEUED_ENCODER_EVENTS c)) else (int (unat t) - 1) mod int (MAX_QUEUED_ENCODER_EVENTS c))"

definition encoder_queue_full :: "encoder_cfg \<Rightarrow> encoder_events \<Rightarrow> bool" where
  "encoder_queue_full c q \<longleftrightarrow> int (unat (head q)) = before_tail c (tail q)"

definition encoder_queue_empty :: "encoder_events \<Rightarrow> bool" where
  "encoder_queue_empty q \<longleftrightarrow> head q = tail q"

definition next_slot :: "encoder_cfg \<Rightarrow> u8 \<Rightarrow> u8" where
  "next_slot c i = of_nat ((unat i + 1) mod MAX_QUEUED_ENCODER_EVENTS c)"

text \<open>The index of an event has seven bits.\<close>

definition encoder_queue_event :: "encoder_cfg \<Rightarrow> u8 \<Rightarrow> bool \<Rightarrow> encoder_events \<Rightarrow> bool \<times> encoder_events" where
  "encoder_queue_event c index clockwise q =
    (if encoder_queue_full c q then (False, q)
     else (True, q\<lparr>queue := (queue q)[unat (head q) := \<lparr>enc_index = index AND 0x7F, enc_clockwise = clockwise\<rparr>],
                   head := next_slot c (head q), enqueued := enqueued q + 1\<rparr>))"

definition encoder_dequeue_event :: "encoder_cfg \<Rightarrow> encoder_events \<Rightarrow> encoder_event option \<times> encoder_events" where
  "encoder_dequeue_event c q =
    (if encoder_queue_empty q then (None, q)
     else (Some (queue q ! unat (tail q)), q\<lparr>tail := next_slot c (tail q), dequeued := dequeued q + 1\<rparr>))"

definition encoder_queue_drain :: "encoder_events \<Rightarrow> encoder_events" where
  "encoder_queue_drain q = q\<lparr>tail := head q, dequeued := enqueued q\<rparr>"

section \<open>The task\<close>

text \<open>
  What an event does: a press and a release of the encoder key with delays (\<^verbatim>\<open>ENCODER_MAP_ENABLE\<close>),
  or the call of \<^verbatim>\<open>encoder_update_kb\<close>. \<open>fuel\<close> bounds the turns of the loop; the size of the queue is
  enough when executing an event queues none.
\<close>

record 'w encoder_env =
  exec_encoder :: "u8 \<Rightarrow> bool \<Rightarrow> bool \<Rightarrow> 'w \<Rightarrow> 'w"
  encoder_delay :: "'w \<Rightarrow> 'w"
  encoder_update_kb :: "(u8 \<Rightarrow> bool \<Rightarrow> 'w \<Rightarrow> 'w) option"
  should_process :: bool
  is_split :: bool

definition run_event :: "'w encoder_env \<Rightarrow> encoder_event \<Rightarrow> 'w \<Rightarrow> 'w" where
  "run_event e ev w =
    (case encoder_update_kb e of
       Some f \<Rightarrow> f (enc_index ev) (enc_clockwise ev) w
     | None \<Rightarrow> encoder_delay e (exec_encoder e (enc_index ev) (enc_clockwise ev) False
         (encoder_delay e (exec_encoder e (enc_index ev) (enc_clockwise ev) True w))))"

fun handle_events :: "encoder_cfg \<Rightarrow> 'w encoder_env \<Rightarrow> nat \<Rightarrow> bool \<Rightarrow> encoder_events \<times> 'w \<Rightarrow> bool \<times> encoder_events \<times> 'w" where
  "handle_events c e 0 changed (q, w) = (changed, q, w)"
| "handle_events c e (Suc fuel) changed (q, w) =
    (case encoder_dequeue_event c q of
       (None, q) \<Rightarrow> (changed, q, w)
     | (Some ev, q) \<Rightarrow> handle_events c e fuel True (q, run_event e ev w))"

definition encoder_handle_queue :: "encoder_cfg \<Rightarrow> 'w encoder_env \<Rightarrow> encoder_events \<times> 'w \<Rightarrow> bool \<times> encoder_events \<times> 'w" where
  "encoder_handle_queue c e = handle_events c e (MAX_QUEUED_ENCODER_EVENTS c) False"

text \<open>\<open>drain\<close> is the flag of \<^verbatim>\<open>encoder_signal_queue_drain\<close>, \<open>driver\<close> the driver's task.\<close>

definition encoder_task ::
    "encoder_cfg \<Rightarrow> 'w encoder_env \<Rightarrow> (encoder_events \<Rightarrow> encoder_events) \<Rightarrow> bool \<times> encoder_events \<times> 'w \<Rightarrow> bool \<times> bool \<times> encoder_events \<times> 'w" where
  "encoder_task c e driver dqw =
    (let (drain, qw) = dqw;
         (changed, q, w) = (if is_split e \<and> should_process e then encoder_handle_queue c e qw else (False, qw));
         q = (if drain then encoder_queue_drain q else q);
         q = driver q;
         (changed', qw) = (if should_process e then encoder_handle_queue c e (q, w) else (False, (q, w)))
     in (changed \<or> changed', False, qw))"

section \<open>Quadrature decoding\<close>

definition encoder_LUT :: "int list" where
  "encoder_LUT = [0, -1, 1, 0, 1, 0, 0, -1, -1, 0, 0, 1, 0, 1, -1, 0]"

text \<open>\<open>this_hand\<close> is the index of the first encoder of this half; \<open>default_pos\<close> is None when the option is not set.\<close>

record quad_cfg =
  resolutions :: "nat \<Rightarrow> nat"
  ENCODER_CLOCKWISE :: bool
  default_pos :: "u8 option"
  this_hand :: nat

record quad_state =
  encoder_state :: u8
  encoder_pulses :: int

definition int8 :: "int \<Rightarrow> int" where
  "int8 x = (x + 128) mod 256 - 128"

definition rem8 :: "int \<Rightarrow> int \<Rightarrow> int" where
  "rem8 a b = (if a < 0 then - ((- a) mod b) else a mod b)"

text \<open>One change of the two pins of encoder \<open>i\<close>: the new count and the calls of \<^verbatim>\<open>encoder_queue_event\<close>.\<close>

definition encoder_handle_state_change :: "quad_cfg \<Rightarrow> nat \<Rightarrow> u8 \<Rightarrow> int \<Rightarrow> int \<times> (nat \<times> bool) list" where
  "encoder_handle_state_change c i st pulses =
    (let index = i + this_hand c; res = int (resolutions c index);
         p = int8 (pulses + encoder_LUT ! unat (st AND 0xF)) in
     case default_pos c of
       None \<Rightarrow>
         (rem8 p res, (if p \<ge> res then [(index, \<not> ENCODER_CLOCKWISE c)] else []) @ (if p \<le> - res then [(index, ENCODER_CLOCKWISE c)] else []))
     | Some pos \<Rightarrow>
         if p \<ge> res \<or> p \<le> - res \<or> st AND 3 = pos
         then (0, (if p \<ge> 1 then [(index, \<not> ENCODER_CLOCKWISE c)] else []) @ (if p \<le> - 1 then [(index, ENCODER_CLOCKWISE c)] else []))
         else (p, []))"

definition encoder_quadrature_handle_read :: "quad_cfg \<Rightarrow> nat \<Rightarrow> u8 \<Rightarrow> u8 \<Rightarrow> quad_state \<Rightarrow> quad_state \<times> (nat \<times> bool) list" where
  "encoder_quadrature_handle_read c i pin_a pin_b s =
    (let st = pin_a OR push_bit 1 pin_b in
     if encoder_state s AND 3 \<noteq> st then
       (let st' = push_bit 2 (encoder_state s) OR st;
            (p, calls) = encoder_handle_state_change c i st' (encoder_pulses s)
        in (\<lparr>encoder_state = st', encoder_pulses = p\<rparr>, calls))
     else (s, []))"

text \<open>The driver's task reads every encoder of this half and queues what they report.\<close>

fun encoder_driver_task ::
    "encoder_cfg \<Rightarrow> quad_cfg \<Rightarrow> (nat \<Rightarrow> u8 \<times> u8) \<Rightarrow> nat \<Rightarrow> quad_state list \<Rightarrow> encoder_events \<Rightarrow> quad_state list \<times> encoder_events" where
  "encoder_driver_task ec c pins i [] q = ([], q)"
| "encoder_driver_task ec c pins i (s # ss) q =
    (let (s, calls) = encoder_quadrature_handle_read c i (fst (pins i)) (snd (pins i)) s;
         q = fold (\<lambda>(index, cw) q. snd (encoder_queue_event ec (of_nat index) cw q)) calls q;
         (ss, q) = encoder_driver_task ec c pins (Suc i) ss q
     in (s # ss, q))"

section \<open>The queue as a list\<close>

definition queue_ok :: "encoder_cfg \<Rightarrow> encoder_events \<Rightarrow> bool" where
  "queue_ok c q \<longleftrightarrow> 1 < MAX_QUEUED_ENCODER_EVENTS c \<and> MAX_QUEUED_ENCODER_EVENTS c \<le> 256 \<and> length (queue q) = MAX_QUEUED_ENCODER_EVENTS c \<and>
     unat (head q) < MAX_QUEUED_ENCODER_EVENTS c \<and> unat (tail q) < MAX_QUEUED_ENCODER_EVENTS c"

definition queue_length :: "encoder_cfg \<Rightarrow> encoder_events \<Rightarrow> nat" where
  "queue_length c q = (unat (head q) + MAX_QUEUED_ENCODER_EVENTS c - unat (tail q)) mod MAX_QUEUED_ENCODER_EVENTS c"

definition queued :: "encoder_cfg \<Rightarrow> encoder_events \<Rightarrow> encoder_event list" where
  "queued c q = map (\<lambda>k. queue q ! ((unat (tail q) + k) mod MAX_QUEUED_ENCODER_EVENTS c)) [0..<queue_length c q]"

lemma unat_next_slot: "queue_ok c q \<Longrightarrow> unat (next_slot c i) = (unat i + 1) mod MAX_QUEUED_ENCODER_EVENTS c"
proof -
  assume "queue_ok c q"
  then have "(unat i + 1) mod MAX_QUEUED_ENCODER_EVENTS c < 256"
    by (auto simp: queue_ok_def intro!: less_le_trans [OF mod_less_divisor])
  then show ?thesis by (simp add: next_slot_def unat_of_nat take_bit_nat_eq_self)
qed


lemma mod_below_twice: "x < 2 * n \<Longrightarrow> x mod n = (if x < n then x else x - (n::nat))"
  by (auto simp: mod_if [of x n] not_less)

lemma queue_length_cases:
  assumes "queue_ok c q"
  shows "queue_length c q = (if unat (tail q) \<le> unat (head q) then unat (head q) - unat (tail q)
      else unat (head q) + MAX_QUEUED_ENCODER_EVENTS c - unat (tail q))"
  using assms by (auto simp: queue_ok_def queue_length_def mod_below_twice)

lemma queue_length_lt: "queue_ok c q \<Longrightarrow> queue_length c q < MAX_QUEUED_ENCODER_EVENTS c"
  by (auto simp: queue_ok_def queue_length_cases)

text \<open>When the size of the ring divides the range of the index arithmetic, one slot stays free.\<close>

definition size_divides :: "encoder_cfg \<Rightarrow> bool" where
  "size_divides c \<longleftrightarrow> (case unsigned_width c of Some b \<Rightarrow> 2 ^ b mod MAX_QUEUED_ENCODER_EVENTS c = 0 | None \<Rightarrow> False)"

lemma minus_one_mod:
  assumes "k < n" "0 < n"
  shows "(int k - 1) mod int n = (if k = 0 then int n - 1 else int k - 1)"
  using assms by (cases k) (simp_all add: zmod_minus1)

lemma ring_count_up:
  assumes "h < n" "t < n" "(if t \<le> h then h - t else h + n - t) \<noteq> n - 1"
  shows "(if t \<le> (h + 1) mod n then (h + 1) mod n - t else (h + 1) mod n + n - t) =
    Suc (if t \<le> h then h - t else h + n - t)"
proof (cases "h + 1 < n")
  case True
  then show ?thesis using assms by auto
next
  case False
  then have "h + 1 = n" using assms(1) by simp
  then show ?thesis using assms by (auto split: if_splits)
qed

lemma ring_count_down:
  assumes "h < n" "t < n" "(if t \<le> h then h - t else h + n - t) = Suc m"
  shows "(if (t + 1) mod n \<le> h then h - (t + 1) mod n else h + n - (t + 1) mod n) = m"
proof (cases "t + 1 < n")
  case True
  then show ?thesis using assms by (auto split: if_splits)
next
  case False
  then have "t + 1 = n" using assms(2) by simp
  then show ?thesis using assms by (auto split: if_splits)
qed

lemma ring_full:
  assumes "h < n" "t < n" "1 < n"
  shows "int h = (if t = 0 then int n - 1 else int t - 1) \<longleftrightarrow> (if t \<le> h then h - t else h + n - t) = n - 1"
  using assms by (auto split: if_splits)

lemma full_when_one_free:
  assumes "queue_ok c q" "size_divides c"
  shows "encoder_queue_full c q \<longleftrightarrow> queue_length c q = MAX_QUEUED_ENCODER_EVENTS c - 1"
proof -
  let ?n = "MAX_QUEUED_ENCODER_EVENTS c"
  obtain b where b: "unsigned_width c = Some b" "?n dvd 2 ^ b"
    using assms(2) by (auto simp: size_divides_def split: option.splits)
  have "int ?n dvd int (2 ^ b)" using b(2) by (simp only: int_dvd_int_iff)
  then have "before_tail c (tail q) = (int (unat (tail q)) - 1) mod int ?n"
    using b(1) by (simp add: before_tail_def mod_mod_cancel)
  also have "\<dots> = (if unat (tail q) = 0 then int ?n - 1 else int (unat (tail q)) - 1)"
    using assms(1) by (intro minus_one_mod) (auto simp: queue_ok_def)
  finally have before: "before_tail c (tail q) = \<dots>" .
  show ?thesis
    unfolding encoder_queue_full_def before queue_length_cases [OF assms(1)]
    using assms(1) by (intro ring_full) (simp_all add: queue_ok_def)
qed

lemma queue_event_appends:
  assumes "queue_ok c q" "\<not> encoder_queue_full c q" "queue_length c q \<noteq> MAX_QUEUED_ENCODER_EVENTS c - 1"
  shows "queue_ok c (snd (encoder_queue_event c i cw q))"
    "queued c (snd (encoder_queue_event c i cw q)) = queued c q @ [\<lparr>enc_index = i AND 0x7F, enc_clockwise = cw\<rparr>]"
proof -
  let ?n = "MAX_QUEUED_ENCODER_EVENTS c" and ?q = "snd (encoder_queue_event c i cw q)"
  note ok = assms(1) [unfolded queue_ok_def]
  have q: "head ?q = next_slot c (head q)" "tail ?q = tail q" "length (queue ?q) = length (queue q)"
    "queue ?q = (queue q)[unat (head q) := \<lparr>enc_index = i AND 0x7F, enc_clockwise = cw\<rparr>]"
    using assms(2) by (simp_all add: encoder_queue_event_def)
  have n: "unat (next_slot c (head q)) = (unat (head q) + 1) mod ?n" by (rule unat_next_slot [OF assms(1)])
  show ok': "queue_ok c ?q" using ok by (simp add: queue_ok_def q(1-3) n)
  have len: "queue_length c ?q = Suc (queue_length c q)"
    unfolding queue_length_cases [OF ok'] queue_length_cases [OF assms(1)] q(1,2) n
    using ok assms(3) by (intro ring_count_up) (simp_all add: queue_length_cases [OF assms(1)])
  have slot: "(unat (tail q) + queue_length c q) mod ?n = unat (head q)"
    using ok by (simp add: queue_length_cases [OF assms(1)])
  have other: "(unat (tail q) + k) mod ?n \<noteq> unat (head q)" if "k < queue_length c q" for k
    using ok that by (auto simp: queue_length_cases [OF assms(1)] mod_below_twice split: if_splits)
  have "queued c ?q = map (\<lambda>k. queue ?q ! ((unat (tail q) + k) mod ?n)) [0..<queue_length c q] @
      [queue ?q ! ((unat (tail q) + queue_length c q) mod ?n)]"
    by (simp add: queued_def len q(2))
  also have "map (\<lambda>k. queue ?q ! ((unat (tail q) + k) mod ?n)) [0..<queue_length c q] = queued c q"
    unfolding queued_def q(4) by (rule map_cong [OF refl]) (simp add: nth_list_update_neq [OF other [symmetric]])
  finally show "queued c ?q = queued c q @ [\<lparr>enc_index = i AND 0x7F, enc_clockwise = cw\<rparr>]"
    using ok by (simp add: slot q(4))
qed

lemma dequeue_takes_first:
  assumes "queue_ok c q"
  shows "queue_ok c (snd (encoder_dequeue_event c q))"
    "fst (encoder_dequeue_event c q) = (case queued c q of [] \<Rightarrow> None | ev # _ \<Rightarrow> Some ev)"
    "queued c (snd (encoder_dequeue_event c q)) = tl (queued c q)"
proof -
  let ?n = "MAX_QUEUED_ENCODER_EVENTS c" and ?q = "snd (encoder_dequeue_event c q)"
  note ok = assms(1) [unfolded queue_ok_def]
  have n: "unat (next_slot c (tail q)) = (unat (tail q) + 1) mod ?n" by (rule unat_next_slot [OF assms(1)])
  show ok': "queue_ok c ?q" using ok by (auto simp: queue_ok_def encoder_dequeue_event_def n)
  have empty: "encoder_queue_empty q \<longleftrightarrow> queue_length c q = 0"
    using ok by (auto simp: encoder_queue_empty_def queue_length_cases [OF assms(1)] word_unat_eq_iff)
  show "fst (encoder_dequeue_event c q) = (case queued c q of [] \<Rightarrow> None | ev # _ \<Rightarrow> Some ev)"
    "queued c ?q = tl (queued c q)"
  proof (atomize (full), cases "encoder_queue_empty q")
    case True
    then have "queued c q = []" using empty by (simp add: queued_def)
    then show "fst (encoder_dequeue_event c q) = (case queued c q of [] \<Rightarrow> None | ev # _ \<Rightarrow> Some ev) \<and>
        queued c ?q = tl (queued c q)"
      using True by (simp add: encoder_dequeue_event_def)
  next
    case False
    then obtain m where m: "queue_length c q = Suc m" using empty by (cases "queue_length c q") auto
    have q: "?q = q\<lparr>tail := next_slot c (tail q), dequeued := dequeued q + 1\<rparr>"
      using False by (simp add: encoder_dequeue_event_def)
    have t: "tail ?q = next_slot c (tail q)" "head ?q = head q" by (simp_all add: q)
    have len: "queue_length c ?q = m"
      unfolding queue_length_cases [OF ok'] t n
      using ok m by (intro ring_count_down) (simp_all add: queue_length_cases [OF assms(1)])
    have "queued c q = queue q ! (unat (tail q) mod ?n) # map (\<lambda>k. queue q ! ((unat (tail q) + Suc k) mod ?n)) [0..<m]"
      by (simp add: queued_def m upt_conv_Cons map_Suc_upt [symmetric] del: upt_Suc)
    moreover have "queued c ?q = map (\<lambda>k. queue q ! ((unat (tail q) + Suc k) mod ?n)) [0..<m]"
      unfolding queued_def len using q n by (simp add: mod_simps)
    ultimately show "fst (encoder_dequeue_event c q) = (case queued c q of [] \<Rightarrow> None | ev # _ \<Rightarrow> Some ev) \<and>
        queued c ?q = tl (queued c q)"
      using ok False by (simp add: encoder_dequeue_event_def)
  qed
qed

lemma length_queued [simp]: "length (queued c q) = queue_length c q"
  by (simp add: queued_def)

lemma dequeue_cases:
  assumes "queue_ok c q"
  obtains "queued c q = []" "encoder_dequeue_event c q = (None, q)"
  | ev q' where "queued c q = ev # queued c q'" "encoder_dequeue_event c q = (Some ev, q')" "queue_ok c q'"
proof (cases "queued c q")
  case Nil
  then show thesis
    using dequeue_takes_first [OF assms] that(1) by (simp add: encoder_dequeue_event_def split: if_splits)
next
  case (Cons ev evs)
  then show thesis
    using dequeue_takes_first [OF assms] that(2) by (cases "encoder_dequeue_event c q") auto
qed

lemma handle_events_queued:
  assumes "queue_ok c q" "queue_length c q \<le> fuel"
  shows "\<exists>q'. handle_events c e fuel changed (q, w) = (changed \<or> queued c q \<noteq> [], q', fold (run_event e) (queued c q) w) \<and>
    queue_ok c q' \<and> queued c q' = []"
  using assms
proof (induction fuel arbitrary: q w changed)
  case 0
  then have "queued c q = []" by (simp flip: length_0_conv)
  then show ?case using 0 by simp
next
  case (Suc fuel)
  show ?case
  proof (cases rule: dequeue_cases [OF Suc.prems(1)])
    case 1
    then show ?thesis using Suc.prems(1) by simp
  next
    case (2 ev q')
    have "length (queued c q) = Suc (length (queued c q'))" using 2(1) by simp
    then have "queue_length c q' \<le> fuel" using Suc.prems(2) by simp
    then show ?thesis using Suc.IH [OF 2(3), of True "run_event e ev w"] 2 by simp
  qed
qed

section \<open>Properties\<close>

text \<open>
  When the size of the ring divides the range of its index arithmetic, the queue of encoder
  events is first in, first out: an event is appended while a slot beside the reserved one is free and
  refused, with nothing changed, otherwise; the first event is the one taken out; and handling the
  queue executes each waiting event once, in order, and leaves it empty.
\<close>

theorem encoder_queue_fifo:
  assumes "queue_ok c q" "size_divides c"
  shows "(if length (queued c q) < MAX_QUEUED_ENCODER_EVENTS c - 1
      then fst (encoder_queue_event c i cw q) \<and> queue_ok c (snd (encoder_queue_event c i cw q)) \<and>
        queued c (snd (encoder_queue_event c i cw q)) = queued c q @ [\<lparr>enc_index = i AND 0x7F, enc_clockwise = cw\<rparr>]
      else encoder_queue_event c i cw q = (False, q)) \<and>
    queued c q = (case encoder_dequeue_event c q of (None, q') \<Rightarrow> [] | (Some ev, q') \<Rightarrow> ev # queued c q') \<and>
    (\<exists>q'. encoder_handle_queue c e (q, w) = (queued c q \<noteq> [], q', fold (run_event e) (queued c q) w) \<and>
      queue_ok c q' \<and> queued c q' = [])"
    (is "?append \<and> ?take \<and> ?handle")
proof (intro conjI)
  have lt: "queue_length c q < MAX_QUEUED_ENCODER_EVENTS c" by (rule queue_length_lt [OF assms(1)])
  show ?append
    using lt queue_event_appends [OF assms(1), of i cw] full_when_one_free [OF assms]
    by (auto simp: encoder_queue_event_def)
  show ?take
    by (cases rule: dequeue_cases [OF assms(1)]) simp_all
  show ?handle
    using handle_events_queued [OF assms(1), of "MAX_QUEUED_ENCODER_EVENTS c" e False w] lt
    by (simp add: encoder_handle_queue_def)
qed

definition four_slots :: encoder_cfg where
  "four_slots = \<lparr>MAX_QUEUED_ENCODER_EVENTS = 4, unsigned_width = Some 32\<rparr>"

theorem encoder_queue_fifo_witness:
  "encoder_queue_event four_slots 130 True (encoder_init four_slots) =
    (True, \<lparr>enqueued = 1, dequeued = 0, head = 1, tail = 0,
      queue = \<lparr>enc_index = 2, enc_clockwise = True\<rparr> # replicate 3 \<lparr>enc_index = 0, enc_clockwise = False\<rparr>\<rparr>) \<and>
   queued four_slots (snd (encoder_queue_event four_slots 130 True (encoder_init four_slots))) = [\<lparr>enc_index = 2, enc_clockwise = True\<rparr>]"
proof -
  have ok: "queue_ok four_slots (encoder_init four_slots)" "size_divides four_slots"
    by (simp_all add: queue_ok_def size_divides_def four_slots_def encoder_init_def)
  have "queued four_slots (encoder_init four_slots) = []"
    by (simp add: queued_def queue_length_def four_slots_def encoder_init_def)
  moreover have "encoder_queue_event four_slots 130 True (encoder_init four_slots) =
      (True, \<lparr>enqueued = 1, dequeued = 0, head = 1, tail = 0,
        queue = \<lparr>enc_index = 2, enc_clockwise = True\<rparr> # replicate 3 \<lparr>enc_index = 0, enc_clockwise = False\<rparr>\<rparr>)"
    by code_simp
  moreover have "MAX_QUEUED_ENCODER_EVENTS four_slots = 4" by (simp add: four_slots_def)
  ultimately show ?thesis
    using conjunct1 [OF encoder_queue_fifo [OF ok, of 130 True undefined undefined]] by simp
qed

text \<open>With five slots counted by \<^verbatim>\<open>ARRAY_SIZE\<close>, the empty queue counts as full and no event is ever queued.\<close>

lemma five_slots_queue_nothing:
  "encoder_queue_event \<lparr>MAX_QUEUED_ENCODER_EVENTS = 5, unsigned_width = Some 32\<rparr> i cw
      (encoder_init \<lparr>MAX_QUEUED_ENCODER_EVENTS = 5, unsigned_width = Some 32\<rparr>) =
    (False, encoder_init \<lparr>MAX_QUEUED_ENCODER_EVENTS = 5, unsigned_width = Some 32\<rparr>)"
  "encoder_queue_event \<lparr>MAX_QUEUED_ENCODER_EVENTS = 5, unsigned_width = Some 16\<rparr> i cw
      (encoder_init \<lparr>MAX_QUEUED_ENCODER_EVENTS = 5, unsigned_width = Some 16\<rparr>) =
    (False, encoder_init \<lparr>MAX_QUEUED_ENCODER_EVENTS = 5, unsigned_width = Some 16\<rparr>)"
  by (simp_all add: encoder_queue_event_def encoder_queue_full_def before_tail_def encoder_init_def)

text \<open>With a signed size, the queue whose last free slot is the last of the ring takes one event too many and is empty then.\<close>

lemma signed_size_overruns:
  assumes "queue_ok c q" "unsigned_width c = None" "tail q = 0" "queue_length c q = MAX_QUEUED_ENCODER_EVENTS c - 1"
  shows "fst (encoder_queue_event c i cw q)" "queued c (snd (encoder_queue_event c i cw q)) = []"
proof -
  have head: "unat (head q) = MAX_QUEUED_ENCODER_EVENTS c - 1"
    using assms by (simp add: queue_length_cases)
  have "\<not> encoder_queue_full c q"
    using assms(1-3) head by (auto simp: encoder_queue_full_def before_tail_def queue_ok_def)
  then show "fst (encoder_queue_event c i cw q)" "queued c (snd (encoder_queue_event c i cw q)) = []"
    using assms(1,3) head unat_next_slot [OF assms(1), of "head q"]
    by (auto simp: encoder_queue_event_def queued_def queue_length_def queue_ok_def)
qed

end
