(* ===== verification/EncoderProps.thy ===== *)
theory EncoderProps
  imports Encoder
begin

text \<open>
  What the quadrature decoder of \<^theory_text>\<open>Encoder\<close> counts: the events it reports, times the resolution,
  and the pulses it still holds add up to the movement of the knob.
\<close>

unbundle bit_operations_syntax

section \<open>Positions and pins\<close>

text \<open>A knob at position \<open>p\<close> shows one of four pin combinations; two bits of the state remember the last.\<close>

definition pin_a_at :: "int \<Rightarrow> u8" where
  "pin_a_at p = (if p mod 4 = 2 \<or> p mod 4 = 3 then 1 else 0)"

definition pin_b_at :: "int \<Rightarrow> u8" where
  "pin_b_at p = (if p mod 4 = 1 \<or> p mod 4 = 2 then 1 else 0)"

definition code_at :: "int \<Rightarrow> u8" where
  "code_at p = pin_a_at p OR push_bit 1 (pin_b_at p)"

fun encoder_reads :: "quad_cfg \<Rightarrow> nat \<Rightarrow> int list \<Rightarrow> quad_state \<Rightarrow> quad_state \<times> (nat \<times> bool) list" where
  "encoder_reads c i [] s = (s, [])"
| "encoder_reads c i (p # ps) s =
    (let (s, calls) = encoder_quadrature_handle_read c i (pin_a_at p) (pin_b_at p) s;
         (s, calls') = encoder_reads c i ps s
     in (s, calls @ calls'))"

lemma four_cases: "(p::int) mod 4 = 0 \<or> p mod 4 = 1 \<or> p mod 4 = 2 \<or> p mod 4 = 3"
  by presburger

lemma code_cases:
  "p mod 4 = 0 \<Longrightarrow> code_at p = 0" "p mod 4 = 1 \<Longrightarrow> code_at p = 2"
  "p mod 4 = 2 \<Longrightarrow> code_at p = 3" "p mod 4 = 3 \<Longrightarrow> code_at p = 1"
  by (simp_all add: code_at_def pin_a_at_def pin_b_at_def)

lemma code_small: "code_at p AND 3 = code_at p"
  using four_cases [of p] by (elim disjE) (simp_all add: code_cases)

lemma low_bits: "x AND 3 = take_bit 2 (x :: u8)" "x AND 15 = take_bit 4 (x :: u8)"
  by (simp_all add: take_bit_eq_mask mask_eq_decr_exp)

lemma low_four_bits: "(push_bit 2 x OR (y AND 3)) AND 15 = push_bit 2 (x AND 3) OR (y AND (3 :: u8))"
  unfolding low_bits by (rule bit_word_eqI) (auto simp: bit_simps)

lemma step_mod4:
  assumes "\<bar>p' - p\<bar> \<le> (1::int)"
  obtains "p' = p" | "p' = p + 1" "p' mod 4 = (p mod 4 + 1) mod 4" | "p' = p - 1" "p' mod 4 = (p mod 4 + 3) mod 4"
proof -
  consider "p' = p" | "p' = p + 1" | "p' = p - 1" using assms by linarith
  then show thesis
  proof cases
    case 2
    then show thesis by (intro that(2)) presburger+
  next
    case 3
    then show thesis by (intro that(3)) presburger+
  qed (rule that(1))
qed

text \<open>The table of the decoder is the direction of the step.\<close>

lemma LUT_step:
  assumes "\<bar>p' - p\<bar> \<le> 1"
  shows "encoder_LUT ! unat (push_bit 2 (code_at p) OR code_at p') = p' - p \<and> (code_at p = code_at p' \<longleftrightarrow> p' = p)"
proof (cases rule: step_mod4 [OF assms])
  case 1
  show ?thesis using four_cases [of p] by (elim disjE) (simp_all add: 1 code_cases encoder_LUT_def)
next
  case 2
  have d: "p' - p = 1" "p' \<noteq> p" using 2(1) by simp_all
  show ?thesis unfolding d(1) using four_cases [of p] d(2) by (elim disjE) (simp_all add: 2(2) code_cases encoder_LUT_def)
next
  case 3
  have d: "p' - p = -1" "p' \<noteq> p" using 3(1) by simp_all
  show ?thesis unfolding d(1) using four_cases [of p] d(2) by (elim disjE) (simp_all add: 3(2) code_cases encoder_LUT_def)
qed

lemma rem8_in_range: "0 < r \<Longrightarrow> \<bar>p\<bar> \<le> r \<Longrightarrow> rem8 p r = (if \<bar>p\<bar> = r then 0 else p)"
  by (auto simp: rem8_def zmod_trivial_iff)

lemma int8_in_range: "\<bar>p\<bar> \<le> 127 \<Longrightarrow> int8 p = p"
  by (auto simp: int8_def)

text \<open>One read: the decoder remembers the new pins, and its count and its reports make up for the step.\<close>

definition reported :: "quad_cfg \<Rightarrow> (nat \<times> bool) list \<Rightarrow> int" where
  "reported c calls = int (length (filter (\<lambda>(_, cw). cw = (\<not> ENCODER_CLOCKWISE c)) calls)) -
     int (length (filter (\<lambda>(_, cw). cw = ENCODER_CLOCKWISE c) calls))"

lemma reported_append [simp]: "reported c (xs @ ys) = reported c xs + reported c ys" "reported c [] = 0"
  by (simp_all add: reported_def)

lemma handle_read_at:
  "encoder_quadrature_handle_read c i (pin_a_at p) (pin_b_at p) s =
    (if encoder_state s AND 3 \<noteq> code_at p
     then let (q, calls) = encoder_handle_state_change c i (push_bit 2 (encoder_state s) OR code_at p) (encoder_pulses s)
          in (\<lparr>encoder_state = push_bit 2 (encoder_state s) OR code_at p, encoder_pulses = q\<rparr>, calls)
     else (s, []))"
  by (simp only: encoder_quadrature_handle_read_def code_at_def Let_def)

lemma read_step:
  assumes "default_pos c = None" "resolutions c (i + this_hand c) \<in> {1..127}" "encoder_state s AND 3 = code_at p"
    and "\<bar>encoder_pulses s\<bar> < int (resolutions c (i + this_hand c))" "\<bar>p' - p\<bar> \<le> 1"
    and "encoder_quadrature_handle_read c i (pin_a_at p') (pin_b_at p') s = (s', calls)"
  shows "encoder_state s' AND 3 = code_at p'"
    "int (resolutions c (i + this_hand c)) * reported c calls + encoder_pulses s' = encoder_pulses s + (p' - p)"
    "\<bar>encoder_pulses s'\<bar> < int (resolutions c (i + this_hand c))"
    "set calls \<subseteq> {i + this_hand c} \<times> UNIV"
proof -
  let ?r = "int (resolutions c (i + this_hand c))" and ?st = "push_bit 2 (encoder_state s) OR code_at p'"
  have st: "?st AND 0xF = push_bit 2 (code_at p) OR code_at p'"
    using low_four_bits [of "encoder_state s" "code_at p'"] by (simp add: code_small assms(3))
  have low: "?st AND 3 = code_at p'"
    using code_small [of p'] unfolding low_bits by (auto intro!: bit_word_eqI simp: bit_simps bit_eq_iff)
  have r: "?r \<in> {1..127}" using assms(2) by simp
  have b: "\<bar>encoder_pulses s + (p' - p)\<bar> \<le> ?r" using assms(4,5) by linarith
  then have i8: "int8 (encoder_pulses s + (p' - p)) = encoder_pulses s + (p' - p)"
    using r by (intro int8_in_range) simp
  have "encoder_state s' AND 3 = code_at p' \<and>
    ?r * reported c calls + encoder_pulses s' = encoder_pulses s + (p' - p) \<and>
    \<bar>encoder_pulses s'\<bar> < ?r \<and> set calls \<subseteq> {i + this_hand c} \<times> UNIV"
  proof (cases "p' = p")
    case True
    then have "s' = s" "calls = []"
      using assms(3,6) by (simp_all add: handle_read_at)
    then show ?thesis using True assms(3,4) by simp
  next
    case False
    then have "code_at p \<noteq> code_at p'" using LUT_step [OF assms(5)] by simp
    then have "encoder_quadrature_handle_read c i (pin_a_at p') (pin_b_at p') s =
        (let (q, calls) = encoder_handle_state_change c i ?st (encoder_pulses s) in (\<lparr>encoder_state = ?st, encoder_pulses = q\<rparr>, calls))"
      using assms(3) by (simp add: handle_read_at)
    then have "s' = \<lparr>encoder_state = ?st, encoder_pulses = rem8 (encoder_pulses s + (p' - p)) ?r\<rparr>"
      "calls = (if encoder_pulses s + (p' - p) \<ge> ?r then [(i + this_hand c, \<not> ENCODER_CLOCKWISE c)] else []) @
        (if encoder_pulses s + (p' - p) \<le> - ?r then [(i + this_hand c, ENCODER_CLOCKWISE c)] else [])"
      using assms(1,6) LUT_step [OF assms(5)] i8
      by (auto simp: encoder_handle_state_change_def st Let_def)
    then show ?thesis
      using r b low by (auto simp: rem8_in_range reported_def)
  qed
  then show "encoder_state s' AND 3 = code_at p'"
    "?r * reported c calls + encoder_pulses s' = encoder_pulses s + (p' - p)"
    "\<bar>encoder_pulses s'\<bar> < ?r" "set calls \<subseteq> {i + this_hand c} \<times> UNIV"
    by simp_all
qed

section \<open>Properties\<close>

text \<open>
  C36: in a build without \<^verbatim>\<open>ENCODER_DEFAULT_POS\<close>, for a resolution of 1 to 127 and a knob read often enough to move by at most
  one position between two reads: the detents the decoder reports, times the resolution of the encoder, and the pulses it still
  counts are exactly the distance moved, and every report names the encoder read.
\<close>

theorem encoder_counts_detents:
  assumes "default_pos c = None" "resolutions c (i + this_hand c) \<in> {1..127}" "encoder_state s AND 3 = code_at p"
    and "\<bar>encoder_pulses s\<bar> < int (resolutions c (i + this_hand c))" "successively (\<lambda>p p'. \<bar>p' - p\<bar> \<le> 1) (p # ps)"
    and "encoder_reads c i ps s = (s', calls)"
  shows "int (resolutions c (i + this_hand c)) * reported c calls + encoder_pulses s' = encoder_pulses s + (last (p # ps) - p) \<and>
    \<bar>encoder_pulses s'\<bar> < int (resolutions c (i + this_hand c)) \<and> set calls \<subseteq> {i + this_hand c} \<times> UNIV"
  using assms(3-6)
proof (induction ps arbitrary: p s calls)
  case Nil
  then show ?case by simp
next
  case (Cons p1 ps)
  obtain s1 calls1 where read: "encoder_quadrature_handle_read c i (pin_a_at p1) (pin_b_at p1) s = (s1, calls1)"
    by fastforce
  obtain calls2 where rest: "encoder_reads c i ps s1 = (s', calls2)" "calls = calls1 @ calls2"
    using Cons.prems(4) read by (auto split: prod.splits)
  have step: "\<bar>p1 - p\<bar> \<le> 1" and steps: "successively (\<lambda>p p'. \<bar>p' - p\<bar> \<le> 1) (p1 # ps)"
    using Cons.prems(3) by simp_all
  note one = read_step [OF assms(1,2) Cons.prems(1,2) step read]
  show ?case
    using Cons.IH [OF one(1,3) steps rest(1)] one(2,4) rest(2) by (auto simp: algebra_simps)
qed

theorem encoder_counts_detents_witness:
  "encoder_reads \<lparr>resolutions = \<lambda>_. 4, ENCODER_CLOCKWISE = True, default_pos = None, this_hand = 0\<rparr> 0 [1, 2, 3, 4, 5]
      \<lparr>encoder_state = 0, encoder_pulses = 0\<rparr> = (\<lparr>encoder_state = 0xD2, encoder_pulses = 1\<rparr>, [(0, False)]) \<and>
   4 * (1 :: int) + 1 = 0 + (5 - 0)"
proof -
  let ?c = "\<lparr>resolutions = \<lambda>_. 4, ENCODER_CLOCKWISE = True, default_pos = None, this_hand = 0\<rparr>"
  have run: "encoder_reads ?c 0 [1, 2, 3, 4, 5] \<lparr>encoder_state = 0, encoder_pulses = 0\<rparr> =
      (\<lparr>encoder_state = 0xD2, encoder_pulses = 1\<rparr>, [(0, False)])"
    by code_simp
  have "int (resolutions ?c (0 + this_hand ?c)) * reported ?c [(0, False)] + 1 = 0 + (last [0, 1, 2, 3, 4, 5] - 0) \<and>
      \<bar>1 :: int\<bar> < int (resolutions ?c (0 + this_hand ?c)) \<and> set [(0, False)] \<subseteq> {0 + this_hand ?c} \<times> UNIV"
    using encoder_counts_detents [OF _ _ _ _ _ run, of 0] by (simp add: code_cases)
  then show ?thesis using run by (simp add: reported_def)
qed

end
