(* ===== verification/EeConfig.thy ===== *)
theory EeConfig
  imports DynamicKeymapProps
begin

text \<open>
  The settings in the EEPROM (\<^verbatim>\<open>quantum/eeconfig.c\<close>) over the EEPROM interface: each has an address of its
  own, so they form a record, which \<^verbatim>\<open>eeconfig_init\<close> sets to its defaults.
\<close>

section \<open>Options\<close>

text \<open>
  \<open>driver_erase\<close> is the erase function of a driver, \<open>via_valid\<close>, \<open>via_set_valid\<close> and \<open>init_via\<close> those of VIA, if
  they are in the build; \<open>init_kb\<close>, \<open>init_user\<close>, \<open>init_kb_datablock\<close> and \<open>init_user_datablock\<close> the overrides of a keyboard.
\<close>

record 'e ee_via =
  via_valid :: "'e \<Rightarrow> bool option"
  via_set_valid :: "bool \<Rightarrow> 'e \<Rightarrow> 'e option"
  init_via :: "'e \<Rightarrow> 'e option"

record 'e ee_cfg =
  EECONFIG_MAGIC_NUMBER :: u16
  EECONFIG_KB_DATA_SIZE :: nat
  EECONFIG_KB_DATA_VERSION :: u32
  EECONFIG_USER_DATA_SIZE :: nat
  EECONFIG_USER_DATA_VERSION :: u32
  driver_erase :: "('e \<Rightarrow> 'e option) option"
  haptic_reset :: "('e \<Rightarrow> 'e option) option"
  via :: "'e ee_via option"
  init_kb :: "('e \<Rightarrow> 'e option) option"
  init_user :: "('e \<Rightarrow> 'e option) option"
  init_kb_datablock :: "('e \<Rightarrow> 'e option) option"
  init_user_datablock :: "('e \<Rightarrow> 'e option) option"

definition EECONFIG_MAGIC_NUMBER_OFF :: u16 where "EECONFIG_MAGIC_NUMBER_OFF = 0xFFFF"

definition EECONFIG_MAGIC :: nat where "EECONFIG_MAGIC = 0"
definition EECONFIG_DEBUG :: nat where "EECONFIG_DEBUG = 2"
definition EECONFIG_DEFAULT_LAYER :: nat where "EECONFIG_DEFAULT_LAYER = 3"
definition EECONFIG_KEYMAP :: nat where "EECONFIG_KEYMAP = 4"
definition EECONFIG_BACKLIGHT :: nat where "EECONFIG_BACKLIGHT = 6"
definition EECONFIG_AUDIO :: nat where "EECONFIG_AUDIO = 7"
definition EECONFIG_RGBLIGHT :: nat where "EECONFIG_RGBLIGHT = 8"
definition EECONFIG_UNICODEMODE :: nat where "EECONFIG_UNICODEMODE = 12"
definition EECONFIG_STENOMODE :: nat where "EECONFIG_STENOMODE = 13"
definition EECONFIG_HANDEDNESS :: nat where "EECONFIG_HANDEDNESS = 14"
definition EECONFIG_KEYBOARD :: nat where "EECONFIG_KEYBOARD = 15"
definition EECONFIG_USER :: nat where "EECONFIG_USER = 19"
definition EECONFIG_UNUSED :: nat where "EECONFIG_UNUSED = 23"
definition EECONFIG_RGB_MATRIX :: nat where "EECONFIG_RGB_MATRIX = 24"
definition EECONFIG_HAPTIC :: nat where "EECONFIG_HAPTIC = 32"
definition EECONFIG_RGBLIGHT_EXTENDED :: nat where "EECONFIG_RGBLIGHT_EXTENDED = 36"
definition EECONFIG_BASE_SIZE :: nat where "EECONFIG_BASE_SIZE = 37"

definition EECONFIG_KB_DATABLOCK :: nat where "EECONFIG_KB_DATABLOCK = EECONFIG_BASE_SIZE"
definition EECONFIG_USER_DATABLOCK :: "'e ee_cfg \<Rightarrow> nat" where
  "EECONFIG_USER_DATABLOCK c = EECONFIG_BASE_SIZE + EECONFIG_KB_DATA_SIZE c"
definition EECONFIG_SIZE :: "'e ee_cfg \<Rightarrow> nat" where
  "EECONFIG_SIZE c = EECONFIG_BASE_SIZE + EECONFIG_KB_DATA_SIZE c + EECONFIG_USER_DATA_SIZE c"

lemmas eeconfig_addresses = EECONFIG_MAGIC_def EECONFIG_DEBUG_def EECONFIG_DEFAULT_LAYER_def EECONFIG_KEYMAP_def
  EECONFIG_BACKLIGHT_def EECONFIG_AUDIO_def EECONFIG_RGBLIGHT_def EECONFIG_UNICODEMODE_def EECONFIG_STENOMODE_def
  EECONFIG_HANDEDNESS_def EECONFIG_KEYBOARD_def EECONFIG_USER_def EECONFIG_UNUSED_def EECONFIG_RGB_MATRIX_def
  EECONFIG_HAPTIC_def EECONFIG_RGBLIGHT_EXTENDED_def EECONFIG_BASE_SIZE_def EECONFIG_KB_DATABLOCK_def
  EECONFIG_USER_DATABLOCK_def EECONFIG_SIZE_def

section \<open>The settings\<close>

definition eeconfig_read_debug :: "'e eeprom_ops \<Rightarrow> 'e \<Rightarrow> u8 option" where
  "eeconfig_read_debug ops = eeprom_read_byte ops EECONFIG_DEBUG"
definition eeconfig_update_debug :: "'e eeprom_ops \<Rightarrow> u8 \<Rightarrow> 'e \<Rightarrow> 'e option" where
  "eeconfig_update_debug ops = eeprom_update_byte ops EECONFIG_DEBUG"
definition eeconfig_read_default_layer :: "'e eeprom_ops \<Rightarrow> 'e \<Rightarrow> u8 option" where
  "eeconfig_read_default_layer ops = eeprom_read_byte ops EECONFIG_DEFAULT_LAYER"
definition eeconfig_update_default_layer :: "'e eeprom_ops \<Rightarrow> u8 \<Rightarrow> 'e \<Rightarrow> 'e option" where
  "eeconfig_update_default_layer ops = eeprom_update_byte ops EECONFIG_DEFAULT_LAYER"
definition eeconfig_read_keymap :: "'e eeprom_ops \<Rightarrow> 'e \<Rightarrow> u16 option" where
  "eeconfig_read_keymap ops = eeprom_read_word ops EECONFIG_KEYMAP"
definition eeconfig_update_keymap :: "'e eeprom_ops \<Rightarrow> u16 \<Rightarrow> 'e \<Rightarrow> 'e option" where
  "eeconfig_update_keymap ops = eeprom_update_word ops EECONFIG_KEYMAP"
definition eeconfig_read_audio :: "'e eeprom_ops \<Rightarrow> 'e \<Rightarrow> u8 option" where
  "eeconfig_read_audio ops = eeprom_read_byte ops EECONFIG_AUDIO"
definition eeconfig_update_audio :: "'e eeprom_ops \<Rightarrow> u8 \<Rightarrow> 'e \<Rightarrow> 'e option" where
  "eeconfig_update_audio ops = eeprom_update_byte ops EECONFIG_AUDIO"
definition eeconfig_read_kb :: "'e eeprom_ops \<Rightarrow> 'e \<Rightarrow> u32 option" where
  "eeconfig_read_kb ops = eeprom_read_dword ops EECONFIG_KEYBOARD"
definition eeconfig_update_kb :: "'e eeprom_ops \<Rightarrow> u32 \<Rightarrow> 'e \<Rightarrow> 'e option" where
  "eeconfig_update_kb ops = eeprom_update_dword ops EECONFIG_KEYBOARD"
definition eeconfig_read_user :: "'e eeprom_ops \<Rightarrow> 'e \<Rightarrow> u32 option" where
  "eeconfig_read_user ops = eeprom_read_dword ops EECONFIG_USER"
definition eeconfig_update_user :: "'e eeprom_ops \<Rightarrow> u32 \<Rightarrow> 'e \<Rightarrow> 'e option" where
  "eeconfig_update_user ops = eeprom_update_dword ops EECONFIG_USER"
definition eeconfig_read_haptic :: "'e eeprom_ops \<Rightarrow> 'e \<Rightarrow> u32 option" where
  "eeconfig_read_haptic ops = eeprom_read_dword ops EECONFIG_HAPTIC"
definition eeconfig_update_haptic :: "'e eeprom_ops \<Rightarrow> u32 \<Rightarrow> 'e \<Rightarrow> 'e option" where
  "eeconfig_update_haptic ops = eeprom_update_dword ops EECONFIG_HAPTIC"
definition eeconfig_read_handedness :: "'e eeprom_ops \<Rightarrow> 'e \<Rightarrow> bool option" where
  "eeconfig_read_handedness ops e = map_option (\<lambda>b. b \<noteq> 0) (eeprom_read_byte ops EECONFIG_HANDEDNESS e)"
definition eeconfig_update_handedness :: "'e eeprom_ops \<Rightarrow> bool \<Rightarrow> 'e \<Rightarrow> 'e option" where
  "eeconfig_update_handedness ops v = eeprom_update_byte ops EECONFIG_HANDEDNESS (if v then 1 else 0)"

section \<open>Data blocks\<close>

text \<open>The version of a data block is stored in the place of the setting; \<open>buf\<close> is the buffer of the caller.\<close>

definition eeconfig_is_kb_datablock_valid :: "'e ee_cfg \<Rightarrow> 'e eeprom_ops \<Rightarrow> 'e \<Rightarrow> bool option" where
  "eeconfig_is_kb_datablock_valid c ops e =
     map_option (\<lambda>v. v = EECONFIG_KB_DATA_VERSION c) (eeprom_read_dword ops EECONFIG_KEYBOARD e)"
definition eeconfig_read_kb_datablock :: "'e ee_cfg \<Rightarrow> 'e eeprom_ops \<Rightarrow> u8 list \<Rightarrow> 'e \<Rightarrow> u8 list option" where
  "eeconfig_read_kb_datablock c ops buf e =
    do { v \<leftarrow> eeconfig_is_kb_datablock_valid c ops e;
         if v then read_block ops EECONFIG_KB_DATABLOCK (EECONFIG_KB_DATA_SIZE c) buf e
         else Some (replicate (EECONFIG_KB_DATA_SIZE c) 0) }"
definition eeconfig_update_kb_datablock :: "'e ee_cfg \<Rightarrow> 'e eeprom_ops \<Rightarrow> u8 list \<Rightarrow> u8 list \<Rightarrow> 'e \<Rightarrow> 'e option" where
  "eeconfig_update_kb_datablock c ops junk data e =
    do { e \<leftarrow> eeprom_update_dword ops EECONFIG_KEYBOARD (EECONFIG_KB_DATA_VERSION c) e;
         eeprom_update_block ops junk data EECONFIG_KB_DATABLOCK e }"

definition eeconfig_is_user_datablock_valid :: "'e ee_cfg \<Rightarrow> 'e eeprom_ops \<Rightarrow> 'e \<Rightarrow> bool option" where
  "eeconfig_is_user_datablock_valid c ops e =
     map_option (\<lambda>v. v = EECONFIG_USER_DATA_VERSION c) (eeprom_read_dword ops EECONFIG_USER e)"
definition eeconfig_read_user_datablock :: "'e ee_cfg \<Rightarrow> 'e eeprom_ops \<Rightarrow> u8 list \<Rightarrow> 'e \<Rightarrow> u8 list option" where
  "eeconfig_read_user_datablock c ops buf e =
    do { v \<leftarrow> eeconfig_is_user_datablock_valid c ops e;
         if v then read_block ops (EECONFIG_USER_DATABLOCK c) (EECONFIG_USER_DATA_SIZE c) buf e
         else Some (replicate (EECONFIG_USER_DATA_SIZE c) 0) }"
definition eeconfig_update_user_datablock :: "'e ee_cfg \<Rightarrow> 'e eeprom_ops \<Rightarrow> u8 list \<Rightarrow> u8 list \<Rightarrow> 'e \<Rightarrow> 'e option" where
  "eeconfig_update_user_datablock c ops junk data e =
    do { e \<leftarrow> eeprom_update_dword ops EECONFIG_USER (EECONFIG_USER_DATA_VERSION c) e;
         eeprom_update_block ops junk data (EECONFIG_USER_DATABLOCK c) e }"

section \<open>Initialisation\<close>

definition optionally :: "('e \<Rightarrow> 'e option) option \<Rightarrow> 'e \<Rightarrow> 'e option" where
  "optionally f e = (case f of None \<Rightarrow> Some e | Some f \<Rightarrow> f e)"

definition eeconfig_init_user :: "'e ee_cfg \<Rightarrow> 'e eeprom_ops \<Rightarrow> 'e \<Rightarrow> 'e option" where
  "eeconfig_init_user c ops e =
    (case init_user c of Some f \<Rightarrow> f e
     | None \<Rightarrow> if EECONFIG_USER_DATA_SIZE c = 0 then eeconfig_update_user ops 0 e else Some e)"

definition eeconfig_init_kb :: "'e ee_cfg \<Rightarrow> 'e eeprom_ops \<Rightarrow> 'e \<Rightarrow> 'e option" where
  "eeconfig_init_kb c ops e =
    (case init_kb c of Some f \<Rightarrow> f e
     | None \<Rightarrow> do { e \<leftarrow> (if EECONFIG_KB_DATA_SIZE c = 0 then eeconfig_update_kb ops 0 e else Some e);
                    eeconfig_init_user c ops e })"

definition eeconfig_init_kb_datablock :: "'e ee_cfg \<Rightarrow> 'e eeprom_ops \<Rightarrow> 'e \<Rightarrow> 'e option" where
  "eeconfig_init_kb_datablock c ops e =
    (case init_kb_datablock c of Some f \<Rightarrow> f e
     | None \<Rightarrow> (let n = EECONFIG_KB_DATA_SIZE c in eeconfig_update_kb_datablock c ops (replicate n 0) (replicate n 0) e))"

definition eeconfig_init_user_datablock :: "'e ee_cfg \<Rightarrow> 'e eeprom_ops \<Rightarrow> 'e \<Rightarrow> 'e option" where
  "eeconfig_init_user_datablock c ops e =
    (case init_user_datablock c of Some f \<Rightarrow> f e
     | None \<Rightarrow> (let n = EECONFIG_USER_DATA_SIZE c in eeconfig_update_user_datablock c ops (replicate n 0) (replicate n 0) e))"

text \<open>The settings \<^verbatim>\<open>eeconfig_init_quantum\<close> writes itself; it also sets \<^verbatim>\<open>default_layer_state\<close> to 1.\<close>

definition write_defaults :: "'e eeprom_ops \<Rightarrow> 'e \<Rightarrow> 'e option" where
  "write_defaults ops e =
    do { e \<leftarrow> eeprom_update_byte ops EECONFIG_DEBUG 0 e;
         e \<leftarrow> eeprom_update_byte ops EECONFIG_DEFAULT_LAYER 1 e;
         e \<leftarrow> eeprom_update_word ops EECONFIG_KEYMAP 0x1400 e;
         e \<leftarrow> eeprom_update_byte ops EECONFIG_BACKLIGHT 0 e;
         e \<leftarrow> eeprom_update_byte ops EECONFIG_AUDIO 0 e;
         e \<leftarrow> eeprom_update_dword ops EECONFIG_RGBLIGHT 0 e;
         e \<leftarrow> eeprom_update_byte ops EECONFIG_RGBLIGHT_EXTENDED 0 e;
         e \<leftarrow> eeprom_update_byte ops EECONFIG_UNUSED 0 e;
         e \<leftarrow> eeprom_update_byte ops EECONFIG_UNICODEMODE 0 e;
         e \<leftarrow> eeprom_update_byte ops EECONFIG_STENOMODE 0 e;
         e \<leftarrow> eeprom_update_block ops (replicate 8 0) (replicate 8 0) EECONFIG_RGB_MATRIX e;
         eeprom_update_dword ops EECONFIG_HAPTIC 0 e }"

definition eeconfig_init_quantum :: "'e ee_cfg \<Rightarrow> 'e eeprom_ops \<Rightarrow> 'e \<Rightarrow> 'e option" where
  "eeconfig_init_quantum c ops e =
    do { e \<leftarrow> optionally (driver_erase c) e;
         e \<leftarrow> eeprom_update_word ops EECONFIG_MAGIC (EECONFIG_MAGIC_NUMBER c) e;
         e \<leftarrow> write_defaults ops e;
         e \<leftarrow> optionally (haptic_reset c) e;
         e \<leftarrow> (if EECONFIG_KB_DATA_SIZE c > 0 then eeconfig_init_kb_datablock c ops e else Some e);
         e \<leftarrow> (if EECONFIG_USER_DATA_SIZE c > 0 then eeconfig_init_user_datablock c ops e else Some e);
         e \<leftarrow> (case via c of None \<Rightarrow> Some e | Some v \<Rightarrow> via_set_valid v False e \<bind> init_via v);
         eeconfig_init_kb c ops e }"

definition eeconfig_init :: "'e ee_cfg \<Rightarrow> 'e eeprom_ops \<Rightarrow> 'e \<Rightarrow> 'e option" where
  "eeconfig_init c ops = eeconfig_init_quantum c ops"

definition eeconfig_enable :: "'e ee_cfg \<Rightarrow> 'e eeprom_ops \<Rightarrow> 'e \<Rightarrow> 'e option" where
  "eeconfig_enable c ops = eeprom_update_word ops EECONFIG_MAGIC (EECONFIG_MAGIC_NUMBER c)"

definition eeconfig_disable :: "'e ee_cfg \<Rightarrow> 'e eeprom_ops \<Rightarrow> 'e \<Rightarrow> 'e option" where
  "eeconfig_disable c ops e =
    do { e \<leftarrow> optionally (driver_erase c) e; eeprom_update_word ops EECONFIG_MAGIC EECONFIG_MAGIC_NUMBER_OFF e }"

definition eeconfig_is_enabled :: "'e ee_cfg \<Rightarrow> 'e eeprom_ops \<Rightarrow> 'e \<Rightarrow> bool option" where
  "eeconfig_is_enabled c ops e =
    do { m \<leftarrow> eeprom_read_word ops EECONFIG_MAGIC e;
         if m = EECONFIG_MAGIC_NUMBER c then (case via c of Some v \<Rightarrow> via_valid v e | None \<Rightarrow> Some True) else Some False }"

definition eeconfig_is_disabled :: "'e ee_cfg \<Rightarrow> 'e eeprom_ops \<Rightarrow> 'e \<Rightarrow> bool option" where
  "eeconfig_is_disabled c ops e =
    do { m \<leftarrow> eeprom_read_word ops EECONFIG_MAGIC e;
         if m = EECONFIG_MAGIC_NUMBER_OFF then Some True
         else (case via c of Some v \<Rightarrow> map_option Not (via_valid v e) | None \<Rightarrow> Some False) }"

end
