(* ===== verification/EeConfigProps.thy ===== *)
theory EeConfigProps
  imports EeConfig
begin

text \<open>
  The settings are a record: an update changes one of them and no other byte, and initialisation gives
  all of them their defaults.
\<close>

section \<open>Words in an EEPROM\<close>

lemma nth_le_bytes: "k < n \<Longrightarrow> le_bytes n v ! k = ucast (drop_bit (8 * k) (v :: 'w::len word))"
  by (induction n arbitrary: k v) (auto simp: nth_Cons drop_bit_drop_bit add.commute split: nat.split)

lemma le_bytes_of_value:
  assumes "length bs = n" "8 * n \<le> LENGTH('w)"
  shows "le_bytes n (le_value bs :: 'w::len word) = bs"
proof (rule nth_equalityI)
  fix k assume "k < length (le_bytes n (le_value bs :: 'w word))"
  then have k: "k < n" by simp
  then have "8 * k + 8 \<le> LENGTH('w)" using assms(2) by linarith
  then show "le_bytes n (le_value bs :: 'w word) ! k = bs ! k"
    using k assms(1) by (intro bit_word_eqI) (auto simp: nth_le_bytes bit_le_value bit_simps)
qed (simp add: assms(1))

context eeprom
begin

lemma read_word_law: "good e \<Longrightarrow> a + 2 \<le> cap \<Longrightarrow> eeprom_read_word ops a e = Some (le_value (bytes_at (bytes e) a 2))"
  using read_law [of e a 2 "[0, 0]"] by (simp add: eeprom_read_word_def)

lemma read_dword_law: "good e \<Longrightarrow> a + 4 \<le> cap \<Longrightarrow> eeprom_read_dword ops a e = Some (le_value (bytes_at (bytes e) a 4))"
  using read_law [of e a 4 "[0, 0, 0, 0]"] by (simp add: eeprom_read_dword_def)

text \<open>An operation that writes byte strings to their places, one after the other.\<close>

definition does :: "('e \<Rightarrow> 'e option) \<Rightarrow> (nat \<times> u8 list) list \<Rightarrow> bool" where
  "does f ws \<longleftrightarrow> (\<forall>e. good e \<longrightarrow> (\<exists>e'. f e = Some e' \<and> good e' \<and> bytes e' = fold (\<lambda>(a, p) bs. blit bs a p) ws (bytes e)))"

lemma doesE:
  assumes "does f ws" "good e"
  obtains e' where "f e = Some e'" "good e'" "bytes e' = fold (\<lambda>(a, p) bs. blit bs a p) ws (bytes e)"
  using assms unfolding does_def by blast

lemma does_seq: "does f ws \<Longrightarrow> does g vs \<Longrightarrow> does (\<lambda>e. f e \<bind> g) (ws @ vs)"
  unfolding does_def by fastforce

lemma does_nothing: "does Some []"
  by (simp add: does_def)

lemma does_byte:
  assumes "a < cap"
  shows "does (eeprom_update_byte ops a v) [(a, [v])]"
  unfolding does_def using update_byte_law [OF _ assms] bytes_length assms by (simp add: blit_one)

lemma does_block: "a + length p \<le> cap \<Longrightarrow> length junk = length p \<Longrightarrow> does (eeprom_update_block ops junk p a) [(a, p)]"
  unfolding does_def using update_block_law [of _ a p junk] by simp

lemma does_word:
  assumes "a + 2 \<le> cap"
  shows "does (eeprom_update_word ops a v) [(a, le_bytes 2 v)]"
  unfolding does_def
proof (intro allI impI)
  fix e assume e: "good e"
  have l: "a + 2 \<le> length (bytes e)" using assms bytes_length [OF e] by simp
  have r: "eeprom_read_word ops a e = Some (le_value (bytes_at (bytes e) a 2))" by (rule read_word_law [OF e assms])
  show "\<exists>e'. eeprom_update_word ops a v e = Some e' \<and> good e' \<and>
      bytes e' = fold (\<lambda>(a, p) bs. blit bs a p) [(a, le_bytes 2 v)] (bytes e)"
  proof (cases "le_value (bytes_at (bytes e) a 2) = v")
    case True
    have "le_bytes 2 v = bytes_at (bytes e) a 2"
      unfolding True [symmetric] using l by (intro le_bytes_of_value) simp_all
    then show ?thesis using r True e blit_bytes_at [OF l refl] by (simp add: eeprom_update_word_def)
  next
    case False
    then show ?thesis
      using r write_law [OF e, of a "le_bytes 2 v"] assms by (simp add: eeprom_update_word_def eeprom_write_word_def)
  qed
qed

lemma does_dword:
  assumes "a + 4 \<le> cap"
  shows "does (eeprom_update_dword ops a v) [(a, le_bytes 4 v)]"
  unfolding does_def
proof (intro allI impI)
  fix e assume e: "good e"
  have l: "a + 4 \<le> length (bytes e)" using assms bytes_length [OF e] by simp
  have r: "eeprom_read_dword ops a e = Some (le_value (bytes_at (bytes e) a 4))" by (rule read_dword_law [OF e assms])
  show "\<exists>e'. eeprom_update_dword ops a v e = Some e' \<and> good e' \<and>
      bytes e' = fold (\<lambda>(a, p) bs. blit bs a p) [(a, le_bytes 4 v)] (bytes e)"
  proof (cases "le_value (bytes_at (bytes e) a 4) = v")
    case True
    have "le_bytes 4 v = bytes_at (bytes e) a 4"
      unfolding True [symmetric] using l by (intro le_bytes_of_value) simp_all
    then show ?thesis using r True e blit_bytes_at [OF l refl] by (simp add: eeprom_update_dword_def)
  next
    case False
    then show ?thesis
      using r write_law [OF e, of a "le_bytes 4 v"] assms by (simp add: eeprom_update_dword_def eeprom_write_dword_def)
  qed
qed

end

section \<open>The settings as a record\<close>

datatype setting = Debug u8 | DefaultLayer u8 | Keymap u16 | Audio u8 | Kb u32 | User u32 | Haptic u32 | Handedness bool

fun update_setting :: "'e eeprom_ops \<Rightarrow> setting \<Rightarrow> 'e \<Rightarrow> 'e option" where
  "update_setting ops (Debug v) = eeconfig_update_debug ops v"
| "update_setting ops (DefaultLayer v) = eeconfig_update_default_layer ops v"
| "update_setting ops (Keymap v) = eeconfig_update_keymap ops v"
| "update_setting ops (Audio v) = eeconfig_update_audio ops v"
| "update_setting ops (Kb v) = eeconfig_update_kb ops v"
| "update_setting ops (User v) = eeconfig_update_user ops v"
| "update_setting ops (Haptic v) = eeconfig_update_haptic ops v"
| "update_setting ops (Handedness v) = eeconfig_update_handedness ops v"

text \<open>Reading the setting of the same name.\<close>

fun read_setting :: "'e eeprom_ops \<Rightarrow> setting \<Rightarrow> 'e \<Rightarrow> setting option" where
  "read_setting ops (Debug _) e = map_option Debug (eeconfig_read_debug ops e)"
| "read_setting ops (DefaultLayer _) e = map_option DefaultLayer (eeconfig_read_default_layer ops e)"
| "read_setting ops (Keymap _) e = map_option Keymap (eeconfig_read_keymap ops e)"
| "read_setting ops (Audio _) e = map_option Audio (eeconfig_read_audio ops e)"
| "read_setting ops (Kb _) e = map_option Kb (eeconfig_read_kb ops e)"
| "read_setting ops (User _) e = map_option User (eeconfig_read_user ops e)"
| "read_setting ops (Haptic _) e = map_option Haptic (eeconfig_read_haptic ops e)"
| "read_setting ops (Handedness _) e = map_option Handedness (eeconfig_read_handedness ops e)"

fun place :: "setting \<Rightarrow> nat" where
  "place (Debug _) = EECONFIG_DEBUG" | "place (DefaultLayer _) = EECONFIG_DEFAULT_LAYER"
| "place (Keymap _) = EECONFIG_KEYMAP" | "place (Audio _) = EECONFIG_AUDIO"
| "place (Kb _) = EECONFIG_KEYBOARD" | "place (User _) = EECONFIG_USER"
| "place (Haptic _) = EECONFIG_HAPTIC" | "place (Handedness _) = EECONFIG_HANDEDNESS"

fun as_bytes :: "setting \<Rightarrow> u8 list" where
  "as_bytes (Debug v) = [v]" | "as_bytes (DefaultLayer v) = [v]"
| "as_bytes (Keymap v) = le_bytes 2 v" | "as_bytes (Audio v) = [v]"
| "as_bytes (Kb v) = le_bytes 4 v" | "as_bytes (User v) = le_bytes 4 v"
| "as_bytes (Haptic v) = le_bytes 4 v" | "as_bytes (Handedness v) = [if v then 1 else 0]"

fun of_bytes :: "setting \<Rightarrow> u8 list \<Rightarrow> setting" where
  "of_bytes (Debug _) bs = Debug (hd bs)" | "of_bytes (DefaultLayer _) bs = DefaultLayer (hd bs)"
| "of_bytes (Keymap _) bs = Keymap (le_value bs)" | "of_bytes (Audio _) bs = Audio (hd bs)"
| "of_bytes (Kb _) bs = Kb (le_value bs)" | "of_bytes (User _) bs = User (le_value bs)"
| "of_bytes (Haptic _) bs = Haptic (le_value bs)" | "of_bytes (Handedness _) bs = Handedness (hd bs \<noteq> 0)"

lemma of_as_bytes: "place s = place t \<Longrightarrow> of_bytes t (as_bytes s) = s"
  by (cases s; cases t) (simp_all add: eeconfig_addresses le_value_bytes del: le_bytes.simps)

lemma place_apart:
  "place s = place t \<or> place s + length (as_bytes s) \<le> place t \<or> place t + length (as_bytes t) \<le> place s"
  by (cases s; cases t) (simp_all add: eeconfig_addresses)

lemma place_length: "place s = place t \<Longrightarrow> length (as_bytes s) = length (as_bytes t)"
  by (cases s; cases t) (simp_all add: eeconfig_addresses)

lemma place_bound: "place s + length (as_bytes s) \<le> EECONFIG_BASE_SIZE"
  by (cases s) (simp_all add: eeconfig_addresses)

context eeprom
begin

lemma read_setting_law:
  assumes "good e" "EECONFIG_BASE_SIZE \<le> cap"
  shows "read_setting ops s e = Some (of_bytes s (bytes_at (bytes e) (place s) (length (as_bytes s))))"
  using assms read_byte_law [OF assms(1)] read_word_law [OF assms(1)] read_dword_law [OF assms(1)] bytes_length [OF assms(1)]
  by (cases s) (simp_all add: eeconfig_addresses eeconfig_read_debug_def eeconfig_read_default_layer_def eeconfig_read_keymap_def
      eeconfig_read_audio_def eeconfig_read_kb_def eeconfig_read_user_def eeconfig_read_haptic_def eeconfig_read_handedness_def
      bytes_at_one [unfolded One_nat_def])

lemma update_setting_law:
  assumes "EECONFIG_BASE_SIZE \<le> cap"
  shows "does (update_setting ops s) [(place s, as_bytes s)]"
  using assms
  by (cases s) (simp_all add: eeconfig_addresses eeconfig_update_debug_def eeconfig_update_default_layer_def eeconfig_update_keymap_def
      eeconfig_update_audio_def eeconfig_update_kb_def eeconfig_update_user_def eeconfig_update_haptic_def eeconfig_update_handedness_def
      does_byte does_word does_dword del: le_bytes.simps)

end

section \<open>What initialisation writes\<close>

definition defaults :: "u16 \<Rightarrow> (nat \<times> u8 list) list" where
  "defaults magic = [(EECONFIG_MAGIC, le_bytes 2 magic)] @
     ([(EECONFIG_DEBUG, [0])] @ [(EECONFIG_DEFAULT_LAYER, [1])] @ [(EECONFIG_KEYMAP, le_bytes 2 (0x1400 :: u16))] @
      [(EECONFIG_BACKLIGHT, [0])] @ [(EECONFIG_AUDIO, [0])] @ [(EECONFIG_RGBLIGHT, le_bytes 4 (0 :: u32))] @
      [(EECONFIG_RGBLIGHT_EXTENDED, [0])] @ [(EECONFIG_UNUSED, [0])] @ [(EECONFIG_UNICODEMODE, [0])] @
      [(EECONFIG_STENOMODE, [0])] @ [(EECONFIG_RGB_MATRIX, replicate 8 0)] @ [(EECONFIG_HAPTIC, le_bytes 4 (0 :: u32))]) @
     [(EECONFIG_KEYBOARD, le_bytes 4 (0 :: u32))] @ [(EECONFIG_USER, le_bytes 4 (0 :: u32))]"

definition write_settings :: "u16 \<Rightarrow> 'e eeprom_ops \<Rightarrow> 'e \<Rightarrow> 'e option" where
  "write_settings magic ops e =
    do { e \<leftarrow> eeprom_update_word ops EECONFIG_MAGIC magic e; e \<leftarrow> write_defaults ops e;
         e \<leftarrow> eeconfig_update_kb ops 0 e; eeconfig_update_user ops 0 e }"

context eeprom
begin

lemma write_settings_law:
  assumes "EECONFIG_BASE_SIZE \<le> cap"
  shows "does (write_settings magic ops) (defaults magic)"
  unfolding write_settings_def write_defaults_def defaults_def eeconfig_update_kb_def eeconfig_update_user_def
  by (intro does_seq does_byte does_word does_dword does_block) (use assms in \<open>simp_all add: eeconfig_addresses\<close>)

end

text \<open>What is read back after several writes, given last one first.\<close>

fun latest :: "nat \<Rightarrow> nat \<Rightarrow> (nat \<times> u8 list) list \<Rightarrow> u8 list option" where
  "latest a n [] = None"
| "latest a n ((b, q) # ws) = (if b = a \<and> length q = n then Some q else latest a n ws)"

lemma length_fold_blit:
  "\<forall>(b, q) \<in> set ws. b + length q \<le> length xs \<Longrightarrow> length (fold (\<lambda>(a, p) bs. blit bs a p) ws xs) = length xs"
  by (induction ws arbitrary: xs) auto

lemma bytes_at_fold:
  assumes "\<forall>(b, q) \<in> set ws. b + length q \<le> length xs" "a + n \<le> length xs"
    and "\<forall>(b, q) \<in> set ws. b = a \<and> length q = n \<or> b + length q \<le> a \<or> a + n \<le> b"
  shows "bytes_at (fold (\<lambda>(a, p) bs. blit bs a p) ws xs) a n = (case latest a n (rev ws) of None \<Rightarrow> bytes_at xs a n | Some q \<Rightarrow> q)"
  using assms(1,3)
proof (induction ws rule: rev_induct)
  case (snoc w ws)
  obtain b q where w: "w = (b, q)" by (cases w)
  have l: "length (fold (\<lambda>(a, p) bs. blit bs a p) ws xs) = length xs" using snoc.prems(1) by (intro length_fold_blit) simp
  have fit: "b + length q \<le> length xs" and apart: "b = a \<and> length q = n \<or> b + length q \<le> a \<or> a + n \<le> b"
    using snoc.prems w by auto
  show ?case
  proof (cases "b = a \<and> length q = n")
    case True
    then show ?thesis using bytes_at_blit_same [of a q "fold (\<lambda>(a, p) bs. blit bs a p) ws xs"] fit l w by simp
  next
    case False
    then have "b + length q \<le> a \<or> a + n \<le> b" using apart by blast
    then show ?thesis
      using snoc bytes_at_blit_disjoint [of b q "fold (\<lambda>(a, p) bs. blit bs a p) ws xs" a n] fit l w assms(2) False by auto
  qed
qed simp

lemma optionally_None [simp]: "optionally None e = Some e"
  by (simp add: optionally_def)

section \<open>Properties\<close>

text \<open>
  C23: the settings are a record, on every EEPROM that meets the contract: an update of one of them is
  read back as it was written and changes no other setting and no byte outside of its own place.
\<close>

theorem eeconfig_is_record:
  assumes "eeprom ops cap bytes good" "EECONFIG_BASE_SIZE \<le> cap" "good e"
  shows "\<exists>e'. update_setting ops s e = Some e' \<and> good e' \<and>
    (\<forall>t. read_setting ops t e' = (if place t = place s then Some s else read_setting ops t e)) \<and>
    (\<forall>i < cap. i \<notin> {place s..<place s + length (as_bytes s)} \<longrightarrow> bytes e' ! i = bytes e ! i)"
proof -
  obtain e' where e': "update_setting ops s e = Some e'" "good e'" "bytes e' = blit (bytes e) (place s) (as_bytes s)"
    using eeprom.doesE [OF assms(1) eeprom.update_setting_law [OF assms(1,2)] assms(3)] by auto
  have l: "length (bytes e) = cap" by (rule eeprom.bytes_length [OF assms(1,3)])
  have fits: "place t + length (as_bytes t) \<le> length (bytes e)" for t using place_bound [of t] assms(2) l by simp
  have "read_setting ops t e' = (if place t = place s then Some s else read_setting ops t e)" for t
  proof (cases "place t = place s")
    case True
    then show ?thesis
      using eeprom.read_setting_law [OF assms(1) e'(2) assms(2), of t] bytes_at_blit_same [OF fits [of s]] of_as_bytes [of s t]
        place_length [OF True] by (simp add: e'(3))
  next
    case False
    then show ?thesis
      using eeprom.read_setting_law [OF assms(1) e'(2) assms(2), of t] eeprom.read_setting_law [OF assms(1,3,2), of t]
        bytes_at_blit_disjoint [OF fits [of s] fits [of t]] place_apart [of s t] by (auto simp: e'(3))
  qed
  moreover have "bytes e' ! i = bytes e ! i" if "i < cap" "i \<notin> {place s..<place s + length (as_bytes s)}" for i
    using that fits [of s] l by (auto simp: e'(3) nth_blit)
  ultimately show ?thesis using e' by blast
qed

theorem eeconfig_is_record_witness:
  "\<exists>e'. update_setting transient_ops (Keymap 0x1400) (replicate 64 7) = Some e' \<and>
    read_setting transient_ops (Keymap 0) e' = Some (Keymap 0x1400) \<and>
    read_setting transient_ops (Audio 0) e' = read_setting transient_ops (Audio 0) (replicate 64 7)"
proof -
  have "eeprom transient_ops 64 (\<lambda>e. e) (\<lambda>e. length e = 64 \<and> (64 :: nat) < 2 ^ 32)" by (rule transient.eeprom_axioms)
  from eeconfig_is_record [OF this, of "replicate 64 7" "Keymap 0x1400"]
  obtain e' where e': "update_setting transient_ops (Keymap 0x1400) (replicate 64 7) = Some e'"
    "\<And>t. read_setting transient_ops t e' = (if place t = EECONFIG_KEYMAP then Some (Keymap 0x1400) else read_setting transient_ops t (replicate 64 7))"
    by (auto simp: EECONFIG_BASE_SIZE_def simp del: update_setting.simps read_setting.simps)
  show ?thesis
    using e'(1) e'(2) [of "Keymap 0"] e'(2) [of "Audio 0"]
    by (simp add: eeconfig_addresses del: update_setting.simps read_setting.simps)
qed

text \<open>A driver whose erase function keeps the EEPROM usable.\<close>

definition erases_well :: "('e \<Rightarrow> bool) \<Rightarrow> 'e ee_cfg \<Rightarrow> bool" where
  "erases_well good c \<longleftrightarrow> (case driver_erase c of None \<Rightarrow> True | Some f \<Rightarrow> \<forall>e. good e \<longrightarrow> (case f e of None \<Rightarrow> False | Some e' \<Rightarrow> good e'))"

definition plain_build :: "'e ee_cfg \<Rightarrow> bool" where
  "plain_build c \<longleftrightarrow> EECONFIG_KB_DATA_SIZE c = 0 \<and> EECONFIG_USER_DATA_SIZE c = 0 \<and> haptic_reset c = None \<and> via c = None \<and>
     init_kb c = None \<and> init_user c = None"

text \<open>
  Initialisation of the settings, in a build without overrides, VIA and data blocks, succeeds from every contents of the
  EEPROM; afterwards the configuration is enabled and every setting has its default, and the handedness is
  kept where the driver does not erase.
\<close>

theorem eeconfig_init_defaults:
  assumes "eeprom ops cap bytes good" "EECONFIG_BASE_SIZE \<le> cap" "good e" "plain_build c" "erases_well good c"
  shows "\<exists>e'. eeconfig_init c ops e = Some e' \<and> good e' \<and> eeconfig_is_enabled c ops e' = Some True \<and>
    (\<forall>s \<in> {Debug 0, DefaultLayer 1, Keymap 0x1400, Audio 0, Kb 0, User 0, Haptic 0}. read_setting ops s e' = Some s) \<and>
    (if driver_erase c = None then \<forall>v. read_setting ops (Handedness v) e' = read_setting ops (Handedness v) e else True)"
proof -
  obtain e1 where e1: "optionally (driver_erase c) e = Some e1" "good e1" "driver_erase c = None \<Longrightarrow> e1 = e"
    using assms(3,5) by (fastforce simp: erases_well_def optionally_def split: option.splits)
  obtain e' where e': "write_settings (EECONFIG_MAGIC_NUMBER c) ops e1 = Some e'" "good e'"
    "bytes e' = fold (\<lambda>(a, p) bs. blit bs a p) (defaults (EECONFIG_MAGIC_NUMBER c)) (bytes e1)"
    using eeprom.doesE [OF assms(1) eeprom.write_settings_law [OF assms(1,2)] e1(2)] by blast
  have user: "eeconfig_init_user c ops = eeconfig_update_user ops 0"
    by (rule ext) (use assms(4) in \<open>simp add: eeconfig_init_user_def plain_build_def\<close>)
  have init: "eeconfig_init c ops e = Some e'"
    using assms(4) e1(1) e'(1)
    by (simp add: eeconfig_init_def eeconfig_init_quantum_def plain_build_def eeconfig_init_kb_def user write_settings_def)
  have l: "length (bytes e1) = cap" by (rule eeprom.bytes_length [OF assms(1) e1(2)])
  have fits: "\<forall>(b, q) \<in> set (defaults (EECONFIG_MAGIC_NUMBER c)). b + length q \<le> length (bytes e1)"
    using l assms(2) by (simp add: defaults_def eeconfig_addresses)
  note read = eeprom.read_setting_law [OF assms(1) e'(2) assms(2)]
  have at: "bytes_at (bytes e') a n = (case latest a n (rev (defaults (EECONFIG_MAGIC_NUMBER c))) of None \<Rightarrow> bytes_at (bytes e1) a n | Some q \<Rightarrow> q)"
    if "a + n \<le> EECONFIG_BASE_SIZE" "\<forall>(b, q) \<in> set (defaults (EECONFIG_MAGIC_NUMBER c)). b = a \<and> length q = n \<or> b + length q \<le> a \<or> a + n \<le> b" for a n
    unfolding e'(3) using that assms(2) l by (intro bytes_at_fold [OF fits]) simp_all
  have vals: "read_setting ops s e' = Some s"
    if "s \<in> {Debug 0, DefaultLayer 1, Keymap 0x1400, Audio 0, Kb 0, User 0, Haptic 0}" for s
  proof -
    have "bytes_at (bytes e') (place s) (length (as_bytes s)) = as_bytes s"
      using that by (elim insertE emptyE) (simp_all add: at defaults_def eeconfig_addresses del: le_bytes.simps)
    then show ?thesis using read [of s] of_as_bytes [of s s] by simp
  qed
  have hands: "read_setting ops (Handedness v) e' = read_setting ops (Handedness v) e" if "driver_erase c = None" for v
  proof -
    have "bytes_at (bytes e') EECONFIG_HANDEDNESS 1 = bytes_at (bytes e1) EECONFIG_HANDEDNESS 1"
      by (simp add: at defaults_def eeconfig_addresses del: le_bytes.simps)
    then show ?thesis using read [of "Handedness v"] eeprom.read_setting_law [OF assms(1,3,2), of "Handedness v"] e1(3) [OF that] by simp
  qed
  have "eeconfig_is_enabled c ops e' = Some True"
  proof -
    have "bytes_at (bytes e') EECONFIG_MAGIC 2 = le_bytes 2 (EECONFIG_MAGIC_NUMBER c)"
      by (simp add: at defaults_def eeconfig_addresses del: le_bytes.simps)
    then show ?thesis
      using eeprom.read_word_law [OF assms(1) e'(2), of EECONFIG_MAGIC] assms(2,4)
      by (simp add: eeconfig_is_enabled_def plain_build_def eeconfig_addresses le_value_bytes del: le_bytes.simps)
  qed
  then show ?thesis
    using init e'(2) vals hands by (intro exI [of _ e'] conjI ballI) (simp_all del: read_setting.simps split: if_split)
qed

theorem eeconfig_init_defaults_witness:
  "\<exists>e'. eeconfig_init \<lparr>EECONFIG_MAGIC_NUMBER = 0xFEE6, EECONFIG_KB_DATA_SIZE = 0, EECONFIG_KB_DATA_VERSION = 0,
      EECONFIG_USER_DATA_SIZE = 0, EECONFIG_USER_DATA_VERSION = 0, driver_erase = None, haptic_reset = None, via = None,
      init_kb = None, init_user = None, init_kb_datablock = None, init_user_datablock = None\<rparr> transient_ops (replicate 64 7) = Some e' \<and>
    read_setting transient_ops (Keymap 0) e' = Some (Keymap 0x1400)"
proof -
  have "eeprom transient_ops 64 (\<lambda>e. e) (\<lambda>e. length e = 64 \<and> (64 :: nat) < 2 ^ 32)" by (rule transient.eeprom_axioms)
  from eeconfig_init_defaults [OF this, of "replicate 64 7" "\<lparr>EECONFIG_MAGIC_NUMBER = 0xFEE6, EECONFIG_KB_DATA_SIZE = 0,
      EECONFIG_KB_DATA_VERSION = 0, EECONFIG_USER_DATA_SIZE = 0, EECONFIG_USER_DATA_VERSION = 0, driver_erase = None,
      haptic_reset = None, via = None, init_kb = None, init_user = None, init_kb_datablock = None, init_user_datablock = None\<rparr>"]
  show ?thesis by (auto simp: eeconfig_addresses plain_build_def erases_well_def)
qed

end
