(* ===== verification/Via.thy ===== *)
theory Via
  imports DynamicKeymapProps
begin

text \<open>
  The VIA interface (\<^verbatim>\<open>quantum/via.c\<close>): the magic number that says whether its part of the EEPROM is
  valid, the layout options, the initialisation, and the commands of the host.
\<close>

unbundle bit_operations_syntax

section \<open>Options\<close>

text \<open>\<open>flash_keymap\<close> and \<open>flash_encoders\<close> are the maps compiled into the firmware.\<close>

record via_cfg =
  VIA_EEPROM_MAGIC_ADDR :: nat
  VIA_EEPROM_LAYOUT_OPTIONS_SIZE :: nat
  VIA_EEPROM_LAYOUT_OPTIONS_DEFAULT :: u32
  VIA_FIRMWARE_VERSION :: u32
  VIA_EEPROM_ALLOW_RESET :: bool
  QMK_BUILDDATE :: "u8 list"
  dk :: dk_cfg
  flash_keymap :: "nat \<Rightarrow> nat \<Rightarrow> nat \<Rightarrow> u16"
  flash_encoders :: "nat \<Rightarrow> nat \<Rightarrow> bool \<Rightarrow> u16"

definition VIA_EEPROM_LAYOUT_OPTIONS_ADDR :: "via_cfg \<Rightarrow> nat" where
  "VIA_EEPROM_LAYOUT_OPTIONS_ADDR v = VIA_EEPROM_MAGIC_ADDR v + 3"

section \<open>The magic number\<close>

text \<open>The digits of the build date, two in a byte.\<close>

definition via_magic :: "via_cfg \<Rightarrow> nat \<Rightarrow> u8" where
  "via_magic v n =
    (let p = QMK_BUILDDATE v; at = [2, 5, 8] ! n
     in push_bit 4 (p ! at AND 0x0F) OR (p ! (at + 1) AND 0x0F))"

text \<open>The bytes are read only as long as they agree.\<close>

definition via_eeprom_is_valid :: "via_cfg \<Rightarrow> 'e eeprom_ops \<Rightarrow> 'e \<Rightarrow> bool option" where
  "via_eeprom_is_valid v ops e =
    do { b0 \<leftarrow> eeprom_read_byte ops (VIA_EEPROM_MAGIC_ADDR v) e;
         if b0 \<noteq> via_magic v 0 then Some False
         else do { b1 \<leftarrow> eeprom_read_byte ops (VIA_EEPROM_MAGIC_ADDR v + 1) e;
           if b1 \<noteq> via_magic v 1 then Some False
           else map_option (\<lambda>b2. b2 = via_magic v 2) (eeprom_read_byte ops (VIA_EEPROM_MAGIC_ADDR v + 2) e) } }"

definition via_eeprom_set_valid :: "via_cfg \<Rightarrow> 'e eeprom_ops \<Rightarrow> bool \<Rightarrow> 'e \<Rightarrow> 'e option" where
  "via_eeprom_set_valid v ops ok e =
    do { e \<leftarrow> eeprom_update_byte ops (VIA_EEPROM_MAGIC_ADDR v) (if ok then via_magic v 0 else 0xFF) e;
         e \<leftarrow> eeprom_update_byte ops (VIA_EEPROM_MAGIC_ADDR v + 1) (if ok then via_magic v 1 else 0xFF) e;
         eeprom_update_byte ops (VIA_EEPROM_MAGIC_ADDR v + 2) (if ok then via_magic v 2 else 0xFF) e }"

section \<open>Layout options\<close>

fun layout_value :: "'e eeprom_ops \<Rightarrow> nat \<Rightarrow> nat \<Rightarrow> u32 \<Rightarrow> 'e \<Rightarrow> u32 option" where
  "layout_value ops source 0 value e = Some value"
| "layout_value ops source (Suc n) value e =
    do { b \<leftarrow> eeprom_read_byte ops source e; layout_value ops (source + 1) n (push_bit 8 value OR ucast b) e }"

definition via_get_layout_options :: "via_cfg \<Rightarrow> 'e eeprom_ops \<Rightarrow> 'e \<Rightarrow> u32 option" where
  "via_get_layout_options v ops = layout_value ops (VIA_EEPROM_LAYOUT_OPTIONS_ADDR v) (VIA_EEPROM_LAYOUT_OPTIONS_SIZE v) 0"

fun store_layout :: "'e eeprom_ops \<Rightarrow> nat \<Rightarrow> nat \<Rightarrow> u32 \<Rightarrow> 'e \<Rightarrow> 'e option" where
  "store_layout ops base 0 value e = Some e"
| "store_layout ops base (Suc n) value e =
    do { e \<leftarrow> eeprom_update_byte ops (base + n) (ucast (value AND 0xFF)) e; store_layout ops base n (drop_bit 8 value) e }"

text \<open>\<open>options_kb\<close> is the hook \<^verbatim>\<open>via_set_layout_options_kb\<close>.\<close>

definition via_set_layout_options :: "via_cfg \<Rightarrow> (u32 \<Rightarrow> 'e \<Rightarrow> 'e option) \<Rightarrow> 'e eeprom_ops \<Rightarrow> u32 \<Rightarrow> 'e \<Rightarrow> 'e option" where
  "via_set_layout_options v options_kb ops value e =
    do { e \<leftarrow> options_kb value e;
         store_layout ops (VIA_EEPROM_LAYOUT_OPTIONS_ADDR v) (VIA_EEPROM_LAYOUT_OPTIONS_SIZE v) value e }"

section \<open>Initialisation\<close>

definition eeconfig_init_via :: "via_cfg \<Rightarrow> (u32 \<Rightarrow> 'e \<Rightarrow> 'e option) \<Rightarrow> 'e eeprom_ops \<Rightarrow> 'e \<Rightarrow> 'e option" where
  "eeconfig_init_via v options_kb ops e =
    do { e \<leftarrow> via_eeprom_set_valid v ops False e;
         e \<leftarrow> via_set_layout_options v options_kb ops (VIA_EEPROM_LAYOUT_OPTIONS_DEFAULT v) e;
         e \<leftarrow> dynamic_keymap_reset (dk v) ops (flash_keymap v) (flash_encoders v) e;
         e \<leftarrow> dynamic_keymap_macro_reset (dk v) ops e;
         via_eeprom_set_valid v ops True e }"

definition via_init :: "via_cfg \<Rightarrow> ('e \<Rightarrow> 'e option) \<Rightarrow> (u32 \<Rightarrow> 'e \<Rightarrow> 'e option) \<Rightarrow> 'e eeprom_ops \<Rightarrow> 'e \<Rightarrow> 'e option" where
  "via_init v init_kb options_kb ops e =
    do { e \<leftarrow> init_kb e;
         o' \<leftarrow> via_get_layout_options v ops e;
         e \<leftarrow> options_kb o' e;
         ok \<leftarrow> via_eeprom_is_valid v ops e;
         if ok then Some e else eeconfig_init_via v options_kb ops e }"

section \<open>Commands\<close>

text \<open>
  What a command may call: \<open>command_kb\<close> is None where \<^verbatim>\<open>via_command_kb\<close> returns false, \<open>custom\<close> the
  handler \<^verbatim>\<open>via_custom_value_command\<close> selects for a channel, if any.
\<close>

record 'e via_hooks =
  options_kb :: "u32 \<Rightarrow> 'e \<Rightarrow> 'e option"
  command_kb :: "u8 list \<Rightarrow> 'e \<Rightarrow> (u8 list \<times> 'e) option option"
  custom :: "u8 \<Rightarrow> (u8 list \<Rightarrow> 'e \<Rightarrow> (u8 list \<times> 'e) option) option"
  device_indication :: "u8 \<Rightarrow> 'e \<Rightarrow> 'e option"
  uptime :: u32
  matrix_get_row :: "nat \<Rightarrow> u32"

text \<open>The packet is an array; None is an access behind its end.\<close>

definition byte_at :: "u8 list \<Rightarrow> nat \<Rightarrow> u8 option" where
  "byte_at data i = (if i < length data then Some (data ! i) else None)"

definition put :: "nat \<Rightarrow> u8 list \<Rightarrow> u8 list \<Rightarrow> u8 list option" where
  "put i bs data = (if i + length bs \<le> length data then Some (blit data i bs) else None)"

definition part :: "nat \<Rightarrow> nat \<Rightarrow> u8 list \<Rightarrow> u8 list option" where
  "part i n data = (if i + n \<le> length data then Some (bytes_at data i n) else None)"

definition be32 :: "u32 \<Rightarrow> u8 list" where
  "be32 w = [ucast (drop_bit 24 w), ucast (drop_bit 16 w), ucast (drop_bit 8 w), ucast w]"

definition be16 :: "u16 \<Rightarrow> u8 list" where
  "be16 w = [ucast (drop_bit 8 w), ucast (w AND 0xFF)]"

definition be16_value :: "u8 \<Rightarrow> u8 \<Rightarrow> u16" where
  "be16_value hi lo = push_bit 8 (ucast hi) OR ucast lo"

definition be32_value :: "u8 list \<Rightarrow> u32" where
  "be32_value bs = push_bit 24 (ucast (bs ! 0)) OR push_bit 16 (ucast (bs ! 1)) OR push_bit 8 (ucast (bs ! 2)) OR ucast (bs ! 3)"

definition id_unhandled :: u8 where "id_unhandled = 0xFF"

definition unhandled :: "u8 list \<Rightarrow> 'e \<Rightarrow> (u8 list \<times> 'e) option" where
  "unhandled data e = map_option (\<lambda>d. (d, e)) (put 0 [id_unhandled] data)"

definition row_bytes :: "nat \<Rightarrow> u32 \<Rightarrow> u8 list" where
  "row_bytes cols w = (if cols > 24 then [ucast (drop_bit 24 w)] else []) @ (if cols > 16 then [ucast (drop_bit 16 w)] else []) @
     (if cols > 8 then [ucast (drop_bit 8 w)] else []) @ [ucast w]"

definition switch_matrix_state :: "via_cfg \<Rightarrow> 'e via_hooks \<Rightarrow> nat \<Rightarrow> u8 list" where
  "switch_matrix_state v h offset =
    (let rows = 28 div ((DK_COLS (dk v) + 7) div 8)
     in concat (map (\<lambda>r. row_bytes (DK_COLS (dk v)) (matrix_get_row h r)) [offset..<min (offset + rows) (DK_ROWS (dk v))]))"

definition get_keyboard_value :: "via_cfg \<Rightarrow> 'e via_hooks \<Rightarrow> 'e eeprom_ops \<Rightarrow> u8 list \<Rightarrow> 'e \<Rightarrow> (u8 list \<times> 'e) option" where
  "get_keyboard_value v h ops data e =
    do { value_id \<leftarrow> byte_at data 1;
         if value_id = 1 then map_option (\<lambda>d. (d, e)) (put 2 (be32 (uptime h)) data)
         else if value_id = 2 then
           do { value \<leftarrow> via_get_layout_options v ops e; map_option (\<lambda>d. (d, e)) (put 2 (be32 value) data) }
         else if value_id = 3 then
           do { offset \<leftarrow> byte_at data 2; map_option (\<lambda>d. (d, e)) (put 3 (switch_matrix_state v h (unat offset)) data) }
         else if value_id = 4 then map_option (\<lambda>d. (d, e)) (put 2 (be32 (VIA_FIRMWARE_VERSION v)) data)
         else unhandled data e }"

definition set_keyboard_value :: "via_cfg \<Rightarrow> 'e via_hooks \<Rightarrow> 'e eeprom_ops \<Rightarrow> u8 list \<Rightarrow> 'e \<Rightarrow> (u8 list \<times> 'e) option" where
  "set_keyboard_value v h ops data e =
    do { value_id \<leftarrow> byte_at data 1;
         if value_id = 2 then
           do { bs \<leftarrow> part 2 4 data; e \<leftarrow> via_set_layout_options v (options_kb h) ops (be32_value bs) e; Some (data, e) }
         else if value_id = 5 then do { value \<leftarrow> byte_at data 2; e \<leftarrow> device_indication h value e; Some (data, e) }
         else unhandled data e }"

definition via_custom_value_command :: "'e via_hooks \<Rightarrow> u8 list \<Rightarrow> 'e \<Rightarrow> (u8 list \<times> 'e) option" where
  "via_custom_value_command h data e =
    do { channel \<leftarrow> byte_at data 1; (case custom h channel of Some f \<Rightarrow> f data e | None \<Rightarrow> unhandled data e) }"

text \<open>
  The two buffers: the size the host asks for is used as it is. Of the bytes to store, those for places
  behind the end of the buffer (\<open>limit\<close>) are not read.
\<close>

definition reply_buffer :: "(u16 \<Rightarrow> u16 \<Rightarrow> 'e \<Rightarrow> u8 list option) \<Rightarrow> u8 list \<Rightarrow> 'e \<Rightarrow> (u8 list \<times> 'e) option" where
  "reply_buffer get data e =
    do { hi \<leftarrow> byte_at data 1; lo \<leftarrow> byte_at data 2; sz \<leftarrow> byte_at data 3;
         bs \<leftarrow> get (be16_value hi lo) (ucast sz) e;
         map_option (\<lambda>d. (d, e)) (put 4 bs data) }"

definition store_buffer :: "nat \<Rightarrow> (u16 \<Rightarrow> u8 list \<Rightarrow> 'e \<Rightarrow> 'e option) \<Rightarrow> u8 list \<Rightarrow> 'e \<Rightarrow> (u8 list \<times> 'e) option" where
  "store_buffer limit set_buf data e =
    do { hi \<leftarrow> byte_at data 1; lo \<leftarrow> byte_at data 2; sz \<leftarrow> byte_at data 3;
         offset \<leftarrow> Some (be16_value hi lo);
         _ \<leftarrow> part 4 (min (unat sz) (limit - unat offset)) data;
         e \<leftarrow> set_buf offset (take (unat sz) (drop 4 data)) e;
         Some (data, e) }"

definition keymap_command :: "via_cfg \<Rightarrow> 'e eeprom_ops \<Rightarrow> u8 list \<Rightarrow> 'e \<Rightarrow> u8 \<Rightarrow> (u8 list \<times> 'e) option" where
  "keymap_command v ops data e command =
    (if command = 0x04 \<or> command = 0x14 then
       do { a \<leftarrow> byte_at data 1; b \<leftarrow> byte_at data 2; c \<leftarrow> byte_at data 3;
            keycode \<leftarrow> (if command = 0x04 then dynamic_keymap_get_keycode (dk v) ops (unat a) (unat b) (unat c) e
                        else dynamic_keymap_get_encoder (dk v) ops (unat a) (unat b) (c \<noteq> 0) e);
            map_option (\<lambda>d. (d, e)) (put 4 (be16 keycode) data) }
     else
       do { a \<leftarrow> byte_at data 1; b \<leftarrow> byte_at data 2; c \<leftarrow> byte_at data 3;
            hi \<leftarrow> byte_at data 4; lo \<leftarrow> byte_at data 5;
            e \<leftarrow> (if command = 0x05 then dynamic_keymap_set_keycode (dk v) ops (unat a) (unat b) (unat c) (be16_value hi lo) e
                  else dynamic_keymap_set_encoder (dk v) ops (unat a) (unat b) (c \<noteq> 0) (be16_value hi lo) e);
            Some (data, e) })"

definition via_switch :: "via_cfg \<Rightarrow> 'e via_hooks \<Rightarrow> 'e eeprom_ops \<Rightarrow> u8 list \<Rightarrow> 'e \<Rightarrow> u8 \<Rightarrow> (u8 list \<times> 'e) option" where
  "via_switch v h ops data e command =
    (if command = 0x01 then map_option (\<lambda>d. (d, e)) (put 1 [0x00, 0x0C] data)
     else if command = 0x02 then get_keyboard_value v h ops data e
     else if command = 0x03 then set_keyboard_value v h ops data e
     else if command = 0x04 \<or> command = 0x05 then keymap_command v ops data e command
     else if command = 0x06 then
       do { e \<leftarrow> dynamic_keymap_reset (dk v) ops (flash_keymap v) (flash_encoders v) e; Some (data, e) }
     else if command = 0x07 \<or> command = 0x08 \<or> command = 0x09 then via_custom_value_command h data e
     else if command = 0x0A \<and> VIA_EEPROM_ALLOW_RESET v then
       do { e \<leftarrow> via_eeprom_set_valid v ops False e; e \<leftarrow> eeconfig_init_via v (options_kb h) ops e; Some (data, e) }
     else if command = 0x0C then map_option (\<lambda>d. (d, e)) (put 1 [of_nat (MACRO_COUNT (dk v))] data)
     else if command = 0x0D then map_option (\<lambda>d. (d, e)) (put 1 (be16 (of_nat (MACRO_EEPROM_SIZE (dk v)))) data)
     else if command = 0x0E then reply_buffer (dynamic_keymap_macro_get_buffer (dk v) ops) data e
     else if command = 0x0F then store_buffer (MACRO_EEPROM_SIZE (dk v)) (dynamic_keymap_macro_set_buffer (dk v) ops) data e
     else if command = 0x10 then do { e \<leftarrow> dynamic_keymap_macro_reset (dk v) ops e; Some (data, e) }
     else if command = 0x11 then map_option (\<lambda>d. (d, e)) (put 1 [of_nat (LAYER_COUNT (dk v))] data)
     else if command = 0x12 then reply_buffer (dynamic_keymap_get_buffer (dk v) ops) data e
     else if command = 0x13 then store_buffer (keymap_bytes (dk v) mod 2 ^ 16) (dynamic_keymap_set_buffer (dk v) ops) data e
     else if (command = 0x14 \<or> command = 0x15) \<and> DK_ENCODER_MAP (dk v) then keymap_command v ops data e command
     else unhandled data e)"

text \<open>The result is the packet that goes back to the host.\<close>

definition raw_hid_receive :: "via_cfg \<Rightarrow> 'e via_hooks \<Rightarrow> 'e eeprom_ops \<Rightarrow> u8 list \<Rightarrow> 'e \<Rightarrow> (u8 list \<times> 'e) option" where
  "raw_hid_receive v h ops data e =
    (case command_kb h data e of
       Some r \<Rightarrow> r
     | None \<Rightarrow> do { command \<leftarrow> byte_at data 0; via_switch v h ops data e command })"

text \<open>The keycodes of the macros.\<close>

definition process_record_via :: "via_cfg \<Rightarrow> 'e eeprom_ops \<Rightarrow> u16 \<Rightarrow> bool \<Rightarrow> 'e \<Rightarrow> (bool \<times> u8 list list) option" where
  "process_record_via v ops keycode is_pressed e =
    (if is_pressed \<and> 0x7700 \<le> keycode \<and> keycode \<le> 0x777F
     then map_option (\<lambda>ss. (False, ss)) (dynamic_keymap_macro_send (dk v) ops (unat (ucast (keycode - 0x7700) :: u8)) e)
     else Some (True, []))"

end
