(* ===== verification/ViaProps.thy ===== *)
theory ViaProps
  imports Via EeConfigProps
begin

text \<open>
  VIA: the commands of the host read and write the dynamic keymap, and the initialisation may lose power
  at any write: what it leaves behind is not taken for valid.
\<close>

section \<open>Losing power\<close>

text \<open>An EEPROM with power for \<open>k\<close> more writes; the later ones are lost.\<close>

definition powered :: "'e eeprom_ops \<Rightarrow> ('e \<times> nat) eeprom_ops" where
  "powered ops = \<lparr>read_block = (\<lambda>a n buf (e, k). read_block ops a n buf e),
     write_block = (\<lambda>p a (e, k). if k = 0 then Some (e, 0) else map_option (\<lambda>e. (e, k - 1)) (write_block ops p a e))\<rparr>"

lemma powered_read_byte: "eeprom_read_byte (powered ops) a (e, k) = eeprom_read_byte ops a e"
  by (simp add: powered_def eeprom_read_byte_def)

lemma powered_write_byte:
  "eeprom_write_byte (powered ops) a x (e, k) =
    (if k = 0 then Some (e, 0) else map_option (\<lambda>e. (e, k - 1)) (eeprom_write_byte ops a x e))"
  by (simp add: powered_def eeprom_write_byte_def)

lemma reset_layer_enc:
  "DK_ENCODER_MAP k \<Longrightarrow> reset_layer k ops raw renc l =
    (\<lambda>e. each (\<lambda>rw. each (\<lambda>cl. dynamic_keymap_set_keycode k ops l rw cl (raw l rw cl)) [0..<DK_COLS k]) [0..<DK_ROWS k] e \<bind>
      each (\<lambda>enc e. dynamic_keymap_set_encoder k ops l enc True (renc l enc True) e \<bind>
        dynamic_keymap_set_encoder k ops l enc False (renc l enc False)) [0..<DK_ENCODERS k])"
  "\<not> DK_ENCODER_MAP k \<Longrightarrow> reset_layer k ops raw renc l =
    each (\<lambda>rw. each (\<lambda>cl. dynamic_keymap_set_keycode k ops l rw cl (raw l rw cl)) [0..<DK_COLS k]) [0..<DK_ROWS k]"
  by (simp_all add: fun_eq_iff reset_layer_def)

context eeprom
begin

text \<open>
  \<open>f\<close> is \<open>g\<close> under such a supply: it writes only into \<open>A\<close>, does nothing without power, and when power is left in the
  end it did all that \<open>g\<close> does.
\<close>

definition cut_ok :: "nat set \<Rightarrow> ('e \<times> nat \<Rightarrow> ('e \<times> nat) option) \<Rightarrow> ('e \<Rightarrow> 'e option) \<Rightarrow> bool" where
  "cut_ok A f g \<longleftrightarrow> (\<forall>e k. good e \<longrightarrow> (\<exists>e' k'. f (e, k) = Some (e', k') \<and> good e' \<and>
     (\<forall>i < cap. i \<notin> A \<longrightarrow> bytes e' ! i = bytes e ! i) \<and> (k = 0 \<longrightarrow> e' = e \<and> k' = 0) \<and> (0 < k' \<longrightarrow> g e = Some e')))"

lemma cut_okE:
  assumes "cut_ok A f g" "good e"
  obtains e' k' where "f (e, k) = Some (e', k')" "good e'" "\<And>i. i < cap \<Longrightarrow> i \<notin> A \<Longrightarrow> bytes e' ! i = bytes e ! i"
    "k = 0 \<Longrightarrow> e' = e \<and> k' = 0" "0 < k' \<Longrightarrow> g e = Some e'"
  using assms unfolding cut_ok_def by blast

lemma cut_ok_mono: "cut_ok A f g \<Longrightarrow> A \<subseteq> B \<Longrightarrow> cut_ok B f g"
  unfolding cut_ok_def by (meson subsetD)

lemma cut_ok_none: "cut_ok A Some Some"
  by (simp add: cut_ok_def)

lemma cut_ok_seq:
  assumes "cut_ok A f g" "cut_ok A f' g'"
  shows "cut_ok A (\<lambda>s. f s \<bind> f') (\<lambda>e. g e \<bind> g')"
  unfolding cut_ok_def
proof (intro allI impI)
  fix e k assume e: "good e"
  obtain e1 k1 where 1: "f (e, k) = Some (e1, k1)" "good e1" "\<And>i. i < cap \<Longrightarrow> i \<notin> A \<Longrightarrow> bytes e1 ! i = bytes e ! i"
    "k = 0 \<Longrightarrow> e1 = e \<and> k1 = 0" "0 < k1 \<Longrightarrow> g e = Some e1"
    by (rule cut_okE [OF assms(1) e, where k = k]) blast
  obtain e2 k2 where 2: "f' (e1, k1) = Some (e2, k2)" "good e2" "\<And>i. i < cap \<Longrightarrow> i \<notin> A \<Longrightarrow> bytes e2 ! i = bytes e1 ! i"
    "k1 = 0 \<Longrightarrow> e2 = e1 \<and> k2 = 0" "0 < k2 \<Longrightarrow> g' e1 = Some e2"
    by (rule cut_okE [OF assms(2) 1(2), where k = k1]) blast
  show "\<exists>e' k'. f (e, k) \<bind> f' = Some (e', k') \<and> good e' \<and>
      (\<forall>i < cap. i \<notin> A \<longrightarrow> bytes e' ! i = bytes e ! i) \<and> (k = 0 \<longrightarrow> e' = e \<and> k' = 0) \<and> (0 < k' \<longrightarrow> g e \<bind> g' = Some e')"
    using 1 2 by (cases "k1 = 0") auto
qed

lemma cut_ok_each: "(\<And>x. x \<in> set xs \<Longrightarrow> cut_ok A (f x) (g x)) \<Longrightarrow> cut_ok A (each f xs) (each g xs)"
proof (induction xs)
  case Nil
  have "each f [] = Some" "each g [] = Some" by (simp_all add: fun_eq_iff)
  then show ?case by (simp add: cut_ok_none)
next
  case (Cons x xs)
  have "each f (x # xs) = (\<lambda>s. f x s \<bind> each f xs)" "each g (x # xs) = (\<lambda>e. g x e \<bind> each g xs)" by (simp_all add: fun_eq_iff)
  then show ?case using Cons by (simp add: cut_ok_seq)
qed

text \<open>A byte is written as long as there is power.\<close>

lemma update_byte_powered:
  assumes "good e" "a < cap" "0 < k"
  shows "\<exists>e' k'. eeprom_update_byte (powered ops) a x (e, k) = Some (e', k') \<and> good e' \<and>
    eeprom_update_byte ops a x e = Some e' \<and> bytes e' = (bytes e)[a := x]"
proof -
  obtain e' where e': "eeprom_update_byte ops a x e = Some e'" "good e'" "bytes e' = (bytes e)[a := x]"
    using update_byte_law [OF assms(1,2)] by blast
  have "\<exists>k'. eeprom_update_byte (powered ops) a x (e, k) = Some (e', k')"
    using e'(1) assms(3) read_byte_law [OF assms(1,2)]
    by (auto simp: eeprom_update_byte_def powered_read_byte powered_write_byte split: if_splits)
  then show ?thesis using e' by blast
qed

lemma update_byte_dead:
  assumes "good e" "a < cap"
  shows "eeprom_update_byte (powered ops) a x (e, 0) = Some (e, 0)"
  using read_byte_law [OF assms]
  by (simp add: eeprom_update_byte_def powered_read_byte powered_write_byte)

lemma cut_ok_byte:
  assumes "a \<in> A" "a < cap"
  shows "cut_ok A (eeprom_update_byte (powered ops) a x) (eeprom_update_byte ops a x)"
  unfolding cut_ok_def
proof (intro allI impI)
  fix e k assume e: "good e"
  show "\<exists>e' k'. eeprom_update_byte (powered ops) a x (e, k) = Some (e', k') \<and> good e' \<and>
      (\<forall>i < cap. i \<notin> A \<longrightarrow> bytes e' ! i = bytes e ! i) \<and> (k = 0 \<longrightarrow> e' = e \<and> k' = 0) \<and>
      (0 < k' \<longrightarrow> eeprom_update_byte ops a x e = Some e')"
  proof (cases "k = 0")
    case True
    then show ?thesis using update_byte_dead [OF e assms(2)] e by simp
  next
    case False
    then obtain e' k' where e': "eeprom_update_byte (powered ops) a x (e, k) = Some (e', k')" "good e'"
      "eeprom_update_byte ops a x e = Some e'" "bytes e' = (bytes e)[a := x]"
      using update_byte_powered [OF e assms(2)] by blast
    have "bytes e' ! i = bytes e ! i" if "i \<notin> A" for i
      using that assms(1) by (cases "i = a") (simp_all add: e'(4))
    then show ?thesis using e' False by simp
  qed
qed

lemma cut_ok_be16:
  assumes "a \<in> A" "a + 1 \<in> A" "a + 1 < cap"
  shows "cut_ok A (update_be16 (powered ops) a x) (update_be16 ops a x)"
  unfolding update_be16_def using assms by (intro cut_ok_seq cut_ok_byte) simp_all

lemma cut_ok_layout:
  assumes "{base..<base + n} \<subseteq> A" "base + n \<le> cap"
  shows "cut_ok A (store_layout (powered ops) base n x) (store_layout ops base n x)"
  using assms
proof (induction n arbitrary: x)
  case 0
  have "store_layout (powered ops) base 0 x = Some" "store_layout ops base 0 x = Some" by (simp_all add: fun_eq_iff)
  then show ?case by (simp add: cut_ok_none)
next
  case (Suc n)
  have "store_layout (powered ops) base (Suc n) x =
      (\<lambda>s. eeprom_update_byte (powered ops) (base + n) (ucast (x AND 0xFF)) s \<bind> store_layout (powered ops) base n (drop_bit 8 x))"
    "store_layout ops base (Suc n) x =
      (\<lambda>s. eeprom_update_byte ops (base + n) (ucast (x AND 0xFF)) s \<bind> store_layout ops base n (drop_bit 8 x))"
    by (simp_all add: fun_eq_iff)
  moreover have "cut_ok A (store_layout (powered ops) base n (drop_bit 8 x)) (store_layout ops base n (drop_bit 8 x))"
    using Suc.prems by (intro Suc.IH) auto
  ultimately show ?case using Suc.prems by (auto intro!: cut_ok_seq cut_ok_byte)
qed

lemma cut_ok_set_at:
  assumes "valid k x" "{EEPROM_ADDR k..<MACRO_EEPROM_ADDR k} \<subseteq> A" "MACRO_EEPROM_ADDR k \<le> cap"
  shows "cut_ok A (set_at k (powered ops) x w) (set_at k ops x w)"
proof -
  have "set_at k (powered ops) x w = update_be16 (powered ops) (location_address k x) w"
    "set_at k ops x w = update_be16 ops (location_address k x) w"
    using set_at_address [OF assms(1)] by (auto simp: fun_eq_iff)
  moreover have "EEPROM_ADDR k \<le> location_address k x" by (simp add: location_address_def)
  ultimately show ?thesis
    using location_before_macros [OF assms(1)] assms(2,3) by (auto intro!: cut_ok_be16)
qed

lemma cut_ok_reset:
  assumes "{EEPROM_ADDR k..<MACRO_EEPROM_ADDR k} \<subseteq> A" "MACRO_EEPROM_ADDR k \<le> cap"
  shows "cut_ok A (dynamic_keymap_reset k (powered ops) raw renc) (dynamic_keymap_reset k ops raw renc)"
proof -
  have key: "cut_ok A (dynamic_keymap_set_keycode k (powered ops) l r c w) (dynamic_keymap_set_keycode k ops l r c w)"
    if "valid k (Key l r c)" for l r c w
    using cut_ok_set_at [OF that assms, of w] by (simp add: set_at.simps [abs_def])
  have enc: "cut_ok A (dynamic_keymap_set_encoder k (powered ops) l i cw w) (dynamic_keymap_set_encoder k ops l i cw w)"
    if "valid k (Turn l i cw)" for l i cw w
    using cut_ok_set_at [OF that assms, of w] by (simp add: set_at.simps [abs_def])
  have "cut_ok A (reset_layer k (powered ops) raw renc l) (reset_layer k ops raw renc l)" if "l < LAYER_COUNT k" for l
  proof (cases "DK_ENCODER_MAP k")
    case True
    show ?thesis unfolding reset_layer_enc(1) [OF True] using True that by (intro cut_ok_seq cut_ok_each key enc) auto
  next
    case False
    show ?thesis unfolding reset_layer_enc(2) [OF False] using that by (intro cut_ok_each key) auto
  qed
  then show ?thesis unfolding dynamic_keymap_reset_def [abs_def] by (intro cut_ok_each) simp
qed

lemma cut_ok_macros:
  assumes "{MACRO_EEPROM_ADDR k..<MACRO_EEPROM_ADDR k + MACRO_EEPROM_SIZE k} \<subseteq> A" "MACRO_EEPROM_ADDR k + MACRO_EEPROM_SIZE k \<le> cap"
  shows "cut_ok A (dynamic_keymap_macro_reset k (powered ops)) (dynamic_keymap_macro_reset k ops)"
  unfolding dynamic_keymap_macro_reset_def [abs_def] using assms by (intro cut_ok_each cut_ok_byte) auto

lemma valid_law:
  assumes "good e" "VIA_EEPROM_MAGIC_ADDR v + 2 < cap"
  shows "via_eeprom_is_valid v ops e = Some (bytes e ! VIA_EEPROM_MAGIC_ADDR v = via_magic v 0 \<and>
    bytes e ! (VIA_EEPROM_MAGIC_ADDR v + 1) = via_magic v 1 \<and> bytes e ! (VIA_EEPROM_MAGIC_ADDR v + 2) = via_magic v 2)"
  using assms by (simp add: via_eeprom_is_valid_def read_byte_law)

end

section \<open>Initialisation\<close>

definition via_layout :: "via_cfg \<Rightarrow> nat \<Rightarrow> bool" where
  "via_layout v cap \<longleftrightarrow> dk_static_asserts (dk v) cap \<and>
     VIA_EEPROM_LAYOUT_OPTIONS_ADDR v + VIA_EEPROM_LAYOUT_OPTIONS_SIZE v \<le> EEPROM_ADDR (dk v)"

text \<open>The build date has digits where the magic number is taken from.\<close>

definition dated :: "via_cfg \<Rightarrow> bool" where
  "dated v \<longleftrightarrow> (\<forall>i \<in> {2, 3, 5, 6, 8, 9}. QMK_BUILDDATE v ! i \<in> {0x30..0x39})"

lemma digit_not_15: "d \<in> {0x30..0x39} \<Longrightarrow> d AND 0x0F \<noteq> (0x0F :: u8)"
proof -
  assume "d \<in> {0x30..0x39}"
  then have "unat d \<in> {48..57}" by (simp add: word_le_nat_alt)
  moreover have "d = of_nat (unat d)" by simp
  ultimately obtain n where "d = of_nat n" "n \<in> {48..57}" by blast
  moreover from this have "n = 48 \<or> n = 49 \<or> n = 50 \<or> n = 51 \<or> n = 52 \<or> n = 53 \<or> n = 54 \<or> n = 55 \<or> n = 56 \<or> n = 57"
    by simp presburger
  ultimately show ?thesis by auto
qed

lemma magic_not_FF:
  assumes "dated v" "n < 3"
  shows "via_magic v n \<noteq> 0xFF"
proof
  assume FF: "via_magic v n = 0xFF"
  let ?i = "[2, 5, 8] ! n + 1 :: nat"
  have "n = 0 \<or> n = 1 \<or> n = 2" using assms(2) by linarith
  then have "QMK_BUILDDATE v ! ?i \<in> {0x30..0x39}" using assms(1) by (auto simp: dated_def)
  moreover have "QMK_BUILDDATE v ! ?i AND 0x0F = via_magic v n AND 0x0F"
    by (rule bit_word_eqI) (auto simp: via_magic_def Let_def bit_simps bit_low_masks simp del: bit_numeral_word_iff)
  ultimately show False using digit_not_15 FF by simp
qed

context eeprom
begin

definition via_body :: "via_cfg \<Rightarrow> 'x eeprom_ops \<Rightarrow> 'x \<Rightarrow> 'x option" where
  "via_body v ops' e =
    do { e \<leftarrow> via_set_layout_options v (\<lambda>_. Some) ops' (VIA_EEPROM_LAYOUT_OPTIONS_DEFAULT v) e;
         e \<leftarrow> dynamic_keymap_reset (dk v) ops' (flash_keymap v) (flash_encoders v) e;
         dynamic_keymap_macro_reset (dk v) ops' e }"

lemma cut_ok_body:
  assumes "via_layout v cap"
  shows "cut_ok {VIA_EEPROM_MAGIC_ADDR v + 3..} (via_body v (powered ops)) (via_body v ops)"
proof -
  have b: "VIA_EEPROM_MAGIC_ADDR v + 3 \<le> EEPROM_ADDR (dk v)" "EEPROM_ADDR (dk v) \<le> MACRO_EEPROM_ADDR (dk v)"
    "VIA_EEPROM_LAYOUT_OPTIONS_ADDR v + VIA_EEPROM_LAYOUT_OPTIONS_SIZE v \<le> cap"
    "MACRO_EEPROM_ADDR (dk v) \<le> cap" "MACRO_EEPROM_ADDR (dk v) + MACRO_EEPROM_SIZE (dk v) \<le> cap"
    using assms by (auto simp: via_layout_def dk_static_asserts_def VIA_EEPROM_LAYOUT_OPTIONS_ADDR_def MACRO_EEPROM_ADDR_def
        ENCODER_EEPROM_ADDR_def MACRO_EEPROM_SIZE_def)
  show ?thesis
    unfolding via_body_def [abs_def] via_set_layout_options_def
    by (simp, intro cut_ok_seq cut_ok_layout cut_ok_reset cut_ok_macros) (use b in \<open>auto simp: VIA_EEPROM_LAYOUT_OPTIONS_ADDR_def\<close>)
qed

lemma set_valid_law:
  assumes "good e" "VIA_EEPROM_MAGIC_ADDR v + 2 < cap"
  shows "\<exists>e'. via_eeprom_set_valid v ops ok e = Some e' \<and> good e' \<and>
    (\<forall>n < 3. bytes e' ! (VIA_EEPROM_MAGIC_ADDR v + n) = (if ok then via_magic v n else 0xFF))"
proof -
  let ?m = "VIA_EEPROM_MAGIC_ADDR v" and ?x = "\<lambda>n. if ok then via_magic v n else 0xFF"
  obtain e1 where 1: "eeprom_update_byte ops ?m (?x 0) e = Some e1" "good e1" "bytes e1 = (bytes e)[?m := ?x 0]"
    using update_byte_law [OF assms(1), of ?m] assms(2) by (meson le_add1 le_less_trans)
  obtain e2 where 2: "eeprom_update_byte ops (?m + 1) (?x 1) e1 = Some e2" "good e2" "bytes e2 = (bytes e1)[?m + 1 := ?x 1]"
    using update_byte_law [OF 1(2), of "?m + 1"] assms(2) by auto
  obtain e3 where 3: "eeprom_update_byte ops (?m + 2) (?x 2) e2 = Some e3" "good e3" "bytes e3 = (bytes e2)[?m + 2 := ?x 2]"
    using update_byte_law [OF 2(2), of "?m + 2"] assms(2) by auto
  have "bytes e3 ! (?m + n) = ?x n" if "n < 3" for n
  proof -
    have "n = 0 \<or> n = 1 \<or> n = 2" using that by linarith
    then show ?thesis using assms(2) bytes_length [OF assms(1)] by (elim disjE) (simp_all add: 1(3) 2(3) 3(3))
  qed
  then show ?thesis using 1(1) 2(1) 3(1,2) unfolding via_eeprom_set_valid_def by (intro exI [of _ e3]) simp
qed


text \<open>From the first write on the magic number is wrong until the last one.\<close>

lemma invalidate_powered:
  assumes "good e" "VIA_EEPROM_MAGIC_ADDR v + 2 < cap" "0 < k"
  shows "\<exists>e' k'. via_eeprom_set_valid v (powered ops) False (e, k) = Some (e', k') \<and> good e' \<and>
    bytes e' ! VIA_EEPROM_MAGIC_ADDR v = 0xFF \<and>
    (0 < k' \<longrightarrow> via_eeprom_set_valid v ops False e = Some e')"
proof -
  let ?m = "VIA_EEPROM_MAGIC_ADDR v"
  obtain e1 k1 where 1: "eeprom_update_byte (powered ops) ?m 0xFF (e, k) = Some (e1, k1)" "good e1"
    "eeprom_update_byte ops ?m 0xFF e = Some e1" "bytes e1 = (bytes e)[?m := 0xFF]"
    using update_byte_powered [OF assms(1) _ assms(3), of ?m "0xFF"] assms(2) by (meson le_add1 le_less_trans)
  have "cut_ok {?m + 1, ?m + 2}
      (\<lambda>s. eeprom_update_byte (powered ops) (?m + 1) 0xFF s \<bind> eeprom_update_byte (powered ops) (?m + 2) 0xFF)
      (\<lambda>s. eeprom_update_byte ops (?m + 1) 0xFF s \<bind> eeprom_update_byte ops (?m + 2) 0xFF)"
    using assms(2) by (intro cut_ok_seq cut_ok_byte) simp_all
  then obtain e2 k2 where 2: "eeprom_update_byte (powered ops) (?m + 1) 0xFF (e1, k1) \<bind> eeprom_update_byte (powered ops) (?m + 2) 0xFF = Some (e2, k2)"
    "good e2" "\<And>i. i < cap \<Longrightarrow> i \<notin> {?m + 1, ?m + 2} \<Longrightarrow> bytes e2 ! i = bytes e1 ! i"
    "0 < k2 \<Longrightarrow> eeprom_update_byte ops (?m + 1) 0xFF e1 \<bind> eeprom_update_byte ops (?m + 2) 0xFF = Some e2"
    by (rule cut_okE [OF _ 1(2), where k = k1]) blast
  have "bytes e2 ! ?m = 0xFF" using 2(3) [of ?m] assms(2) bytes_length [OF assms(1)] by (simp add: 1(4))
  then show ?thesis
    using 1(1,3) 2(1,2,4) unfolding via_eeprom_set_valid_def by (intro exI [of _ e2] exI [of _ k2]) simp
qed

lemma validate_powered:
  assumes "good e" "VIA_EEPROM_MAGIC_ADDR v + 2 < cap" "0 < k" "dated v"
    and "\<forall>n < 3. bytes e ! (VIA_EEPROM_MAGIC_ADDR v + n) = 0xFF"
  shows "\<exists>e' k'. via_eeprom_set_valid v (powered ops) True (e, k) = Some (e', k') \<and> good e' \<and>
    (via_eeprom_is_valid v ops e' = Some True \<longrightarrow> via_eeprom_set_valid v ops True e = Some e') \<and>
    (0 < k' \<longrightarrow> via_eeprom_set_valid v ops True e = Some e')"
proof -
  let ?m = "VIA_EEPROM_MAGIC_ADDR v"
  have l: "length (bytes e) = cap" by (rule bytes_length [OF assms(1)])
  have m: "?m < cap" "?m + 1 < cap" "?m + 2 < cap" using assms(2) by simp_all
  have FF: "bytes e ! (?m + 1) = 0xFF" "bytes e ! (?m + 2) = 0xFF" using assms(5) [rule_format, of 1] assms(5) [rule_format, of 2] by simp_all
  have ne: "via_magic v 1 \<noteq> 0xFF" "via_magic v 2 \<noteq> 0xFF" using magic_not_FF [OF assms(4)] by simp_all
  obtain e1 k1 where 1: "eeprom_update_byte (powered ops) ?m (via_magic v 0) (e, k) = Some (e1, k1)" "good e1"
    "eeprom_update_byte ops ?m (via_magic v 0) e = Some e1" "bytes e1 = (bytes e)[?m := via_magic v 0]"
    using update_byte_powered [OF assms(1) m(1) assms(3)] by blast
  show ?thesis
  proof (cases "k1 = 0")
    case True
    then have "via_eeprom_set_valid v (powered ops) True (e, k) = Some (e1, 0)"
      using 1(1) update_byte_dead [OF 1(2)] m by (simp add: via_eeprom_set_valid_def)
    moreover have "via_eeprom_is_valid v ops e1 = Some False"
      using valid_law [OF 1(2) m(3)] FF ne l m by (simp add: 1(4))
    ultimately show ?thesis using 1(2) by auto
  next
    case False
    then obtain e2 k2 where 2: "eeprom_update_byte (powered ops) (?m + 1) (via_magic v 1) (e1, k1) = Some (e2, k2)" "good e2"
      "eeprom_update_byte ops (?m + 1) (via_magic v 1) e1 = Some e2" "bytes e2 = (bytes e1)[?m + 1 := via_magic v 1]"
      using update_byte_powered [OF 1(2) m(2)] by blast
    show ?thesis
    proof (cases "k2 = 0")
      case True
      then have "via_eeprom_set_valid v (powered ops) True (e, k) = Some (e2, 0)"
        using 1(1) 2(1) update_byte_dead [OF 2(2)] m by (simp add: via_eeprom_set_valid_def)
      moreover have "via_eeprom_is_valid v ops e2 = Some False"
        using valid_law [OF 2(2) m(3)] FF ne l m by (simp add: 1(4) 2(4))
      ultimately show ?thesis using 2(2) by auto
    next
      case False
      then obtain e3 k3 where "eeprom_update_byte (powered ops) (?m + 2) (via_magic v 2) (e2, k2) = Some (e3, k3)" "good e3"
        "eeprom_update_byte ops (?m + 2) (via_magic v 2) e2 = Some e3"
        using update_byte_powered [OF 2(2) m(3)] by blast
      then show ?thesis using 1(1,3) 2(1,3) by (auto simp: via_eeprom_set_valid_def)
    qed
  qed
qed

lemma init_via_parts:
  "eeconfig_init_via v (\<lambda>_. Some) ops' e =
    via_eeprom_set_valid v ops' False e \<bind> (\<lambda>e. via_body v ops' e \<bind> via_eeprom_set_valid v ops' True)"
  by (simp add: eeconfig_init_via_def via_body_def)

lemma init_via_cut:
  assumes "via_layout v cap" "dated v" "good e"
  shows "\<exists>e' k'. eeconfig_init_via v (\<lambda>_. Some) (powered ops) (e, k) = Some (e', k') \<and> good e' \<and>
    (via_eeprom_is_valid v ops e' = Some True \<longrightarrow> e' = e \<or> eeconfig_init_via v (\<lambda>_. Some) ops e = Some e') \<and>
    (0 < k' \<longrightarrow> eeconfig_init_via v (\<lambda>_. Some) ops e = Some e')"
proof -
  let ?m = "VIA_EEPROM_MAGIC_ADDR v"
  have m: "?m + 2 < cap"
    using assms(1) by (auto simp: via_layout_def dk_static_asserts_def VIA_EEPROM_LAYOUT_OPTIONS_ADDR_def MACRO_EEPROM_ADDR_def ENCODER_EEPROM_ADDR_def)
  have dead: "via_eeprom_set_valid v (powered ops) ok (x, 0) = Some (x, 0)" if "good x" for x ok
    using update_byte_dead [OF that] m by (simp add: via_eeprom_set_valid_def)
  note body = cut_ok_body [OF assms(1)]
  show ?thesis
  proof (cases "k = 0")
    case True
    obtain e' k' where "via_body v (powered ops) (e, 0) = Some (e', k')" "e' = e \<and> k' = 0"
      by (rule cut_okE [OF body assms(3), where k = 0]) blast
    then show ?thesis using True dead [OF assms(3)] assms(3) by (simp add: init_via_parts)
  next
    case False
    then obtain e1 k1 where 1: "via_eeprom_set_valid v (powered ops) False (e, k) = Some (e1, k1)" "good e1"
      "bytes e1 ! ?m = 0xFF" "0 < k1 \<Longrightarrow> via_eeprom_set_valid v ops False e = Some e1"
      using invalidate_powered [OF assms(3) m] by blast
    obtain e2 k2 where 2: "via_body v (powered ops) (e1, k1) = Some (e2, k2)" "good e2"
      "\<And>i. i < cap \<Longrightarrow> i \<notin> {?m + 3..} \<Longrightarrow> bytes e2 ! i = bytes e1 ! i" "k1 = 0 \<Longrightarrow> e2 = e1 \<and> k2 = 0"
      "0 < k2 \<Longrightarrow> via_body v ops e1 = Some e2"
      by (rule cut_okE [OF body 1(2), where k = k1]) blast
    show ?thesis
    proof (cases "k2 = 0")
      case True
      have "bytes e2 ! ?m = 0xFF" using 2(3) [of ?m] 1(3) m by simp
      then have "via_eeprom_is_valid v ops e2 = Some False"
        using valid_law [OF 2(2) m] magic_not_FF [OF assms(2), of 0] by auto
      then show ?thesis using True 1(1) 2(1,2) dead [OF 2(2)] by (simp add: init_via_parts)
    next
      case False
      then have k1: "0 < k1" using 2(4) by auto
      obtain x where x: "via_eeprom_set_valid v ops False e = Some x" "\<forall>n < 3. bytes x ! (?m + n) = 0xFF"
        using set_valid_law [OF assms(3) m, where ok = False] by auto
      have "\<forall>n < 3. bytes e2 ! (?m + n) = 0xFF" using x 1(4) [OF k1] 2(3) m by auto
      then obtain e3 k3 where "via_eeprom_set_valid v (powered ops) True (e2, k2) = Some (e3, k3)" "good e3"
        "via_eeprom_is_valid v ops e3 = Some True \<longrightarrow> via_eeprom_set_valid v ops True e2 = Some e3"
        "0 < k3 \<longrightarrow> via_eeprom_set_valid v ops True e2 = Some e3"
        using validate_powered [OF 2(2) m _ assms(2)] False by blast
      then show ?thesis
        using 1(1) 1(4) [OF k1] 2(1,5) False by (auto simp: init_via_parts)
    qed
  qed
qed

lemma init_via_completes:
  assumes "via_layout v cap" "good e"
  shows "\<exists>e'. eeconfig_init_via v (\<lambda>_. Some) ops e = Some e' \<and> good e' \<and> via_eeprom_is_valid v ops e' = Some True"
proof -
  have m: "VIA_EEPROM_MAGIC_ADDR v + 2 < cap"
    and lay: "VIA_EEPROM_LAYOUT_OPTIONS_ADDR v + VIA_EEPROM_LAYOUT_OPTIONS_SIZE v \<le> cap"
    and mac: "set [MACRO_EEPROM_ADDR (dk v)..<MACRO_EEPROM_ADDR (dk v) + MACRO_EEPROM_SIZE (dk v)] \<subseteq> {0..<cap}"
    and sa: "dk_static_asserts (dk v) cap"
    using assms(1) by (auto simp: via_layout_def dk_static_asserts_def VIA_EEPROM_LAYOUT_OPTIONS_ADDR_def MACRO_EEPROM_ADDR_def
        ENCODER_EEPROM_ADDR_def MACRO_EEPROM_SIZE_def)
  have store: "\<exists>e'. store_layout ops base n x e = Some e' \<and> good e'" if "good e" "base + n \<le> cap" for base n x e
    using that
  proof (induction n arbitrary: x e)
    case (Suc n)
    then obtain e1 where "eeprom_update_byte ops (base + n) (ucast (x AND 0xFF)) e = Some e1" "good e1"
      using update_byte_law [of e "base + n"] by fastforce
    then show ?case using Suc.IH [of e1] Suc.prems(2) by simp
  qed simp
  obtain e1 where 1: "via_eeprom_set_valid v ops False e = Some e1" "good e1"
    using set_valid_law [OF assms(2) m] by blast
  obtain e2 where 2: "via_set_layout_options v (\<lambda>_. Some) ops (VIA_EEPROM_LAYOUT_OPTIONS_DEFAULT v) e1 = Some e2" "good e2"
    using store [OF 1(2) lay] by (auto simp: via_set_layout_options_def)
  obtain e3 where 3: "dynamic_keymap_reset (dk v) ops (flash_keymap v) (flash_encoders v) e2 = Some e3" "good e3"
    using reset_law [OF sa 2(2)] by blast
  obtain e4 where 4: "dynamic_keymap_macro_reset (dk v) ops e3 = Some e4" "good e4"
    using update_range_law [OF 3(2) mac] by (auto simp: dynamic_keymap_macro_reset_def)
  obtain e5 where 5: "via_eeprom_set_valid v ops True e4 = Some e5" "good e5"
    "\<forall>n < 3. bytes e5 ! (VIA_EEPROM_MAGIC_ADDR v + n) = via_magic v n"
    using set_valid_law [OF 4(2) m, where ok = True] by auto
  have "via_eeprom_is_valid v ops e5 = Some True"
    using valid_law [OF 5(2) m] 5(3) [rule_format, of 0] 5(3) [rule_format, of 1] 5(3) [rule_format, of 2] by simp
  then show ?thesis using 1(1) 2(1) 3(1) 4(1) 5(1,2) by (simp add: eeconfig_init_via_def)
qed

end

section \<open>The host's view of the keymap\<close>

lemma be16_pair: "be16 (be16_value hi lo) = [hi, lo]" "be16_value (hi8 w) (lo8 w) = w" "be16 w = [hi8 w, lo8 w]"
proof -
  show "be16_value (hi8 w) (lo8 w) = w" by (simp add: be16_value_def read_be16_value)
  show "be16 w = [hi8 w, lo8 w]" by (simp add: be16_def hi8_def lo8_def)
  have "ucast (drop_bit 8 (push_bit 8 (ucast hi) OR ucast lo :: u16)) = hi"
    by (rule bit_word_eqI) (auto simp: bit_simps dest: bit_imp_le_length)
  moreover have "ucast ((push_bit 8 (ucast hi) OR ucast lo :: u16) AND 0xFF) = lo"
    by (rule bit_word_eqI) (auto simp: bit_simps bit_low_masks simp del: bit_numeral_word_iff)
  ultimately show "be16 (be16_value hi lo) = [hi, lo]" by (simp add: be16_def be16_value_def)
qed

lemma get_keycode_packet:
  assumes "\<And>d e. command_kb h d e = None"
  shows "raw_hid_receive v h ops (4 # l # r # c # x # y # rest) e =
    map_option (\<lambda>w. (4 # l # r # c # hi8 w # lo8 w # rest, e)) (dynamic_keymap_get_keycode (dk v) ops (unat l) (unat r) (unat c) e)"
  by (simp add: raw_hid_receive_def assms via_switch_def keymap_command_def byte_at_def put_def be16_pair blit_def
      split: option.splits Option.bind_split)

lemma set_keycode_packet:
  assumes "\<And>d e. command_kb h d e = None"
  shows "raw_hid_receive v h ops (5 # l # r # c # hi # lo # rest) e =
    map_option (\<lambda>e'. (5 # l # r # c # hi # lo # rest, e'))
      (dynamic_keymap_set_keycode (dk v) ops (unat l) (unat r) (unat c) (be16_value hi lo) e)"
  by (simp add: raw_hid_receive_def assms via_switch_def keymap_command_def byte_at_def
      split: option.splits Option.bind_split)

text \<open>A size above 28 makes the reply leave the packet of 32 bytes.\<close>

lemma macro_buffer_reply_overruns:
  assumes "\<And>d e. command_kb h d e = None" "length data = 32" "data ! 0 = 0x0E" "28 < data ! 3"
  shows "raw_hid_receive v h ops data e = None"
proof -
  have len: "length bs = n" if "read_limited ops base limit i n e = Some bs" for base limit i n bs
    using that by (induction n arbitrary: i bs) (auto split: Option.bind_splits)
  have "28 < unat (data ! 3)" using assms(4) by (simp add: word_less_nat_alt)
  then have "put 4 bs data = None" if "dynamic_keymap_macro_get_buffer (dk v) ops off (ucast (data ! 3)) e = Some bs" for off bs
    using len [OF that [unfolded dynamic_keymap_macro_get_buffer_def]] assms(2) unsigned_less [where w = "data ! 3" and 'a = nat]
    by (simp add: put_def unsigned_ucast_eq take_bit_eq_mod)
  then show ?thesis
    using assms by (auto simp: raw_hid_receive_def via_switch_def reply_buffer_def byte_at_def split: Option.bind_splits)
qed

text \<open>
  The settings of \<^verbatim>\<open>eeconfig_init\<close> are not as safe: the magic number is written before them, so after the
  first write the old contents are taken for the configuration.
\<close>

definition bare_cfg :: "'e ee_cfg" where
  "bare_cfg = \<lparr>EECONFIG_MAGIC_NUMBER = 0xFEE6, EECONFIG_KB_DATA_SIZE = 0, EECONFIG_KB_DATA_VERSION = 0,
     EECONFIG_USER_DATA_SIZE = 0, EECONFIG_USER_DATA_VERSION = 0, driver_erase = None, haptic_reset = None, via = None,
     init_kb = None, init_user = None, init_kb_datablock = None, init_user_datablock = None\<rparr>"

lemma eeconfig_enabled_before_written:
  "case eeconfig_init bare_cfg (powered transient_ops) (replicate 40 7, 1) of None \<Rightarrow> False
   | Some (e', k') \<Rightarrow> eeconfig_is_enabled bare_cfg transient_ops e' = Some True \<and> eeconfig_read_keymap transient_ops e' = Some 0x0707"
  by code_simp

section \<open>Properties\<close>

text \<open>
  C16: what the host reads with VIA is what it wrote: after the command that sets the keycode of a place, the
  command that reads it returns the two bytes sent, and reading every other place returns what it returned before.
\<close>

theorem via_host_reads_what_it_wrote:
  assumes "eeprom ops cap bytes good" "dk_static_asserts (dk v) cap" "good e" "\<And>d e. command_kb h d e = None"
    and "valid (dk v) (Key (unat l) (unat r) (unat c))"
  shows "\<exists>e'. raw_hid_receive v h ops (5 # l # r # c # hi # lo # rest) e = Some (5 # l # r # c # hi # lo # rest, e') \<and> good e' \<and>
    (\<forall>l' r' c' x y rest'. map_option fst (raw_hid_receive v h ops (4 # l' # r' # c' # x # y # rest') e') =
      (if (l', r', c') = (l, r, c) then Some (4 # l # r # c # hi # lo # rest')
       else map_option fst (raw_hid_receive v h ops (4 # l' # r' # c' # x # y # rest') e)))"
proof -
  obtain e' where e': "set_at (dk v) ops (Key (unat l) (unat r) (unat c)) (be16_value hi lo) e = Some e'" "good e'"
    "\<forall>y. valid (dk v) y \<longrightarrow> get_at (dk v) ops y e' =
      (if y = Key (unat l) (unat r) (unat c) then Some (be16_value hi lo) else get_at (dk v) ops y e)"
    using eeprom.set_at_law [OF assms(1,2,3,5)] by blast
  have get: "dynamic_keymap_get_keycode (dk v) ops (unat l') (unat r') (unat c') e' =
      (if (l', r', c') = (l, r, c) then Some (be16_value hi lo) else dynamic_keymap_get_keycode (dk v) ops (unat l') (unat r') (unat c') e)"
    for l' r' c'
  proof (cases "valid (dk v) (Key (unat l') (unat r') (unat c'))")
    case True
    then show ?thesis using e'(3) [rule_format, OF True] by (auto simp: word_unat_eq_iff)
  next
    case False
    then have "(l', r', c') \<noteq> (l, r, c)" using assms(5) by auto
    then show ?thesis using False by (auto simp: dynamic_keymap_get_keycode_def)
  qed
  have bytes16: "hi8 (be16_value hi lo) = hi" "lo8 (be16_value hi lo) = lo"
    using be16_pair(1) [of hi lo] unfolding be16_pair(3) by simp_all
  show ?thesis
    using e'(1,2) by (auto simp: set_keycode_packet [OF assms(4)] get_keycode_packet [OF assms(4)] get bytes16 option.map_comp comp_def)
qed

text \<open>
  C15: the initialisation of VIA survives the loss of power at any of its writes: a run that is not interrupted ends in a
  valid EEPROM, and one that is leaves an EEPROM that is not taken for valid, unless nothing was written yet or
  everything was.
\<close>

theorem via_init_survives_power_loss:
  assumes "eeprom ops cap bytes good" "via_layout v cap" "dated v" "good e"
  shows "(\<exists>e'. eeconfig_init_via v (\<lambda>_. Some) ops e = Some e' \<and> via_eeprom_is_valid v ops e' = Some True) \<and>
    (\<exists>e' k'. eeconfig_init_via v (\<lambda>_. Some) (powered ops) (e, k) = Some (e', k') \<and> good e' \<and>
       (via_eeprom_is_valid v ops e' = Some True \<longrightarrow> e' = e \<or> eeconfig_init_via v (\<lambda>_. Some) ops e = Some e'))"
  using eeprom.init_via_completes [OF assms(1,2,4)] eeprom.init_via_cut [OF assms] by blast

definition demo_via :: via_cfg where
  "demo_via = \<lparr>VIA_EEPROM_MAGIC_ADDR = 37, VIA_EEPROM_LAYOUT_OPTIONS_SIZE = 1, VIA_EEPROM_LAYOUT_OPTIONS_DEFAULT = 0,
     VIA_FIRMWARE_VERSION = 0, VIA_EEPROM_ALLOW_RESET = False, QMK_BUILDDATE = [50, 48, 49, 57, 45, 49, 49, 45, 48, 53],
     dk = \<lparr>LAYER_COUNT = 1, DK_ROWS = 1, DK_COLS = 2, DK_ENCODERS = 0, DK_ENCODER_MAP = False, EEPROM_ADDR = 41, EEPROM_MAX_ADDR = 199, MACRO_COUNT = 1\<rparr>,
     flash_keymap = (\<lambda>l r c. of_nat (4 + c)), flash_encoders = (\<lambda>l i cw. 0)\<rparr>"

definition demo_hooks :: "(u8 list) via_hooks" where
  "demo_hooks = \<lparr>options_kb = (\<lambda>_. Some), command_kb = (\<lambda>_ _. None), custom = (\<lambda>_. None), device_indication = (\<lambda>_. Some),
     uptime = 0, matrix_get_row = (\<lambda>_. 0)\<rparr>"

lemma demo_via_facts:
  "eeprom transient_ops 200 (\<lambda>e. e) (\<lambda>e. length e = 200 \<and> (200 :: nat) < 2 ^ 32)"
  "via_layout demo_via 200" "dated demo_via" "length (replicate 200 (7 :: u8)) = 200 \<and> (200 :: nat) < 2 ^ 32"
proof -
  show "eeprom transient_ops 200 (\<lambda>e. e) (\<lambda>e. length e = 200 \<and> (200 :: nat) < 2 ^ 32)" by (rule transient.eeprom_axioms)
  show "via_layout demo_via 200"
    by (simp add: via_layout_def demo_via_def dk_static_asserts_def VIA_EEPROM_LAYOUT_OPTIONS_ADDR_def MACRO_EEPROM_ADDR_def
        ENCODER_EEPROM_ADDR_def keymap_bytes_def)
  show "dated demo_via" by (simp add: dated_def demo_via_def)
qed simp

theorem via_host_reads_what_it_wrote_witness:
  "\<exists>e'. raw_hid_receive demo_via demo_hooks transient_ops [5, 0, 0, 1, 0x12, 0x34] (replicate 200 7) = Some ([5, 0, 0, 1, 0x12, 0x34], e') \<and>
    map_option fst (raw_hid_receive demo_via demo_hooks transient_ops [4, 0, 0, 1, 0, 0] e') = Some [4, 0, 0, 1, 0x12, 0x34]"
proof -
  have "dk_static_asserts (dk demo_via) 200" using demo_via_facts(2) by (simp add: via_layout_def)
  moreover have "command_kb demo_hooks d e = None" for d e by (simp add: demo_hooks_def)
  moreover have "valid (dk demo_via) (Key (unat (0 :: u8)) (unat (0 :: u8)) (unat (1 :: u8)))" by (simp add: demo_via_def)
  ultimately obtain e' where
    "raw_hid_receive demo_via demo_hooks transient_ops (5 # 0 # 0 # 1 # 0x12 # 0x34 # []) (replicate 200 7) = Some (5 # 0 # 0 # 1 # 0x12 # 0x34 # [], e')"
    "map_option fst (raw_hid_receive demo_via demo_hooks transient_ops (4 # 0 # 0 # 1 # 0 # 0 # []) e') = Some (4 # 0 # 0 # 1 # 0x12 # 0x34 # [])"
    using via_host_reads_what_it_wrote [OF demo_via_facts(1) _ demo_via_facts(4), of demo_via demo_hooks 0 0 1 "0x12" "0x34" "[]"] by metis
  then show ?thesis by blast
qed

theorem via_init_survives_power_loss_witness:
  "\<exists>e' k'. eeconfig_init_via demo_via (\<lambda>_. Some) (powered transient_ops) (replicate 200 7, 4) = Some (e', k') \<and>
    (via_eeprom_is_valid demo_via transient_ops e' = Some True \<longrightarrow> e' = replicate 200 7 \<or>
      eeconfig_init_via demo_via (\<lambda>_. Some) transient_ops (replicate 200 7) = Some e')"
  using via_init_survives_power_loss [OF demo_via_facts] by blast

end
