(* ===== verification/CapsWord.thy ===== *)
theory CapsWord
  imports ActionProps Keycodes KeyEvent
begin

text \<open>
  Caps word (\<^verbatim>\<open>quantum/caps_word.c\<close>, \<^verbatim>\<open>quantum/process_keycode/process_caps_word.c\<close>): the switch with
  its idle timeout and the handler that shifts the letters of a word and ends it at any other key.
\<close>

unbundle bit_operations_syntax

section \<open>State and options\<close>

text \<open>\<open>set_user\<close> collects the calls of \<^verbatim>\<open>caps_word_set_user\<close>; \<open>cadet_resets\<close> those of \<^verbatim>\<open>reset_space_cadet\<close>.\<close>

record 'l caps_state =
  caps_word_active :: bool
  idle_timer :: u16
  held_mods :: u8
  shift_tapped :: bool
  shift_timer :: u16
  set_user :: "bool list"
  cadet_resets :: nat
  kb :: "'l action_state"

text \<open>
  \<open>command_blocks\<close> is true where the feature Command keeps both shifts from switching caps word on:
  always when it is enabled without \<^verbatim>\<open>IS_COMMAND\<close>, when \<^verbatim>\<open>IS_COMMAND()\<close> holds otherwise. \<open>auto_shift\<close> is
  what \<^verbatim>\<open>get_autoshift_state\<close> returns, in builds that have it.
\<close>

record 'l caps_cfg =
  acfg :: "'l action_cfg"
  CAPS_WORD_IDLE_TIMEOUT :: u16
  CAPS_WORD_INVERT_ON_SHIFT :: bool
  BOTH_SHIFTS_TURNS_ON_CAPS_WORD :: bool
  DOUBLE_TAP_SHIFT_TURNS_ON_CAPS_WORD :: bool
  SPACE_CADET_ENABLE :: bool
  command_blocks :: "'l action_state \<Rightarrow> bool"
  auto_shift :: "bool option"
  NO_ACTION_TAPPING :: bool
  NO_ACTION_LAYER :: bool
  caps_tapping_term :: "u16 \<Rightarrow> keyrecord \<Rightarrow> u16"
  caps_word_press_user :: "u16 \<Rightarrow> 'l action_state \<Rightarrow> bool \<times> 'l action_state"

definition on_kb :: "('l action_state \<Rightarrow> 'l action_state) \<Rightarrow> 'l caps_state \<Rightarrow> 'l caps_state" where
  "on_kb f s = s\<lparr>kb := f (kb s)\<rparr>"

definition MOD_MASK_SHIFT :: u8 where "MOD_MASK_SHIFT = 0x22"

section \<open>The switch\<close>



definition caps_word_off :: "'l caps_cfg \<Rightarrow> 'l caps_state \<Rightarrow> 'l caps_state" where
  "caps_word_off c s =
    (if \<not> caps_word_active s then s
     else (let s = on_kb (unregister_weak_mods (acfg c) MOD_MASK_SHIFT) s
           in s\<lparr>caps_word_active := False, set_user := set_user s @ [False]\<rparr>))"


definition caps_word_task :: "'l caps_cfg \<Rightarrow> 'l caps_state \<Rightarrow> 'l caps_state" where
  "caps_word_task c s =
    (if CAPS_WORD_IDLE_TIMEOUT c > 0 \<and> caps_word_active s \<and> timer_expired (now (kb s)) (idle_timer s)
     then caps_word_off c s else s)"

section \<open>The handler\<close>












section \<open>What a word looks like\<close>

lemma clear_oneshot_mods_frame [simp]:
  "real_mods (clear_oneshot_mods cfg s) = real_mods s" "weak_mods (clear_oneshot_mods cfg s) = weak_mods s"
  "now (clear_oneshot_mods cfg s) = now s" "oneshot_mods (clear_oneshot_mods cfg s) = 0"
  by (simp_all add: clear_oneshot_mods_def emit_def stamp_oneshot_def)

lemma get_mods_mods:
  fixes s :: "'l action_state"
  shows
  "real_mods (snd (get_mods_for_report cfg s)) = real_mods s" "weak_mods (snd (get_mods_for_report cfg s)) = weak_mods s"
  "now (snd (get_mods_for_report cfg s)) = now s"
  "oneshot_mods s = 0 \<Longrightarrow> oneshot_mods (snd (get_mods_for_report cfg s)) = 0"
  by (simp_all add: get_mods_for_report_def Let_def)

lemma send_mods_frame [simp]:
  fixes s :: "'l action_state"
  shows
  "real_mods (host_keyboard_send cfg s) = real_mods s" "weak_mods (host_keyboard_send cfg s) = weak_mods s"
  "now (host_keyboard_send cfg s) = now s" "oneshot_mods (host_keyboard_send cfg s) = oneshot_mods s"
  "real_mods (host_nkro_send cfg s) = real_mods s" "weak_mods (host_nkro_send cfg s) = weak_mods s"
  "now (host_nkro_send cfg s) = now s" "oneshot_mods (host_nkro_send cfg s) = oneshot_mods s"
  by (simp_all add: host_keyboard_send_def host_nkro_send_def emit_def)

lemma send_report_mods [simp]:
  "real_mods (send_keyboard_report cfg s) = real_mods s" "weak_mods (send_keyboard_report cfg s) = weak_mods s"
  "now (send_keyboard_report cfg s) = now s" "oneshot_mods s = 0 \<Longrightarrow> oneshot_mods (send_keyboard_report cfg s) = 0"
  using get_mods_mods [where cfg = cfg and s = s]
  by (auto simp: send_keyboard_report_def send_nkro_report_def send_6kro_report_def Let_def split: prod.splits)











text \<open>The idle timeout.\<close>

lemma caps_word_times_out:
  assumes "caps_word_active s" "0 < CAPS_WORD_IDLE_TIMEOUT c" "unat (CAPS_WORD_IDLE_TIMEOUT c) \<le> 30000"
    and "idle_timer s = t + CAPS_WORD_IDLE_TIMEOUT c" "now (kb s) = t + d" "unat d \<le> 32767"
  shows "caps_word_active (caps_word_task c s) \<longleftrightarrow> d < CAPS_WORD_IDLE_TIMEOUT c"
proof -
  have "t + d - (t + CAPS_WORD_IDLE_TIMEOUT c) = d - CAPS_WORD_IDLE_TIMEOUT c" by simp
  moreover have "d - CAPS_WORD_IDLE_TIMEOUT c < 32767 \<longleftrightarrow> \<not> d < CAPS_WORD_IDLE_TIMEOUT c"
    using assms(2,3,6) by (simp add: word_less_nat_alt unat_sub_if') arith
  ultimately show ?thesis
    using assms by (simp add: caps_word_task_def timer_expired_def caps_word_off_def on_kb_def)
qed

section \<open>Properties\<close>






end
