(* ===== verification/SpaceCadet.thy ===== *)
theory SpaceCadet
  imports CapsWord ActionProps
begin

text \<open>
  Space cadet keys (\<^verbatim>\<open>process_space_cadet.c\<close>) and grave escape (\<^verbatim>\<open>process_grave_esc.c\<close>): keys that are a
  modifier while they are held and type a key when tapped, or type one of two keys.
\<close>

section \<open>Space cadet\<close>

record cadet =
  sc_last :: u8
  sc_timer :: u16
  sc_mods :: u8

definition cadet_init :: cadet where
  "cadet_init = \<lparr>sc_last = 0, sc_timer = 0, sc_mods = 0\<rparr>"

text \<open>What a key holds and taps: a modifier, a modifier for the tap and the key of the tap.\<close>

type_synonym cadet_keys = "u8 \<times> u8 \<times> u8"

record 'l cadet_cfg =
  cadet_acfg :: "'l action_cfg"
  SPACE_CADET_MODIFIER_CARRYOVER :: bool
  cadet_tapping_term :: "u16 \<Rightarrow> keyrecord \<Rightarrow> u16"
  LSPO_KEYS :: cadet_keys
  RSPC_KEYS :: cadet_keys
  LCPO_KEYS :: cadet_keys
  RCPC_KEYS :: cadet_keys
  LAPO_KEYS :: cadet_keys
  RAPC_KEYS :: cadet_keys
  SFTENT_KEYS :: cadet_keys

text \<open>The defaults; 1 is \<^verbatim>\<open>KC_TRANSPARENT\<close>, no modifier.\<close>

definition cadet_defaults :: "'l action_cfg \<Rightarrow> (u16 \<Rightarrow> keyrecord \<Rightarrow> u16) \<Rightarrow> 'l cadet_cfg" where
  "cadet_defaults cfg term_of =
    \<lparr>cadet_acfg = cfg, SPACE_CADET_MODIFIER_CARRYOVER = False, cadet_tapping_term = term_of,
     LSPO_KEYS = (0xE1, 0xE1, 0x26), RSPC_KEYS = (0xE5, 0xE5, 0x27), LCPO_KEYS = (0xE0, 0xE1, 0x26),
     RCPC_KEYS = (0xE4, 0xE5, 0x27), LAPO_KEYS = (0xE2, 0xE1, 0x26), RAPC_KEYS = (0xE6, 0xE5, 0x27),
     SFTENT_KEYS = (0xE5, 0x01, 0x28)\<rparr>"

definition perform_space_cadet ::
    "'l cadet_cfg \<Rightarrow> keyrecord \<Rightarrow> u16 \<Rightarrow> cadet_keys \<Rightarrow> cadet \<times> 'l action_state \<Rightarrow> cadet \<times> 'l action_state" where
  "perform_space_cadet c r sc_keycode keys st =
    (let (holdMod, tapMod, keycode) = keys; cfg = cadet_acfg c; (sc, s) = st in
     if pressed (event r) then
       (\<lparr>sc_last = holdMod, sc_timer = now s,
         sc_mods = if SPACE_CADET_MODIFIER_CARRYOVER c then real_mods s else sc_mods sc\<rparr>,
        if IS_MODIFIER_KEYCODE holdMod then register_mods cfg (MOD_BIT holdMod) s else s)
     else if sc_last sc = holdMod \<and> timer_diff (now s) (sc_timer sc) < cadet_tapping_term c sc_keycode r then
       (let s = (if holdMod \<noteq> tapMod then
                   (let s = (if IS_MODIFIER_KEYCODE holdMod then unregister_mods cfg (MOD_BIT holdMod) s else s)
                    in if IS_MODIFIER_KEYCODE tapMod then register_mods cfg (MOD_BIT tapMod) s else s)
                 else s);
            s = (if SPACE_CADET_MODIFIER_CARRYOVER c then set_weak_mods (sc_mods sc) s else s);
            s = tap_code cfg keycode s;
            s = (if SPACE_CADET_MODIFIER_CARRYOVER c then clear_weak_mods s else s)
        in (sc, if IS_MODIFIER_KEYCODE tapMod then unregister_mods cfg (MOD_BIT tapMod) s else s))
     else (sc, if IS_MODIFIER_KEYCODE holdMod then unregister_mods cfg (MOD_BIT holdMod) s else s))"

definition reset_space_cadet :: "cadet \<Rightarrow> cadet" where
  "reset_space_cadet sc = sc\<lparr>sc_last := 0\<rparr>"

definition cadet_keys_of :: "'l cadet_cfg \<Rightarrow> u16 \<Rightarrow> cadet_keys option" where
  "cadet_keys_of c keycode =
    (if keycode = 0x7C1A then Some (LSPO_KEYS c) else if keycode = 0x7C1B then Some (RSPC_KEYS c)
     else if keycode = 0x7C18 then Some (LCPO_KEYS c) else if keycode = 0x7C19 then Some (RCPC_KEYS c)
     else if keycode = 0x7C1C then Some (LAPO_KEYS c) else if keycode = 0x7C1D then Some (RAPC_KEYS c)
     else if keycode = 0x7C1E then Some (SFTENT_KEYS c) else None)"

definition process_space_cadet ::
    "'l cadet_cfg \<Rightarrow> u16 \<Rightarrow> keyrecord \<Rightarrow> cadet \<times> 'l action_state \<Rightarrow> bool \<times> cadet \<times> 'l action_state" where
  "process_space_cadet c keycode r st =
    (case cadet_keys_of c keycode of
       Some keys \<Rightarrow> (False, perform_space_cadet c r keycode keys st)
     | None \<Rightarrow> (True, if pressed (event r) then (reset_space_cadet (fst st), snd st) else st))"

section \<open>Grave escape\<close>

record grave_cfg =
  GRAVE_ESC_ALT_OVERRIDE :: bool
  GRAVE_ESC_CTRL_OVERRIDE :: bool
  GRAVE_ESC_GUI_OVERRIDE :: bool
  GRAVE_ESC_SHIFT_OVERRIDE :: bool

definition grave_shifted :: "grave_cfg \<Rightarrow> u8 \<Rightarrow> bool" where
  "grave_shifted g mods \<longleftrightarrow> mods AND 0xAA \<noteq> 0 \<and>
     \<not> (GRAVE_ESC_ALT_OVERRIDE g \<and> mods AND 0x44 \<noteq> 0) \<and> \<not> (GRAVE_ESC_CTRL_OVERRIDE g \<and> mods AND 0x11 \<noteq> 0) \<and>
     \<not> (GRAVE_ESC_GUI_OVERRIDE g \<and> mods AND 0x88 \<noteq> 0) \<and> \<not> (GRAVE_ESC_SHIFT_OVERRIDE g \<and> mods AND 0x22 \<noteq> 0)"

text \<open>\<open>was\<close> is the static \<^verbatim>\<open>grave_esc_was_shifted\<close>.\<close>

definition process_grave_esc ::
    "grave_cfg \<Rightarrow> 'l action_cfg \<Rightarrow> u16 \<Rightarrow> keyrecord \<Rightarrow> bool \<times> 'l action_state \<Rightarrow> bool \<times> bool \<times> 'l action_state" where
  "process_grave_esc g cfg keycode r st =
    (let (was, s) = st in
     if keycode = 0x7C16 then
       (let shifted = grave_shifted g (real_mods s) in
        if pressed (event r) then
          (False, shifted, send_keyboard_report cfg (add_key cfg (if shifted then 0x35 else 0x29) s))
        else
          (False, was, send_keyboard_report cfg (del_key cfg (if was then 0x35 else 0x29) s)))
     else (True, st))"

section \<open>No modifier is left behind\<close>

lemma key_ops_mods [simp]:
  "real_mods (add_key cfg k s) = real_mods s" "real_mods (del_key cfg k s) = real_mods s"
  by (auto simp: add_key_def del_key_def add_key_to_report_def del_key_from_report_def add_key_byte_def del_key_byte_def
      add_key_byte_plain_def add_key_byte_ring_def del_key_byte_plain_def del_key_byte_ring_def add_key_bit_def del_key_bit_def
      ring_append_def Let_def split: sum.splits option.splits prod.splits)

lemma other_sends_mods [simp]:
  "real_mods (host_system_send cfg u s) = real_mods s" "real_mods (host_consumer_send cfg u s) = real_mods s"
  "real_mods (emit m s) = real_mods s" "real_mods (wait_ms d s) = real_mods s"
  by (simp_all add: host_system_send_def host_consumer_send_def emit_def wait_ms_def Let_def)

lemma modifier_class: "IS_MODIFIER_KEYCODE k \<Longrightarrow> \<not> IS_BASIC_KEYCODE k \<and> k \<noteq> 0"
  by (auto simp: IS_MODIFIER_KEYCODE_def IS_BASIC_KEYCODE_def word_le_nat_alt)

lemma register_code_mods:
  "real_mods (register_code cfg k s) = real_mods s OR (if IS_MODIFIER_KEYCODE k \<and> locking_key cfg k = None then MOD_BIT k else 0)"
  by (auto simp: register_code_def tap_lock_def add_mods_def Let_def dest: modifier_class split: option.splits)

lemma unregister_code_mods:
  "real_mods (unregister_code cfg k s) = real_mods s AND NOT (if IS_MODIFIER_KEYCODE k \<and> locking_key cfg k = None then MOD_BIT k else 0)"
  by (auto simp: unregister_code_def del_mods_def Let_def dest: modifier_class split: option.splits)

lemma tap_code_mods: "bit (real_mods (tap_code cfg k s)) n \<Longrightarrow> bit (real_mods s) n"
  by (auto simp: tap_code_def tap_code_delay_def register_code_mods unregister_code_mods bit_simps split: if_splits)

lemma mods_register:
  "real_mods (register_mods cfg m s) = real_mods s OR m" "real_mods (unregister_mods cfg m s) = real_mods s AND NOT m"
  by (auto simp: register_mods_def unregister_mods_def add_mods_def del_mods_def)

lemma weak_ops_mods [simp]: "real_mods (set_weak_mods m s) = real_mods s" "real_mods (clear_weak_mods s) = real_mods s"
  by (simp_all add: set_weak_mods_def clear_weak_mods_def)

text \<open>
  Releasing a space cadet key takes its modifier from the report, tapped or held and whatever was pressed in between, and a tap
  adds none.
\<close>

lemma cadet_release_drops_modifier:
  assumes "\<not> pressed (event r)" "IS_MODIFIER_KEYCODE holdMod"
    and "bit (real_mods (snd (perform_space_cadet c r kc (holdMod, tapMod, k) (sc, s)))) n"
  shows "bit (real_mods s) n \<and> \<not> bit (MOD_BIT holdMod) n"
proof -
  have n: "n < 8" using assms(3) by (rule bit_imp_le_length [where 'a = 8, simplified])
  show ?thesis
    using assms n
    by (auto simp: perform_space_cadet_def Let_def mods_register bit_simps split: if_splits dest!: tap_code_mods)
qed

end
