(* ===== verification/Magic.thy ===== *)
theory Magic
  imports EeConfigProps Action KeyEvent
begin

text \<open>
  The magic keycodes (\<^verbatim>\<open>quantum/process_keycode/process_magic.c\<close>): each changes bits of the keymap
  configuration, which is read from the EEPROM and stored there again.
\<close>

unbundle bit_operations_syntax

section \<open>Definitions\<close>

text \<open>
  \<open>raw\<close> is \<^verbatim>\<open>keymap_config.raw\<close>. The action layer reads two of its bits, \<^verbatim>\<open>nkro\<close> (bit 7) and
  \<^verbatim>\<open>oneshot_enable\<close> (bit 10), which its own state holds.
\<close>

record ('e, 'l) magic_state =
  raw :: u16
  mem :: 'e
  mkb :: "'l action_state"

definition set_raw :: "u16 \<Rightarrow> ('e, 'l) magic_state \<Rightarrow> ('e, 'l) magic_state" where
  "set_raw r s = s\<lparr>raw := r, mkb := (mkb s)\<lparr>config_nkro := bit r 7, oneshot_enabled := bit r 10\<rparr>\<rparr>"

definition to_bit :: "nat \<Rightarrow> bool \<Rightarrow> u16 \<Rightarrow> u16" where
  "to_bit n b r = (if b then r OR push_bit n 1 else r AND NOT (push_bit n 1))"

text \<open>The bits of \<^verbatim>\<open>keymap_config_t\<close>, from the lowest on.\<close>

definition magic_change :: "u16 \<Rightarrow> u16 \<Rightarrow> u16" where
  "magic_change keycode r =
    (if keycode = 0x7000 then to_bit 0 True r
     else if keycode = 0x7020 then to_bit 11 True r
     else if keycode = 0x7004 then to_bit 1 True r
     else if keycode = 0x7005 then to_bit 2 True r
     else if keycode = 0x7007 then to_bit 3 True r
     else if keycode = 0x7017 then to_bit 8 True r
     else if keycode = 0x7019 then to_bit 9 True r
     else if keycode = 0x700A then to_bit 4 True r
     else if keycode = 0x700C then to_bit 5 True r
     else if keycode = 0x700E then to_bit 6 True r
     else if keycode = 0x7011 then to_bit 7 True r
     else if keycode = 0x7014 then to_bit 2 True (to_bit 3 True r)
     else if keycode = 0x701B then to_bit 8 True (to_bit 9 True r)
     else if keycode = 0x7001 then to_bit 0 False r
     else if keycode = 0x7021 then to_bit 11 False r
     else if keycode = 0x7003 then to_bit 1 False r
     else if keycode = 0x7006 then to_bit 2 False r
     else if keycode = 0x7008 then to_bit 3 False r
     else if keycode = 0x7018 then to_bit 8 False r
     else if keycode = 0x701A then to_bit 9 False r
     else if keycode = 0x7009 then to_bit 4 False r
     else if keycode = 0x700D then to_bit 5 False r
     else if keycode = 0x700F then to_bit 6 False r
     else if keycode = 0x7012 then to_bit 7 False r
     else if keycode = 0x7015 then to_bit 2 False (to_bit 3 False r)
     else if keycode = 0x701C then to_bit 8 False (to_bit 9 False r)
     else if keycode = 0x7016 then (let r = to_bit 2 (\<not> bit r 2) r in to_bit 3 (bit r 2) r)
     else if keycode = 0x701D then (let r = to_bit 8 (\<not> bit r 8) r in to_bit 9 (bit r 8) r)
     else if keycode = 0x7010 then to_bit 6 (\<not> bit r 6) r
     else if keycode = 0x7013 then to_bit 7 (\<not> bit r 7) r
     else if keycode = 0x700B then to_bit 4 (\<not> bit r 4) r
     else if keycode = 0x7002 then to_bit 0 (\<not> bit r 0) r
     else if keycode = 0x7022 then to_bit 11 (\<not> bit r 11) r
     else r)"

definition IS_MAGIC_KEYCODE :: "u16 \<Rightarrow> bool" where
  "IS_MAGIC_KEYCODE code \<longleftrightarrow> 0x7000 \<le> code \<and> code \<le> 0x7022"

definition process_magic ::
    "'e eeprom_ops \<Rightarrow> 'l action_cfg \<Rightarrow> u16 \<Rightarrow> keyrecord \<Rightarrow> ('e, 'l) magic_state \<Rightarrow> (bool \<times> ('e, 'l) magic_state) option" where
  "process_magic ops cfg keycode r s =
    (if pressed (event r) \<and> IS_MAGIC_KEYCODE keycode then
       do { v \<leftarrow> eeconfig_read_keymap ops (mem s);
            let s = set_raw v s;
            let s = (if keycode = 0x7011 \<or> keycode = 0x7012 \<or> keycode = 0x7013 then s\<lparr>mkb := clear_keyboard cfg (mkb s)\<rparr> else s);
            let s = set_raw (magic_change keycode (raw s)) s;
            e \<leftarrow> (if keycode = 0x701E then eeconfig_update_handedness ops True (mem s)
                  else if keycode = 0x701F then eeconfig_update_handedness ops False (mem s) else Some (mem s));
            e \<leftarrow> eeconfig_update_keymap ops (raw s) e;
            Some (False, s\<lparr>mem := e, mkb := clear_keyboard cfg (mkb s)\<rparr>) }
     else Some (True, s))"

section \<open>What a magic key does\<close>

text \<open>A switched pair is undone by its opposite, a toggle by itself, whatever the other bits are.\<close>

lemma bit_to_bit: "n < 16 \<Longrightarrow> bit (to_bit n b r) i \<longleftrightarrow> (if i = n then b else bit r i)"
  by (auto simp: to_bit_def bit_simps dest: bit_imp_le_length)

lemma to_bit_same: "n < 16 \<Longrightarrow> bit r n = b \<Longrightarrow> to_bit n b r = r"
  by (rule bit_word_eqI) (simp add: bit_to_bit)

lemma toggles_undo:
  "magic_change 0x7010 (magic_change 0x7010 r) = r" "magic_change 0x7013 (magic_change 0x7013 r) = r"
  "magic_change 0x700B (magic_change 0x700B r) = r" "magic_change 0x7002 (magic_change 0x7002 r) = r"
  "magic_change 0x7022 (magic_change 0x7022 r) = r"
  by (rule bit_word_eqI, simp add: magic_change_def bit_to_bit)+

text \<open>
  Pressing a magic key stores the changed configuration: the EEPROM and the running firmware hold the stored bits as they were,
  with the change of the key, and nothing but the keymap setting and, for two keys, the handedness is written.
\<close>

lemma magic_key_persists:
  assumes "eeprom ops cap bytes good" "EECONFIG_BASE_SIZE \<le> cap" "good (mem s)"
    and "pressed (event r)" "IS_MAGIC_KEYCODE keycode" "eeconfig_read_keymap ops (mem s) = Some v"
  shows "\<exists>s'. process_magic ops cfg keycode r s = Some (False, s') \<and> good (mem s') \<and> raw s' = magic_change keycode v \<and>
    eeconfig_read_keymap ops (mem s') = Some (magic_change keycode v) \<and>
    (\<forall>i < cap. i \<notin> {EECONFIG_KEYMAP, EECONFIG_KEYMAP + 1, EECONFIG_HANDEDNESS} \<longrightarrow> bytes (mem s') ! i = bytes (mem s) ! i)"
proof -
  note upd = eeprom.doesE [OF assms(1) eeprom.update_setting_law [OF assms(1,2)]]
  obtain e1 where e1: "(if keycode = 0x701E then eeconfig_update_handedness ops True (mem s)
      else if keycode = 0x701F then eeconfig_update_handedness ops False (mem s) else Some (mem s)) = Some e1" "good e1"
    "\<forall>i < cap. i \<noteq> EECONFIG_HANDEDNESS \<longrightarrow> bytes e1 ! i = bytes (mem s) ! i"
  proof -
    have l: "length (bytes (mem s)) = cap" by (rule eeprom.bytes_length [OF assms(1,3)])
    have hand: "\<exists>e'. eeconfig_update_handedness ops b (mem s) = Some e' \<and> good e' \<and>
        (\<forall>i < cap. i \<noteq> EECONFIG_HANDEDNESS \<longrightarrow> bytes e' ! i = bytes (mem s) ! i)" for b
    proof -
      obtain e' where "update_setting ops (Handedness b) (mem s) = Some e'" "good e'"
        "bytes e' = blit (bytes (mem s)) EECONFIG_HANDEDNESS [if b then 1 else 0]"
        by (rule upd [OF assms(3), of "Handedness b"]) simp
      then show ?thesis using assms(2) l by (auto simp: nth_blit eeconfig_addresses)
    qed
    show thesis
      using hand [of True] hand [of False] assms(3) that by (cases "keycode = 0x701E"; cases "keycode = 0x701F") auto
  qed
  obtain e2 where e2: "eeconfig_update_keymap ops (magic_change keycode v) e1 = Some e2" "good e2"
    "bytes e2 = blit (bytes e1) EECONFIG_KEYMAP (le_bytes 2 (magic_change keycode v))"
    using upd [OF e1(2), of "Keymap (magic_change keycode v)"] by auto
  have l: "length (bytes e1) = cap" by (rule eeprom.bytes_length [OF assms(1) e1(2)])
  have stored: "eeconfig_read_keymap ops e2 = Some (magic_change keycode v)"
    using eeprom.read_word_law [OF assms(1) e2(2), of EECONFIG_KEYMAP] assms(2) l
      bytes_at_blit_same [of EECONFIG_KEYMAP "le_bytes 2 (magic_change keycode v)" "bytes e1"]
    by (simp add: eeconfig_read_keymap_def e2(3) eeconfig_addresses le_value_bytes del: le_bytes.simps)
  have "bytes e2 ! i = bytes (mem s) ! i"
    if "i < cap" "i \<notin> {EECONFIG_KEYMAP, EECONFIG_KEYMAP + 1, EECONFIG_HANDEDNESS}" for i
    using that e1(3) assms(2) l by (auto simp: e2(3) nth_blit eeconfig_addresses simp del: le_bytes.simps)
  moreover have "\<exists>k. process_magic ops cfg keycode r s = Some (False, \<lparr>raw = magic_change keycode v, mem = e2, mkb = k\<rparr>)"
  proof -
    let ?s = "set_raw v s"
    let ?t = "if keycode = 0x7011 \<or> keycode = 0x7012 \<or> keycode = 0x7013 then ?s\<lparr>mkb := clear_keyboard cfg (mkb ?s)\<rparr> else ?s"
    have t: "raw ?t = v" "mem ?t = mem s" by (simp_all add: set_raw_def)
    have raw: "raw (set_raw x y) = x" and mem: "mem (set_raw x y) = mem y" for x :: u16 and y :: "('a, 'c) magic_state"
      by (simp_all add: set_raw_def)
    show ?thesis
      unfolding process_magic_def Let_def
      by (simp only: assms(4-6) t raw mem e1(1) e2(1) simp_thms if_True Option.bind_lunit) (cases s; simp add: set_raw_def)
  qed
  ultimately show ?thesis using e2(2) stored by force
qed

end
