(* ===== verification/SendString.thy ===== *)
theory SendString
  imports ActionProps "HOL-Library.Monad_Syntax"
begin

text \<open>
  Typing strings (\<^verbatim>\<open>quantum/send_string/send_string.c\<close>): characters by look-up tables, the escape
  sequences for taps, presses, releases and delays, and numbers in hexadecimal.
\<close>

unbundle bit_operations_syntax

section \<open>Tables and options\<close>

text \<open>
  The tables can be overridden by a keymap. \<open>INT_MAX\<close> is the range of \<^verbatim>\<open>int\<close> (the milliseconds of a delay
  are summed in one).
\<close>

record send_cfg =
  ascii_to_shift_lut :: "u8 list"
  ascii_to_altgr_lut :: "u8 list"
  ascii_to_dead_lut :: "u8 list"
  ascii_to_keycode_lut :: "u8 list"
  INT_MAX :: nat

definition KCLUT_ENTRY :: "bool list \<Rightarrow> u8" where
  "KCLUT_ENTRY bs = foldr (\<lambda>b w. (if b then 1 else 0) OR push_bit 1 w) bs 0"

definition us_shift_lut :: "u8 list" where
  "us_shift_lut = map (\<lambda>bs. KCLUT_ENTRY (map (\<lambda>d. d = (1 :: nat)) bs))
    [[0, 0, 0, 0, 0, 0, 0, 0],
     [0, 0, 0, 0, 0, 0, 0, 0],
     [0, 0, 0, 0, 0, 0, 0, 0],
     [0, 0, 0, 0, 0, 0, 0, 0],
     [0, 1, 1, 1, 1, 1, 1, 0],
     [1, 1, 1, 1, 0, 0, 0, 0],
     [0, 0, 0, 0, 0, 0, 0, 0],
     [0, 0, 1, 0, 1, 0, 1, 1],
     [1, 1, 1, 1, 1, 1, 1, 1],
     [1, 1, 1, 1, 1, 1, 1, 1],
     [1, 1, 1, 1, 1, 1, 1, 1],
     [1, 1, 1, 0, 0, 0, 1, 1],
     [0, 0, 0, 0, 0, 0, 0, 0],
     [0, 0, 0, 0, 0, 0, 0, 0],
     [0, 0, 0, 0, 0, 0, 0, 0],
     [0, 0, 0, 1, 1, 1, 1, 0]]"

definition us_keycode_lut :: "u8 list" where
  "us_keycode_lut =
    [0, 0, 0, 0, 0, 0, 0, 0,
     0x2A, 0x2B, 0x28, 0, 0, 0, 0, 0,
     0, 0, 0, 0, 0, 0, 0, 0,
     0, 0, 0, 0x29, 0, 0, 0, 0,
     0x2C, 0x1E, 0x34, 0x20, 0x21, 0x22, 0x24, 0x34,
     0x26, 0x27, 0x25, 0x2E, 0x36, 0x2D, 0x37, 0x38,
     0x27, 0x1E, 0x1F, 0x20, 0x21, 0x22, 0x23, 0x24,
     0x25, 0x26, 0x33, 0x33, 0x36, 0x2E, 0x37, 0x38,
     0x1F, 0x04, 0x05, 0x06, 0x07, 0x08, 0x09, 0x0A,
     0x0B, 0x0C, 0x0D, 0x0E, 0x0F, 0x10, 0x11, 0x12,
     0x13, 0x14, 0x15, 0x16, 0x17, 0x18, 0x19, 0x1A,
     0x1B, 0x1C, 0x1D, 0x2F, 0x31, 0x30, 0x23, 0x2D,
     0x35, 0x04, 0x05, 0x06, 0x07, 0x08, 0x09, 0x0A,
     0x0B, 0x0C, 0x0D, 0x0E, 0x0F, 0x10, 0x11, 0x12,
     0x13, 0x14, 0x15, 0x16, 0x17, 0x18, 0x19, 0x1A,
     0x1B, 0x1C, 0x1D, 0x2F, 0x31, 0x30, 0x35, 0x4C]"

definition us_tables :: "nat \<Rightarrow> send_cfg" where
  "us_tables int_max = \<lparr>ascii_to_shift_lut = us_shift_lut, ascii_to_altgr_lut = replicate 16 0, ascii_to_dead_lut = replicate 16 0,
     ascii_to_keycode_lut = us_keycode_lut, INT_MAX = int_max\<rparr>"

section \<open>Characters\<close>

text \<open>None is an access behind the end of a table.\<close>

definition PGM_LOADBIT :: "u8 list \<Rightarrow> nat \<Rightarrow> bool option" where
  "PGM_LOADBIT tab pos = (if pos div 8 < length tab then Some (bit (tab ! (pos div 8)) (pos mod 8)) else None)"

definition send_char_with_delay :: "send_cfg \<Rightarrow> 'l action_cfg \<Rightarrow> u8 \<Rightarrow> u8 \<Rightarrow> 'l action_state \<Rightarrow> 'l action_state option" where
  "send_char_with_delay t cfg interval c s =
    do { keycode \<leftarrow> (if unat c < length (ascii_to_keycode_lut t) then Some (ascii_to_keycode_lut t ! unat c) else None);
         is_shifted \<leftarrow> PGM_LOADBIT (ascii_to_shift_lut t) (unat c);
         is_altgred \<leftarrow> PGM_LOADBIT (ascii_to_altgr_lut t) (unat c);
         is_dead \<leftarrow> PGM_LOADBIT (ascii_to_dead_lut t) (unat c);
         (let pause = wait_ms (ucast interval);
             s = (if is_shifted then pause (register_code cfg 0xE1 s) else s);
             s = (if is_altgred then pause (register_code cfg 0xE6 s) else s);
             s = pause (tap_code_delay cfg keycode (ucast interval) s);
             s = (if is_altgred then pause (unregister_code cfg 0xE6 s) else s);
             s = (if is_shifted then pause (unregister_code cfg 0xE1 s) else s)
         in Some (if is_dead then pause (tap_code cfg 0x2C s) else s)) }"

definition send_char :: "send_cfg \<Rightarrow> 'l action_cfg \<Rightarrow> u8 \<Rightarrow> 'l action_state \<Rightarrow> 'l action_state option" where
  "send_char t cfg = send_char_with_delay t cfg (ucast (TAP_CODE_DELAY cfg))"

section \<open>Strings\<close>

text \<open>
  A string is the memory from its address on, with its terminator. The milliseconds of a delay: digits up to any other
  byte, which is skipped as well.
\<close>

definition isdigit :: "u8 \<Rightarrow> bool" where
  "isdigit c \<longleftrightarrow> 0x30 \<le> c \<and> c \<le> 0x39"

fun delay_ms :: "nat \<Rightarrow> nat \<Rightarrow> u8 list \<Rightarrow> (nat \<times> u8 list) option" where
  "delay_ms int_max ms [] = None"
| "delay_ms int_max ms (c # str) =
    (if isdigit c then
       (if ms * 10 + unat (c - 0x30) > int_max then None else delay_ms int_max (ms * 10 + unat (c - 0x30)) str)
     else Some (ms, str))"

lemma delay_ms_shorter: "delay_ms int_max ms str = Some (n, str') \<Longrightarrow> length str' < length str"
  by (induction int_max ms str rule: delay_ms.induct) (auto split: if_splits)

text \<open>What follows the prefix: the code with its argument, and the rest of the string.\<close>

definition escape :: "send_cfg \<Rightarrow> 'l action_cfg \<Rightarrow> u8 list \<Rightarrow> 'l action_state \<Rightarrow> ('l action_state \<times> u8 list) option" where
  "escape t cfg str s =
    (case str of
       [] \<Rightarrow> None
     | code # str \<Rightarrow>
         if code = 1 \<or> code = 2 \<or> code = 3 then
           (case str of
              [] \<Rightarrow> None
            | keycode # str \<Rightarrow>
                Some (if code = 1 then tap_code cfg keycode s
                      else if code = 2 then register_code cfg keycode s
                      else unregister_code cfg keycode s, str))
         else if code = 4 then
           do { (ms, str) \<leftarrow> delay_ms (INT_MAX t) 0 str; Some (wait_ms (of_nat ms) s, str) }
         else Some (s, str))"

lemma escape_shorter: "escape t cfg str s = Some (s', str') \<Longrightarrow> length str' < length str"
  by (auto simp: escape_def split: list.splits if_splits Option.bind_splits dest!: delay_ms_shorter)

text \<open>\<open>typed\<close> types a character, \<open>pause\<close> waits after an escape sequence.\<close>

function string_loop ::
    "(u8 \<Rightarrow> 'l action_state \<Rightarrow> 'l action_state option) \<Rightarrow> ('l action_state \<Rightarrow> 'l action_state) \<Rightarrow>
      send_cfg \<Rightarrow> 'l action_cfg \<Rightarrow> u8 list \<Rightarrow> 'l action_state \<Rightarrow> 'l action_state option" where
  "string_loop typed pause t cfg [] s = None"
| "string_loop typed pause t cfg (c # str) s =
    (if c = 0 then Some s
     else if c = 1 then
       (case escape t cfg str s of None \<Rightarrow> None | Some (s, str') \<Rightarrow> string_loop typed pause t cfg str' (pause s))
     else (case typed c s of None \<Rightarrow> None | Some s \<Rightarrow> string_loop typed pause t cfg str s))"
  by pat_completeness auto
termination
  by (relation "measure (\<lambda>(_, _, _, _, str, _). length str)") (auto dest!: escape_shorter)

definition send_string_with_delay :: "send_cfg \<Rightarrow> 'l action_cfg \<Rightarrow> u8 \<Rightarrow> u8 list \<Rightarrow> 'l action_state \<Rightarrow> 'l action_state option" where
  "send_string_with_delay t cfg interval =
     string_loop (send_char_with_delay t cfg interval) (wait_ms (ucast interval)) t cfg"

definition send_string :: "send_cfg \<Rightarrow> 'l action_cfg \<Rightarrow> u8 list \<Rightarrow> 'l action_state \<Rightarrow> 'l action_state option" where
  "send_string t cfg = send_string_with_delay t cfg (ucast (TAP_CODE_DELAY cfg))"

text \<open>On AVR strings in flash are typed by \<^verbatim>\<open>send_char\<close>; elsewhere \<^verbatim>\<open>send_string_P\<close> has no delay of its own.\<close>

definition send_string_with_delay_P :: "send_cfg \<Rightarrow> 'l action_cfg \<Rightarrow> u8 \<Rightarrow> u8 list \<Rightarrow> 'l action_state \<Rightarrow> 'l action_state option" where
  "send_string_with_delay_P t cfg interval =
     string_loop (\<lambda>c s. map_option (wait_ms (ucast interval)) (send_char t cfg c s)) (wait_ms (ucast interval)) t cfg"

definition send_string_P :: "bool \<Rightarrow> send_cfg \<Rightarrow> 'l action_cfg \<Rightarrow> u8 list \<Rightarrow> 'l action_state \<Rightarrow> 'l action_state option" where
  "send_string_P avr t cfg = (if avr then send_string_with_delay_P t cfg 0 else send_string_with_delay t cfg 0)"

section \<open>Numbers\<close>

definition send_nibble :: "send_cfg \<Rightarrow> 'l action_cfg \<Rightarrow> u8 \<Rightarrow> 'l action_state \<Rightarrow> 'l action_state option" where
  "send_nibble t cfg number s =
    (if number AND 0xF \<le> 9 then send_char t cfg (number + 0x30) s else send_char t cfg (number - 10 + 0x61) s)"

definition send_byte :: "send_cfg \<Rightarrow> 'l action_cfg \<Rightarrow> u8 \<Rightarrow> 'l action_state \<Rightarrow> 'l action_state option" where
  "send_byte t cfg number s = send_nibble t cfg (drop_bit 4 number) s \<bind> send_nibble t cfg (number AND 0xF)"

definition send_word :: "send_cfg \<Rightarrow> 'l action_cfg \<Rightarrow> u16 \<Rightarrow> 'l action_state \<Rightarrow> 'l action_state option" where
  "send_word t cfg number s = send_byte t cfg (ucast (drop_bit 8 number)) s \<bind> send_byte t cfg (ucast (number AND 0xFF))"

definition send_dword :: "send_cfg \<Rightarrow> 'l action_cfg \<Rightarrow> u32 \<Rightarrow> 'l action_state \<Rightarrow> 'l action_state option" where
  "send_dword t cfg number s =
     send_word t cfg (ucast (drop_bit 16 number)) s \<bind> send_word t cfg (ucast (number AND 0xFFFF))"

text \<open>\<open>random\<close> is the number drawn.\<close>

definition tap_random_base64 :: "send_cfg \<Rightarrow> 'l action_cfg \<Rightarrow> nat \<Rightarrow> 'l action_state \<Rightarrow> 'l action_state option" where
  "tap_random_base64 t cfg random =
    (let key = of_nat (random mod 64) :: u8 in
     send_char t cfg
       (if key \<le> 25 then key + 0x41 else if key \<le> 51 then key - 26 + 0x61 else if key = 52 then 0x30
        else if key \<le> 61 then key - 53 + 0x31 else if key = 62 then 0x2B else 0x2F))"

end
