(* ===== verification/SendStringProps.thy ===== *)
theory SendStringProps
  imports SendString
begin

text \<open>
  A host with the US layout reads back what was typed: its view of the reports is the list of the keys that
  go down, each with the modifiers of its report.
\<close>

unbundle bit_operations_syntax

section \<open>The host's reading\<close>

fun presses :: "u8 list \<Rightarrow> host_msg list \<Rightarrow> (u8 \<times> u8) list" where
  "presses down [] = []"
| "presses down (KeyboardReport ch m ks # ms) = map (Pair m) (filter (\<lambda>k. k \<noteq> 0 \<and> k \<notin> set down) ks) @ presses ks ms"
| "presses down (_ # ms) = presses down ms"

fun keys_down :: "u8 list \<Rightarrow> host_msg list \<Rightarrow> u8 list" where
  "keys_down down [] = down"
| "keys_down down (KeyboardReport ch m ks # ms) = keys_down ks ms"
| "keys_down down (_ # ms) = keys_down down ms"

lemma presses_append: "presses down (ms @ ms') = presses down ms @ presses (keys_down down ms) ms'"
  by (induction down ms rule: presses.induct) simp_all

lemma keys_down_append: "keys_down down (ms @ ms') = keys_down (keys_down down ms) ms'"
  by (induction down ms rule: keys_down.induct) simp_all

text \<open>The US layout: the characters of a key without and with shift.\<close>

definition us_keys :: "(u8 \<times> u8 \<times> u8) list" where
  "us_keys = map (\<lambda>i. (of_nat (0x04 + i), of_nat (0x61 + i), of_nat (0x41 + i))) [0..<26] @
    [(0x1E, 0x31, 0x21), (0x1F, 0x32, 0x40), (0x20, 0x33, 0x23), (0x21, 0x34, 0x24), (0x22, 0x35, 0x25), (0x23, 0x36, 0x5E),
     (0x24, 0x37, 0x26), (0x25, 0x38, 0x2A), (0x26, 0x39, 0x28), (0x27, 0x30, 0x29), (0x28, 0x0A, 0x0A), (0x29, 0x1B, 0x1B),
     (0x2A, 0x08, 0x08), (0x2B, 0x09, 0x09), (0x2C, 0x20, 0x20), (0x2D, 0x2D, 0x5F), (0x2E, 0x3D, 0x2B), (0x2F, 0x5B, 0x7B),
     (0x30, 0x5D, 0x7D), (0x31, 0x5C, 0x7C), (0x33, 0x3B, 0x3A), (0x34, 0x27, 0x22), (0x35, 0x60, 0x7E), (0x36, 0x2C, 0x3C),
     (0x37, 0x2E, 0x3E), (0x38, 0x2F, 0x3F), (0x4C, 0x7F, 0x7F)]"

definition us_char :: "u8 \<times> u8 \<Rightarrow> u8 option" where
  "us_char = (\<lambda>(mods, k). map_option (\<lambda>(plain, shifted). if mods AND 0x22 \<noteq> 0 then shifted else plain) (map_of us_keys k))"

definition typeable :: "u8 \<Rightarrow> bool" where
  "typeable c \<longleftrightarrow> 0x20 \<le> c \<and> c \<le> 0x7F \<or> c = 0x08 \<or> c = 0x09 \<or> c = 0x0A \<or> c = 0x1B"

definition lut_key :: "u8 \<Rightarrow> u8" where "lut_key c = us_keycode_lut ! unat c"
definition lut_shift :: "u8 \<Rightarrow> bool" where "lut_shift c = bit (us_shift_lut ! (unat c div 8)) (unat c mod 8)"

definition lut_right :: "u8 \<Rightarrow> bool" where
  "lut_right c \<longleftrightarrow> us_char (if lut_shift c then 2 else 0, lut_key c) = Some c \<and> 4 \<le> lut_key c \<and> lut_key c \<le> 0x4C"

lemma luts_right: "list_all lut_right ([0x08, 0x09, 0x0A, 0x1B] @ map of_nat [0x20..<0x80])"
  by code_simp

lemma typeable_right: "typeable c \<Longrightarrow> lut_right c" "typeable c \<Longrightarrow> unat c < 128"
proof -
  have "c \<in> set (map of_nat [0x20..<0x80])" if "0x20 \<le> c" "c \<le> 0x7F"
  proof -
    have "unat c \<in> set [0x20..<0x80]" using that unfolding set_upt by (simp add: word_le_nat_alt)
    then show ?thesis unfolding set_map by (intro image_eqI [of _ _ "unat c"]) simp_all
  qed
  then show "typeable c \<Longrightarrow> lut_right c"
    using luts_right unfolding typeable_def list_all_iff set_append by auto
  show "typeable c \<Longrightarrow> unat c < 128"
    by (auto simp: typeable_def word_le_nat_alt)
qed

section \<open>Keys while nothing is held\<close>

definition no_keys :: "u8 list" where "no_keys = replicate 6 0"

text \<open>A keyboard in step with its host that sends six-key reports and holds nothing but the modifiers \<open>m\<close>.\<close>

definition holding :: "u8 \<Rightarrow> 'l action_cfg \<Rightarrow> 'l action_state \<Rightarrow> bool" where
  "holding m cfg s \<longleftrightarrow> driver cfg \<and> \<not> PROTOCOL_VUSB cfg \<and> \<not> RING_BUFFERED cfg \<and> \<not> use_nkro cfg s \<and>
     (\<forall>k. \<not> command_proc cfg k) \<and> report_keys s = no_keys \<and> real_mods s = m \<and> weak_mods s = 0 \<and> oneshot_mods s = 0 \<and>
     suppressed_mods s = 0 \<and> weak_override_mods s = 0 \<and> last_6kro s = (m, no_keys)"

definition chan :: "'l action_cfg \<Rightarrow> channel" where
  "chan cfg = (if to_bluetooth cfg then Bluetooth else Usb)"

lemma send_plain:
  assumes "driver cfg" "\<not> PROTOCOL_VUSB cfg" "\<not> use_nkro cfg s" "weak_mods s = 0" "oneshot_mods s = 0" "suppressed_mods s = 0"
    "weak_override_mods s = 0" "(real_mods s, report_keys s) \<noteq> last_6kro s"
  shows "send_keyboard_report cfg s = s\<lparr>report_mods := real_mods s, last_6kro := (real_mods s, report_keys s),
     out := out s @ [KeyboardReport (chan cfg) (real_mods s) (report_keys s)]\<rparr>"
  using assms
  by (simp add: send_keyboard_report_def send_6kro_report_def get_mods_for_report_def host_keyboard_send_def emit_def chan_def Let_def)

lemma press_on_empty:
  assumes "\<not> RING_BUFFERED cfg" "\<not> use_nkro cfg s" "report_keys s = no_keys" "k \<noteq> 0"
  shows "add_key cfg k s = s\<lparr>report_keys := [k, 0, 0, 0, 0, 0]\<rparr>" "\<not> is_key_pressed cfg k s"
  using assms
  by (auto simp: add_key_def add_key_to_report_def add_key_byte_def add_key_byte_plain_def no_keys_def key_pressed_cases
      byte_pressed_def use_nkro_def numeral_eq_Suc)

lemma release_last:
  assumes "\<not> RING_BUFFERED cfg" "\<not> use_nkro cfg s" "report_keys s = [k, 0, 0, 0, 0, 0]"
  shows "del_key cfg k s = s\<lparr>report_keys := no_keys\<rparr>"
  using assms
  by (simp add: del_key_def del_key_from_report_def del_key_byte_def del_key_byte_plain_def no_keys_def numeral_eq_Suc)

lemma shift_down:
  assumes "holding 0 cfg s"
  shows "holding 2 cfg (register_code cfg 0xE1 s)"
    "out (register_code cfg 0xE1 s) = out s @ [KeyboardReport (chan cfg) 2 no_keys]"
  using assms
  by (auto simp: register_code_def locking_key_def IS_BASIC_KEYCODE_def IS_MODIFIER_KEYCODE_def add_mods_def MOD_BIT_def send_plain
      holding_def use_nkro_def split: prod.splits)

lemma shift_up:
  assumes "holding 2 cfg s"
  shows "holding 0 cfg (unregister_code cfg 0xE1 s)"
    "out (unregister_code cfg 0xE1 s) = out s @ [KeyboardReport (chan cfg) 0 no_keys]"
  using assms
  by (auto simp: unregister_code_def locking_key_def IS_BASIC_KEYCODE_def IS_MODIFIER_KEYCODE_def del_mods_def MOD_BIT_def send_plain
      holding_def use_nkro_def split: prod.splits)

lemma wait_holding [simp]: "holding m cfg (wait_ms d s) = holding m cfg s" "out (wait_ms d s) = out s"
  by (simp_all add: holding_def wait_ms_def use_nkro_def)

lemma key_tap:
  assumes "holding m cfg s" "4 \<le> k" "k \<le> 0x4C"
  shows "holding m cfg (tap_code_delay cfg k d s)"
    "out (tap_code_delay cfg k d s) =
       out s @ [CommandCall k, KeyboardReport (chan cfg) m [k, 0, 0, 0, 0, 0], KeyboardReport (chan cfg) m no_keys]"
proof -
  have k: "k \<noteq> 0" "IS_BASIC_KEYCODE k" "locking_key cfg k = None"
    using assms(2,3) by (auto simp: IS_BASIC_KEYCODE_def locking_key_def word_le_nat_alt split: prod.splits)
  have ne: "[k, 0, 0, 0, 0, 0] \<noteq> no_keys" "no_keys \<noteq> [k, 0, 0, 0, 0, 0]" using k(1) by (auto simp: no_keys_def numeral_eq_Suc)
  let ?e = "emit (CommandCall k) s"
  have h: "holding m cfg ?e" "out ?e = out s @ [CommandCall k]" using assms(1) by (simp_all add: holding_def emit_def use_nkro_def)
  let ?d = "?e\<lparr>report_keys := [k, 0, 0, 0, 0, 0]\<rparr>"
  have e: "add_key cfg k ?e = ?d" "\<not> is_key_pressed cfg k ?e"
    using press_on_empty [OF _ _ _ k(1), of cfg ?e] h by (simp_all add: holding_def)
  have r: "register_code cfg k s = ?d\<lparr>report_mods := m, last_6kro := (m, [k, 0, 0, 0, 0, 0]),
      out := out s @ [CommandCall k, KeyboardReport (chan cfg) m [k, 0, 0, 0, 0, 0]]\<rparr>" (is "_ = ?r")
    using h k e ne by (simp add: register_code_def holding_def send_plain use_nkro_def)
  have u: "tap_code_delay cfg k d s = (wait_ms d ?r)\<lparr>report_keys := no_keys, report_mods := m, last_6kro := (m, no_keys),
      out := out s @ [CommandCall k, KeyboardReport (chan cfg) m [k, 0, 0, 0, 0, 0], KeyboardReport (chan cfg) m no_keys]\<rparr>"
    using h(1) k unfolding tap_code_delay_def r
    using ne by (simp add: unregister_code_def release_last holding_def send_plain use_nkro_def wait_ms_def)
  show "holding m cfg (tap_code_delay cfg k d s)"
    "out (tap_code_delay cfg k d s) =
       out s @ [CommandCall k, KeyboardReport (chan cfg) m [k, 0, 0, 0, 0, 0], KeyboardReport (chan cfg) m no_keys]"
    using h(1) unfolding u by (simp_all add: holding_def use_nkro_def wait_ms_def)
qed

lemma char_typed:
  assumes "holding 0 cfg s" "typeable c"
  shows "\<exists>s' ms. send_char_with_delay (us_tables im) cfg interval c s = Some s' \<and> holding 0 cfg s' \<and> out s' = out s @ ms \<and>
    presses no_keys ms = [(if lut_shift c then 2 else 0, lut_key c)] \<and> keys_down no_keys ms = no_keys"
proof -
  have c: "unat c < 128" "4 \<le> lut_key c" "lut_key c \<le> 0x4C"
    using typeable_right [OF assms(2)] by (auto simp: lut_right_def)
  have l: "length us_shift_lut = 16" "length us_keycode_lut = 128" by (simp_all add: us_shift_lut_def us_keycode_lut_def)
  have luts: "PGM_LOADBIT (replicate 16 0) (unat c) = Some False" "PGM_LOADBIT us_shift_lut (unat c) = Some (lut_shift c)"
    using c(1) l by (simp_all add: PGM_LOADBIT_def lut_shift_def less_mult_imp_div_less)
  have k0: "lut_key c \<noteq> 0" using c(2) by auto
  show ?thesis
  proof (cases "lut_shift c")
    case True
    let ?w = "wait_ms (ucast interval) :: 'a action_state \<Rightarrow> 'a action_state"
    let ?s1 = "?w (register_code cfg 0xE1 s)"
    let ?s2 = "?w (tap_code_delay cfg (lut_key c) (ucast interval) ?s1)"
    let ?s3 = "?w (unregister_code cfg 0xE1 ?s2)"
    have h1: "holding 2 cfg ?s1" using shift_down(1) [OF assms(1)] by simp
    have h2: "holding 2 cfg ?s2" using key_tap(1) [OF h1 c(2,3)] by simp
    have h3: "holding 0 cfg ?s3" using shift_up(1) [OF h2] by simp
    have "send_char_with_delay (us_tables im) cfg interval c s = Some ?s3"
      using True c l luts by (simp add: send_char_with_delay_def us_tables_def lut_key_def Let_def)
    then show ?thesis
      using h3 True k0 shift_down(2) [OF assms(1)] key_tap(2) [OF h1 c(2,3)] shift_up(2) [OF h2] by (auto simp: no_keys_def)
  next
    case False
    let ?s1 = "wait_ms (ucast interval) (tap_code_delay cfg (lut_key c) (ucast interval) s)"
    have "send_char_with_delay (us_tables im) cfg interval c s = Some ?s1"
      using False c l luts by (simp add: send_char_with_delay_def us_tables_def lut_key_def Let_def)
    then show ?thesis
      using False k0 key_tap [OF assms(1) c(2,3)] by (auto simp: no_keys_def)
  qed
qed

section \<open>Strings\<close>

text \<open>What it takes for a character or a string to be read back: the messages sent, and that nothing is held.\<close>

definition reads_back :: "'l action_cfg \<Rightarrow> 'l action_state \<Rightarrow> u8 list \<Rightarrow> 'l action_state option \<Rightarrow> bool" where
  "reads_back cfg s str r \<longleftrightarrow> (\<exists>s' ms. r = Some s' \<and> holding 0 cfg s' \<and> out s' = out s @ ms \<and>
     map us_char (presses no_keys ms) = map Some str \<and> keys_down no_keys ms = no_keys)"

lemma reads_back_char:
  assumes "holding 0 cfg s" "typeable c"
  shows "reads_back cfg s [c] (send_char_with_delay (us_tables im) cfg interval c s)"
  using char_typed [OF assms, of im interval] typeable_right(1) [OF assms(2)] unfolding reads_back_def lut_right_def
  by (metis list.simps(8) list.simps(9))

lemma reads_back_nothing: "holding 0 cfg s \<Longrightarrow> reads_back cfg s [] (Some s)"
  unfolding reads_back_def by (intro exI [of _ s] exI [of _ "[]"]) simp

lemma reads_back_seq:
  assumes "reads_back cfg s xs r" "\<And>s'. holding 0 cfg s' \<Longrightarrow> reads_back cfg s' ys (f s')"
  shows "reads_back cfg s (xs @ ys) (Option.bind r f)"
proof -
  obtain s1 ms where 1: "r = Some s1" "holding 0 cfg s1" "out s1 = out s @ ms" "map us_char (presses no_keys ms) = map Some xs"
    "keys_down no_keys ms = no_keys" using assms(1) by (auto simp: reads_back_def)
  obtain s2 ms' where 2: "f s1 = Some s2" "holding 0 cfg s2" "out s2 = out s1 @ ms'" "map us_char (presses no_keys ms') = map Some ys"
    "keys_down no_keys ms' = no_keys" using assms(2) [OF 1(2)] by (auto simp: reads_back_def)
  have "map us_char (presses no_keys (ms @ ms')) = map Some (xs @ ys)" "keys_down no_keys (ms @ ms') = no_keys"
    using 1(4,5) 2(4,5) by (simp_all add: presses_append keys_down_append)
  moreover have "Option.bind r f = Some s2" "out s2 = out s @ (ms @ ms')" using 1(1,3) 2(1,3) by simp_all
  ultimately show ?thesis using 2(2) unfolding reads_back_def by blast
qed

lemma reads_back_loop:
  assumes "\<And>s c. holding 0 cfg s \<Longrightarrow> typeable c \<Longrightarrow> reads_back cfg s [c] (typed c s)"
    and "holding 0 cfg s" "list_all typeable str"
  shows "reads_back cfg s str (string_loop typed pause t cfg (str @ [0]) s)"
  using assms(2,3)
proof (induction str arbitrary: s)
  case Nil
  then show ?case by (simp add: reads_back_nothing)
next
  case (Cons c str)
  have c: "typeable c" "c \<noteq> 0" "c \<noteq> 1" using Cons.prems(2) by (auto simp: typeable_def word_le_nat_alt)
  have "string_loop typed pause t cfg ((c # str) @ [0]) s = typed c s \<bind> string_loop typed pause t cfg (str @ [0])"
    using c by (simp split: option.split)
  then show ?case
    using reads_back_seq [OF assms(1) [OF Cons.prems(1) c(1)] Cons.IH] Cons.prems(2) by simp
qed

text \<open>
  A string of typeable characters, sent from a keyboard that holds nothing, is read back by a host with the US
  layout as it was, and nothing is held afterwards.
\<close>

lemma host_reads_sent_string:
  assumes "holding 0 cfg s" "list_all typeable str"
  shows "reads_back cfg s str (send_string_with_delay (us_tables im) cfg interval (str @ [0]) s)"
  unfolding send_string_with_delay_def by (rule reads_back_loop [OF reads_back_char assms])

lemma host_reads_string_P:
  assumes "holding 0 cfg s" "list_all typeable str"
  shows "reads_back cfg s str (send_string_P avr (us_tables im) cfg (str @ [0]) s)"
proof -
  have "reads_back cfg s [c] (map_option (wait_ms (ucast 0)) (send_char (us_tables im) cfg c s))"
    if "holding 0 cfg s" "typeable c" for s c
    using reads_back_char [OF that, of im "ucast (TAP_CODE_DELAY cfg)"] unfolding send_char_def reads_back_def by force
  then show ?thesis
    using host_reads_sent_string [OF assms] reads_back_loop [OF _ assms]
    by (simp add: send_string_P_def send_string_with_delay_P_def)
qed

text \<open>The departures from the documentation: a prefix without a code, and bytes that are not ASCII.\<close>

lemma prefix_at_end_overruns: "send_string_with_delay t cfg interval [1, 0] s = None"
  by (simp add: send_string_with_delay_def escape_def)

lemma non_ascii_overruns:
  assumes "0x80 \<le> c"
  shows "send_char_with_delay (us_tables im) cfg interval c s = None"
proof -
  have "128 \<le> unat c" using assms by (simp add: word_le_nat_alt)
  then show ?thesis by (simp add: send_char_with_delay_def us_tables_def us_keycode_lut_def)
qed

end
