(* ===== verification/MacroText.thy ===== *)
theory MacroText
  imports ViaProps KeymapMacros SendStringProps
begin

text \<open>
  From the macro buffer to the host: \<^verbatim>\<open>process_record_via\<close> calls \<^verbatim>\<open>dynamic_keymap_macro_send\<close>, which reads
  a macro from the EEPROM and sends it piece by piece with \<^verbatim>\<open>send_string_with_delay\<close>.
\<close>

section \<open>Sending the pieces\<close>

definition send_pieces :: "send_cfg \<Rightarrow> 'l action_cfg \<Rightarrow> u8 \<Rightarrow> u8 list list \<Rightarrow> 'l action_state \<Rightarrow> 'l action_state option" where
  "send_pieces t cfg interval = each (\<lambda>str. send_string_with_delay t cfg interval (str @ [0]))"

lemma host_reads_pieces:
  assumes "holding 0 cfg s" "list_all typeable str"
  shows "reads_back cfg s str (send_pieces (us_tables im) cfg interval (map (\<lambda>c. [c]) str) s)"
  using assms
proof (induction str arbitrary: s)
  case Nil
  then show ?case by (simp add: send_pieces_def reads_back_nothing)
next
  case (Cons c str)
  have "reads_back cfg s [c] (send_string_with_delay (us_tables im) cfg interval ([c] @ [0]) s)"
    by (rule host_reads_sent_string) (use Cons.prems in simp_all)
  from reads_back_seq [OF this Cons.IH] show ?case using Cons.prems(2) by (simp add: send_pieces_def)
qed

section \<open>Reading a macro\<close>

text \<open>\<open>xs\<close> is in the EEPROM at \<open>p\<close>.\<close>

definition at_place :: "'e eeprom_ops \<Rightarrow> 'e \<Rightarrow> nat \<Rightarrow> u8 list \<Rightarrow> bool" where
  "at_place ops e p xs \<longleftrightarrow> (\<forall>j < length xs. eeprom_read_byte ops (p + j) e = Some (xs ! j))"

lemma at_place_Cons: "at_place ops e p (x # xs) \<longleftrightarrow> eeprom_read_byte ops p e = Some x \<and> at_place ops e (p + 1) xs"
  by (auto simp: at_place_def nth_Cons split: nat.split)

lemma at_place_append: "at_place ops e p (xs @ ys) \<longleftrightarrow> at_place ops e p xs \<and> at_place ops e (p + length xs) ys"
  by (induction xs arbitrary: p) (auto simp: at_place_Cons at_place_def [of _ _ _ "[]"])

lemma skip_one_macro:
  assumes "at_place ops e p (m @ [0])" "0 \<notin> set m" "p + length m < fin"
  shows "skip_macros ops (Suc n) p fin e = skip_macros ops n (p + length m + 1) fin e"
  using assms
proof (induction m arbitrary: p)
  case Nil
  then show ?case by (simp add: at_place_Cons skip_macros.simps [of ops "Suc n" p])
next
  case (Cons c m)
  then show ?case using Cons.IH [of "p + 1"] by (simp add: at_place_Cons skip_macros.simps [of ops "Suc n" p])
qed

definition stored_macros :: "u8 list list \<Rightarrow> u8 list" where
  "stored_macros ms = concat (map (\<lambda>m. m @ [0]) ms)"

lemma skip_to_macro:
  assumes "at_place ops e p (stored_macros ms)" "\<forall>m \<in> set ms. 0 \<notin> set m" "p + length (stored_macros ms) \<le> fin" "n < length ms"
  shows "skip_macros ops n p fin e = Some (Some (p + length (stored_macros (take n ms))))"
  using assms
proof (induction ms arbitrary: n p)
  case (Cons m ms)
  show ?case
  proof (cases n)
    case 0
    then show ?thesis by (simp add: skip_macros.simps stored_macros_def)
  next
    case (Suc n')
    have m: "at_place ops e p (m @ [0])" "at_place ops e (p + length (m @ [0])) (stored_macros ms)"
      using Cons.prems(1) unfolding stored_macros_def list.map concat.simps at_place_append by blast+
    have "skip_macros ops (Suc n') p fin e = skip_macros ops n' (p + length m + 1) fin e"
      using m(1) Cons.prems(2,3) by (intro skip_one_macro) (simp_all add: stored_macros_def)
    then show ?thesis
      using Cons.IH [of "p + length (m @ [0])" n'] m(2) Cons.prems(2-4) Suc by (simp add: stored_macros_def)
  qed
qed simp

lemma macro_strings_text:
  assumes "at_place ops e p (m @ [0])" "\<forall>c \<in> set m. c \<noteq> 0 \<and> c \<noteq> 1"
  shows "macro_strings ops p rest e = Some (map (\<lambda>c. [c]) m)"
  using assms
proof (induction m arbitrary: p)
  case Nil
  then have "macro_next ops p rest e = Some Stop" by (simp add: at_place_Cons macro_next_def)
  then show ?case by (simp add: macro_strings.simps [of ops p])
next
  case (Cons c m)
  then have "macro_next ops p rest e = Some (Send [c] (p + 1) rest)" by (simp add: at_place_Cons macro_next_def)
  moreover have "macro_strings ops (p + 1) rest e = Some (map (\<lambda>c. [c]) m)" using Cons by (simp add: at_place_Cons)
  ultimately show ?case by (simp add: macro_strings.simps [of ops p])
qed

lemma macro_send_text:
  assumes "eeprom ops cap bytes good" "dk_static_asserts k cap" "good e" "macro_area k (bytes e) = stored_macros ms @ rest"
    "last (macro_area k (bytes e)) = 0" "n < length ms" "n < MACRO_COUNT k" "\<forall>m \<in> set ms. 0 \<notin> set m" "1 \<notin> set (ms ! n)"
  shows "dynamic_keymap_macro_send k ops n e = Some (map (\<lambda>c. [c]) (ms ! n))"
proof -
  let ?a = "MACRO_EEPROM_ADDR k" and ?n = "MACRO_EEPROM_SIZE k"
  note b = macro_area_bounds [OF assms(2)]
  have l: "length (bytes e) = cap" by (rule eeprom.bytes_length [OF assms(1,3)])
  have la: "length (macro_area k (bytes e)) = ?n" using b l by (simp add: macro_area_def)
  have area: "at_place ops e ?a (macro_area k (bytes e))"
    using b l eeprom.read_byte_law [OF assms(1,3)] by (auto simp: at_place_def macro_area_def nth_bytes_at)
  then have stored: "at_place ops e ?a (stored_macros ms)" unfolding assms(4) at_place_append by blast
  have fits: "length (stored_macros ms) \<le> ?n" using la unfolding assms(4) by simp
  have "macro_area k (bytes e) ! (?n - 1) = 0" using assms(5) la b(2) by (subst (asm) last_conv_nth) auto
  then have lst: "eeprom_read_byte ops (?a + ?n - 1) e = Some 0"
    using area [unfolded at_place_def, rule_format, of "?n - 1"] la b(2) by simp
  have skip: "skip_macros ops n ?a (?a + ?n) e = Some (Some (?a + length (stored_macros (take n ms))))"
    using assms(6,8) fits by (intro skip_to_macro [OF stored]) simp_all
  have "stored_macros ms = stored_macros (take n ms) @ (ms ! n @ [0]) @ stored_macros (drop (Suc n) ms)"
    unfolding stored_macros_def using assms(6) by (subst (1) id_take_nth_drop [OF assms(6)]) simp
  then have "at_place ops e (?a + length (stored_macros (take n ms))) (ms ! n @ [0])"
    using stored at_place_append by metis
  then have "macro_strings ops (?a + length (stored_macros (take n ms))) (replicate 6 0) e = Some (map (\<lambda>c. [c]) (ms ! n))"
    using assms(6,8,9) by (intro macro_strings_text) (auto dest: nth_mem)
  then show ?thesis using assms(7) lst skip by (simp add: dynamic_keymap_macro_send_def)
qed

section \<open>Properties\<close>

text \<open>
  C17: on a keyboard that holds no key and no modifier, of any kind, with the plain six-key report, a driver other than V-USB and
  no command handler: when the macro buffer holds texts of typeable characters, the macro keycode of VIA with the number of one
  of them makes a host with the US layout read exactly that text, and leaves no key down.
\<close>

theorem macro_key_types_stored_text:
  assumes "eeprom ops cap bytes good" "dk_static_asserts (dk v) cap" "good e"
    and "macro_area (dk v) (bytes e) = stored_macros ms @ rest" "last (macro_area (dk v) (bytes e)) = 0"
    and "n < length ms" "n < MACRO_COUNT (dk v)" "n < 128" "\<forall>m \<in> set ms. list_all typeable m" "holding 0 cfg s"
  shows "\<exists>strs s' msgs. process_record_via v ops (0x7700 + of_nat n) True e = Some (False, strs) \<and>
    send_pieces (us_tables im) cfg interval strs s = Some s' \<and> holding 0 cfg s' \<and> out s' = out s @ msgs \<and>
    map us_char (presses no_keys msgs) = map Some (ms ! n) \<and> keys_down no_keys msgs = no_keys"
proof -
  have chars: "0 \<notin> set m \<and> 1 \<notin> set m" if "m \<in> set ms" for m
  proof -
    have "\<not> typeable 0" "\<not> typeable 1" by (simp_all add: typeable_def word_le_nat_alt)
    then show ?thesis using assms(9) that unfolding list_all_iff by metis
  qed
  have keycode: "(0x7700 :: u16) \<le> 0x7700 + of_nat n" "(0x7700 :: u16) + of_nat n \<le> 0x777F"
    "unat (ucast (of_nat n :: u16) :: u8) = n"
    using assms(8) by (simp_all add: word_le_nat_alt unat_of_nat unat_word_ariths unsigned_ucast_eq take_bit_eq_mod)
  have "dynamic_keymap_macro_send (dk v) ops n e = Some (map (\<lambda>c. [c]) (ms ! n))"
    using assms(6) chars by (intro macro_send_text [OF assms(1-5,6,7)]) (auto dest: nth_mem)
  moreover have "list_all typeable (ms ! n)" using assms(6,9) by simp
  ultimately show ?thesis
    using host_reads_pieces [OF assms(10), of "ms ! n" im interval] keycode by (simp add: process_record_via_def reads_back_def)
qed

text \<open>Two texts in the buffer of the demonstration keyboard; the key of the first types \<open>Hi!\<close>.\<close>

definition two_macros :: "u8 list" where
  "two_macros = zeros 45 @ stored_macros [[0x48, 0x69, 0x21], [0x61]] @ zeros 149"

lemma macro_key_types_stored_text_witness:
  "\<exists>strs s' msgs. process_record_via demo_via transient_ops 0x7700 True two_macros = Some (False, strs) \<and>
    send_pieces (us_tables 32767) usb_cfg 0 strs (action_init :: (16 word) action_state) = Some s' \<and> out s' = msgs \<and>
    map us_char (presses no_keys msgs) = [Some 0x48, Some 0x69, Some 0x21]"
proof -
  have area: "macro_area (dk demo_via) two_macros = stored_macros [[0x48, 0x69, 0x21], [0x61]] @ zeros 149"
    by (simp add: macro_area_def two_macros_def stored_macros_def demo_via_def MACRO_EEPROM_ADDR_def MACRO_EEPROM_SIZE_def
        ENCODER_EEPROM_ADDR_def keymap_bytes_def bytes_at_def zeros_def)
  have "dk_static_asserts (dk demo_via) 200" using demo_via_facts(2) by (simp add: via_layout_def)
  moreover have "length two_macros = 200 \<and> (200 :: nat) < 2 ^ 32"
    by (simp add: two_macros_def stored_macros_def zeros_def)
  moreover have "last (macro_area (dk demo_via) two_macros) = 0" unfolding area by (simp add: zeros_def)
  moreover have "holding 0 usb_cfg (action_init :: (16 word) action_state)"
    by (simp add: holding_def usb_cfg_def action_init_def use_nkro_def no_keys_def)
  moreover have "\<forall>m \<in> set [[0x48, 0x69, 0x21], [0x61]]. list_all typeable m" by (simp add: typeable_def)
  moreover have "out (action_init :: (16 word) action_state) = []" by (simp add: action_init_def)
  ultimately show ?thesis
    using macro_key_types_stored_text [OF demo_via_facts(1) _ _ area, of 0 usb_cfg "action_init :: (16 word) action_state" 32767 0]
    by (auto simp: demo_via_def)
qed

end
