(* ===== verification/Autocorrect.thy ===== *)
theory Autocorrect
  imports SendString Magic CapsWord
begin

text \<open>
  Autocorrection (\<^verbatim>\<open>quantum/process_keycode/process_autocorrect.c\<close>): the buffer of typed letters, the walk over
  the dictionary, which is a trie of reversed typos stored in bytes, and the correction.
\<close>

unbundle bit_operations_syntax

section \<open>State and options\<close>

text \<open>
  \<open>autocorrect_data\<close> is the dictionary. \<open>autocorrect_user\<close> is an override of \<^verbatim>\<open>process_autocorrect_user\<close>: it may change
  keycode, buffer size and modifiers. \<open>apply_autocorrect\<close> gets the number of backspaces, the changes, the typo and its
  correction.
\<close>

record ('e, 'l) ac_state = "('e, 'l) magic_state" +
  typo_buffer :: "u8 list"
  typo_buffer_size :: u8

record 'l ac_cfg =
  ac_acfg :: "'l action_cfg"
  ac_tables :: send_cfg
  ac_avr :: bool
  autocorrect_data :: "u8 list"
  AUTOCORRECT_MIN_LENGTH :: nat
  AUTOCORRECT_MAX_LENGTH :: nat
  AC_NO_ACTION_TAPPING :: bool
  AC_NO_ACTION_LAYER :: bool
  autocorrect_user :: "(u16 \<Rightarrow> keyrecord \<Rightarrow> u8 \<Rightarrow> u8 \<Rightarrow> bool \<times> u16 \<times> u8 \<times> u8) option"
  apply_autocorrect :: "u8 \<Rightarrow> u8 list \<Rightarrow> u8 list \<Rightarrow> u8 list \<Rightarrow> bool"

definition ac_init :: "nat \<Rightarrow> u8 list \<times> u8" where
  "ac_init max_length = (0x2C # replicate (max_length - 1) 0, 1)"

section \<open>Switching it on and off\<close>

definition autocorrect_is_enabled :: "('e, 'l) ac_state \<Rightarrow> bool" where
  "autocorrect_is_enabled s = bit (raw s) 12"

definition store_config :: "'e eeprom_ops \<Rightarrow> ('e, 'l) ac_state \<Rightarrow> ('e, 'l) ac_state option" where
  "store_config ops s = map_option (\<lambda>e. s\<lparr>mem := e\<rparr>) (eeconfig_update_keymap ops (raw s) (mem s))"

definition autocorrect_enable :: "'e eeprom_ops \<Rightarrow> ('e, 'l) ac_state \<Rightarrow> ('e, 'l) ac_state option" where
  "autocorrect_enable ops s = store_config ops (s\<lparr>raw := to_bit 12 True (raw s)\<rparr>)"

definition autocorrect_disable :: "'e eeprom_ops \<Rightarrow> ('e, 'l) ac_state \<Rightarrow> ('e, 'l) ac_state option" where
  "autocorrect_disable ops s = store_config ops (s\<lparr>raw := to_bit 12 False (raw s), typo_buffer_size := 0\<rparr>)"

definition autocorrect_toggle :: "'e eeprom_ops \<Rightarrow> ('e, 'l) ac_state \<Rightarrow> ('e, 'l) ac_state option" where
  "autocorrect_toggle ops s = store_config ops (s\<lparr>raw := to_bit 12 (\<not> bit (raw s) 12) (raw s), typo_buffer_size := 0\<rparr>)"

section \<open>Which keys count\<close>

text \<open>The result: whether to go on, and the keycode, buffer size and modifiers as they were left.\<close>

definition process_autocorrect_default_handler ::
    "'l ac_cfg \<Rightarrow> u16 \<Rightarrow> keyrecord \<Rightarrow> u8 \<Rightarrow> u8 \<Rightarrow> bool \<times> u16 \<times> u8 \<times> u8" where
  "process_autocorrect_default_handler c keycode r buf mods =
    (let stop = (False, keycode, buf, mods);
         check = (\<lambda>k. if mods AND NOT MOD_MASK_SHIFT \<noteq> 0 then (False, k, 0, mods) else (True, k, buf, mods))
     in if keycode = 0xE1 \<or> keycode = 0xE5 \<or> keycode = 0x39 \<or> IS_QK_TO keycode \<or> IS_QK_MOMENTARY keycode \<or>
           IS_QK_DEF_LAYER keycode \<or> IS_QK_TOGGLE_LAYER keycode \<or> IS_QK_ONE_SHOT_LAYER keycode \<or>
           IS_QK_LAYER_TAP_TOGGLE keycode \<or> IS_QK_LAYER_MOD keycode \<or> IS_QK_ONE_SHOT_MOD keycode then stop
        else if 0x0200 \<le> keycode \<and> keycode \<le> 0x02FF then (True, QK_MODS_GET_BASIC_KEYCODE keycode, buf, mods OR 0x02)
        else if 0x1200 \<le> keycode \<and> keycode \<le> 0x12FF then (True, QK_MODS_GET_BASIC_KEYCODE keycode, buf, mods OR 0x12)
        else if IS_QK_LAYER_TAP keycode then
          (if AC_NO_ACTION_TAPPING c \<or> AC_NO_ACTION_LAYER c \<or> tap_count r = 0 then stop
           else check (QK_LAYER_TAP_GET_TAP_KEYCODE keycode))
        else if IS_QK_MOD_TAP keycode then
          (if AC_NO_ACTION_TAPPING c \<or> tap_count r = 0 then stop else check (QK_MOD_TAP_GET_TAP_KEYCODE keycode))
        else if IS_QK_SWAP_HANDS keycode then
          (if \<not> SWAP_HANDS_ENABLE (ac_acfg c) \<or> IS_SWAP_HANDS_KEYCODE keycode \<or> \<not> AC_NO_ACTION_TAPPING c \<and> tap_count r = 0
           then stop else check (QK_SWAP_HANDS_GET_TAP_KEYCODE keycode))
        else check keycode)"

definition process_autocorrect_user :: "'l ac_cfg \<Rightarrow> u16 \<Rightarrow> keyrecord \<Rightarrow> u8 \<Rightarrow> u8 \<Rightarrow> bool \<times> u16 \<times> u8 \<times> u8" where
  "process_autocorrect_user c =
    (case autocorrect_user c of Some f \<Rightarrow> f | None \<Rightarrow> process_autocorrect_default_handler c)"

text \<open>
  What a keycode does to the buffer: a letter or a word boundary is appended, after a reset for enter; other keys
  remove a letter or all of them.
\<close>

datatype buffer_step = Append u8 | AppendFresh u8 | Drop | Forget

definition buffer_step_of :: "u16 \<Rightarrow> u8 \<Rightarrow> buffer_step" where
  "buffer_step_of keycode mods =
    (if 0x04 \<le> keycode \<and> keycode \<le> 0x1D then Append (ucast keycode)
     else if 0x1E \<le> keycode \<and> keycode \<le> 0x27 \<or> 0x2B \<le> keycode \<and> keycode \<le> 0x33 \<or> 0x35 \<le> keycode \<and> keycode \<le> 0x38
       then Append 0x2C
     else if keycode = 0x28 then AppendFresh 0x2C
     else if keycode = 0x2A then Drop
     else if keycode = 0x34 then Append (if mods AND MOD_MASK_SHIFT \<noteq> 0 then 0x2C else 0x34)
     else Forget)"

text \<open>The oldest key makes room in a full buffer.\<close>

definition append_key :: "nat \<Rightarrow> u8 \<Rightarrow> u8 list \<Rightarrow> u8 \<Rightarrow> u8 list \<times> u8" where
  "append_key max_length kc buf sz =
    (let (buf, sz) = (if unat sz \<ge> max_length
                      then (take (max_length - 1) (drop 1 buf) @ drop (max_length - 1) buf, of_nat (max_length - 1))
                      else (buf, sz))
     in (buf[unat sz := kc], sz + 1))"

section \<open>The dictionary\<close>

definition data_at :: "u8 list \<Rightarrow> nat \<Rightarrow> u8 option" where
  "data_at d i = (if i < length d then Some (d ! i) else None)"

text \<open>
  A node with several children: entries of a key and a link, up to a zero. The result is the address of the entry of the
  key; Some None is no match. The search ends at the end of the dictionary at the latest.
\<close>

function find_child :: "u8 list \<Rightarrow> u8 \<Rightarrow> u8 \<Rightarrow> nat \<Rightarrow> nat option option" where
  "find_child d kc code state =
    (if code = kc then Some (Some state)
     else if code = 0 then Some None
     else if state + 3 < length d then find_child d kc (d ! (state + 3)) (state + 3) else None)"
  by pat_completeness auto
termination by (relation "measure (\<lambda>(d, _, _, state). length d - state)") auto

declare find_child.simps [simp del]

text \<open>
  The walk along the buffer, from its last key on: Some (Some state) is the address of a leaf, Some None no match. None is
  a read behind the dictionary. \<open>state\<close> is 16 bits wide.
\<close>

fun walk :: "u8 list \<Rightarrow> u8 list \<Rightarrow> nat \<Rightarrow> u8 \<Rightarrow> nat option option" where
  "walk d [] state code = Some None"
| "walk d (kc # keys) state code =
    (case (if code AND 64 \<noteq> 0 then
             (case find_child d kc (code AND 63) state of
                None \<Rightarrow> None
              | Some None \<Rightarrow> Some None
              | Some (Some e) \<Rightarrow>
                  do { lo \<leftarrow> data_at d (e + 1); hi \<leftarrow> data_at d (e + 2); Some (Some (unat lo + 256 * unat hi)) })
           else if code \<noteq> kc then Some None
           else do { c \<leftarrow> data_at d (state + 1); Some (Some (if c = 0 then state + 2 else state + 1)) }) of
       None \<Rightarrow> None
     | Some None \<Rightarrow> Some None
     | Some (Some state) \<Rightarrow>
         if state \<ge> length d then Some None
         else (let code = d ! state in
               if code AND 128 \<noteq> 0 then Some (Some state) else walk d keys state code))"

text \<open>The index is an 8-bit signed integer: a size above 128 starts it below 0.\<close>

definition typed_keys :: "u8 list \<Rightarrow> u8 \<Rightarrow> u8 list" where
  "typed_keys buf sz = (if 1 \<le> sz \<and> sz \<le> 128 then rev (take (unat sz) buf) else [])"

definition find_typo :: "u8 list \<Rightarrow> u8 list \<Rightarrow> u8 \<Rightarrow> nat option option" where
  "find_typo d buf sz = do { code \<leftarrow> data_at d 0; walk d (typed_keys buf sz) 0 code }"

section \<open>The correction\<close>

text \<open>The string at an address, up to its terminator.\<close>

definition string_at :: "u8 list \<Rightarrow> nat \<Rightarrow> u8 list option" where
  "string_at d i = (if 0 \<in> set (drop i d) then Some (takeWhile (\<lambda>c. c \<noteq> 0) (drop i d)) else None)"

text \<open>The last word of the buffer, without a boundary behind it.\<close>

definition last_word :: "u8 list \<Rightarrow> u8 list" where
  "last_word keys =
    (let space_last = (last keys = 0x2C);
         word = rev (takeWhile (\<lambda>k. k \<noteq> 0x2C) (rev (butlast keys))) @ [last keys]
     in map (\<lambda>k. k - 0x04 + 0x61) (if space_last then butlast word else word))"

text \<open>
  \<^verbatim>\<open>correct\<close> is an array of \<^verbatim>\<open>AUTOCORRECT_MAX_LENGTH + 10\<close> bytes: None is a copy that starts before it or ends behind it.
\<close>

definition corrected :: "nat \<Rightarrow> bool \<Rightarrow> u8 list \<Rightarrow> u8 \<Rightarrow> u8 list \<Rightarrow> u8 list option" where
  "corrected max_length space_last typo backspaces changes =
    (let offset = unat (if space_last then backspaces else backspaces + 1);
         start = length typo - offset
     in if offset \<le> length typo \<and> start + length changes + 1 \<le> max_length + 10
        then Some (take start typo @ changes) else None)"

fun repeat_op :: "nat \<Rightarrow> ('a \<Rightarrow> 'a) \<Rightarrow> 'a \<Rightarrow> 'a" where
  "repeat_op 0 f x = x"
| "repeat_op (Suc n) f x = repeat_op n f (f x)"

definition apply_correction :: "'l ac_cfg \<Rightarrow> u8 \<Rightarrow> nat \<Rightarrow> ('e, 'l) ac_state \<Rightarrow> (bool \<times> ('e, 'l) ac_state) option" where
  "apply_correction c kc state s =
    do { code \<leftarrow> data_at (autocorrect_data c) state;
         changes \<leftarrow> string_at (autocorrect_data c) (state + 1);
         keys \<leftarrow> Some (take (unat (typo_buffer_size s)) (typo_buffer s));
         backspaces \<leftarrow> Some (code AND 63);
         typo \<leftarrow> Some (last_word keys);
         correct \<leftarrow> corrected (AUTOCORRECT_MAX_LENGTH c) (last keys = 0x2C) typo backspaces changes;
         s \<leftarrow> (if apply_autocorrect c backspaces changes typo correct
               then map_option (\<lambda>k. s\<lparr>mkb := k\<rparr>)
                 (send_string_P (ac_avr c) (ac_tables c) (ac_acfg c) (changes @ [0])
                   (repeat_op (unat backspaces) (tap_code (ac_acfg c) 0x2A) (mkb s)))
               else Some s);
         Some (if kc = 0x2C then (True, s\<lparr>typo_buffer := (typo_buffer s)[0 := 0x2C], typo_buffer_size := 1\<rparr>)
               else (False, s\<lparr>typo_buffer_size := 0\<rparr>)) }"

section \<open>The handler\<close>

definition check_typo :: "'l ac_cfg \<Rightarrow> u8 \<Rightarrow> ('e, 'l) ac_state \<Rightarrow> (bool \<times> ('e, 'l) ac_state) option" where
  "check_typo c kc s =
    (let (buf, sz) = append_key (AUTOCORRECT_MAX_LENGTH c) kc (typo_buffer s) (typo_buffer_size s);
         s = s\<lparr>typo_buffer := buf, typo_buffer_size := sz\<rparr>
     in if unat sz < AUTOCORRECT_MIN_LENGTH c then Some (True, s)
        else do { r \<leftarrow> find_typo (autocorrect_data c) buf sz;
                  (case r of None \<Rightarrow> Some (True, s) | Some state \<Rightarrow> apply_correction c kc state s) })"

definition process_autocorrect ::
    "'e eeprom_ops \<Rightarrow> 'l ac_cfg \<Rightarrow> u16 \<Rightarrow> keyrecord \<Rightarrow> ('e, 'l) ac_state \<Rightarrow> (bool \<times> ('e, 'l) ac_state) option" where
  "process_autocorrect ops c keycode r s =
    (let mods = (if NO_ACTION_ONESHOT (ac_acfg c) then real_mods (mkb s) else real_mods (mkb s) OR oneshot_mods (mkb s)) in
     if 0x7C74 \<le> keycode \<and> keycode \<le> 0x7C76 \<and> pressed (event r) then
       map_option (Pair False)
         (if keycode = 0x7C74 then autocorrect_enable ops s
          else if keycode = 0x7C75 then autocorrect_disable ops s else autocorrect_toggle ops s)
     else if \<not> autocorrect_is_enabled s then Some (True, s\<lparr>typo_buffer_size := 0\<rparr>)
     else if \<not> pressed (event r) then Some (True, s)
     else
       (let (go, keycode, sz, mods) = process_autocorrect_user c keycode r (typo_buffer_size s) mods;
            s = s\<lparr>typo_buffer_size := sz\<rparr>
        in if \<not> go then Some (True, s)
           else case buffer_step_of keycode mods of
             Append kc \<Rightarrow> check_typo c kc s
           | AppendFresh kc \<Rightarrow> check_typo c kc (s\<lparr>typo_buffer_size := 0\<rparr>)
           | Drop \<Rightarrow> Some (True, s\<lparr>typo_buffer_size := (if sz > 0 then sz - 1 else sz)\<rparr>)
           | Forget \<Rightarrow> Some (True, s\<lparr>typo_buffer_size := 0\<rparr>)))"

end
