(* ===== verification/AutocorrectProps.thy ===== *)
theory AutocorrectProps
  imports Autocorrect SendStringProps "HOL-Library.Sublist"
begin

text \<open>
  The bytes of a dictionary are decoded to a trie; the walk of the firmware finds exactly the typos the buffer
  ends with.
\<close>

unbundle bit_operations_syntax

section \<open>Tries\<close>

datatype trie = Leaf u8 "u8 list" | Node "(u8 \<times> trie) list"

text \<open>A leaf is the number of backspaces and the changes; the words of a trie are the typos, reversed.\<close>

fun words :: "trie \<Rightarrow> (u8 list \<times> u8 \<times> u8 list) list" where
  "words (Leaf n ch) = [([], n, ch)]"
| "words (Node es) = concat (map (\<lambda>(k, t). map (\<lambda>(w, e). (k # w, e)) (words t)) es)"

fun find_trie :: "trie \<Rightarrow> u8 list \<Rightarrow> (u8 \<times> u8 list) option" where
  "find_trie (Leaf n ch) ks = Some (n, ch)"
| "find_trie (Node es) [] = None"
| "find_trie (Node es) (k # ks) = (case map_of es k of None \<Rightarrow> None | Some t \<Rightarrow> find_trie t ks)"

fun uniq :: "trie \<Rightarrow> bool" where
  "uniq (Leaf n ch) \<longleftrightarrow> True"
| "uniq (Node es) \<longleftrightarrow> distinct (map fst es) \<and> list_all (\<lambda>(k, t). uniq t) es"

lemma find_iff_word: "uniq t \<Longrightarrow> find_trie t ks = Some e \<longleftrightarrow> (\<exists>w. (w, e) \<in> set (words t) \<and> prefix w ks)"
proof (induction t ks rule: find_trie.induct)
  case (3 es k ks)
  have dist: "distinct (map fst es)" and sub: "\<And>t. (k, t) \<in> set es \<Longrightarrow> uniq t"
    using "3.prems" by (auto simp: list_all_iff)
  have kw: "(\<exists>w. (w, e) \<in> set (words (Node es)) \<and> prefix w (k # ks)) \<longleftrightarrow>
      (\<exists>t w. (k, t) \<in> set es \<and> (w, e) \<in> set (words t) \<and> prefix w ks)"
    by (fastforce simp: prefix_Cons)
  show ?case
  proof (cases "map_of es k")
    case None
    then have "(k, t) \<notin> set es" for t by (metis map_of_eq_None_iff fst_conv image_eqI)
    then show ?thesis unfolding kw using None by simp
  next
    case (Some t)
    have t: "(k, t) \<in> set es" by (rule map_of_SomeD [OF Some])
    have "(k, t') \<in> set es \<longleftrightarrow> t' = t" for t'
      using t Some map_of_is_SomeI [OF dist, of k t'] by auto
    then show ?thesis unfolding kw using Some "3.IH" [OF Some sub [OF t]] by simp
  qed
qed auto

section \<open>Decoding\<close>

text \<open>The trie at an address; each node costs one unit of fuel. A key that occurs twice in a node is an error.\<close>

fun decode :: "nat \<Rightarrow> u8 list \<Rightarrow> nat \<Rightarrow> trie option"
  and decode_entries :: "nat \<Rightarrow> u8 list \<Rightarrow> u8 \<Rightarrow> nat \<Rightarrow> (u8 \<times> trie) list option" where
  "decode 0 d a = None"
| "decode (Suc n) d a =
    (if a \<ge> length d then None
     else if d ! a AND 128 \<noteq> 0 then map_option (Leaf (d ! a AND 63)) (string_at d (a + 1))
     else if d ! a AND 64 \<noteq> 0 then map_option Node (decode_entries n d (d ! a AND 63) a)
     else if d ! a = 0 then None
     else do { c \<leftarrow> data_at d (a + 1);
               t \<leftarrow> decode n d (if c = 0 then a + 2 else a + 1);
               Some (Node [(d ! a, t)]) })"
| "decode_entries 0 d code a = None"
| "decode_entries (Suc n) d code a =
    (if code = 0 then Some []
     else do { lo \<leftarrow> data_at d (a + 1); hi \<leftarrow> data_at d (a + 2); next_code \<leftarrow> data_at d (a + 3);
               t \<leftarrow> decode n d (unat lo + 256 * unat hi);
               es \<leftarrow> decode_entries n d next_code (a + 3);
               if code \<in> set (map fst es) then None else Some ((code, t) # es) })"

lemma decode_uniq:
  "decode n d a = Some t \<Longrightarrow> uniq t"
  "decode_entries n d code a = Some es \<Longrightarrow> uniq (Node es)"
proof (induction n d a and n d code a arbitrary: t and es rule: decode_decode_entries.induct)
  case (2 n d a)
  then show ?case by (auto split: if_splits Option.bind_splits)
next
  case (4 n d code a)
  then show ?case by (auto split: if_splits Option.bind_splits)
qed simp_all

lemma find_child_entries:
  assumes "decode_entries n d code a = Some es" "kc \<noteq> 0"
  shows "case map_of es kc of
      None \<Rightarrow> find_child d kc code a = Some None
    | Some t \<Rightarrow> \<exists>e lo hi m. find_child d kc code a = Some (Some e) \<and> data_at d (e + 1) = Some lo \<and> data_at d (e + 2) = Some hi \<and>
        decode m d (unat lo + 256 * unat hi) = Some t"
  using assms(1)
proof (induction n arbitrary: code a es)
  case (Suc n)
  show ?case
  proof (cases "code = 0")
    case True
    then show ?thesis using Suc.prems assms(2) find_child.simps [of d kc code a] by simp
  next
    case False
    obtain lo hi c t es' where r: "data_at d (a + 1) = Some lo" "data_at d (a + 2) = Some hi" "data_at d (a + 3) = Some c"
      "decode n d (unat lo + 256 * unat hi) = Some t" "decode_entries n d c (a + 3) = Some es'" "es = (code, t) # es'"
      using Suc.prems False by (auto split: Option.bind_splits if_splits)
    have c: "a + 3 < length d" "d ! (a + 3) = c" using r(3) by (auto simp: data_at_def split: if_splits)
    show ?thesis
    proof (cases "code = kc")
      case True
      then show ?thesis using r find_child.simps [of d kc code a] by auto
    next
      case ne: False
      then have "find_child d kc code a = find_child d kc c (a + 3)" using False c find_child.simps [of d kc code a] by simp
      then show ?thesis using Suc.IH [OF r(5)] ne r(6) by (auto split: option.splits)
    qed
  qed
qed simp

section \<open>The walk\<close>

definition leaf_at :: "u8 list \<Rightarrow> nat \<Rightarrow> u8 \<times> u8 list \<Rightarrow> bool" where
  "leaf_at d b e \<longleftrightarrow> b < length d \<and> d ! b AND 63 = fst e \<and> string_at d (b + 1) = Some (snd e)"

definition finds :: "u8 list \<Rightarrow> (u8 \<times> u8 list) option \<Rightarrow> nat option option \<Rightarrow> bool" where
  "finds d f r \<longleftrightarrow> (case r of None \<Rightarrow> False | Some None \<Rightarrow> f = None | Some (Some b) \<Rightarrow> (\<exists>e. f = Some e \<and> leaf_at d b e))"

lemma walk_finds:
  assumes "decode n d a = Some (Node es)" "0 \<notin> set keys"
  shows "finds d (find_trie (Node es) keys) (walk d keys a (d ! a))"
  using assms
proof (induction keys arbitrary: n a es)
  case Nil
  then show ?case by (simp add: finds_def)
next
  case (Cons kc keys)
  obtain m where n: "n = Suc m" using Cons.prems(1) by (cases n) auto
  have a: "a < length d" "d ! a AND 128 = 0" using Cons.prems(1) by (auto simp: n split: if_splits)
  have kc: "kc \<noteq> 0" using Cons.prems(2) by auto
  have child: "finds d (find_trie t keys)
      (if b \<ge> length d then Some None else (let code = d ! b in if code AND 128 \<noteq> 0 then Some (Some b) else walk d keys b code))"
    if t: "decode m' d b = Some t" for m' b t
  proof -
    obtain m'' where m': "m' = Suc m''" using t by (cases m') auto
    have b: "b < length d" using t by (auto simp: m' split: if_splits)
    show ?thesis
    proof (cases "d ! b AND 128 = 0")
      case True
      then obtain es' where "t = Node es'" using t by (auto simp: m' split: if_splits Option.bind_splits)
      then show ?thesis using Cons.IH [of m' b es'] t Cons.prems(2) True b by simp
    next
      case False
      then show ?thesis using t b by (auto simp: m' finds_def leaf_at_def)
    qed
  qed
  show ?case
  proof (cases "d ! a AND 64 = 0")
    case True
    obtain c t where c: "data_at d (a + 1) = Some c" "decode m d (if c = 0 then a + 2 else a + 1) = Some t" "es = [(d ! a, t)]"
      using Cons.prems(1) a True by (auto simp: n split: if_splits Option.bind_splits)
    have here: "walk d (kc # keys) a (d ! a) = (if d ! a \<noteq> kc then Some None
        else (if b \<ge> length d then Some None else (let code = d ! b in if code AND 128 \<noteq> 0 then Some (Some b) else walk d keys b code)))"
      if "b = (if c = 0 then a + 2 else a + 1)" for b
      using True c(1) that by (cases "c = 0") (simp_all add: Let_def)
    obtain b where b: "b = (if c = 0 then a + 2 else a + 1)" by simp
    have "decode m d b = Some t" using c(2) b by simp
    from child [OF this] show ?thesis unfolding here [OF b] using c(3) by (cases "kc = d ! a") (simp_all add: finds_def)
  next
    case False
    have es: "decode_entries m d (d ! a AND 63) a = Some es" using Cons.prems(1) a False by (auto simp: n split: if_splits)
    show ?thesis
    proof (cases "map_of es kc")
      case None
      then show ?thesis using False find_child_entries [OF es kc] by (simp add: finds_def)
    next
      case (Some t)
      then obtain e lo hi m' where e: "find_child d kc (d ! a AND 63) a = Some (Some e)" "data_at d (e + 1) = Some lo"
        "data_at d (e + 2) = Some hi" "decode m' d (unat lo + 256 * unat hi) = Some t"
        using find_child_entries [OF es kc] by auto
      show ?thesis using False Some e child [OF e(4)] by simp
    qed
  qed
qed

section \<open>The buffer\<close>

text \<open>Every key in the used part of the buffer was typed; none of them is 0.\<close>

definition buffer_ok :: "nat \<Rightarrow> u8 list \<Rightarrow> u8 \<Rightarrow> bool" where
  "buffer_ok m buf sz \<longleftrightarrow> length buf = m \<and> unat sz \<le> m \<and> 0 \<notin> set (take (unat sz) buf)"

lemma append_key_buffer:
  assumes "buffer_ok m buf sz" "kc \<noteq> 0" "1 \<le> m" "m \<le> 128" "append_key m kc buf sz = (buf', sz')"
  shows "buffer_ok m buf' sz'" "1 \<le> sz' \<and> sz' \<le> 128"
    "take (unat sz') buf' = (if unat sz < m then take (unat sz) buf else drop 1 (take (unat sz) buf)) @ [kc]"
proof -
  have l: "length buf = m" "unat sz \<le> m" "0 \<notin> set (take (unat sz) buf)" using assms(1) by (simp_all add: buffer_ok_def)
  define b1 n where "b1 = (if unat sz \<ge> m then take (m - 1) (drop 1 buf) @ drop (m - 1) buf else buf)"
    and "n = (if unat sz \<ge> m then m - 1 else unat sz)"
  have n: "n < m" "length b1 = m" using l assms(3) by (auto simp: n_def b1_def)
  have sz1: "unat (of_nat (m - 1) :: u8) = m - 1" "unat (of_nat m :: u8) = m"
    using assms(4) by (simp_all add: unsigned_of_nat take_bit_nat_eq_self)
  have r: "buf' = b1[n := kc]" "unat sz' = Suc n"
    using assms(3-5) n(1) sz1
    by (auto simp: append_key_def b1_def n_def Let_def unat_word_ariths split: if_splits)
  have t: "take (unat sz') buf' = take n b1 @ [kc]"
    using n r by (simp add: take_Suc_conv_app_nth)
  have old: "take n b1 = (if unat sz < m then take (unat sz) buf else drop 1 (take (unat sz) buf))"
    using l assms(3) by (auto simp: n_def b1_def take_drop)
  show "take (unat sz') buf' = (if unat sz < m then take (unat sz) buf else drop 1 (take (unat sz) buf)) @ [kc]"
    unfolding t old ..
  have "0 \<notin> set (take n b1)" unfolding old using l(3) by (auto dest: in_set_dropD)
  then show "buffer_ok m buf' sz'" using n r t assms(2) by (simp add: buffer_ok_def)
  show "1 \<le> sz' \<and> sz' \<le> 128" using n(1) r(2) assms(4) by (simp add: word_le_nat_alt)
qed

section \<open>The correction\<close>

text \<open>What the buffer ends with, and whether the array for the corrected word is big enough for it.\<close>

definition hits :: "trie \<Rightarrow> u8 list \<Rightarrow> (u8 list \<times> u8 \<times> u8 list) set" where
  "hits t keys = {(w, n, ch) \<in> set (words t). suffix (rev w) keys}"

definition word_fits :: "nat \<Rightarrow> u8 list \<Rightarrow> u8 list \<times> u8 \<times> u8 list \<Rightarrow> bool" where
  "word_fits m keys = (\<lambda>(w, n, ch). corrected m (last keys = 0x2C) (last_word keys) n ch \<noteq> None)"

lemma find_typo_hits:
  assumes "decode fuel d 0 = Some (Node es)" "buffer_ok m buf sz" "1 \<le> sz \<and> sz \<le> 128"
  obtains (none) "find_typo d buf sz = Some None" "hits (Node es) (take (unat sz) buf) = {}"
  | (leaf) a w n ch where "find_typo d buf sz = Some (Some a)" "(w, n, ch) \<in> hits (Node es) (take (unat sz) buf)" "leaf_at d a (n, ch)"
proof -
  have d: "data_at d 0 = Some (d ! 0)" using assms(1) by (cases fuel) (auto simp: data_at_def split: if_splits)
  let ?ks = "rev (take (unat sz) buf)"
  have "0 \<notin> set ?ks" using assms(2) by (simp add: buffer_ok_def)
  note w = walk_finds [OF assms(1) this]
  have f: "find_typo d buf sz = walk d ?ks 0 (d ! 0)" using assms(3) d by (simp add: find_typo_def typed_keys_def)
  note iff = find_iff_word [OF decode_uniq(1) [OF assms(1)], of ?ks]
  have h: "(w, e) \<in> hits (Node es) (take (unat sz) buf) \<longleftrightarrow> (w, e) \<in> set (words (Node es)) \<and> prefix w ?ks" for w e
    unfolding hits_def by (cases e) (auto simp: suffix_to_prefix)
  show thesis
  proof (cases "walk d ?ks 0 (d ! 0)")
    case None
    then show thesis using w by (simp add: finds_def)
  next
    case (Some r)
    show thesis
    proof (cases r)
      case None
      then have "find_trie (Node es) ?ks = None" using w Some by (simp add: finds_def)
      then have "(w, e) \<notin> hits (Node es) (take (unat sz) buf)" for w e using iff [of e] h [of w e] by auto
      then show thesis using none f Some None by (metis equals0I prod.collapse)
    next
      case (Some a)
      then obtain e where e: "find_trie (Node es) ?ks = Some e" "leaf_at d a e" using w \<open>walk d ?ks 0 (d ! 0) = Some r\<close>
        by (auto simp: finds_def)
      then obtain w where "(w, e) \<in> hits (Node es) (take (unat sz) buf)" using iff [of e] h by blast
      then show thesis using leaf [of a w "fst e" "snd e"] f Some \<open>walk d ?ks 0 (d ! 0) = Some r\<close> e(2) by simp
    qed
  qed
qed

lemma us_backspace: "us_char (0, 0x2A) = Some 0x08"
  by code_simp

lemma reads_back_backspaces:
  assumes "holding 0 cfg s"
  shows "reads_back cfg s (replicate n 0x08) (Some (repeat_op n (tap_code cfg 0x2A) s))"
  using assms
proof (induction n arbitrary: s)
  case 0
  then show ?case by (simp add: reads_back_nothing)
next
  case (Suc n)
  have "reads_back cfg s [0x08] (Some (tap_code cfg 0x2A s))"
    unfolding reads_back_def tap_code_def using key_tap [OF Suc.prems, of "0x2A"] us_backspace by (auto simp: no_keys_def)
  from reads_back_seq [OF this Suc.IH] show ?case by simp
qed

text \<open>Dictionaries whose replacements can be typed, on a keyboard with the US tables where the user leaves corrections alone.\<close>

definition plain_ac :: "nat \<Rightarrow> trie \<Rightarrow> 'l ac_cfg \<Rightarrow> bool" where
  "plain_ac fuel t c \<longleftrightarrow> decode fuel (autocorrect_data c) 0 = Some t \<and> 1 \<le> AUTOCORRECT_MAX_LENGTH c \<and> AUTOCORRECT_MAX_LENGTH c \<le> 128 \<and>
     (\<exists>im. ac_tables c = us_tables im) \<and> apply_autocorrect c = (\<lambda>_ _ _ _. True) \<and>
     list_all (\<lambda>(w, n, ch). list_all typeable ch) (words t)"

definition ac_ok :: "'l ac_cfg \<Rightarrow> ('e, 'l) ac_state \<Rightarrow> bool" where
  "ac_ok c s \<longleftrightarrow> buffer_ok (AUTOCORRECT_MAX_LENGTH c) (typo_buffer s) (typo_buffer_size s)"

lemma apply_correction_types:
  assumes "plain_ac fuel (Node es) c" "ac_ok c s" "holding 0 (ac_acfg c) (mkb s)" "leaf_at (autocorrect_data c) a (n, ch)"
    and "(w, n, ch) \<in> set (words (Node es))"
    and "word_fits (AUTOCORRECT_MAX_LENGTH c) (take (unat (typo_buffer_size s)) (typo_buffer s)) (w, n, ch)"
  shows "\<exists>s' k. apply_correction c kc a s = Some (kc = 0x2C, s') \<and> ac_ok c s' \<and> mkb s' = k \<and>
    reads_back (ac_acfg c) (mkb s) (replicate (unat n) 0x08 @ ch) (Some k)"
proof -
  obtain im where c: "ac_tables c = us_tables im" "apply_autocorrect c = (\<lambda>_ _ _ _. True)" "1 \<le> AUTOCORRECT_MAX_LENGTH c"
    "list_all typeable ch"
  proof -
    have "list_all typeable ch" using assms(1,5) unfolding plain_ac_def list_all_iff [of _ "words _"] by blast
    then show ?thesis using assms(1) that unfolding plain_ac_def by blast
  qed
  have rb: "reads_back (ac_acfg c) (mkb s) (replicate (unat n) 0x08 @ ch)
      (Some (repeat_op (unat n) (tap_code (ac_acfg c) 0x2A) (mkb s)) \<bind> send_string_P (ac_avr c) (us_tables im) (ac_acfg c) (ch @ [0]))"
    by (rule reads_back_seq [OF reads_back_backspaces [OF assms(3)]]) (rule host_reads_string_P [OF _ c(4)])
  then obtain k where k: "send_string_P (ac_avr c) (us_tables im) (ac_acfg c) (ch @ [0])
      (repeat_op (unat n) (tap_code (ac_acfg c) 0x2A) (mkb s)) = Some k" by (auto simp: reads_back_def)
  have d: "data_at (autocorrect_data c) a = Some (autocorrect_data c ! a)" "string_at (autocorrect_data c) (a + 1) = Some ch"
    "autocorrect_data c ! a AND 63 = n" using assms(4) by (simp_all add: leaf_at_def data_at_def)
  obtain cw where cw: "corrected (AUTOCORRECT_MAX_LENGTH c) (last (take (unat (typo_buffer_size s)) (typo_buffer s)) = 0x2C)
      (last_word (take (unat (typo_buffer_size s)) (typo_buffer s))) n ch = Some cw"
    using assms(6) by (auto simp: word_fits_def)
  let ?s = "s\<lparr>mkb := k\<rparr>"
  have "apply_correction c kc a s = Some (kc = 0x2C, if kc = 0x2C
      then ?s\<lparr>typo_buffer := (typo_buffer s)[0 := 0x2C], typo_buffer_size := 1\<rparr> else ?s\<lparr>typo_buffer_size := 0\<rparr>)"
    using d cw k c(1,2) by (simp add: apply_correction_def)
  moreover have "ac_ok c (if kc = 0x2C then ?s\<lparr>typo_buffer := (typo_buffer s)[0 := 0x2C], typo_buffer_size := 1\<rparr>
      else ?s\<lparr>typo_buffer_size := 0\<rparr>)"
    using assms(2) c(3) by (cases "typo_buffer s") (auto simp: ac_ok_def buffer_ok_def)
  ultimately show ?thesis using rb k by auto
qed

section \<open>Properties\<close>

text \<open>
  C18: on a keyboard that holds no key and no modifier and sends the plain six-key report, with the US layout, a dictionary of
  typeable replacements and no user hook, for a key that is added to a buffer which then has the minimal length, and when every
  typo that the buffer ends with leaves its correction inside of the array that the handler builds it in (\<^verbatim>\<open>word_fits\<close>; lemma
  \<^verbatim>\<open>double_the_underflows\<close> is a typo of the default dictionary that does not): the key is passed on and nothing
  is typed when the buffer ends with no typo; when it ends with one, the host reads the backspaces and the replacement of such a
  typo, and the key is passed on only if it was a word boundary. The walk stays in the dictionary, and the buffer well-formed.
\<close>

theorem autocorrect_corrects_typos:
  assumes "plain_ac fuel (Node es) c" "ac_ok c s" "holding 0 (ac_acfg c) (mkb s)" "kc \<noteq> 0"
    and "append_key (AUTOCORRECT_MAX_LENGTH c) kc (typo_buffer s) (typo_buffer_size s) = (buf, sz)"
    and "AUTOCORRECT_MIN_LENGTH c \<le> unat sz"
    and "Ball (hits (Node es) (take (unat sz) buf)) (word_fits (AUTOCORRECT_MAX_LENGTH c) (take (unat sz) buf))"
  shows "\<exists>go s'. check_typo c kc s = Some (go, s') \<and> ac_ok c s' \<and>
    (if hits (Node es) (take (unat sz) buf) = {} then go \<and> mkb s' = mkb s
     else go = (kc = 0x2C) \<and> (\<exists>(w, n, ch) \<in> hits (Node es) (take (unat sz) buf).
       reads_back (ac_acfg c) (mkb s) (replicate (unat n) 0x08 @ ch) (Some (mkb s'))))"
proof -
  have m: "1 \<le> AUTOCORRECT_MAX_LENGTH c" "AUTOCORRECT_MAX_LENGTH c \<le> 128" "decode fuel (autocorrect_data c) 0 = Some (Node es)"
    using assms(1) by (auto simp: plain_ac_def)
  note b = append_key_buffer [OF assms(2) [unfolded ac_ok_def] assms(4) m(1,2) assms(5)]
  let ?s = "s\<lparr>typo_buffer := buf, typo_buffer_size := sz\<rparr>"
  have s: "ac_ok c ?s" "holding 0 (ac_acfg c) (mkb ?s)" using b(1) assms(3) by (simp_all add: ac_ok_def)
  have ct: "check_typo c kc s = (find_typo (autocorrect_data c) buf sz \<bind>
      (\<lambda>r. case r of None \<Rightarrow> Some (True, ?s) | Some a \<Rightarrow> apply_correction c kc a ?s))"
    using assms(5,6) by (simp add: check_typo_def Let_def)
  from m(3) b(1,2) show ?thesis
  proof (cases rule: find_typo_hits)
    case none
    then show ?thesis using ct s by auto
  next
    case (leaf a w n ch)
    have w: "(w, n, ch) \<in> set (words (Node es))" using leaf(2) unfolding hits_def by blast
    have fits: "word_fits (AUTOCORRECT_MAX_LENGTH c) (take (unat (typo_buffer_size ?s)) (typo_buffer ?s)) (w, n, ch)"
      using assms(7) leaf(2) by simp
    show ?thesis using apply_correction_types [OF assms(1) s leaf(3) w fits, of kc] leaf(1,2) ct by fastforce
  qed
qed

text \<open>A dictionary that knows \<open>teh\<close>.\<close>

definition teh_cfg :: "(16 word) ac_cfg" where
  "teh_cfg = \<lparr>ac_acfg = usb_cfg, ac_tables = us_tables 32767, ac_avr = False, autocorrect_data = [11, 8, 23, 0, 129, 0x68, 0x65, 0],
     AUTOCORRECT_MIN_LENGTH = 3, AUTOCORRECT_MAX_LENGTH = 5, AC_NO_ACTION_TAPPING = False, AC_NO_ACTION_LAYER = False,
     autocorrect_user = None, apply_autocorrect = (\<lambda>_ _ _ _. True)\<rparr>"

definition teh_state :: "(u8 list, 16 word) ac_state" where
  "teh_state = \<lparr>raw = 0x1400, mem = [], mkb = action_init, typo_buffer = [0x2C, 23, 8, 0, 0], typo_buffer_size = 3\<rparr>"

lemma autocorrect_corrects_typos_witness:
  "\<exists>s'. check_typo teh_cfg 11 teh_state = Some (False, s') \<and> reads_back usb_cfg (mkb teh_state) [0x08, 0x68, 0x65] (Some (mkb s'))"
proof -
  let ?t = "Node [(11, Node [(8, Node [(23, Leaf 1 [0x68, 0x65])])])]"
  have sel: "autocorrect_data teh_cfg = [11, 8, 23, 0, 129, 0x68, 0x65, 0]" "AUTOCORRECT_MAX_LENGTH teh_cfg = 5"
    "typo_buffer teh_state = [0x2C, 23, 8, 0, 0]" "typo_buffer_size teh_state = 3"
    "ac_tables teh_cfg = us_tables 32767" "apply_autocorrect teh_cfg = (\<lambda>_ _ _ _. True)"
    by (simp_all add: teh_cfg_def teh_state_def)
  have d: "decode (Suc (Suc (Suc (Suc (Suc 0))))) (autocorrect_data teh_cfg) 0 = Some ?t"
    unfolding sel by (simp add: data_at_def string_at_def)
  have p: "plain_ac (Suc (Suc (Suc (Suc (Suc 0))))) ?t teh_cfg"
    unfolding plain_ac_def using d by (auto simp: sel(2,5,6) typeable_def)
  have o': "ac_ok teh_cfg teh_state" by (simp add: ac_ok_def buffer_ok_def sel)
  have h: "holding 0 (ac_acfg teh_cfg) (mkb teh_state)"
    by (simp add: holding_def teh_cfg_def teh_state_def usb_cfg_def action_init_def use_nkro_def no_keys_def)
  have a: "append_key (AUTOCORRECT_MAX_LENGTH teh_cfg) 11 (typo_buffer teh_state) (typo_buffer_size teh_state) = ([0x2C, 23, 8, 11, 0], 4)"
    unfolding sel by (simp add: append_key_def)
  have k: "take (unat (4 :: u8)) [0x2C, 23, 8, 11, 0 :: u8] = [0x2C, 23, 8, 11]" by simp
  have hits: "hits ?t [0x2C, 23, 8, 11] = {([11, 8, 23], 1, [0x68, 0x65])}" by (auto simp: hits_def suffix_def)
  have fits: "word_fits (AUTOCORRECT_MAX_LENGTH teh_cfg) [0x2C, 23, 8, 11] ([11, 8, 23], 1, [0x68, 0x65])"
    unfolding sel by (simp add: word_fits_def corrected_def last_word_def Let_def)
  have m: "AUTOCORRECT_MIN_LENGTH teh_cfg \<le> unat (4 :: u8)" by (simp add: teh_cfg_def)
  have cfg: "ac_acfg teh_cfg = usb_cfg" by (simp add: teh_cfg_def)
  show ?thesis
    using autocorrect_corrects_typos [OF p o' h _ a m] fits unfolding k hits cfg by auto
qed

text \<open>
  The correction of a doubled word: the array for the corrected word holds the last word only, and the number of
  backspaces reaches over its start. With the first nodes of the default dictionary, typing \<open>the the\<close> and a space writes
  in front of the array.
\<close>

definition default_dictionary_start :: "u8 list" where
  "default_dictionary_start =
    [108, 43, 0, 6, 71, 0, 7, 81, 0, 8, 199, 0, 9, 240, 1, 10, 250, 1, 11, 26,
     2, 17, 53, 2, 18, 190, 2, 19, 202, 2, 21, 212, 2, 22, 20, 3, 23, 67, 3, 28,
     16, 4, 0, 72, 50, 0, 22, 60, 0, 0, 11, 23, 44, 8, 11, 23, 44, 0, 132, 0]"

definition the_cfg :: "(16 word) ac_cfg" where
  "the_cfg = teh_cfg\<lparr>autocorrect_data := default_dictionary_start, AUTOCORRECT_MIN_LENGTH := 5, AUTOCORRECT_MAX_LENGTH := 10\<rparr>"

lemma double_the_underflows:
  "check_typo the_cfg 0x2C (teh_state\<lparr>typo_buffer := [0x2C, 23, 11, 8, 0x2C, 23, 11, 8, 0, 0], typo_buffer_size := 8\<rparr>) = None"
proof -
  let ?b = "[0x2C, 23, 11, 8, 0x2C, 23, 11, 8, 0x2C, 0] :: u8 list"
  have a: "append_key 10 0x2C [0x2C, 23, 11, 8, 0x2C, 23, 11, 8, 0, 0] 8 = (?b, 9)"
    by (simp add: append_key_def)
  have f: "find_typo default_dictionary_start ?b 9 = Some (Some 58)"
    by (simp add: find_typo_def typed_keys_def data_at_def find_child.simps default_dictionary_start_def)
  have c: "corrected 10 True [0x74, 0x68, 0x65] 4 [] = None" "last_word (take (unat (9 :: u8)) ?b) = [0x74, 0x68, 0x65]"
    "last (take (unat (9 :: u8)) ?b) = 0x2C"
    by (simp_all add: corrected_def last_word_def Let_def)
  have d: "data_at default_dictionary_start 58 = Some 132" "string_at default_dictionary_start 59 = Some []"
    by (simp_all add: data_at_def string_at_def default_dictionary_start_def)
  have cfg: "autocorrect_data the_cfg = default_dictionary_start" "AUTOCORRECT_MAX_LENGTH the_cfg = 10" "AUTOCORRECT_MIN_LENGTH the_cfg = 5"
    by (simp_all add: the_cfg_def)
  show ?thesis
    using c d by (simp add: check_typo_def apply_correction_def cfg a f del: take_Cons_numeral)
qed

end
