(* ===== verification/Keyboard.thy ===== *)
theory Keyboard
  imports DebounceProps KeyEvent Magic
begin

text \<open>
  The matrix task (\<^verbatim>\<open>quantum/keyboard.c\<close>, \<^verbatim>\<open>quantum/matrix_common.c\<close>): scanning through a debounce algorithm, the
  ghost filter, the events of the keys that changed, the tick events, and the start of the firmware.
\<close>

unbundle bit_operations_syntax

section \<open>The matrix\<close>

text \<open>
  \<open>scan_pins\<close> is \<^verbatim>\<open>matrix_scan_custom\<close>, which reads the pins into the raw matrix, \<open>deb\<close> the debounce algorithm of the build.
\<close>

record ('r, 's) matrix_state =
  raw_matrix :: "'r list"
  matrix :: "'r list"
  debounce_data :: 's

definition matrix_init :: "nat \<Rightarrow> (nat \<Rightarrow> 's) \<Rightarrow> ('r::len word, 's) matrix_state" where
  "matrix_init rows debounce_init = \<lparr>raw_matrix = replicate rows 0, matrix = replicate rows 0, debounce_data = debounce_init rows\<rparr>"

definition matrix_scan ::
    "('r list \<Rightarrow> bool \<times> 'r list) \<Rightarrow> ('t \<Rightarrow> 'r list \<Rightarrow> bool \<Rightarrow> 'r list \<Rightarrow> 's \<Rightarrow> bool \<times> 'r list \<times> 's) \<Rightarrow> 't \<Rightarrow>
      ('r, 's) matrix_state \<Rightarrow> bool \<times> ('r, 's) matrix_state" where
  "matrix_scan scan_pins deb t m =
    (let (changed, raw_rows) = scan_pins (raw_matrix m);
         (changed, cooked, d) = deb t raw_rows changed (matrix m) (debounce_data m)
     in (changed, \<lparr>raw_matrix = raw_rows, matrix = cooked, debounce_data = d\<rparr>))"

text \<open>\<open>msk\<close> is \<^verbatim>\<open>matrix_mask\<close>, in builds with \<^verbatim>\<open>MATRIX_MASKED\<close>.\<close>

definition matrix_get_row :: "('r::len word list) option \<Rightarrow> 'r word list \<Rightarrow> nat \<Rightarrow> 'r word" where
  "matrix_get_row msk m r = (case msk of Some ms \<Rightarrow> m ! r AND ms ! r | None \<Rightarrow> m ! r)"

definition matrix_is_on :: "'r::len word list \<Rightarrow> nat \<Rightarrow> nat \<Rightarrow> bool" where
  "matrix_is_on m r c \<longleftrightarrow> m ! r AND push_bit c 1 \<noteq> 0"

definition peek_matrix :: "('r::len word, 's) matrix_state \<Rightarrow> nat \<Rightarrow> nat \<Rightarrow> bool \<Rightarrow> bool" where
  "peek_matrix m r c is_raw \<longleftrightarrow> (if is_raw then raw_matrix m ! r else matrix m ! r) AND push_bit c 1 \<noteq> 0"

section \<open>Options and state of the task\<close>

text \<open>
  \<open>exec\<close> is \<^verbatim>\<open>action_exec\<close> on a world that holds the rest of the firmware, \<open>switch_events\<close> the call for the lights,
  \<open>clock\<close> what \<^verbatim>\<open>timer_read\<close> returns. \<open>real_key\<close> tells where the keymap has a key on layer 0.
\<close>

record 'w scan_cfg =
  SCAN_ROWS :: nat
  SCAN_COLS :: nat
  MATRIX_HAS_GHOST :: bool
  real_key :: "nat \<Rightarrow> nat \<Rightarrow> bool"
  exec :: "keyevent \<Rightarrow> 'w \<Rightarrow> 'w"
  switch_events :: "nat \<Rightarrow> nat \<Rightarrow> bool \<Rightarrow> 'w \<Rightarrow> 'w"
  clock :: "'w \<Rightarrow> u16"
  should_process_keypress :: bool

record 'r scan_state =
  last_tick :: u16
  matrix_previous :: "'r list"

definition MAKE_EVENT :: "nat \<Rightarrow> nat \<Rightarrow> bool \<Rightarrow> keyevent_type \<Rightarrow> u16 \<Rightarrow> keyevent" where
  "MAKE_EVENT row_num col_num press ty t =
    \<lparr>key = \<lparr>col = of_nat col_num, row = of_nat row_num\<rparr>, event_time = t, event_type = ty, pressed = press\<rparr>"

definition MAKE_KEYEVENT :: "nat \<Rightarrow> nat \<Rightarrow> bool \<Rightarrow> u16 \<Rightarrow> keyevent" where
  "MAKE_KEYEVENT row_num col_num press = MAKE_EVENT row_num col_num press KEY_EVENT"

definition MAKE_TICK_EVENT :: "u16 \<Rightarrow> keyevent" where
  "MAKE_TICK_EVENT = MAKE_EVENT 0 0 False TICK_EVENT"

section \<open>Ghosts\<close>

definition get_real_keys :: "'w scan_cfg \<Rightarrow> nat \<Rightarrow> 'r::len word \<Rightarrow> 'r word" where
  "get_real_keys c r rowdata =
    fold (\<lambda>cl out. if real_key c r cl \<and> rowdata AND push_bit cl 1 \<noteq> 0 then out OR push_bit cl 1 else out) [0..<SCAN_COLS c] 0"

definition popcount_more_than_one :: "'r::len word \<Rightarrow> bool" where
  "popcount_more_than_one rowdata \<longleftrightarrow> rowdata AND (rowdata - 1) \<noteq> 0"

definition has_ghost_in_row :: "'w scan_cfg \<Rightarrow> 'r::len word list \<Rightarrow> nat \<Rightarrow> 'r word \<Rightarrow> bool" where
  "has_ghost_in_row c m r rowdata =
    (if \<not> MATRIX_HAS_GHOST c then False
     else (let rowdata = get_real_keys c r rowdata in
       if \<not> popcount_more_than_one rowdata then False
       else list_ex (\<lambda>i. i \<noteq> r \<and> popcount_more_than_one (get_real_keys c i (m ! i) AND rowdata)) [0..<SCAN_ROWS c]))"

section \<open>The task\<close>

definition generate_tick_event :: "'w scan_cfg \<Rightarrow> 'w \<times> 'r scan_state \<Rightarrow> 'w \<times> 'r scan_state" where
  "generate_tick_event c = (\<lambda>(w, s).
    let t = clock c w in
    if t - last_tick s \<noteq> 0 then (exec c (MAKE_TICK_EVENT t) w, s\<lparr>last_tick := t\<rparr>) else (w, s))"

definition col_step :: "'w scan_cfg \<Rightarrow> nat \<Rightarrow> 'r::len word \<Rightarrow> 'r word \<Rightarrow> nat \<Rightarrow> 'w \<Rightarrow> 'w" where
  "col_step c r current_row row_changes cl w =
    (if row_changes AND push_bit cl 1 \<noteq> 0 then
       (let key_pressed = (current_row AND push_bit cl 1 \<noteq> 0);
            w = (if should_process_keypress c then exec c (MAKE_KEYEVENT r cl key_pressed (clock c w)) w else w)
        in switch_events c r cl key_pressed w)
     else w)"

definition row_step :: "'w scan_cfg \<Rightarrow> 'r::len word list \<Rightarrow> nat \<Rightarrow> 'w \<times> 'r word list \<Rightarrow> 'w \<times> 'r word list" where
  "row_step c m r = (\<lambda>(w, previous).
    let current_row = m ! r; row_changes = current_row XOR previous ! r in
    if row_changes = 0 \<or> has_ghost_in_row c m r current_row then (w, previous)
    else (fold (col_step c r current_row row_changes) [0..<SCAN_COLS c] w, previous[r := current_row]))"

text \<open>\<open>scanned\<close> is None where \<^verbatim>\<open>matrix_can_read\<close> is false, and otherwise what \<^verbatim>\<open>matrix_get_row\<close> returns after the scan.\<close>

definition matrix_task ::
    "'w scan_cfg \<Rightarrow> 'r::len word list option \<Rightarrow> 'w \<times> 'r word scan_state \<Rightarrow> bool \<times> 'w \<times> 'r word scan_state" where
  "matrix_task c scanned = (\<lambda>(w, s).
    case scanned of
      None \<Rightarrow> (False, generate_tick_event c (w, s))
    | Some m \<Rightarrow>
        (let matrix_changed = list_ex (\<lambda>r. matrix_previous s ! r XOR m ! r \<noteq> 0) [0..<SCAN_ROWS c] in
         if \<not> matrix_changed then (False, generate_tick_event c (w, s))
         else (let (w, previous) = fold (row_step c m) [0..<SCAN_ROWS c] (w, matrix_previous s)
               in (True, w, s\<lparr>matrix_previous := previous\<rparr>))))"

section \<open>Activity\<close>

record activity =
  last_input_modification_time :: u32
  last_matrix_modification_time :: u32
  last_encoder_modification_time :: u32
  last_pointing_device_modification_time :: u32

definition last_matrix_activity_trigger :: "u32 \<Rightarrow> activity \<Rightarrow> activity" where
  "last_matrix_activity_trigger t a = a\<lparr>last_matrix_modification_time := t, last_input_modification_time := t\<rparr>"
definition last_encoder_activity_trigger :: "u32 \<Rightarrow> activity \<Rightarrow> activity" where
  "last_encoder_activity_trigger t a = a\<lparr>last_encoder_modification_time := t, last_input_modification_time := t\<rparr>"
definition last_pointing_device_activity_trigger :: "u32 \<Rightarrow> activity \<Rightarrow> activity" where
  "last_pointing_device_activity_trigger t a = a\<lparr>last_pointing_device_modification_time := t, last_input_modification_time := t\<rparr>"

definition set_activity_timestamps :: "u32 \<Rightarrow> u32 \<Rightarrow> u32 \<Rightarrow> activity" where
  "set_activity_timestamps mt et pt =
    \<lparr>last_input_modification_time = max mt (max et pt), last_matrix_modification_time = mt,
     last_encoder_modification_time = et, last_pointing_device_modification_time = pt\<rparr>"

definition last_input_activity_elapsed :: "u32 \<Rightarrow> activity \<Rightarrow> u32" where
  "last_input_activity_elapsed t a = timer_diff t (last_input_modification_time a)"
definition last_matrix_activity_elapsed :: "u32 \<Rightarrow> activity \<Rightarrow> u32" where
  "last_matrix_activity_elapsed t a = timer_diff t (last_matrix_modification_time a)"
definition last_encoder_activity_elapsed :: "u32 \<Rightarrow> activity \<Rightarrow> u32" where
  "last_encoder_activity_elapsed t a = timer_diff t (last_encoder_modification_time a)"
definition last_pointing_device_activity_elapsed :: "u32 \<Rightarrow> activity \<Rightarrow> u32" where
  "last_pointing_device_activity_elapsed t a = timer_diff t (last_pointing_device_modification_time a)"

section \<open>The start\<close>

text \<open>\<open>debug\<close> is \<^verbatim>\<open>debug_config.raw\<close>, \<open>bootmagic\<close> the optional check for a held key.\<close>

record ('e, 'l) boot_state = "('e, 'l) magic_state" +
  debug :: u8

definition load_raw :: "u16 \<Rightarrow> ('e, 'l) boot_state \<Rightarrow> ('e, 'l) boot_state" where
  "load_raw v s = s\<lparr>raw := v, mkb := (mkb s)\<lparr>config_nkro := bit v 7, oneshot_enabled := bit v 10\<rparr>\<rparr>"

definition quantum_init ::
    "'e ee_cfg \<Rightarrow> 'e eeprom_ops \<Rightarrow> ('l::len word) action_cfg \<Rightarrow>
      (('e, 'l word) boot_state \<Rightarrow> ('e, 'l word) boot_state option) \<Rightarrow> ('e, 'l word) boot_state \<Rightarrow> ('e, 'l word) boot_state option" where
  "quantum_init ec ops cfg bootmagic s =
    do { enabled \<leftarrow> eeconfig_is_enabled ec ops (mem s);
         s \<leftarrow> (if enabled then Some s
               else map_option (\<lambda>e. s\<lparr>mem := e, mkb := (mkb s)\<lparr>default_layer_state := 1\<rparr>\<rparr>) (eeconfig_init ec ops (mem s)));
         d \<leftarrow> eeconfig_read_debug ops (mem s);
         v \<leftarrow> eeconfig_read_keymap ops (mem s);
         s \<leftarrow> bootmagic (load_raw v (s\<lparr>debug := d\<rparr>));
         default_layer \<leftarrow> eeconfig_read_default_layer ops (mem s);
         Some (s\<lparr>mkb := default_layer_set cfg (ucast default_layer) (mkb s)\<rparr>) }"

end
