(* ===== verification/KeyboardProps.thy ===== *)
theory KeyboardProps
  imports Keyboard
begin

text \<open>
  The events of the matrix task follow the matrix: each is a change of its key, and after a scan the keys are as
  the matrix has them, but for rows with a ghost; and a ghost is a rectangle of keys.
\<close>

unbundle bit_operations_syntax

section \<open>What events say of the keys\<close>

fun key_after :: "(keypos \<Rightarrow> bool) \<Rightarrow> keyevent list \<Rightarrow> keypos \<Rightarrow> bool" where
  "key_after st [] = st"
| "key_after st (e # es) = key_after (if IS_KEYEVENT e then st(key e := pressed e) else st) es"

text \<open>Every key event changes the state of its key.\<close>

fun each_changes :: "(keypos \<Rightarrow> bool) \<Rightarrow> keyevent list \<Rightarrow> bool" where
  "each_changes st [] \<longleftrightarrow> True"
| "each_changes st (e # es) \<longleftrightarrow> (IS_KEYEVENT e \<longrightarrow> pressed e \<noteq> st (key e)) \<and>
     each_changes (if IS_KEYEVENT e then st(key e := pressed e) else st) es"

lemma key_after_append: "key_after st (es @ es') = key_after (key_after st es) es'"
  by (induction es arbitrary: st) simp_all

lemma each_changes_append: "each_changes st (es @ es') \<longleftrightarrow> each_changes st es \<and> each_changes (key_after st es) es'"
  by (induction es arbitrary: st) simp_all

definition spot :: "nat \<Rightarrow> nat \<Rightarrow> keypos" where
  "spot r cl = \<lparr>col = of_nat cl, row = of_nat r\<rparr>"

lemma spot_inj: "r < 256 \<Longrightarrow> r' < 256 \<Longrightarrow> cl < 256 \<Longrightarrow> cl' < 256 \<Longrightarrow> spot r cl = spot r' cl' \<longleftrightarrow> r = r' \<and> cl = cl'"
  by (auto simp: spot_def dest!: arg_cong [where f = unat] simp: unat_of_nat)

lemma key_event_facts [simp]:
  "IS_KEYEVENT (MAKE_KEYEVENT r cl p t)" "pressed (MAKE_KEYEVENT r cl p t) = p" "key (MAKE_KEYEVENT r cl p t) = spot r cl"
  "\<not> IS_KEYEVENT (MAKE_TICK_EVENT t)"
  by (simp_all add: MAKE_KEYEVENT_def MAKE_TICK_EVENT_def MAKE_EVENT_def IS_KEYEVENT_def spot_def)

section \<open>Scans with a log\<close>

text \<open>The world keeps a log of the events given to \<^verbatim>\<open>action_exec\<close>, whatever else happens in it.\<close>

definition logging :: "('v \<times> keyevent list) scan_cfg \<Rightarrow> bool" where
  "logging c \<longleftrightarrow> should_process_keypress c \<and> SCAN_ROWS c \<le> 256 \<and> SCAN_COLS c \<le> 256 \<and>
     (\<forall>e v l. snd (exec c e (v, l)) = l @ [e]) \<and> (\<forall>r cl p v l. snd (switch_events c r cl p (v, l)) = l)"

lemma loggingD:
  assumes "logging c"
  shows "should_process_keypress c" "snd (exec c e w) = snd w @ [e]" "snd (switch_events c r cl p w) = snd w"
    "SCAN_ROWS c \<le> 256" "SCAN_COLS c \<le> 256"
  using assms unfolding logging_def by (cases w; simp)+

lemma and_bit: "w AND push_bit n 1 \<noteq> (0 :: 'r::len word) \<longleftrightarrow> bit w n"
  by (simp add: bit_iff_and_push_bit_not_eq_0)

lemma xor_zero: "x XOR y = 0 \<longleftrightarrow> x = (y :: 'r::len word)"
  by (auto simp: bit_eq_iff bit_xor_iff)

lemma col_step_bits:
  "col_step c r cur (cur XOR prev) n w =
    (if bit cur n \<noteq> bit prev n then
       (let w = (if should_process_keypress c then exec c (MAKE_KEYEVENT r n (bit cur n) (clock c w)) w else w)
        in switch_events c r n (bit cur n) w)
     else w)"
  unfolding col_step_def and_bit bit_xor_iff Let_def by simp

lemma scan_cols:
  assumes "logging c" "n \<le> SCAN_COLS c" "r < 256"
  shows "\<exists>es. snd (fold (col_step c r cur (cur XOR prev)) [0..<n] w) = snd w @ es \<and>
    (\<forall>st. (\<forall>cl < n. st (spot r cl) = bit prev cl) \<longrightarrow>
      each_changes st es \<and> (\<forall>cl < n. key_after st es (spot r cl) = bit cur cl) \<and>
      (\<forall>p. (\<forall>cl < n. p \<noteq> spot r cl) \<longrightarrow> key_after st es p = st p))"
  using assms(2)
proof (induction n)
  case 0
  then show ?case by (intro exI [of _ "[]"]) simp
next
  case (Suc n)
  note lg = loggingD [OF assms(1)]
  let ?w = "fold (col_step c r cur (cur XOR prev)) [0..<n] w"
  obtain es where es: "snd ?w = snd w @ es"
    "\<And>st. (\<forall>cl < n. st (spot r cl) = bit prev cl) \<Longrightarrow>
      each_changes st es \<and> (\<forall>cl < n. key_after st es (spot r cl) = bit cur cl) \<and>
      (\<forall>p. (\<forall>cl < n. p \<noteq> spot r cl) \<longrightarrow> key_after st es p = st p)"
    using Suc.IH Suc.prems by auto
  have ne: "spot r n \<noteq> spot r cl" "spot r cl \<noteq> spot r n" if "cl < n" for cl
    using spot_inj [of r r n cl] assms(3) that lg(5) Suc.prems by auto
  define ev where "ev = (if bit cur n \<noteq> bit prev n then [MAKE_KEYEVENT r n (bit cur n) (clock c ?w)] else [])"
  have step: "snd (fold (col_step c r cur (cur XOR prev)) [0..<Suc n] w) = snd w @ (es @ ev)"
    using lg(1-3) es(1) by (simp add: col_step_bits ev_def Let_def)
  have "each_changes st (es @ ev) \<and> (\<forall>cl < Suc n. key_after st (es @ ev) (spot r cl) = bit cur cl) \<and>
      (\<forall>p. (\<forall>cl < Suc n. p \<noteq> spot r cl) \<longrightarrow> key_after st (es @ ev) p = st p)"
    if st: "\<forall>cl < Suc n. st (spot r cl) = bit prev cl" for st
  proof -
    have 1: "each_changes st es" "\<forall>cl < n. key_after st es (spot r cl) = bit cur cl"
      "\<forall>p. (\<forall>cl < n. p \<noteq> spot r cl) \<longrightarrow> key_after st es p = st p"
      using es(2) [of st] st by auto
    have here: "key_after st es (spot r n) = bit prev n" using 1(3) ne st by auto
    have "key_after st (es @ ev) = (key_after st es)(spot r n := bit cur n)"
      using here by (simp add: key_after_append ev_def fun_upd_idem)
    then show ?thesis
      using 1 here ne by (auto simp: each_changes_append ev_def less_Suc_eq)
  qed
  then show ?case using step by blast
qed

text \<open>The state of the keys is the one of the previous matrix.\<close>

definition as_matrix :: "'w scan_cfg \<Rightarrow> (keypos \<Rightarrow> bool) \<Rightarrow> 'r::len word list \<Rightarrow> bool" where
  "as_matrix c st prev \<longleftrightarrow> (\<forall>r < SCAN_ROWS c. \<forall>cl < SCAN_COLS c. st (spot r cl) = bit (prev ! r) cl)"

lemma scan_rows:
  assumes "logging c" "n \<le> SCAN_ROWS c" "length prev = SCAN_ROWS c"
  shows "\<exists>es prev'. snd (fst (fold (row_step c m) [0..<n] (w, prev))) = snd w @ es \<and>
    snd (fold (row_step c m) [0..<n] (w, prev)) = prev' \<and> length prev' = SCAN_ROWS c \<and>
    (\<forall>r < SCAN_ROWS c. prev' ! r = (if r < n \<and> \<not> has_ghost_in_row c m r (m ! r) then m ! r else prev ! r)) \<and>
    (\<forall>st. as_matrix c st prev \<longrightarrow> each_changes st es \<and> as_matrix c (key_after st es) prev')"
  using assms(2)
proof (induction n)
  case 0
  then show ?case using assms(3) by (intro exI [of _ "[]"] exI [of _ prev]) simp
next
  case (Suc n)
  note lg = loggingD [OF assms(1)]
  obtain w1 prev1 where f: "fold (row_step c m) [0..<n] (w, prev) = (w1, prev1)" by (metis prod.exhaust)
  obtain es where es: "snd w1 = snd w @ es" "length prev1 = SCAN_ROWS c"
    "\<forall>r < SCAN_ROWS c. prev1 ! r = (if r < n \<and> \<not> has_ghost_in_row c m r (m ! r) then m ! r else prev ! r)"
    "\<And>st. as_matrix c st prev \<Longrightarrow> each_changes st es \<and> as_matrix c (key_after st es) prev1"
    using Suc.IH Suc.prems f by auto
  have n: "n < SCAN_ROWS c" "n < 256" using Suc.prems lg(4) by simp_all
  show ?case
  proof (cases "m ! n XOR prev1 ! n = 0 \<or> has_ghost_in_row c m n (m ! n)")
    case True
    then have "m ! n = prev1 ! n \<or> has_ghost_in_row c m n (m ! n)" by (simp add: xor_zero)
    moreover have "fold (row_step c m) [0..<Suc n] (w, prev) = (w1, prev1)"
      using True f by (simp add: row_step_def Let_def)
    ultimately show ?thesis using es n by (auto simp: less_Suc_eq intro!: exI [of _ es])
  next
    case False
    obtain es' where E: "snd (fold (col_step c n (m ! n) (m ! n XOR prev1 ! n)) [0..<SCAN_COLS c] w1) = snd w1 @ es' \<and>
      (\<forall>st. (\<forall>cl < SCAN_COLS c. st (spot n cl) = bit (prev1 ! n) cl) \<longrightarrow>
        each_changes st es' \<and> (\<forall>cl < SCAN_COLS c. key_after st es' (spot n cl) = bit (m ! n) cl) \<and>
        (\<forall>p. (\<forall>cl < SCAN_COLS c. p \<noteq> spot n cl) \<longrightarrow> key_after st es' p = st p))"
      using scan_cols [OF assms(1) order.refl n(2)] by (rule exE)
    note es' = E [THEN conjunct1] E [THEN conjunct2, rule_format]
    have step: "fold (row_step c m) [0..<Suc n] (w, prev) =
        (fold (col_step c n (m ! n) (m ! n XOR prev1 ! n)) [0..<SCAN_COLS c] w1, prev1[n := m ! n])"
      using False f by (simp add: row_step_def Let_def)
    have other: "spot r cl \<noteq> spot n cl'" if "r < SCAN_ROWS c" "r \<noteq> n" "cl < SCAN_COLS c" "cl' < SCAN_COLS c" for r cl cl'
      using spot_inj [of r n cl cl'] that n lg(4,5) by auto
    have "each_changes st (es @ es') \<and> as_matrix c (key_after st (es @ es')) (prev1[n := m ! n])"
      if st: "as_matrix c st prev" for st
    proof -
      have 1: "each_changes st es" "as_matrix c (key_after st es) prev1" using es(4) [OF st] by simp_all
      then have "\<forall>cl < SCAN_COLS c. key_after st es (spot n cl) = bit (prev1 ! n) cl" using n(1) by (simp add: as_matrix_def)
      then have "each_changes (key_after st es) es' \<and> (\<forall>cl < SCAN_COLS c. key_after (key_after st es) es' (spot n cl) = bit (m ! n) cl) \<and>
          (\<forall>p. (\<forall>cl < SCAN_COLS c. p \<noteq> spot n cl) \<longrightarrow> key_after (key_after st es) es' p = key_after st es p)"
        by (rule E [THEN conjunct2, THEN spec, THEN mp])
      note 2 = this
      have "key_after (key_after st es) es' (spot r cl) = bit (prev1[n := m ! n] ! r) cl" if "r < SCAN_ROWS c" "cl < SCAN_COLS c" for r cl
      proof (cases "r = n")
        case True
        then show ?thesis using 2 that es(2) by simp
      next
        case False
        then have "key_after (key_after st es) es' (spot r cl) = key_after st es (spot r cl)" using 2 other [OF that(1) False that(2)] by blast
        then show ?thesis using 1(2) that False by (simp add: as_matrix_def)
      qed
      then show ?thesis using 1(1) 2 by (simp add: each_changes_append key_after_append as_matrix_def)
    qed
    moreover have "\<forall>r < SCAN_ROWS c. prev1[n := m ! n] ! r = (if r < Suc n \<and> \<not> has_ghost_in_row c m r (m ! r) then m ! r else prev ! r)"
      using es(2,3) False n(1) by (auto simp: nth_list_update less_Suc_eq)
    ultimately show ?thesis
      unfolding step using es(1,2) es'(1) by (intro exI [of _ "es @ es'"] exI [of _ "prev1[n := m ! n]"]) simp
  qed
qed

lemma matrix_task_events:
  assumes "logging c" "length (matrix_previous s) = SCAN_ROWS c" "matrix_task c scanned (w, s) = (ch, w', s')"
  shows "\<exists>es. snd w' = snd w @ es \<and> length (matrix_previous s') = SCAN_ROWS c \<and>
    (\<forall>st. as_matrix c st (matrix_previous s) \<longrightarrow> each_changes st es \<and> as_matrix c (key_after st es) (matrix_previous s')) \<and>
    (\<forall>m. scanned = Some m \<longrightarrow> (\<forall>r < SCAN_ROWS c. \<not> has_ghost_in_row c m r (m ! r) \<longrightarrow> matrix_previous s' ! r = m ! r))"
proof -
  note lg = loggingD [OF assms(1)]
  have tick: "\<exists>es. snd (fst (generate_tick_event c (w, s))) = snd w @ es \<and> matrix_previous (snd (generate_tick_event c (w, s))) = matrix_previous s \<and>
      (\<forall>st. each_changes st es \<and> key_after st es = st)"
  proof (cases "clock c w - last_tick s = 0")
    case True
    then show ?thesis by (intro exI [of _ "[]"]) (simp add: generate_tick_event_def Let_def)
  next
    case False
    then show ?thesis
      by (intro exI [of _ "[MAKE_TICK_EVENT (clock c w)]"]) (simp add: generate_tick_event_def Let_def lg)
  qed
  show ?thesis
  proof (cases "scanned = None \<or> (\<exists>m. scanned = Some m \<and> (\<forall>r < SCAN_ROWS c. matrix_previous s ! r = m ! r))")
    case True
    then have "(w', s') = generate_tick_event c (w, s)"
      using assms(3) by (auto simp: matrix_task_def list_ex_iff xor_zero)
    then show ?thesis using tick True assms(2) by (metis fst_conv snd_conv option.distinct(1) option.inject)
  next
    case False
    then obtain m r where m: "scanned = Some m" "r < SCAN_ROWS c" "matrix_previous s ! r \<noteq> m ! r" by auto
    then have "list_ex (\<lambda>r. matrix_previous s ! r XOR m ! r \<noteq> 0) [0..<SCAN_ROWS c]"
      by (auto simp: list_ex_iff xor_zero)
    then have "(w', matrix_previous s') = fold (row_step c m) [0..<SCAN_ROWS c] (w, matrix_previous s)"
      using assms(3) m(1) by (auto simp: matrix_task_def split: prod.splits)
    then show ?thesis
      using scan_rows [OF assms(1) order.refl assms(2), of m w] m(1) by (metis fst_conv snd_conv option.inject)
  qed
qed

section \<open>Ghosts\<close>

lemma real_keys_bit:
  assumes "SCAN_COLS c \<le> LENGTH('r)"
  shows "bit (get_real_keys c r (rowdata :: 'r::len word)) cl \<longleftrightarrow> cl < SCAN_COLS c \<and> real_key c r cl \<and> bit rowdata cl"
proof -
  have "bit (fold (\<lambda>cl out. if real_key c r cl \<and> rowdata AND push_bit cl 1 \<noteq> 0 then out OR push_bit cl 1 else out) [0..<n] (0 :: 'r word)) cl \<longleftrightarrow>
      cl < n \<and> real_key c r cl \<and> bit rowdata cl" if "n \<le> LENGTH('r)" for n
    using that
  proof (induction n)
    case (Suc n)
    have one: "bit (2 ^ n :: 'r word) cl \<longleftrightarrow> cl = n" using Suc.prems by (auto simp: bit_simps)
    show ?case
      using Suc unfolding upt_Suc_append [OF le0] fold_append comp_def and_bit
      by (auto simp: bit_or_iff one less_Suc_eq)
  qed simp
  then show ?thesis using assms by (simp add: get_real_keys_def)
qed

text \<open>Clearing the lowest bit leaves something when there were two.\<close>

lemma nat_and_pred: "0 < n \<Longrightarrow> n AND (n - 1) = (0 :: nat) \<longleftrightarrow> (\<exists>k. n = 2 ^ k)"
proof (induction n rule: less_induct)
  case (less n)
  show ?case
  proof (cases "even n")
    case True
    then obtain v where v: "n = 2 * v" "0 < v" using less.prems by auto
    have "n - 1 = 2 * (v - 1) + 1" using v by simp
    then have "n AND (n - 1) = 2 * (v AND (v - 1))" using v by (subst and_rec) simp
    then have "n AND (n - 1) = 0 \<longleftrightarrow> (\<exists>k. v = 2 ^ k)" using less.IH [of v] v by simp
    also have "\<dots> \<longleftrightarrow> (\<exists>k. n = 2 ^ k)"
    proof
      assume "\<exists>k. n = 2 ^ k"
      then obtain k where k: "n = 2 ^ k" by blast
      then have "k \<noteq> 0" using True by (auto intro: ccontr)
      then show "\<exists>k. v = 2 ^ k" using k v(1) by (cases k) auto
    qed (use v(1) in \<open>auto intro: exI [of _ "Suc k" for k]\<close>)
    finally show ?thesis .
  next
    case False
    then obtain v where v: "n = 2 * v + 1" by (auto elim: oddE)
    have "n AND (n - 1) = 2 * v" unfolding v by (subst and_rec) simp
    moreover have "(\<exists>k. n = 2 ^ k) \<longleftrightarrow> v = 0"
    proof
      assume "\<exists>k. n = 2 ^ k"
      then obtain k where "n = 2 ^ k" by blast
      then show "v = 0" using False v by (cases k) auto
    qed (use v in \<open>auto intro: exI [of _ 0]\<close>)
    ultimately show ?thesis by simp
  qed
qed

lemma popcount_bits: "popcount_more_than_one (w :: 'r::len word) \<longleftrightarrow> (\<exists>i j. i \<noteq> j \<and> bit w i \<and> bit w j)"
proof (cases "w = 0")
  case False
  then have pos: "0 < unat w" by (simp add: unat_gt_0)
  have "unat (w AND (w - 1)) = unat w AND (unat w - 1)"
    using pos False by (simp add: unsigned_and_eq unat_minus_one)
  then have p: "popcount_more_than_one w \<longleftrightarrow> \<not> (\<exists>k. unat w = 2 ^ k)"
    using nat_and_pred [OF pos] by (simp add: popcount_more_than_one_def unat_eq_zero [symmetric] del: unat_eq_zero)
  obtain i where i: "bit w i" using False by (metis bit_eqI bit_0_eq bot_apply bot_bool_def)
  have "unat w = 2 ^ k \<longleftrightarrow> w = push_bit k 1 \<and> k < LENGTH('r)" for k
  proof
    assume u: "unat w = 2 ^ k"
    have "(2 :: nat) ^ k < 2 ^ LENGTH('r)" unfolding u [symmetric] by (rule unsigned_less)
    then have "k < LENGTH('r)" by simp
    moreover have "w = of_nat (2 ^ k)" unfolding u [symmetric] by simp
    ultimately show "w = push_bit k 1 \<and> k < LENGTH('r)" by (simp add: push_bit_of_1)
  next
    assume w: "w = push_bit k 1 \<and> k < LENGTH('r)"
    then have "word_of_nat (2 ^ k) = w" by (simp add: push_bit_of_1)
    then show "unat w = 2 ^ k" using w by (intro of_nat_inverse) simp_all
  qed
  then have "popcount_more_than_one w \<longleftrightarrow> (\<forall>k < LENGTH('r). w \<noteq> push_bit k 1)" using p by blast
  also have "\<dots> \<longleftrightarrow> (\<exists>i j. i \<noteq> j \<and> bit w i \<and> bit w j)"
  proof
    assume "\<forall>k < LENGTH('r). w \<noteq> push_bit k 1"
    then have "w \<noteq> push_bit i 1" using bit_imp_le_length [OF i] by blast
    then obtain j where "bit w j \<noteq> bit (push_bit i 1 :: 'r word) j" by (metis bit_eqI)
    then have "bit w j" "j \<noteq> i" using i bit_imp_le_length [OF i] by (auto simp: bit_simps split: if_splits)
    then show "\<exists>i j. i \<noteq> j \<and> bit w i \<and> bit w j" using i by blast
  qed (auto simp: bit_simps)
  finally show ?thesis .
qed (simp add: popcount_more_than_one_def)

text \<open>A scan that only finds ghosts does nothing, not even a tick: the timeouts of the action code wait for its end.\<close>

lemma ghost_stops_ticks:
  assumes "\<forall>r < SCAN_ROWS c. m ! r \<noteq> matrix_previous s ! r \<longrightarrow> has_ghost_in_row c m r (m ! r)"
    and "\<exists>r < SCAN_ROWS c. m ! r \<noteq> matrix_previous s ! r"
  shows "matrix_task c (Some m) (w, s) = (True, w, s)"
proof -
  have "fold (row_step c m) [0..<n] (w, matrix_previous s) = (w, matrix_previous s)" if "n \<le> SCAN_ROWS c" for n
    using that assms(1) by (induction n) (auto simp: row_step_def xor_zero Let_def)
  moreover obtain r where "r < SCAN_ROWS c" "matrix_previous s ! r \<noteq> m ! r" using assms(2) by metis
  then have "list_ex (\<lambda>r. matrix_previous s ! r XOR m ! r \<noteq> 0) [0..<SCAN_ROWS c]" by (auto simp: list_ex_iff xor_zero)
  ultimately show ?thesis by (simp add: matrix_task_def)
qed

section \<open>The start\<close>

text \<open>With an EEPROM that is not enabled, in a build without overrides, the firmware starts with the default settings.\<close>

lemma quantum_init_defaults:
  assumes "eeprom ops cap bytes good" "EECONFIG_BASE_SIZE \<le> cap" "good (mem s)" "plain_build ec" "erases_well good ec"
    and "eeconfig_is_enabled ec ops (mem s) = Some False"
  shows "\<exists>s'. quantum_init ec ops cfg Some s = Some s' \<and> good (mem s') \<and> raw s' = 0x1400 \<and> debug s' = 0 \<and>
    eeconfig_is_enabled ec ops (mem s') = Some True"
proof -
  obtain e where e: "eeconfig_init ec ops (mem s) = Some e" "good e" "eeconfig_is_enabled ec ops e = Some True"
    "\<forall>t \<in> {Debug 0, DefaultLayer 1, Keymap 0x1400, Audio 0, Kb 0, User 0, Haptic 0}. read_setting ops t e = Some t"
    using eeconfig_init_defaults [OF assms(1-5)] by blast
  have "eeconfig_read_debug ops e = Some 0" "eeconfig_read_keymap ops e = Some 0x1400" "eeconfig_read_default_layer ops e = Some 1"
    using e(4) by auto
  then show ?thesis
    using e(1-3) assms(6) by (simp add: quantum_init_def load_raw_def)
qed

section \<open>Properties\<close>

text \<open>
  C31: a row is held back as a ghost when, and only when, two of its pressed keys and two pressed keys of another
  row are the corners of a rectangle; places without a key in the keymap do not count.
\<close>

theorem ghost_is_rectangle:
  assumes "SCAN_COLS c \<le> LENGTH('r)"
  shows "has_ghost_in_row c (m :: 'r::len word list) r (m ! r) \<longleftrightarrow> MATRIX_HAS_GHOST c \<and>
    (\<exists>i < SCAN_ROWS c. \<exists>x < SCAN_COLS c. \<exists>y < SCAN_COLS c. i \<noteq> r \<and> x \<noteq> y \<and>
      real_key c r x \<and> real_key c r y \<and> real_key c i x \<and> real_key c i y \<and>
      bit (m ! r) x \<and> bit (m ! r) y \<and> bit (m ! i) x \<and> bit (m ! i) y)"
proof (cases "MATRIX_HAS_GHOST c")
  case True
  have ex: "list_ex P [0..<n] \<longleftrightarrow> (\<exists>i < n. P i)" for P n by (auto simp: list_ex_iff)
  show ?thesis
    unfolding has_ghost_in_row_def Let_def popcount_bits bit_and_iff real_keys_bit [OF assms] ex using True by (simp, blast)
qed (simp add: has_ghost_in_row_def)

text \<open>
  C3: over any sequence of scans from power-up, every key event that the matrix task executes changes the state of its
  key, a press first; the state the events leave a key in is the one of the last accepted rows, which are the rows of the
  matrix unless a ghost holds them back.
\<close>

theorem events_follow_matrix:
  assumes "logging c" "fold (\<lambda>x y. snd (matrix_task c x y)) scans ((v, []), \<lparr>last_tick = t, matrix_previous = replicate (SCAN_ROWS c) 0\<rparr>) = ((v', es), s)"
  shows "each_changes (\<lambda>_. False) es \<and>
    (\<forall>r < SCAN_ROWS c. \<forall>cl < SCAN_COLS c. key_after (\<lambda>_. False) es (spot r cl) = bit (matrix_previous s ! r) cl) \<and>
    (\<forall>m. scans \<noteq> [] \<and> last scans = Some m \<longrightarrow>
      (\<forall>r < SCAN_ROWS c. \<not> has_ghost_in_row c m r (m ! r) \<longrightarrow> matrix_previous s ! r = m ! r))"
proof -
  let ?start = "((v, []), \<lparr>last_tick = t, matrix_previous = replicate (SCAN_ROWS c) 0\<rparr>)"
  have "length (matrix_previous (snd x)) = SCAN_ROWS c \<and> each_changes (\<lambda>_. False) (snd (fst x)) \<and>
      as_matrix c (key_after (\<lambda>_. False) (snd (fst x))) (matrix_previous (snd x)) \<and>
      (\<forall>m. scans \<noteq> [] \<and> last scans = Some m \<longrightarrow>
        (\<forall>r < SCAN_ROWS c. \<not> has_ghost_in_row c m r (m ! r) \<longrightarrow> matrix_previous (snd x) ! r = m ! r))"
    if "x = fold (\<lambda>x y. snd (matrix_task c x y)) scans ?start" for x
    using that
  proof (induction scans arbitrary: x rule: rev_induct)
    case Nil
    then show ?case by (simp add: as_matrix_def)
  next
    case (snoc scanned scans)
    obtain w0 s0 where 0: "fold (\<lambda>x y. snd (matrix_task c x y)) scans ?start = (w0, s0)" by (metis prod.exhaust)
    obtain ch w1 s1 where 1: "matrix_task c scanned (w0, s0) = (ch, w1, s1)" by (metis prod.exhaust)
    have x: "x = (w1, s1)" using snoc.prems 0 1 by simp
    note ih = snoc.IH [OF 0 [symmetric], simplified]
    obtain es where es: "snd w1 = snd w0 @ es" "length (matrix_previous s1) = SCAN_ROWS c"
      "\<And>st. as_matrix c st (matrix_previous s0) \<Longrightarrow> each_changes st es \<and> as_matrix c (key_after st es) (matrix_previous s1)"
      "\<And>m r. scanned = Some m \<Longrightarrow> r < SCAN_ROWS c \<Longrightarrow> \<not> has_ghost_in_row c m r (m ! r) \<Longrightarrow> matrix_previous s1 ! r = m ! r"
      using matrix_task_events [OF assms(1) _ 1] ih by blast
    show ?case
      using ih es(2,4) es(3) [of "key_after (\<lambda>_. False) (snd w0)"]
      unfolding x by (simp add: es(1) each_changes_append key_after_append)
  qed
  from this [OF assms(2) [symmetric]] show ?thesis by (simp add: as_matrix_def)
qed

text \<open>Two rows and three columns; the log is all there is. The first key goes down, then nothing changes, then it goes up.\<close>

definition log_cfg :: "(unit \<times> keyevent list) scan_cfg" where
  "log_cfg = \<lparr>SCAN_ROWS = 2, SCAN_COLS = 3, MATRIX_HAS_GHOST = True, real_key = (\<lambda>_ _. True),
     exec = (\<lambda>e (v, l). (v, l @ [e])), switch_events = (\<lambda>_ _ _ w. w), clock = (\<lambda>_. 5), should_process_keypress = True\<rparr>"

lemma log_cfg_logs: "logging log_cfg"
  by (simp add: logging_def log_cfg_def)

lemma events_follow_matrix_witness:
  "case fold (\<lambda>x y. snd (matrix_task log_cfg x y)) [Some [1, 0], Some [1, 0], Some [0 :: 8 word, 0]] (((), []), \<lparr>last_tick = 0, matrix_previous = replicate 2 0\<rparr>) of
     ((v, es), s) \<Rightarrow> each_changes (\<lambda>_. False) es \<and> matrix_previous s ! 0 = 0 \<and> \<not> key_after (\<lambda>_. False) es (spot 0 0)"
proof -
  let ?r = "fold (\<lambda>x y. snd (matrix_task log_cfg x y)) [Some [1, 0], Some [1, 0], Some [0 :: 8 word, 0]] (((), []), \<lparr>last_tick = 0, matrix_previous = replicate 2 0\<rparr>)"
  obtain v es s where r: "?r = ((v, es), s)" by (metis prod.exhaust)
  have c: "SCAN_ROWS log_cfg = 2" "SCAN_COLS log_cfg = 3" by (simp_all add: log_cfg_def)
  have g: "\<not> has_ghost_in_row log_cfg [0 :: 8 word, 0] 0 0" 
    by (simp add: has_ghost_in_row_def get_real_keys_def popcount_more_than_one_def log_cfg_def upt_rec Let_def)
  show ?thesis
    using events_follow_matrix [OF log_cfg_logs r [folded c(1)]] r c g by auto
qed

text \<open>Three corners of a rectangle are no ghost, four are one.\<close>

lemma ghost_is_rectangle_witness:
  "has_ghost_in_row log_cfg [3 :: 8 word, 3] 0 ([3 :: 8 word, 3] ! 0)"
proof -
  have c: "SCAN_COLS log_cfg \<le> LENGTH(8)" "SCAN_ROWS log_cfg = 2" "SCAN_COLS log_cfg = 3" "MATRIX_HAS_GHOST log_cfg" "real_key log_cfg i j" for i j
    by (simp_all add: log_cfg_def)
  have b: "bit (3 :: 8 word) 0" "bit (3 :: 8 word) 1" by (simp_all add: bit_numeral_rec)
  show ?thesis
    by (rule ghost_is_rectangle [OF c(1), THEN iffD2], intro conjI exI [of _ 1] exI [of _ 0]) (use b c in simp_all)
qed

end
