(* ===== verification/Mousekey.thy ===== *)
theory Mousekey
  imports Report "HOL-Library.Signed_Division"
begin

text \<open>
  Mouse keys (\<^verbatim>\<open>quantum/mousekey.c\<close>): keys that move the pointer and the wheel, with the accelerated, combined, kinetic and
  inertia builds in one model, and the build with three speeds in another.
\<close>

unbundle bit_operations_syntax

section \<open>Options and state\<close>

text \<open>
  Signed fields of the report are integers; an assignment wraps them to the width of the field. \<open>sent\<close> holds what was given
  to the driver. Repeat counters are at most 255, which the code checks.
\<close>

record pointer =
  buttons :: u8
  boot_x :: int
  boot_y :: int
  px :: int
  py :: int
  pv :: int
  ph :: int

definition no_motion :: pointer where
  "no_motion = \<lparr>buttons = 0, boot_x = 0, boot_y = 0, px = 0, py = 0, pv = 0, ph = 0\<rparr>"

datatype mk_mode = Accelerated | Combined | Kinetic | Inertia

record pointer_cfg =
  MOUSE_EXTENDED_REPORT :: bool
  int_16_bits :: bool

record mk_cfg = pointer_cfg +
  mode :: mk_mode
  MOUSEKEY_MOVE_MAX :: int
  MOUSEKEY_WHEEL_MAX :: int
  MOUSEKEY_MOVE_DELTA :: int
  MOUSEKEY_WHEEL_DELTA :: int
  MOUSEKEY_INTERVAL :: nat
  mk_delay :: nat
  mk_interval :: nat
  mk_max_speed :: int
  mk_time_to_max :: int
  mk_wheel_delay :: nat
  mk_wheel_max_speed :: int
  mk_wheel_time_to_max :: int
  MOUSEKEY_FRICTION :: int
  mk_initial_speed :: int
  mk_base_speed :: int
  mk_decelerated_speed :: int
  mk_accelerated_speed :: int
  wheel_initial_movements :: int
  wheel_base_movements :: int
  wheel_accelerated_movements :: int
  wheel_decelerated_movements :: int

record pointer_state =
  report :: pointer
  last_timer_c :: u16
  last_timer_w :: u16
  sent :: "pointer list"

record mk_state = pointer_state +
  accel :: u8
  rep :: nat
  wheel_rep :: nat
  frame :: nat
  x_dir :: int
  y_dir :: int
  x_inertia :: int
  y_inertia :: int
  mouse_timer :: u16
  mk_wheel_interval :: u16

definition mk_init :: "u16 \<Rightarrow> mk_state" where
  "mk_init interval = \<lparr>report = no_motion, last_timer_c = 0, last_timer_w = 0, sent = [], accel = 0, rep = 0, wheel_rep = 0,
     frame = 0, x_dir = 0, y_dir = 0, x_inertia = 0, y_inertia = 0, mouse_timer = 0, mk_wheel_interval = interval\<rparr>"

definition s8 :: "int \<Rightarrow> int" where "s8 = signed_take_bit 7"
definition xy :: "'c pointer_cfg_scheme \<Rightarrow> int \<Rightarrow> int" where
  "xy c = signed_take_bit (if MOUSE_EXTENDED_REPORT c then 15 else 7)"

text \<open>
  Where \<^verbatim>\<open>int\<close> has 16 bits, the quotient by the unsigned denominator is computed on unsigned numbers.
\<close>

definition times_inv_sqrt2 :: "'c pointer_cfg_scheme \<Rightarrow> int \<Rightarrow> int" where
  "times_inv_sqrt2 c x =
    (let n = s8 x * 181 in
     s8 (if int_16_bits c then (if n < 0 then take_bit 16 (n - 128) div 256 else (n + 128) div 256)
         else if n < 0 then (n - 128) sdiv 256 else (n + 128) sdiv 256))"

section \<open>Units of movement\<close>

text \<open>
  The fastest of the keys \<^verbatim>\<open>ACCEL0\<close> to \<^verbatim>\<open>ACCEL2\<close> that is down selects a fixed speed; otherwise the speed grows with the
  number of reports. The first two functions are shared by \<^verbatim>\<open>move_unit\<close> and \<^verbatim>\<open>wheel_unit\<close>.
\<close>

definition clamp_unit :: "int \<Rightarrow> int \<Rightarrow> int" where
  "clamp_unit limit u = (let u = take_bit 16 u in if u > limit then limit else if u = 0 then 1 else u)"

definition growing_unit :: "int \<Rightarrow> int \<Rightarrow> int \<Rightarrow> nat \<Rightarrow> int" where
  "growing_unit delta max_speed time_to_max n =
    (if n = 0 then delta
     else if int n \<ge> time_to_max then delta * max_speed
     else delta * max_speed * int n div time_to_max)"

definition accelerated_unit :: "u8 \<Rightarrow> int \<Rightarrow> int \<Rightarrow> int \<Rightarrow> int \<Rightarrow> nat \<Rightarrow> int" where
  "accelerated_unit acc limit delta max_speed time_to_max n =
    clamp_unit limit
      (if bit acc 0 then delta * max_speed div 4
       else if bit acc 1 then delta * max_speed div 2
       else if bit acc 2 then delta * max_speed
       else growing_unit delta max_speed time_to_max n)"

definition combined_unit :: "u8 \<Rightarrow> int \<Rightarrow> int \<Rightarrow> int \<Rightarrow> int \<Rightarrow> nat \<Rightarrow> int" where
  "combined_unit acc limit delta max_speed time_to_max n =
    clamp_unit limit
      (if bit acc 0 then 1
       else if bit acc 1 then delta * max_speed div 2
       else if bit acc 2 then limit
       else growing_unit delta max_speed time_to_max n)"

definition elapsed_50 :: "u16 \<Rightarrow> mk_state \<Rightarrow> int" where
  "elapsed_50 t s = uint (t - mouse_timer s) div 50"

definition kinetic_speed :: "mk_cfg \<Rightarrow> u16 \<Rightarrow> mk_state \<Rightarrow> int" where
  "kinetic_speed c t s =
    (if bit (accel s) 0 then mk_decelerated_speed c
     else if bit (accel s) 2 then mk_accelerated_speed c
     else if rep s \<noteq> 0 \<and> mouse_timer s \<noteq> 0 then
       (let e = elapsed_50 t s;
            speed = take_bit 16 (mk_initial_speed c + MOUSEKEY_MOVE_DELTA c * e + MOUSEKEY_MOVE_DELTA c * e * e div 2)
        in if speed > mk_base_speed c then mk_base_speed c else speed)
     else mk_initial_speed c)"

definition kinetic_unit :: "mk_cfg \<Rightarrow> u16 \<Rightarrow> mk_state \<Rightarrow> int" where
  "kinetic_unit c t s =
    (let speed = take_bit 8 (kinetic_speed c t s div (1000 div int (mk_interval c)))
     in if speed > MOUSEKEY_MOVE_MAX c then MOUSEKEY_MOVE_MAX c else if speed < 1 then 1 else speed)"

definition move_unit :: "mk_cfg \<Rightarrow> u16 \<Rightarrow> mk_state \<Rightarrow> int" where
  "move_unit c t s =
    (if mode c = Kinetic then kinetic_unit c t s
     else (if mode c = Combined then combined_unit else accelerated_unit)
       (accel s) (MOUSEKEY_MOVE_MAX c) (MOUSEKEY_MOVE_DELTA c) (mk_max_speed c) (mk_time_to_max c) (rep s))"

definition wheel_speed :: "mk_cfg \<Rightarrow> u16 \<Rightarrow> mk_state \<Rightarrow> int" where
  "wheel_speed c t s =
    (if bit (accel s) 0 then wheel_decelerated_movements c
     else if bit (accel s) 2 then wheel_accelerated_movements c
     else if wheel_rep s \<noteq> 0 \<and> mouse_timer s \<noteq> 0 then
       (let e = elapsed_50 t s;
            speed = (if uint (mk_wheel_interval s) \<noteq> wheel_base_movements c
                     then take_bit 16 (wheel_initial_movements c + e + e * e div 2) else wheel_initial_movements c)
        in if speed > wheel_base_movements c then wheel_base_movements c else speed)
     else wheel_initial_movements c)"

definition wheel_unit :: "mk_cfg \<Rightarrow> u16 \<Rightarrow> mk_state \<Rightarrow> int \<times> mk_state" where
  "wheel_unit c t s =
    (if mode c = Kinetic then (1, s\<lparr>mk_wheel_interval := of_int (1000 div wheel_speed c t s)\<rparr>)
     else if mode c = Combined then
       (combined_unit (accel s) (MOUSEKEY_WHEEL_MAX c) (MOUSEKEY_WHEEL_DELTA c) (mk_wheel_max_speed c) (mk_wheel_time_to_max c) (rep s), s)
     else
       (accelerated_unit (accel s) (MOUSEKEY_WHEEL_MAX c) (MOUSEKEY_WHEEL_DELTA c) (mk_wheel_max_speed c) (mk_wheel_time_to_max c) (wheel_rep s), s))"

text \<open>The build with inertia: each axis has a velocity; the first frames move by one pixel.\<close>

definition inertia_unit :: "mk_cfg \<Rightarrow> bool \<Rightarrow> mk_state \<Rightarrow> int \<times> mk_state" where
  "inertia_unit c y_axis s =
    (let (v, d) = (if y_axis then (y_inertia s, y_dir s) else (x_inertia s, x_dir s));
         (unit, s) =
           (if frame s < 2 then (d * MOUSEKEY_MOVE_DELTA c, s\<lparr>frame := 1\<rparr>)
            else (let percent = signed_take_bit 15 (v * 256 sdiv mk_time_to_max c);
                      percent = signed_take_bit 15 (percent * percent div 256);
                      percent = (if v < 0 then - percent else percent)
                  in (sgn v + mk_max_speed c * percent div 256, s)))
     in (s8 (max (- MOUSEKEY_MOVE_MAX c) (min (MOUSEKEY_MOVE_MAX c) (signed_take_bit 15 unit))), s))"

definition calc_inertia :: "mk_cfg \<Rightarrow> int \<Rightarrow> int \<Rightarrow> int" where
  "calc_inertia c direction velocity =
    (let velocity =
           s8 (if direction > -1 \<and> velocity < 0 then (velocity + 1) * (256 - MOUSEKEY_FRICTION c) sdiv 256
               else if direction < 1 \<and> velocity > 0 then velocity * (256 - MOUSEKEY_FRICTION c) sdiv 256
               else velocity)
     in s8 (if direction > 0 \<and> velocity < mk_time_to_max c then velocity + 1
            else if direction < 0 \<and> velocity > - mk_time_to_max c then velocity - 1
            else velocity))"

section \<open>Sending\<close>

abbreviation set_x :: "int \<Rightarrow> 'a pointer_state_scheme \<Rightarrow> 'a pointer_state_scheme" where
  "set_x v s \<equiv> s\<lparr>report := (report s)\<lparr>px := v\<rparr>\<rparr>"
abbreviation set_y :: "int \<Rightarrow> 'a pointer_state_scheme \<Rightarrow> 'a pointer_state_scheme" where
  "set_y v s \<equiv> s\<lparr>report := (report s)\<lparr>py := v\<rparr>\<rparr>"
abbreviation set_v :: "int \<Rightarrow> 'a pointer_state_scheme \<Rightarrow> 'a pointer_state_scheme" where
  "set_v v s \<equiv> s\<lparr>report := (report s)\<lparr>pv := v\<rparr>\<rparr>"
abbreviation set_h :: "int \<Rightarrow> 'a pointer_state_scheme \<Rightarrow> 'a pointer_state_scheme" where
  "set_h v s \<equiv> s\<lparr>report := (report s)\<lparr>ph := v\<rparr>\<rparr>"

definition moving :: "pointer \<Rightarrow> bool" where
  "moving p \<longleftrightarrow> px p \<noteq> 0 \<or> py p \<noteq> 0 \<or> pv p \<noteq> 0 \<or> ph p \<noteq> 0"

definition IS_MOUSEKEY_BUTTON :: "u8 \<Rightarrow> bool" where
  "IS_MOUSEKEY_BUTTON code \<longleftrightarrow> 0xD1 \<le> code \<and> code \<le> 0xD8"

text \<open>With the extended report the coordinates are also clipped for the boot protocol.\<close>

definition host_mouse_send :: "'c pointer_cfg_scheme \<Rightarrow> 'a pointer_state_scheme \<Rightarrow> 'a pointer_state_scheme" where
  "host_mouse_send c s =
    (let clip = (\<lambda>v. if v > 127 then 127 else if v < -127 then -127 else v);
         p = report s;
         p = (if MOUSE_EXTENDED_REPORT c then p\<lparr>boot_x := clip (px p), boot_y := clip (py p)\<rparr> else p)
     in s\<lparr>report := p, sent := sent s @ [p]\<rparr>)"

definition mousekey_send :: "'c pointer_cfg_scheme \<Rightarrow> u16 \<Rightarrow> 'a pointer_state_scheme \<Rightarrow> 'a pointer_state_scheme" where
  "mousekey_send c t s =
    (let p = report s;
         s = (if px p \<noteq> 0 \<or> py p \<noteq> 0 then s\<lparr>last_timer_c := t\<rparr> else s);
         s = (if pv p \<noteq> 0 \<or> ph p \<noteq> 0 then s\<lparr>last_timer_w := t\<rparr> else s)
     in host_mouse_send c s)"

definition as_report :: "pointer \<Rightarrow> mouse_report" where
  "as_report p = \<lparr>m_buttons = buttons p, m_boot_x = of_int (boot_x p), m_boot_y = of_int (boot_y p),
     m_x = of_int (px p), m_y = of_int (py p), m_v = of_int (pv p), m_h = of_int (ph p)\<rparr>"

text \<open>The end of the task, in both builds: the report is sent when it moves, and then restored.\<close>

definition finish_task :: "'c pointer_cfg_scheme \<Rightarrow> u16 \<Rightarrow> pointer \<Rightarrow> 'a pointer_state_scheme \<Rightarrow> 'a pointer_state_scheme" where
  "finish_task c t tmpmr s =
    (let s = (if has_mouse_report_changed (MOUSE_EXTENDED_REPORT c) (as_report (report s)) (as_report tmpmr) \<or> moving (report s)
              then mousekey_send c t s else s)
     in s\<lparr>report := tmpmr\<rparr>)"

text \<open>A diagonal movement is shortened, but not to nothing.\<close>

definition diagonal :: "'c pointer_cfg_scheme \<Rightarrow> int \<Rightarrow> int" where
  "diagonal c v = (let v = times_inv_sqrt2 c v in if v = 0 then 1 else v)"

section \<open>Keys and task\<close>

definition mousekey_on :: "mk_cfg \<Rightarrow> u16 \<Rightarrow> u8 \<Rightarrow> mk_state \<Rightarrow> mk_state" where
  "mousekey_on c t code s =
    (let s = (if mode c = Kinetic \<and> mouse_timer s = 0 then s\<lparr>mouse_timer := t\<rparr> else s);
         s = (if mode c \<noteq> Inertia \<and> moving (report s)
              then (if mode c = Kinetic then s\<lparr>mouse_timer := t - of_nat (4 * MOUSEKEY_INTERVAL c)\<rparr>
                    else s\<lparr>rep := nat (take_bit 8 (MOUSEKEY_MOVE_DELTA c)), wheel_rep := nat (take_bit 8 (MOUSEKEY_WHEEL_DELTA c))\<rparr>)
              else s)
     in if mode c = Inertia \<and> (code = 0xCD \<or> code = 0xCE) then
          (let s = s\<lparr>y_dir := (if code = 0xCE then 1 else -1)\<rparr>
           in if frame s < 2 then (let (u, s) = inertia_unit c True s in set_y u s) else s)
        else if mode c = Inertia \<and> (code = 0xCF \<or> code = 0xD0) then
          (let s = s\<lparr>x_dir := (if code = 0xD0 then 1 else -1)\<rparr>
           in if frame s < 2 then (let (u, s) = inertia_unit c False s in set_x u s) else s)
        else if code = 0xCD then set_y (xy c (- move_unit c t s)) s
        else if code = 0xCE then set_y (xy c (move_unit c t s)) s
        else if code = 0xCF then set_x (xy c (- move_unit c t s)) s
        else if code = 0xD0 then set_x (xy c (move_unit c t s)) s
        else if code = 0xD9 then (let (u, s) = wheel_unit c t s in set_v (s8 u) s)
        else if code = 0xDA then (let (u, s) = wheel_unit c t s in set_v (s8 (- u)) s)
        else if code = 0xDB then (let (u, s) = wheel_unit c t s in set_h (s8 (- u)) s)
        else if code = 0xDC then (let (u, s) = wheel_unit c t s in set_h (s8 u) s)
        else if IS_MOUSEKEY_BUTTON code then
          s\<lparr>report := (report s)\<lparr>buttons := buttons (report s) OR bv (unat (code - 0xD1))\<rparr>\<rparr>
        else if code = 0xDD then s\<lparr>accel := accel s OR bv 0\<rparr>
        else if code = 0xDE then s\<lparr>accel := accel s OR bv 1\<rparr>
        else if code = 0xDF then s\<lparr>accel := accel s OR bv 2\<rparr>
        else s)"

text \<open>A released direction stops the movement unless the other direction of its axis has taken over.\<close>

definition release_report :: "u8 \<Rightarrow> pointer \<Rightarrow> pointer" where
  "release_report code p =
    (if code = 0xCD \<and> py p < 0 \<or> code = 0xCE \<and> py p > 0 then p\<lparr>py := 0\<rparr>
     else if code = 0xCF \<and> px p < 0 \<or> code = 0xD0 \<and> px p > 0 then p\<lparr>px := 0\<rparr>
     else p)"

definition release_wheel_button :: "u8 \<Rightarrow> pointer \<Rightarrow> pointer" where
  "release_wheel_button code p =
    (if code = 0xD9 \<and> pv p > 0 \<or> code = 0xDA \<and> pv p < 0 then p\<lparr>pv := 0\<rparr>
     else if code = 0xDB \<and> ph p < 0 \<or> code = 0xDC \<and> ph p > 0 then p\<lparr>ph := 0\<rparr>
     else if IS_MOUSEKEY_BUTTON code then p\<lparr>buttons := buttons p AND NOT (bv (unat (code - 0xD1)))\<rparr>
     else p)"

definition mousekey_off :: "mk_cfg \<Rightarrow> u8 \<Rightarrow> mk_state \<Rightarrow> mk_state" where
  "mousekey_off c code s =
    (let s = (if mode c \<noteq> Inertia then s\<lparr>report := release_report code (report s)\<rparr>
              else if code = 0xCD \<and> y_dir s < 1 \<or> code = 0xCE \<and> y_dir s > -1 then s\<lparr>y_dir := 0\<rparr>
              else if code = 0xCF \<and> x_dir s < 1 \<or> code = 0xD0 \<and> x_dir s > -1 then s\<lparr>x_dir := 0\<rparr>
              else s);
         s = s\<lparr>report := release_wheel_button code (report s)\<rparr>;
         s = (if code = 0xDD then s\<lparr>accel := accel s AND NOT (bv 0)\<rparr>
              else if code = 0xDE then s\<lparr>accel := accel s AND NOT (bv 1)\<rparr>
              else if code = 0xDF then s\<lparr>accel := accel s AND NOT (bv 2)\<rparr> else s);
         s = (if px (report s) = 0 \<and> py (report s) = 0
              then s\<lparr>rep := 0, mouse_timer := (if mode c = Kinetic then 0 else mouse_timer s)\<rparr> else s)
     in if pv (report s) = 0 \<and> ph (report s) = 0 then s\<lparr>wheel_rep := 0\<rparr> else s)"

text \<open>\<open>old\<close> is the report at the start of the task; the report of the state has no motion then.\<close>

definition cursor_due :: "mk_cfg \<Rightarrow> u16 \<Rightarrow> pointer \<Rightarrow> mk_state \<Rightarrow> bool" where
  "cursor_due c t old s \<longleftrightarrow> (px old \<noteq> 0 \<or> py old \<noteq> 0) \<and>
    unat (t - last_timer_c s) > (if rep s \<noteq> 0 then mk_interval c else mk_delay c * 10)"

definition wheel_due :: "mk_cfg \<Rightarrow> u16 \<Rightarrow> pointer \<Rightarrow> mk_state \<Rightarrow> bool" where
  "wheel_due c t old s \<longleftrightarrow> (pv old \<noteq> 0 \<or> ph old \<noteq> 0) \<and>
    unat (t - last_timer_w s) > (if wheel_rep s \<noteq> 0 then unat (mk_wheel_interval s) else mk_wheel_delay c * 10)"

definition cursor_step :: "mk_cfg \<Rightarrow> u16 \<Rightarrow> pointer \<Rightarrow> mk_state \<Rightarrow> mk_state" where
  "cursor_step c t old s =
    (if cursor_due c t old s then
       (let s = (if rep s \<noteq> 255 then s\<lparr>rep := rep s + 1\<rparr> else s);
            s = (if px old \<noteq> 0 then set_x (xy c (move_unit c t s * (if px old > 0 then 1 else -1))) s else s);
            s = (if py old \<noteq> 0 then set_y (xy c (move_unit c t s * (if py old > 0 then 1 else -1))) s else s)
        in if px (report s) \<noteq> 0 \<and> py (report s) \<noteq> 0
           then s\<lparr>report := (report s)\<lparr>px := diagonal c (px (report s)), py := diagonal c (py (report s))\<rparr>\<rparr> else s)
     else s)"

definition wheel_step :: "mk_cfg \<Rightarrow> u16 \<Rightarrow> pointer \<Rightarrow> mk_state \<Rightarrow> mk_state" where
  "wheel_step c t old s =
    (if wheel_due c t old s then
       (let s = (if wheel_rep s \<noteq> 255 then s\<lparr>wheel_rep := wheel_rep s + 1\<rparr> else s);
            s = (if pv old \<noteq> 0 then (let (u, s) = wheel_unit c t s in set_v (s8 (u * (if pv old > 0 then 1 else -1))) s) else s);
            s = (if ph old \<noteq> 0 then (let (u, s) = wheel_unit c t s in set_h (s8 (u * (if ph old > 0 then 1 else -1))) s) else s)
        in if pv (report s) \<noteq> 0 \<and> ph (report s) \<noteq> 0
           then s\<lparr>report := (report s)\<lparr>pv := diagonal c (pv (report s)), ph := diagonal c (ph (report s))\<rparr>\<rparr> else s)
     else s)"

text \<open>With inertia the report that is restored loses the coordinates of an axis that has come to rest.\<close>

definition inertia_step :: "mk_cfg \<Rightarrow> u16 \<Rightarrow> pointer \<Rightarrow> mk_state \<Rightarrow> pointer \<times> mk_state" where
  "inertia_step c t old s =
    (let (old, s) =
       (if frame s \<noteq> 0 \<and> unat (t - last_timer_c s) > (if frame s > 1 then mk_interval c else mk_delay c * 10) then
          (let s = s\<lparr>x_inertia := calc_inertia c (x_dir s) (x_inertia s), y_inertia := calc_inertia c (y_dir s) (y_inertia s)\<rparr>;
               (u, s) = inertia_unit c False s; s = set_x u s;
               (u, s) = inertia_unit c True s; s = set_y u s;
               old = (if x_dir s = 0 \<and> x_inertia s = 0 then old\<lparr>px := 0\<rparr> else old);
               old = (if y_dir s = 0 \<and> y_inertia s = 0 then old\<lparr>py := 0\<rparr> else old)
           in (old, if frame s < 2 then s\<lparr>frame := frame s + 1\<rparr> else s))
        else (old, s))
     in if x_dir s = 0 \<and> y_dir s = 0 \<and> x_inertia s = 0 \<and> y_inertia s = 0
        then (old\<lparr>px := 0, py := 0\<rparr>, s\<lparr>frame := 0\<rparr>) else (old, s))"

definition mousekey_task :: "mk_cfg \<Rightarrow> u16 \<Rightarrow> mk_state \<Rightarrow> mk_state" where
  "mousekey_task c t s =
    (let old = report s;
         s = s\<lparr>report := old\<lparr>px := 0, py := 0, pv := 0, ph := 0\<rparr>\<rparr>;
         (old, s) = (if mode c = Inertia then inertia_step c t old s else (old, cursor_step c t old s))
     in finish_task c t old (wheel_step c t old s))"

definition mousekey_clear :: "mk_state \<Rightarrow> mk_state" where
  "mousekey_clear s = s\<lparr>report := no_motion, rep := 0, wheel_rep := 0, accel := 0,
     frame := 0, x_inertia := 0, y_inertia := 0, x_dir := 0, y_dir := 0\<rparr>"

section \<open>Three speeds\<close>

text \<open>The speeds are \<^verbatim>\<open>mkspd_unmod\<close>, and \<^verbatim>\<open>mkspd_0\<close> to \<^verbatim>\<open>mkspd_2\<close>, numbered from 0; offsets are below \<^verbatim>\<open>2^16\<close>.\<close>

record mk3_cfg = pointer_cfg +
  MK_MOMENTARY_ACCEL :: bool
  c_offsets :: "nat list"
  c_intervals :: "nat list"
  w_offsets :: "nat list"
  w_intervals :: "nat list"

record mk3_state = pointer_state +
  mk_speed :: nat

definition mk3_init :: "mk3_cfg \<Rightarrow> mk3_state" where
  "mk3_init c = \<lparr>report = no_motion, last_timer_c = 0, last_timer_w = 0, sent = [], mk_speed = (if MK_MOMENTARY_ACCEL c then 0 else 2)\<rparr>"

definition mousekey_task3 :: "mk3_cfg \<Rightarrow> u16 \<Rightarrow> mk3_state \<Rightarrow> mk3_state" where
  "mousekey_task3 c t s =
    (let old = report s;
         s = s\<lparr>report := old\<lparr>px := 0, py := 0, pv := 0, ph := 0\<rparr>\<rparr>;
         s = (if (px old \<noteq> 0 \<or> py old \<noteq> 0) \<and> unat (t - last_timer_c s) > c_intervals c ! mk_speed s
              then s\<lparr>report := (report s)\<lparr>px := px old, py := py old\<rparr>\<rparr> else s);
         s = (if (ph old \<noteq> 0 \<or> pv old \<noteq> 0) \<and> unat (t - last_timer_w s) > w_intervals c ! mk_speed s
              then s\<lparr>report := (report s)\<lparr>pv := pv old, ph := ph old\<rparr>\<rparr> else s)
     in finish_task c t old s)"

definition signed_offset :: "(int \<Rightarrow> int) \<Rightarrow> nat \<Rightarrow> int \<Rightarrow> int" where
  "signed_offset width n v =
    (let v = (if v > 0 then width (int n) else v) in if v < 0 then width (- int n) else v)"

definition adjust_speed :: "mk3_cfg \<Rightarrow> mk3_state \<Rightarrow> mk3_state" where
  "adjust_speed c s =
    (let co = c_offsets c ! mk_speed s; wo = w_offsets c ! mk_speed s; p = report s;
         p = p\<lparr>px := signed_offset (xy c) co (px p), py := signed_offset (xy c) co (py p),
               ph := signed_offset s8 wo (ph p), pv := signed_offset s8 wo (pv p)\<rparr>;
         p = (if px p \<noteq> 0 \<and> py p \<noteq> 0 then p\<lparr>px := diagonal c (px p), py := diagonal c (py p)\<rparr> else p);
         p = (if ph p \<noteq> 0 \<and> pv p \<noteq> 0 then p\<lparr>ph := times_inv_sqrt2 c (ph p), pv := times_inv_sqrt2 c (pv p)\<rparr> else p)
     in s\<lparr>report := p\<rparr>)"

definition mousekey_on3 :: "mk3_cfg \<Rightarrow> u8 \<Rightarrow> mk3_state \<Rightarrow> mk3_state" where
  "mousekey_on3 c code s =
    (let co = int (c_offsets c ! mk_speed s); wo = int (w_offsets c ! mk_speed s); old_speed = mk_speed s;
         s = (if code = 0xCD then set_y (xy c (- co)) s
              else if code = 0xCE then set_y (xy c co) s
              else if code = 0xCF then set_x (xy c (- co)) s
              else if code = 0xD0 then set_x (xy c co) s
              else if code = 0xD9 then set_v (s8 wo) s
              else if code = 0xDA then set_v (s8 (- wo)) s
              else if code = 0xDB then set_h (s8 (- wo)) s
              else if code = 0xDC then set_h (s8 wo) s
              else if IS_MOUSEKEY_BUTTON code then
                s\<lparr>report := (report s)\<lparr>buttons := buttons (report s) OR bv (unat (code - 0xD1))\<rparr>\<rparr>
              else if code = 0xDD then s\<lparr>mk_speed := 1\<rparr>
              else if code = 0xDE then s\<lparr>mk_speed := 2\<rparr>
              else if code = 0xDF then s\<lparr>mk_speed := 3\<rparr>
              else s)
     in if mk_speed s \<noteq> old_speed then adjust_speed c s else s)"

definition mousekey_off3 :: "mk3_cfg \<Rightarrow> u8 \<Rightarrow> mk3_state \<Rightarrow> mk3_state" where
  "mousekey_off3 c code s =
    (let old_speed = mk_speed s;
         s = s\<lparr>report := release_wheel_button code (release_report code (report s))\<rparr>;
         s = (if MK_MOMENTARY_ACCEL c \<and> 0xDD \<le> code \<and> code \<le> 0xDF then s\<lparr>mk_speed := 0\<rparr> else s)
     in if mk_speed s \<noteq> old_speed then adjust_speed c s else s)"

definition mousekey_clear3 :: "mk3_state \<Rightarrow> mk3_state" where
  "mousekey_clear3 s = s\<lparr>report := no_motion\<rparr>"

end
