(* ===== verification/MousekeyProps.thy ===== *)
theory MousekeyProps
  imports Mousekey
begin

text \<open>
  Mouse keys move the pointer only while they are held. The laws of the four builds without inertia are one locale,
  over the directions of the report; with inertia, the pointer comes to rest.
\<close>

unbundle bit_operations_syntax

section \<open>Numbers\<close>

lemma s8_id: "- 128 \<le> v \<Longrightarrow> v \<le> 127 \<Longrightarrow> s8 v = v"
  unfolding s8_def by (rule signed_take_bit_int_eq_self) simp_all

lemma xy_id: "- 128 \<le> v \<Longrightarrow> v \<le> 127 \<Longrightarrow> xy c v = v"
  unfolding xy_def by (auto intro!: signed_take_bit_int_eq_self)

lemma sdiv_negative: "(n :: int) < 0 \<Longrightarrow> n sdiv 256 = - ((- n) div 256)"
  by (simp add: signed_divide_int_def)

lemma times_inv_sqrt2_value:
  assumes "\<bar>x\<bar> \<le> 127"
  shows "times_inv_sqrt2 c x =
    (if x \<ge> 0 then (x * 181 + 128) div 256
     else if int_16_bits c then (x * 181 - 128) div 256 else - ((128 - x * 181) div 256))"
proof -
  have "take_bit 16 (x * 181 - 128) = x * 181 - 128 + 65536" if "x < 0"
  proof -
    have "(x * 181 - 128 + 65536) mod 65536 = (x * 181 - 128) mod 65536" by (rule mod_add_self2)
    then show ?thesis using that assms by (simp add: take_bit_eq_mod)
  qed
  moreover have "s8 (256 + k) = k" if "- 128 \<le> k" "k \<le> 127" for k
  proof -
    have "s8 (256 + k) = s8 k" by (simp add: s8_def signed_take_bit_eq_iff_take_bit_eq take_bit_eq_mod)
    then show ?thesis using s8_id [OF that] by simp
  qed
  moreover have "(x * 181 - 128 + 65536) div 256 = 256 + (x * 181 - 128) div 256" by simp
  moreover have "n sdiv 256 = n div 256" if "0 \<le> n" for n :: int using that by (auto simp: signed_divide_int_def sgn_if)
  ultimately show ?thesis
    using assms by (auto simp: times_inv_sqrt2_def s8_id sdiv_negative Let_def)
qed

lemma times_inv_sqrt2_sgn:
  assumes "\<bar>x\<bar> \<le> 127"
  shows "sgn (times_inv_sqrt2 c x) = sgn x" "\<bar>times_inv_sqrt2 c x\<bar> \<le> 127"
    "\<not> int_16_bits c \<Longrightarrow> \<bar>times_inv_sqrt2 c x\<bar> \<le> \<bar>x\<bar>"
  using assms unfolding times_inv_sqrt2_value [OF assms] by (auto simp: sgn_if)

lemma diagonal_sgn:
  assumes "\<bar>x\<bar> \<le> 127" "x \<noteq> 0"
  shows "sgn (diagonal c x) = sgn x" "\<bar>diagonal c x\<bar> \<le> 127"
  using times_inv_sqrt2_sgn [OF assms(1), of c] assms(2) by (auto simp: diagonal_def Let_def sgn_if split: if_splits)

text \<open>Where \<^verbatim>\<open>int\<close> has 16 bits, a step of one to the left or up becomes two on a diagonal.\<close>

lemma diagonal_grows_16_bits:
  "times_inv_sqrt2 \<lparr>MOUSE_EXTENDED_REPORT = False, int_16_bits = True\<rparr> (-1) = -2"
  "times_inv_sqrt2 \<lparr>MOUSE_EXTENDED_REPORT = False, int_16_bits = True\<rparr> 1 = 1"
  by (simp_all add: times_inv_sqrt2_value)

section \<open>Units\<close>

definition units_ok :: "mk_cfg \<Rightarrow> bool" where
  "units_ok c \<longleftrightarrow> mode c \<noteq> Inertia \<and> 1 \<le> MOUSEKEY_MOVE_MAX c \<and> MOUSEKEY_MOVE_MAX c \<le> 127 \<and>
    1 \<le> MOUSEKEY_WHEEL_MAX c \<and> MOUSEKEY_WHEEL_MAX c \<le> 127"

lemma clamp_unit_range: "1 \<le> limit \<Longrightarrow> 1 \<le> clamp_unit limit u \<and> clamp_unit limit u \<le> limit"
proof -
  have "take_bit 16 u = 0 \<or> 1 \<le> take_bit 16 u" using take_bit_nonnegative [of 16 u] by linarith
  then show "1 \<le> limit \<Longrightarrow> ?thesis" by (auto simp: clamp_unit_def Let_def)
qed

lemma move_unit_range:
  assumes "units_ok c"
  shows "1 \<le> move_unit c t s" "move_unit c t s \<le> 127"
proof -
  have k: "1 \<le> kinetic_unit c t s \<and> kinetic_unit c t s \<le> 127" using assms by (auto simp: kinetic_unit_def units_ok_def Let_def)
  have u: "1 \<le> clamp_unit (MOUSEKEY_MOVE_MAX c) v \<and> clamp_unit (MOUSEKEY_MOVE_MAX c) v \<le> 127" for v
    using clamp_unit_range [of "MOUSEKEY_MOVE_MAX c" v] assms by (auto simp: units_ok_def)
  show "1 \<le> move_unit c t s" "move_unit c t s \<le> 127"
    using k u by (auto simp: move_unit_def combined_unit_def accelerated_unit_def)
qed

lemma wheel_unit_range:
  assumes "units_ok c" "wheel_unit c t s = (u, s')"
  shows "1 \<le> u \<and> u \<le> 127" "report s' = report s" "sent s' = sent s" "last_timer_c s' = last_timer_c s"
    "last_timer_w s' = last_timer_w s" "rep s' = rep s" "wheel_rep s' = wheel_rep s"
proof -
  have r: "1 \<le> clamp_unit (MOUSEKEY_WHEEL_MAX c) v \<and> clamp_unit (MOUSEKEY_WHEEL_MAX c) v \<le> 127" for v
    using clamp_unit_range [of "MOUSEKEY_WHEEL_MAX c" v] assms by (auto simp: units_ok_def)
  show "1 \<le> u \<and> u \<le> 127" "report s' = report s" "sent s' = sent s" "last_timer_c s' = last_timer_c s"
    "last_timer_w s' = last_timer_w s" "rep s' = rep s" "wheel_rep s' = wheel_rep s"
    using assms(2) r by (auto simp: wheel_unit_def combined_unit_def accelerated_unit_def split: if_splits)
qed

section \<open>Directions of a report\<close>

text \<open>\<open>shape\<close> is what the report says but for the size of its steps.\<close>

type_synonym shape = "int \<times> int \<times> int \<times> int \<times> u8"

definition shape :: "pointer \<Rightarrow> shape" where
  "shape p = (sgn (px p), sgn (py p), sgn (pv p), sgn (ph p), buttons p)"

definition small :: "pointer \<Rightarrow> bool" where
  "small p \<longleftrightarrow> \<bar>px p\<bar> \<le> 127 \<and> \<bar>py p\<bar> \<le> 127 \<and> \<bar>pv p\<bar> \<le> 127 \<and> \<bar>ph p\<bar> \<le> 127"

definition press :: "u8 \<Rightarrow> shape \<Rightarrow> shape" where
  "press code = (\<lambda>(x, y, v, h, b).
    if code = 0xCD then (x, -1, v, h, b) else if code = 0xCE then (x, 1, v, h, b)
    else if code = 0xCF then (-1, y, v, h, b) else if code = 0xD0 then (1, y, v, h, b)
    else if code = 0xD9 then (x, y, 1, h, b) else if code = 0xDA then (x, y, -1, h, b)
    else if code = 0xDB then (x, y, v, -1, b) else if code = 0xDC then (x, y, v, 1, b)
    else if IS_MOUSEKEY_BUTTON code then (x, y, v, h, b OR bv (unat (code - 0xD1)))
    else (x, y, v, h, b))"

definition release :: "u8 \<Rightarrow> shape \<Rightarrow> shape" where
  "release code = (\<lambda>(x, y, v, h, b).
    if code = 0xCD then (x, max y 0, v, h, b) else if code = 0xCE then (x, min y 0, v, h, b)
    else if code = 0xCF then (max x 0, y, v, h, b) else if code = 0xD0 then (min x 0, y, v, h, b)
    else if code = 0xD9 then (x, y, min v 0, h, b) else if code = 0xDA then (x, y, max v 0, h, b)
    else if code = 0xDB then (x, y, v, max h 0, b) else if code = 0xDC then (x, y, v, min h 0, b)
    else if IS_MOUSEKEY_BUTTON code then (x, y, v, h, b AND NOT (bv (unat (code - 0xD1))))
    else (x, y, v, h, b))"

text \<open>A report moves in the directions of a shape, or not.\<close>

definition within :: "shape \<Rightarrow> pointer \<Rightarrow> bool" where
  "within d p = (case d of (x, y, v, h, b) \<Rightarrow>
    sgn (px p) \<in> {0, x} \<and> sgn (py p) \<in> {0, y} \<and> sgn (pv p) \<in> {0, v} \<and> sgn (ph p) \<in> {0, h} \<and> buttons p = b)"

section \<open>Laws of the keys\<close>

locale pointer_keys =
  fixes on :: "u16 \<Rightarrow> u8 \<Rightarrow> 's \<Rightarrow> 's" and off :: "u8 \<Rightarrow> 's \<Rightarrow> 's"
    and task :: "u16 \<Rightarrow> 's \<Rightarrow> 's" and send :: "u16 \<Rightarrow> 's \<Rightarrow> 's" and clear :: "'s \<Rightarrow> 's"
    and rep_of :: "'s \<Rightarrow> pointer" and sent_of :: "'s \<Rightarrow> pointer list" and ok :: "'s \<Rightarrow> bool"
  assumes on: "ok s \<Longrightarrow> ok (on t code s) \<and> shape (rep_of (on t code s)) = press code (shape (rep_of s)) \<and> sent_of (on t code s) = sent_of s"
    and off: "ok s \<Longrightarrow> ok (off code s) \<and> shape (rep_of (off code s)) = release code (shape (rep_of s)) \<and> sent_of (off code s) = sent_of s"
    and task: "ok s \<Longrightarrow> ok (task t s) \<and> shape (rep_of (task t s)) = shape (rep_of s) \<and>
      (\<exists>ps. sent_of (task t s) = sent_of s @ ps \<and> (\<forall>p \<in> set ps. within (shape (rep_of s)) p))"
    and send: "ok s \<Longrightarrow> ok (send t s) \<and> shape (rep_of (send t s)) = shape (rep_of s) \<and>
      (\<exists>ps. sent_of (send t s) = sent_of s @ ps \<and> (\<forall>p \<in> set ps. within (shape (rep_of s)) p))"
    and clear: "ok s \<Longrightarrow> ok (clear s) \<and> shape (rep_of (clear s)) = (0, 0, 0, 0, 0) \<and> sent_of (clear s) = sent_of s"

datatype mk_op = On u16 u8 | Off u8 | Task u16 | Send u16 | Clear

fun run_op :: "(u16 \<Rightarrow> u8 \<Rightarrow> 's \<Rightarrow> 's) \<Rightarrow> (u8 \<Rightarrow> 's \<Rightarrow> 's) \<Rightarrow> (u16 \<Rightarrow> 's \<Rightarrow> 's) \<Rightarrow> (u16 \<Rightarrow> 's \<Rightarrow> 's) \<Rightarrow> ('s \<Rightarrow> 's) \<Rightarrow> mk_op \<Rightarrow> 's \<Rightarrow> 's" where
  "run_op on off task send clear (On t code) = on t code"
| "run_op on off task send clear (Off code) = off code"
| "run_op on off task send clear (Task t) = task t"
| "run_op on off task send clear (Send t) = send t"
| "run_op on off task send clear Clear = clear"

text \<open>The keys that are down after some operations.\<close>

fun hold :: "mk_op \<Rightarrow> (u8 \<Rightarrow> bool) \<Rightarrow> u8 \<Rightarrow> bool" where
  "hold (On t code) h = h(code := True)"
| "hold (Off code) h = h(code := False)"
| "hold (Task t) h = h"
| "hold (Send t) h = h"
| "hold Clear h = (\<lambda>_. False)"

text \<open>Each direction and each button has its key down; a button whose key is down is pressed.\<close>

definition held_dir :: "bool \<Rightarrow> bool \<Rightarrow> int \<Rightarrow> bool" where
  "held_dir neg pos v \<longleftrightarrow> v \<in> {-1, 0, 1} \<and> (v = -1 \<longrightarrow> neg) \<and> (v = 1 \<longrightarrow> pos)"

definition explained :: "(u8 \<Rightarrow> bool) \<Rightarrow> shape \<Rightarrow> bool" where
  "explained h d = (case d of (x, y, v, w, b) \<Rightarrow>
    held_dir (h 0xCF) (h 0xD0) x \<and> held_dir (h 0xCD) (h 0xCE) y \<and> held_dir (h 0xDA) (h 0xD9) v \<and> held_dir (h 0xDB) (h 0xDC) w \<and>
    (\<forall>k. IS_MOUSEKEY_BUTTON k \<longrightarrow> bit b (unat (k - 0xD1)) = h k))"

lemma held_dir_steps [simp]:
  "held_dir True pos (-1)" "held_dir neg True 1" "held_dir neg pos 0"
  by (simp_all add: held_dir_def)

lemma held_dir_release:
  assumes "held_dir neg pos v"
  shows "held_dir neg' pos (max v 0)" "held_dir neg pos' (min v 0)"
  using assms by (auto simp: held_dir_def)

lemma held_dir_within: "held_dir neg pos v \<Longrightarrow> u = 0 \<or> u = v \<Longrightarrow> held_dir neg pos u"
  by (auto simp: held_dir_def)

lemma button_range: "IS_MOUSEKEY_BUTTON k \<longleftrightarrow> 0xD1 \<le> unat k \<and> unat k \<le> 0xD8"
  by (simp add: IS_MOUSEKEY_BUTTON_def word_le_nat_alt)

lemma button_index:
  assumes "IS_MOUSEKEY_BUTTON k"
  shows "unat (k - 0xD1) < 8" "IS_MOUSEKEY_BUTTON j \<Longrightarrow> unat (j - 0xD1) = unat (k - 0xD1) \<longleftrightarrow> j = k"
  using assms by (auto simp: button_range unat_sub word_le_nat_alt word_unat_eq_iff)

lemma button_not_motion: "IS_MOUSEKEY_BUTTON k \<Longrightarrow> k \<notin> {0xCD, 0xCE, 0xCF, 0xD0, 0xD9, 0xDA, 0xDB, 0xDC}"
  by (auto simp: button_range)

lemma press_explained:
  assumes "explained h d"
  shows "explained (h(k := True)) (press k d)"
proof (cases "IS_MOUSEKEY_BUTTON k")
  case True
  obtain x y v w b where d: "d = (x, y, v, w, b)" by (metis prod_cases5)
  have "bit (b OR bv (unat (k - 0xD1))) (unat (j - 0xD1)) = (h(k := True)) j" if "IS_MOUSEKEY_BUTTON j" for j
    using button_index [OF True] that assms by (auto simp: bit_or_iff explained_def d)
  then show ?thesis using assms True button_not_motion [OF True] by (simp add: press_def explained_def d)
next
  case False
  obtain x y v w b where d: "d = (x, y, v, w, b)" by (metis prod_cases5)
  have other: "IS_MOUSEKEY_BUTTON j \<Longrightarrow> (h(k := True)) j = h j" for j using False by auto
  have "k = 0xCD \<or> k = 0xCE \<or> k = 0xCF \<or> k = 0xD0 \<or> k = 0xD9 \<or> k = 0xDA \<or> k = 0xDB \<or> k = 0xDC \<or>
    k \<notin> {0xCD, 0xCE, 0xCF, 0xD0, 0xD9, 0xDA, 0xDB, 0xDC}" by blast
  then show ?thesis using assms False other
    by (elim disjE) (simp_all add: press_def explained_def d)
qed

lemma release_explained:
  assumes "explained h d"
  shows "explained (h(k := False)) (release k d)"
proof (cases "IS_MOUSEKEY_BUTTON k")
  case True
  obtain x y v w b where d: "d = (x, y, v, w, b)" by (metis prod_cases5)
  have "bit (b AND NOT (bv (unat (k - 0xD1)))) (unat (j - 0xD1)) = (h(k := False)) j" if "IS_MOUSEKEY_BUTTON j" for j
    using button_index [OF True] button_index [OF that] that assms by (auto simp: bit_and_iff bit_not_iff explained_def d)
  then show ?thesis using assms True button_not_motion [OF True] by (simp add: release_def explained_def d)
next
  case False
  obtain x y v w b where d: "d = (x, y, v, w, b)" by (metis prod_cases5)
  have other: "IS_MOUSEKEY_BUTTON j \<Longrightarrow> (h(k := False)) j = h j" for j using False by auto
  have "k = 0xCD \<or> k = 0xCE \<or> k = 0xCF \<or> k = 0xD0 \<or> k = 0xD9 \<or> k = 0xDA \<or> k = 0xDB \<or> k = 0xDC \<or>
    k \<notin> {0xCD, 0xCE, 0xCF, 0xD0, 0xD9, 0xDA, 0xDB, 0xDC}" by blast
  then show ?thesis using assms False other
    by (elim disjE) (auto simp: release_def explained_def d intro: held_dir_release)
qed

lemma within_explained:
  assumes "explained h d" "within d p"
  shows "explained h (shape p)"
proof -
  obtain x y v w b where d: "d = (x, y, v, w, b)" by (metis prod_cases5)
  show ?thesis
    using assms unfolding within_def explained_def shape_def d prod.case insert_iff empty_iff simp_thms
    by (elim conjE, intro conjI) (erule (1) held_dir_within | simp)+
qed

lemma still_explained: "explained (\<lambda>_. False) (0, 0, 0, 0, 0)"
  by (simp add: explained_def)

context pointer_keys
begin

abbreviation op_step :: "mk_op \<Rightarrow> 's \<Rightarrow> 's" where
  "op_step \<equiv> run_op on off task send clear"

lemma step_explained:
  assumes "ok s" "explained h (shape (rep_of s))"
  shows "ok (op_step x s) \<and> explained (hold x h) (shape (rep_of (op_step x s))) \<and>
    (\<exists>ps. sent_of (op_step x s) = sent_of s @ ps \<and> (\<forall>p \<in> set ps. explained h (shape p)))"
proof (cases x)
  case (On t k)
  then show ?thesis using on [OF assms(1)] press_explained [OF assms(2)] by simp
next
  case (Off k)
  then show ?thesis using off [OF assms(1)] release_explained [OF assms(2)] by simp
next
  case (Task t)
  then show ?thesis using task [OF assms(1)] assms(2) within_explained [OF assms(2)] by force
next
  case (Send t)
  then show ?thesis using send [OF assms(1)] assms(2) within_explained [OF assms(2)] by force
next
  case Clear
  then show ?thesis using clear [OF assms(1)] still_explained by simp
qed

lemma run_explained:
  assumes "ok s" "shape (rep_of s) = (0, 0, 0, 0, 0)"
  shows "ok (fold op_step ops s) \<and> explained (fold hold ops (\<lambda>_. False)) (shape (rep_of (fold op_step ops s)))"
  by (induction ops rule: rev_induct) (use assms still_explained step_explained in auto)

lemma moves_only_while_held:
  assumes "ok s" "shape (rep_of s) = (0, 0, 0, 0, 0)"
  shows "\<exists>ps. sent_of (op_step x (fold op_step ops s)) = sent_of (fold op_step ops s) @ ps \<and>
    (\<forall>p \<in> set ps. explained (fold hold ops (\<lambda>_. False)) (shape p))"
  using step_explained run_explained [OF assms] by blast

end

section \<open>The builds without inertia\<close>

lemma send_report:
  "report (mousekey_send c t s) = (report s)\<lparr>boot_x := boot_x (report (mousekey_send c t s)), boot_y := boot_y (report (mousekey_send c t s))\<rparr>"
  "sent (mousekey_send c t s) = sent s @ [report (mousekey_send c t s)]"
  by (simp_all add: mousekey_send_def host_mouse_send_def Let_def)

lemma send_frame:
  "shape (report (mousekey_send c t s)) = shape (report s)" "small (report (mousekey_send c t s)) = small (report s)"
  by (subst send_report(1), simp add: shape_def small_def)+

lemma report_not_changed:
  assumes "buttons p = buttons q" "boot_x p = boot_x q" "boot_y p = boot_y q" "\<not> moving p"
  shows "\<not> has_mouse_report_changed e (as_report p) (as_report q)"
  using assms by (simp add: has_mouse_report_changed_def as_report_def moving_def)

lemma finish_task_sends:
  assumes "buttons (report s) = buttons old" "boot_x (report s) = boot_x old" "boot_y (report s) = boot_y old"
  shows "finish_task c t old s = (if moving (report s) then (mousekey_send c t s)\<lparr>report := old\<rparr> else s\<lparr>report := old\<rparr>)"
  using report_not_changed [of "report s" old] assms by (auto simp: finish_task_def Let_def)

text \<open>A step of the cursor, from a report without motion: in the directions of the old report when it is due.\<close>

definition step_of :: "bool \<Rightarrow> int \<Rightarrow> int \<Rightarrow> bool" where
  "step_of due old v \<longleftrightarrow> sgn v = (if due then sgn old else 0) \<and> \<bar>v\<bar> \<le> 127"

lemma step_of_diagonal:
  assumes "step_of True ox x" "step_of True oy y"
  shows "step_of True ox (if x \<noteq> 0 \<and> y \<noteq> 0 then diagonal c x else x)" "step_of True oy (if x \<noteq> 0 \<and> y \<noteq> 0 then diagonal c y else y)"
  using assms diagonal_sgn [of x c] diagonal_sgn [of y c] by (auto simp: step_of_def)

lemma unit_step:
  assumes "1 \<le> u" "u \<le> 127"
  shows "step_of True v (if v \<noteq> 0 then u * (if v > 0 then 1 else -1) else 0)"
    "xy c (u * (if v > 0 then 1 else -1)) = u * (if v > 0 then 1 else -1)"
    "s8 (u * (if v > 0 then 1 else -1)) = u * (if v > 0 then 1 else -1)"
  using assms by (auto simp: step_of_def xy_id s8_id sgn_if)

lemma cursor_step_report:
  assumes "units_ok c" "px (report s) = 0" "py (report s) = 0"
  shows "\<exists>x y. report (cursor_step c t old s) = (report s)\<lparr>px := x, py := y\<rparr> \<and>
      step_of (cursor_due c t old s) (px old) x \<and> step_of (cursor_due c t old s) (py old) y"
proof (cases "cursor_due c t old s")
  case True
  define u where "u = move_unit c t (if rep s \<noteq> 255 then s\<lparr>rep := rep s + 1\<rparr> else s)"
  define x where "x = (if px old \<noteq> 0 then u * (if px old > 0 then 1 else -1) else 0)"
  define y where "y = (if py old \<noteq> 0 then u * (if py old > 0 then 1 else -1) else 0)"
  have r: "1 \<le> u" "u \<le> 127" unfolding u_def by (rule move_unit_range [OF assms(1)])+
  have frame: "rep p = rep q \<Longrightarrow> accel p = accel q \<Longrightarrow> mouse_timer p = mouse_timer q \<Longrightarrow> move_unit c t p = move_unit c t q" for p q
    by (simp add: move_unit_def kinetic_unit_def kinetic_speed_def elapsed_50_def)
  note st = unit_step(1) [OF r, of "px old", folded x_def] unit_step(1) [OF r, of "py old", folded y_def]
  define s1 where "s1 = (if rep s \<noteq> 255 then s\<lparr>rep := rep s + 1\<rparr> else s)"
  define s2 where "s2 = (if px old \<noteq> 0 then set_x (xy c (u * (if px old > 0 then 1 else -1))) s1 else s1)"
  define s3 where "s3 = (if py old \<noteq> 0 then set_y (xy c (u * (if py old > 0 then 1 else -1))) s2 else s2)"
  have "rep s2 = rep s1" "accel s2 = accel s1" "mouse_timer s2 = mouse_timer s1" by (simp_all add: s2_def)
  then have m: "move_unit c t s1 = u" "move_unit c t s2 = u" using frame [of s2 s1] by (simp_all add: u_def s1_def)
  have xu: "xy c u = u" "xy c (- u) = - u" using r by (simp_all add: xy_id)
  have "report s1 = report s" by (simp add: s1_def)
  then have "report s2 = (report s)\<lparr>px := x\<rparr>" using assms(2) xu by (simp add: s2_def x_def)
  then have s3: "report s3 = (report s)\<lparr>px := x, py := y\<rparr>" using assms(3) xu by (simp add: s3_def y_def)
  have "cursor_step c t old s = (if px (report s3) \<noteq> 0 \<and> py (report s3) \<noteq> 0
      then s3\<lparr>report := (report s3)\<lparr>px := diagonal c (px (report s3)), py := diagonal c (py (report s3))\<rparr>\<rparr> else s3)"
    using True m unfolding cursor_step_def s1_def [symmetric] by (simp only: if_True Let_def s2_def [symmetric] s3_def [symmetric])
  then have "report (cursor_step c t old s) = (report s)\<lparr>px := if x \<noteq> 0 \<and> y \<noteq> 0 then diagonal c x else x,
      py := if x \<noteq> 0 \<and> y \<noteq> 0 then diagonal c y else y\<rparr>"
    by (simp add: s3)
  then show ?thesis using True step_of_diagonal [OF st, of c] by (intro exI conjI) simp_all
next
  case False
  then show ?thesis using assms(2,3) by (intro exI [of _ 0]) (simp add: cursor_step_def step_of_def)
qed

lemma cursor_step_frame:
  "sent (cursor_step c t old s) = sent s" "last_timer_w (cursor_step c t old s) = last_timer_w s"
  "wheel_rep (cursor_step c t old s) = wheel_rep s" "mk_wheel_interval (cursor_step c t old s) = mk_wheel_interval s"
  by (simp_all add: cursor_step_def Let_def)

lemma wheel_step_report:
  assumes "units_ok c" "pv (report s) = 0" "ph (report s) = 0"
  shows "\<exists>v h. report (wheel_step c t old s) = (report s)\<lparr>pv := v, ph := h\<rparr> \<and>
      step_of (wheel_due c t old s) (pv old) v \<and> step_of (wheel_due c t old s) (ph old) h" (is "?report")
    and "sent (wheel_step c t old s) = sent s" (is "?sent")
proof -
  have "?report \<and> ?sent"
  proof (cases "wheel_due c t old s")
    case True
    define s1 where "s1 = (if wheel_rep s \<noteq> 255 then s\<lparr>wheel_rep := wheel_rep s + 1\<rparr> else s)"
    obtain u s2 where w: "wheel_unit c t s1 = (u, s2)" by force
    define s3 where "s3 = (if pv old \<noteq> 0 then set_v (s8 (u * (if pv old > 0 then 1 else -1))) s2 else s1)"
    obtain u' s4 where w': "wheel_unit c t s3 = (u', s4)" by force
    define v where "v = (if pv old \<noteq> 0 then u * (if pv old > 0 then 1 else -1) else 0)"
    define h where "h = (if ph old \<noteq> 0 then u' * (if ph old > 0 then 1 else -1) else 0)"
    note r = wheel_unit_range [OF assms(1) w]
    note r' = wheel_unit_range [OF assms(1) w']
    have u: "1 \<le> u" "u \<le> 127" "1 \<le> u'" "u' \<le> 127" using r(1) r'(1) by auto
    note st = unit_step(1) [OF u(1,2), of "pv old", folded v_def] unit_step(1) [OF u(3,4), of "ph old", folded h_def]
    have "report s1 = report s" "sent s1 = sent s" by (simp_all add: s1_def)
    then have s3: "report s3 = (report s)\<lparr>pv := v\<rparr>" "sent s3 = sent s"
      using r(2,3) assms(2) unit_step(3) [OF u(1,2)] by (auto simp: s3_def v_def)
    define s5 where "s5 = (if ph old \<noteq> 0 then set_h (s8 (u' * (if ph old > 0 then 1 else -1))) s4 else s3)"
    have s5: "report s5 = (report s)\<lparr>pv := v, ph := h\<rparr>" "sent s5 = sent s"
      using s3 r'(2,3) assms(3) unit_step(3) [OF u(3,4)] by (simp_all add: s5_def h_def)
    have step: "wheel_step c t old s = (if pv (report s5) \<noteq> 0 \<and> ph (report s5) \<noteq> 0
        then s5\<lparr>report := (report s5)\<lparr>pv := diagonal c (pv (report s5)), ph := diagonal c (ph (report s5))\<rparr>\<rparr> else s5)"
    proof -
      have "(if pv old \<noteq> 0 then (let (u, s) = wheel_unit c t s1 in set_v (s8 (u * (if pv old > 0 then 1 else -1))) s) else s1) = s3"
        by (simp add: w s3_def)
      moreover have "(if ph old \<noteq> 0 then (let (u, s) = wheel_unit c t s3 in set_h (s8 (u * (if ph old > 0 then 1 else -1))) s) else s3) = s5"
        by (simp add: w' s5_def)
      ultimately show ?thesis using True unfolding wheel_step_def s1_def [symmetric] by (simp only: if_True Let_def)
    qed
    have "report (wheel_step c t old s) = (report s)\<lparr>pv := if v \<noteq> 0 \<and> h \<noteq> 0 then diagonal c v else v,
        ph := if v \<noteq> 0 \<and> h \<noteq> 0 then diagonal c h else h\<rparr>" "sent (wheel_step c t old s) = sent s"
      unfolding step by (simp_all add: s5)
    then show ?thesis using True step_of_diagonal [OF st, of c] by (intro conjI exI) simp_all
  next
    case False
    then show ?thesis using assms(2,3) by (intro conjI exI [of _ 0]) (simp_all add: wheel_step_def step_of_def)
  qed
  then show ?report ?sent by auto
qed

lemma finish_task_effect:
  assumes "report s = old\<lparr>px := x, py := y, pv := v, ph := h\<rparr>"
  shows "\<exists>bx by'. finish_task c t old s = (if x = 0 \<and> y = 0 \<and> v = 0 \<and> h = 0 then s\<lparr>report := old\<rparr>
      else (mousekey_send c t s)\<lparr>report := old\<rparr>) \<and>
    sent (finish_task c t old s) = sent s @ (if x = 0 \<and> y = 0 \<and> v = 0 \<and> h = 0 then []
      else [old\<lparr>px := x, py := y, pv := v, ph := h, boot_x := bx, boot_y := by'\<rparr>])"
proof -
  have m: "moving (report s) \<longleftrightarrow> \<not> (x = 0 \<and> y = 0 \<and> v = 0 \<and> h = 0)" by (simp add: assms moving_def)
  have f: "finish_task c t old s = (if x = 0 \<and> y = 0 \<and> v = 0 \<and> h = 0 then s\<lparr>report := old\<rparr> else (mousekey_send c t s)\<lparr>report := old\<rparr>)"
    using finish_task_sends [of s old c t] assms m by (simp split: if_splits)
  have "sent (mousekey_send c t s) = sent s @ [old\<lparr>px := x, py := y, pv := v, ph := h,
      boot_x := boot_x (report (mousekey_send c t s)), boot_y := boot_y (report (mousekey_send c t s))\<rparr>]"
    using send_report(2) [of c t s] send_report(1) [of c t s] assms by simp
  then show ?thesis unfolding f
    by (intro exI [of _ "boot_x (report (mousekey_send c t s))"] exI [of _ "boot_y (report (mousekey_send c t s))"]) simp
qed

lemma task_sends:
  assumes "units_ok c"
  shows "report (mousekey_task c t s) = report s"
    and "\<exists>x y v h bx by'. step_of (cursor_due c t (report s) s) (px (report s)) x \<and> step_of (cursor_due c t (report s) s) (py (report s)) y \<and>
      step_of (wheel_due c t (report s) s) (pv (report s)) v \<and> step_of (wheel_due c t (report s) s) (ph (report s)) h \<and>
      sent (mousekey_task c t s) = sent s @ (if x = 0 \<and> y = 0 \<and> v = 0 \<and> h = 0 then []
        else [(report s)\<lparr>px := x, py := y, pv := v, ph := h, boot_x := bx, boot_y := by'\<rparr>])"
proof -
  let ?old = "report s"
  define s0 where "s0 = s\<lparr>report := ?old\<lparr>px := 0, py := 0, pv := 0, ph := 0\<rparr>\<rparr>"
  define s1 where "s1 = cursor_step c t ?old s0"
  define s2 where "s2 = wheel_step c t ?old s1"
  have z: "px (report s0) = 0" "py (report s0) = 0" by (simp_all add: s0_def)
  obtain x y where s1: "report s1 = (report s0)\<lparr>px := x, py := y\<rparr>"
    "step_of (cursor_due c t ?old s0) (px ?old) x" "step_of (cursor_due c t ?old s0) (py ?old) y"
    using cursor_step_report [OF assms z, where t = t and old = ?old] unfolding s1_def by blast
  have z1: "pv (report s1) = 0" "ph (report s1) = 0" by (simp_all add: s1 s0_def)
  obtain v h where s2: "report s2 = (report s1)\<lparr>pv := v, ph := h\<rparr>"
    "step_of (wheel_due c t ?old s1) (pv ?old) v" "step_of (wheel_due c t ?old s1) (ph ?old) h"
    using wheel_step_report(1) [OF assms z1, where t = t and old = ?old] unfolding s2_def by blast
  have due: "cursor_due c t ?old s0 = cursor_due c t ?old s" "wheel_due c t ?old s1 = wheel_due c t ?old s"
    by (simp_all add: cursor_due_def wheel_due_def s1_def cursor_step_frame) (simp_all add: s0_def)
  have task: "mousekey_task c t s = finish_task c t ?old s2"
    using assms by (simp add: mousekey_task_def units_ok_def s0_def s1_def s2_def Let_def)
  have snt: "sent s2 = sent s" using wheel_step_report(2) [OF assms z1] by (simp add: s2_def s1_def cursor_step_frame s0_def)
  have r: "report s2 = ?old\<lparr>px := x, py := y, pv := v, ph := h\<rparr>" using s1(1) s2(1) by (simp add: s0_def)
  obtain bx by' where f: "finish_task c t ?old s2 = (if x = 0 \<and> y = 0 \<and> v = 0 \<and> h = 0 then s2\<lparr>report := ?old\<rparr>
      else (mousekey_send c t s2)\<lparr>report := ?old\<rparr>)"
    "sent (finish_task c t ?old s2) = sent s2 @ (if x = 0 \<and> y = 0 \<and> v = 0 \<and> h = 0 then []
      else [?old\<lparr>px := x, py := y, pv := v, ph := h, boot_x := bx, boot_y := by'\<rparr>])"
    using finish_task_effect [OF r, of c t] by blast
  show "report (mousekey_task c t s) = report s" unfolding task f(1) by simp
  show "\<exists>x y v h bx by'. step_of (cursor_due c t ?old s) (px ?old) x \<and> step_of (cursor_due c t ?old s) (py ?old) y \<and>
      step_of (wheel_due c t ?old s) (pv ?old) v \<and> step_of (wheel_due c t ?old s) (ph ?old) h \<and>
      sent (mousekey_task c t s) = sent s @ (if x = 0 \<and> y = 0 \<and> v = 0 \<and> h = 0 then []
        else [?old\<lparr>px := x, py := y, pv := v, ph := h, boot_x := bx, boot_y := by'\<rparr>])"
    unfolding task f(2) snt using s1(2,3) s2(2,3) unfolding due by blast
qed

lemma step_of_within: "step_of d old v \<Longrightarrow> sgn v = 0 \<or> sgn v = sgn old"
  by (simp add: step_of_def split: if_splits)

lemma task_within:
  assumes "units_ok c"
  shows "\<exists>ps. sent (mousekey_task c t s) = sent s @ ps \<and> (\<forall>p \<in> set ps. within (shape (report s)) p)"
proof -
  obtain x y v h bx by' where st: "step_of (cursor_due c t (report s) s) (px (report s)) x" "step_of (cursor_due c t (report s) s) (py (report s)) y"
    "step_of (wheel_due c t (report s) s) (pv (report s)) v" "step_of (wheel_due c t (report s) s) (ph (report s)) h"
    and snt: "sent (mousekey_task c t s) = sent s @ (if x = 0 \<and> y = 0 \<and> v = 0 \<and> h = 0 then []
        else [(report s)\<lparr>px := x, py := y, pv := v, ph := h, boot_x := bx, boot_y := by'\<rparr>])"
    using task_sends(2) [OF assms] by blast
  have "within (shape (report s)) ((report s)\<lparr>px := x, py := y, pv := v, ph := h, boot_x := bx, boot_y := by'\<rparr>)"
    using st [THEN step_of_within] by (simp add: within_def shape_def)
  then show ?thesis unfolding snt by (cases "x = 0 \<and> y = 0 \<and> v = 0 \<and> h = 0") simp_all
qed

lemma send_within:
  "sent (mousekey_send c t s) = sent s @ [report (mousekey_send c t s)] \<and> within (shape (report s)) (report (mousekey_send c t s))"
  using send_report(2) send_frame(1) [of c t s] by (simp add: within_def shape_def)

lemma shape_small [simp]:
  "shape (p\<lparr>px := v\<rparr>) = (sgn v, sgn (py p), sgn (pv p), sgn (ph p), buttons p)"
  "shape (p\<lparr>py := v\<rparr>) = (sgn (px p), sgn v, sgn (pv p), sgn (ph p), buttons p)"
  "shape (p\<lparr>pv := v\<rparr>) = (sgn (px p), sgn (py p), sgn v, sgn (ph p), buttons p)"
  "shape (p\<lparr>ph := v\<rparr>) = (sgn (px p), sgn (py p), sgn (pv p), sgn v, buttons p)"
  "shape (p\<lparr>buttons := b\<rparr>) = (sgn (px p), sgn (py p), sgn (pv p), sgn (ph p), b)"
  "\<bar>v\<bar> \<le> 127 \<Longrightarrow> small p \<Longrightarrow> small (p\<lparr>px := v\<rparr>)" "\<bar>v\<bar> \<le> 127 \<Longrightarrow> small p \<Longrightarrow> small (p\<lparr>py := v\<rparr>)"
  "\<bar>v\<bar> \<le> 127 \<Longrightarrow> small p \<Longrightarrow> small (p\<lparr>pv := v\<rparr>)" "\<bar>v\<bar> \<le> 127 \<Longrightarrow> small p \<Longrightarrow> small (p\<lparr>ph := v\<rparr>)"
  "small (p\<lparr>buttons := b\<rparr>) = small p"
  by (simp_all add: shape_def small_def)

lemma release_law:
  assumes "small p"
  shows "small (release_wheel_button k (release_report k p)) \<and> shape (release_wheel_button k (release_report k p)) = release k (shape p)"
proof -
  have "k = 0xCD \<or> k = 0xCE \<or> k = 0xCF \<or> k = 0xD0 \<or> k = 0xD9 \<or> k = 0xDA \<or> k = 0xDB \<or> k = 0xDC \<or>
    k \<notin> {0xCD, 0xCE, 0xCF, 0xD0, 0xD9, 0xDA, 0xDB, 0xDC}" by blast
  then show ?thesis
    using assms
    by (elim disjE) (simp_all add: release_report_def release_wheel_button_def release_def shape_def [of p] IS_MOUSEKEY_BUTTON_def sgn_if max_def min_def)
qed

definition mk_ok :: "mk_cfg \<Rightarrow> mk_state \<Rightarrow> bool" where
  "mk_ok c s \<longleftrightarrow> units_ok c \<and> small (report s)"

lemma mousekey_on_law:
  assumes "mk_ok c s"
  shows "mk_ok c (mousekey_on c t k s) \<and> shape (report (mousekey_on c t k s)) = press k (shape (report s)) \<and>
    sent (mousekey_on c t k s) = sent s"
proof -
  define s0 where "s0 = (if mode c = Kinetic \<and> mouse_timer s = 0 then s\<lparr>mouse_timer := t\<rparr> else s)"
  define s1 where "s1 = (if mode c \<noteq> Inertia \<and> moving (report s0)
    then (if mode c = Kinetic then s0\<lparr>mouse_timer := t - of_nat (4 * MOUSEKEY_INTERVAL c)\<rparr>
          else s0\<lparr>rep := nat (take_bit 8 (MOUSEKEY_MOVE_DELTA c)), wheel_rep := nat (take_bit 8 (MOUSEKEY_WHEEL_DELTA c))\<rparr>) else s0)"
  have c: "units_ok c" "mode c \<noteq> Inertia" "small (report s)" using assms by (simp_all add: mk_ok_def units_ok_def)
  have s1: "report s1 = report s" "sent s1 = sent s" by (simp_all add: s1_def s0_def)
  obtain u s2 where w: "wheel_unit c t s1 = (u, s2)" by force
  note r = move_unit_range [OF c(1), of t s1] wheel_unit_range(1-3) [OF c(1) w, unfolded s1]
  have sg: "sgn (move_unit c t s1) = 1" "sgn u = 1" using r by simp_all
  have v: "xy c (move_unit c t s1) = move_unit c t s1" "xy c (- move_unit c t s1) = - move_unit c t s1" "s8 u = u" "s8 (- u) = - u"
    using r by (simp_all add: xy_id s8_id)
  have "k = 0xCD \<or> k = 0xCE \<or> k = 0xCF \<or> k = 0xD0 \<or> k = 0xD9 \<or> k = 0xDA \<or> k = 0xDB \<or> k = 0xDC \<or>
    k \<notin> {0xCD, 0xCE, 0xCF, 0xD0, 0xD9, 0xDA, 0xDB, 0xDC}" by blast
  then show ?thesis
    unfolding mousekey_on_def s0_def [symmetric] Let_def s1_def [symmetric]
    using c r sg v s1 by (elim disjE) (simp_all add: w mk_ok_def press_def shape_def [of "report s"] IS_MOUSEKEY_BUTTON_def)
qed

lemma mousekey_off_report:
  assumes "mode c \<noteq> Inertia"
  shows "report (mousekey_off c k s) = release_wheel_button k (release_report k (report s))" "sent (mousekey_off c k s) = sent s"
  using assms by (simp_all add: mousekey_off_def Let_def)

interpretation mk: pointer_keys "mousekey_on c" "mousekey_off c" "mousekey_task c" "mousekey_send c" mousekey_clear report sent "mk_ok c"
  for c
proof (unfold_locales, goal_cases)
  case (1 s t k)
  then show ?case by (rule mousekey_on_law)
next
  case (2 s k)
  then show ?case using release_law [of "report s" k] by (simp add: mk_ok_def units_ok_def mousekey_off_report)
next
  case (3 s t)
  then show ?case using task_within [where c = c and s = s and t = t] by (simp add: mk_ok_def task_sends(1))
next
  case (4 s t)
  then show ?case using send_within [where c = c and s = s and t = t] send_frame [where c = c and s = s and t = t] by (auto simp: mk_ok_def)
next
  case (5 s)
  then show ?case by (simp add: mk_ok_def mousekey_clear_def shape_def small_def no_motion_def)
qed

section \<open>Three speeds\<close>

definition mk3_ok :: "mk3_cfg \<Rightarrow> mk3_state \<Rightarrow> bool" where
  "mk3_ok c s \<longleftrightarrow> small (report s) \<and> mk_speed s < 4 \<and>
    (\<forall>i < 4. 1 \<le> c_offsets c ! i \<and> c_offsets c ! i \<le> 127 \<and> 1 \<le> w_offsets c ! i \<and> w_offsets c ! i \<le> 127)"

lemma signed_offset_sgn:
  assumes "1 \<le> n" "n \<le> 127" "\<And>v. - 128 \<le> v \<Longrightarrow> v \<le> 127 \<Longrightarrow> w v = v"
  shows "sgn (signed_offset w n v) = sgn v" "\<bar>signed_offset w n v\<bar> \<le> 127"
  using assms by (auto simp: signed_offset_def Let_def sgn_if)

lemma adjust_speed_law:
  assumes "mk3_ok c s"
  shows "mk3_ok c (adjust_speed c s)" "shape (report (adjust_speed c s)) = shape (report s)" "sent (adjust_speed c s) = sent s"
proof -
  let ?co = "c_offsets c ! mk_speed s" and ?wo = "w_offsets c ! mk_speed s" and ?p = "report s"
  have n: "1 \<le> ?co" "?co \<le> 127" "1 \<le> ?wo" "?wo \<le> 127" using assms by (simp_all add: mk3_ok_def)
  define x y h v where d: "x = signed_offset (xy c) ?co (px ?p)" "y = signed_offset (xy c) ?co (py ?p)"
    "h = signed_offset s8 ?wo (ph ?p)" "v = signed_offset s8 ?wo (pv ?p)"
  have sg: "sgn x = sgn (px ?p)" "sgn y = sgn (py ?p)" "sgn h = sgn (ph ?p)" "sgn v = sgn (pv ?p)"
    "\<bar>x\<bar> \<le> 127" "\<bar>y\<bar> \<le> 127" "\<bar>h\<bar> \<le> 127" "\<bar>v\<bar> \<le> 127"
    unfolding d using n by (simp_all add: signed_offset_sgn xy_id s8_id)
  define x' y' h' v' where d': "x' = (if x \<noteq> 0 \<and> y \<noteq> 0 then diagonal c x else x)" "y' = (if x \<noteq> 0 \<and> y \<noteq> 0 then diagonal c y else y)"
    "h' = (if h \<noteq> 0 \<and> v \<noteq> 0 then times_inv_sqrt2 c h else h)" "v' = (if h \<noteq> 0 \<and> v \<noteq> 0 then times_inv_sqrt2 c v else v)"
  have sg': "sgn x' = sgn x \<and> \<bar>x'\<bar> \<le> 127" "sgn y' = sgn y \<and> \<bar>y'\<bar> \<le> 127" "sgn h' = sgn h \<and> \<bar>h'\<bar> \<le> 127" "sgn v' = sgn v \<and> \<bar>v'\<bar> \<le> 127"
    unfolding d' using sg(5-8) diagonal_sgn [of x c] diagonal_sgn [of y c] times_inv_sqrt2_sgn(1,2) [of h c] times_inv_sqrt2_sgn(1,2) [of v c]
    by simp_all
  have r: "adjust_speed c s = s\<lparr>report := ?p\<lparr>px := x', py := y', ph := h', pv := v'\<rparr>\<rparr>"
    by (simp add: adjust_speed_def Let_def d [symmetric] d')
  show "mk3_ok c (adjust_speed c s)" "shape (report (adjust_speed c s)) = shape (report s)" "sent (adjust_speed c s) = sent s"
    unfolding r using assms sg sg' by (simp_all add: mk3_ok_def small_def shape_def)
qed

lemma mousekey_on3_law:
  assumes "mk3_ok c s"
  shows "mk3_ok c (mousekey_on3 c k s) \<and> shape (report (mousekey_on3 c k s)) = press k (shape (report s)) \<and>
    sent (mousekey_on3 c k s) = sent s"
proof -
  let ?co = "c_offsets c ! mk_speed s" and ?wo = "w_offsets c ! mk_speed s"
  have n: "1 \<le> ?co" "?co \<le> 127" "1 \<le> ?wo" "?wo \<le> 127" "small (report s)" using assms by (simp_all add: mk3_ok_def)
  then have v: "xy c (int ?co) = int ?co" "xy c (- int ?co) = - int ?co" "s8 (int ?wo) = int ?wo" "s8 (- int ?wo) = - int ?wo"
    "sgn (int ?co) = 1" "sgn (int ?wo) = 1"
    by (simp_all add: xy_id s8_id)
  have "k = 0xCD \<or> k = 0xCE \<or> k = 0xCF \<or> k = 0xD0 \<or> k = 0xD9 \<or> k = 0xDA \<or> k = 0xDB \<or> k = 0xDC \<or>
    k \<notin> {0xCD, 0xCE, 0xCF, 0xD0, 0xD9, 0xDA, 0xDB, 0xDC}" by blast
  moreover have "mk3_ok c s' \<Longrightarrow> report s' = report s \<Longrightarrow> sent s' = sent s \<Longrightarrow>
    mk3_ok c (adjust_speed c s') \<and> shape (report (adjust_speed c s')) = shape (report s) \<and> sent (adjust_speed c s') = sent s" for s'
    using adjust_speed_law [of c s'] by simp
  ultimately show ?thesis
    using assms n v unfolding mousekey_on3_def Let_def
    by (elim disjE) (simp_all add: mk3_ok_def press_def shape_def [of "report s"] IS_MOUSEKEY_BUTTON_def)
qed

lemma mousekey_off3_law:
  assumes "mk3_ok c s"
  shows "mk3_ok c (mousekey_off3 c k s) \<and> shape (report (mousekey_off3 c k s)) = release k (shape (report s)) \<and>
    sent (mousekey_off3 c k s) = sent s"
proof -
  define s1 where "s1 = s\<lparr>report := release_wheel_button k (release_report k (report s))\<rparr>"
  define s2 where "s2 = (if MK_MOMENTARY_ACCEL c \<and> 0xDD \<le> k \<and> k \<le> 0xDF then s1\<lparr>mk_speed := 0\<rparr> else s1)"
  have "small (report s)" using assms by (simp add: mk3_ok_def)
  then have s1: "mk3_ok c s1" "shape (report s1) = release k (shape (report s))" "sent s1 = sent s"
    using release_law [of "report s" k] assms by (simp_all add: s1_def mk3_ok_def)
  then have s2: "mk3_ok c s2" "shape (report s2) = release k (shape (report s))" "sent s2 = sent s"
    by (simp_all add: s2_def mk3_ok_def)
  have "mousekey_off3 c k s = (if mk_speed s2 \<noteq> mk_speed s then adjust_speed c s2 else s2)"
    unfolding mousekey_off3_def Let_def s1_def [symmetric] s2_def [symmetric] ..
  then show ?thesis using s2 adjust_speed_law [OF s2(1)] by simp
qed

lemma mousekey_task3_law:
  "report (mousekey_task3 c t s) = report s \<and> mk_speed (mousekey_task3 c t s) = mk_speed s \<and>
    (\<exists>ps. sent (mousekey_task3 c t s) = sent s @ ps \<and> (\<forall>p \<in> set ps. within (shape (report s)) p))"
proof -
  let ?old = "report s"
  define a where "a \<longleftrightarrow> (px ?old \<noteq> 0 \<or> py ?old \<noteq> 0) \<and> unat (t - last_timer_c s) > c_intervals c ! mk_speed s"
  define b where "b \<longleftrightarrow> (ph ?old \<noteq> 0 \<or> pv ?old \<noteq> 0) \<and> unat (t - last_timer_w s) > w_intervals c ! mk_speed s"
  define x y v h where d: "x = (if a then px ?old else 0)" "y = (if a then py ?old else 0)"
    "v = (if b then pv ?old else 0)" "h = (if b then ph ?old else 0)"
  define s1 where "s1 = s\<lparr>report := ?old\<lparr>px := x, py := y, pv := v, ph := h\<rparr>\<rparr>"
  have t: "mousekey_task3 c t s = finish_task c t ?old s1"
    by (simp add: mousekey_task3_def Let_def s1_def d a_def b_def)
  have r: "report s1 = ?old\<lparr>px := x, py := y, pv := v, ph := h\<rparr>" by (simp add: s1_def)
  obtain bx by' where f: "finish_task c t ?old s1 = (if x = 0 \<and> y = 0 \<and> v = 0 \<and> h = 0 then s1\<lparr>report := ?old\<rparr>
      else (mousekey_send c t s1)\<lparr>report := ?old\<rparr>)"
    "sent (finish_task c t ?old s1) = sent s1 @ (if x = 0 \<and> y = 0 \<and> v = 0 \<and> h = 0 then []
      else [?old\<lparr>px := x, py := y, pv := v, ph := h, boot_x := bx, boot_y := by'\<rparr>])"
    using finish_task_effect [OF r, of c t] by blast
  have "within (shape ?old) (?old\<lparr>px := x, py := y, pv := v, ph := h, boot_x := bx, boot_y := by'\<rparr>)"
    by (simp add: within_def shape_def d)
  moreover have "mk_speed (mousekey_send c t s1) = mk_speed s1" by (simp add: mousekey_send_def host_mouse_send_def Let_def)
  moreover have "mk_speed s1 = mk_speed s" "sent s1 = sent s" by (simp_all add: s1_def)
  ultimately show ?thesis unfolding t f(2) by (simp add: f(1))
qed

interpretation mk3: pointer_keys "\<lambda>t. mousekey_on3 c" "mousekey_off3 c" "mousekey_task3 c" "mousekey_send c" mousekey_clear3 report sent "mk3_ok c"
  for c
proof (unfold_locales, goal_cases)
  case (1 s t k)
  then show ?case by (rule mousekey_on3_law)
next
  case (2 s k)
  then show ?case by (rule mousekey_off3_law)
next
  case (3 s t)
  then show ?case using mousekey_task3_law [where c = c and s = s and t = t] by (simp add: mk3_ok_def)
next
  case (4 s t)
  moreover have "mk_speed (mousekey_send c t s) = mk_speed s" by (simp add: mousekey_send_def host_mouse_send_def Let_def)
  ultimately show ?case using send_within [where c = c and s = s and t = t] send_frame [where c = c and s = s and t = t] by (auto simp: mk3_ok_def)
next
  case (5 s)
  then show ?case by (simp add: mk3_ok_def mousekey_clear3_def shape_def small_def no_motion_def)
qed

section \<open>Inertia\<close>

text \<open>Without a direction, each frame brings the velocity closer to 0; with one, it stays within its limits.\<close>

lemma calc_inertia_rest:
  assumes "1 \<le> MOUSEKEY_FRICTION c" "MOUSEKEY_FRICTION c \<le> 255" "\<bar>v\<bar> \<le> 127"
  shows "\<bar>calc_inertia c 0 v\<bar> \<le> \<bar>v\<bar> - 1 \<or> calc_inertia c 0 v = 0"
proof -
  let ?f = "256 - MOUSEKEY_FRICTION c"
  have f: "1 \<le> ?f" "?f \<le> 255" using assms(1,2) by auto
  consider "v = 0" | "v < 0" | "0 < v" by linarith
  then show ?thesis
  proof cases
    case 2
    define a where "a = - (v + 1)"
    have a: "0 \<le> a" "v + 1 = - a" using 2 by (simp_all add: a_def)
    have p: "0 \<le> a * ?f" using a(1) f(1) by (intro mult_nonneg_nonneg) auto
    have "a * ?f \<le> a * 256" using a(1) f(2) by (intro mult_left_mono) auto
    from zdiv_mono1 [OF this, of 256] have "a * ?f div 256 \<le> a" by simp
    moreover have "0 \<le> a * ?f div 256" using p by simp
    moreover have "(v + 1) * ?f sdiv 256 = - (a * ?f div 256)"
    proof (cases "a * ?f = 0")
      case True
      then show ?thesis unfolding a(2) mult_minus_left True by (simp add: signed_divide_int_def)
    next
      case False
      then have "- (a * ?f) < 0" using p by linarith
      from sdiv_negative [OF this] show ?thesis unfolding a(2) by simp
    qed
    moreover have "\<bar>v\<bar> - 1 = a" using 2 by (simp add: a_def)
    ultimately show ?thesis using 2 assms(3) by (simp add: calc_inertia_def Let_def s8_id)
  next
    case 3
    have p: "0 < v * ?f" using 3 f(1) by (intro mult_pos_pos) auto
    have "v * ?f \<le> v * 255" using 3 f(2) by (intro mult_left_mono) auto
    then have "v * ?f div 256 \<le> v - 1" using 3 by linarith
    moreover have "0 \<le> v * ?f div 256" using p by simp
    moreover have "v * ?f sdiv 256 = v * ?f div 256" using p by (auto simp: signed_divide_int_def sgn_if)
    ultimately show ?thesis using 3 assms(3) by (simp add: calc_inertia_def Let_def s8_id)
  qed (simp add: calc_inertia_def s8_def)
qed

lemma inertia_comes_to_rest:
  assumes "1 \<le> MOUSEKEY_FRICTION c" "MOUSEKEY_FRICTION c \<le> 255"
  shows "\<bar>v\<bar> \<le> 127 \<Longrightarrow> nat \<bar>v\<bar> \<le> n \<Longrightarrow> (calc_inertia c 0 ^^ n) v = 0"
proof (induction n arbitrary: v)
  case (Suc n)
  have "\<bar>calc_inertia c 0 v\<bar> \<le> \<bar>v\<bar> - 1 \<or> calc_inertia c 0 v = 0" by (rule calc_inertia_rest) (use assms Suc.prems in auto)
  then have "(calc_inertia c 0 ^^ n) (calc_inertia c 0 v) = 0" using Suc.prems by (intro Suc.IH) auto
  then show ?case by (simp add: funpow_swap1)
qed simp

text \<open>The settings of \<^verbatim>\<open>mousekey.h\<close>.\<close>

definition default_mk :: "mk_mode \<Rightarrow> mk_cfg" where
  "default_mk m = \<lparr>MOUSE_EXTENDED_REPORT = False, int_16_bits = False, mode = m, MOUSEKEY_MOVE_MAX = 127, MOUSEKEY_WHEEL_MAX = 127,
     MOUSEKEY_MOVE_DELTA = (if m = Kinetic then 16 else if m = Inertia then 1 else 8), MOUSEKEY_WHEEL_DELTA = 1,
     MOUSEKEY_INTERVAL = (if m = Kinetic then 10 else if m = Inertia then 16 else 20),
     mk_delay = (if m = Kinetic then 0 else if m = Inertia then 15 else 1),
     mk_interval = (if m = Kinetic then 10 else if m = Inertia then 16 else 20),
     mk_max_speed = (if m = Inertia then 32 else 10), mk_time_to_max = (if m = Inertia then 32 else 30),
     mk_wheel_delay = 1, mk_wheel_max_speed = 8, mk_wheel_time_to_max = 40, MOUSEKEY_FRICTION = 24,
     mk_initial_speed = 100, mk_base_speed = 5000, mk_decelerated_speed = 400, mk_accelerated_speed = 3000,
     wheel_initial_movements = 16, wheel_base_movements = 32, wheel_accelerated_movements = 48, wheel_decelerated_movements = 8\<rparr>"

text \<open>A kinetic pointer that has run at full speed slows down to a sixth after four and a half seconds: the speed is 16 bits wide.\<close>

lemma kinetic_speed_wraps:
  "move_unit (default_mk Kinetic) 4451 ((mk_init 62)\<lparr>rep := 1, mouse_timer := 1\<rparr>) = 50"
  "move_unit (default_mk Kinetic) 4501 ((mk_init 62)\<lparr>rep := 1, mouse_timer := 1\<rparr>) = 8"
  by (simp_all add: move_unit_def kinetic_unit_def kinetic_speed_def elapsed_50_def default_mk_def mk_init_def take_bit_eq_mod Let_def)

text \<open>In combined builds the wheel follows the counter of the cursor: it does not accelerate by itself.\<close>

lemma combined_wheel_ignores_its_counter:
  "fst (wheel_unit (default_mk Combined) t ((mk_init 80)\<lparr>wheel_rep := n\<rparr>)) = 1"
  "fst (wheel_unit (default_mk Accelerated) t ((mk_init 80)\<lparr>wheel_rep := 40\<rparr>)) = 8"
  by (simp_all add: wheel_unit_def combined_unit_def accelerated_unit_def growing_unit_def clamp_unit_def default_mk_def mk_init_def
      take_bit_eq_mod Let_def)

text \<open>The report keeps one direction per axis: releasing the right key stops the pointer although the left one is held.\<close>

lemma opposite_key_stops:
  assumes "mk_ok c s"
  shows "px (report (mousekey_off c 0xD0 (mousekey_on c t' 0xD0 (mousekey_on c t 0xCF s)))) = 0"
proof -
  let ?s = "mousekey_on c t' 0xD0 (mousekey_on c t 0xCF s)"
  have "sgn (px (report ?s)) = 1"
    using mousekey_on_law [OF conjunct1 [OF mousekey_on_law [OF assms, where t = t and k = "0xCF"]], where t = t' and k = "0xD0"]
    by (simp add: shape_def [of "report ?s"] press_def split: prod.splits)
  moreover have "mode c \<noteq> Inertia" using assms by (simp add: mk_ok_def units_ok_def)
  ultimately show ?thesis by (simp add: mousekey_off_report release_report_def release_wheel_button_def sgn_if split: if_splits)
qed

text \<open>With inertia, the same velocity moves further to the left than to the right.\<close>

lemma inertia_is_uneven:
  "fst (inertia_unit (default_mk Inertia) False ((mk_init 80)\<lparr>frame := 2, x_inertia := 2\<rparr>)) = 1"
  "fst (inertia_unit (default_mk Inertia) False ((mk_init 80)\<lparr>frame := 2, x_inertia := - 2\<rparr>)) = - 2"
  by code_simp+

text \<open>Without friction a velocity to the right never ends.\<close>

lemma no_friction_no_rest:
  "(calc_inertia ((default_mk Inertia)\<lparr>MOUSEKEY_FRICTION := 0\<rparr>) 0 ^^ n) 5 = 5"
  "calc_inertia ((default_mk Inertia)\<lparr>MOUSEKEY_FRICTION := 0\<rparr>) 0 (- 5) = - 4"
proof -
  have "calc_inertia ((default_mk Inertia)\<lparr>MOUSEKEY_FRICTION := 0\<rparr>) 0 5 = 5"
    by (simp add: calc_inertia_def default_mk_def Let_def s8_def signed_take_bit_int_eq_self signed_divide_int_def)
  then show "(calc_inertia ((default_mk Inertia)\<lparr>MOUSEKEY_FRICTION := 0\<rparr>) 0 ^^ n) 5 = 5" by (induction n) simp_all
qed (simp add: calc_inertia_def default_mk_def Let_def s8_def signed_take_bit_int_eq_self signed_divide_int_def)

text \<open>Clearing the mouse keys does not reset the start of a kinetic movement.\<close>

lemma clear_keeps_kinetic_timer: "mouse_timer (mousekey_clear s) = mouse_timer s"
  by (simp add: mousekey_clear_def)

section \<open>Properties\<close>

abbreviation run_mk :: "mk_cfg \<Rightarrow> mk_op \<Rightarrow> mk_state \<Rightarrow> mk_state" where
  "run_mk c \<equiv> run_op (mousekey_on c) (mousekey_off c) (mousekey_task c) (mousekey_send c) mousekey_clear"
abbreviation run_mk3 :: "mk3_cfg \<Rightarrow> mk_op \<Rightarrow> mk3_state \<Rightarrow> mk3_state" where
  "run_mk3 c \<equiv> run_op (\<lambda>t. mousekey_on3 c) (mousekey_off3 c) (mousekey_task3 c) (mousekey_send c) mousekey_clear3"

text \<open>
  C22: over any sequence of mouse key events, tasks and resets, each report sent to the host moves only in directions whose
  keys are down, and shows exactly the buttons whose keys are down; in the accelerated, combined and kinetic builds,
  and in the build with three speeds.
\<close>

theorem mouse_moves_only_while_held:
  assumes "units_ok c" "mk3_ok c3 (mk3_init c3)"
  shows "(\<exists>ps. sent (run_mk c x (fold (run_mk c) ops (mk_init w))) = sent (fold (run_mk c) ops (mk_init w)) @ ps \<and>
      (\<forall>p \<in> set ps. explained (fold hold ops (\<lambda>_. False)) (shape p))) \<and>
    (\<exists>ps. sent (run_mk3 c3 x (fold (run_mk3 c3) ops (mk3_init c3))) = sent (fold (run_mk3 c3) ops (mk3_init c3)) @ ps \<and>
      (\<forall>p \<in> set ps. explained (fold hold ops (\<lambda>_. False)) (shape p)))"
proof -
  have "mk_ok c (mk_init w)" "shape (report (mk_init w)) = (0, 0, 0, 0, 0)" "shape (report (mk3_init c3)) = (0, 0, 0, 0, 0)"
    using assms(1) by (simp_all add: mk_ok_def mk_init_def mk3_init_def no_motion_def shape_def small_def)
  then show ?thesis using mk.moves_only_while_held mk3.moves_only_while_held [OF assms(2)] by blast
qed

lemma mouse_moves_only_while_held_witness:
  "\<exists>ps. sent (run_mk (default_mk Accelerated) (Task 500) (fold (run_mk (default_mk Accelerated)) [On 0 0xD0, Send 0, Off 0xD0] (mk_init 80))) =
      sent (fold (run_mk (default_mk Accelerated)) [On 0 0xD0, Send 0, Off 0xD0] (mk_init 80)) @ ps \<and>
    (\<forall>p \<in> set ps. px p \<le> 0)"
proof -
  define c3 where "c3 = \<lparr>MOUSE_EXTENDED_REPORT = False, int_16_bits = False, MK_MOMENTARY_ACCEL = False,
    c_offsets = [16, 1, 4, 32], c_intervals = [16, 32, 16, 16], w_offsets = [1, 1, 1, 1], w_intervals = [40, 360, 120, 20]\<rparr>"
  have "units_ok (default_mk Accelerated)" by (simp add: units_ok_def default_mk_def)
  moreover have "mk3_ok c3 (mk3_init c3)"
    by (simp add: mk3_ok_def mk3_init_def c3_def no_motion_def small_def numeral_eq_Suc less_Suc_eq all_conj_distrib nth_Cons')
  ultimately obtain ps where "sent (run_mk (default_mk Accelerated) (Task 500) (fold (run_mk (default_mk Accelerated)) [On 0 0xD0, Send 0, Off 0xD0] (mk_init 80))) =
      sent (fold (run_mk (default_mk Accelerated)) [On 0 0xD0, Send 0, Off 0xD0] (mk_init 80)) @ ps"
    "\<forall>p \<in> set ps. explained (fold hold [On 0 0xD0, Send 0, Off 0xD0] (\<lambda>_. False)) (shape p)"
    using mouse_moves_only_while_held [of "default_mk Accelerated" c3 "Task 500" "[On 0 0xD0, Send 0, Off 0xD0]" 80] by blast
  moreover have "px p \<le> 0" if "explained (fold hold [On 0 0xD0, Send 0, Off 0xD0] (\<lambda>_. False)) (shape p)" for p
    using that by (auto simp: explained_def shape_def held_dir_def sgn_if split: if_splits)
  ultimately show ?thesis by blast
qed

text \<open>
  C35: in a build with neither inertia nor three constant speeds, whose maximal steps are 1 to 127: while the report that the
  mouse keys keep has a direction, the task sends a report whenever the delay or the interval has elapsed; it moves in the
  directions of the kept report, by a step that fits, and carries its buttons. (The kept report has at most one direction
  per axis: lemma \<^verbatim>\<open>opposite_key_stops\<close>.)
\<close>

theorem mouse_key_moves_when_due:
  assumes "units_ok c" "cursor_due c t (report s) s"
  shows "\<exists>p. sent (mousekey_task c t s) = sent s @ [p] \<and> sgn (px p) = sgn (px (report s)) \<and> sgn (py p) = sgn (py (report s)) \<and>
    \<bar>px p\<bar> \<le> 127 \<and> \<bar>py p\<bar> \<le> 127 \<and> buttons p = buttons (report s) \<and> report (mousekey_task c t s) = report s"
proof -
  obtain x y v h bx by' where st: "step_of True (px (report s)) x" "step_of True (py (report s)) y"
    and snt: "sent (mousekey_task c t s) = sent s @ (if x = 0 \<and> y = 0 \<and> v = 0 \<and> h = 0 then []
        else [(report s)\<lparr>px := x, py := y, pv := v, ph := h, boot_x := bx, boot_y := by'\<rparr>])"
    using task_sends(2) [OF assms(1), of t s] assms(2) by auto
  have "\<not> (x = 0 \<and> y = 0)" using assms(2) st by (auto simp: cursor_due_def step_of_def sgn_if split: if_splits)
  then show ?thesis using st unfolding snt by (auto simp: step_of_def task_sends(1) [OF assms(1)])
qed

lemma mouse_key_moves_when_due_witness:
  "\<exists>p. sent (mousekey_task (default_mk Accelerated) 500 ((mk_init 80)\<lparr>report := no_motion\<lparr>px := -8\<rparr>\<rparr>)) = [p] \<and> px p < 0"
proof -
  have "units_ok (default_mk Accelerated)" by (simp add: units_ok_def default_mk_def)
  moreover have "cursor_due (default_mk Accelerated) 500 (report ((mk_init 80)\<lparr>report := no_motion\<lparr>px := -8\<rparr>\<rparr>)) ((mk_init 80)\<lparr>report := no_motion\<lparr>px := -8\<rparr>\<rparr>)"
    by (simp add: cursor_due_def default_mk_def mk_init_def no_motion_def)
  ultimately obtain p where "sent (mousekey_task (default_mk Accelerated) 500 ((mk_init 80)\<lparr>report := no_motion\<lparr>px := -8\<rparr>\<rparr>)) =
      sent ((mk_init 80)\<lparr>report := no_motion\<lparr>px := -8\<rparr>\<rparr>) @ [p]" "sgn (px p) = -1"
    using mouse_key_moves_when_due [of "default_mk Accelerated" 500 "(mk_init 80)\<lparr>report := no_motion\<lparr>px := -8\<rparr>\<rparr>"] by auto
  then show ?thesis by (auto simp: mk_init_def sgn_if split: if_splits)
qed

end
