(* ===== verification/RepeatKey.thy ===== *)
theory RepeatKey
  imports ActionProcess Keycodes "HOL-Library.Monad_Syntax"
begin

text \<open>
  The repeat key and the alternate repeat key (\<^verbatim>\<open>quantum/repeat_key.c\<close>,
  \<^verbatim>\<open>quantum/process_keycode/process_repeat_key.c\<close>): the last key is remembered and its record is processed again.
\<close>

unbundle bit_operations_syntax

section \<open>State and environment\<close>

text \<open>The last two pairs are the static variables of the two functions that invoke a repetition; counts are 8 bits wide.\<close>

record rk_state =
  last_record :: keyrecord
  last_mods :: u8
  last_repeat_count :: int
  processing_repeat_count :: int
  registered_record :: keyrecord
  registered_repeat_count :: int
  alt_registered_record :: keyrecord
  alt_registered_repeat_count :: int

definition rk_init :: rk_state where
  "rk_init = \<lparr>last_record = empty_record, last_mods = 0, last_repeat_count = 0, processing_repeat_count = 0,
     registered_record = empty_record, registered_repeat_count = 0, alt_registered_record = empty_record, alt_registered_repeat_count = 0\<rparr>"

text \<open>
  \<open>event_keycode\<close> is \<^verbatim>\<open>get_event_keycode\<close>, \<open>rest_of_chain\<close> what \<^verbatim>\<open>process_record\<close> does with a record after these handlers.
  It may write the record, which is a pointer in the code, and may call the setters of the last key. The two hooks are
  None where the keymap does not override them.
\<close>

record 'w rk_env =
  RK_NO_ACTION_TAPPING :: bool
  RK_NO_ACTION_LAYER :: bool
  RK_NO_ACTION_ONESHOT :: bool
  RK_SWAP_HANDS_ENABLE :: bool
  TRI_LAYER_ENABLE :: bool
  NO_ALT_REPEAT_KEY :: bool
  RK_EXTRAKEY_ENABLE :: bool
  RK_MOUSEKEY_ENABLE :: bool
  read_mods :: "'w \<Rightarrow> u8"
  read_weak_mods :: "'w \<Rightarrow> u8"
  read_oneshot_mods :: "'w \<Rightarrow> u8"
  register_weak :: "u8 \<Rightarrow> 'w \<Rightarrow> 'w"
  unregister_weak :: "u8 \<Rightarrow> 'w \<Rightarrow> 'w"
  event_keycode :: "keyevent \<Rightarrow> 'w \<Rightarrow> u16"
  rest_of_chain :: "u16 \<Rightarrow> keyrecord \<Rightarrow> rk_state \<times> 'w \<Rightarrow> keyrecord \<times> rk_state \<times> 'w"
  remember_user :: "(u16 \<Rightarrow> keyrecord \<Rightarrow> u8 \<Rightarrow> bool \<times> keyrecord \<times> u8) option"
  alt_keycode_user :: "(u16 \<Rightarrow> u8 \<Rightarrow> u16) option"

section \<open>The last key\<close>

definition set_last_record :: "u16 \<Rightarrow> keyrecord \<Rightarrow> rk_state \<Rightarrow> rk_state" where
  "set_last_record keycode r k = k\<lparr>last_record := r\<lparr>rec_keycode := keycode\<rparr>, last_repeat_count := 0\<rparr>"

definition set_last_keycode :: "'w rk_env \<Rightarrow> u16 \<Rightarrow> rk_state \<Rightarrow> rk_state" where
  "set_last_keycode env keycode =
    set_last_record keycode (if RK_NO_ACTION_TAPPING env then empty_record else empty_record\<lparr>interrupted := False, tap_count := 1\<rparr>)"

definition set_last_mods :: "u8 \<Rightarrow> rk_state \<Rightarrow> rk_state" where
  "set_last_mods mods k = k\<lparr>last_mods := mods\<rparr>"

definition update_last_repeat_count :: "int \<Rightarrow> rk_state \<Rightarrow> rk_state" where
  "update_last_repeat_count dir k =
    (if dir * last_repeat_count k < 0 then k\<lparr>last_repeat_count := dir\<rparr>
     else if dir * last_repeat_count k < 127 then k\<lparr>last_repeat_count := last_repeat_count k + dir\<rparr>
     else k)"

definition remember_last_key :: "'w rk_env \<Rightarrow> u16 \<Rightarrow> keyrecord \<Rightarrow> u8 \<Rightarrow> bool \<times> keyrecord \<times> u8" where
  "remember_last_key env keycode r mods =
    (if IS_QK_MOMENTARY keycode \<or> IS_QK_TO keycode \<or> IS_QK_TOGGLE_LAYER keycode \<or> IS_QK_LAYER_TAP_TOGGLE keycode \<or>
        0xE0 \<le> keycode \<and> keycode \<le> 0xE7 \<or> keycode = 0x0F00 \<or> keycode = 0x0700 \<or>
        \<not> RK_NO_ACTION_ONESHOT env \<and> (IS_QK_ONE_SHOT_LAYER keycode \<or> IS_QK_ONE_SHOT_MOD keycode) \<or>
        TRI_LAYER_ENABLE env \<and> (keycode = 0x7C77 \<or> keycode = 0x7C78) \<or>
        \<not> RK_NO_ACTION_TAPPING env \<and>
          (IS_QK_MOD_TAP keycode \<or> \<not> RK_NO_ACTION_LAYER env \<and> IS_QK_LAYER_TAP keycode) \<and> tap_count r = 0 \<or>
        RK_SWAP_HANDS_ENABLE env \<and> IS_QK_SWAP_HANDS keycode \<and> (IS_SWAP_HANDS_KEYCODE keycode \<or> tap_count r = 0) \<or>
        keycode = 0x7C79 \<or> \<not> NO_ALT_REPEAT_KEY env \<and> keycode = 0x7C7A
     then (False, r, mods)
     else case remember_user env of Some f \<Rightarrow> f keycode r mods | None \<Rightarrow> (True, r, mods))"

definition process_last_key :: "'w rk_env \<Rightarrow> u16 \<Rightarrow> keyrecord \<Rightarrow> rk_state \<times> 'w \<Rightarrow> keyrecord \<times> rk_state \<times> 'w" where
  "process_last_key env keycode r = (\<lambda>(k, w).
    if processing_repeat_count k \<noteq> 0 then (r, k, w)
    else if pressed (event r) then
      (let mods = read_mods env w OR read_weak_mods env w;
           mods = (if RK_NO_ACTION_ONESHOT env then mods else mods OR read_oneshot_mods env w);
           (remember, r, mods) = remember_last_key env keycode r mods
       in (r, if remember then set_last_mods mods (set_last_record keycode r k) else k, w))
    else (r, k, w))"

section \<open>Repeating\<close>

text \<open>\<open>run\<close> is \<^verbatim>\<open>process_record\<close>; None stands for a call that does not return.\<close>

definition repeat_key_invoke ::
    "(keyrecord \<Rightarrow> rk_state \<times> 'w \<Rightarrow> (keyrecord \<times> rk_state \<times> 'w) option) \<Rightarrow> 'w rk_env \<Rightarrow> keyevent \<Rightarrow> rk_state \<times> 'w \<Rightarrow>
      (rk_state \<times> 'w) option" where
  "repeat_key_invoke run env e = (\<lambda>(k, w).
    if processing_repeat_count k \<noteq> 0 \<or> rec_keycode (last_record k) = 0 then Some (k, w)
    else
      (let (k, w) = (if pressed e
                     then (let k = update_last_repeat_count 1 k
                           in (k\<lparr>registered_record := last_record k, registered_repeat_count := last_repeat_count k\<rparr>,
                               register_weak env (last_mods k) w))
                     else (k, w));
           r = (registered_record k)\<lparr>event := e\<rparr>;
           k = k\<lparr>registered_record := r, processing_repeat_count := registered_repeat_count k\<rparr>
       in do { (r, k, w) \<leftarrow> run r (k, w);
               let k = k\<lparr>registered_record := r, processing_repeat_count := 0\<rparr>;
               Some (k, if \<not> pressed e then unregister_weak env (last_mods k) w else w) }))"

text \<open>The alternate of a key in a table of pairs, written one after the other.\<close>

definition find_alt_keycode :: "u8 list \<Rightarrow> u8 \<Rightarrow> u8" where
  "find_alt_keycode table target =
    (case filter (\<lambda>i. table ! i = target) [0..<length table] of
       i # _ \<Rightarrow> table ! (i XOR 1)
     | [] \<Rightarrow> 0)"

definition mod_pairs :: "u8 list" where
  "mod_pairs = [0x09, 0x05, 0x07, 0x18, 0x11, 0x13, 0x04, 0x08, 0x12, 0x0C]"

definition plain_pairs :: "u8 list" where
  "plain_pairs = [0x0D, 0x0E, 0x0B, 0x0F, 0x1A, 0x05, 0x08, 0x05]"

definition any_pairs :: "'w rk_env \<Rightarrow> u8 list" where
  "any_pairs env = [0x50, 0x4F, 0x52, 0x51, 0x4A, 0x4D, 0x4B, 0x4E, 0x2A, 0x4C, 0x2F, 0x30] @
    (if RK_EXTRAKEY_ENABLE env then [0xB6, 0xB7, 0xAB, 0xAC, 0xBB, 0xBC, 0xA9, 0xAA, 0xBD, 0xBE] else []) @
    (if RK_MOUSEKEY_ENABLE env then [0xCF, 0xD0, 0xCD, 0xCE, 0xDB, 0xDC, 0xD9, 0xDA] else [])"

definition five_bit_mods :: "u8 \<Rightarrow> u8" where
  "five_bit_mods mods = (if mods AND 0xF0 \<noteq> 0 then 0x10 else 0) OR ((drop_bit 4 mods OR mods) AND 0x0F)"

definition alt_of_basic :: "'w rk_env \<Rightarrow> u8 \<Rightarrow> u8 \<Rightarrow> u16" where
  "alt_of_basic env mods kc =
    (let alt = find_alt_keycode (if mods AND 0x0D \<noteq> 0 then mod_pairs else plain_pairs) kc;
         alt = (if alt = 0 then find_alt_keycode (any_pairs env) kc else alt)
     in if alt \<noteq> 0 then push_bit 8 (ucast mods) OR ucast alt else 0)"

definition get_alt_repeat_key_keycode :: "'w rk_env \<Rightarrow> rk_state \<Rightarrow> u16" where
  "get_alt_repeat_key_keycode env k =
    (let keycode = rec_keycode (last_record k); mods = last_mods k;
         alt = (case alt_keycode_user env of Some f \<Rightarrow> f keycode mods | None \<Rightarrow> 1) in
     if alt \<noteq> 1 then alt
     else
       (let mods = five_bit_mods mods;
            (mods, keycode) =
              (if IS_QK_MODS keycode then (mods OR ucast (QK_MODS_GET_MODS keycode), QK_MODS_GET_BASIC_KEYCODE keycode)
               else if \<not> RK_NO_ACTION_TAPPING env \<and> IS_QK_MOD_TAP keycode then (mods, QK_MOD_TAP_GET_TAP_KEYCODE keycode)
               else if \<not> RK_NO_ACTION_TAPPING env \<and> \<not> RK_NO_ACTION_LAYER env \<and> IS_QK_LAYER_TAP keycode
                 then (mods, QK_LAYER_TAP_GET_TAP_KEYCODE keycode)
               else if RK_SWAP_HANDS_ENABLE env \<and> IS_QK_SWAP_HANDS keycode \<and> \<not> IS_SWAP_HANDS_KEYCODE keycode
                 then (mods, QK_SWAP_HANDS_GET_TAP_KEYCODE keycode)
               else (mods, keycode))
        in if RK_SWAP_HANDS_ENABLE env \<and> IS_SWAP_HANDS_KEYCODE keycode then 0
           else if keycode \<le> 0xFF then alt_of_basic env mods (ucast keycode) else 0))"

definition alt_repeat_key_invoke ::
    "(keyrecord \<Rightarrow> rk_state \<times> 'w \<Rightarrow> (keyrecord \<times> rk_state \<times> 'w) option) \<Rightarrow> 'w rk_env \<Rightarrow> keyevent \<Rightarrow> rk_state \<times> 'w \<Rightarrow>
      (rk_state \<times> 'w) option" where
  "alt_repeat_key_invoke run env e = (\<lambda>(k, w).
    if processing_repeat_count k \<noteq> 0 then Some (k, w)
    else
      (let k = (if pressed e then k\<lparr>alt_registered_record := empty_record\<lparr>rec_keycode := get_alt_repeat_key_keycode env k\<rparr>\<rparr> else k) in
       if rec_keycode (alt_registered_record k) = 0 then Some (k, w)
       else
         (let k = (if pressed e
                   then (let k = update_last_repeat_count (-1) k in k\<lparr>alt_registered_repeat_count := last_repeat_count k\<rparr>)
                   else k);
              r = (alt_registered_record k)\<lparr>event := e\<rparr>;
              k = k\<lparr>alt_registered_record := r, processing_repeat_count := alt_registered_repeat_count k\<rparr>
          in do { (r, k, w) \<leftarrow> run r (k, w);
                  Some (k\<lparr>alt_registered_record := r, processing_repeat_count := 0\<rparr>, w) })))"

definition process_repeat_key ::
    "(keyrecord \<Rightarrow> rk_state \<times> 'w \<Rightarrow> (keyrecord \<times> rk_state \<times> 'w) option) \<Rightarrow> 'w rk_env \<Rightarrow> u16 \<Rightarrow> keyrecord \<Rightarrow> rk_state \<times> 'w \<Rightarrow>
      (bool \<times> rk_state \<times> 'w) option" where
  "process_repeat_key run env keycode r s =
    (if processing_repeat_count (fst s) \<noteq> 0 then Some (True, s)
     else if keycode = 0x7C79 then map_option (Pair False) (repeat_key_invoke run env (event r) s)
     else if \<not> NO_ALT_REPEAT_KEY env \<and> keycode = 0x7C7A then map_option (Pair False) (alt_repeat_key_invoke run env (event r) s)
     else Some (True, s))"

section \<open>Processing a record\<close>

text \<open>
  The loop through \<^verbatim>\<open>process_record\<close>: a repeated record comes back to both handlers. The fuel is the depth of the
  recursion. A record that carries no keycode has the one of its position.
\<close>

definition get_record_keycode :: "'w rk_env \<Rightarrow> keyrecord \<Rightarrow> 'w \<Rightarrow> u16" where
  "get_record_keycode env r w = (if rec_keycode r \<noteq> 0 then rec_keycode r else event_keycode env (event r) w)"

fun process_repeating :: "nat \<Rightarrow> 'w rk_env \<Rightarrow> keyrecord \<Rightarrow> rk_state \<times> 'w \<Rightarrow> (keyrecord \<times> rk_state \<times> 'w) option" where
  "process_repeating 0 env r s = None"
| "process_repeating (Suc n) env r s =
    (let keycode = get_record_keycode env r (snd s); (r, s) = process_last_key env keycode r s
     in do { (go, s) \<leftarrow> process_repeat_key (process_repeating n env) env keycode r s;
             Some (if go then rest_of_chain env keycode r s else (r, s)) })"

text \<open>On the model of the action layer.\<close>

definition keyboard_rk :: "('l::len word) process_cfg \<Rightarrow> (keyevent \<Rightarrow> ('l word) process_state \<Rightarrow> u16) \<Rightarrow> ('l word) process_state rk_env" where
  "keyboard_rk pc keycodes =
    \<lparr>RK_NO_ACTION_TAPPING = no_tapping pc, RK_NO_ACTION_LAYER = no_layer pc, RK_NO_ACTION_ONESHOT = NO_ACTION_ONESHOT (act pc),
     RK_SWAP_HANDS_ENABLE = SWAP_HANDS_ENABLE (act pc), TRI_LAYER_ENABLE = False, NO_ALT_REPEAT_KEY = False,
     RK_EXTRAKEY_ENABLE = EXTRAKEY_ENABLE (act pc), RK_MOUSEKEY_ENABLE = True,
     read_mods = (\<lambda>p. real_mods (core p)), read_weak_mods = (\<lambda>p. weak_mods (core p)), read_oneshot_mods = (\<lambda>p. oneshot_mods (core p)),
     register_weak = (\<lambda>m. on_core (register_weak_mods (act pc) m)), unregister_weak = (\<lambda>m. on_core (unregister_weak_mods (act pc) m)),
     event_keycode = keycodes, rest_of_chain = (\<lambda>kc r (k, p). case process_record pc r p of (r, p) \<Rightarrow> (r, k, p)),
     remember_user = None, alt_keycode_user = None\<rparr>"

end
