(* ===== verification/RepeatKeyProps.thy ===== *)
theory RepeatKeyProps
  imports RepeatKey
begin

text \<open>
  The release of the repeat key processes the key that its press processed, whatever was pressed in between; and the
  two ways in which it does not get there.
\<close>

section \<open>Laws of a step\<close>

text \<open>The rest of the chain does not call the setters of the last key, and a press does not lose the keycode of its record.\<close>

definition keeps :: "'w rk_env \<Rightarrow> bool" where
  "keeps env \<longleftrightarrow> (\<forall>kc r k w. case rest_of_chain env kc r (k, w) of (r', k', w') \<Rightarrow>
    k' = k \<and> (pressed (event r) \<longrightarrow> rec_keycode r' = rec_keycode r))"

text \<open>A record that is registered has a count, which marks that it is being processed.\<close>

definition rk_ok :: "rk_state \<Rightarrow> bool" where
  "rk_ok k \<longleftrightarrow> processing_repeat_count k = 0 \<and>
    (rec_keycode (registered_record k) \<noteq> 0 \<longrightarrow> registered_repeat_count k \<noteq> 0) \<and>
    (rec_keycode (alt_registered_record k) \<noteq> 0 \<longrightarrow> alt_registered_repeat_count k \<noteq> 0)"

lemma keepsD:
  assumes "keeps env"
  obtains r' w' where "rest_of_chain env kc r (k, w) = (r', k, w')" "pressed (event r) \<Longrightarrow> rec_keycode r' = rec_keycode r"
proof -
  have "case rest_of_chain env kc r (k, w) of (r', k', w') \<Rightarrow> k' = k \<and> (pressed (event r) \<longrightarrow> rec_keycode r' = rec_keycode r)"
    using assms by (simp add: keeps_def)
  then show thesis using that by (auto split: prod.splits)
qed

lemma count_not_zero:
  assumes "dir = 1 \<or> dir = -1"
  shows "last_repeat_count (update_last_repeat_count dir k) \<noteq> 0"
  using assms by (auto simp: update_last_repeat_count_def)

lemma update_frame:
  "processing_repeat_count (update_last_repeat_count d k) = processing_repeat_count k"
  "registered_record (update_last_repeat_count d k) = registered_record k"
  "registered_repeat_count (update_last_repeat_count d k) = registered_repeat_count k"
  "alt_registered_record (update_last_repeat_count d k) = alt_registered_record k"
  "alt_registered_repeat_count (update_last_repeat_count d k) = alt_registered_repeat_count k"
  "last_record (update_last_repeat_count d k) = last_record k" "last_mods (update_last_repeat_count d k) = last_mods k"
  by (simp_all add: update_last_repeat_count_def)

text \<open>A record with a keycode that is processed as a repetition goes straight to the rest of the chain.\<close>

lemma process_repeated:
  assumes "processing_repeat_count k \<noteq> 0" "rec_keycode r \<noteq> 0"
  shows "process_repeating (Suc n) env r (k, w) = Some (rest_of_chain env (rec_keycode r) r (k, w))"
  using assms by (simp add: process_last_key_def process_repeat_key_def get_record_keycode_def)

lemmas process_repeating_step = process_repeating.simps(2)

declare process_repeating_step [simp del]

lemma process_last_key_frame:
  assumes "process_last_key env keycode r (k, w) = (r', k', w')"
  shows "w' = w" "processing_repeat_count k' = processing_repeat_count k" "registered_record k' = registered_record k"
    "registered_repeat_count k' = registered_repeat_count k" "alt_registered_record k' = alt_registered_record k"
    "alt_registered_repeat_count k' = alt_registered_repeat_count k"
  using assms by (auto simp: process_last_key_def set_last_record_def set_last_mods_def Let_def split: if_splits prod.splits)

text \<open>\<open>handed\<close>: the rest of the chain was given a record with this keycode and event.\<close>

definition handed :: "'w rk_env \<Rightarrow> u16 \<Rightarrow> keyevent \<Rightarrow> 'w \<Rightarrow> 'w \<Rightarrow> bool" where
  "handed env kc e w w' \<longleftrightarrow>
    (\<exists>r k. rec_keycode r = kc \<and> event r = e \<and> w' = snd (snd (rest_of_chain env kc r (k, w))))"

lemma repeat_press:
  assumes "keeps env" "rk_ok k" "rec_keycode (last_record k) = kc" "kc \<noteq> 0" "pressed e"
  shows "\<exists>k' w'. repeat_key_invoke (process_repeating (Suc n) env) env e (k, w) = Some (k', w') \<and> rk_ok k' \<and>
    rec_keycode (registered_record k') = kc \<and> handed env kc e (register_weak env (last_mods k) w) w'"
proof -
  let ?k1 = "update_last_repeat_count 1 k"
  define c where "c = last_repeat_count ?k1"
  define r where "r = (last_record k)\<lparr>event := e\<rparr>"
  define k2 where "k2 = ?k1\<lparr>registered_repeat_count := c, registered_record := r, processing_repeat_count := c\<rparr>"
  have c: "c \<noteq> 0" unfolding c_def by (rule count_not_zero) simp
  have r: "rec_keycode r = kc" "event r = e" using assms(3) by (simp_all add: r_def)
  obtain r' w' where rest: "rest_of_chain env kc r (k2, register_weak env (last_mods k) w) = (r', k2, w')"
    and r': "pressed (event r) \<Longrightarrow> rec_keycode r' = rec_keycode r"
    using keepsD [OF assms(1), of kc r k2 "register_weak env (last_mods k) w"] by blast
  have "process_repeating (Suc n) env r (k2, register_weak env (last_mods k) w) = Some (r', k2, w')"
    using process_repeated [of k2 r n env] r c assms(4) rest by (simp add: k2_def)
  then have "repeat_key_invoke (process_repeating (Suc n) env) env e (k, w) =
      Some (k2\<lparr>registered_record := r', processing_repeat_count := 0\<rparr>, w')"
    using assms(2-5) unfolding repeat_key_invoke_def k2_def r_def c_def
    by (simp add: rk_ok_def update_frame Let_def)
  moreover have "rk_ok (k2\<lparr>registered_record := r', processing_repeat_count := 0\<rparr>)"
    using assms(2) c by (simp add: rk_ok_def k2_def update_frame)
  moreover have "handed env kc e (register_weak env (last_mods k) w) w'"
    unfolding handed_def using r rest by (intro exI [of _ r] exI [of _ k2]) simp
  ultimately show ?thesis using r r' assms(5) by auto
qed

lemma repeat_release:
  assumes "keeps env" "rk_ok k" "rec_keycode (last_record k) \<noteq> 0" "rec_keycode (registered_record k) = kc" "kc \<noteq> 0" "\<not> pressed e"
  shows "\<exists>k' w1. repeat_key_invoke (process_repeating (Suc n) env) env e (k, w) = Some (k', unregister_weak env (last_mods k) w1) \<and>
    rk_ok k' \<and> handed env kc e w w1"
proof -
  define c where "c = registered_repeat_count k"
  define r where "r = (registered_record k)\<lparr>event := e\<rparr>"
  define k2 where "k2 = k\<lparr>registered_record := r, processing_repeat_count := c\<rparr>"
  have c: "c \<noteq> 0" using assms(2,4,5) by (simp add: c_def rk_ok_def)
  have r: "rec_keycode r = kc" "event r = e" using assms(4) by (simp_all add: r_def)
  obtain r' w' where rest: "rest_of_chain env kc r (k2, w) = (r', k2, w')" using keepsD [OF assms(1), of kc r k2 w] by blast
  have "process_repeating (Suc n) env r (k2, w) = Some (r', k2, w')"
    using process_repeated [of k2 r n env] r c assms(5) rest by (simp add: k2_def)
  then have "repeat_key_invoke (process_repeating (Suc n) env) env e (k, w) =
      Some (k2\<lparr>registered_record := r', processing_repeat_count := 0\<rparr>, unregister_weak env (last_mods k) w')"
    using assms(2-6) unfolding repeat_key_invoke_def k2_def r_def c_def
    by (simp add: rk_ok_def Let_def)
  moreover have "rk_ok (k2\<lparr>registered_record := r', processing_repeat_count := 0\<rparr>)"
    using assms(2) c by (simp add: rk_ok_def k2_def c_def)
  moreover have "handed env kc e w w'" unfolding handed_def using r rest by (intro exI [of _ r] exI [of _ k2]) simp
  ultimately show ?thesis by blast
qed

text \<open>The alternate repeat key always returns, and leaves what the repeat key has registered.\<close>

lemma alt_returns:
  assumes "keeps env" "rk_ok k"
  shows "\<exists>k' w'. alt_repeat_key_invoke (process_repeating (Suc n) env) env e (k, w) = Some (k', w') \<and> rk_ok k' \<and>
    rec_keycode (registered_record k') = rec_keycode (registered_record k)"
proof -
  define k1 where "k1 = (if pressed e then k\<lparr>alt_registered_record := empty_record\<lparr>rec_keycode := get_alt_repeat_key_keycode env k\<rparr>\<rparr> else k)"
  show ?thesis
  proof (cases "rec_keycode (alt_registered_record k1) = 0")
    case True
    then have "alt_repeat_key_invoke (process_repeating (Suc n) env) env e (k, w) = Some (k1, w)"
      using assms(2) unfolding alt_repeat_key_invoke_def k1_def [symmetric] by (simp add: rk_ok_def k1_def [symmetric])
    then show ?thesis using True assms(2) by (auto simp: rk_ok_def k1_def)
  next
    case False
    define k2 where "k2 = (if pressed e then (let k = update_last_repeat_count (-1) k1 in k\<lparr>alt_registered_repeat_count := last_repeat_count k\<rparr>) else k1)"
    define c where "c = alt_registered_repeat_count k2"
    define r where "r = (alt_registered_record k2)\<lparr>event := e\<rparr>"
    define k3 where "k3 = k2\<lparr>alt_registered_record := r, processing_repeat_count := c\<rparr>"
    have k2: "alt_registered_record k2 = alt_registered_record k1" "registered_record k2 = registered_record k"
      "registered_repeat_count k2 = registered_repeat_count k"
      by (simp_all add: k2_def k1_def update_frame Let_def)
    have c: "c \<noteq> 0" using False assms(2) count_not_zero [of "-1" k1] by (auto simp: c_def k2_def k1_def rk_ok_def Let_def)
    have r: "rec_keycode r \<noteq> 0" using False by (simp add: r_def k2)
    obtain r' w' where rest: "rest_of_chain env (rec_keycode r) r (k3, w) = (r', k3, w')"
      using keepsD [OF assms(1), of "rec_keycode r" r k3 w] by blast
    have "process_repeating (Suc n) env r (k3, w) = Some (r', k3, w')"
      using process_repeated [of k3 r n env] r c rest by (simp add: k3_def)
    then have "alt_repeat_key_invoke (process_repeating (Suc n) env) env e (k, w) =
        Some (k3\<lparr>alt_registered_record := r', processing_repeat_count := 0\<rparr>, w')"
      using assms(2) False
      unfolding alt_repeat_key_invoke_def prod.case k1_def [symmetric] Let_def [of k1] Let_def [of "if pressed e then _ else k1"]
        k2_def [symmetric] k3_def r_def c_def
      by (simp add: rk_ok_def Let_def)
    moreover have "rk_ok (k3\<lparr>alt_registered_record := r', processing_repeat_count := 0\<rparr>)"
      using assms(2) c k2 by (simp add: rk_ok_def k3_def c_def)
    ultimately show ?thesis using k2 by (simp add: k3_def)
  qed
qed

section \<open>Runs\<close>

fun run_records :: "nat \<Rightarrow> 'w rk_env \<Rightarrow> keyrecord list \<Rightarrow> rk_state \<times> 'w \<Rightarrow> (rk_state \<times> 'w) option" where
  "run_records n env [] s = Some s"
| "run_records n env (r # rs) s = do { (r, s) \<leftarrow> process_repeating n env r s; run_records n env rs s }"

text \<open>\<open>always e kc\<close>: the event has this keycode on every layer; \<open>other_key\<close>: it never has the one of the repeat key.\<close>

definition always :: "'w rk_env \<Rightarrow> keyrecord \<Rightarrow> u16 \<Rightarrow> bool" where
  "always env r kc \<longleftrightarrow> rec_keycode r = 0 \<and> (\<forall>w. event_keycode env (event r) w = kc)"

definition other_key :: "'w rk_env \<Rightarrow> keyrecord \<Rightarrow> bool" where
  "other_key env r \<longleftrightarrow> rec_keycode r = 0 \<and> (\<forall>w. event_keycode env (event r) w \<noteq> 0x7C79)"

lemma process_other_key:
  assumes "keeps env" "rk_ok k" "other_key env r"
  shows "\<exists>r' k' w'. process_repeating (Suc (Suc n)) env r (k, w) = Some (r', k', w') \<and> rk_ok k' \<and>
    rec_keycode (registered_record k') = rec_keycode (registered_record k)"
proof -
  let ?kc = "event_keycode env (event r) w"
  obtain r1 k1 where l: "process_last_key env ?kc r (k, w) = (r1, k1, w)"
    using process_last_key_frame(1) by (metis surj_pair)
  note f = process_last_key_frame [OF l]
  have k1: "rk_ok k1" "processing_repeat_count k1 = 0" using assms(2) f by (simp_all add: rk_ok_def)
  have kc: "get_record_keycode env r w = ?kc" "?kc \<noteq> 0x7C79" using assms(3) by (simp_all add: get_record_keycode_def other_key_def)
  show ?thesis
  proof (cases "\<not> NO_ALT_REPEAT_KEY env \<and> ?kc = 0x7C7A")
    case True
    obtain k' w' where "alt_repeat_key_invoke (process_repeating (Suc n) env) env (event r1) (k1, w) = Some (k', w')" "rk_ok k'"
      "rec_keycode (registered_record k') = rec_keycode (registered_record k1)"
      using alt_returns [OF assms(1) k1(1)] by blast
    then show ?thesis using kc True l k1 f(3)
      by (simp add: process_repeat_key_def process_repeating_step [of "Suc n"])
  next
    case False
    obtain r' w' where "rest_of_chain env ?kc r1 (k1, w) = (r', k1, w')" using keepsD [OF assms(1), of ?kc r1 k1 w] by blast
    then show ?thesis using kc False l k1 f(3)
      by (auto simp: process_repeat_key_def process_repeating_step [of "Suc n"])
  qed
qed

lemma run_other_keys:
  assumes "keeps env" "rk_ok k" "\<forall>r \<in> set rs. other_key env r"
  shows "\<exists>k' w'. run_records (Suc (Suc n)) env rs (k, w) = Some (k', w') \<and> rk_ok k' \<and>
    rec_keycode (registered_record k') = rec_keycode (registered_record k)"
  using assms(2,3)
proof (induction rs arbitrary: k w)
  case (Cons r rs)
  obtain r' k1 w1 where s: "process_repeating (Suc (Suc n)) env r (k, w) = Some (r', k1, w1)" "rk_ok k1"
    "rec_keycode (registered_record k1) = rec_keycode (registered_record k)"
    using process_other_key [OF assms(1) Cons.prems(1), where r = r and n = n and w = w] Cons.prems(2) by auto
  then show ?case using Cons.IH [OF s(2), of w1] Cons.prems(2) by simp
qed simp

lemma process_repeat_position:
  assumes "always env r 0x7C79" "rk_ok k"
  shows "process_repeating (Suc n) env r (k, w) =
    map_option (\<lambda>s. (r, s)) (repeat_key_invoke (process_repeating n env) env (event r) (k, w))"
proof -
  have kc: "get_record_keycode env r w = 0x7C79" using assms(1) by (simp add: get_record_keycode_def always_def)
  have "remember_last_key env 0x7C79 r m = (False, r, m)" for m by (simp add: remember_last_key_def)
  then have "process_last_key env 0x7C79 r (k, w) = (r, k, w)" by (simp add: process_last_key_def Let_def)
  then show ?thesis using kc assms(2)
    by (cases "repeat_key_invoke (process_repeating n env) env (event r) (k, w)") (simp_all add: process_repeating_step process_repeat_key_def rk_ok_def)
qed

section \<open>Where it fails\<close>

text \<open>
  When the repeat key goes down before any other key, nothing is registered. Its release, after another key, processes an
  empty record at the position of the repeat key itself: the call never returns.
\<close>

lemma release_without_press_never_returns:
  assumes "always env r 0x7C79" "\<not> pressed (event r)" "rec_keycode (last_record k) \<noteq> 0" "processing_repeat_count k = 0"
    and "rec_keycode (registered_record k) = 0" "registered_repeat_count k = 0"
  shows "process_repeating n env r (k, w) = None"
  using assms
proof (induction n arbitrary: k r)
  case (Suc n)
  let ?r = "(registered_record k)\<lparr>event := event r\<rparr>"
  have "process_repeating n env ?r (k\<lparr>registered_record := ?r, processing_repeat_count := 0\<rparr>, w) = None"
    by (rule Suc.IH) (use Suc.prems in \<open>simp_all add: always_def\<close>)
  then have "repeat_key_invoke (process_repeating n env) env (event r) (k, w) = None"
    using Suc.prems(2-6) by (simp add: repeat_key_invoke_def Let_def)
  moreover have "rk_ok k \<or> rec_keycode (alt_registered_record k) \<noteq> 0" using Suc.prems(4,5) by (simp add: rk_ok_def)
  moreover have "process_last_key env 0x7C79 r (k, w) = (r, k, w)" using Suc.prems(2) by (simp add: process_last_key_def)
  moreover have "get_record_keycode env r w = 0x7C79" using Suc.prems(1) by (simp add: get_record_keycode_def always_def)
  ultimately show ?case using Suc.prems(4) by (simp add: process_repeating_step process_repeat_key_def)
qed simp

text \<open>A press at a position without a key makes \<^verbatim>\<open>KC_NO\<close> the last key; then the release of the repeat key does nothing.\<close>

lemma no_key_is_remembered:
  assumes "always env r 0" "pressed (event r)" "rk_ok k" "remember_user env = None"
  shows "\<exists>k'. snd (process_last_key env 0 r (k, w)) = (k', w) \<and> rec_keycode (last_record k') = 0"
  using assms
  by (auto simp: process_last_key_def remember_last_key_def rk_ok_def set_last_mods_def set_last_record_def Let_def
      IS_QK_MOMENTARY_def IS_QK_TO_def IS_QK_TOGGLE_LAYER_def IS_QK_LAYER_TAP_TOGGLE_def IS_QK_ONE_SHOT_LAYER_def
      IS_QK_ONE_SHOT_MOD_def IS_QK_MOD_TAP_def IS_QK_LAYER_TAP_def IS_QK_SWAP_HANDS_def)

lemma release_dropped_after_no_key:
  assumes "always env r 0x7C79" "rk_ok k" "rec_keycode (last_record k) = 0"
  shows "process_repeating (Suc n) env r (k, w) = Some (r, k, w)"
  using assms by (simp add: process_repeat_position repeat_key_invoke_def)

section \<open>Properties\<close>

text \<open>
  C21: after a press of the repeat key, which processes the last key, any other keys may be pressed and released, the
  alternate repeat key among them, and every call returns; the release of the repeat key then processes the
  release of the key that its press processed, unless no last key is left.
\<close>

theorem repeat_release_matches_press:
  assumes "keeps env" "rk_ok k" "rec_keycode (last_record k) = kc" "kc \<noteq> 0"
    and "always env p 0x7C79" "pressed (event p)" "always env q 0x7C79" "\<not> pressed (event q)"
    and "\<forall>r \<in> set rs. other_key env r"
  shows "\<exists>k1 w1 k2 w2. process_repeating (n + 2) env p (k, w) = Some (p, k1, w1) \<and>
    handed env kc (event p) (register_weak env (last_mods k) w) w1 \<and>
    run_records (n + 2) env rs (k1, w1) = Some (k2, w2) \<and> rk_ok k2 \<and>
    (rec_keycode (last_record k2) \<noteq> 0 \<longrightarrow>
      (\<exists>k3 w3. process_repeating (n + 2) env q (k2, w2) = Some (q, k3, unregister_weak env (last_mods k2) w3) \<and> rk_ok k3 \<and>
        handed env kc (event q) w2 w3))"
proof -
  obtain k1 w1 where p: "repeat_key_invoke (process_repeating (Suc n) env) env (event p) (k, w) = Some (k1, w1)" "rk_ok k1"
    "rec_keycode (registered_record k1) = kc" "handed env kc (event p) (register_weak env (last_mods k) w) w1"
    using repeat_press [OF assms(1-4,6)] by blast
  obtain k2 w2 where rs: "run_records (Suc (Suc n)) env rs (k1, w1) = Some (k2, w2)" "rk_ok k2" "rec_keycode (registered_record k2) = kc"
    using run_other_keys [OF assms(1) p(2) assms(9)] p(3) by metis
  have q: "\<exists>k3 w3. repeat_key_invoke (process_repeating (Suc n) env) env (event q) (k2, w2) = Some (k3, unregister_weak env (last_mods k2) w3) \<and>
      rk_ok k3 \<and> handed env kc (event q) w2 w3" if "rec_keycode (last_record k2) \<noteq> 0"
    by (rule repeat_release [OF assms(1) rs(2) that rs(3) assms(4,8)])
  have "process_repeating (n + 2) env p (k, w) = Some (p, k1, w1)"
    using process_repeat_position [OF assms(5,2), of "Suc n" w] p(1) by simp
  moreover have "\<exists>k3 w3. process_repeating (n + 2) env q (k2, w2) = Some (q, k3, unregister_weak env (last_mods k2) w3) \<and> rk_ok k3 \<and>
      handed env kc (event q) w2 w3" if "rec_keycode (last_record k2) \<noteq> 0"
    using q [OF that] process_repeat_position [OF assms(7) rs(2), of "Suc n" w2] by auto
  ultimately show ?thesis using p(4) rs(1,2) by (intro exI conjI) auto
qed

text \<open>A keyboard that keeps a log of what reaches the rest of the chain; the column of a key is its keycode, one is the repeat key.\<close>

definition log_env :: "(u16 \<times> bool) list rk_env" where
  "log_env = \<lparr>RK_NO_ACTION_TAPPING = False, RK_NO_ACTION_LAYER = False, RK_NO_ACTION_ONESHOT = False, RK_SWAP_HANDS_ENABLE = False,
     TRI_LAYER_ENABLE = False, NO_ALT_REPEAT_KEY = False, RK_EXTRAKEY_ENABLE = True, RK_MOUSEKEY_ENABLE = True,
     read_mods = (\<lambda>_. 0), read_weak_mods = (\<lambda>_. 0), read_oneshot_mods = (\<lambda>_. 0), register_weak = (\<lambda>_ w. w), unregister_weak = (\<lambda>_ w. w),
     event_keycode = (\<lambda>e _. if col (key e) = 1 then 0x7C79 else ucast (col (key e))),
     rest_of_chain = (\<lambda>kc r (k, w). (r, k, w @ [(kc, pressed (event r))])), remember_user = None, alt_keycode_user = None\<rparr>"

definition at :: "u8 \<Rightarrow> bool \<Rightarrow> keyrecord" where
  "at c b = empty_record\<lparr>event := \<lparr>key = \<lparr>col = c, row = 0\<rparr>, event_time = 0, event_type = KEY_EVENT, pressed = b\<rparr>\<rparr>"

lemma log_env_keeps: "keeps log_env"
  by (simp add: keeps_def log_env_def)

text \<open>The keyboard has typed A; while the repeat key is held, B is typed.\<close>

lemma log_env_calls:
  "register_weak log_env m w = w" "unregister_weak log_env m w = w" "rest_of_chain log_env kc r (k, w) = (r, k, w @ [(kc, pressed (event r))])"
  by (simp_all add: log_env_def)

lemma repeat_release_matches_press_witness:
  "\<exists>k1 k2 w2. process_repeating 2 log_env (at 1 True) (rk_init\<lparr>last_record := empty_record\<lparr>rec_keycode := 4\<rparr>\<rparr>, []) =
      Some (at 1 True, k1, [(4, True)]) \<and>
    run_records 2 log_env [at 5 True, at 5 False] (k1, [(4, True)]) = Some (k2, w2)"
proof -
  have pre: "rk_ok (rk_init\<lparr>last_record := empty_record\<lparr>rec_keycode := 4\<rparr>\<rparr>)" "always log_env (at 1 b) 0x7C79"
    "pressed (event (at 1 True))" "\<not> pressed (event (at 1 False))" "\<forall>r \<in> set [at 5 True, at 5 False]. other_key log_env r"
    "rec_keycode (last_record (rk_init\<lparr>last_record := empty_record\<lparr>rec_keycode := 4\<rparr>\<rparr>)) = 4" "(4 :: u16) \<noteq> 0" for b
    by (simp_all add: rk_ok_def rk_init_def always_def other_key_def at_def log_env_def empty_record_def)
  obtain k1 w1 k2 w2 where r: "process_repeating (0 + 2) log_env (at 1 True) (rk_init\<lparr>last_record := empty_record\<lparr>rec_keycode := 4\<rparr>\<rparr>, []) = Some (at 1 True, k1, w1)"
    "handed log_env 4 (event (at 1 True)) [] w1" "run_records (0 + 2) log_env [at 5 True, at 5 False] (k1, w1) = Some (k2, w2)"
    using repeat_release_matches_press [OF log_env_keeps pre(1,6,7,2,3,2,4,5), of 0 "[]"] unfolding log_env_calls(1) by blast
  then have "w1 = [(4, True)]" by (auto simp: handed_def log_env_calls pre(3))
  then show ?thesis using r unfolding add_0 by blast
qed

end
