(* ===== verification/KeyOverride.thy ===== *)
theory KeyOverride
  imports Quantum KeyEvent
begin

text \<open>
  Key overrides (\<^verbatim>\<open>quantum/process_keycode/process_key_override.c\<close>): a key pressed with certain modifiers is replaced by
  another one while they are down.
\<close>

unbundle bit_operations_syntax

section \<open>Overrides, options and state\<close>

text \<open>
  A custom action acts on the keyboard and tells whether the replacement is registered; \<open>ko_enabled\<close> reads the flag that
  an override may point to. An override is known by its index in the array, which holds each one once.
  \<open>neutralizer\<close> is the dummy keycode and the modifiers it neutralises, where the build has one.
\<close>

record 'l key_override =
  trigger :: u16
  trigger_mods :: u8
  ko_layers :: u32
  negative_mod_mask :: u8
  ko_suppressed :: u8
  replacement :: u16
  options :: u8
  custom_action :: "(bool \<Rightarrow> 'l action_state \<Rightarrow> bool \<times> 'l action_state) option"
  ko_enabled :: "('l action_state \<Rightarrow> bool) option"

record 'l ko_cfg =
  ko_acfg :: "'l action_cfg"
  key_overrides :: "'l key_override list"
  KEY_OVERRIDE_REPEAT_DELAY :: u32
  KEY_OVERRIDE_INCLUDE_WEAK_MODS :: bool
  SAFE_RANGE :: u16
  ko_neutralizer :: "(u8 \<times> u8 list) option"

record 'l ko_state =
  active_override :: "nat option"
  active_override_trigger_is_down :: bool
  last_key_down :: u16
  last_key_down_time :: u32
  defer_reference_time :: u32
  defer_delay :: u32
  deferred_register :: u16
  ko_on :: bool
  kb :: "'l action_state"

definition ko_init :: "'l action_state \<Rightarrow> 'l ko_state" where
  "ko_init a = \<lparr>active_override = None, active_override_trigger_is_down = False, last_key_down = 0, last_key_down_time = 0,
     defer_reference_time = 0, defer_delay = 0, deferred_register = 0, ko_on = True, kb = a\<rparr>"

definition on_kb :: "('l action_state \<Rightarrow> 'l action_state) \<Rightarrow> 'l ko_state \<Rightarrow> 'l ko_state" where
  "on_kb f s = s\<lparr>kb := f (kb s)\<rparr>"

definition clear_mods_from :: "u16 \<Rightarrow> u16" where
  "clear_mods_from keycode = (if IS_QK_MODS keycode then keycode AND NOT 0x1F00 else keycode)"

definition basic16 :: "u16 \<Rightarrow> bool" where
  "basic16 code \<longleftrightarrow> 0x04 \<le> code \<and> code \<le> 0xA4"

section \<open>Matching\<close>

definition key_override_matches_active_modifiers :: "'l key_override \<Rightarrow> u8 \<Rightarrow> bool" where
  "key_override_matches_active_modifiers ov mods =
    (if negative_mod_mask ov AND mods \<noteq> 0 then False
     else if trigger_mods ov = 0 then True
     else if bit (options ov) 3 then trigger_mods ov AND mods \<noteq> 0
     else
       (let required = (trigger_mods ov AND 0x0F) OR drop_bit 4 (trigger_mods ov);
            active = trigger_mods ov AND mods;
            one_sided = (active AND 0x0F) OR drop_bit 4 active
        in one_sided = required))"

definition check_activation_event :: "'l key_override \<Rightarrow> bool \<Rightarrow> bool \<Rightarrow> bool" where
  "check_activation_event ov key_down is_mod =
    (let opts = (if options ov AND 0x07 = 0 then 0x07 else options ov) in
     if is_mod then (if key_down then bit opts 1 else bit opts 2) else (if key_down then bit opts 0 else False))"

section \<open>Deactivation\<close>

definition schedule_deferred_register :: "'l ko_cfg \<Rightarrow> u32 \<Rightarrow> u16 \<Rightarrow> 'l ko_state \<Rightarrow> 'l ko_state" where
  "schedule_deferred_register c t keycode s =
    (if t - last_key_down_time s < KEY_OVERRIDE_REPEAT_DELAY c
     then s\<lparr>defer_reference_time := last_key_down_time s, defer_delay := KEY_OVERRIDE_REPEAT_DELAY c, deferred_register := keycode\<rparr>
     else s\<lparr>defer_reference_time := t, defer_delay := 50, deferred_register := keycode\<rparr>)"

text \<open>The result of a custom action and the decision so far.\<close>

definition ask_custom :: "'l key_override \<Rightarrow> bool \<Rightarrow> bool \<Rightarrow> 'l action_state \<Rightarrow> bool \<times> 'l action_state" where
  "ask_custom ov activated decided k =
    (case custom_action ov of Some f \<Rightarrow> (case f activated k of (b, k) \<Rightarrow> (decided \<and> b, k)) | None \<Rightarrow> (decided, k))"

text \<open>The code of the replacement is 8 bits wide here.\<close>

definition clear_active_override :: "'l ko_cfg \<Rightarrow> u32 \<Rightarrow> bool \<Rightarrow> 'l ko_state \<Rightarrow> 'l ko_state" where
  "clear_active_override c t allow_reregister s =
    (case active_override s of
       None \<Rightarrow> s
     | Some i \<Rightarrow>
         (let cfg = ko_acfg c; ov = key_overrides c ! i;
              s = on_kb (\<lambda>k. clear_weak_override_mods (clear_suppressed_override_mods k)) (s\<lparr>deferred_register := 0\<rparr>);
              code = (ucast (clear_mods_from (replacement ov)) :: u8);
              (unregister, k) = ask_custom ov False (code \<noteq> 0 \<and> ucast code < SAFE_RANGE c) (kb s);
              k = (if unregister then (if IS_BASIC_KEYCODE code then del_key cfg code k
                                       else unregister_code cfg code (send_keyboard_report cfg k)) else k);
              s = s\<lparr>kb := k\<rparr>;
              s = (if allow_reregister \<and> \<not> bit (options ov) 4 \<and> active_override_trigger_is_down s \<and> trigger ov \<noteq> 0 \<and>
                      trigger ov < SAFE_RANGE c
                   then schedule_deferred_register c t (trigger ov) s else s)
          in (on_kb (send_keyboard_report cfg) s)\<lparr>active_override := None, active_override_trigger_is_down := False\<rparr>))"

definition key_override_on :: "'l ko_state \<Rightarrow> 'l ko_state" where
  "key_override_on s = s\<lparr>ko_on := True\<rparr>"

definition key_override_off :: "'l ko_cfg \<Rightarrow> u32 \<Rightarrow> 'l ko_state \<Rightarrow> 'l ko_state" where
  "key_override_off c t s = clear_active_override c t False (s\<lparr>ko_on := False\<rparr>)"

definition key_override_toggle :: "'l ko_cfg \<Rightarrow> u32 \<Rightarrow> 'l ko_state \<Rightarrow> 'l ko_state" where
  "key_override_toggle c t s = (if ko_on s then key_override_off c t s else key_override_on s)"

section \<open>Activation\<close>

text \<open>The guards of the loop, in their order.\<close>

definition may_activate :: "'l ko_cfg \<Rightarrow> u16 \<Rightarrow> nat \<Rightarrow> bool \<Rightarrow> bool \<Rightarrow> u8 \<Rightarrow> 'l ko_state \<Rightarrow> nat \<Rightarrow> bool" where
  "may_activate c keycode layer key_down is_mod active_mods s i =
    (let ov = key_overrides c ! i in
     if active_mods = 0 \<and> trigger_mods ov \<noteq> 0 then False
     else if \<not> bit (ko_layers ov) layer then False
     else if \<not> check_activation_event ov key_down is_mod then False
     else if trigger ov = keycode \<and> \<not> key_down then False
     else if active_override s = Some i then False
     else if (case ko_enabled ov of Some p \<Rightarrow> \<not> p (kb s) | None \<Rightarrow> False) then False
     else if \<not> key_override_matches_active_modifiers ov active_mods then False
     else trigger ov = 0 \<or> trigger ov = keycode \<and> key_down \<or> last_key_down s = trigger ov)"

definition activate :: "'l ko_cfg \<Rightarrow> u32 \<Rightarrow> u16 \<Rightarrow> bool \<Rightarrow> bool \<Rightarrow> u8 \<Rightarrow> nat \<Rightarrow> 'l ko_state \<Rightarrow> 'l ko_state" where
  "activate c t keycode key_down is_mod active_mods i s =
    (let cfg = ko_acfg c; ov = key_overrides c ! i; trigger_down = (trigger ov = keycode \<and> key_down);
         s = clear_active_override c t False s;
         s = on_kb (\<lambda>k. case ko_neutralizer c of
               Some (dummy, ms) \<Rightarrow> neutralize_flashing_modifiers cfg dummy ms active_mods k | None \<Rightarrow> k) s;
         s = s\<lparr>active_override := Some i, active_override_trigger_is_down := True\<rparr>;
         s = on_kb (set_suppressed_override_mods (ko_suppressed ov)) s;
         s = (if \<not> trigger_down \<and> trigger ov \<noteq> 0
              then on_kb (if basic16 (trigger ov) then del_key cfg (ucast (trigger ov)) else unregister_code cfg (ucast (trigger ov))) s
              else s);
         code = clear_mods_from (replacement ov);
         (register, k) = ask_custom ov True (code \<noteq> 0 \<and> code < SAFE_RANGE c) (kb s);
         s = s\<lparr>kb := k\<rparr>
     in if register then
          (let s = on_kb (set_weak_override_mods (extract_mod_bits (replacement ov))) s in
           if is_mod then on_kb (send_keyboard_report cfg) (schedule_deferred_register c t code s)
           else if basic16 code then on_kb (add_key cfg (ucast code)) s
           else on_kb (\<lambda>k. register_code cfg (ucast code) (wait_ms 10 (send_keyboard_report cfg k))) s)
        else on_kb (send_keyboard_report cfg) s)"

text \<open>The result: whether the action of the key is sent, and whether an override was activated.\<close>

definition try_activating_override ::
    "'l ko_cfg \<Rightarrow> u32 \<Rightarrow> u16 \<Rightarrow> nat \<Rightarrow> bool \<Rightarrow> bool \<Rightarrow> u8 \<Rightarrow> 'l ko_state \<Rightarrow> bool \<times> bool \<times> 'l ko_state" where
  "try_activating_override c t keycode layer key_down is_mod active_mods s =
    (case filter (may_activate c keycode layer key_down is_mod active_mods s) [0..<length (key_overrides c)] of
       [] \<Rightarrow> (True, False, s)
     | i # _ \<Rightarrow> (\<not> (trigger (key_overrides c ! i) = keycode \<and> key_down), True,
                 activate c t keycode key_down is_mod active_mods i s))"

section \<open>Handler and task\<close>

definition key_override_task :: "'l ko_cfg \<Rightarrow> u32 \<Rightarrow> 'l ko_state \<Rightarrow> 'l ko_state" where
  "key_override_task c t s =
    (if deferred_register s = 0 then s
     else if t - defer_reference_time s \<ge> defer_delay s
     then (on_kb (register_code16 (ko_acfg c) (deferred_register s)) s)
       \<lparr>deferred_register := 0, defer_reference_time := 0, defer_delay := 0\<rparr>
     else s)"

definition is_mod16 :: "u16 \<Rightarrow> bool" where
  "is_mod16 keycode \<longleftrightarrow> 0xE0 \<le> keycode \<and> keycode \<le> 0xE7"

text \<open>The modifiers as they are after this event.\<close>

definition effective_mods :: "'l ko_cfg \<Rightarrow> u16 \<Rightarrow> bool \<Rightarrow> 'l action_state \<Rightarrow> u8" where
  "effective_mods c keycode key_down k =
    (let m = real_mods k;
         m = (if KEY_OVERRIDE_INCLUDE_WEAK_MODS c then m OR weak_mods k else m);
         m = (if NO_ACTION_ONESHOT (ko_acfg c) then m else m OR (oneshot_locked_mods k OR oneshot_mods k))
     in if is_mod16 keycode then (if key_down then m OR MOD_BIT (ucast keycode) else m AND NOT (MOD_BIT (ucast keycode))) else m)"

definition note_key :: "u32 \<Rightarrow> u16 \<Rightarrow> bool \<Rightarrow> 'l ko_state \<Rightarrow> 'l ko_state" where
  "note_key t keycode key_down s =
    (if is_mod16 keycode then s
     else if key_down then s\<lparr>last_key_down := keycode, last_key_down_time := t, deferred_register := 0\<rparr>
     else if keycode = last_key_down s then s\<lparr>last_key_down := 0, last_key_down_time := 0, deferred_register := 0\<rparr>
     else s)"

text \<open>An override that was not activated by this event may end with it.\<close>

definition check_deactivation :: "'l ko_cfg \<Rightarrow> u32 \<Rightarrow> u16 \<Rightarrow> bool \<Rightarrow> u8 \<Rightarrow> 'l ko_state \<Rightarrow> 'l ko_state" where
  "check_deactivation c t keycode key_down mods s =
    (case active_override s of
       None \<Rightarrow> s
     | Some i \<Rightarrow>
         (let ov = key_overrides c ! i in
          if is_mod16 keycode then
            (if \<not> key_override_matches_active_modifiers ov mods then clear_active_override c t True s else s)
          else
            (let up = (keycode = trigger ov \<and> \<not> key_down);
                 s = (if up then s\<lparr>active_override_trigger_is_down := False\<rparr> else s)
             in if up \<or> key_down \<and> \<not> bit (options ov) 5 then clear_active_override c t False s else s)))"

text \<open>\<open>layer\<close> is what \<^verbatim>\<open>read_source_layers_cache\<close> returns for the key.\<close>

definition process_key_override :: "'l ko_cfg \<Rightarrow> u32 \<Rightarrow> nat \<Rightarrow> u16 \<Rightarrow> keyrecord \<Rightarrow> 'l ko_state \<Rightarrow> bool \<times> 'l ko_state" where
  "process_key_override c t layer keycode r s =
    (let key_down = pressed (event r); is_mod = is_mod16 keycode in
     if key_down \<and> keycode = 0x7C5D then (False, key_override_toggle c t s)
     else if key_down \<and> keycode = 0x7C5E then (False, key_override_on s)
     else if key_down \<and> keycode = 0x7C5F then (False, key_override_off c t s)
     else if \<not> ko_on s then (True, s)
     else
       (let mods = effective_mods c keycode key_down (kb s);
            s = note_key t keycode key_down s;
            (send, activated, s) =
              (if is_mod \<or> key_down
               then (case try_activating_override c t keycode layer key_down is_mod mods s of
                       (send, activated, s) \<Rightarrow> (send, activated, if \<not> send then on_kb (send_keyboard_report (ko_acfg c)) s else s))
               else (True, False, s))
        in (send, if \<not> activated then check_deactivation c t keycode key_down mods s else s)))"

end
