(* ===== verification/ReportFrames.thy ===== *)
theory ReportFrames
  imports ActionProps
begin

text \<open>
  Frames: the operations on the keys of a report leave all of the action state alone but the report.
\<close>

lemma more_of_keys:
  "report_state.more (add_key_bit c s) = report_state.more s"
  "report_state.more (del_key_bit c s) = report_state.more s"
  "report_state.more (add_key_byte_plain c s) = report_state.more s"
  "report_state.more (del_key_byte_plain c s) = report_state.more s"
  "report_state.more (ring_append c s) = report_state.more s"
  "report_state.more (del_key_byte_ring c s) = report_state.more s"
proof -
  show "report_state.more (add_key_bit c s) = report_state.more s" by (simp add: add_key_bit_def Let_def)
  show "report_state.more (del_key_bit c s) = report_state.more s" by (simp add: del_key_bit_def Let_def)
  show "report_state.more (add_key_byte_plain c s) = report_state.more s" by (simp add: add_key_byte_plain_def split: sum.split option.split)
  show "report_state.more (del_key_byte_plain c s) = report_state.more s" by (simp add: del_key_byte_plain_def)
  show "report_state.more (ring_append c s) = report_state.more s" by (simp add: ring_append_def)
  show "report_state.more (del_key_byte_ring c s) = report_state.more s" by (simp add: del_key_byte_ring_def Let_def split: option.split)
qed

lemma more_of_ring: "report_state.more (add_key_byte_ring c s) = report_state.more s"
  by (simp add: add_key_byte_ring_def more_of_keys split: option.split prod.split)

lemma more_of_report:
  "report_state.more (add_key cfg c s) = report_state.more s" "report_state.more (del_key cfg c s) = report_state.more s"
  by (simp_all add: add_key_def del_key_def add_key_to_report_def del_key_from_report_def add_key_byte_def del_key_byte_def
      more_of_keys more_of_ring)

end
