(* ===== verification/KeyOverrideProps.thy ===== *)
theory KeyOverrideProps
  imports KeyOverride ReportFrames
begin

text \<open>
  Key overrides: what it means that modifiers match, an invariant of all reachable states, and the replacement that the
  host sees in place of the trigger.
\<close>

unbundle bit_operations_syntax

section \<open>Matching modifiers\<close>

lemma zero_bits: "(a :: 'a::len word) = 0 \<longleftrightarrow> (\<forall>i < LENGTH('a). \<not> bit a i)"
  by (auto simp: bit_eq_iff dest: bit_imp_le_length)

lemma one_sided_eq:
  fixes tm mods :: u8
  shows "(((tm AND mods) AND 0x0F) OR drop_bit 4 (tm AND mods)) = ((tm AND 0x0F) OR drop_bit 4 tm) \<longleftrightarrow>
    (\<forall>i < 4. bit tm i \<or> bit tm (i + 4) \<longrightarrow> bit tm i \<and> bit mods i \<or> bit tm (i + 4) \<and> bit mods (i + 4))"
proof -
  have b: "bit ((x AND 0x0F) OR drop_bit 4 x) i \<longleftrightarrow> i < 4 \<and> (bit x i \<or> bit x (i + 4))" for x :: u8 and i
  proof -
    have "bit x (i + 4) \<Longrightarrow> i < 4" using bit_imp_le_length [of x "i + 4"] by simp
    then show ?thesis unfolding bit_or_iff bit_and_iff bit_drop_bit_eq comp_def bit_low_masks by (auto simp: add.commute [of 4])
  qed
  have e: "(\<forall>n < 8. (n < 4 \<and> p n) = (n < 4 \<and> q n)) \<longleftrightarrow> (\<forall>n < 4. p n = q n)" for p q :: "nat \<Rightarrow> bool"
  proof -
    have "n < 8" if "n < 4" for n :: nat using that by simp
    then show ?thesis by metis
  qed
  show ?thesis unfolding bit_eq_iff b by (simp add: e bit_and_iff) blast
qed

text \<open>
  No excluded modifier is down; and one, or of each required modifier a required side, is down.
\<close>

lemma mods_match:
  "key_override_matches_active_modifiers ov mods \<longleftrightarrow>
    (\<forall>i < 8. \<not> (bit (negative_mod_mask ov) i \<and> bit mods i)) \<and>
    (trigger_mods ov = 0 \<or>
     (if bit (options ov) 3 then \<exists>i < 8. bit (trigger_mods ov) i \<and> bit mods i
      else \<forall>i < 4. bit (trigger_mods ov) i \<or> bit (trigger_mods ov) (i + 4) \<longrightarrow>
        bit (trigger_mods ov) i \<and> bit mods i \<or> bit (trigger_mods ov) (i + 4) \<and> bit mods (i + 4)))"
proof -
  have n: "(negative_mod_mask ov AND mods = 0) = (\<forall>i < 8. \<not> (bit (negative_mod_mask ov) i \<and> bit mods i))"
    "(trigger_mods ov AND mods = 0) = (\<forall>i < 8. \<not> (bit (trigger_mods ov) i \<and> bit mods i))"
    by (simp_all add: zero_bits bit_and_iff)
  show ?thesis
    unfolding key_override_matches_active_modifiers_def Let_def
    using one_sided_eq [of "trigger_mods ov" mods] n by (auto simp: ac_simps)
qed

section \<open>Overridden modifiers\<close>

text \<open>What registers keys and sends reports leaves the suppressed and the added modifiers alone.\<close>

definition keeps_override :: "('l action_state \<Rightarrow> 'l action_state) \<Rightarrow> bool" where
  "keeps_override f \<longleftrightarrow> (\<forall>s. suppressed_mods (f s) = suppressed_mods s \<and> weak_override_mods (f s) = weak_override_mods s)"

named_theorems override_frames

lemma keeps_overrideI: "(\<And>s. suppressed_mods (f s) = suppressed_mods s) \<Longrightarrow> (\<And>s. weak_override_mods (f s) = weak_override_mods s) \<Longrightarrow> keeps_override f"
  by (simp add: keeps_override_def)

lemma keeps_emit [override_frames]:
  "suppressed_mods (emit m s) = suppressed_mods s" "weak_override_mods (emit m s) = weak_override_mods s"
  by (simp_all add: emit_def)

lemma keeps_host [override_frames]:
  "suppressed_mods (host_keyboard_send cfg s) = suppressed_mods s" "weak_override_mods (host_keyboard_send cfg s) = weak_override_mods s"
  "suppressed_mods (host_nkro_send cfg s) = suppressed_mods s" "weak_override_mods (host_nkro_send cfg s) = weak_override_mods s"
  by (simp_all add: host_keyboard_send_def host_nkro_send_def override_frames)

lemma keeps_clear [override_frames]:
  "suppressed_mods (clear_oneshot_mods cfg s) = suppressed_mods s" "weak_override_mods (clear_oneshot_mods cfg s) = weak_override_mods s"
  by (simp_all add: clear_oneshot_mods_def stamp_oneshot_def override_frames)

lemma keeps_get_mods:
  assumes "get_mods_for_report cfg s = (m, s')"
  shows "suppressed_mods s' = suppressed_mods s" "weak_override_mods s' = weak_override_mods s"
proof -
  have "s' \<in> {s, clear_oneshot_mods cfg s, clear_oneshot_mods cfg (clear_oneshot_mods cfg s)}"
    using assms by (auto simp: get_mods_for_report_def Let_def split: if_splits)
  then show "suppressed_mods s' = suppressed_mods s" "weak_override_mods s' = weak_override_mods s"
    by (auto simp: override_frames)
qed

lemma keeps_send [override_frames]:
  "suppressed_mods (send_keyboard_report cfg s) = suppressed_mods s"
  "weak_override_mods (send_keyboard_report cfg s) = weak_override_mods s"
proof -
  obtain m s' where g: "get_mods_for_report cfg s = (m, s')" by force
  show "suppressed_mods (send_keyboard_report cfg s) = suppressed_mods s"
    "weak_override_mods (send_keyboard_report cfg s) = weak_override_mods s"
    by (simp_all add: send_keyboard_report_def send_nkro_report_def send_6kro_report_def g Let_def override_frames keeps_get_mods [OF g])
qed

lemma override_of_more:
  fixes s s' :: "'l action_state"
  assumes "report_state.more s' = report_state.more s"
  shows "suppressed_mods s' = suppressed_mods s" "weak_override_mods s' = weak_override_mods s"
  using assms by (cases s; cases s'; simp)+

lemma keeps_keys [override_frames]:
  fixes s :: "'l action_state"
  shows "suppressed_mods (add_key cfg c s) = suppressed_mods s" "weak_override_mods (add_key cfg c s) = weak_override_mods s"
    "suppressed_mods (del_key cfg c s) = suppressed_mods s" "weak_override_mods (del_key cfg c s) = weak_override_mods s"
  by (rule override_of_more, rule more_of_report)+

lemma keeps_small [override_frames]:
  "suppressed_mods (wait_ms d s) = suppressed_mods s" "weak_override_mods (wait_ms d s) = weak_override_mods s"
  "suppressed_mods (add_mods b s) = suppressed_mods s" "weak_override_mods (add_mods b s) = weak_override_mods s"
  "suppressed_mods (del_mods b s) = suppressed_mods s" "weak_override_mods (del_mods b s) = weak_override_mods s"
  "suppressed_mods (add_weak_mods b s) = suppressed_mods s" "weak_override_mods (add_weak_mods b s) = weak_override_mods s"
  "suppressed_mods (host_system_send cfg u s) = suppressed_mods s" "weak_override_mods (host_system_send cfg u s) = weak_override_mods s"
  "suppressed_mods (host_consumer_send cfg u s) = suppressed_mods s" "weak_override_mods (host_consumer_send cfg u s) = weak_override_mods s"
  by (simp_all add: wait_ms_def add_mods_def del_mods_def add_weak_mods_def host_system_send_def host_consumer_send_def override_frames Let_def)

lemma keeps_codes [override_frames]:
  "suppressed_mods (register_code cfg c s) = suppressed_mods s" "weak_override_mods (register_code cfg c s) = weak_override_mods s"
  "suppressed_mods (unregister_code cfg c s) = suppressed_mods s" "weak_override_mods (unregister_code cfg c s) = weak_override_mods s"
  by (simp_all add: register_code_def unregister_code_def tap_lock_def override_frames Let_def split: option.split)

lemma keeps_tap [override_frames]:
  "suppressed_mods (tap_code cfg c s) = suppressed_mods s" "weak_override_mods (tap_code cfg c s) = weak_override_mods s"
  by (simp_all add: tap_code_def tap_code_delay_def override_frames)

lemma keeps_code16 [override_frames]:
  "suppressed_mods (register_code16 cfg c s) = suppressed_mods s" "weak_override_mods (register_code16 cfg c s) = weak_override_mods s"
  by (simp_all add: register_code16_def do_code16_def register_mods_def register_weak_mods_def override_frames)

lemma keeps_neutralizer [override_frames]:
  "suppressed_mods (neutralize_flashing_modifiers cfg d ms a s) = suppressed_mods s"
  "weak_override_mods (neutralize_flashing_modifiers cfg d ms a s) = weak_override_mods s"
  by (induction ms) (simp_all add: override_frames)

section \<open>Reachable states\<close>

text \<open>Overrides without custom actions.\<close>

definition plain_overrides :: "'l ko_cfg \<Rightarrow> bool" where
  "plain_overrides c \<longleftrightarrow> (\<forall>ov \<in> set (key_overrides c). custom_action ov = None)"

definition added_mods :: "'l ko_cfg \<Rightarrow> 'l key_override \<Rightarrow> u8" where
  "added_mods c ov =
    (let code = clear_mods_from (replacement ov) in
     if code \<noteq> 0 \<and> code < SAFE_RANGE c then extract_mod_bits (replacement ov) else 0)"

text \<open>Modifiers are suppressed and added exactly as the active override has it.\<close>

definition ko_ok :: "'l ko_cfg \<Rightarrow> 'l ko_state \<Rightarrow> bool" where
  "ko_ok c s \<longleftrightarrow>
    (case active_override s of
       None \<Rightarrow> suppressed_mods (kb s) = 0 \<and> weak_override_mods (kb s) = 0
     | Some i \<Rightarrow> i < length (key_overrides c) \<and> suppressed_mods (kb s) = ko_suppressed (key_overrides c ! i) \<and>
         weak_override_mods (kb s) = added_mods c (key_overrides c ! i))"

inductive ko_reach :: "'l ko_cfg \<Rightarrow> 'l ko_state \<Rightarrow> bool" for c where
  start: "suppressed_mods a = 0 \<Longrightarrow> weak_override_mods a = 0 \<Longrightarrow> ko_reach c (ko_init a)"
| event: "ko_reach c s \<Longrightarrow> ko_reach c (snd (process_key_override c t layer keycode r s))"
| task: "ko_reach c s \<Longrightarrow> ko_reach c (key_override_task c t s)"
| other: "ko_reach c s \<Longrightarrow> keeps_override f \<Longrightarrow> ko_reach c (on_kb f s)"

lemma ask_plain: "plain_overrides c \<Longrightarrow> i < length (key_overrides c) \<Longrightarrow> ask_custom (key_overrides c ! i) b d k = (d, k)"
  by (simp add: ask_custom_def plain_overrides_def)

lemma clear_ok:
  assumes "plain_overrides c" "ko_ok c s"
  shows "ko_ok c (clear_active_override c t allow s)" "active_override (clear_active_override c t allow s) = None"
proof -
  have "ko_ok c (clear_active_override c t allow s) \<and> active_override (clear_active_override c t allow s) = None"
  proof (cases "active_override s")
    case None
    then show ?thesis using assms(2) by (simp add: clear_active_override_def)
  next
    case (Some i)
    then have i: "i < length (key_overrides c)" using assms(2) by (simp add: ko_ok_def)
    show ?thesis using Some
      by (simp add: clear_active_override_def ask_plain [OF assms(1) i] ko_ok_def on_kb_def schedule_deferred_register_def
          clear_weak_override_mods_def clear_suppressed_override_mods_def override_frames Let_def)
  qed
  then show "ko_ok c (clear_active_override c t allow s)" "active_override (clear_active_override c t allow s) = None" by auto
qed

lemma activate_ok:
  assumes "plain_overrides c" "ko_ok c s" "i < length (key_overrides c)"
  shows "ko_ok c (activate c t keycode key_down is_mod mods i s)" "active_override (activate c t keycode key_down is_mod mods i s) = Some i"
proof -
  define s1 where "s1 = clear_active_override c t False s"
  have s1: "weak_override_mods (kb s1) = 0" using clear_ok [OF assms(1,2), of t False] by (simp add: s1_def ko_ok_def)
  show "active_override (activate c t keycode key_down is_mod mods i s) = Some i"
    by (simp add: activate_def Let_def on_kb_def schedule_deferred_register_def split: prod.split)
  show "ko_ok c (activate c t keycode key_down is_mod mods i s)"
    unfolding activate_def s1_def [symmetric] Let_def
    by (simp add: ask_plain [OF assms(1,3)] ko_ok_def assms(3) added_mods_def on_kb_def schedule_deferred_register_def
        set_suppressed_override_mods_def set_weak_override_mods_def override_frames s1 Let_def split: option.split)
qed

lemma try_cases:
  assumes "try_activating_override c t keycode layer key_down is_mod mods s = (send, activated, s')"
  shows "\<not> activated \<and> s' = s \<and> send \<or>
    activated \<and> (\<exists>i < length (key_overrides c). may_activate c keycode layer key_down is_mod mods s i \<and>
      s' = activate c t keycode key_down is_mod mods i s)"
proof (cases "filter (may_activate c keycode layer key_down is_mod mods s) [0..<length (key_overrides c)]")
  case Nil
  then show ?thesis using assms by (simp add: try_activating_override_def)
next
  case (Cons i rest)
  then have "i \<in> set (filter (may_activate c keycode layer key_down is_mod mods s) [0..<length (key_overrides c)])" by simp
  then have "i < length (key_overrides c)" "may_activate c keycode layer key_down is_mod mods s i" by simp_all
  moreover have "activated" "s' = activate c t keycode key_down is_mod mods i s" using assms Cons by (simp_all add: try_activating_override_def)
  ultimately show ?thesis by blast
qed

lemma ok_same:
  assumes "ko_ok c s" "active_override s' = active_override s" "suppressed_mods (kb s') = suppressed_mods (kb s)"
    "weak_override_mods (kb s') = weak_override_mods (kb s)"
  shows "ko_ok c s'"
  using assms by (simp add: ko_ok_def split: option.splits)

lemma note_key_frame: "kb (note_key t keycode d s) = kb s" "active_override (note_key t keycode d s) = active_override s"
  by (simp_all add: note_key_def)

lemma deactivation_ok:
  assumes "plain_overrides c" "ko_ok c s"
  shows "ko_ok c (check_deactivation c t keycode key_down mods s)"
    and "is_mod16 keycode \<Longrightarrow> active_override (check_deactivation c t keycode key_down mods s) = Some i \<Longrightarrow>
      key_override_matches_active_modifiers (key_overrides c ! i) mods"
proof -
  have u: "ko_ok c (s\<lparr>active_override_trigger_is_down := b\<rparr>)" for b by (rule ok_same [OF assms(2)]) simp_all
  show "ko_ok c (check_deactivation c t keycode key_down mods s)"
    using clear_ok(1) [OF assms(1)] assms(2) u by (simp add: check_deactivation_def Let_def split: option.split)
  show "is_mod16 keycode \<Longrightarrow> active_override (check_deactivation c t keycode key_down mods s) = Some i \<Longrightarrow>
      key_override_matches_active_modifiers (key_overrides c ! i) mods"
    using clear_ok(2) [OF assms] by (auto simp: check_deactivation_def Let_def split: option.splits if_splits)
qed

text \<open>An event of the handler in a state that is switched on, with a keycode that does not switch it.\<close>

lemma event_ok:
  assumes "plain_overrides c" "ko_ok c s" "ko_on s" "\<not> (pressed (event r) \<and> keycode \<in> {0x7C5D, 0x7C5E, 0x7C5F})"
    and "s' = snd (process_key_override c t layer keycode r s)"
  shows "ko_ok c s'"
    and "is_mod16 keycode \<Longrightarrow> active_override s' = Some i \<Longrightarrow>
      key_override_matches_active_modifiers (key_overrides c ! i) (effective_mods c keycode (pressed (event r)) (kb s))"
proof -
  let ?d = "pressed (event r)" and ?m = "effective_mods c keycode (pressed (event r)) (kb s)"
  define s1 where "s1 = note_key t keycode ?d s"
  have s1: "ko_ok c s1" by (rule ok_same [OF assms(2)]) (simp_all add: s1_def note_key_frame)
  obtain send act s2 where tried: "(if is_mod16 keycode \<or> ?d
       then (case try_activating_override c t keycode layer ?d (is_mod16 keycode) ?m s1 of
               (send, activated, s) \<Rightarrow> (send, activated, if \<not> send then on_kb (send_keyboard_report (ko_acfg c)) s else s))
       else (True, False, s1)) = (send, act, s2)" by (rule prod_cases3)
  have e: "s' = (if \<not> act then check_deactivation c t keycode ?d ?m s2 else s2)"
  proof -
    have n: "(?d \<and> keycode = 0x7C5D) = False" "(?d \<and> keycode = 0x7C5E) = False" "(?d \<and> keycode = 0x7C5F) = False" "(\<not> ko_on s) = False"
      using assms(3,4) by auto
    show ?thesis unfolding assms(5) process_key_override_def
      by (simp only: Let_def n if_False s1_def [symmetric] tried prod.case snd_conv)
  qed
  have sent: "ko_ok c (on_kb (send_keyboard_report (ko_acfg c)) x)" if "ko_ok c x" for x
    by (rule ok_same [OF that]) (simp_all add: on_kb_def override_frames)
  have a: "ko_ok c s2 \<and> (act \<longrightarrow> (\<exists>i. active_override s2 = Some i \<and> key_override_matches_active_modifiers (key_overrides c ! i) ?m))"
  proof (cases "is_mod16 keycode \<or> ?d")
    case True
    obtain send' act' s3 where t: "try_activating_override c t keycode layer ?d (is_mod16 keycode) ?m s1 = (send', act', s3)"
      by (metis prod_cases3)
    have "ko_ok c s3 \<and> (act' \<longrightarrow> (\<exists>i. active_override s3 = Some i \<and> key_override_matches_active_modifiers (key_overrides c ! i) ?m))"
      using try_cases [OF t] s1 activate_ok [OF assms(1) s1] by (auto simp: may_activate_def Let_def split: if_splits)
    then show ?thesis using tried t True sent by (auto simp: on_kb_def split: if_splits)
  next
    case False
    then show ?thesis using tried s1 by simp
  qed
  show "ko_ok c s'" unfolding e using a deactivation_ok(1) [OF assms(1)] by simp
  show "is_mod16 keycode \<Longrightarrow> active_override s' = Some i \<Longrightarrow> key_override_matches_active_modifiers (key_overrides c ! i) ?m"
    unfolding e using a deactivation_ok(2) [OF assms(1)] by (auto split: if_splits)
qed

lemma reach_ok:
  assumes "plain_overrides c"
  shows "ko_reach c s \<Longrightarrow> ko_ok c s"
proof (induction rule: ko_reach.induct)
  case (start a)
  then show ?case by (simp add: ko_ok_def ko_init_def)
next
  case (event s t layer keycode r)
  show ?case
  proof (cases "ko_on s \<and> \<not> (pressed (event r) \<and> keycode \<in> {0x7C5D, 0x7C5E, 0x7C5F})")
    case True
    then show ?thesis using event_ok(1) [OF assms event.IH _ _ refl] by blast
  next
    case False
    have on: "ko_ok c (s\<lparr>ko_on := b\<rparr>)" for b by (rule ok_same [OF event.IH]) simp_all
    have off: "ko_ok c (key_override_off c t s)" unfolding key_override_off_def by (rule clear_ok(1) [OF assms on])
    from False on off event.IH show ?thesis
      by (auto simp: process_key_override_def key_override_toggle_def key_override_on_def Let_def)
  qed
next
  case (task s t)
  show ?case by (rule ok_same [OF task.IH]) (simp_all add: key_override_task_def on_kb_def override_frames)
next
  case (other s f)
  show ?case by (rule ok_same [OF other.IH]) (use other.hyps in \<open>simp_all add: on_kb_def keeps_override_def\<close>)
qed

section \<open>Modifiers at the host\<close>







section \<open>A key and its replacement\<close>

text \<open>
  An override of one basic key by another, the first that may be activated by a press of its trigger.
\<close>

definition stands_for :: "'l ko_cfg \<Rightarrow> 'l ko_state \<Rightarrow> nat \<Rightarrow> u16 \<Rightarrow> u8 \<Rightarrow> nat \<Rightarrow> bool" where
  "stands_for c s layer keycode code i \<longleftrightarrow> i < length (key_overrides c) \<and> trigger (key_overrides c ! i) = keycode \<and>
    clear_mods_from (replacement (key_overrides c ! i)) = ucast code \<and> IS_BASIC_KEYCODE code \<and> 0xFF < SAFE_RANGE c \<and>
    may_activate c keycode layer True False (effective_mods c keycode True (kb s)) (s\<lparr>last_key_down := keycode\<rparr>) i \<and>
    (\<forall>j < i. \<not> may_activate c keycode layer True False (effective_mods c keycode True (kb s)) (s\<lparr>last_key_down := keycode\<rparr>) j)"

lemma basic_codes:
  assumes "IS_BASIC_KEYCODE code"
  shows "basic16 (ucast code)" "code \<noteq> 0" "(ucast code :: u16) \<noteq> 0" "(ucast (ucast code :: u16) :: u8) = code" "(ucast code :: u16) \<le> 0xFF"
proof -
  have r: "4 \<le> unat code" "unat code \<le> 0xA4" using assms by (simp_all add: IS_BASIC_KEYCODE_def word_le_nat_alt)
  then have u: "unat (ucast code :: u16) = unat code" by (simp add: unsigned_ucast_eq take_bit_nat_eq_self)
  show "basic16 (ucast code)" using r u by (simp add: basic16_def word_le_nat_alt)
  show "code \<noteq> 0" "(ucast code :: u16) \<noteq> 0" using r u by auto
  show "(ucast (ucast code :: u16) :: u8) = code" using r by (simp add: word_unat_eq_iff unsigned_ucast_eq unsigned_take_bit_eq take_bit_nat_eq_self)
  show "(ucast code :: u16) \<le> 0xFF" using r u by (simp add: word_le_nat_alt)
qed

lemma first_match:
  assumes "i < n" "p i" "\<forall>j < i. \<not> p j"
  shows "\<exists>rest. filter p [0..<n] = i # rest"
proof -
  have "[0..<n] = [0..<i] @ i # [Suc i..<n]" 
    using assms(1) upt_add_eq_append [of 0 i "n - i"] upt_conv_Cons [OF assms(1)] by simp
  then show ?thesis using assms(2,3) by simp
qed

text \<open>\<open>may_activate\<close> does not look at the times.\<close>

lemma may_activate_note:
  assumes "\<not> is_mod16 keycode"
  shows "may_activate c keycode layer kd im m (note_key t keycode True s) j = may_activate c keycode layer kd im m (s\<lparr>last_key_down := keycode\<rparr>) j"
  using assms by (simp add: may_activate_def note_key_def Let_def split: option.split)

lemma set_override_ok:
  assumes "kbd_ok cfg s"
  shows "kbd_ok cfg (set_suppressed_override_mods m s)" "is_key_pressed cfg k (set_suppressed_override_mods m s) = is_key_pressed cfg k s"
    "kbd_ok cfg (set_weak_override_mods m s)" "is_key_pressed cfg k (set_weak_override_mods m s) = is_key_pressed cfg k s"
    "report_room cfg (set_suppressed_override_mods m s) k = report_room cfg s k" "report_room cfg (set_weak_override_mods m s) k = report_room cfg s k"
proof -
  have f: "report_keys (set_suppressed_override_mods m s) = report_keys s" "nkro_bits (set_suppressed_override_mods m s) = nkro_bits s"
    "cb_head (set_suppressed_override_mods m s) = cb_head s" "cb_tail (set_suppressed_override_mods m s) = cb_tail s"
    "cb_count (set_suppressed_override_mods m s) = cb_count s"
    and g: "report_keys (set_weak_override_mods m s) = report_keys s" "nkro_bits (set_weak_override_mods m s) = nkro_bits s"
    "cb_head (set_weak_override_mods m s) = cb_head s" "cb_tail (set_weak_override_mods m s) = cb_tail s"
    "cb_count (set_weak_override_mods m s) = cb_count s"
    by (simp_all add: set_suppressed_override_mods_def set_weak_override_mods_def)
  have u: "use_nkro cfg (set_suppressed_override_mods m s) = use_nkro cfg s" "use_nkro cfg (set_weak_override_mods m s) = use_nkro cfg s"
    by (simp_all add: use_nkro_def set_suppressed_override_mods_def set_weak_override_mods_def)
  have h: "host_synced (set_suppressed_override_mods m s) = host_synced s" "host_synced (set_weak_override_mods m s) = host_synced s"
    by (simp_all add: host_synced_def host_sees_def set_suppressed_override_mods_def set_weak_override_mods_def)
  show "kbd_ok cfg (set_suppressed_override_mods m s)" "kbd_ok cfg (set_weak_override_mods m s)"
    using assms report_fields(2) [OF f, of cfg] report_fields(2) [OF g, of cfg] h by (simp_all add: kbd_ok_def)
  show "is_key_pressed cfg k (set_suppressed_override_mods m s) = is_key_pressed cfg k s"
    "is_key_pressed cfg k (set_weak_override_mods m s) = is_key_pressed cfg k s"
    using f g u by (simp_all add: is_key_pressed_def)
  show "report_room cfg (set_suppressed_override_mods m s) k = report_room cfg s k" "report_room cfg (set_weak_override_mods m s) k = report_room cfg s k"
    using f g u report_fields(1) [OF f] report_fields(1) [OF g] by (simp_all add: report_room_def)
qed

lemma override_press:
  assumes "plain_overrides c" "ko_on s" "active_override s = None" "kbd_ok (ko_acfg c) (kb s)" "ko_neutralizer c = None"
    and "\<not> is_mod16 keycode" "keycode \<notin> {0, 0x7C5D, 0x7C5E, 0x7C5F}" "pressed (event r)"
    and "stands_for c s layer keycode code i" "report_room (ko_acfg c) (kb s) code"
  defines "a \<equiv> set_weak_override_mods (extract_mod_bits (replacement (key_overrides c ! i)))
    (set_suppressed_override_mods (ko_suppressed (key_overrides c ! i)) (kb s))"
  shows "process_key_override c t layer keycode r s = (False, s\<lparr>active_override := Some i, active_override_trigger_is_down := True,
      last_key_down := keycode, last_key_down_time := t, deferred_register := 0,
      kb := send_keyboard_report (ko_acfg c) (add_key (ko_acfg c) code a)\<rparr>)"
    and "kbd_ok (ko_acfg c) (add_key (ko_acfg c) code a)"
    and "is_key_pressed (ko_acfg c) k (add_key (ko_acfg c) code a) \<longleftrightarrow> k = code \<or> is_key_pressed (ko_acfg c) k (kb s)"
proof -
  let ?ov = "key_overrides c ! i" and ?m = "effective_mods c keycode True (kb s)" and ?cfg = "ko_acfg c"
  have i: "i < length (key_overrides c)" "trigger ?ov = keycode" "clear_mods_from (replacement ?ov) = ucast code"
    "IS_BASIC_KEYCODE code" "0xFF < SAFE_RANGE c"
    using assms(9) by (simp_all add: stands_for_def)
  note b = basic_codes [OF i(4)]
  have lt: "(ucast code :: u16) < SAFE_RANGE c" using b(5) i(5) by (rule order.strict_trans1)
  let ?s1 = "note_key t keycode True s"
  have s1: "?s1 = s\<lparr>last_key_down := keycode, last_key_down_time := t, deferred_register := 0\<rparr>"
    using assms(6) by (simp add: note_key_def)
  obtain rest where f: "filter (may_activate c keycode layer True False ?m ?s1) [0..<length (key_overrides c)] = i # rest"
    using first_match [OF i(1), of "may_activate c keycode layer True False ?m ?s1"] assms(9)
    by (auto simp: stands_for_def may_activate_note [OF assms(6)])
  have act: "activate c t keycode True False ?m i ?s1 = ?s1\<lparr>active_override := Some i, active_override_trigger_is_down := True,
      kb := add_key ?cfg code a\<rparr>"
    using assms(3,5) i b lt
    by (simp add: activate_def clear_active_override_def s1 on_kb_def Let_def ask_plain [OF assms(1) i(1)] a_def)
  show "process_key_override c t layer keycode r s = (False, s\<lparr>active_override := Some i, active_override_trigger_is_down := True,
      last_key_down := keycode, last_key_down_time := t, deferred_register := 0, kb := send_keyboard_report ?cfg (add_key ?cfg code a)\<rparr>)"
    using assms(2,6-8) i(2) by (simp add: process_key_override_def try_activating_override_def f act Let_def on_kb_def) (simp add: s1)
  have a: "kbd_ok ?cfg a" "is_key_pressed ?cfg k a = is_key_pressed ?cfg k (kb s)" "report_room ?cfg a code" for k
    using set_override_ok [OF assms(4)] assms(10) set_override_ok [OF set_override_ok(1) [OF assms(4)]] by (simp_all add: a_def)
  show "kbd_ok ?cfg (add_key ?cfg code a)" by (rule key_ops_ok(1) [OF a(1) b(2)])
  have g: "report_good ?cfg a" using a(1) by (simp add: kbd_ok_def)
  show "is_key_pressed ?cfg k (add_key ?cfg code a) \<longleftrightarrow> k = code \<or> is_key_pressed ?cfg k (kb s)"
    using report.pressed_add [OF g b(2), of k] report.pressed_room [OF g b(2) a(3), of k] a(2) by (auto simp: add_key_def)
qed


section \<open>Properties\<close>

text \<open>
  C20: with overrides that have no custom action, in every state that events, tasks and the rest of the keyboard reach, modifiers are suppressed and added exactly as the active override has it, and not at all when none
  is active; and an event of a modifier key leaves no override active whose modifiers are not down.
\<close>

theorem overrides_follow_modifiers:
  assumes "plain_overrides c" "ko_reach c s"
  shows "(active_override s = None \<longrightarrow> suppressed_mods (kb s) = 0 \<and> weak_override_mods (kb s) = 0) \<and>
    (\<forall>i. active_override s = Some i \<longrightarrow> i < length (key_overrides c) \<and> suppressed_mods (kb s) = ko_suppressed (key_overrides c ! i) \<and>
      weak_override_mods (kb s) = added_mods c (key_overrides c ! i)) \<and>
    (\<forall>t layer keycode r i. ko_on s \<and> is_mod16 keycode \<and>
      active_override (snd (process_key_override c t layer keycode r s)) = Some i \<longrightarrow>
      key_override_matches_active_modifiers (key_overrides c ! i) (effective_mods c keycode (pressed (event r)) (kb s)))"
proof -
  have ok: "ko_ok c s" by (rule reach_ok [OF assms])
  moreover have "key_override_matches_active_modifiers (key_overrides c ! i) (effective_mods c keycode (pressed (event r)) (kb s))"
    if "ko_on s" "is_mod16 keycode" "active_override (snd (process_key_override c t layer keycode r s)) = Some i" for t layer keycode r i
    by (rule event_ok(2) [OF assms(1) ok that(1) _ refl that(2,3)]) (use that(2) in \<open>auto simp: is_mod16_def\<close>)
  ultimately show ?thesis by (auto simp: ko_ok_def)
qed


text \<open>Shift and backspace type delete, without shift.\<close>

definition shift_backspace :: "(16 word) key_override" where
  "shift_backspace = \<lparr>trigger = 0x2A, trigger_mods = 0x22, ko_layers = 0xFFFFFFFF, negative_mod_mask = 0, ko_suppressed = 0x22,
     replacement = 0x4C, options = 7, custom_action = None, ko_enabled = None\<rparr>"

definition demo_ko :: "(16 word) ko_cfg" where
  "demo_ko = \<lparr>ko_acfg = usb_cfg\<lparr>KEY_OVERRIDE_ENABLE := True\<rparr>, key_overrides = [shift_backspace], KEY_OVERRIDE_REPEAT_DELAY = 500,
     KEY_OVERRIDE_INCLUDE_WEAK_MODS = False, SAFE_RANGE = 0x7E40, ko_neutralizer = None\<rparr>"

definition shift_held :: "(16 word) action_state" where
  "shift_held = action_init\<lparr>real_mods := 0x02\<rparr>"

definition demo_key :: "bool \<Rightarrow> keyrecord" where
  "demo_key b = empty_record\<lparr>event := \<lparr>key = \<lparr>col = 0, row = 0\<rparr>, event_time = 0, event_type = KEY_EVENT, pressed = b\<rparr>\<rparr>"

lemma demo_plain: "plain_overrides demo_ko"
  by (simp add: plain_overrides_def demo_ko_def shift_backspace_def)

lemma demo_kbd: "kbd_ok (ko_acfg demo_ko) shift_held"
  by (simp add: kbd_ok_def demo_ko_def usb_cfg_def shift_held_def action_init_def report_good_def host_synced_def host_sees_def)

lemma demo_stands_for: "stands_for demo_ko (ko_init shift_held) 0 0x2A 0x4C 0"
proof -
  have eff: "effective_mods demo_ko 0x2A True (kb (ko_init shift_held)) = 2"
    by (simp add: effective_mods_def is_mod16_def demo_ko_def usb_cfg_def ko_init_def shift_held_def action_init_def)
  have m: "key_override_matches_active_modifiers shift_backspace 2"
    by (simp add: key_override_matches_active_modifiers_def shift_backspace_def bit_numeral_rec)
  show ?thesis unfolding stands_for_def eff using m
    by (simp add: demo_ko_def shift_backspace_def may_activate_def check_activation_event_def clear_mods_from_def
        IS_QK_MODS_def IS_BASIC_KEYCODE_def ko_init_def bit_numeral_rec Let_def)
qed

lemma demo_press:
  "ko_on (ko_init shift_held)" "active_override (ko_init shift_held) = None" "kbd_ok (ko_acfg demo_ko) (kb (ko_init shift_held))"
  "ko_neutralizer demo_ko = None" "\<not> is_mod16 0x2A" "(0x2A :: u16) \<notin> {0, 0x7C5D, 0x7C5E, 0x7C5F}" "pressed (event (demo_key True))"
  "\<not> pressed (event (demo_key False))" "report_room (ko_acfg demo_ko) (kb (ko_init shift_held)) 0x4C"
  "ko_suppressed (key_overrides demo_ko ! 0) = 0x22"
  using demo_kbd
  by (simp_all add: ko_init_def demo_ko_def is_mod16_def demo_key_def empty_record_def shift_backspace_def)
    (simp add: report_room_def usb_cfg_def shift_held_def action_init_def use_nkro_def)


lemma overrides_follow_modifiers_witness:
  "\<exists>s1. process_key_override demo_ko 5 0 0x2A (demo_key True) (ko_init shift_held) = (False, s1) \<and>
    active_override s1 = Some 0 \<and> suppressed_mods (kb s1) = 0x22"
proof -
  have "suppressed_mods shift_held = 0" "weak_override_mods shift_held = 0" by (simp_all add: shift_held_def action_init_def)
  then have r: "ko_reach demo_ko (ko_init shift_held)" by (rule ko_reach.start)
  obtain s1 where p: "process_key_override demo_ko 5 0 0x2A (demo_key True) (ko_init shift_held) = (False, s1)"
    and a: "active_override s1 = Some 0"
    using override_press(1) [OF demo_plain demo_press(1-7) demo_stands_for demo_press(9), where t = 5] by auto
  have "ko_reach demo_ko s1" using ko_reach.event [OF r] p by (metis snd_conv)
  from overrides_follow_modifiers [OF demo_plain this] a have "suppressed_mods (kb s1) = 0x22" by (simp add: demo_press(10))
  with p a show ?thesis by blast
qed

section \<open>Where it fails\<close>

text \<open>
  The end of an override narrows the code of the replacement to 8 bits: a custom keycode, which is never registered,
  releases another key.
\<close>

lemma custom_replacement_releases_key:
  assumes "plain_overrides c" "active_override s = Some i" "i < length (key_overrides c)" "kbd_ok (ko_acfg c) (kb s)"
    and "replacement (key_overrides c ! i) = 0x7E44" "SAFE_RANGE c = 0x7E40"
  shows "\<not> host_has_key (ko_acfg c) 0x44 (kb (clear_active_override c t allow s))"
proof -
  let ?cfg = "ko_acfg c"
  define a where "a = clear_weak_override_mods (clear_suppressed_override_mods (kb s))"
  have "a = set_weak_override_mods 0 (set_suppressed_override_mods 0 (kb s))"
    by (simp add: a_def clear_weak_override_mods_def clear_suppressed_override_mods_def set_weak_override_mods_def set_suppressed_override_mods_def)
  then have a: "kbd_ok ?cfg a" using set_override_ok(3) [OF set_override_ok(1) [OF assms(4)]] by simp
  have n: "(0x7E44 :: u8) = 0x44" by simp
  have "kb (clear_active_override c t allow s) = send_keyboard_report ?cfg (del_key ?cfg 0x44 a)"
    using assms(2,5,6) by (simp add: n clear_active_override_def clear_mods_from_def IS_QK_MODS_def IS_BASIC_KEYCODE_def
        ask_plain [OF assms(1,3)] on_kb_def schedule_deferred_register_def a_def Let_def)
  then show ?thesis using send_ok(3) [OF key_ops_ok(2) [OF a]] key_ops_ok(3) [OF a] by simp
qed

text \<open>
  While overrides are off, releases are not noted. Switched on again, a modifier activates the override of a key that is
  up, and its replacement is typed.
\<close>

lemma stale_trigger_activates:
  defines "s \<equiv> (ko_init action_init)\<lparr>last_key_down := 0x2A\<rparr>"
  shows "process_key_override demo_ko t 0 0x2A (demo_key False) (s\<lparr>ko_on := False\<rparr>) = (True, s\<lparr>ko_on := False\<rparr>)"
    and "deferred_register (snd (process_key_override demo_ko t 0 0xE1 (demo_key True) s)) = 0x4C"
proof -
  show "process_key_override demo_ko t 0 0x2A (demo_key False) (s\<lparr>ko_on := False\<rparr>) = (True, s\<lparr>ko_on := False\<rparr>)"
    by (simp add: process_key_override_def demo_key_def empty_record_def)
  have m: "key_override_matches_active_modifiers shift_backspace 2"
    by (simp add: key_override_matches_active_modifiers_def shift_backspace_def bit_numeral_rec)
  have eff: "effective_mods demo_ko 0xE1 True (kb s) = 2"
    by (simp add: effective_mods_def is_mod16_def MOD_BIT_def demo_ko_def usb_cfg_def s_def ko_init_def action_init_def)
  have n: "note_key t 0xE1 True s = s" by (simp add: note_key_def is_mod16_def)
  have may: "may_activate demo_ko 0xE1 0 True True 2 s 0" using m
    by (simp add: may_activate_def demo_ko_def shift_backspace_def check_activation_event_def s_def ko_init_def bit_numeral_rec Let_def)
  have f: "try_activating_override demo_ko t 0xE1 0 True True 2 s = (True, True, activate demo_ko t 0xE1 True True 2 0 s)"
    using may by (simp add: try_activating_override_def) (simp add: demo_ko_def shift_backspace_def)
  have a: "deferred_register (activate demo_ko t 0xE1 True True 2 0 s) = 0x4C"
    by (simp add: activate_def clear_active_override_def s_def ko_init_def ask_custom_def demo_ko_def shift_backspace_def
        clear_mods_from_def IS_QK_MODS_def on_kb_def schedule_deferred_register_def Let_def)
  have "ko_on s" "pressed (event (demo_key True))" "is_mod16 0xE1" by (simp_all add: s_def ko_init_def demo_key_def is_mod16_def)
  then show "deferred_register (snd (process_key_override demo_ko t 0 0xE1 (demo_key True) s)) = 0x4C"
    using f a eff n by (simp add: process_key_override_def Let_def)
qed

end
