(* ===== verification/OneshotLayers.thy ===== *)
theory OneshotLayers
  imports ActionProcessProps ReportFrames
begin

text \<open>
  One-shot layers at the level of key events: the records of the one-shot key and of other keys go through
  \<^verbatim>\<open>process_record\<close>, which switches the layer on and off.
\<close>

unbundle bit_operations_syntax

section \<open>Keys that leave the layers alone\<close>

lemma view_of_more:
  fixes s s' :: "'l action_state"
  assumes "report_state.more s' = report_state.more s"
  shows "layer_view s' = layer_view s"
  using assms by (cases s; cases s') (simp add: layer_view_def)

lemma key_views [frame_simps]:
  "layer_view (add_key cfg c s) = layer_view s" "layer_view (del_key cfg c s) = layer_view s"
  by (rule view_of_more, rule more_of_report)+

lemma code_views:
  assumes "IS_BASIC_KEYCODE c" "locking_key cfg c = None"
  shows "layer_view (register_code cfg c s) = layer_view s" "layer_view (unregister_code cfg c s) = layer_view s"
proof -
  have e: "layer_view (emit m s) = layer_view s" for m and s :: "'a action_state" by (simp add: layer_view_def emit_def)
  show "layer_view (register_code cfg c s) = layer_view s" "layer_view (unregister_code cfg c s) = layer_view s"
    using assms by (simp_all add: register_code_def unregister_code_def Let_def e frame_simps)
qed

text \<open>What of the state of the layers the one-shot machinery works on.\<close>

definition oneshot_view :: "'l process_state \<Rightarrow> 'l \<times> u8 \<times> bool" where
  "oneshot_view p = (layer_state (core p), oneshot_layer_data (core p), oneshot_enabled (core p))"

lemma view_steps [simp]:
  "oneshot_view (pa_leds pc a p) = oneshot_view p" "oneshot_view (p\<lparr>retro_tapping_counter := n\<rparr>) = oneshot_view p"
  "oneshot_view (on_core (use_oneshot_swaphands cfg) p) = oneshot_view p" "oneshot_view (p\<lparr>cache := x\<rparr>) = oneshot_view p"
  by (simp_all add: oneshot_view_def pa_leds_def on_core_def Let_def emit_def use_oneshot_swaphands_def clear_oneshot_swaphands_def)

lemma view_of_layer_view: "layer_view s' = layer_view s \<Longrightarrow> oneshot_view (p\<lparr>core := s'\<rparr>) = oneshot_view (p\<lparr>core := s\<rparr>)"
  by (simp add: layer_view_def oneshot_view_def)

section \<open>The keys\<close>

text \<open>
  A build with one-shot keys and without handlers of features; keys that are the same on all layers: the one-shot key of a
  layer, and ordinary keys.
\<close>

definition oneshot_build :: "('l::len word) process_cfg \<Rightarrow> bool" where
  "oneshot_build pc \<longleftrightarrow> \<not> NO_ACTION_ONESHOT (act pc) \<and> \<not> no_tapping pc \<and> \<not> no_layer pc \<and> ONESHOT_TAP_TOGGLE pc \<le> 1 \<and>
    \<not> RETRO_TAPPING pc \<and> layer_state_set_kb (act pc) = (\<lambda>l. l) \<and> quantum pc = (\<lambda>r p. (True, p)) \<and> post_quantum pc = (\<lambda>r p. p)"

definition key_record :: "('l::len word) process_cfg \<Rightarrow> keyrecord \<Rightarrow> bool" where
  "key_record pc r \<longleftrightarrow> \<not> IS_NOEVENT (event r) \<and> rec_keycode r = 0"

definition oneshot_layer_record :: "('l::len word) process_cfg \<Rightarrow> u8 \<Rightarrow> keyrecord \<Rightarrow> bool" where
  "oneshot_layer_record pc layer r \<longleftrightarrow> key_record pc r \<and> unat (tap_count r) \<le> 1 \<and>
    (\<forall>i. lookup pc i (key (event r)) = ACTION_LAYER_ONESHOT (ucast layer))"

definition plain_action :: "('l::len word) process_cfg \<Rightarrow> action_t \<Rightarrow> bool" where
  "plain_action pc a \<longleftrightarrow> kind_id a = ACT_LMODS \<and> key_mods a = 0 \<and> IS_BASIC_KEYCODE (key_code a) \<and> locking_key (act pc) (key_code a) = None"

definition plain_record :: "('l::len word) process_cfg \<Rightarrow> keyrecord \<Rightarrow> bool" where
  "plain_record pc r \<longleftrightarrow> key_record pc r \<and> (\<forall>i. plain_action pc (lookup pc i (key (event r))))"

lemma oneshot_action_fields:
  assumes "layer < 32"
  shows "kind_id (ACTION_LAYER_ONESHOT (ucast layer)) = ACT_LAYER_TAP \<or> kind_id (ACTION_LAYER_ONESHOT (ucast layer)) = ACT_LAYER_TAP_EXT"
    and "layer_tap_code (ACTION_LAYER_ONESHOT (ucast layer)) = 0xF4" and "layer_tap_val (ACTION_LAYER_ONESHOT (ucast layer)) = layer"
proof -
  have all: "list_all (\<lambda>l. let a = ACTION_LAYER_ONESHOT (ucast (of_nat l :: u8)) in
     (kind_id a = ACT_LAYER_TAP \<or> kind_id a = ACT_LAYER_TAP_EXT) \<and> layer_tap_code a = 0xF4 \<and> layer_tap_val a = of_nat l) [0..<32]"
    by code_simp
  have l: "unat layer < 32" using assms by (simp add: word_less_nat_alt)
  then have "unat layer \<in> set [0..<32]" by simp
  from all [unfolded list_all_iff, rule_format, OF this, unfolded Let_def]
  show "kind_id (ACTION_LAYER_ONESHOT (ucast layer)) = ACT_LAYER_TAP \<or> kind_id (ACTION_LAYER_ONESHOT (ucast layer)) = ACT_LAYER_TAP_EXT"
    "layer_tap_code (ACTION_LAYER_ONESHOT (ucast layer)) = 0xF4" "layer_tap_val (ACTION_LAYER_ONESHOT (ucast layer)) = layer"
    by simp_all
qed

lemma basic_not_modifier: "IS_BASIC_KEYCODE c \<Longrightarrow> \<not> IS_MODIFIER_KEYCODE c"
  by (auto simp: IS_BASIC_KEYCODE_def IS_MODIFIER_KEYCODE_def word_le_nat_alt)

lemma record_action_of:
  assumes "key_record pc r"
  obtains i q where "record_action pc r p = (lookup pc i (key (event r)), q)" "oneshot_view q = oneshot_view p" "core q = core p"
proof -
  obtain a c where s: "store_or_get_action (lays pc) (lookup pc) (pressed (event r)) (key (event r)) (core p) (cache p) = (a, c)" by force
  then have "\<exists>i. a = lookup pc i (key (event r))"
    by (auto simp: store_or_get_action_def layer_switch_get_action_def Let_def split: if_splits)
  then obtain i where "a = lookup pc i (key (event r))" by blast
  then show thesis using that [of i "p\<lparr>cache := c\<rparr>"] s assms by (simp add: record_action_def key_record_def oneshot_view_def)
qed

lemma process_record_run:
  assumes "oneshot_build pc" "key_record pc r"
  obtains i q where "process_record_with run pc r p = run r (lookup pc i (key (event r))) q" "oneshot_view q = oneshot_view p" "core q = core p"
proof -
  obtain i q where r: "record_action pc r p = (lookup pc i (key (event r)), q)" "oneshot_view q = oneshot_view p" "core q = core p"
    by (rule record_action_of [OF assms(2)])
  then show thesis using that [of i q] assms by (simp add: process_record_with_def key_record_def oneshot_build_def Let_def split_def)
qed

section \<open>Ordinary keys\<close>

lemma plain_switch:
  assumes "plain_action pc a" and "pa_switch pc r a rel p = (r', rel', q)"
  shows "r' = r \<and> rel' = rel \<and> oneshot_view q = oneshot_view p \<and> \<not> is_tap_action a"
proof -
  have a: "kind_id a = ACT_LMODS" "key_mods a = 0" "IS_BASIC_KEYCODE (key_code a)" "locking_key (act pc) (key_code a) = None"
    using assms(1) by (simp_all add: plain_action_def)
  have "layer_view (pa_mods_key (act pc) pr 0 (key_code a) s) = layer_view s" for pr s
    using code_views [OF a(3,4)] by (simp add: pa_mods_key_def Let_def)
  then have "oneshot_view (on_core (pa_mods_key (act pc) pr 0 (key_code a)) p) = oneshot_view p" for pr
    using view_of_layer_view [of _ "core p" p] by (simp add: on_core_def)
  then show ?thesis using assms(2) a by (auto simp: pa_switch_def is_tap_action_def Let_def)
qed

text \<open>A press uses up the one-shot layer when there is one.\<close>

definition uses_layer :: "('l::len word) process_state \<Rightarrow> bool" where
  "uses_layer p \<longleftrightarrow> is_oneshot_layer_active (core p) \<and> oneshot_enabled (core p)"

lemma plain_body:
  assumes "plain_action pc a" and "oneshot_build pc" and "process_action_body pc r a p = (r', rel, q)"
  defines "p' \<equiv> (if pressed (event r) \<and> uses_layer p then on_core (clear_oneshot_layer_state (act pc) ONESHOT_OTHER_KEY_PRESSED) p else p)"
  shows "r' = r \<and> oneshot_view q = oneshot_view p' \<and>
    rel = (pressed (event r) \<and> uses_layer p \<and> \<not> is_oneshot_layer_active (core p'))"
proof -
  have a: "kind_id a = ACT_LMODS" "IS_BASIC_KEYCODE (key_code a)" using assms(1) by (simp_all add: plain_action_def)
  have c: "clears_oneshot_layer pc r a (core p) = (pressed (event r) \<and> uses_layer p)"
    using basic_not_modifier [OF a(2)] a(1) assms(2) by (auto simp: clears_oneshot_layer_def uses_layer_def oneshot_build_def)
  obtain r1 rel1 q1 where s: "pa_switch pc r a (pressed (event r) \<and> uses_layer p \<and> \<not> is_oneshot_layer_active (core p')) p' = (r1, rel1, q1)"
    by (metis prod_cases3)
  note f = plain_switch [OF assms(1) s]
  have r: "oneshot_view (pa_retro pc r r1 a x) = oneshot_view x" for x using f by (simp add: pa_retro_def)
  show ?thesis
    using assms(3) s f r unfolding process_action_body_def c p'_def [symmetric] Let_def
    by (auto simp: p'_def split: if_splits)
qed

text \<open>Outside of a one-shot layer, and for a release, an ordinary key leaves the layers alone.\<close>

lemma plain_quiet:
  assumes "plain_record pc r" "oneshot_build pc" "\<not> (pressed (event r) \<and> uses_layer p)"
  shows "oneshot_view (snd (process_record pc r p)) = oneshot_view p"
proof -
  have k: "key_record pc r" "\<And>i. plain_action pc (lookup pc i (key (event r)))" using assms(1) by (simp_all add: plain_record_def)
  obtain i q where q: "process_record_with (process_action pc) pc r p = process_action pc r (lookup pc i (key (event r))) q"
    "oneshot_view q = oneshot_view p" "core q = core p" by (rule process_record_run [OF assms(2) k(1)])
  obtain r' rel q' where b: "process_action_body pc r (lookup pc i (key (event r))) q = (r', rel, q')" by (metis prod_cases3)
  have n: "\<not> (pressed (event r) \<and> uses_layer q)" using assms(3) q(3) by (simp add: uses_layer_def)
  have "oneshot_view q' = oneshot_view q" "\<not> rel" using plain_body [OF k(2) assms(2) b] n by auto
  then show ?thesis using q b by (simp add: process_record_def process_action_def)
qed

lemma plain_release_with:
  assumes "plain_record pc r" "oneshot_build pc" "\<not> pressed (event r)"
  shows "oneshot_view (snd (process_record_with (process_action_release pc) pc r p)) = oneshot_view p"
proof -
  have k: "key_record pc r" "\<And>i. plain_action pc (lookup pc i (key (event r)))" using assms(1) by (simp_all add: plain_record_def)
  obtain i q where q: "process_record_with (process_action_release pc) pc r p = process_action_release pc r (lookup pc i (key (event r))) q"
    "oneshot_view q = oneshot_view p" by (rule process_record_run [OF assms(2) k(1)])
  obtain r' rel q' where b: "process_action_body pc r (lookup pc i (key (event r))) q = (r', rel, q')" by (metis prod_cases3)
  show ?thesis using plain_body [OF k(2) assms(2) b] q b assms(3) by (simp add: process_action_release_def)
qed

section \<open>One step of the life of a one-shot layer\<close>

lemma view_iff: "oneshot_view p = (ls, d, b) \<longleftrightarrow> layer_state (core p) = ls \<and> oneshot_layer_data (core p) = d \<and> oneshot_enabled (core p) = b"
  by (simp add: oneshot_view_def)

lemma active_iff:
  assumes "oneshot_layer_data s = push_bit 3 layer OR st" "layer < 32" "st AND 7 = st"
  shows "is_oneshot_layer_active s \<longleftrightarrow> st \<noteq> 0"
  using oneshot_parts [OF assms(2,3)] assms(1) by (simp add: is_oneshot_layer_active_def get_oneshot_layer_state_def)

text \<open>The state after a part of the condition is met.\<close>

definition after_part :: "u8 \<Rightarrow> u8 \<Rightarrow> u8 \<Rightarrow> 'l::len word \<Rightarrow> 'l word \<times> u8 \<times> bool" where
  "after_part e layer st ls =
    (if st AND NOT e = 0 \<and> st \<noteq> 0 then (ls AND NOT (layer_mask (unat layer)), 0, True)
     else (ls, push_bit 3 layer OR (st AND NOT e), True))"

lemma clear_view_step:
  assumes "layer_state_set_kb cfg = (\<lambda>l. l)" "layer < 32" "st AND 7 = st" "e AND 7 = e"
    and "oneshot_view p = (ls, push_bit 3 layer OR st, True)"
  shows "oneshot_view (on_core (clear_oneshot_layer_state cfg e) p) = after_part e layer st ls"
proof -
  have v: "layer_state (core p) = ls" "oneshot_layer_data (core p) = push_bit 3 layer OR st" "oneshot_enabled (core p)"
    using assms(5) by (simp_all add: view_iff)
  note c = clear_oneshot_step [OF assms(1-3) v(2) assms(4)]
  show ?thesis using c v by (auto simp: after_part_def oneshot_view_def on_core_def)
qed

lemma parts: "ONESHOT_START AND 7 = ONESHOT_START" "ONESHOT_PRESSED AND 7 = ONESHOT_PRESSED"
  "ONESHOT_OTHER_KEY_PRESSED AND 7 = ONESHOT_OTHER_KEY_PRESSED" "(0 :: u8) AND 7 = 0"
  "ONESHOT_START AND NOT ONESHOT_PRESSED = ONESHOT_OTHER_KEY_PRESSED" "ONESHOT_START AND NOT ONESHOT_OTHER_KEY_PRESSED = ONESHOT_PRESSED"
  "ONESHOT_PRESSED AND NOT ONESHOT_PRESSED = 0" "ONESHOT_OTHER_KEY_PRESSED AND NOT ONESHOT_OTHER_KEY_PRESSED = 0"
  "ONESHOT_PRESSED AND NOT ONESHOT_OTHER_KEY_PRESSED = ONESHOT_PRESSED" "ONESHOT_OTHER_KEY_PRESSED AND NOT ONESHOT_PRESSED = ONESHOT_OTHER_KEY_PRESSED"
  "ONESHOT_START \<noteq> 0" "ONESHOT_PRESSED \<noteq> 0" "ONESHOT_OTHER_KEY_PRESSED \<noteq> 0"
  by (simp_all add: ONESHOT_START_def ONESHOT_PRESSED_def ONESHOT_OTHER_KEY_PRESSED_def)

lemma and_7_not: "st AND 7 = st \<Longrightarrow> (st AND NOT e) AND 7 = (st AND NOT e :: u8)"
  by (metis and.assoc and.commute)

text \<open>Another key is pressed while the one-shot layer waits.\<close>

lemma plain_press:
  fixes p :: "('l::len word) process_state"
  assumes "plain_record pc r" "oneshot_build pc" "pressed (event r)" "layer < 32" "st AND 7 = st" "st \<noteq> 0"
    and "oneshot_view p = (ls, push_bit 3 layer OR st, True)"
  shows "st AND NOT ONESHOT_OTHER_KEY_PRESSED \<noteq> 0 \<Longrightarrow>
      oneshot_view (snd (process_record pc r p)) = (ls, push_bit 3 layer OR (st AND NOT ONESHOT_OTHER_KEY_PRESSED), True)"
    and "st AND NOT ONESHOT_OTHER_KEY_PRESSED = 0 \<Longrightarrow>
      oneshot_view (snd (process_record pc r p)) = ((ls AND NOT (layer_mask (unat layer))) AND NOT (layer_mask 0), 0, True)"
proof -
  let ?e = ONESHOT_OTHER_KEY_PRESSED and ?cfg = "act pc"
  have k: "key_record pc r" "\<And>i. plain_action pc (lookup pc i (key (event r)))" using assms(1) by (simp_all add: plain_record_def)
  have kb: "layer_state_set_kb ?cfg = (\<lambda>l. l)" "\<not> NO_ACTION_ONESHOT ?cfg" using assms(2) by (simp_all add: oneshot_build_def)
  obtain i q where q: "process_record_with (process_action pc) pc r p = process_action pc r (lookup pc i (key (event r))) q"
    "oneshot_view q = oneshot_view p" "core q = core p" by (rule process_record_run [OF assms(2) k(1)])
  have vq: "oneshot_view q = (ls, push_bit 3 layer OR st, True)" using q(2) assms(7) by simp
  have act: "uses_layer q" using vq assms(6) active_iff [OF _ assms(4,5), of "core q"] by (simp add: uses_layer_def view_iff)
  obtain r' rel q' where b: "process_action_body pc r (lookup pc i (key (event r))) q = (r', rel, q')" by (metis prod_cases3)
  let ?q = "on_core (clear_oneshot_layer_state ?cfg ?e) q"
  have c: "oneshot_view ?q = after_part ?e layer st ls" by (rule clear_view_step [OF kb(1) assms(4,5) parts(3) vq])
  have B: "r' = r" "oneshot_view q' = after_part ?e layer st ls" "rel = (\<not> is_oneshot_layer_active (core ?q))"
    using plain_body [OF k(2) assms(2) b] act assms(3) c by simp_all
  show "oneshot_view (snd (process_record pc r p)) = (ls, push_bit 3 layer OR (st AND NOT ?e), True)" if n: "st AND NOT ?e \<noteq> 0"
  proof -
    have "\<not> rel" using B(3) c n active_iff [OF _ assms(4) and_7_not [OF assms(5)], of "core ?q" ?e] by (simp add: after_part_def view_iff)
    then show ?thesis using q(1) b B(2) n by (simp add: process_record_def process_action_def after_part_def)
  qed
  show "oneshot_view (snd (process_record pc r p)) = ((ls AND NOT (layer_mask (unat layer))) AND NOT (layer_mask 0), 0, True)"
    if z: "st AND NOT ?e = 0"
  proof -
    let ?ls = "ls AND NOT (layer_mask (unat layer)) :: 'l word"
    have v1: "oneshot_view q' = (?ls, 0, True)" "oneshot_view ?q = (?ls, 0, True)" using B(2) c z assms(6) by (simp_all add: after_part_def)
    have d0: "get_oneshot_layer s = 0" "get_oneshot_layer_state s = 0" if "oneshot_layer_data s = 0" for s :: "('l word) action_state"
      using that by (simp_all add: get_oneshot_layer_def get_oneshot_layer_state_def)
    have rel: rel using B(3) v1(2) d0(2) [of "core ?q"] by (simp add: is_oneshot_layer_active_def view_iff)
    let ?r = "r\<lparr>event := (event r)\<lparr>pressed := False\<rparr>\<rparr>"
    let ?q1 = "on_core (\<lambda>s. layer_on ?cfg (get_oneshot_layer s) s) q'"
    have pr: "plain_record pc ?r" using assms(1) by (simp add: plain_record_def key_record_def IS_NOEVENT_def)
    obtain r2 q2 where q2: "process_record_with (process_action_release pc) pc ?r ?q1 = (r2, q2)" by force
    have "oneshot_view ?q1 = (?ls OR layer_mask 0, 0, True)"
      using v1(1) d0(1) [of "core q'"] by (simp add: view_iff on_core_def on_off [OF kb(1)])
    then have v2: "oneshot_view q2 = (?ls OR layer_mask 0, 0, True)"
      using plain_release_with [OF pr assms(2), of ?q1] q2 by simp
    have "snd (process_record pc r p) = on_core (\<lambda>s. layer_off ?cfg (get_oneshot_layer s) s) q2"
      using q(1) b B(1) rel q2 kb(2) v1(1) d0(2) [of "core q'"]
      by (simp add: process_record_def process_action_def Let_def view_iff)
    moreover have "(?ls OR layer_mask 0) AND NOT (layer_mask 0) = ?ls AND NOT (layer_mask 0)"
      by (auto intro!: bit_word_eqI simp: bit_and_iff bit_or_iff bit_not_iff)
    ultimately show ?thesis
      using v2 d0(1) [of "core q2"] by (simp add: view_iff on_core_def on_off [OF kb(1)])
  qed
qed

text \<open>The one-shot key itself.\<close>

lemma oneshot_key:
  fixes p :: "('l::len word) process_state"
  assumes "oneshot_layer_record pc layer r" "oneshot_build pc" "layer < 32" "oneshot_enabled (core p)"
    and "\<not> (pressed (event r) \<and> is_oneshot_layer_active (core p))"
  shows "oneshot_view (snd (process_record pc r p)) =
    (if pressed (event r) then (layer_state (core p) OR layer_mask (unat layer), push_bit 3 layer OR ONESHOT_START, True)
     else oneshot_view (on_core (clear_oneshot_layer_state (act pc) ONESHOT_PRESSED) p))"
proof -
  let ?cfg = "act pc"
  have k: "key_record pc r" "\<And>i. lookup pc i (key (event r)) = ACTION_LAYER_ONESHOT (ucast layer)" "unat (tap_count r) \<le> 1"
    using assms(1) by (simp_all add: oneshot_layer_record_def)
  have bd: "layer_state_set_kb ?cfg = (\<lambda>l. l)" "\<not> NO_ACTION_ONESHOT ?cfg" "\<not> no_tapping pc" "\<not> no_layer pc" "ONESHOT_TAP_TOGGLE pc \<le> 1"
    "\<not> RETRO_TAPPING pc" using assms(2) by (simp_all add: oneshot_build_def)
  note f = oneshot_action_fields [OF assms(3)]
  obtain i q where q: "process_record_with (process_action pc) pc r p = process_action pc r (ACTION_LAYER_ONESHOT (ucast layer)) q"
    "oneshot_view q = oneshot_view p" "core q = core p" using process_record_run [OF assms(2) k(1)] k(2) by metis
  let ?a = "ACTION_LAYER_ONESHOT (ucast layer)"
  let ?s = "if pressed (event r) then set_oneshot_layer ?cfg layer ONESHOT_START (layer_on ?cfg layer (core p))
    else clear_oneshot_layer_state ?cfg ONESHOT_PRESSED (core p)"
  have nc: "\<not> clears_oneshot_layer pc r ?a (core q)" using assms(5) q(3) by (auto simp: clears_oneshot_layer_def)
  have ol: "pa_oneshot_layer pc (pressed (event r)) (unat (tap_count r)) layer False (core p) = (False, ?s)"
    using bd assms(4) k(3) by (simp add: pa_oneshot_layer_def Let_def)
  have sw: "pa_switch pc r ?a False q = (r, False, q\<lparr>core := ?s\<rparr>)"
    using f bd(3,4) q(3) ol by (auto simp: pa_switch_def pa_layer_tap_def Let_def)
  have "oneshot_view (snd (process_action pc r ?a q)) = oneshot_view (q\<lparr>core := ?s\<rparr>)"
    using nc sw bd(6) by (simp add: process_action_def process_action_body_def Let_def pa_retro_def)
  then have v: "oneshot_view (snd (process_record pc r p)) = oneshot_view (q\<lparr>core := ?s\<rparr>)" using q(1) by (simp add: process_record_def)
  show ?thesis
  proof (cases "pressed (event r)")
    case True
    have "oneshot_enabled (layer_on ?cfg layer (core p))" using on_off(5) [OF bd(1)] assms(4) by simp
    note so = set_oneshot_fields [OF bd(1) this]
    show ?thesis unfolding v using True so [of layer ONESHOT_START] on_off(1) [OF bd(1)] by (simp add: oneshot_view_def)
  next
    case False
    then show ?thesis unfolding v by (simp add: oneshot_view_def on_core_def)
  qed
qed

section \<open>A run of key events\<close>

text \<open>
  What the run keeps: the layer waits as long as the one-shot key is held or no other key has been pressed; its state
  forgets the parts that are met.
\<close>

definition oneshot_phase :: "bool \<Rightarrow> bool \<Rightarrow> u8" where
  "oneshot_phase used released = (if used then ONESHOT_PRESSED else if released then ONESHOT_OTHER_KEY_PRESSED else ONESHOT_START)"

definition switched_off :: "nat \<Rightarrow> 'l::len word \<Rightarrow> 'l word \<Rightarrow> bool" where
  "switched_off l ls ls' \<longleftrightarrow> (\<forall>n. n = 0 \<or> (bit ls' n \<longleftrightarrow> bit ls n \<and> n \<noteq> l))"

definition oneshot_inv :: "'l::len word \<Rightarrow> u8 \<Rightarrow> bool \<Rightarrow> bool \<Rightarrow> ('l word) process_state \<Rightarrow> bool" where
  "oneshot_inv ls layer used released p \<longleftrightarrow>
    (if used \<and> released then \<exists>ls'. switched_off (unat layer) ls ls' \<and> oneshot_view p = (ls', 0, True)
     else oneshot_view p = (ls OR layer_mask (unat layer), push_bit 3 layer OR oneshot_phase used released, True))"

lemma switched_off_masks:
  "switched_off l ls ((ls OR layer_mask l) AND NOT (layer_mask l))"
  "switched_off l ls (((ls OR layer_mask l) AND NOT (layer_mask l)) AND NOT (layer_mask 0))"
  by (auto simp: switched_off_def bit_and_iff bit_or_iff bit_not_iff dest: bit_imp_le_length)

lemma phases: "oneshot_phase u r AND 7 = oneshot_phase u r" "oneshot_phase u r \<noteq> 0"
  "oneshot_phase False r AND NOT ONESHOT_OTHER_KEY_PRESSED = (if r then 0 else ONESHOT_PRESSED)"
  "oneshot_phase True r = ONESHOT_PRESSED"
  "oneshot_phase u False AND NOT ONESHOT_PRESSED = (if u then 0 else ONESHOT_OTHER_KEY_PRESSED)"
  "oneshot_phase False True = ONESHOT_OTHER_KEY_PRESSED"
  by (auto simp: oneshot_phase_def parts)

lemma plain_step:
  fixes p :: "('l::len word) process_state"
  assumes "plain_record pc r" "oneshot_build pc" "layer < 32" "oneshot_inv ls layer u rl p"
  shows "oneshot_inv ls layer (u \<or> pressed (event r)) rl (snd (process_record pc r p))"
proof (cases "pressed (event r) \<and> \<not> (u \<and> rl)")
  case False
  have "oneshot_view (snd (process_record pc r p)) = oneshot_view p"
    if ended: "pressed (event r) \<longrightarrow> \<not> is_oneshot_layer_active (core p)" using plain_quiet [OF assms(1,2)] ended by (auto simp: uses_layer_def)
  moreover have "\<not> is_oneshot_layer_active (core p)" if "pressed (event r)"
    using assms(4) False that by (auto simp: oneshot_inv_def view_iff is_oneshot_layer_active_def get_oneshot_layer_state_def)
  ultimately show ?thesis using assms(4) False by (auto simp: oneshot_inv_def)
next
  case True
  then have v: "oneshot_view p = (ls OR layer_mask (unat layer), push_bit 3 layer OR oneshot_phase u rl, True)"
    using assms(4) by (simp only: oneshot_inv_def if_False)
  note P = plain_press [OF assms(1,2) _ assms(3) phases(1,2) v]
  show ?thesis
  proof (cases rl)
    case rl: True
    then have "oneshot_phase u rl AND NOT ONESHOT_OTHER_KEY_PRESSED = 0" using True by (simp add: phases)
    from P(2) [OF _ this] show ?thesis using True rl switched_off_masks(2) by (auto simp: oneshot_inv_def)
  next
    case nrl: False
    have o: "oneshot_phase u rl AND NOT ONESHOT_OTHER_KEY_PRESSED = oneshot_phase True rl"
      using nrl by (cases u) (simp_all add: phases parts)
    then show ?thesis using P(1) True nrl phases(2) [of True rl] by (simp add: oneshot_inv_def o)
  qed
qed

lemma release_step:
  fixes p :: "('l::len word) process_state"
  assumes "oneshot_layer_record pc layer r" "\<not> pressed (event r)" "oneshot_build pc" "layer < 32" "oneshot_inv ls layer u rl p"
  shows "oneshot_inv ls layer u True (snd (process_record pc r p))"
proof -
  have kb: "layer_state_set_kb (act pc) = (\<lambda>l. l)" using assms(3) by (simp add: oneshot_build_def)
  have en: "oneshot_enabled (core p)" using assms(5) by (auto simp: oneshot_inv_def view_iff split: if_splits)
  have v: "oneshot_view (snd (process_record pc r p)) = oneshot_view (on_core (clear_oneshot_layer_state (act pc) ONESHOT_PRESSED) p)"
    using oneshot_key [OF assms(1,3,4) en] assms(2) by simp
  note C = clear_view_step [OF kb _ _ parts(2)]
  show ?thesis
  proof (cases "u \<and> rl")
    case True
    then obtain ls' where "switched_off (unat layer) ls ls'" "oneshot_view p = (ls', push_bit 3 0 OR 0, True)"
      using assms(5) by (auto simp: oneshot_inv_def)
    then show ?thesis using C [of 0 0 p ls'] v True by (auto simp: oneshot_inv_def after_part_def)
  next
    case False
    then have p: "oneshot_view p = (ls OR layer_mask (unat layer), push_bit 3 layer OR oneshot_phase u rl, True)"
      using assms(5) by (simp only: oneshot_inv_def if_False)
    note A = C [OF assms(4) phases(1) p]
    show ?thesis
    proof (cases u)
      case True
      then show ?thesis using A v False switched_off_masks(1) by (auto simp: oneshot_inv_def after_part_def phases parts)
    next
      case nu: False
      have "oneshot_phase u rl AND NOT ONESHOT_PRESSED = oneshot_phase False True"
        using nu by (cases rl) (simp_all add: phases parts)
      then show ?thesis using A v nu phases(2) [of False True] by (simp add: oneshot_inv_def after_part_def)
    qed
  qed
qed

text \<open>A key is never both: the one-shot key is no ordinary key.\<close>

lemma oneshot_not_plain: "layer < 32 \<Longrightarrow> oneshot_layer_record pc layer r \<Longrightarrow> \<not> plain_record pc r"
  using oneshot_action_fields(1) [of layer]
  by (auto simp: plain_record_def plain_action_def oneshot_layer_record_def)

abbreviation process_records :: "('l::len word) process_cfg \<Rightarrow> keyrecord list \<Rightarrow> ('l word) process_state \<Rightarrow> ('l word) process_state" where
  "process_records pc \<equiv> fold (\<lambda>r p. snd (process_record pc r p))"

lemma run_step:
  assumes "oneshot_build pc" "layer < 32"
    and "\<forall>r\<in>set evs. plain_record pc r \<or> oneshot_layer_record pc layer r \<and> \<not> pressed (event r)"
    and "oneshot_inv ls layer u rl p"
  shows "oneshot_inv ls layer (u \<or> (\<exists>r\<in>set evs. plain_record pc r \<and> pressed (event r)))
    (rl \<or> (\<exists>r\<in>set evs. oneshot_layer_record pc layer r)) (process_records pc evs p)"
  using assms(3,4)
proof (induction evs arbitrary: u rl p)
  case (Cons r evs)
  show ?case
  proof (cases "plain_record pc r")
    case True
    then have "\<not> oneshot_layer_record pc layer r" using oneshot_not_plain [OF assms(2)] by blast
    then show ?thesis
      using Cons.IH [OF _ plain_step [OF True assms(1,2) Cons.prems(2)]] Cons.prems(1) True by (simp add: disj_assoc)
  next
    case False
    then have o: "oneshot_layer_record pc layer r" "\<not> pressed (event r)" using Cons.prems(1) by auto
    then show ?thesis
      using Cons.IH [OF _ release_step [OF o assms(1,2) Cons.prems(2)]] Cons.prems(1) False by simp
  qed
qed simp

text \<open>
  C32: The life of a one-shot layer. After its key has been pressed, whatever ordinary keys are pressed and released and
  whenever the one-shot key is released: the layer is on, and waits, until both the one-shot key has been released and another
  key has been pressed, in either order; from then on it is off, and the other layers are as they were (layer 0 can be switched
  off by the release that the firmware sends itself). The keys go through \<^verbatim>\<open>process_record\<close>; no timeout falls between them; an
  ordinary key sends a basic keycode on every layer.
\<close>

theorem oneshot_layer_until_released_and_used:
  fixes p :: "('l::len word) process_state"
  assumes "oneshot_build pc" and "layer < 32"
    and "oneshot_layer_record pc layer r0" and "pressed (event r0)"
    and "oneshot_enabled (core p)" and "\<not> is_oneshot_layer_active (core p)"
    and "\<forall>r\<in>set evs. plain_record pc r \<or> oneshot_layer_record pc layer r \<and> \<not> pressed (event r)"
  defines "q \<equiv> process_records pc (r0 # evs) p"
    and "used \<equiv> \<exists>r\<in>set evs. plain_record pc r \<and> pressed (event r)"
    and "released \<equiv> \<exists>r\<in>set evs. oneshot_layer_record pc layer r"
  shows "if used \<and> released
    then \<not> is_oneshot_layer_active (core q) \<and>
      (\<forall>n. n = 0 \<or> (bit (layer_state (core q)) n \<longleftrightarrow> bit (layer_state (core p)) n \<and> n \<noteq> unat layer))
    else is_oneshot_layer_active (core q) \<and> get_oneshot_layer (core q) = layer \<and>
      layer_state (core q) = layer_state (core p) OR layer_mask (unat layer)"
proof -
  have "oneshot_inv (layer_state (core p)) layer False False (snd (process_record pc r0 p))"
    using oneshot_key [OF assms(3,1,2,5)] assms(4,6) by (simp add: oneshot_inv_def oneshot_phase_def)
  from run_step [OF assms(1,2,7) this]
  have i: "oneshot_inv (layer_state (core p)) layer used released q" by (simp add: q_def used_def released_def)
  show ?thesis
  proof (cases "used \<and> released")
    case True
    then show ?thesis using i
      by (auto simp: oneshot_inv_def view_iff switched_off_def is_oneshot_layer_active_def get_oneshot_layer_state_def)
  next
    case False
    then have v: "oneshot_view q = (layer_state (core p) OR layer_mask (unat layer), push_bit 3 layer OR oneshot_phase used released, True)"
      using i by (simp only: oneshot_inv_def if_False)
    then have d: "oneshot_layer_data (core q) = push_bit 3 layer OR oneshot_phase used released" by (simp add: view_iff)
    have "is_oneshot_layer_active (core q)" "get_oneshot_layer (core q) = layer"
      using active_iff [OF d assms(2) phases(1)] phases(2) oneshot_parts(1) [OF assms(2) phases(1)] d by (simp_all add: get_oneshot_layer_def)
    then show ?thesis using v False by (simp add: view_iff)
  qed
qed

text \<open>A one-shot key at column 0 and a letter at column 1, which is another letter on layer 1.\<close>

definition oneshot_pc :: "(16 word) process_cfg" where
  "oneshot_pc = demo_pc\<lparr>lookup := (\<lambda>i k. if col k = 0 then ACTION_LAYER_ONESHOT 1 else if i = 1 then 5 else 4)\<rparr>"

lemma oneshot_pc_keys:
  "oneshot_build oneshot_pc" "oneshot_layer_record oneshot_pc 1 (demo_record 0 x)" "plain_record oneshot_pc (demo_record 1 x)"
proof -
  show "oneshot_build oneshot_pc" by (simp add: oneshot_build_def oneshot_pc_def demo_pc_def usb_cfg_def)
  show "oneshot_layer_record oneshot_pc 1 (demo_record 0 x)"
    by (simp add: oneshot_layer_record_def key_record_def demo_record_def IS_NOEVENT_def oneshot_pc_def)
  have f: "kind_id 4 = ACT_LMODS \<and> key_mods 4 = 0 \<and> IS_BASIC_KEYCODE (key_code 4)"
    "kind_id 5 = ACT_LMODS \<and> key_mods 5 = 0 \<and> IS_BASIC_KEYCODE (key_code 5)" by code_simp+
  have "plain_action oneshot_pc 4" "plain_action oneshot_pc 5"
    using f by (simp_all add: plain_action_def oneshot_pc_def demo_pc_def usb_cfg_def locking_key_def)
  then show "plain_record oneshot_pc (demo_record 1 x)"
    by (simp add: plain_record_def key_record_def demo_record_def IS_NOEVENT_def oneshot_pc_def)
qed

lemma oneshot_layer_until_released_and_used_witness:
  "(let q = process_records oneshot_pc [demo_record 0 True, demo_record 1 True] demo_process in
      is_oneshot_layer_active (core q) \<and> layer_state (core q) = 2) \<and>
   (let q = process_records oneshot_pc [demo_record 0 True, demo_record 1 True, demo_record 0 False, demo_record 1 False] demo_process in
      \<not> is_oneshot_layer_active (core q) \<and> \<not> bit (layer_state (core q)) 1)"
proof -
  note b = oneshot_pc_keys(1) and one = oneshot_pc_keys(2) and pl = oneshot_pc_keys(3)
  have no: "\<not> oneshot_layer_record oneshot_pc 1 (demo_record 1 x)" for x using oneshot_not_plain [of 1] pl by fastforce
  have i: "oneshot_enabled (core demo_process)" "\<not> is_oneshot_layer_active (core demo_process)" "layer_state (core demo_process) = 0"
    by (simp_all add: demo_process_def action_init_def is_oneshot_layer_active_def get_oneshot_layer_state_def)
  have pr: "pressed (event (demo_record c x)) = x" for c x by (simp add: demo_record_def)
  note T = oneshot_layer_until_released_and_used [OF b _ one _ i(1,2), of True]
  show ?thesis
    using T [of "[demo_record 1 True]"] T [of "[demo_record 1 True, demo_record 0 False, demo_record 1 False]"]
    by (auto simp: one pl no pr i(3) layer_mask_def Let_def)
qed

text \<open>
  The release that \<^verbatim>\<open>process_action\<close> sends itself comes after the one-shot data has been cleared: it is layer 0 that is
  switched on and off around it, so that a layer 0 that was on is off afterwards.
\<close>

lemma nested_release_leaves_layer_0:
  assumes "oneshot_view p = (1, 0, True)"
  shows "layer_state (core (process_records oneshot_pc [demo_record 0 True, demo_record 0 False] p)) = 3"
    and "layer_state (core (process_records oneshot_pc [demo_record 0 True, demo_record 0 False, demo_record 1 True] p)) = 0"
proof -
  note K = oneshot_pc_keys
  let ?run = "\<lambda>r p. snd (process_record oneshot_pc r p)"
  have pr: "pressed (event (demo_record c x)) = x" for c x by (simp add: demo_record_def)
  have i: "oneshot_enabled (core p)" "\<not> is_oneshot_layer_active (core p)" "layer_state (core p) = 1"
    using assms by (simp_all add: view_iff is_oneshot_layer_active_def get_oneshot_layer_state_def)
  let ?p1 = "?run (demo_record 0 True) p"
  have 1: "oneshot_view ?p1 = (3, push_bit 3 1 OR ONESHOT_START, True)"
    using oneshot_key [OF K(2,1) _ i(1)] i(2,3) pr by (simp add: layer_mask_def)
  let ?p2 = "?run (demo_record 0 False) ?p1"
  have kb: "layer_state_set_kb (act oneshot_pc) = (\<lambda>l. l)" using K(1) by (simp add: oneshot_build_def)
  have 2: "oneshot_view ?p2 = (3, push_bit 3 1 OR ONESHOT_OTHER_KEY_PRESSED, True)"
    using oneshot_key [OF K(2,1), of ?p1 False] clear_view_step [OF kb _ parts(1,2) 1] 1 pr
    by (simp add: view_iff after_part_def parts)
  show "layer_state (core (process_records oneshot_pc [demo_record 0 True, demo_record 0 False] p)) = 3"
    using 2 by (simp add: view_iff)
  have "oneshot_view (?run (demo_record 1 True) ?p2) = ((3 AND NOT (layer_mask (unat (1 :: u8)))) AND NOT (layer_mask 0), 0, True)"
    using plain_press(2) [OF K(3,1) _ _ parts(3,13) 2] pr parts by simp
  then show "layer_state (core (process_records oneshot_pc [demo_record 0 True, demo_record 0 False, demo_record 1 True] p)) = 0"
    by (simp add: view_iff layer_mask_def)
qed

end
