(* ===== verification/Spec2Isabelle.thy ===== *)
theory Spec2Isabelle
  imports Bitwise Fnv WearLevelingStore DebounceTiming ReportRing SourceLayers KeyLock Secure DeferredExec ActionExec KeymapMacros
    DynamicMacroProps TapDanceProps Leader Quantum UnicodeProps EncoderProps EeConfigProps ViaProps SpaceCadet Magic
    MacroText AutocorrectProps KeyboardProps MousekeyProps RepeatKeyProps
    KeyOverrideProps OneshotLayers
begin

text \<open>
  A verification library of the core of the QMK keyboard firmware, in C under \<^verbatim>\<open>src/\<close>.

  \<^bold>\<open>The program.\<close> A scan of the key matrix is debounced (\<^verbatim>\<open>quantum/debounce\<close>); each changed key is an event
  that \<^verbatim>\<open>action_exec\<close> (\<^verbatim>\<open>quantum/action.c\<close>) takes through hand swapping, the timeouts of the one-shot keys
  and the tapping machine (\<^verbatim>\<open>quantum/action_tapping.c\<close>), which decides between tap and hold and keeps the
  events that wait for the decision. \<^verbatim>\<open>process_record\<close> asks the feature handlers, looks up the action on the
  active layers (\<^verbatim>\<open>action_layer.c\<close>, \<^verbatim>\<open>keymap_common.c\<close>, \<^verbatim>\<open>keymap_introspection.c\<close>), and executes it: it
  changes layers, modifiers and the keyboard report (\<^verbatim>\<open>action_util.c\<close>, \<^verbatim>\<open>tmk_core/protocol/report.c\<close>), which
  is sent to the host (\<^verbatim>\<open>host.c\<close>). Settings, keymaps and macros live in an EEPROM
  (\<^verbatim>\<open>drivers/eeprom\<close>, \<^verbatim>\<open>dynamic_keymap.c\<close>), which may be emulated on flash (\<^verbatim>\<open>quantum/wear_leveling\<close>).

  \<^bold>\<open>Conventions.\<close> Machine integers are words of their width (\<open>u8\<close>, \<open>u16\<close>, \<open>u32\<close>, \<open>u64\<close>); sums in \<^verbatim>\<open>int\<close> that
  cannot overflow are \<open>int\<close> or \<open>nat\<close>. Static variables of a file are a record, threaded through its operations.
  Preprocessor options that change behaviour are fields of a configuration record, so a theorem covers every
  build. Code that is not in the model (callbacks, user hooks, device drivers, songs) is an argument, or a call
  recorded in the state. An access outside of an array is \<open>None\<close> where the code can make one, and a
  theorem that gives \<open>Some\<close> says that it does not.

  \<^bold>\<open>Storage.\<close> \<open>BackingStore\<close> states the contract of a flash driver
  (\<^verbatim>\<open>wear_leveling_internal.h\<close>) as locales, \<open>MockStore\<close> interprets them with the driver of the unit tests.
  \<open>WearLeveling\<close> models \<^verbatim>\<open>wear_leveling.c\<close> for items of 2, 4 and 8 bytes; \<open>WearLevelingLog\<close> proves the codec of the
  log entries, \<open>WearLevelingStore\<close> the invariant (the log replayed over the consolidated image is the
  cache), that writes keep it and are durable, and that initialisation recovers the cache. \<open>Fnv\<close> and \<open>Bitwise\<close>
  hold the hashes, CRC-8 and bit utilities. \<open>Eeprom\<close> states the contract of an EEPROM as a locale,
  interpreted by the transient driver and by the wear-leveling driver; on it rest \<open>DynamicKeymap\<close>
  (\<^verbatim>\<open>dynamic_keymap.c\<close>), \<open>DynamicKeymapProps\<close> and \<open>KeymapMacros\<close>: the keymap is a map, it survives a power
  cycle, macros are stored and read back, and sending one stays in its buffer but for one case. \<open>EeConfig\<close> and
  \<open>EeConfigProps\<close> are the settings (\<^verbatim>\<open>eeconfig.c\<close>), a record with an address for each field; \<open>Via\<close> and \<open>ViaProps\<close>
  the commands of the host (\<^verbatim>\<open>via.c\<close>) and its initialisation, which is run over an EEPROM that loses
  power after a number of writes (\<open>powered\<close>).

  \<^bold>\<open>From the matrix to the report.\<close> \<open>Keyboard\<close> and \<open>KeyboardProps\<close> are the matrix task (\<^verbatim>\<open>keyboard.c\<close>): scans, ghosts and
  the events of changed keys. \<open>Debounce\<close>, \<open>DebounceProps\<close> and \<open>DebounceTiming\<close> model the seven algorithms, their
  common contract (locale \<open>debouncer\<close>) and their timing over runs. \<open>Report\<close> models the three
  representations of the report; \<open>ReportProps\<close> and \<open>ReportRing\<close> show that each is a set of pressed keys (locale
  \<open>key_report\<close>) and the ring buffer a queue. \<open>ActionUtil\<close>, \<open>Action\<close> and \<open>ActionProps\<close> are modifiers, one-shot modifiers,
  sending of reports and registering of keys, and what the host sees of them. \<open>ActionLayer\<close>, \<open>ActionLayerProps\<close> and
  \<open>SourceLayers\<close> are layers, one-shot layers, the lookup and the cache that lets a release use the layer of
  its press. \<open>Keycodes\<close>, \<open>KeycodeConfig\<close>, \<open>Keymap\<close> and \<open>KeymapProps\<close> translate keycodes to actions. \<open>KeyEvent\<close>,
  \<open>ActionProcess\<close> and \<open>ActionProcessProps\<close> are \<^verbatim>\<open>process_record\<close> and every branch of \<^verbatim>\<open>process_action\<close>; \<open>Tapping\<close> and
  \<open>TappingProps\<close> the tapping machine, its bookkeeping of presses (locale \<open>tap_client\<close>, interpreted by the
  model of \<^verbatim>\<open>process_record\<close>) and the decision between tap and hold; \<open>ActionExec\<close> composes them into \<^verbatim>\<open>action_exec\<close>.

  \<^bold>\<open>Features.\<close> Each handler is a theory over the parts of the keyboard it uses: \<open>KeyLock\<close> (a refinement to a set
  of keys), \<open>Secure\<close> (a step relation whose runs unlock only after the sequence), \<open>DeferredExec\<close> (a table of
  callbacks, locale \<open>safe_callback\<close>), \<open>DynamicMacro\<close> and \<open>DynamicMacroProps\<close> (two lists in one buffer; the
  records of a playback go back through the handler, whose fuel bounds the depth of macros that play each other: a theorem that
  has a result has it for some fuel, and \<open>recursive_macro_hangs\<close> shows that a macro that plays itself has none), \<open>TapDance\<close> and \<open>TapDanceProps\<close>, \<open>Leader\<close>, \<open>Quantum\<close> (16-bit codes),
  \<open>Unicode\<close> and \<open>UnicodeProps\<close>, \<open>Encoder\<close> and \<open>EncoderProps\<close> (rotary encoders), \<open>CapsWord\<close>, \<open>SpaceCadet\<close> (with grave
  escape), \<open>Magic\<close> (the keys that change the settings), \<open>SendString\<close> and \<open>SendStringProps\<close> (strings as key presses, and
  what a host with the US layout reads of them), \<open>MacroText\<close> (from the macro buffer to that host), \<open>Autocorrect\<close> and
  \<open>AutocorrectProps\<close> (the dictionary is read as a trie by \<open>decode\<close>, whose fuel bounds the depth of the trie), \<open>RepeatKey\<close> and
  \<open>RepeatKeyProps\<close> (the recursion through \<^verbatim>\<open>process_record\<close> has its depth as fuel; two is enough), \<open>Mousekey\<close> and
  \<open>MousekeyProps\<close> (locale \<open>pointer_keys\<close>, interpreted by the four builds without inertia), \<open>KeyOverride\<close> and
  \<open>KeyOverrideProps\<close> (an inductive set of reachable states).
  \<open>ReportFrames\<close> is what reports leave alone, and \<open>OneshotLayers\<close> follows a one-shot layer through runs of key records.

  \<^bold>\<open>Loops.\<close> Loops over arrays are structural recursions or folds. The ring of the report is searched with six
  turns of fuel, its size. \<open>process_waiting\<close> runs with the number of waiting events as fuel: each turn consumes
  one event and nothing in it adds one. \<open>encoder_handle_queue\<close> has the size of the queue as fuel, shown to be
  enough by \<open>handle_events_queued\<close> when executing an event queues none. \<open>wl_write_raw\<close>, \<open>wl_playback_loop\<close>
  and \<open>bitpop_loop\<close> are functions with a termination proof. \<open>allocate_loop\<close>, \<open>skip_macros\<close>, \<open>macro_strings\<close>,
  \<open>play_records\<close>, \<open>trim_pointer\<close> and \<open>send_unicode_string\<close> are partial functions, since the code may run on behind
  its data; the theorems about them give \<open>Some\<close>.

  \<^bold>\<open>Lemma groups.\<close> Each \<open>...Props\<close> theory first builds the laws of single operations, then an invariant
  or an abstraction (a list, a set, a map, a multiset of events), then the properties. The prelude \<open>QmkPrelude\<close> holds
  the bit-level lemmas and the collections of simplification rules they share. Lemmas at the end of a theory
  evaluate the model at inputs where the code departs from its documentation.

  \<^bold>\<open>Not modelled.\<close> USB and Bluetooth stacks, platform timers, flash and bus drivers, the pins of the matrix and the order of
  the tasks in the main loop are device I/O. Lighting, display, audio, MIDI and split transport are drivers and animation. The code of single
  keyboards is data and board support. Debug output is left out everywhere. Builds with retro
  shift, and the feature handlers of \<^verbatim>\<open>process_record_quantum\<close> that have no theory here, are not modelled yet; the
  handlers are one parameter of \<open>ActionProcess\<close>, and the theorems about \<open>action_exec\<close> and the tapping machine hold for
  every choice of it.
\<close>

end
